(* ===== verification/Prelude.thy ===== *)
theory Prelude
  imports Main "HOL-Library.Word"
begin

text \<open>
  Shared vocabulary of the development: the C integer types of glib as words, the exceptions that
  the dissection engine throws (epan/exceptions.h) as values of a sum type, and the generic
  lemmas on lists, words and big-endian numbers that the component theories use.

  A \<open>gint\<close> is kept as the same 32-bit word as a \<open>guint\<close>, read through \<open>sint\<close> where the code
  compares it as a signed value: C converts between the two at every call of the tvbuff code,
  and the conversion is the identity on the representation.
\<close>

unbundle bit_operations_syntax

section \<open>Machine integers\<close>

type_synonym guint8 = "8 word"
type_synonym gint8 = "8 word"
type_synonym guint16 = "16 word"
type_synonym gint16 = "16 word"
type_synonym guint32 = "32 word"
type_synonym gint32 = "32 word"
type_synonym guint64 = "64 word"
type_synonym gint64 = "64 word"
type_synonym guint = "32 word"
type_synonym gint = "32 word"

named_theorems errs \<open>rewriting of the error monad\<close>

section \<open>Errors as values\<close>

text \<open>
  The exception codes of epan/exceptions.h that the modelled code throws. \<open>DissectorError\<close> is the
  exception a failed \<open>DISSECTOR_ASSERT\<close> throws. \<open>Fault\<close> is no exception of the program: it is the value
  of a read through a NULL pointer or past the end of the object a pointer points into, which C
  leaves undefined, of a failed \<open>g_assert\<close>, which aborts, and of a loop that does not return.
\<close>

datatype exc =
    BoundsError
  | ContainedBoundsError
  | ReportedBoundsError
  | FragmentBoundsError
  | TypeError
  | DissectorError
  | ScsiBoundsError
  | OutOfMemoryError
  | ReassemblyError
  | Fault

type_synonym 'a res = "exc + 'a"

definition bindE :: "'e + 'a \<Rightarrow> ('a \<Rightarrow> 'e + 'b) \<Rightarrow> 'e + 'b" where
  "bindE m f = (case m of Inl e \<Rightarrow> Inl e | Inr x \<Rightarrow> f x)"

definition dissector_assert :: "bool \<Rightarrow> 'a res \<Rightarrow> 'a res" where
  "dissector_assert b k = (if b then k else Inl DissectorError)"

lemma bindE_simps [simp]:
  "bindE (Inl e) f = Inl e"
  "bindE (Inr x) f = f x"
  by (simp_all add: bindE_def)

lemma bindE_Inr_iff [errs]: "bindE m f = Inr y \<longleftrightarrow> (\<exists>x. m = Inr x \<and> f x = Inr y)"
  by (cases m) auto

lemma bindE_Inl_iff [errs]:
  "bindE m f = Inl e \<longleftrightarrow> m = Inl e \<or> (\<exists>x. m = Inr x \<and> f x = Inl e)"
  by (cases m) auto

lemma bindE_assoc: "bindE (bindE m f) g = bindE m (\<lambda>x. bindE (f x) g)"
  by (cases m) auto

lemma bindE_cong [fundef_cong]:
  "m = m' \<Longrightarrow> (\<And>x. m' = Inr x \<Longrightarrow> f x = g x) \<Longrightarrow> bindE m f = bindE m' g"
  by (cases m') auto

lemma dissector_assert_simps [simp]:
  "dissector_assert True k = k"
  "dissector_assert False k = Inl DissectorError"
  by (simp_all add: dissector_assert_def)

lemma dissector_assert_Inr_iff [errs]: "dissector_assert b k = Inr x \<longleftrightarrow> b \<and> k = Inr x"
  by (cases b) auto

lemma dissector_assert_cong [fundef_cong]:
  "b = b' \<Longrightarrow> (b' \<Longrightarrow> k = k') \<Longrightarrow> dissector_assert b k = dissector_assert b' k'"
  by (cases b') auto

section \<open>Numbers written as bytes\<close>

text \<open>The number that a byte sequence denotes in network (big-endian) order.\<close>

definition be_nat :: "guint8 list \<Rightarrow> nat" where
  "be_nat bs = foldl (\<lambda>acc b. acc * 256 + unat b) 0 bs"

definition le_nat :: "guint8 list \<Rightarrow> nat" where
  "le_nat bs = be_nat (rev bs)"

lemma unat_eqI: "unat v = unat w \<Longrightarrow> v = w"
  by (rule unsigned_word_eqI)

lemma unat_byte: "unat (b :: guint8) < 256"
  using unsigned_less [of b] by simp

lemma foldl_be_nat:
  "foldl (\<lambda>acc b. acc * 256 + unat b) a bs = a * 256 ^ length bs + be_nat bs"
proof (induction bs arbitrary: a)
  case Nil
  show ?case by (simp add: be_nat_def)
next
  case (Cons b bs)
  have "be_nat (b # bs) = unat b * 256 ^ length bs + be_nat bs"
    using Cons.IH [of "unat b"] by (simp add: be_nat_def)
  then show ?case
    using Cons.IH [of "a * 256 + unat b"] by (simp add: algebra_simps)
qed

lemma be_nat_simps [simp]:
  "be_nat [] = 0"
  "be_nat (b # bs) = unat b * 256 ^ length bs + be_nat bs"
  using foldl_be_nat [of "unat b" bs] by (simp_all add: be_nat_def)

lemma be_nat_append: "be_nat (xs @ ys) = be_nat xs * 256 ^ length ys + be_nat ys"
  by (induction xs) (simp_all add: algebra_simps power_add)

lemma be_nat_bound: "be_nat bs < 256 ^ length bs"
proof (induction bs)
  case (Cons b bs)
  have "unat b * 256 ^ length bs + be_nat bs < unat b * 256 ^ length bs + 256 ^ length bs"
    using Cons.IH by simp
  also have "\<dots> = (unat b + 1) * 256 ^ length bs" by (simp add: algebra_simps)
  also have "\<dots> \<le> 256 * 256 ^ length bs"
    using unat_byte [of b] by (intro mult_le_mono1) simp
  finally show ?case by simp
qed simp

lemma le_nat_simps [simp]:
  "le_nat [] = 0"
  "le_nat (b # bs) = unat b + 256 * le_nat bs"
  by (simp_all add: le_nat_def be_nat_append)

section \<open>Bitwise operations as arithmetic\<close>

lemma or_shift_add: "y < 2 ^ n \<Longrightarrow> (x * 2 ^ n) OR y = x * 2 ^ n + (y :: nat)"
proof -
  assume "y < 2 ^ n"
  then have "take_bit n y = y" by (simp add: take_bit_nat_eq_self)
  then have "push_bit n x + y = push_bit n x OR y"
    by (intro disjunctive_add) (metis bit_push_bit_iff bit_take_bit_iff leD)
  then show ?thesis by (simp add: push_bit_eq_mult)
qed

lemmas or_shift_nums =
  or_shift_add [of _ 8, simplified] or_shift_add [of _ 16, simplified]
  or_shift_add [of _ 24, simplified] or_shift_add [of _ 32, simplified]
  or_shift_add [of _ 40, simplified] or_shift_add [of _ 48, simplified]
  or_shift_add [of _ 56, simplified]

lemma unat_shift_byte:
  assumes "k + 8 \<le> LENGTH('a::len)"
  shows "unat (push_bit k (ucast (b :: guint8)) :: 'a word) = unat b * 2 ^ k"
proof -
  have "unat b * 2 ^ k < 2 ^ 8 * 2 ^ k" using unat_byte [of b] by simp
  also have "\<dots> = 2 ^ (8 + k)" by (simp add: power_add)
  also have "\<dots> \<le> 2 ^ LENGTH('a)" using assms by (intro power_increasing) auto
  finally have shifted: "unat b * 2 ^ k < 2 ^ LENGTH('a)" .
  have "unat b < 2 ^ 8" using unat_byte [of b] by simp
  also have "(2 :: nat) ^ 8 \<le> 2 ^ LENGTH('a)" using assms by (intro power_increasing) auto
  finally have "unat b < 2 ^ LENGTH('a)" .
  with shifted show ?thesis
    by (simp add: unsigned_push_bit_eq unsigned_ucast_eq take_bit_nat_eq_self
        push_bit_eq_mult [where 'a = nat])
qed

section \<open>Signed and unsigned readings of a 32-bit word\<close>

lemma uint_bounds: "0 \<le> uint (w :: 32 word)" "uint w < 4294967296"
  using unsigned_less [of w, where 'a = int] by simp_all

lemma sint_gint:
  "sint (w :: gint) = (if uint w < 0x80000000 then uint w else uint w - 0x100000000)"
proof -
  have "sint w = (uint w + 2 ^ 31) mod 2 ^ 32 - 2 ^ 31"
    by (simp add: sint_uint signed_take_bit_eq_take_bit_shift take_bit_eq_mod)
  moreover have "(uint w + 2 ^ 31) mod 2 ^ 32 =
      (if uint w < 2 ^ 31 then uint w + 2 ^ 31 else uint w - 2 ^ 31)"
    using uint_bounds [of w] by (auto intro: mod_pos_pos_trivial simp: mod_pos_geq)
  ultimately show ?thesis by simp
qed

lemma uint_minus_one: "uint (- 1 :: gint) = 4294967295"
  by (simp add: unsigned_minus_1_eq_mask mask_eq_exp_minus_1)

lemma uint_neg: "uint (- w :: gint) = (if uint w = 0 then 0 else 0x100000000 - uint w)"
  using uint_bounds [of w] by (auto simp: uint_word_ariths zmod_zminus1_eq_if)

lemma uint_add:
  "uint (v + w :: gint) =
     (if uint v + uint w < 0x100000000 then uint v + uint w
      else uint v + uint w - 0x100000000)"
  by (simp add: uint_plus_if')

lemma uint_sub:
  "uint (v - w :: gint) =
     (if uint w \<le> uint v then uint v - uint w else uint v - uint w + 0x100000000)"
  by (simp add: uint_sub_if')

lemma uint_not_below: "\<not> uint (w :: gint) < - 1"
  using uint_bounds(1) [of w] by linarith

lemma uint_not_minus_one: "uint (w :: gint) \<noteq> - 1"
  using uint_bounds(1) [of w] by linarith

lemmas uint_never_negative = uint_not_below uint_not_minus_one

lemma sint_lower: "sint (w :: gint) < - 1 \<longleftrightarrow> 0x80000000 \<le> uint w \<and> uint w \<noteq> 0xFFFFFFFF"
  using uint_bounds [of w] by (auto simp: sint_gint uint_never_negative)

lemma signed_gint:
  "0 \<le>s (w :: gint) \<longleftrightarrow> uint w < 0x80000000"
  "w <s 0 \<longleftrightarrow> 0x80000000 \<le> uint w"
  "w <s - 1 \<longleftrightarrow> 0x80000000 \<le> uint w \<and> uint w \<noteq> 0xFFFFFFFF"
  using sint_lower[of w] uint_bounds [of w]
  by (simp_all add: word_sle_eq word_sless_alt sint_gint uint_minus_one uint_never_negative)

lemmas gint_arith = sint_gint signed_gint uint_add uint_sub uint_neg uint_minus_one uint_never_negative
  word_less_def word_le_def word_uint_eq_iff

lemma unat_less_uint: "unat (w :: guint) < n \<longleftrightarrow> uint w < int n"
  by (metis of_nat_less_iff of_nat_unat)

lemma signed_pos_unat:
  assumes "0 < unat (w :: gint)" "unat w < 0x80000000"
  shows "0 <s w"
proof -
  have "uint w = int (unat w)" by simp
  with assms have "0 < uint w" "uint w < 0x80000000" by linarith+
  then show ?thesis by (simp add: word_sless_alt sint_gint)
qed

lemma unat_add_less: "unat v + unat w < 0x100000000 \<Longrightarrow> unat (v + w :: guint) = unat v + unat w"
  by (simp add: unat_word_ariths)

section \<open>Slices of lists\<close>

lemma take_drop_take: "a + l \<le> c \<Longrightarrow> take l (drop a (take c xs)) = take l (drop a xs)"
  by (simp add: drop_take)

section \<open>The first index with a property\<close>

lemma find_map: "find P (map f zs) = map_option f (find (\<lambda>z. P (f z)) zs)"
  by (induction zs) auto

lemma find_index_Cons:
  "find (\<lambda>j. P ((y # ys) ! j)) [0..<length (y # ys)] =
     (if P y then Some 0 else map_option Suc (find (\<lambda>j. P (ys ! j)) [0..<length ys]))"
proof -
  have "[0..<length (y # ys)] = 0 # map Suc [0..<length ys]"
    by (simp add: upt_conv_Cons map_Suc_upt del: upt_Suc)
  then show ?thesis by (simp add: find_map del: upt_Suc)
qed

section \<open>Comparing strings\<close>

text \<open>
  C strings as the bytes before the terminating NUL. Two regions of the same length that \<open>memcmp\<close>
  compares are ordered the same way.
\<close>

fun strcmp :: "guint8 list \<Rightarrow> guint8 list \<Rightarrow> int" where
  "strcmp [] [] = 0"
| "strcmp [] (b # bs) = - 1"
| "strcmp (a # as) [] = 1"
| "strcmp (a # as) (b # bs) = (if a = b then strcmp as bs else if a < b then - 1 else 1)"

lemma strcmp_refl: "strcmp a a = 0"
  by (induction a) auto

lemma strcmp_flip: "strcmp a b < 0 \<longleftrightarrow> 0 < strcmp b a"
  by (induction a b rule: strcmp.induct) auto

lemma strcmp_trans: "strcmp a b \<le> 0 \<Longrightarrow> strcmp b c \<le> 0 \<Longrightarrow> strcmp a c \<le> 0"
proof (induction a b arbitrary: c rule: strcmp.induct)
  case (1)
  then show ?case by (cases c) auto
next
  case (2 b bs)
  then show ?case by (cases c) auto
next
  case (3 a as)
  then show ?case by simp
next
  case (4 a as b bs)
  then show ?case by (cases c) (auto split: if_splits)
qed

lemma strcmp_eq: "strcmp a b = 0 \<longleftrightarrow> a = b"
  by (induction a b rule: strcmp.induct) auto

section \<open>Field types\<close>

text \<open>The types of fields, \<open>enum ftenum\<close> of epan/ftypes/ftypes.h.\<close>

datatype ftenum =
    FT_NONE | FT_PROTOCOL | FT_BOOLEAN | FT_CHAR | FT_UINT8 | FT_UINT16 | FT_UINT24 | FT_UINT32
    | FT_UINT40 | FT_UINT48 | FT_UINT56 | FT_UINT64 | FT_INT8 | FT_INT16 | FT_INT24 | FT_INT32
    | FT_INT40 | FT_INT48 | FT_INT56 | FT_INT64 | FT_IEEE_11073_SFLOAT | FT_IEEE_11073_FLOAT
    | FT_FLOAT | FT_DOUBLE | FT_ABSOLUTE_TIME | FT_RELATIVE_TIME | FT_STRING | FT_STRINGZ
    | FT_UINT_STRING | FT_ETHER | FT_BYTES | FT_UINT_BYTES | FT_IPv4 | FT_IPv6 | FT_IPXNET
    | FT_FRAMENUM | FT_PCRE | FT_GUID | FT_OID | FT_EUI64 | FT_AX25 | FT_VINES | FT_REL_OID
    | FT_SYSTEM_ID | FT_STRINGZPAD | FT_FCWWN

end
