(* ===== verification/Pint.thy ===== *)
theory Pint
  imports Prelude
begin

text \<open>
  wsutil/pint.h and wsutil/sign_ext.h: reading and writing integers through possibly unaligned
  byte pointers, and sign extension. A pointer \<open>p\<close> is the list of the bytes from \<open>p\<close> on, so that
  \<open>p ! i\<close> is \<open>*((const guint8 *)(p)+i)\<close>; a writer yields the bytes that it stores.
\<close>

section \<open>Readers\<close>

definition pntoh16 :: "guint8 list \<Rightarrow> guint16" where
  "pntoh16 p =
     push_bit 8 (ucast (p ! 0)) OR
     push_bit 0 (ucast (p ! 1))"

definition pntoh24 :: "guint8 list \<Rightarrow> guint32" where
  "pntoh24 p =
     push_bit 16 (ucast (p ! 0)) OR
     push_bit 8 (ucast (p ! 1)) OR
     push_bit 0 (ucast (p ! 2))"

definition pntoh32 :: "guint8 list \<Rightarrow> guint32" where
  "pntoh32 p =
     push_bit 24 (ucast (p ! 0)) OR
     push_bit 16 (ucast (p ! 1)) OR
     push_bit 8 (ucast (p ! 2)) OR
     push_bit 0 (ucast (p ! 3))"

definition pntoh40 :: "guint8 list \<Rightarrow> guint64" where
  "pntoh40 p =
     push_bit 32 (ucast (p ! 0)) OR
     push_bit 24 (ucast (p ! 1)) OR
     push_bit 16 (ucast (p ! 2)) OR
     push_bit 8 (ucast (p ! 3)) OR
     push_bit 0 (ucast (p ! 4))"

definition pntoh48 :: "guint8 list \<Rightarrow> guint64" where
  "pntoh48 p =
     push_bit 40 (ucast (p ! 0)) OR
     push_bit 32 (ucast (p ! 1)) OR
     push_bit 24 (ucast (p ! 2)) OR
     push_bit 16 (ucast (p ! 3)) OR
     push_bit 8 (ucast (p ! 4)) OR
     push_bit 0 (ucast (p ! 5))"

definition pntoh56 :: "guint8 list \<Rightarrow> guint64" where
  "pntoh56 p =
     push_bit 48 (ucast (p ! 0)) OR
     push_bit 40 (ucast (p ! 1)) OR
     push_bit 32 (ucast (p ! 2)) OR
     push_bit 24 (ucast (p ! 3)) OR
     push_bit 16 (ucast (p ! 4)) OR
     push_bit 8 (ucast (p ! 5)) OR
     push_bit 0 (ucast (p ! 6))"

definition pntoh64 :: "guint8 list \<Rightarrow> guint64" where
  "pntoh64 p =
     push_bit 56 (ucast (p ! 0)) OR
     push_bit 48 (ucast (p ! 1)) OR
     push_bit 40 (ucast (p ! 2)) OR
     push_bit 32 (ucast (p ! 3)) OR
     push_bit 24 (ucast (p ! 4)) OR
     push_bit 16 (ucast (p ! 5)) OR
     push_bit 8 (ucast (p ! 6)) OR
     push_bit 0 (ucast (p ! 7))"

definition pletoh16 :: "guint8 list \<Rightarrow> guint16" where
  "pletoh16 p =
     push_bit 8 (ucast (p ! 1)) OR
     push_bit 0 (ucast (p ! 0))"

definition pletoh24 :: "guint8 list \<Rightarrow> guint32" where
  "pletoh24 p =
     push_bit 16 (ucast (p ! 2)) OR
     push_bit 8 (ucast (p ! 1)) OR
     push_bit 0 (ucast (p ! 0))"

definition pletoh32 :: "guint8 list \<Rightarrow> guint32" where
  "pletoh32 p =
     push_bit 24 (ucast (p ! 3)) OR
     push_bit 16 (ucast (p ! 2)) OR
     push_bit 8 (ucast (p ! 1)) OR
     push_bit 0 (ucast (p ! 0))"

definition pletoh40 :: "guint8 list \<Rightarrow> guint64" where
  "pletoh40 p =
     push_bit 32 (ucast (p ! 4)) OR
     push_bit 24 (ucast (p ! 3)) OR
     push_bit 16 (ucast (p ! 2)) OR
     push_bit 8 (ucast (p ! 1)) OR
     push_bit 0 (ucast (p ! 0))"

definition pletoh48 :: "guint8 list \<Rightarrow> guint64" where
  "pletoh48 p =
     push_bit 40 (ucast (p ! 5)) OR
     push_bit 32 (ucast (p ! 4)) OR
     push_bit 24 (ucast (p ! 3)) OR
     push_bit 16 (ucast (p ! 2)) OR
     push_bit 8 (ucast (p ! 1)) OR
     push_bit 0 (ucast (p ! 0))"

definition pletoh56 :: "guint8 list \<Rightarrow> guint64" where
  "pletoh56 p =
     push_bit 48 (ucast (p ! 6)) OR
     push_bit 40 (ucast (p ! 5)) OR
     push_bit 32 (ucast (p ! 4)) OR
     push_bit 24 (ucast (p ! 3)) OR
     push_bit 16 (ucast (p ! 2)) OR
     push_bit 8 (ucast (p ! 1)) OR
     push_bit 0 (ucast (p ! 0))"

definition pletoh64 :: "guint8 list \<Rightarrow> guint64" where
  "pletoh64 p =
     push_bit 56 (ucast (p ! 7)) OR
     push_bit 48 (ucast (p ! 6)) OR
     push_bit 40 (ucast (p ! 5)) OR
     push_bit 32 (ucast (p ! 4)) OR
     push_bit 24 (ucast (p ! 3)) OR
     push_bit 16 (ucast (p ! 2)) OR
     push_bit 8 (ucast (p ! 1)) OR
     push_bit 0 (ucast (p ! 0))"

lemmas pntoh_defs =
  pntoh16_def pntoh24_def pntoh32_def pntoh40_def pntoh48_def pntoh56_def pntoh64_def
  pletoh16_def pletoh24_def pletoh32_def pletoh40_def pletoh48_def pletoh56_def pletoh64_def

section \<open>Writers\<close>

definition phton16 :: "guint16 \<Rightarrow> guint8 list" where
  "phton16 v = [ucast (drop_bit 8 v), ucast (drop_bit 0 v)]"

definition phton32 :: "guint32 \<Rightarrow> guint8 list" where
  "phton32 v =
     [ucast (drop_bit 24 v), ucast (drop_bit 16 v), ucast (drop_bit 8 v), ucast (drop_bit 0 v)]"

definition phton64 :: "guint64 \<Rightarrow> guint8 list" where
  "phton64 v =
     [ucast (drop_bit 56 v), ucast (drop_bit 48 v), ucast (drop_bit 40 v), ucast (drop_bit 32 v),
      ucast (drop_bit 24 v), ucast (drop_bit 16 v), ucast (drop_bit 8 v), ucast (drop_bit 0 v)]"

definition phtole32 :: "guint32 \<Rightarrow> guint8 list" where
  "phtole32 v =
     [ucast (drop_bit 0 v), ucast (drop_bit 8 v), ucast (drop_bit 16 v), ucast (drop_bit 24 v)]"

definition phtole64 :: "guint64 \<Rightarrow> guint8 list" where
  "phtole64 v =
     [ucast (drop_bit 0 v), ucast (drop_bit 8 v), ucast (drop_bit 16 v), ucast (drop_bit 24 v),
      ucast (drop_bit 32 v), ucast (drop_bit 40 v), ucast (drop_bit 48 v), ucast (drop_bit 56 v)]"

definition guint32_wraparound_diff :: "guint32 \<Rightarrow> guint32 \<Rightarrow> guint32" where
  "guint32_wraparound_diff higher lower =
     (if higher > lower then higher - lower else higher + 0xffffffff - lower + 1)"

section \<open>Sign extension\<close>

text \<open>\<open>None\<close> is the abort of a failed \<open>g_assert\<close>.\<close>

definition ws_sign_ext32 :: "guint32 \<Rightarrow> int \<Rightarrow> guint32 option" where
  "ws_sign_ext32 val no_of_bits =
     (if \<not> (no_of_bits \<ge> 0 \<and> no_of_bits \<le> 32) then None
      else if no_of_bits = 0 \<or> no_of_bits = 32 then Some val
      else if val AND push_bit (nat (no_of_bits - 1)) 1 \<noteq> 0
           then Some (val OR push_bit (nat no_of_bits) 0xFFFFFFFF)
           else Some val)"

definition ws_sign_ext64 :: "guint64 \<Rightarrow> int \<Rightarrow> guint64 option" where
  "ws_sign_ext64 val no_of_bits =
     (if \<not> (no_of_bits \<ge> 0 \<and> no_of_bits \<le> 64) then None
      else if no_of_bits = 0 \<or> no_of_bits = 64 then Some val
      else if val AND push_bit (nat (no_of_bits - 1)) 1 \<noteq> 0
           then Some (val OR push_bit (nat no_of_bits) 0xFFFFFFFFFFFFFFFF)
           else Some val)"

section \<open>Readers denote the number the bytes write\<close>

lemma take_eq_nths: "n \<le> length p \<Longrightarrow> take n p = map ((!) p) [0..<n]"
  by (rule nth_equalityI) auto

lemma take_nths:
  "2 \<le> length p \<Longrightarrow> take 2 p = [p ! 0, p ! 1]"
  "3 \<le> length p \<Longrightarrow> take 3 p = [p ! 0, p ! 1, p ! 2]"
  "4 \<le> length p \<Longrightarrow> take 4 p = [p ! 0, p ! 1, p ! 2, p ! 3]"
  "5 \<le> length p \<Longrightarrow> take 5 p = [p ! 0, p ! 1, p ! 2, p ! 3, p ! 4]"
  "6 \<le> length p \<Longrightarrow> take 6 p = [p ! 0, p ! 1, p ! 2, p ! 3, p ! 4, p ! 5]"
  "7 \<le> length p \<Longrightarrow> take 7 p = [p ! 0, p ! 1, p ! 2, p ! 3, p ! 4, p ! 5, p ! 6]"
  "8 \<le> length p \<Longrightarrow> take 8 p = [p ! 0, p ! 1, p ! 2, p ! 3, p ! 4, p ! 5, p ! 6, p ! 7]"
  by (simp_all add: take_eq_nths upt_rec numeral_eq_Suc)

lemmas bytes_lt =
  unat_byte [of "p ! 0" for p] unat_byte [of "p ! 1" for p] unat_byte [of "p ! 2" for p]
  unat_byte [of "p ! 3" for p] unat_byte [of "p ! 4" for p] unat_byte [of "p ! 5" for p]
  unat_byte [of "p ! 6" for p] unat_byte [of "p ! 7" for p]

lemmas pint_arith = unat_shift_byte or.assoc or_shift_nums take_nths

lemma unat_pntoh16: "2 \<le> length p \<Longrightarrow> unat (pntoh16 p) = be_nat (take 2 p)"
  unfolding pntoh16_def unsigned_or_eq using bytes_lt [of p]
  by (simp add: pint_arith del: push_bit_0_id)

lemma unat_pntoh24: "3 \<le> length p \<Longrightarrow> unat (pntoh24 p) = be_nat (take 3 p)"
  unfolding pntoh24_def unsigned_or_eq using bytes_lt [of p]
  by (simp add: pint_arith del: push_bit_0_id)

lemma unat_pntoh32: "4 \<le> length p \<Longrightarrow> unat (pntoh32 p) = be_nat (take 4 p)"
  unfolding pntoh32_def unsigned_or_eq using bytes_lt [of p]
  by (simp add: pint_arith del: push_bit_0_id)

lemma unat_pntoh40: "5 \<le> length p \<Longrightarrow> unat (pntoh40 p) = be_nat (take 5 p)"
  unfolding pntoh40_def unsigned_or_eq using bytes_lt [of p]
  by (simp add: pint_arith del: push_bit_0_id)

lemma unat_pntoh48: "6 \<le> length p \<Longrightarrow> unat (pntoh48 p) = be_nat (take 6 p)"
  unfolding pntoh48_def unsigned_or_eq using bytes_lt [of p]
  by (simp add: pint_arith del: push_bit_0_id)

lemma unat_pntoh56: "7 \<le> length p \<Longrightarrow> unat (pntoh56 p) = be_nat (take 7 p)"
  unfolding pntoh56_def unsigned_or_eq using bytes_lt [of p]
  by (simp add: pint_arith del: push_bit_0_id)

lemma unat_pntoh64: "8 \<le> length p \<Longrightarrow> unat (pntoh64 p) = be_nat (take 8 p)"
  unfolding pntoh64_def unsigned_or_eq using bytes_lt [of p]
  by (simp add: pint_arith del: push_bit_0_id)

lemma unat_pletoh16: "2 \<le> length p \<Longrightarrow> unat (pletoh16 p) = le_nat (take 2 p)"
  unfolding pletoh16_def unsigned_or_eq using bytes_lt [of p]
  by (simp add: pint_arith del: push_bit_0_id)

lemma unat_pletoh24: "3 \<le> length p \<Longrightarrow> unat (pletoh24 p) = le_nat (take 3 p)"
  unfolding pletoh24_def unsigned_or_eq using bytes_lt [of p]
  by (simp add: pint_arith del: push_bit_0_id)

lemma unat_pletoh32: "4 \<le> length p \<Longrightarrow> unat (pletoh32 p) = le_nat (take 4 p)"
  unfolding pletoh32_def unsigned_or_eq using bytes_lt [of p]
  by (simp add: pint_arith del: push_bit_0_id)

lemma unat_pletoh40: "5 \<le> length p \<Longrightarrow> unat (pletoh40 p) = le_nat (take 5 p)"
  unfolding pletoh40_def unsigned_or_eq using bytes_lt [of p]
  by (simp add: pint_arith del: push_bit_0_id)

lemma unat_pletoh48: "6 \<le> length p \<Longrightarrow> unat (pletoh48 p) = le_nat (take 6 p)"
  unfolding pletoh48_def unsigned_or_eq using bytes_lt [of p]
  by (simp add: pint_arith del: push_bit_0_id)

lemma unat_pletoh56: "7 \<le> length p \<Longrightarrow> unat (pletoh56 p) = le_nat (take 7 p)"
  unfolding pletoh56_def unsigned_or_eq using bytes_lt [of p]
  by (simp add: pint_arith del: push_bit_0_id)

lemma unat_pletoh64: "8 \<le> length p \<Longrightarrow> unat (pletoh64 p) = le_nat (take 8 p)"
  unfolding pletoh64_def unsigned_or_eq using bytes_lt [of p]
  by (simp add: pint_arith del: push_bit_0_id)

lemmas unat_pntoh =
  unat_pntoh16 unat_pntoh24 unat_pntoh32 unat_pntoh40 unat_pntoh48 unat_pntoh56 unat_pntoh64

lemmas unat_pletoh =
  unat_pletoh16 unat_pletoh24 unat_pletoh32 unat_pletoh40 unat_pletoh48 unat_pletoh56
  unat_pletoh64

section \<open>Writing and reading back\<close>

lemma unat_low_byte: "unat (ucast (v :: 'a::len word) :: guint8) = unat v mod 256"
  by (simp add: unsigned_ucast_eq take_bit_eq_mod)

lemma unat_drop_byte: "unat (ucast (drop_bit k v) :: guint8) = unat v div 2 ^ k mod 256"
  by (simp add: unat_low_byte unsigned_drop_bit_eq drop_bit_eq_div [where 'a = nat]
      take_bit_nat_eq_self)

text \<open>The bytes of \<open>v\<close> from the most significant of the last \<open>n\<close> on.\<close>

definition byte_digits :: "nat \<Rightarrow> 'a::len word \<Rightarrow> guint8 list" where
  "byte_digits n v = map (\<lambda>i. ucast (drop_bit (8 * i) v)) (rev [0..<n])"

lemma length_byte_digits [simp]: "length (byte_digits n v) = n"
  by (simp add: byte_digits_def)

lemma be_nat_byte_digits: "be_nat (byte_digits n v) = unat v mod 256 ^ n"
proof (induction n)
  case (Suc n)
  have "unat v mod 256 ^ Suc n = unat v div 256 ^ n mod 256 * 256 ^ n + unat v mod 256 ^ n"
    by (simp add: mod_mult2_eq mult.commute [of 256])
  with Suc show ?case by (simp add: byte_digits_def unat_drop_byte power_mult)
qed (simp add: byte_digits_def)

lemma unat_mod_256:
  "unat (v :: guint16) mod 256 ^ 2 = unat v"
  "unat (w :: guint32) mod 256 ^ 4 = unat w"
  "unat (x :: guint64) mod 256 ^ 8 = unat x"
  using unsigned_less [of v, where 'a = nat] unsigned_less [of w, where 'a = nat]
    unsigned_less [of x, where 'a = nat]
  by simp_all

lemma phton_byte_digits:
  "phton16 v = byte_digits 2 v"
  "phton32 w = byte_digits 4 w"
  "phton64 x = byte_digits 8 x"
  "phtole32 w = rev (byte_digits 4 w)"
  "phtole64 x = rev (byte_digits 8 x)"
  by (simp_all add: phton16_def phton32_def phton64_def phtole32_def phtole64_def
      byte_digits_def upt_rec)

lemma pntoh16_phton16: "pntoh16 (phton16 v) = v"
  by (rule unat_eqI)
    (simp add: unat_pntoh16 phton_byte_digits be_nat_byte_digits unat_mod_256 del: power_numeral)

lemma pntoh32_phton32: "pntoh32 (phton32 v) = v"
  by (rule unat_eqI)
    (simp add: unat_pntoh32 phton_byte_digits be_nat_byte_digits unat_mod_256 del: power_numeral)

lemma pntoh64_phton64: "pntoh64 (phton64 v) = v"
  by (rule unat_eqI)
    (simp add: unat_pntoh64 phton_byte_digits be_nat_byte_digits unat_mod_256 del: power_numeral)

lemma pletoh32_phtole32: "pletoh32 (phtole32 v) = v"
  by (rule unat_eqI)
    (simp add: unat_pletoh32 le_nat_def phton_byte_digits be_nat_byte_digits unat_mod_256
      del: power_numeral)

lemma pletoh64_phtole64: "pletoh64 (phtole64 v) = v"
  by (rule unat_eqI)
    (simp add: unat_pletoh64 le_nat_def phton_byte_digits be_nat_byte_digits unat_mod_256
      del: power_numeral)

lemma guint32_wraparound_diff_eq: "guint32_wraparound_diff higher lower = higher - lower"
  by (simp add: guint32_wraparound_diff_def)

section \<open>Sign extension reads the low bits as two's complement\<close>

lemma or_high_ones:
  fixes v ones :: "'a::len word"
  assumes n: "0 < n" "n < LENGTH('a)" and v: "take_bit n v = v" "bit v (n - 1)"
    and ones: "\<And>k. bit ones k \<longleftrightarrow> k < LENGTH('a)"
  shows "v OR push_bit n ones = signed_take_bit (n - 1) v"
proof (rule bit_word_eqI)
  fix m assume "m < LENGTH('a)"
  moreover have "\<not> bit v m" if "n \<le> m" using that v(1) by (metis bit_take_bit_iff leD)
  moreover have "min (n - 1) m = (if n \<le> m then n - 1 else m)" using n(1) by auto
  ultimately show "bit (v OR push_bit n ones) m \<longleftrightarrow> bit (signed_take_bit (n - 1) v) m"
    using n v(2) ones
    by (cases "n \<le> m") (auto simp: bit_or_iff bit_push_bit_iff bit_signed_take_bit_iff)
qed

lemma signed_take_bit_nonneg:
  fixes v :: "'a::len word"
  assumes n: "0 < n" "n < LENGTH('a)" and v: "take_bit n v = v" "\<not> bit v (n - 1)"
  shows "signed_take_bit (n - 1) v = v"
proof (rule bit_word_eqI)
  fix m assume "m < LENGTH('a)"
  moreover have "\<not> bit v m" if "n \<le> m" using that v(1) by (metis bit_take_bit_iff leD)
  moreover have "min (n - 1) m = (if n \<le> m then n - 1 else m)" using n(1) by auto
  ultimately show "bit (signed_take_bit (n - 1) v) m \<longleftrightarrow> bit v m"
    using n v(2) by (cases "n \<le> m") (auto simp: bit_signed_take_bit_iff)
qed

lemma bit_all_ones:
  "bit (0xFFFFFFFF :: guint32) k \<longleftrightarrow> k < LENGTH(32)"
  "bit (0xFFFFFFFFFFFFFFFF :: guint64) k \<longleftrightarrow> k < LENGTH(64)"
proof -
  have "(0xFFFFFFFF :: guint32) = mask 32" by (simp add: mask_eq_exp_minus_1)
  then show "bit (0xFFFFFFFF :: guint32) k \<longleftrightarrow> k < LENGTH(32)"
    by (simp only: bit_mask_iff possible_bit_word) auto
  have "(0xFFFFFFFFFFFFFFFF :: guint64) = mask 64" by (simp add: mask_eq_exp_minus_1)
  then show "bit (0xFFFFFFFFFFFFFFFF :: guint64) k \<longleftrightarrow> k < LENGTH(64)"
    by (simp only: bit_mask_iff possible_bit_word) auto
qed

lemma ws_sign_ext32_eq:
  assumes "0 < n" "n < 32" "take_bit n v = v"
  shows "ws_sign_ext32 v (int n) = Some (signed_take_bit (n - 1) v)"
proof -
  have "nat (int n - 1) = n - 1" using assms by simp
  then show ?thesis
    using assms or_high_ones [OF _ _ _ _ bit_all_ones(1), of n v] signed_take_bit_nonneg [of n v]
    by (simp add: ws_sign_ext32_def and_exp_eq_0_iff_not_bit)
qed

lemma ws_sign_ext64_eq:
  assumes "0 < n" "n < 64" "take_bit n v = v"
  shows "ws_sign_ext64 v (int n) = Some (signed_take_bit (n - 1) v)"
proof -
  have "nat (int n - 1) = n - 1" using assms by simp
  then show ?thesis
    using assms or_high_ones [OF _ _ _ _ bit_all_ones(2), of n v] signed_take_bit_nonneg [of n v]
    by (simp add: ws_sign_ext64_def and_exp_eq_0_iff_not_bit)
qed

end
