(* ===== verification/Tvbuff.thy ===== *)
theory Tvbuff
  imports Pint
begin

text \<open>
  The testy, virtual buffer: epan/tvbuff-int.h, the bounds checking and pointer part of
  epan/tvbuff.c, and the three kinds of buffer of epan/tvbuff_real.c, epan/tvbuff_subset.c and
  epan/tvbuff_composite.c.

  A \<open>tvbuff_t\<close> is a datatype with one constructor per \<open>tvb_ops\<close> table; the virtual calls through
  \<open>tvb->ops\<close> are case distinctions on it. A subset holds its backing buffer and a composite its
  members as values. A pointer into a byte buffer is the list of the bytes from the pointer to
  the end of the buffer. Memory management (the \<open>next\<close> chain, \<open>free_cb\<close>, \<open>ds_tvb\<close>) is left out.
\<close>

section \<open>The structures\<close>

text \<open>\<open>caplen\<close> is \<open>tvb->length\<close>.\<close>

record tvb_hdr =
  initialized :: bool
  flags :: guint
  real_data :: "guint8 list option"
  caplen :: guint
  reported_length :: guint
  contained_length :: guint
  raw_offset :: gint

datatype tvbuff =
    TvbReal tvb_hdr
  | TvbSubset tvb_hdr tvbuff guint guint
  | TvbComposite tvb_hdr "tvbuff list" "guint list" "guint list"

primrec hdr :: "tvbuff \<Rightarrow> tvb_hdr" where
  "hdr (TvbReal h) = h"
| "hdr (TvbSubset h backing off sublen) = h"
| "hdr (TvbComposite h ms starts ends) = h"

primrec map_hdr :: "(tvb_hdr \<Rightarrow> tvb_hdr) \<Rightarrow> tvbuff \<Rightarrow> tvbuff" where
  "map_hdr f (TvbReal h) = TvbReal (f h)"
| "map_hdr f (TvbSubset h backing off sublen) = TvbSubset (f h) backing off sublen"
| "map_hdr f (TvbComposite h ms starts ends) = TvbComposite (f h) ms starts ends"

lemma hdr_map_hdr [simp]: "hdr (map_hdr f tvb) = f (hdr tvb)"
  by (cases tvb) simp_all

definition TVBUFF_FRAGMENT :: guint where
  "TVBUFF_FRAGMENT = 1"

definition is_fragment :: "tvb_hdr \<Rightarrow> bool" where
  "is_fragment h \<longleftrightarrow> flags h AND TVBUFF_FRAGMENT \<noteq> 0"

definition tvb_new :: tvb_hdr where
  "tvb_new = \<lparr>initialized = False, flags = 0, real_data = None, caplen = 0,
     reported_length = 0, contained_length = 0, raw_offset = -1\<rparr>"

section \<open>Offsets and bounds\<close>

text \<open>The exception number 0 is \<open>None\<close>.\<close>

definition validate_offset :: "tvbuff \<Rightarrow> guint \<Rightarrow> exc option" where
  "validate_offset tvb abs_offset =
     (let h = hdr tvb in
      if abs_offset \<le> caplen h then None
      else if abs_offset \<le> contained_length h then Some BoundsError
      else if abs_offset \<le> reported_length h then Some ContainedBoundsError
      else if is_fragment h then Some FragmentBoundsError
      else Some ReportedBoundsError)"

definition compute_offset :: "tvbuff \<Rightarrow> gint \<Rightarrow> guint res" where
  "compute_offset tvb offset =
     (let h = hdr tvb in
      if 0 \<le>s offset then
        if offset \<le> caplen h then Inr offset
        else if offset \<le> contained_length h then Inl BoundsError
        else if offset \<le> reported_length h then Inl ContainedBoundsError
        else if is_fragment h then Inl FragmentBoundsError
        else Inl ReportedBoundsError
      else
        if - offset \<le> caplen h then Inr (caplen h + offset)
        else if - offset \<le> contained_length h then Inl BoundsError
        else if - offset \<le> reported_length h then Inl ContainedBoundsError
        else if is_fragment h then Inl FragmentBoundsError
        else Inl ReportedBoundsError)"

definition compute_offset_and_remaining :: "tvbuff \<Rightarrow> gint \<Rightarrow> (guint \<times> guint) res" where
  "compute_offset_and_remaining tvb offset =
     bindE (compute_offset tvb offset)
       (\<lambda>abs_offset. Inr (abs_offset, caplen (hdr tvb) - abs_offset))"

definition check_offset_length_no_exception ::
    "tvbuff \<Rightarrow> gint \<Rightarrow> gint \<Rightarrow> (guint \<times> guint) res" where
  "check_offset_length_no_exception tvb offset length_val =
     bindE (compute_offset tvb offset) (\<lambda>abs_offset.
       if length_val <s - 1 then Inl BoundsError
       else
         let abs_length = (if length_val = - 1 then caplen (hdr tvb) - abs_offset else length_val);
             end_offset = abs_offset + abs_length
         in if end_offset < abs_offset then Inl BoundsError
            else (case validate_offset tvb end_offset of
                    Some e \<Rightarrow> Inl e
                  | None \<Rightarrow> Inr (abs_offset, abs_length)))"

definition check_offset_length :: "tvbuff \<Rightarrow> gint \<Rightarrow> gint \<Rightarrow> (guint \<times> guint) res" where
  "check_offset_length tvb offset length_val =
     (case check_offset_length_no_exception tvb offset length_val of
        Inl e \<Rightarrow> Inl e
      | Inr r \<Rightarrow> Inr r)"

definition tvb_check_offset_length :: "tvbuff \<Rightarrow> gint \<Rightarrow> gint \<Rightarrow> (guint \<times> guint) res" where
  "tvb_check_offset_length tvb offset length_val = check_offset_length tvb offset length_val"

definition tvb_captured_length :: "tvbuff \<Rightarrow> guint res" where
  "tvb_captured_length tvb =
     dissector_assert (initialized (hdr tvb)) (Inr (caplen (hdr tvb)))"

definition captured_length_remaining_internal :: "tvbuff \<Rightarrow> gint \<Rightarrow> gint" where
  "captured_length_remaining_internal tvb offset =
     (case compute_offset_and_remaining tvb offset of
        Inl e \<Rightarrow> 0
      | Inr (abs_offset, rem_length) \<Rightarrow> rem_length)"

definition tvb_captured_length_remaining :: "tvbuff \<Rightarrow> gint \<Rightarrow> gint res" where
  "tvb_captured_length_remaining tvb offset =
     dissector_assert (initialized (hdr tvb))
       (case compute_offset_and_remaining tvb offset of
          Inl e \<Rightarrow> Inr 0
        | Inr (abs_offset, rem_length) \<Rightarrow> Inr rem_length)"

definition tvb_ensure_captured_length_remaining :: "tvbuff \<Rightarrow> gint \<Rightarrow> guint res" where
  "tvb_ensure_captured_length_remaining tvb offset =
     dissector_assert (initialized (hdr tvb))
       (bindE (compute_offset_and_remaining tvb offset) (\<lambda>(abs_offset, rem_length).
          let h = hdr tvb in
          if rem_length = 0 then
            if abs_offset < contained_length h then Inl BoundsError
            else if abs_offset < reported_length h then Inl ContainedBoundsError
            else if is_fragment h then Inl FragmentBoundsError
            else Inl ReportedBoundsError
          else Inr rem_length))"

definition tvb_bytes_exist :: "tvbuff \<Rightarrow> gint \<Rightarrow> gint \<Rightarrow> bool res" where
  "tvb_bytes_exist tvb offset len =
     dissector_assert (initialized (hdr tvb))
       (if len <s 0 then Inr False
        else (case check_offset_length_no_exception tvb offset len of
                Inl e \<Rightarrow> Inr False
              | Inr _ \<Rightarrow> Inr True))"

definition tvb_ensure_bytes_exist :: "tvbuff \<Rightarrow> gint \<Rightarrow> gint \<Rightarrow> unit res" where
  "tvb_ensure_bytes_exist tvb offset len =
     dissector_assert (initialized (hdr tvb))
       (let h = hdr tvb in
        if len <s 0 then Inl ReportedBoundsError
        else
          bindE
            (if 0 \<le>s offset then
               if offset \<le> caplen h then Inr offset
               else if offset \<le> contained_length h then Inl BoundsError
               else if offset \<le> reported_length h then Inl ContainedBoundsError
               else if is_fragment h then Inl FragmentBoundsError
               else Inl ReportedBoundsError
             else
               if - offset \<le> caplen h then Inr (caplen h + offset)
               else if - offset \<le> contained_length h then Inl BoundsError
               else if - offset \<le> reported_length h then Inl ContainedBoundsError
               else if is_fragment h then Inl FragmentBoundsError
               else Inl ReportedBoundsError)
            (\<lambda>real_offset.
               let end_offset = real_offset + len in
               if end_offset < real_offset then Inl BoundsError
               else if end_offset \<le> caplen h then Inr ()
               else if end_offset \<le> contained_length h then Inl BoundsError
               else if end_offset \<le> reported_length h then Inl ContainedBoundsError
               else if is_fragment h then Inl FragmentBoundsError
               else Inl ReportedBoundsError))"

definition tvb_ensure_bytes_exist64 :: "tvbuff \<Rightarrow> gint \<Rightarrow> guint64 \<Rightarrow> unit res" where
  "tvb_ensure_bytes_exist64 tvb offset len =
     (if len > 0x7FFFFFFF then Inl ReportedBoundsError
      else tvb_ensure_bytes_exist tvb offset (ucast len))"

definition tvb_offset_exists :: "tvbuff \<Rightarrow> gint \<Rightarrow> bool res" where
  "tvb_offset_exists tvb offset =
     dissector_assert (initialized (hdr tvb))
       (case compute_offset tvb offset of
          Inl e \<Rightarrow> Inr False
        | Inr abs_offset \<Rightarrow> Inr (abs_offset < caplen (hdr tvb)))"

definition tvb_reported_length :: "tvbuff \<Rightarrow> guint res" where
  "tvb_reported_length tvb =
     dissector_assert (initialized (hdr tvb)) (Inr (reported_length (hdr tvb)))"

definition tvb_reported_length_remaining :: "tvbuff \<Rightarrow> gint \<Rightarrow> gint res" where
  "tvb_reported_length_remaining tvb offset =
     dissector_assert (initialized (hdr tvb))
       (case compute_offset tvb offset of
          Inl e \<Rightarrow> Inr 0
        | Inr abs_offset \<Rightarrow>
            Inr (if reported_length (hdr tvb) \<ge> abs_offset
                 then reported_length (hdr tvb) - abs_offset else 0))"

definition tvb_set_reported_length :: "tvbuff \<Rightarrow> guint \<Rightarrow> tvbuff res" where
  "tvb_set_reported_length tvb new_length =
     dissector_assert (initialized (hdr tvb))
       (if new_length > reported_length (hdr tvb) then Inl ReportedBoundsError
        else Inr (map_hdr (\<lambda>h.
               h\<lparr>reported_length := new_length,
                 caplen := (if new_length < caplen h then new_length else caplen h),
                 contained_length :=
                   (if new_length < contained_length h then new_length
                    else contained_length h)\<rparr>) tvb))"

primrec tvb_offset_from_real_beginning_counter :: "tvbuff \<Rightarrow> guint \<Rightarrow> guint" where
  "tvb_offset_from_real_beginning_counter (TvbReal h) counter = counter"
| "tvb_offset_from_real_beginning_counter (TvbSubset h backing off sublen) counter =
     tvb_offset_from_real_beginning_counter backing (counter + off)"
| "tvb_offset_from_real_beginning_counter (TvbComposite h ms starts ends) counter = counter"

definition tvb_offset_from_real_beginning :: "tvbuff \<Rightarrow> guint" where
  "tvb_offset_from_real_beginning tvb = tvb_offset_from_real_beginning_counter tvb 0"

section \<open>What the bounds checks decide\<close>

text \<open>
  An offset is relative to the start of the buffer when it is not negative, and to its end
  otherwise; a length of -1 reaches to the end. On integers, without wrap-around:
\<close>

definition position :: "tvbuff \<Rightarrow> gint \<Rightarrow> int" where
  "position tvb offset =
     (if 0 \<le> sint offset then sint offset else uint (caplen (hdr tvb)) + sint offset)"

definition extent :: "tvbuff \<Rightarrow> gint \<Rightarrow> gint \<Rightarrow> int" where
  "extent tvb offset len =
     (if sint len = -1 then uint (caplen (hdr tvb)) - position tvb offset else sint len)"

definition in_bounds :: "tvbuff \<Rightarrow> gint \<Rightarrow> gint \<Rightarrow> bool" where
  "in_bounds tvb offset len \<longleftrightarrow>
     0 \<le> position tvb offset \<and> 0 \<le> extent tvb offset len \<and>
     position tvb offset + extent tvb offset len \<le> uint (caplen (hdr tvb))"

text \<open>The exception that goes with running past the captured data up to \<open>end_offset\<close>.\<close>

definition bounds_exception :: "tvbuff \<Rightarrow> int \<Rightarrow> exc" where
  "bounds_exception tvb end_offset =
     (if end_offset \<le> uint (contained_length (hdr tvb)) then BoundsError
      else if end_offset \<le> uint (reported_length (hdr tvb)) then ContainedBoundsError
      else if is_fragment (hdr tvb) then FragmentBoundsError
      else ReportedBoundsError)"

lemma compute_offset_iff:
  assumes "caplen (hdr tvb) < 0x80000000"
  shows "compute_offset tvb offset = Inr a \<longleftrightarrow>
    0 \<le> position tvb offset \<and> position tvb offset \<le> uint (caplen (hdr tvb)) \<and>
    uint a = position tvb offset"
  using assms uint_bounds [of offset] uint_bounds [of "caplen (hdr tvb)"]
  by (auto simp: compute_offset_def position_def Let_def gint_arith split: if_splits)

lemma check_offset_length_iff:
  assumes "caplen (hdr tvb) < 0x80000000"
  shows "check_offset_length_no_exception tvb offset len = Inr (a, l) \<longleftrightarrow>
    in_bounds tvb offset len \<and> uint a = position tvb offset \<and> uint l = extent tvb offset len"
  using assms uint_bounds [of offset] uint_bounds [of "caplen (hdr tvb)"] uint_bounds [of len]
  by (auto simp: check_offset_length_no_exception_def compute_offset_iff errs validate_offset_def
      in_bounds_def extent_def position_def Let_def gint_arith split: if_splits)
    (use uint_bounds(1) [of len] in linarith)

lemma check_offset_length_error:
  assumes len: "caplen (hdr tvb) < 0x80000000"
    and p: "0 \<le> position tvb offset" "position tvb offset \<le> uint (caplen (hdr tvb))"
    and e: "0 \<le> sint len" "uint (caplen (hdr tvb)) < position tvb offset + sint len"
  shows "check_offset_length_no_exception tvb offset len =
    Inl (bounds_exception tvb (position tvb offset + sint len))"
proof -
  obtain a where a: "compute_offset tvb offset = Inr a" "uint a = position tvb offset"
    using compute_offset_iff [OF len, of offset "word_of_int (position tvb offset)"] p len
    by (auto simp: uint_word_of_int word_less_def)
  have l: "uint len = sint len" "uint len < 0x80000000" "len \<noteq> - 1" "\<not> len <s - 1"
    using e(1) uint_bounds [of len] by (auto simp: gint_arith split: if_splits)
  have "uint (a + len) = uint a + uint len"
    using a(2) p l len by (simp add: uint_add word_less_def)
  then show ?thesis
    using a l e by (simp add: check_offset_length_no_exception_def validate_offset_def Let_def
        bounds_exception_def word_less_def word_le_def)
qed

lemma compute_offset_error:
  assumes len: "caplen (hdr tvb) < 0x80000000"
    and p: "0 \<le> sint offset" "uint (caplen (hdr tvb)) < sint offset"
  shows "compute_offset tvb offset = Inl (bounds_exception tvb (sint offset))"
proof -
  have "uint offset < 0x80000000" "sint offset = uint offset"
    using p(1) uint_bounds [of offset] by (auto simp: sint_gint split: if_splits)
  then show ?thesis
    using assms
    by (simp add: compute_offset_def bounds_exception_def Let_def signed_gint word_le_def)
qed

lemma check_offset_length_in_bounds:
  assumes "caplen (hdr tvb) < 0x80000000" "in_bounds tvb offset len"
  obtains a l where "check_offset_length_no_exception tvb offset len = Inr (a, l)"
    "uint a = position tvb offset" "uint l = extent tvb offset len"
proof -
  have "uint (caplen (hdr tvb)) < 0x80000000" using assms(1) by (simp add: word_less_def)
  with assms(2) have "position tvb offset < 0x80000000" "extent tvb offset len < 0x80000000"
    unfolding in_bounds_def by linarith+
  then have "uint (word_of_int (position tvb offset) :: guint) = position tvb offset"
    "uint (word_of_int (extent tvb offset len) :: guint) = extent tvb offset len"
    using assms(2) by (simp_all add: uint_word_of_int in_bounds_def)
  with that check_offset_length_iff [OF assms(1)] assms(2) show ?thesis by blast
qed

lemma tvb_bytes_exist_eq:
  assumes "caplen (hdr tvb) < 0x80000000" "initialized (hdr tvb)"
  shows "tvb_bytes_exist tvb offset len = Inr (0 \<le> sint len \<and> in_bounds tvb offset len)"
proof -
  have neg: "len <s 0 \<longleftrightarrow> \<not> 0 \<le> sint len" by (auto simp: word_sless_alt)
  show ?thesis
  proof (cases "in_bounds tvb offset len")
    case True
    then show ?thesis
      using assms(2) by (auto simp: tvb_bytes_exist_def neg elim: check_offset_length_in_bounds [OF assms(1)])
  next
    case False
    then show ?thesis
      using assms(2) check_offset_length_iff [OF assms(1), of offset len]
      by (auto simp: tvb_bytes_exist_def neg split: sum.splits)
  qed
qed

lemma remaining_eq:
  assumes "caplen (hdr tvb) < 0x80000000" "0 \<le> position tvb offset"
    "position tvb offset \<le> uint (caplen (hdr tvb))"
  shows "\<exists>a. compute_offset_and_remaining tvb offset = Inr (a, caplen (hdr tvb) - a) \<and>
    uint a = position tvb offset"
proof -
  have "uint (word_of_int (position tvb offset) :: guint) = position tvb offset"
    using assms uint_bounds [of "caplen (hdr tvb)"]
    by (simp add: uint_word_of_int word_less_def)
  then show ?thesis
    using compute_offset_iff [OF assms(1), of offset "word_of_int (position tvb offset)"] assms
    by (auto simp: compute_offset_and_remaining_def)
qed

lemma position_unsigned:
  assumes "a \<le> caplen (hdr tvb)" "caplen (hdr tvb) < 0x80000000"
  shows "position tvb a = uint a"
  using assms by (simp add: position_def gint_arith)

lemma extent_unsigned:
  assumes "l < 0x80000000"
  shows "extent tvb a l = uint l"
  using assms by (auto simp: extent_def gint_arith)

lemma check_offset_length_unsigned:
  assumes "caplen (hdr tvb) < 0x80000000" "unat a + unat l \<le> unat (caplen (hdr tvb))"
  shows "check_offset_length_no_exception tvb a l = Inr (a, l)"
proof -
  have le: "uint a + uint l \<le> uint (caplen (hdr tvb))"
    using assms(2) by (metis of_nat_add of_nat_unat zle_int)
  have "uint (caplen (hdr tvb)) < 0x80000000" using assms(1) by (simp add: word_less_def)
  with le have "uint a \<le> uint (caplen (hdr tvb))" "uint l < 0x80000000"
    using uint_bounds(1) [of a] uint_bounds(1) [of l] by linarith+
  then have "a \<le> caplen (hdr tvb)" "l < 0x80000000"
    by (simp_all add: word_le_def word_less_def)
  with le assms(1) show ?thesis
    by (simp add: check_offset_length_iff in_bounds_def position_unsigned extent_unsigned)
qed

lemma nat_uint_le: "uint v + uint w \<le> uint x \<longleftrightarrow> unat v + unat w \<le> unat (x :: guint)"
proof -
  have "uint v = int (unat v)" "uint w = int (unat w)" "uint x = int (unat x)" by simp_all
  then show ?thesis by (intro iffI) linarith+
qed

lemma tvb_bytes_exist_unsigned:
  assumes "caplen (hdr tvb) < 0x80000000" "initialized (hdr tvb)"
    and "unat a \<le> unat (caplen (hdr tvb))" "l < 0x80000000"
  shows "tvb_bytes_exist tvb a l = Inr (unat a + unat l \<le> unat (caplen (hdr tvb)))"
proof -
  have "a \<le> caplen (hdr tvb)" using assms(3) by (simp add: word_le_nat_alt)
  moreover have "sint l = uint l" using assms(4) by (auto simp: gint_arith)
  ultimately show ?thesis
    using assms
    by (simp add: tvb_bytes_exist_eq in_bounds_def position_unsigned extent_unsigned nat_uint_le)
qed

lemma captured_length_remaining_unsigned:
  assumes "caplen (hdr tvb) < 0x80000000" "initialized (hdr tvb)"
    and "unat a \<le> unat (caplen (hdr tvb))"
  shows "tvb_captured_length_remaining tvb a = Inr (caplen (hdr tvb) - a)"
proof -
  have "a \<le> caplen (hdr tvb)" using assms(3) by (simp add: word_le_nat_alt)
  then have "compute_offset tvb a = Inr a"
    using assms(1) compute_offset_iff [of tvb a a]
    by (simp add: position_unsigned word_le_def)
  then show ?thesis
    using assms(2) by (simp add: tvb_captured_length_remaining_def compute_offset_and_remaining_def)
qed

end
