(* ===== verification/TvbRefine.thy ===== *)
theory TvbRefine
  imports TvbOps
begin

text \<open>
  The abstract view of a buffer: the byte string \<open>tvb_bytes\<close>. On well-formed buffers, copying and
  pointing into a buffer of any kind, however deeply nested, yields the slice of that byte string,
  throws nothing and never reads outside an object.
\<close>

section \<open>The byte string of a buffer, and well-formed buffers\<close>

primrec tvb_bytes :: "tvbuff \<Rightarrow> guint8 list" where
  "tvb_bytes (TvbReal h) =
     (case real_data h of None \<Rightarrow> [] | Some d \<Rightarrow> take (unat (caplen h)) d)"
| "tvb_bytes (TvbSubset h backing off sublen) =
     take (unat (caplen h)) (drop (unat off) (tvb_bytes backing))"
| "tvb_bytes (TvbComposite h ms starts ends) =
     take (unat (caplen h)) (concat (map tvb_bytes ms))"

abbreviation total :: "tvbuff list \<Rightarrow> nat" where
  "total ms \<equiv> sum_list (map (\<lambda>m. unat (caplen (hdr m))) ms)"

text \<open>The members lie one after the other, from \<open>n\<close> on, none of them empty.\<close>

fun layout :: "nat \<Rightarrow> tvbuff list \<Rightarrow> guint list \<Rightarrow> guint list \<Rightarrow> bool" where
  "layout n [] [] [] = True"
| "layout n (m # ms) (start # starts) (end_offset # ends) =
     (unat start = n \<and> 0 < unat (caplen (hdr m)) \<and>
      unat end_offset = n + unat (caplen (hdr m)) - 1 \<and>
      layout (n + unat (caplen (hdr m))) ms starts ends)"
| "layout n ms starts ends = False"

definition points_at :: "guint8 list option \<Rightarrow> guint8 list \<Rightarrow> bool" where
  "points_at p bs = (case p of None \<Rightarrow> True | Some d \<Rightarrow> take (length bs) d = bs)"

fun tvb_wf :: "tvbuff \<Rightarrow> bool" where
  "tvb_wf (TvbReal h) =
     (initialized h \<and> caplen h < 0x80000000 \<and>
      (case real_data h of None \<Rightarrow> caplen h = 0 | Some d \<Rightarrow> unat (caplen h) \<le> length d))"
| "tvb_wf (TvbSubset h backing off sublen) =
     (initialized h \<and> tvb_wf backing \<and> caplen h \<le> sublen \<and>
      unat off + unat sublen \<le> unat (caplen (hdr backing)) \<and>
      points_at (real_data h) (take (unat (caplen h)) (drop (unat off) (tvb_bytes backing))))"
| "tvb_wf (TvbComposite h ms starts ends) =
     (initialized h \<and> (\<forall>m \<in> set ms. tvb_wf m) \<and> layout 0 ms starts ends \<and>
      unat (caplen h) \<le> total ms \<and> total ms < 2 ^ 31 \<and>
      points_at (real_data h) (take (unat (caplen h)) (concat (map tvb_bytes ms))))"

lemma tvb_wf_initialized: "tvb_wf tvb \<Longrightarrow> initialized (hdr tvb)"
  by (cases tvb) simp_all

lemma tvb_wf_caplen: "tvb_wf tvb \<Longrightarrow> caplen (hdr tvb) < 0x80000000"
proof (induction tvb)
  case (TvbSubset h backing off sublen)
  then show ?case by (simp add: word_less_nat_alt word_le_nat_alt)
qed (simp_all add: word_less_nat_alt)

lemma length_tvb_bytes: "tvb_wf tvb \<Longrightarrow> length (tvb_bytes tvb) = unat (caplen (hdr tvb))"
proof (induction tvb)
  case (TvbReal h)
  then show ?case by (auto split: option.splits)
next
  case (TvbSubset h backing off sublen)
  then have "unat (caplen h) \<le> unat (caplen (hdr backing)) - unat off"
    by (auto simp: word_le_nat_alt)
  with TvbSubset show ?case by simp
next
  case (TvbComposite h ms starts ends)
  then have "\<forall>m \<in> set ms. length (tvb_bytes m) = unat (caplen (hdr m))" by simp
  then have "length (concat (map tvb_bytes ms)) = total ms" by (induction ms) auto
  with TvbComposite.prems show ?case by simp
qed

lemma length_concat_bytes:
  "\<forall>m \<in> set ms. tvb_wf m \<Longrightarrow> length (concat (map tvb_bytes ms)) = total ms"
  by (induction ms) (auto simp: length_tvb_bytes)

lemma points_at_bytes: "tvb_wf tvb \<Longrightarrow> points_at (real_data (hdr tvb)) (tvb_bytes tvb)"
  by (cases tvb) (auto simp: points_at_def split: option.splits)

lemma points_at_slice:
  assumes "points_at (Some d) bs" "a + l \<le> length bs"
  shows "take l (drop a d) = take l (drop a bs)" "a + l \<le> length d"
proof -
  have bs: "take (length bs) d = bs" using assms(1) by (simp add: points_at_def)
  then show "take l (drop a d) = take l (drop a bs)"
    using assms(2) take_drop_take [of a l "length bs" d] by simp
  show "a + l \<le> length d"
    using bs assms(2) by (metis le_trans length_take min.cobounded1)
qed

section \<open>Finding the member of a composite\<close>

lemma find_member_None:
  "layout n ms starts ends \<Longrightarrow> n + total ms \<le> unat a \<Longrightarrow> find_member i a ms starts ends = None"
  by (induction n ms starts ends arbitrary: i rule: layout.induct)
    (auto simp: word_le_nat_alt)

lemma find_member_Some:
  "layout n ms starts ends \<Longrightarrow> n \<le> unat a \<Longrightarrow> unat a < n + total ms \<Longrightarrow>
   \<exists>pre m post start. find_member i a ms starts ends = Some (i + length pre, m, start) \<and>
     ms = pre @ m # post \<and> unat start = n + total pre \<and> unat start \<le> unat a \<and>
     unat a < unat start + unat (caplen (hdr m))"
proof (induction n ms starts ends arbitrary: i rule: layout.induct)
  case (2 n m ms start starts end_offset ends)
  show ?case
  proof (cases "a \<le> end_offset")
    case True
    with 2 show ?thesis
      by (intro exI [of _ "[]"] exI [of _ m] exI [of _ ms] exI [of _ start])
        (auto simp: word_le_nat_alt)
  next
    case False
    with 2 have "n + unat (caplen (hdr m)) \<le> unat a" by (auto simp: word_le_nat_alt)
    moreover have "layout (n + unat (caplen (hdr m))) ms starts ends" using "2.prems" by simp
    moreover have "unat a < n + unat (caplen (hdr m)) + total ms" using "2.prems" by simp
    ultimately obtain pre m' post start' where
      "find_member (Suc i) a ms starts ends = Some (Suc i + length pre, m', start')"
      "ms = pre @ m' # post" "unat start' = n + unat (caplen (hdr m)) + total pre"
      "unat start' \<le> unat a" "unat a < unat start' + unat (caplen (hdr m'))"
      using "2.IH" by blast
    with False show ?thesis
      by (intro exI [of _ "m # pre"] exI [of _ m'] exI [of _ post] exI [of _ start']) auto
  qed
qed auto

section \<open>Copying\<close>

lemma slice_in_member:
  assumes "length pre = s" "s \<le> a" "a - s + l \<le> length bm"
  shows "take l (drop (a - s) bm) = take l (drop a (pre @ bm @ post))"
  using assms by (simp add: take_append)

lemma slice_over_member:
  assumes "length pre = s" "s \<le> a" "a - s \<le> length bm" "length bm - (a - s) \<le> l"
  shows "take l (drop a (pre @ bm @ post)) =
    drop (a - s) bm @ take (l - (length bm - (a - s))) (drop (s + length bm) (pre @ bm @ post))"
  using assms by (simp add: take_append)

theorem memcpy_slice:
  "tvb_wf tvb \<Longrightarrow> unat a + unat l \<le> unat (caplen (hdr tvb)) \<Longrightarrow>
     tvb_memcpy tvb a l = Inr (take (unat l) (drop (unat a) (tvb_bytes tvb)))"
  "tvb_wf (TvbComposite h ms starts ends) \<Longrightarrow> real_data h = None \<Longrightarrow>
     unat a + unat l \<le> unat (caplen h) \<Longrightarrow>
     composite_memcpy h ms starts ends a l =
       Inr (take (unat l) (drop (unat a) (tvb_bytes (TvbComposite h ms starts ends))))"
proof (induction tvb a l and h ms starts ends a l rule: tvb_memcpy_composite_memcpy.induct)
  case (1 tvb a l)
  note cap = tvb_wf_caplen [OF "1.prems"(1)] and ini = tvb_wf_initialized [OF "1.prems"(1)]
  note len = length_tvb_bytes [OF "1.prems"(1)]
  have l: "l \<le> 0x7FFFFFFF" using "1.prems"(2) cap by (simp add: word_le_nat_alt word_less_nat_alt)
  have chk: "check_offset_length tvb a l = Inr (a, l)"
    using check_offset_length_unsigned [OF cap "1.prems"(2)] by (simp add: check_offset_length_def)
  show ?case
  proof (cases "real_data (hdr tvb)")
    case (Some d)
    then have "points_at (Some d) (tvb_bytes tvb)" using points_at_bytes [OF "1.prems"(1)] by simp
    from points_at_slice [OF this, of "unat a" "unat l"] "1.prems"(2) len Some chk l ini
    show ?thesis by (simp add: copy_from_def tvb_memcpy.simps [of tvb a l])
  next
    case None
    note IH = "1.IH" [OF ini l chk refl None]
    show ?thesis
    proof (cases tvb)
      case (TvbReal h)
      with None "1.prems" chk l ini show ?thesis
        by (simp add: tvb_memcpy.simps unat_eq_zero)
    next
      case (TvbSubset h backing off sublen)
      with "1.prems" have wf: "tvb_wf backing"
        and le: "unat off + unat a + unat l \<le> unat (caplen (hdr backing))"
        by (auto simp: word_le_nat_alt)
      from tvb_wf_caplen [OF wf] le have off: "unat (off + a) = unat off + unat a"
        by (intro unat_add_less) (simp add: word_less_nat_alt)
      from IH(1) [OF TvbSubset wf] le off
      have "tvb_memcpy tvb a l = Inr (take (unat l) (drop (unat off + unat a) (tvb_bytes backing)))"
        using None TvbSubset chk l ini
        by (simp add: tvb_memcpy.simps [of "TvbSubset h backing off sublen"])
      with "1.prems" TvbSubset show ?thesis by (simp add: take_drop_take add.commute)
    next
      case (TvbComposite h ms starts ends)
      with None "1.prems" chk l ini IH(2) [OF TvbComposite] show ?thesis
        by (simp add: tvb_memcpy.simps [of "TvbComposite h ms starts ends"])
    qed
  qed
next
  case (2 h ms starts ends a l)
  let ?bs = "concat (map tvb_bytes ms)"
  from "2.prems" have wfs: "\<forall>m \<in> set ms. tvb_wf m" and lay: "layout 0 ms starts ends"
    and tot: "unat (caplen h) \<le> total ms" "total ms < 2 ^ 31"
    by auto
  have slice: "take (unat l) (drop (unat a) (tvb_bytes (TvbComposite h ms starts ends))) =
      take (unat l) (drop (unat a) ?bs)"
    using "2.prems"(3) by (simp add: take_drop_take)
  show ?case
  proof (cases "unat a < total ms")
    case False
    with "2.prems"(3) tot have "unat (caplen h) = unat a" "unat l = 0" by linarith+
    then have "caplen h = a" "l = 0" by (auto intro: unat_eqI simp: unat_eq_zero)
    with find_member_None [OF lay, of a 0] False show ?thesis
      by (simp add: composite_memcpy.simps)
  next
    case True
    with find_member_Some [OF lay, of a 0] obtain pre m post start where
      found: "find_member 0 a ms starts ends = Some (length pre, m, start)"
      and ms: "ms = pre @ m # post" and start: "unat start = total pre"
      and a: "unat start \<le> unat a" "unat a < unat start + unat (caplen (hdr m))"
      by auto
    have wf: "tvb_wf m" using wfs ms by simp
    note cap = tvb_wf_caplen [OF wf] and ini = tvb_wf_initialized [OF wf]
    have off: "unat (a - start) = unat a - unat start"
      using a(1) by (simp add: unat_sub word_le_nat_alt)
    have bs: "?bs = concat (map tvb_bytes pre) @ tvb_bytes m @ concat (map tvb_bytes post)"
      using ms by simp
    have lpre: "length (concat (map tvb_bytes pre)) = unat start"
      using length_concat_bytes [of pre] wfs ms start by simp
    have lm: "length (tvb_bytes m) = unat (caplen (hdr m))" by (rule length_tvb_bytes [OF wf])
    have l: "l < 0x80000000" using "2.prems"(3) tot by (simp add: word_less_nat_alt)
    have ex: "tvb_bytes_exist m (a - start) l =
        Inr (unat a - unat start + unat l \<le> unat (caplen (hdr m)))"
      using tvb_bytes_exist_unsigned [OF cap ini _ l, of "a - start"] a off by simp
    show ?thesis
    proof (cases "unat a - unat start + unat l \<le> unat (caplen (hdr m))")
      case True
      have "composite_memcpy h ms starts ends a l =
          Inr (take (unat l) (drop (unat a - unat start) (tvb_bytes m)))"
        using "2.IH"(1) [OF found refl refl refl ex True "2.prems"(2) wf] True off
          found ex "2.prems"(2)
        by (simp add: Let_def composite_memcpy.simps [of h ms starts ends a l])
      also have "take (unat l) (drop (unat a - unat start) (tvb_bytes m)) =
          take (unat l) (drop (unat a) ?bs)"
        unfolding bs by (rule slice_in_member [OF lpre a(1)]) (use lm True in simp)
      finally show ?thesis by (simp only: slice)
    next
      case False
      define r where "r = caplen (hdr m) - (a - start)"
      have r: "unat r = unat (caplen (hdr m)) - (unat a - unat start)"
        using a off by (simp add: r_def unat_sub word_le_nat_alt)
      have r_less: "unat r < unat l" "0 < unat r" using False a r by auto
      have rem: "tvb_captured_length_remaining m (a - start) = Inr r"
        using captured_length_remaining_unsigned [OF cap ini, of "a - start"] a off
        by (simp add: r_def)
      have pos: "0 <s r"
        using r_less l by (intro signed_pos_unat) (simp_all add: word_less_nat_alt)
      have "tvb_memcpy m (a - start) r =
          Inr (take (unat r) (drop (unat a - unat start) (tvb_bytes m)))"
        using "2.IH"(2) [OF found refl refl refl ex False rem pos wf] a off r by simp
      then have cp: "tvb_memcpy m (a - start) r = Inr (drop (unat a - unat start) (tvb_bytes m))"
        using lm r by simp
      have lr: "l - r > 0" "unat (l - r) = unat l - unat r"
        using r_less by (simp_all add: unat_sub word_le_nat_alt word_less_nat_alt)
      have ar: "unat (a + r) = unat start + unat (caplen (hdr m))"
        using unat_add_less [of a r] "2.prems"(3) r_less tot a r by simp
      have rest: "unat (a + r) + unat (l - r) \<le> unat (caplen h)"
        using "2.prems"(3) ar lr(2) a r r_less by linarith
      have "composite_memcpy h ms starts ends (a + r) (l - r) =
          Inr (take (unat l - unat r) (drop (unat start + unat (caplen (hdr m))) ?bs))"
        using "2.IH"(3) [OF found refl refl refl ex False rem pos cp lr(1) "2.prems"(1,2) rest]
          rest take_drop_take [of "unat (a + r)" "unat (l - r)" "unat (caplen h)" ?bs]
        by (simp only: tvb_bytes.simps ar lr(2))
      then have "composite_memcpy h ms starts ends a l =
          Inr (drop (unat a - unat start) (tvb_bytes m) @
               take (unat l - unat r) (drop (unat start + unat (caplen (hdr m))) ?bs))"
        using found ex False rem pos cp lr(1)
        by (simp add: Let_def composite_memcpy.simps [of h ms starts ends a l])
      also have "drop (unat a - unat start) (tvb_bytes m) @
          take (unat l - unat r) (drop (unat start + unat (caplen (hdr m))) ?bs) =
          take (unat l) (drop (unat a) ?bs)"
        unfolding bs r lm [symmetric]
        by (rule slice_over_member [OF lpre a(1), symmetric]) (use lm a r_less r in simp_all)
      finally show ?thesis by (simp only: slice)
    qed
  qed
qed

section \<open>Pointing\<close>

text \<open>Reading may flatten composites, which changes nothing that a reader can see.\<close>

definition same_view :: "tvbuff \<Rightarrow> tvbuff \<Rightarrow> bool" where
  "same_view tvb tvb' \<longleftrightarrow>
     tvb_wf tvb' \<and> tvb_bytes tvb' = tvb_bytes tvb \<and>
     hdr tvb' = (hdr tvb)\<lparr>real_data := real_data (hdr tvb')\<rparr>"

lemma same_view_refl: "tvb_wf tvb \<Longrightarrow> same_view tvb tvb"
  by (simp add: same_view_def)

lemma same_view_hdr: "same_view tvb tvb' \<Longrightarrow> hdr tvb' = (hdr tvb)\<lparr>real_data := real_data (hdr tvb')\<rparr>"
  by (simp add: same_view_def)

lemma same_view_trans: "same_view t u \<Longrightarrow> same_view u v \<Longrightarrow> same_view t v"
  unfolding same_view_def by (cases "hdr t", cases "hdr u", cases "hdr v") auto

lemma same_view_caplen: "same_view tvb tvb' \<Longrightarrow> caplen (hdr tvb') = caplen (hdr tvb)"
  by (drule same_view_hdr) (metis tvb_hdr.select_convs(4) tvb_hdr.surjective tvb_hdr.update_convs(3))

lemma same_view_wf: "same_view tvb tvb' \<Longrightarrow> tvb_wf tvb'"
  by (simp add: same_view_def)

lemma same_view_bytes: "same_view tvb tvb' \<Longrightarrow> tvb_bytes tvb' = tvb_bytes tvb"
  by (simp add: same_view_def)

lemmas same_viewD = same_view_wf same_view_bytes same_view_caplen

lemma same_view_subset:
  assumes "tvb_wf (TvbSubset h backing off sublen)" "same_view backing backing'"
  shows "same_view (TvbSubset h backing off sublen) (TvbSubset h backing' off sublen)"
  using assms same_view_caplen [OF assms(2)] by (auto simp: same_view_def)

lemma layout_map:
  "layout n ms starts ends \<Longrightarrow> map (caplen \<circ> hdr) ms' = map (caplen \<circ> hdr) ms \<Longrightarrow>
   layout n ms' starts ends"
proof (induction n ms starts ends arbitrary: ms' rule: layout.induct)
  case (2 n m ms start starts end_offset ends)
  then show ?case by (cases ms') auto
qed auto

lemma same_view_composite:
  assumes "tvb_wf (TvbComposite h (pre @ m # post) starts ends)" "same_view m m'"
  shows "same_view (TvbComposite h (pre @ m # post) starts ends)
    (TvbComposite h (pre @ m' # post) starts ends)"
  using assms same_view_caplen [OF assms(2)]
    layout_map [of 0 "pre @ m # post" starts ends "pre @ m' # post"]
  by (auto simp: same_view_def)

definition ptr_result ::
    "tvbuff \<Rightarrow> guint \<Rightarrow> guint \<Rightarrow> (guint8 list option \<times> tvbuff) res \<Rightarrow> bool" where
  "ptr_result tvb a l r \<longleftrightarrow>
     (\<exists>d tvb'. r = Inr (Some d, tvb') \<and> unat l \<le> length d \<and>
        take (unat l) d = take (unat l) (drop (unat a) (tvb_bytes tvb)) \<and> same_view tvb tvb')"

theorem contiguous_slice:
  "tvb_wf tvb \<Longrightarrow> unat a + unat l \<le> unat (caplen (hdr tvb)) \<Longrightarrow> l \<noteq> 0 \<Longrightarrow>
     \<exists>d tvb'. ensure_contiguous_no_exception tvb a l = Inr (Ptr (Some d), tvb') \<and>
       ptr_result tvb a l (Inr (Some d, tvb'))"
  "tvb_wf tvb \<Longrightarrow> unat a + unat l \<le> unat (caplen (hdr tvb)) \<Longrightarrow> l \<noteq> 0 \<Longrightarrow>
     ptr_result tvb a l (ensure_contiguous tvb a l)"
  "tvb_wf (TvbComposite h ms starts ends) \<Longrightarrow> real_data h = None \<Longrightarrow>
     unat a + unat l \<le> unat (caplen h) \<Longrightarrow> l \<noteq> 0 \<Longrightarrow>
     ptr_result (TvbComposite h ms starts ends) a l (composite_get_ptr h ms starts ends a l)"
proof (induction tvb a l and tvb a l and h ms starts ends a l
    rule: ensure_contiguous_no_exception_ensure_contiguous_composite_get_ptr.induct)
  case (1 tvb a l)
  have chk: "check_offset_length_no_exception tvb a l = Inr (a, l)"
    by (rule check_offset_length_unsigned [OF tvb_wf_caplen [OF "1.prems"(1)] "1.prems"(2)])
  show ?case
  proof (cases "real_data (hdr tvb)")
    case (Some d)
    then have "points_at (Some d) (tvb_bytes tvb)" using points_at_bytes [OF "1.prems"(1)] by simp
    from points_at_slice [OF this, of "unat a" "unat l"] show ?thesis
      using "1.prems" Some chk length_tvb_bytes [OF "1.prems"(1)] same_view_refl
      by (simp add: ensure_contiguous_no_exception.simps [of tvb a l] ptr_result_def)
  next
    case None
    note IH = "1.IH" [OF chk refl "1.prems"(3) None]
    show ?thesis
    proof (cases tvb)
      case (TvbReal h)
      with None "1.prems" show ?thesis by (simp add: unat_eq_zero)
    next
      case (TvbSubset h backing off sublen)
      with "1.prems" have wf: "tvb_wf backing"
        and le: "unat off + unat a + unat l \<le> unat (caplen (hdr backing))"
        by (auto simp: word_le_nat_alt)
      from tvb_wf_caplen [OF wf] le have off: "unat (off + a) = unat off + unat a"
        by (intro unat_add_less) (simp add: word_less_nat_alt)
      from IH(1) [OF TvbSubset wf _ "1.prems"(3)] le off
      obtain d backing' where r: "ensure_contiguous backing (off + a) l = Inr (Some d, backing')"
        and d: "unat l \<le> length d"
          "take (unat l) d = take (unat l) (drop (unat off + unat a) (tvb_bytes backing))"
        and v: "same_view backing backing'"
        by (auto simp: ptr_result_def)
      from d(2) TvbSubset "1.prems"(2)
      have d2: "take (unat l) d = take (unat l) (drop (unat a) (tvb_bytes tvb))"
        by (simp add: take_drop_take add.commute)
      from r None chk TvbSubset "1.prems"(3)
      have "ensure_contiguous_no_exception tvb a l =
          Inr (Ptr (Some d), TvbSubset h backing' off sublen)"
        by (simp add: ensure_contiguous_no_exception.simps [of "TvbSubset h backing off sublen"])
      with d(1) d2 same_view_subset [OF _ v] "1.prems"(1) TvbSubset show ?thesis
        by (simp add: ptr_result_def)
    next
      case (TvbComposite h ms starts ends)
      from IH(2) [OF TvbComposite] "1.prems" None TvbComposite
      obtain d tvb' where r: "composite_get_ptr h ms starts ends a l = Inr (Some d, tvb')"
        and p: "ptr_result tvb a l (Inr (Some d, tvb'))"
        by (auto simp: ptr_result_def)
      from r None chk TvbComposite "1.prems"(3)
      have "ensure_contiguous_no_exception tvb a l = Inr (Ptr (Some d), tvb')"
        by (simp add: ensure_contiguous_no_exception.simps [of "TvbComposite h ms starts ends"])
      with p show ?thesis by blast
    qed
  qed
next
  case (2 tvb a l)
  from "2.IH" [OF "2.prems"] obtain d tvb' where
    "ensure_contiguous_no_exception tvb a l = Inr (Ptr (Some d), tvb')"
    "ptr_result tvb a l (Inr (Some d, tvb'))" by blast
  then show ?case by (simp add: ensure_contiguous.simps [of tvb a l])
next
  case (3 h ms starts ends a l)
  let ?c = "TvbComposite h ms starts ends"
  from "3.prems" have wfs: "\<forall>m \<in> set ms. tvb_wf m" and lay: "layout 0 ms starts ends"
    and tot: "unat (caplen h) \<le> total ms" "total ms < 2 ^ 31"
    by auto
  have "0 < unat l" using "3.prems"(4) by (simp add: unat_gt_0)
  with "3.prems"(3) tot find_member_Some [OF lay, of a 0] obtain pre m post start where
    found: "find_member 0 a ms starts ends = Some (length pre, m, start)"
    and ms: "ms = pre @ m # post" and start: "unat start = total pre"
    and a: "unat start \<le> unat a" "unat a < unat start + unat (caplen (hdr m))"
    by auto
  have wf: "tvb_wf m" using wfs ms by simp
  have off: "unat (a - start) = unat a - unat start"
    using a(1) by (simp add: unat_sub word_le_nat_alt)
  have l: "l < 0x80000000" using "3.prems"(3) tot by (simp add: word_less_nat_alt)
  have ex: "tvb_bytes_exist m (a - start) l =
      Inr (unat a - unat start + unat l \<le> unat (caplen (hdr m)))"
    using tvb_bytes_exist_unsigned [OF tvb_wf_caplen [OF wf] tvb_wf_initialized [OF wf] _ l,
        of "a - start"] a off by simp
  have slice: "take (unat l) (drop (unat a) (tvb_bytes ?c)) =
      take (unat l) (drop (unat a) (concat (map tvb_bytes ms)))"
    using "3.prems"(3) by (simp add: take_drop_take)
  show ?case
  proof (cases "unat a - unat start + unat l \<le> unat (caplen (hdr m))")
    case True
    from "3.IH" [OF found refl refl refl ex True "3.prems"(2) wf _ "3.prems"(4)] off True
    obtain d m' where r: "ensure_contiguous m (a - start) l = Inr (Some d, m')"
      and d: "unat l \<le> length d"
        "take (unat l) d = take (unat l) (drop (unat a - unat start) (tvb_bytes m))"
      and v: "same_view m m'"
      by (auto simp: ptr_result_def)
    have "length (concat (map tvb_bytes pre)) = unat start"
      using length_concat_bytes [of pre] wfs ms start by simp
    from slice_in_member [OF this a(1), of "unat l" "tvb_bytes m"] True
    have d2: "take (unat l) d = take (unat l) (drop (unat a) (tvb_bytes ?c))"
      unfolding slice d(2) by (simp add: ms length_tvb_bytes [OF wf])
    have "composite_get_ptr h ms starts ends a l =
        Inr (Some d, TvbComposite h (pre @ m' # post) starts ends)"
      using found ex True "3.prems"(2) r ms
      by (simp add: composite_get_ptr.simps Let_def)
    with d(1) d2 same_view_composite [OF _ v] "3.prems"(1) ms show ?thesis
      by (simp add: ptr_result_def)
  next
    case False
    let ?bs = "tvb_bytes ?c"
    have len: "length ?bs = unat (caplen h)" using length_tvb_bytes [OF "3.prems"(1)] by simp
    have "tvb_memcpy ?c 0 (caplen h) = Inr ?bs"
      using memcpy_slice(1) [OF "3.prems"(1), of 0 "caplen h"] len by simp
    then have "composite_get_ptr h ms starts ends a l =
        Inr (Some (drop (unat a) ?bs),
             TvbComposite (h\<lparr>real_data := Some ?bs\<rparr>) ms starts ends)"
      using found ex False by (simp add: composite_get_ptr.simps Let_def)
    moreover have "same_view ?c (TvbComposite (h\<lparr>real_data := Some ?bs\<rparr>) ms starts ends)"
      using "3.prems"(1) by (auto simp: same_view_def points_at_def min_def)
    ultimately show ?thesis using "3.prems"(3) len by (simp add: ptr_result_def)
  qed
qed

section \<open>Pointing with any offset, and the fast path\<close>

text \<open>The exceptions a bounds check may throw.\<close>

definition bounds_exc :: "exc \<Rightarrow> bool" where
  "bounds_exc e \<longleftrightarrow>
     e \<in> {BoundsError, ContainedBoundsError, ReportedBoundsError, FragmentBoundsError}"

lemma bounds_exc_simps [simp]:
  "bounds_exc BoundsError" "bounds_exc ContainedBoundsError"
  "bounds_exc ReportedBoundsError" "bounds_exc FragmentBoundsError"
  "\<not> bounds_exc DissectorError" "\<not> bounds_exc Fault"
  by (simp_all add: bounds_exc_def)

lemma compute_offset_bounds_exc: "compute_offset tvb offset = Inl e \<Longrightarrow> bounds_exc e"
  by (auto simp: compute_offset_def Let_def split: if_splits)

lemma validate_offset_bounds_exc: "validate_offset tvb a = Some e \<Longrightarrow> bounds_exc e"
  by (auto simp: validate_offset_def Let_def split: if_splits)

lemma check_offset_length_bounds_exc:
  "check_offset_length_no_exception tvb offset len = Inl e \<Longrightarrow> bounds_exc e"
  by (auto simp: check_offset_length_no_exception_def Let_def errs
      split: if_splits option.splits
      dest: compute_offset_bounds_exc validate_offset_bounds_exc)

text \<open>The bytes that an offset and a length of an access denote.\<close>

definition slice :: "tvbuff \<Rightarrow> gint \<Rightarrow> nat \<Rightarrow> guint8 list" where
  "slice tvb offset n = take n (drop (nat (position tvb offset)) (tvb_bytes tvb))"

definition slice_ptr ::
    "tvbuff \<Rightarrow> gint \<Rightarrow> nat \<Rightarrow> (guint8 list option \<times> tvbuff) res \<Rightarrow> bool" where
  "slice_ptr tvb offset n r \<longleftrightarrow>
     (\<exists>d tvb'. r = Inr (Some d, tvb') \<and> n \<le> length d \<and> take n d = slice tvb offset n \<and>
        same_view tvb tvb')"

lemma ensure_contiguous_check:
  assumes "check_offset_length_no_exception tvb offset len = Inr (a, len)"
    and "check_offset_length_no_exception tvb a len = Inr (a, len)"
  shows "ensure_contiguous tvb offset len = ensure_contiguous tvb a len"
  using assms by (simp add: ensure_contiguous.simps ensure_contiguous_no_exception.simps)

lemma ensure_contiguous_in_bounds:
  assumes wf: "tvb_wf tvb" and b: "in_bounds tvb offset len" and l: "0 < sint len"
  shows "slice_ptr tvb offset (unat len) (ensure_contiguous tvb offset len)"
proof -
  note cap = tvb_wf_caplen [OF wf]
  obtain a l' where chk: "check_offset_length_no_exception tvb offset len = Inr (a, l')"
    and a: "uint a = position tvb offset" and l': "uint l' = extent tvb offset len"
    using b by (rule check_offset_length_in_bounds [OF cap])
  have len: "uint len = sint len" "len \<noteq> 0" "sint len \<noteq> -1"
    using l uint_bounds [of len] by (auto simp: sint_gint split: if_splits)
  then have "l' = len" using l' by (simp add: extent_def word_uint_eq_iff)
  have "uint a + uint len \<le> uint (caplen (hdr tvb))"
    using b a len by (simp add: in_bounds_def extent_def)
  then have le: "unat a + unat len \<le> unat (caplen (hdr tvb))" by (simp add: nat_uint_le)
  have "ensure_contiguous tvb offset len = ensure_contiguous tvb a len"
    using chk check_offset_length_unsigned [OF cap le] \<open>l' = len\<close>
    by (intro ensure_contiguous_check) simp_all
  moreover have "nat (position tvb offset) = unat a" using a [symmetric] by simp
  ultimately show ?thesis
    using contiguous_slice(2) [OF wf le len(2)] by (auto simp: ptr_result_def slice_ptr_def slice_def)
qed

lemma ensure_contiguous_out_of_bounds:
  assumes wf: "tvb_wf tvb" and b: "\<not> in_bounds tvb offset len" and l: "len \<noteq> 0"
  shows "\<exists>e. ensure_contiguous tvb offset len = Inl e \<and> bounds_exc e"
proof -
  obtain e where "check_offset_length_no_exception tvb offset len = Inl e"
    using b check_offset_length_iff [OF tvb_wf_caplen [OF wf], of offset len]
    by (cases "check_offset_length_no_exception tvb offset len") auto
  then show ?thesis
    using l check_offset_length_bounds_exc
    by (auto simp: ensure_contiguous.simps ensure_contiguous_no_exception.simps)
qed

lemma small_length:
  assumes "1 \<le> n" "n \<le> 8"
  shows "uint (of_nat n :: gint) = int n" "unat (of_nat n :: gint) = n"
    "sint (of_nat n :: gint) = int n" "(of_nat n :: gint) \<le> 8" "(of_nat n :: gint) \<noteq> 0"
proof -
  show u: "uint (of_nat n :: gint) = int n" using assms by (simp add: unsigned_of_nat take_bit_nat_eq_self)
  show un: "unat (of_nat n :: gint) = n" using assms by (simp add: unsigned_of_nat take_bit_nat_eq_self)
  show "sint (of_nat n :: gint) = int n" using assms u by (simp add: sint_gint)
  show "(of_nat n :: gint) \<le> 8" using assms un by (simp add: word_le_nat_alt)
  show "(of_nat n :: gint) \<noteq> 0" using assms un by (metis unat_0 not_one_le_zero)
qed

theorem fast_path_in_bounds:
  assumes wf: "tvb_wf tvb" and n: "1 \<le> n" "n \<le> 8" and b: "in_bounds tvb offset (of_nat n)"
  shows "slice_ptr tvb offset n (fast_ensure_contiguous tvb offset (of_nat n))"
proof -
  note ini = tvb_wf_initialized [OF wf] and cap = tvb_wf_caplen [OF wf]
  have slow: "slice_ptr tvb offset n (ensure_contiguous tvb offset (of_nat n))"
    using ensure_contiguous_in_bounds [OF wf b] small_length [OF n] n by simp
  show ?thesis
  proof (cases "real_data (hdr tvb) = None \<or> offset <s 0")
    case True
    with slow ini small_length(4) [OF n] show ?thesis
      by (auto simp: fast_ensure_contiguous_def split: option.splits)
  next
    case False
    then obtain d where d: "real_data (hdr tvb) = Some d" and nn: "\<not> offset <s 0" by auto
    then have p: "position tvb offset = uint offset" "uint offset < 0x80000000"
      by (auto simp: position_def gint_arith)
    have e: "uint offset + int n \<le> uint (caplen (hdr tvb))"
      using b p small_length(3) [OF n] by (simp add: in_bounds_def extent_def)
    have s: "uint (offset + of_nat n) = uint offset + int n"
      using p(2) n small_length(1) [OF n] by (simp add: uint_add)
    have fast: "fast_ensure_contiguous tvb offset (of_nat n) = Inr (Some (drop (unat offset) d), tvb)"
      using ini d nn e s small_length(4) [OF n]
      by (simp add: fast_ensure_contiguous_def Let_def word_le_def)
    have "points_at (Some d) (tvb_bytes tvb)" using points_at_bytes [OF wf] d by simp
    moreover have "unat offset + n \<le> length (tvb_bytes tvb)"
    proof -
      have "int (unat offset + n) \<le> int (unat (caplen (hdr tvb)))" using e by simp
      then show ?thesis by (simp only: length_tvb_bytes [OF wf] zle_int)
    qed
    ultimately show ?thesis
      using points_at_slice [of d "tvb_bytes tvb" "unat offset" n] fast same_view_refl [OF wf] p
      by (simp add: slice_ptr_def slice_def)
  qed
qed

theorem fast_path_out_of_bounds:
  assumes wf: "tvb_wf tvb" and n: "1 \<le> n" "n \<le> 8" and b: "\<not> in_bounds tvb offset (of_nat n)"
  shows "\<exists>e. fast_ensure_contiguous tvb offset (of_nat n) = Inl e \<and> bounds_exc e"
proof -
  note ini = tvb_wf_initialized [OF wf] and cap = tvb_wf_caplen [OF wf]
  note slow = ensure_contiguous_out_of_bounds [OF wf b small_length(5) [OF n]]
  show ?thesis
  proof (cases "real_data (hdr tvb) = None \<or> offset <s 0")
    case True
    with slow ini small_length(4) [OF n] show ?thesis
      by (auto simp: fast_ensure_contiguous_def split: option.splits)
  next
    case False
    then obtain d where d: "real_data (hdr tvb) = Some d" and nn: "\<not> offset <s 0" by auto
    then have p: "position tvb offset = uint offset" "uint offset < 0x80000000"
      by (auto simp: position_def gint_arith)
    have s: "uint (offset + of_nat n) = uint offset + int n"
      using p(2) n small_length(1) [OF n] by (simp add: uint_add)
    have "\<not> uint offset + int n \<le> uint (caplen (hdr tvb))"
      using b p(1) small_length(3) [OF n] uint_bounds(1) [of offset]
      by (simp add: in_bounds_def extent_def)
    with s have "\<not> offset + of_nat n \<le> caplen (hdr tvb)" by (simp add: word_le_def)
    with ini d nn small_length(4) [OF n] show ?thesis
      by (simp add: fast_ensure_contiguous_def Let_def)
  qed
qed

section \<open>Sample buffers\<close>

text \<open>
  Concrete buffers for the witnesses: eight captured octets of a packet of ten, a subset of four of
  them, and a composite of the two that has not been flattened.
\<close>

definition sample_real :: tvbuff where
  "sample_real = TvbReal \<lparr>initialized = True, flags = 0,
     real_data = Some [0x01, 0x02, 0x83, 0x04, 0xF5, 0x06, 0x07, 0x08], caplen = 8,
     reported_length = 10, contained_length = 10, raw_offset = - 1\<rparr>"

definition sample_subset :: tvbuff where
  "sample_subset = tvb_new_with_subset sample_real 4 2 4"

definition sample_composite :: tvbuff where
  "sample_composite = TvbComposite \<lparr>initialized = True, flags = 0, real_data = None, caplen = 12,
     reported_length = 14, contained_length = 14, raw_offset = - 1\<rparr>
     [sample_real, sample_subset] [0, 8] [7, 11]"

lemma sample_real_bytes: "tvb_bytes sample_real = [1, 2, 0x83, 4, 0xF5, 6, 7, 8]"
  by (simp add: sample_real_def)

lemma sample_subset_bytes: "tvb_bytes sample_subset = [0x83, 4, 0xF5, 6]"
  by (simp add: sample_subset_def tvb_new_with_subset_def sample_real_bytes)

lemma sample_composite_bytes:
  "tvb_bytes sample_composite = [1, 2, 0x83, 4, 0xF5, 6, 7, 8, 0x83, 4, 0xF5, 6]"
  by (simp add: sample_composite_def sample_real_bytes sample_subset_bytes)

lemma sample_hdr:
  "initialized (hdr sample_composite)" "caplen (hdr sample_composite) = 12"
  "reported_length (hdr sample_composite) = 14" "contained_length (hdr sample_composite) = 14"
  "initialized (hdr sample_real)" "caplen (hdr sample_real) = 8"
  "reported_length (hdr sample_real) = 10" "contained_length (hdr sample_real) = 10"
  "flags (hdr sample_real) = 0" "caplen (hdr sample_subset) = 4"
  by (simp_all add: sample_composite_def sample_real_def sample_subset_def tvb_new_with_subset_def)

lemma sample_wf: "tvb_wf sample_real" "tvb_wf sample_subset" "tvb_wf sample_composite"
proof -
  show r: "tvb_wf sample_real" by (simp add: sample_real_def)
  show s: "tvb_wf sample_subset"
    using r by (simp add: sample_subset_def tvb_new_with_subset_def sample_real_bytes points_at_def)
      (simp add: sample_real_def)
  show "tvb_wf sample_composite"
    using r s by (simp add: sample_composite_def sample_hdr points_at_def)
qed

lemmas sample = sample_wf sample_hdr sample_real_bytes sample_subset_bytes sample_composite_bytes

end
