(* ===== verification/TvbAccess.thy ===== *)
theory TvbAccess
  imports TvbRefine
begin

text \<open>
  The integer accessors of epan/tvbuff.c: every one takes the fast path to a pointer and reads a
  number through it. A \<open>gintN\<close> result is the word of the same width. Floating-point results are the
  bit patterns that the union of the code reinterprets; the host is wasm32, which is
  little-endian.
\<close>

section \<open>Reading \<open>n\<close> bytes at an offset\<close>

text \<open>\<open>ptr = fast_ensure_contiguous(tvb, offset, n); return rd(ptr);\<close>\<close>

definition fetch :: "nat \<Rightarrow> (guint8 list \<Rightarrow> 'a) \<Rightarrow> tvbuff \<Rightarrow> gint \<Rightarrow> ('a \<times> tvbuff) res" where
  "fetch n rd tvb offset =
     bindE (fast_ensure_contiguous tvb offset (of_nat n)) (\<lambda>(ptr, tvb').
       bindE (load n rd ptr) (\<lambda>v. Inr (v, tvb')))"

text \<open>Applying a function that may abort to the value that was read.\<close>

definition and_then :: "('a \<times> tvbuff) res \<Rightarrow> ('a \<Rightarrow> 'b option) \<Rightarrow> ('b \<times> tvbuff) res" where
  "and_then m f =
     bindE m (\<lambda>(v, tvb'). case f v of None \<Rightarrow> Inl Fault | Some w \<Rightarrow> Inr (w, tvb'))"

section \<open>Bytes and big-endian integers\<close>

definition tvb_get_guint8 :: "tvbuff \<Rightarrow> gint \<Rightarrow> (guint8 \<times> tvbuff) res" where
  "tvb_get_guint8 tvb offset = fetch 1 (\<lambda>p. p ! 0) tvb offset"

definition tvb_get_gint8 :: "tvbuff \<Rightarrow> gint \<Rightarrow> (gint8 \<times> tvbuff) res" where
  "tvb_get_gint8 tvb offset = fetch 1 (\<lambda>p. p ! 0) tvb offset"

definition tvb_get_ntohs :: "tvbuff \<Rightarrow> gint \<Rightarrow> (guint16 \<times> tvbuff) res" where
  "tvb_get_ntohs tvb offset = fetch 2 pntoh16 tvb offset"

definition tvb_get_ntohis :: "tvbuff \<Rightarrow> gint \<Rightarrow> (gint16 \<times> tvbuff) res" where
  "tvb_get_ntohis tvb offset = fetch 2 pntoh16 tvb offset"

definition tvb_get_ntoh24 :: "tvbuff \<Rightarrow> gint \<Rightarrow> (guint32 \<times> tvbuff) res" where
  "tvb_get_ntoh24 tvb offset = fetch 3 pntoh24 tvb offset"

definition tvb_get_ntohi24 :: "tvbuff \<Rightarrow> gint \<Rightarrow> (gint32 \<times> tvbuff) res" where
  "tvb_get_ntohi24 tvb offset =
     and_then (tvb_get_ntoh24 tvb offset) (\<lambda>v. ws_sign_ext32 v 24)"

definition tvb_get_ntohl :: "tvbuff \<Rightarrow> gint \<Rightarrow> (guint32 \<times> tvbuff) res" where
  "tvb_get_ntohl tvb offset = fetch 4 pntoh32 tvb offset"

definition tvb_get_ntohil :: "tvbuff \<Rightarrow> gint \<Rightarrow> (gint32 \<times> tvbuff) res" where
  "tvb_get_ntohil tvb offset = fetch 4 pntoh32 tvb offset"

definition tvb_get_ntoh40 :: "tvbuff \<Rightarrow> gint \<Rightarrow> (guint64 \<times> tvbuff) res" where
  "tvb_get_ntoh40 tvb offset = fetch 5 pntoh40 tvb offset"

definition tvb_get_ntohi40 :: "tvbuff \<Rightarrow> gint \<Rightarrow> (gint64 \<times> tvbuff) res" where
  "tvb_get_ntohi40 tvb offset =
     and_then (tvb_get_ntoh40 tvb offset) (\<lambda>v. ws_sign_ext64 v 40)"

definition tvb_get_ntoh48 :: "tvbuff \<Rightarrow> gint \<Rightarrow> (guint64 \<times> tvbuff) res" where
  "tvb_get_ntoh48 tvb offset = fetch 6 pntoh48 tvb offset"

definition tvb_get_ntohi48 :: "tvbuff \<Rightarrow> gint \<Rightarrow> (gint64 \<times> tvbuff) res" where
  "tvb_get_ntohi48 tvb offset =
     and_then (tvb_get_ntoh48 tvb offset) (\<lambda>v. ws_sign_ext64 v 48)"

definition tvb_get_ntoh56 :: "tvbuff \<Rightarrow> gint \<Rightarrow> (guint64 \<times> tvbuff) res" where
  "tvb_get_ntoh56 tvb offset = fetch 7 pntoh56 tvb offset"

definition tvb_get_ntohi56 :: "tvbuff \<Rightarrow> gint \<Rightarrow> (gint64 \<times> tvbuff) res" where
  "tvb_get_ntohi56 tvb offset =
     and_then (tvb_get_ntoh56 tvb offset) (\<lambda>v. ws_sign_ext64 v 56)"

definition tvb_get_ntoh64 :: "tvbuff \<Rightarrow> gint \<Rightarrow> (guint64 \<times> tvbuff) res" where
  "tvb_get_ntoh64 tvb offset = fetch 8 pntoh64 tvb offset"

definition tvb_get_ntohi64 :: "tvbuff \<Rightarrow> gint \<Rightarrow> (gint64 \<times> tvbuff) res" where
  "tvb_get_ntohi64 tvb offset = fetch 8 pntoh64 tvb offset"

section \<open>Little-endian integers\<close>

definition tvb_get_letohs :: "tvbuff \<Rightarrow> gint \<Rightarrow> (guint16 \<times> tvbuff) res" where
  "tvb_get_letohs tvb offset = fetch 2 pletoh16 tvb offset"

definition tvb_get_letohis :: "tvbuff \<Rightarrow> gint \<Rightarrow> (gint16 \<times> tvbuff) res" where
  "tvb_get_letohis tvb offset = fetch 2 pletoh16 tvb offset"

definition tvb_get_letoh24 :: "tvbuff \<Rightarrow> gint \<Rightarrow> (guint32 \<times> tvbuff) res" where
  "tvb_get_letoh24 tvb offset = fetch 3 pletoh24 tvb offset"

definition tvb_get_letohi24 :: "tvbuff \<Rightarrow> gint \<Rightarrow> (gint32 \<times> tvbuff) res" where
  "tvb_get_letohi24 tvb offset =
     and_then (tvb_get_letoh24 tvb offset) (\<lambda>v. ws_sign_ext32 v 24)"

definition tvb_get_letohl :: "tvbuff \<Rightarrow> gint \<Rightarrow> (guint32 \<times> tvbuff) res" where
  "tvb_get_letohl tvb offset = fetch 4 pletoh32 tvb offset"

definition tvb_get_letohil :: "tvbuff \<Rightarrow> gint \<Rightarrow> (gint32 \<times> tvbuff) res" where
  "tvb_get_letohil tvb offset = fetch 4 pletoh32 tvb offset"

definition tvb_get_letoh40 :: "tvbuff \<Rightarrow> gint \<Rightarrow> (guint64 \<times> tvbuff) res" where
  "tvb_get_letoh40 tvb offset = fetch 5 pletoh40 tvb offset"

definition tvb_get_letohi40 :: "tvbuff \<Rightarrow> gint \<Rightarrow> (gint64 \<times> tvbuff) res" where
  "tvb_get_letohi40 tvb offset =
     and_then (tvb_get_letoh40 tvb offset) (\<lambda>v. ws_sign_ext64 v 40)"

definition tvb_get_letoh48 :: "tvbuff \<Rightarrow> gint \<Rightarrow> (guint64 \<times> tvbuff) res" where
  "tvb_get_letoh48 tvb offset = fetch 6 pletoh48 tvb offset"

definition tvb_get_letohi48 :: "tvbuff \<Rightarrow> gint \<Rightarrow> (gint64 \<times> tvbuff) res" where
  "tvb_get_letohi48 tvb offset =
     and_then (tvb_get_letoh48 tvb offset) (\<lambda>v. ws_sign_ext64 v 48)"

definition tvb_get_letoh56 :: "tvbuff \<Rightarrow> gint \<Rightarrow> (guint64 \<times> tvbuff) res" where
  "tvb_get_letoh56 tvb offset = fetch 7 pletoh56 tvb offset"

definition tvb_get_letohi56 :: "tvbuff \<Rightarrow> gint \<Rightarrow> (gint64 \<times> tvbuff) res" where
  "tvb_get_letohi56 tvb offset =
     and_then (tvb_get_letoh56 tvb offset) (\<lambda>v. ws_sign_ext64 v 56)"

definition tvb_get_letoh64 :: "tvbuff \<Rightarrow> gint \<Rightarrow> (guint64 \<times> tvbuff) res" where
  "tvb_get_letoh64 tvb offset = fetch 8 pletoh64 tvb offset"

definition tvb_get_letohi64 :: "tvbuff \<Rightarrow> gint \<Rightarrow> (gint64 \<times> tvbuff) res" where
  "tvb_get_letohi64 tvb offset = fetch 8 pletoh64 tvb offset"

section \<open>Integers in the byte order an encoding names\<close>

definition ENC_LITTLE_ENDIAN :: guint where
  "ENC_LITTLE_ENDIAN = 0x80000000"

definition little_endian :: "guint \<Rightarrow> bool" where
  "little_endian encoding \<longleftrightarrow> encoding AND ENC_LITTLE_ENDIAN \<noteq> 0"

definition tvb_get_guint16 :: "tvbuff \<Rightarrow> gint \<Rightarrow> guint \<Rightarrow> (guint16 \<times> tvbuff) res" where
  "tvb_get_guint16 tvb offset encoding =
     (if little_endian encoding then tvb_get_letohs tvb offset else tvb_get_ntohs tvb offset)"

definition tvb_get_gint16 :: "tvbuff \<Rightarrow> gint \<Rightarrow> guint \<Rightarrow> (gint16 \<times> tvbuff) res" where
  "tvb_get_gint16 tvb offset encoding =
     (if little_endian encoding then tvb_get_letohis tvb offset else tvb_get_ntohis tvb offset)"

definition tvb_get_guint24 :: "tvbuff \<Rightarrow> gint \<Rightarrow> guint \<Rightarrow> (guint32 \<times> tvbuff) res" where
  "tvb_get_guint24 tvb offset encoding =
     (if little_endian encoding then tvb_get_letoh24 tvb offset else tvb_get_ntoh24 tvb offset)"

definition tvb_get_gint24 :: "tvbuff \<Rightarrow> gint \<Rightarrow> guint \<Rightarrow> (gint32 \<times> tvbuff) res" where
  "tvb_get_gint24 tvb offset encoding =
     (if little_endian encoding then tvb_get_letohi24 tvb offset else tvb_get_ntohi24 tvb offset)"

definition tvb_get_guint32 :: "tvbuff \<Rightarrow> gint \<Rightarrow> guint \<Rightarrow> (guint32 \<times> tvbuff) res" where
  "tvb_get_guint32 tvb offset encoding =
     (if little_endian encoding then tvb_get_letohl tvb offset else tvb_get_ntohl tvb offset)"

definition tvb_get_gint32 :: "tvbuff \<Rightarrow> gint \<Rightarrow> guint \<Rightarrow> (gint32 \<times> tvbuff) res" where
  "tvb_get_gint32 tvb offset encoding =
     (if little_endian encoding then tvb_get_letohil tvb offset else tvb_get_ntohil tvb offset)"

definition tvb_get_guint40 :: "tvbuff \<Rightarrow> gint \<Rightarrow> guint \<Rightarrow> (guint64 \<times> tvbuff) res" where
  "tvb_get_guint40 tvb offset encoding =
     (if little_endian encoding then tvb_get_letoh40 tvb offset else tvb_get_ntoh40 tvb offset)"

definition tvb_get_gint40 :: "tvbuff \<Rightarrow> gint \<Rightarrow> guint \<Rightarrow> (gint64 \<times> tvbuff) res" where
  "tvb_get_gint40 tvb offset encoding =
     (if little_endian encoding then tvb_get_letohi40 tvb offset else tvb_get_ntohi40 tvb offset)"

definition tvb_get_guint48 :: "tvbuff \<Rightarrow> gint \<Rightarrow> guint \<Rightarrow> (guint64 \<times> tvbuff) res" where
  "tvb_get_guint48 tvb offset encoding =
     (if little_endian encoding then tvb_get_letoh48 tvb offset else tvb_get_ntoh48 tvb offset)"

definition tvb_get_gint48 :: "tvbuff \<Rightarrow> gint \<Rightarrow> guint \<Rightarrow> (gint64 \<times> tvbuff) res" where
  "tvb_get_gint48 tvb offset encoding =
     (if little_endian encoding then tvb_get_letohi48 tvb offset else tvb_get_ntohi48 tvb offset)"

definition tvb_get_guint56 :: "tvbuff \<Rightarrow> gint \<Rightarrow> guint \<Rightarrow> (guint64 \<times> tvbuff) res" where
  "tvb_get_guint56 tvb offset encoding =
     (if little_endian encoding then tvb_get_letoh56 tvb offset else tvb_get_ntoh56 tvb offset)"

definition tvb_get_gint56 :: "tvbuff \<Rightarrow> gint \<Rightarrow> guint \<Rightarrow> (gint64 \<times> tvbuff) res" where
  "tvb_get_gint56 tvb offset encoding =
     (if little_endian encoding then tvb_get_letohi56 tvb offset else tvb_get_ntohi56 tvb offset)"

definition tvb_get_guint64 :: "tvbuff \<Rightarrow> gint \<Rightarrow> guint \<Rightarrow> (guint64 \<times> tvbuff) res" where
  "tvb_get_guint64 tvb offset encoding =
     (if little_endian encoding then tvb_get_letoh64 tvb offset else tvb_get_ntoh64 tvb offset)"

definition tvb_get_gint64 :: "tvbuff \<Rightarrow> gint \<Rightarrow> guint \<Rightarrow> (gint64 \<times> tvbuff) res" where
  "tvb_get_gint64 tvb offset encoding =
     (if little_endian encoding then tvb_get_letohi64 tvb offset else tvb_get_ntohi64 tvb offset)"

section \<open>Floating-point bit patterns, addresses and GUIDs\<close>

definition tvb_get_ntohieee_float :: "tvbuff \<Rightarrow> gint \<Rightarrow> (guint32 \<times> tvbuff) res" where
  "tvb_get_ntohieee_float tvb offset = tvb_get_ntohl tvb offset"

text \<open>The double of a union whose words are \<open>w[0]\<close> and \<open>w[1]\<close>, on a little-endian host.\<close>

definition double_of_words :: "guint32 \<Rightarrow> guint32 \<Rightarrow> guint64" where
  "double_of_words w0 w1 = push_bit 32 (ucast w1) OR ucast w0"

definition tvb_get_ntohieee_double :: "tvbuff \<Rightarrow> gint \<Rightarrow> (guint64 \<times> tvbuff) res" where
  "tvb_get_ntohieee_double tvb offset =
     bindE (tvb_get_ntohl tvb (offset + 4)) (\<lambda>(w0, tvb').
       bindE (tvb_get_ntohl tvb' offset) (\<lambda>(w1, tvb'').
         Inr (double_of_words w0 w1, tvb'')))"

definition tvb_get_letohieee_float :: "tvbuff \<Rightarrow> gint \<Rightarrow> (guint32 \<times> tvbuff) res" where
  "tvb_get_letohieee_float tvb offset = tvb_get_letohl tvb offset"

definition tvb_get_letohieee_double :: "tvbuff \<Rightarrow> gint \<Rightarrow> (guint64 \<times> tvbuff) res" where
  "tvb_get_letohieee_double tvb offset =
     bindE (tvb_get_letohl tvb offset) (\<lambda>(w0, tvb').
       bindE (tvb_get_letohl tvb' (offset + 4)) (\<lambda>(w1, tvb'').
         Inr (double_of_words w0 w1, tvb'')))"

definition tvb_get_ieee_float :: "tvbuff \<Rightarrow> gint \<Rightarrow> guint \<Rightarrow> (guint32 \<times> tvbuff) res" where
  "tvb_get_ieee_float tvb offset encoding =
     (if little_endian encoding then tvb_get_letohieee_float tvb offset
      else tvb_get_ntohieee_float tvb offset)"

definition tvb_get_ieee_double :: "tvbuff \<Rightarrow> gint \<Rightarrow> guint \<Rightarrow> (guint64 \<times> tvbuff) res" where
  "tvb_get_ieee_double tvb offset encoding =
     (if little_endian encoding then tvb_get_letohieee_double tvb offset
      else tvb_get_ntohieee_double tvb offset)"

text \<open>\<open>memcpy\<close> into a \<open>guint32\<close> of the little-endian host.\<close>

definition tvb_get_ipv4 :: "tvbuff \<Rightarrow> gint \<Rightarrow> (guint32 \<times> tvbuff) res" where
  "tvb_get_ipv4 tvb offset = fetch 4 pletoh32 tvb offset"

definition fetch_slow :: "nat \<Rightarrow> (guint8 list \<Rightarrow> 'a) \<Rightarrow> tvbuff \<Rightarrow> gint \<Rightarrow> ('a \<times> tvbuff) res" where
  "fetch_slow n rd tvb offset =
     bindE (ensure_contiguous tvb offset (of_nat n)) (\<lambda>(ptr, tvb').
       bindE (load n rd ptr) (\<lambda>v. Inr (v, tvb')))"

definition tvb_get_ipv6 :: "tvbuff \<Rightarrow> gint \<Rightarrow> (guint8 list \<times> tvbuff) res" where
  "tvb_get_ipv6 tvb offset = fetch_slow 16 (take 16) tvb offset"

record e_guid_t =
  data1 :: guint32
  data2 :: guint16
  data3 :: guint16
  data4 :: "guint8 list"

definition tvb_get_ntohguid :: "tvbuff \<Rightarrow> gint \<Rightarrow> (e_guid_t \<times> tvbuff) res" where
  "tvb_get_ntohguid tvb offset =
     fetch_slow 16 (\<lambda>ptr. \<lparr>data1 = pntoh32 ptr, data2 = pntoh16 (drop 4 ptr),
       data3 = pntoh16 (drop 6 ptr), data4 = take 8 (drop 8 ptr)\<rparr>) tvb offset"

definition tvb_get_letohguid :: "tvbuff \<Rightarrow> gint \<Rightarrow> (e_guid_t \<times> tvbuff) res" where
  "tvb_get_letohguid tvb offset =
     fetch_slow 16 (\<lambda>ptr. \<lparr>data1 = pletoh32 ptr, data2 = pletoh16 (drop 4 ptr),
       data3 = pletoh16 (drop 6 ptr), data4 = take 8 (drop 8 ptr)\<rparr>) tvb offset"

definition tvb_get_guid :: "tvbuff \<Rightarrow> gint \<Rightarrow> guint \<Rightarrow> (e_guid_t \<times> tvbuff) res" where
  "tvb_get_guid tvb offset encoding =
     (if encoding \<noteq> 0 then tvb_get_letohguid tvb offset else tvb_get_ntohguid tvb offset)"

section \<open>What the accessors return\<close>

lemma fetch_in_bounds:
  assumes "tvb_wf tvb" "1 \<le> n" "n \<le> 8" "in_bounds tvb offset (of_nat n)"
  obtains d tvb' where "fetch n rd tvb offset = Inr (rd d, tvb')" "n \<le> length d"
    "take n d = slice tvb offset n" "same_view tvb tvb'"
  using fast_path_in_bounds [OF assms] by (auto simp: slice_ptr_def fetch_def load_def)

lemma fetch_out_of_bounds:
  assumes "tvb_wf tvb" "1 \<le> n" "n \<le> 8" "\<not> in_bounds tvb offset (of_nat n)"
  shows "\<exists>e. fetch n rd tvb offset = Inl e \<and> bounds_exc e"
  using fast_path_out_of_bounds [OF assms] by (auto simp: fetch_def)

text \<open>
  A read of \<open>n\<close> bytes is right when it yields the number \<open>value\<close> computes from the slice if the
  slice is in bounds, and throws a bounds exception otherwise.
\<close>

definition reads ::
    "nat \<Rightarrow> (guint8 list \<Rightarrow> nat) \<Rightarrow> tvbuff \<Rightarrow> gint \<Rightarrow> ('w::len word \<times> tvbuff) res \<Rightarrow> bool" where
  "reads n num tvb offset r \<longleftrightarrow>
     (if in_bounds tvb offset (of_nat n)
      then \<exists>v tvb'. r = Inr (v, tvb') \<and> unat v = num (slice tvb offset n) \<and> same_view tvb tvb'
      else \<exists>e. r = Inl e \<and> bounds_exc e)"

lemma fetch_reads:
  assumes "tvb_wf tvb" "1 \<le> n" "n \<le> 8"
    and "\<And>d. n \<le> length d \<Longrightarrow> unat (rd d) = num (take n d)"
  shows "reads n num tvb offset (fetch n rd tvb offset)"
  unfolding reads_def
  using fetch_out_of_bounds [OF assms(1-3)] fetch_in_bounds [OF assms(1-3), of offset rd] assms(4)
  by (metis (no_types, lifting))

lemma unat_first_byte: "1 \<le> length d \<Longrightarrow> unat (d ! 0) = be_nat (take 1 d)"
  by (cases d) simp_all

end
