(* ===== verification/TvbBits.thy ===== *)
theory TvbBits
  imports TvbAccess
begin

text \<open>
  Reading bit fields that need not be byte aligned: \<open>_tvb_get_bits64\<close> of epan/tvbuff.c and its
  callers. The variables of the code keep their widths: the count of bits still to read is a
  \<open>guint8\<close>, the value a \<open>guint64\<close>.
\<close>

section \<open>The code\<close>

definition bit_mask8 :: "guint8 list" where
  "bit_mask8 = [0x00, 0x01, 0x03, 0x07, 0x0f, 0x1f, 0x3f, 0x7f, 0xff]"

text \<open>The loop that takes the biggest words, shorts or octets it can.\<close>

function get_bits_loop ::
    "tvbuff \<Rightarrow> guint \<Rightarrow> guint64 \<Rightarrow> guint8 \<Rightarrow> ((guint \<times> guint64 \<times> guint8) \<times> tvbuff) res"
where
  "get_bits_loop tvb octet_offset value remaining =
     (if remaining > 7 then
        (if drop_bit 4 remaining = 0 then
           bindE (tvb_get_guint8 tvb octet_offset) (\<lambda>(v, tvb').
             get_bits_loop tvb' (octet_offset + 1) (push_bit 8 value + ucast v) (remaining - 8))
         else if drop_bit 4 remaining = 1 then
           bindE (tvb_get_ntohs tvb octet_offset) (\<lambda>(v, tvb').
             get_bits_loop tvb' (octet_offset + 2) (push_bit 16 value + ucast v) (remaining - 16))
         else if drop_bit 4 remaining = 2 \<or> drop_bit 4 remaining = 3 then
           bindE (tvb_get_ntohl tvb octet_offset) (\<lambda>(v, tvb').
             get_bits_loop tvb' (octet_offset + 4) (push_bit 32 value + ucast v) (remaining - 32))
         else
           bindE (tvb_get_ntoh64 tvb octet_offset) (\<lambda>(v, tvb').
             get_bits_loop tvb' (octet_offset + 8) v (remaining - 64)))
      else Inr ((octet_offset, value, remaining), tvb))"
  by pat_completeness auto

lemma remaining_cases:
  assumes "remaining > (7 :: guint8)"
  shows "drop_bit 4 remaining = 0 \<Longrightarrow> 8 \<le> unat remaining \<and> unat remaining < 16"
    and "drop_bit 4 remaining = 1 \<Longrightarrow> 16 \<le> unat remaining \<and> unat remaining < 32"
    and "drop_bit 4 remaining = 2 \<or> drop_bit 4 remaining = 3 \<Longrightarrow>
      32 \<le> unat remaining \<and> unat remaining < 64"
    and "\<not> (drop_bit 4 remaining = 0 \<or> drop_bit 4 remaining = 1 \<or> drop_bit 4 remaining = 2 \<or>
        drop_bit 4 remaining = 3) \<Longrightarrow> 64 \<le> unat remaining"
proof -
  have u: "unat (drop_bit 4 remaining) = unat remaining div 16"
    using unat_byte [of remaining]
    by (simp add: unsigned_drop_bit_eq drop_bit_eq_div [where 'a = nat] take_bit_nat_eq_self)
  have r: "7 < unat remaining" using assms by (simp add: word_less_nat_alt)
  show "drop_bit 4 remaining = 0 \<Longrightarrow> 8 \<le> unat remaining \<and> unat remaining < 16"
    and "drop_bit 4 remaining = 1 \<Longrightarrow> 16 \<le> unat remaining \<and> unat remaining < 32"
    and "drop_bit 4 remaining = 2 \<or> drop_bit 4 remaining = 3 \<Longrightarrow>
      32 \<le> unat remaining \<and> unat remaining < 64"
    and "\<not> (drop_bit 4 remaining = 0 \<or> drop_bit 4 remaining = 1 \<or> drop_bit 4 remaining = 2 \<or>
        drop_bit 4 remaining = 3) \<Longrightarrow> 64 \<le> unat remaining"
    using u r by (auto simp: word_unat_eq_iff)
qed

lemma unat_minus_byte: "k < 256 \<Longrightarrow> k \<le> unat (w :: guint8) \<Longrightarrow> unat (w - of_nat k) = unat w - k"
  by (simp add: unat_sub word_le_nat_alt unsigned_of_nat take_bit_nat_eq_self)

lemma unat_minus_bytes:
  "8 \<le> unat (w :: guint8) \<Longrightarrow> unat (w - 8) = unat w - 8"
  "16 \<le> unat w \<Longrightarrow> unat (w - 16) = unat w - 16"
  "32 \<le> unat w \<Longrightarrow> unat (w - 32) = unat w - 32"
  "64 \<le> unat w \<Longrightarrow> unat (w - 64) = unat w - 64"
  using unat_minus_byte [of 8 w] unat_minus_byte [of 16 w] unat_minus_byte [of 32 w]
    unat_minus_byte [of 64 w]
  by simp_all

termination get_bits_loop
proof (relation "measure (\<lambda>(tvb, octet_offset, value, remaining). unat remaining)", goal_cases)
  case 1
  show ?case by simp
qed (use remaining_cases in \<open>fastforce simp: unat_minus_bytes\<close>)+

declare get_bits_loop.simps [simp del]

text \<open>The bits of the partial octet at the tail.\<close>

definition bits_tail ::
    "((guint \<times> guint64 \<times> guint8) \<times> tvbuff) \<Rightarrow> (guint64 \<times> tvbuff) res" where
  "bits_tail = (\<lambda>((octet, v, remaining), tvb).
     if remaining \<noteq> 0 then
       bindE (tvb_get_guint8 tvb octet) (\<lambda>(b, tvb').
         Inr (push_bit (unat remaining) v + ucast (drop_bit (unat (8 - remaining)) b), tvb'))
     else Inr (v, tvb))"

text \<open>
  \<open>total_no_of_bits\<close> is a \<open>gint\<close>. A negative one makes the code index \<open>bit_mask8\<close> below its start
  or shift by more than the width, which C leaves undefined.
\<close>

definition tvb_get_bits64_internal ::
    "tvbuff \<Rightarrow> guint \<Rightarrow> gint \<Rightarrow> (guint64 \<times> tvbuff) res" where
  "tvb_get_bits64_internal tvb bit_offset total_no_of_bits =
     (let octet_offset = drop_bit 3 bit_offset;
          required = 8 - (ucast (bit_offset mod 8) :: guint8)
      in if sint total_no_of_bits < 0 then Inl Fault
         else if int (unat required) > sint total_no_of_bits then
           let right_shift = required - ucast total_no_of_bits
           in bindE (tvb_get_guint8 tvb octet_offset) (\<lambda>(b, tvb').
                Inr (ucast (drop_bit (unat right_shift) b AND
                            bit_mask8 ! nat (sint total_no_of_bits mod 8)), tvb'))
         else
           bindE
             (if required mod 8 \<noteq> 0 then
                bindE (tvb_get_guint8 tvb octet_offset) (\<lambda>(b, tvb').
                  Inr ((octet_offset + 1,
                        ucast (b AND bit_mask8 ! unat (required mod 8)) :: guint64,
                        ucast total_no_of_bits - required mod 8), tvb'))
              else Inr ((octet_offset, 0, ucast total_no_of_bits), tvb))
             (\<lambda>((octet_offset', val, remaining), tvb').
               bindE (get_bits_loop tvb' octet_offset' val remaining) bits_tail))"

definition narrow :: "(guint64 \<times> tvbuff) res \<Rightarrow> ('w::len word \<times> tvbuff) res" where
  "narrow m = bindE m (\<lambda>(v, tvb'). Inr (ucast v, tvb'))"

definition tvb_get_bits8 :: "tvbuff \<Rightarrow> guint \<Rightarrow> gint \<Rightarrow> (guint8 \<times> tvbuff) res" where
  "tvb_get_bits8 tvb bit_offset no_of_bits =
     narrow (tvb_get_bits64_internal tvb bit_offset no_of_bits)"

definition tvb_get_bits16 :: "tvbuff \<Rightarrow> guint \<Rightarrow> gint \<Rightarrow> guint \<Rightarrow> (guint16 \<times> tvbuff) res" where
  "tvb_get_bits16 tvb bit_offset no_of_bits encoding =
     narrow (tvb_get_bits64_internal tvb bit_offset no_of_bits)"

definition tvb_get_bits32 :: "tvbuff \<Rightarrow> guint \<Rightarrow> gint \<Rightarrow> guint \<Rightarrow> (guint32 \<times> tvbuff) res" where
  "tvb_get_bits32 tvb bit_offset no_of_bits encoding =
     narrow (tvb_get_bits64_internal tvb bit_offset no_of_bits)"

definition tvb_get_bits64 :: "tvbuff \<Rightarrow> guint \<Rightarrow> gint \<Rightarrow> guint \<Rightarrow> (guint64 \<times> tvbuff) res" where
  "tvb_get_bits64 tvb bit_offset no_of_bits encoding =
     tvb_get_bits64_internal tvb bit_offset no_of_bits"

definition tvb_get_bits :: "tvbuff \<Rightarrow> guint \<Rightarrow> gint \<Rightarrow> guint \<Rightarrow> (guint32 \<times> tvbuff) res" where
  "tvb_get_bits tvb bit_offset no_of_bits encoding =
     narrow (tvb_get_bits64_internal tvb bit_offset no_of_bits)"

section \<open>The number a bit field denotes\<close>

text \<open>The first \<open>k\<close> bits of a byte string, as a number, and the field of \<open>n\<close> bits at bit \<open>off\<close>.\<close>

definition bit_prefix :: "guint8 list \<Rightarrow> nat \<Rightarrow> nat" where
  "bit_prefix bs k = be_nat bs div 2 ^ (8 * length bs - k)"

definition bit_field :: "guint8 list \<Rightarrow> nat \<Rightarrow> nat \<Rightarrow> nat" where
  "bit_field bs off n = bit_prefix bs (off + n) mod 2 ^ n"

lemma bit_prefix_bytes:
  assumes "o' \<le> length bs"
  shows "bit_prefix bs (8 * o') = be_nat (take o' bs)"
proof -
  have "be_nat bs = be_nat (take o' bs) * 256 ^ length (drop o' bs) + be_nat (drop o' bs)"
    by (metis append_take_drop_id be_nat_append)
  moreover have "(2 :: nat) ^ (8 * length bs - 8 * o') = 256 ^ length (drop o' bs)"
    by (simp add: power_mult flip: diff_mult_distrib2)
  ultimately show ?thesis
    using be_nat_bound [of "drop o' bs"] by (simp add: bit_prefix_def)
qed

lemma mod_extend: "y < M \<Longrightarrow> (x * M + y) mod (c * M) = (x mod c) * M + (y :: nat)"
  by (simp add: mod_mult2_eq mult.commute [of c])

lemma be_nat_take_add:
  "be_nat (take (o' + m) bs) = be_nat (take o' bs) * 256 ^ length (take m (drop o' bs)) + be_nat (take m (drop o' bs))"
  by (simp add: take_add be_nat_append)

lemma advance:
  assumes m: "o' + m \<le> length bs"
    and v: "value = (of_nat (be_nat (take o' bs) mod 2 ^ c) :: guint64)"
    and w: "unat (w :: 'a::len word) = be_nat (take m (drop o' bs))"
  shows "push_bit (8 * m) value + ucast w =
    (of_nat (be_nat (take (o' + m) bs) mod 2 ^ (c + 8 * m)) :: guint64)"
proof -
  let ?x = "be_nat (take o' bs)" and ?y = "be_nat (take m (drop o' bs))"
  have len: "length (take m (drop o' bs)) = m" using m by simp
  have "be_nat (take (o' + m) bs) = ?x * 2 ^ (8 * m) + ?y"
    by (simp add: be_nat_take_add len power_mult del: length_take)
  moreover have "?y < 2 ^ (8 * m)"
    using be_nat_bound [of "take m (drop o' bs)"] len by (simp add: power_mult del: length_take)
  ultimately have "be_nat (take (o' + m) bs) mod 2 ^ (c + 8 * m) = (?x mod 2 ^ c) * 2 ^ (8 * m) + ?y"
    using mod_extend [of ?y "2 ^ (8 * m)" ?x "2 ^ c"] by (simp add: power_add)
  moreover have "ucast w = (of_nat ?y :: guint64)" by (simp flip: w)
  ultimately show ?thesis by (simp add: v push_bit_eq_mult)
qed

lemma bit_prefix_step:
  assumes o': "o' < length bs" and r: "r \<le> 8"
  shows "bit_prefix bs (8 * o' + r) = be_nat (take o' bs) * 2 ^ r + unat (bs ! o') div 2 ^ (8 - r)"
proof -
  let ?R = "256 ^ (length bs - Suc o') :: nat" and ?A = "be_nat (take o' bs)"
    and ?b = "unat (bs ! o')" and ?rest = "be_nat (drop (Suc o') bs)"
  have "bs = take o' bs @ bs ! o' # drop (Suc o') bs" using o' by (simp add: id_take_nth_drop)
  then have "be_nat bs = be_nat (take o' bs @ bs ! o' # drop (Suc o') bs)" by simp
  also have "\<dots> = (?A * 256 + ?b) * ?R + ?rest"
  proof -
    have "length bs - o' = Suc (length bs - Suc o')" using o' by simp
    then show ?thesis by (simp add: be_nat_append algebra_simps)
  qed
  finally have bs: "be_nat bs = (?A * 256 + ?b) * ?R + ?rest" .
  have "(8 * length bs - (8 * o' + r)) = 8 * (length bs - Suc o') + (8 - r)" using o' r by simp
  then have "bit_prefix bs (8 * o' + r) = be_nat bs div (?R * 2 ^ (8 - r))"
    by (simp add: bit_prefix_def power_add power_mult)
  also have "\<dots> = be_nat bs div ?R div 2 ^ (8 - r)" by (simp add: div_mult2_eq)
  also have "be_nat bs div ?R = ?A * 256 + ?b"
    using be_nat_bound [of "drop (Suc o') bs"] by (simp add: bs)
  also have "(?A * 256 + ?b) div 2 ^ (8 - r) = ?A * 2 ^ r + ?b div 2 ^ (8 - r)"
  proof -
    have "(256 :: nat) = 2 ^ r * 2 ^ (8 - r)" using r by (simp flip: power_add)
    then have split: "?A * 256 + ?b = ?A * 2 ^ r * 2 ^ (8 - r) + ?b" by (metis mult.assoc)
    show ?thesis unfolding split by (rule div_mult_self3) simp
  qed
  finally show ?thesis .
qed

lemma bit_mask8_mask: "i \<le> 8 \<Longrightarrow> bit_mask8 ! i = mask i"
proof -
  assume "i \<le> 8"
  then have "i \<in> {0, 1, 2, 3, 4, 5, 6, 7, 8}" by auto
  then show ?thesis by (auto simp: bit_mask8_def mask_eq_exp_minus_1)
qed

lemma unat_and_mask: "unat ((b :: guint8) AND mask i) = unat b mod 2 ^ i"
proof -
  have "unat (take_bit i b) = take_bit i (unat b)" by (rule unsigned_take_bit_eq)
  then show ?thesis by (simp only: take_bit_eq_mask [of i b, symmetric] take_bit_eq_mod [of i "unat b"])
qed

section \<open>Correctness of the reader\<close>

lemma read_at:
  assumes "tvb_wf tvb" "1 \<le> m" "m \<le> 8" "unat octet + m \<le> unat (caplen (hdr tvb))"
  shows "in_bounds tvb octet (of_nat m)"
    "slice tvb octet m = take m (drop (unat octet) (tvb_bytes tvb))"
proof -
  note cap = tvb_wf_caplen [OF assms(1)]
  have "octet \<le> caplen (hdr tvb)" using assms(4) by (simp add: word_le_nat_alt)
  note p = position_unsigned [OF this cap]
  have "int (unat octet + m) \<le> int (unat (caplen (hdr tvb)))" using assms(4) by (simp only: zle_int)
  then show "in_bounds tvb octet (of_nat m)"
    by (simp add: in_bounds_def extent_def p small_length(3) [OF assms(2,3)])
  show "slice tvb octet m = take m (drop (unat octet) (tvb_bytes tvb))"
    by (simp add: slice_def p)
qed

text \<open>What every accessor used here gives on an octet that is there.\<close>

lemma fetch_at:
  assumes "tvb_wf tvb" "1 \<le> m" "m \<le> 8" "unat octet + m \<le> unat (caplen (hdr tvb))"
    and "\<And>d. m \<le> length d \<Longrightarrow> unat (rd d :: 'a::len word) = be_nat (take m d)"
  obtains v tvb' where "fetch m rd tvb octet = Inr (v, tvb')" "same_view tvb tvb'"
    "unat v = be_nat (take m (drop (unat octet) (tvb_bytes tvb)))"
  using fetch_in_bounds [OF assms(1-3) read_at(1) [OF assms(1-4)], of rd]
    read_at(2) [OF assms(1-4)] assms(5) by metis

lemma tvb_get_guint8_at:
  assumes "tvb_wf tvb" "unat octet + 1 \<le> unat (caplen (hdr tvb))"
  obtains v tvb' where "tvb_get_guint8 tvb octet = Inr (v, tvb')" "same_view tvb tvb'"
    "unat v = be_nat (take 1 (drop (unat octet) (tvb_bytes tvb)))"
  using fetch_at [OF assms(1) _ _ assms(2) unat_first_byte] unfolding tvb_get_guint8_def by auto

lemma tvb_get_ntohs_at:
  assumes "tvb_wf tvb" "unat octet + 2 \<le> unat (caplen (hdr tvb))"
  obtains v tvb' where "tvb_get_ntohs tvb octet = Inr (v, tvb')" "same_view tvb tvb'"
    "unat v = be_nat (take 2 (drop (unat octet) (tvb_bytes tvb)))"
  using fetch_at [OF assms(1) _ _ assms(2) unat_pntoh16] unfolding tvb_get_ntohs_def by auto

lemma tvb_get_ntohl_at:
  assumes "tvb_wf tvb" "unat octet + 4 \<le> unat (caplen (hdr tvb))"
  obtains v tvb' where "tvb_get_ntohl tvb octet = Inr (v, tvb')" "same_view tvb tvb'"
    "unat v = be_nat (take 4 (drop (unat octet) (tvb_bytes tvb)))"
  using fetch_at [OF assms(1) _ _ assms(2) unat_pntoh32] unfolding tvb_get_ntohl_def by auto

lemma tvb_get_ntoh64_at:
  assumes "tvb_wf tvb" "unat octet + 8 \<le> unat (caplen (hdr tvb))"
  obtains v tvb' where "tvb_get_ntoh64 tvb octet = Inr (v, tvb')" "same_view tvb tvb'"
    "unat v = be_nat (take 8 (drop (unat octet) (tvb_bytes tvb)))"
  using fetch_at [OF assms(1) _ _ assms(2) unat_pntoh64] unfolding tvb_get_ntoh64_def by auto

text \<open>
  The loop starts at octet \<open>o'\<close> with \<open>n\<close> bits to read, \<open>c\<close> bits having been read before it; it
  leaves fewer than 8 bits and has the value of all the bits read.
\<close>

definition loop_post ::
    "tvbuff \<Rightarrow> nat \<Rightarrow> nat \<Rightarrow> nat \<Rightarrow> ((guint \<times> guint64 \<times> guint8) \<times> tvbuff) res \<Rightarrow> bool" where
  "loop_post tvb o' n c R \<longleftrightarrow>
     (\<exists>octet' value' remaining' tvb'. R = Inr ((octet', value', remaining'), tvb') \<and>
        same_view tvb tvb' \<and> unat remaining' < 8 \<and>
        8 * unat octet' + unat remaining' = 8 * o' + n \<and>
        value' = of_nat (be_nat (take (unat octet') (tvb_bytes tvb)) mod
                         2 ^ (c + n - unat remaining')))"

definition value_at :: "tvbuff \<Rightarrow> nat \<Rightarrow> nat \<Rightarrow> guint64" where
  "value_at tvb o' c = of_nat (be_nat (take o' (tvb_bytes tvb)) mod 2 ^ c)"

lemma loop_step:
  fixes w :: "'w::len word"
  assumes wf: "tvb_wf tvb" and room: "8 * unat octet + unat remaining \<le> 8 * unat (caplen (hdr tvb))"
    and m: "1 \<le> m" "m \<le> 8" "8 * m \<le> unat remaining"
    and v: "same_view tvb tvb'" "unat w = be_nat (take m (drop (unat octet) (tvb_bytes tvb)))"
      "value = value_at tvb (unat octet) c"
    and IH: "\<And>c. tvb_wf tvb' \<Longrightarrow>
           push_bit (8 * m) value + ucast w = value_at tvb' (unat octet + m) c \<Longrightarrow>
           8 * (unat octet + m) + (unat remaining - 8 * m) \<le> 8 * unat (caplen (hdr tvb')) \<Longrightarrow>
           loop_post tvb' (unat octet + m) (unat remaining - 8 * m) c R"
  shows "loop_post tvb (unat octet) (unat remaining) c R"
proof -
  have view: "tvb_wf tvb'" "tvb_bytes tvb' = tvb_bytes tvb" "caplen (hdr tvb') = caplen (hdr tvb)"
    using v(1) by (rule same_viewD)+
  have "unat octet + m \<le> length (tvb_bytes tvb)"
    using m room by (simp add: length_tvb_bytes [OF wf])
  from advance [OF this v(3) [unfolded value_at_def] v(2)]
  have "push_bit (8 * m) value + ucast w = value_at tvb' (unat octet + m) (c + 8 * m)"
    by (simp add: value_at_def view(2))
  from IH [OF view(1) this] room m view(3)
  have "loop_post tvb' (unat octet + m) (unat remaining - 8 * m) (c + 8 * m) R" by simp
  moreover have "c + 8 * m + (unat remaining - 8 * m) = c + unat remaining" using m(3) by simp
  ultimately show ?thesis
    using m(3) same_view_trans [OF v(1)] unfolding loop_post_def view(2)
    by (fastforce simp: algebra_simps)
qed

lemma get_bits_loop_correct:
  assumes "tvb_wf tvb" and "value = value_at tvb (unat octet) c"
    and "8 * unat octet + unat remaining \<le> 8 * unat (caplen (hdr tvb))"
  shows "loop_post tvb (unat octet) (unat remaining) c
    (get_bits_loop tvb octet value remaining)"
  using assms
proof (induction tvb octet "value" remaining arbitrary: c rule: get_bits_loop.induct)
  case (1 tvb octet val remaining)
  note wf = "1.prems"(1) and vl = "1.prems"(2) and room = "1.prems"(3)
  have cap: "unat (caplen (hdr tvb)) < 2 ^ 31"
    using tvb_wf_caplen [OF wf] by (simp add: word_less_nat_alt)
  have oct: "unat (octet + of_nat m) = unat octet + m"
    if "1 \<le> m" "m \<le> 8" "8 * m \<le> unat remaining" for m
    using that room cap small_length(2) [OF that(1,2)] by (subst unat_add_less) simp_all
  note octs = oct [of 1, simplified] oct [of 2, simplified] oct [of 4, simplified]
    oct [of 8, simplified]
  show ?case
  proof (cases "remaining > 7")
    case False
    then have "unat remaining < 8" by (simp add: word_less_nat_alt not_less)
    with False vl same_view_refl [OF wf] show ?thesis
      by (simp add: get_bits_loop.simps loop_post_def value_at_def)
  next
    case True
    note cases = remaining_cases [OF True]
    consider (b8) "drop_bit 4 remaining = 0"
      | (b16) "drop_bit 4 remaining \<noteq> 0" "drop_bit 4 remaining = 1"
      | (b32) "drop_bit 4 remaining \<noteq> 0" "drop_bit 4 remaining \<noteq> 1"
          "drop_bit 4 remaining = 2 \<or> drop_bit 4 remaining = 3"
      | (b64) "drop_bit 4 remaining \<noteq> 0" "drop_bit 4 remaining \<noteq> 1"
          "\<not> (drop_bit 4 remaining = 2 \<or> drop_bit 4 remaining = 3)"
      by blast
    then show ?thesis
    proof cases
      case b8
      from cases(1) [OF b8] room have "unat octet + 1 \<le> unat (caplen (hdr tvb))" by simp
      then obtain v tvb' where r: "tvb_get_guint8 tvb octet = Inr (v, tvb')"
        and v: "same_view tvb tvb'" "unat v = be_nat (take 1 (drop (unat octet) (tvb_bytes tvb)))"
        by (rule tvb_get_guint8_at [OF wf])
      have eq: "get_bits_loop tvb octet val remaining =
          get_bits_loop tvb' (octet + 1) (push_bit 8 val + ucast v) (remaining - 8)"
        using True b8 r by (simp add: get_bits_loop.simps [of tvb octet val remaining])
      show ?thesis
        unfolding eq
      proof (rule loop_step [OF wf room _ _ _ v vl])
        fix c
        assume "tvb_wf tvb'" "push_bit (8 * 1) val + ucast v = value_at tvb' (unat octet + 1) c"
          "8 * (unat octet + 1) + (unat remaining - 8 * 1) \<le> 8 * unat (caplen (hdr tvb'))"
        then show "loop_post tvb' (unat octet + 1) (unat remaining - 8 * 1) c
            (get_bits_loop tvb' (octet + 1) (push_bit 8 val + ucast v) (remaining - 8))"
          using "1.IH"(1) [OF True b8 r refl, of c] octs(1)
            unat_minus_bytes(1) [of remaining] cases(1) [OF b8]
          by simp
      qed (use cases(1) [OF b8] in simp_all)
    next
      case b16
      from cases(2) [OF b16(2)] room have "unat octet + 2 \<le> unat (caplen (hdr tvb))" by simp
      then obtain v tvb' where r: "tvb_get_ntohs tvb octet = Inr (v, tvb')"
        and v: "same_view tvb tvb'" "unat v = be_nat (take 2 (drop (unat octet) (tvb_bytes tvb)))"
        by (rule tvb_get_ntohs_at [OF wf])
      have eq: "get_bits_loop tvb octet val remaining =
          get_bits_loop tvb' (octet + 2) (push_bit 16 val + ucast v) (remaining - 16)"
        using True b16 r by (simp add: get_bits_loop.simps [of tvb octet val remaining])
      show ?thesis
        unfolding eq
      proof (rule loop_step [OF wf room _ _ _ v vl])
        fix c
        assume "tvb_wf tvb'" "push_bit (8 * 2) val + ucast v = value_at tvb' (unat octet + 2) c"
          "8 * (unat octet + 2) + (unat remaining - 8 * 2) \<le> 8 * unat (caplen (hdr tvb'))"
        then show "loop_post tvb' (unat octet + 2) (unat remaining - 8 * 2) c
            (get_bits_loop tvb' (octet + 2) (push_bit 16 val + ucast v) (remaining - 16))"
          using "1.IH"(2) [OF True b16(1) b16(2) r refl, of c] octs(2)
            unat_minus_bytes(2) [of remaining] cases(2) [OF b16(2)]
          by simp
      qed (use cases(2) [OF b16(2)] in simp_all)
    next
      case b32
      from cases(3) [OF b32(3)] room have "unat octet + 4 \<le> unat (caplen (hdr tvb))" by simp
      then obtain v tvb' where r: "tvb_get_ntohl tvb octet = Inr (v, tvb')"
        and v: "same_view tvb tvb'" "unat v = be_nat (take 4 (drop (unat octet) (tvb_bytes tvb)))"
        by (rule tvb_get_ntohl_at [OF wf])
      have eq: "get_bits_loop tvb octet val remaining =
          get_bits_loop tvb' (octet + 4) (push_bit 32 val + ucast v) (remaining - 32)"
        using True b32 r by (simp add: get_bits_loop.simps [of tvb octet val remaining])
      show ?thesis
        unfolding eq
      proof (rule loop_step [OF wf room _ _ _ v vl])
        fix c
        assume "tvb_wf tvb'" "push_bit (8 * 4) val + ucast v = value_at tvb' (unat octet + 4) c"
          "8 * (unat octet + 4) + (unat remaining - 8 * 4) \<le> 8 * unat (caplen (hdr tvb'))"
        then show "loop_post tvb' (unat octet + 4) (unat remaining - 8 * 4) c
            (get_bits_loop tvb' (octet + 4) (push_bit 32 val + ucast v) (remaining - 32))"
          using "1.IH"(3) [OF True b32(1) b32(2) b32(3) r refl, of c] octs(3)
            unat_minus_bytes(3) [of remaining] cases(3) [OF b32(3)]
          by simp
      qed (use cases(3) [OF b32(3)] in simp_all)
    next
      case b64
      from b64 cases(4) have ge: "64 \<le> unat remaining" by blast
      have shift: "push_bit 64 val = 0" by (rule bit_word_eqI) (simp add: bit_push_bit_iff)
      from ge room have "unat octet + 8 \<le> unat (caplen (hdr tvb))" by simp
      then obtain v tvb' where r: "tvb_get_ntoh64 tvb octet = Inr (v, tvb')"
        and v: "same_view tvb tvb'" "unat v = be_nat (take 8 (drop (unat octet) (tvb_bytes tvb)))"
        by (rule tvb_get_ntoh64_at [OF wf])
      have eq: "get_bits_loop tvb octet val remaining =
          get_bits_loop tvb' (octet + 8) (v) (remaining - 64)"
        using True b64 r by (simp add: get_bits_loop.simps [of tvb octet val remaining])
      show ?thesis
        unfolding eq
      proof (rule loop_step [OF wf room _ _ _ v vl])
        fix c
        assume "tvb_wf tvb'" "push_bit (8 * 8) val + ucast v = value_at tvb' (unat octet + 8) c"
          "8 * (unat octet + 8) + (unat remaining - 8 * 8) \<le> 8 * unat (caplen (hdr tvb'))"
        then show "loop_post tvb' (unat octet + 8) (unat remaining - 8 * 8) c
            (get_bits_loop tvb' (octet + 8) (v) (remaining - 64))"
          using "1.IH"(4) [OF True b64(1) b64(2) b64(3) r refl, of c] octs(4)
            unat_minus_bytes(4) [of remaining] ge shift
          by simp
      qed (use ge in simp_all)
    qed
  qed
qed

lemma unat_drop_bit_byte: "unat (drop_bit k (b :: guint8)) = unat b div 2 ^ k"
  using unat_byte [of b]
  by (simp add: unsigned_drop_bit_eq drop_bit_eq_div [where 'a = nat] take_bit_nat_eq_self)

lemma tvb_get_guint8_byte:
  assumes "tvb_wf tvb" "unat octet < unat (caplen (hdr tvb))"
  obtains tvb' where "tvb_get_guint8 tvb octet = Inr (tvb_bytes tvb ! unat octet, tvb')"
    "same_view tvb tvb'"
proof -
  have le: "unat octet + 1 \<le> unat (caplen (hdr tvb))" using assms(2) by simp
  from tvb_get_guint8_at [OF assms(1) le] obtain v tvb' where
    v: "tvb_get_guint8 tvb octet = Inr (v, tvb')" "same_view tvb tvb'"
    "unat v = be_nat (take 1 (drop (unat octet) (tvb_bytes tvb)))" .
  have "take 1 (drop (unat octet) (tvb_bytes tvb)) = [tvb_bytes tvb ! unat octet]"
    using assms by (simp add: length_tvb_bytes take_Suc_conv_app_nth flip: Cons_nth_drop_Suc)
  with v(3) have "v = tvb_bytes tvb ! unat octet" by (intro unat_eqI) simp
  with v that show ?thesis by blast
qed

lemma loop_and_tail:
  assumes wf: "tvb_wf tvb" and post: "loop_post tvb o' n c R"
    and room: "8 * o' + n \<le> 8 * unat (caplen (hdr tvb))" and "off + nbits = 8 * o' + n" "c + n = nbits"
  shows "\<exists>tvb'. bindE R bits_tail = Inr (of_nat (bit_field (tvb_bytes tvb) off nbits), tvb') \<and>
    same_view tvb tvb'"
proof -
  let ?bs = "tvb_bytes tvb"
  from post obtain octet v remaining tvb1 where R: "R = Inr ((octet, v, remaining), tvb1)"
    and view: "same_view tvb tvb1" and r8: "unat remaining < 8"
    and pos: "8 * unat octet + unat remaining = 8 * o' + n"
    and v: "v = of_nat (be_nat (take (unat octet) ?bs) mod 2 ^ (c + n - unat remaining))"
    by (auto simp: loop_post_def)
  have len: "length ?bs = unat (caplen (hdr tvb))" by (rule length_tvb_bytes [OF wf])
  show ?thesis
  proof (cases "unat remaining = 0")
    case True
    then have "remaining = 0" by (simp add: unat_eq_zero)
    moreover have "bit_prefix ?bs (off + nbits) = be_nat (take (unat octet) ?bs)"
      using bit_prefix_bytes [of "unat octet" ?bs] pos True room len assms(4) by simp
    ultimately show ?thesis
      using R view v assms(4,5) True by (simp add: bits_tail_def bit_field_def)
  next
    case False
    then have ne: "remaining \<noteq> 0" by (simp add: unat_eq_zero)
    have lt: "unat octet < length ?bs" using pos False room len by simp
    obtain tvb2 where b: "tvb_get_guint8 tvb1 octet = Inr (?bs ! unat octet, tvb2)"
      and view2: "same_view tvb1 tvb2"
      using tvb_get_guint8_byte [OF same_view_wf [OF view], of octet] lt len
        same_viewD(2,3) [OF view] by auto
    let ?b = "unat (?bs ! unat octet)" and ?A = "be_nat (take (unat octet) ?bs)"
    let ?r = "unat remaining"
    have sub: "unat (8 - remaining) = 8 - ?r"
      using r8 by (simp add: unat_sub word_le_nat_alt)
    have small: "?b div 2 ^ (8 - ?r) < 2 ^ ?r"
    proof -
      have "?b < 2 ^ (8 - ?r) * 2 ^ ?r"
        using unat_byte [of "?bs ! unat octet"] r8 by (simp flip: power_add)
      then show ?thesis by (simp add: less_mult_imp_div_less mult.commute)
    qed
    have "bit_field ?bs off nbits = (?A * 2 ^ ?r + ?b div 2 ^ (8 - ?r)) mod 2 ^ nbits"
      using bit_prefix_step [OF lt, of ?r] r8 pos assms(4) by (simp add: bit_field_def)
    also have "(2 :: nat) ^ nbits = 2 ^ (nbits - ?r) * 2 ^ ?r"
    proof -
      have "?r \<le> n" using pos r8 by presburger
      then have "?r \<le> nbits" using assms(5) by simp
      then show ?thesis by (simp flip: power_add)
    qed
    also have "(?A * 2 ^ ?r + ?b div 2 ^ (8 - ?r)) mod (2 ^ (nbits - ?r) * 2 ^ ?r) =
        (?A mod 2 ^ (nbits - ?r)) * 2 ^ ?r + ?b div 2 ^ (8 - ?r)"
      by (rule mod_extend [OF small])
    finally have "of_nat (bit_field ?bs off nbits) =
        push_bit ?r v + ucast (drop_bit (unat (8 - remaining)) (?bs ! unat octet))"
      using v assms(5) by (simp add: push_bit_eq_mult sub flip: unat_drop_bit_byte)
    with R ne b view view2 show ?thesis
      by (auto simp: bits_tail_def intro: same_view_trans)
  qed
qed

lemma unat_start_octet: "unat (drop_bit 3 (bit_offset :: guint)) = unat bit_offset div 8"
proof -
  have "unat bit_offset < 4294967296" using unsigned_less [of bit_offset] by simp
  then show ?thesis
    by (simp add: unsigned_drop_bit_eq drop_bit_eq_div [where 'a = nat] take_bit_nat_eq_self)
qed

lemma unat_required:
  "unat (8 - (ucast ((bit_offset :: guint) mod 8) :: guint8)) = 8 - unat bit_offset mod 8"
proof -
  have m: "unat (bit_offset mod 8) = unat bit_offset mod 8" by (simp add: unat_mod)
  have "unat (ucast (bit_offset mod 8) :: guint8) = unat bit_offset mod 8"
    by (simp add: unsigned_ucast_eq take_bit_nat_eq_self m)
  then show ?thesis by (simp add: unat_sub word_le_nat_alt)
qed

lemma uint_required:
  "uint (8 - (ucast ((bit_offset :: guint) mod 8) :: guint8)) = int (8 - unat bit_offset mod 8)"
  by (metis unat_required of_nat_unat)

lemma unat_bit_count:
  assumes "0 \<le> sint (n :: gint)" "sint n < 256"
  shows "unat (ucast n :: guint8) = nat (sint n)"
proof -
  have "uint n = sint n" using assms uint_bounds [of n] by (auto simp: sint_gint split: if_splits)
  then have "unat n = nat (sint n)" by (simp add: unat_eq_nat_uint)
  then show ?thesis using assms by (simp add: unsigned_ucast_eq take_bit_nat_eq_self)
qed

text \<open>The field lies within one octet and does not reach its end.\<close>

lemma tvb_get_bits64_short:
  assumes wf: "tvb_wf tvb" and n: "0 \<le> sint total_bits"
    and k: "unat bit_offset mod 8 + nat (sint total_bits) < 8"
    and room: "unat bit_offset < 8 * unat (caplen (hdr tvb))"
  shows "\<exists>tvb'. tvb_get_bits64_internal tvb bit_offset total_bits =
      Inr (of_nat (bit_field (tvb_bytes tvb) (unat bit_offset) (nat (sint total_bits))), tvb') \<and>
    same_view tvb tvb'"
proof -
  let ?bs = "tvb_bytes tvb" and ?n = "nat (sint total_bits)"
  let ?o = "unat bit_offset div 8" and ?k = "unat bit_offset mod 8"
  let ?b = "unat (?bs ! ?o)"
  have lt: "?o < length ?bs" using room by (simp add: length_tvb_bytes [OF wf] div_less_iff_less_mult)
  obtain tvb' where b: "tvb_get_guint8 tvb (drop_bit 3 bit_offset) = Inr (?bs ! ?o, tvb')"
    and view: "same_view tvb tvb'"
    using tvb_get_guint8_byte [OF wf, of "drop_bit 3 bit_offset"] lt
    by (auto simp: unat_start_octet length_tvb_bytes [OF wf])
  have cnt: "unat (ucast total_bits :: guint8) = ?n" using k n by (intro unat_bit_count) auto
  let ?shift = "8 - (ucast (bit_offset mod 8) :: guint8) - ucast total_bits"
  have shift: "unat ?shift = 8 - (?k + ?n)"
    using k by (simp add: unat_sub word_le_nat_alt unat_required cnt)
  have "bit_field ?bs (unat bit_offset) ?n = bit_prefix ?bs (8 * ?o + (?k + ?n)) mod 2 ^ ?n"
    by (simp add: bit_field_def add.assoc [symmetric])
  also have "\<dots> = (be_nat (take ?o ?bs) * 2 ^ ?k * 2 ^ ?n + ?b div 2 ^ (8 - (?k + ?n))) mod 2 ^ ?n"
    using bit_prefix_step [OF lt, of "?k + ?n"] k by (simp only: power_add mult.assoc less_imp_le)
  also have "\<dots> = ?b div 2 ^ (8 - (?k + ?n)) mod 2 ^ ?n" by (simp only: mod_mult_self3)
  also have "\<dots> = unat (drop_bit (unat ?shift) (?bs ! ?o) AND mask ?n)"
    by (simp only: unat_and_mask unat_drop_bit_byte shift)
  finally have field: "of_nat (bit_field ?bs (unat bit_offset) ?n) =
      (ucast (drop_bit (unat ?shift) (?bs ! ?o) AND mask ?n) :: guint64)" by simp
  have "int (8 - ?k) > sint total_bits" using k n by linarith
  moreover have "nat (sint total_bits mod 8) = ?n" using k n by (simp add: nat_less_iff)
  moreover have "bit_mask8 ! ?n = mask ?n" using k by (intro bit_mask8_mask) simp
  ultimately have "tvb_get_bits64_internal tvb bit_offset total_bits =
      Inr (ucast (drop_bit (unat ?shift) (?bs ! ?o) AND mask ?n), tvb')"
    using n b by (simp add: tvb_get_bits64_internal_def Let_def unat_required uint_required del: of_nat_diff)
  with field view show ?thesis by auto
qed

text \<open>The bits of the first octet from bit \<open>k\<close> on are the value of the octets up to its end.\<close>

lemma first_octet_value:
  assumes "o' < length (tvb_bytes tvb)" "0 < k" "k < 8"
  shows "ucast (tvb_bytes tvb ! o' AND mask (8 - k)) = value_at tvb (Suc o') (8 - k)"
proof -
  let ?b = "unat (tvb_bytes tvb ! o')" and ?A = "be_nat (take o' (tvb_bytes tvb))"
  have "(256 :: nat) = 2 ^ k * 2 ^ (8 - k)" using assms by (simp flip: power_add)
  then have "?A * 256 = ?A * 2 ^ k * 2 ^ (8 - k)" by (metis mult.assoc)
  then have "(?A * 256 + ?b) mod 2 ^ (8 - k) = ?b mod 2 ^ (8 - k)" by (simp only: mod_mult_self3)
  moreover have "be_nat (take (Suc o') (tvb_bytes tvb)) = ?A * 256 + ?b"
    using assms(1) by (simp add: take_Suc_conv_app_nth be_nat_append)
  ultimately have "value_at tvb (Suc o') (8 - k) =
      of_nat (unat (tvb_bytes tvb ! o' AND mask (8 - k)))"
    by (simp add: value_at_def unat_and_mask)
  then show ?thesis by simp
qed

lemma tvb_get_bits64_long:
  assumes wf: "tvb_wf tvb" and n: "0 \<le> sint total_bits" "sint total_bits < 256"
    and k: "8 \<le> unat bit_offset mod 8 + nat (sint total_bits)"
    and room: "unat bit_offset + nat (sint total_bits) \<le> 8 * unat (caplen (hdr tvb))"
  shows "\<exists>tvb'. tvb_get_bits64_internal tvb bit_offset total_bits =
      Inr (of_nat (bit_field (tvb_bytes tvb) (unat bit_offset) (nat (sint total_bits))), tvb') \<and>
    same_view tvb tvb'"
proof -
  let ?bs = "tvb_bytes tvb" and ?n = "nat (sint total_bits)"
  let ?o = "unat bit_offset div 8" and ?k = "unat bit_offset mod 8"
  let ?octet = "drop_bit 3 bit_offset" and ?cnt = "ucast total_bits :: guint8"
  let ?req = "8 - (ucast (bit_offset mod 8) :: guint8)"
  have cnt: "unat ?cnt = ?n" by (rule unat_bit_count [OF n])
  have off: "unat bit_offset = 8 * ?o + ?k" by simp
  have enough: "\<not> int (8 - ?k) > sint total_bits" using k n by linarith
  have cap: "unat (caplen (hdr tvb)) < 2 ^ 31"
    using tvb_wf_caplen [OF wf] by (simp add: word_less_nat_alt)
  show ?thesis
  proof (cases "?k = 0")
    case True
    have start: "0 = value_at tvb (unat ?octet) 0" by (simp add: value_at_def)
    have room': "8 * unat ?octet + unat ?cnt \<le> 8 * unat (caplen (hdr tvb))"
      using room off True by (simp add: unat_start_octet cnt)
    have "?req mod 8 = 0" using True by (intro unat_eqI) (simp add: unat_mod unat_required)
    with n enough have eq: "tvb_get_bits64_internal tvb bit_offset total_bits =
        bindE (get_bits_loop tvb ?octet 0 ?cnt) bits_tail"
      by (simp add: tvb_get_bits64_internal_def Let_def unat_required uint_required del: of_nat_diff)
    show ?thesis
      unfolding eq
      by (rule loop_and_tail [OF wf get_bits_loop_correct [OF wf start room'] room'])
        (use off True in \<open>simp_all add: unat_start_octet cnt\<close>)
  next
    case False
    have lt: "?o < length ?bs"
      using room off k by (simp add: length_tvb_bytes [OF wf] div_less_iff_less_mult)
    obtain tvb1 where b: "tvb_get_guint8 tvb ?octet = Inr (?bs ! ?o, tvb1)"
      and view: "same_view tvb tvb1"
      using tvb_get_guint8_byte [OF wf, of ?octet] lt
      by (auto simp: unat_start_octet length_tvb_bytes [OF wf])
    note tvb1 = same_viewD [OF view]
    let ?val = "ucast (?bs ! ?o AND mask (8 - ?k)) :: guint64"
    have req8: "unat (?req mod 8) = 8 - ?k" using False by (simp add: unat_mod unat_required)
    have ne: "?req mod 8 \<noteq> 0" using req8 False by (metis unat_0 zero_less_diff mod_less_divisor not_less_zero zero_less_numeral)
    have rest: "unat (?cnt - ?req mod 8) = ?n - (8 - ?k)"
      using k req8 cnt by (simp add: unat_sub word_le_nat_alt)
    have next_octet: "unat (?octet + 1) = Suc ?o"
      using lt cap by (subst unat_add_less) (simp_all add: unat_start_octet length_tvb_bytes [OF wf])
    have start: "?val = value_at tvb1 (unat (?octet + 1)) (8 - ?k)"
      using first_octet_value [OF lt, of ?k] False tvb1(2) by (simp add: next_octet value_at_def)
    have room': "8 * unat (?octet + 1) + unat (?cnt - ?req mod 8) \<le> 8 * unat (caplen (hdr tvb1))"
      using room off k tvb1(3) by (simp add: next_octet rest)
    have "bit_mask8 ! (8 - ?k) = mask (8 - ?k)" by (rule bit_mask8_mask) simp
    with n enough b ne req8 have eq: "tvb_get_bits64_internal tvb bit_offset total_bits =
        bindE (get_bits_loop tvb1 (?octet + 1) ?val (?cnt - ?req mod 8)) bits_tail"
      by (simp add: tvb_get_bits64_internal_def Let_def unat_required uint_required del: of_nat_diff)
    have "\<exists>tvb'. bindE (get_bits_loop tvb1 (?octet + 1) ?val (?cnt - ?req mod 8)) bits_tail =
        Inr (of_nat (bit_field (tvb_bytes tvb1) (unat bit_offset) ?n), tvb') \<and> same_view tvb1 tvb'"
      by (rule loop_and_tail [OF tvb1(1) get_bits_loop_correct [OF tvb1(1) start room'] room'])
        (use off k in \<open>simp_all add: next_octet rest\<close>)
    then show ?thesis unfolding eq tvb1(2) using same_view_trans [OF view] by blast
  qed
qed

end
