(* ===== verification/TvbProps.thy ===== *)
theory TvbProps
  imports TvbBits
begin

text \<open>
  The contract of the buffer as its users see it, for a buffer of any kind and any nesting: what
  copying, pointing, the accessors and the constructors do on a well-formed buffer, at every offset
  and length.
\<close>

section \<open>Copying and pointing\<close>

lemma tvb_memcpy_check:
  assumes "check_offset_length_no_exception tvb offset len = Inr (a, len)"
    and "check_offset_length_no_exception tvb a len = Inr (a, len)"
  shows "tvb_memcpy tvb offset len = tvb_memcpy tvb a len"
  using assms by (simp add: tvb_memcpy.simps [of tvb offset] tvb_memcpy.simps [of tvb a]
      check_offset_length_def)

lemma in_bounds_unsigned:
  assumes "tvb_wf tvb" "in_bounds tvb offset len" "0 \<le> sint len"
  obtains a where "check_offset_length_no_exception tvb offset len = Inr (a, len)"
    "check_offset_length_no_exception tvb a len = Inr (a, len)"
    "nat (position tvb offset) = unat a" "unat a + unat len \<le> unat (caplen (hdr tvb))"
proof -
  note cap = tvb_wf_caplen [OF assms(1)]
  obtain a l where chk: "check_offset_length_no_exception tvb offset len = Inr (a, l)"
    and a: "uint a = position tvb offset" and l: "uint l = extent tvb offset len"
    using assms(2) by (rule check_offset_length_in_bounds [OF cap])
  have len: "uint len = sint len" "sint len \<noteq> -1"
    using assms(3) uint_bounds [of len] by (auto simp: sint_gint split: if_splits)
  then have "l = len" using l by (simp add: extent_def word_uint_eq_iff)
  have "uint a + uint len \<le> uint (caplen (hdr tvb))"
    using assms(2) a len by (simp add: in_bounds_def extent_def)
  then have le: "unat a + unat len \<le> unat (caplen (hdr tvb))" by (simp add: nat_uint_le)
  moreover have "nat (position tvb offset) = unat a" using a [symmetric] by simp
  ultimately show ?thesis
    using that chk \<open>l = len\<close> check_offset_length_unsigned [OF cap le] by blast
qed

lemma tvb_memcpy_in_bounds:
  assumes "tvb_wf tvb" "in_bounds tvb offset len" "0 \<le> sint len"
  shows "tvb_memcpy tvb offset len = Inr (slice tvb offset (unat len))"
  using in_bounds_unsigned [OF assms] memcpy_slice(1) [OF assms(1)] tvb_memcpy_check
  unfolding slice_def by metis

lemma tvb_memcpy_out_of_bounds:
  assumes "tvb_wf tvb" "\<not> in_bounds tvb offset len" "0 \<le> sint len"
  shows "\<exists>e. tvb_memcpy tvb offset len = Inl e \<and> bounds_exc e"
proof -
  obtain e where e: "check_offset_length_no_exception tvb offset len = Inl e"
    using assms check_offset_length_iff [OF tvb_wf_caplen [OF assms(1)], of offset len]
    by (cases "check_offset_length_no_exception tvb offset len") auto
  have "len \<le> 0x7FFFFFFF" using assms(3) uint_bounds [of len] by (auto simp: gint_arith split: if_splits)
  then show ?thesis
    using e check_offset_length_bounds_exc [OF e] tvb_wf_initialized [OF assms(1)]
    by (simp add: tvb_memcpy.simps [of tvb offset] check_offset_length_def)
qed

lemma sint_nonneg_le: "0 \<le> sint len \<longleftrightarrow> len \<le> (0x7FFFFFFF :: gint)"
  using uint_bounds [of len] by (auto simp: gint_arith)

text \<open>
  C4. \<open>tvb_memcpy\<close> copies exactly the bytes that the offset and length denote, out of a buffer of any
  kind and nesting, or throws a bounds exception when they are not all there; it never reads
  outside an object and never fails an assertion.
\<close>

theorem tvb_memcpy_correct:
  assumes "tvb_wf tvb" "len \<le> 0x7FFFFFFF"
  shows "if in_bounds tvb offset len
    then tvb_memcpy tvb offset len = Inr (slice tvb offset (unat len))
    else (\<exists>e. tvb_memcpy tvb offset len = Inl e \<and> bounds_exc e)"
  using tvb_memcpy_in_bounds tvb_memcpy_out_of_bounds assms by (simp add: sint_nonneg_le)

theorem tvb_memcpy_correct_witness:
  "tvb_memcpy sample_composite (- 6) 5 = Inr [7, 8, 0x83, 4, 0xF5]"
  using tvb_memcpy_correct [of sample_composite 5 "- 6"]
  by (simp add: sample in_bounds_def extent_def position_def slice_def sint_gint uint_neg)

text \<open>
  C5. A pointer that \<open>tvb_get_ptr\<close> returns for a positive length points at the bytes that the
  offset and length denote, with all of them behind it, and flattening a composite on the way
  changes nothing a reader can see; out of bounds it throws a bounds exception.
\<close>

theorem tvb_get_ptr_correct:
  assumes "tvb_wf tvb" "0 < sint len"
  shows "if in_bounds tvb offset len
    then slice_ptr tvb offset (unat len) (tvb_get_ptr tvb offset len)
    else (\<exists>e. tvb_get_ptr tvb offset len = Inl e \<and> bounds_exc e)"
proof -
  have "len \<noteq> 0" using assms(2) by auto
  then show ?thesis
    using ensure_contiguous_in_bounds [OF assms(1) _ assms(2)]
      ensure_contiguous_out_of_bounds [OF assms(1)]
    by (simp add: tvb_get_ptr_def)
qed

theorem tvb_get_ptr_correct_witness:
  "slice_ptr sample_composite 6 4 (tvb_get_ptr sample_composite 6 4)"
  using tvb_get_ptr_correct [of sample_composite 4 6]
  by (simp add: sample in_bounds_def extent_def position_def sint_gint)

text \<open>
  The fast path of the accessors agrees with the general one: it yields a pointer to the same
  bytes when they are captured, and throws a bounds exception when they are not.
\<close>

theorem fast_path_correct:
  assumes "tvb_wf tvb" "1 \<le> n" "n \<le> 8"
  shows "if in_bounds tvb offset (of_nat n)
    then slice_ptr tvb offset n (fast_ensure_contiguous tvb offset (of_nat n)) \<and>
         slice_ptr tvb offset n (ensure_contiguous tvb offset (of_nat n))
    else (\<exists>e e'. fast_ensure_contiguous tvb offset (of_nat n) = Inl e \<and> bounds_exc e \<and>
           ensure_contiguous tvb offset (of_nat n) = Inl e' \<and> bounds_exc e')"
  using fast_path_in_bounds [OF assms] fast_path_out_of_bounds [OF assms]
    ensure_contiguous_in_bounds [OF assms(1), of offset "of_nat n"]
    ensure_contiguous_out_of_bounds [OF assms(1), of offset "of_nat n"]
    small_length [OF assms(2,3)] assms(2)
  by auto

theorem fast_path_correct_witness:
  "slice_ptr sample_composite 7 3 (fast_ensure_contiguous sample_composite 7 3)"
  using fast_path_correct [of sample_composite 3 7]
  by (simp add: sample in_bounds_def extent_def position_def sint_gint)

section \<open>The integer accessors\<close>

definition enc_nat :: "guint \<Rightarrow> guint8 list \<Rightarrow> nat" where
  "enc_nat encoding = (if little_endian encoding then le_nat else be_nat)"

lemma ntoh_reads:
  assumes "tvb_wf tvb"
  shows "reads 1 be_nat tvb offset (tvb_get_guint8 tvb offset)"
    "reads 2 be_nat tvb offset (tvb_get_ntohs tvb offset)"
    "reads 3 be_nat tvb offset (tvb_get_ntoh24 tvb offset)"
    "reads 4 be_nat tvb offset (tvb_get_ntohl tvb offset)"
    "reads 5 be_nat tvb offset (tvb_get_ntoh40 tvb offset)"
    "reads 6 be_nat tvb offset (tvb_get_ntoh48 tvb offset)"
    "reads 7 be_nat tvb offset (tvb_get_ntoh56 tvb offset)"
    "reads 8 be_nat tvb offset (tvb_get_ntoh64 tvb offset)"
  unfolding tvb_get_guint8_def tvb_get_ntohs_def tvb_get_ntoh24_def tvb_get_ntohl_def
    tvb_get_ntoh40_def tvb_get_ntoh48_def tvb_get_ntoh56_def tvb_get_ntoh64_def
  by (rule fetch_reads [OF assms]; simp add: unat_pntoh unat_first_byte)+

lemma letoh_reads:
  assumes "tvb_wf tvb"
  shows "reads 2 le_nat tvb offset (tvb_get_letohs tvb offset)"
    "reads 3 le_nat tvb offset (tvb_get_letoh24 tvb offset)"
    "reads 4 le_nat tvb offset (tvb_get_letohl tvb offset)"
    "reads 5 le_nat tvb offset (tvb_get_letoh40 tvb offset)"
    "reads 6 le_nat tvb offset (tvb_get_letoh48 tvb offset)"
    "reads 7 le_nat tvb offset (tvb_get_letoh56 tvb offset)"
    "reads 8 le_nat tvb offset (tvb_get_letoh64 tvb offset)"
  unfolding tvb_get_letohs_def tvb_get_letoh24_def tvb_get_letohl_def
    tvb_get_letoh40_def tvb_get_letoh48_def tvb_get_letoh56_def tvb_get_letoh64_def
  by (rule fetch_reads [OF assms]; simp add: unat_pletoh)+

text \<open>
  C18. Every unsigned integer accessor returns the number that the bytes at the offset write in the
  byte order its encoding names, and throws a bounds exception when they are not captured.
\<close>

theorem tvb_get_unsigned_correct:
  assumes "tvb_wf tvb"
  shows "reads 1 be_nat tvb offset (tvb_get_guint8 tvb offset) \<and>
    reads 2 (enc_nat encoding) tvb offset (tvb_get_guint16 tvb offset encoding) \<and>
    reads 3 (enc_nat encoding) tvb offset (tvb_get_guint24 tvb offset encoding) \<and>
    reads 4 (enc_nat encoding) tvb offset (tvb_get_guint32 tvb offset encoding) \<and>
    reads 5 (enc_nat encoding) tvb offset (tvb_get_guint40 tvb offset encoding) \<and>
    reads 6 (enc_nat encoding) tvb offset (tvb_get_guint48 tvb offset encoding) \<and>
    reads 7 (enc_nat encoding) tvb offset (tvb_get_guint56 tvb offset encoding) \<and>
    reads 8 (enc_nat encoding) tvb offset (tvb_get_guint64 tvb offset encoding)"
  using ntoh_reads [OF assms] letoh_reads [OF assms]
  by (simp add: enc_nat_def tvb_get_guint16_def tvb_get_guint24_def tvb_get_guint32_def
      tvb_get_guint40_def tvb_get_guint48_def tvb_get_guint56_def tvb_get_guint64_def)

theorem tvb_get_unsigned_correct_witness:
  "\<exists>v tvb'. tvb_get_guint24 sample_composite 7 ENC_LITTLE_ENDIAN = Inr (v, tvb') \<and>
     unat v = 0x048308"
  using tvb_get_unsigned_correct [of sample_composite 7 ENC_LITTLE_ENDIAN]
  by (auto simp: sample reads_def in_bounds_def extent_def position_def sint_gint enc_nat_def
      little_endian_def ENC_LITTLE_ENDIAN_def slice_def)

text \<open>
  The signed accessors read the same number as a two's complement one of \<open>8 * n\<close> bits.
\<close>

definition reads_signed ::
    "nat \<Rightarrow> (guint8 list \<Rightarrow> nat) \<Rightarrow> tvbuff \<Rightarrow> gint \<Rightarrow> ('w::len word \<times> tvbuff) res \<Rightarrow> bool" where
  "reads_signed n num tvb offset r \<longleftrightarrow>
     (if in_bounds tvb offset (of_nat n)
      then \<exists>v tvb'. r = Inr (v, tvb') \<and> same_view tvb tvb' \<and>
             (let x = int (num (slice tvb offset n))
              in sint v = (if x < 2 ^ (8 * n - 1) then x else x - 2 ^ (8 * n)))
      else \<exists>e. r = Inl e \<and> bounds_exc e)"

lemma signed_take_bit_unsigned:
  assumes "0 \<le> x" "x < 2 ^ Suc k"
  shows "signed_take_bit k (x :: int) = (if x < 2 ^ k then x else x - 2 ^ Suc k)"
proof (cases "x < 2 ^ k")
  case True
  then show ?thesis using assms by (simp add: signed_take_bit_int_eq_self_iff less_le_trans [of "- (2 ^ k)" 0])
next
  case False
  have "signed_take_bit k x = take_bit (Suc k) (x + 2 ^ k) - 2 ^ k"
    by (rule signed_take_bit_eq_take_bit_shift)
  also have "take_bit (Suc k) (x + 2 ^ k) = x + 2 ^ k - 2 ^ Suc k"
    using assms False by (simp add: take_bit_eq_mod mod_pos_geq)
  finally show ?thesis using False by simp
qed

lemma sint_signed_take_bit:
  "k < LENGTH('a::len) \<Longrightarrow> sint (signed_take_bit k (v :: 'a word)) = signed_take_bit k (uint v)"
  by (rule bit_eqI) (auto simp: bit_simps min_def)

lemma reads_signedI:
  assumes "reads n num tvb offset (r :: ('w::len word \<times> tvbuff) res)" "1 \<le> n"
    and "8 * n \<le> LENGTH('w)" "\<And>bs. length bs \<le> n \<Longrightarrow> num bs < 256 ^ n"
    and "\<And>v tvb'. r = Inr (v, tvb') \<Longrightarrow> unat v < 256 ^ n \<Longrightarrow>
      r' = Inr (signed_take_bit (8 * n - 1) v, tvb')"
    and "\<And>e. r = Inl e \<Longrightarrow> r' = Inl e"
  shows "reads_signed n num tvb offset r'"
proof (cases "in_bounds tvb offset (of_nat n)")
  case True
  let ?x = "num (slice tvb offset n)"
  from True assms(1) obtain v tvb' where r: "r = Inr (v, tvb')" "unat v = ?x" "same_view tvb tvb'"
    by (auto simp: reads_def)
  have x: "?x < 256 ^ n" by (rule assms(4)) (simp add: slice_def)
  have pow: "(256 :: nat) ^ n = 2 ^ (8 * n)" by (simp add: power_mult)
  have "int ?x < 2 ^ Suc (8 * n - 1)"
    using x assms(2) unfolding pow by (simp add: less_imp_of_nat_less flip: of_nat_power)
  then have "signed_take_bit (8 * n - 1) (int ?x) =
      (if int ?x < 2 ^ (8 * n - 1) then int ?x else int ?x - 2 ^ (8 * n))"
    using assms(2) signed_take_bit_unsigned [of "int ?x" "8 * n - 1"] by simp
  moreover have "uint v = int ?x" using r(2) by (simp flip: r(2))
  moreover have "8 * n - 1 < LENGTH('w)" using assms(2,3) by linarith
  ultimately show ?thesis
    using True r x assms(5) [of v tvb']
    by (auto simp: reads_signed_def sint_signed_take_bit Let_def)
qed (use assms in \<open>auto simp: reads_def reads_signed_def\<close>)

lemma be_nat_bound_le: "length bs \<le> n \<Longrightarrow> be_nat bs < 256 ^ n"
  by (rule less_le_trans [OF be_nat_bound]) (simp add: power_increasing)

lemma enc_nat_bound_le: "length bs \<le> n \<Longrightarrow> enc_nat encoding bs < 256 ^ n"
  using be_nat_bound_le [of bs n] be_nat_bound_le [of "rev bs" n]
  by (simp add: enc_nat_def le_nat_def)

lemma take_bit_unat_less: "unat v < 2 ^ k \<Longrightarrow> take_bit k (v :: 'a::len word) = v"
  by (rule unat_eqI) (simp add: unsigned_take_bit_eq take_bit_nat_eq_self)

lemma ws_sign_ext_small:
  "unat v < 256 ^ 3 \<Longrightarrow> ws_sign_ext32 v 24 = Some (signed_take_bit 23 v)"
  "unat w < 256 ^ 5 \<Longrightarrow> ws_sign_ext64 w 40 = Some (signed_take_bit 39 w)"
  "unat w < 256 ^ 6 \<Longrightarrow> ws_sign_ext64 w 48 = Some (signed_take_bit 47 w)"
  "unat w < 256 ^ 7 \<Longrightarrow> ws_sign_ext64 w 56 = Some (signed_take_bit 55 w)"
  using ws_sign_ext32_eq [of 24 v] ws_sign_ext64_eq [of 40 w] ws_sign_ext64_eq [of 48 w]
    ws_sign_ext64_eq [of 56 w] take_bit_unat_less [of v 24] take_bit_unat_less [of w 40]
    take_bit_unat_less [of w 48] take_bit_unat_less [of w 56]
  by simp_all

lemma signed_take_bit_width: "signed_take_bit (LENGTH('a) - 1) (w :: 'a::len word) = w"
proof (rule bit_word_eqI)
  fix n
  assume "n < LENGTH('a)"
  then have "min (LENGTH('a) - 1) n = n" by simp
  then show "bit (signed_take_bit (LENGTH('a) - 1) w) n = bit w n"
    by (simp add: bit_signed_take_bit_iff \<open>n < LENGTH('a)\<close>)
qed

lemmas signed_take_bit_full =
  signed_take_bit_width [where 'a = 8, simplified] signed_take_bit_width [where 'a = 16, simplified]
  signed_take_bit_width [where 'a = 32, simplified] signed_take_bit_width [where 'a = 64, simplified]

text \<open>Sign-extending the unsigned value is what the signed accessors do.\<close>

lemma gint_as_guint:
  "tvb_get_gint8 tvb offset = tvb_get_guint8 tvb offset"
  "tvb_get_gint16 tvb offset encoding = tvb_get_guint16 tvb offset encoding"
  "tvb_get_gint24 tvb offset encoding =
     and_then (tvb_get_guint24 tvb offset encoding) (\<lambda>v. ws_sign_ext32 v 24)"
  "tvb_get_gint32 tvb offset encoding = tvb_get_guint32 tvb offset encoding"
  "tvb_get_gint40 tvb offset encoding =
     and_then (tvb_get_guint40 tvb offset encoding) (\<lambda>v. ws_sign_ext64 v 40)"
  "tvb_get_gint48 tvb offset encoding =
     and_then (tvb_get_guint48 tvb offset encoding) (\<lambda>v. ws_sign_ext64 v 48)"
  "tvb_get_gint56 tvb offset encoding =
     and_then (tvb_get_guint56 tvb offset encoding) (\<lambda>v. ws_sign_ext64 v 56)"
  "tvb_get_gint64 tvb offset encoding = tvb_get_guint64 tvb offset encoding"
  by (simp_all add: tvb_get_gint8_def tvb_get_guint8_def tvb_get_gint16_def tvb_get_guint16_def
      tvb_get_letohis_def tvb_get_letohs_def tvb_get_ntohis_def tvb_get_ntohs_def
      tvb_get_gint24_def tvb_get_guint24_def tvb_get_letohi24_def tvb_get_ntohi24_def
      tvb_get_gint32_def tvb_get_guint32_def tvb_get_letohil_def tvb_get_letohl_def
      tvb_get_ntohil_def tvb_get_ntohl_def
      tvb_get_gint40_def tvb_get_guint40_def tvb_get_letohi40_def tvb_get_ntohi40_def
      tvb_get_gint48_def tvb_get_guint48_def tvb_get_letohi48_def tvb_get_ntohi48_def
      tvb_get_gint56_def tvb_get_guint56_def tvb_get_letohi56_def tvb_get_ntohi56_def
      tvb_get_gint64_def tvb_get_guint64_def tvb_get_letohi64_def tvb_get_letoh64_def
      tvb_get_ntohi64_def tvb_get_ntoh64_def)

lemma enc_reads:
  assumes "tvb_wf tvb"
  shows "reads 2 (enc_nat encoding) tvb offset (tvb_get_guint16 tvb offset encoding)"
    "reads 3 (enc_nat encoding) tvb offset (tvb_get_guint24 tvb offset encoding)"
    "reads 4 (enc_nat encoding) tvb offset (tvb_get_guint32 tvb offset encoding)"
    "reads 5 (enc_nat encoding) tvb offset (tvb_get_guint40 tvb offset encoding)"
    "reads 6 (enc_nat encoding) tvb offset (tvb_get_guint48 tvb offset encoding)"
    "reads 7 (enc_nat encoding) tvb offset (tvb_get_guint56 tvb offset encoding)"
    "reads 8 (enc_nat encoding) tvb offset (tvb_get_guint64 tvb offset encoding)"
  using ntoh_reads [OF assms] letoh_reads [OF assms]
  by (simp_all add: enc_nat_def tvb_get_guint16_def tvb_get_guint24_def tvb_get_guint32_def
      tvb_get_guint40_def tvb_get_guint48_def tvb_get_guint56_def tvb_get_guint64_def)

lemma signed_accessors:
  assumes "tvb_wf tvb"
  shows "reads_signed 1 be_nat tvb offset (tvb_get_gint8 tvb offset)"
    "reads_signed 2 (enc_nat encoding) tvb offset (tvb_get_gint16 tvb offset encoding)"
    "reads_signed 3 (enc_nat encoding) tvb offset (tvb_get_gint24 tvb offset encoding)"
    "reads_signed 4 (enc_nat encoding) tvb offset (tvb_get_gint32 tvb offset encoding)"
    "reads_signed 5 (enc_nat encoding) tvb offset (tvb_get_gint40 tvb offset encoding)"
    "reads_signed 6 (enc_nat encoding) tvb offset (tvb_get_gint48 tvb offset encoding)"
    "reads_signed 7 (enc_nat encoding) tvb offset (tvb_get_gint56 tvb offset encoding)"
    "reads_signed 8 (enc_nat encoding) tvb offset (tvb_get_gint64 tvb offset encoding)"
  unfolding gint_as_guint
  by (rule reads_signedI [OF ntoh_reads(1) [OF assms]] enc_reads [OF assms, THEN reads_signedI];
      (erule be_nat_bound_le enc_nat_bound_le
        | simp add: and_then_def ws_sign_ext_small signed_take_bit_full))+

text \<open>
  Every signed integer accessor returns the two's complement reading of the bytes at the offset,
  in particular for the widths that no machine integer has, where the value is sign-extended by
  hand; out of bounds it throws a bounds exception.
\<close>

theorem tvb_get_signed_correct:
  assumes "tvb_wf tvb"
  shows "reads_signed 1 be_nat tvb offset (tvb_get_gint8 tvb offset) \<and>
    reads_signed 2 (enc_nat encoding) tvb offset (tvb_get_gint16 tvb offset encoding) \<and>
    reads_signed 3 (enc_nat encoding) tvb offset (tvb_get_gint24 tvb offset encoding) \<and>
    reads_signed 4 (enc_nat encoding) tvb offset (tvb_get_gint32 tvb offset encoding) \<and>
    reads_signed 5 (enc_nat encoding) tvb offset (tvb_get_gint40 tvb offset encoding) \<and>
    reads_signed 6 (enc_nat encoding) tvb offset (tvb_get_gint48 tvb offset encoding) \<and>
    reads_signed 7 (enc_nat encoding) tvb offset (tvb_get_gint56 tvb offset encoding) \<and>
    reads_signed 8 (enc_nat encoding) tvb offset (tvb_get_gint64 tvb offset encoding)"
  using signed_accessors [OF assms] by simp

theorem tvb_get_signed_correct_witness:
  "\<exists>v tvb'. tvb_get_gint24 sample_composite 2 0 = Inr (v, tvb') \<and> sint v = 0x8304F5 - 0x1000000"
  using tvb_get_signed_correct [of sample_composite 2 0]
  by (auto simp: sample reads_signed_def in_bounds_def extent_def position_def sint_gint enc_nat_def
      little_endian_def slice_def)

section \<open>Bit fields\<close>

lemma bit_field_less: "bit_field bs off n < 2 ^ n"
  by (simp add: bit_field_def)

text \<open>
  C16. \<open>tvb_get_bits64\<close> returns the number that the bits from a bit offset on write, most significant
  first, wherever the field starts and ends and through whichever mix of 1, 2, 4 and 8 octet reads
  the loop takes it; of a field of more than 64 bits it returns the least significant 64.
\<close>

theorem tvb_get_bits64_correct:
  assumes "tvb_wf tvb" "1 \<le> sint no_of_bits" "sint no_of_bits \<le> 255"
    and "unat bit_offset + nat (sint no_of_bits) \<le> 8 * unat (caplen (hdr tvb))"
  shows "\<exists>v tvb'. tvb_get_bits64 tvb bit_offset no_of_bits encoding = Inr (v, tvb') \<and>
    unat v = bit_field (tvb_bytes tvb) (unat bit_offset) (nat (sint no_of_bits)) mod 2 ^ 64 \<and>
    same_view tvb tvb'"
proof -
  let ?n = "nat (sint no_of_bits)"
  let ?f = "bit_field (tvb_bytes tvb) (unat bit_offset) ?n"
  have "unat (of_nat ?f :: guint64) = ?f mod 2 ^ 64" by (simp add: unsigned_of_nat take_bit_eq_mod)
  moreover have "\<exists>tvb'. tvb_get_bits64_internal tvb bit_offset no_of_bits =
      Inr (of_nat ?f, tvb') \<and> same_view tvb tvb'"
  proof (cases "unat bit_offset mod 8 + ?n < 8")
    case True
    with assms show ?thesis by (intro tvb_get_bits64_short) linarith+
  next
    case False
    with assms show ?thesis by (intro tvb_get_bits64_long) simp_all
  qed
  ultimately show ?thesis unfolding tvb_get_bits64_def by auto
qed

theorem tvb_get_bits64_correct_witness:
  "\<exists>v tvb'. tvb_get_bits64 sample_composite 61 14 0 = Inr (v, tvb') \<and> unat v = 0x418"
  using tvb_get_bits64_correct [of sample_composite 14 61 0]
  by (auto simp: sample sint_gint bit_field_def bit_prefix_def)

section \<open>Testing that bytes exist\<close>

text \<open>
  The hand-inlined \<open>tvb_ensure_bytes_exist\<close> throws exactly when and what \<open>check_offset_length\<close>
  throws, for every length that is not negative, which is what its comment promises.
\<close>

theorem tvb_ensure_bytes_exist_check:
  assumes "initialized (hdr tvb)" "0 \<le> sint len"
  shows "tvb_ensure_bytes_exist tvb offset len =
    bindE (check_offset_length tvb offset len) (\<lambda>(abs_offset, abs_length). Inr ())"
proof -
  have len: "\<not> len <s 0" "\<not> len <s - 1" "len \<noteq> - 1"
    using assms(2) uint_bounds [of len] by (auto simp: gint_arith split: if_splits)
  show ?thesis
    using len assms(1)
    by (simp add: tvb_ensure_bytes_exist_def check_offset_length_def
        check_offset_length_no_exception_def compute_offset_def validate_offset_def Let_def)
qed

theorem tvb_ensure_bytes_exist_check_witness:
  "tvb_ensure_bytes_exist sample_composite 10 3 = Inl BoundsError"
  using tvb_ensure_bytes_exist_check [of sample_composite 3 10]
  by (simp add: sample sint_gint check_offset_length_def check_offset_length_no_exception_def
      compute_offset_def validate_offset_def signed_gint)

section \<open>Changing the reported length\<close>

lemma take_min: "take (min m n) xs = take m (take n xs)"
  by simp

lemma unat_if_less: "unat (if a < b then a else b :: guint) = min (unat a) (unat b)"
  by (simp add: word_less_nat_alt)

lemma points_at_take: "points_at d bs \<Longrightarrow> points_at d (take n bs)"
  by (auto simp: points_at_def split: option.splits) (metis min.commute take_take)

lemma cut_wf:
  assumes "tvb_wf tvb" "n \<le> caplen (hdr tvb)"
    and f: "\<And>h. initialized (f h) = initialized h \<and> real_data (f h) = real_data h \<and>
      caplen (f h) = n"
  shows "tvb_wf (map_hdr f tvb)" "tvb_bytes (map_hdr f tvb) = take (unat n) (tvb_bytes tvb)"
proof -
  have n: "unat n \<le> unat (caplen (hdr tvb))" using assms(2) by (simp add: word_le_nat_alt)
  then have eq: "min (unat n) (unat (caplen (hdr tvb))) = unat n" by simp
  show "tvb_bytes (map_hdr f tvb) = take (unat n) (tvb_bytes tvb)"
    using eq by (cases tvb) (auto simp: f split: option.splits)
  show "tvb_wf (map_hdr f tvb)"
  proof (cases tvb)
    case (TvbReal h)
    with assms n show ?thesis
      by (auto simp: f word_le_nat_alt word_less_nat_alt unat_eq_zero split: option.splits)
  next
    case (TvbSubset h backing off sublen)
    with assms(1,2) n eq points_at_take [of "real_data h" _ "unat n"] show ?thesis
      by (fastforce simp: f)
  next
    case (TvbComposite h ms starts ends)
    with assms(1,2) n eq points_at_take [of "real_data h" _ "unat n"] show ?thesis
      by (fastforce simp: f)
  qed
qed

text \<open>
  \<open>tvb_set_reported_length\<close> only ever shrinks a buffer: the buffer stays well formed and is the
  prefix of the captured bytes that the new length leaves; a length above the old one throws
  \<open>ReportedBoundsError\<close> and changes nothing.
\<close>

theorem tvb_set_reported_length_correct:
  assumes "tvb_wf tvb"
  shows "if new_length > reported_length (hdr tvb)
    then tvb_set_reported_length tvb new_length = Inl ReportedBoundsError
    else (\<exists>tvb'. tvb_set_reported_length tvb new_length = Inr tvb' \<and> tvb_wf tvb' \<and>
      tvb_bytes tvb' = take (unat new_length) (tvb_bytes tvb) \<and>
      reported_length (hdr tvb') = new_length \<and>
      contained_length (hdr tvb') = min new_length (contained_length (hdr tvb)))"
proof (cases "new_length > reported_length (hdr tvb)")
  case True
  then show ?thesis
    using tvb_wf_initialized [OF assms] by (simp add: tvb_set_reported_length_def)
next
  case False
  let ?n = "min new_length (caplen (hdr tvb))"
  let ?f = "\<lambda>h. h\<lparr>reported_length := new_length,
      caplen := (if new_length < caplen h then new_length else caplen h),
      contained_length :=
        (if new_length < contained_length h then new_length else contained_length h)\<rparr>"
  have eq: "map_hdr ?f tvb = map_hdr (\<lambda>h. (?f h)\<lparr>caplen := ?n\<rparr>) tvb"
    by (cases tvb) (auto simp: min_def)
  have "take (unat ?n) (tvb_bytes tvb) = take (unat new_length) (tvb_bytes tvb)"
    using length_tvb_bytes [OF assms] by (auto simp: min_def word_le_nat_alt)
  moreover have "tvb_set_reported_length tvb new_length = Inr (map_hdr ?f tvb)"
    using False tvb_wf_initialized [OF assms] by (simp add: tvb_set_reported_length_def)
  moreover have "reported_length (hdr (map_hdr ?f tvb)) = new_length \<and>
      contained_length (hdr (map_hdr ?f tvb)) = min new_length (contained_length (hdr tvb))"
    by (auto simp: min_def)
  ultimately show ?thesis
    using False cut_wf [OF assms, of ?n "\<lambda>h. (?f h)\<lparr>caplen := ?n\<rparr>"] unfolding eq by simp
qed

theorem tvb_set_reported_length_correct_witness:
  "\<exists>tvb'. tvb_set_reported_length sample_composite 9 = Inr tvb' \<and> tvb_wf tvb' \<and>
     tvb_bytes tvb' = [1, 2, 0x83, 4, 0xF5, 6, 7, 8, 0x83]"
  using tvb_set_reported_length_correct [of sample_composite 9] by (auto simp: sample)

section \<open>Subsets\<close>

lemma points_at_drop:
  assumes "points_at p bs" "a + l \<le> length bs"
  shows "points_at (map_option (drop a) p) (take l (drop a bs))"
proof (cases p)
  case None
  then show ?thesis by (simp add: points_at_def)
next
  case (Some d)
  have "min (length bs - a) l = l" using assms(2) by simp
  with points_at_slice(1) [of d bs a l] assms Some show ?thesis
    by (simp add: points_at_def del: drop_take take_drop)
qed

lemma tvb_new_with_subset_wf:
  assumes "tvb_wf backing" "unat off + unat len \<le> unat (caplen (hdr backing))"
  shows "tvb_wf (tvb_new_with_subset backing rep off len)"
    "tvb_bytes (tvb_new_with_subset backing rep off len) =
       take (unat len) (drop (unat off) (tvb_bytes backing))"
  using assms points_at_drop [OF points_at_bytes [OF assms(1)], of "unat off" "unat len"]
  by (simp_all add: tvb_new_with_subset_def length_tvb_bytes)

lemma subset_slice:
  assumes "tvb_wf backing" "check_offset_length_no_exception backing offset len = Inr (a, l)"
  shows "unat a + unat l \<le> unat (caplen (hdr backing))"
    "take (unat l) (drop (unat a) (tvb_bytes backing)) =
       slice backing offset (nat (extent backing offset len))"
proof -
  from assms have b: "in_bounds backing offset len" "uint a = position backing offset"
    "uint l = extent backing offset len"
    by (simp_all add: check_offset_length_iff [OF tvb_wf_caplen [OF assms(1)]])
  then have "uint a + uint l \<le> uint (caplen (hdr backing))" by (simp add: in_bounds_def)
  then show "unat a + unat l \<le> unat (caplen (hdr backing))" by (simp add: nat_uint_le)
  have "nat (position backing offset) = unat a" "nat (extent backing offset len) = unat l"
    unfolding b(2,3) [symmetric] by simp_all
  then show "take (unat l) (drop (unat a) (tvb_bytes backing)) =
      slice backing offset (nat (extent backing offset len))"
    by (simp add: slice_def)
qed

text \<open>
  A subset made with an explicit captured length is a well-formed buffer whose bytes are the slice
  of its backing buffer that the offset and length denote, whatever the backing buffer is; a slice
  that is not captured throws a bounds exception.
\<close>

theorem tvb_new_subset_length_caplen_correct:
  assumes "tvb_wf backing" "- 1 \<le> sint rep_length"
  shows "if in_bounds backing offset len
    then (\<exists>tvb. tvb_new_subset_length_caplen backing offset len rep_length = Inr tvb \<and>
      tvb_wf tvb \<and> tvb_bytes tvb = slice backing offset (nat (extent backing offset len)))
    else (\<exists>e. tvb_new_subset_length_caplen backing offset len rep_length = Inl e \<and> bounds_exc e)"
proof -
  have rep: "\<not> rep_length <s - 1" using assms(2) by (simp add: word_sless_alt)
  note ini = tvb_wf_initialized [OF assms(1)]
  show ?thesis
  proof (cases "check_offset_length_no_exception backing offset len")
    case (Inl e)
    then have "\<not> in_bounds backing offset len"
      using check_offset_length_in_bounds [OF tvb_wf_caplen [OF assms(1)], of offset len] by auto
    with Inl rep ini check_offset_length_bounds_exc [OF Inl] show ?thesis
      by (simp add: tvb_new_subset_length_caplen_def tvb_check_offset_length_def
          check_offset_length_def)
  next
    case (Inr r)
    then obtain a l where al: "check_offset_length_no_exception backing offset len = Inr (a, l)"
      by (cases r) auto
    then have "in_bounds backing offset len"
      by (simp add: check_offset_length_iff [OF tvb_wf_caplen [OF assms(1)]])
    with al rep ini subset_slice [OF assms(1) al] tvb_new_with_subset_wf [OF assms(1)]
    show ?thesis
      by (simp add: tvb_new_subset_length_caplen_def tvb_check_offset_length_def
          check_offset_length_def)
  qed
qed

theorem tvb_new_subset_length_caplen_correct_witness:
  "\<exists>tvb. tvb_new_subset_length_caplen sample_composite (- 6) 4 20 = Inr tvb \<and> tvb_wf tvb \<and>
     tvb_bytes tvb = [7, 8, 0x83, 4]"
  using tvb_new_subset_length_caplen_correct [of sample_composite 20 "- 6" 4]
  by (simp add: sample in_bounds_def extent_def position_def slice_def sint_gint uint_neg)

section \<open>Composites\<close>

lemma append_members:
  assumes "\<forall>m \<in> set ms. caplen (hdr m) \<noteq> 0" "\<not> initialized h"
  shows "foldl (\<lambda>r m. bindE r (\<lambda>tvb. tvb_composite_append tvb m))
      (Inr (TvbComposite h pre starts ends)) ms = Inr (TvbComposite h (pre @ ms) starts ends)"
  using assms by (induction ms arbitrary: pre) simp_all

text \<open>What the loop of \<open>tvb_composite_finalize\<close> computes when the lengths do not wrap around.\<close>

lemma finalize_loop_layout:
  assumes "unat (caplen h) + total ms < 2 ^ 31" "\<forall>m \<in> set ms. caplen (hdr m) \<noteq> 0"
    and "finalize_loop ms h = (h', starts, ends)"
  shows "layout (unat (caplen h)) ms starts ends \<and> unat (caplen h') = unat (caplen h) + total ms \<and>
    real_data h' = real_data h"
  using assms
proof (induction ms arbitrary: h h' starts ends)
  case (Cons m ms)
  let ?h = "h\<lparr>caplen := caplen h + caplen (hdr m),
       reported_length := reported_length h + reported_length (hdr m),
       contained_length := contained_length h + contained_length (hdr m)\<rparr>"
  obtain h1 ss es where loop: "finalize_loop ms ?h = (h1, ss, es)" by (cases "finalize_loop ms ?h")
  with Cons.prems(3) have r: "h' = h1" "starts = caplen h # ss"
    "ends = (caplen h + caplen (hdr m) - 1) # es"
    by (simp_all add: Let_def)
  have sum: "unat (caplen h + caplen (hdr m)) = unat (caplen h) + unat (caplen (hdr m))"
    using Cons.prems(1) by (intro unat_add_less) simp
  have pos: "0 < unat (caplen (hdr m))" using Cons.prems(2) by (simp add: unat_gt_0)
  then have "1 \<le> unat (caplen h + caplen (hdr m))" using sum by simp
  then have "1 \<le> caplen h + caplen (hdr m)" by (simp only: word_le_nat_alt unat_1)
  then have "unat (caplen h + caplen (hdr m) - 1) = unat (caplen h) + unat (caplen (hdr m)) - 1"
    by (simp add: unat_sub sum)
  moreover have "layout (unat (caplen ?h)) ms ss es \<and>
      unat (caplen h1) = unat (caplen ?h) + total ms \<and> real_data h1 = real_data ?h"
    using Cons.prems loop by (intro Cons.IH) (simp_all add: sum)
  ultimately show ?case using r pos by (simp add: sum)
qed simp

text \<open>Building a composite: create it, append the members in order, finalize it.\<close>

definition composite_of :: "tvbuff list \<Rightarrow> tvbuff res" where
  "composite_of ms =
     bindE (foldl (\<lambda>r m. bindE r (\<lambda>tvb. tvb_composite_append tvb m)) (Inr tvb_new_composite) ms)
       tvb_composite_finalize"

text \<open>
  C17. A composite made by appending non-empty well-formed members and finalizing it is a well-formed
  buffer whose bytes are those of the members, one after the other; with no member at all
  finalizing fails its assertion.
\<close>

theorem composite_of_correct:
  assumes "\<forall>m \<in> set ms. tvb_wf m \<and> caplen (hdr m) \<noteq> 0" "total ms < 2 ^ 31"
  shows "if ms = [] then composite_of ms = Inl DissectorError
    else (\<exists>tvb. composite_of ms = Inr tvb \<and> tvb_wf tvb \<and>
      tvb_bytes tvb = concat (map tvb_bytes ms))"
proof -
  obtain h' starts ends where loop: "finalize_loop ms tvb_new = (h', starts, ends)"
    by (cases "finalize_loop ms tvb_new")
  with assms finalize_loop_layout [of tvb_new ms h' starts ends]
  have lay: "layout 0 ms starts ends" "unat (caplen h') = total ms" "real_data h' = None"
    by (simp_all add: tvb_new_def)
  have app: "foldl (\<lambda>r m. bindE r (\<lambda>tvb. tvb_composite_append tvb m)) (Inr tvb_new_composite) ms =
      Inr (TvbComposite tvb_new ms [] [])"
    using append_members [of ms tvb_new "[]" "[]" "[]"] assms(1)
    by (simp add: tvb_new_composite_def tvb_new_def)
  have hd: "\<not> initialized tvb_new" "caplen tvb_new = 0" "reported_length tvb_new = 0"
    "contained_length tvb_new = 0"
    by (simp_all add: tvb_new_def)
  have len: "length (concat (map tvb_bytes ms)) = total ms"
    using assms(1) by (intro length_concat_bytes) simp
  show ?thesis
    using app hd loop lay len assms by (simp add: composite_of_def points_at_def tvb_new_composite_def del: length_concat)
qed

theorem composite_of_correct_witness:
  "\<exists>tvb. composite_of [sample_real, sample_composite] = Inr tvb \<and> tvb_wf tvb \<and>
     length (tvb_bytes tvb) = 20"
  using composite_of_correct [of "[sample_real, sample_composite]"] by (auto simp: sample)

section \<open>Clones\<close>

lemma generic_clone:
  assumes "tvb_wf tvb" "unat off + unat len \<le> unat (caplen (hdr tvb))"
  shows "\<exists>tvb'. tvb_generic_clone_offset_len tvb off len = Inr tvb' \<and> tvb_wf tvb' \<and>
    tvb_bytes tvb' = take (unat len) (drop (unat off) (tvb_bytes tvb)) \<and>
    (\<exists>h. tvb' = TvbReal h)"
proof -
  note cap = tvb_wf_caplen [OF assms(1)] and ini = tvb_wf_initialized [OF assms(1)]
  have len: "len < 0x80000000" using assms(2) cap by (simp add: word_less_nat_alt)
  then have "\<not> len <s - 1" by (auto simp: gint_arith)
  moreover have "tvb_bytes_exist tvb off len = Inr True"
    using tvb_bytes_exist_unsigned [OF cap ini _ len, of off] assms(2) by simp
  moreover have "min (unat (caplen (hdr tvb)) - unat off) (unat len) = unat len"
    using assms(2) by simp
  ultimately show ?thesis
    using memcpy_slice(1) [OF assms] len length_tvb_bytes [OF assms(1)]
    by (simp add: tvb_generic_clone_offset_len_def tvb_new_real_data_def)
qed

lemma clone_offset_len:
  assumes "tvb_wf tvb" "unat off + unat len \<le> unat (caplen (hdr tvb))"
  shows "\<exists>tvb'. tvb_clone_offset_len tvb off len = Inr tvb' \<and> tvb_wf tvb' \<and>
    tvb_bytes tvb' = take (unat len) (drop (unat off) (tvb_bytes tvb)) \<and>
    (\<exists>h. tvb' = TvbReal h)"
  using assms
proof (induction tvb arbitrary: off)
  case (TvbSubset h backing sub_off sub_len)
  then have le: "unat sub_off + unat off + unat len \<le> unat (caplen (hdr backing))"
    by (auto simp: word_le_nat_alt)
  moreover have "tvb_wf backing" using TvbSubset.prems by simp
  moreover have "unat (sub_off + off) = unat sub_off + unat off"
    using le tvb_wf_caplen [OF \<open>tvb_wf backing\<close>]
    by (intro unat_add_less) (simp add: word_less_nat_alt)
  ultimately have "\<exists>tvb'. tvb_clone_offset_len backing (sub_off + off) len = Inr tvb' \<and>
      tvb_wf tvb' \<and> tvb_bytes tvb' =
        take (unat len) (drop (unat sub_off + unat off) (tvb_bytes backing)) \<and> (\<exists>h. tvb' = TvbReal h)"
    using TvbSubset.IH [of "sub_off + off"] by simp
  then show ?case
    using TvbSubset.prems(2) by (simp add: take_drop_take add.commute)
qed (use generic_clone in \<open>simp_all only: tvb_clone_offset_len.simps\<close>)

text \<open>
  \<open>tvb_clone\<close> of a buffer of any kind is a buffer with real data that has the same bytes and
  keeps no reference to the original.
\<close>

theorem tvb_clone_correct:
  assumes "tvb_wf tvb"
  shows "\<exists>h. tvb_clone tvb = Inr (TvbReal h) \<and> tvb_wf (TvbReal h) \<and>
    tvb_bytes (TvbReal h) = tvb_bytes tvb"
  using clone_offset_len [OF assms, of 0 "caplen (hdr tvb)"] length_tvb_bytes [OF assms]
  by (auto simp: tvb_clone_def)

theorem tvb_clone_correct_witness:
  "\<exists>h. tvb_clone sample_composite = Inr (TvbReal h) \<and> length (tvb_bytes (TvbReal h)) = 12"
  using tvb_clone_correct [of sample_composite] by (auto simp: sample)

end
