(* ===== verification/WmemTree.thy ===== *)
theory WmemTree
  imports Prelude
begin

text \<open>
  The red-black tree of epan/wmem/wmem_tree.c. A pointer to a node is a zipper: the subtree at the
  node and the frames on the way up to the root, which stand for the parent pointers. A function
  that follows a NULL pointer has no result (\<open>None\<close>). Allocation and the allocator callbacks are left
  out, and \<open>post_rotation_cb\<close> is NULL, as it is for every tree but the interval tree.
\<close>

section \<open>Nodes and pointers to them\<close>

datatype wmem_node_color = RED | BLACK

text \<open>\<open>data\<close> is a pointer: \<open>None\<close> is NULL.\<close>

datatype ('k, 'v) cell =
  Cell (key: 'k) (data: "'v option") (is_subtree: bool) (is_removed: bool)

datatype ('k, 'v) wmem_tree =
    Null
  | Node wmem_node_color "('k, 'v) wmem_tree" "('k, 'v) cell" "('k, 'v) wmem_tree"

datatype ('k, 'v) frame =
    LeftOf wmem_node_color "('k, 'v) cell" "('k, 'v) wmem_tree"
  | RightOf wmem_node_color "('k, 'v) wmem_tree" "('k, 'v) cell"

primrec attach :: "('k, 'v) wmem_tree \<Rightarrow> ('k, 'v) frame \<Rightarrow> ('k, 'v) wmem_tree" where
  "attach t (LeftOf c x r) = Node c t x r"
| "attach t (RightOf c l x) = Node c l x t"

text \<open>The whole tree, seen from a node and its parents.\<close>

definition root_of :: "('k, 'v) wmem_tree \<Rightarrow> ('k, 'v) frame list \<Rightarrow> ('k, 'v) wmem_tree" where
  "root_of t path = foldl attach t path"

primrec is_left :: "('k, 'v) frame \<Rightarrow> bool" where
  "is_left (LeftOf c x r) = True"
| "is_left (RightOf c l x) = False"

primrec frame_color :: "('k, 'v) frame \<Rightarrow> wmem_node_color" where
  "frame_color (LeftOf c x r) = c"
| "frame_color (RightOf c l x) = c"

primrec set_frame_color :: "wmem_node_color \<Rightarrow> ('k, 'v) frame \<Rightarrow> ('k, 'v) frame" where
  "set_frame_color d (LeftOf c x r) = LeftOf d x r"
| "set_frame_color d (RightOf c l x) = RightOf d l x"

text \<open>The other child of the parent.\<close>

primrec sibling :: "('k, 'v) frame \<Rightarrow> ('k, 'v) wmem_tree" where
  "sibling (LeftOf c x r) = r"
| "sibling (RightOf c l x) = l"

primrec set_sibling :: "('k, 'v) wmem_tree \<Rightarrow> ('k, 'v) frame \<Rightarrow> ('k, 'v) frame" where
  "set_sibling t (LeftOf c x r) = LeftOf c x t"
| "set_sibling t (RightOf c l x) = RightOf c t x"

primrec color_of :: "('k, 'v) wmem_tree \<Rightarrow> wmem_node_color" where
  "color_of Null = BLACK"
| "color_of (Node c l x r) = c"

primrec set_color :: "wmem_node_color \<Rightarrow> ('k, 'v) wmem_tree \<Rightarrow> ('k, 'v) wmem_tree" where
  "set_color d Null = Null"
| "set_color d (Node c l x r) = Node d l x r"

section \<open>Rebalancing\<close>

text \<open>\<open>node_uncle\<close>: NULL when there is no grandparent.\<close>

fun node_uncle :: "('k, 'v) frame list \<Rightarrow> ('k, 'v) wmem_tree" where
  "node_uncle (parent # grandparent # path) = sibling grandparent"
| "node_uncle path = Null"

fun rotate_left :: "('k, 'v) wmem_tree \<Rightarrow> ('k, 'v) wmem_tree option" where
  "rotate_left (Node c a x (Node d b y e)) = Some (Node d (Node c a x b) y e)"
| "rotate_left t = None"

fun rotate_right :: "('k, 'v) wmem_tree \<Rightarrow> ('k, 'v) wmem_tree option" where
  "rotate_right (Node c (Node d a x b) y e) = Some (Node d a x (Node c b y e))"
| "rotate_right t = None"

fun rb_insert_case5 ::
    "('k, 'v) wmem_tree \<Rightarrow> ('k, 'v) frame list \<Rightarrow> ('k, 'v) wmem_tree option" where
  "rb_insert_case5 node (parent # grandparent # path) =
     (let tree = attach (attach node (set_frame_color BLACK parent)) (set_frame_color RED grandparent);
          rotated = (if is_left parent \<and> is_left grandparent then rotate_right tree
                     else rotate_left tree)
      in map_option (\<lambda>t. root_of t path) rotated)"
| "rb_insert_case5 node path = None"

fun rb_insert_case4 ::
    "('k, 'v) wmem_tree \<Rightarrow> ('k, 'v) frame list \<Rightarrow> ('k, 'v) wmem_tree option" where
  "rb_insert_case4 node [] = None"
| "rb_insert_case4 node [parent] = Some (root_of node [parent])"
| "rb_insert_case4 node (parent # grandparent # path) =
     (if \<not> is_left parent \<and> is_left grandparent then
        (case rotate_left (attach node parent) of
           Some (Node c l x r) \<Rightarrow> rb_insert_case5 l (LeftOf c x r # grandparent # path)
         | _ \<Rightarrow> None)
      else if is_left parent \<and> \<not> is_left grandparent then
        (case rotate_right (attach node parent) of
           Some (Node c l x r) \<Rightarrow> rb_insert_case5 r (RightOf c l x # grandparent # path)
         | _ \<Rightarrow> None)
      else rb_insert_case5 node (parent # grandparent # path))"

text \<open>
  \<open>rb_insert_case1\<close>, \<open>rb_insert_case2\<close> and \<open>rb_insert_case3\<close> call each other; the call of the third
  to the first climbs two nodes.
\<close>

fun rb_insert_case1 ::
    "('k, 'v) wmem_tree \<Rightarrow> ('k, 'v) frame list \<Rightarrow> ('k, 'v) wmem_tree option"
and rb_insert_case2 ::
    "('k, 'v) wmem_tree \<Rightarrow> ('k, 'v) frame \<Rightarrow> ('k, 'v) frame list \<Rightarrow> ('k, 'v) wmem_tree option"
and rb_insert_case3 ::
    "('k, 'v) wmem_tree \<Rightarrow> ('k, 'v) frame \<Rightarrow> ('k, 'v) frame list \<Rightarrow> ('k, 'v) wmem_tree option"
where
  "rb_insert_case1 node [] = Some (set_color BLACK node)"
| "rb_insert_case1 node (parent # path) = rb_insert_case2 node parent path"
| "rb_insert_case2 node parent path =
     (if frame_color parent = RED then rb_insert_case3 node parent path
      else Some (root_of node (parent # path)))"
| "rb_insert_case3 node parent [] = rb_insert_case4 node [parent]"
| "rb_insert_case3 node parent (grandparent # path) =
     (let uncle = node_uncle (parent # grandparent # path) in
      if uncle \<noteq> Null \<and> color_of uncle = RED then
        rb_insert_case1
          (attach (attach node (set_frame_color BLACK parent))
             (set_frame_color RED (set_sibling (set_color BLACK uncle) grandparent)))
          path
      else rb_insert_case4 node (parent # grandparent # path))"

section \<open>Insertion and lookup\<close>

text \<open>
  The loop that walks down with the result of a comparison of the key with the one at the node: it
  ends at the node with an equal key, or at the NULL link where the key belongs.
\<close>

fun walk ::
    "('k \<Rightarrow> int) \<Rightarrow> ('k, 'v) wmem_tree \<Rightarrow> ('k, 'v) frame list \<Rightarrow>
      ('k, 'v) wmem_tree \<times> ('k, 'v) frame list"
where
  "walk compare Null path = (Null, path)"
| "walk compare (Node c l x r) path =
     (let result = compare (key x) in
      if result = 0 then (Node c l x r, path)
      else if result < 0 then walk compare l (LeftOf c x r # path)
      else walk compare r (RightOf c l x # path))"

definition compare32 :: "guint32 \<Rightarrow> guint32 \<Rightarrow> int" where
  "compare32 a b = (if a = b then 0 else if a < b then - 1 else 1)"

definition set_data :: "'v option \<Rightarrow> ('k, 'v) cell \<Rightarrow> ('k, 'v) cell" where
  "set_data d x = Cell (key x) d (is_subtree x) (is_removed x)"

text \<open>Returns the data of the node, too.\<close>

definition lookup_or_insert32 ::
    "(guint32, 'v) wmem_tree \<Rightarrow> guint32 \<Rightarrow> 'v option \<Rightarrow> bool \<Rightarrow> bool \<Rightarrow>
      ('v option \<times> (guint32, 'v) wmem_tree) option"
where
  "lookup_or_insert32 tree k created subtree replace =
     (case tree of
        Null \<Rightarrow> Some (created, Node BLACK Null (Cell k created subtree False) Null)
      | _ \<Rightarrow>
          (case walk (compare32 k) tree [] of
             (Node c l x r, path) \<Rightarrow>
               let x' = (if replace then set_data created x else x)
               in Some (data x', root_of (Node c l x' r) path)
           | (Null, path) \<Rightarrow>
               map_option (Pair created)
                 (rb_insert_case1 (Node RED Null (Cell k created subtree False) Null) path)))"

definition wmem_tree_insert ::
    "('k \<Rightarrow> 'k \<Rightarrow> int) \<Rightarrow> ('k, 'v) wmem_tree \<Rightarrow> 'k \<Rightarrow> 'v option \<Rightarrow> ('k, 'v) wmem_tree option"
where
  "wmem_tree_insert cmp tree k d =
     (case tree of
        Null \<Rightarrow> Some (Node BLACK Null (Cell k d False False) Null)
      | _ \<Rightarrow>
          (case walk (cmp k) tree [] of
             (Node c l x r, path) \<Rightarrow>
               Some (root_of (Node c l (Cell (key x) d (is_subtree x) (d = None)) r) path)
           | (Null, path) \<Rightarrow>
               rb_insert_case1 (Node RED Null (Cell k d False False) Null) path))"

fun wmem_tree_lookup ::
    "('k \<Rightarrow> 'k \<Rightarrow> int) \<Rightarrow> ('k, 'v) wmem_tree \<Rightarrow> 'k \<Rightarrow> 'v option" where
  "wmem_tree_lookup cmp Null k = None"
| "wmem_tree_lookup cmp (Node c l x r) k =
     (let result = cmp k (key x) in
      if result = 0 then data x
      else if result < 0 then wmem_tree_lookup cmp l k
      else wmem_tree_lookup cmp r k)"

definition wmem_tree_new :: "('k, 'v) wmem_tree" where
  "wmem_tree_new = Null"

definition wmem_tree_is_empty :: "('k, 'v) wmem_tree \<Rightarrow> bool" where
  "wmem_tree_is_empty tree \<longleftrightarrow> tree = Null"

definition wmem_tree_insert32 ::
    "(guint32, 'v) wmem_tree \<Rightarrow> guint32 \<Rightarrow> 'v option \<Rightarrow> (guint32, 'v) wmem_tree option" where
  "wmem_tree_insert32 tree k d = map_option snd (lookup_or_insert32 tree k d False True)"

fun wmem_tree_lookup32 :: "(guint32, 'v) wmem_tree \<Rightarrow> guint32 \<Rightarrow> 'v option" where
  "wmem_tree_lookup32 Null k = None"
| "wmem_tree_lookup32 (Node c l x r) k =
     (if k = key x then data x
      else if k < key x then wmem_tree_lookup32 l k
      else wmem_tree_lookup32 r k)"

definition wmem_tree_remove32 ::
    "(guint32, 'v) wmem_tree \<Rightarrow> guint32 \<Rightarrow> ('v option \<times> (guint32, 'v) wmem_tree) option" where
  "wmem_tree_remove32 tree k =
     (let ret = wmem_tree_lookup32 tree k in
      if ret \<noteq> None then map_option (Pair ret) (wmem_tree_insert32 tree k None)
      else Some (ret, tree))"

text \<open>
  \<open>wmem_tree_lookup32_le\<close>: the walk that stops at a node rather than at a NULL link, the walk back up
  the parents of a left child, and the function.
\<close>

fun walk_le ::
    "guint32 \<Rightarrow> (guint32, 'v) wmem_tree \<Rightarrow> (guint32, 'v) frame list \<Rightarrow>
      ((guint32, 'v) cell \<times> (guint32, 'v) frame list) option"
where
  "walk_le k Null path = None"
| "walk_le k (Node c l x r) path =
     (if k = key x then Some (x, path)
      else if k < key x then
        (if l = Null then Some (x, path) else walk_le k l (LeftOf c x r # path))
      else
        (if r = Null then Some (x, path) else walk_le k r (RightOf c l x # path)))"

primrec frame_cell :: "('k, 'v) frame \<Rightarrow> ('k, 'v) cell" where
  "frame_cell (LeftOf c x r) = x"
| "frame_cell (RightOf c l x) = x"

fun smaller_ancestor :: "guint32 \<Rightarrow> (guint32, 'v) cell \<Rightarrow> (guint32, 'v) frame list \<Rightarrow> 'v option" where
  "smaller_ancestor k x path =
     (if k > key x then data x
      else (case path of
              [] \<Rightarrow> None
            | parent # path' \<Rightarrow> smaller_ancestor k (frame_cell parent) path'))"

declare smaller_ancestor.simps [simp del]

definition wmem_tree_lookup32_le :: "(guint32, 'v) wmem_tree \<Rightarrow> guint32 \<Rightarrow> 'v option" where
  "wmem_tree_lookup32_le tree k =
     (case walk_le k tree [] of
        None \<Rightarrow> None
      | Some (node, path) \<Rightarrow>
          if k = key node then data node
          else (case path of
                  [] \<Rightarrow> if k > key node then data node else None
                | parent # path' \<Rightarrow>
                    if key node \<le> k then data node
                    else if is_left parent then smaller_ancestor k node path
                    else data (frame_cell parent)))"

section \<open>The red-black invariant\<close>

primrec inorder :: "('k, 'v) wmem_tree \<Rightarrow> ('k, 'v) cell list" where
  "inorder Null = []"
| "inorder (Node c l x r) = inorder l @ x # inorder r"

text \<open>Every path from the root down has \<open>n\<close> black nodes.\<close>

primrec balanced :: "('k, 'v) wmem_tree \<Rightarrow> nat \<Rightarrow> bool" where
  "balanced Null n = (n = 0)"
| "balanced (Node c l x r) n =
     (if c = RED then balanced l n \<and> balanced r n
      else 0 < n \<and> balanced l (n - 1) \<and> balanced r (n - 1))"

text \<open>No red node has a red child.\<close>

primrec red_ok :: "('k, 'v) wmem_tree \<Rightarrow> bool" where
  "red_ok Null = True"
| "red_ok (Node c l x r) =
     ((c = RED \<longrightarrow> color_of l = BLACK \<and> color_of r = BLACK) \<and> red_ok l \<and> red_ok r)"

definition rb_ok :: "('k, 'v) wmem_tree \<Rightarrow> bool" where
  "rb_ok t \<longleftrightarrow> color_of t = BLACK \<and> red_ok t \<and> (\<exists>n. balanced t n)"

text \<open>What a path must satisfy for a subtree of black height \<open>n\<close> and root colour \<open>c\<close> to fit there.\<close>

primrec fits :: "('k, 'v) frame list \<Rightarrow> nat \<Rightarrow> wmem_node_color \<Rightarrow> bool" where
  "fits [] n c = (c = BLACK)"
| "fits (f # path) n c =
     (balanced (sibling f) n \<and> red_ok (sibling f) \<and>
      (frame_color f = RED \<longrightarrow> c = BLACK \<and> color_of (sibling f) = BLACK) \<and>
      fits path (if frame_color f = RED then n else Suc n) (frame_color f))"

primrec before :: "('k, 'v) frame list \<Rightarrow> ('k, 'v) cell list" where
  "before [] = []"
| "before (f # path) =
     (case f of LeftOf c x r \<Rightarrow> before path | RightOf c l x \<Rightarrow> before path @ inorder l @ [x])"

primrec after :: "('k, 'v) frame list \<Rightarrow> ('k, 'v) cell list" where
  "after [] = []"
| "after (f # path) =
     (case f of LeftOf c x r \<Rightarrow> x # inorder r @ after path | RightOf c l x \<Rightarrow> after path)"

lemma root_of_simps [simp]:
  "root_of t [] = t"
  "root_of t (f # path) = root_of (attach t f) path"
  by (simp_all add: root_of_def)

lemma inorder_root_of: "inorder (root_of t path) = before path @ inorder t @ after path"
  by (induction path arbitrary: t) (simp_all split: frame.split)

lemma frame_simps [simp]:
  "frame_color (set_frame_color d f) = d" "is_left (set_frame_color d f) = is_left f"
  "sibling (set_frame_color d f) = sibling f" "frame_color (set_sibling t f) = frame_color f"
  "sibling (set_sibling t f) = t"
  by (cases f; simp)+

lemma not_red [simp]: "c \<noteq> RED \<longleftrightarrow> c = BLACK" "c \<noteq> BLACK \<longleftrightarrow> c = RED"
  by (cases c; simp)+

lemma attach_balanced:
  "balanced (attach t f) n \<longleftrightarrow>
     (if frame_color f = RED then balanced t n \<and> balanced (sibling f) n
      else 0 < n \<and> balanced t (n - 1) \<and> balanced (sibling f) (n - 1))"
  by (cases f) auto

lemma attach_red_ok:
  "red_ok (attach t f) \<longleftrightarrow>
     (frame_color f = RED \<longrightarrow> color_of t = BLACK \<and> color_of (sibling f) = BLACK) \<and>
     red_ok t \<and> red_ok (sibling f)"
  by (cases f) auto

lemma attach_color [simp]: "color_of (attach t f) = frame_color f"
  by (cases f) auto

lemma fits_black: "fits path n RED \<Longrightarrow> fits path n BLACK"
  by (cases path) auto

lemma fits_rb_ok:
  "fits path n (color_of t) \<Longrightarrow> balanced t n \<Longrightarrow> red_ok t \<Longrightarrow> rb_ok (root_of t path)"
proof (induction path arbitrary: t n)
  case Nil
  then show ?case by (auto simp: rb_ok_def)
next
  case (Cons f path)
  then show ?case
    by (simp, intro Cons.IH [of "if frame_color f = RED then n else Suc n"])
      (auto simp: attach_balanced attach_red_ok)
qed

text \<open>A red node whose parent may be red: the tree with its only possible violation there.\<close>

definition red_node :: "('k, 'v) wmem_tree \<Rightarrow> nat \<Rightarrow> bool" where
  "red_node t n \<longleftrightarrow> t \<noteq> Null \<and> color_of t = RED \<and> balanced t n \<and> red_ok t"

definition repairs ::
    "('k, 'v) wmem_tree option \<Rightarrow> ('k, 'v) wmem_tree \<Rightarrow> ('k, 'v) frame list \<Rightarrow> bool" where
  "repairs result t path \<longleftrightarrow>
     (\<exists>t'. result = Some t' \<and> rb_ok t' \<and> inorder t' = inorder (root_of t path))"

lemma case4_repairs:
  assumes node: "red_node node n"
    and p: "frame_color p = RED" "balanced (sibling p) n" "red_ok (sibling p)"
      "color_of (sibling p) = BLACK"
    and g: "frame_color g = BLACK" "balanced (sibling g) n" "red_ok (sibling g)"
      "color_of (sibling g) = BLACK"
    and path: "fits path (Suc n) BLACK"
  shows "repairs (rb_insert_case4 node (p # g # path)) node (p # g # path)"
proof -
  obtain l x r where "node = Node RED l x r"
    using node by (cases node) (auto simp: red_node_def)
  moreover from this node have "balanced l n" "balanced r n" "red_ok l" "red_ok r"
    "color_of l = BLACK" "color_of r = BLACK"
    by (auto simp: red_node_def)
  ultimately show ?thesis
    using p g path
    by (cases p; cases g)
      (auto simp: repairs_def inorder_root_of intro!: fits_rb_ok [of _ "Suc n"])
qed

lemma insert_case_repairs:
  "red_node node n \<Longrightarrow> fits path n BLACK \<Longrightarrow>
     repairs (rb_insert_case1 node path) node path"
  "red_node node n \<Longrightarrow> fits (p # path) n BLACK \<Longrightarrow>
     repairs (rb_insert_case2 node p path) node (p # path)"
  "red_node node n \<Longrightarrow> fits (p # path) n BLACK \<Longrightarrow> frame_color p = RED \<Longrightarrow>
     repairs (rb_insert_case3 node p path) node (p # path)"
proof (induction node path and node p path and node p path arbitrary: n and n and n
    rule: rb_insert_case1_rb_insert_case2_rb_insert_case3.induct)
  case (1 node)
  then show ?case
    by (cases node) (auto simp: repairs_def red_node_def rb_ok_def intro!: exI [of _ "Suc n"])
next
  case (2 node p path)
  then show ?case by simp
next
  case (3 node p path)
  show ?case
  proof (cases "frame_color p = RED")
    case True
    with 3 show ?thesis by simp
  next
    case False
    then have "rb_ok (root_of (attach node p) path)"
      using "3.prems" by (intro fits_rb_ok [of _ "Suc n"])
        (auto simp: attach_balanced attach_red_ok red_node_def)
    with False show ?thesis by (auto simp: repairs_def)
  qed
next
  case (4 node p)
  then show ?case by simp
next
  case (5 node p g path)
  have pg: "frame_color g = BLACK" "balanced (sibling g) n" "red_ok (sibling g)"
    "balanced (sibling p) n" "red_ok (sibling p)" "color_of (sibling p) = BLACK"
    "fits path (Suc n) BLACK"
    using "5.prems" by auto
  show ?case
  proof (cases "color_of (sibling g) = RED")
    case True
    then obtain l x r where u: "sibling g = Node RED l x r" by (cases "sibling g") auto
    let ?g = "attach (attach node (set_frame_color BLACK p))
        (set_frame_color RED (set_sibling (set_color BLACK (sibling g)) g))"
    have "red_node ?g (Suc n)"
      using "5.prems" pg u
      by (cases g) (auto simp: red_node_def attach_balanced attach_red_ok)
    with "5.IH" [of "sibling g" "Suc n"] pg(7) u
    have "repairs (rb_insert_case1 ?g path) ?g path" by simp
    moreover have "inorder ?g = inorder (attach (attach node p) g)"
      using u by (cases p; cases g) auto
    ultimately show ?thesis
      using u by (simp add: repairs_def inorder_root_of Let_def)
  next
    case False
    with pg "5.prems" case4_repairs [of node n p g path] show ?thesis by (simp add: Let_def)
  qed
qed

section \<open>The order of the keys\<close>

text \<open>
  What the tree relies on in a comparison function: it is a total preorder. Keys that compare equal
  are one key.
\<close>

locale key_order =
  fixes cmp :: "'k \<Rightarrow> 'k \<Rightarrow> int"
  assumes cmp_refl: "cmp a a = 0"
    and cmp_flip: "cmp a b < 0 \<longleftrightarrow> 0 < cmp b a"
    and cmp_trans: "cmp a b \<le> 0 \<Longrightarrow> cmp b c \<le> 0 \<Longrightarrow> cmp a c \<le> 0"

definition ordered :: "('k \<Rightarrow> 'k \<Rightarrow> int) \<Rightarrow> ('k, 'v) cell list \<Rightarrow> bool" where
  "ordered cmp xs = sorted_wrt (\<lambda>x y. cmp (key x) (key y) < 0) xs"

definition tree_ok :: "('k \<Rightarrow> 'k \<Rightarrow> int) \<Rightarrow> ('k, 'v) wmem_tree \<Rightarrow> bool" where
  "tree_ok cmp t \<longleftrightarrow> rb_ok t \<and> ordered cmp (inorder t)"

text \<open>The map a tree stands for, and putting a cell into the sorted list of cells.\<close>

definition cell_at :: "('k \<Rightarrow> 'k \<Rightarrow> int) \<Rightarrow> 'k \<Rightarrow> ('k, 'v) cell list \<Rightarrow> ('k, 'v) cell option" where
  "cell_at cmp k xs = find (\<lambda>x. cmp k (key x) = 0) xs"

definition put :: "('k \<Rightarrow> 'k \<Rightarrow> int) \<Rightarrow> 'k \<Rightarrow> ('k, 'v) cell \<Rightarrow> ('k, 'v) cell list \<Rightarrow> ('k, 'v) cell list" where
  "put cmp k x xs = filter (\<lambda>y. cmp k (key y) > 0) xs @ x # filter (\<lambda>y. cmp k (key y) < 0) xs"

lemma walk_root_of: "walk f t path = (s, path') \<Longrightarrow> root_of s path' = root_of t path"
  by (induction f t path rule: walk.induct) (auto simp: Let_def split: if_splits)

lemma walk_found: "walk f t path = (Node c l x r, path') \<Longrightarrow> f (key x) = 0"
  by (induction f t path rule: walk.induct) (auto simp: Let_def split: if_splits)

lemma walk_fits:
  "walk f t path = (s, path') \<Longrightarrow> fits path n (color_of t) \<Longrightarrow> balanced t n \<Longrightarrow> red_ok t \<Longrightarrow>
   \<exists>n'. fits path' n' (color_of s) \<and> balanced s n' \<and> red_ok s"
proof (induction f t path arbitrary: n rule: walk.induct)
  case (2 f c l x r path)
  let ?m = "if c = RED then n else n - 1"
  have sub: "balanced l ?m" "balanced r ?m" "red_ok l" "red_ok r"
    "fits (LeftOf c x r # path) ?m (color_of l)" "fits (RightOf c l x # path) ?m (color_of r)"
    using "2.prems"(2-4) by (auto split: if_splits)
  consider "f (key x) = 0" | "f (key x) < 0" | "f (key x) > 0" by linarith
  then show ?case
  proof cases
    case 1
    with "2.prems" show ?thesis by auto
  next
    case 2
    with "2.IH"(1) [OF refl _ _ _ sub(5,1,3)] "2.prems"(1) show ?thesis by simp
  next
    case 3
    with "2.IH"(2) [OF refl _ _ _ sub(6,2,4)] "2.prems"(1) show ?thesis by simp
  qed
qed auto

context key_order
begin

lemma cmp_flip0: "cmp a b = 0 \<longleftrightarrow> cmp b a = 0"
  using cmp_flip [of a b] cmp_flip [of b a] by linarith

lemma cmp_trans_less: "cmp a b < 0 \<Longrightarrow> cmp b c \<le> 0 \<Longrightarrow> cmp a c < 0"
  using cmp_trans [of a b c] cmp_trans [of b c a] cmp_flip [of a b] cmp_flip [of a c]
    cmp_flip [of c a]
  by linarith

lemma cmp_trans_less': "cmp a b \<le> 0 \<Longrightarrow> cmp b c < 0 \<Longrightarrow> cmp a c < 0"
  using cmp_trans [of a b c] cmp_trans [of c a b] cmp_flip [of b c] cmp_flip [of a c]
    cmp_flip [of c a]
  by linarith

lemma cmp_cong: "cmp a b = 0 \<Longrightarrow> cmp a c < 0 \<longleftrightarrow> cmp b c < 0"
  using cmp_trans_less' [of a b c] cmp_trans_less' [of b a c] cmp_flip0 [of a b] by auto

lemma cmp_cong_right: "cmp b c = 0 \<Longrightarrow> cmp a b < 0 \<longleftrightarrow> cmp a c < 0"
  using cmp_trans_less [of a b c] cmp_trans_less [of a c b] cmp_flip0 [of b c] by auto

lemma cmp_cong0: "cmp a b = 0 \<Longrightarrow> cmp a c = 0 \<longleftrightarrow> cmp b c = 0"
  using cmp_cong [of a b c] cmp_cong_right [of a b c] cmp_flip [of a c] cmp_flip [of b c]
    cmp_flip [of c a] cmp_flip [of c b] cmp_cong_right [of a b c]
  by linarith

lemma walk_sides:
  assumes "walk (cmp k) t path = (s, path')"
    and "ordered cmp (before path @ inorder t @ after path)"
    and "\<forall>y \<in> set (before path). cmp k (key y) > 0" "\<forall>y \<in> set (after path). cmp k (key y) < 0"
  shows "(\<forall>y \<in> set (before path'). cmp k (key y) > 0) \<and> (\<forall>y \<in> set (after path'). cmp k (key y) < 0)"
  using assms
proof (induction "cmp k" t path rule: walk.induct)
  case (2 c l x r path)
  consider "cmp k (key x) = 0" | "cmp k (key x) < 0" | "cmp k (key x) > 0" by linarith
  then show ?case
  proof cases
    case 1
    with "2.prems" show ?thesis by auto
  next
    case 2
    have "\<forall>y \<in> set (inorder r). cmp k (key y) < 0"
    proof
      fix y
      assume "y \<in> set (inorder r)"
      then have "cmp (key x) (key y) < 0"
        using "2.prems"(2) by (auto simp: ordered_def sorted_wrt_append)
      then show "cmp k (key y) < 0" using 2 cmp_trans_less [of k "key x" "key y"] by simp
    qed
    with 2 "2.hyps"(1) "2.prems" show ?thesis by (auto simp: Let_def)
  next
    case 3
    have "\<forall>y \<in> set (inorder l). cmp k (key y) > 0"
    proof
      fix y
      assume "y \<in> set (inorder l)"
      then have less: "cmp (key y) (key x) < 0"
        using "2.prems"(2) by (auto simp: ordered_def sorted_wrt_append)
      have "cmp (key x) k < 0" using 3 cmp_flip by blast
      from cmp_trans_less [OF less less_imp_le [OF this]] show "cmp k (key y) > 0"
        by (simp only: cmp_flip [symmetric])
    qed
    with 3 "2.hyps"(2) "2.prems" show ?thesis by (auto simp: Let_def)
  qed
qed auto

lemma filter_sides:
  "\<forall>y \<in> set a. cmp k (key y) > 0 \<Longrightarrow> \<forall>y \<in> set b. cmp k (key y) < 0 \<Longrightarrow>
   \<forall>y \<in> set m. cmp k (key y) = 0 \<Longrightarrow> put cmp k x (a @ m @ b) = a @ x # b"
  by (induction a) (auto simp: put_def filter_empty_conv filter_id_conv)

lemma ordered_put:
  assumes "ordered cmp xs" "cmp k (key x) = 0"
  shows "ordered cmp (put cmp k x xs)"
proof -
  have "cmp (key y) (key x) < 0" if "cmp k (key y) > 0" for y
    using that assms(2) cmp_flip [of "key y" k] cmp_cong_right by blast
  moreover have "cmp (key x) (key y) < 0" if "cmp k (key y) < 0" for y
    using that assms(2) cmp_cong by blast
  moreover have "cmp (key y) (key z) < 0" if "cmp k (key y) > 0" "cmp k (key z) < 0" for y z
    using that cmp_flip [of "key y" k] cmp_trans_less [of "key y" k "key z"] by simp
  ultimately show ?thesis
    using assms(1) by (auto simp: ordered_def put_def sorted_wrt_append sorted_wrt_filter)
qed

lemma find_filter:
  "(\<And>y. P y \<Longrightarrow> Q y) \<Longrightarrow> find P (filter Q xs) = find P xs"
  by (induction xs) auto

lemma find_append: "find P (xs @ ys) = (case find P xs of None \<Rightarrow> find P ys | Some x \<Rightarrow> Some x)"
  by (induction xs) auto

lemma cell_at_put:
  assumes "cmp k (key x) = 0"
  shows "cell_at cmp k' (put cmp k x xs) = (if cmp k' k = 0 then Some x else cell_at cmp k' xs)"
proof -
  have same: "cmp k' (key y) = 0 \<Longrightarrow> cmp k (key y) = 0 \<longleftrightarrow> cmp k' k = 0" for y
    using cmp_cong0 [of k' "key y" k] cmp_flip0 by metis
  have x: "cmp k' (key x) = 0 \<longleftrightarrow> cmp k' k = 0"
    using cmp_cong0 [of k "key x" k'] cmp_flip0 assms by metis
  consider "cmp k' k = 0" | "cmp k' k < 0" | "cmp k' k > 0" by linarith
  then show ?thesis
  proof cases
    case 1
    have "find (\<lambda>y. cmp k' (key y) = 0) (filter (\<lambda>y. cmp k (key y) > 0) xs) = None"
      using same 1 by (fastforce simp: find_None_iff)
    with 1 x show ?thesis by (simp add: cell_at_def put_def find_append)
  next
    case 2
    have q: "cmp k' (key y) = 0 \<Longrightarrow> cmp k (key y) > 0" for y
      using 2 cmp_cong_right [of k' "key y" k] cmp_flip [of "key y" k] cmp_cong [of k' "key y" k] by simp
    then have "find (\<lambda>y. cmp k' (key y) = 0) (filter (\<lambda>y. cmp k (key y) < 0) xs) = None"
      by (fastforce simp: find_None_iff)
    moreover have "find (\<lambda>y. cmp k' (key y) = 0) (filter (\<lambda>y. cmp k (key y) > 0) xs) =
        find (\<lambda>y. cmp k' (key y) = 0) xs"
      using q by (rule find_filter)
    ultimately show ?thesis
      using 2 x by (simp add: cell_at_def put_def find_append split: option.split)
  next
    case 3
    have q: "cmp k' (key y) = 0 \<Longrightarrow> cmp k (key y) < 0" for y
      using 3 cmp_flip [of k k'] cmp_cong_right [of k' "key y" k] by simp
    then have "find (\<lambda>y. cmp k' (key y) = 0) (filter (\<lambda>y. cmp k (key y) > 0) xs) = None"
      by (fastforce simp: find_None_iff)
    moreover have "find (\<lambda>y. cmp k' (key y) = 0) (filter (\<lambda>y. cmp k (key y) < 0) xs) =
        find (\<lambda>y. cmp k' (key y) = 0) xs"
      using q by (rule find_filter)
    ultimately show ?thesis
      using 3 x by (simp add: cell_at_def put_def find_append)
  qed
qed

end

text \<open>
  The two ways an insertion ends: the key is there and its cell is overwritten, or a red node is
  linked where the walk ended and the tree is repaired.
\<close>

context key_order
begin

lemma walk_ends:
  assumes "tree_ok cmp t" "walk (cmp k) t [] = (s, path)" "cmp k (key x) = 0"
  shows "s = Null \<Longrightarrow> put cmp k x (inorder t) = before path @ x # after path"
    and "s = Node c l y r \<Longrightarrow>
      put cmp k x (inorder t) = before path @ inorder l @ x # inorder r @ after path"
    and "\<exists>n. fits path n (color_of s) \<and> balanced s n \<and> red_ok s"
proof -
  have io: "inorder t = before path @ inorder s @ after path"
    using walk_root_of [OF assms(2)] inorder_root_of [of s path] by simp
  have ord: "ordered cmp (inorder t)" using assms(1) by (simp add: tree_ok_def)
  have sides: "\<forall>y \<in> set (before path). cmp k (key y) > 0" "\<forall>y \<in> set (after path). cmp k (key y) < 0"
    using walk_sides [OF assms(2)] ord by auto
  show "s = Null \<Longrightarrow> put cmp k x (inorder t) = before path @ x # after path"
    using filter_sides [OF sides, of "[]"] io by simp
  show "put cmp k x (inorder t) = before path @ inorder l @ x # inorder r @ after path"
    if s: "s = Node c l y r"
  proof -
    have y: "cmp k (key y) = 0" using walk_found assms(2) s by blast
    have less: "cmp (key z) (key y) < 0" if "z \<in> set (inorder l)" for z
      using ord that s unfolding io by (auto simp: ordered_def sorted_wrt_append)
    have more: "cmp (key y) (key z) < 0" if "z \<in> set (inorder r)" for z
      using ord that s unfolding io by (auto simp: ordered_def sorted_wrt_append)
    have "\<forall>z \<in> set (before path @ inorder l). cmp k (key z) > 0"
      using sides(1) less y cmp_flip [of _ k] cmp_flip0 [of k "key y"] cmp_cong_right [of k "key y"]
      by auto
    moreover have "\<forall>z \<in> set (inorder r @ after path). cmp k (key z) < 0"
      using sides(2) more y cmp_cong [of k "key y"] by auto
    ultimately have "put cmp k x ((before path @ inorder l) @ [y] @ inorder r @ after path) =
        (before path @ inorder l) @ x # inorder r @ after path"
      using y by (intro filter_sides) simp_all
    then show ?thesis using io s by simp
  qed
  show "\<exists>n. fits path n (color_of s) \<and> balanced s n \<and> red_ok s"
    using assms(1) walk_fits [OF assms(2)] by (auto simp: tree_ok_def rb_ok_def)
qed

lemma overwrite_ok:
  assumes "tree_ok cmp t" "walk (cmp k) t [] = (Node c l y r, path)" "cmp k (key x) = 0"
  shows "tree_ok cmp (root_of (Node c l x r) path) \<and>
    inorder (root_of (Node c l x r) path) = put cmp k x (inorder t)"
proof -
  obtain n where "fits path n c" "balanced (Node c l y r) n" "red_ok (Node c l y r)"
    using walk_ends(3) [OF assms] by auto
  then have "rb_ok (root_of (Node c l x r) path)"
    by (intro fits_rb_ok [of _ n]) simp_all
  then show ?thesis
    using walk_ends(2) [OF assms refl] ordered_put [OF _ assms(3), of "inorder t"] assms(1)
    by (simp add: tree_ok_def inorder_root_of)
qed

lemma link_ok:
  assumes "tree_ok cmp t" "walk (cmp k) t [] = (Null, path)" "cmp k (key x) = 0"
  shows "\<exists>t'. rb_insert_case1 (Node RED Null x Null) path = Some t' \<and> tree_ok cmp t' \<and>
    inorder t' = put cmp k x (inorder t)"
proof -
  have "fits path 0 BLACK" using walk_ends(3) [OF assms] by auto
  moreover have "red_node (Node RED Null x Null) 0" by (simp add: red_node_def)
  ultimately obtain t' where "rb_insert_case1 (Node RED Null x Null) path = Some t'" "rb_ok t'"
    "inorder t' = before path @ x # after path"
    using insert_case_repairs(1) [of "Node RED Null x Null" 0 path]
    by (auto simp: repairs_def inorder_root_of)
  then show ?thesis
    using walk_ends(1) [OF assms refl] ordered_put [OF _ assms(3), of "inorder t"] assms(1)
    by (simp add: tree_ok_def)
qed

lemma new_root_ok:
  "tree_ok cmp (Node BLACK Null x Null) \<and>
   inorder (Node BLACK Null x Null) = put cmp k x (inorder Null)"
  by (auto simp: tree_ok_def rb_ok_def ordered_def put_def intro: exI [of _ 1])

text \<open>Looking a key up in the tree is looking it up in the list of its cells.\<close>

lemma cell_at_None: "(\<And>y. y \<in> set xs \<Longrightarrow> cmp k (key y) \<noteq> 0) \<Longrightarrow> cell_at cmp k xs = None"
  by (auto simp: cell_at_def find_None_iff)

lemma cell_at_append:
  "cell_at cmp k (xs @ ys) =
     (case cell_at cmp k xs of None \<Rightarrow> cell_at cmp k ys | Some x \<Rightarrow> Some x)"
  by (simp add: cell_at_def find_append split: option.split)

lemma cell_at_Cons:
  "cell_at cmp k (x # ys) = (if cmp k (key x) = 0 then Some x else cell_at cmp k ys)"
  by (simp add: cell_at_def)

lemma cell_at_node:
  assumes "ordered cmp (xs @ x # ys)"
  shows "cell_at cmp k (xs @ x # ys) =
    (if cmp k (key x) = 0 then Some x
     else if cmp k (key x) < 0 then cell_at cmp k xs else cell_at cmp k ys)"
proof -
  have less: "cmp (key y) (key x) < 0" if "y \<in> set xs" for y
    using that assms by (auto simp: ordered_def sorted_wrt_append)
  have more: "cmp (key x) (key y) < 0" if "y \<in> set ys" for y
    using that assms by (auto simp: ordered_def sorted_wrt_append)
  have left: "cell_at cmp k xs = None" if ge: "\<not> cmp k (key x) < 0"
  proof (rule cell_at_None)
    fix y
    assume "y \<in> set xs"
    from less [OF this] ge show "cmp k (key y) \<noteq> 0" by (metis cmp_cong)
  qed
  have right: "cell_at cmp k ys = None" if le: "cmp k (key x) \<le> 0"
  proof (rule cell_at_None)
    fix y
    assume "y \<in> set ys"
    from cmp_trans_less' [OF le more [OF this]] show "cmp k (key y) \<noteq> 0" by simp
  qed
  show ?thesis
    using left right
    by (auto simp: cell_at_append cell_at_Cons split: option.split)
qed

lemma lookup_cell:
  assumes "ordered cmp (inorder t)"
  shows "wmem_tree_lookup cmp t k = Option.bind (cell_at cmp k (inorder t)) data"
  using assms
proof (induction t)
  case (Node c l x r)
  then have "ordered cmp (inorder l)" "ordered cmp (inorder r)"
    by (auto simp: ordered_def sorted_wrt_append)
  with Node show ?case by (simp add: cell_at_node Let_def)
qed (simp add: cell_at_def)

lemma insert_cells:
  assumes "tree_ok cmp t"
  shows "\<exists>t' x. wmem_tree_insert cmp t k d = Some t' \<and> tree_ok cmp t' \<and>
    inorder t' = put cmp k x (inorder t) \<and> data x = d \<and> cmp k (key x) = 0"
proof (cases t)
  case Null
  then show ?thesis
    using new_root_ok [of "Cell k d False False" k] cmp_refl
    by (intro exI [of _ "Node BLACK Null (Cell k d False False) Null"]
        exI [of _ "Cell k d False False"]) (simp add: wmem_tree_insert_def)
next
  case (Node c l x r)
  obtain s path where w: "walk (cmp k) t [] = (s, path)" by (cases "walk (cmp k) t []")
  have ins: "wmem_tree_insert cmp t k d =
      (case walk (cmp k) t [] of
         (Node c l x r, path) \<Rightarrow>
           Some (root_of (Node c l (Cell (key x) d (is_subtree x) (d = None)) r) path)
       | (Null, path) \<Rightarrow> rb_insert_case1 (Node RED Null (Cell k d False False) Null) path)"
    using Node by (simp only: wmem_tree_insert_def wmem_tree.case)
  show ?thesis
  proof (cases s)
    case Null
    have "cmp k (key (Cell k d False False)) = 0" using cmp_refl by simp
    with link_ok [OF assms w [unfolded Null] this] ins w Null show ?thesis
      by (intro exI [of _ "the (wmem_tree_insert cmp t k d)"] exI [of _ "Cell k d False False"]) auto
  next
    case (Node c' l' y r')
    let ?x = "Cell (key y) d (is_subtree y) (d = None)"
    have "cmp k (key ?x) = 0" using walk_found w Node by fastforce
    with overwrite_ok [OF assms w [unfolded Node] this] ins w Node show ?thesis
      by (intro exI [of _ "root_of (Node c' l' ?x r') path"] exI [of _ ?x]) simp
  qed
qed

lemma insert_lookup:
  assumes "tree_ok cmp t"
  shows "\<exists>t'. wmem_tree_insert cmp t k d = Some t' \<and> tree_ok cmp t' \<and>
    (\<forall>k'. wmem_tree_lookup cmp t' k' = (if cmp k' k = 0 then d else wmem_tree_lookup cmp t k'))"
proof -
  obtain t' x where t': "wmem_tree_insert cmp t k d = Some t'" "tree_ok cmp t'"
    "inorder t' = put cmp k x (inorder t)" "data x = d" "cmp k (key x) = 0"
    using insert_cells [OF assms] by blast
  then have "ordered cmp (inorder t')" "ordered cmp (inorder t)"
    using assms by (auto simp: tree_ok_def)
  with t' show ?thesis by (auto simp: lookup_cell cell_at_put)
qed

end

section \<open>Trees with 32-bit keys\<close>

interpretation u32: key_order compare32
  by unfold_locales (auto simp: compare32_def split: if_splits)

lemma compare32_simps [simp]:
  "compare32 a b = 0 \<longleftrightarrow> a = b" "compare32 a b < 0 \<longleftrightarrow> a < b" "0 < compare32 a b \<longleftrightarrow> b < a"
  by (auto simp: compare32_def)

lemma lookup32_lookup: "wmem_tree_lookup32 t k = wmem_tree_lookup compare32 t k"
  by (induction t k rule: wmem_tree_lookup32.induct) (simp_all add: Let_def)

text \<open>What finding or creating the node of a key does to the cells.\<close>

lemma lookup_or_insert32_cells:
  assumes "tree_ok compare32 t"
  shows "\<exists>t' x. lookup_or_insert32 t k d sub replace = Some (data x, t') \<and> tree_ok compare32 t' \<and>
    inorder t' = put compare32 k x (inorder t) \<and>
    (case cell_at compare32 k (inorder t) of
       None \<Rightarrow> x = Cell k d sub False
     | Some y \<Rightarrow> x = (if replace then set_data d y else y))"
proof (cases t)
  case Null
  then show ?thesis
    using u32.new_root_ok [of "Cell k d sub False" k]
    by (intro exI [of _ "Node BLACK Null (Cell k d sub False) Null"]
        exI [of _ "Cell k d sub False"]) (simp add: lookup_or_insert32_def cell_at_def)
next
  case (Node c l x r)
  obtain s path where w: "walk (compare32 k) t [] = (s, path)" by (cases "walk (compare32 k) t []")
  have ins: "lookup_or_insert32 t k d sub replace =
      (case walk (compare32 k) t [] of
         (Node c l x r, path) \<Rightarrow>
           let x' = (if replace then set_data d x else x)
           in Some (data x', root_of (Node c l x' r) path)
       | (Null, path) \<Rightarrow>
           map_option (Pair d) (rb_insert_case1 (Node RED Null (Cell k d sub False) Null) path))"
    using Node by (simp only: lookup_or_insert32_def wmem_tree.case)
  have io: "inorder t = before path @ inorder s @ after path"
    using walk_root_of [OF w] inorder_root_of [of s path] by simp
  have ord: "ordered compare32 (inorder t)" using assms by (simp add: tree_ok_def)
  have sides: "\<forall>y \<in> set (before path). key y < k" "\<forall>y \<in> set (after path). k < key y"
    using u32.walk_sides [OF w] ord by auto
  show ?thesis
  proof (cases s)
    case Null
    have "cell_at compare32 k (inorder t) = None"
      using sides Null by (intro u32.cell_at_None) (auto simp: io)
    with u32.link_ok [OF assms w [unfolded Null], of "Cell k d sub False"] ins w Null show ?thesis
      by (intro exI [of _ "snd (the (lookup_or_insert32 t k d sub replace))"]
          exI [of _ "Cell k d sub False"]) auto
  next
    case (Node c' l' y r')
    let ?x = "if replace then set_data d y else y"
    have ky: "k = key y" using walk_found w Node by fastforce
    then have kx: "compare32 k (key ?x) = 0" by (simp add: set_data_def)
    have "inorder t = (before path @ inorder l') @ y # inorder r' @ after path"
      using io Node by simp
    then have "cell_at compare32 k (inorder t) = Some y"
      using u32.cell_at_node [of "before path @ inorder l'" y "inorder r' @ after path" k] ord ky
      by simp
    with u32.overwrite_ok [OF assms w [unfolded Node] kx] ins w Node show ?thesis
      by (intro exI [of _ "root_of (Node c' l' ?x r') path"] exI [of _ ?x]) (simp add: Let_def)
  qed
qed

lemma insert32_cells:
  assumes "tree_ok compare32 t"
  shows "\<exists>t' x. wmem_tree_insert32 t k d = Some t' \<and> tree_ok compare32 t' \<and>
    inorder t' = put compare32 k x (inorder t) \<and> key x = k \<and> data x = d"
proof -
  obtain t' x where t': "lookup_or_insert32 t k d False True = Some (data x, t')"
    "tree_ok compare32 t'" "inorder t' = put compare32 k x (inorder t)"
    "case cell_at compare32 k (inorder t) of
       None \<Rightarrow> x = Cell k d False False | Some y \<Rightarrow> x = set_data d y"
    using lookup_or_insert32_cells [OF assms, of k d False True, unfolded if_True] by blast
  have "key y = k" if "cell_at compare32 k (inorder t) = Some y" for y
    using that by (auto simp: cell_at_def find_Some_iff)
  with t'(4) have "key x = k \<and> data x = d"
    by (auto simp: set_data_def split: option.splits)
  with t' show ?thesis by (auto simp: wmem_tree_insert32_def)
qed

text \<open>The greatest key that is not above the one looked for.\<close>

definition greatest_le :: "guint32 \<Rightarrow> (guint32, 'v) cell list \<Rightarrow> 'v option" where
  "greatest_le k xs =
     (let ys = filter (\<lambda>x. key x \<le> k) xs in if ys = [] then None else data (last ys))"

lemma greatest_le_at:
  "key x \<le> k \<Longrightarrow> \<forall>y \<in> set ys. k < key y \<Longrightarrow> greatest_le k (xs @ x # ys) = data x"
proof -
  assume "key x \<le> k" and "\<forall>y \<in> set ys. k < key y"
  then have "filter (\<lambda>y. key y \<le> k) ys = []" by (auto simp: filter_empty_conv)
  with \<open>key x \<le> k\<close> show ?thesis by (simp add: greatest_le_def)
qed

lemma walk_le_ends:
  "walk_le k t path = Some (x, path') \<Longrightarrow>
   \<exists>c l r. root_of (Node c l x r) path' = root_of t path \<and>
     (k = key x \<or> k < key x \<and> l = Null \<or> k > key x \<and> r = Null)"
proof (induction k t path rule: walk_le.induct)
  case (2 k c l y r path)
  show ?case
  proof (cases "k = key y \<or> k < key y \<and> l = Null \<or> k > key y \<and> r = Null")
    case True
    with "2.prems" show ?thesis
      by (intro exI [of _ c] exI [of _ l] exI [of _ r]) (auto split: if_splits)
  next
    case False
    with 2 show ?thesis by (cases "k < key y") auto
  qed
qed simp

lemma walk_le_sides:
  assumes "walk_le k t path = Some (x, path')" "ordered compare32 (before path @ inorder t @ after path)"
    and "\<forall>y \<in> set (before path). key y < k" "\<forall>y \<in> set (after path). k < key y"
  shows "(\<forall>y \<in> set (before path'). key y < k) \<and> (\<forall>y \<in> set (after path'). k < key y)"
  using assms
proof (induction k t path rule: walk_le.induct)
  case (2 k c l y r path)
  have ord: "\<forall>z \<in> set (inorder l). key z < key y" "\<forall>z \<in> set (inorder r). key y < key z"
    using "2.prems"(2) by (auto simp: ordered_def sorted_wrt_append)
  consider "k = key y \<or> k < key y \<and> l = Null \<or> k > key y \<and> r = Null"
    | "k \<noteq> key y" "k < key y" "l \<noteq> Null" | "k \<noteq> key y" "\<not> k < key y" "r \<noteq> Null"
    by force
  then show ?case
  proof cases
    case 1
    with "2.prems"(1) have "path' = path" by (auto split: if_splits)
    with "2.prems"(3,4) show ?thesis by simp
  next
    case 2
    have w: "walk_le k l (LeftOf c y r # path) = Some (x, path')" using 2 "2.prems"(1) by simp
    have "\<forall>z \<in> set (after (LeftOf c y r # path)). k < key z"
      using "2.prems"(4) ord(2) 2(2) less_trans by auto
    with "2.IH"(1) [OF 2 w] "2.prems"(2,3) show ?thesis by simp
  next
    case 3
    have w: "walk_le k r (RightOf c l y # path) = Some (x, path')" using 3 "2.prems"(1) by simp
    have "key y < k" using 3 by simp
    then have "\<forall>z \<in> set (before (RightOf c l y # path)). key z < k"
      using "2.prems"(3) ord(1) less_trans by auto
    with "2.IH"(2) [OF 3 w] "2.prems"(2,4) show ?thesis by simp
  qed
qed simp

lemma smaller_ancestor_before:
  "\<forall>y \<in> set (before path). key y < k \<Longrightarrow> \<forall>y \<in> set (after path). k < key y \<Longrightarrow> k < key x \<Longrightarrow>
   smaller_ancestor k x path = (if before path = [] then None else data (last (before path)))"
proof (induction path arbitrary: x)
  case (Cons f path)
  show ?case
  proof (cases f)
    case (LeftOf c y r)
    moreover have "\<not> key x < k" using Cons.prems(3) by simp
    ultimately show ?thesis using Cons by (simp add: smaller_ancestor.simps [of k x])
  next
    case (RightOf c l y)
    with Cons.prems have "key y < k" "\<not> key x < k" by auto
    with RightOf show ?thesis
      by (simp add: smaller_ancestor.simps [of k x] smaller_ancestor.simps [of k y])
  qed
qed (use less_asym in \<open>auto simp: smaller_ancestor.simps [of _ _ "[]"]\<close>)

lemma walk_le_Some: "t \<noteq> Null \<Longrightarrow> walk_le k t path \<noteq> None"
  by (induction k t path rule: walk_le.induct) auto

lemma lookup32_le_greatest:
  assumes "tree_ok compare32 t"
  shows "wmem_tree_lookup32_le t k = greatest_le k (inorder t)"
proof (cases "walk_le k t []")
  case None
  then have "t = Null" using walk_le_Some by blast
  then show ?thesis by (simp add: wmem_tree_lookup32_le_def greatest_le_def)
next
  case (Some r)
  then obtain x path where w: "walk_le k t [] = Some (x, path)" by (cases r) auto
  obtain c l r where eq: "root_of (Node c l x r) path = t"
    and x: "k = key x \<or> k < key x \<and> l = Null \<or> k > key x \<and> r = Null"
    using walk_le_ends [OF w] by auto
  have io: "inorder t = before path @ inorder l @ x # inorder r @ after path"
    using inorder_root_of [of "Node c l x r" path] by (simp add: eq)
  have ord: "ordered compare32 (inorder t)" using assms by (simp add: tree_ok_def)
  have sides: "\<forall>y \<in> set (before path). key y < k" "\<forall>y \<in> set (after path). k < key y"
    using walk_le_sides [OF w] ord by auto
  have lr: "\<forall>y \<in> set (inorder l). key y < key x" "\<forall>y \<in> set (inorder r). key x < key y"
    using ord unfolding io by (auto simp: ordered_def sorted_wrt_append)
  consider "k = key x" | "k < key x" "l = Null" | "key x < k" "r = Null" using x by blast
  then show ?thesis
  proof cases
    case 1
    then have "greatest_le k (inorder t) = data x"
      using greatest_le_at [of x k "inorder r @ after path" "before path @ inorder l"]
        lr(2) sides(2) by (auto simp: io)
    with 1 w show ?thesis by (simp add: wmem_tree_lookup32_le_def)
  next
    case 2
    have later: "\<forall>y \<in> set (x # inorder r @ after path). k < key y"
      using lr(2) sides(2) 2(1) less_trans by auto
    then have "filter (\<lambda>y. key y \<le> k) (x # inorder r @ after path) = []"
      unfolding filter_empty_conv by (meson leD)
    moreover have "filter (\<lambda>y. key y \<le> k) (before path) = before path"
      using sides(1) by (auto simp: filter_id_conv)
    ultimately have spec: "greatest_le k (inorder t) =
        (if before path = [] then None else data (last (before path)))"
      using 2(2) by (simp add: io greatest_le_def)
    have ne: "\<not> key x \<le> k" "k \<noteq> key x" "\<not> key x < k" using 2 by auto
    show ?thesis
    proof (cases path)
      case Nil
      with spec w ne show ?thesis by (simp add: wmem_tree_lookup32_le_def)
    next
      case (Cons f path')
      have "wmem_tree_lookup32_le t k =
          (if is_left f then smaller_ancestor k x path else data (frame_cell f))"
        using w Cons ne by (simp add: wmem_tree_lookup32_le_def)
      also have "\<dots> = (if before path = [] then None else data (last (before path)))"
        using smaller_ancestor_before [OF sides 2(1)] Cons by (cases f) simp_all
      finally show ?thesis using spec by simp
    qed
  next
    case 3
    then have "key x \<le> k" "k \<noteq> key x" by auto
    with 3 w greatest_le_at [of x k "after path" "before path @ inorder l"] sides(2) show ?thesis
      by (auto simp: io wmem_tree_lookup32_le_def split: list.split)
  qed
qed

lemma rb_ok_bound:
  assumes "balanced t n" "red_ok t"
  shows "2 ^ n \<le> Suc (length (inorder t))"
  using assms
proof (induction t arbitrary: n)
  case (Node c l x r)
  let ?m = "if c = RED then n else n - 1"
  have "2 ^ ?m \<le> Suc (length (inorder l))" "2 ^ ?m \<le> Suc (length (inorder r))"
    using Node.prems by (auto intro!: Node.IH split: if_splits)
  moreover have "(2 :: nat) ^ n \<le> 2 * 2 ^ ?m"
    using Node.prems(1) by (cases n) (auto split: if_splits)
  ultimately show ?case by simp
qed simp

text \<open>The number of nodes on the longest path from the root.\<close>

primrec depth :: "('k, 'v) wmem_tree \<Rightarrow> nat" where
  "depth Null = 0"
| "depth (Node c l x r) = Suc (max (depth l) (depth r))"

lemma depth_balanced:
  "balanced t n \<Longrightarrow> red_ok t \<Longrightarrow> depth t \<le> 2 * n + (if color_of t = RED then 1 else 0)"
proof (induction t arbitrary: n)
  case (Node c l x r)
  show ?case
  proof (cases "c = RED")
    case True
    with Node.prems Node.IH(1) [of n] Node.IH(2) [of n] show ?thesis by auto
  next
    case False
    with Node.prems have "balanced l (n - 1)" "balanced r (n - 1)" "red_ok l" "red_ok r" "0 < n"
      by auto
    with Node.IH(1) [of "n - 1"] Node.IH(2) [of "n - 1"] False show ?thesis
      by (auto split: if_splits)
  qed
qed simp

end
