(* ===== verification/WmemTreeOps.thy ===== *)
theory WmemTreeOps
  imports WmemTree
begin

text \<open>
  The rest of epan/wmem/wmem_tree.c on top of the red-black core: trees of trees keyed by arrays of
  integers, string keys, removal, and traversal.
\<close>

section \<open>String keys\<close>

definition WMEM_TREE_STRING_NOCASE :: guint32 where
  "WMEM_TREE_STRING_NOCASE = 1"

text \<open>glib's \<open>g_ascii_strcasecmp\<close> is a parameter.\<close>

definition string_cmp ::
    "(guint8 list \<Rightarrow> guint8 list \<Rightarrow> int) \<Rightarrow> guint32 \<Rightarrow> guint8 list \<Rightarrow> guint8 list \<Rightarrow> int" where
  "string_cmp g_ascii_strcasecmp flag_bits =
     (if flag_bits AND WMEM_TREE_STRING_NOCASE \<noteq> 0 then g_ascii_strcasecmp else strcmp)"

definition wmem_tree_insert_string ::
    "(guint8 list \<Rightarrow> guint8 list \<Rightarrow> int) \<Rightarrow> (guint8 list, 'v) wmem_tree \<Rightarrow> guint8 list \<Rightarrow>
      'v option \<Rightarrow> guint32 \<Rightarrow> (guint8 list, 'v) wmem_tree option"
where
  "wmem_tree_insert_string casecmp tree k v flag_bits =
     wmem_tree_insert (string_cmp casecmp flag_bits) tree k v"

definition wmem_tree_lookup_string ::
    "(guint8 list \<Rightarrow> guint8 list \<Rightarrow> int) \<Rightarrow> (guint8 list, 'v) wmem_tree \<Rightarrow> guint8 list \<Rightarrow>
      guint32 \<Rightarrow> 'v option"
where
  "wmem_tree_lookup_string casecmp tree k flag_bits =
     wmem_tree_lookup (string_cmp casecmp flag_bits) tree k"

definition wmem_tree_remove_string ::
    "(guint8 list \<Rightarrow> guint8 list \<Rightarrow> int) \<Rightarrow> (guint8 list, 'v) wmem_tree \<Rightarrow> guint8 list \<Rightarrow>
      guint32 \<Rightarrow> ('v option \<times> (guint8 list, 'v) wmem_tree) option"
where
  "wmem_tree_remove_string casecmp tree k flag_bits =
     (let ret = wmem_tree_lookup_string casecmp tree k flag_bits in
      if ret \<noteq> None then
        map_option (Pair ret) (wmem_tree_insert_string casecmp tree k None flag_bits)
      else Some (ret, tree))"

section \<open>Trees of trees\<close>

text \<open>What the data pointer of a node points at: the caller's data, or a tree when \<open>is_subtree\<close>.\<close>

datatype 'd target = Data 'd | SubTree "(guint32, 'd target) wmem_tree"

text \<open>
  An array of \<open>wmem_tree_key_t\<close>, each with a length and that many integers, ends at one of length 0.
\<close>

type_synonym wmem_tree_key_t = "guint32 list"

definition key_sequence :: "wmem_tree_key_t list \<Rightarrow> guint32 list" where
  "key_sequence ks = concat (takeWhile (\<lambda>k. k \<noteq> []) ks)"

text \<open>Writing through the pointer to the subtree of a key.\<close>

primrec store_at :: "guint32 \<Rightarrow> 'v option \<Rightarrow> (guint32, 'v) wmem_tree \<Rightarrow> (guint32, 'v) wmem_tree" where
  "store_at k d Null = Null"
| "store_at k d (Node c l x r) =
     Node c (store_at k d l) (if key x = k then set_data d x else x) (store_at k d r)"

text \<open>
  The loop of \<open>wmem_tree_insert32_array\<close>. When a node on the way holds NULL the code falls back to
  the outermost tree and skips a key: that ends here with the keys that are left.
\<close>

fun insert32_keys ::
    "(guint32, 'd target) wmem_tree \<Rightarrow> guint32 list \<Rightarrow> 'd option \<Rightarrow>
      (guint32 list + (guint32, 'd target) wmem_tree) option"
where
  "insert32_keys tree [] d = None"
| "insert32_keys tree [k] d = map_option Inr (wmem_tree_insert32 tree k (map_option Data d))"
| "insert32_keys tree (k # k' # ks) d =
     (case lookup_or_insert32 tree k (Some (SubTree wmem_tree_new)) True False of
        Some (Some (SubTree sub), tree') \<Rightarrow>
          (case insert32_keys sub (k' # ks) d of
             Some (Inr sub') \<Rightarrow> Some (Inr (store_at k (Some (SubTree sub')) tree'))
           | Some (Inl rest) \<Rightarrow> Some (Inl rest)
           | None \<Rightarrow> None)
      | Some (None, tree') \<Rightarrow> Some (Inl ks)
      | _ \<Rightarrow> None)"

lemma insert32_keys_rest: "insert32_keys tree ks d = Some (Inl rest) \<Longrightarrow> length rest < length ks"
  by (induction tree ks d rule: insert32_keys.induct)
    (fastforce split: option.splits prod.splits target.splits sum.splits)+

function insert32_array ::
    "(guint32, 'd target) wmem_tree \<Rightarrow> guint32 list \<Rightarrow> 'd option \<Rightarrow>
      (guint32, 'd target) wmem_tree option"
where
  "insert32_array tree ks d =
     (case insert32_keys tree ks d of
        None \<Rightarrow> None
      | Some (Inr tree') \<Rightarrow> Some tree'
      | Some (Inl rest) \<Rightarrow> insert32_array tree rest d)"
  by pat_completeness auto

termination insert32_array
  by (relation "measure (\<lambda>(tree, ks, d). length ks)") (auto dest: insert32_keys_rest)

declare insert32_array.simps [simp del]

definition wmem_tree_insert32_array ::
    "(guint32, 'd target) wmem_tree \<Rightarrow> wmem_tree_key_t list \<Rightarrow> 'd option \<Rightarrow>
      (guint32, 'd target) wmem_tree option"
where
  "wmem_tree_insert32_array tree ks d = insert32_array tree (key_sequence ks) d"

text \<open>The outer \<open>None\<close> is a failed assertion, or data used as a tree.\<close>

fun wmem_tree_lookup32_array_helper ::
    "((guint32, 'd target) wmem_tree \<Rightarrow> guint32 \<Rightarrow> 'd target option) \<Rightarrow>
      (guint32, 'd target) wmem_tree \<Rightarrow> guint32 list \<Rightarrow> 'd target option option"
where
  "wmem_tree_lookup32_array_helper helper tree [] = None"
| "wmem_tree_lookup32_array_helper helper tree [k] = Some (helper tree k)"
| "wmem_tree_lookup32_array_helper helper tree (k # k' # ks) =
     (case helper tree k of
        None \<Rightarrow> Some None
      | Some (SubTree sub) \<Rightarrow> wmem_tree_lookup32_array_helper helper sub (k' # ks)
      | Some (Data d) \<Rightarrow> None)"

definition wmem_tree_lookup32_array ::
    "(guint32, 'd target) wmem_tree \<Rightarrow> wmem_tree_key_t list \<Rightarrow> 'd target option option" where
  "wmem_tree_lookup32_array tree ks =
     wmem_tree_lookup32_array_helper wmem_tree_lookup32 tree (key_sequence ks)"

definition wmem_tree_lookup32_array_le ::
    "(guint32, 'd target) wmem_tree \<Rightarrow> wmem_tree_key_t list \<Rightarrow> 'd target option option" where
  "wmem_tree_lookup32_array_le tree ks =
     wmem_tree_lookup32_array_helper wmem_tree_lookup32_le tree (key_sequence ks)"

section \<open>Traversal\<close>

text \<open>
  The callback gets the user data and returns it with the request to stop. A node marked as a
  subtree whose data is not a tree has no result.
\<close>

lemma size_subtree:
  "data x = Some (SubTree t) \<Longrightarrow>
   size_wmem_tree (\<lambda>_. 0) size t < size_wmem_tree (\<lambda>_. 0) size (Node c l x r)"
  by (cases x) auto

lemma size_children:
  "size_wmem_tree (\<lambda>_. 0) size l < size_wmem_tree (\<lambda>_. 0) size (Node c l x r)"
  "size_wmem_tree (\<lambda>_. 0) size r < size_wmem_tree (\<lambda>_. 0) size (Node c l x r)"
  by auto

function wmem_tree_foreach ::
    "(guint32 \<Rightarrow> 'd target option \<Rightarrow> 's \<Rightarrow> bool \<times> 's) \<Rightarrow> (guint32, 'd target) wmem_tree \<Rightarrow> 's \<Rightarrow>
      (bool \<times> 's) option"
where
  "wmem_tree_foreach callback Null s = Some (False, s)"
| "wmem_tree_foreach callback (Node c l x r) s =
     (case wmem_tree_foreach callback l s of
        None \<Rightarrow> None
      | Some (True, s1) \<Rightarrow> Some (True, s1)
      | Some (False, s1) \<Rightarrow>
          (case (if is_subtree x then
                   (case data x of
                      Some (SubTree t) \<Rightarrow> wmem_tree_foreach callback t s1
                    | _ \<Rightarrow> None)
                 else if \<not> is_removed x then Some (callback (key x) (data x) s1)
                 else Some (False, s1)) of
             None \<Rightarrow> None
           | Some (True, s2) \<Rightarrow> Some (True, s2)
           | Some (False, s2) \<Rightarrow> wmem_tree_foreach callback r s2))"
  by pat_completeness auto

termination wmem_tree_foreach
  by (relation "measure (\<lambda>(callback, t, s). size_wmem_tree (\<lambda>_. 0) size t)")
    (use size_subtree size_children in auto)

definition wmem_tree_count :: "(guint32, 'd target) wmem_tree \<Rightarrow> guint option" where
  "wmem_tree_count tree =
     map_option snd (wmem_tree_foreach (\<lambda>k d count. (False, count + 1)) tree 0)"

section \<open>The orders of the keys\<close>

interpretation str: key_order strcmp
  by unfold_locales (rule strcmp_refl strcmp_flip strcmp_trans; assumption)+

text \<open>A comparison that looks at an image of the keys, as one that ignores case does.\<close>

lemma key_order_image: "key_order cmp \<Longrightarrow> key_order (\<lambda>a b. cmp (f a) (f b))"
  unfolding key_order_def by blast

lemma string_cmp_order: "key_order casecmp \<Longrightarrow> key_order (string_cmp casecmp flag_bits)"
  using str.key_order_axioms by (simp add: string_cmp_def)

section \<open>Arrays of keys\<close>

text \<open>A tree for arrays of \<open>Suc n\<close> integers: \<open>n\<close> levels of subtrees.\<close>

primrec levels :: "nat \<Rightarrow> (guint32, 'd target) wmem_tree \<Rightarrow> bool" where
  "levels 0 t = tree_ok compare32 t"
| "levels (Suc n) t =
     (tree_ok compare32 t \<and>
      (\<forall>x \<in> set (inorder t). \<exists>sub. data x = Some (SubTree sub) \<and> levels n sub))"

lemma levels_tree_ok: "levels n t \<Longrightarrow> tree_ok compare32 t"
  by (cases n) auto

lemma levels_Null: "levels n Null"
  by (cases n) (auto simp: tree_ok_def rb_ok_def ordered_def)

lemma store_at_shape:
  "color_of (store_at k d t) = color_of t" "balanced (store_at k d t) n = balanced t n"
  "red_ok (store_at k d t) = red_ok t"
  "inorder (store_at k d t) = map (\<lambda>x. if key x = k then set_data d x else x) (inorder t)"
proof -
  show c: "color_of (store_at k d t) = color_of t" for t :: "(guint32, 'a) wmem_tree"
    by (cases t) auto
  show "balanced (store_at k d t) n = balanced t n" by (induction t arbitrary: n) auto
  show "red_ok (store_at k d t) = red_ok t" by (induction t) (auto simp: c)
  show "inorder (store_at k d t) = map (\<lambda>x. if key x = k then set_data d x else x) (inorder t)"
    by (induction t) auto
qed

lemma key_set_data [simp]: "key (set_data d x) = key x" "data (set_data d x) = d"
  by (simp_all add: set_data_def)

lemma ordered_map: "(\<And>x. key (f x) = key x) \<Longrightarrow> ordered cmp (map f xs) = ordered cmp xs"
  by (simp add: ordered_def sorted_wrt_map)

lemma cell_at_map:
  "(\<And>x. key (f x) = key x) \<Longrightarrow> cell_at cmp k (map f xs) = map_option f (cell_at cmp k xs)"
  by (induction xs) (auto simp: cell_at_def)

lemma store_at_ok: "tree_ok compare32 t \<Longrightarrow> tree_ok compare32 (store_at k d t)"
  by (simp add: tree_ok_def rb_ok_def store_at_shape ordered_map)

lemma lookup32_cell:
  "tree_ok compare32 t \<Longrightarrow> wmem_tree_lookup32 t k = Option.bind (cell_at compare32 k (inorder t)) data"
  by (simp add: lookup32_lookup u32.lookup_cell tree_ok_def)

lemma set_put: "set (put cmp k x xs) \<subseteq> insert x (set xs)"
  by (auto simp: put_def)

lemma cell_at_key: "cell_at compare32 k xs = Some y \<Longrightarrow> key y = k \<and> y \<in> set xs"
  by (auto simp: cell_at_def find_Some_iff)

text \<open>Finding or creating the subtree of a key, and storing the changed subtree back.\<close>

lemma subtree_step:
  assumes "levels (Suc n) t"
  shows "\<exists>sub t1. lookup_or_insert32 t k (Some (SubTree wmem_tree_new)) True False =
      Some (Some (SubTree sub), t1) \<and> levels n sub \<and>
    wmem_tree_lookup32 t k = (if cell_at compare32 k (inorder t) = None then None else Some (SubTree sub)) \<and>
    (cell_at compare32 k (inorder t) = None \<longrightarrow> sub = Null) \<and>
    (\<forall>sub'. levels n sub' \<longrightarrow>
      levels (Suc n) (store_at k (Some (SubTree sub')) t1) \<and>
      (\<forall>k'. wmem_tree_lookup32 (store_at k (Some (SubTree sub')) t1) k' =
        (if k' = k then Some (SubTree sub') else wmem_tree_lookup32 t k')))"
proof -
  have ok: "tree_ok compare32 t" using assms by simp
  obtain t1 x where ins: "lookup_or_insert32 t k (Some (SubTree wmem_tree_new)) True False = Some (data x, t1)"
    and t1: "tree_ok compare32 t1" "inorder t1 = put compare32 k x (inorder t)"
    and x: "case cell_at compare32 k (inorder t) of
        None \<Rightarrow> x = Cell k (Some (SubTree wmem_tree_new)) True False | Some y \<Rightarrow> x = y"
    using lookup_or_insert32_cells [OF ok, of k "Some (SubTree wmem_tree_new)" True False, unfolded if_False]
    by blast
  have kx: "key x = k" using x cell_at_key by (fastforce split: option.splits)
  obtain sub where sub: "data x = Some (SubTree sub)" "levels n sub"
    "cell_at compare32 k (inorder t) = None \<longrightarrow> sub = Null"
    using x assms cell_at_key levels_Null by (fastforce simp: wmem_tree_new_def split: option.splits)
  have store: "levels (Suc n) (store_at k (Some (SubTree sub')) t1) \<and>
      (\<forall>k'. wmem_tree_lookup32 (store_at k (Some (SubTree sub')) t1) k' =
        (if k' = k then Some (SubTree sub') else wmem_tree_lookup32 t k'))"
    if "levels n sub'" for sub'
  proof
    have "\<exists>s. data y = Some (SubTree s) \<and> levels n s" if "y \<in> set (inorder t1)" for y
      using that t1(2) set_put [of compare32 k x "inorder t"] sub assms by auto
    then show "levels (Suc n) (store_at k (Some (SubTree sub')) t1)"
      using store_at_ok [OF t1(1)] \<open>levels n sub'\<close> by (auto simp: store_at_shape)
    show "\<forall>k'. wmem_tree_lookup32 (store_at k (Some (SubTree sub')) t1) k' =
        (if k' = k then Some (SubTree sub') else wmem_tree_lookup32 t k')"
    proof
      fix k'
      have "cell_at compare32 k' (inorder t1) =
          (if k' = k then Some x else cell_at compare32 k' (inorder t))"
        using u32.cell_at_put [of k x k' "inorder t"] kx t1(2) by auto
      then have "wmem_tree_lookup32 (store_at k (Some (SubTree sub')) t1) k' =
          Option.bind (map_option (\<lambda>x. if key x = k then set_data (Some (SubTree sub')) x else x)
            (if k' = k then Some x else cell_at compare32 k' (inorder t))) data"
        by (simp add: lookup32_cell [OF store_at_ok [OF t1(1)]] store_at_shape cell_at_map)
      then show "wmem_tree_lookup32 (store_at k (Some (SubTree sub')) t1) k' =
          (if k' = k then Some (SubTree sub') else wmem_tree_lookup32 t k')"
        using kx by (cases "cell_at compare32 k' (inorder t)")
          (auto simp: lookup32_cell [OF ok] dest: cell_at_key)
    qed
  qed
  have "wmem_tree_lookup32 t k =
      (if cell_at compare32 k (inorder t) = None then None else Some (SubTree sub))"
    using x sub(1) by (auto simp: lookup32_cell [OF ok] split: option.splits)
  with ins sub store show ?thesis by auto
qed

lemma helper_Null:
  "ks \<noteq> [] \<Longrightarrow> wmem_tree_lookup32_array_helper wmem_tree_lookup32 Null ks = Some None"
  by (induction "wmem_tree_lookup32 :: (guint32, 'd target) wmem_tree \<Rightarrow> guint32 \<Rightarrow> 'd target option"
      "Null :: (guint32, 'd target) wmem_tree" ks rule: wmem_tree_lookup32_array_helper.induct) auto

lemma insert32_keys_correct:
  "levels n t \<Longrightarrow> length ks = Suc n \<Longrightarrow>
   \<exists>t'. insert32_keys t ks d = Some (Inr t') \<and> levels n t' \<and>
     (\<forall>ks'. length ks' = Suc n \<longrightarrow>
        wmem_tree_lookup32_array_helper wmem_tree_lookup32 t' ks' =
          (if ks' = ks then Some (map_option Data d)
           else wmem_tree_lookup32_array_helper wmem_tree_lookup32 t ks'))"
proof (induction n arbitrary: t ks)
  case 0
  then obtain k where ks: "ks = [k]" by (cases ks) auto
  have ok: "tree_ok compare32 t" using "0.prems" by simp
  obtain t' x where t': "wmem_tree_insert32 t k (map_option Data d) = Some t'" "tree_ok compare32 t'"
    "inorder t' = put compare32 k x (inorder t)" "key x = k" "data x = map_option Data d"
    using insert32_cells [OF ok] by blast
  have "wmem_tree_lookup32 t' k' = (if k' = k then map_option Data d else wmem_tree_lookup32 t k')" for k'
    using lookup32_cell [OF t'(2)] lookup32_cell [OF ok] u32.cell_at_put [of k x k' "inorder t"] t'
    by auto
  with t' ks show ?case by (auto simp: length_Suc_conv split: if_splits)
next
  case (Suc n)
  then obtain k k1 ks1 where ks: "ks = k # k1 # ks1" by (cases ks; cases "tl ks") auto
  obtain sub t1 where step: "lookup_or_insert32 t k (Some (SubTree wmem_tree_new)) True False =
      Some (Some (SubTree sub), t1)" "levels n sub"
    "wmem_tree_lookup32 t k = (if cell_at compare32 k (inorder t) = None then None else Some (SubTree sub))"
    "cell_at compare32 k (inorder t) = None \<longrightarrow> sub = Null"
    and store: "\<And>sub'. levels n sub' \<Longrightarrow>
      levels (Suc n) (store_at k (Some (SubTree sub')) t1) \<and>
      (\<forall>k'. wmem_tree_lookup32 (store_at k (Some (SubTree sub')) t1) k' =
        (if k' = k then Some (SubTree sub') else wmem_tree_lookup32 t k'))"
    using subtree_step [OF Suc.prems(1), of k] by metis
  obtain sub' where sub': "insert32_keys sub (k1 # ks1) d = Some (Inr sub')" "levels n sub'"
    and look: "\<And>ks'. length ks' = Suc n \<Longrightarrow>
      wmem_tree_lookup32_array_helper wmem_tree_lookup32 sub' ks' =
        (if ks' = k1 # ks1 then Some (map_option Data d)
         else wmem_tree_lookup32_array_helper wmem_tree_lookup32 sub ks')"
    using Suc.IH [OF step(2), of "k1 # ks1"] Suc.prems(2) ks by auto
  let ?t' = "store_at k (Some (SubTree sub')) t1"
  have "wmem_tree_lookup32_array_helper wmem_tree_lookup32 ?t' ks' =
      (if ks' = ks then Some (map_option Data d)
       else wmem_tree_lookup32_array_helper wmem_tree_lookup32 t ks')"
    if len: "length ks' = Suc (Suc n)" for ks'
  proof -
    obtain j j1 js where ks': "ks' = j # j1 # js" using len by (cases ks'; cases "tl ks'") auto
    show ?thesis
      using store [OF sub'(2)] look [of "j1 # js"] len ks ks' step(3,4) helper_Null [of "j1 # js"]
      by (auto split: if_splits)
  qed
  with step(1) sub' store ks show ?case by auto
qed

section \<open>What a traversal visits\<close>

text \<open>
  The entries in the order of their keys, those of a subtree in the place of its node; none where a
  node marked as a subtree holds no tree.
\<close>

function entries ::
    "(guint32, 'd target) wmem_tree \<Rightarrow> (guint32 \<times> 'd target option) list option" where
  "entries Null = Some []"
| "entries (Node c l x r) =
     Option.bind (entries l) (\<lambda>a.
       Option.bind
         (if is_subtree x then
            (case data x of Some (SubTree t) \<Rightarrow> entries t | _ \<Rightarrow> None)
          else if \<not> is_removed x then Some [(key x, data x)]
          else Some [])
         (\<lambda>b. Option.bind (entries r) (\<lambda>e. Some (a @ b @ e))))"
  by pat_completeness auto

termination entries
  by (relation "measure (size_wmem_tree (\<lambda>_. 0) size)") (use size_subtree size_children in auto)

fun visit :: "('k \<Rightarrow> 'd \<Rightarrow> 's \<Rightarrow> bool \<times> 's) \<Rightarrow> ('k \<times> 'd) list \<Rightarrow> 's \<Rightarrow> bool \<times> 's" where
  "visit callback [] s = (False, s)"
| "visit callback ((k, d) # es) s =
     (case callback k d s of (True, s') \<Rightarrow> (True, s') | (False, s') \<Rightarrow> visit callback es s')"

lemma visit_append:
  "visit callback (es @ fs) s =
     (case visit callback es s of (True, s') \<Rightarrow> (True, s') | (False, s') \<Rightarrow> visit callback fs s')"
  by (induction callback es s rule: visit.induct) (auto split: prod.split bool.split)

lemma foreach_visits:
  "entries t = Some es \<Longrightarrow> wmem_tree_foreach callback t s = Some (visit callback es s)"
proof (induction t arbitrary: es s rule: entries.induct)
  case (2 c l x r)
  let ?here = "if is_subtree x then
      (case data x of Some (SubTree t) \<Rightarrow> entries t | _ \<Rightarrow> None)
    else if \<not> is_removed x then Some [(key x, data x)] else Some []"
  obtain a b e where parts: "entries l = Some a" "?here = Some b" "entries r = Some e" "es = a @ b @ e"
    using "2.prems" by (auto simp: bind_eq_Some_conv)
  have here: "(if is_subtree x then
        (case data x of Some (SubTree t) \<Rightarrow> wmem_tree_foreach callback t s' | _ \<Rightarrow> None)
      else if \<not> is_removed x then Some (callback (key x) (data x) s') else Some (False, s')) =
      Some (visit callback b s')" for s'
    using parts(1,2) "2.IH"(2)
    by (auto split: option.splits target.splits if_splits prod.split bool.split)
  show ?case
    using "2.IH"(1) [OF parts(1)] "2.IH"(3) [OF _ _ parts(3)] parts here
    by (auto simp: visit_append split: prod.split bool.split)
qed simp

text \<open>A tree without subtrees.\<close>

definition flat :: "('k, 'v) wmem_tree \<Rightarrow> bool" where
  "flat t \<longleftrightarrow> (\<forall>x \<in> set (inorder t). \<not> is_subtree x)"

lemma flat_entries:
  "flat t \<Longrightarrow>
   entries t = Some (map (\<lambda>x. (key x, data x)) (filter (\<lambda>x. \<not> is_removed x) (inorder t)))"
  by (induction t rule: entries.induct) (auto simp: flat_def)

lemma visit_count:
  "visit (\<lambda>k d count. (False, count + 1)) es (n :: guint) = (False, n + of_nat (length es))"
  by (induction es arbitrary: n) (auto simp: algebra_simps)

lemma count_entries: "entries t = Some es \<Longrightarrow> wmem_tree_count t = Some (of_nat (length es))"
  by (simp add: wmem_tree_count_def foreach_visits visit_count)

lemma put_overwrite:
  assumes "ordered compare32 xs" "cell_at compare32 k xs = Some y"
  shows "\<exists>a b. xs = a @ y # b \<and> put compare32 k x xs = a @ x # b"
proof -
  have y: "key y = k" "y \<in> set xs" using cell_at_key assms(2) by auto
  obtain a b where xs: "xs = a @ y # b" using split_list y(2) by metis
  have "put compare32 k x (a @ [y] @ b) = a @ x # b"
    using assms(1) y(1) xs by (intro u32.filter_sides) (auto simp: ordered_def sorted_wrt_append)
  with xs show ?thesis by auto
qed

section \<open>Properties\<close>

text \<open>A tree with three integer keys, built by the code.\<close>

definition sample_tree :: "(guint32, nat) wmem_tree" where
  "sample_tree = Node BLACK (Node RED Null (Cell 3 (Some 30) False False) Null)
     (Cell 5 (Some 50) False False) (Node RED Null (Cell 9 (Some 90) False False) Null)"

lemma sample_tree_ok: "tree_ok compare32 sample_tree"
  by (auto simp: sample_tree_def tree_ok_def rb_ok_def ordered_def intro: exI [of _ 1])

text \<open>
  C31. \<open>wmem_tree_insert32\<close> never follows a NULL pointer, keeps the search order and the red-black
  invariant through every rotation, and makes exactly the given key map to the given data.
\<close>

theorem wmem_tree_insert32_correct:
  assumes "tree_ok compare32 tree"
  shows "\<exists>tree'. wmem_tree_insert32 tree k d = Some tree' \<and> tree_ok compare32 tree' \<and>
    (\<forall>k'. wmem_tree_lookup32 tree' k' = (if k' = k then d else wmem_tree_lookup32 tree k'))"
proof -
  obtain t' x where t': "wmem_tree_insert32 tree k d = Some t'" "tree_ok compare32 t'"
    "inorder t' = put compare32 k x (inorder tree)" "key x = k" "data x = d"
    using insert32_cells [OF assms] by blast
  have "wmem_tree_lookup32 t' k' = (if k' = k then d else wmem_tree_lookup32 tree k')" for k'
    using lookup32_cell [OF t'(2)] lookup32_cell [OF assms] t'(4,5)
      u32.cell_at_put [of k x k' "inorder tree"]
    by (auto simp: t'(3))
  with t' show ?thesis by blast
qed

theorem wmem_tree_insert32_correct_witness:
  "\<exists>tree'. wmem_tree_insert32 sample_tree 4 (Some 40) = Some tree' \<and>
     wmem_tree_lookup32 tree' 4 = Some 40 \<and> wmem_tree_lookup32 tree' 9 = Some 90"
  using wmem_tree_insert32_correct [OF sample_tree_ok, of 4 "Some 40"]
  by (fastforce simp: sample_tree_def)

text \<open>
  C32. The tree stays shallow: with \<open>n\<close> nodes a path from the root has at most \<open>2 * log 2 (n + 1)\<close> nodes,
  that is, two to the length of the longest path is at most the square of \<open>n + 1\<close>. This bounds the loops
  of every lookup and insertion.
\<close>

theorem wmem_tree_depth_bound:
  assumes "tree_ok cmp tree" "wmem_tree_insert cmp tree k d = Some tree'" "key_order cmp"
  shows "2 ^ depth tree' \<le> (length (inorder tree') + 1) ^ 2"
proof -
  have "tree_ok cmp tree'" using key_order.insert_lookup [OF assms(3,1), of k d] assms(2) by auto
  then obtain n where t': "balanced tree' n" "red_ok tree'" "color_of tree' = BLACK"
    by (auto simp: tree_ok_def rb_ok_def)
  then have "depth tree' \<le> n * 2" using depth_balanced [OF t'(1,2)] by simp
  then have "(2 :: nat) ^ depth tree' \<le> (2 ^ n) ^ 2"
    unfolding power_mult [symmetric] by (intro power_increasing) simp_all
  also have "\<dots> \<le> (length (inorder tree') + 1) ^ 2"
    using rb_ok_bound [OF t'(1,2)] by (intro power_mono) simp_all
  finally show ?thesis .
qed

theorem wmem_tree_depth_bound_witness:
  "2 ^ depth (the (wmem_tree_insert compare32 sample_tree 4 (Some 40))) \<le> (25 :: nat)"
proof -
  have ins: "wmem_tree_insert compare32 sample_tree 4 (Some 40) =
      Some (Node BLACK (Node BLACK Null (Cell 3 (Some 30) False False)
             (Node RED Null (Cell 4 (Some 40) False False) Null))
           (Cell 5 (Some 50) False False)
           (Node BLACK Null (Cell 9 (Some 90) False False) Null))"
    by (simp add: wmem_tree_insert_def sample_tree_def compare32_def)
  show ?thesis
    using wmem_tree_depth_bound [OF sample_tree_ok ins u32.key_order_axioms] by (simp add: ins)
qed

text \<open>
  \<open>wmem_tree_lookup32_le\<close>, with its walk down, its walk back up the parents and its special cases
  for the root and for left and right children, returns the data of the greatest key that is not
  above the one looked for, and NULL when there is none.
\<close>

theorem wmem_tree_lookup32_le_correct:
  assumes "tree_ok compare32 tree"
  shows "wmem_tree_lookup32_le tree k = greatest_le k (inorder tree)"
  by (rule lookup32_le_greatest [OF assms])

theorem wmem_tree_lookup32_le_correct_witness:
  "wmem_tree_lookup32_le sample_tree 8 = Some 50"
  using wmem_tree_lookup32_le_correct [OF sample_tree_ok, of 8]
  by (simp add: greatest_le_def sample_tree_def)

text \<open>
  Trees with string keys: with the comparison the flags select, where a case-insensitive one is
  any total preorder, inserting a string makes exactly the strings equal to it map to the data,
  and keeps the tree ordered and balanced.
\<close>

theorem wmem_tree_insert_string_correct:
  assumes "key_order casecmp" "tree_ok (string_cmp casecmp flag_bits) tree"
  shows "\<exists>tree'. wmem_tree_insert_string casecmp tree k d flag_bits = Some tree' \<and>
    tree_ok (string_cmp casecmp flag_bits) tree' \<and>
    (\<forall>k'. wmem_tree_lookup_string casecmp tree' k' flag_bits =
      (if string_cmp casecmp flag_bits k' k = 0 then d
       else wmem_tree_lookup_string casecmp tree k' flag_bits))"
  unfolding wmem_tree_insert_string_def wmem_tree_lookup_string_def
  by (rule key_order.insert_lookup [OF string_cmp_order [OF assms(1)] assms(2)])

theorem wmem_tree_insert_string_correct_witness:
  "\<exists>tree'. wmem_tree_insert_string (\<lambda>a b. strcmp (map (\<lambda>c. c OR 0x20) a) (map (\<lambda>c. c OR 0x20) b))
       (Node BLACK Null (Cell [0x42] (Some (1 :: nat)) False False) Null) [0x61] (Some 2) 1 = Some tree' \<and>
     wmem_tree_lookup_string (\<lambda>a b. strcmp (map (\<lambda>c. c OR 0x20) a) (map (\<lambda>c. c OR 0x20) b))
       tree' [0x41] 1 = Some 2"
proof -
  let ?cmp = "\<lambda>a b. strcmp (map (\<lambda>c. c OR 0x20) a) (map (\<lambda>c. c OR 0x20) b)"
  let ?t = "Node BLACK Null (Cell [0x42] (Some (1 :: nat)) False False) Null"
  have "key_order ?cmp" by (rule key_order_image [OF str.key_order_axioms])
  moreover have "tree_ok (string_cmp ?cmp 1) ?t"
    by (auto simp: tree_ok_def rb_ok_def ordered_def intro: exI [of _ 1])
  ultimately show ?thesis
    using wmem_tree_insert_string_correct [of ?cmp 1 ?t "[0x61]" "Some 2"]
    by (fastforce simp: string_cmp_def WMEM_TREE_STRING_NOCASE_def)
qed

text \<open>
  Keys that are arrays of integers: in a tree of trees for keys of \<open>n\<close> integers, in whatever
  pieces the caller hands them over, inserting creates the missing subtrees and makes exactly the
  given key map to the data.
\<close>

theorem wmem_tree_insert32_array_correct:
  assumes "levels n tree" "length (key_sequence ks) = Suc n"
  shows "\<exists>tree'. wmem_tree_insert32_array tree ks d = Some tree' \<and> levels n tree' \<and>
    (\<forall>ks'. length (key_sequence ks') = Suc n \<longrightarrow>
       wmem_tree_lookup32_array tree' ks' =
         (if key_sequence ks' = key_sequence ks then Some (map_option Data d)
          else wmem_tree_lookup32_array tree ks'))"
  using insert32_keys_correct [OF assms, of d]
  by (auto simp: wmem_tree_insert32_array_def wmem_tree_lookup32_array_def
      insert32_array.simps [of tree "key_sequence ks"])

theorem wmem_tree_insert32_array_correct_witness:
  "\<exists>tree'. wmem_tree_insert32_array (Null :: (guint32, nat target) wmem_tree) [[7, 8], [9], []] (Some 1) =
       Some tree' \<and>
     wmem_tree_lookup32_array tree' [[7], [8, 9], [], [4]] = Some (Some (Data 1))"
proof -
  have len: "length (key_sequence [[7, 8], [9], []]) = Suc 2" by (simp add: key_sequence_def)
  show ?thesis
    using wmem_tree_insert32_array_correct [OF levels_Null [of 2] len, of "Some (1 :: nat)"]
    by (auto simp: key_sequence_def)
qed

text \<open>
  A traversal calls the callback on the entries that are not marked as removed, subtrees included,
  in ascending order of the keys, until it asks to stop; for a flat tree these are its cells.
\<close>

theorem wmem_tree_foreach_correct:
  assumes "flat tree"
  shows "wmem_tree_foreach callback tree s =
    Some (visit callback
      (map (\<lambda>x. (key x, data x)) (filter (\<lambda>x. \<not> is_removed x) (inorder tree))) s)"
  by (rule foreach_visits [OF flat_entries [OF assms]])

theorem wmem_tree_foreach_correct_witness:
  "wmem_tree_foreach (\<lambda>k d s. (k \<ge> 5, s @ [k]))
     (Node BLACK (Node RED Null (Cell 3 (Some (Data True)) False False) Null)
       (Cell 5 (Some (Data False)) False False)
       (Node RED Null (Cell 9 None False True) Null)) [] = Some (True, [3, 5])"
  by (subst wmem_tree_foreach_correct) (simp_all add: flat_def)

text \<open>
  Removing a key does not remove or mark its node, although the comment in the code says so: the
  lookup returns NULL afterwards, and a traversal and the count still see the key.
\<close>

theorem wmem_tree_remove32_keeps_node:
  assumes "tree_ok compare32 tree" "flat tree" "wmem_tree_lookup32 tree k = Some d"
  shows "\<exists>tree'. wmem_tree_remove32 tree k = Some (Some d, tree') \<and>
    wmem_tree_lookup32 tree' k = None \<and> wmem_tree_count tree' = wmem_tree_count tree"
proof -
  obtain y where y: "cell_at compare32 k (inorder tree) = Some y"
    using assms(3) lookup32_cell [OF assms(1)] by (cases "cell_at compare32 k (inorder tree)") auto
  obtain t' x where t': "lookup_or_insert32 tree k None False True = Some (data x, t')"
    "tree_ok compare32 t'" "inorder t' = put compare32 k x (inorder tree)" "x = set_data None y"
    using lookup_or_insert32_cells [OF assms(1), of k None False True, unfolded if_True y option.case]
    by blast
  obtain a b where ab: "inorder tree = a @ y # b" "put compare32 k x (inorder tree) = a @ x # b"
    using put_overwrite [of "inorder tree" k y x] y assms(1) by (auto simp: tree_ok_def)
  have "flat t'" using assms(2) t'(3,4) ab by (auto simp: flat_def set_data_def)
  moreover have "wmem_tree_lookup32 t' k = None"
    using lookup32_cell [OF t'(2)] u32.cell_at_put [of k x k "inorder tree"] t'(3,4) cell_at_key [OF y]
    by auto
  ultimately show ?thesis
    using assms(2,3) t' ab
    by (auto simp: wmem_tree_remove32_def wmem_tree_insert32_def Let_def set_data_def
        count_entries [OF flat_entries])
qed

theorem wmem_tree_remove32_keeps_node_witness:
  "\<exists>tree'. wmem_tree_remove32 (Node BLACK Null (Cell 7 (Some (Data True)) False False) Null) 7 =
       Some (Some (Data True), tree') \<and> wmem_tree_count tree' = Some 1"
proof -
  let ?t = "Node BLACK Null (Cell 7 (Some (Data True)) False False) Null"
  have "tree_ok compare32 ?t" "flat ?t" "wmem_tree_lookup32 ?t 7 = Some (Data True)"
    by (auto simp: tree_ok_def rb_ok_def ordered_def flat_def intro: exI [of _ 1])
  from wmem_tree_remove32_keeps_node [OF this]
  show ?thesis by (auto simp: wmem_tree_count_def)
qed

end
