(* ===== verification/ValueString.thy ===== *)
theory ValueString
  imports Prelude
begin

text \<open>
  The value strings of epan/value_string.c: tables from numbers to strings with a linear search, and
  the extended ones, which choose between a linear search, a binary search and direct indexing at
  the first lookup. The 32-bit and the 64-bit versions are the same code at two widths, so the
  model is polymorphic in the width.
\<close>

section \<open>Tables\<close>

text \<open>An array with its terminating entry, whose \<open>strptr\<close> is NULL.\<close>

record (overloaded) 'w value_string =
  vs_value :: "'w word"
  strptr :: "string option"

text \<open>
  The loop of \<open>try_val_to_str_idx\<close>: the string and the index, or NULL and -1. Without a terminating
  entry it runs off the array.
\<close>

fun scan_values ::
    "'w::len word \<Rightarrow> 'w value_string list \<Rightarrow> gint \<Rightarrow> (string option \<times> gint) res" where
  "scan_values val [] i = Inl Fault"
| "scan_values val (e # es) i =
     (if strptr e = None then Inr (None, - 1)
      else if vs_value e = val then Inr (strptr e, i)
      else scan_values val es (i + 1))"

definition try_val_to_str_idx ::
    "'w::len word \<Rightarrow> 'w value_string list option \<Rightarrow> (string option \<times> gint) res" where
  "try_val_to_str_idx val vs =
     (case vs of None \<Rightarrow> Inr (None, - 1) | Some es \<Rightarrow> scan_values val es 0)"

definition try_val_to_str ::
    "'w::len word \<Rightarrow> 'w value_string list option \<Rightarrow> string option res" where
  "try_val_to_str val vs = bindE (try_val_to_str_idx val vs) (\<lambda>(s, i). Inr s)"

text \<open>\<open>wmem_strdup_printf\<close> with the caller's format and the value is a parameter.\<close>

definition val_to_str ::
    "(string \<Rightarrow> 'w::len word \<Rightarrow> string) \<Rightarrow> 'w word \<Rightarrow> 'w value_string list option \<Rightarrow>
      string option \<Rightarrow> string res"
where
  "val_to_str strdup_printf val vs fmt =
     (case fmt of
        None \<Rightarrow> Inl DissectorError
      | Some f \<Rightarrow>
          bindE (try_val_to_str val vs) (\<lambda>ret.
            Inr (case ret of Some s \<Rightarrow> s | None \<Rightarrow> strdup_printf f val)))"

definition val_to_str_const ::
    "'w::len word \<Rightarrow> 'w value_string list option \<Rightarrow> string option \<Rightarrow> string res" where
  "val_to_str_const val vs unknown_str =
     (case unknown_str of
        None \<Rightarrow> Inl DissectorError
      | Some u \<Rightarrow>
          bindE (try_val_to_str val vs) (\<lambda>ret. Inr (case ret of Some s \<Rightarrow> s | None \<Rightarrow> u)))"

text \<open>From strings to values.\<close>

fun scan_strings :: "string \<Rightarrow> 'w::len value_string list \<Rightarrow> gint \<Rightarrow> gint res" where
  "scan_strings val [] i = Inl Fault"
| "scan_strings val (e # es) i =
     (case strptr e of
        None \<Rightarrow> Inr (- 1)
      | Some s \<Rightarrow> if s = val then Inr i else scan_strings val es (i + 1))"

definition str_to_val_idx :: "string \<Rightarrow> 'w::len value_string list option \<Rightarrow> gint res" where
  "str_to_val_idx val vs = (case vs of None \<Rightarrow> Inr (- 1) | Some es \<Rightarrow> scan_strings val es 0)"

definition entry_at :: "'a list \<Rightarrow> guint \<Rightarrow> 'a res" where
  "entry_at es i = (if unat i < length es then Inr (es ! unat i) else Inl Fault)"

definition str_to_val ::
    "string \<Rightarrow> 'w::len value_string list option \<Rightarrow> 'w word \<Rightarrow> 'w word res" where
  "str_to_val val vs err_val =
     bindE (str_to_val_idx val vs) (\<lambda>i.
       if 0 \<le>s i then
         (case vs of None \<Rightarrow> Inl Fault | Some es \<Rightarrow> bindE (entry_at es i) (\<lambda>e. Inr (vs_value e)))
       else Inr err_val)"

section \<open>Extended tables\<close>

text \<open>The function \<open>_vs_match2\<close> points at.\<close>

datatype match2 = MatchInit | MatchLinear | MatchBsearch | MatchIndex

record (overloaded) 'w value_string_ext =
  vs_match2 :: match2
  vs_first_value :: "'w word"
  vs_num_entries :: guint
  vs_p :: "'w value_string list"
  vs_name :: string

definition value_string_ext_new ::
    "'w::len value_string list \<Rightarrow> guint \<Rightarrow> string option \<Rightarrow> 'w value_string_ext res" where
  "value_string_ext_new vs vs_tot_num_entries name =
     (case name of
        None \<Rightarrow> Inl DissectorError
      | Some n \<Rightarrow>
          dissector_assert (vs_tot_num_entries > 0)
            (bindE (entry_at vs (vs_tot_num_entries - 1)) (\<lambda>e.
               dissector_assert (strptr e = None)
                 (Inr \<lparr>vs_match2 = MatchInit, vs_first_value = 0,
                       vs_num_entries = vs_tot_num_entries - 1, vs_p = vs, vs_name = n\<rparr>))))"

text \<open>The match functions return a pointer to an entry: its index.\<close>

function linear_loop :: "'w::len word \<Rightarrow> 'w value_string list \<Rightarrow> guint \<Rightarrow> guint \<Rightarrow> guint option res" where
  "linear_loop val es n i =
     (if i < n then
        bindE (entry_at es i) (\<lambda>e.
          if vs_value e = val then Inr (Some i) else linear_loop val es n (i + 1))
      else Inr None)"
  by pat_completeness auto

lemma unat_Suc_less: "i < n \<Longrightarrow> unat (i + 1 :: guint) = Suc (unat i)"
proof -
  assume "i < n"
  moreover have "unat n < 0x100000000" using unsigned_less [of n, where 'a = nat] by simp
  ultimately have "unat i + unat (1 :: guint) < 0x100000000" by (simp add: word_less_nat_alt)
  from unat_add_less [OF this] show ?thesis by simp
qed

termination linear_loop
  by (relation "measure (\<lambda>(val, es, n, i). unat n - unat i)")
    (auto simp: unat_Suc_less word_less_nat_alt)

declare linear_loop.simps [simp del]

definition try_val_to_str_linear :: "'w::len word \<Rightarrow> 'w value_string_ext \<Rightarrow> guint option res" where
  "try_val_to_str_linear val vse = linear_loop val (vs_p vse) (vs_num_entries vse) 0"

definition try_val_to_str_index :: "'w::len word \<Rightarrow> 'w value_string_ext \<Rightarrow> guint option res" where
  "try_val_to_str_index val vse =
     (let i = val - vs_first_value vse in
      if unat i < unat (vs_num_entries vse) then
        bindE (entry_at (vs_p vse) (ucast i)) (\<lambda>e.
          if val = vs_value e then Inr (Some (ucast i)) else Inl Fault)
      else Inr None)"

text \<open>
  The loop of the binary search. The midpoint \<open>(low + max) / 2\<close> wraps around when the sum does, and
  then the loop need not end.
\<close>

partial_function (option) bsearch_loop ::
    "'w::len word \<Rightarrow> 'w value_string list \<Rightarrow> guint \<Rightarrow> guint \<Rightarrow> guint option res option"
where
  "bsearch_loop val es low high =
     (if low < high then
        let i = (low + high) div 2 in
        if unat i < length es then
          if val < vs_value (es ! unat i) then bsearch_loop val es low i
          else if val > vs_value (es ! unat i) then bsearch_loop val es (i + 1) high
          else Some (Inr (Some i))
        else Some (Inl Fault)
      else Some (Inr None))"

declare bsearch_loop.simps [code]

definition try_val_to_str_bsearch :: "'w::len word \<Rightarrow> 'w value_string_ext \<Rightarrow> guint option res" where
  "try_val_to_str_bsearch val vse =
     (case bsearch_loop val (vs_p vse) 0 (vs_num_entries vse) of
        None \<Rightarrow> Inl Fault
      | Some r \<Rightarrow> r)"

text \<open>The loop that finds the fastest access method.\<close>

datatype access = VS_SEARCH | VS_BIN_TREE | VS_INDEX

function classify_loop ::
    "'w::len value_string list \<Rightarrow> guint \<Rightarrow> 'w word \<Rightarrow> access \<Rightarrow> 'w word \<Rightarrow> guint \<Rightarrow> access res" where
  "classify_loop es n first_value type prev_value i =
     (if i < n then
        bindE (entry_at es i) (\<lambda>e.
          dissector_assert (strptr e \<noteq> None)
            (let type' = (if type = VS_INDEX \<and> vs_value e \<noteq> ucast i + first_value
                          then VS_BIN_TREE else type)
             in if type' = VS_BIN_TREE \<and> prev_value > vs_value e then Inr VS_SEARCH
                else if type' = VS_BIN_TREE \<and> first_value > vs_value e then Inr VS_SEARCH
                else classify_loop es n first_value type' (vs_value e) (i + 1)))
      else Inr type)"
  by pat_completeness auto

termination classify_loop
  by (relation "measure (\<lambda>(es, n, first_value, type, prev_value, i). unat n - unat i)")
    (auto simp: unat_Suc_less word_less_nat_alt)

declare classify_loop.simps [simp del]

definition run_match2 ::
    "match2 \<Rightarrow> 'w::len word \<Rightarrow> 'w value_string_ext \<Rightarrow> guint option res" where
  "run_match2 m val vse =
     (case m of
        MatchLinear \<Rightarrow> try_val_to_str_linear val vse
      | MatchBsearch \<Rightarrow> try_val_to_str_bsearch val vse
      | MatchIndex \<Rightarrow> try_val_to_str_index val vse
      | MatchInit \<Rightarrow> Inl Fault)"

definition try_val_to_str_ext_init ::
    "'w::len word \<Rightarrow> 'w value_string_ext \<Rightarrow> (guint option \<times> 'w value_string_ext) res" where
  "try_val_to_str_ext_init val vse =
     bindE (entry_at (vs_p vse) (vs_num_entries vse)) (\<lambda>e.
       dissector_assert (vs_value e = 0 \<and> strptr e = None)
         (bindE (entry_at (vs_p vse) 0) (\<lambda>e0.
            let first_value = vs_value e0 in
            bindE (classify_loop (vs_p vse) (vs_num_entries vse) first_value VS_INDEX first_value 0)
              (\<lambda>type.
                 let vse' = vse\<lparr>vs_first_value := first_value,
                       vs_match2 := (case type of VS_SEARCH \<Rightarrow> MatchLinear
                                       | VS_BIN_TREE \<Rightarrow> MatchBsearch | VS_INDEX \<Rightarrow> MatchIndex)\<rparr>
                 in bindE (run_match2 (vs_match2 vse') val vse') (\<lambda>r. Inr (r, vse'))))))"

text \<open>The call \<open>vse->_vs_match2(val, vse)\<close>.\<close>

definition call_match2 ::
    "'w::len word \<Rightarrow> 'w value_string_ext \<Rightarrow> (guint option \<times> 'w value_string_ext) res" where
  "call_match2 val vse =
     (if vs_match2 vse = MatchInit then try_val_to_str_ext_init val vse
      else bindE (run_match2 (vs_match2 vse) val vse) (\<lambda>r. Inr (r, vse)))"

definition try_val_to_str_ext ::
    "'w::len word \<Rightarrow> 'w value_string_ext option \<Rightarrow>
      (string option \<times> 'w value_string_ext option) res"
where
  "try_val_to_str_ext val vse =
     (case vse of
        None \<Rightarrow> Inr (None, None)
      | Some v \<Rightarrow>
          bindE (call_match2 val v) (\<lambda>(r, v').
            case r of
              None \<Rightarrow> Inr (None, Some v')
            | Some i \<Rightarrow> bindE (entry_at (vs_p v') i) (\<lambda>e. Inr (strptr e, Some v'))))"

definition try_val_to_str_idx_ext ::
    "'w::len word \<Rightarrow> 'w value_string_ext option \<Rightarrow>
      (string option \<times> gint \<times> 'w value_string_ext option) res"
where
  "try_val_to_str_idx_ext val vse =
     (case vse of
        None \<Rightarrow> Inr (None, - 1, None)
      | Some v \<Rightarrow>
          bindE (call_match2 val v) (\<lambda>(r, v').
            case r of
              None \<Rightarrow> Inr (None, - 1, Some v')
            | Some i \<Rightarrow> bindE (entry_at (vs_p v') i) (\<lambda>e. Inr (strptr e, i, Some v'))))"

definition val_to_str_ext ::
    "(string \<Rightarrow> 'w::len word \<Rightarrow> string) \<Rightarrow> 'w word \<Rightarrow> 'w value_string_ext option \<Rightarrow>
      string option \<Rightarrow> (string \<times> 'w value_string_ext option) res"
where
  "val_to_str_ext strdup_printf val vse fmt =
     (case fmt of
        None \<Rightarrow> Inl DissectorError
      | Some f \<Rightarrow>
          bindE (try_val_to_str_ext val vse) (\<lambda>(ret, vse').
            Inr (case ret of Some s \<Rightarrow> s | None \<Rightarrow> strdup_printf f val, vse')))"

definition val_to_str_ext_const ::
    "'w::len word \<Rightarrow> 'w value_string_ext option \<Rightarrow> string option \<Rightarrow>
      (string \<times> 'w value_string_ext option) res"
where
  "val_to_str_ext_const val vse unknown_str =
     (case unknown_str of
        None \<Rightarrow> Inl DissectorError
      | Some u \<Rightarrow>
          bindE (try_val_to_str_ext val vse) (\<lambda>(ret, vse').
            Inr (case ret of Some s \<Rightarrow> s | None \<Rightarrow> u, vse')))"

section \<open>Tables the searches work on\<close>

text \<open>
  As many entries as the count says, each with a string, and the terminating entry behind them. The
  count is below \<open>2 ^ 31\<close>: an entry takes at least 8 bytes of a 4 GB address space.
\<close>

definition table_ok :: "'w::len value_string list \<Rightarrow> guint \<Rightarrow> bool" where
  "table_ok es n \<longleftrightarrow>
     unat n < length es \<and> unat n < 2 ^ 31 \<and> (\<forall>i < unat n. strptr (es ! i) \<noteq> None) \<and>
     strptr (es ! unat n) = None \<and> vs_value (es ! unat n) = 0"

definition table_values :: "'w::len value_string list \<Rightarrow> guint \<Rightarrow> 'w word list" where
  "table_values es n = map vs_value (take (unat n) es)"

lemma table_values_simps:
  "table_ok es n \<Longrightarrow> length (table_values es n) = unat n"
  "table_ok es n \<Longrightarrow> i < unat n \<Longrightarrow> table_values es n ! i = vs_value (es ! i)"
  by (simp_all add: table_values_def table_ok_def)

lemma entry_at_ok: "unat i < length es \<Longrightarrow> entry_at es i = Inr (es ! unat i)"
  by (simp add: entry_at_def)

text \<open>What a search must return: an entry with the value, or none when no entry has it.\<close>

definition found :: "'w::len word \<Rightarrow> 'w word list \<Rightarrow> guint option res \<Rightarrow> bool" where
  "found val vs r \<longleftrightarrow>
     (case r of
        Inl e \<Rightarrow> False
      | Inr None \<Rightarrow> val \<notin> set vs
      | Inr (Some i) \<Rightarrow> unat i < length vs \<and> vs ! unat i = val)"

text \<open>
  The contract of a match function: on the tables it is chosen for it finds an entry with the value
  whenever there is one.
\<close>

locale match_function =
  fixes search :: "'w::len word \<Rightarrow> 'w value_string_ext \<Rightarrow> guint option res"
    and chosen_for :: "'w value_string_ext \<Rightarrow> bool"
  assumes finds: "table_ok (vs_p vse) (vs_num_entries vse) \<Longrightarrow> chosen_for vse \<Longrightarrow>
    found val (table_values (vs_p vse) (vs_num_entries vse)) (search val vse)"

definition first_index :: "'a \<Rightarrow> 'a list \<Rightarrow> nat option" where
  "first_index x xs = find (\<lambda>i. xs ! i = x) [0..<length xs]"

lemma first_index_None: "first_index x xs = None \<longleftrightarrow> x \<notin> set xs"
  by (auto simp: first_index_def find_None_iff in_set_conv_nth)

lemma first_index_Some: "first_index x xs = Some i \<Longrightarrow> i < length xs \<and> xs ! i = x"
  by (auto simp: first_index_def find_Some_iff)

lemma first_index_distinct:
  "distinct xs \<Longrightarrow> i < length xs \<Longrightarrow> xs ! i = x \<Longrightarrow> first_index x xs = Some i"
proof -
  assume d: "distinct xs" "i < length xs" "xs ! i = x"
  then obtain j where "first_index x xs = Some j" using first_index_None [of x xs] by fastforce
  with d first_index_Some [of x xs j] show ?thesis by (auto simp: nth_eq_iff_index_eq)
qed

lemma found_distinct:
  assumes "found val vs r" "distinct vs" "length vs < 2 ^ 31"
  shows "r = Inr (map_option of_nat (first_index val vs))"
proof (cases r)
  case (Inl e)
  with assms(1) show ?thesis by (simp add: found_def)
next
  case (Inr x)
  show ?thesis
  proof (cases x)
    case None
    with assms(1) Inr have "first_index val vs = None" by (simp add: found_def first_index_None)
    with Inr None show ?thesis by simp
  next
    case (Some i)
    with assms(1) Inr have "unat i < length vs" "vs ! unat i = val" by (simp_all add: found_def)
    with assms(2) have "first_index val vs = Some (unat i)" by (intro first_index_distinct)
    with Inr Some show ?thesis by simp
  qed
qed

context match_function
begin

lemma search_first_index:
  assumes "table_ok (vs_p vse) (vs_num_entries vse)" "chosen_for vse"
    "distinct (table_values (vs_p vse) (vs_num_entries vse))"
  shows "search val vse =
    Inr (map_option of_nat (first_index val (table_values (vs_p vse) (vs_num_entries vse))))"
  using found_distinct [OF finds [OF assms(1,2)] assms(3)] assms(1)
  by (simp add: table_values_simps table_ok_def)

end

section \<open>The linear search\<close>

lemma linear_loop_found:
  assumes "table_ok es n" "i \<le> n" "\<forall>j < unat i. table_values es n ! j \<noteq> val"
  shows "found val (table_values es n) (linear_loop val es n i)"
  using assms
proof (induction val es n i rule: linear_loop.induct)
  case (1 val es n i)
  show ?case
  proof (cases "i < n")
    case False
    with "1.prems" show ?thesis
      by (auto simp: linear_loop.simps [of val es n i] found_def in_set_conv_nth table_values_simps
          word_less_nat_alt word_le_nat_alt)
  next
    case True
    then have i: "unat i < unat n" by (simp add: word_less_nat_alt)
    then have e: "entry_at es i = Inr (es ! unat i)"
      using "1.prems"(1) by (intro entry_at_ok) (simp add: table_ok_def)
    show ?thesis
    proof (cases "vs_value (es ! unat i) = val")
      case True
      with i e "1.prems"(1) \<open>i < n\<close> show ?thesis
        by (simp add: linear_loop.simps [of val es n i] found_def table_values_simps)
    next
      case ne: False
      have "\<forall>j < unat (i + 1). table_values es n ! j \<noteq> val"
        using ne i "1.prems"(1,3) by (auto simp: unat_Suc_less [OF True] less_Suc_eq table_values_simps)
      moreover have "i + 1 \<le> n" using unat_Suc_less [OF True] i by (simp add: word_le_nat_alt)
      ultimately show ?thesis
        using "1.IH" [OF True e ne "1.prems"(1)] True e ne
        by (simp add: linear_loop.simps [of val es n i])
    qed
  qed
qed

interpretation linear: match_function try_val_to_str_linear "\<lambda>vse. True"
  by unfold_locales (simp add: try_val_to_str_linear_def linear_loop_found)

section \<open>Direct indexing\<close>

definition contiguous_from :: "'w::len word \<Rightarrow> 'w word list \<Rightarrow> bool" where
  "contiguous_from first_value vs \<longleftrightarrow> (\<forall>i < length vs. vs ! i = of_nat i + first_value)"

lemma index_found:
  assumes "table_ok (vs_p vse) (vs_num_entries vse)"
    and "contiguous_from (vs_first_value vse) (table_values (vs_p vse) (vs_num_entries vse))"
  shows "found val (table_values (vs_p vse) (vs_num_entries vse)) (try_val_to_str_index val vse)"
proof -
  let ?es = "vs_p vse" and ?n = "vs_num_entries vse" and ?i = "val - vs_first_value vse"
  show ?thesis
  proof (cases "unat ?i < unat ?n")
    case True
    then have "unat ?i < 0x100000000" using unsigned_less [of ?n, where 'a = nat] by simp
    then have u: "unat (ucast ?i :: guint) = unat ?i"
      by (simp add: unsigned_ucast_eq take_bit_nat_eq_self)
    have "table_values ?es ?n ! unat ?i = of_nat (unat ?i) + vs_first_value vse"
      using assms True by (simp add: contiguous_from_def table_values_simps)
    then have v: "vs_value (?es ! unat ?i) = val"
      using assms(1) True by (simp add: table_values_simps)
    moreover have "entry_at ?es (ucast ?i) = Inr (?es ! unat ?i)"
      using assms(1) True by (simp add: entry_at_def u table_ok_def)
    ultimately show ?thesis
      using True assms(1) by (simp add: try_val_to_str_index_def Let_def found_def u table_values_simps)
  next
    case False
    have "table_values ?es ?n ! j \<noteq> val" if "j < unat ?n" for j
    proof
      assume "table_values ?es ?n ! j = val"
      then have "?i = of_nat j" using assms that by (auto simp: contiguous_from_def table_values_simps)
      then have "unat ?i \<le> j" by (simp add: unsigned_of_nat take_bit_eq_mod)
      with False that show False by simp
    qed
    then show ?thesis
      using False assms(1)
      by (auto simp: try_val_to_str_index_def Let_def found_def in_set_conv_nth table_values_simps)
  qed
qed

interpretation index: match_function try_val_to_str_index
    "\<lambda>vse. contiguous_from (vs_first_value vse) (table_values (vs_p vse) (vs_num_entries vse))"
  by unfold_locales (rule index_found)

section \<open>The binary search\<close>

lemma unat_midpoint:
  assumes "unat low \<le> unat high" "unat high < 2 ^ 31"
  shows "unat ((low + high) div 2 :: guint) = (unat low + unat high) div 2"
proof -
  have "unat (low + high) = unat low + unat high" using assms by (intro unat_add_less) simp
  then show ?thesis by (simp add: unat_div)
qed

lemma bsearch_loop_found:
  assumes ok: "table_ok es n" and sorted: "sorted (table_values es n)"
    and "unat high \<le> unat n" "unat low \<le> unat high"
    and "\<forall>j < unat low. table_values es n ! j < val"
    and "\<forall>j. unat high \<le> j \<and> j < unat n \<longrightarrow> val < table_values es n ! j"
  shows "\<exists>r. bsearch_loop val es low high = Some r \<and> found val (table_values es n) r"
  using assms(3-6)
proof (induction "unat high - unat low" arbitrary: low high rule: less_induct)
  case less
  let ?tv = "table_values es n" and ?i = "(low + high) div 2"
  have small: "unat n < 2 ^ 31" "unat n < length es" using ok by (simp_all add: table_ok_def)
  show ?case
  proof (cases "low < high")
    case False
    then have "unat low = unat high" using less.prems(2) by (simp add: word_less_nat_alt)
    then have "?tv ! j \<noteq> val" if "j < unat n" for j
      using that less.prems(3,4) by (cases "j < unat low") (fastforce simp: not_less)+
    then have "val \<notin> set ?tv" by (auto simp: in_set_conv_nth table_values_simps [OF ok])
    with False show ?thesis by (simp add: bsearch_loop.simps [of val es low] found_def)
  next
    case True
    then have lh: "unat low < unat high" by (simp add: word_less_nat_alt)
    have i: "unat ?i = (unat low + unat high) div 2"
      using less.prems(1) small lh by (intro unat_midpoint) simp_all
    then have bounds: "unat low \<le> unat ?i" "unat ?i < unat high" "unat ?i < unat n"
      using lh less.prems(1) by simp_all
    have tv: "vs_value (es ! unat ?i) = ?tv ! unat ?i"
      using bounds(3) by (simp add: table_values_simps [OF ok])
    have mono: "j \<le> k \<Longrightarrow> k < unat n \<Longrightarrow> ?tv ! j \<le> ?tv ! k" for j k
      using sorted by (intro sorted_nth_mono) (simp_all add: table_values_simps [OF ok])
    consider "val < ?tv ! unat ?i" | "?tv ! unat ?i < val" | "val = ?tv ! unat ?i" by force
    then show ?thesis
    proof cases
      case 1
      have "\<exists>r. bsearch_loop val es low ?i = Some r \<and> found val ?tv r"
      proof (rule less.hyps)
        show "\<forall>j. unat ?i \<le> j \<and> j < unat n \<longrightarrow> val < ?tv ! j"
          using 1 mono less_le_trans by blast
      qed (use bounds less.prems in auto)
      with 1 True tv bounds small show ?thesis
        by (simp add: bsearch_loop.simps [of val es low high] Let_def)
    next
      case 2
      have i1: "unat (?i + 1) = Suc (unat ?i)"
        using bounds(2) by (intro unat_Suc_less [of _ high]) (simp add: word_less_nat_alt)
      have "\<exists>r. bsearch_loop val es (?i + 1) high = Some r \<and> found val ?tv r"
      proof (rule less.hyps)
        show "\<forall>j < unat (?i + 1). ?tv ! j < val"
          unfolding i1 using 2 mono bounds(3) le_less_trans less_Suc_eq_le by blast
      qed (use bounds less.prems i1 in auto)
      moreover have "\<not> val < ?tv ! unat ?i" using 2 by simp
      ultimately show ?thesis
        using 2 True tv bounds small
        by (simp add: bsearch_loop.simps [of val es low high] Let_def)
    next
      case 3
      with True tv bounds small show ?thesis
        by (simp add: bsearch_loop.simps [of _ es low high] Let_def found_def table_values_simps [OF ok])
    qed
  qed
qed

lemma bsearch_found:
  assumes "table_ok (vs_p vse) (vs_num_entries vse)"
    and "sorted (table_values (vs_p vse) (vs_num_entries vse))"
  shows "found val (table_values (vs_p vse) (vs_num_entries vse)) (try_val_to_str_bsearch val vse)"
proof -
  have "\<exists>r. bsearch_loop val (vs_p vse) 0 (vs_num_entries vse) = Some r \<and>
      found val (table_values (vs_p vse) (vs_num_entries vse)) r"
    by (rule bsearch_loop_found [OF assms]) auto
  then show ?thesis by (auto simp: try_val_to_str_bsearch_def)
qed

interpretation bsearch: match_function try_val_to_str_bsearch
    "\<lambda>vse. sorted (table_values (vs_p vse) (vs_num_entries vse))"
  by unfold_locales (rule bsearch_found)

section \<open>Choosing the search\<close>

text \<open>The state of the choice after \<open>i\<close> entries.\<close>

definition chosen :: "'w::len word list \<Rightarrow> nat \<Rightarrow> access \<Rightarrow> bool" where
  "chosen vs i type \<longleftrightarrow>
     (case type of
        VS_INDEX \<Rightarrow> contiguous_from (vs ! 0) (take i vs)
      | VS_BIN_TREE \<Rightarrow> sorted (take i vs)
      | VS_SEARCH \<Rightarrow> True)"

text \<open>
  A contiguous prefix may wrap around past the largest value. The value after it can only pass both
  comparisons of the loop when it did not wrap around, or when it repeats a value.
\<close>

lemma contiguous_sorted:
  fixes vs :: "'w::len word list"
  assumes "contiguous_from f (take m vs)" "m < length vs" "distinct vs" "f \<le> vs ! m"
  shows "sorted (take m vs)"
proof -
  have nth: "j < m \<Longrightarrow> vs ! j = of_nat j + f" for j
    using assms(1,2) by (simp add: contiguous_from_def)
  have no_wrap: "unat f + j < 2 ^ LENGTH('w)" if "j < m" for j
  proof (rule ccontr)
    assume wrap: "\<not> unat f + j < 2 ^ LENGTH('w)"
    let ?d = "unat (vs ! m) - unat f"
    have "unat f \<le> unat (vs ! m)" using assms(4) by (simp add: word_le_nat_alt)
    moreover have "unat (vs ! m) < 2 ^ LENGTH('w)" by (rule unsigned_less)
    ultimately have "?d < m" "of_nat ?d = vs ! m - f"
      using wrap that by (linarith, simp add: of_nat_diff)
    note d = this
    then have "vs ! ?d = vs ! m" using nth [of ?d] by simp
    with assms(2,3) d(1) show False by (simp add: nth_eq_iff_index_eq)
  qed
  have val: "unat (vs ! j) = unat f + j" if "j < m" for j
    using no_wrap [OF that] nth [OF that]
    by (simp add: unat_word_ariths unsigned_of_nat take_bit_eq_mod add.commute mod_add_left_eq)
  show ?thesis
  proof (rule sorted_iff_nth_mono [THEN iffD2], intro allI impI)
    fix i j
    assume "i \<le> j" "j < length (take m vs)"
    then show "take m vs ! i \<le> take m vs ! j" by (simp add: word_le_nat_alt val)
  qed
qed

lemma sorted_take_Suc:
  assumes "sorted (take i vs)" "i < length vs" "0 < i" "vs ! (i - 1) \<le> vs ! i"
  shows "sorted (take (Suc i) (vs :: 'a::linorder list))"
proof -
  have "x \<le> vs ! i" if "x \<in> set (take i vs)" for x
  proof -
    obtain j where "j < i" "x = take i vs ! j" using \<open>x \<in> _\<close> by (auto simp: in_set_conv_nth)
    then have "x \<le> take i vs ! (i - 1)"
      using sorted_nth_mono [OF assms(1), of j "i - 1"] assms(2,3) by simp
    with assms(3,4) show ?thesis by simp
  qed
  with assms(1,2) show ?thesis by (simp add: take_Suc_conv_app_nth sorted_append)
qed

lemma classify_loop_chosen:
  assumes ok: "table_ok es n" and distinct: "distinct (table_values es n)"
    and "i \<le> n" "type \<noteq> VS_SEARCH" "chosen (table_values es n) (unat i) type"
    and "prev_value = (if i = 0 then f else table_values es n ! (unat i - 1))"
    and "f = vs_value (es ! 0)" "type = VS_INDEX \<or> 0 < unat i"
  shows "\<exists>type'. classify_loop es n f type prev_value i = Inr type' \<and>
    chosen (table_values es n) (unat n) type'"
  using assms
proof (induction es n f type prev_value i rule: classify_loop.induct)
  case (1 es n f type prev_value i)
  let ?tv = "table_values es n"
  note ok = "1.prems"(1) and distinct = "1.prems"(2) and prems = "1.prems"(3-)
  have len: "length ?tv = unat n" by (rule table_values_simps [OF ok])
  show ?case
  proof (cases "i < n")
    case False
    then have "i = n" using prems(1) by simp
    with prems(3) False show ?thesis by (simp add: classify_loop.simps [of es n f type])
  next
    case True
    then have i: "unat i < unat n" by (simp add: word_less_nat_alt)
    then have "unat i < length es" "strptr (es ! unat i) \<noteq> None" using ok by (auto simp: table_ok_def)
    then have e: "entry_at es i = Inr (es ! unat i)" "strptr (es ! unat i) \<noteq> None"
      by (auto simp: entry_at_def)
    have v: "vs_value (es ! unat i) = ?tv ! unat i" by (simp add: table_values_simps [OF ok] i)
    have f: "f = ?tv ! 0" using prems(5) i by (simp add: table_values_simps [OF ok])
    define type' where "type' = (if type = VS_INDEX \<and> ?tv ! unat i \<noteq> ucast i + f
      then VS_BIN_TREE else type)"
    have step: "classify_loop es n f type prev_value i =
        (if type' = VS_BIN_TREE \<and> prev_value > ?tv ! unat i then Inr VS_SEARCH
         else if type' = VS_BIN_TREE \<and> f > ?tv ! unat i then Inr VS_SEARCH
         else classify_loop es n f type' (?tv ! unat i) (i + 1))"
      using True e by (simp add: classify_loop.simps [of es n f type] v type'_def Let_def)
    show ?thesis
    proof (cases "type' = VS_BIN_TREE \<and> (prev_value > ?tv ! unat i \<or> f > ?tv ! unat i)")
      case True
      with step show ?thesis by (auto simp: chosen_def)
    next
      case cont: False
      have suc: "unat (i + 1) = Suc (unat i)" by (rule unat_Suc_less [OF True])
      have ne: "i + 1 \<noteq> 0" using suc by (metis nat.simps(3) unat_0)
      have inv: "chosen ?tv (Suc (unat i)) type' \<and> type' \<noteq> VS_SEARCH"
      proof (cases "type'")
        case VS_INDEX
        then have t: "type = VS_INDEX" "?tv ! unat i = of_nat (unat i) + f"
          by (auto simp: type'_def split: if_splits)
        from t(1) prems(3) f have "contiguous_from f (take (unat i) ?tv)" by (simp add: chosen_def)
        then have "?tv ! j = of_nat j + f" if "j < unat i" for j
          using that i len by (simp add: contiguous_from_def)
        with t(2) have "contiguous_from f (take (Suc (unat i)) ?tv)"
          unfolding contiguous_from_def by (metis length_take less_SucE min_less_iff_conj nth_take)
        with VS_INDEX f show ?thesis by (simp add: chosen_def)
      next
        case VS_BIN_TREE
        with cont have le: "prev_value \<le> ?tv ! unat i" "f \<le> ?tv ! unat i" by auto
        have pos: "0 < unat i"
        proof (rule ccontr)
          assume "\<not> 0 < unat i"
          then have "i = 0" by (simp add: unat_eq_zero)
          with VS_BIN_TREE prems(6) f show False
            by (auto simp: type'_def split: if_splits)
        qed
        then have "i \<noteq> 0" by auto
        then have prev: "prev_value = ?tv ! (unat i - 1)" using prems(4) by simp
        have "sorted (take (unat i) ?tv)"
        proof (cases "type = VS_INDEX")
          case True
          with prems(3) f have "contiguous_from f (take (unat i) ?tv)" by (simp add: chosen_def)
          from contiguous_sorted [OF this _ distinct le(2)] i len show ?thesis by simp
        next
          case False
          with VS_BIN_TREE have "type = VS_BIN_TREE" by (auto simp: type'_def split: if_splits)
          with prems(3) show ?thesis by (simp add: chosen_def)
        qed
        from sorted_take_Suc [OF this _ pos] le(1) prev i len VS_BIN_TREE show ?thesis
          by (simp add: chosen_def)
      next
        case VS_SEARCH
        with prems(2) show ?thesis by (auto simp: type'_def split: if_splits)
      qed
      have le: "i + 1 \<le> n" using suc i by (simp add: word_le_nat_alt)
      have IH: "\<exists>type''. classify_loop es n f type' (vs_value (es ! unat i)) (i + 1) = Inr type'' \<and>
          chosen ?tv (unat n) type''"
      proof (rule "1.IH" [OF True e(1) e(2) type'_def [folded v] _ _ ok distinct le])
        show "\<not> (type' = VS_BIN_TREE \<and> vs_value (es ! unat i) < prev_value)"
          "\<not> (type' = VS_BIN_TREE \<and> vs_value (es ! unat i) < f)"
          using cont unfolding v by auto
        show "type' \<noteq> VS_SEARCH" "chosen ?tv (unat (i + 1)) type'"
          using inv suc by simp_all
        show "vs_value (es ! unat i) = (if i + 1 = 0 then f else ?tv ! (unat (i + 1) - 1))"
          using ne suc v by simp
        show "f = vs_value (es ! 0)" by (rule prems(5))
        show "type' = VS_INDEX \<or> 0 < unat (i + 1)" using suc by simp
      qed
      have "classify_loop es n f type prev_value i =
          classify_loop es n f type' (vs_value (es ! unat i)) (i + 1)"
        using step cont v by (simp only: if_False split: if_split) blast
      with IH show ?thesis by simp
    qed
  qed
qed

section \<open>The lookups\<close>

definition ext_ok :: "'w::len value_string_ext \<Rightarrow> bool" where
  "ext_ok vse \<longleftrightarrow>
     table_ok (vs_p vse) (vs_num_entries vse) \<and>
     (case vs_match2 vse of
        MatchInit \<Rightarrow> True
      | MatchLinear \<Rightarrow> True
      | MatchBsearch \<Rightarrow> sorted (table_values (vs_p vse) (vs_num_entries vse))
      | MatchIndex \<Rightarrow> contiguous_from (vs_first_value vse) (table_values (vs_p vse) (vs_num_entries vse)))"

text \<open>Whichever match function is in place, the contract of the three gives the same result.\<close>

lemma run_match2_ok:
  assumes "ext_ok vse" "vs_match2 vse \<noteq> MatchInit"
    and "distinct (table_values (vs_p vse) (vs_num_entries vse))"
  shows "run_match2 (vs_match2 vse) val vse =
    Inr (map_option of_nat (first_index val (table_values (vs_p vse) (vs_num_entries vse))))"
proof (cases "vs_match2 vse")
  case MatchInit
  with assms(2) show ?thesis by simp
next
  case MatchLinear
  with assms(1) linear.search_first_index [OF _ TrueI assms(3)] show ?thesis
    by (simp add: run_match2_def ext_ok_def)
next
  case MatchBsearch
  with assms(1) bsearch.search_first_index [OF _ _ assms(3)] show ?thesis
    by (simp add: run_match2_def ext_ok_def)
next
  case MatchIndex
  with assms(1) index.search_first_index [OF _ _ assms(3)] show ?thesis
    by (simp add: run_match2_def ext_ok_def)
qed

lemma init_ok:
  assumes ok: "table_ok (vs_p vse) (vs_num_entries vse)"
    and distinct: "distinct (table_values (vs_p vse) (vs_num_entries vse))"
  shows "\<exists>vse'. try_val_to_str_ext_init val vse =
      Inr (map_option of_nat (first_index val (table_values (vs_p vse) (vs_num_entries vse))), vse') \<and>
    ext_ok vse' \<and> vs_p vse' = vs_p vse \<and> vs_num_entries vse' = vs_num_entries vse"
proof -
  let ?es = "vs_p vse" and ?n = "vs_num_entries vse"
  let ?f = "vs_value (?es ! 0)" and ?tv = "table_values ?es ?n"
  have len: "unat ?n < length ?es" using ok by (simp add: table_ok_def)
  have "chosen ?tv (unat 0) VS_INDEX" by (simp add: chosen_def contiguous_from_def)
  then obtain type where type: "classify_loop ?es ?n ?f VS_INDEX ?f 0 = Inr type"
    "chosen ?tv (unat ?n) type"
    using classify_loop_chosen [OF ok distinct, of 0 VS_INDEX ?f ?f] by auto
  define vse' where "vse' = vse\<lparr>vs_first_value := ?f,
    vs_match2 := (case type of VS_SEARCH \<Rightarrow> MatchLinear
                    | VS_BIN_TREE \<Rightarrow> MatchBsearch | VS_INDEX \<Rightarrow> MatchIndex)\<rparr>"
  have same: "vs_p vse' = ?es" "vs_num_entries vse' = ?n" by (simp_all add: vse'_def)
  have take: "take (unat ?n) ?tv = ?tv" using table_values_simps(1) [OF ok] by simp
  have first: "contiguous_from (?tv ! 0) ?tv = contiguous_from ?f ?tv"
  proof (cases "unat ?n = 0")
    case True
    then have "?tv = []" using table_values_simps(1) [OF ok] by simp
    then show ?thesis by (simp add: contiguous_from_def)
  next
    case False
    then have "?tv ! 0 = ?f" by (intro table_values_simps(2) [OF ok]) simp
    then show ?thesis by (simp only:)
  qed
  have "ext_ok vse'"
    using ok type(2) unfolding ext_ok_def same take chosen_def first
    by (cases type) (simp_all add: vse'_def)
  moreover have "vs_match2 vse' \<noteq> MatchInit" by (cases type) (auto simp: vse'_def)
  ultimately have "run_match2 (vs_match2 vse') val vse' = Inr (map_option of_nat (first_index val ?tv))"
    using run_match2_ok [of vse' val] distinct unfolding same by blast
  moreover have "entry_at ?es ?n = Inr (?es ! unat ?n)" "entry_at ?es 0 = Inr (?es ! 0)"
    using len by (auto simp: entry_at_def)
  moreover have "vs_value (?es ! unat ?n) = 0 \<and> strptr (?es ! unat ?n) = None"
    using ok by (simp add: table_ok_def)
  ultimately have "try_val_to_str_ext_init val vse = Inr (map_option of_nat (first_index val ?tv), vse')"
    using type(1) by (simp add: try_val_to_str_ext_init_def Let_def vse'_def)
  with \<open>ext_ok vse'\<close> same show ?thesis by blast
qed

lemma call_match2_ok:
  assumes "ext_ok vse" "distinct (table_values (vs_p vse) (vs_num_entries vse))"
  shows "\<exists>vse'. call_match2 val vse =
      Inr (map_option of_nat (first_index val (table_values (vs_p vse) (vs_num_entries vse))), vse') \<and>
    ext_ok vse' \<and> vs_p vse' = vs_p vse \<and> vs_num_entries vse' = vs_num_entries vse"
  using assms run_match2_ok [OF assms(1) _ assms(2), of val] init_ok [of vse val]
  by (cases "vs_match2 vse = MatchInit") (auto simp: call_match2_def ext_ok_def)

lemma first_index_Cons:
  "first_index x (y # ys) = (if y = x then Some 0 else map_option Suc (first_index x ys))"
  unfolding first_index_def by (rule find_index_Cons)

lemma scan_values_first_index:
  "\<forall>e \<in> set xs. strptr e \<noteq> None \<Longrightarrow> strptr t = None \<Longrightarrow>
   scan_values val (xs @ t # rest) i =
     Inr (case first_index val (map vs_value xs) of
            None \<Rightarrow> (None, - 1)
          | Some j \<Rightarrow> (strptr (xs ! j), i + of_nat j))"
proof (induction xs arbitrary: i)
  case Nil
  then show ?case by (simp add: first_index_def)
next
  case (Cons x xs)
  then show ?case
    by (auto simp: first_index_Cons algebra_simps split: option.split)
qed

lemma scan_table:
  assumes "table_ok es n"
  shows "scan_values val es 0 =
    Inr (case first_index val (table_values es n) of
           None \<Rightarrow> (None, - 1)
         | Some j \<Rightarrow> (strptr (es ! j), of_nat j))"
proof -
  have "es = take (unat n) es @ es ! unat n # drop (Suc (unat n)) es"
    using assms by (simp add: table_ok_def id_take_nth_drop)
  moreover have "\<forall>e \<in> set (take (unat n) es). strptr e \<noteq> None"
    using assms by (auto simp: table_ok_def in_set_conv_nth)
  moreover have "strptr (es ! unat n) = None" using assms by (simp add: table_ok_def)
  ultimately have "scan_values val es 0 =
      Inr (case first_index val (map vs_value (take (unat n) es)) of
             None \<Rightarrow> (None, - 1)
           | Some j \<Rightarrow> (strptr (take (unat n) es ! j), 0 + of_nat j))"
    using scan_values_first_index [of "take (unat n) es" "es ! unat n" val "drop (Suc (unat n)) es" 0]
    by simp
  moreover have "take (unat n) es ! j = es ! j"
    if "first_index val (table_values es n) = Some j" for j
    using first_index_Some [OF that] table_values_simps(1) [OF assms] by simp
  ultimately show ?thesis
    by (auto simp: table_values_def split: option.split)
qed

section \<open>Properties\<close>

text \<open>A table with a gap, and one whose values wrap around past zero and then repeat one.\<close>

definition sample_table :: "32 value_string list" where
  "sample_table = [\<lparr>vs_value = 1, strptr = Some ''one''\<rparr>, \<lparr>vs_value = 2, strptr = Some ''two''\<rparr>,
     \<lparr>vs_value = 4, strptr = Some ''four''\<rparr>, \<lparr>vs_value = 0, strptr = None\<rparr>]"

definition wrapped_table :: "32 value_string list" where
  "wrapped_table = [\<lparr>vs_value = 0xFFFFFFFD, strptr = Some ''minus three''\<rparr>,
     \<lparr>vs_value = 0xFFFFFFFE, strptr = Some ''minus two''\<rparr>, \<lparr>vs_value = 0xFFFFFFFF, strptr = Some ''minus one''\<rparr>,
     \<lparr>vs_value = 0, strptr = Some ''zero''\<rparr>, \<lparr>vs_value = 0xFFFFFFFE, strptr = Some ''again''\<rparr>,
     \<lparr>vs_value = 0, strptr = None\<rparr>]"

lemma sample_table_ok: "table_ok sample_table 3" "distinct (table_values sample_table 3)"
proof -
  have "\<forall>i < 3. strptr (sample_table ! i) \<noteq> None"
    by (simp add: sample_table_def All_less_Suc numeral_3_eq_3)
  then show "table_ok sample_table 3" by (simp add: sample_table_def table_ok_def)
  show "distinct (table_values sample_table 3)"
    by (simp add: sample_table_def table_values_def)
qed

text \<open>
  C35. An extended value string over a table without repeated values is a faster linear search: at
  the first lookup and at every later one, whichever access method it has settled on, it returns
  the string and the index that \<open>try_val_to_str_idx\<close> returns, and stays ready for the next lookup.
\<close>

theorem try_val_to_str_idx_ext_correct:
  assumes "ext_ok vse" "distinct (table_values (vs_p vse) (vs_num_entries vse))"
  shows "\<exists>str i vse'. try_val_to_str_idx_ext val (Some vse) = Inr (str, i, Some vse') \<and>
    ext_ok vse' \<and> vs_p vse' = vs_p vse \<and>
    try_val_to_str_idx val (Some (vs_p vse)) = Inr (str, i)"
proof -
  let ?j = "first_index val (table_values (vs_p vse) (vs_num_entries vse))"
  have ok: "table_ok (vs_p vse) (vs_num_entries vse)" using assms(1) by (simp add: ext_ok_def)
  obtain vse' where call: "call_match2 val vse = Inr (map_option of_nat ?j, vse')" "ext_ok vse'"
    "vs_p vse' = vs_p vse"
    using call_match2_ok [OF assms] by blast
  show ?thesis
  proof (cases ?j)
    case None
    with call scan_table [OF ok, of val] show ?thesis
      by (simp add: try_val_to_str_idx_ext_def try_val_to_str_idx_def)
  next
    case (Some j)
    have "j < unat (vs_num_entries vse)"
      using first_index_Some [OF Some] table_values_simps(1) [OF ok] by simp
    then have "unat (of_nat j :: guint) = j" "j < length (vs_p vse)"
      using ok by (simp_all add: table_ok_def unsigned_of_nat take_bit_nat_eq_self)
    then have "entry_at (vs_p vse) (of_nat j) = Inr (vs_p vse ! j)" by (simp add: entry_at_def)
    with Some call scan_table [OF ok, of val] show ?thesis
      by (simp add: try_val_to_str_idx_ext_def try_val_to_str_idx_def)
  qed
qed

theorem try_val_to_str_idx_ext_correct_witness:
  "\<exists>vse vse'. value_string_ext_new sample_table 4 (Some ''sample'') = Inr vse \<and>
     try_val_to_str_idx_ext 4 (Some vse) = Inr (Some ''four'', 2, Some vse')"
proof -
  let ?vse = "\<lparr>vs_match2 = MatchInit, vs_first_value = 0, vs_num_entries = 3, vs_p = sample_table,
    vs_name = ''sample''\<rparr>"
  have new: "value_string_ext_new sample_table 4 (Some ''sample'') = Inr ?vse"
    by (simp add: value_string_ext_new_def entry_at_def sample_table_def)
  have "ext_ok ?vse" using sample_table_ok by (simp add: ext_ok_def)
  moreover have "try_val_to_str_idx 4 (Some sample_table) = Inr (Some ''four'', 2)"
    by (simp add: try_val_to_str_idx_def sample_table_def)
  ultimately show ?thesis
    using try_val_to_str_idx_ext_correct [of ?vse 4] sample_table_ok(2) new by fastforce
qed

text \<open>
  With a repeated value the choice can be wrong: on a table that wraps around past zero and then
  repeats one of its first values both order checks of the loop pass, the binary search runs on
  values that are not sorted, and an entry that is there is not found.
\<close>

theorem wrapped_table_misses_entry:
  "\<exists>vse vse'. value_string_ext_new wrapped_table 6 (Some ''wrapped'') = Inr vse \<and>
     try_val_to_str_idx_ext 0 (Some vse) = Inr (None, - 1, Some vse') \<and>
     vs_match2 vse' = MatchBsearch \<and>
     try_val_to_str_idx 0 (Some wrapped_table) = Inr (Some ''zero'', 3)"
proof -
  let ?vse = "\<lparr>vs_match2 = MatchInit, vs_first_value = 0, vs_num_entries = 5, vs_p = wrapped_table,
    vs_name = ''wrapped''\<rparr>"
  let ?vse' = "?vse\<lparr>vs_match2 := MatchBsearch, vs_first_value := 0xFFFFFFFD\<rparr>"
  have entries: "wrapped_table ! 0 = \<lparr>vs_value = 0xFFFFFFFD, strptr = Some ''minus three''\<rparr>"
    "wrapped_table ! Suc 0 = \<lparr>vs_value = 0xFFFFFFFE, strptr = Some ''minus two''\<rparr>"
    "wrapped_table ! 2 = \<lparr>vs_value = 0xFFFFFFFF, strptr = Some ''minus one''\<rparr>"
    "wrapped_table ! 3 = \<lparr>vs_value = 0, strptr = Some ''zero''\<rparr>"
    "wrapped_table ! 4 = \<lparr>vs_value = 0xFFFFFFFE, strptr = Some ''again''\<rparr>"
    "wrapped_table ! 5 = \<lparr>vs_value = 0, strptr = None\<rparr>" "length wrapped_table = 6"
    by (simp_all add: wrapped_table_def)
  have new: "value_string_ext_new wrapped_table 6 (Some ''wrapped'') = Inr ?vse"
    by (simp add: value_string_ext_new_def entry_at_def entries)
  have "classify_loop wrapped_table 5 0xFFFFFFFD VS_INDEX 0xFFFFFFFD 0 = Inr VS_BIN_TREE"
    by (simp add: classify_loop.simps entry_at_def entries)
  moreover have "bsearch_loop 0 wrapped_table 0 5 = Some (Inr None)"
    by (simp add: bsearch_loop.simps entries)
  ultimately have "try_val_to_str_idx_ext 0 (Some ?vse) = Inr (None, - 1, Some ?vse')"
    by (simp add: try_val_to_str_idx_ext_def call_match2_def try_val_to_str_ext_init_def
        entry_at_def entries run_match2_def try_val_to_str_bsearch_def)
  moreover have "try_val_to_str_idx 0 (Some wrapped_table) = Inr (Some ''zero'', 3)"
    by (simp add: try_val_to_str_idx_def wrapped_table_def)
  ultimately show ?thesis using new by (intro exI [of _ ?vse] exI [of _ ?vse']) simp
qed

end
