(* ===== verification/MatchString.thy ===== *)
theory MatchString
  imports ValueString
begin

text \<open>
  The other tables of epan/value_string.c: the 64-bit value strings, which are the polymorphic code
  of ValueString at that width, and the tables keyed by strings, ranges and byte strings, which are
  all searched from the front.
\<close>

section \<open>64-bit value strings\<close>

definition try_val64_to_str_idx ::
    "guint64 \<Rightarrow> 64 value_string list option \<Rightarrow> (string option \<times> gint) res" where
  "try_val64_to_str_idx val vs = try_val_to_str_idx val vs"

definition try_val64_to_str :: "guint64 \<Rightarrow> 64 value_string list option \<Rightarrow> string option res" where
  "try_val64_to_str val vs = bindE (try_val64_to_str_idx val vs) (\<lambda>(s, i). Inr s)"

definition val64_to_str_const ::
    "guint64 \<Rightarrow> 64 value_string list option \<Rightarrow> string option \<Rightarrow> string res" where
  "val64_to_str_const val vs unknown_str =
     (case unknown_str of
        None \<Rightarrow> Inl DissectorError
      | Some u \<Rightarrow>
          bindE (try_val64_to_str val vs) (\<lambda>ret. Inr (case ret of Some s \<Rightarrow> s | None \<Rightarrow> u)))"

definition val64_string_ext_new ::
    "64 value_string list \<Rightarrow> guint \<Rightarrow> string option \<Rightarrow> 64 value_string_ext res" where
  "val64_string_ext_new vs vs_tot_num_entries name =
     value_string_ext_new vs vs_tot_num_entries name"

definition try_val64_to_str_linear :: "guint64 \<Rightarrow> 64 value_string_ext \<Rightarrow> guint option res" where
  "try_val64_to_str_linear val vse = try_val_to_str_linear val vse"

definition try_val64_to_str_index :: "guint64 \<Rightarrow> 64 value_string_ext \<Rightarrow> guint option res" where
  "try_val64_to_str_index val vse = try_val_to_str_index val vse"

definition try_val64_to_str_bsearch :: "guint64 \<Rightarrow> 64 value_string_ext \<Rightarrow> guint option res" where
  "try_val64_to_str_bsearch val vse = try_val_to_str_bsearch val vse"

definition try_val64_to_str_ext_init ::
    "guint64 \<Rightarrow> 64 value_string_ext \<Rightarrow> (guint option \<times> 64 value_string_ext) res" where
  "try_val64_to_str_ext_init val vse = try_val_to_str_ext_init val vse"

definition try_val64_to_str_ext ::
    "guint64 \<Rightarrow> 64 value_string_ext option \<Rightarrow> (string option \<times> 64 value_string_ext option) res" where
  "try_val64_to_str_ext val vse = try_val_to_str_ext val vse"

definition try_val64_to_str_idx_ext ::
    "guint64 \<Rightarrow> 64 value_string_ext option \<Rightarrow>
      (string option \<times> gint \<times> 64 value_string_ext option) res"
where
  "try_val64_to_str_idx_ext val vse = try_val_to_str_idx_ext val vse"

section \<open>Tables from strings, ranges and byte strings\<close>

text \<open>Every loop runs to the entry whose \<open>strptr\<close> is NULL and stops at the first one that matches.\<close>

fun scan_entries ::
    "('e \<Rightarrow> string option) \<Rightarrow> ('e \<Rightarrow> bool) \<Rightarrow> 'e list \<Rightarrow> gint \<Rightarrow> (string option \<times> gint) res" where
  "scan_entries str matches [] i = Inl Fault"
| "scan_entries str matches (e # es) i =
     (if str e = None then Inr (None, - 1)
      else if matches e then Inr (str e, i)
      else scan_entries str matches es (i + 1))"

record string_string =
  ss_value :: string
  ss_strptr :: "string option"

definition try_str_to_str_idx ::
    "string \<Rightarrow> string_string list option \<Rightarrow> (string option \<times> gint) res" where
  "try_str_to_str_idx val vs =
     (case vs of
        None \<Rightarrow> Inr (None, - 1)
      | Some es \<Rightarrow> scan_entries ss_strptr (\<lambda>e. ss_value e = val) es 0)"

definition try_str_to_str :: "string \<Rightarrow> string_string list option \<Rightarrow> string option res" where
  "try_str_to_str val vs = bindE (try_str_to_str_idx val vs) (\<lambda>(s, i). Inr s)"

record range_string =
  value_min :: guint32
  value_max :: guint32
  rs_strptr :: "string option"

definition try_rval_to_str_idx ::
    "guint32 \<Rightarrow> range_string list option \<Rightarrow> (string option \<times> gint) res" where
  "try_rval_to_str_idx val rs =
     (case rs of
        None \<Rightarrow> Inr (None, - 1)
      | Some es \<Rightarrow>
          scan_entries rs_strptr (\<lambda>e. val \<ge> value_min e \<and> val \<le> value_max e) es 0)"

definition try_rval_to_str :: "guint32 \<Rightarrow> range_string list option \<Rightarrow> string option res" where
  "try_rval_to_str val rs = bindE (try_rval_to_str_idx val rs) (\<lambda>(s, i). Inr s)"

definition try_rval64_to_str_idx ::
    "guint64 \<Rightarrow> range_string list option \<Rightarrow> (string option \<times> gint) res" where
  "try_rval64_to_str_idx val rs =
     (case rs of
        None \<Rightarrow> Inr (None, - 1)
      | Some es \<Rightarrow>
          scan_entries rs_strptr
            (\<lambda>e. val \<ge> ucast (value_min e) \<and> val \<le> ucast (value_max e)) es 0)"

definition try_rval64_to_str :: "guint64 \<Rightarrow> range_string list option \<Rightarrow> string option res" where
  "try_rval64_to_str val rs = bindE (try_rval64_to_str_idx val rs) (\<lambda>(s, i). Inr s)"

definition rval_to_str_const ::
    "guint32 \<Rightarrow> range_string list option \<Rightarrow> string option \<Rightarrow> string res" where
  "rval_to_str_const val rs unknown_str =
     (case unknown_str of
        None \<Rightarrow> Inl DissectorError
      | Some u \<Rightarrow> bindE (try_rval_to_str val rs) (\<lambda>ret. Inr (case ret of Some s \<Rightarrow> s | None \<Rightarrow> u)))"

record bytes_string =
  bs_value :: "guint8 list"
  value_length :: guint
  bs_strptr :: "string option"

text \<open>
  \<open>memcmp\<close> of \<open>n\<close> bytes: both byte strings must have that many. \<open>scan_bytes\<close> is the loop with a
  comparison that may run past the end of one of them.
\<close>

definition memcmp_eq :: "guint8 list \<Rightarrow> guint8 list \<Rightarrow> guint \<Rightarrow> bool res" where
  "memcmp_eq a b n =
     (if unat n \<le> length a \<and> unat n \<le> length b then Inr (take (unat n) a = take (unat n) b)
      else Inl Fault)"

fun scan_bytes :: "(bytes_string \<Rightarrow> bool res) \<Rightarrow> bytes_string list \<Rightarrow> string option res" where
  "scan_bytes matches [] = Inl Fault"
| "scan_bytes matches (e # es) =
     (if bs_strptr e = None then Inr None
      else bindE (matches e) (\<lambda>b. if b then Inr (bs_strptr e) else scan_bytes matches es))"

definition try_bytesval_to_str ::
    "guint8 list \<Rightarrow> guint \<Rightarrow> bytes_string list option \<Rightarrow> string option res" where
  "try_bytesval_to_str val val_len bs =
     (case bs of
        None \<Rightarrow> Inr None
      | Some es \<Rightarrow>
          scan_bytes
            (\<lambda>e. if value_length e = val_len then memcmp_eq (bs_value e) val val_len
                 else Inr False) es)"

definition try_bytesprefix_to_str ::
    "guint8 list \<Rightarrow> guint \<Rightarrow> bytes_string list option \<Rightarrow> string option res" where
  "try_bytesprefix_to_str haystack haystack_len bs =
     (case bs of
        None \<Rightarrow> Inr None
      | Some es \<Rightarrow>
          scan_bytes
            (\<lambda>e. if haystack_len \<ge> value_length e
                 then memcmp_eq (bs_value e) haystack (value_length e) else Inr False) es)"

section \<open>What the searches find\<close>

lemma scan_entries_first:
  "\<forall>e \<in> set es. str e \<noteq> None \<Longrightarrow> str t = None \<Longrightarrow>
   scan_entries str matches (es @ t # rest) i =
     Inr (case find (\<lambda>j. matches (es ! j)) [0..<length es] of
            None \<Rightarrow> (None, - 1)
          | Some j \<Rightarrow> (str (es ! j), i + of_nat j))"
proof (induction es arbitrary: i)
  case (Cons e es)
  then have tail: "scan_entries str matches (es @ t # rest) (i + 1) =
      Inr (case find (\<lambda>j. matches (es ! j)) [0..<length es] of
             None \<Rightarrow> (None, - 1)
           | Some j \<Rightarrow> (str (es ! j), i + 1 + of_nat j))" by simp
  show ?case
    unfolding find_index_Cons [of matches e es]
    using Cons.prems tail by (auto simp: algebra_simps split: option.split)
qed simp

lemma scan_bytes_first:
  "\<forall>e \<in> set es. bs_strptr e \<noteq> None \<and> matches e = Inr (good e) \<Longrightarrow> bs_strptr t = None \<Longrightarrow>
   scan_bytes matches (es @ t # rest) =
     Inr (case find good es of None \<Rightarrow> None | Some e \<Rightarrow> bs_strptr e)"
  by (induction es) auto

text \<open>
  A range table yields the string and index of its first range that contains the value, and NULL
  and -1 when none does, whatever is behind the terminating entry.
\<close>

theorem try_rval_to_str_idx_correct:
  assumes "\<forall>e \<in> set es. rs_strptr e \<noteq> None" "rs_strptr t = None"
  shows "try_rval_to_str_idx val (Some (es @ t # rest)) =
    Inr (case find (\<lambda>j. value_min (es ! j) \<le> val \<and> val \<le> value_max (es ! j)) [0..<length es] of
           None \<Rightarrow> (None, - 1)
         | Some j \<Rightarrow> (rs_strptr (es ! j), of_nat j))"
  using scan_entries_first [OF assms, of "\<lambda>e. value_min e \<le> val \<and> val \<le> value_max e" rest 0]
  by (simp add: try_rval_to_str_idx_def split: option.split)

theorem try_rval_to_str_idx_correct_witness:
  "try_rval_to_str_idx 15 (Some ([\<lparr>value_min = 0, value_max = 10, rs_strptr = Some ''low''\<rparr>,
       \<lparr>value_min = 11, value_max = 20, rs_strptr = Some ''high''\<rparr>] @
     \<lparr>value_min = 0, value_max = 0, rs_strptr = None\<rparr> # [])) = Inr (Some ''high'', 1)"
  by (subst try_rval_to_str_idx_correct) simp_all

text \<open>
  A prefix table yields the string of its first entry that is a prefix of the haystack; the code
  compares no byte beyond the end of the haystack or of an entry.
\<close>

theorem try_bytesprefix_to_str_correct:
  assumes "\<forall>e \<in> set es. bs_strptr e \<noteq> None \<and> unat (value_length e) = length (bs_value e)"
    and "bs_strptr t = None" "unat haystack_len = length haystack"
  shows "try_bytesprefix_to_str haystack haystack_len (Some (es @ t # rest)) =
    Inr (case find (\<lambda>e. take (length (bs_value e)) haystack = bs_value e) es of
           None \<Rightarrow> None
         | Some e \<Rightarrow> bs_strptr e)"
proof -
  let ?m = "\<lambda>e. if haystack_len \<ge> value_length e
      then memcmp_eq (bs_value e) haystack (value_length e) else Inr False"
  have "?m e = Inr (take (length (bs_value e)) haystack = bs_value e)" if "e \<in> set es" for e
  proof (cases "length (bs_value e) \<le> length haystack")
    case True
    with assms that show ?thesis by (auto simp: memcmp_eq_def word_le_nat_alt)
  next
    case False
    then have "take (length (bs_value e)) haystack \<noteq> bs_value e"
      by (metis length_take min.cobounded1 not_le)
    with assms that False show ?thesis by (simp add: word_le_nat_alt)
  qed
  then show ?thesis
    using scan_bytes_first [of es ?m _ t rest] assms(1,2)
    by (simp add: try_bytesprefix_to_str_def)
qed

theorem try_bytesprefix_to_str_correct_witness:
  "try_bytesprefix_to_str [1, 2, 3] 3
     (Some ([\<lparr>bs_value = [1, 3], value_length = 2, bs_strptr = Some ''no''\<rparr>,
             \<lparr>bs_value = [1, 2], value_length = 2, bs_strptr = Some ''yes''\<rparr>] @
       \<lparr>bs_value = [], value_length = 0, bs_strptr = None\<rparr> # [])) = Inr (Some ''yes'')"
  by (subst try_bytesprefix_to_str_correct) simp_all

end
