(* ===== verification/Drange.thy ===== *)
theory Drange
  imports Prelude
begin

text \<open>
  Byte ranges of the display filter language (epan/dfilter/drange.c, epan/dfilter/sttype-range.c), the
  sanity check of epan/dfilter/semcheck.c and the slicing of a field value by a range
  (epan/ftypes/ftypes.c).

  The type operations of a field value are function pointers in its \<open>ftype_t\<close>; \<open>ftype_ops\<close> holds the
  ones that slicing and the filter machine call. \<open>None\<close> is a NULL pointer in the table.
\<close>

section \<open>Range nodes\<close>

datatype drange_node_end_t =
    DRANGE_NODE_END_T_UNINITIALIZED
  | DRANGE_NODE_END_T_LENGTH
  | DRANGE_NODE_END_T_OFFSET
  | DRANGE_NODE_END_T_TO_THE_END

record drange_node =
  start_offset :: gint
  node_length :: gint
  end_offset :: gint
  ending :: drange_node_end_t

definition drange_node_new :: drange_node where
  "drange_node_new =
     \<lparr>start_offset = 0, node_length = 0, end_offset = 0,
      ending = DRANGE_NODE_END_T_UNINITIALIZED\<rparr>"

definition g_assert :: "bool \<Rightarrow> 'a res \<Rightarrow> 'a res" where
  "g_assert b k = (if b then k else Inl Fault)"

lemma g_assert_simps [simp]: "g_assert True k = k" "g_assert False k = Inl Fault"
  by (simp_all add: g_assert_def)

lemma g_assert_Inr_iff [errs]: "g_assert b k = Inr x \<longleftrightarrow> b \<and> k = Inr x"
  by (cases b) simp_all

lemma g_assert_cong [fundef_cong]: "b = b' \<Longrightarrow> (b' \<Longrightarrow> k = k') \<Longrightarrow> g_assert b k = g_assert b' k'"
  by (cases b') auto

definition drange_node_get_start_offset :: "drange_node \<Rightarrow> gint res" where
  "drange_node_get_start_offset drnode =
     g_assert (ending drnode \<noteq> DRANGE_NODE_END_T_UNINITIALIZED) (Inr (start_offset drnode))"

definition drange_node_get_length :: "drange_node \<Rightarrow> gint res" where
  "drange_node_get_length drnode =
     g_assert (ending drnode = DRANGE_NODE_END_T_LENGTH) (Inr (node_length drnode))"

definition drange_node_get_end_offset :: "drange_node \<Rightarrow> gint res" where
  "drange_node_get_end_offset drnode =
     g_assert (ending drnode = DRANGE_NODE_END_T_OFFSET) (Inr (end_offset drnode))"

definition drange_node_get_ending :: "drange_node \<Rightarrow> drange_node_end_t res" where
  "drange_node_get_ending drnode =
     g_assert (ending drnode \<noteq> DRANGE_NODE_END_T_UNINITIALIZED) (Inr (ending drnode))"

definition drange_node_set_start_offset :: "gint \<Rightarrow> drange_node \<Rightarrow> drange_node" where
  "drange_node_set_start_offset offset drnode = drnode\<lparr>start_offset := offset\<rparr>"

definition drange_node_set_length :: "gint \<Rightarrow> drange_node \<Rightarrow> drange_node" where
  "drange_node_set_length len drnode =
     drnode\<lparr>node_length := len, ending := DRANGE_NODE_END_T_LENGTH\<rparr>"

definition drange_node_set_end_offset :: "gint \<Rightarrow> drange_node \<Rightarrow> drange_node" where
  "drange_node_set_end_offset offset drnode =
     drnode\<lparr>end_offset := offset, ending := DRANGE_NODE_END_T_OFFSET\<rparr>"

definition drange_node_set_to_the_end :: "drange_node \<Rightarrow> drange_node" where
  "drange_node_set_to_the_end drnode = drnode\<lparr>ending := DRANGE_NODE_END_T_TO_THE_END\<rparr>"

section \<open>Ranges\<close>

record drange_t =
  range_list :: "drange_node list"
  has_total_length :: bool
  total_length :: gint
  min_start_offset :: gint
  max_start_offset :: gint

definition drange_new :: drange_t where
  "drange_new =
     \<lparr>range_list = [], has_total_length = True, total_length = 0, min_start_offset = 0x7FFFFFFF,
      max_start_offset = 0x80000000\<rparr>"

definition update_drange_with_node :: "drange_t \<Rightarrow> drange_node \<Rightarrow> drange_t" where
  "update_drange_with_node dr drnode =
     (let dr1 = (if ending drnode = DRANGE_NODE_END_T_TO_THE_END then dr\<lparr>has_total_length := False\<rparr>
                 else if has_total_length dr then
                   dr\<lparr>total_length := total_length dr + node_length drnode\<rparr>
                 else dr);
          dr2 = (if start_offset drnode <s min_start_offset dr1 then
                   dr1\<lparr>min_start_offset := start_offset drnode\<rparr>
                 else dr1)
      in if max_start_offset dr2 <s start_offset drnode then
           dr2\<lparr>max_start_offset := start_offset drnode\<rparr>
         else dr2)"

definition drange_prepend_drange_node :: "drange_t \<Rightarrow> drange_node option \<Rightarrow> drange_t" where
  "drange_prepend_drange_node dr drnode =
     (case drnode of
        None \<Rightarrow> dr
      | Some n \<Rightarrow> update_drange_with_node (dr\<lparr>range_list := n # range_list dr\<rparr>) n)"

definition drange_append_drange_node :: "drange_t \<Rightarrow> drange_node option \<Rightarrow> drange_t" where
  "drange_append_drange_node dr drnode =
     (case drnode of
        None \<Rightarrow> dr
      | Some n \<Rightarrow> update_drange_with_node (dr\<lparr>range_list := range_list dr @ [n]\<rparr>) n)"

definition drange_new_from_list :: "drange_node list \<Rightarrow> drange_t" where
  "drange_new_from_list l = foldl (\<lambda>dr n. drange_append_drange_node dr (Some n)) drange_new l"

definition drange_node_dup :: "drange_node \<Rightarrow> drange_node" where
  "drange_node_dup org =
     \<lparr>start_offset = start_offset org, node_length = node_length org, end_offset = end_offset org,
      ending = ending org\<rparr>"

definition drange_dup :: "drange_t option \<Rightarrow> drange_t option" where
  "drange_dup org =
     (case org of
        None \<Rightarrow> None
      | Some d \<Rightarrow>
          Some (foldl (\<lambda>dr n. drange_append_drange_node dr (Some (drange_node_dup n))) drange_new
                  (range_list d)))"

section \<open>The sanity check\<close>

text \<open>
  \<open>check_drange_node_sanity\<close> on every node; the result is whether \<open>args.err\<close> stays FALSE, and
  \<open>check_drange_sanity\<close> throws \<open>TypeError\<close> when it does not. The message is not modelled.
\<close>

definition check_drange_node_sanity :: "drange_node \<Rightarrow> bool \<Rightarrow> bool res" where
  "check_drange_node_sanity drnode err =
     bindE (drange_node_get_ending drnode) (\<lambda>e.
       case e of
         DRANGE_NODE_END_T_LENGTH \<Rightarrow>
           bindE (drange_node_get_length drnode) (\<lambda>len. Inr (if len \<le>s 0 then True else err))
       | DRANGE_NODE_END_T_OFFSET \<Rightarrow>
           bindE (drange_node_get_start_offset drnode) (\<lambda>start.
           bindE (drange_node_get_end_offset drnode) (\<lambda>end_off.
             Inr (if end_off <s start then True else err)))
       | DRANGE_NODE_END_T_TO_THE_END \<Rightarrow> Inr err
       | DRANGE_NODE_END_T_UNINITIALIZED \<Rightarrow> Inl Fault)"

fun check_nodes :: "drange_node list \<Rightarrow> bool \<Rightarrow> bool res" where
  "check_nodes [] err = Inr err"
| "check_nodes (n # ns) err = bindE (check_drange_node_sanity n err) (\<lambda>err'. check_nodes ns err')"

definition check_drange_sanity :: "drange_t \<Rightarrow> unit res" where
  "check_drange_sanity dr =
     bindE (check_nodes (range_list dr) False) (\<lambda>err. if err then Inl TypeError else Inr ())"

section \<open>Slicing a value\<close>

datatype any_op =
  ANY_EQ | ANY_NE | ANY_GT | ANY_GE | ANY_LT | ANY_LE | ANY_BITWISE_AND | ANY_CONTAINS | ANY_MATCHES

text \<open>
  \<open>op_cmp\<close> stands for \<open>fvalue_eq\<close>, \<open>fvalue_ne\<close> and the others of epan/ftypes/ftypes.c, which call the
  function in the table of the first value; \<open>op_bytes\<close> for \<open>fvalue_new(FT_BYTES)\<close> followed by
  \<open>fvalue_set_byte_array\<close>.
\<close>

record 'v ftype_ops =
  op_length :: "'v \<Rightarrow> guint"
  op_slice :: "'v \<Rightarrow> guint \<Rightarrow> guint \<Rightarrow> guint8 list res"
  op_bytes :: "guint8 list \<Rightarrow> 'v"
  op_cmp :: "any_op \<Rightarrow> 'v \<Rightarrow> 'v \<Rightarrow> bool res"

text \<open>An addition of \<open>gint\<close>s that overflows is undefined.\<close>

definition gint_add :: "gint \<Rightarrow> gint \<Rightarrow> gint res" where
  "gint_add a b =
     (if sint a + sint b \<in> {- 0x80000000..0x7FFFFFFF} then Inr (a + b) else Inl Fault)"

record slice_data =
  slice_bytes :: "guint8 list"
  slice_failure :: bool

text \<open>The end of \<open>slice_func\<close>: the assertion and the call of the slice function of the type.\<close>

definition slice_part :: "'v ftype_ops \<Rightarrow> 'v \<Rightarrow> gint \<Rightarrow> gint \<Rightarrow> slice_data \<Rightarrow> slice_data res" where
  "slice_part ops fv start len sd =
     g_assert (0 \<le>s start \<and> 0 <s len)
       (bindE (op_slice ops fv start len) (\<lambda>bs. Inr (sd\<lparr>slice_bytes := slice_bytes sd @ bs\<rparr>)))"

definition slice_func :: "'v ftype_ops \<Rightarrow> 'v \<Rightarrow> drange_node \<Rightarrow> slice_data \<Rightarrow> slice_data res" where
  "slice_func ops fv drnode sd =
     (if slice_failure sd then Inr sd
      else
        bindE (drange_node_get_start_offset drnode) (\<lambda>start0.
        bindE (drange_node_get_ending drnode) (\<lambda>end_kind.
          let field_length = op_length ops fv;
              failed = Inr (sd\<lparr>slice_failure := True\<rparr>);
              start = (if start0 <s 0 then field_length + start0 else start0)
          in if start0 <s 0 \<and> start <s 0 then failed
             else
               (case end_kind of
                  DRANGE_NODE_END_T_TO_THE_END \<Rightarrow>
                    (let len = field_length - start in if len \<le>s 0 then failed else slice_part ops fv start len sd)
                | DRANGE_NODE_END_T_LENGTH \<Rightarrow>
                    bindE (drange_node_get_length drnode) (\<lambda>len.
                    bindE (gint_add start len) (\<lambda>sum.
                      if field_length <s sum then failed else slice_part ops fv start len sd))
                | DRANGE_NODE_END_T_OFFSET \<Rightarrow>
                    bindE (drange_node_get_end_offset drnode) (\<lambda>end0.
                      if end0 <s 0 then
                        (let end_off = field_length + end0
                         in if end_off <s start then failed else slice_part ops fv start (end_off - start + 1) sd)
                      else if field_length \<le>s end0 then failed
                      else slice_part ops fv start (end0 - start + 1) sd)
                | DRANGE_NODE_END_T_UNINITIALIZED \<Rightarrow> Inl Fault))))"

fun slice_nodes :: "'v ftype_ops \<Rightarrow> 'v \<Rightarrow> drange_node list \<Rightarrow> slice_data \<Rightarrow> slice_data res" where
  "slice_nodes ops fv [] sd = Inr sd"
| "slice_nodes ops fv (n # ns) sd = bindE (slice_func ops fv n sd) (\<lambda>sd'. slice_nodes ops fv ns sd')"

definition fvalue_slice :: "'v ftype_ops \<Rightarrow> 'v \<Rightarrow> drange_t \<Rightarrow> 'v res" where
  "fvalue_slice ops fv d_range =
     bindE (slice_nodes ops fv (range_list d_range) \<lparr>slice_bytes = [], slice_failure = False\<rparr>)
       (\<lambda>sd. Inr (op_bytes ops (slice_bytes sd)))"

end
