(* ===== verification/Ftypes.thy ===== *)
theory Ftypes
  imports Drange
begin

text \<open>
  Field values and the operations of their types (epan/ftypes/ftype-bytes.c, ftype-integer.c and
  ftype-string.c), dispatched as epan/ftypes/ftypes.c does.

  \<open>fvalue_t\<close> is a tagged union. A constructor stands for the types that share the member of the union
  and the comparison functions; integers carry the \<open>wire_size\<close> of their type. The signed and
  the unsigned member of one width are the same bits, which a comparison may read as either; 64-bit
  integers and booleans share a member. A comparison of values of other different members reads bytes
  that were not written and is a \<open>Fault\<close>.
  A compiled regular expression of GRegex is a value of the type \<open>'r\<close>. \<open>OTHER\<close> is a value of FT_NONE, whose
  table has no functions, or of a type that is not modelled (protocols, floating point, addresses with
  functions of their own, times, GUIDs), with its length; comparing or slicing it is outside the model
  and faults.
\<close>

datatype 'r fvalue =
    BYTES "guint8 list"
  | UINTEGER guint guint32
  | SINTEGER guint gint32
  | UINTEGER64 guint guint64
  | SINTEGER64 guint gint64
  | BOOLEAN guint64
  | STRING "guint8 list"
  | PCRE 'r
  | OTHER ftenum guint

section \<open>Bytes\<close>

text \<open>The comparisons order by length first.\<close>

definition bytes_cmp_eq :: "guint8 list \<Rightarrow> guint8 list \<Rightarrow> bool" where
  "bytes_cmp_eq a b = (if length a \<noteq> length b then False else strcmp a b = 0)"

definition bytes_cmp_ne :: "guint8 list \<Rightarrow> guint8 list \<Rightarrow> bool" where
  "bytes_cmp_ne a b = (if length a \<noteq> length b then True else strcmp a b \<noteq> 0)"

definition bytes_cmp_gt :: "guint8 list \<Rightarrow> guint8 list \<Rightarrow> bool" where
  "bytes_cmp_gt a b =
     (if length a > length b then True else if length a < length b then False else strcmp a b > 0)"

definition bytes_cmp_ge :: "guint8 list \<Rightarrow> guint8 list \<Rightarrow> bool" where
  "bytes_cmp_ge a b =
     (if length a > length b then True else if length a < length b then False else strcmp a b \<ge> 0)"

definition bytes_cmp_lt :: "guint8 list \<Rightarrow> guint8 list \<Rightarrow> bool" where
  "bytes_cmp_lt a b =
     (if length a < length b then True else if length a > length b then False else strcmp a b < 0)"

definition bytes_cmp_le :: "guint8 list \<Rightarrow> guint8 list \<Rightarrow> bool" where
  "bytes_cmp_le a b =
     (if length a < length b then True else if length a > length b then False else strcmp a b \<le> 0)"

text \<open>The loop over both arrays.\<close>

fun and_loop :: "guint8 list \<Rightarrow> guint8 list \<Rightarrow> bool" where
  "and_loop (x # xs) (y # ys) = (if x AND y \<noteq> 0 then True else and_loop xs ys)"
| "and_loop _ _ = False"

definition bytes_cmp_bitwise_and :: "guint8 list \<Rightarrow> guint8 list \<Rightarrow> bool" where
  "bytes_cmp_bitwise_and a b = (if length b \<noteq> length a then False else and_loop a b)"

text \<open>
  \<open>epan_memmem\<close> (epan/strutil.c): the offset of the first match, by a loop over the offsets up to the
  last possible one.
\<close>

function memmem_loop :: "guint8 list \<Rightarrow> guint8 list \<Rightarrow> nat \<Rightarrow> nat \<Rightarrow> nat option" where
  "memmem_loop haystack needle begin last_possible =
     (if begin \<le> last_possible then
        (if haystack ! begin = needle ! 0 \<and>
            take (length needle - 1) (drop (begin + 1) haystack) = drop 1 needle
         then Some begin
         else memmem_loop haystack needle (begin + 1) last_possible)
      else None)"
  by pat_completeness auto
termination memmem_loop
  by (relation "measure (\<lambda>(h, n, b, l). Suc l - b)") auto

declare memmem_loop.simps [simp del]

definition epan_memmem :: "guint8 list \<Rightarrow> guint8 list \<Rightarrow> nat option" where
  "epan_memmem haystack needle =
     (if length needle = 0 then None
      else if length needle > length haystack then None
      else memmem_loop haystack needle 0 (length haystack - length needle))"

definition bytes_cmp_contains :: "guint8 list \<Rightarrow> guint8 list \<Rightarrow> bool" where
  "bytes_cmp_contains a b = (epan_memmem a b \<noteq> None)"

definition bytes_slice :: "guint8 list \<Rightarrow> guint \<Rightarrow> guint \<Rightarrow> guint8 list res" where
  "bytes_slice bs offset len =
     (if unat offset + unat len \<le> length bs then Inr (take (unat len) (drop (unat offset) bs))
      else Inl Fault)"

section \<open>Integers\<close>

definition uinteger_cmp :: "any_op \<Rightarrow> 'w::len word \<Rightarrow> 'w word \<Rightarrow> bool res" where
  "uinteger_cmp op a b =
     (case op of
        ANY_EQ \<Rightarrow> Inr (a = b)
      | ANY_NE \<Rightarrow> Inr (a \<noteq> b)
      | ANY_GT \<Rightarrow> Inr (a > b)
      | ANY_GE \<Rightarrow> Inr (a \<ge> b)
      | ANY_LT \<Rightarrow> Inr (a < b)
      | ANY_LE \<Rightarrow> Inr (a \<le> b)
      | ANY_BITWISE_AND \<Rightarrow> Inr (a AND b \<noteq> 0)
      | ANY_CONTAINS \<Rightarrow> Inl Fault
      | ANY_MATCHES \<Rightarrow> Inl Fault)"

definition sinteger_cmp :: "any_op \<Rightarrow> 'w::len word \<Rightarrow> 'w word \<Rightarrow> bool res" where
  "sinteger_cmp op a b =
     (case op of
        ANY_EQ \<Rightarrow> Inr (a = b)
      | ANY_NE \<Rightarrow> Inr (a \<noteq> b)
      | ANY_GT \<Rightarrow> Inr (b <s a)
      | ANY_GE \<Rightarrow> Inr (b \<le>s a)
      | ANY_LT \<Rightarrow> Inr (a <s b)
      | ANY_LE \<Rightarrow> Inr (a \<le>s b)
      | ANY_BITWISE_AND \<Rightarrow> Inr (a AND b \<noteq> 0)
      | ANY_CONTAINS \<Rightarrow> Inl Fault
      | ANY_MATCHES \<Rightarrow> Inl Fault)"

definition bool_eq :: "guint64 \<Rightarrow> guint64 \<Rightarrow> bool" where
  "bool_eq a b = (if a \<noteq> 0 then (if b \<noteq> 0 then True else False) else (if b \<noteq> 0 then False else True))"

definition boolean_cmp :: "any_op \<Rightarrow> guint64 \<Rightarrow> guint64 \<Rightarrow> bool res" where
  "boolean_cmp op a b =
     (case op of ANY_EQ \<Rightarrow> Inr (bool_eq a b) | ANY_NE \<Rightarrow> Inr (\<not> bool_eq a b) | _ \<Rightarrow> Inl Fault)"

section \<open>Strings\<close>

text \<open>\<open>strstr\<close> of the C library: whether the second string occurs in the first.\<close>

definition strstr :: "guint8 list \<Rightarrow> guint8 list \<Rightarrow> bool" where
  "strstr s t = (\<exists>i \<in> set [0..<Suc (length s)]. take (length t) (drop i s) = t)"

definition string_cmp_contains :: "guint8 list \<Rightarrow> guint8 list \<Rightarrow> bool" where
  "string_cmp_contains a b = (if length b = 0 then False else if strstr a b then True else False)"

section \<open>Dispatch\<close>

definition fvalue_length :: "'r fvalue \<Rightarrow> guint" where
  "fvalue_length fv =
     (case fv of
        BYTES bs \<Rightarrow> of_nat (length bs)
      | UINTEGER wire_size _ \<Rightarrow> wire_size
      | SINTEGER wire_size _ \<Rightarrow> wire_size
      | UINTEGER64 wire_size _ \<Rightarrow> wire_size
      | SINTEGER64 wire_size _ \<Rightarrow> wire_size
      | BOOLEAN _ \<Rightarrow> 0
      | STRING s \<Rightarrow> of_nat (length s)
      | PCRE _ \<Rightarrow> 0
      | OTHER _ len \<Rightarrow> len)"

text \<open>The slice function of the type; the pointer is NULL for the integers.\<close>

definition fvalue_slice_func :: "'r fvalue \<Rightarrow> guint \<Rightarrow> guint \<Rightarrow> guint8 list res" where
  "fvalue_slice_func fv offset len =
     (case fv of
        BYTES bs \<Rightarrow> bytes_slice bs offset len
      | STRING s \<Rightarrow> bytes_slice s offset len
      | _ \<Rightarrow> Inl Fault)"

definition bytes_cmp ::
    "('r \<Rightarrow> guint8 list \<Rightarrow> bool) \<Rightarrow> any_op \<Rightarrow> guint8 list \<Rightarrow> 'r fvalue \<Rightarrow> bool res" where
  "bytes_cmp g_regex_match_full op a fv_b =
     (case fv_b of
        BYTES b \<Rightarrow>
          Inr (case op of
                 ANY_EQ \<Rightarrow> bytes_cmp_eq a b
               | ANY_NE \<Rightarrow> bytes_cmp_ne a b
               | ANY_GT \<Rightarrow> bytes_cmp_gt a b
               | ANY_GE \<Rightarrow> bytes_cmp_ge a b
               | ANY_LT \<Rightarrow> bytes_cmp_lt a b
               | ANY_LE \<Rightarrow> bytes_cmp_le a b
               | ANY_BITWISE_AND \<Rightarrow> bytes_cmp_bitwise_and a b
               | ANY_CONTAINS \<Rightarrow> bytes_cmp_contains a b
               | ANY_MATCHES \<Rightarrow> False)
      | PCRE regex \<Rightarrow>
          (case op of ANY_MATCHES \<Rightarrow> Inr (g_regex_match_full regex a) | _ \<Rightarrow> Inl Fault)
      | _ \<Rightarrow> (case op of ANY_MATCHES \<Rightarrow> Inr False | _ \<Rightarrow> Inl Fault))"

definition string_cmp_op ::
    "('r \<Rightarrow> guint8 list \<Rightarrow> bool) \<Rightarrow> any_op \<Rightarrow> guint8 list \<Rightarrow> 'r fvalue \<Rightarrow> bool res" where
  "string_cmp_op g_regex_match_full op a fv_b =
     (case fv_b of
        STRING b \<Rightarrow>
          (case op of
             ANY_EQ \<Rightarrow> Inr (strcmp a b = 0)
           | ANY_NE \<Rightarrow> Inr (strcmp a b \<noteq> 0)
           | ANY_GT \<Rightarrow> Inr (strcmp a b > 0)
           | ANY_GE \<Rightarrow> Inr (strcmp a b \<ge> 0)
           | ANY_LT \<Rightarrow> Inr (strcmp a b < 0)
           | ANY_LE \<Rightarrow> Inr (strcmp a b \<le> 0)
           | ANY_BITWISE_AND \<Rightarrow> Inl Fault
           | ANY_CONTAINS \<Rightarrow> Inr (string_cmp_contains a b)
           | ANY_MATCHES \<Rightarrow> Inr False)
      | PCRE regex \<Rightarrow>
          (case op of ANY_MATCHES \<Rightarrow> Inr (g_regex_match_full regex a) | _ \<Rightarrow> Inl Fault)
      | _ \<Rightarrow> (case op of ANY_MATCHES \<Rightarrow> Inr False | _ \<Rightarrow> Inl Fault))"

text \<open>The members \<open>uinteger\<close> and \<open>sinteger\<close>, and \<open>uinteger64\<close> and \<open>sinteger64\<close>, of the union.\<close>

definition int_member :: "'r fvalue \<Rightarrow> guint32 res" where
  "int_member fv = (case fv of UINTEGER _ v \<Rightarrow> Inr v | SINTEGER _ v \<Rightarrow> Inr v | _ \<Rightarrow> Inl Fault)"

definition int64_member :: "'r fvalue \<Rightarrow> guint64 res" where
  "int64_member fv =
     (case fv of
        UINTEGER64 _ v \<Rightarrow> Inr v
      | SINTEGER64 _ v \<Rightarrow> Inr v
      | BOOLEAN v \<Rightarrow> Inr v
      | _ \<Rightarrow> Inl Fault)"

text \<open>
  \<open>fvalue_eq\<close>, \<open>fvalue_ne\<close> and so on: the function in the table of the first value, which has to exist,
  on both values.
\<close>

definition fvalue_cmp ::
    "('r \<Rightarrow> guint8 list \<Rightarrow> bool) \<Rightarrow> any_op \<Rightarrow> 'r fvalue \<Rightarrow> 'r fvalue \<Rightarrow> bool res" where
  "fvalue_cmp g_regex_match_full op fv_a fv_b =
     (case fv_a of
        BYTES a \<Rightarrow> bytes_cmp g_regex_match_full op a fv_b
      | STRING a \<Rightarrow> string_cmp_op g_regex_match_full op a fv_b
      | UINTEGER _ a \<Rightarrow> bindE (int_member fv_b) (uinteger_cmp op a)
      | SINTEGER _ a \<Rightarrow> bindE (int_member fv_b) (sinteger_cmp op a)
      | UINTEGER64 _ a \<Rightarrow> bindE (int64_member fv_b) (uinteger_cmp op a)
      | SINTEGER64 _ a \<Rightarrow> bindE (int64_member fv_b) (sinteger_cmp op a)
      | BOOLEAN a \<Rightarrow> bindE (int64_member fv_b) (boolean_cmp op a)
      | PCRE _ \<Rightarrow> Inl Fault
      | OTHER _ _ \<Rightarrow> Inl Fault)"

definition fvalue_ops :: "('r \<Rightarrow> guint8 list \<Rightarrow> bool) \<Rightarrow> 'r fvalue ftype_ops" where
  "fvalue_ops g_regex_match_full =
     \<lparr>op_length = fvalue_length, op_slice = fvalue_slice_func, op_bytes = BYTES,
      op_cmp = fvalue_cmp g_regex_match_full\<rparr>"

end
