(* ===== verification/DrangeProps.thy ===== *)
theory DrangeProps
  imports Drange
begin

text \<open>
  What a range selects from a value, as a list of parts, and the proof that \<open>slice_func\<close> cuts out
  these parts, for every type whose length and slice functions describe a byte string.
\<close>

section \<open>The part a node selects\<close>

definition resolve :: "nat \<Rightarrow> gint \<Rightarrow> int" where
  "resolve n offset = (if sint offset < 0 then int n + sint offset else sint offset)"

definition node_part :: "nat \<Rightarrow> drange_node \<Rightarrow> (nat \<times> nat) option" where
  "node_part n drnode =
     (let s = resolve n (start_offset drnode)
      in if s < 0 then None
         else (case ending drnode of
                 DRANGE_NODE_END_T_TO_THE_END \<Rightarrow>
                   if s < int n then Some (nat s, n - nat s) else None
               | DRANGE_NODE_END_T_LENGTH \<Rightarrow>
                   if s + sint (node_length drnode) \<le> int n
                   then Some (nat s, nat (sint (node_length drnode))) else None
               | DRANGE_NODE_END_T_OFFSET \<Rightarrow>
                   (let e = resolve n (end_offset drnode)
                    in if s \<le> e \<and> e < int n then Some (nat s, nat (e - s + 1)) else None)
               | DRANGE_NODE_END_T_UNINITIALIZED \<Rightarrow> None))"

definition part_bytes :: "guint8 list \<Rightarrow> drange_node \<Rightarrow> guint8 list" where
  "part_bytes bs drnode =
     (case node_part (length bs) drnode of None \<Rightarrow> [] | Some (i, l) \<Rightarrow> take l (drop i bs))"

definition inside :: "guint8 list \<Rightarrow> drange_node \<Rightarrow> bool" where
  "inside bs drnode = (node_part (length bs) drnode \<noteq> None)"

text \<open>The nodes that pass the sanity check.\<close>

definition sane_node :: "drange_node \<Rightarrow> bool" where
  "sane_node drnode =
     (case ending drnode of
        DRANGE_NODE_END_T_TO_THE_END \<Rightarrow> True
      | DRANGE_NODE_END_T_LENGTH \<Rightarrow> 0 < sint (node_length drnode)
      | DRANGE_NODE_END_T_OFFSET \<Rightarrow> sint (start_offset drnode) \<le> sint (end_offset drnode)
      | DRANGE_NODE_END_T_UNINITIALIZED \<Rightarrow> False)"

lemma check_node: "sane_node n \<Longrightarrow> check_drange_node_sanity n err = Inr err"
  by (auto simp: sane_node_def check_drange_node_sanity_def drange_node_get_ending_def
      drange_node_get_length_def drange_node_get_start_offset_def drange_node_get_end_offset_def
      word_sle_eq word_sless_alt split: drange_node_end_t.splits)

lemma check_nodes_ok: "\<forall>n \<in> set ns. sane_node n \<Longrightarrow> check_nodes ns err = Inr err"
  by (induction ns) (simp_all add: check_node)

lemma check_node_mono: "check_drange_node_sanity n err = Inr err' \<Longrightarrow> err \<Longrightarrow> err'"
  by (cases "ending n") (auto simp: check_drange_node_sanity_def drange_node_get_ending_def errs)

lemma check_nodes_mono: "check_nodes ns err = Inr err' \<Longrightarrow> err \<Longrightarrow> err'"
  by (induction ns arbitrary: err) (auto simp: errs dest: check_node_mono)

lemma check_node_False: "check_drange_node_sanity n False = Inr False \<Longrightarrow> sane_node n"
  by (cases "ending n") (auto simp: sane_node_def check_drange_node_sanity_def
      drange_node_get_ending_def drange_node_get_length_def drange_node_get_start_offset_def
      drange_node_get_end_offset_def word_sle_eq word_sless_alt split: if_splits)

lemma check_nodes_False: "check_nodes ns False = Inr False \<Longrightarrow> \<forall>n \<in> set ns. sane_node n"
proof (induction ns)
  case (Cons n ns)
  then obtain err' where e: "check_drange_node_sanity n False = Inr err'" "check_nodes ns err' = Inr False"
    by (auto simp: errs)
  then have "\<not> err'" using check_nodes_mono by blast
  then show ?case using e Cons.IH check_node_False by simp
qed simp

lemma check_drange_sanity_iff:
  "check_drange_sanity dr = Inr () \<longleftrightarrow> (\<forall>n \<in> set (range_list dr). sane_node n)"
  using check_nodes_False [of "range_list dr"] check_nodes_ok [of "range_list dr" False]
  by (auto simp: check_drange_sanity_def errs split: if_splits)

text \<open>
  Two kinds of nodes pass the check and still must not reach the slicing code: one that starts at a
  negative offset and ends at a non-negative one, and one whose length makes the sum overflow.
\<close>

definition straddles :: "drange_node \<Rightarrow> bool" where
  "straddles drnode =
     (ending drnode = DRANGE_NODE_END_T_OFFSET \<and> sint (start_offset drnode) < 0 \<and>
      0 \<le> sint (end_offset drnode))"

definition overflows :: "nat \<Rightarrow> drange_node \<Rightarrow> bool" where
  "overflows n drnode =
     (ending drnode = DRANGE_NODE_END_T_LENGTH \<and>
      resolve n (start_offset drnode) + sint (node_length drnode) > 0x7FFFFFFF)"

section \<open>Signed arithmetic without overflow\<close>

lemma sint_bounds: "- 0x80000000 \<le> sint (w :: gint)" "sint w \<le> 0x7FFFFFFF"
  using sint_greater_eq [of w] sint_less [of w] by simp_all

definition signed_of :: "int \<Rightarrow> int" where
  "signed_of x = (if x < 0x80000000 then x else x - 0x100000000)"

lemma signed_of_wrap:
  assumes "- 0x80000000 \<le> i" "i \<le> 0x7FFFFFFF"
    and "x = i \<or> x = i + 0x100000000" "0 \<le> x" "x < 0x100000000"
  shows "signed_of x = i"
  using assms by (auto simp: signed_of_def)

lemma sint_signed_of: "sint (w :: gint) = signed_of (uint w)"
  by (simp add: sint_gint signed_of_def)

lemma uint_by_sint:
  "uint (w :: gint) = sint w \<or> uint w = sint w + 0x100000000"
  by (simp add: sint_gint)

lemma sint_minus:
  assumes "0 \<le> sint a" "0 \<le> sint b"
  shows "sint (a - b :: gint) = sint a - sint b"
  unfolding sint_signed_of [of "a - b"]
proof (rule signed_of_wrap)
  show "- 0x80000000 \<le> sint a - sint b" "sint a - sint b \<le> 0x7FFFFFFF"
    using assms sint_bounds [of a] sint_bounds [of b] by linarith+
  show "uint (a - b) = sint a - sint b \<or> uint (a - b) = sint a - sint b + 0x100000000"
    using assms uint_by_sint [of a] uint_by_sint [of b] uint_bounds [of a] uint_bounds [of b]
      sint_bounds [of a] sint_bounds [of b] uint_sub [of a b] by presburger
qed (use uint_bounds [of "a - b"] in simp_all)

lemma sint_plus:
  assumes "- 0x80000000 \<le> sint a + sint b" "sint a + sint b \<le> 0x7FFFFFFF"
  shows "sint (a + b :: gint) = sint a + sint b"
  unfolding sint_signed_of [of "a + b"]
proof (rule signed_of_wrap)
  show "uint (a + b) = sint a + sint b \<or> uint (a + b) = sint a + sint b + 0x100000000"
    using assms uint_by_sint [of a] uint_by_sint [of b] uint_bounds [of a] uint_bounds [of b]
      sint_bounds [of a] sint_bounds [of b] uint_add [of a b] by presburger
qed (use assms uint_bounds [of "a + b"] in simp_all)

lemma uint_sint: "0 \<le> sint (w :: gint) \<Longrightarrow> uint w = sint w"
  using uint_bounds [of w] by (auto simp: sint_gint split: if_splits)

lemma sint_span:
  assumes "0 \<le> sint a" "sint a \<le> sint b" "sint b < 0x7FFFFFFF"
  shows "sint (b - a + 1 :: gint) = sint b - sint a + 1"
  using sint_plus [of "b - a" 1] sint_minus [of b a] assms by simp

section \<open>Types whose values are byte strings\<close>

locale sliceable =
  fixes ops :: "'v ftype_ops" and content :: "'v \<Rightarrow> guint8 list" and proper :: "'v \<Rightarrow> bool"
  assumes length_bound: "proper v \<Longrightarrow> length (content v) < 0x80000000"
    and op_length: "proper v \<Longrightarrow> op_length ops v = of_nat (length (content v))"
    and op_slice: "proper v \<Longrightarrow> unat i + unat l \<le> length (content v) \<Longrightarrow>
      op_slice ops v i l = Inr (take (unat l) (drop (unat i) (content v)))"
begin

lemma uint_length: "proper v \<Longrightarrow> uint (op_length ops v) = int (length (content v))"
  using length_bound [of v] op_length [of v] by (simp add: unsigned_of_nat take_bit_nat_eq_self)

lemma op_slice_uint:
  assumes "proper v" "uint i = int s" "uint l = int k" "s + k \<le> length (content v)"
  shows "op_slice ops v i l = Inr (take k (drop s (content v)))"
proof -
  have "unat i = s" "unat l = k" using assms(2,3) by (simp_all add: unat_eq_nat_uint)
  then show ?thesis using op_slice [OF assms(1), of i l] assms(4) by simp
qed

lemma start_eq:
  assumes "proper v"
  shows "sint (if w <s 0 then op_length ops v + w else w) = resolve (length (content v)) w"
  using uint_length [OF assms] length_bound [OF assms] uint_bounds [of w]
  by (auto simp: resolve_def gint_arith)

lemma length_sint: "proper v \<Longrightarrow> sint (op_length ops v) = int (length (content v))"
  using uint_length [of v] length_bound [of v] by (simp add: sint_gint)

lemma slice_func_unfold:
  assumes "ending n \<noteq> DRANGE_NODE_END_T_UNINITIALIZED" "\<not> slice_failure sd"
    and s: "s = (if start_offset n <s 0 then op_length ops v + start_offset n else start_offset n)"
    and e: "e = (if end_offset n <s 0 then op_length ops v + end_offset n else end_offset n)"
  shows "slice_func ops v n sd =
    (let fl = op_length ops v; failed = Inr (sd\<lparr>slice_failure := True\<rparr>)
     in if start_offset n <s 0 \<and> s <s 0 then failed
        else case ending n of
          DRANGE_NODE_END_T_TO_THE_END \<Rightarrow>
            if fl - s \<le>s 0 then failed else slice_part ops v s (fl - s) sd
        | DRANGE_NODE_END_T_LENGTH \<Rightarrow>
            bindE (gint_add s (node_length n)) (\<lambda>sum.
              if fl <s sum then failed else slice_part ops v s (node_length n) sd)
        | DRANGE_NODE_END_T_OFFSET \<Rightarrow>
            if end_offset n <s 0 \<and> e <s s \<or> \<not> end_offset n <s 0 \<and> fl \<le>s e then failed
            else slice_part ops v s (e - s + 1) sd
        | DRANGE_NODE_END_T_UNINITIALIZED \<Rightarrow> Inl Fault)"
  using assms(1,2) unfolding s e
  by (cases "ending n") (simp_all add: slice_func_def drange_node_get_start_offset_def
      drange_node_get_ending_def drange_node_get_length_def drange_node_get_end_offset_def Let_def)

lemma slice_func_part:
  assumes v: "proper v" and n: "sane_node n" "\<not> straddles n" "\<not> overflows (length (content v)) n"
    and ok: "\<not> slice_failure sd"
  shows "slice_func ops v n sd =
           Inr (if inside (content v) n
                then sd\<lparr>slice_bytes := slice_bytes sd @ part_bytes (content v) n\<rparr>
                else sd\<lparr>slice_failure := True\<rparr>)"
proof -
  let ?N = "length (content v)" and ?fl = "op_length ops v"
  define s where "s = (if start_offset n <s 0 then ?fl + start_offset n else start_offset n)"
  define e where "e = (if end_offset n <s 0 then ?fl + end_offset n else end_offset n)"
  define S where "S = resolve ?N (start_offset n)"
  define E where "E = resolve ?N (end_offset n)"
  have S: "sint s = S" and E: "sint e = E"
    unfolding s_def S_def e_def E_def by (rule start_eq [OF v])+
  have N: "sint ?fl = int ?N" "?N < 0x80000000" using length_sint [OF v] length_bound [OF v] by simp_all
  have init: "ending n \<noteq> DRANGE_NODE_END_T_UNINITIALIZED" using n(1) by (auto simp: sane_node_def)
  note unfold = slice_func_unfold [OF init ok s_def e_def]
  note part = inside_def part_bytes_def node_part_def S_def [symmetric] E_def [symmetric] Let_def
  note signed = word_sless_alt word_sle_eq S E N
  have neg: "(start_offset n <s 0 \<and> s <s 0) \<longleftrightarrow> S < 0"
    using S by (auto simp: word_sless_alt S_def resolve_def)
  have cut: "slice_part ops v s len sd =
      Inr (sd\<lparr>slice_bytes := slice_bytes sd @ take (nat k) (drop (nat S) (content v))\<rparr>)"
    if "0 \<le> S" "sint len = k" "0 < k" "S + k \<le> int ?N" for len :: gint and k
    using op_slice_uint [OF v, of s "nat S" len "nat k"] uint_sint [of s] uint_sint [of len] S that
    by (simp add: slice_part_def word_sle_eq word_sless_alt)
  show ?thesis
  proof (cases "S < 0")
    case True
    then show ?thesis unfolding unfold using neg by (simp add: part)
  next
    case False
    then have start: "\<not> (start_offset n <s 0 \<and> s <s 0)" "0 \<le> S" using neg by auto
    show ?thesis
    proof (cases "ending n")
      case DRANGE_NODE_END_T_TO_THE_END
      have len: "sint (?fl - s) = int ?N - S" using sint_minus [of ?fl s] N S start(2) by simp
      show ?thesis
        unfolding unfold using start len cut [OF start(2) len] DRANGE_NODE_END_T_TO_THE_END
        by (auto simp: part word_sle_eq nat_diff_distrib)
    next
      case DRANGE_NODE_END_T_LENGTH
      let ?l = "node_length n"
      have pos: "0 < sint ?l" using n(1) DRANGE_NODE_END_T_LENGTH by (simp add: sane_node_def)
      have "S + sint ?l \<in> {- 0x80000000..0x7FFFFFFF}"
        using n(3) DRANGE_NODE_END_T_LENGTH start(2) pos by (simp add: overflows_def S_def)
      then have sum: "gint_add s ?l = Inr (s + ?l)" "sint (s + ?l) = S + sint ?l"
        using S sint_plus [of s ?l] by (auto simp: gint_add_def)
      show ?thesis
        unfolding unfold using start sum(1) cut [OF start(2) refl pos] DRANGE_NODE_END_T_LENGTH
        by (auto simp: part word_sless_alt sum(2) N)
    next
      case DRANGE_NODE_END_T_OFFSET
      have sane: "sint (start_offset n) \<le> sint (end_offset n)"
        using n(1) DRANGE_NODE_END_T_OFFSET by (simp add: sane_node_def)
      have order: "S \<le> E" if "\<not> end_offset n <s 0"
        using n(2) sane that DRANGE_NODE_END_T_OFFSET
        by (auto simp: straddles_def S_def E_def resolve_def word_sless_alt)
      have below: "E < int ?N" if "end_offset n <s 0"
        using that by (simp add: E_def resolve_def word_sless_alt)
      have fails: "(end_offset n <s 0 \<and> e <s s \<or> \<not> end_offset n <s 0 \<and> ?fl \<le>s e) \<longleftrightarrow>
          \<not> (S \<le> E \<and> E < int ?N)"
        using order below by (cases "end_offset n <s 0") (auto simp: word_sle_eq S E N word_sless_alt [of e s])
      show ?thesis
      proof (cases "S \<le> E \<and> E < int ?N")
        case True
        have "sint (e - s + 1) = E - S + 1" using sint_span [of s e] S E True start(2) N by simp
        from cut [OF start(2) this] show ?thesis
          unfolding unfold Let_def fails using start True DRANGE_NODE_END_T_OFFSET by (auto simp: part)
      next
        case False
        then show ?thesis
          unfolding unfold Let_def fails using start DRANGE_NODE_END_T_OFFSET by (auto simp: part)
      qed
    qed (use init in simp)
  qed
qed

text \<open>Slicing stops at the first node that lies outside the value and keeps what it has.\<close>

lemma slice_nodes_failed: "slice_failure sd \<Longrightarrow> slice_nodes ops v ns sd = Inr sd"
  by (induction ns) (simp_all add: slice_func_def)

lemma slice_nodes_parts:
  assumes "proper v"
    and "\<forall>n \<in> set ns. sane_node n \<and> \<not> straddles n \<and> \<not> overflows (length (content v)) n"
    and "\<not> slice_failure sd"
  shows "\<exists>f. slice_nodes ops v ns sd =
    Inr (sd\<lparr>slice_bytes := slice_bytes sd @
              concat (map (part_bytes (content v)) (takeWhile (inside (content v)) ns)),
            slice_failure := f\<rparr>)"
  using assms(2,3)
proof (induction ns arbitrary: sd)
  case (Cons n ns)
  show ?case
  proof (cases "inside (content v) n")
    case True
    then show ?thesis
      using slice_func_part [of v n sd] Cons assms(1)
        Cons.IH [of "sd\<lparr>slice_bytes := slice_bytes sd @ part_bytes (content v) n\<rparr>"] by simp
  next
    case False
    then show ?thesis
      using slice_func_part [of v n sd] Cons.prems assms(1)
        slice_nodes_failed [of "sd\<lparr>slice_failure := True\<rparr>" v ns]
      by (auto intro!: exI [of _ True])
  qed
qed (auto intro!: exI [of _ False])

lemma fvalue_slice_parts:
  assumes "proper v"
    and "\<forall>n \<in> set (range_list dr). sane_node n \<and> \<not> straddles n \<and> \<not> overflows (length (content v)) n"
  shows "fvalue_slice ops v dr =
    Inr (op_bytes ops (concat (map (part_bytes (content v)) (takeWhile (inside (content v)) (range_list dr)))))"
  using slice_nodes_parts [OF assms, of "\<lparr>slice_bytes = [], slice_failure = False\<rparr>"]
  by (auto simp: fvalue_slice_def)

lemma straddle_aborts:
  assumes "proper v" "straddles n"
    and "0 \<le> int (length (content v)) + sint (start_offset n)"
    and "sint (end_offset n) + 1 \<le> int (length (content v)) + sint (start_offset n)"
    and "\<not> slice_failure sd"
  shows "slice_func ops v n sd = Inl Fault"
proof -
  let ?fl = "op_length ops v"
  let ?s = "?fl + start_offset n"
  have off: "ending n = DRANGE_NODE_END_T_OFFSET" and neg: "sint (start_offset n) < 0"
    and e: "0 \<le> sint (end_offset n)"
    using assms(2) by (auto simp: straddles_def)
  have N: "sint ?fl = int (length (content v))" by (rule length_sint [OF assms(1)])
  have S: "sint ?s = sint ?fl + sint (start_offset n)"
    using start_eq [OF assms(1), of "start_offset n"] neg N by (simp add: resolve_def word_sless_alt)
  have d: "sint (end_offset n - ?s) = sint (end_offset n) - sint ?s"
    using sint_minus [of "end_offset n" ?s] S N assms(3) e by simp
  have "sint (end_offset n - ?s + 1) = sint (end_offset n - ?s) + sint (1 :: gint)"
    using sint_plus [of "end_offset n - ?s" 1] d S N assms(3,4) e sint_bounds [of ?s] by simp
  then have "\<not> 0 <s end_offset n - ?s + 1"
    using d S N assms(4) by (simp add: word_sless_alt)
  moreover have "\<not> ?s <s 0" "\<not> end_offset n <s 0" "\<not> ?fl \<le>s end_offset n"
    using S N neg e assms(3,4) by (auto simp: word_sless_alt word_sle_eq)
  ultimately show ?thesis
    using off neg assms(5)
    by (simp add: slice_func_unfold [OF _ _ refl refl] slice_part_def Let_def word_sless_alt [of "start_offset n"])
qed

end

end
