(* ===== verification/FtypeProps.thy ===== *)
theory FtypeProps
  imports Ftypes DrangeProps "HOL-Library.List_Lexorder"
begin

text \<open>
  The contract of the field values: their comparisons are those of a linear order, the search for a
  substring finds it exactly when it is there, and slices are the parts that the range names.
\<close>

section \<open>Slices\<close>

definition fv_content :: "'r fvalue \<Rightarrow> guint8 list" where
  "fv_content fv = (case fv of BYTES bs \<Rightarrow> bs | STRING s \<Rightarrow> s | _ \<Rightarrow> [])"

text \<open>Values of the types that can be sliced, of a size that a packet can have.\<close>

definition fv_proper :: "'r fvalue \<Rightarrow> bool" where
  "fv_proper fv =
     ((case fv of BYTES bs \<Rightarrow> True | STRING s \<Rightarrow> True | _ \<Rightarrow> False) \<and>
      length (fv_content fv) < 0x80000000)"

interpretation fv: sliceable "fvalue_ops re" fv_content fv_proper for re
proof unfold_locales
  fix v :: "'a fvalue" and i l :: guint
  assume v: "fv_proper v"
  then show "length (fv_content v) < 0x80000000" by (simp add: fv_proper_def)
  show "op_length (fvalue_ops re) v = of_nat (length (fv_content v))"
    using v by (cases v) (simp_all add: fv_proper_def fv_content_def fvalue_ops_def fvalue_length_def)
  assume "unat i + unat l \<le> length (fv_content v)"
  then show "op_slice (fvalue_ops re) v i l = Inr (take (unat l) (drop (unat i) (fv_content v)))"
    using v by (cases v) (simp_all add: fv_proper_def fv_content_def fvalue_ops_def
        fvalue_slice_func_def bytes_slice_def)
qed

text \<open>
  C34. Slicing a byte or string value by a range that passes the sanity check, and has no node from a
  negative to a non-negative offset and no length that overflows the sum, yields the bytes the nodes name,
  one after the other, up to the first node that does not lie inside the value. So the result is a value
  even when no node fits, where the comment before the function announces NULL.
\<close>

theorem fvalue_slice_correct:
  assumes "fv_proper v" "check_drange_sanity dr = Inr ()"
    and "\<forall>n \<in> set (range_list dr). \<not> straddles n \<and> \<not> overflows (length (fv_content v)) n"
  shows "fvalue_slice (fvalue_ops re) v dr =
           Inr (BYTES (concat (map (part_bytes (fv_content v))
                                 (takeWhile (inside (fv_content v)) (range_list dr)))))"
proof -
  have "\<forall>n \<in> set (range_list dr).
      sane_node n \<and> \<not> straddles n \<and> \<not> overflows (length (fv_content v)) n"
    using assms(2,3) check_drange_sanity_iff [of dr] by blast
  then show ?thesis
    using fv.fvalue_slice_parts [OF assms(1), of dr re] by (simp add: fvalue_ops_def)
qed

text \<open>The nodes \<open>1:2\<close>, \<open>-2:\<close>, \<open>7\<close> (one byte) and \<open>-2-0\<close>.\<close>

definition node_1_2 :: drange_node where
  "node_1_2 = drange_node_set_length 2 (drange_node_set_start_offset 1 drange_node_new)"

definition node_last2 :: drange_node where
  "node_last2 = drange_node_set_to_the_end (drange_node_set_start_offset 0xFFFFFFFE drange_node_new)"

definition node_7 :: drange_node where
  "node_7 = drange_node_set_length 1 (drange_node_set_start_offset 7 drange_node_new)"

definition node_straddle :: drange_node where
  "node_straddle = drange_node_set_end_offset 0 (drange_node_set_start_offset 0xFFFFFFFE drange_node_new)"

lemmas node_defs = node_1_2_def node_last2_def node_7_def node_straddle_def drange_node_new_def
  drange_node_set_length_def drange_node_set_start_offset_def drange_node_set_to_the_end_def
  drange_node_set_end_offset_def

lemma range_list_append:
  "range_list (drange_append_drange_node dr n) = range_list dr @ (case n of None \<Rightarrow> [] | Some m \<Rightarrow> [m])"
  by (cases n) (auto simp: drange_append_drange_node_def update_drange_with_node_def Let_def)

lemma range_list_from_list: "range_list (drange_new_from_list ns) = ns"
proof -
  have "range_list (foldl (\<lambda>dr n. drange_append_drange_node dr (Some n)) dr ns) = range_list dr @ ns" for dr
    by (induction ns arbitrary: dr) (simp_all add: range_list_append)
  from this [of drange_new] show ?thesis by (simp add: drange_new_from_list_def drange_new_def)
qed

lemma node_parts:
  "node_part 5 node_1_2 = Some (1, 2)" "node_part 5 node_last2 = Some (3, 2)"
  "node_part 5 node_7 = None"
  by (simp_all add: node_part_def resolve_def node_defs sint_gint)

lemma node_sane: "sane_node node_1_2" "sane_node node_last2" "sane_node node_7"
  by (simp_all add: sane_node_def node_defs sint_gint)

lemma node_tame:
  "\<not> straddles node_1_2" "\<not> straddles node_last2" "\<not> straddles node_7"
  "\<not> overflows 5 node_1_2" "\<not> overflows 5 node_last2" "\<not> overflows 5 node_7"
  by (simp_all add: straddles_def overflows_def resolve_def node_defs sint_gint)

lemma five_bytes:
  assumes "length bs = 5"
  shows "inside bs n = (node_part 5 n \<noteq> None)"
    "part_bytes bs n = (case node_part 5 n of None \<Rightarrow> [] | Some (i, l) \<Rightarrow> take l (drop i bs))"
  using assms by (simp_all add: inside_def part_bytes_def)

theorem fvalue_slice_correct_witness:
  "fvalue_slice (fvalue_ops (\<lambda>_ _. False)) (BYTES [10, 11, 12, 13, 14] :: unit fvalue)
     (drange_new_from_list [node_1_2, node_last2, node_7, node_1_2]) = Inr (BYTES [11, 12, 13, 14])"
proof -
  let ?dr = "drange_new_from_list [node_1_2, node_last2, node_7, node_1_2]"
  have "check_drange_sanity ?dr = Inr ()"
    unfolding check_drange_sanity_iff by (simp add: range_list_from_list node_sane)
  moreover have "fv_proper (BYTES [10, 11, 12, 13, 14] :: unit fvalue)"
    by (simp add: fv_proper_def fv_content_def)
  moreover have l: "length (fv_content (BYTES [10, 11, 12, 13, 14] :: unit fvalue)) = 5"
    by (simp add: fv_content_def)
  moreover have "\<forall>n \<in> set (range_list ?dr). \<not> straddles n \<and> \<not> overflows 5 n"
    by (simp add: range_list_from_list node_tame)
  ultimately show ?thesis
    using fvalue_slice_correct [of "BYTES [10, 11, 12, 13, 14] :: unit fvalue" ?dr "\<lambda>_ _. False"]
    unfolding l by (simp add: range_list_from_list node_parts five_bytes fv_content_def)
qed

text \<open>
  C36. A range from a negative to a non-negative offset passes the sanity check, and slicing a value by
  it ends the program with a failed assertion when its start lies behind its end in the value.
\<close>

theorem sane_range_aborts:
  assumes "fv_proper v" "straddles n"
    and "0 \<le> int (length (fv_content v)) + sint (start_offset n)"
    and "sint (end_offset n) + 1 \<le> int (length (fv_content v)) + sint (start_offset n)"
  shows "check_drange_sanity (drange_new_from_list [n]) = Inr () \<and>
         fvalue_slice (fvalue_ops re) v (drange_new_from_list [n]) = Inl Fault"
proof
  have "sane_node n" using assms(2) by (auto simp: sane_node_def straddles_def)
  then show "check_drange_sanity (drange_new_from_list [n]) = Inr ()"
    unfolding check_drange_sanity_iff by (simp add: range_list_from_list)
  show "fvalue_slice (fvalue_ops re) v (drange_new_from_list [n]) = Inl Fault"
    using fv.straddle_aborts [OF assms, of "\<lparr>slice_bytes = [], slice_failure = False\<rparr>" re]
    by (simp add: fvalue_slice_def range_list_from_list)
qed

theorem sane_range_aborts_witness:
  "fvalue_slice (fvalue_ops (\<lambda>_ _. False)) (BYTES [10, 11, 12, 13, 14] :: unit fvalue)
     (drange_new_from_list [node_straddle]) = Inl Fault"
  using sane_range_aborts [of "BYTES [10, 11, 12, 13, 14] :: unit fvalue" node_straddle "\<lambda>_ _. False"]
  by (simp add: fv_proper_def fv_content_def straddles_def node_defs sint_gint)

section \<open>The total length of a range\<close>

lemma total_length_append:
  "total_length (drange_append_drange_node dr (Some n)) =
     (if ending n = DRANGE_NODE_END_T_TO_THE_END \<or> \<not> has_total_length dr then total_length dr
      else total_length dr + node_length n)"
  by (auto simp: drange_append_drange_node_def update_drange_with_node_def Let_def)

lemma has_total_length_append:
  "has_total_length (drange_append_drange_node dr (Some n)) =
     (has_total_length dr \<and> ending n \<noteq> DRANGE_NODE_END_T_TO_THE_END)"
  by (auto simp: drange_append_drange_node_def update_drange_with_node_def Let_def)

lemma total_length_from_list:
  assumes "\<forall>n \<in> set ns. ending n \<noteq> DRANGE_NODE_END_T_TO_THE_END"
  shows "total_length (drange_new_from_list ns) = sum_list (map node_length ns)"
proof -
  have "has_total_length dr \<Longrightarrow>
      total_length (foldl (\<lambda>dr n. drange_append_drange_node dr (Some n)) dr ns) =
        total_length dr + sum_list (map node_length ns)" for dr
    using assms by (induction ns arbitrary: dr)
      (simp_all add: total_length_append has_total_length_append add.assoc)
  from this [of drange_new] show ?thesis by (simp add: drange_new_from_list_def drange_new_def)
qed

definition node_0_1 :: drange_node where
  "node_0_1 = drange_node_set_length 1 (drange_node_set_start_offset 0 drange_node_new)"

definition node_2_to_4 :: drange_node where
  "node_2_to_4 = drange_node_set_end_offset 4 (drange_node_set_start_offset 2 drange_node_new)"

lemma node_parts_1:
  "node_part 5 node_0_1 = Some (0, 1)" "node_part 5 node_2_to_4 = Some (2, 3)"
  "sane_node node_0_1" "sane_node node_2_to_4" "\<not> straddles node_0_1" "\<not> straddles node_2_to_4"
  "\<not> overflows 5 node_0_1" "\<not> overflows 5 node_2_to_4"
  by (simp_all add: node_part_def resolve_def sane_node_def straddles_def overflows_def node_0_1_def
      node_2_to_4_def node_defs sint_gint)

text \<open>
  The total length of a range leaves out the nodes that end at an offset: \<open>[0:1,2-4]\<close> has total
  length 1, by which the semantic check takes it for a range of one byte, while the slice of a value of
  five bytes has four.
\<close>

theorem total_length_misses_offset_nodes:
  "total_length (drange_new_from_list [node_0_1, node_2_to_4]) = 1 \<and>
   has_total_length (drange_new_from_list [node_0_1, node_2_to_4]) \<and>
   fvalue_slice (fvalue_ops re) (BYTES [b0, b1, b2, b3, b4]) (drange_new_from_list [node_0_1, node_2_to_4]) =
     Inr (BYTES [b0, b2, b3, b4])"
proof (intro conjI)
  let ?dr = "drange_new_from_list [node_0_1, node_2_to_4]"
  show "total_length ?dr = 1"
    by (subst total_length_from_list) (simp_all add: node_0_1_def node_2_to_4_def node_defs)
  show "has_total_length ?dr"
    by (simp add: drange_new_from_list_def has_total_length_append)
      (simp add: node_0_1_def node_2_to_4_def node_defs drange_new_def)
  show "fvalue_slice (fvalue_ops re) (BYTES [b0, b1, b2, b3, b4]) ?dr = Inr (BYTES [b0, b2, b3, b4])"
  proof (subst fv.fvalue_slice_parts)
    show "fv_proper (BYTES [b0, b1, b2, b3, b4] :: 'a fvalue)"
      by (simp add: fv_proper_def fv_content_def)
    have l: "length (fv_content (BYTES [b0, b1, b2, b3, b4] :: 'a fvalue)) = 5"
      by (simp add: fv_content_def)
    show "\<forall>n \<in> set (range_list ?dr). sane_node n \<and> \<not> straddles n \<and>
        \<not> overflows (length (fv_content (BYTES [b0, b1, b2, b3, b4] :: 'a fvalue))) n"
      unfolding l by (simp add: range_list_from_list node_parts_1)
  qed (simp add: range_list_from_list node_parts_1 five_bytes fv_content_def fvalue_ops_def)
qed

section \<open>Comparisons\<close>

text \<open>
  A key in a linear order: lists of integers, lexicographically. Byte strings compare by length first.
\<close>

definition fv_key :: "'r fvalue \<Rightarrow> int list" where
  "fv_key fv =
     (case fv of
        BYTES bs \<Rightarrow> int (length bs) # map uint bs
      | STRING s \<Rightarrow> map uint s
      | UINTEGER _ v \<Rightarrow> [uint v]
      | SINTEGER _ v \<Rightarrow> [sint v]
      | UINTEGER64 _ v \<Rightarrow> [uint v]
      | SINTEGER64 _ v \<Rightarrow> [sint v]
      | BOOLEAN v \<Rightarrow> []
      | PCRE _ \<Rightarrow> [])"

fun comparable :: "'r fvalue \<Rightarrow> 'r fvalue \<Rightarrow> bool" where
  "comparable (BYTES _) (BYTES _) = True"
| "comparable (STRING _) (STRING _) = True"
| "comparable (UINTEGER _ _) (UINTEGER _ _) = True"
| "comparable (SINTEGER _ _) (SINTEGER _ _) = True"
| "comparable (UINTEGER64 _ _) (UINTEGER64 _ _) = True"
| "comparable (SINTEGER64 _ _) (SINTEGER64 _ _) = True"
| "comparable _ _ = False"

lemma map_uint_eq: "map uint (a :: guint8 list) = map uint b \<longleftrightarrow> a = b"
  by (induction a b rule: list_induct2') (auto simp: word_uint_eq_iff)

lemma single_key:
  fixes a b :: "'w::len word"
  shows "(uint a = uint b) = (a = b)" "(sint a = sint b) = (a = b)"
    "(uint b \<le> uint a) = (uint b < uint a \<or> b = a)" "(sint b \<le> sint a) = (sint b < sint a \<or> b = a)"
  by (auto simp: word_uint_eq_iff [symmetric] le_less intro: signed_word_eqI dest: signed_word_eqI)

lemma strcmp_less: "strcmp a b < 0 \<longleftrightarrow> map uint a < map uint b"
  by (induction a b rule: strcmp.induct) (auto simp: word_less_def word_uint_eq_iff)

lemma strcmp_greater: "strcmp a b > 0 \<longleftrightarrow> map uint b < map uint a"
  using strcmp_flip [of b a] strcmp_less [of b a] by simp

lemma strcmp_sign:
  "strcmp a b \<noteq> 0 \<longleftrightarrow> map uint a \<noteq> map uint b" "strcmp a b = 0 \<longleftrightarrow> map uint a = map uint b"
  "strcmp a b \<le> 0 \<longleftrightarrow> map uint a \<le> map uint b" "0 \<le> strcmp a b \<longleftrightarrow> map uint b \<le> map uint a"
  using strcmp_eq [of a b] strcmp_greater [of a b] strcmp_less [of a b]
  by (auto simp: map_uint_eq not_less [symmetric])

lemmas strcmp_key = strcmp_less strcmp_greater strcmp_sign

lemma bytes_key:
  "bytes_cmp_eq a b \<longleftrightarrow> int (length a) # map uint a = int (length b) # map uint b"
  "bytes_cmp_ne a b \<longleftrightarrow> int (length a) # map uint a \<noteq> int (length b) # map uint b"
  "bytes_cmp_gt a b \<longleftrightarrow> int (length a) # map uint a > int (length b) # map uint b"
  "bytes_cmp_ge a b \<longleftrightarrow> int (length a) # map uint a \<ge> int (length b) # map uint b"
  "bytes_cmp_lt a b \<longleftrightarrow> int (length a) # map uint a < int (length b) # map uint b"
  "bytes_cmp_le a b \<longleftrightarrow> int (length a) # map uint a \<le> int (length b) # map uint b"
  by (auto simp: bytes_cmp_eq_def bytes_cmp_ne_def bytes_cmp_gt_def bytes_cmp_ge_def
      bytes_cmp_lt_def bytes_cmp_le_def strcmp_key)

text \<open>
  The comparison functions of two values of the same type are those of one linear order: integers
  by their signed or unsigned value, strings lexicographically by their bytes, byte strings by length
  and then lexicographically.
\<close>

theorem fvalue_cmp_linear:
  assumes "comparable a b"
  shows "fvalue_cmp re ANY_EQ a b = Inr (fv_key a = fv_key b) \<and>
         fvalue_cmp re ANY_NE a b = Inr (fv_key a \<noteq> fv_key b) \<and>
         fvalue_cmp re ANY_GT a b = Inr (fv_key a > fv_key b) \<and>
         fvalue_cmp re ANY_GE a b = Inr (fv_key a \<ge> fv_key b) \<and>
         fvalue_cmp re ANY_LT a b = Inr (fv_key a < fv_key b) \<and>
         fvalue_cmp re ANY_LE a b = Inr (fv_key a \<le> fv_key b)"
  using assms
  by (cases "(a, b)" rule: comparable.cases)
    (simp_all add: fvalue_cmp_def int_member_def int64_member_def fv_key_def bytes_cmp_def string_cmp_op_def uinteger_cmp_def
      sinteger_cmp_def bytes_key strcmp_key word_less_def word_le_def word_sless_alt word_sle_eq
      map_uint_eq single_key)

theorem fvalue_cmp_linear_witness:
  "fvalue_cmp (\<lambda>_ _. False) ANY_LT (BYTES [9] :: unit fvalue) (BYTES [1, 2]) = Inr True"
  using fvalue_cmp_linear [of "BYTES [9] :: unit fvalue" "BYTES [1, 2]" "\<lambda>_ _. False"]
  by (simp add: fv_key_def)

section \<open>Containment\<close>

lemma memmem_loop_find:
  "memmem_loop h n start final = find (\<lambda>i. h ! i = n ! 0 \<and>
     take (length n - 1) (drop (i + 1) h) = drop 1 n) [start..<Suc final]"
proof (induction h n start final rule: memmem_loop.induct)
  case (1 h n start final)
  then show ?case by (subst memmem_loop.simps) (simp add: upt_conv_Cons del: upt_Suc)
qed

lemma match_at:
  assumes "n \<noteq> []" "i + length n \<le> length h"
  shows "(h ! i = n ! 0 \<and> take (length n - 1) (drop (i + 1) h) = drop 1 n) \<longleftrightarrow>
           take (length n) (drop i h) = n"
proof -
  have "drop i h = h ! i # drop (i + 1) h"
    using assms Cons_nth_drop_Suc [of i h] by (cases n) simp_all
  then show ?thesis using assms(1) by (cases n) auto
qed

lemma occurs_at:
  "(\<exists>i. i + length n \<le> length h \<and> take (length n) (drop i h) = n) \<longleftrightarrow> (\<exists>xs ys. h = xs @ n @ ys)"
proof
  assume "\<exists>i. i + length n \<le> length h \<and> take (length n) (drop i h) = n"
  then obtain i where "take (length n) (drop i h) = n" by blast
  then have "h = take i h @ n @ drop (length n) (drop i h)"
    by (metis append_take_drop_id)
  then show "\<exists>xs ys. h = xs @ n @ ys" by blast
next
  assume "\<exists>xs ys. h = xs @ n @ ys"
  then obtain xs ys where "h = xs @ n @ ys" by blast
  then show "\<exists>i. i + length n \<le> length h \<and> take (length n) (drop i h) = n"
    by (intro exI [of _ "length xs"]) simp
qed

lemma memmem_occurs:
  "epan_memmem h n \<noteq> None \<longleftrightarrow> n \<noteq> [] \<and> (\<exists>xs ys. h = xs @ n @ ys)"
proof (cases "n = [] \<or> length n > length h")
  case True
  then show ?thesis by (auto simp: epan_memmem_def)
next
  case False
  have "epan_memmem h n \<noteq> None \<longleftrightarrow>
      (\<exists>i \<le> length h - length n. h ! i = n ! 0 \<and> take (length n - 1) (drop (i + 1) h) = drop 1 n)"
    using False by (auto simp: epan_memmem_def memmem_loop_find find_None_iff less_Suc_eq_le simp del: upt_Suc)
  also have "\<dots> \<longleftrightarrow> (\<exists>i. i + length n \<le> length h \<and> take (length n) (drop i h) = n)"
    using False match_at [of n _ h] by (metis le_diff_conv2 not_less)
  finally show ?thesis using False by (simp add: occurs_at)
qed

lemma strstr_occurs: "strstr s t \<longleftrightarrow> (\<exists>xs ys. s = xs @ t @ ys)"
proof -
  have "strstr s t \<longleftrightarrow> (\<exists>i. i + length t \<le> length s \<and> take (length t) (drop i s) = t)"
  proof
    assume "strstr s t"
    then obtain i where i: "i \<le> length s" "take (length t) (drop i s) = t"
      by (auto simp: strstr_def less_Suc_eq_le simp del: upt_Suc)
    then have "length t \<le> length s - i" by (metis length_drop length_take min.cobounded1)
    then show "\<exists>i. i + length t \<le> length s \<and> take (length t) (drop i s) = t"
      using i by (intro exI [of _ i]) simp
  qed (auto simp: strstr_def less_Suc_eq_le simp del: upt_Suc)
  then show ?thesis by (simp add: occurs_at)
qed

text \<open>
  The operator \<open>contains\<close> holds of two byte strings or two strings exactly when the second is not empty
  and occurs in the first.
\<close>

theorem fvalue_contains_correct:
  "fvalue_cmp re ANY_CONTAINS (BYTES a) (BYTES b) = Inr (b \<noteq> [] \<and> (\<exists>xs ys. a = xs @ b @ ys)) \<and>
   fvalue_cmp re ANY_CONTAINS (STRING a) (STRING b) = Inr (b \<noteq> [] \<and> (\<exists>xs ys. a = xs @ b @ ys))"
  using memmem_occurs [of a b] strstr_occurs [of a b]
  by (simp add: fvalue_cmp_def bytes_cmp_def string_cmp_op_def bytes_cmp_contains_def
      string_cmp_contains_def)

end
