(* ===== verification/Action.thy ===== *)
theory Action
  imports Prelude
begin

text \<open>
  Code that changes a state and may throw: a function from the state to the result and the state
  afterwards. The state survives an exception, as the handler that catches it works on with the memory
  as the code has left it.
\<close>

type_synonym ('s, 'a) action = "'s \<Rightarrow> (exc + 'a) \<times> 's"

definition bindS :: "('s, 'a) action \<Rightarrow> ('a \<Rightarrow> ('s, 'b) action) \<Rightarrow> ('s, 'b) action" where
  "bindS m k s = (case m s of (Inl e, s') \<Rightarrow> (Inl e, s') | (Inr x, s') \<Rightarrow> k x s')"

definition return :: "'a \<Rightarrow> ('s, 'a) action" where
  "return x s = (Inr x, s)"

definition throw :: "exc \<Rightarrow> ('s, 'a) action" where
  "throw e s = (Inl e, s)"

text \<open>\<open>asks\<close> reads the state by a function that may fail, \<open>modify\<close> changes it.\<close>

definition asks :: "('s \<Rightarrow> 'a res) \<Rightarrow> ('s, 'a) action" where
  "asks f s = (f s, s)"

definition modify :: "('s \<Rightarrow> 's) \<Rightarrow> ('s, unit) action" where
  "modify f s = (Inr (), f s)"

definition update :: "('s \<Rightarrow> 's res) \<Rightarrow> ('s, unit) action" where
  "update f s = (case f s of Inl e \<Rightarrow> (Inl e, s) | Inr s' \<Rightarrow> (Inr (), s'))"

definition assertS :: "bool \<Rightarrow> ('s, unit) action" where
  "assertS b = (if b then return () else throw DissectorError)"

named_theorems acts \<open>rewriting of actions\<close>

lemma return_run [acts, simp]: "return x s = (Inr x, s)"
  by (simp add: return_def)

lemma throw_run [acts, simp]: "throw e s = (Inl e, s)"
  by (simp add: throw_def)

lemma asks_run [acts, simp]: "asks f s = (f s, s)"
  by (simp add: asks_def)

lemma modify_run [acts, simp]: "modify f s = (Inr (), f s)"
  by (simp add: modify_def)

lemma update_run [acts, simp]: "f s = Inr s' \<Longrightarrow> update f s = (Inr (), s')" "f s = Inl e \<Longrightarrow> update f s = (Inl e, s)"
  by (simp_all add: update_def)

lemma assertS_run [acts, simp]: "assertS b s = (if b then (Inr (), s) else (Inl DissectorError, s))"
  by (simp add: assertS_def)

lemma bindS_run [acts, simp]:
  "m s = (Inr x, s') \<Longrightarrow> bindS m k s = k x s'"
  "m s = (Inl e, s') \<Longrightarrow> bindS m k s = (Inl e, s')"
  by (simp_all add: bindS_def)

lemma bindS_cases:
  assumes "bindS m k s = (r, s')"
  obtains (throws) e where "m s = (Inl e, s')" "r = Inl e"
  | (returns) x s1 where "m s = (Inr x, s1)" "k x s1 = (r, s')"
  using assms by (auto simp: bindS_def split: prod.splits sum.splits)

lemma bindS_InrE:
  assumes "bindS m k s = (Inr y, s')"
  obtains x s1 where "m s = (Inr x, s1)" "k x s1 = (Inr y, s')"
  using assms by (auto simp: bindS_def split: prod.splits sum.splits)

lemma bindS_return [simp]: "bindS (return x) k = k x"
  by (rule ext) simp

lemma bindS_assoc: "bindS (bindS m k) l = bindS m (\<lambda>x. bindS (k x) l)"
  by (rule ext) (simp add: bindS_def split: prod.splits sum.splits)

end
