(* ===== verification/Registrar.thy ===== *)
theory Registrar
  imports ValueString
begin

text \<open>
  The registrar of header fields (epan/proto.c): the array \<open>gpa_hfinfo\<close> of the fields registered so
  far, the hash table \<open>gpa_name_map\<close> from filter names to the field registered last under that name,
  and the doubly linked list that joins the fields which share a name. The display filter engine
  walks these lists.

  The structures and the table that points to them are kept apart. \<open>hfi\<close> is the memory of the
  structures in the order of their registration, so that a pointer to a \<open>header_field_info\<close> is an
  index of \<open>hfi\<close>; a structure whose memory has been given up is \<open>None\<close>. The entry of
  \<open>gpa_hfinfo.hfi\<close> for an identifier points to the structure that was registered with it, until
  \<open>free_deregistered_field\<close> clears the entry: the identifiers in \<open>cleared\<close> are those whose entry is
  NULL. A cleared entry does not end the life of the structure: of a field that has a parent it
  belongs to its dissector and stays, only the strings it points to are freed. Of the structure the
  members are kept that the registrar and the protocol tree read or write.
\<close>

section \<open>Data\<close>

text \<open>
  \<open>strings\<close> points to a table of one of several types; which one, the flags of \<open>display\<close> and the type of
  the field tell. The pairs of a \<open>true_false_string\<close> are the string for true and the one for false; the
  field of a protocol has a pointer to its \<open>protocol_t\<close> here.
\<close>

datatype hf_strings =
    NO_STRINGS
  | TRUE_FALSE_STRING string string
  | VALUE_STRING "32 value_string list"
  | VALUE_STRING_EXT "32 value_string_ext"
  | VAL64_STRING "64 value_string list"
  | PROTOCOL_T nat
  | OTHER_STRINGS

datatype hf_ref_type = HF_REF_TYPE_NONE | HF_REF_TYPE_INDIRECT | HF_REF_TYPE_DIRECT

record header_field_info =
  hf_name :: string
  hf_abbrev :: string
  hf_type :: ftenum
  hf_display :: guint32
  hf_strings :: hf_strings
  hf_bitmask :: guint64
  hf_id :: int
  hf_parent :: int
  hf_ref_type :: hf_ref_type
  same_name_prev_id :: int
  same_name_next :: "nat option"

text \<open>
  \<open>prefixes\<close> maps a prefix to its initializer; \<open>'p\<close> stands for the function pointers of type
  \<open>prefix_initializer_t\<close>, whose code is that of a dissector.
\<close>

record 'p registrar =
  hfi :: "header_field_info option list"
  cleared :: "nat set"
  gpa_name_map :: "string \<rightharpoonup> nat"
  last_field_name :: "string option"
  last_hfinfo :: nat
  prefixes :: "(string \<times> 'p) list"

text \<open>The registrar as \<open>proto_init\<close> leaves it before the first protocol registers.\<close>

definition registrar_init :: "'p registrar" where
  "registrar_init =
     \<lparr>hfi = [], cleared = {}, gpa_name_map = Map.empty, last_field_name = None, last_hfinfo = 0, prefixes = []\<rparr>"

text \<open>Reading and writing a structure through a pointer to it.\<close>

definition deref :: "'p registrar \<Rightarrow> nat \<Rightarrow> header_field_info res" where
  "deref reg p =
     (if p < length (hfi reg) then (case hfi reg ! p of Some h \<Rightarrow> Inr h | None \<Rightarrow> Inl Fault)
      else Inl Fault)"

definition store :: "nat \<Rightarrow> (header_field_info \<Rightarrow> header_field_info) \<Rightarrow> 'p registrar \<Rightarrow> 'p registrar res" where
  "store p f reg =
     bindE (deref reg p) (\<lambda>h. Inr (reg\<lparr>hfi := (hfi reg)[p := Some (f h)]\<rparr>))"

text \<open>
  \<open>PROTO_REGISTRAR_GET_NTH\<close> with \<open>wireshark_abort_on_dissector_bug\<close> off. The index is converted to
  \<open>guint\<close>, so a negative one is out of range.
\<close>

definition proto_registrar_get_nth :: "'p registrar \<Rightarrow> int \<Rightarrow> header_field_info res" where
  "proto_registrar_get_nth reg n =
     dissector_assert (0 \<le> n \<and> nat n < length (hfi reg))
       (if nat n \<in> cleared reg then Inl DissectorError else deref reg (nat n))"

definition proto_registrar_get_parent :: "'p registrar \<Rightarrow> int \<Rightarrow> int res" where
  "proto_registrar_get_parent reg n =
     bindE (proto_registrar_get_nth reg n) (\<lambda>h. Inr (hf_parent h))"

section \<open>Filter names\<close>

text \<open>The characters for which \<open>fld_abbrev_chars\<close> holds 1: alphanumerics, '-', '_' and '.'.\<close>

definition fld_abbrev_chars :: "char \<Rightarrow> bool" where
  "fld_abbrev_chars c =
     (let n = of_char c :: nat in
      n = 0x2D \<or> n = 0x2E \<or> (0x30 \<le> n \<and> n \<le> 0x39) \<or> (0x41 \<le> n \<and> n \<le> 0x5A) \<or> n = 0x5F \<or>
      (0x61 \<le> n \<and> n \<le> 0x7A))"

text \<open>
  The loop of \<open>proto_check_field_name\<close>: the string ends with the NUL character, for which the table
  holds 0. The result is the pair of \<open>c\<close> and \<open>lastc\<close> when the loop is left.
\<close>

abbreviation NUL :: char where "NUL \<equiv> CHR 0x00"

fun check_name_loop :: "string \<Rightarrow> char \<Rightarrow> char \<times> char" where
  "check_name_loop [] lastc = (NUL, lastc)"
| "check_name_loop (c # p) lastc =
     (if c = CHR ''.'' \<and> lastc = CHR ''.'' then (c, lastc)
      else if fld_abbrev_chars c then check_name_loop p c
      else (c, lastc))"

definition proto_check_field_name :: "string \<Rightarrow> char" where
  "proto_check_field_name field_name =
     (let (c, lastc) = check_name_loop field_name (CHR ''.'')
      in if lastc = CHR ''.'' then CHR ''.'' else c)"

section \<open>Registering a field\<close>

text \<open>
  The values of \<open>field_display_e\<close> and \<open>absolute_time_display_e\<close>, and the flags that are joined to
  them in \<open>display\<close>; the flags that later theories need are defined there.
\<close>

definition BASE_NONE :: guint32 where "BASE_NONE = 0"
definition BASE_DEC :: guint32 where "BASE_DEC = 1"
definition BASE_HEX :: guint32 where "BASE_HEX = 2"
definition BASE_OCT :: guint32 where "BASE_OCT = 3"
definition BASE_DEC_HEX :: guint32 where "BASE_DEC_HEX = 4"
definition BASE_HEX_DEC :: guint32 where "BASE_HEX_DEC = 5"
definition BASE_CUSTOM :: guint32 where "BASE_CUSTOM = 6"
definition STR_ASCII :: guint32 where "STR_ASCII = 0"
definition STR_UNICODE :: guint32 where "STR_UNICODE = 7"
definition SEP_DOT :: guint32 where "SEP_DOT = 8"
definition SEP_DASH :: guint32 where "SEP_DASH = 9"
definition SEP_COLON :: guint32 where "SEP_COLON = 10"
definition SEP_SPACE :: guint32 where "SEP_SPACE = 11"
definition BASE_NETMASK :: guint32 where "BASE_NETMASK = 12"
definition BASE_PT_UDP :: guint32 where "BASE_PT_UDP = 13"
definition BASE_PT_TCP :: guint32 where "BASE_PT_TCP = 14"
definition BASE_PT_DCCP :: guint32 where "BASE_PT_DCCP = 15"
definition BASE_PT_SCTP :: guint32 where "BASE_PT_SCTP = 16"
definition BASE_OUI :: guint32 where "BASE_OUI = 17"
definition ABSOLUTE_TIME_LOCAL :: guint32 where "ABSOLUTE_TIME_LOCAL = 1000"
definition ABSOLUTE_TIME_UTC :: guint32 where "ABSOLUTE_TIME_UTC = 1001"
definition ABSOLUTE_TIME_DOY_UTC :: guint32 where "ABSOLUTE_TIME_DOY_UTC = 1002"
definition ABSOLUTE_TIME_NTP_UTC :: guint32 where "ABSOLUTE_TIME_NTP_UTC = 1003"
definition FIELD_DISPLAY_E_MASK :: guint32 where "FIELD_DISPLAY_E_MASK = 0xFF"
definition BASE_UNIT_STRING :: guint32 where "BASE_UNIT_STRING = 0x00001000"
definition BASE_PROTOCOL_INFO :: guint32 where "BASE_PROTOCOL_INFO = 0x00004000"
definition BASE_SPECIAL_VALS :: guint32 where "BASE_SPECIAL_VALS = 0x00008000"

definition FIELD_DISPLAY :: "guint32 \<Rightarrow> guint32" where
  "FIELD_DISPLAY d = d AND FIELD_DISPLAY_E_MASK"

definition IS_BASE_PORT :: "guint32 \<Rightarrow> bool" where
  "IS_BASE_PORT b = (b = BASE_PT_UDP \<or> b = BASE_PT_TCP \<or> b = BASE_PT_DCCP \<or> b = BASE_PT_SCTP)"

lemmas field_display_defs =
  BASE_NONE_def BASE_DEC_def BASE_HEX_def BASE_OCT_def BASE_DEC_HEX_def BASE_HEX_DEC_def
  BASE_CUSTOM_def STR_ASCII_def STR_UNICODE_def SEP_DOT_def SEP_DASH_def SEP_COLON_def
  SEP_SPACE_def BASE_NETMASK_def BASE_PT_UDP_def BASE_PT_TCP_def BASE_PT_DCCP_def
  BASE_PT_SCTP_def BASE_OUI_def ABSOLUTE_TIME_LOCAL_def ABSOLUTE_TIME_UTC_def
  ABSOLUTE_TIME_DOY_UTC_def ABSOLUTE_TIME_NTP_UTC_def FIELD_DISPLAY_E_MASK_def
  BASE_UNIT_STRING_def BASE_PROTOCOL_INFO_def BASE_SPECIAL_VALS_def FIELD_DISPLAY_def
  IS_BASE_PORT_def

text \<open>
  The checks of \<open>tmp_fld_check_assert\<close>, each of which ends the program with \<open>g_error\<close>: the first
  \<open>switch\<close>, on the types whose \<open>strings\<close> may be set (a floating point field may have a unit string;
  it falls through to the case of bytes, which may have a protocol), and the second one, on the
  display, the bitmask and the strings of each type. The check for conflicting value strings, which
  only warns, is not compiled in.
\<close>

definition strings_allowed :: "header_field_info \<Rightarrow> bool" where
  "strings_allowed hfinfo =
     (case hf_type hfinfo of
        FT_CHAR \<Rightarrow> True
      | FT_UINT8 \<Rightarrow> True | FT_UINT16 \<Rightarrow> True | FT_UINT24 \<Rightarrow> True | FT_UINT32 \<Rightarrow> True
      | FT_UINT40 \<Rightarrow> True | FT_UINT48 \<Rightarrow> True | FT_UINT56 \<Rightarrow> True | FT_UINT64 \<Rightarrow> True
      | FT_INT8 \<Rightarrow> True | FT_INT16 \<Rightarrow> True | FT_INT24 \<Rightarrow> True | FT_INT32 \<Rightarrow> True
      | FT_INT40 \<Rightarrow> True | FT_INT48 \<Rightarrow> True | FT_INT56 \<Rightarrow> True | FT_INT64 \<Rightarrow> True
      | FT_BOOLEAN \<Rightarrow> True | FT_PROTOCOL \<Rightarrow> True | FT_FRAMENUM \<Rightarrow> True
      | FT_FLOAT \<Rightarrow>
          hf_display hfinfo AND BASE_UNIT_STRING \<noteq> 0 \<or> hf_display hfinfo AND BASE_PROTOCOL_INFO \<noteq> 0
      | FT_DOUBLE \<Rightarrow>
          hf_display hfinfo AND BASE_UNIT_STRING \<noteq> 0 \<or> hf_display hfinfo AND BASE_PROTOCOL_INFO \<noteq> 0
      | FT_BYTES \<Rightarrow> hf_display hfinfo AND BASE_PROTOCOL_INFO \<noteq> 0
      | _ \<Rightarrow> False)"

definition char_display_ok :: "header_field_info \<Rightarrow> bool" where
  "char_display_ok hfinfo =
     (let base = FIELD_DISPLAY (hf_display hfinfo)
      in (if base = BASE_HEX \<or> base = BASE_OCT \<or> base = BASE_CUSTOM then True
          else if base = BASE_NONE then hf_strings hfinfo \<noteq> NO_STRINGS
          else False) \<and>
         hf_display hfinfo AND BASE_UNIT_STRING = 0)"

definition integer_display_ok :: "header_field_info \<Rightarrow> bool" where
  "integer_display_ok hfinfo =
     (let base = FIELD_DISPLAY (hf_display hfinfo)
      in if IS_BASE_PORT (hf_display hfinfo) then
           hf_type hfinfo = FT_UINT16 \<and> hf_strings hfinfo = NO_STRINGS \<and> hf_bitmask hfinfo = 0
         else if hf_display hfinfo = BASE_OUI then
           hf_type hfinfo = FT_UINT24 \<and> hf_strings hfinfo = NO_STRINGS \<and> hf_bitmask hfinfo = 0
         else if base = BASE_DEC \<or> base = BASE_HEX \<or> base = BASE_OCT \<or> base = BASE_DEC_HEX \<or>
           base = BASE_HEX_DEC \<or> base = BASE_CUSTOM then True
         else if base = BASE_NONE then
           hf_strings hfinfo \<noteq> NO_STRINGS \<and> hf_display hfinfo AND BASE_SPECIAL_VALS = 0
         else False)"

definition signed_display_ok :: "header_field_info \<Rightarrow> bool" where
  "signed_display_ok hfinfo =
     (let base = FIELD_DISPLAY (hf_display hfinfo)
      in if base = BASE_HEX \<or> base = BASE_OCT \<or> base = BASE_DEC_HEX \<or> base = BASE_HEX_DEC then False
         else integer_display_ok hfinfo)"

definition bytes_display_ok :: "header_field_info \<Rightarrow> bool" where
  "bytes_display_ok hfinfo =
     (let base = FIELD_DISPLAY (hf_display hfinfo)
      in (base = BASE_NONE \<or> base = SEP_DOT \<or> base = SEP_DASH \<or> base = SEP_COLON \<or> base = SEP_SPACE) \<and>
         hf_bitmask hfinfo = 0 \<and>
         (hf_strings hfinfo = NO_STRINGS \<or> hf_display hfinfo AND BASE_PROTOCOL_INFO \<noteq> 0))"

definition time_display_ok :: "header_field_info \<Rightarrow> bool" where
  "time_display_ok hfinfo =
     (let d = hf_display hfinfo
      in (d = ABSOLUTE_TIME_LOCAL \<or> d = ABSOLUTE_TIME_UTC \<or> d = ABSOLUTE_TIME_NTP_UTC \<or>
          d = ABSOLUTE_TIME_DOY_UTC) \<and> hf_bitmask hfinfo = 0)"

definition string_display_ok :: "header_field_info \<Rightarrow> bool" where
  "string_display_ok hfinfo =
     ((hf_display hfinfo = STR_ASCII \<or> hf_display hfinfo = STR_UNICODE) \<and> hf_bitmask hfinfo = 0 \<and>
      hf_strings hfinfo = NO_STRINGS)"

definition float_display_ok :: "header_field_info \<Rightarrow> bool" where
  "float_display_ok hfinfo =
     (FIELD_DISPLAY (hf_display hfinfo) = BASE_NONE \<and> hf_bitmask hfinfo = 0 \<and>
      (hf_strings hfinfo = NO_STRINGS \<or> hf_display hfinfo AND BASE_UNIT_STRING \<noteq> 0))"

definition display_allowed :: "header_field_info \<Rightarrow> bool" where
  "display_allowed hfinfo =
     (case hf_type hfinfo of
        FT_CHAR \<Rightarrow> char_display_ok hfinfo
      | FT_INT8 \<Rightarrow> signed_display_ok hfinfo | FT_INT16 \<Rightarrow> signed_display_ok hfinfo
      | FT_INT24 \<Rightarrow> signed_display_ok hfinfo | FT_INT32 \<Rightarrow> signed_display_ok hfinfo
      | FT_INT40 \<Rightarrow> signed_display_ok hfinfo | FT_INT48 \<Rightarrow> signed_display_ok hfinfo
      | FT_INT56 \<Rightarrow> signed_display_ok hfinfo | FT_INT64 \<Rightarrow> signed_display_ok hfinfo
      | FT_UINT8 \<Rightarrow> integer_display_ok hfinfo | FT_UINT16 \<Rightarrow> integer_display_ok hfinfo
      | FT_UINT24 \<Rightarrow> integer_display_ok hfinfo | FT_UINT32 \<Rightarrow> integer_display_ok hfinfo
      | FT_UINT40 \<Rightarrow> integer_display_ok hfinfo | FT_UINT48 \<Rightarrow> integer_display_ok hfinfo
      | FT_UINT56 \<Rightarrow> integer_display_ok hfinfo | FT_UINT64 \<Rightarrow> integer_display_ok hfinfo
      | FT_BYTES \<Rightarrow> bytes_display_ok hfinfo | FT_UINT_BYTES \<Rightarrow> bytes_display_ok hfinfo
      | FT_PROTOCOL \<Rightarrow> hf_display hfinfo = BASE_NONE \<and> hf_bitmask hfinfo = 0
      | FT_FRAMENUM \<Rightarrow> hf_display hfinfo = BASE_NONE \<and> hf_bitmask hfinfo = 0
      | FT_BOOLEAN \<Rightarrow> True
      | FT_ABSOLUTE_TIME \<Rightarrow> time_display_ok hfinfo
      | FT_STRING \<Rightarrow> string_display_ok hfinfo | FT_STRINGZ \<Rightarrow> string_display_ok hfinfo
      | FT_UINT_STRING \<Rightarrow> string_display_ok hfinfo | FT_STRINGZPAD \<Rightarrow> string_display_ok hfinfo
      | FT_IPv4 \<Rightarrow> hf_display hfinfo = BASE_NONE \<or> hf_display hfinfo = BASE_NETMASK
      | FT_FLOAT \<Rightarrow> float_display_ok hfinfo | FT_DOUBLE \<Rightarrow> float_display_ok hfinfo
      | _ \<Rightarrow> hf_display hfinfo = BASE_NONE \<and> hf_bitmask hfinfo = 0 \<and> hf_strings hfinfo = NO_STRINGS)"

text \<open>A name that is NULL is taken for an empty one, for which the code does the same.\<close>

definition tmp_fld_check_assert :: "header_field_info \<Rightarrow> 'a res \<Rightarrow> 'a res" where
  "tmp_fld_check_assert hfinfo k =
     (if hf_name hfinfo = [] then Inl Fault
      else if hf_abbrev hfinfo = [] then Inl Fault
      else if hf_strings hfinfo \<noteq> NO_STRINGS \<and> \<not> strings_allowed hfinfo then Inl Fault
      else if \<not> display_allowed hfinfo then Inl Fault
      else k)"

text \<open>
  \<open>g_hash_table_insert\<close> passes the value it replaces to \<open>save_same_name_hfinfo\<close>, which leaves it in
  \<open>same_name_hfinfo\<close>.
\<close>

definition link_same_name :: "nat \<Rightarrow> nat \<Rightarrow> 'p registrar \<Rightarrow> 'p registrar res" where
  "link_same_name hfinfo same_name_hfinfo reg =
     bindE (deref reg same_name_hfinfo) (\<lambda>old.
     bindE (store hfinfo (\<lambda>h. h\<lparr>same_name_next := same_name_next old\<rparr>) reg) (\<lambda>reg1.
     bindE (case same_name_next old of
              None \<Rightarrow> Inr reg1
            | Some next \<Rightarrow> store next (\<lambda>h. h\<lparr>same_name_prev_id := int hfinfo\<rparr>) reg1) (\<lambda>reg2.
     bindE (store same_name_hfinfo (\<lambda>h. h\<lparr>same_name_next := Some hfinfo\<rparr>) reg2) (\<lambda>reg3.
     bindE (deref reg3 same_name_hfinfo) (\<lambda>old'.
       store hfinfo (\<lambda>h. h\<lparr>same_name_prev_id := hf_id old'\<rparr>) reg3)))))"

definition proto_register_field_init ::
    "'p registrar \<Rightarrow> header_field_info \<Rightarrow> int \<Rightarrow> (int \<times> 'p registrar) res" where
  "proto_register_field_init reg hfinfo parent =
     tmp_fld_check_assert hfinfo
       (let p = length (hfi reg);
            h = hfinfo\<lparr>hf_parent := parent, same_name_next := None, same_name_prev_id := -1,
                        hf_id := int p\<rparr>;
            reg1 = reg\<lparr>hfi := hfi reg @ [Some h]\<rparr>
        in if hf_name h \<noteq> [] \<and> hf_abbrev h \<noteq> [] then
             dissector_assert (proto_check_field_name (hf_abbrev h) = NUL)
               (let reg2 = reg1\<lparr>gpa_name_map := (gpa_name_map reg1)(hf_abbrev h \<mapsto> p)\<rparr>
                in bindE (case gpa_name_map reg1 (hf_abbrev h) of
                            None \<Rightarrow> Inr reg2
                          | Some same_name_hfinfo \<Rightarrow> link_same_name p same_name_hfinfo reg2)
                     (\<lambda>reg3. Inr (int p, reg3)))
           else Inr (int p, reg1))"

section \<open>Taking a field out of the name map\<close>

definition hfinfo_same_name_get_prev ::
    "'p registrar \<Rightarrow> header_field_info \<Rightarrow> header_field_info option res" where
  "hfinfo_same_name_get_prev reg hfinfo =
     (if same_name_prev_id hfinfo = -1 then Inr None
      else bindE (proto_registrar_get_nth reg (same_name_prev_id hfinfo)) (\<lambda>h. Inr (Some h)))"

definition hfinfo_remove_from_gpa_name_map :: "nat \<Rightarrow> 'p registrar \<Rightarrow> 'p registrar res" where
  "hfinfo_remove_from_gpa_name_map p reg0 =
     (let reg = reg0\<lparr>last_field_name := None\<rparr> in
      bindE (deref reg p) (\<lambda>hfinfo.
        if same_name_next hfinfo = None \<and> same_name_prev_id hfinfo = -1 then
          if p \<in> cleared reg then Inl Fault
          else Inr (reg\<lparr>gpa_name_map := (gpa_name_map reg)(hf_abbrev hfinfo := None)\<rparr>)
        else
          bindE (case same_name_next hfinfo of
                   None \<Rightarrow> Inr reg
                 | Some next \<Rightarrow>
                     store next (\<lambda>h. h\<lparr>same_name_prev_id := same_name_prev_id hfinfo\<rparr>) reg)
            (\<lambda>reg1.
               if same_name_prev_id hfinfo \<noteq> -1 then
                 bindE (hfinfo_same_name_get_prev reg1 hfinfo) (\<lambda>prev.
                   case prev of
                     None \<Rightarrow> Inl Fault
                   | Some same_name_prev \<Rightarrow>
                       bindE (store (nat (hf_id same_name_prev))
                                (\<lambda>h. h\<lparr>same_name_next := same_name_next hfinfo\<rparr>) reg1) (\<lambda>reg2.
                         if same_name_next hfinfo = None then
                           Inr (reg2\<lparr>gpa_name_map :=
                             (gpa_name_map reg2)
                               (hf_abbrev same_name_prev \<mapsto> nat (hf_id same_name_prev))\<rparr>)
                         else Inr reg2))
               else Inr reg1)))"

text \<open>
  The part of \<open>proto_deregister_field\<close> that runs once the field has been found among those of its
  protocol; the field itself stays as it is until \<open>proto_free_deregistered_fields\<close>. The filter name
  of a field that has been freed is freed memory, here and above.
\<close>

definition deregister_found_field :: "nat \<Rightarrow> 'p registrar \<Rightarrow> 'p registrar res" where
  "deregister_found_field p reg =
     bindE (deref reg p) (\<lambda>hfinfo.
       if p \<in> cleared reg then Inl Fault
       else Inr (reg\<lparr>last_field_name := None,
                     gpa_name_map := (gpa_name_map reg)(hf_abbrev hfinfo := None)\<rparr>))"

text \<open>
  \<open>free_deregistered_field\<close> gives the strings of the field back, in any case its name and its filter
  name, so that a second call for the same field frees them twice; it gives back the structure only
  when the field is one of a protocol itself, and then clears the entry of the table.
\<close>

definition free_deregistered_field :: "nat \<Rightarrow> 'p registrar \<Rightarrow> 'p registrar res" where
  "free_deregistered_field p reg =
     bindE (deref reg p) (\<lambda>hfinfo.
       let hf_id = hf_id hfinfo;
           reg1 = (if hf_parent hfinfo = -1 then reg\<lparr>hfi := (hfi reg)[p := None]\<rparr> else reg)
       in if p \<in> cleared reg then Inl Fault
          else if 0 \<le> hf_id \<and> nat hf_id < length (hfi reg) then
            Inr (reg1\<lparr>cleared := insert (nat hf_id) (cleared reg1)\<rparr>)
          else Inl Fault)"

section \<open>Lookup by name\<close>

text \<open>\<open>prefix_equal\<close>: equal up to the end or the first dot.\<close>

fun prefix_equal :: "string \<Rightarrow> string \<Rightarrow> bool" where
  "prefix_equal a b =
     (let ac = (case a of [] \<Rightarrow> NUL | c # _ \<Rightarrow> c);
          bc = (case b of [] \<Rightarrow> NUL | c # _ \<Rightarrow> c);
          a_end = (ac = CHR ''.'' \<or> ac = NUL);
          b_end = (bc = CHR ''.'' \<or> bc = NUL)
      in if a_end \<and> b_end then True
         else if a_end \<and> \<not> b_end then False
         else if b_end \<and> \<not> a_end then False
         else if ac \<noteq> bc then False
         else (case (a, b) of
                 (_ # a', _ # b') \<Rightarrow> prefix_equal a' b'
               | _ \<Rightarrow> False))"

declare prefix_equal.simps [simp del]

fun remove_prefix :: "string \<Rightarrow> (string \<times> 'p) list \<Rightarrow> (string \<times> 'p) list" where
  "remove_prefix name [] = []"
| "remove_prefix name ((k, pi) # ps) =
     (if prefix_equal k name then ps else (k, pi) # remove_prefix name ps)"

text \<open>
  \<open>run\<close> calls a prefix initializer with the name that was looked up; it registers the fields of the
  dissector that owns the prefix.
\<close>

definition proto_registrar_get_byname ::
    "('p \<Rightarrow> string \<Rightarrow> 'p registrar \<Rightarrow> 'p registrar res) \<Rightarrow> string \<Rightarrow> 'p registrar \<Rightarrow>
      (nat option \<times> 'p registrar) res"
where
  "proto_registrar_get_byname run field_name reg =
     (if last_field_name reg = Some field_name then Inr (Some (last_hfinfo reg), reg)
      else (case gpa_name_map reg field_name of
              Some p \<Rightarrow>
                Inr (Some p, reg\<lparr>last_field_name := Some field_name, last_hfinfo := p\<rparr>)
            | None \<Rightarrow>
                (case find (\<lambda>(k, pi). prefix_equal k field_name) (prefixes reg) of
                   None \<Rightarrow> Inr (None, reg)
                 | Some (k, pi) \<Rightarrow>
                     bindE (run pi field_name reg) (\<lambda>reg1.
                       let reg2 = reg1\<lparr>prefixes := remove_prefix field_name (prefixes reg1)\<rparr>
                       in case gpa_name_map reg2 field_name of
                            Some p \<Rightarrow>
                              Inr (Some p,
                                   reg2\<lparr>last_field_name := Some field_name, last_hfinfo := p\<rparr>)
                          | None \<Rightarrow> Inr (None, reg2)))))"

definition proto_registrar_get_id_byname ::
    "('p \<Rightarrow> string \<Rightarrow> 'p registrar \<Rightarrow> 'p registrar res) \<Rightarrow> string \<Rightarrow> 'p registrar \<Rightarrow>
      (int \<times> 'p registrar) res"
where
  "proto_registrar_get_id_byname run field_name reg =
     bindE (proto_registrar_get_byname run field_name reg) (\<lambda>(p, reg').
       case p of
         None \<Rightarrow> Inr (-1, reg')
       | Some h \<Rightarrow> bindE (deref reg' h) (\<lambda>hfinfo. Inr (hf_id hfinfo, reg')))"

section \<open>The lists of fields with the same name\<close>

text \<open>
  The loop that rewinds to the first field of a name, as it stands in epan/dfilter/gencode.c. A list
  whose links run in a circle makes it run forever, hence the option.
\<close>

partial_function (option) rewind_loop ::
    "'p registrar \<Rightarrow> header_field_info \<Rightarrow> header_field_info res option" where
  "rewind_loop reg hfinfo =
     (if same_name_prev_id hfinfo \<noteq> -1 then
        (case proto_registrar_get_nth reg (same_name_prev_id hfinfo) of
           Inl e \<Rightarrow> Some (Inl e)
         | Inr h \<Rightarrow> rewind_loop reg h)
      else Some (Inr hfinfo))"

declare rewind_loop.simps [code]

definition returned :: "'a res option \<Rightarrow> 'a res" where
  "returned r = (case r of None \<Rightarrow> Inl Fault | Some x \<Rightarrow> x)"

definition rewind :: "'p registrar \<Rightarrow> nat \<Rightarrow> nat res" where
  "rewind reg p =
     bindE (deref reg p) (\<lambda>h. bindE (returned (rewind_loop reg h)) (\<lambda>h'. Inr (nat (hf_id h'))))"

text \<open>
  The loops \<open>while (hfinfo) { ...; hfinfo = hfinfo->same_name_next; }\<close>; the body answers whether it
  breaks out of the loop.
\<close>

partial_function (option) walk_loop ::
    "'p registrar \<Rightarrow> (header_field_info \<Rightarrow> 's \<Rightarrow> bool \<times> 's) \<Rightarrow> nat option \<Rightarrow> 's \<Rightarrow> 's res option" where
  "walk_loop reg body p s =
     (case p of
        None \<Rightarrow> Some (Inr s)
      | Some i \<Rightarrow>
          (case deref reg i of
             Inl e \<Rightarrow> Some (Inl e)
           | Inr h \<Rightarrow>
               (case body h s of
                  (stop, s') \<Rightarrow>
                    if stop then Some (Inr s') else walk_loop reg body (same_name_next h) s')))"

declare walk_loop.simps [code]

definition walk_same_name ::
    "'p registrar \<Rightarrow> (header_field_info \<Rightarrow> 's \<Rightarrow> bool \<times> 's) \<Rightarrow> nat \<Rightarrow> 's \<Rightarrow> 's res" where
  "walk_same_name reg body p s = returned (walk_loop reg body (Some p) s)"

end
