(* ===== verification/FtypeTable.thy ===== *)
theory FtypeTable
  imports Drange
begin

text \<open>
  The tables of the field types (epan/ftypes): for every type the functions that its table has. A filter
  asks them what a field can do (\<open>ftype_can_eq\<close> and the others of epan/ftypes/ftypes.c). Of a table is kept
  which of the function pointers that the semantic check tests are not NULL.
\<close>

record ftype_t =
  has_from_unparsed :: bool
  has_from_string :: bool
  cmp_table :: "any_op list"
  has_slice :: bool

text \<open>The six orderings, which most types have.\<close>

definition order_ops :: "any_op list" where
  "order_ops = [ANY_EQ, ANY_NE, ANY_GT, ANY_GE, ANY_LT, ANY_LE]"

section \<open>The tables\<close>

definition bytes_type :: ftype_t where
  "bytes_type =
     \<lparr>has_from_unparsed = True, has_from_string = True,
      cmp_table = order_ops @ [ANY_BITWISE_AND, ANY_CONTAINS, ANY_MATCHES],
      has_slice = True\<rparr>"

definition uint_bytes_type :: ftype_t where
  "uint_bytes_type =
     \<lparr>has_from_unparsed = True, has_from_string = False,
      cmp_table = order_ops @ [ANY_BITWISE_AND, ANY_CONTAINS],
      has_slice = True\<rparr>"

definition ax25_type :: ftype_t where
  "ax25_type =
     \<lparr>has_from_unparsed = True, has_from_string = False,
      cmp_table = order_ops @ [ANY_BITWISE_AND, ANY_CONTAINS, ANY_MATCHES],
      has_slice = True\<rparr>"

definition vines_type :: ftype_t where
  "vines_type =
     \<lparr>has_from_unparsed = True, has_from_string = False,
      cmp_table = order_ops @ [ANY_BITWISE_AND, ANY_CONTAINS, ANY_MATCHES],
      has_slice = True\<rparr>"

definition ether_type :: ftype_t where
  "ether_type =
     \<lparr>has_from_unparsed = True, has_from_string = False,
      cmp_table = order_ops @ [ANY_BITWISE_AND, ANY_CONTAINS, ANY_MATCHES],
      has_slice = True\<rparr>"

definition oid_type :: ftype_t where
  "oid_type =
     \<lparr>has_from_unparsed = True, has_from_string = False,
      cmp_table = order_ops @ [ANY_BITWISE_AND, ANY_CONTAINS],
      has_slice = True\<rparr>"

definition rel_oid_type :: ftype_t where
  "rel_oid_type =
     \<lparr>has_from_unparsed = True, has_from_string = False,
      cmp_table = order_ops @ [ANY_BITWISE_AND, ANY_CONTAINS],
      has_slice = True\<rparr>"

definition system_id_type :: ftype_t where
  "system_id_type =
     \<lparr>has_from_unparsed = True, has_from_string = False,
      cmp_table = order_ops @ [ANY_BITWISE_AND, ANY_CONTAINS],
      has_slice = True\<rparr>"

definition fcwwn_type :: ftype_t where
  "fcwwn_type =
     \<lparr>has_from_unparsed = True, has_from_string = False,
      cmp_table = order_ops @ [ANY_BITWISE_AND, ANY_CONTAINS, ANY_MATCHES],
      has_slice = True\<rparr>"

definition float_type :: ftype_t where
  "float_type =
     \<lparr>has_from_unparsed = True, has_from_string = False, cmp_table = order_ops,
      has_slice = False\<rparr>"

definition double_type :: ftype_t where
  "double_type =
     \<lparr>has_from_unparsed = True, has_from_string = False, cmp_table = order_ops,
      has_slice = False\<rparr>"

definition guid_type :: ftype_t where
  "guid_type =
     \<lparr>has_from_unparsed = True, has_from_string = False, cmp_table = [ANY_EQ, ANY_NE],
      has_slice = False\<rparr>"

definition ieee_11073_sfloat_type :: ftype_t where
  "ieee_11073_sfloat_type =
     \<lparr>has_from_unparsed = True, has_from_string = False,
      cmp_table = order_ops @ [ANY_BITWISE_AND],
      has_slice = False\<rparr>"

definition ieee_11073_float_type :: ftype_t where
  "ieee_11073_float_type =
     \<lparr>has_from_unparsed = True, has_from_string = False,
      cmp_table = order_ops @ [ANY_BITWISE_AND],
      has_slice = False\<rparr>"

definition char_type :: ftype_t where
  "char_type =
     \<lparr>has_from_unparsed = True, has_from_string = False,
      cmp_table = order_ops @ [ANY_BITWISE_AND],
      has_slice = False\<rparr>"

definition uint8_type :: ftype_t where
  "uint8_type =
     \<lparr>has_from_unparsed = True, has_from_string = False,
      cmp_table = order_ops @ [ANY_BITWISE_AND],
      has_slice = False\<rparr>"

definition uint16_type :: ftype_t where
  "uint16_type =
     \<lparr>has_from_unparsed = True, has_from_string = False,
      cmp_table = order_ops @ [ANY_BITWISE_AND],
      has_slice = False\<rparr>"

definition uint24_type :: ftype_t where
  "uint24_type =
     \<lparr>has_from_unparsed = True, has_from_string = False,
      cmp_table = order_ops @ [ANY_BITWISE_AND],
      has_slice = False\<rparr>"

definition uint32_type :: ftype_t where
  "uint32_type =
     \<lparr>has_from_unparsed = True, has_from_string = False,
      cmp_table = order_ops @ [ANY_BITWISE_AND],
      has_slice = False\<rparr>"

definition uint40_type :: ftype_t where
  "uint40_type =
     \<lparr>has_from_unparsed = True, has_from_string = False,
      cmp_table = order_ops @ [ANY_BITWISE_AND],
      has_slice = False\<rparr>"

definition uint48_type :: ftype_t where
  "uint48_type =
     \<lparr>has_from_unparsed = True, has_from_string = False,
      cmp_table = order_ops @ [ANY_BITWISE_AND],
      has_slice = False\<rparr>"

definition uint56_type :: ftype_t where
  "uint56_type =
     \<lparr>has_from_unparsed = True, has_from_string = False,
      cmp_table = order_ops @ [ANY_BITWISE_AND],
      has_slice = False\<rparr>"

definition uint64_type :: ftype_t where
  "uint64_type =
     \<lparr>has_from_unparsed = True, has_from_string = False,
      cmp_table = order_ops @ [ANY_BITWISE_AND],
      has_slice = False\<rparr>"

definition int8_type :: ftype_t where
  "int8_type =
     \<lparr>has_from_unparsed = True, has_from_string = False,
      cmp_table = order_ops @ [ANY_BITWISE_AND],
      has_slice = False\<rparr>"

definition int16_type :: ftype_t where
  "int16_type =
     \<lparr>has_from_unparsed = True, has_from_string = False,
      cmp_table = order_ops @ [ANY_BITWISE_AND],
      has_slice = False\<rparr>"

definition int24_type :: ftype_t where
  "int24_type =
     \<lparr>has_from_unparsed = True, has_from_string = False,
      cmp_table = order_ops @ [ANY_BITWISE_AND],
      has_slice = False\<rparr>"

definition int32_type :: ftype_t where
  "int32_type =
     \<lparr>has_from_unparsed = True, has_from_string = False,
      cmp_table = order_ops @ [ANY_BITWISE_AND],
      has_slice = False\<rparr>"

definition int40_type :: ftype_t where
  "int40_type =
     \<lparr>has_from_unparsed = True, has_from_string = False,
      cmp_table = order_ops @ [ANY_BITWISE_AND],
      has_slice = False\<rparr>"

definition int48_type :: ftype_t where
  "int48_type =
     \<lparr>has_from_unparsed = True, has_from_string = False,
      cmp_table = order_ops @ [ANY_BITWISE_AND],
      has_slice = False\<rparr>"

definition int56_type :: ftype_t where
  "int56_type =
     \<lparr>has_from_unparsed = True, has_from_string = False,
      cmp_table = order_ops @ [ANY_BITWISE_AND],
      has_slice = False\<rparr>"

definition int64_type :: ftype_t where
  "int64_type =
     \<lparr>has_from_unparsed = True, has_from_string = False,
      cmp_table = order_ops @ [ANY_BITWISE_AND],
      has_slice = False\<rparr>"

definition boolean_type :: ftype_t where
  "boolean_type =
     \<lparr>has_from_unparsed = True, has_from_string = False, cmp_table = [ANY_EQ, ANY_NE],
      has_slice = False\<rparr>"

definition ipxnet_type :: ftype_t where
  "ipxnet_type =
     \<lparr>has_from_unparsed = True, has_from_string = False,
      cmp_table = order_ops @ [ANY_BITWISE_AND],
      has_slice = False\<rparr>"

definition framenum_type :: ftype_t where
  "framenum_type =
     \<lparr>has_from_unparsed = True, has_from_string = False, cmp_table = order_ops,
      has_slice = False\<rparr>"

definition eui64_type :: ftype_t where
  "eui64_type =
     \<lparr>has_from_unparsed = True, has_from_string = False,
      cmp_table = order_ops @ [ANY_BITWISE_AND],
      has_slice = False\<rparr>"

definition ipv4_type :: ftype_t where
  "ipv4_type =
     \<lparr>has_from_unparsed = True, has_from_string = False,
      cmp_table = order_ops @ [ANY_BITWISE_AND],
      has_slice = True\<rparr>"

definition ipv6_type :: ftype_t where
  "ipv6_type =
     \<lparr>has_from_unparsed = True, has_from_string = False,
      cmp_table = order_ops @ [ANY_BITWISE_AND],
      has_slice = True\<rparr>"

definition none_type :: ftype_t where
  "none_type =
     \<lparr>has_from_unparsed = False, has_from_string = False, cmp_table = [],
      has_slice = False\<rparr>"

definition pcre_type :: ftype_t where
  "pcre_type =
     \<lparr>has_from_unparsed = True, has_from_string = True, cmp_table = [],
      has_slice = False\<rparr>"

definition protocol_type :: ftype_t where
  "protocol_type =
     \<lparr>has_from_unparsed = True, has_from_string = True,
      cmp_table = order_ops @ [ANY_CONTAINS, ANY_MATCHES],
      has_slice = True\<rparr>"

definition string_type :: ftype_t where
  "string_type =
     \<lparr>has_from_unparsed = True, has_from_string = True,
      cmp_table = order_ops @ [ANY_CONTAINS, ANY_MATCHES],
      has_slice = True\<rparr>"

definition stringz_type :: ftype_t where
  "stringz_type =
     \<lparr>has_from_unparsed = True, has_from_string = True,
      cmp_table = order_ops @ [ANY_CONTAINS, ANY_MATCHES],
      has_slice = True\<rparr>"

definition uint_string_type :: ftype_t where
  "uint_string_type =
     \<lparr>has_from_unparsed = True, has_from_string = True,
      cmp_table = order_ops @ [ANY_CONTAINS, ANY_MATCHES],
      has_slice = True\<rparr>"

definition stringzpad_type :: ftype_t where
  "stringzpad_type =
     \<lparr>has_from_unparsed = True, has_from_string = True,
      cmp_table = order_ops @ [ANY_CONTAINS, ANY_MATCHES],
      has_slice = True\<rparr>"

definition abstime_type :: ftype_t where
  "abstime_type =
     \<lparr>has_from_unparsed = True, has_from_string = True, cmp_table = order_ops,
      has_slice = False\<rparr>"

definition reltime_type :: ftype_t where
  "reltime_type =
     \<lparr>has_from_unparsed = True, has_from_string = False, cmp_table = order_ops,
      has_slice = False\<rparr>"

text \<open>\<open>FTYPE_LOOKUP\<close>, after every table has been registered under its type.\<close>

fun ftype_lookup :: "ftenum \<Rightarrow> ftype_t" where
  "ftype_lookup FT_BYTES = bytes_type"
| "ftype_lookup FT_UINT_BYTES = uint_bytes_type"
| "ftype_lookup FT_AX25 = ax25_type"
| "ftype_lookup FT_VINES = vines_type"
| "ftype_lookup FT_ETHER = ether_type"
| "ftype_lookup FT_OID = oid_type"
| "ftype_lookup FT_REL_OID = rel_oid_type"
| "ftype_lookup FT_SYSTEM_ID = system_id_type"
| "ftype_lookup FT_FCWWN = fcwwn_type"
| "ftype_lookup FT_FLOAT = float_type"
| "ftype_lookup FT_DOUBLE = double_type"
| "ftype_lookup FT_GUID = guid_type"
| "ftype_lookup FT_IEEE_11073_SFLOAT = ieee_11073_sfloat_type"
| "ftype_lookup FT_IEEE_11073_FLOAT = ieee_11073_float_type"
| "ftype_lookup FT_CHAR = char_type"
| "ftype_lookup FT_UINT8 = uint8_type"
| "ftype_lookup FT_UINT16 = uint16_type"
| "ftype_lookup FT_UINT24 = uint24_type"
| "ftype_lookup FT_UINT32 = uint32_type"
| "ftype_lookup FT_UINT40 = uint40_type"
| "ftype_lookup FT_UINT48 = uint48_type"
| "ftype_lookup FT_UINT56 = uint56_type"
| "ftype_lookup FT_UINT64 = uint64_type"
| "ftype_lookup FT_INT8 = int8_type"
| "ftype_lookup FT_INT16 = int16_type"
| "ftype_lookup FT_INT24 = int24_type"
| "ftype_lookup FT_INT32 = int32_type"
| "ftype_lookup FT_INT40 = int40_type"
| "ftype_lookup FT_INT48 = int48_type"
| "ftype_lookup FT_INT56 = int56_type"
| "ftype_lookup FT_INT64 = int64_type"
| "ftype_lookup FT_BOOLEAN = boolean_type"
| "ftype_lookup FT_IPXNET = ipxnet_type"
| "ftype_lookup FT_FRAMENUM = framenum_type"
| "ftype_lookup FT_EUI64 = eui64_type"
| "ftype_lookup FT_IPv4 = ipv4_type"
| "ftype_lookup FT_IPv6 = ipv6_type"
| "ftype_lookup FT_NONE = none_type"
| "ftype_lookup FT_PCRE = pcre_type"
| "ftype_lookup FT_PROTOCOL = protocol_type"
| "ftype_lookup FT_STRING = string_type"
| "ftype_lookup FT_STRINGZ = stringz_type"
| "ftype_lookup FT_UINT_STRING = uint_string_type"
| "ftype_lookup FT_STRINGZPAD = stringzpad_type"
| "ftype_lookup FT_ABSOLUTE_TIME = abstime_type"
| "ftype_lookup FT_RELATIVE_TIME = reltime_type"

section \<open>What a type can do\<close>

definition ftype_can_slice :: "ftenum \<Rightarrow> bool" where
  "ftype_can_slice ftype = has_slice (ftype_lookup ftype)"

definition ftype_can_eq :: "ftenum \<Rightarrow> bool" where
  "ftype_can_eq ftype = List.member (cmp_table (ftype_lookup ftype)) ANY_EQ"

definition ftype_can_ne :: "ftenum \<Rightarrow> bool" where
  "ftype_can_ne ftype = List.member (cmp_table (ftype_lookup ftype)) ANY_NE"

definition ftype_can_gt :: "ftenum \<Rightarrow> bool" where
  "ftype_can_gt ftype = List.member (cmp_table (ftype_lookup ftype)) ANY_GT"

definition ftype_can_ge :: "ftenum \<Rightarrow> bool" where
  "ftype_can_ge ftype = List.member (cmp_table (ftype_lookup ftype)) ANY_GE"

definition ftype_can_lt :: "ftenum \<Rightarrow> bool" where
  "ftype_can_lt ftype = List.member (cmp_table (ftype_lookup ftype)) ANY_LT"

definition ftype_can_le :: "ftenum \<Rightarrow> bool" where
  "ftype_can_le ftype = List.member (cmp_table (ftype_lookup ftype)) ANY_LE"

definition ftype_can_bitwise_and :: "ftenum \<Rightarrow> bool" where
  "ftype_can_bitwise_and ftype = List.member (cmp_table (ftype_lookup ftype)) ANY_BITWISE_AND"

definition ftype_can_contains :: "ftenum \<Rightarrow> bool" where
  "ftype_can_contains ftype = List.member (cmp_table (ftype_lookup ftype)) ANY_CONTAINS"

definition ftype_can_matches :: "ftenum \<Rightarrow> bool" where
  "ftype_can_matches ftype = List.member (cmp_table (ftype_lookup ftype)) ANY_MATCHES"

text \<open>The macro \<open>IS_FT_STRING\<close>.\<close>

definition IS_FT_STRING :: "ftenum \<Rightarrow> bool" where
  "IS_FT_STRING ft = (ft = FT_STRING \<or> ft = FT_STRINGZ \<or> ft = FT_STRINGZPAD)"

end
