(* ===== verification/Gencode.thy ===== *)
theory Gencode
  imports Registrar Drange
begin

text \<open>
  From the checked syntax tree of a display filter to the code of the filter machine
  (epan/dfilter/gencode.c): the syntax tree, the instructions, the work area, and the generator with
  its two passes over the finished code.

  A pointer to the operand of a jump that is still to be filled in is the index of the jump. The
  operand itself is 0 until then; C leaves it uninitialised. Registers and constants are numbered by
  \<open>int\<close>: the generator counts registers up from 0 and constants down from -1.
\<close>

section \<open>Syntax tree\<close>

text \<open>
  The checks of parameters of epan/dfilter/dfunctions.c, by the names of the functions that do them.
\<close>

datatype semcheck_param_function =
    UL_SEMCHECK_PARAMS | UL_SEMCHECK_LEN_PARAMS | UL_SEMCHECK_FIELD_PARAM | UL_SEMCHECK_STRING_PARAM

text \<open>
  A function of the filter language gets the values of its two parameters and the register of its
  result, and answers whether it succeeded.
\<close>

record 'v df_func_def =
  df_name :: string
  df_function :: "'v list \<Rightarrow> 'v list \<Rightarrow> 'v list \<Rightarrow> (bool \<times> 'v list) res"
  retval_ftype :: ftenum
  min_nargs :: nat
  max_nargs :: nat
  semcheck_param :: semcheck_param_function

datatype test_op =
    TEST_OP_UNINITIALIZED | TEST_OP_EXISTS | TEST_OP_NOT | TEST_OP_AND | TEST_OP_OR
  | TEST_OP_EQ | TEST_OP_NE | TEST_OP_GT | TEST_OP_GE | TEST_OP_LT | TEST_OP_LE
  | TEST_OP_BITWISE_AND | TEST_OP_CONTAINS | TEST_OP_MATCHES | TEST_OP_IN

text \<open>
  The nodes of the syntax tree. Those with text come from the parser and are resolved by the semantic
  check; the generator asserts that it sees none of them. A field is the index of its \<open>header_field_info\<close>; a set is the
  list of its elements, each with the upper bound if it is a range.
\<close>

datatype 'v stnode =
    STTYPE_FIELD nat
  | STTYPE_STRING string
  | STTYPE_CHARCONST string
  | STTYPE_UNPARSED string
  | STTYPE_FVALUE 'v
  | STTYPE_RANGE "'v stnode" drange_t
  | STTYPE_FUNCTION "'v df_func_def" "'v stnode list"
  | STTYPE_SET "('v stnode \<times> 'v stnode option) list"
  | STTYPE_TEST test_op "'v stnode" "'v stnode option"

section \<open>Instructions\<close>

datatype 'v insn =
    IF_TRUE_GOTO nat
  | IF_FALSE_GOTO nat
  | CHECK_EXISTS nat
  | NOT_INSN
  | RETURN
  | READ_TREE nat int
  | PUT_FVALUE 'v int
  | ANY any_op int int
  | MK_RANGE int int drange_t
  | CALL_FUNCTION "'v df_func_def" int "int option" "int option"
  | ANY_IN_RANGE int int int

record 'v dfwork =
  insns :: "'v insn list"
  const_insns :: "'v insn list"
  loaded_fields :: "nat \<rightharpoonup> int"
  interesting_fields :: "nat list"
  next_insn_id :: nat
  next_const_id :: nat
  next_register :: int
  first_constant :: int

definition dfwork_new :: "'v dfwork" where
  "dfwork_new =
     \<lparr>insns = [], const_insns = [], loaded_fields = Map.empty, interesting_fields = [], next_insn_id = 0,
      next_const_id = 0, next_register = 0, first_constant = -1\<rparr>"

definition dfw_append_insn :: "'v insn \<Rightarrow> 'v dfwork \<Rightarrow> 'v dfwork" where
  "dfw_append_insn i dfw = dfw\<lparr>insns := insns dfw @ [i], next_insn_id := next_insn_id dfw + 1\<rparr>"

definition dfw_append_const :: "'v insn \<Rightarrow> 'v dfwork \<Rightarrow> 'v dfwork" where
  "dfw_append_const i dfw = dfw\<lparr>const_insns := const_insns dfw @ [i], next_const_id := next_const_id dfw + 1\<rparr>"

text \<open>Filling in the operand of a jump: \<open>jmp->value.numeric = target\<close>.\<close>

fun with_target :: "nat \<Rightarrow> 'v insn \<Rightarrow> 'v insn" where
  "with_target t (IF_TRUE_GOTO _) = IF_TRUE_GOTO t"
| "with_target t (IF_FALSE_GOTO _) = IF_FALSE_GOTO t"
| "with_target t i = i"

definition set_jump :: "nat option \<Rightarrow> 'v dfwork \<Rightarrow> 'v dfwork" where
  "set_jump jmp dfw =
     (case jmp of
        None \<Rightarrow> dfw
      | Some j \<Rightarrow> dfw\<lparr>insns := (insns dfw)[j := with_target (next_insn_id dfw) (insns dfw ! j)]\<rparr>)"

section \<open>Entities\<close>

text \<open>The fields of a name that the filter looks at are recorded under their identifiers.\<close>

definition record_interesting :: "'p registrar \<Rightarrow> nat \<Rightarrow> 'v dfwork \<Rightarrow> 'v dfwork res" where
  "record_interesting reg hfinfo dfw =
     bindE (walk_same_name reg (\<lambda>h fields. (False, List.insert (nat (hf_id h)) fields)) hfinfo
              (interesting_fields dfw))
       (\<lambda>fields. Inr (dfw\<lparr>interesting_fields := fields\<rparr>))"

definition dfw_append_read_tree :: "'p registrar \<Rightarrow> nat \<Rightarrow> 'v dfwork \<Rightarrow> (int \<times> 'v dfwork) res" where
  "dfw_append_read_tree reg hfinfo0 dfw =
     bindE (rewind reg hfinfo0) (\<lambda>hfinfo.
       let found = (case loaded_fields dfw hfinfo of None \<Rightarrow> 0 | Some r \<Rightarrow> r) in
       if found \<noteq> 0 then
         let r = found - 1 in Inr (r, dfw_append_insn (READ_TREE hfinfo r) dfw)
       else
         let r = next_register dfw;
             dfw1 = dfw\<lparr>next_register := r + 1,
                        loaded_fields := (loaded_fields dfw)(hfinfo \<mapsto> r + 1)\<rparr>
         in bindE (record_interesting reg hfinfo (dfw_append_insn (READ_TREE hfinfo r) dfw1))
              (\<lambda>dfw2. Inr (r, dfw2)))"

definition dfw_append_put_fvalue :: "'v \<Rightarrow> 'v dfwork \<Rightarrow> int \<times> 'v dfwork" where
  "dfw_append_put_fvalue fv dfw =
     (let r = first_constant dfw
      in (r, dfw_append_const (PUT_FVALUE fv r) (dfw\<lparr>first_constant := r - 1\<rparr>)))"

definition nth_option :: "'a list \<Rightarrow> nat \<Rightarrow> 'a option" where
  "nth_option xs i = (if i < length xs then Some (xs ! i) else None)"

text \<open>
  \<open>gen_entity\<close> with \<open>dfw_append_mk_range\<close> and \<open>dfw_append_function\<close>: the register of the result, the
  jump that is left to its caller, and the new work area. \<open>gen_params\<close> is the loop over the
  parameters, which numbers them from \<open>i\<close>; a third one is an assertion failure.
\<close>

fun gen_entity :: "'p registrar \<Rightarrow> 'v stnode \<Rightarrow> 'v dfwork \<Rightarrow> (int \<times> nat option \<times> 'v dfwork) res"
and gen_params ::
  "'p registrar \<Rightarrow> 'v stnode list \<Rightarrow> nat \<Rightarrow> 'v dfwork \<Rightarrow> (int list \<times> nat option list \<times> 'v dfwork) res"
where
  "gen_entity reg (STTYPE_FIELD hfinfo) dfw =
     bindE (dfw_append_read_tree reg hfinfo dfw) (\<lambda>(r, dfw1).
       Inr (r, Some (next_insn_id dfw1), dfw_append_insn (IF_FALSE_GOTO 0) dfw1))"
| "gen_entity reg (STTYPE_FVALUE fv) dfw =
     (let (r, dfw1) = dfw_append_put_fvalue fv dfw in Inr (r, None, dfw1))"
| "gen_entity reg (STTYPE_RANGE entity dr) dfw =
     bindE (gen_entity reg entity dfw) (\<lambda>(hf_reg, jmp, dfw1).
       let r = next_register dfw1
       in Inr (r, jmp, dfw_append_insn (MK_RANGE hf_reg r dr) (dfw1\<lparr>next_register := r + 1\<rparr>)))"
| "gen_entity reg (STTYPE_FUNCTION f params) dfw =
     (let r = next_register dfw
      in bindE (gen_params reg params 0 (dfw\<lparr>next_register := r + 1\<rparr>)) (\<lambda>(regs, jmps, dfw1).
           let dfw2 = dfw_append_insn
                        (CALL_FUNCTION f r (nth_option regs 0) (nth_option regs 1)) dfw1;
               dfw3 = fold set_jump jmps dfw2
           in Inr (r, Some (next_insn_id dfw3), dfw_append_insn (IF_FALSE_GOTO 0) dfw3)))"
| "gen_entity reg (STTYPE_SET elems) dfw = Inl Fault"
| "gen_entity reg (STTYPE_STRING s) dfw = Inl Fault"
| "gen_entity reg (STTYPE_CHARCONST s) dfw = Inl Fault"
| "gen_entity reg (STTYPE_UNPARSED s) dfw = Inl Fault"
| "gen_entity reg (STTYPE_TEST op a b) dfw = Inl Fault"
| "gen_params reg [] i dfw = Inr ([], [], dfw)"
| "gen_params reg (param # params) i dfw =
     bindE (gen_entity reg param dfw) (\<lambda>(r, jmp, dfw1).
       g_assert (i < 2)
         (bindE (gen_params reg params (i + 1) dfw1) (\<lambda>(regs, jmps, dfw2).
            Inr (r # regs, jmp # jmps, dfw2))))"

section \<open>Tests\<close>

definition gen_relation ::
    "'p registrar \<Rightarrow> any_op \<Rightarrow> 'v stnode \<Rightarrow> 'v stnode \<Rightarrow> 'v dfwork \<Rightarrow> 'v dfwork res" where
  "gen_relation reg op a b dfw =
     bindE (gen_entity reg a dfw) (\<lambda>(reg1, jmp1, dfw1).
     bindE (gen_entity reg b dfw1) (\<lambda>(reg2, jmp2, dfw2).
       Inr (set_jump jmp2 (set_jump jmp1 (dfw_append_insn (ANY op reg1 reg2) dfw2)))))"

text \<open>The loop over the elements of a set; the result is the list of the jumps out of it.\<close>

fun gen_set ::
    "'p registrar \<Rightarrow> int \<Rightarrow> ('v stnode \<times> 'v stnode option) list \<Rightarrow> nat option list \<Rightarrow> 'v dfwork \<Rightarrow>
      (nat option list \<times> 'v dfwork) res"
where
  "gen_set reg reg1 [] jumplist dfw = Inr (jumplist, dfw)"
| "gen_set reg reg1 ((node1, node2) # nodelist) jumplist dfw =
     bindE (gen_entity reg node1 dfw) (\<lambda>(reg2, jmp2, dfw1).
     bindE (case node2 of
              Some upper \<Rightarrow>
                bindE (gen_entity reg upper dfw1) (\<lambda>(reg3, jmp3, dfw2).
                  Inr (jmp3, dfw_append_insn (ANY_IN_RANGE reg1 reg2 reg3) dfw2))
            | None \<Rightarrow> Inr (None, dfw_append_insn (ANY ANY_EQ reg1 reg2) dfw1)) (\<lambda>(jmp3, dfw3).
       let (jumplist', dfw4) =
             (if nodelist \<noteq> [] then
                (Some (next_insn_id dfw3) # jumplist, dfw_append_insn (IF_TRUE_GOTO 0) dfw3)
              else (jumplist, dfw3))
       in gen_set reg reg1 nodelist jumplist' (set_jump jmp3 (set_jump jmp2 dfw4))))"

definition gen_relation_in :: "'p registrar \<Rightarrow> 'v stnode \<Rightarrow> 'v stnode \<Rightarrow> 'v dfwork \<Rightarrow> 'v dfwork res" where
  "gen_relation_in reg a b dfw =
     (case b of
        STTYPE_SET elems \<Rightarrow>
          bindE (gen_entity reg a dfw) (\<lambda>(reg1, jmp1, dfw1).
          bindE (gen_set reg reg1 elems [] dfw1) (\<lambda>(jumplist, dfw2).
            Inr (fold set_jump jumplist (set_jump jmp1 dfw2))))
      | _ \<Rightarrow> Inl Fault)"

definition gen_exists :: "'p registrar \<Rightarrow> 'v stnode \<Rightarrow> 'v dfwork \<Rightarrow> 'v dfwork res" where
  "gen_exists reg a dfw =
     (case a of
        STTYPE_FIELD hfinfo0 \<Rightarrow>
          bindE (rewind reg hfinfo0) (\<lambda>hfinfo.
            record_interesting reg hfinfo (dfw_append_insn (CHECK_EXISTS hfinfo) dfw))
      | _ \<Rightarrow> Inl Fault)"

definition rel_op :: "test_op \<Rightarrow> any_op option" where
  "rel_op op =
     (case op of
        TEST_OP_EQ \<Rightarrow> Some ANY_EQ | TEST_OP_NE \<Rightarrow> Some ANY_NE | TEST_OP_GT \<Rightarrow> Some ANY_GT
      | TEST_OP_GE \<Rightarrow> Some ANY_GE | TEST_OP_LT \<Rightarrow> Some ANY_LT | TEST_OP_LE \<Rightarrow> Some ANY_LE
      | TEST_OP_BITWISE_AND \<Rightarrow> Some ANY_BITWISE_AND | TEST_OP_CONTAINS \<Rightarrow> Some ANY_CONTAINS
      | TEST_OP_MATCHES \<Rightarrow> Some ANY_MATCHES | _ \<Rightarrow> None)"

text \<open>\<open>gencode\<close> and \<open>gen_test\<close>. A missing second argument is a NULL pointer.\<close>

fun gencode :: "'p registrar \<Rightarrow> 'v stnode \<Rightarrow> 'v dfwork \<Rightarrow> 'v dfwork res" where
  "gencode reg (STTYPE_TEST TEST_OP_EXISTS a b) dfw = gen_exists reg a dfw"
| "gencode reg (STTYPE_TEST TEST_OP_NOT a b) dfw =
     bindE (gencode reg a dfw) (\<lambda>dfw1. Inr (dfw_append_insn NOT_INSN dfw1))"
| "gencode reg (STTYPE_TEST TEST_OP_AND a (Some b)) dfw =
     bindE (gencode reg a dfw) (\<lambda>dfw1.
     bindE (gencode reg b (dfw_append_insn (IF_FALSE_GOTO 0) dfw1)) (\<lambda>dfw2.
       Inr (set_jump (Some (next_insn_id dfw1)) dfw2)))"
| "gencode reg (STTYPE_TEST TEST_OP_OR a (Some b)) dfw =
     bindE (gencode reg a dfw) (\<lambda>dfw1.
     bindE (gencode reg b (dfw_append_insn (IF_TRUE_GOTO 0) dfw1)) (\<lambda>dfw2.
       Inr (set_jump (Some (next_insn_id dfw1)) dfw2)))"
| "gencode reg (STTYPE_TEST TEST_OP_IN a (Some b)) dfw = gen_relation_in reg a b dfw"
| "gencode reg (STTYPE_TEST op a (Some b)) dfw =
     (case rel_op op of Some r \<Rightarrow> gen_relation reg r a b dfw | None \<Rightarrow> Inl Fault)"
| "gencode reg _ dfw = Inl Fault"

section \<open>The passes over the finished code\<close>

text \<open>
  The inner loop of the jump fix-up: \<open>t\<close> tells the kind of the jump, \<open>prev\<close> is the instruction before
  it. The loop may run in a circle on code with backward jumps.
\<close>

partial_function (option) thread_jump ::
    "'v insn list \<Rightarrow> bool \<Rightarrow> 'v insn option \<Rightarrow> nat \<Rightarrow> nat res option"
where
  "thread_jump code t prev id1 =
     (if id1 < length code then
        (case code ! id1 of
           IF_TRUE_GOTO target \<Rightarrow>
             if t then thread_jump code t prev target else thread_jump code t prev (id1 + 1)
         | IF_FALSE_GOTO target \<Rightarrow>
             if t then thread_jump code t prev (id1 + 1) else thread_jump code t prev target
         | READ_TREE h r \<Rightarrow>
             (case prev of
                Some (READ_TREE h' r') \<Rightarrow>
                  if r = r' then thread_jump code t prev (id1 + 1) else Some (Inr id1)
              | _ \<Rightarrow> Some (Inr id1))
         | _ \<Rightarrow> Some (Inr id1))
      else Some (Inl Fault))"

declare thread_jump.simps [code]

text \<open>The outer loop, with \<open>n\<close> instructions left; it changes the code in place.\<close>

fun fixup_loop :: "nat \<Rightarrow> nat \<Rightarrow> 'v insn list \<Rightarrow> 'v insn list res" where
  "fixup_loop 0 i code = Inr code"
| "fixup_loop (Suc n) i code =
     (let prev = (if i = 0 then None else Some (code ! (i - 1)))
      in case code ! i of
           IF_TRUE_GOTO target \<Rightarrow>
             bindE (returned (thread_jump code True prev target)) (\<lambda>id1.
               fixup_loop n (i + 1) (code[i := IF_TRUE_GOTO id1]))
         | IF_FALSE_GOTO target \<Rightarrow>
             bindE (returned (thread_jump code False prev target)) (\<lambda>id1.
               fixup_loop n (i + 1) (code[i := IF_FALSE_GOTO id1]))
         | _ \<Rightarrow> fixup_loop n (i + 1) code)"

text \<open>Constants are moved after the registers.\<close>

definition renumber :: "int \<Rightarrow> int \<Rightarrow> int" where
  "renumber fc r = (if r < 0 then fc - r - 1 else r)"

fun renumber_insn :: "int \<Rightarrow> 'v insn \<Rightarrow> 'v insn" where
  "renumber_insn fc (READ_TREE h r) = READ_TREE h (renumber fc r)"
| "renumber_insn fc (PUT_FVALUE v r) = PUT_FVALUE v (renumber fc r)"
| "renumber_insn fc (ANY op r1 r2) = ANY op (renumber fc r1) (renumber fc r2)"
| "renumber_insn fc (MK_RANGE r1 r2 d) = MK_RANGE (renumber fc r1) (renumber fc r2) d"
| "renumber_insn fc (CALL_FUNCTION f r a b) =
     CALL_FUNCTION f (renumber fc r) (map_option (renumber fc) a) (map_option (renumber fc) b)"
| "renumber_insn fc (ANY_IN_RANGE r1 r2 r3) =
     ANY_IN_RANGE (renumber fc r1) (renumber fc r2) (renumber fc r3)"
| "renumber_insn fc i = i"

definition move_constants :: "'v dfwork \<Rightarrow> 'v dfwork" where
  "move_constants dfw =
     (if first_constant dfw = -1 then dfw\<lparr>first_constant := next_register dfw\<rparr>
      else
        let n = - first_constant dfw - 1; fc = next_register dfw
        in dfw\<lparr>first_constant := fc, next_register := next_register dfw + n,
               const_insns := map (renumber_insn fc) (const_insns dfw),
               insns := map (renumber_insn fc) (insns dfw)\<rparr>)"

definition dfw_gencode :: "'p registrar \<Rightarrow> 'v stnode \<Rightarrow> 'v dfwork res" where
  "dfw_gencode reg st_root =
     bindE (gencode reg st_root dfwork_new) (\<lambda>dfw1.
       let dfw2 = dfw_append_insn RETURN dfw1
       in bindE (fixup_loop (length (insns dfw2)) 0 (insns dfw2)) (\<lambda>code.
            Inr (move_constants (dfw2\<lparr>insns := code\<rparr>))))"

end
