(* ===== verification/Dfvm.thy ===== *)
theory Dfvm
  imports Gencode
begin

text \<open>
  The machine that runs a compiled display filter on a protocol tree (epan/dfilter/dfvm.c), and the end
  of \<open>dfilter_compile\<close> that sets it up (epan/dfilter/dfilter.c).

  Of a protocol tree the machine sees the table of the values of the fields it has been primed for
  (\<open>interesting_hfids\<close>): the values for the identifier of a field, in the order of the tree, or
  \<open>None\<close> when the table has no array for it. A register holds a list of values; the NULL pointer is the
  empty list.
\<close>

type_synonym 'v proto_tree = "int \<Rightarrow> 'v list option"

definition proto_get_finfo_ptr_array :: "'v proto_tree \<Rightarrow> int \<Rightarrow> 'v list option" where
  "proto_get_finfo_ptr_array tree fid = tree fid"

definition proto_check_for_protocol_or_field :: "'v proto_tree \<Rightarrow> int \<Rightarrow> bool" where
  "proto_check_for_protocol_or_field tree fid =
     (let ptrs = proto_get_finfo_ptr_array tree fid
      in if (case ptrs of None \<Rightarrow> 0 | Some l \<Rightarrow> length l) > 0 then True else False)"

record 'v dfilter =
  df_insns :: "'v insn list"
  df_consts :: "'v insn list"
  num_registers :: nat
  max_registers :: nat
  registers :: "'v list list"
  attempted_load :: "bool list"
  owns_memory :: "bool list"
  df_interesting_fields :: "nat list"

section \<open>Registers\<close>

text \<open>The arrays have \<open>max_registers\<close> elements; an index outside them is a \<open>Fault\<close>.\<close>

definition reg_index :: "'v dfilter \<Rightarrow> int \<Rightarrow> nat res" where
  "reg_index df r =
     (if 0 \<le> r \<and> nat r < length (registers df) \<and> nat r < length (attempted_load df) \<and>
         nat r < length (owns_memory df)
      then Inr (nat r) else Inl Fault)"

definition get_register :: "'v dfilter \<Rightarrow> int \<Rightarrow> 'v list res" where
  "get_register df r = bindE (reg_index df r) (\<lambda>i. Inr (registers df ! i))"

definition get_register_opt :: "'v dfilter \<Rightarrow> int option \<Rightarrow> 'v list res" where
  "get_register_opt df r = (case r of None \<Rightarrow> Inr [] | Some r' \<Rightarrow> get_register df r')"

definition set_register :: "int \<Rightarrow> 'v list \<Rightarrow> bool \<Rightarrow> 'v dfilter \<Rightarrow> 'v dfilter res" where
  "set_register r vs owns df =
     bindE (reg_index df r) (\<lambda>i.
       Inr (df\<lparr>registers := (registers df)[i := vs], owns_memory := (owns_memory df)[i := owns]\<rparr>))"

section \<open>The operations of the machine\<close>

text \<open>The values of the fields with one name; prepending turns their order around.\<close>

definition collect_values ::
    "'v proto_tree \<Rightarrow> header_field_info \<Rightarrow> bool \<times> 'v list \<Rightarrow> bool \<times> bool \<times> 'v list" where
  "collect_values tree h = (\<lambda>(found_something, fvalues).
     case proto_get_finfo_ptr_array tree (hf_id h) of
       None \<Rightarrow> (False, found_something, fvalues)
     | Some finfos \<Rightarrow>
         if length finfos = 0 then (False, found_something, fvalues)
         else (False, True, rev finfos @ fvalues))"

definition read_tree ::
    "'p registrar \<Rightarrow> 'v proto_tree \<Rightarrow> nat \<Rightarrow> int \<Rightarrow> 'v dfilter \<Rightarrow> (bool \<times> 'v dfilter) res" where
  "read_tree reg tree hfinfo r df =
     bindE (reg_index df r) (\<lambda>i.
       if attempted_load df ! i then
         (if registers df ! i \<noteq> [] then Inr (True, df) else Inr (False, df))
       else
         (let df1 = df\<lparr>attempted_load := (attempted_load df)[i := True]\<rparr>
          in bindE (walk_same_name reg (collect_values tree) hfinfo (False, []))
               (\<lambda>(found_something, fvalues).
                  if \<not> found_something then Inr (False, df1)
                  else bindE (set_register r fvalues False df1) (\<lambda>df2. Inr (True, df2)))))"

definition check_exists :: "'p registrar \<Rightarrow> 'v proto_tree \<Rightarrow> nat \<Rightarrow> bool \<Rightarrow> bool res" where
  "check_exists reg tree hfinfo accum =
     walk_same_name reg
       (\<lambda>h accum. let found = proto_check_for_protocol_or_field tree (hf_id h) in (found, found))
       hfinfo accum"

fun any_inner :: "('v \<Rightarrow> 'v \<Rightarrow> bool res) \<Rightarrow> 'v \<Rightarrow> 'v list \<Rightarrow> bool res" where
  "any_inner cmp a [] = Inr False"
| "any_inner cmp a (b # list_b) =
     bindE (cmp a b) (\<lambda>t. if t then Inr True else any_inner cmp a list_b)"

fun any_test :: "('v \<Rightarrow> 'v \<Rightarrow> bool res) \<Rightarrow> 'v list \<Rightarrow> 'v list \<Rightarrow> bool res" where
  "any_test cmp [] list_b = Inr False"
| "any_test cmp (a # list_a) list_b =
     bindE (any_inner cmp a list_b) (\<lambda>t. if t then Inr True else any_test cmp list_a list_b)"

fun in_range_loop :: "'v ftype_ops \<Rightarrow> 'v \<Rightarrow> 'v \<Rightarrow> 'v list \<Rightarrow> bool res" where
  "in_range_loop ops low high [] = Inr False"
| "in_range_loop ops low high (v # vs) =
     bindE (op_cmp ops ANY_GE v low) (\<lambda>ge.
     bindE (if ge then op_cmp ops ANY_LE v high else Inr False) (\<lambda>both.
       if both then Inr True else in_range_loop ops low high vs))"

definition any_in_range :: "'v ftype_ops \<Rightarrow> 'v list \<Rightarrow> 'v list \<Rightarrow> 'v list \<Rightarrow> bool res" where
  "any_in_range ops list1 list_low list_high =
     (case list_low of
        [low] \<Rightarrow> (case list_high of
                    [high] \<Rightarrow> in_range_loop ops low high list1
                  | _ \<Rightarrow> Inl Fault)
      | _ \<Rightarrow> Inl Fault)"

fun slice_list :: "'v ftype_ops \<Rightarrow> drange_t \<Rightarrow> 'v list \<Rightarrow> 'v list res" where
  "slice_list ops dr [] = Inr []"
| "slice_list ops dr (fv # fvs) =
     bindE (fvalue_slice ops fv dr) (\<lambda>new_fv. bindE (slice_list ops dr fvs) (\<lambda>l. Inr (new_fv # l)))"

definition mk_range :: "'v ftype_ops \<Rightarrow> int \<Rightarrow> int \<Rightarrow> drange_t \<Rightarrow> 'v dfilter \<Rightarrow> 'v dfilter res" where
  "mk_range ops from_reg to_reg d_range df =
     bindE (get_register df from_reg) (\<lambda>from_list.
     bindE (slice_list ops d_range from_list) (\<lambda>to_list. set_register to_reg to_list True df))"

definition call_function ::
    "'v df_func_def \<Rightarrow> int \<Rightarrow> int option \<Rightarrow> int option \<Rightarrow> 'v dfilter \<Rightarrow> (bool \<times> 'v dfilter) res" where
  "call_function f r arg3 arg4 df =
     bindE (get_register_opt df arg3) (\<lambda>param1.
     bindE (get_register_opt df arg4) (\<lambda>param2.
     bindE (get_register df r) (\<lambda>old.
     bindE (df_function f param1 param2 old) (\<lambda>(accum, retval).
     bindE (set_register r retval True df) (\<lambda>df1. Inr (accum, df1))))))"

text \<open>
  Freeing an owned register frees its values, which nothing else refers to, so it shows only in the
  flag; \<open>owns_memory\<close> stays set for a register that a function left empty.
\<close>

definition free_register :: "nat \<Rightarrow> 'v dfilter \<Rightarrow> 'v dfilter" where
  "free_register i df =
     (let df1 = df\<lparr>attempted_load := (attempted_load df)[i := False]\<rparr>
      in if registers df1 ! i \<noteq> [] then
           let df2 = (if owns_memory df1 ! i then df1\<lparr>owns_memory := (owns_memory df1)[i := False]\<rparr>
                      else df1)
           in df2\<lparr>registers := (registers df2)[i := []]\<rparr>
         else df1)"

definition free_register_overhead :: "'v dfilter \<Rightarrow> 'v dfilter" where
  "free_register_overhead df = fold free_register [0..<num_registers df] df"

section \<open>The main loop\<close>

text \<open>One turn of the loop: the next instruction with the new accumulator, or the end.\<close>

datatype 'v outcome = Next nat bool "'v dfilter" | Done bool "'v dfilter"

definition dfvm_insn ::
    "'p registrar \<Rightarrow> 'v ftype_ops \<Rightarrow> 'v proto_tree \<Rightarrow> nat \<Rightarrow> bool \<Rightarrow> 'v dfilter \<Rightarrow> 'v outcome res" where
  "dfvm_insn reg ops tree i accum df =
     (case df_insns df ! i of
        CHECK_EXISTS hfinfo \<Rightarrow>
          bindE (check_exists reg tree hfinfo accum) (\<lambda>a. Inr (Next (i + 1) a df))
      | READ_TREE hfinfo r \<Rightarrow>
          bindE (read_tree reg tree hfinfo r df) (\<lambda>(a, df1). Inr (Next (i + 1) a df1))
      | CALL_FUNCTION f r arg3 arg4 \<Rightarrow>
          bindE (call_function f r arg3 arg4 df) (\<lambda>(a, df1). Inr (Next (i + 1) a df1))
      | MK_RANGE from_reg to_reg d_range \<Rightarrow>
          bindE (mk_range ops from_reg to_reg d_range df) (\<lambda>df1. Inr (Next (i + 1) accum df1))
      | ANY op r1 r2 \<Rightarrow>
          bindE (get_register df r1) (\<lambda>list_a.
          bindE (get_register df r2) (\<lambda>list_b.
          bindE (any_test (op_cmp ops op) list_a list_b) (\<lambda>a. Inr (Next (i + 1) a df))))
      | ANY_IN_RANGE r1 r2 r3 \<Rightarrow>
          bindE (get_register df r1) (\<lambda>list1.
          bindE (get_register df r2) (\<lambda>low.
          bindE (get_register df r3) (\<lambda>high.
          bindE (any_in_range ops list1 low high) (\<lambda>a. Inr (Next (i + 1) a df)))))
      | NOT_INSN \<Rightarrow> Inr (Next (i + 1) (\<not> accum) df)
      | RETURN \<Rightarrow> Inr (Done accum (free_register_overhead df))
      | IF_TRUE_GOTO target \<Rightarrow> Inr (Next (if accum then target else i + 1) accum df)
      | IF_FALSE_GOTO target \<Rightarrow> Inr (Next (if \<not> accum then target else i + 1) accum df)
      | PUT_FVALUE fv r \<Rightarrow> Inl Fault)"

partial_function (option) dfvm_loop ::
    "'p registrar \<Rightarrow> 'v ftype_ops \<Rightarrow> 'v proto_tree \<Rightarrow> nat \<Rightarrow> bool \<Rightarrow> 'v dfilter \<Rightarrow>
      (bool \<times> 'v dfilter) res option"
where
  "dfvm_loop reg ops tree i accum df =
     (if i < length (df_insns df) then
        (case dfvm_insn reg ops tree i accum df of
           Inl e \<Rightarrow> Some (Inl e)
         | Inr (Done a df') \<Rightarrow> Some (Inr (a, df'))
         | Inr (Next j a df') \<Rightarrow> dfvm_loop reg ops tree j a df')
      else Some (Inl Fault))"

declare dfvm_loop.simps [code]

definition dfvm_apply ::
    "'p registrar \<Rightarrow> 'v ftype_ops \<Rightarrow> 'v proto_tree \<Rightarrow> 'v dfilter \<Rightarrow> (bool \<times> 'v dfilter) res" where
  "dfvm_apply reg ops tree df = returned (dfvm_loop reg ops tree 0 True df)"

section \<open>Setting up a filter\<close>

definition put_fvalue :: "'v \<Rightarrow> int \<Rightarrow> 'v dfilter \<Rightarrow> 'v dfilter res" where
  "put_fvalue fv r df = set_register r [fv] False df"

fun init_consts :: "'v insn list \<Rightarrow> 'v dfilter \<Rightarrow> 'v dfilter res" where
  "init_consts [] df = Inr df"
| "init_consts (PUT_FVALUE fv r # is) df = bindE (put_fvalue fv r df) (\<lambda>df1. init_consts is df1)"
| "init_consts (i # is) df = Inl Fault"

definition dfvm_init_const :: "'v dfilter \<Rightarrow> 'v dfilter res" where
  "dfvm_init_const df = init_consts (df_consts df) df"

text \<open>
  The end of \<open>dfilter_compile\<close>, from the call of \<open>dfw_gencode\<close> on. \<open>dfw_interesting_fields\<close> copies the
  keys of the hash table, in an order that the table chooses.
\<close>

definition dfw_interesting_fields :: "'v dfwork \<Rightarrow> nat list" where
  "dfw_interesting_fields dfw = interesting_fields dfw"

definition dfilter_of_dfwork :: "'v dfwork \<Rightarrow> 'v dfilter res" where
  "dfilter_of_dfwork dfw =
     dfvm_init_const
       \<lparr>df_insns = insns dfw, df_consts = const_insns dfw,
        num_registers = nat (first_constant dfw), max_registers = nat (next_register dfw),
        registers = replicate (nat (next_register dfw)) [],
        attempted_load = replicate (nat (next_register dfw)) False,
        owns_memory = replicate (nat (next_register dfw)) False,
        df_interesting_fields = dfw_interesting_fields dfw\<rparr>"

definition dfilter_compile_tree :: "'p registrar \<Rightarrow> 'v stnode \<Rightarrow> 'v dfilter res" where
  "dfilter_compile_tree reg st_root = bindE (dfw_gencode reg st_root) dfilter_of_dfwork"

definition dfilter_apply ::
    "'p registrar \<Rightarrow> 'v ftype_ops \<Rightarrow> 'v dfilter \<Rightarrow> 'v proto_tree \<Rightarrow> (bool \<times> 'v dfilter) res" where
  "dfilter_apply reg ops df tree = dfvm_apply reg ops tree df"

end
