(* ===== verification/ProtoTree.thy ===== *)
theory ProtoTree
  imports Action Registrar FtypeTable Ftypes TvbAccess Dfvm "HOL-Library.AList"
begin

text \<open>
  The protocol tree (epan/proto.c): the tree of nodes that dissectors hang the fields of a packet on,
  and the table of the fields that a display filter is interested in.

  The memory of one tree is part of the state: a pointer to a \<open>proto_node\<close> or to a \<open>field_info\<close> is the
  index of the node or of the structure in the order of allocation, and the members of the
  \<open>tree_data_t\<close> that all nodes of a tree share are members of the state. Of a \<open>field_info\<close> the text for
  the user interface, the appendix and the data source are left out. \<open>interesting_hfids\<close> is the hash
  table as a list of its entries.
\<close>

section \<open>Data\<close>

record 'r field_info =
  fi_hfinfo :: nat
  fi_start :: gint
  fi_length :: gint
  fi_tree_type :: int
  fi_flags :: guint32
  fi_value :: "'r fvalue"

record proto_node =
  first_child :: "nat option"
  last_child :: "nat option"
  next_node :: "nat option"
  parent_node :: "nat option"
  node_finfo :: "nat option"

record ('p, 'r) proto_state =
  registrar :: "'p registrar"
  num_tree_types :: int
  nodes :: "proto_node list"
  finfos :: "'r field_info list"
  interesting_hfids :: "(int \<times> nat list) list option"
  visible :: bool
  fake_protocols :: bool
  item_count :: int

type_synonym ('p, 'r, 'a) tree_action = "(('p, 'r) proto_state, 'a) action"

definition MAX_TREE_ITEMS :: int where "MAX_TREE_ITEMS = 1 * 1000 * 1000"
definition MAX_TREE_LEVELS :: nat where "MAX_TREE_LEVELS = 5 * 100"

definition FI_HIDDEN :: guint32 where "FI_HIDDEN = 0x00000001"
definition FI_GENERATED :: guint32 where "FI_GENERATED = 0x00000002"

definition get_node :: "('p, 'r) proto_state \<Rightarrow> nat \<Rightarrow> proto_node res" where
  "get_node s p = (if p < length (nodes s) then Inr (nodes s ! p) else Inl Fault)"

definition put_node :: "nat \<Rightarrow> (proto_node \<Rightarrow> proto_node) \<Rightarrow> ('p, 'r, unit) tree_action" where
  "put_node p f = update (\<lambda>s. bindE (get_node s p) (\<lambda>n. Inr (s\<lparr>nodes := (nodes s)[p := f n]\<rparr>)))"

definition get_finfo :: "('p, 'r) proto_state \<Rightarrow> nat \<Rightarrow> 'r field_info res" where
  "get_finfo s p = (if p < length (finfos s) then Inr (finfos s ! p) else Inl Fault)"

definition put_finfo ::
    "nat \<Rightarrow> ('r field_info \<Rightarrow> 'r field_info) \<Rightarrow> ('p, 'r, unit) tree_action" where
  "put_finfo p f = update (\<lambda>s. bindE (get_finfo s p) (\<lambda>fi. Inr (s\<lparr>finfos := (finfos s)[p := f fi]\<rparr>)))"

definition proto_node_init :: "proto_node \<Rightarrow> proto_node" where
  "proto_node_init n = n\<lparr>first_child := None, last_child := None, next_node := None\<rparr>"

section \<open>Creating, priming and resetting a tree\<close>

definition proto_tree_create_root :: "'p registrar \<Rightarrow> int \<Rightarrow> ('p, 'r) proto_state" where
  "proto_tree_create_root reg types =
     \<lparr>registrar = reg, num_tree_types = types,
      nodes = [\<lparr>first_child = None, last_child = None, next_node = None, parent_node = None,
                node_finfo = None\<rparr>],
      finfos = [], interesting_hfids = None, visible = False, fake_protocols = True, item_count = 0\<rparr>"

definition set_ref_type :: "int \<Rightarrow> hf_ref_type \<Rightarrow> ('p, 'r, unit) tree_action" where
  "set_ref_type hfid t =
     update (\<lambda>s. bindE (store (nat hfid) (\<lambda>h. h\<lparr>hf_ref_type := t\<rparr>) (registrar s))
                  (\<lambda>reg. Inr (s\<lparr>registrar := reg\<rparr>)))"

definition get_nth :: "int \<Rightarrow> ('p, 'r, header_field_info) tree_action" where
  "get_nth hfid = asks (\<lambda>s. proto_registrar_get_nth (registrar s) hfid)"

definition proto_tree_prime_with_hfid :: "int \<Rightarrow> ('p, 'r, unit) tree_action" where
  "proto_tree_prime_with_hfid hfid =
     bindS (get_nth hfid) (\<lambda>hfinfo.
     bindS (set_ref_type hfid HF_REF_TYPE_DIRECT) (\<lambda>_.
       if hf_parent hfinfo \<noteq> -1 then
         bindS (get_nth (hf_parent hfinfo)) (\<lambda>parent_hfinfo.
           if hf_ref_type parent_hfinfo \<noteq> HF_REF_TYPE_DIRECT
           then set_ref_type (hf_parent hfinfo) HF_REF_TYPE_INDIRECT
           else return ())
       else return ()))"

fun prime_all :: "int list \<Rightarrow> ('p, 'r, unit) tree_action" where
  "prime_all [] = return ()"
| "prime_all (hfid # hfids) = bindS (proto_tree_prime_with_hfid hfid) (\<lambda>_. prime_all hfids)"

definition dfilter_prime_proto_tree :: "'v dfilter \<Rightarrow> ('p, 'r, unit) tree_action" where
  "dfilter_prime_proto_tree df = prime_all (map int (df_interesting_fields df))"

definition free_GPtrArray_value :: "int \<Rightarrow> ('p, 'r, unit) tree_action" where
  "free_GPtrArray_value hfid =
     bindS (get_nth hfid) (\<lambda>hfinfo.
       if hf_ref_type hfinfo \<noteq> HF_REF_TYPE_NONE then
         bindS (if hf_parent hfinfo \<noteq> -1 then
                  bindS (get_nth (hf_parent hfinfo))
                    (\<lambda>_. set_ref_type (hf_parent hfinfo) HF_REF_TYPE_NONE)
                else return ())
           (\<lambda>_. set_ref_type hfid HF_REF_TYPE_NONE)
       else return ())"

fun free_all :: "int list \<Rightarrow> ('p, 'r, unit) tree_action" where
  "free_all [] = return ()"
| "free_all (hfid # hfids) = bindS (free_GPtrArray_value hfid) (\<lambda>_. free_all hfids)"

text \<open>
  The tree is the root. Its nodes and their fields live in a pool that the caller frees next, so they
  are gone after the reset.
\<close>

definition proto_tree_reset :: "('p, 'r, unit) tree_action" where
  "proto_tree_reset =
     bindS (asks (\<lambda>s. get_node s 0)) (\<lambda>root.
     bindS (asks (\<lambda>s. Inr (interesting_hfids s))) (\<lambda>hfids.
     bindS (case hfids of
              None \<Rightarrow> return ()
            | Some entries \<Rightarrow>
                bindS (free_all (map fst entries)) (\<lambda>_. modify (\<lambda>s. s\<lparr>interesting_hfids := Some []\<rparr>)))
       (\<lambda>_. modify (\<lambda>s. s\<lparr>item_count := 0, nodes := [proto_node_init root], finfos := []\<rparr>))))"

definition proto_tree_set_visible :: "bool \<Rightarrow> ('p, 'r, bool) tree_action" where
  "proto_tree_set_visible v =
     bindS (asks (\<lambda>s. Inr (visible s))) (\<lambda>old_visible.
     bindS (modify (\<lambda>s. s\<lparr>visible := v\<rparr>)) (\<lambda>_. return old_visible))"

definition proto_tree_set_fake_protocols :: "bool \<Rightarrow> ('p, 'r, unit) tree_action" where
  "proto_tree_set_fake_protocols v = modify (\<lambda>s. s\<lparr>fake_protocols := v\<rparr>)"

definition proto_field_is_referenced ::
    "('p, 'r) proto_state \<Rightarrow> nat option \<Rightarrow> int \<Rightarrow> bool res" where
  "proto_field_is_referenced s tree proto_id =
     (if tree = None then Inr False
      else if visible s then Inr True
      else bindE (proto_registrar_get_nth (registrar s) proto_id) (\<lambda>hfinfo.
             if hf_ref_type hfinfo \<noteq> HF_REF_TYPE_NONE then Inr True
             else if hf_type hfinfo = FT_PROTOCOL \<and> \<not> fake_protocols s then Inr True
             else Inr False))"

section \<open>Adding a node\<close>

definition tree_data_add_maybe_interesting_field :: "nat \<Rightarrow> ('p, 'r, unit) tree_action" where
  "tree_data_add_maybe_interesting_field fi =
     bindS (asks (\<lambda>s. bindE (get_finfo s fi) (\<lambda>f. deref (registrar s) (fi_hfinfo f)))) (\<lambda>hfinfo.
       if hf_ref_type hfinfo = HF_REF_TYPE_DIRECT then
         modify (\<lambda>s.
           let (entries, ptrs) =
                 (case interesting_hfids s of
                    None \<Rightarrow> ([], None)
                  | Some entries \<Rightarrow>
                      (entries, if length entries \<noteq> 0 then map_of entries (hf_id hfinfo) else None));
               ptrs1 = (case ptrs of None \<Rightarrow> [] | Some ps \<Rightarrow> ps)
           in s\<lparr>interesting_hfids := Some (AList.update (hf_id hfinfo) (ptrs1 @ [fi]) entries)\<rparr>)
       else return ())"

text \<open>The loop that restricts the depth: from the tree up to the root.\<close>

function depth_loop :: "('p, 'r) proto_state \<Rightarrow> nat option \<Rightarrow> nat \<Rightarrow> unit res" where
  "depth_loop s tnode depth =
     (case tnode of
        None \<Rightarrow> Inr ()
      | Some t \<Rightarrow>
          (if depth + 1 > MAX_TREE_LEVELS then Inl DissectorError
           else (case get_node s t of
                   Inl e \<Rightarrow> Inl e
                 | Inr n \<Rightarrow> depth_loop s (parent_node n) (depth + 1))))"
  by pat_completeness auto
termination depth_loop
  by (relation "measure (\<lambda>(s, t, depth). MAX_TREE_LEVELS - depth)") auto

declare depth_loop.simps [simp del]

definition proto_tree_add_node :: "nat \<Rightarrow> nat \<Rightarrow> ('p, 'r, nat) tree_action" where
  "proto_tree_add_node tree fi =
     bindS (asks (\<lambda>s. get_node s tree)) (\<lambda>t.
     bindS (asks (\<lambda>s. if first_child t = None then depth_loop s (Some tree) 1 else Inr ())) (\<lambda>_.
     bindS (case node_finfo t of
              None \<Rightarrow> return ()
            | Some tfi \<Rightarrow>
                bindS (asks (\<lambda>s. get_finfo s tfi)) (\<lambda>f.
                bindS (asks (\<lambda>s. Inr (num_tree_types s))) (\<lambda>types.
                  if fi_tree_type f < 0 \<or> fi_tree_type f \<ge> types then throw DissectorError
                  else return ()))) (\<lambda>_.
     bindS (asks (\<lambda>s. Inr (length (nodes s)))) (\<lambda>pnode.
     bindS (modify (\<lambda>s. s\<lparr>nodes := nodes s @
              [\<lparr>first_child = None, last_child = None, next_node = None, parent_node = Some tree,
                node_finfo = Some fi\<rparr>]\<rparr>)) (\<lambda>_.
     bindS (case last_child t of
              Some sibling \<Rightarrow>
                bindS (asks (\<lambda>s. get_node s sibling)) (\<lambda>sb.
                bindS (assertS (next_node sb = None)) (\<lambda>_.
                  put_node sibling (\<lambda>n. n\<lparr>next_node := Some pnode\<rparr>)))
            | None \<Rightarrow> put_node tree (\<lambda>n. n\<lparr>first_child := Some pnode\<rparr>)) (\<lambda>_.
     bindS (put_node tree (\<lambda>n. n\<lparr>last_child := Some pnode\<rparr>)) (\<lambda>_.
     bindS (tree_data_add_maybe_interesting_field fi) (\<lambda>_.
       return pnode))))))))"

definition proto_item_add_subtree :: "nat option \<Rightarrow> int \<Rightarrow> ('p, 'r, nat option) tree_action" where
  "proto_item_add_subtree pi idx =
     (case pi of
        None \<Rightarrow> return None
      | Some p \<Rightarrow>
          bindS (asks (\<lambda>s. Inr (num_tree_types s))) (\<lambda>types.
          bindS (assertS (0 \<le> idx \<and> idx < types)) (\<lambda>_.
          bindS (asks (\<lambda>s. get_node s p)) (\<lambda>n.
            (case node_finfo n of
               None \<Rightarrow> return (Some p)
             | Some fi \<Rightarrow>
                 bindS (put_finfo fi (\<lambda>f. f\<lparr>fi_tree_type := idx\<rparr>)) (\<lambda>_. return (Some p)))))))"

definition proto_item_get_subtree ::
    "('p, 'r) proto_state \<Rightarrow> nat option \<Rightarrow> nat option res" where
  "proto_item_get_subtree s pi =
     (case pi of
        None \<Rightarrow> Inr None
      | Some p \<Rightarrow>
          bindE (get_node s p) (\<lambda>n.
            (case node_finfo n of
               None \<Rightarrow> Inr None
             | Some fi \<Rightarrow>
                 bindE (get_finfo s fi) (\<lambda>f. if fi_tree_type f = -1 then Inr None else Inr (Some p)))))"

section \<open>Values\<close>

definition IS_FT_INT :: "ftenum \<Rightarrow> bool" where
  "IS_FT_INT ft = (ft \<in> {FT_INT8, FT_INT16, FT_INT24, FT_INT32, FT_INT40, FT_INT48, FT_INT56, FT_INT64})"

definition IS_FT_UINT :: "ftenum \<Rightarrow> bool" where
  "IS_FT_UINT ft =
     (ft \<in> {FT_CHAR, FT_UINT8, FT_UINT16, FT_UINT24, FT_UINT32, FT_FRAMENUM,
            FT_UINT40, FT_UINT48, FT_UINT56, FT_UINT64})"

text \<open>
  \<open>fvalue_init\<close> with the \<open>new_value\<close> functions and wire sizes of epan/ftypes. The pointers of strings and
  byte arrays start as NULL, which is the value \<open>OTHER\<close> until they are set.
\<close>

definition fvalue_init :: "ftenum \<Rightarrow> 'r fvalue" where
  "fvalue_init ft =
     (case ft of
        FT_CHAR \<Rightarrow> UINTEGER 1 0 | FT_UINT8 \<Rightarrow> UINTEGER 1 0 | FT_UINT16 \<Rightarrow> UINTEGER 2 0
      | FT_UINT24 \<Rightarrow> UINTEGER 3 0 | FT_UINT32 \<Rightarrow> UINTEGER 4 0 | FT_FRAMENUM \<Rightarrow> UINTEGER 4 0
      | FT_IPXNET \<Rightarrow> UINTEGER 4 0
      | FT_UINT40 \<Rightarrow> UINTEGER64 5 0 | FT_UINT48 \<Rightarrow> UINTEGER64 6 0 | FT_UINT56 \<Rightarrow> UINTEGER64 7 0
      | FT_UINT64 \<Rightarrow> UINTEGER64 8 0 | FT_EUI64 \<Rightarrow> UINTEGER64 8 0
      | FT_INT8 \<Rightarrow> SINTEGER 1 0 | FT_INT16 \<Rightarrow> SINTEGER 2 0 | FT_INT24 \<Rightarrow> SINTEGER 3 0
      | FT_INT32 \<Rightarrow> SINTEGER 4 0
      | FT_INT40 \<Rightarrow> SINTEGER64 5 0 | FT_INT48 \<Rightarrow> SINTEGER64 6 0 | FT_INT56 \<Rightarrow> SINTEGER64 7 0
      | FT_INT64 \<Rightarrow> SINTEGER64 8 0
      | FT_BOOLEAN \<Rightarrow> BOOLEAN 1
      | FT_IPv4 \<Rightarrow> OTHER ft 4 | FT_IPv6 \<Rightarrow> OTHER ft 16 | FT_GUID \<Rightarrow> OTHER ft 16
      | FT_IEEE_11073_SFLOAT \<Rightarrow> OTHER ft 2 | FT_IEEE_11073_FLOAT \<Rightarrow> OTHER ft 4
      | _ \<Rightarrow> OTHER ft 0)"

definition fvalue_set_uinteger :: "ftenum \<Rightarrow> guint32 \<Rightarrow> 'r fvalue \<Rightarrow> 'r fvalue res" where
  "fvalue_set_uinteger ft v fv =
     g_assert (ft \<in> {FT_IEEE_11073_SFLOAT, FT_IEEE_11073_FLOAT, FT_CHAR, FT_UINT8, FT_UINT16, FT_UINT24,
                      FT_UINT32, FT_IPXNET, FT_FRAMENUM})
       (Inr (case fv of UINTEGER wire_size _ \<Rightarrow> UINTEGER wire_size v | _ \<Rightarrow> fv))"

definition fvalue_set_sinteger :: "ftenum \<Rightarrow> gint32 \<Rightarrow> 'r fvalue \<Rightarrow> 'r fvalue res" where
  "fvalue_set_sinteger ft v fv =
     g_assert (ft \<in> {FT_INT8, FT_INT16, FT_INT24, FT_INT32})
       (Inr (case fv of SINTEGER wire_size _ \<Rightarrow> SINTEGER wire_size v | _ \<Rightarrow> fv))"

definition fvalue_set_uinteger64 :: "ftenum \<Rightarrow> guint64 \<Rightarrow> 'r fvalue \<Rightarrow> 'r fvalue res" where
  "fvalue_set_uinteger64 ft v fv =
     g_assert (ft \<in> {FT_UINT40, FT_UINT48, FT_UINT56, FT_UINT64, FT_BOOLEAN, FT_EUI64})
       (Inr (case fv of UINTEGER64 wire_size _ \<Rightarrow> UINTEGER64 wire_size v
             | BOOLEAN _ \<Rightarrow> BOOLEAN v | _ \<Rightarrow> fv))"

definition fvalue_set_sinteger64 :: "ftenum \<Rightarrow> gint64 \<Rightarrow> 'r fvalue \<Rightarrow> 'r fvalue res" where
  "fvalue_set_sinteger64 ft v fv =
     g_assert (ft \<in> {FT_INT40, FT_INT48, FT_INT56, FT_INT64})
       (Inr (case fv of SINTEGER64 wire_size _ \<Rightarrow> SINTEGER64 wire_size v | _ \<Rightarrow> fv))"

definition fvalue_set_string :: "ftenum \<Rightarrow> guint8 list \<Rightarrow> 'r fvalue \<Rightarrow> 'r fvalue res" where
  "fvalue_set_string ft v fv =
     g_assert (IS_FT_STRING ft \<or> ft = FT_UINT_STRING \<or> ft = FT_PCRE)
       (Inr (if ft = FT_PCRE then fv else STRING v))"

definition fvalue_set_byte_array :: "ftenum \<Rightarrow> guint8 list \<Rightarrow> 'r fvalue \<Rightarrow> 'r fvalue res" where
  "fvalue_set_byte_array ft v fv =
     g_assert (ft \<in> {FT_BYTES, FT_UINT_BYTES, FT_OID, FT_REL_OID, FT_SYSTEM_ID}) (Inr (BYTES v))"

text \<open>wsutil/bits_ctz.h (the builtin) and wsutil/bits_count_ones.h.\<close>

definition ws_ctz :: "guint64 \<Rightarrow> nat res" where
  "ws_ctz x = (if x = 0 then Inl Fault else Inr (length (takeWhile (\<lambda>i. \<not> bit x i) [0..<64])))"

definition ws_count_ones :: "guint64 \<Rightarrow> int" where
  "ws_count_ones x =
     (let bits1 = x - (drop_bit 1 x AND 0x5555555555555555);
          bits2 = (bits1 AND 0x3333333333333333) + (drop_bit 2 bits1 AND 0x3333333333333333);
          bits3 = (bits2 + drop_bit 4 bits2) AND 0x0F0F0F0F0F0F0F0F
      in uint (drop_bit 56 (bits3 * 0x0101010101010101)))"

definition hfinfo_bitshift :: "header_field_info \<Rightarrow> nat res" where
  "hfinfo_bitshift hfinfo = ws_ctz (hf_bitmask hfinfo)"

text \<open>A shift by the width of the operand or more is undefined.\<close>

definition masked32 :: "header_field_info \<Rightarrow> guint32 \<Rightarrow> guint32 res" where
  "masked32 hfinfo v =
     bindE (hfinfo_bitshift hfinfo) (\<lambda>n.
       if n < 32 then Inr (drop_bit n (v AND ucast (hf_bitmask hfinfo))) else Inl Fault)"

definition masked64 :: "header_field_info \<Rightarrow> guint64 \<Rightarrow> guint64 res" where
  "masked64 hfinfo v =
     bindE (hfinfo_bitshift hfinfo) (\<lambda>n. Inr (drop_bit n (v AND hf_bitmask hfinfo)))"

definition set_value ::
    "nat \<Rightarrow> (header_field_info \<Rightarrow> 'r fvalue \<Rightarrow> 'r fvalue res) \<Rightarrow> ('p, 'r, unit) tree_action" where
  "set_value fi g =
     update (\<lambda>s. bindE (get_finfo s fi) (\<lambda>f. bindE (deref (registrar s) (fi_hfinfo f)) (\<lambda>h.
       bindE (g h (fi_value f)) (\<lambda>v. Inr (s\<lparr>finfos := (finfos s)[fi := f\<lparr>fi_value := v\<rparr>]\<rparr>)))))"

definition uint_value :: "guint32 \<Rightarrow> header_field_info \<Rightarrow> 'r fvalue \<Rightarrow> 'r fvalue res" where
  "uint_value v hfinfo fv =
     bindE (if hf_bitmask hfinfo \<noteq> 0 then masked32 hfinfo v else Inr v)
       (\<lambda>integer. fvalue_set_uinteger (hf_type hfinfo) integer fv)"

definition uint64_value :: "guint64 \<Rightarrow> header_field_info \<Rightarrow> 'r fvalue \<Rightarrow> 'r fvalue res" where
  "uint64_value v hfinfo fv =
     bindE (if hf_bitmask hfinfo \<noteq> 0 then masked64 hfinfo v else Inr v)
       (\<lambda>integer. fvalue_set_uinteger64 (hf_type hfinfo) integer fv)"

definition extended :: "'a option \<Rightarrow> 'a res" where
  "extended r = (case r of None \<Rightarrow> Inl Fault | Some x \<Rightarrow> Inr x)"

definition int_value :: "gint32 \<Rightarrow> header_field_info \<Rightarrow> 'r fvalue \<Rightarrow> 'r fvalue res" where
  "int_value v hfinfo fv =
     bindE (if hf_bitmask hfinfo \<noteq> 0
            then bindE (masked32 hfinfo v)
                   (\<lambda>i. extended (ws_sign_ext32 i (ws_count_ones (hf_bitmask hfinfo))))
            else Inr v)
       (\<lambda>integer. fvalue_set_sinteger (hf_type hfinfo) integer fv)"

definition int64_value :: "gint64 \<Rightarrow> header_field_info \<Rightarrow> 'r fvalue \<Rightarrow> 'r fvalue res" where
  "int64_value v hfinfo fv =
     bindE (if hf_bitmask hfinfo \<noteq> 0
            then bindE (masked64 hfinfo v)
                   (\<lambda>i. extended (ws_sign_ext64 i (ws_count_ones (hf_bitmask hfinfo))))
            else Inr v)
       (\<lambda>integer. fvalue_set_sinteger64 (hf_type hfinfo) integer fv)"

definition proto_tree_set_uint :: "nat \<Rightarrow> guint32 \<Rightarrow> ('p, 'r, unit) tree_action" where
  "proto_tree_set_uint fi v = set_value fi (uint_value v)"

definition proto_tree_set_uint64 :: "nat \<Rightarrow> guint64 \<Rightarrow> ('p, 'r, unit) tree_action" where
  "proto_tree_set_uint64 fi v = set_value fi (uint64_value v)"

definition proto_tree_set_boolean :: "nat \<Rightarrow> guint64 \<Rightarrow> ('p, 'r, unit) tree_action" where
  "proto_tree_set_boolean fi v = proto_tree_set_uint64 fi v"

definition proto_tree_set_int :: "nat \<Rightarrow> gint32 \<Rightarrow> ('p, 'r, unit) tree_action" where
  "proto_tree_set_int fi v = set_value fi (int_value v)"

definition proto_tree_set_int64 :: "nat \<Rightarrow> gint64 \<Rightarrow> ('p, 'r, unit) tree_action" where
  "proto_tree_set_int64 fi v = set_value fi (int64_value v)"

text \<open>The bytes of \<open>[ Null ]\<close>.\<close>

definition null_string :: "guint8 list" where
  "null_string = map of_char ''[ Null ]''"

definition proto_tree_set_string :: "nat \<Rightarrow> guint8 list option \<Rightarrow> ('p, 'r, unit) tree_action" where
  "proto_tree_set_string fi v =
     set_value fi (\<lambda>h. fvalue_set_string (hf_type h) (case v of Some s \<Rightarrow> s | None \<Rightarrow> null_string))"

text \<open>
  A pointer to bytes is the list of the bytes that are readable from it on, or \<open>None\<close> for NULL; reading
  more of them is a \<open>Fault\<close>.
\<close>

definition proto_tree_set_bytes :: "nat \<Rightarrow> guint8 list option \<Rightarrow> gint \<Rightarrow> ('p, 'r, unit) tree_action" where
  "proto_tree_set_bytes fi start_ptr len =
     bindS (assertS (start_ptr \<noteq> None \<or> len = 0)) (\<lambda>_.
       set_value fi (\<lambda>h fv.
         bindE (if 0 <s len then
                  (case start_ptr of
                     Some bs \<Rightarrow> if unat len \<le> length bs then Inr (take (unat len) bs) else Inl Fault
                   | None \<Rightarrow> Inl Fault)
                else Inr [])
           (\<lambda>bytes. fvalue_set_byte_array (hf_type h) bytes fv)))"

section \<open>Lengths\<close>

definition ENC_NA :: guint where "ENC_NA = 0x00000000"
definition ENC_VARINT_PROTOBUF :: guint where "ENC_VARINT_PROTOBUF = 0x00000002"
definition ENC_VARINT_QUIC :: guint where "ENC_VARINT_QUIC = 0x00000004"
definition ENC_VARINT_ZIGZAG :: guint where "ENC_VARINT_ZIGZAG = 0x00000008"
definition ENC_VARIANT_MASK :: guint where
  "ENC_VARIANT_MASK = ENC_VARINT_PROTOBUF OR ENC_VARINT_QUIC OR ENC_VARINT_ZIGZAG"

text \<open>The result is the pair of \<open>*length\<close> and \<open>*item_length\<close>.\<close>

definition get_hfi_length ::
    "header_field_info \<Rightarrow> tvbuff option \<Rightarrow> gint \<Rightarrow> gint \<Rightarrow> guint \<Rightarrow> (gint \<times> gint) res" where
  "get_hfi_length hfinfo tvb start len encoding =
     dissector_assert (tvb \<noteq> None \<or> len = 0)
       (if len = -1 then
          (case tvb of
             None \<Rightarrow> Inl Fault
           | Some t \<Rightarrow>
               let ft = hf_type hfinfo; integral = (IS_FT_INT ft \<or> IS_FT_UINT ft)
               in if integral \<and> encoding AND (ENC_VARINT_PROTOBUF OR ENC_VARINT_ZIGZAG) \<noteq> 0 then Inr (len, len)
                  else
                    bindE (if integral \<and> encoding AND ENC_VARINT_QUIC \<noteq> 0
                           then bindE (tvb_get_guint8 t start) (\<lambda>_. Inr ()) else Inr ()) (\<lambda>_.
                      if ft \<in> {FT_PROTOCOL, FT_NONE, FT_BYTES, FT_STRING, FT_STRINGZPAD} then
                        bindE (tvb_captured_length t) (\<lambda>captured.
                        bindE (if captured \<noteq> 0 then tvb_ensure_captured_length_remaining t start else Inr 0)
                          (\<lambda>len1. dissector_assert (0 \<le>s len1) (Inr (len1, len1))))
                      else if ft = FT_STRINGZ then Inr (len, len)
                      else Inl ReportedBoundsError))
        else
          bindE (if hf_type hfinfo \<in> {FT_PROTOCOL, FT_NONE} then
                   (case tvb of
                      None \<Rightarrow> Inr len
                    | Some t \<Rightarrow>
                        bindE (tvb_captured_length_remaining t start) (\<lambda>length_remaining.
                          Inr (if len <s 0 \<or> (0 <s len \<and> length_remaining <s len)
                               then length_remaining else len)))
                 else Inr len)
            (\<lambda>item_length. if item_length <s 0 then Inl ReportedBoundsError else Inr (len, item_length)))"

definition test_length ::
    "header_field_info \<Rightarrow> tvbuff option \<Rightarrow> gint \<Rightarrow> gint \<Rightarrow> guint \<Rightarrow> unit res" where
  "test_length hfinfo tvb start len encoding =
     (case tvb of
        None \<Rightarrow> Inr ()
      | Some t \<Rightarrow>
          let ft = hf_type hfinfo;
              size = (if ft = FT_STRINGZ \<or>
                         (encoding AND ENC_VARIANT_MASK \<noteq> 0 \<and> (IS_FT_UINT ft \<or> IS_FT_INT ft))
                      then (if len = -1 then 0 else len) else len)
          in tvb_ensure_bytes_exist t start size)"

text \<open>\<open>tvb_raw_offset\<close> of epan/tvbuff.c; the cache of the offset in the buffer is not written back.\<close>

definition tvb_raw_offset :: "tvbuff \<Rightarrow> gint" where
  "tvb_raw_offset tvb =
     (if raw_offset (hdr tvb) = -1 then tvb_offset_from_real_beginning tvb else raw_offset (hdr tvb))"

section \<open>Adding fields\<close>

text \<open>
  \<open>TRY_TO_FAKE_THIS_ITEM\<close>: the field to go on with, or \<open>None\<close> when the caller returns the tree. The
  program is not told to abort when there are too many items.
\<close>

definition try_to_fake_this_item :: "nat \<Rightarrow> int \<Rightarrow> ('p, 'r, header_field_info option) tree_action" where
  "try_to_fake_this_item tree hfindex =
     bindS (modify (\<lambda>s. s\<lparr>item_count := item_count s + 1\<rparr>)) (\<lambda>_.
     bindS (get_nth hfindex) (\<lambda>hfinfo.
     bindS (asks Inr) (\<lambda>s.
     bindS (if item_count s > MAX_TREE_ITEMS
            then bindS (modify (\<lambda>s. s\<lparr>item_count := 0\<rparr>)) (\<lambda>_. throw DissectorError)
            else return ()) (\<lambda>_.
     bindS (asks (\<lambda>s. get_node s tree)) (\<lambda>t.
       if \<not> visible s \<and> node_finfo t \<noteq> None \<and> hf_ref_type hfinfo \<noteq> HF_REF_TYPE_DIRECT \<and>
          (hf_type hfinfo \<noteq> FT_PROTOCOL \<or> fake_protocols s)
       then return None else return (Some hfinfo))))))"

definition new_field_info ::
    "nat \<Rightarrow> header_field_info \<Rightarrow> tvbuff option \<Rightarrow> gint \<Rightarrow> gint \<Rightarrow> ('p, 'r, nat) tree_action" where
  "new_field_info hfindex hfinfo tvb start item_length =
     bindS (asks Inr) (\<lambda>s.
     bindS (modify (\<lambda>s. s\<lparr>finfos := finfos s @
              [\<lparr>fi_hfinfo = hfindex,
                fi_start = start + (case tvb of None \<Rightarrow> 0 | Some t \<Rightarrow> tvb_raw_offset t),
                fi_length = item_length, fi_tree_type = -1,
                fi_flags = (if \<not> visible s then 0 OR FI_HIDDEN else 0),
                fi_value = fvalue_init (hf_type hfinfo)\<rparr>]\<rparr>)) (\<lambda>_.
       return (length (finfos s))))"

definition proto_tree_add_pi ::
    "nat \<Rightarrow> nat \<Rightarrow> header_field_info \<Rightarrow> tvbuff option \<Rightarrow> gint \<Rightarrow> gint \<Rightarrow> ('p, 'r, nat \<times> gint) tree_action"
where
  "proto_tree_add_pi tree hfindex hfinfo tvb start len =
     bindS (asks (\<lambda>_. get_hfi_length hfinfo tvb start len ENC_NA)) (\<lambda>(len1, item_length).
     bindS (new_field_info hfindex hfinfo tvb start item_length) (\<lambda>fi.
     bindS (proto_tree_add_node tree fi) (\<lambda>pi. return (pi, len1))))"

definition PNODE_FINFO :: "nat \<Rightarrow> ('p, 'r, nat) tree_action" where
  "PNODE_FINFO p =
     asks (\<lambda>s. bindE (get_node s p) (\<lambda>n. case node_finfo n of None \<Rightarrow> Inl Fault | Some fi \<Rightarrow> Inr fi))"

text \<open>
  What the functions \<open>proto_tree_add_uint\<close> and so on have in common: the checks, the new item and its
  value, which \<open>put_value\<close> stores into the field. A field of the wrong type is a bug of the dissector.
\<close>

definition add_field ::
    "(ftenum \<Rightarrow> bool) \<Rightarrow> (nat \<Rightarrow> gint \<Rightarrow> ('p, 'r, unit) tree_action) \<Rightarrow> nat \<Rightarrow> int \<Rightarrow> tvbuff option \<Rightarrow>
      gint \<Rightarrow> gint \<Rightarrow> ('p, 'r, nat option) tree_action"
where
  "add_field ok put_value tree hfindex tvb start len =
     bindS (try_to_fake_this_item tree hfindex) (\<lambda>r.
       (case r of
          None \<Rightarrow> return (Some tree)
        | Some hfinfo \<Rightarrow>
            bindS (assertS (ok (hf_type hfinfo))) (\<lambda>_.
            bindS (proto_tree_add_pi tree (nat hfindex) hfinfo tvb start len) (\<lambda>(pi, len1).
            bindS (PNODE_FINFO pi) (\<lambda>fi.
            bindS (put_value fi len1) (\<lambda>_. return (Some pi)))))))"

definition check_for_null_tree ::
    "nat option \<Rightarrow> (nat \<Rightarrow> ('p, 'r, nat option) tree_action) \<Rightarrow> ('p, 'r, nat option) tree_action" where
  "check_for_null_tree tree k = (case tree of None \<Rightarrow> return None | Some t \<Rightarrow> k t)"

definition proto_tree_add_uint ::
    "nat option \<Rightarrow> int \<Rightarrow> tvbuff option \<Rightarrow> gint \<Rightarrow> gint \<Rightarrow> guint32 \<Rightarrow> ('p, 'r, nat option) tree_action" where
  "proto_tree_add_uint tree hfindex tvb start len v =
     check_for_null_tree tree (\<lambda>t.
       add_field (\<lambda>ft. ft \<in> {FT_CHAR, FT_UINT8, FT_UINT16, FT_UINT24, FT_UINT32, FT_FRAMENUM})
         (\<lambda>fi _. proto_tree_set_uint fi v) t hfindex tvb start len)"

definition proto_tree_add_uint64 ::
    "nat option \<Rightarrow> int \<Rightarrow> tvbuff option \<Rightarrow> gint \<Rightarrow> gint \<Rightarrow> guint64 \<Rightarrow> ('p, 'r, nat option) tree_action" where
  "proto_tree_add_uint64 tree hfindex tvb start len v =
     check_for_null_tree tree (\<lambda>t.
       add_field (\<lambda>ft. ft \<in> {FT_UINT40, FT_UINT48, FT_UINT56, FT_UINT64, FT_FRAMENUM})
         (\<lambda>fi _. proto_tree_set_uint64 fi v) t hfindex tvb start len)"

definition proto_tree_add_int ::
    "nat option \<Rightarrow> int \<Rightarrow> tvbuff option \<Rightarrow> gint \<Rightarrow> gint \<Rightarrow> gint32 \<Rightarrow> ('p, 'r, nat option) tree_action" where
  "proto_tree_add_int tree hfindex tvb start len v =
     check_for_null_tree tree (\<lambda>t.
       add_field (\<lambda>ft. ft \<in> {FT_INT8, FT_INT16, FT_INT24, FT_INT32})
         (\<lambda>fi _. proto_tree_set_int fi v) t hfindex tvb start len)"

definition proto_tree_add_int64 ::
    "nat option \<Rightarrow> int \<Rightarrow> tvbuff option \<Rightarrow> gint \<Rightarrow> gint \<Rightarrow> gint64 \<Rightarrow> ('p, 'r, nat option) tree_action" where
  "proto_tree_add_int64 tree hfindex tvb start len v =
     check_for_null_tree tree (\<lambda>t.
       add_field (\<lambda>ft. ft \<in> {FT_INT40, FT_INT48, FT_INT56, FT_INT64})
         (\<lambda>fi _. proto_tree_set_int64 fi v) t hfindex tvb start len)"

definition proto_tree_add_boolean ::
    "nat option \<Rightarrow> int \<Rightarrow> tvbuff option \<Rightarrow> gint \<Rightarrow> gint \<Rightarrow> guint32 \<Rightarrow> ('p, 'r, nat option) tree_action" where
  "proto_tree_add_boolean tree hfindex tvb start len v =
     check_for_null_tree tree (\<lambda>t.
       add_field (\<lambda>ft. ft = FT_BOOLEAN)
         (\<lambda>fi _. proto_tree_set_boolean fi (ucast v)) t hfindex tvb start len)"

text \<open>Without the text of the label.\<close>

definition proto_tree_add_none_format ::
    "nat option \<Rightarrow> int \<Rightarrow> tvbuff option \<Rightarrow> gint \<Rightarrow> gint \<Rightarrow> ('p, 'r, nat option) tree_action" where
  "proto_tree_add_none_format tree hfindex tvb start len =
     check_for_null_tree tree (\<lambda>t.
       add_field (\<lambda>ft. ft = FT_NONE) (\<lambda>fi _. return ()) t hfindex tvb start len)"

definition proto_tree_add_string ::
    "nat option \<Rightarrow> int \<Rightarrow> tvbuff option \<Rightarrow> gint \<Rightarrow> gint \<Rightarrow> guint8 list option \<Rightarrow>
      ('p, 'r, nat option) tree_action"
where
  "proto_tree_add_string tree hfindex tvb start len0 v =
     bindS (get_nth hfindex) (\<lambda>hfinfo.
     bindS (asks (\<lambda>_. get_hfi_length hfinfo tvb start len0 ENC_NA)) (\<lambda>(len, item_length).
     bindS (if item_length \<noteq> 0 then asks (\<lambda>_. test_length hfinfo tvb start item_length ENC_NA)
            else return ()) (\<lambda>_.
       check_for_null_tree tree (\<lambda>t.
         add_field IS_FT_STRING
           (\<lambda>fi len1. bindS (assertS (0 \<le>s len1)) (\<lambda>_. proto_tree_set_string fi v))
           t hfindex tvb start len))))"

definition proto_tree_add_bytes ::
    "nat option \<Rightarrow> int \<Rightarrow> tvbuff option \<Rightarrow> gint \<Rightarrow> gint \<Rightarrow> guint8 list option \<Rightarrow>
      ('p, 'r, nat option) tree_action"
where
  "proto_tree_add_bytes tree hfindex tvb start len0 start_ptr =
     bindS (get_nth hfindex) (\<lambda>hfinfo.
     bindS (asks (\<lambda>_. get_hfi_length hfinfo tvb start len0 ENC_NA)) (\<lambda>(len, item_length).
     bindS (asks (\<lambda>_. test_length hfinfo tvb start item_length ENC_NA)) (\<lambda>_.
       check_for_null_tree tree (\<lambda>t.
         add_field (\<lambda>ft. ft = FT_BYTES) (\<lambda>fi len1. proto_tree_set_bytes fi start_ptr len1)
           t hfindex tvb start len))))"

section \<open>Moving an item\<close>

partial_function (option) find_previous ::
    "('p, 'r) proto_state \<Rightarrow> nat option \<Rightarrow> nat \<Rightarrow> nat option res option" where
  "find_previous s curr_item item_to_move =
     (case curr_item of
        None \<Rightarrow> Some (Inr None)
      | Some c \<Rightarrow>
          (case get_node s c of
             Inl e \<Rightarrow> Some (Inl e)
           | Inr n \<Rightarrow>
               if next_node n = Some item_to_move then Some (Inr (Some c))
               else find_previous s (next_node n) item_to_move))"

declare find_previous.simps [code]

definition cut_item :: "nat \<Rightarrow> nat \<Rightarrow> ('p, 'r, unit) tree_action" where
  "cut_item tree item_to_move =
     bindS (asks (\<lambda>s. get_node s tree)) (\<lambda>t.
     bindS (asks (\<lambda>s. get_node s item_to_move)) (\<lambda>item.
       if first_child t = Some item_to_move then
         bindS (put_node tree (\<lambda>n. n\<lparr>first_child := next_node item\<rparr>)) (\<lambda>_.
           assertS (last_child t \<noteq> Some item_to_move))
       else
         bindS (asks (\<lambda>s. returned (find_previous s (first_child t) item_to_move))) (\<lambda>r.
           (case r of
              None \<Rightarrow> throw DissectorError
            | Some curr_item \<Rightarrow>
                bindS (put_node curr_item (\<lambda>n. n\<lparr>next_node := next_node item\<rparr>)) (\<lambda>_.
                  if last_child t = Some item_to_move
                  then put_node tree (\<lambda>n. n\<lparr>last_child := Some curr_item\<rparr>)
                  else return ())))))"

definition insert_after :: "nat \<Rightarrow> nat \<Rightarrow> nat \<Rightarrow> ('p, 'r, unit) tree_action" where
  "insert_after tree fixed_item item_to_move =
     bindS (asks (\<lambda>s. get_node s fixed_item)) (\<lambda>fixed.
     bindS (put_node item_to_move (\<lambda>n. n\<lparr>next_node := next_node fixed\<rparr>)) (\<lambda>_.
     bindS (put_node fixed_item (\<lambda>n. n\<lparr>next_node := Some item_to_move\<rparr>)) (\<lambda>_.
     bindS (asks (\<lambda>s. get_node s tree)) (\<lambda>t.
       if last_child t = Some fixed_item
       then put_node tree (\<lambda>n. n\<lparr>last_child := Some item_to_move\<rparr>)
       else return ()))))"

definition proto_tree_move_item :: "nat option \<Rightarrow> nat \<Rightarrow> nat \<Rightarrow> ('p, 'r, unit) tree_action" where
  "proto_tree_move_item tree fixed_item item_to_move =
     (case tree of
        None \<Rightarrow> return ()
      | Some t \<Rightarrow>
          bindS (asks (\<lambda>s. Inr (visible s))) (\<lambda>v.
            if \<not> v then return ()
            else
              bindS (asks (\<lambda>s. get_node s item_to_move)) (\<lambda>item.
              bindS (assertS (parent_node item = Some t)) (\<lambda>_.
              bindS (asks (\<lambda>s. get_node s fixed_item)) (\<lambda>fixed.
              bindS (assertS (parent_node fixed = Some t)) (\<lambda>_.
              bindS (cut_item t item_to_move) (\<lambda>_. insert_after t fixed_item item_to_move)))))))"

section \<open>Walking and searching\<close>

text \<open>
  The recursion of \<open>proto_tree_traverse_pre_order\<close> over the children of a node and their successors.
  \<open>func\<close> gets a node and the data and says whether to stop; the functions of this file do not change
  the tree.
\<close>

partial_function (option) pre_order_children ::
    "('p, 'r) proto_state \<Rightarrow> (nat \<Rightarrow> 'd \<Rightarrow> (bool \<times> 'd) res) \<Rightarrow> nat option \<Rightarrow> 'd \<Rightarrow> (bool \<times> 'd) res option"
where
  "pre_order_children s func child d =
     (case child of
        None \<Rightarrow> Some (Inr (False, d))
      | Some current \<Rightarrow>
          (case bindE (get_node s current) (\<lambda>n. bindE (func current d) (\<lambda>(stop, d1). Inr (n, stop, d1))) of
             Inl e \<Rightarrow> Some (Inl e)
           | Inr (n, stop, d1) \<Rightarrow>
               if stop then Some (Inr (True, d1))
               else
                 Option.bind (pre_order_children s func (first_child n) d1) (\<lambda>r.
                   (case r of
                      Inl e \<Rightarrow> Some (Inl e)
                    | Inr (stop2, d2) \<Rightarrow>
                        if stop2 then Some (Inr (True, d2))
                        else pre_order_children s func (next_node n) d2))))"

declare pre_order_children.simps [code]

definition proto_tree_traverse_pre_order ::
    "('p, 'r) proto_state \<Rightarrow> nat \<Rightarrow> (nat \<Rightarrow> 'd \<Rightarrow> (bool \<times> 'd) res) \<Rightarrow> 'd \<Rightarrow> (bool \<times> 'd) res" where
  "proto_tree_traverse_pre_order s tree func d =
     bindE (get_node s tree) (\<lambda>n.
     bindE (func tree d) (\<lambda>(stop, d1).
       if stop then Inr (True, d1) else returned (pre_order_children s func (first_child n) d1)))"

definition finfo_of :: "('p, 'r) proto_state \<Rightarrow> nat \<Rightarrow> (nat \<times> header_field_info) option res" where
  "finfo_of s p =
     bindE (get_node s p) (\<lambda>n.
       (case node_finfo n of
          None \<Rightarrow> Inr None
        | Some fi \<Rightarrow>
            bindE (get_finfo s fi) (\<lambda>f. bindE (deref (registrar s) (fi_hfinfo f)) (\<lambda>h. Inr (Some (fi, h))))))"

definition find_finfo :: "('p, 'r) proto_state \<Rightarrow> int \<Rightarrow> nat \<Rightarrow> nat list \<Rightarrow> (bool \<times> nat list) res" where
  "find_finfo s hfid p array =
     bindE (finfo_of s p) (\<lambda>r. case r of
         None \<Rightarrow> Inr (False, array)
       | Some (fi, h) \<Rightarrow> Inr (False, if hf_id h = hfid then array @ [fi] else array))"

definition find_first_finfo :: "('p, 'r) proto_state \<Rightarrow> int \<Rightarrow> nat \<Rightarrow> nat list \<Rightarrow> (bool \<times> nat list) res" where
  "find_first_finfo s hfid p array =
     bindE (finfo_of s p) (\<lambda>r. case r of
         None \<Rightarrow> Inr (False, array)
       | Some (fi, h) \<Rightarrow> if hf_id h = hfid then Inr (True, array @ [fi]) else Inr (False, array))"

definition every_finfo :: "('p, 'r) proto_state \<Rightarrow> nat \<Rightarrow> nat list \<Rightarrow> (bool \<times> nat list) res" where
  "every_finfo s p array =
     bindE (finfo_of s p) (\<lambda>r. case r of
         None \<Rightarrow> Inr (False, array)
       | Some (fi, h) \<Rightarrow> Inr (False, array @ [fi]))"

definition proto_find_finfo :: "('p, 'r) proto_state \<Rightarrow> nat \<Rightarrow> int \<Rightarrow> nat list res" where
  "proto_find_finfo s tree hfid =
     bindE (proto_tree_traverse_pre_order s tree (find_finfo s hfid) []) (\<lambda>(_, array). Inr array)"

definition proto_find_first_finfo :: "('p, 'r) proto_state \<Rightarrow> nat \<Rightarrow> int \<Rightarrow> nat list res" where
  "proto_find_first_finfo s tree hfid =
     bindE (proto_tree_traverse_pre_order s tree (find_first_finfo s hfid) []) (\<lambda>(_, array). Inr array)"

definition proto_all_finfos :: "('p, 'r) proto_state \<Rightarrow> nat \<Rightarrow> nat list res" where
  "proto_all_finfos s tree =
     bindE (proto_tree_traverse_pre_order s tree (every_finfo s) []) (\<lambda>(_, array). Inr array)"

text \<open>The table of the interesting fields, and the values a filter reads from it.\<close>

definition finfo_ptr_array :: "('p, 'r) proto_state \<Rightarrow> int \<Rightarrow> nat list option" where
  "finfo_ptr_array s hfid =
     (case interesting_hfids s of None \<Rightarrow> None | Some entries \<Rightarrow> map_of entries hfid)"

definition proto_tracking_interesting_fields :: "('p, 'r) proto_state \<Rightarrow> nat option \<Rightarrow> bool" where
  "proto_tracking_interesting_fields s tree =
     (if tree = None then False
      else (case interesting_hfids s of None \<Rightarrow> False | Some entries \<Rightarrow> length entries \<noteq> 0))"

definition filter_view :: "('p, 'r) proto_state \<Rightarrow> 'r fvalue proto_tree" where
  "filter_view s hfid = map_option (map (\<lambda>fi. fi_value (finfos s ! fi))) (finfo_ptr_array s hfid)"

end
