(* ===== verification/RegistrarProps.thy ===== *)
theory RegistrarProps
  imports Registrar
begin

text \<open>
  The invariant of the name lists: \<open>byname\<close> gives for every filter name the fields registered under
  it, in the order of their registration; their links form a doubly linked list, and the name map
  points to the last one.
\<close>

section \<open>Doubly linked segments\<close>

definition hd_or :: "nat list \<Rightarrow> nat option \<Rightarrow> nat option" where
  "hd_or ps nxt = (case ps of [] \<Rightarrow> nxt | p # _ \<Rightarrow> Some p)"

definition last_or :: "int \<Rightarrow> nat list \<Rightarrow> int" where
  "last_or prev ps = (if ps = [] then prev else int (last ps))"

lemma hd_or_simps [simp]: "hd_or [] nxt = nxt" "hd_or (p # ps) nxt = Some p"
  by (simp_all add: hd_or_def)

lemma last_or_simps [simp]:
  "last_or prev [] = prev" "last_or prev (p # ps) = last_or (int p) ps"
  "last_or prev (ps @ [p]) = int p"
  by (simp_all add: last_or_def)

lemma hd_or_append [simp]: "hd_or (xs @ ys) nxt = hd_or xs (hd_or ys nxt)"
  by (cases xs) simp_all

definition linked_node :: "'p registrar \<Rightarrow> int \<Rightarrow> nat \<Rightarrow> nat option \<Rightarrow> bool" where
  "linked_node reg prev p nxt =
     (\<exists>h. deref reg p = Inr h \<and> hf_id h = int p \<and> same_name_prev_id h = prev \<and>
          same_name_next h = nxt)"

fun dll :: "'p registrar \<Rightarrow> int \<Rightarrow> nat list \<Rightarrow> nat option \<Rightarrow> bool" where
  "dll reg prev [] nxt = True"
| "dll reg prev (p # ps) nxt = (linked_node reg prev p (hd_or ps nxt) \<and> dll reg (int p) ps nxt)"

lemma dll_append:
  "dll reg prev (xs @ ys) nxt \<longleftrightarrow> dll reg prev xs (hd_or ys nxt) \<and> dll reg (last_or prev xs) ys nxt"
  by (induction xs arbitrary: prev) auto

lemma dll_frame:
  assumes "\<And>p. p \<in> set ps \<Longrightarrow> deref reg' p = deref reg p"
  shows "dll reg' prev ps nxt = dll reg prev ps nxt"
  using assms by (induction ps arbitrary: prev) (auto simp: linked_node_def)

lemma dll_mem: "dll reg prev ps nxt \<Longrightarrow> p \<in> set ps \<Longrightarrow> \<exists>h. deref reg p = Inr h \<and> hf_id h = int p"
  by (induction ps arbitrary: prev) (auto simp: linked_node_def)

lemma deref_length: "deref reg p = Inr h \<Longrightarrow> p < length (hfi reg)"
  by (auto simp: deref_def split: if_splits)

lemma deref_map_update [simp]:
  "deref (reg\<lparr>gpa_name_map := m\<rparr>) p = deref reg p"
  "deref (reg\<lparr>last_field_name := c\<rparr>) p = deref reg p"
  "deref (reg\<lparr>last_hfinfo := n\<rparr>) p = deref reg p"
  "deref (reg\<lparr>prefixes := ps\<rparr>) p = deref reg p"
  by (simp_all add: deref_def)

lemma store_eq:
  "deref reg p = Inr h \<Longrightarrow> store p f reg = Inr (reg\<lparr>hfi := (hfi reg)[p := Some (f h)]\<rparr>)"
  by (simp add: store_def)

lemma deref_update:
  "p < length (hfi reg) \<Longrightarrow>
     deref (reg\<lparr>hfi := (hfi reg)[p := Some x]\<rparr>) q = (if q = p then Inr x else deref reg q)"
  by (auto simp: deref_def)

lemma deref_append:
  "deref (reg\<lparr>hfi := hfi reg @ [Some h]\<rparr>) q =
     (if q = length (hfi reg) then Inr h else deref reg q)"
  by (simp add: deref_def nth_append)

lemma get_nth_deref:
  "deref reg p = Inr h \<Longrightarrow> p \<notin> cleared reg \<Longrightarrow> proto_registrar_get_nth reg (int p) = Inr h"
  by (auto simp: deref_def proto_registrar_get_nth_def split: if_splits option.splits)

section \<open>The invariant\<close>

definition names :: "'p registrar \<Rightarrow> (string \<Rightarrow> nat list) \<Rightarrow> bool" where
  "names reg byname =
     ((\<forall>s. distinct (byname s)) \<and>
      (\<forall>s. dll reg (-1) (byname s) None) \<and>
      (\<forall>s. \<forall>p \<in> set (byname s). \<exists>h. deref reg p = Inr h \<and> hf_abbrev h = s) \<and>
      (\<forall>s. gpa_name_map reg s = (if byname s = [] then None else Some (last (byname s)))) \<and>
      (\<forall>s. last_field_name reg = Some s \<longrightarrow> last_hfinfo reg \<in> set (byname s)) \<and>
      (\<forall>s. \<forall>p \<in> set (byname s). p \<notin> cleared reg) \<and>
      (\<forall>p \<in> cleared reg. p < length (hfi reg)))"

lemma namesD:
  assumes "names reg byname"
  shows "distinct (byname s)" "dll reg (-1) (byname s) None"
    "p \<in> set (byname s) \<Longrightarrow> \<exists>h. deref reg p = Inr h \<and> hf_abbrev h = s \<and> hf_id h = int p"
    "gpa_name_map reg s = (if byname s = [] then None else Some (last (byname s)))"
    "last_field_name reg = Some s \<Longrightarrow> last_hfinfo reg \<in> set (byname s)"
    "p \<in> set (byname s) \<Longrightarrow> p \<notin> cleared reg" "q \<in> cleared reg \<Longrightarrow> q < length (hfi reg)"
proof -
  show "\<exists>h. deref reg p = Inr h \<and> hf_abbrev h = s \<and> hf_id h = int p" if "p \<in> set (byname s)"
    using assms that dll_mem [of reg "-1" "byname s" None p] unfolding names_def by fastforce
qed (use assms in \<open>auto simp: names_def\<close>)

lemma names_fresh:
  assumes "names reg byname"
  shows "length (hfi reg) \<notin> set (byname s)"
  using namesD(3) [OF assms] deref_length by blast

lemma names_disjoint:
  assumes "names reg byname" "p \<in> set (byname s)" "p \<in> set (byname t)"
  shows "s = t"
proof -
  obtain h where "deref reg p = Inr h" "hf_abbrev h = s"
    using namesD(3) [OF assms(1,2)] by blast
  moreover obtain h' where "deref reg p = Inr h'" "hf_abbrev h' = t"
    using namesD(3) [OF assms(1,3)] by blast
  ultimately show ?thesis by simp
qed

lemma namesI:
  assumes "\<And>t. distinct (byname t)" "\<And>t. dll reg (-1) (byname t) None"
    "\<And>t p. p \<in> set (byname t) \<Longrightarrow> \<exists>h. deref reg p = Inr h \<and> hf_abbrev h = t"
    "\<And>t. gpa_name_map reg t = (if byname t = [] then None else Some (last (byname t)))"
    "\<And>t. last_field_name reg = Some t \<Longrightarrow> last_hfinfo reg \<in> set (byname t)"
    "\<And>t p. p \<in> set (byname t) \<Longrightarrow> p \<notin> cleared reg"
    "\<And>p. p \<in> cleared reg \<Longrightarrow> p < length (hfi reg)"
  shows "names reg byname"
  using assms unfolding names_def by blast

text \<open>A change of the list of one name leaves the lists of the others alone.\<close>

lemma names_update:
  assumes inv: "names reg byname"
    and others: "\<And>q. q \<notin> set ids \<Longrightarrow> q \<notin> set (byname s) \<Longrightarrow> q \<noteq> length (hfi reg) \<Longrightarrow>
                   deref reg' q = deref reg q"
    and new: "distinct ids" "dll reg' (-1) ids None"
      "\<And>p. p \<in> set ids \<Longrightarrow> \<exists>h. deref reg' p = Inr h \<and> hf_abbrev h = s"
      "\<And>t p. p \<in> set ids \<Longrightarrow> p \<in> set (byname t) \<Longrightarrow> t = s"
    and nm: "gpa_name_map reg' = (gpa_name_map reg)(s := if ids = [] then None else Some (last ids))"
    and cache: "\<And>t. last_field_name reg' = Some t \<Longrightarrow> last_hfinfo reg' \<in> set ((byname(s := ids)) t)"
    and slots: "cleared reg' = cleared reg" "length (hfi reg) \<le> length (hfi reg')"
      "\<And>p. p \<in> set ids \<Longrightarrow> p \<notin> cleared reg"
  shows "names reg' (byname(s := ids))"
proof (rule namesI)
  have same: "deref reg' q = deref reg q" if "q \<in> set (byname t)" "t \<noteq> s" for q t
    using others [of q] new(4) [of q t] that names_disjoint [OF inv, of q t s]
      names_fresh [OF inv, of t] by blast
  fix t
  show "distinct ((byname(s := ids)) t)"
    using new(1) namesD(1) [OF inv] by simp
  show "dll reg' (-1) ((byname(s := ids)) t) None"
    using new(2) namesD(2) [OF inv, of t] dll_frame [of "byname t" reg' reg "-1" None] same by auto
  show "\<exists>h. deref reg' p = Inr h \<and> hf_abbrev h = t" if "p \<in> set ((byname(s := ids)) t)" for p
  proof (cases "t = s")
    case True
    then show ?thesis using new(3) [of p] that by simp
  next
    case False
    then show ?thesis using that same [of p t] namesD(3) [OF inv, of p t] by auto
  qed
  show "gpa_name_map reg' t =
          (if (byname(s := ids)) t = [] then None else Some (last ((byname(s := ids)) t)))"
    using nm namesD(4) [OF inv, of t] by simp
  show "p \<notin> cleared reg'" if "p \<in> set ((byname(s := ids)) t)" for p
    using that slots(1,3) namesD(6) [OF inv, of p t] by (auto split: if_splits)
  show "p < length (hfi reg')" if "p \<in> cleared reg'" for p
    using that slots(1,2) namesD(7) [OF inv, of p] by simp
qed (use cache in simp)


section \<open>Registering\<close>

text \<open>What two updates leave behind.\<close>

lemma link_same_name_last:
  assumes "deref reg p = Inr h" "deref reg old = Inr ho" "p \<noteq> old" "same_name_next ho = None"
    "hf_id ho = int old"
  shows "\<exists>reg'. link_same_name p old reg = Inr reg' \<and>
           (\<forall>q. deref reg' q =
              (if q = p then Inr (h\<lparr>same_name_next := None, same_name_prev_id := int old\<rparr>)
               else if q = old then Inr (ho\<lparr>same_name_next := Some p\<rparr>) else deref reg q)) \<and>
           gpa_name_map reg' = gpa_name_map reg \<and> last_field_name reg' = last_field_name reg \<and>
           last_hfinfo reg' = last_hfinfo reg \<and> cleared reg' = cleared reg \<and>
           length (hfi reg') = length (hfi reg)"
  using assms
  by (auto simp: link_same_name_def store_def deref_def nth_list_update
      split: if_splits option.splits)

definition valid_name :: "string \<Rightarrow> bool" where
  "valid_name s = (proto_check_field_name s = NUL)"

lemma names_after_append:
  assumes inv: "names reg byname"
    and new: "deref reg' (length (hfi reg)) = Inr h" "hf_abbrev h = s" "hf_id h = int (length (hfi reg))"
      "same_name_next h = None"
    and rest: "byname s = [] \<Longrightarrow> same_name_prev_id h = -1"
      "\<And>xs old. byname s = xs @ [old] \<Longrightarrow> same_name_prev_id h = int old \<and>
         deref reg' old = map_sum id (\<lambda>ho. ho\<lparr>same_name_next := Some (length (hfi reg))\<rparr>) (deref reg old)"
    and others: "\<And>q. q \<noteq> length (hfi reg) \<Longrightarrow> byname s = [] \<or> q \<noteq> last (byname s) \<Longrightarrow>
         deref reg' q = deref reg q"
    and nm: "gpa_name_map reg' = (gpa_name_map reg)(s \<mapsto> length (hfi reg))"
    and cache: "last_field_name reg' = last_field_name reg" "last_hfinfo reg' = last_hfinfo reg"
    and slots: "cleared reg' = cleared reg"
  shows "names reg' (byname(s := byname s @ [length (hfi reg)]))"
proof (rule names_update [OF inv])
  let ?p = "length (hfi reg)"
  have fresh: "?p \<notin> set (byname t)" for t
    using names_fresh [OF inv] by blast
  have new_node: "linked_node reg' (last_or (-1) (byname s)) ?p None"
  proof (cases "byname s" rule: rev_cases)
    case Nil
    then show ?thesis using new rest(1) by (simp add: linked_node_def)
  next
    case (snoc xs old)
    then show ?thesis using new rest(2) by (simp add: linked_node_def)
  qed
  have old_nodes: "dll reg' (-1) (byname s) (Some ?p)"
  proof (cases "byname s" rule: rev_cases)
    case (snoc xs old)
    have d: "dll reg (-1) (xs @ [old]) None" "distinct (xs @ [old])"
      using namesD(1,2) [OF inv, of s] snoc by simp_all
    have "deref reg' q = deref reg q" if "q \<in> set xs" for q
    proof (rule others)
      show "q \<noteq> ?p" using fresh [of s] that snoc by auto
      show "byname s = [] \<or> q \<noteq> last (byname s)" using d(2) that snoc by auto
    qed
    moreover have "linked_node reg' (last_or (-1) xs) old (Some ?p)"
      using d(1) rest(2) [OF snoc] by (auto simp: dll_append linked_node_def)
    ultimately show ?thesis
      using d(1) snoc dll_frame [of xs reg' reg "-1" "Some old"] by (simp add: dll_append)
  qed simp
  show "distinct (byname s @ [?p])" using namesD(1) [OF inv, of s] fresh by simp
  show "dll reg' (-1) (byname s @ [?p]) None" using new_node old_nodes by (simp add: dll_append)
  show "\<exists>h. deref reg' p = Inr h \<and> hf_abbrev h = s" if "p \<in> set (byname s @ [?p])" for p
  proof (cases "p = ?p")
    case False
    then have mem: "p \<in> set (byname s)" using that by simp
    obtain hp where hp: "deref reg p = Inr hp" "hf_abbrev hp = s"
      using namesD(3) [OF inv mem] by blast
    show ?thesis
    proof (cases "p = last (byname s)")
      case True
      obtain xs where "byname s = xs @ [p]"
        using mem True by (cases "byname s" rule: rev_cases) auto
      then show ?thesis using rest(2) [of xs p] hp by simp
    next
      case False
      then show ?thesis using others [of p] \<open>p \<noteq> ?p\<close> hp by simp
    qed
  qed (use new in simp)
  show "t = s" if "p \<in> set (byname s @ [?p])" "p \<in> set (byname t)" for t p
    using that fresh [of t] names_disjoint [OF inv] by auto
  show "gpa_name_map reg' = (gpa_name_map reg)
          (s := if byname s @ [?p] = [] then None else Some (last (byname s @ [?p])))"
    using nm by simp
  show "last_hfinfo reg' \<in> set ((byname(s := byname s @ [?p])) t)" if "last_field_name reg' = Some t" for t
    using namesD(5) [OF inv, of t] cache that by auto
  show "deref reg' q = deref reg q"
    if "q \<notin> set (byname s @ [?p])" "q \<notin> set (byname s)" "q \<noteq> length (hfi reg)" for q
    using others [of q] that by (metis last_in_set)
  show "cleared reg' = cleared reg" by (rule slots)
  show "length (hfi reg) \<le> length (hfi reg')"
    using deref_length [OF new(1)] by simp
  show "p \<notin> cleared reg" if "p \<in> set (byname s @ [?p])" for p
    using that namesD(6) [OF inv, of p s] namesD(7) [OF inv, of p] by auto
qed

text \<open>A field that passes every check.\<close>

definition checked_field :: "header_field_info \<Rightarrow> bool" where
  "checked_field hfinfo = (tmp_fld_check_assert hfinfo (Inr ()) = Inr ())"

lemma checked_field_iff:
  "checked_field hfinfo \<longleftrightarrow>
     hf_name hfinfo \<noteq> [] \<and> hf_abbrev hfinfo \<noteq> [] \<and>
     (hf_strings hfinfo = NO_STRINGS \<or> strings_allowed hfinfo) \<and> display_allowed hfinfo"
  by (auto simp: checked_field_def tmp_fld_check_assert_def)

lemma tmp_fld_check_assert_eq:
  "tmp_fld_check_assert hfinfo k = (if checked_field hfinfo then k else Inl Fault)"
  by (auto simp: checked_field_iff tmp_fld_check_assert_def)

lemma register_names:
  assumes inv: "names reg byname" and ok: "checked_field hfinfo" "valid_name (hf_abbrev hfinfo)"
  shows "\<exists>reg'. proto_register_field_init reg hfinfo parent = Inr (int (length (hfi reg)), reg') \<and>
           names reg' (byname(hf_abbrev hfinfo := byname (hf_abbrev hfinfo) @ [length (hfi reg)]))"
proof -
  let ?s = "hf_abbrev hfinfo" and ?p = "length (hfi reg)"
  let ?h = "hfinfo\<lparr>hf_parent := parent, same_name_next := None, same_name_prev_id := -1,
                     hf_id := int ?p\<rparr>"
  let ?reg2 = "reg\<lparr>hfi := hfi reg @ [Some ?h], gpa_name_map := (gpa_name_map reg)(?s \<mapsto> ?p)\<rparr>"
  have ne: "?s \<noteq> []" "hf_name hfinfo \<noteq> []" using ok(1) by (simp_all add: checked_field_iff)
  have d2: "deref ?reg2 q = (if q = ?p then Inr ?h else deref reg q)" for q
    by (simp add: deref_def nth_append)
  show ?thesis
  proof (cases "byname ?s" rule: rev_cases)
    case Nil
    have "names ?reg2 (byname(?s := byname ?s @ [?p]))"
      by (rule names_after_append [OF inv, of _ ?h]) (use Nil d2 in auto)
    then show ?thesis
      using ok ne namesD(4) [OF inv, of ?s] Nil
      by (simp add: proto_register_field_init_def tmp_fld_check_assert_eq valid_name_def Let_def)
  next
    case (snoc xs old)
    have mem: "old \<in> set (byname ?s)" using snoc by simp
    obtain ho where ho: "deref reg old = Inr ho" "hf_id ho = int old"
      using namesD(3) [OF inv mem] by blast
    have "same_name_next ho = None"
      using namesD(2) [OF inv, of ?s] snoc ho by (auto simp: dll_append linked_node_def)
    moreover have "?p \<noteq> old" using names_fresh [OF inv, of ?s] mem by auto
    ultimately obtain reg' where reg': "link_same_name ?p old ?reg2 = Inr reg'"
        "\<And>q. deref reg' q =
          (if q = ?p then Inr (?h\<lparr>same_name_next := None, same_name_prev_id := int old\<rparr>)
           else if q = old then Inr (ho\<lparr>same_name_next := Some ?p\<rparr>) else deref ?reg2 q)"
        "gpa_name_map reg' = gpa_name_map ?reg2" "last_field_name reg' = last_field_name ?reg2"
        "last_hfinfo reg' = last_hfinfo ?reg2" "cleared reg' = cleared ?reg2"
      using link_same_name_last [of ?reg2 ?p ?h old ho] d2 ho by auto
    have "names reg' (byname(?s := byname ?s @ [?p]))"
      by (rule names_after_append [OF inv, of _ "?h\<lparr>same_name_next := None, same_name_prev_id := int old\<rparr>"])
        (use snoc reg' d2 ho \<open>?p \<noteq> old\<close> in auto)
    then show ?thesis
      using ok ne namesD(4) [OF inv, of ?s] snoc reg'(1)
      by (simp add: proto_register_field_init_def tmp_fld_check_assert_eq valid_name_def Let_def)
  qed
qed


section \<open>Removing\<close>

text \<open>The two kinds of link that change: the successor of the field and its predecessor.\<close>

lemma dll_set_prev:
  assumes "dll reg (int p) (n # ys) nxt" "distinct (n # ys)"
    and "deref reg n = Inr h" "deref reg' n = Inr (h\<lparr>same_name_prev_id := v\<rparr>)"
    and "\<And>q. q \<in> set ys \<Longrightarrow> deref reg' q = deref reg q"
  shows "dll reg' v (n # ys) nxt"
  using assms dll_frame [of ys reg' reg "int n" nxt] by (auto simp: linked_node_def)

lemma dll_set_next:
  assumes "dll reg prev (xs @ [l]) nxt" "distinct (xs @ [l])"
    and "deref reg l = Inr h" "deref reg' l = Inr (h\<lparr>same_name_next := nxt'\<rparr>)"
    and "\<And>q. q \<in> set xs \<Longrightarrow> deref reg' q = deref reg q"
  shows "dll reg' prev (xs @ [l]) nxt'"
  using assms dll_frame [of xs reg' reg prev "Some l"] by (auto simp: dll_append linked_node_def)

lemma remove_names:
  assumes inv: "names reg byname" and mem: "p \<in> set (byname s)"
  shows "\<exists>reg'. hfinfo_remove_from_gpa_name_map p reg = Inr reg' \<and>
           names reg' (byname(s := remove1 p (byname s)))"
proof -
  obtain xs ys where ids: "byname s = xs @ p # ys" "p \<notin> set xs"
    using split_list_first [OF mem] by blast
  have dist: "distinct (xs @ p # ys)" using namesD(1) [OF inv, of s] ids by simp
  have rem: "remove1 p (byname s) = xs @ ys" using ids by (simp add: remove1_append)
  have seg: "dll reg (-1) xs (Some p)" "linked_node reg (last_or (-1) xs) p (hd_or ys None)"
      "dll reg (int p) ys None"
    using namesD(2) [OF inv, of s] ids by (auto simp: dll_append)
  obtain h where h: "deref reg p = Inr h" "hf_abbrev h = s"
      "same_name_prev_id h = last_or (-1) xs" "same_name_next h = hd_or ys None"
    using seg(2) namesD(3) [OF inv mem] by (auto simp: linked_node_def)
  have map_s: "gpa_name_map reg s = Some (last (p # ys))"
    using namesD(4) [OF inv, of s] ids by simp
  have nodes: "\<exists>hq. deref reg q = Inr hq \<and> hf_abbrev hq = s \<and> hf_id hq = int q"
    if "q \<in> set (xs @ ys)" for q
    using namesD(3) [OF inv, of q s] ids that by auto
  have live: "q \<notin> cleared reg" if "q \<in> set (xs @ p # ys)" for q
    using namesD(6) [OF inv, of q s] ids that by simp
  let ?reg = "reg\<lparr>last_field_name := None\<rparr>"
  have upd: "names reg' (byname(s := xs @ ys))"
    if "\<And>q. q \<notin> set (xs @ ys) \<Longrightarrow> deref reg' q = deref reg q"
      and "dll reg' (-1) (xs @ ys) None"
      and "\<And>q. q \<in> set (xs @ ys) \<Longrightarrow> \<exists>h. deref reg' q = Inr h \<and> hf_abbrev h = s"
      and "gpa_name_map reg' = (gpa_name_map reg)(s := if xs @ ys = [] then None else Some (last (xs @ ys)))"
      and "last_field_name reg' = None" "cleared reg' = cleared reg"
        "length (hfi reg') = length (hfi reg)" for reg' :: "'a registrar"
  proof (rule names_update [OF inv])
    show "t = s" if "q \<in> set (xs @ ys)" "q \<in> set (byname t)" for t q
      using names_disjoint [OF inv, of q s t] ids that by auto
    show "q \<notin> cleared reg" if "q \<in> set (xs @ ys)" for q
      using live [of q] that by auto
  qed (use that dist in auto)
  show ?thesis
  proof (cases ys)
    case Nil
    show ?thesis
    proof (cases xs rule: rev_cases)
      case empty: Nil
      have "names (?reg\<lparr>gpa_name_map := (gpa_name_map reg)(s := None)\<rparr>) (byname(s := xs @ ys))"
        by (rule upd) (use Nil empty in auto)
      then show ?thesis
        using h Nil empty rem live [of p] by (simp add: hfinfo_remove_from_gpa_name_map_def)
    next
      case (snoc zs l)
      then obtain hl where hl: "deref reg l = Inr hl" "hf_abbrev hl = s" "hf_id hl = int l"
        using nodes [of l] by auto
      let ?r = "\<lambda>m. ?reg\<lparr>hfi := (hfi reg)[l := Some (hl\<lparr>same_name_next := None\<rparr>)], gpa_name_map := m\<rparr>"
      have d: "deref (?r m) q = (if q = l then Inr (hl\<lparr>same_name_next := None\<rparr>) else deref reg q)" for q m
        using hl by (auto simp: deref_def nth_list_update split: if_splits option.splits)
      have "names (?r ((gpa_name_map reg)(s \<mapsto> l))) (byname(s := xs @ ys))"
      proof (rule upd)
        have "dll (?r ((gpa_name_map reg)(s \<mapsto> l))) (-1) (zs @ [l]) None"
          by (rule dll_set_next [OF _ _ hl(1)]) (use seg(1) dist snoc d in auto)
        then show "dll (?r ((gpa_name_map reg)(s \<mapsto> l))) (-1) (xs @ ys) None"
          using snoc Nil by simp
      qed (use Nil snoc d nodes hl(2) in auto)
      then show ?thesis
        using h hl Nil snoc rem get_nth_deref [OF hl(1)] live [of l]
        by (simp add: hfinfo_remove_from_gpa_name_map_def hfinfo_same_name_get_prev_def store_def
            proto_registrar_get_nth_def)
    qed
  next
    case (Cons n ys')
    then obtain hn where hn: "deref reg n = Inr hn" "hf_abbrev hn = s" "hf_id hn = int n"
      using nodes [of n] by auto
    show ?thesis
    proof (cases xs rule: rev_cases)
      case Nil
      let ?r = "?reg\<lparr>hfi := (hfi reg)[n := Some (hn\<lparr>same_name_prev_id := -1\<rparr>)]\<rparr>"
      have d: "deref ?r q = (if q = n then Inr (hn\<lparr>same_name_prev_id := -1\<rparr>) else deref reg q)" for q
        using hn by (auto simp: deref_def nth_list_update split: if_splits option.splits)
      have "names ?r (byname(s := xs @ ys))"
      proof (rule upd)
        have "dll ?r (-1) (n # ys') None"
          by (rule dll_set_prev [OF _ _ hn(1)]) (use seg(3) dist Cons d in auto)
        then show "dll ?r (-1) (xs @ ys) None"
          using Nil Cons by simp
        show "gpa_name_map ?r = (gpa_name_map reg)(s := if xs @ ys = [] then None else Some (last (xs @ ys)))"
          using map_s Nil Cons by (auto simp: fun_eq_iff)
      qed (use Nil Cons d nodes hn(2) in auto)
      then show ?thesis
        using h hn Nil Cons rem by (simp add: hfinfo_remove_from_gpa_name_map_def store_def)
    next
      case (snoc zs l)
      then obtain hl where hl: "deref reg l = Inr hl" "hf_abbrev hl = s" "hf_id hl = int l"
        using nodes [of l] by auto
      have ln: "l \<noteq> n" using dist snoc Cons by auto
      let ?r = "?reg\<lparr>hfi := ((hfi reg)[n := Some (hn\<lparr>same_name_prev_id := int l\<rparr>)])
                   [l := Some (hl\<lparr>same_name_next := Some n\<rparr>)]\<rparr>"
      have d: "deref ?r q =
          (if q = l then Inr (hl\<lparr>same_name_next := Some n\<rparr>)
           else if q = n then Inr (hn\<lparr>same_name_prev_id := int l\<rparr>) else deref reg q)" for q
        using hl hn ln by (auto simp: deref_def nth_list_update split: if_splits option.splits)
      have dl: "deref (?reg\<lparr>hfi := (hfi reg)[n := Some (hn\<lparr>same_name_prev_id := int l\<rparr>)]\<rparr>) l = Inr hl"
        using hl hn ln by (auto simp: deref_def nth_list_update split: if_splits option.splits)
      have "names ?r (byname(s := xs @ ys))"
      proof (rule upd)
        have "dll ?r (-1) (zs @ [l]) (Some n)"
          by (rule dll_set_next [OF _ _ hl(1)]) (use seg(1) dist snoc Cons d in auto)
        moreover have "dll ?r (int l) (n # ys') None"
          by (rule dll_set_prev [OF _ _ hn(1)]) (use seg(3) dist snoc Cons d ln in auto)
        ultimately show "dll ?r (-1) (xs @ ys) None"
          using snoc Cons by (simp add: dll_append)
        show "gpa_name_map ?r = (gpa_name_map reg)(s := if xs @ ys = [] then None else Some (last (xs @ ys)))"
          using map_s snoc Cons by (auto simp: fun_eq_iff)
      qed (use snoc Cons d nodes hl(2) hn(2) in auto)
      then show ?thesis
        using h hl hn snoc Cons rem get_nth_deref [OF dl] live [of l]
        by (simp add: hfinfo_remove_from_gpa_name_map_def hfinfo_same_name_get_prev_def store_def dl)
    qed
  qed
qed


section \<open>Walking the lists\<close>

lemma rewind_loop_dll:
  assumes "dll reg prev (xs @ p # ys) nxt" "deref reg p = Inr h"
    "\<And>q. q \<in> set xs \<Longrightarrow> q \<notin> cleared reg"
  shows "\<exists>h0. deref reg (hd (xs @ [p])) = Inr h0 \<and> hf_id h0 = int (hd (xs @ [p])) \<and>
           (prev = -1 \<longrightarrow> rewind_loop reg h = Some (Inr h0))"
  using assms
proof (induction xs arbitrary: p ys h rule: rev_induct)
  case Nil
  then show ?case by (auto simp: linked_node_def rewind_loop.simps)
next
  case (snoc q xs)
  obtain hq where hq: "deref reg q = Inr hq" "hf_id hq = int q"
    using snoc.prems(1) by (auto simp: dll_append linked_node_def)
  have "dll reg prev (xs @ q # p # ys) nxt" using snoc.prems(1) by simp
  moreover have "r \<notin> cleared reg" if "r \<in> set xs" for r using snoc.prems(3) that by simp
  ultimately obtain h0 where h0: "deref reg (hd (xs @ [q])) = Inr h0"
      "hf_id h0 = int (hd (xs @ [q]))" "prev = -1 \<longrightarrow> rewind_loop reg hq = Some (Inr h0)"
    using snoc.IH [of q "p # ys" hq] hq(1) by blast
  have "same_name_prev_id h = int q"
    using snoc.prems by (auto simp: dll_append linked_node_def)
  then have "rewind_loop reg h = rewind_loop reg hq"
    using get_nth_deref [OF hq(1)] snoc.prems(3) [of q] rewind_loop.simps [of reg h] by simp
  then show ?case using h0 by (simp add: hd_append split: if_splits)
qed

lemma rewind_names:
  assumes "names reg byname" "p \<in> set (byname s)"
  shows "rewind reg p = Inr (hd (byname s))"
proof -
  obtain xs ys where ids: "byname s = xs @ p # ys" using split_list [OF assms(2)] by blast
  obtain h where h: "deref reg p = Inr h" using namesD(3) [OF assms] by blast
  have "dll reg (-1) (xs @ p # ys) None" using namesD(2) [OF assms(1), of s] ids by simp
  moreover have "q \<notin> cleared reg" if "q \<in> set xs" for q
    using namesD(6) [OF assms(1), of q s] ids that by simp
  ultimately show ?thesis
    using rewind_loop_dll [of reg "-1" xs p ys None h] h ids by (cases xs) (auto simp: rewind_def returned_def)
qed

text \<open>A body run on the fields of a list until it breaks out.\<close>

fun until :: "'p registrar \<Rightarrow> (header_field_info \<Rightarrow> 's \<Rightarrow> bool \<times> 's) \<Rightarrow> nat list \<Rightarrow> 's \<Rightarrow> 's" where
  "until reg body [] s = s"
| "until reg body (p # ps) s =
     (let (stop, s') = body (projr (deref reg p)) s in if stop then s' else until reg body ps s')"

lemma walk_loop_dll:
  "dll reg prev ps None \<Longrightarrow> walk_loop reg body (hd_or ps None) s = Some (Inr (until reg body ps s))"
proof (induction ps arbitrary: prev s)
  case Nil
  then show ?case by (simp add: walk_loop.simps)
next
  case (Cons p ps)
  obtain h where "deref reg p = Inr h" "same_name_next h = hd_or ps None"
    using Cons.prems by (auto simp: linked_node_def)
  then show ?case
    using Cons by (subst walk_loop.simps) (auto split: prod.split)
qed

lemma walk_names:
  assumes "names reg byname" "byname s \<noteq> []"
  shows "walk_same_name reg body (hd (byname s)) st = Inr (until reg body (byname s) st)"
  using walk_loop_dll [OF namesD(2) [OF assms(1), of s], of body st] assms(2)
  by (cases "byname s") (simp_all add: walk_same_name_def returned_def)

text \<open>Bodies that only collect, and bodies that search.\<close>

lemma until_fold:
  "until reg (\<lambda>h s. (False, f h s)) ps s = fold (\<lambda>p. f (projr (deref reg p))) ps s"
  by (induction ps arbitrary: s) simp_all

lemma until_search:
  "ps \<noteq> [] \<Longrightarrow>
     until reg (\<lambda>h s. let found = f h in (found, found)) ps s = (\<exists>p \<in> set ps. f (projr (deref reg p)))"
  by (induction ps arbitrary: s rule: induct_list012) (auto simp: Let_def)

lemma names_hf_id: "names reg byname \<Longrightarrow> p \<in> set (byname s) \<Longrightarrow> hf_id (projr (deref reg p)) = int p"
  using namesD(3) [of reg byname p s] by auto


section \<open>The contract\<close>

lemma names_init: "names registrar_init (\<lambda>_. [])"
  by (simp add: names_def registrar_init_def)

definition sample_field :: "string \<Rightarrow> header_field_info" where
  "sample_field s =
     \<lparr>hf_name = ''f'', hf_abbrev = s, hf_type = FT_UINT32, hf_display = 1, hf_strings = NO_STRINGS,
      hf_bitmask = 0, hf_id = -1, hf_parent = 0, hf_ref_type = HF_REF_TYPE_NONE, same_name_prev_id = -1,
      same_name_next = None\<rparr>"

text \<open>
  A registrar with the fields 0 and 2 registered as \<open>a.b\<close> and the field 1 registered as \<open>c\<close>.
\<close>

definition sample_registrar :: "unit registrar" where
  "sample_registrar =
     (let entry = (\<lambda>s i prev next. Some ((sample_field s)\<lparr>hf_id := i, hf_parent := 0,
                      same_name_prev_id := prev, same_name_next := next\<rparr>))
      in registrar_init\<lparr>hfi := [entry ''a.b'' 0 (-1) (Some 2), entry ''c'' 1 (-1) None,
                               entry ''a.b'' 2 0 None],
                        gpa_name_map := [''a.b'' \<mapsto> 2, ''c'' \<mapsto> 1]\<rparr>)"

definition sample_names :: "string \<Rightarrow> nat list" where
  "sample_names = (\<lambda>_. [])(''a.b'' := [0, 2], ''c'' := [1])"

lemma sample_names: "names sample_registrar sample_names"
  by (auto simp: names_def sample_registrar_def sample_names_def registrar_init_def sample_field_def
      linked_node_def deref_def nth_Cons' Let_def)

lemma sample_valid: "valid_name ''a.b''" "valid_name ''c''"
  by (simp_all add: valid_name_def proto_check_field_name_def fld_abbrev_chars_def Let_def)

lemma sample_checked: "checked_field (sample_field s) \<longleftrightarrow> s \<noteq> []"
  by (simp add: checked_field_iff sample_field_def display_allowed_def integer_display_ok_def
      field_display_defs)

text \<open>
  C19. Registering a field that passes the checks on its name, type, display, bitmask and strings and
  whose filter name is legal gives it the next identifier and puts it at the end of the list of the
  fields with its filter name, to which the name map then points; the lists of all other names stay
  as they are. The comment in the code has the new field put before the one it finds; it is linked
  after it. A field that fails a check ends the program, an illegal filter name is an error.
\<close>

theorem proto_register_field_init_correct:
  assumes "names reg byname"
  shows "if \<not> checked_field hfinfo then proto_register_field_init reg hfinfo parent = Inl Fault
         else if proto_check_field_name (hf_abbrev hfinfo) \<noteq> NUL then
           proto_register_field_init reg hfinfo parent = Inl DissectorError
         else \<exists>reg'. proto_register_field_init reg hfinfo parent = Inr (int (length (hfi reg)), reg') \<and>
           names reg' (byname(hf_abbrev hfinfo := byname (hf_abbrev hfinfo) @ [length (hfi reg)]))"
proof -
  have "proto_register_field_init reg hfinfo parent = Inl DissectorError"
    if "checked_field hfinfo" "proto_check_field_name (hf_abbrev hfinfo) \<noteq> NUL"
    using that by (simp add: proto_register_field_init_def tmp_fld_check_assert_eq Let_def
        checked_field_iff dissector_assert_def)
  moreover have "proto_register_field_init reg hfinfo parent = Inl Fault" if "\<not> checked_field hfinfo"
    using that by (simp add: proto_register_field_init_def tmp_fld_check_assert_eq)
  ultimately show ?thesis
    using register_names [of reg byname hfinfo parent] assms unfolding valid_name_def by simp
qed

theorem proto_register_field_init_correct_witness:
  "\<exists>reg'. proto_register_field_init sample_registrar (sample_field ''a.b'') 0 = Inr (3, reg') \<and>
     names reg' (sample_names(''a.b'' := [0, 2, 3]))"
proof -
  have l: "length (hfi sample_registrar) = 3" by (simp add: sample_registrar_def Let_def)
  have a: "hf_abbrev (sample_field ''a.b'') = ''a.b''" by (simp add: sample_field_def)
  show ?thesis
    using proto_register_field_init_correct [OF sample_names, of "sample_field ''a.b''" 0]
      sample_valid(1) sample_checked [of "''a.b''"] l a
    by (simp add: valid_name_def sample_names_def)
qed

text \<open>
  C27. Taking a field out of the name map removes it from the list of its name and from no other: the
  links of its neighbours close up, the map points to the last field that is left, and a name whose
  last field is gone is no longer found.
\<close>

theorem hfinfo_remove_from_gpa_name_map_correct:
  assumes "names reg byname" "p \<in> set (byname s)"
  shows "\<exists>reg'. hfinfo_remove_from_gpa_name_map p reg = Inr reg' \<and>
           names reg' (byname(s := remove1 p (byname s)))"
  by (rule remove_names [OF assms])

theorem hfinfo_remove_from_gpa_name_map_correct_witness:
  "\<exists>reg'. hfinfo_remove_from_gpa_name_map 0 sample_registrar = Inr reg' \<and>
     names reg' (sample_names(''a.b'' := [2]))"
  using hfinfo_remove_from_gpa_name_map_correct [OF sample_names, of 0 "''a.b''"]
  by (simp add: sample_names_def)

lemma names_prefixes: "names (reg\<lparr>prefixes := ps\<rparr>) byname = names reg byname"
proof -
  have "dll (reg\<lparr>prefixes := ps\<rparr>) (-1) (byname t) None = dll reg (-1) (byname t) None" for t
    by (rule dll_frame) simp
  then show ?thesis by (simp add: names_def)
qed

lemma names_cache:
  assumes "names reg byname" "byname s \<noteq> []"
  shows "names (reg\<lparr>last_field_name := Some s, last_hfinfo := last (byname s)\<rparr>) byname"
    (is "names ?reg byname")
proof -
  have "dll ?reg (-1) (byname t) None = dll reg (-1) (byname t) None" for t
    by (rule dll_frame) simp
  then show ?thesis using assms by (simp add: names_def)
qed

text \<open>The walk that collects the identifiers, from any field of a list.\<close>

abbreviation collect_ids :: "header_field_info \<Rightarrow> nat list \<Rightarrow> bool \<times> nat list" where
  "collect_ids h l \<equiv> (False, l @ [nat (hf_id h)])"

lemma until_collect:
  assumes "\<And>p. p \<in> set ps \<Longrightarrow> hf_id (projr (deref reg p)) = int p"
  shows "until reg collect_ids ps l = l @ ps"
  using assms by (induction ps arbitrary: l) auto

lemma walk_collect:
  assumes "dll reg prev (p # ps) None"
  shows "walk_same_name reg collect_ids p [] = Inr (p # ps)"
proof -
  have "hf_id (projr (deref reg q)) = int q" if "q \<in> set (p # ps)" for q
    using dll_mem [OF assms that] by auto
  then have "until reg collect_ids (p # ps) [] = [] @ p # ps"
    by (rule until_collect)
  then show ?thesis
    using walk_loop_dll [OF assms, of collect_ids "[]"]
    by (simp only: walk_same_name_def returned_def hd_or_simps append_Nil option.case)
qed

text \<open>
  C33. A lookup by name. When the name is that of the lookup before, the answer is the field that one
  found; otherwise it is the field registered last under the name, if there is one. When there is none
  and a prefix of the name has an initializer, that runs first, and \<open>byname'\<close> is what is registered
  after it. Rewinding from the field found and following the links visits every field of the name in
  the order of registration.
\<close>

theorem proto_registrar_get_byname_correct:
  assumes inv: "names reg byname"
    and init: "case (if byname s = [] then find (\<lambda>(k, pi). prefix_equal k s) (prefixes reg) else None) of
                 None \<Rightarrow> byname' = byname
               | Some (k, pi) \<Rightarrow> \<exists>reg1. run pi s reg = Inr reg1 \<and> names reg1 byname'"
    and answer: "answer = (if last_field_name reg = Some s then Some (last_hfinfo reg)
                         else if byname' s = [] then None else Some (last (byname' s)))"
  shows "\<exists>reg'. proto_registrar_get_byname run s reg = Inr (answer, reg') \<and> names reg' byname' \<and>
           (\<forall>q. answer = Some q \<longrightarrow> q \<in> set (byname' s) \<and> rewind reg' q = Inr (hd (byname' s)) \<and>
              walk_same_name reg' (\<lambda>h l. (False, l @ [nat (hf_id h)])) (hd (byname' s)) [] = Inr (byname' s))"
proof -
  obtain reg' where r: "proto_registrar_get_byname run s reg = Inr (answer, reg')" "names reg' byname'"
      "\<And>q. answer = Some q \<Longrightarrow> q \<in> set (byname' s)"
  proof (cases "last_field_name reg = Some s")
    case True
    then have "last_hfinfo reg \<in> set (byname s)" using namesD(5) [OF inv] by simp
    moreover from this have "byname' = byname" using init by (auto split: if_splits)
    ultimately show ?thesis
      using that [of reg] True inv answer by (simp add: proto_registrar_get_byname_def)
  next
    case miss: False
    show ?thesis
    proof (cases "byname s = []")
      case False
      then have same: "byname' = byname" using init by simp
      show ?thesis
        using that [of "reg\<lparr>last_field_name := Some s, last_hfinfo := last (byname s)\<rparr>"] False miss same
          answer names_cache [OF inv False] namesD(4) [OF inv, of s]
        by (simp add: proto_registrar_get_byname_def)
    next
      case none: True
      show ?thesis
      proof (cases "find (\<lambda>(k, pi). prefix_equal k s) (prefixes reg)")
        case None
        then show ?thesis
          using that [of reg] none miss inv init answer namesD(4) [OF inv, of s]
          by (simp add: proto_registrar_get_byname_def)
      next
        case (Some kpi)
        then obtain k pi reg1 where run: "kpi = (k, pi)" "run pi s reg = Inr reg1" "names reg1 byname'"
          using init none by (cases kpi) auto
        let ?reg = "reg1\<lparr>prefixes := remove_prefix s (prefixes reg1)\<rparr>"
        have inv': "names ?reg byname'" using run(3) by (simp add: names_prefixes)
        have "proto_registrar_get_byname run s reg =
            (case gpa_name_map ?reg s of
               Some p \<Rightarrow> Inr (Some p, ?reg\<lparr>last_field_name := Some s, last_hfinfo := p\<rparr>)
             | None \<Rightarrow> Inr (None, ?reg))"
          using miss none run(1,2) Some namesD(4) [OF inv, of s]
          by (simp add: proto_registrar_get_byname_def Let_def)
        then show ?thesis
          using that [of ?reg]
            that [of "?reg\<lparr>last_field_name := Some s, last_hfinfo := last (byname' s)\<rparr>"]
            names_cache [of ?reg byname' s] inv' miss answer namesD(4) [OF inv', of s]
          by (cases "byname' s = []") simp_all
      qed
    qed
  qed
  have "rewind reg' q = Inr (hd (byname' s)) \<and>
      walk_same_name reg' collect_ids (hd (byname' s)) [] = Inr (byname' s)"
    if mem: "q \<in> set (byname' s)" for q
  proof (rule conjI)
    show "rewind reg' q = Inr (hd (byname' s))" by (rule rewind_names [OF r(2) mem])
    obtain p ps where ps: "byname' s = p # ps" using mem by (cases "byname' s") auto
    have "dll reg' (-1) (p # ps) None" using namesD(2) [OF r(2), of s] unfolding ps .
    from walk_collect [OF this]
    show "walk_same_name reg' collect_ids (hd (byname' s)) [] = Inr (byname' s)"
      unfolding ps list.sel .
  qed
  with r(3) have "\<forall>q. answer = Some q \<longrightarrow> q \<in> set (byname' s) \<and> rewind reg' q = Inr (hd (byname' s)) \<and>
      walk_same_name reg' collect_ids (hd (byname' s)) [] = Inr (byname' s)"
    by blast
  with r(1,2) show ?thesis by blast
qed

text \<open>A registrar with no field yet, for whose names below \<open>a\<close> an initializer registers the field.\<close>

theorem proto_registrar_get_byname_correct_witness:
  "\<exists>reg'. proto_registrar_get_byname (\<lambda>_ s r. map_sum id snd (proto_register_field_init r (sample_field s) 0))
       ''a.b'' (registrar_init\<lparr>prefixes := [(''a'', ())]\<rparr>) = Inr (Some 0, reg') \<and>
     rewind reg' 0 = Inr 0"
proof -
  let ?reg = "registrar_init\<lparr>prefixes := [(''a'', ())]\<rparr>"
  let ?run = "\<lambda>_ s r. map_sum id snd (proto_register_field_init r (sample_field s) 0)"
  have inv: "names ?reg (\<lambda>_. [])" using names_init by (simp add: names_prefixes)
  have len: "length (hfi ?reg) = 0" "last_field_name ?reg = None" "prefixes ?reg = [(''a'', ())]"
    by (simp_all add: registrar_init_def)
  have ab: "hf_abbrev (sample_field ''a.b'') = ''a.b''" by (simp add: sample_field_def)
  obtain reg1 where "proto_register_field_init ?reg (sample_field ''a.b'') 0 = Inr (0, reg1)"
      "names reg1 ((\<lambda>_. [])(''a.b'' := [0]))"
    using register_names [OF inv, of "sample_field ''a.b''" 0] sample_valid(1) len(1) ab
    by (auto simp: sample_checked)
  then have "\<exists>reg1. ?run () ''a.b'' ?reg = Inr reg1 \<and> names reg1 ((\<lambda>_. [])(''a.b'' := [0]))"
    by simp
  moreover have "find (\<lambda>(k, pi). prefix_equal k ''a.b'') [(''a'', ())] = Some (''a'', ())"
    by (simp add: prefix_equal.simps)
  ultimately show ?thesis
    using proto_registrar_get_byname_correct [OF inv, where s = "''a.b''" and run = ?run and
        byname' = "(\<lambda>_. [])(''a.b'' := [0])" and answer = "Some 0"] len by auto
qed

text \<open>
  C37. \<open>proto_deregister_field\<close> takes the name itself out of the map instead of unlinking the field.
  Once a field that has a parent has been freed, every other field with that name is unreachable by
  name although it is still registered, and following the links from the field before it still leads
  to the field that was freed and on to those after it; by its identifier it is not found any more.
\<close>

theorem deregister_found_field_not_unlinked:
  assumes "names reg byname" "byname s = xs @ q # p # ys" "deref reg p = Inr h" "hf_parent h \<noteq> -1"
  shows "\<exists>reg1 reg2. deregister_found_field p reg = Inr reg1 \<and>
           free_deregistered_field p reg1 = Inr reg2 \<and>
           gpa_name_map reg2 s = None \<and>
           (\<forall>r \<in> set (xs @ q # ys). \<exists>hr. proto_registrar_get_nth reg2 (int r) = Inr hr \<and> hf_abbrev hr = s) \<and>
           proto_registrar_get_nth reg2 (int p) = Inl DissectorError \<and>
           walk_same_name reg2 (\<lambda>h l. (False, l @ [nat (hf_id h)])) q [] = Inr (q # p # ys)"
proof -
  have p: "p \<in> set (byname s)" "p \<notin> set (xs @ q # ys)" "p \<notin> cleared reg"
    using assms(2) namesD(1) [OF assms(1), of s] namesD(6) [OF assms(1), of p s] by auto
  have h: "hf_abbrev h = s" "hf_id h = int p" "p < length (hfi reg)"
    using namesD(3) [OF assms(1) p(1)] assms(3) deref_length [OF assms(3)] by auto
  let ?reg1 = "reg\<lparr>last_field_name := None, gpa_name_map := (gpa_name_map reg)(s := None)\<rparr>"
  let ?reg2 = "?reg1\<lparr>cleared := insert p (cleared reg)\<rparr>"
  have d: "deref ?reg2 r = deref reg r" for r by (simp add: deref_def)
  have "deregister_found_field p reg = Inr ?reg1"
    using assms(3) h(1) p(3) by (simp add: deregister_found_field_def)
  moreover have "free_deregistered_field p ?reg1 = Inr ?reg2"
    using assms(3,4) h p(3) by (simp add: free_deregistered_field_def)
  moreover have "\<exists>hr. proto_registrar_get_nth ?reg2 (int r) = Inr hr \<and> hf_abbrev hr = s"
    if "r \<in> set (xs @ q # ys)" for r
  proof -
    have r: "r \<in> set (byname s)" "r \<noteq> p" using that assms(2) p(2) by auto
    obtain hr where "deref reg r = Inr hr" "hf_abbrev hr = s" "r \<notin> cleared reg"
      using namesD(3,6) [OF assms(1) r(1)] by blast
    then show ?thesis using get_nth_deref [of ?reg2 r hr] d r(2) by simp
  qed
  moreover have "proto_registrar_get_nth ?reg2 (int p) = Inl DissectorError"
    using h(3) by (simp add: proto_registrar_get_nth_def dissector_assert_def)
  moreover have "walk_same_name ?reg2 collect_ids q [] = Inr (q # p # ys)"
  proof (rule walk_collect)
    show "dll ?reg2 (last_or (-1) xs) (q # p # ys) None"
      using namesD(2) [OF assms(1), of s] dll_frame [where ps = "q # p # ys", OF d] assms(2)
      by (simp add: dll_append)
  qed
  ultimately show ?thesis by (intro exI [of _ ?reg1] exI [of _ ?reg2]) simp
qed

theorem deregister_found_field_not_unlinked_witness:
  "\<exists>reg1 reg2. deregister_found_field 2 sample_registrar = Inr reg1 \<and>
     free_deregistered_field 2 reg1 = Inr reg2 \<and> gpa_name_map reg2 ''a.b'' = None \<and>
     walk_same_name reg2 (\<lambda>h l. (False, l @ [nat (hf_id h)])) 0 [] = Inr [0, 2]"
proof -
  obtain h where h: "deref sample_registrar 2 = Inr h" "hf_parent h \<noteq> -1"
    by (simp add: deref_def sample_registrar_def sample_field_def Let_def)
  from deregister_found_field_not_unlinked [OF sample_names _ h, of "''a.b''" "[]" 0 "[]"]
  show ?thesis by (auto simp: sample_names_def)
qed

section \<open>Legal filter names\<close>

lemma check_name_loop_NUL:
  assumes "NUL \<notin> set s"
  shows "(let (c, l) = check_name_loop s prev in c = NUL \<and> l \<noteq> CHR ''.'') \<longleftrightarrow>
           (\<forall>c \<in> set s. fld_abbrev_chars c) \<and> last (prev # s) \<noteq> CHR ''.'' \<and>
           \<not> (\<exists>xs ys. prev # s = xs @ [CHR ''.'', CHR ''.''] @ ys)"
  using assms
proof (induction s arbitrary: prev)
  case Nil
  have "\<not> (\<exists>xs ys. [prev] = xs @ [CHR ''.'', CHR ''.''] @ ys)"
    by (auto simp: Cons_eq_append_conv)
  then show ?case by simp
next
  case (Cons c s)
  have split: "(\<exists>xs ys. prev # c # s = xs @ [CHR ''.'', CHR ''.''] @ ys) \<longleftrightarrow>
      (prev = CHR ''.'' \<and> c = CHR ''.'') \<or> (\<exists>xs ys. c # s = xs @ [CHR ''.'', CHR ''.''] @ ys)"
    (is "?l \<longleftrightarrow> ?r")
  proof
    show ?r if ?l
      using that by (auto simp: Cons_eq_append_conv)
    show ?l if ?r
      using that by (metis append_Cons append_Nil)
  qed
  have "c \<noteq> NUL" using Cons.prems by auto
  then show ?case
    unfolding split using Cons.IH [of c] Cons.prems by auto
qed

text \<open>
  \<open>proto_check_field_name\<close> accepts exactly the names that are not empty, hold only the characters
  of the table and have no dot at either end and no two dots in a row.
\<close>

theorem proto_check_field_name_correct:
  assumes "NUL \<notin> set s"
  shows "proto_check_field_name s = NUL \<longleftrightarrow>
           s \<noteq> [] \<and> (\<forall>c \<in> set s. fld_abbrev_chars c) \<and> hd s \<noteq> CHR ''.'' \<and> last s \<noteq> CHR ''.'' \<and>
           \<not> (\<exists>xs ys. s = xs @ [CHR ''.'', CHR ''.''] @ ys)"
proof -
  have "proto_check_field_name s = NUL \<longleftrightarrow>
      (let (c, l) = check_name_loop s (CHR ''.'') in c = NUL \<and> l \<noteq> CHR ''.'')"
    by (auto simp: proto_check_field_name_def split: prod.split)
  also have "\<dots> \<longleftrightarrow> (\<forall>c \<in> set s. fld_abbrev_chars c) \<and> last (CHR ''.'' # s) \<noteq> CHR ''.'' \<and>
      \<not> (\<exists>xs ys. CHR ''.'' # s = xs @ [CHR ''.'', CHR ''.''] @ ys)"
    by (rule check_name_loop_NUL [OF assms])
  also have "(\<exists>xs ys. CHR ''.'' # s = xs @ [CHR ''.'', CHR ''.''] @ ys) \<longleftrightarrow>
      (s \<noteq> [] \<and> hd s = CHR ''.'') \<or> (\<exists>xs ys. s = xs @ [CHR ''.'', CHR ''.''] @ ys)" (is "?l \<longleftrightarrow> ?r")
  proof
    show ?r if ?l
      using that by (auto simp: Cons_eq_append_conv)
    show ?l if ?r
      using that
    proof
      assume "s \<noteq> [] \<and> hd s = CHR ''.''"
      then have "CHR ''.'' # s = [] @ [CHR ''.'', CHR ''.''] @ tl s" by (cases s) auto
      then show ?l by blast
    next
      assume "\<exists>xs ys. s = xs @ [CHR ''.'', CHR ''.''] @ ys"
      then show ?l by (metis append_Cons)
    qed
  qed
  finally show ?thesis by auto
qed

theorem proto_check_field_name_correct_witness:
  "proto_check_field_name ''a.b'' = NUL \<and> proto_check_field_name ''a..b'' \<noteq> NUL"
proof -
  have "\<exists>xs ys. ''a..b'' = xs @ [CHR ''.'', CHR ''.''] @ ys" by (rule exI [of _ "''a''"]) simp
  then have "proto_check_field_name ''a..b'' \<noteq> NUL"
    using proto_check_field_name_correct [of "''a..b''"] by simp
  then show ?thesis using sample_valid(1) by (simp add: valid_name_def)
qed

end
