(* ===== verification/ProtoTreeProps.thy ===== *)
theory ProtoTreeProps
  imports ProtoTree RegistrarProps "HOL-Library.Multiset"
begin

text \<open>
  The shape of the protocol tree: \<open>kids\<close> lists the children of every node in their order, and the
  pointers of the nodes are those lists. Adding and moving items change the lists as they should, and
  the walks visit the nodes in the order of the lists.
\<close>

section \<open>Lists of siblings\<close>

fun chain :: "proto_node list \<Rightarrow> nat option \<Rightarrow> nat list \<Rightarrow> nat option \<Rightarrow> bool" where
  "chain ns p [] q = (p = q)"
| "chain ns p (k # ks) q = (p = Some k \<and> chain ns (next_node (ns ! k)) ks q)"

definition last_or_none :: "nat list \<Rightarrow> nat option" where
  "last_or_none ks = (if ks = [] then None else Some (last ks))"

lemma chain_append: "chain ns p (xs @ ys) q = (\<exists>r. chain ns p xs r \<and> chain ns r ys q)"
  by (induction xs arbitrary: p) auto

lemma chain_frame:
  "(\<And>k. k \<in> set ks \<Longrightarrow> next_node (ns' ! k) = next_node (ns ! k)) \<Longrightarrow> chain ns' p ks q = chain ns p ks q"
  by (induction ks arbitrary: p) auto

lemma chain_unique: "chain ns p ks None \<Longrightarrow> chain ns p ks' None \<Longrightarrow> ks = ks'"
proof (induction ks arbitrary: p ks')
  case Nil
  then show ?case by (cases ks') auto
next
  case (Cons k ks)
  then show ?case by (cases ks') auto
qed

lemma chain_first: "chain ns p ks None \<Longrightarrow> (p = None) = (ks = [])"
  by (cases ks) auto

lemma chain_last:
  assumes "chain ns p ks q" "ks \<noteq> []"
  shows "next_node (ns ! last ks) = q"
  using assms by (induction ks arbitrary: p) auto

section \<open>The shape of a tree\<close>

definition tree_ok :: "proto_node list \<Rightarrow> (nat \<Rightarrow> nat list) \<Rightarrow> bool" where
  "tree_ok ns kids =
     (0 < length ns \<and> parent_node (ns ! 0) = None \<and>
      (\<forall>p < length ns. chain ns (first_child (ns ! p)) (kids p) None \<and>
                       last_child (ns ! p) = last_or_none (kids p) \<and> distinct (kids p)) \<and>
      (\<forall>p c. c \<in> set (kids p) \<longleftrightarrow> p < length ns \<and> c < length ns \<and> parent_node (ns ! c) = Some p) \<and>
      (\<forall>c. 0 < c \<longrightarrow> c < length ns \<longrightarrow> (\<exists>p < c. parent_node (ns ! c) = Some p)))"

lemma tree_okD:
  assumes "tree_ok ns kids"
  shows "0 < length ns" "parent_node (ns ! 0) = None"
    "p < length ns \<Longrightarrow> chain ns (first_child (ns ! p)) (kids p) None"
    "p < length ns \<Longrightarrow> last_child (ns ! p) = last_or_none (kids p)"
    "p < length ns \<Longrightarrow> distinct (kids p)"
    "c \<in> set (kids p) \<longleftrightarrow> p < length ns \<and> c < length ns \<and> parent_node (ns ! c) = Some p"
    "0 < c \<Longrightarrow> c < length ns \<Longrightarrow> \<exists>p < c. parent_node (ns ! c) = Some p"
  using assms unfolding tree_ok_def by blast+

lemma kid_after:
  assumes "tree_ok ns kids" "c \<in> set (kids p)"
  shows "p < c" "c < length ns" "p < length ns"
proof -
  have k: "p < length ns" "c < length ns" "parent_node (ns ! c) = Some p"
    using assms(2) tree_okD(6) [OF assms(1)] by blast+
  have "0 < c"
  proof (rule ccontr)
    assume "\<not> 0 < c"
    then show False using k(3) tree_okD(2) [OF assms(1)] by simp
  qed
  then obtain q where "q < c" "parent_node (ns ! c) = Some q" using tree_okD(7) [OF assms(1) _ k(2)] by blast
  then show "p < c" "c < length ns" "p < length ns" using k by simp_all
qed

lemma parent_before:
  assumes "tree_ok ns kids" "c < length ns" "parent_node (ns ! c) = Some p"
  shows "p < c"
proof -
  have "c \<noteq> 0" using assms(3) tree_okD(2) [OF assms(1)] by (cases "c = 0") auto
  then obtain q where "q < c" "parent_node (ns ! c) = Some q" using tree_okD(7) [OF assms(1) _ assms(2)] by blast
  then show ?thesis using assms(3) by simp
qed

lemma kids_disjoint:
  assumes "tree_ok ns kids" "c \<in> set (kids p)" "c \<in> set (kids q)"
  shows "p = q"
proof -
  have "parent_node (ns ! c) = Some p" "parent_node (ns ! c) = Some q"
    using assms(2,3) tree_okD(6) [OF assms(1)] by blast+
  then show ?thesis by simp
qed

text \<open>The number of ancestors of a node.\<close>

function depth :: "proto_node list \<Rightarrow> nat \<Rightarrow> nat" where
  "depth ns c = (case parent_node (ns ! c) of None \<Rightarrow> 0 | Some p \<Rightarrow> if p < c then Suc (depth ns p) else 0)"
  by pat_completeness auto
termination depth
  by (relation "measure snd") auto

declare depth.simps [simp del]

lemma depth_parent: "parent_node (ns ! c) = Some p \<Longrightarrow> p < c \<Longrightarrow> depth ns c = Suc (depth ns p)"
  by (simp add: depth.simps)

lemma depth_loop_depth:
  assumes "tree_ok (nodes s) kids" "t < length (nodes s)"
  shows "depth_loop s (Some t) d =
           (if d + depth (nodes s) t + 1 > MAX_TREE_LEVELS then Inl DissectorError else Inr ())"
  using assms(2)
proof (induction t arbitrary: d rule: less_induct)
  case (less t)
  show ?case
  proof (cases "t = 0")
    case True
    then show ?thesis
      using tree_okD(2) [OF assms(1)] less.prems
      by (subst depth_loop.simps) (simp add: get_node_def depth.simps depth_loop.simps [of _ None])
  next
    case False
    then obtain p where p: "p < t" "parent_node (nodes s ! t) = Some p"
      using tree_okD(7) [OF assms(1)] less.prems by blast
    have "depth_loop s (Some p) (d + 1) =
        (if d + 1 + depth (nodes s) p + 1 > MAX_TREE_LEVELS then Inl DissectorError else Inr ())"
      using less.IH [OF p(1)] p(1) less.prems by simp
    then show ?thesis
      using p less.prems
      by (subst depth_loop.simps) (simp add: get_node_def depth_parent [OF p(2,1)])
  qed
qed

section \<open>Adding a node\<close>

definition leaf :: "nat \<Rightarrow> nat \<Rightarrow> proto_node" where
  "leaf t fi = \<lparr>first_child = None, last_child = None, next_node = None, parent_node = Some t, node_finfo = Some fi\<rparr>"

text \<open>The nodes after a child with the field \<open>fi\<close> has been added to \<open>t\<close>.\<close>

definition with_child :: "proto_node list \<Rightarrow> nat \<Rightarrow> nat \<Rightarrow> proto_node list" where
  "with_child ns t fi =
     (let n = length ns; ns1 = ns @ [leaf t fi];
          ns2 = (case last_child (ns ! t) of
                   Some sb \<Rightarrow> ns1[sb := (ns1 ! sb)\<lparr>next_node := Some n\<rparr>]
                 | None \<Rightarrow> ns1[t := (ns1 ! t)\<lparr>first_child := Some n\<rparr>])
      in ns2[t := (ns2 ! t)\<lparr>last_child := Some n\<rparr>])"

lemma with_child_nth:
  assumes "tree_ok ns kids" "t < length ns"
  shows "length (with_child ns t fi) = Suc (length ns)"
    "with_child ns t fi ! length ns = leaf t fi"
    "p < length ns \<Longrightarrow> with_child ns t fi ! p =
       (ns ! p)\<lparr>first_child := (if p = t \<and> kids t = [] then Some (length ns) else first_child (ns ! p)),
               last_child := (if p = t then Some (length ns) else last_child (ns ! p)),
               next_node := (if kids t \<noteq> [] \<and> p = last (kids t) then Some (length ns) else next_node (ns ! p))\<rparr>"
proof -
  have l: "last_child (ns ! t) = last_or_none (kids t)" by (rule tree_okD(4) [OF assms])
  have k: "kids t \<noteq> [] \<Longrightarrow> t < last (kids t) \<and> last (kids t) < length ns"
    using kid_after [OF assms(1), of "last (kids t)" t] by simp
  show "length (with_child ns t fi) = Suc (length ns)"
    by (simp add: with_child_def Let_def split: option.split)
  show "with_child ns t fi ! length ns = leaf t fi"
    using assms(2) k l by (cases "kids t = []") (auto simp: with_child_def Let_def last_or_none_def)
  show "with_child ns t fi ! p =
       (ns ! p)\<lparr>first_child := (if p = t \<and> kids t = [] then Some (length ns) else first_child (ns ! p)),
               last_child := (if p = t then Some (length ns) else last_child (ns ! p)),
               next_node := (if kids t \<noteq> [] \<and> p = last (kids t) then Some (length ns) else next_node (ns ! p))\<rparr>"
    if "p < length ns"
    using that assms(2) k l
    by (cases "kids t = []") (auto simp: with_child_def Let_def last_or_none_def nth_list_update nth_append)
qed

lemma with_child_parent:
  assumes "tree_ok ns kids" "t < length ns" "c < Suc (length ns)"
  shows "parent_node (with_child ns t fi ! c) = (if c = length ns then Some t else parent_node (ns ! c))"
  using assms(3) with_child_nth [OF assms(1,2)] by (cases "c = length ns") (simp_all add: leaf_def)

text \<open>The children of \<open>t\<close> get one more at the end, and the new node has none.\<close>

lemma with_child_ok:
  assumes ok: "tree_ok ns kids" and t: "t < length ns"
  shows "tree_ok (with_child ns t fi) (kids(t := kids t @ [length ns]))"
proof -
  let ?ns = "with_child ns t fi" and ?kids = "kids(t := kids t @ [length ns])"
  note nth = with_child_nth [OF ok t, where fi = fi] and par = with_child_parent [OF ok t, where fi = fi]
  have fresh: "length ns \<notin> set (kids p)" for p using kid_after(2) [OF ok, of "length ns" p] by blast
  have none: "kids (length ns) = []" using kid_after(3) [OF ok, of _ "length ns"] by (metis less_irrefl list.set_intros(1) neq_Nil_conv)
  have same: "chain ?ns (first_child (ns ! p)) (kids p) None" if p: "p < length ns" "p \<noteq> t" for p
  proof -
    have "next_node (?ns ! k) = next_node (ns ! k)" if "k \<in> set (kids p)" for k
    proof -
      have "k \<notin> set (kids t)" using kids_disjoint [OF ok that] p(2) by blast
      then show ?thesis using nth(3) kid_after(2) [OF ok that] by auto
    qed
    then have "chain ?ns (first_child (ns ! p)) (kids p) None = chain ns (first_child (ns ! p)) (kids p) None"
      by (rule chain_frame)
    then show ?thesis using tree_okD(3) [OF ok p(1)] by blast
  qed
  have ext: "chain ?ns (first_child (?ns ! t)) (kids t @ [length ns]) None"
  proof (cases "kids t = []")
    case True
    then show ?thesis using nth(2,3) t by (simp add: leaf_def)
  next
    case False
    have d: "distinct (butlast (kids t) @ [last (kids t)])" using tree_okD(5) [OF ok t] False by simp
    have "chain ns (first_child (ns ! t)) (butlast (kids t) @ [last (kids t)]) None"
      using tree_okD(3) [OF ok t] False by simp
    then have "chain ns (first_child (ns ! t)) (butlast (kids t)) (Some (last (kids t)))"
      unfolding chain_append by auto
    moreover have "next_node (?ns ! k) = next_node (ns ! k)" if "k \<in> set (butlast (kids t))" for k
      using that d nth(3) kid_after(2) [OF ok in_set_butlastD [OF that]] by auto
    ultimately have "chain ?ns (first_child (ns ! t)) (butlast (kids t)) (Some (last (kids t)))"
      using chain_frame [of "butlast (kids t)" ?ns ns] by blast
    moreover have "chain ?ns (Some (last (kids t))) [last (kids t), length ns] None"
      using nth(2,3) False kid_after(2) [OF ok last_in_set [OF False]] by (simp add: leaf_def)
    ultimately have "chain ?ns (first_child (ns ! t)) (butlast (kids t) @ [last (kids t), length ns]) None"
      unfolding chain_append by blast
    moreover have "butlast (kids t) @ [last (kids t), length ns] = kids t @ [length ns]" using False by simp
    ultimately show ?thesis using nth(3) [OF t] False by simp
  qed
  show ?thesis
    unfolding tree_ok_def
  proof (intro conjI allI impI)
    show "0 < length ?ns" using nth(1) by simp
    show "parent_node (?ns ! 0) = None" using par [of 0] tree_okD(1,2) [OF ok] by simp
  next
    fix p assume "p < length ?ns"
    then have "p = length ns \<or> (p < length ns \<and> p \<noteq> t) \<or> p = t" using nth(1) t by auto
    then show "chain ?ns (first_child (?ns ! p)) (?kids p) None"
      using same ext nth(2,3) none t by (auto simp: leaf_def)
    show "last_child (?ns ! p) = last_or_none (?kids p)"
      using \<open>p = length ns \<or> _\<close> nth(2,3) none t tree_okD(4) [OF ok, of p] by (auto simp: leaf_def last_or_none_def)
    show "distinct (?kids p)"
      using \<open>p = length ns \<or> _\<close> none t tree_okD(5) [OF ok] fresh by auto
  next
    fix p c
    show "c \<in> set (?kids p) \<longleftrightarrow> p < length ?ns \<and> c < length ?ns \<and> parent_node (?ns ! c) = Some p"
      using tree_okD(6) [OF ok, of c p] fresh [of p] par [of c] nth(1) t parent_before [OF ok, of c p]
      by (auto simp: less_Suc_eq)
  next
    fix c assume c: "0 < c" "c < length ?ns"
    then show "\<exists>p < c. parent_node (?ns ! c) = Some p"
      using tree_okD(7) [OF ok c(1)] par [of c] nth(1) t by (cases "c = length ns") auto
  qed
qed

lemma with_child_depth:
  assumes "tree_ok ns kids" "t < length ns"
  shows "c < length ns \<Longrightarrow> depth (with_child ns t fi) c = depth ns c"
    "depth (with_child ns t fi) (length ns) = Suc (depth ns t)"
proof -
  show old: "depth (with_child ns t fi) c = depth ns c" if "c < length ns" for c
    using that
  proof (induction c rule: less_induct)
    case (less c)
    have "parent_node (with_child ns t fi ! c) = parent_node (ns ! c)"
      using with_child_parent [OF assms, of c fi] less.prems by simp
    then show ?case
      using less.IH less.prems by (subst (1 2) depth.simps) (auto split: option.split)
  qed
  show "depth (with_child ns t fi) (length ns) = Suc (depth ns t)"
    using depth_parent [of "with_child ns t fi" "length ns" t] with_child_parent [OF assms, of "length ns" fi]
      assms(2) old by simp
qed

section \<open>The invariant\<close>

text \<open>
  \<open>attached\<close> lists the fields of the nodes in the order in which they were added; \<open>wanted\<close> are those of
  one identifier that a filter is directly interested in, which is what the table has to hold.
\<close>

definition attached :: "('p, 'r) proto_state \<Rightarrow> nat list" where
  "attached s = map (\<lambda>n. the (node_finfo n)) (tl (nodes s))"

definition hfinfo_of :: "('p, 'r) proto_state \<Rightarrow> nat \<Rightarrow> header_field_info" where
  "hfinfo_of s fi = projr (deref (registrar s) (fi_hfinfo (finfos s ! fi)))"

definition wanted :: "('p, 'r) proto_state \<Rightarrow> int \<Rightarrow> nat list" where
  "wanted s hfid =
     filter (\<lambda>fi. hf_ref_type (hfinfo_of s fi) = HF_REF_TYPE_DIRECT \<and> hf_id (hfinfo_of s fi) = hfid) (attached s)"

definition infos_ok :: "('p, 'r) proto_state \<Rightarrow> bool" where
  "infos_ok s =
     (node_finfo (nodes s ! 0) = None \<and>
      (\<forall>c. 0 < c \<longrightarrow> c < length (nodes s) \<longrightarrow> (\<exists>fi < length (finfos s). node_finfo (nodes s ! c) = Some fi)) \<and>
      (\<forall>fi < length (finfos s). \<exists>h. deref (registrar s) (fi_hfinfo (finfos s ! fi)) = Inr h) \<and>
      distinct (attached s))"

definition table_ok :: "('p, 'r) proto_state \<Rightarrow> bool" where
  "table_ok s = (\<forall>hfid. finfo_ptr_array s hfid = (if wanted s hfid = [] then None else Some (wanted s hfid)))"

definition proto_ok :: "('p, 'r) proto_state \<Rightarrow> (nat \<Rightarrow> nat list) \<Rightarrow> bool" where
  "proto_ok s kids =
     (tree_ok (nodes s) kids \<and> (\<forall>c < length (nodes s). depth (nodes s) c < MAX_TREE_LEVELS) \<and>
      infos_ok s \<and> table_ok s)"

text \<open>A node under which items may be added: the root, or an item that was made a subtree.\<close>

definition subtree_ready :: "('p, 'r) proto_state \<Rightarrow> nat \<Rightarrow> bool" where
  "subtree_ready s t =
     (case node_finfo (nodes s ! t) of
        None \<Rightarrow> True
      | Some fi \<Rightarrow> 0 \<le> fi_tree_type (finfos s ! fi) \<and> fi_tree_type (finfos s ! fi) < num_tree_types s)"

lemma proto_okD:
  assumes "proto_ok s kids"
  shows "tree_ok (nodes s) kids" "c < length (nodes s) \<Longrightarrow> depth (nodes s) c < MAX_TREE_LEVELS"
    "node_finfo (nodes s ! 0) = None"
    "0 < c \<Longrightarrow> c < length (nodes s) \<Longrightarrow> \<exists>fi < length (finfos s). node_finfo (nodes s ! c) = Some fi"
    "fi < length (finfos s) \<Longrightarrow> deref (registrar s) (fi_hfinfo (finfos s ! fi)) = Inr (hfinfo_of s fi)"
    "distinct (attached s)"
    "finfo_ptr_array s hfid = (if wanted s hfid = [] then None else Some (wanted s hfid))"
  using assms unfolding proto_ok_def infos_ok_def table_ok_def hfinfo_of_def by fastforce+

lemma length_attached: "proto_ok s kids \<Longrightarrow> length (nodes s) = Suc (length (attached s))"
  using tree_okD(1) [OF proto_okD(1), of s kids] by (cases "nodes s") (simp_all add: attached_def)

lemma attached_nth:
  assumes "proto_ok s kids" "0 < c" "c < length (nodes s)"
  shows "node_finfo (nodes s ! c) = Some (attached s ! (c - 1))"
proof -
  obtain fi where "node_finfo (nodes s ! c) = Some fi" using proto_okD(4) [OF assms] by blast
  moreover have "attached s ! (c - 1) = the (node_finfo (nodes s ! c))"
    using assms(2,3) by (cases "nodes s") (auto simp: attached_def nth_Cons')
  ultimately show ?thesis by simp
qed

lemma attached_bound:
  assumes "proto_ok s kids" "fi \<in> set (attached s)"
  shows "fi < length (finfos s)"
proof -
  obtain i where "i < length (attached s)" "fi = attached s ! i" using assms(2) by (auto simp: in_set_conv_nth)
  then show ?thesis
    using attached_nth [OF assms(1), of "Suc i"] proto_okD(4) [OF assms(1), of "Suc i"] length_attached [OF assms(1)]
    by auto
qed

text \<open>A tree with nothing but its root.\<close>

abbreviation root_node :: proto_node where
  "root_node \<equiv> \<lparr>first_child = None, last_child = None, next_node = None, parent_node = None, node_finfo = None\<rparr>"

lemma fresh_ok:
  assumes "nodes s = [root_node]" "interesting_hfids s = None"
    and "\<forall>fi < length (finfos s). \<exists>h. deref (registrar s) (fi_hfinfo (finfos s ! fi)) = Inr h"
  shows "proto_ok s (\<lambda>_. [])"
proof -
  have "tree_ok [root_node] (\<lambda>_. [])"
    unfolding tree_ok_def by (auto simp: last_or_none_def)
  moreover have "depth [root_node] 0 = 0" by (simp add: depth.simps)
  ultimately show ?thesis
    using assms
    by (simp add: proto_ok_def infos_ok_def table_ok_def attached_def wanted_def finfo_ptr_array_def MAX_TREE_LEVELS_def)
qed

lemma create_root_ok: "proto_ok (proto_tree_create_root reg types) (\<lambda>_. [])"
  by (rule fresh_ok) (simp_all add: proto_tree_create_root_def)

section \<open>Adding a node\<close>

definition noted :: "header_field_info \<Rightarrow> nat \<Rightarrow> ('p, 'r) proto_state \<Rightarrow> ('p, 'r) proto_state" where
  "noted h fi s =
     (if hf_ref_type h = HF_REF_TYPE_DIRECT then
        s\<lparr>interesting_hfids :=
            Some (AList.update (hf_id h)
                    ((case finfo_ptr_array s (hf_id h) of None \<Rightarrow> [] | Some ps \<Rightarrow> ps) @ [fi])
                    (case interesting_hfids s of None \<Rightarrow> [] | Some entries \<Rightarrow> entries))\<rparr>
      else s)"

lemma add_maybe_interesting_run:
  assumes "get_finfo s fi = Inr f" "deref (registrar s) (fi_hfinfo f) = Inr h"
  shows "tree_data_add_maybe_interesting_field fi s = (Inr (), noted h fi s)"
  using assms
  by (auto simp: tree_data_add_maybe_interesting_field_def noted_def finfo_ptr_array_def bindS_def Let_def
      split: option.split)

lemma noted_simps [simp]:
  "nodes (noted h fi s) = nodes s" "finfos (noted h fi s) = finfos s" "registrar (noted h fi s) = registrar s"
  "num_tree_types (noted h fi s) = num_tree_types s" "visible (noted h fi s) = visible s"
  "fake_protocols (noted h fi s) = fake_protocols s" "item_count (noted h fi s) = item_count s"
  "attached (noted h fi s) = attached s" "hfinfo_of (noted h fi s) = hfinfo_of s"
  "wanted (noted h fi s) = wanted s"
  by (simp_all add: noted_def attached_def hfinfo_of_def fun_eq_iff wanted_def)

lemma finfo_ptr_array_noted:
  "finfo_ptr_array (noted h fi s) hfid =
     (if hf_ref_type h = HF_REF_TYPE_DIRECT \<and> hf_id h = hfid
      then Some ((case finfo_ptr_array s hfid of None \<Rightarrow> [] | Some ps \<Rightarrow> ps) @ [fi])
      else finfo_ptr_array s hfid)"
  by (simp add: noted_def finfo_ptr_array_def update_conv' split: option.split)

lemma add_node_run:
  assumes "tree_ok (nodes s) kids" "t < length (nodes s)"
    and "\<And>tfi. node_finfo (nodes s ! t) = Some tfi \<Longrightarrow> tfi < length (finfos s)"
    and "get_finfo s fi = Inr f" "deref (registrar s) (fi_hfinfo f) = Inr h"
  shows "proto_tree_add_node t fi s =
    (if kids t = [] \<and> \<not> Suc (depth (nodes s) t) < MAX_TREE_LEVELS \<or> \<not> subtree_ready s t then (Inl DissectorError, s)
     else (Inr (length (nodes s)), noted h fi (s\<lparr>nodes := with_child (nodes s) t fi\<rparr>)))"
proof -
  let ?n = "nodes s ! t" and ?ns = "with_child (nodes s) t fi"
  have node: "get_node s t = Inr ?n" using assms(2) by (simp add: get_node_def)
  have fc: "(first_child ?n = None) = (kids t = [])" using chain_first [OF tree_okD(3) [OF assms(1,2)]] .
  have deep: "(if first_child ?n = None then depth_loop s (Some t) 1 else Inr ()) =
      (if kids t = [] \<and> \<not> Suc (depth (nodes s) t) < MAX_TREE_LEVELS then Inl DissectorError else Inr ())"
    using depth_loop_depth [OF assms(1,2), of 1] fc by auto
  have ready: "(case node_finfo ?n of
              None \<Rightarrow> return ()
            | Some tfi \<Rightarrow>
                bindS (asks (\<lambda>s. get_finfo s tfi)) (\<lambda>f.
                bindS (asks (\<lambda>s. Inr (num_tree_types s))) (\<lambda>types.
                  if fi_tree_type f < 0 \<or> fi_tree_type f \<ge> types then throw DissectorError
                  else return ()))) s = (if subtree_ready s t then (Inr (), s) else (Inl DissectorError, s))"
    using assms(3) by (auto simp: subtree_ready_def get_finfo_def split: option.split)
  let ?s1 = "s\<lparr>nodes := nodes s @ [leaf t fi]\<rparr>"
  have l: "last_child ?n = last_or_none (kids t)" by (rule tree_okD(4) [OF assms(1,2)])
  have len: "t < length (nodes ?s1)" using assms(2) by simp
  have sib: "kids t \<noteq> [] \<Longrightarrow> last (kids t) < length (nodes s) \<and> next_node (nodes s ! last (kids t)) = None"
    using kid_after(2) [OF assms(1) last_in_set] chain_last [OF tree_okD(3) [OF assms(1,2)]] by blast
  have link: "\<exists>s2. (case last_child ?n of
              Some sibling \<Rightarrow>
                bindS (asks (\<lambda>s. get_node s sibling)) (\<lambda>sb.
                bindS (assertS (next_node sb = None)) (\<lambda>_.
                  put_node sibling (\<lambda>n. n\<lparr>next_node := Some (length (nodes s))\<rparr>)))
            | None \<Rightarrow> put_node t (\<lambda>n. n\<lparr>first_child := Some (length (nodes s))\<rparr>)) ?s1 = (Inr (), s2) \<and>
        put_node t (\<lambda>n. n\<lparr>last_child := Some (length (nodes s))\<rparr>) s2 = (Inr (), s\<lparr>nodes := ?ns\<rparr>)"
    using l len sib assms(2)
    by (cases "kids t = []")
      (auto simp: last_or_none_def put_node_def get_node_def with_child_def Let_def nth_append nth_list_update update_def)
  then obtain s2 where s2: "(case last_child ?n of
              Some sibling \<Rightarrow>
                bindS (asks (\<lambda>s. get_node s sibling)) (\<lambda>sb.
                bindS (assertS (next_node sb = None)) (\<lambda>_.
                  put_node sibling (\<lambda>n. n\<lparr>next_node := Some (length (nodes s))\<rparr>)))
            | None \<Rightarrow> put_node t (\<lambda>n. n\<lparr>first_child := Some (length (nodes s))\<rparr>)) ?s1 = (Inr (), s2)"
        "put_node t (\<lambda>n. n\<lparr>last_child := Some (length (nodes s))\<rparr>) s2 = (Inr (), s\<lparr>nodes := ?ns\<rparr>)"
    by blast
  have table: "tree_data_add_maybe_interesting_field fi (s\<lparr>nodes := ?ns\<rparr>) = (Inr (), noted h fi (s\<lparr>nodes := ?ns\<rparr>))"
    by (rule add_maybe_interesting_run [of _ _ f]) (use assms(4,5) in \<open>auto simp: get_finfo_def split: if_splits\<close>)
  have s1: "modify (\<lambda>s. s\<lparr>nodes := nodes s @
              [\<lparr>first_child = None, last_child = None, next_node = None, parent_node = Some t,
                node_finfo = Some fi\<rparr>]\<rparr>) s = (Inr (), ?s1)"
    by (simp add: leaf_def)
  show ?thesis
    unfolding proto_tree_add_node_def
    by (cases "kids t = [] \<and> \<not> Suc (depth (nodes s) t) < MAX_TREE_LEVELS"; cases "subtree_ready s t")
      (simp_all add: bindS_def node deep ready s1 s2 table del: modify_run)
qed

lemma attached_with_child:
  assumes "proto_ok s kids" "t < length (nodes s)"
  shows "attached (s\<lparr>nodes := with_child (nodes s) t fi\<rparr>) = attached s @ [fi]"
proof (rule nth_equalityI)
  note nth = with_child_nth [OF proto_okD(1) [OF assms(1)] assms(2), where fi = fi]
  have len: "length (nodes s) = Suc (length (attached s))" by (rule length_attached [OF assms(1)])
  have size: "length (attached (s\<lparr>nodes := with_child (nodes s) t fi\<rparr>)) = length (nodes s)"
    unfolding attached_def using nth(1) by simp
  show "length (attached (s\<lparr>nodes := with_child (nodes s) t fi\<rparr>)) = length (attached s @ [fi])"
    unfolding size using len by simp
  fix i assume "i < length (attached (s\<lparr>nodes := with_child (nodes s) t fi\<rparr>))"
  then have i: "i < length (nodes s)" unfolding size .
  have "attached (s\<lparr>nodes := with_child (nodes s) t fi\<rparr>) ! i = the (node_finfo (with_child (nodes s) t fi ! Suc i))"
    unfolding attached_def using i nth(1) by (simp add: nth_tl)
  also have "\<dots> = (attached s @ [fi]) ! i"
  proof (cases "i < length (attached s)")
    case True
    then show ?thesis
      using nth(3) [of "Suc i"] attached_nth [OF assms(1), of "Suc i"] len i by (simp add: nth_append)
  next
    case False
    then have "i = length (attached s)" using i len by simp
    then show ?thesis using nth(2) len by (simp add: leaf_def)
  qed
  finally show "attached (s\<lparr>nodes := with_child (nodes s) t fi\<rparr>) ! i = (attached s @ [fi]) ! i" .
qed

lemma with_child_state_ok:
  assumes ok: "proto_ok s kids" and t: "t < length (nodes s)" "Suc (depth (nodes s) t) < MAX_TREE_LEVELS"
    and fi: "fi < length (finfos s)" "fi \<notin> set (attached s)"
  shows "proto_ok (noted (hfinfo_of s fi) fi (s\<lparr>nodes := with_child (nodes s) t fi\<rparr>)) (kids(t := kids t @ [length (nodes s)]))"
proof -
  let ?s1 = "s\<lparr>nodes := with_child (nodes s) t fi\<rparr>"
  let ?s2 = "noted (hfinfo_of s fi) fi ?s1"
  note tree = proto_okD(1) [OF ok]
  note nth = with_child_nth [OF tree t(1), where fi = fi] and d = with_child_depth [OF tree t(1), where fi = fi]
  note att = attached_with_child [OF ok t(1), of fi]
  have 1: "tree_ok (nodes ?s2) (kids(t := kids t @ [length (nodes s)]))" using with_child_ok [OF tree t(1)] by simp
  have 2: "depth (nodes ?s2) c < MAX_TREE_LEVELS" if "c < length (nodes ?s2)" for c
    using that d proto_okD(2) [OF ok, of c] t(2) nth(1) by (cases "c = length (nodes s)") auto
  have 3: "node_finfo (nodes ?s2 ! 0) = None"
    using nth(3) [of 0] tree_okD(1) [OF tree] proto_okD(3) [OF ok] by simp
  have 4: "\<exists>f < length (finfos ?s2). node_finfo (nodes ?s2 ! c) = Some f" if "0 < c" "c < length (nodes ?s2)" for c
    using that nth proto_okD(4) [OF ok, of c] fi(1) by (cases "c = length (nodes s)") (auto simp: leaf_def)
  have 5: "\<exists>h. deref (registrar ?s2) (fi_hfinfo (finfos ?s2 ! f)) = Inr h" if "f < length (finfos ?s2)" for f
    using that proto_okD(5) [OF ok, of f] by auto
  have 6: "distinct (attached ?s2)" using att proto_okD(6) [OF ok] fi(2) by simp
  have "wanted ?s2 hfid = wanted s hfid @ (if hf_ref_type (hfinfo_of s fi) = HF_REF_TYPE_DIRECT \<and>
      hf_id (hfinfo_of s fi) = hfid then [fi] else [])" for hfid
  proof -
    have "hfinfo_of ?s1 = hfinfo_of s" by (simp add: hfinfo_of_def fun_eq_iff)
    then show ?thesis by (simp add: wanted_def att)
  qed
  moreover have "finfo_ptr_array ?s1 hfid = finfo_ptr_array s hfid" for hfid by (simp add: finfo_ptr_array_def)
  ultimately have 7: "finfo_ptr_array ?s2 hfid = (if wanted ?s2 hfid = [] then None else Some (wanted ?s2 hfid))" for hfid
    using proto_okD(7) [OF ok, of hfid] by (simp add: finfo_ptr_array_noted)
  show ?thesis
    unfolding proto_ok_def infos_ok_def table_ok_def using 1 2 3 4 5 6 7 by blast
qed

lemma room_below:
  assumes "proto_ok s kids" "kids t \<noteq> []"
  shows "Suc (depth (nodes s) t) < MAX_TREE_LEVELS"
proof -
  note tree = proto_okD(1) [OF assms(1)]
  let ?c = "hd (kids t)"
  have c: "?c \<in> set (kids t)" using assms(2) by simp
  have "depth (nodes s) ?c = Suc (depth (nodes s) t)"
    using depth_parent kid_after(1) [OF tree c] tree_okD(6) [OF tree, of ?c t] c by blast
  then show ?thesis using proto_okD(2) [OF assms(1) kid_after(2) [OF tree c]] by simp
qed

text \<open>
  C6. Adding a node refines appending a leaf to the children of its parent: the other children stay, the
  new field comes last, the table of the interesting fields takes it in when it is directly referenced,
  and nothing else changes. It throws, and changes nothing, exactly when the tree would get more than
  \<open>MAX_TREE_LEVELS\<close> levels or the parent was not made a subtree.
\<close>

theorem proto_tree_add_node_correct:
  assumes "proto_ok s kids" "t < length (nodes s)" "fi < length (finfos s)" "fi \<notin> set (attached s)"
  shows "if Suc (depth (nodes s) t) < MAX_TREE_LEVELS \<and> subtree_ready s t
     then \<exists>s'. proto_tree_add_node t fi s = (Inr (length (nodes s)), s') \<and>
            proto_ok s' (kids(t := kids t @ [length (nodes s)])) \<and> attached s' = attached s @ [fi] \<and>
            depth (nodes s') (length (nodes s)) = Suc (depth (nodes s) t) \<and>
            s' = s\<lparr>nodes := nodes s', interesting_hfids := interesting_hfids s'\<rparr>
     else proto_tree_add_node t fi s = (Inl DissectorError, s)"
proof -
  note tree = proto_okD(1) [OF assms(1)]
  have info: "tfi < length (finfos s)" if "node_finfo (nodes s ! t) = Some tfi" for tfi
    using that proto_okD(3) [OF assms(1)] proto_okD(4) [OF assms(1) _ assms(2)] by (cases "t = 0") auto
  have fi: "get_finfo s fi = Inr (finfos s ! fi)" "deref (registrar s) (fi_hfinfo (finfos s ! fi)) = Inr (hfinfo_of s fi)"
    using assms(3) proto_okD(5) [OF assms(1,3)] by (simp_all add: get_finfo_def)
  note run = add_node_run [OF tree assms(2) info fi]
  have full: "kids t \<noteq> [] \<Longrightarrow> Suc (depth (nodes s) t) < MAX_TREE_LEVELS" by (rule room_below [OF assms(1)])
  let ?s' = "noted (hfinfo_of s fi) fi (s\<lparr>nodes := with_child (nodes s) t fi\<rparr>)"
  show ?thesis
  proof (cases "Suc (depth (nodes s) t) < MAX_TREE_LEVELS \<and> subtree_ready s t")
    case True
    then have "proto_tree_add_node t fi s = (Inr (length (nodes s)), ?s')" using run by simp
    moreover have "proto_ok ?s' (kids(t := kids t @ [length (nodes s)]))"
      using with_child_state_ok [OF assms(1,2) _ assms(3,4)] True by blast
    moreover have "attached ?s' = attached s @ [fi]" using attached_with_child [OF assms(1,2)] by simp
    moreover have "depth (nodes ?s') (length (nodes s)) = Suc (depth (nodes s) t)"
      using with_child_depth(2) [OF tree assms(2)] by simp
    moreover have "?s' = s\<lparr>nodes := nodes ?s', interesting_hfids := interesting_hfids ?s'\<rparr>" by (simp add: noted_def)
    ultimately show ?thesis using True by metis
  qed (use run full in auto)
qed

text \<open>A root and a field 2 of the sample registrar that is not attached yet.\<close>

definition sample_fresh :: "(unit, unit) proto_state" where
  "sample_fresh =
     (proto_tree_create_root sample_registrar 1)\<lparr>finfos :=
        [\<lparr>fi_hfinfo = 2, fi_start = 0, fi_length = 0, fi_tree_type = -1, fi_flags = 0, fi_value = UINTEGER 4 5\<rparr>]\<rparr>"

lemma sample_fresh_ok: "proto_ok sample_fresh (\<lambda>_. [])" "length (nodes sample_fresh) = 1"
  "length (finfos sample_fresh) = 1" "attached sample_fresh = []" "depth (nodes sample_fresh) 0 = 0"
  by (rule fresh_ok)
    (simp_all add: sample_fresh_def proto_tree_create_root_def sample_registrar_def registrar_init_def deref_def Let_def
      attached_def depth.simps)

theorem proto_tree_add_node_correct_witness:
  "\<exists>s'. proto_tree_add_node 0 0 sample_fresh = (Inr 1, s') \<and> proto_ok s' ((\<lambda>_. [])(0 := [1])) \<and> attached s' = [0]"
proof -
  have "subtree_ready sample_fresh 0" by (simp add: subtree_ready_def sample_fresh_def proto_tree_create_root_def)
  then show ?thesis
    using proto_tree_add_node_correct [OF sample_fresh_ok(1), of 0 0] sample_fresh_ok(2-5)
    by (auto simp: MAX_TREE_LEVELS_def)
qed

end
