(* ===== verification/ProtoTreeWalk.thy ===== *)
theory ProtoTreeWalk
  imports ProtoTreeProps
begin

text \<open>
  The walks over the protocol tree: they visit every node once, parents before their children and
  siblings in their order, and the searches built on them agree with the table of the interesting
  fields.
\<close>

section \<open>The order of the nodes\<close>

function preorder :: "(nat \<Rightarrow> nat list) \<Rightarrow> nat \<Rightarrow> nat \<Rightarrow> nat list" where
  "preorder kids n p = p # concat (map (preorder kids n) (filter (\<lambda>c. p < c \<and> c < n) (kids p)))"
  by pat_completeness auto
termination preorder
  by (relation "measure (\<lambda>(kids, n, p). n - p)") auto

declare preorder.simps [simp del]

lemma preorder_kids:
  assumes "tree_ok ns kids"
  shows "preorder kids (length ns) p = p # concat (map (preorder kids (length ns)) (kids p))"
proof -
  have "filter (\<lambda>c. p < c \<and> c < length ns) (kids p) = kids p"
    using kid_after [OF assms] by (simp add: filter_id_conv)
  then show ?thesis by (subst preorder.simps) simp
qed

lemma preorder_self: "p \<in> set (preorder kids n p)"
  by (subst preorder.simps) simp

lemma preorder_le: "x \<in> set (preorder kids n p) \<Longrightarrow> p \<le> x"
proof (induction kids n p rule: preorder.induct)
  case (1 kids n p)
  then show ?case by (subst (asm) (2) preorder.simps) force
qed

lemma preorder_kid:
  assumes "tree_ok ns kids" "q \<in> set (preorder kids (length ns) p)" "c \<in> set (kids q)"
  shows "c \<in> set (preorder kids (length ns) p)"
  using assms(2)
proof (induction "length ns - p" arbitrary: p rule: less_induct)
  case less
  show ?case
  proof (cases "q = p")
    case True
    then show ?thesis using assms(3) preorder_self by (subst preorder_kids [OF assms(1)]) auto
  next
    case False
    then obtain k where k: "k \<in> set (kids p)" "q \<in> set (preorder kids (length ns) k)"
      using less.prems by (subst (asm) preorder_kids [OF assms(1)]) auto
    have "c \<in> set (preorder kids (length ns) k)"
      using less.hyps [of k] k kid_after [OF assms(1) k(1)] by simp
    then show ?thesis using k(1) by (subst preorder_kids [OF assms(1)]) auto
  qed
qed

lemma preorder_parent:
  assumes "tree_ok ns kids" "x \<in> set (preorder kids (length ns) p)" "x \<noteq> p"
  shows "\<exists>q \<in> set (preorder kids (length ns) p). x \<in> set (kids q)"
  using assms(2,3)
proof (induction "length ns - p" arbitrary: p rule: less_induct)
  case less
  obtain k where k: "k \<in> set (kids p)" "x \<in> set (preorder kids (length ns) k)"
    using less.prems by (subst (asm) preorder_kids [OF assms(1)]) auto
  show ?case
  proof (cases "x = k")
    case True
    then show ?thesis using k(1) preorder_self by blast
  next
    case False
    then obtain q where "q \<in> set (preorder kids (length ns) k)" "x \<in> set (kids q)"
      using less.hyps [of k] k kid_after [OF assms(1) k(1)] diff_less_mono2 [of p k "length ns"] by fastforce
    then show ?thesis using k(1) by (subst preorder_kids [OF assms(1)]) auto
  qed
qed

text \<open>The subtrees of two siblings have no node in common.\<close>

lemma siblings_disjoint:
  assumes "tree_ok ns kids" "c1 \<in> set (kids p)" "c2 \<in> set (kids p)"
    and "x \<in> set (preorder kids (length ns) c1)" "x \<in> set (preorder kids (length ns) c2)"
  shows "c1 = c2"
  using assms(4,5)
proof (induction x rule: less_induct)
  case (less x)
  have below: "c \<notin> set (preorder kids (length ns) d)"
    if c: "c \<in> set (kids p)" and d: "d \<in> set (kids p)" and ne: "c \<noteq> d" for c d
  proof
    assume "c \<in> set (preorder kids (length ns) d)"
    then obtain q where q: "q \<in> set (preorder kids (length ns) d)" "c \<in> set (kids q)"
      using preorder_parent [OF assms(1)] ne by blast
    have "q = p" by (rule kids_disjoint [OF assms(1) q(2) c])
    then show False using preorder_le [OF q(1)] kid_after(1) [OF assms(1) d] by simp
  qed
  show ?case
  proof (rule ccontr)
    assume ne: "c1 \<noteq> c2"
    have "x \<noteq> c1" "x \<noteq> c2" using below assms(2,3) less.prems ne by blast+
    then obtain q1 q2 where q: "q1 \<in> set (preorder kids (length ns) c1)" "x \<in> set (kids q1)"
        "q2 \<in> set (preorder kids (length ns) c2)" "x \<in> set (kids q2)"
      using preorder_parent [OF assms(1)] less.prems by metis
    have "q1 = q2" by (rule kids_disjoint [OF assms(1) q(2,4)])
    then show False using less.IH [OF kid_after(1) [OF assms(1) q(2)]] q ne by blast
  qed
qed

lemma distinct_preorder:
  assumes "tree_ok ns kids" "p < length ns"
  shows "distinct (preorder kids (length ns) p)"
  using assms(2)
proof (induction "length ns - p" arbitrary: p rule: less_induct)
  case less
  have "distinct (concat (map (preorder kids (length ns)) ks))" if "set ks \<subseteq> set (kids p)" "distinct ks" for ks
    using that
  proof (induction ks)
    case (Cons k ks)
    have k: "k \<in> set (kids p)" using Cons.prems by simp
    have "distinct (preorder kids (length ns) k)"
      using less.hyps [of k] kid_after [OF assms(1) k] less.prems by simp
    moreover have "set (preorder kids (length ns) k) \<inter> set (concat (map (preorder kids (length ns)) ks)) = {}"
      using siblings_disjoint [OF assms(1) k] Cons.prems by fastforce
    ultimately show ?case using Cons by simp
  qed simp
  moreover have "p \<notin> set (concat (map (preorder kids (length ns)) (kids p)))"
    using preorder_le kid_after(1) [OF assms(1)] by fastforce
  ultimately show ?case
    using tree_okD(5) [OF assms(1) less.prems] by (subst preorder_kids [OF assms(1)]) simp
qed

lemma set_preorder_root:
  assumes "tree_ok ns kids"
  shows "set (preorder kids (length ns) 0) = {..<length ns}"
proof
  show "{..<length ns} \<subseteq> set (preorder kids (length ns) 0)"
  proof
    fix c assume "c \<in> {..<length ns}"
    then show "c \<in> set (preorder kids (length ns) 0)"
    proof (induction c rule: less_induct)
      case (less c)
      show ?case
      proof (cases "c = 0")
        case False
        then obtain q where q: "q < c" "parent_node (ns ! c) = Some q" using tree_okD(7) [OF assms] less.prems by auto
        then have "c \<in> set (kids q)" using tree_okD(6) [OF assms, of c q] less.prems by auto
        then show ?thesis using preorder_kid [OF assms] less.IH [OF q(1)] q(1) less.prems by auto
      qed (simp add: preorder_self)
    qed
  qed
  show "set (preorder kids (length ns) 0) \<subseteq> {..<length ns}"
  proof
    fix x assume x: "x \<in> set (preorder kids (length ns) 0)"
    show "x \<in> {..<length ns}"
    proof (cases "x = 0")
      case False
      then show ?thesis using preorder_parent [OF assms x] kid_after(2) [OF assms] by auto
    qed (use tree_okD(1) [OF assms] in simp)
  qed
qed

section \<open>The walk\<close>

fun visit_until :: "(nat \<Rightarrow> 'd \<Rightarrow> (bool \<times> 'd) res) \<Rightarrow> nat list \<Rightarrow> 'd \<Rightarrow> (bool \<times> 'd) res" where
  "visit_until func [] d = Inr (False, d)"
| "visit_until func (p # ps) d =
     bindE (func p d) (\<lambda>(stop, d1). if stop then Inr (True, d1) else visit_until func ps d1)"

lemma visit_until_append:
  "visit_until func (ps @ qs) d =
     bindE (visit_until func ps d) (\<lambda>(stop, d1). if stop then Inr (True, d1) else visit_until func qs d1)"
  by (induction ps arbitrary: d) (auto simp: bindE_def split: sum.splits prod.splits)

lemma pre_order_children_visits:
  assumes "tree_ok (nodes s) kids"
  shows "chain (nodes s) child ks None \<Longrightarrow> set ks \<subseteq> {..<length (nodes s)} \<Longrightarrow>
    pre_order_children s func child d =
      Some (visit_until func (concat (map (preorder kids (length (nodes s))) ks)) d)"
proof (induction "length (concat (map (preorder kids (length (nodes s))) ks))" arbitrary: ks child d rule: less_induct)
  case less
  let ?pre = "\<lambda>ks. concat (map (preorder kids (length (nodes s))) ks)"
  show ?case
  proof (cases ks)
    case Nil
    then show ?thesis using less.prems by (subst pre_order_children.simps) simp
  next
    case (Cons k ks')
    have k: "child = Some k" "k < length (nodes s)" "chain (nodes s) (next_node (nodes s ! k)) ks' None"
        "set ks' \<subseteq> {..<length (nodes s)}"
      using less.prems Cons by auto
    have pre: "preorder kids (length (nodes s)) k = k # ?pre (kids k)" by (rule preorder_kids [OF assms])
    have down: "pre_order_children s func (first_child (nodes s ! k)) d1 = Some (visit_until func (?pre (kids k)) d1)" for d1
      by (rule less.hyps [OF _ tree_okD(3) [OF assms k(2)]])
        (use kid_after(2) [OF assms] in \<open>auto simp: Cons pre simp del: length_concat\<close>)
    have right: "pre_order_children s func (next_node (nodes s ! k)) d1 = Some (visit_until func (?pre ks') d1)" for d1
      by (rule less.hyps [OF _ k(3,4)]) (simp add: Cons pre del: length_concat)
    show ?thesis
      unfolding Cons
      using k(2)
      by (subst pre_order_children.simps)
        (auto simp: k(1) get_node_def bindE_def pre visit_until_append down right split: sum.splits prod.splits)
  qed
qed

lemma walk_visits:
  assumes "tree_ok (nodes s) kids" "t < length (nodes s)"
  shows "proto_tree_traverse_pre_order s t func d = visit_until func (preorder kids (length (nodes s)) t) d"
proof -
  have "set (kids t) \<subseteq> {..<length (nodes s)}" using kid_after(2) [OF assms(1)] by auto
  then show ?thesis
    using pre_order_children_visits [OF assms(1) tree_okD(3) [OF assms], of func] assms(2)
    by (simp add: proto_tree_traverse_pre_order_def get_node_def preorder_kids [OF assms(1)] returned_def
        cong: if_cong)
qed

text \<open>
  C29. The walk ends and calls the function on the nodes of the subtree in preorder, up to the first
  call that stops it; from the root, that is every node exactly once.
\<close>

theorem proto_tree_traverse_pre_order_correct:
  assumes "tree_ok (nodes s) kids" "t < length (nodes s)"
  shows "proto_tree_traverse_pre_order s t func d =
           visit_until func (preorder kids (length (nodes s)) t) d \<and>
         distinct (preorder kids (length (nodes s)) t) \<and>
         set (preorder kids (length (nodes s)) 0) = {..<length (nodes s)}"
  by (intro conjI walk_visits [OF assms] distinct_preorder [OF assms] set_preorder_root [OF assms(1)])

text \<open>The root with two children.\<close>

definition sample_nodes :: "proto_node list" where
  "sample_nodes = with_child (with_child [root_node] 0 0) 0 1"

lemma sample_nodes_ok: "tree_ok sample_nodes ((\<lambda>_. [])(0 := [1, 2]))" "length sample_nodes = 3"
proof -
  have r: "tree_ok [root_node] (\<lambda>_. [])" unfolding tree_ok_def by (auto simp: last_or_none_def)
  have l: "length (with_child [root_node] 0 0) = 2" using with_child_nth(1) [OF r] by simp
  have one: "tree_ok (with_child [root_node] 0 0) ((\<lambda>_. [])(0 := [1]))" using with_child_ok [OF r, of 0 0] by simp
  show "tree_ok sample_nodes ((\<lambda>_. [])(0 := [1, 2]))"
    using with_child_ok [OF one, of 0 1] l by (simp add: sample_nodes_def)
  show "length sample_nodes = 3" using with_child_nth(1) [OF one, of 0 1] l by (simp add: sample_nodes_def)
qed

theorem proto_tree_traverse_pre_order_correct_witness:
  "proto_tree_traverse_pre_order (sample_fresh\<lparr>nodes := sample_nodes\<rparr>) 0 (\<lambda>p d. Inr (p = 1, p # d)) [] =
     Inr (True, [1, 0])"
proof -
  have "preorder ((\<lambda>_. [])(0 := [1, 2])) 3 0 = [0, 1, 2]"
    by (simp add: preorder.simps [of _ 3 0] preorder.simps [of _ 3 1] preorder.simps [of _ 3 2]
        preorder.simps [of _ 3 "Suc 0"])
  then show ?thesis
    using proto_tree_traverse_pre_order_correct
        [of "sample_fresh\<lparr>nodes := sample_nodes\<rparr>" "(\<lambda>_. [])(0 := [1, 2])" 0 "\<lambda>p d. Inr (p = 1, p # d)" "[]"]
      sample_nodes_ok by simp
qed

section \<open>The searches\<close>

text \<open>The fields of a list of nodes; the root has none.\<close>

definition fields_at :: "('p, 'r) proto_state \<Rightarrow> nat list \<Rightarrow> nat list" where
  "fields_at s ps = map (\<lambda>p. attached s ! (p - 1)) (filter (\<lambda>p. 0 < p) ps)"

lemma finfo_of_node:
  assumes "proto_ok s kids" "p < length (nodes s)"
  shows "finfo_of s p =
           (if p = 0 then Inr None else Inr (Some (attached s ! (p - 1), hfinfo_of s (attached s ! (p - 1)))))"
proof (cases "p = 0")
  case True
  then show ?thesis using assms proto_okD(3) [OF assms(1)] by (simp add: finfo_of_def get_node_def)
next
  case False
  let ?fi = "attached s ! (p - 1)"
  have "p - 1 < length (attached s)" using assms length_attached [OF assms(1)] False by simp
  then have "?fi < length (finfos s)" using attached_bound [OF assms(1)] nth_mem by blast
  then show ?thesis
    using False attached_nth [OF assms(1) _ assms(2)] assms(2) proto_okD(5) [OF assms(1)]
    by (simp add: finfo_of_def get_node_def get_finfo_def)
qed

lemma fields_at_simps [simp]:
  "fields_at s [] = []" "fields_at s (p # ps) = (if p = 0 then [] else [attached s ! (p - 1)]) @ fields_at s ps"
  by (simp_all add: fields_at_def)

lemma visit_find:
  assumes "proto_ok s kids" "\<forall>p \<in> set ps. p < length (nodes s)"
  shows "visit_until (find_finfo s hfid) ps array =
           Inr (False, array @ filter (\<lambda>fi. hf_id (hfinfo_of s fi) = hfid) (fields_at s ps))"
  using assms(2)
  by (induction ps arbitrary: array) (simp_all add: find_finfo_def finfo_of_node [OF assms(1)])

lemma visit_every:
  assumes "proto_ok s kids" "\<forall>p \<in> set ps. p < length (nodes s)"
  shows "visit_until (every_finfo s) ps array = Inr (False, array @ fields_at s ps)"
  using assms(2)
  by (induction ps arbitrary: array) (simp_all add: every_finfo_def finfo_of_node [OF assms(1)])

lemma visit_find_first:
  assumes "proto_ok s kids" "\<forall>p \<in> set ps. p < length (nodes s)"
  shows "visit_until (find_first_finfo s hfid) ps [] =
           (let found = filter (\<lambda>fi. hf_id (hfinfo_of s fi) = hfid) (fields_at s ps)
            in Inr (found \<noteq> [], take 1 found))"
  using assms(2)
  by (induction ps) (auto simp: find_first_finfo_def finfo_of_node [OF assms(1)] Let_def)

lemma fields_at_all:
  assumes "proto_ok s kids" "distinct ps" "set ps = {..<length (nodes s)}"
  shows "mset (fields_at s ps) = mset (attached s)"
proof -
  let ?n = "length (nodes s)"
  have n: "?n = Suc (length (attached s))" by (rule length_attached [OF assms(1)])
  have "mset (filter (\<lambda>p. 0 < p) ps) = mset [1..<?n]"
  proof -
    have "distinct (filter (\<lambda>p. 0 < p) ps)" "distinct [1..<?n]" using assms(2) by simp_all
    moreover have "set (filter (\<lambda>p. 0 < p) ps) = set [1..<?n]"
      unfolding set_filter assms(3) set_upt by (rule set_eqI) (simp add: Suc_le_eq conj_commute)
    ultimately show ?thesis using set_eq_iff_mset_eq_distinct by blast
  qed
  then have "mset (fields_at s ps) = mset (map (\<lambda>p. attached s ! (p - 1)) [1..<?n])"
    by (simp only: fields_at_def mset_map)
  also have "map (\<lambda>p. attached s ! (p - 1)) [1..<?n] = attached s"
  proof -
    have "[1..<?n] = map Suc [0..<length (attached s)]" unfolding n by (simp add: map_Suc_upt)
    then show ?thesis by (simp add: comp_def map_nth)
  qed
  finally show ?thesis .
qed

text \<open>
  C7. The searches by a walk find what the table of the interesting fields holds: \<open>proto_find_finfo\<close>
  returns every field of the identifier exactly once, \<open>proto_find_first_finfo\<close> the first of them and
  \<open>proto_all_finfos\<close> all fields, and when the fields of the identifier are directly referenced the table
  has the same fields.
\<close>

theorem proto_find_finfo_correct:
  assumes "proto_ok s kids"
  shows "\<exists>l. proto_find_finfo s 0 hfid = Inr l \<and> proto_find_first_finfo s 0 hfid = Inr (take 1 l) \<and>
     mset l = filter_mset (\<lambda>fi. hf_id (hfinfo_of s fi) = hfid) (mset (attached s)) \<and>
     (\<exists>a. proto_all_finfos s 0 = Inr a \<and> mset a = mset (attached s)) \<and>
     ((\<forall>fi \<in> set (attached s). hf_id (hfinfo_of s fi) = hfid \<longrightarrow> hf_ref_type (hfinfo_of s fi) = HF_REF_TYPE_DIRECT) \<longrightarrow>
        mset l = mset (case finfo_ptr_array s hfid of None \<Rightarrow> [] | Some ps \<Rightarrow> ps))"
proof -
  note tree = proto_okD(1) [OF assms] 
  let ?ps = "preorder kids (length (nodes s)) 0"
  let ?found = "filter (\<lambda>fi. hf_id (hfinfo_of s fi) = hfid) (fields_at s ?ps)"
  note walk = walk_visits [OF tree tree_okD(1) [OF tree]] and root = set_preorder_root [OF tree]
  have ps: "\<forall>p \<in> set ?ps. p < length (nodes s)" using root by blast
  note visits = visit_find [OF assms ps] visit_every [OF assms ps] visit_find_first [OF assms ps]
  have "proto_find_finfo s 0 hfid = Inr ?found" "proto_find_first_finfo s 0 hfid = Inr (take 1 ?found)"
      "proto_all_finfos s 0 = Inr (fields_at s ?ps)"
    by (simp_all add: proto_find_finfo_def proto_find_first_finfo_def proto_all_finfos_def Let_def walk visits)
  moreover have all: "mset (fields_at s ?ps) = mset (attached s)" using fields_at_all [OF assms distinct_preorder root] tree tree_okD(1) by blast
  moreover from this have found: "mset ?found = filter_mset (\<lambda>fi. hf_id (hfinfo_of s fi) = hfid) (mset (attached s))"
    by simp
  moreover have "mset ?found = mset (case finfo_ptr_array s hfid of None \<Rightarrow> [] | Some ps \<Rightarrow> ps)"
    if d: "\<forall>fi \<in> set (attached s). hf_id (hfinfo_of s fi) = hfid \<longrightarrow> hf_ref_type (hfinfo_of s fi) = HF_REF_TYPE_DIRECT"
  proof -
    have "wanted s hfid = filter (\<lambda>fi. hf_id (hfinfo_of s fi) = hfid) (attached s)"
      unfolding wanted_def using d by (intro filter_cong) auto
    moreover have "(case finfo_ptr_array s hfid of None \<Rightarrow> [] | Some ps \<Rightarrow> ps) = wanted s hfid"
      using proto_okD(7) [OF assms, of hfid] by simp
    ultimately show ?thesis using found by simp
  qed
  ultimately show ?thesis by blast
qed

theorem proto_find_finfo_correct_witness:
  "\<exists>l. proto_find_finfo (noted (hfinfo_of sample_fresh 0) 0 (sample_fresh\<lparr>nodes := with_child (nodes sample_fresh) 0 0\<rparr>)) 0 2 =
         Inr l \<and> l = [0]"
proof -
  let ?s = "noted (hfinfo_of sample_fresh 0) 0 (sample_fresh\<lparr>nodes := with_child (nodes sample_fresh) 0 0\<rparr>)"
  have ok: "proto_ok ?s ((\<lambda>_. [])(0 := [1]))"
    using with_child_state_ok [OF sample_fresh_ok(1), of 0 0] sample_fresh_ok(2-5) by (simp add: MAX_TREE_LEVELS_def)
  have att: "attached ?s = [0]" using attached_with_child [OF sample_fresh_ok(1), of 0 0] sample_fresh_ok(2,4) by simp
  have id: "hf_id (hfinfo_of ?s 0) = 2"
    by (simp add: hfinfo_of_def sample_fresh_def proto_tree_create_root_def sample_registrar_def registrar_init_def deref_def Let_def)
  obtain l where "proto_find_finfo ?s 0 2 = Inr l" "mset l = filter_mset (\<lambda>fi. hf_id (hfinfo_of ?s fi) = 2) (mset (attached ?s))"
    using proto_find_finfo_correct [OF ok, of 2] by blast
  then show ?thesis using att id by simp
qed

end
