(* ===== verification/ProtoTreeMove.thy ===== *)
theory ProtoTreeMove
  imports ProtoTreeWalk
begin

text \<open>
  Moving an item behind one of its siblings: the links change so that the children of the tree come in
  the new order, and nothing else does.
\<close>

section \<open>Reordering the children of a node\<close>

lemma tree_ok_reorder:
  assumes ok: "tree_ok ns kids" and t: "t < length ns"
    and len: "length ns' = length ns" and par: "\<And>p. p < length ns \<Longrightarrow> parent_node (ns' ! p) = parent_node (ns ! p)"
    and rest: "\<And>p. p < length ns \<Longrightarrow> p \<noteq> t \<Longrightarrow>
       first_child (ns' ! p) = first_child (ns ! p) \<and> last_child (ns' ! p) = last_child (ns ! p)"
    and nxt: "\<And>p. p < length ns \<Longrightarrow> p \<notin> set (kids t) \<Longrightarrow> next_node (ns' ! p) = next_node (ns ! p)"
    and new: "set ks = set (kids t)" "distinct ks" "chain ns' (first_child (ns' ! t)) ks None"
      "last_child (ns' ! t) = last_or_none ks"
  shows "tree_ok ns' (kids(t := ks))"
  unfolding tree_ok_def
proof (intro conjI allI impI)
  show "0 < length ns'" "parent_node (ns' ! 0) = None" using tree_okD(1,2) [OF ok] len par by simp_all
next
  fix p assume "p < length ns'"
  then have p: "p < length ns" using len by simp
  show "chain ns' (first_child (ns' ! p)) ((kids(t := ks)) p) None"
  proof (cases "p = t")
    case False
    have "next_node (ns' ! k) = next_node (ns ! k)" if "k \<in> set (kids p)" for k
      using nxt kid_after(2) [OF ok that] kids_disjoint [OF ok that] False by blast
    then have "chain ns' (first_child (ns ! p)) (kids p) None = chain ns (first_child (ns ! p)) (kids p) None"
      by (rule chain_frame)
    then show ?thesis using tree_okD(3) [OF ok p] rest [OF p False] False by simp
  qed (use new(3) in simp)
  show "last_child (ns' ! p) = last_or_none ((kids(t := ks)) p)" "distinct ((kids(t := ks)) p)"
    using new(2,4) tree_okD(4,5) [OF ok p] rest [OF p] by (cases "p = t"; simp)+
next
  fix p c
  show "c \<in> set ((kids(t := ks)) p) \<longleftrightarrow> p < length ns' \<and> c < length ns' \<and> parent_node (ns' ! c) = Some p"
    using tree_okD(6) [OF ok, of c p] par [of c] len new(1) by (cases "p = t") auto
next
  fix c assume "0 < c" "c < length ns'"
  then show "\<exists>p < c. parent_node (ns' ! c) = Some p" using tree_okD(7) [OF ok, of c] par len by auto
qed

lemma depth_cong:
  assumes "\<And>p. p \<le> c \<Longrightarrow> parent_node (ns' ! p) = parent_node (ns ! p)"
  shows "depth ns' c = depth ns c"
  using assms
proof (induction c rule: less_induct)
  case (less c)
  then show ?case by (subst (1 2) depth.simps) (auto split: option.split)
qed

text \<open>The rest of the invariant does not look at the links.\<close>

lemma proto_ok_relinked:
  assumes ok: "proto_ok s kids" and tree: "tree_ok ns' kids'" and len: "length ns' = length (nodes s)"
    and same: "\<And>p. p < length (nodes s) \<Longrightarrow>
       parent_node (ns' ! p) = parent_node (nodes s ! p) \<and> node_finfo (ns' ! p) = node_finfo (nodes s ! p)"
  shows "proto_ok (s\<lparr>nodes := ns'\<rparr>) kids'" "attached (s\<lparr>nodes := ns'\<rparr>) = attached s"
proof -
  have pos: "0 < length (nodes s)" by (rule tree_okD(1) [OF proto_okD(1) [OF ok]])
  show att: "attached (s\<lparr>nodes := ns'\<rparr>) = attached s"
    unfolding attached_def by (rule nth_equalityI) (use len same in \<open>simp_all add: nth_tl\<close>)
  have hf: "hfinfo_of (s\<lparr>nodes := ns'\<rparr>) = hfinfo_of s" by (simp add: hfinfo_of_def fun_eq_iff)
  have "wanted (s\<lparr>nodes := ns'\<rparr>) hfid = wanted s hfid" for hfid by (simp add: wanted_def att hf)
  then have "table_ok (s\<lparr>nodes := ns'\<rparr>)" using proto_okD(7) [OF ok] by (simp add: table_ok_def finfo_ptr_array_def)
  moreover have "infos_ok (s\<lparr>nodes := ns'\<rparr>)"
    using ok same pos len att unfolding proto_ok_def infos_ok_def by simp
  moreover have "depth ns' c < MAX_TREE_LEVELS" if "c < length ns'" for c
    using proto_okD(2) [OF ok, of c] depth_cong [of c ns' "nodes s"] same that len by simp
  ultimately show "proto_ok (s\<lparr>nodes := ns'\<rparr>) kids'" using tree by (simp add: proto_ok_def)
qed

section \<open>Cutting and inserting\<close>

definition first_or_none :: "nat list \<Rightarrow> nat option" where
  "first_or_none ks = (case ks of [] \<Rightarrow> None | k # _ \<Rightarrow> Some k)"

lemma chain_start: "chain ns p ks None \<Longrightarrow> p = first_or_none ks"
  by (cases ks) (simp_all add: first_or_none_def)

lemma find_previous_run:
  assumes "chain (nodes s) p (xs @ item # ys) None" "xs \<noteq> []" "distinct (xs @ item # ys)"
    and "\<forall>k \<in> set xs. k < length (nodes s)"
  shows "find_previous s p item = Some (Inr (Some (last xs)))"
  using assms
proof (induction xs arbitrary: p)
  case (Cons x xs)
  have p: "p = Some x" "x < length (nodes s)" "chain (nodes s) (next_node (nodes s ! x)) (xs @ item # ys) None"
    using Cons.prems by simp_all
  show ?case
  proof (cases xs)
    case Nil
    then show ?thesis using p by (subst find_previous.simps) (simp add: get_node_def)
  next
    case (Cons x' xs')
    have "next_node (nodes s ! x) = Some x'" using p(3) Cons by simp
    moreover have "x' \<noteq> item" using Cons.prems(3) Cons by simp
    moreover have "find_previous s (Some x') item = Some (Inr (Some (last xs)))"
      using Cons.IH [OF p(3)] Cons.prems Cons calculation(1) by simp
    ultimately show ?thesis using p Cons by (subst find_previous.simps) (simp add: get_node_def)
  qed
qed simp

lemma split_chain:
  assumes "chain ns p (xs @ k # ys) None"
  shows "chain ns p xs (Some k)" "next_node (ns ! k) = first_or_none ys" "chain ns (first_or_none ys) ys None"
    "xs \<noteq> [] \<Longrightarrow> next_node (ns ! last xs) = Some k" "xs = [] \<Longrightarrow> p = Some k"
proof -
  obtain r where r: "chain ns p xs r" "chain ns r (k # ys) None" using assms unfolding chain_append by blast
  then have rk: "r = Some k" "chain ns (next_node (ns ! k)) ys None" by simp_all
  show "chain ns p xs (Some k)" using r rk by simp
  show nx: "next_node (ns ! k) = first_or_none ys" by (rule chain_start [OF rk(2)])
  show "chain ns (first_or_none ys) ys None" using rk(2) nx by simp
  show "next_node (ns ! last xs) = Some k" if "xs \<noteq> []" using chain_last [OF r(1) that] rk by simp
  show "p = Some k" if "xs = []" using r(1) rk that by simp
qed

lemma chain_join:
  "chain ns p xs (Some k) \<Longrightarrow> chain ns (next_node (ns ! k)) ys q \<Longrightarrow> chain ns p (xs @ k # ys) q"
  unfolding chain_append by auto

text \<open>What cutting leaves of the nodes.\<close>

definition cut_node :: "proto_node list \<Rightarrow> nat \<Rightarrow> nat list \<Rightarrow> nat list \<Rightarrow> nat \<Rightarrow> proto_node" where
  "cut_node ns t xs ys p =
     (ns ! p)\<lparr>first_child := (if p = t \<and> xs = [] then first_or_none ys else first_child (ns ! p)),
             last_child := (if p = t \<and> ys = [] then last_or_none xs else last_child (ns ! p)),
             next_node := (if xs \<noteq> [] \<and> p = last xs then first_or_none ys else next_node (ns ! p))\<rparr>"

lemma cut_run:
  assumes ok: "tree_ok (nodes s) kids" and t: "t < length (nodes s)"
    and k: "kids t = xs @ item # ys" "xs @ ys \<noteq> []"
  shows "\<exists>ns1. cut_item t item s = (Inr (), s\<lparr>nodes := ns1\<rparr>) \<and> length ns1 = length (nodes s) \<and>
     (\<forall>p < length (nodes s). ns1 ! p = cut_node (nodes s) t xs ys p)"
proof -
  let ?ns = "nodes s"
  have ch: "chain ?ns (first_child (?ns ! t)) (xs @ item # ys) None" using tree_okD(3) [OF ok t] k(1) by simp
  note sp = split_chain [OF ch]
  have d: "distinct (xs @ item # ys)" using tree_okD(5) [OF ok t] k(1) by simp
  have l: "last_child (?ns ! t) = Some (last (item # ys))" using tree_okD(4) [OF ok t] k(1) by (simp add: last_or_none_def)
  have below: "t < c \<and> c < length ?ns" if "c \<in> set (kids t)" for c using kid_after [OF ok that] by simp
  have item: "t < item" "item < length ?ns" using below [of item] k(1) by simp_all
  have nodes: "get_node s t = Inr (?ns ! t)" "get_node s item = Inr (?ns ! item)"
    using t item by (simp_all add: get_node_def)
  show ?thesis
  proof (cases "xs = []")
    case True
    then have ys: "ys \<noteq> []" "last ys \<noteq> item" using k(2) d by auto
    let ?nb = "?ns[t := (?ns ! t)\<lparr>first_child := first_or_none ys\<rparr>]"
    have "cut_item t item s = (Inr (), s\<lparr>nodes := ?nb\<rparr>)"
      using nodes sp(2,5) True l ys by (simp add: cut_item_def bindS_def put_node_def)
    moreover have "\<forall>p < length ?ns. ?nb ! p = cut_node ?ns t xs ys p"
      using True ys t by (auto simp: cut_node_def nth_list_update)
    ultimately show ?thesis by (intro exI [of _ ?nb]) simp
  next
    case False
    let ?c = "last xs"
    have c: "t < ?c" "?c < length ?ns" "?c \<noteq> item" "?c \<noteq> t" using below [of ?c] k(1) False d by auto
    have first: "first_child (?ns ! t) \<noteq> Some item"
      using ch False d by (cases xs) auto
    have find: "find_previous s (first_child (?ns ! t)) item = Some (Inr (Some ?c))"
      using find_previous_run [OF ch False d] below k(1) by auto
    let ?na = "?ns[?c := (?ns ! ?c)\<lparr>next_node := first_or_none ys\<rparr>]"
    let ?nb = "if ys = [] then ?na[t := (?na ! t)\<lparr>last_child := Some ?c\<rparr>] else ?na"
    have ly: "(last_child (?ns ! t) = Some item) = (ys = [])" using l d last_in_set [of ys] by (cases "ys = []") auto
    have tn: "?na ! t = ?ns ! t" using c(4) by simp
    have "cut_item t item s = (Inr (), s\<lparr>nodes := ?nb\<rparr>)"
      using nodes sp(2) first find ly tn c t
      by (simp add: cut_item_def bindS_def put_node_def returned_def get_node_def)
    moreover have "\<forall>p < length ?ns. ?nb ! p = cut_node ?ns t xs ys p"
      using False c t by (auto simp: cut_node_def nth_list_update last_or_none_def)
    ultimately show ?thesis by (intro exI [of _ ?nb]) simp
  qed
qed

lemma insert_run:
  assumes n: "t < length (nodes s)" "fixed < length (nodes s)" "item < length (nodes s)" "fixed \<noteq> item" "t \<noteq> item" "t \<noteq> fixed"
  shows "\<exists>ns2. insert_after t fixed item s = (Inr (), s\<lparr>nodes := ns2\<rparr>) \<and> length ns2 = length (nodes s) \<and>
     (\<forall>p < length (nodes s). ns2 ! p = (nodes s ! p)
        \<lparr>last_child := (if p = t \<and> last_child (nodes s ! t) = Some fixed then Some item else last_child (nodes s ! p)),
         next_node := (if p = item then next_node (nodes s ! fixed)
                       else if p = fixed then Some item else next_node (nodes s ! p))\<rparr>)"
proof -
  let ?ns = "nodes s"
  let ?na = "?ns[item := (?ns ! item)\<lparr>next_node := next_node (?ns ! fixed)\<rparr>]"
  let ?nb = "?na[fixed := (?na ! fixed)\<lparr>next_node := Some item\<rparr>]"
  let ?nc = "if last_child (?ns ! t) = Some fixed then ?nb[t := (?nb ! t)\<lparr>last_child := Some item\<rparr>] else ?nb"
  have "insert_after t fixed item s = (Inr (), s\<lparr>nodes := ?nc\<rparr>)"
    using n
    by (cases "last_child (?ns ! t) = Some fixed")
      (simp_all add: insert_after_def bindS_def put_node_def get_node_def nth_list_update)
  moreover have "\<forall>p < length ?ns. ?nc ! p = (?ns ! p)
        \<lparr>last_child := (if p = t \<and> last_child (?ns ! t) = Some fixed then Some item else last_child (?ns ! p)),
         next_node := (if p = item then next_node (?ns ! fixed)
                       else if p = fixed then Some item else next_node (?ns ! p))\<rparr>"
    using n by (auto simp: nth_list_update)
  ultimately show ?thesis by (intro exI [of _ ?nc]) simp
qed

section \<open>The contract\<close>

definition moved_behind :: "nat \<Rightarrow> nat \<Rightarrow> nat list \<Rightarrow> nat list" where
  "moved_behind fixed item ks =
     (let rest = remove1 item ks
      in takeWhile (\<lambda>k. k \<noteq> fixed) rest @ fixed # item # tl (dropWhile (\<lambda>k. k \<noteq> fixed) rest))"

lemma moved_behind_split:
  assumes "distinct (xs @ item # ys)" "xs @ ys = us @ fixed # vs"
  shows "moved_behind fixed item (xs @ item # ys) = us @ fixed # item # vs"
proof -
  have "distinct (xs @ ys)" "item \<notin> set xs" using assms(1) by auto
  then have "\<forall>u \<in> set us. u \<noteq> fixed" "remove1 item (xs @ item # ys) = us @ fixed # vs"
    using assms(2) by (auto simp: remove1_append)
  then show ?thesis
    by (simp add: moved_behind_def takeWhile_append2 dropWhile_append2)
qed

lemma cut_chain:
  assumes ok: "tree_ok ns kids" and t: "t < length ns" and k: "kids t = xs @ item # ys"
    and cut: "\<forall>p < length ns. na ! p = cut_node ns t xs ys p"
  shows "chain na (first_child (na ! t)) (xs @ ys) None" "xs @ ys \<noteq> [] \<Longrightarrow> last_child (na ! t) = Some (last (xs @ ys))"
proof -
  have d: "distinct (xs @ item # ys)" using tree_okD(5) [OF ok t] k by simp
  note sp = split_chain [OF tree_okD(3) [OF ok t, unfolded k]]
  have below: "p \<noteq> t \<and> p < length ns" if "p \<in> set (xs @ ys)" for p using kid_after [OF ok, of p t] that k by auto
  have "set xs \<inter> set ys = {}" using d by auto
  then have "xs \<noteq> [] \<Longrightarrow> last xs \<notin> set ys" using last_in_set [of xs] by blast
  then have right: "chain na (first_or_none ys) ys None = chain ns (first_or_none ys) ys None"
    by (intro chain_frame) (use cut below in \<open>auto simp: cut_node_def\<close>)
  show "chain na (first_child (na ! t)) (xs @ ys) None"
  proof (cases "xs = []")
    case True
    then show ?thesis using right sp(3) cut t by (simp add: cut_node_def)
  next
    case False
    then have e: "xs = butlast xs @ [last xs]" by simp
    have dx: "distinct (butlast xs @ [last xs])" using d False by simp
    have "next_node (na ! p) = next_node (ns ! p)" if p: "p \<in> set (butlast xs)" for p
    proof -
      have "p \<noteq> last xs" "p < length ns" using dx p below [of p] in_set_butlastD [OF p] by auto
      then show ?thesis using cut by (simp add: cut_node_def)
    qed
    then have "chain na (first_child (ns ! t)) (butlast xs) (Some (last xs)) =
        chain ns (first_child (ns ! t)) (butlast xs) (Some (last xs))"
      by (rule chain_frame)
    moreover have "chain ns (first_child (ns ! t)) (butlast xs) (Some (last xs))"
      using sp(1) chain_append [of ns "first_child (ns ! t)" "butlast xs" "[last xs]"] e by auto
    moreover have "next_node (na ! last xs) = first_or_none ys" "first_child (na ! t) = first_child (ns ! t)"
      using cut below [of "last xs"] t False by (simp_all add: cut_node_def)
    ultimately have "chain na (first_child (na ! t)) (butlast xs @ last xs # ys) None"
      using right sp(3) chain_join by simp
    then show ?thesis using e by (metis append.assoc append_Cons append_Nil)
  qed
  show "last_child (na ! t) = Some (last (xs @ ys))" if "xs @ ys \<noteq> []"
    using that cut t tree_okD(4) [OF ok t] k by (auto simp: cut_node_def last_or_none_def)
qed

lemma insert_chain:
  assumes ch: "chain na p (us @ fixed # vs) None" and n: "\<forall>k \<in> set (us @ fixed # vs). k < length na" "item < length na"
    and d: "distinct (us @ fixed # vs)" "item \<notin> set (us @ fixed # vs)"
    and nb: "\<forall>p < length na. next_node (nb ! p) =
       (if p = item then first_or_none vs else if p = fixed then Some item else next_node (na ! p))"
  shows "chain nb p (us @ fixed # item # vs) None"
proof -
  note sq = split_chain [OF ch]
  have "chain nb p us (Some fixed) = chain na p us (Some fixed)"
    by (rule chain_frame) (use nb n d in auto)
  moreover have "chain nb (first_or_none vs) vs None = chain na (first_or_none vs) vs None"
    by (rule chain_frame) (use nb n d in auto)
  moreover have "next_node (nb ! fixed) = Some item" "next_node (nb ! item) = first_or_none vs"
    using nb n d by simp_all
  ultimately show ?thesis using sq(1,3) unfolding chain_append by auto
qed

lemma move_run:
  assumes ok: "proto_ok s kids" and v: "visible s"
    and k: "item \<in> set (kids t)" "fixed \<in> set (kids t)" "fixed \<noteq> item"
  shows "\<exists>s'. proto_tree_move_item (Some t) fixed item s = (Inr (), s') \<and>
     proto_ok s' (kids(t := moved_behind fixed item (kids t))) \<and> attached s' = attached s \<and>
     s' = s\<lparr>nodes := nodes s'\<rparr>"
proof -
  let ?ns = "nodes s"
  note tree = proto_okD(1) [OF ok]
  have t: "t < length ?ns" and tl: "t < item" "t < fixed" "item < length ?ns" "fixed < length ?ns"
    using kid_after [OF tree k(1)] kid_after [OF tree k(2)] by simp_all
  have par: "parent_node (?ns ! item) = Some t" "parent_node (?ns ! fixed) = Some t"
    using k(1,2) tree_okD(6) [OF tree] by blast+
  obtain xs ys where xy: "kids t = xs @ item # ys" using k(1) by (meson split_list)
  have "fixed \<in> set (xs @ ys)" using k(2,3) xy by auto
  then obtain us vs where uv: "xs @ ys = us @ fixed # vs" by (meson split_list)
  have d: "distinct (xs @ item # ys)" using tree_okD(5) [OF tree t] xy by simp
  then have d2: "distinct (us @ fixed # vs)" "item \<notin> set (us @ fixed # vs)" unfolding uv [symmetric] by auto
  obtain na where na: "cut_item t item s = (Inr (), s\<lparr>nodes := na\<rparr>)" "length na = length ?ns"
      "\<forall>p < length ?ns. na ! p = cut_node ?ns t xs ys p"
    using cut_run [OF tree t xy] uv by auto
  have cut: "chain na (first_child (na ! t)) (us @ fixed # vs) None" "last_child (na ! t) = Some (last (fixed # vs))"
    using cut_chain [OF tree t xy na(3)] unfolding uv by simp_all
  have lf: "(last_child (na ! t) = Some fixed) = (vs = [])"
    using cut(2) d2(1) last_in_set [of vs] by (cases "vs = []") auto
  obtain nb where nb: "insert_after t fixed item (s\<lparr>nodes := na\<rparr>) = (Inr (), s\<lparr>nodes := nb\<rparr>)" "length nb = length ?ns"
      "\<forall>p < length ?ns. nb ! p = (na ! p)
        \<lparr>last_child := (if p = t \<and> vs = [] then Some item else last_child (na ! p)),
         next_node := (if p = item then first_or_none vs else if p = fixed then Some item else next_node (na ! p))\<rparr>"
    using insert_run [of t "s\<lparr>nodes := na\<rparr>" fixed item] t tl k(3) na(2) lf split_chain(2) [OF cut(1)] by auto
  let ?ks = "us @ fixed # item # vs"
  have run: "proto_tree_move_item (Some t) fixed item s = (Inr (), s\<lparr>nodes := nb\<rparr>)"
    using v tl par na(1) nb(1) by (simp add: proto_tree_move_item_def bindS_def get_node_def)
  have set: "set ?ks = set (kids t)" using arg_cong [OF uv, of set] unfolding xy by auto
  have "\<forall>k \<in> set (us @ fixed # vs). k < length na" using kid_after(2) [OF tree] set na(2) by auto
  then have chain: "chain nb (first_child (nb ! t)) ?ks None"
    using insert_chain [OF cut(1) _ _ d2, of nb] nb(3) tl t na(2) by simp
  have other: "parent_node (nb ! p) = parent_node (?ns ! p) \<and> node_finfo (nb ! p) = node_finfo (?ns ! p) \<and>
      (p \<noteq> t \<longrightarrow> first_child (nb ! p) = first_child (?ns ! p) \<and> last_child (nb ! p) = last_child (?ns ! p)) \<and>
      (p \<notin> set (kids t) \<longrightarrow> next_node (nb ! p) = next_node (?ns ! p))" if p: "p < length ?ns" for p
  proof -
    have "p \<notin> set (kids t) \<Longrightarrow> p \<noteq> item \<and> p \<noteq> fixed \<and> (xs \<noteq> [] \<longrightarrow> p \<noteq> last xs)" using k xy by auto
    then show ?thesis using nb(3) na(3) p by (auto simp: cut_node_def)
  qed
  have last: "last_child (nb ! t) = last_or_none ?ks"
    using nb(3) t cut(2) by (simp add: last_or_none_def)
  have dk: "distinct ?ks" using d2 by auto
  have "tree_ok nb (kids(t := ?ks))"
    by (rule tree_ok_reorder [OF tree t nb(2) _ _ _ set dk chain last]) (use other in auto)
  then have "proto_ok (s\<lparr>nodes := nb\<rparr>) (kids(t := ?ks))" "attached (s\<lparr>nodes := nb\<rparr>) = attached s"
    using proto_ok_relinked [OF ok _ nb(2)] other by auto
  moreover have "moved_behind fixed item (kids t) = ?ks" using moved_behind_split [OF d uv] xy by simp
  ultimately show ?thesis using run by auto
qed

text \<open>
  C28. Moving an item behind a different sibling takes it out of the children of the tree and puts it
  right behind that sibling; the other children keep their order, and everything but the links stays.
  On a tree that is not visible the call does nothing.
\<close>

theorem proto_tree_move_item_correct:
  assumes "proto_ok s kids" "item \<in> set (kids t)" "fixed \<in> set (kids t)" "fixed \<noteq> item"
  shows "if visible s
     then \<exists>s'. proto_tree_move_item (Some t) fixed item s = (Inr (), s') \<and>
            proto_ok s' (kids(t := moved_behind fixed item (kids t))) \<and> attached s' = attached s \<and>
            s' = s\<lparr>nodes := nodes s'\<rparr>
     else proto_tree_move_item (Some t) fixed item s = (Inr (), s)"
  using move_run [OF assms(1) _ assms(2-4)] by (auto simp: proto_tree_move_item_def bindS_def)

text \<open>A visible tree with two items, the fields 2 and 1 of the sample registrar.\<close>

definition sample_two :: "(unit, unit) proto_state" where
  "sample_two =
     (let info = (\<lambda>p v. \<lparr>fi_hfinfo = p, fi_start = 0, fi_length = 0, fi_tree_type = -1, fi_flags = 0,
                         fi_value = UINTEGER 4 v\<rparr>)
      in sample_fresh\<lparr>visible := True, nodes := sample_nodes, finfos := [info 2 5, info 1 7]\<rparr>)"

lemma sample_nodes_eq:
  "sample_nodes =
     [root_node\<lparr>first_child := Some 1, last_child := Some 2\<rparr>, (leaf 0 0)\<lparr>next_node := Some 2\<rparr>, leaf 0 1]"
  by (simp add: sample_nodes_def with_child_def leaf_def Let_def)

lemma sample_two_ok: "proto_ok sample_two ((\<lambda>_. [])(0 := [1, 2]))"
proof -
  have n: "nodes sample_two = sample_nodes" "length (finfos sample_two) = 2"
      "registrar sample_two = sample_registrar" "interesting_hfids sample_two = None"
    by (simp_all add: sample_two_def Let_def sample_fresh_def proto_tree_create_root_def)
  have c: "c = 0 \<or> c = 1 \<or> c = 2" if "c < length sample_nodes" for c using that sample_nodes_ok(2) by auto
  have "depth sample_nodes c < MAX_TREE_LEVELS" if "c < length sample_nodes" for c
    using c [OF that] by (auto simp: depth.simps sample_nodes_eq leaf_def MAX_TREE_LEVELS_def)
  moreover have "\<exists>fi < 2. node_finfo (sample_nodes ! c) = Some fi" if "0 < c" "c < length sample_nodes" for c
    using c [OF that(2)] that(1) by (auto simp: sample_nodes_eq leaf_def)
  moreover have "\<exists>h. deref sample_registrar (fi_hfinfo (finfos sample_two ! fi)) = Inr h" if "fi < 2" for fi
    using that by (auto simp: less_2_cases_iff sample_two_def Let_def sample_registrar_def registrar_init_def deref_def)
  moreover have att: "attached sample_two = [0, 1]" by (simp add: attached_def n sample_nodes_eq leaf_def)
  moreover have "wanted sample_two hfid = []" for hfid
    by (simp add: wanted_def att hfinfo_of_def n) (simp add: sample_two_def Let_def sample_registrar_def registrar_init_def deref_def sample_field_def)
  moreover have "node_finfo (sample_nodes ! 0) = None" by (simp add: sample_nodes_eq)
  ultimately show ?thesis
    using sample_nodes_ok(1) by (simp add: proto_ok_def infos_ok_def table_ok_def n finfo_ptr_array_def)
qed

theorem proto_tree_move_item_correct_witness:
  "\<exists>s'. proto_tree_move_item (Some 0) 2 1 sample_two = (Inr (), s') \<and> proto_ok s' ((\<lambda>_. [])(0 := [2, 1]))"
proof -
  have "moved_behind 2 1 [1, 2] = [2, 1]" by (simp add: moved_behind_def)
  then show ?thesis
    using proto_tree_move_item_correct [OF sample_two_ok, of 1 0 2] by (auto simp: sample_two_def Let_def)
qed

text \<open>
  The assertions let an item through that is to be moved behind itself: it drops out of the tree, and
  the walks no longer find its field.
\<close>

lemma move_behind_itself_loses_item:
  "fst (proto_tree_move_item (Some 0) 1 1 sample_two) = Inr ()"
  "proto_all_finfos sample_two 0 = Inr [0, 1]"
  "proto_all_finfos (snd (proto_tree_move_item (Some 0) 1 1 sample_two)) 0 = Inr [1]"
  by code_simp+

end
