(* ===== verification/DfilterSpec.thy ===== *)
theory DfilterSpec
  imports Dfvm RegistrarProps
begin

text \<open>
  What a display filter means, independently of the code it is compiled to, and an abstract machine
  for that code: registers are a function on the integers, and a run is a sequence of steps of an
  inductive relation.
\<close>

section \<open>The meaning of a filter\<close>

text \<open>
  The environment of a run: the values and the presence of each field in the tree, under the field's
  name, and the operations on values.
\<close>

record 'v env =
  env_values :: "nat \<Rightarrow> 'v list"
  env_exists :: "nat \<Rightarrow> bool"
  env_ops :: "'v ftype_ops"

fun nth_list :: "'v list list \<Rightarrow> nat \<Rightarrow> 'v list" where
  "nth_list ls i = (if i < length ls then ls ! i else [])"

text \<open>The values of an entity, or \<open>None\<close> if a field in it is absent or a function in it fails.\<close>

fun eval_entity :: "'v env \<Rightarrow> 'v stnode \<Rightarrow> 'v list option res"
and eval_params :: "'v env \<Rightarrow> 'v stnode list \<Rightarrow> 'v list list option res" where
  "eval_entity E (STTYPE_FIELD h) = Inr (if env_values E h = [] then None else Some (env_values E h))"
| "eval_entity E (STTYPE_FVALUE v) = Inr (Some [v])"
| "eval_entity E (STTYPE_RANGE e d) =
     bindE (eval_entity E e) (\<lambda>r.
       case r of
         None \<Rightarrow> Inr None
       | Some l \<Rightarrow> bindE (slice_list (env_ops E) d l) (\<lambda>l'. Inr (Some l')))"
| "eval_entity E (STTYPE_FUNCTION f ps) =
     bindE (eval_params E ps) (\<lambda>r.
       case r of
         None \<Rightarrow> Inr None
       | Some ls \<Rightarrow>
           bindE (df_function f (nth_list ls 0) (nth_list ls 1) []) (\<lambda>(ok, l).
             Inr (if ok then Some l else None)))"
| "eval_entity E (STTYPE_SET elems) = Inl Fault"
| "eval_entity E (STTYPE_STRING s) = Inl Fault"
| "eval_entity E (STTYPE_CHARCONST s) = Inl Fault"
| "eval_entity E (STTYPE_UNPARSED s) = Inl Fault"
| "eval_entity E (STTYPE_TEST op a b) = Inl Fault"
| "eval_params E [] = Inr (Some [])"
| "eval_params E (p # ps) =
     bindE (eval_entity E p) (\<lambda>r.
       case r of
         None \<Rightarrow> Inr None
       | Some l \<Rightarrow> bindE (eval_params E ps) (\<lambda>rs. Inr (map_option (\<lambda>ls. l # ls) rs)))"

text \<open>Whether a list of values matches an element of a set; absent elements do not match.\<close>

definition eval_member :: "'v env \<Rightarrow> 'v list \<Rightarrow> 'v stnode \<times> 'v stnode option \<Rightarrow> bool res" where
  "eval_member E x elem =
     (case elem of
        (n1, None) \<Rightarrow>
          bindE (eval_entity E n1) (\<lambda>r.
            case r of None \<Rightarrow> Inr False | Some l \<Rightarrow> any_test (op_cmp (env_ops E) ANY_EQ) x l)
      | (n1, Some n2) \<Rightarrow>
          bindE (eval_entity E n1) (\<lambda>r.
            case r of
              None \<Rightarrow> Inr False
            | Some low \<Rightarrow>
                bindE (eval_entity E n2) (\<lambda>r'.
                  case r' of
                    None \<Rightarrow> Inr False
                  | Some high \<Rightarrow> any_in_range (env_ops E) x low high)))"

fun eval_set :: "'v env \<Rightarrow> 'v list \<Rightarrow> ('v stnode \<times> 'v stnode option) list \<Rightarrow> bool res" where
  "eval_set E x [] = Inr False"
| "eval_set E x (elem # elems) =
     bindE (eval_member E x elem) (\<lambda>t. if t then Inr True else eval_set E x elems)"

definition eval_rel :: "'v env \<Rightarrow> any_op \<Rightarrow> 'v stnode \<Rightarrow> 'v stnode \<Rightarrow> bool res" where
  "eval_rel E op a b =
     bindE (eval_entity E a) (\<lambda>r.
       case r of
         None \<Rightarrow> Inr False
       | Some x \<Rightarrow>
           bindE (eval_entity E b) (\<lambda>r'.
             case r' of
               None \<Rightarrow> Inr False
             | Some y \<Rightarrow> any_test (op_cmp (env_ops E) op) x y))"

definition eval_in :: "'v env \<Rightarrow> 'v stnode \<Rightarrow> 'v stnode \<Rightarrow> bool res" where
  "eval_in E a b =
     (case b of
        STTYPE_SET elems \<Rightarrow>
          bindE (eval_entity E a) (\<lambda>r.
            case r of None \<Rightarrow> Inr False | Some x \<Rightarrow> eval_set E x elems)
      | _ \<Rightarrow> Inl Fault)"

fun eval_test :: "'v env \<Rightarrow> 'v stnode \<Rightarrow> bool res" where
  "eval_test E (STTYPE_TEST TEST_OP_EXISTS a b) =
     (case a of STTYPE_FIELD h \<Rightarrow> Inr (env_exists E h) | _ \<Rightarrow> Inl Fault)"
| "eval_test E (STTYPE_TEST TEST_OP_NOT a b) = bindE (eval_test E a) (\<lambda>x. Inr (\<not> x))"
| "eval_test E (STTYPE_TEST TEST_OP_AND a (Some b)) =
     bindE (eval_test E a) (\<lambda>x. if x then eval_test E b else Inr False)"
| "eval_test E (STTYPE_TEST TEST_OP_OR a (Some b)) =
     bindE (eval_test E a) (\<lambda>x. if x then Inr True else eval_test E b)"
| "eval_test E (STTYPE_TEST TEST_OP_IN a (Some b)) = eval_in E a b"
| "eval_test E (STTYPE_TEST op a (Some b)) =
     (case rel_op op of Some r \<Rightarrow> eval_rel E r a b | None \<Rightarrow> Inl Fault)"
| "eval_test E _ = Inl Fault"

section \<open>The environment of a protocol tree\<close>

text \<open>The fields with the name of \<open>p\<close>, in the order of their registration.\<close>

definition same_name_ids :: "'p registrar \<Rightarrow> nat \<Rightarrow> nat list" where
  "same_name_ids reg p =
     projr (bindE (rewind reg p) (\<lambda>p0.
       walk_same_name reg (\<lambda>h l. (False, l @ [nat (hf_id h)])) p0 []))"

definition tree_values :: "'v proto_tree \<Rightarrow> nat list \<Rightarrow> 'v list" where
  "tree_values tree ids =
     rev (concat (map (\<lambda>i. case tree (int i) of None \<Rightarrow> [] | Some l \<Rightarrow> l) ids))"

definition tree_env :: "'p registrar \<Rightarrow> 'v ftype_ops \<Rightarrow> 'v proto_tree \<Rightarrow> 'v env" where
  "tree_env reg ops tree =
     \<lparr>env_values = (\<lambda>p. tree_values tree (same_name_ids reg p)),
      env_exists = (\<lambda>p. tree_values tree (same_name_ids reg p) \<noteq> []),
      env_ops = ops\<rparr>"

section \<open>Filters that the parser and the semantic check let through\<close>

text \<open>
  Fields are registered, functions have at most two parameters, sets are not empty, and every node has
  the children that its operator needs.
\<close>

fun wf_entity :: "(nat \<Rightarrow> bool) \<Rightarrow> 'v stnode \<Rightarrow> bool" where
  "wf_entity known (STTYPE_FIELD h) = known h"
| "wf_entity known (STTYPE_FVALUE v) = True"
| "wf_entity known (STTYPE_RANGE e d) = wf_entity known e"
| "wf_entity known (STTYPE_FUNCTION f ps) = (length ps \<le> 2 \<and> (\<forall>p \<in> set ps. wf_entity known p))"
| "wf_entity known (STTYPE_SET elems) = False"
| "wf_entity known (STTYPE_STRING s) = False"
| "wf_entity known (STTYPE_CHARCONST s) = False"
| "wf_entity known (STTYPE_UNPARSED s) = False"
| "wf_entity known (STTYPE_TEST op a b) = False"

definition wf_set :: "(nat \<Rightarrow> bool) \<Rightarrow> ('v stnode \<times> 'v stnode option) list \<Rightarrow> bool" where
  "wf_set known elems =
     (\<forall>elem \<in> set elems. wf_entity known (fst elem) \<and> pred_option (wf_entity known) (snd elem))"

fun wf_test :: "(nat \<Rightarrow> bool) \<Rightarrow> 'v stnode \<Rightarrow> bool" where
  "wf_test known (STTYPE_TEST TEST_OP_EXISTS a b) = (case a of STTYPE_FIELD h \<Rightarrow> known h | _ \<Rightarrow> False)"
| "wf_test known (STTYPE_TEST TEST_OP_NOT a b) = wf_test known a"
| "wf_test known (STTYPE_TEST TEST_OP_AND a (Some b)) = (wf_test known a \<and> wf_test known b)"
| "wf_test known (STTYPE_TEST TEST_OP_OR a (Some b)) = (wf_test known a \<and> wf_test known b)"
| "wf_test known (STTYPE_TEST TEST_OP_IN a (Some b)) =
     (wf_entity known a \<and>
      (case b of STTYPE_SET elems \<Rightarrow> elems \<noteq> [] \<and> wf_set known elems | _ \<Rightarrow> False))"
| "wf_test known (STTYPE_TEST op a (Some b)) =
     (rel_op op \<noteq> None \<and> wf_entity known a \<and> wf_entity known b)"
| "wf_test known _ = False"

section \<open>The abstract machine\<close>

record 'v mstate =
  regs :: "int \<Rightarrow> 'v list"
  att :: "int \<Rightarrow> bool"

definition regs_opt :: "'v mstate \<Rightarrow> int option \<Rightarrow> 'v list" where
  "regs_opt s r = (case r of None \<Rightarrow> [] | Some r' \<Rightarrow> regs s r')"

type_synonym 'v config = "nat \<times> bool \<times> 'v mstate"

inductive step :: "'v env \<Rightarrow> 'v insn list \<Rightarrow> 'v config \<Rightarrow> 'v config \<Rightarrow> bool"
  for E :: "'v env" and P :: "'v insn list" where
  check_exists: "i < length P \<Longrightarrow> P ! i = CHECK_EXISTS h \<Longrightarrow>
    step E P (i, a, s) (i + 1, env_exists E h, s)"
| read_again: "i < length P \<Longrightarrow> P ! i = READ_TREE h r \<Longrightarrow> att s r \<Longrightarrow>
    step E P (i, a, s) (i + 1, regs s r \<noteq> [], s)"
| read_found: "i < length P \<Longrightarrow> P ! i = READ_TREE h r \<Longrightarrow> \<not> att s r \<Longrightarrow> env_values E h \<noteq> [] \<Longrightarrow>
    step E P (i, a, s)
      (i + 1, True, s\<lparr>regs := (regs s)(r := env_values E h), att := (att s)(r := True)\<rparr>)"
| read_absent: "i < length P \<Longrightarrow> P ! i = READ_TREE h r \<Longrightarrow> \<not> att s r \<Longrightarrow> env_values E h = [] \<Longrightarrow>
    step E P (i, a, s) (i + 1, False, s\<lparr>att := (att s)(r := True)\<rparr>)"
| range: "i < length P \<Longrightarrow> P ! i = MK_RANGE r1 r2 d \<Longrightarrow> slice_list (env_ops E) d (regs s r1) = Inr l \<Longrightarrow>
    step E P (i, a, s) (i + 1, a, s\<lparr>regs := (regs s)(r2 := l)\<rparr>)"
| call: "i < length P \<Longrightarrow> P ! i = CALL_FUNCTION f r r1 r2 \<Longrightarrow>
    df_function f (regs_opt s r1) (regs_opt s r2) (regs s r) = Inr (ok, l) \<Longrightarrow>
    step E P (i, a, s) (i + 1, ok, s\<lparr>regs := (regs s)(r := l)\<rparr>)"
| any: "i < length P \<Longrightarrow> P ! i = ANY op r1 r2 \<Longrightarrow>
    any_test (op_cmp (env_ops E) op) (regs s r1) (regs s r2) = Inr t \<Longrightarrow>
    step E P (i, a, s) (i + 1, t, s)"
| in_range: "i < length P \<Longrightarrow> P ! i = ANY_IN_RANGE r1 r2 r3 \<Longrightarrow>
    any_in_range (env_ops E) (regs s r1) (regs s r2) (regs s r3) = Inr t \<Longrightarrow>
    step E P (i, a, s) (i + 1, t, s)"
| negate: "i < length P \<Longrightarrow> P ! i = NOT_INSN \<Longrightarrow> step E P (i, a, s) (i + 1, \<not> a, s)"
| if_true: "i < length P \<Longrightarrow> P ! i = IF_TRUE_GOTO t \<Longrightarrow>
    step E P (i, a, s) (if a then t else i + 1, a, s)"
| if_false: "i < length P \<Longrightarrow> P ! i = IF_FALSE_GOTO t \<Longrightarrow>
    step E P (i, a, s) (if \<not> a then t else i + 1, a, s)"

abbreviation steps :: "'v env \<Rightarrow> 'v insn list \<Rightarrow> 'v config \<Rightarrow> 'v config \<Rightarrow> bool" where
  "steps E P \<equiv> (step E P)\<^sup>*\<^sup>*"

inductive_cases stepE:
  "step E P (i, a, s) c"

text \<open>The machine is deterministic.\<close>

lemma step_deterministic: "step E P c c1 \<Longrightarrow> step E P c c2 \<Longrightarrow> c1 = c2"
proof (induction rule: step.induct)
qed (erule step.cases; auto)+

end
