(* ===== verification/GencodeProps.thy ===== *)
theory GencodeProps
  imports DfilterSpec "HOL-Library.Sublist"
begin

text \<open>
  The generator produces code that computes the meaning of the syntax tree. The statements are about
  any program that contains the emitted code, so that they compose along the tree: \<open>agree\<close> says that
  a program contains it, up to the jumps that are still open, and \<open>seg_ok\<close> that all other jumps of
  the code are forward, stay in it or just behind it, and do not land behind a READ_TREE.
\<close>

section \<open>Code with open jumps\<close>

definition pend :: "nat option list \<Rightarrow> nat set" where
  "pend jmps = {j. Some j \<in> set jmps}"

lemma pend_simps [simp]:
  "pend [] = {}" "pend (None # js) = pend js" "pend (Some j # js) = insert j (pend js)"
  "pend (xs @ ys) = pend xs \<union> pend ys"
  by (auto simp: pend_def)

definition agree :: "'v insn list \<Rightarrow> nat \<Rightarrow> 'v insn list \<Rightarrow> nat set \<Rightarrow> bool" where
  "agree P n code J =
     (length code \<le> length P \<and> (\<forall>i. n \<le> i \<longrightarrow> i < length code \<longrightarrow> i \<notin> J \<longrightarrow> P ! i = code ! i))"

lemma agreeD: "agree P n code J \<Longrightarrow> n \<le> i \<Longrightarrow> i < length code \<Longrightarrow> i \<notin> J \<Longrightarrow> P ! i = code ! i \<and> i < length P"
  by (auto simp: agree_def)

lemma agree_left:
  assumes "agree P n code' J'" "prefix code code'" "\<forall>j \<in> J'. j \<in> J \<or> length code \<le> j"
  shows "agree P n code J"
proof -
  obtain zs where "code' = code @ zs" using assms(2) by (auto simp: prefix_def)
  then show ?thesis using assms(1,3) by (fastforce simp: agree_def nth_append)
qed

lemma agree_right: "agree P n code J' \<Longrightarrow> n \<le> m \<Longrightarrow> \<forall>j \<in> J'. j \<in> J \<or> j < m \<Longrightarrow> agree P m code J"
  by (fastforce simp: agree_def)

definition goto_target :: "'v insn \<Rightarrow> nat option" where
  "goto_target x = (case x of IF_TRUE_GOTO t \<Rightarrow> Some t | IF_FALSE_GOTO t \<Rightarrow> Some t | _ \<Rightarrow> None)"

definition is_read :: "'v insn \<Rightarrow> bool" where
  "is_read x = (case x of READ_TREE _ _ \<Rightarrow> True | _ \<Rightarrow> False)"

lemma insn_kind [simp]:
  "goto_target (IF_TRUE_GOTO t) = Some t" "goto_target (IF_FALSE_GOTO t) = Some t"
  "goto_target (READ_TREE h r) = None" "goto_target (ANY op r1 r2) = None"
  "goto_target (ANY_IN_RANGE r1 r2 r3) = None" "goto_target (MK_RANGE r1 r2 d) = None"
  "goto_target (CALL_FUNCTION f r x y) = None" "goto_target (CHECK_EXISTS h) = None"
  "goto_target NOT_INSN = None" "goto_target RETURN = None"
  "is_read (READ_TREE h r)" "\<not> is_read (IF_TRUE_GOTO t)" "\<not> is_read (IF_FALSE_GOTO t)"
  "\<not> is_read (ANY op r1 r2)" "\<not> is_read (ANY_IN_RANGE r1 r2 r3)" "\<not> is_read (MK_RANGE r1 r2 d)"
  "\<not> is_read (CALL_FUNCTION f r x y)" "\<not> is_read (CHECK_EXISTS h)" "\<not> is_read NOT_INSN"
  "\<not> is_read RETURN"
  by (simp_all add: goto_target_def is_read_def)

lemma with_target_kind [simp]:
  "goto_target (with_target t x) = map_option (\<lambda>_. t) (goto_target x)"
  "is_read (with_target t x) = is_read x"
  "with_target t (with_target t' x) = with_target t x"
  by (cases x; simp add: goto_target_def is_read_def)+

definition lands :: "'v insn list \<Rightarrow> nat \<Rightarrow> nat \<Rightarrow> bool" where
  "lands code i t = (i < t \<and> t \<le> length code \<and> \<not> is_read (code ! (t - 1)))"

definition seg_ok :: "nat \<Rightarrow> 'v insn list \<Rightarrow> nat set \<Rightarrow> bool" where
  "seg_ok n code J =
     (\<forall>i t. n \<le> i \<longrightarrow> i < length code \<longrightarrow> i \<notin> J \<longrightarrow> goto_target (code ! i) = Some t \<longrightarrow> lands code i t)"

lemma seg_ok_empty [simp]: "seg_ok (length code) code J"
  by (simp add: seg_ok_def)

lemma lands_append: "lands code i t \<Longrightarrow> lands (code @ zs) i t"
  by (auto simp: lands_def nth_append)

lemma seg_ok_append:
  assumes "seg_ok n code J" "prefix code code'" "seg_ok (length code) code' J'"
  shows "seg_ok n code' (J \<union> J')"
  unfolding seg_ok_def
proof (intro allI impI)
  fix i t
  assume i: "n \<le> i" "i < length code'" "i \<notin> J \<union> J'" "goto_target (code' ! i) = Some t"
  obtain zs where zs: "code' = code @ zs" using assms(2) by (auto simp: prefix_def)
  show "lands code' i t"
  proof (cases "i < length code")
    case True
    then have "lands code i t" using assms(1) i zs by (auto simp: seg_ok_def nth_append)
    then show ?thesis by (simp add: zs lands_append)
  next
    case False
    then show ?thesis using assms(3) i by (auto simp: seg_ok_def)
  qed
qed

lemma seg_ok_snoc:
  assumes "seg_ok n code J" "goto_target x = None"
  shows "seg_ok n (code @ [x]) J"
  using seg_ok_append [OF assms(1), of "code @ [x]" "{}"] assms(2)
  by (auto simp: seg_ok_def nth_append less_Suc_eq)

lemma seg_ok_snoc_open:
  assumes "seg_ok n code J"
  shows "seg_ok n (code @ [x]) (insert (length code) J)"
  using seg_ok_append [OF assms(1), of "code @ [x]" "{length code}"]
  by (auto simp: seg_ok_def nth_append less_Suc_eq)

lemma seg_ok_mono: "seg_ok n code J \<Longrightarrow> J \<subseteq> J' \<Longrightarrow> seg_ok n code J'"
  by (auto simp: seg_ok_def)

text \<open>Filling in all open jumps of a set.\<close>

definition patched :: "'v insn list \<Rightarrow> nat set \<Rightarrow> nat \<Rightarrow> 'v insn list" where
  "patched code J t = map (\<lambda>i. if i \<in> J then with_target t (code ! i) else code ! i) [0..<length code]"

lemma patched_simps [simp]:
  "length (patched code J t) = length code"
  "i < length code \<Longrightarrow> patched code J t ! i = (if i \<in> J then with_target t (code ! i) else code ! i)"
  "patched code {} t = code"
  by (simp_all add: patched_def map_nth)

lemma patched_patched: "patched (patched code J t) K t = patched code (J \<union> K) t"
  by (rule nth_equalityI) auto

lemma patched_prefix:
  assumes "prefix pre code" "\<forall>j \<in> J. length pre \<le> j"
  shows "prefix pre (patched code J t)"
proof -
  have "take (length pre) (patched code J t) = take (length pre) code"
    using assms prefix_length_le [OF assms(1)] by (intro nth_equalityI) auto
  also have "\<dots> = pre" using assms(1) by (auto simp: prefix_def)
  finally show ?thesis by (metis append_take_drop_id prefix_def)
qed

lemma set_jump_insns:
  "insns (set_jump jmp dfw) = patched (insns dfw) (pend [jmp]) (next_insn_id dfw)"
  by (cases jmp) (auto simp: set_jump_def intro!: nth_equalityI simp: nth_list_update)

lemma set_jump_other [simp]:
  "const_insns (set_jump jmp dfw) = const_insns dfw"
  "loaded_fields (set_jump jmp dfw) = loaded_fields dfw"
  "interesting_fields (set_jump jmp dfw) = interesting_fields dfw"
  "next_insn_id (set_jump jmp dfw) = next_insn_id dfw"
  "next_register (set_jump jmp dfw) = next_register dfw"
  "first_constant (set_jump jmp dfw) = first_constant dfw"
  by (cases jmp; simp add: set_jump_def)+

lemma fold_set_jump_insns:
  "insns (fold set_jump jmps dfw) = patched (insns dfw) (pend jmps) (next_insn_id dfw)"
proof (induction jmps arbitrary: dfw)
  case (Cons jmp jmps)
  have "pend (jmp # jmps) = pend [jmp] \<union> pend jmps" by (auto simp: pend_def)
  then show ?case by (simp add: Cons.IH set_jump_insns patched_patched)
qed simp

lemma fold_set_jump_other [simp]:
  "const_insns (fold set_jump jmps dfw) = const_insns dfw"
  "loaded_fields (fold set_jump jmps dfw) = loaded_fields dfw"
  "interesting_fields (fold set_jump jmps dfw) = interesting_fields dfw"
  "next_insn_id (fold set_jump jmps dfw) = next_insn_id dfw"
  "next_register (fold set_jump jmps dfw) = next_register dfw"
  "first_constant (fold set_jump jmps dfw) = first_constant dfw"
  by (induction jmps arbitrary: dfw; simp)+

lemma agree_patched:
  assumes "agree P n (patched code J t) K"
  shows "agree P n code (J \<union> K)"
    and "j \<in> J \<Longrightarrow> j \<notin> K \<Longrightarrow> n \<le> j \<Longrightarrow> j < length code \<Longrightarrow> P ! j = with_target t (code ! j)"
  using assms by (auto simp: agree_def)

lemma seg_ok_patched:
  assumes "seg_ok n code J'" "J' \<subseteq> J \<union> K" "code \<noteq> []" "\<not> is_read (last code)"
  shows "seg_ok n (patched code J (length code)) K"
  unfolding seg_ok_def
proof (intro allI impI)
  fix i t
  assume i: "n \<le> i" "i < length (patched code J (length code))" "i \<notin> K"
    "goto_target (patched code J (length code) ! i) = Some t"
  show "lands (patched code J (length code)) i t"
  proof (cases "i \<in> J")
    case True
    then have "t = length code" using i by auto
    then show ?thesis using i assms(3,4) by (simp add: lands_def last_conv_nth)
  next
    case False
    then have "lands code i t" using assms(1,2) i by (auto simp: seg_ok_def)
    then show ?thesis using i by (auto simp: lands_def split: if_splits)
  qed
qed

section \<open>The work area\<close>

abbreviation here :: "'v dfwork \<Rightarrow> nat" where "here dfw \<equiv> length (insns dfw)"

definition wf_dfw :: "'v dfwork \<Rightarrow> bool" where
  "wf_dfw dfw =
     (next_insn_id dfw = here dfw \<and> 0 \<le> next_register dfw \<and>
      (\<forall>h r. loaded_fields dfw h = Some r \<longrightarrow> 0 < r \<and> r \<le> next_register dfw) \<and>
      (\<forall>h h' r. loaded_fields dfw h = Some r \<longrightarrow> loaded_fields dfw h' = Some r \<longrightarrow> h = h') \<and>
      first_constant dfw = - 1 - int (length (const_insns dfw)) \<and>
      (\<forall>k < length (const_insns dfw). \<exists>v. const_insns dfw ! k = PUT_FVALUE v (- 1 - int k)))"

lemma wf_new: "wf_dfw dfwork_new"
  by (simp add: wf_dfw_def dfwork_new_def)

lemma wf_dfwD:
  assumes "wf_dfw dfw"
  shows "next_insn_id dfw = here dfw" "0 \<le> next_register dfw"
    "loaded_fields dfw h = Some r \<Longrightarrow> 0 < r \<and> r \<le> next_register dfw"
    "loaded_fields dfw h = Some r \<Longrightarrow> loaded_fields dfw h' = Some r \<Longrightarrow> h = h'"
  using assms unfolding wf_dfw_def by blast+

definition grows :: "'v dfwork \<Rightarrow> 'v dfwork \<Rightarrow> bool" where
  "grows dfw dfw' =
     (prefix (insns dfw) (insns dfw') \<and> prefix (const_insns dfw) (const_insns dfw') \<and>
      next_register dfw \<le> next_register dfw' \<and>
      (\<forall>h r. loaded_fields dfw h = Some r \<longrightarrow> loaded_fields dfw' h = Some r) \<and>
      (\<forall>h r. loaded_fields dfw' h = Some r \<longrightarrow> loaded_fields dfw h = Some r \<or> next_register dfw < r))"

lemma grows_refl [simp]: "grows dfw dfw"
  by (simp add: grows_def)

lemma grows_trans: "grows dfw dfw1 \<Longrightarrow> grows dfw1 dfw2 \<Longrightarrow> grows dfw dfw2"
  unfolding grows_def by (blast intro: prefix_order.trans dest: less_le_trans le_less_trans order_trans)

lemma growsD:
  assumes "grows dfw dfw'"
  shows "prefix (insns dfw) (insns dfw')" "prefix (const_insns dfw) (const_insns dfw')"
    "here dfw \<le> here dfw'" "next_register dfw \<le> next_register dfw'"
    "set (const_insns dfw) \<subseteq> set (const_insns dfw')"
    "loaded_fields dfw h = Some r \<Longrightarrow> loaded_fields dfw' h = Some r"
    "loaded_fields dfw' h = Some r \<Longrightarrow> loaded_fields dfw h = Some r \<or> next_register dfw < r"
  using assms prefix_length_le set_mono_prefix unfolding grows_def by blast+

lemma append_insn_simps [simp]:
  "insns (dfw_append_insn x dfw) = insns dfw @ [x]"
  "next_insn_id (dfw_append_insn x dfw) = next_insn_id dfw + 1"
  "const_insns (dfw_append_insn x dfw) = const_insns dfw"
  "loaded_fields (dfw_append_insn x dfw) = loaded_fields dfw"
  "interesting_fields (dfw_append_insn x dfw) = interesting_fields dfw"
  "next_register (dfw_append_insn x dfw) = next_register dfw"
  "first_constant (dfw_append_insn x dfw) = first_constant dfw"
  by (simp_all add: dfw_append_insn_def)

lemma wf_append_insn: "wf_dfw dfw \<Longrightarrow> wf_dfw (dfw_append_insn x dfw)"
  by (simp add: wf_dfw_def)

lemma grows_append_insn: "grows dfw (dfw_append_insn x dfw)"
  by (simp add: grows_def)

lemma wf_next_register: "wf_dfw dfw \<Longrightarrow> next_register dfw \<le> r \<Longrightarrow> wf_dfw (dfw\<lparr>next_register := r\<rparr>)"
  by (fastforce simp: wf_dfw_def)

lemma grows_next_register: "next_register dfw \<le> r \<Longrightarrow> grows dfw (dfw\<lparr>next_register := r\<rparr>)"
  by (simp add: grows_def)

lemma wf_set_jumps: "wf_dfw dfw \<Longrightarrow> wf_dfw (fold set_jump jmps dfw)"
  by (simp add: wf_dfw_def fold_set_jump_insns)

lemma grows_set_jumps:
  assumes "grows dfw dfw'" "\<forall>j \<in> pend jmps. here dfw \<le> j"
  shows "grows dfw (fold set_jump jmps dfw')"
  using assms by (auto simp: grows_def fold_set_jump_insns patched_prefix)

section \<open>The state of the machine against the work area\<close>

definition state_ok :: "'v env \<Rightarrow> 'v dfwork \<Rightarrow> 'v mstate \<Rightarrow> bool" where
  "state_ok E dfw s =
     ((\<forall>h r. loaded_fields dfw h = Some r \<longrightarrow>
         regs s (r - 1) = (if att s (r - 1) then env_values E h else [])) \<and>
      (\<forall>r \<ge> next_register dfw. \<not> att s r \<and> regs s r = []))"

text \<open>A register whose value later code does not change.\<close>

definition steady :: "'v dfwork \<Rightarrow> 'v mstate \<Rightarrow> int \<Rightarrow> bool" where
  "steady dfw s r =
     (r < next_register dfw \<and> (\<forall>h. loaded_fields dfw h = Some (r + 1) \<longrightarrow> att s r))"

definition keep :: "'v dfwork \<Rightarrow> 'v mstate \<Rightarrow> 'v mstate \<Rightarrow> bool" where
  "keep dfw s s' = (\<forall>r. steady dfw s r \<longrightarrow> regs s' r = regs s r \<and> (att s r \<longrightarrow> att s' r))"

lemma state_ok_grows: "state_ok E dfw s \<Longrightarrow> grows dfw dfw' \<Longrightarrow> state_ok E dfw' s"
  unfolding state_ok_def
proof (intro conjI allI impI)
  fix h r
  assume i: "(\<forall>h r. loaded_fields dfw h = Some r \<longrightarrow>
         regs s (r - 1) = (if att s (r - 1) then env_values E h else [])) \<and>
      (\<forall>r \<ge> next_register dfw. \<not> att s r \<and> regs s r = [])"
    and g: "grows dfw dfw'" and l: "loaded_fields dfw' h = Some r"
  from growsD(7) [OF g l] consider "loaded_fields dfw h = Some r" | "next_register dfw \<le> r - 1"
    by fastforce
  then show "regs s (r - 1) = (if att s (r - 1) then env_values E h else [])"
    by cases (use i in auto)
next
  fix r
  assume i: "(\<forall>h r. loaded_fields dfw h = Some r \<longrightarrow>
         regs s (r - 1) = (if att s (r - 1) then env_values E h else [])) \<and>
      (\<forall>r \<ge> next_register dfw. \<not> att s r \<and> regs s r = [])"
    and g: "grows dfw dfw'" and r: "next_register dfw' \<le> r"
  then show "\<not> att s r" "regs s r = []" using growsD(4) [OF g] by auto
qed

lemma steady_grows: "steady dfw s r \<Longrightarrow> grows dfw dfw' \<Longrightarrow> steady dfw' s r"
  using growsD(4,7) [of dfw dfw'] by (fastforce simp: steady_def)

lemma keep_refl [simp]: "keep dfw s s"
  by (simp add: keep_def)

lemma steady_keep: "steady dfw s r \<Longrightarrow> keep dfw s s' \<Longrightarrow> steady dfw s' r \<and> regs s' r = regs s r"
  by (auto simp: steady_def keep_def)

lemma keep_trans: "keep dfw s s1 \<Longrightarrow> grows dfw dfw1 \<Longrightarrow> keep dfw1 s1 s2 \<Longrightarrow> keep dfw s s2"
  unfolding keep_def by (metis keep_def steady_grows steady_keep)

definition consts_in :: "'v insn set \<Rightarrow> 'v mstate \<Rightarrow> bool" where
  "consts_in C s = (\<forall>v r. PUT_FVALUE v r \<in> C \<longrightarrow> r < 0 \<and> regs s r = [v])"

lemma steady_negative: "wf_dfw dfw \<Longrightarrow> r < 0 \<Longrightarrow> steady dfw s r"
  using wf_dfwD(2,3) [of dfw] by (fastforce simp: steady_def)

lemma consts_keep: "consts_in C s \<Longrightarrow> keep dfw s s' \<Longrightarrow> wf_dfw dfw \<Longrightarrow> consts_in C s'"
  using steady_negative by (fastforce simp: consts_in_def keep_def)

section \<open>Entities\<close>

text \<open>
  What the registrar and the environment have to agree on: a known field can be rewound to the first
  field of its name, which the environment does not tell apart from it, and the list of the name can
  be walked.
\<close>

definition env_ok :: "'p registrar \<Rightarrow> (nat \<Rightarrow> bool) \<Rightarrow> 'v env \<Rightarrow> bool" where
  "env_ok reg known E =
     (\<forall>h. known h \<longrightarrow> (\<exists>h0. rewind reg h = Inr h0 \<and> env_values E h0 = env_values E h \<and>
        env_exists E h0 = env_exists E h \<and>
        (\<forall>(body :: header_field_info \<Rightarrow> nat list \<Rightarrow> bool \<times> nat list) l.
           \<exists>l'. walk_same_name reg body h0 l = Inr l')))"

text \<open>What holds of the code of an entity or of a list of parameters, whatever they evaluate to.\<close>

definition shape :: "'v dfwork \<Rightarrow> 'v dfwork \<Rightarrow> nat option list \<Rightarrow> bool" where
  "shape dfw dfw' jmps =
     (wf_dfw dfw' \<and> grows dfw dfw' \<and>
      (\<forall>j \<in> pend jmps. here dfw \<le> j \<and> j < here dfw' \<and> goto_target (insns dfw' ! j) \<noteq> None) \<and>
      seg_ok (here dfw) (insns dfw') (pend jmps))"

lemma shapeD:
  assumes "shape dfw dfw' jmps"
  shows "wf_dfw dfw'" "grows dfw dfw'" "seg_ok (here dfw) (insns dfw') (pend jmps)"
    "j \<in> pend jmps \<Longrightarrow> here dfw \<le> j \<and> j < here dfw' \<and> goto_target (insns dfw' ! j) \<noteq> None"
  using assms by (auto simp: shape_def)

text \<open>
  A run through the code. \<open>ready\<close> collects what the program and the state have to satisfy: the program
  contains the code with its open jumps set to \<open>tgt\<close>, and the constants are in their registers.
\<close>

definition ready ::
    "'v env \<Rightarrow> 'v insn list \<Rightarrow> 'v insn set \<Rightarrow> nat \<Rightarrow> nat option list \<Rightarrow> 'v dfwork \<Rightarrow> 'v dfwork \<Rightarrow>
      'v mstate \<Rightarrow> bool" where
  "ready E P C tgt jmps dfw dfw' s =
     (agree P (here dfw) (insns dfw') (pend jmps) \<and> (\<forall>j \<in> pend jmps. P ! j = with_target tgt (insns dfw' ! j)) \<and>
      set (const_insns dfw') \<subseteq> C \<and> consts_in C s \<and> state_ok E dfw s)"

definition falls_through ::
    "'v env \<Rightarrow> 'v insn list \<Rightarrow> 'v dfwork \<Rightarrow> 'v dfwork \<Rightarrow> bool \<Rightarrow> 'v mstate \<Rightarrow> bool \<Rightarrow> 'v mstate \<Rightarrow> bool" where
  "falls_through E P dfw dfw' a s a' s' =
     (steps E P (here dfw, a, s) (here dfw', a', s') \<and> state_ok E dfw' s' \<and> keep dfw s s')"

definition bails_out ::
    "'v env \<Rightarrow> 'v insn list \<Rightarrow> nat \<Rightarrow> 'v dfwork \<Rightarrow> 'v dfwork \<Rightarrow> bool \<Rightarrow> 'v mstate \<Rightarrow> bool" where
  "bails_out E P tgt dfw dfw' a s =
     (\<exists>s'. steps E P (here dfw, a, s) (tgt, False, s') \<and> state_ok E dfw' s' \<and> keep dfw s s')"

definition entity_code ::
    "'v env \<Rightarrow> 'v stnode \<Rightarrow> 'v dfwork \<Rightarrow> int \<Rightarrow> nat option \<Rightarrow> 'v dfwork \<Rightarrow> bool" where
  "entity_code E e dfw r jmp dfw' =
     (\<forall>P C tgt a s. ready E P C tgt [jmp] dfw dfw' s \<longrightarrow>
        (\<forall>l. eval_entity E e = Inr (Some l) \<longrightarrow>
           (\<exists>a' s'. falls_through E P dfw dfw' a s a' s' \<and> steady dfw' s' r \<and> regs s' r = l)) \<and>
        (eval_entity E e = Inr None \<longrightarrow> bails_out E P tgt dfw dfw' a s))"

definition params_code ::
    "'v env \<Rightarrow> 'v stnode list \<Rightarrow> 'v dfwork \<Rightarrow> int list \<Rightarrow> nat option list \<Rightarrow> 'v dfwork \<Rightarrow> bool" where
  "params_code E ps dfw rs jmps dfw' =
     (\<forall>P C tgt a s. ready E P C tgt jmps dfw dfw' s \<longrightarrow>
        (\<forall>ls. eval_params E ps = Inr (Some ls) \<longrightarrow>
           (\<exists>a' s'. falls_through E P dfw dfw' a s a' s' \<and> (\<forall>r \<in> set rs. steady dfw' s' r) \<and>
              map (regs s') rs = ls)) \<and>
        (eval_params E ps = Inr None \<longrightarrow> bails_out E P tgt dfw dfw' a s))"

lemma falls_trans:
  assumes "falls_through E P dfw dfw1 a s a1 s1" "falls_through E P dfw1 dfw2 a1 s1 a2 s2" "grows dfw dfw1"
  shows "falls_through E P dfw dfw2 a s a2 s2"
  using assms keep_trans [of dfw s s1 dfw1 s2] unfolding falls_through_def
  by (blast intro: rtranclp_trans)

lemma bails_after:
  assumes "falls_through E P dfw dfw1 a s a1 s1" "bails_out E P tgt dfw1 dfw2 a1 s1" "grows dfw dfw1"
  shows "bails_out E P tgt dfw dfw2 a s"
  using assms keep_trans [of dfw s s1 dfw1] unfolding falls_through_def bails_out_def
  by (blast intro: rtranclp_trans)

lemma bails_grows: "bails_out E P tgt dfw dfw1 a s \<Longrightarrow> grows dfw1 dfw2 \<Longrightarrow> bails_out E P tgt dfw dfw2 a s"
  unfolding bails_out_def by (blast intro: state_ok_grows)

text \<open>The two halves of code that was emitted one after the other.\<close>

lemma ready_first:
  assumes "ready E P C tgt (js @ js') dfw dfw2 s" "shape dfw dfw1 js" "shape dfw1 dfw2 js'"
  shows "ready E P C tgt js dfw dfw1 s"
proof -
  have "agree P (here dfw) (insns dfw1) (pend js)"
    by (rule agree_left [of _ _ "insns dfw2" "pend (js @ js')"])
      (use assms shapeD(4) [OF assms(3)] growsD(1) [OF shapeD(2) [OF assms(3)]] in
        \<open>auto simp: ready_def\<close>)
  moreover have "insns dfw2 ! j = insns dfw1 ! j" if "j \<in> pend js" for j
    using growsD(1) [OF shapeD(2) [OF assms(3)]] shapeD(4) [OF assms(2) that]
    by (auto simp: prefix_def nth_append)
  ultimately show ?thesis
    using assms(1) growsD(5) [OF shapeD(2) [OF assms(3)]] by (auto simp: ready_def)
qed

lemma ready_second:
  assumes "ready E P C tgt (js @ js') dfw dfw2 s" "shape dfw dfw1 js" "shape dfw1 dfw2 js'"
    and "falls_through E P dfw dfw1 a s a1 s1" "wf_dfw dfw"
  shows "ready E P C tgt js' dfw1 dfw2 s1"
proof -
  have "agree P (here dfw1) (insns dfw2) (pend js')"
    by (rule agree_right [of _ "here dfw" _ "pend (js @ js')"])
      (use assms(1) shapeD(4) [OF assms(2)] growsD(3) [OF shapeD(2) [OF assms(2)]] in
        \<open>auto simp: ready_def\<close>)
  moreover have "consts_in C s1"
    using assms(1,4,5) consts_keep by (fastforce simp: ready_def falls_through_def)
  ultimately show ?thesis
    using assms(1,4) by (auto simp: ready_def falls_through_def)
qed

lemma shape_trans:
  assumes "shape dfw dfw1 js" "shape dfw1 dfw2 js'"
  shows "shape dfw dfw2 (js @ js')"
proof -
  note g = shapeD(2) [OF assms(1)] shapeD(2) [OF assms(2)]
  have "insns dfw2 ! j = insns dfw1 ! j" if "j < here dfw1" for j
    using growsD(1) [OF g(2)] that by (auto simp: prefix_def nth_append)
  then show ?thesis
    using shapeD [OF assms(1)] shapeD [OF assms(2)] grows_trans [OF g] growsD(3) [OF g(1)]
      growsD(3) [OF g(2)] seg_ok_append [OF shapeD(3) [OF assms(1)] growsD(1) [OF g(2)]]
    by (fastforce simp: shape_def)
qed

lemma shape_refl: "wf_dfw dfw \<Longrightarrow> shape dfw dfw []"
  by (simp add: shape_def)

subsection \<open>Reading a field\<close>

lemma record_interesting_Inr:
  assumes "env_ok reg known E" "known h" "rewind reg h = Inr h0"
  shows "\<exists>fields. record_interesting reg h0 dfw = Inr (dfw\<lparr>interesting_fields := fields\<rparr>)"
proof -
  have "\<exists>l'. walk_same_name reg (\<lambda>h fields. (False, List.insert (nat (hf_id h)) fields)) h0
           (interesting_fields dfw) = Inr l'"
    using assms unfolding env_ok_def by (metis sum.inject(2))
  then show ?thesis by (auto simp: record_interesting_def)
qed

lemma append_read_tree:
  assumes "env_ok reg known E" "known h" "wf_dfw dfw"
  shows "\<exists>h0 r dfw1. dfw_append_read_tree reg h dfw = Inr (r, dfw1) \<and>
           rewind reg h = Inr h0 \<and> env_values E h0 = env_values E h \<and> wf_dfw dfw1 \<and> grows dfw dfw1 \<and>
           insns dfw1 = insns dfw @ [READ_TREE h0 r] \<and> const_insns dfw1 = const_insns dfw \<and>
           loaded_fields dfw1 h0 = Some (r + 1) \<and> r < next_register dfw1"
proof -
  obtain h0 where h0: "rewind reg h = Inr h0" "env_values E h0 = env_values E h"
    using assms(1,2) unfolding env_ok_def by blast
  show ?thesis
  proof (cases "loaded_fields dfw h0")
    case (Some q)
    then have "0 < q" "q \<le> next_register dfw" using wf_dfwD(3) [OF assms(3)] by blast+
    then show ?thesis
      using h0 Some wf_append_insn [OF assms(3)] grows_append_insn [of dfw]
      by (auto simp: dfw_append_read_tree_def Let_def)
  next
    case None
    let ?r = "next_register dfw"
    let ?dfw1 = "dfw_append_insn (READ_TREE h0 ?r)
      (dfw\<lparr>next_register := ?r + 1, loaded_fields := (loaded_fields dfw)(h0 \<mapsto> ?r + 1)\<rparr>)"
    obtain fields where f: "record_interesting reg h0 ?dfw1 = Inr (?dfw1\<lparr>interesting_fields := fields\<rparr>)"
      using record_interesting_Inr [OF assms(1,2) h0(1)] by blast
    have "wf_dfw (?dfw1\<lparr>interesting_fields := fields\<rparr>)"
      using assms(3) None unfolding wf_dfw_def by (fastforce split: if_splits)
    moreover have "grows dfw (?dfw1\<lparr>interesting_fields := fields\<rparr>)"
      using None by (auto simp: grows_def)
    ultimately show ?thesis
      using h0 None f by (auto simp: dfw_append_read_tree_def Let_def)
  qed
qed

lemma read_tree_step:
  assumes "wf_dfw dfw1" "grows dfw dfw1" "loaded_fields dfw1 h = Some (r + 1)" "state_ok E dfw s"
    and "n < length P" "P ! n = READ_TREE h r"
  shows "\<exists>s'. step E P (n, a, s) (n + 1, env_values E h \<noteq> [], s') \<and> state_ok E dfw1 s' \<and>
           keep dfw s s' \<and> att s' r \<and> regs s' r = env_values E h"
proof -
  have inv1: "state_ok E dfw1 s" by (rule state_ok_grows [OF assms(4,2)])
  then have rr: "regs s r = (if att s r then env_values E h else [])"
    using assms(3) unfolding state_ok_def by (metis add_diff_cancel_right')
  have free: "\<not> steady dfw s r" if "\<not> att s r"
    using that assms(3) growsD(7) [OF assms(2,3)] by (auto simp: steady_def)
  show ?thesis
  proof (cases "att s r")
    case True
    then show ?thesis
      using step.read_again [OF assms(5,6) True, of E a] inv1 rr by auto
  next
    case False
    let ?s = "s\<lparr>regs := (regs s)(r := env_values E h), att := (att s)(r := True)\<rparr>"
    have upd: "state_ok E dfw1 ?s"
      unfolding state_ok_def
    proof (intro conjI allI impI)
      fix h' r' assume l: "loaded_fields dfw1 h' = Some r'"
      show "regs ?s (r' - 1) = (if att ?s (r' - 1) then env_values E h' else [])"
      proof (cases "r' = r + 1")
        case True
        then have "h' = h" using wf_dfwD(4) [OF assms(1) l] assms(3) by simp
        then show ?thesis using True by simp
      next
        case False
        then show ?thesis using inv1 l by (auto simp: state_ok_def)
      qed
    next
      fix r' assume "next_register dfw1 \<le> r'"
      moreover have "r < next_register dfw1" using wf_dfwD(3) [OF assms(1,3)] by simp
      ultimately show "\<not> att ?s r'" "regs ?s r' = []" using inv1 by (auto simp: state_ok_def)
    qed
    have kp: "keep dfw s ?s" using free [OF False] by (auto simp: keep_def)
    show ?thesis
    proof (cases "env_values E h = []")
      case True
      then have "(regs s)(r := env_values E h) = regs s" using rr False by auto
      then have "?s = s\<lparr>att := (att s)(r := True)\<rparr>" by simp
      then show ?thesis
        using step.read_absent [OF assms(5,6) False True, of a] upd kp True rr False
        by (intro exI [of _ ?s]) simp
    next
      case ne: False
      then show ?thesis
        using step.read_found [OF assms(5,6) False ne, of a] upd kp
        by (intro exI [of _ ?s]) simp
    qed
  qed
qed

lemma field_entity:
  assumes "env_ok reg known E" "known h" "wf_dfw dfw"
  shows "\<exists>r jmp dfw'. gen_entity reg (STTYPE_FIELD h) dfw = Inr (r, jmp, dfw') \<and>
           shape dfw dfw' [jmp] \<and> r < next_register dfw' \<and> entity_code E (STTYPE_FIELD h) dfw r jmp dfw'"
proof -
  obtain h0 r dfw1 where d: "dfw_append_read_tree reg h dfw = Inr (r, dfw1)"
      "env_values E h0 = env_values E h" "wf_dfw dfw1" "grows dfw dfw1"
      "insns dfw1 = insns dfw @ [READ_TREE h0 r]" "const_insns dfw1 = const_insns dfw"
      "loaded_fields dfw1 h0 = Some (r + 1)" "r < next_register dfw1"
    using append_read_tree [OF assms] by blast
  let ?dfw' = "dfw_append_insn (IF_FALSE_GOTO 0) dfw1"
  have here1: "here dfw1 = here dfw + 1" "next_insn_id dfw1 = here dfw + 1"
    using d(5) wf_dfwD(1) [OF d(3)] by simp_all
  have "seg_ok (here dfw) (insns dfw1) {}"
    using seg_ok_snoc [OF seg_ok_empty [of "insns dfw" "{}"], of "READ_TREE h0 r"] d(5) by simp
  then have shape: "shape dfw ?dfw' [Some (next_insn_id dfw1)]"
    using seg_ok_snoc_open [of "here dfw" "insns dfw1" "{}" "IF_FALSE_GOTO 0"]
      grows_trans [OF d(4) grows_append_insn] wf_append_insn [OF d(3)] here1 d(5)
    by (auto simp: shape_def nth_append)
  have code: "entity_code E (STTYPE_FIELD h) dfw r (Some (next_insn_id dfw1)) ?dfw'"
    unfolding entity_code_def
  proof (intro allI impI)
    fix P C tgt a s
    assume rdy: "ready E P C tgt [Some (next_insn_id dfw1)] dfw ?dfw' s"
    have P: "here dfw < length P" "P ! here dfw = READ_TREE h0 r" "here dfw + 1 < length P"
        "P ! (here dfw + 1) = IF_FALSE_GOTO tgt"
      using rdy here1 d(5) by (auto simp: ready_def agree_def nth_append)
    obtain s' where s': "step E P (here dfw, a, s) (here dfw + 1, env_values E h0 \<noteq> [], s')"
        "state_ok E dfw1 s'" "keep dfw s s'" "att s' r" "regs s' r = env_values E h0"
      using read_tree_step [OF d(3,4,7) _ P(1,2), where s = s and a = a and E = E] rdy by (auto simp: ready_def)
    have state_ok': "state_ok E ?dfw' s'" by (rule state_ok_grows [OF s'(2) grows_append_insn])
    have st: "steady ?dfw' s' r" using d(8) s'(4) by (auto simp: steady_def)
    have jump: "step E P (here dfw + 1, env_values E h0 \<noteq> [], s')
        (if env_values E h0 = [] then tgt else here dfw + 2, env_values E h0 \<noteq> [], s')"
      using step.if_false [OF P(3,4), of E "env_values E h0 \<noteq> []" s']
      by (cases "env_values E h0 = []") auto
    show "(\<forall>l. eval_entity E (STTYPE_FIELD h) = Inr (Some l) \<longrightarrow>
           (\<exists>a' s'. falls_through E P dfw ?dfw' a s a' s' \<and> steady ?dfw' s' r \<and> regs s' r = l)) \<and>
        (eval_entity E (STTYPE_FIELD h) = Inr None \<longrightarrow> bails_out E P tgt dfw ?dfw' a s)"
    proof (cases "env_values E h0 = []")
      case True
      then have "steps E P (here dfw, a, s) (tgt, False, s')"
        using s'(1) jump by (auto intro: converse_rtranclp_into_rtranclp)
      then show ?thesis using True d(2) state_ok' s'(3) by (auto simp: bails_out_def)
    next
      case False
      then have "steps E P (here dfw, a, s) (here ?dfw', True, s')"
        using s'(1) jump here1 by (auto intro: converse_rtranclp_into_rtranclp)
      then show ?thesis
        using False d(2) state_ok' s'(3,5) st unfolding falls_through_def by auto
    qed
  qed
  show ?thesis using d(1,8) shape code by auto
qed

subsection \<open>Emitting an instruction and filling in the jumps\<close>

lemma shape_close:
  assumes "shape dfw dfw1 js" "goto_target x = None" "\<not> is_read x"
  shows "shape dfw (fold set_jump js (dfw_append_insn x dfw1)) []"
proof -
  let ?d = "dfw_append_insn x dfw1"
  note sd = shapeD [OF assms(1)]
  have n: "next_insn_id ?d = length (insns ?d)" using wf_dfwD(1) [OF sd(1)] by simp
  have "seg_ok (here dfw) (insns ?d) (pend js)"
    using seg_ok_snoc [OF sd(3) assms(2)] by simp
  then have "seg_ok (here dfw) (insns (fold set_jump js ?d)) {}"
    unfolding fold_set_jump_insns n
    by (rule seg_ok_patched) (use assms(3) in simp_all)
  then show ?thesis
    using wf_set_jumps [OF wf_append_insn [OF sd(1)]] sd(4)
      grows_set_jumps [OF grows_trans [OF sd(2) grows_append_insn]]
    by (auto simp: shape_def)
qed

lemma ready_close:
  assumes "ready E P C tgt [] dfw (fold set_jump js (dfw_append_insn x dfw1)) s" "shape dfw dfw1 js"
  shows "ready E P C (here dfw1 + 1) js dfw dfw1 s" "here dfw1 < length P"
    "goto_target x = None \<Longrightarrow> P ! here dfw1 = x"
proof -
  let ?d = "dfw_append_insn x dfw1"
  note sd = shapeD [OF assms(2)]
  have n: "next_insn_id ?d = here dfw1 + 1" using wf_dfwD(1) [OF sd(1)] by simp
  have a: "agree P (here dfw) (patched (insns ?d) (pend js) (here dfw1 + 1)) {}"
    using assms(1) unfolding ready_def fold_set_jump_insns n by simp
  have "here dfw \<le> here dfw1" using growsD(3) [OF sd(2)] .
  then show P: "here dfw1 < length P" "goto_target x = None \<Longrightarrow> P ! here dfw1 = x"
    using a sd(4) by (auto simp: agree_def)
  have "agree P (here dfw) (insns dfw1) (pend js)"
    by (rule agree_left [OF agree_patched(1) [OF a]]) auto
  moreover have "P ! j = with_target (here dfw1 + 1) (insns dfw1 ! j)" if "j \<in> pend js" for j
    using agree_patched(2) [OF a that] sd(4) [OF that] by (simp add: nth_append)
  ultimately show "ready E P C (here dfw1 + 1) js dfw dfw1 s"
    using assms(1) by (simp add: ready_def)
qed

lemma shape_open:
  assumes "shape dfw dfw1 js" "goto_target x \<noteq> None"
  shows "shape dfw (dfw_append_insn x dfw1) (Some (here dfw1) # js)"
proof -
  note sd = shapeD [OF assms(1)]
  show ?thesis
    using seg_ok_snoc_open [OF sd(3), of x] wf_append_insn [OF sd(1)] assms(2) sd(4)
      grows_trans [OF sd(2) grows_append_insn] growsD(3) [OF sd(2)]
    by (fastforce simp: shape_def nth_append)
qed

lemma ready_open:
  assumes "ready E P C tgt (Some (here dfw1) # js) dfw (dfw_append_insn x dfw1) s" "shape dfw dfw1 js"
  shows "ready E P C tgt js dfw dfw1 s" "here dfw1 < length P" "P ! here dfw1 = with_target tgt x"
proof -
  note sd = shapeD [OF assms(2)]
  have "agree P (here dfw) (insns dfw1) (pend js)"
    by (rule agree_left [of _ _ "insns (dfw_append_insn x dfw1)"]) (use assms(1) in \<open>auto simp: ready_def\<close>)
  then show "ready E P C tgt js dfw dfw1 s"
    using assms(1) sd(4) by (auto simp: ready_def nth_append)
  show "here dfw1 < length P" "P ! here dfw1 = with_target tgt x"
    using assms(1) by (auto simp: ready_def agree_def)
qed

lemma shape_cong:
  assumes "here dfw = here dfw0" "grows dfw dfw0" "shape dfw0 dfw1 js"
  shows "shape dfw dfw1 js"
  using assms grows_trans [OF assms(2) shapeD(2) [OF assms(3)]] by (simp add: shape_def)

lemma ready_cong:
  assumes "ready E P C tgt js dfw dfw1 s" "here dfw = here dfw0" "grows dfw dfw0"
  shows "ready E P C tgt js dfw0 dfw1 s"
  using assms state_ok_grows by (auto simp: ready_def)

lemma keep_cong: "keep dfw0 s s' \<Longrightarrow> grows dfw dfw0 \<Longrightarrow> keep dfw s s'"
  using steady_grows unfolding keep_def by blast

lemma falls_cong:
  "falls_through E P dfw0 dfw1 a s a' s' \<Longrightarrow> here dfw = here dfw0 \<Longrightarrow> grows dfw dfw0 \<Longrightarrow>
     falls_through E P dfw dfw1 a s a' s'"
  by (auto simp: falls_through_def intro: keep_cong)

lemma bails_cong:
  "bails_out E P tgt dfw0 dfw1 a s \<Longrightarrow> here dfw = here dfw0 \<Longrightarrow> grows dfw dfw0 \<Longrightarrow>
     bails_out E P tgt dfw dfw1 a s"
  by (fastforce simp: bails_out_def intro: keep_cong)

lemma state_ok_cong:
  "loaded_fields dfw' = loaded_fields dfw \<Longrightarrow> next_register dfw' = next_register dfw \<Longrightarrow>
     state_ok E dfw' s = state_ok E dfw s"
  by (simp add: state_ok_def)

lemma steady_cong:
  "loaded_fields dfw' = loaded_fields dfw \<Longrightarrow> next_register dfw' = next_register dfw \<Longrightarrow>
     steady dfw' s r = steady dfw s r"
  by (simp add: steady_def)

text \<open>Writing a register that is not one of a field.\<close>

lemma write_temp:
  assumes "state_ok E dfw s" "r < next_register dfw" "\<And>h. loaded_fields dfw h \<noteq> Some (r + 1)"
  shows "state_ok E dfw (s\<lparr>regs := (regs s)(r := l)\<rparr>)" "steady dfw (s\<lparr>regs := (regs s)(r := l)\<rparr>) r"
proof -
  have "r' - 1 \<noteq> r" if "loaded_fields dfw h = Some r'" for h r'
    using assms(3) [of h] that by auto
  then show "state_ok E dfw (s\<lparr>regs := (regs s)(r := l)\<rparr>)"
    using assms(1,2) by (auto simp: state_ok_def)
qed (use assms in \<open>simp add: steady_def\<close>)

lemma keep_temp: "\<not> steady dfw s0 r \<Longrightarrow> keep dfw s0 s \<Longrightarrow> keep dfw s0 (s\<lparr>regs := (regs s)(r := l)\<rparr>)"
  by (auto simp: keep_def)

subsection \<open>The other entities\<close>

lemma fvalue_entity:
  assumes "wf_dfw dfw"
  shows "\<exists>r jmp dfw'. gen_entity reg (STTYPE_FVALUE v) dfw = Inr (r, jmp, dfw') \<and>
           shape dfw dfw' [jmp] \<and> r < next_register dfw' \<and> entity_code E (STTYPE_FVALUE v) dfw r jmp dfw'"
proof -
  let ?r = "first_constant dfw"
  let ?dfw' = "snd (dfw_append_put_fvalue v dfw)"
  have d: "dfw_append_put_fvalue v dfw = (?r, ?dfw')" "insns ?dfw' = insns dfw"
      "const_insns ?dfw' = const_insns dfw @ [PUT_FVALUE v ?r]" "loaded_fields ?dfw' = loaded_fields dfw"
      "next_register ?dfw' = next_register dfw" "next_insn_id ?dfw' = next_insn_id dfw"
      "first_constant ?dfw' = ?r - 1"
    by (simp_all add: dfw_append_put_fvalue_def dfw_append_const_def Let_def)
  have neg: "?r < 0" "?r < next_register dfw" using assms by (auto simp: wf_dfw_def)
  have "wf_dfw ?dfw'"
    using assms unfolding wf_dfw_def d(2-7) by (auto simp: nth_append less_Suc_eq)
  moreover have g: "grows dfw ?dfw'" by (simp add: grows_def d(2-7))
  ultimately have "shape dfw ?dfw' [None]" using seg_ok_empty [of "insns dfw"] by (simp add: shape_def d(2-7))
  moreover have "entity_code E (STTYPE_FVALUE v) dfw ?r None ?dfw'"
    unfolding entity_code_def
  proof (intro allI impI)
    fix P C tgt a s
    assume rdy: "ready E P C tgt [None] dfw ?dfw' s"
    have "regs s ?r = [v]" using rdy by (auto simp: ready_def consts_in_def d(3))
    moreover have "state_ok E ?dfw' s" using rdy g by (auto simp: ready_def intro: state_ok_grows)
    moreover have "steady ?dfw' s ?r"
      using steady_negative [OF \<open>wf_dfw ?dfw'\<close> neg(1)] .
    ultimately show "(\<forall>l. eval_entity E (STTYPE_FVALUE v) = Inr (Some l) \<longrightarrow>
           (\<exists>a' s'. falls_through E P dfw ?dfw' a s a' s' \<and> steady ?dfw' s' ?r \<and> regs s' ?r = l)) \<and>
        (eval_entity E (STTYPE_FVALUE v) = Inr None \<longrightarrow> bails_out E P tgt dfw ?dfw' a s)"
      by (auto simp: falls_through_def d(2) intro!: exI [of _ a] exI [of _ s])
  qed
  ultimately show ?thesis using neg d(1,5) by (auto split: prod.splits)
qed

lemma range_entity:
  assumes ih: "gen_entity reg e dfw = Inr (r1, jmp, dfw1)" "shape dfw dfw1 [jmp]"
    "entity_code E e dfw r1 jmp dfw1"
  shows "\<exists>r jmp dfw'. gen_entity reg (STTYPE_RANGE e d) dfw = Inr (r, jmp, dfw') \<and>
           shape dfw dfw' [jmp] \<and> r < next_register dfw' \<and> entity_code E (STTYPE_RANGE e d) dfw r jmp dfw'"
proof -
  let ?r = "next_register dfw1"
  let ?d = "dfw1\<lparr>next_register := ?r + 1\<rparr>"
  let ?dfw' = "dfw_append_insn (MK_RANGE r1 ?r d) ?d"
  note sd = shapeD [OF ih(2)]
  have g: "grows dfw1 ?dfw'"
    using grows_trans [OF grows_next_register [of dfw1 "?r + 1"] grows_append_insn] by simp
  have seg: "seg_ok (here dfw) (insns dfw1 @ [MK_RANGE r1 ?r d]) (pend [jmp])"
    by (rule seg_ok_snoc [OF sd(3)]) simp
  have shape: "shape dfw ?dfw' [jmp]"
    unfolding shape_def
  proof (intro conjI ballI)
    show "wf_dfw ?dfw'" using wf_append_insn [OF wf_next_register [OF sd(1), of "?r + 1"]] by simp
    show "grows dfw ?dfw'" by (rule grows_trans [OF sd(2) g])
    show "seg_ok (here dfw) (insns ?dfw') (pend [jmp])" using seg by simp
  qed (use sd(4) in \<open>fastforce simp: nth_append\<close>)+
  have free: "loaded_fields dfw1 h \<noteq> Some (?r + 1)" for h
    using wf_dfwD(3) [OF sd(1), of h "?r + 1"] by auto
  have code: "entity_code E (STTYPE_RANGE e d) dfw ?r jmp ?dfw'"
    unfolding entity_code_def
  proof (intro allI impI)
    fix P C tgt a s
    assume rdy: "ready E P C tgt [jmp] dfw ?dfw' s"
    have P: "here dfw1 < length P" "P ! here dfw1 = MK_RANGE r1 ?r d"
      using rdy sd(4) growsD(3) [OF sd(2)] by (fastforce simp: ready_def agree_def)+
    have "agree P (here dfw) (insns dfw1) (pend [jmp])"
      by (rule agree_left [of _ _ "insns ?dfw'"]) (use rdy in \<open>auto simp: ready_def\<close>)
    then have rdy1: "ready E P C tgt [jmp] dfw dfw1 s"
      using rdy sd(4) by (auto simp: ready_def nth_append)
    have fresh: "\<not> steady dfw s ?r" using growsD(4) [OF sd(2)] by (simp add: steady_def)
    have "\<exists>a' s'. falls_through E P dfw ?dfw' a s a' s' \<and> steady ?dfw' s' ?r \<and> regs s' ?r = l'"
      if ev: "eval_entity E e = Inr (Some l)" "slice_list (env_ops E) d l = Inr l'" for l l'
    proof -
      obtain a1 s1 where s1: "falls_through E P dfw dfw1 a s a1 s1" "steady dfw1 s1 r1" "regs s1 r1 = l"
        using ih(3) rdy1 ev(1) unfolding entity_code_def by blast
      let ?s2 = "s1\<lparr>regs := (regs s1)(?r := l')\<rparr>"
      have "step E P (here dfw1, a1, s1) (here dfw1 + 1, a1, ?s2)"
        by (rule step.range [OF P]) (use s1(3) ev(2) in simp)
      then have "steps E P (here dfw, a, s) (here ?dfw', a1, ?s2)"
        using s1(1) by (auto simp: falls_through_def intro: rtranclp.rtrancl_into_rtrancl)
      moreover have "state_ok E ?dfw' s1"
        using s1(1) g by (auto simp: falls_through_def intro: state_ok_grows)
      then have "state_ok E ?dfw' ?s2" "steady ?dfw' ?s2 ?r"
        using write_temp [of E ?dfw' s1 ?r l'] free by auto
      moreover have "keep dfw s ?s2"
        using s1(1) fresh by (auto simp: falls_through_def intro: keep_temp)
      ultimately show ?thesis unfolding falls_through_def by (intro exI [of _ a1] exI [of _ ?s2]) simp
    qed
    moreover have "bails_out E P tgt dfw ?dfw' a s" if "eval_entity E e = Inr None"
      using ih(3) rdy1 that bails_grows [OF _ g] unfolding entity_code_def by blast
    ultimately show "(\<forall>l. eval_entity E (STTYPE_RANGE e d) = Inr (Some l) \<longrightarrow>
           (\<exists>a' s'. falls_through E P dfw ?dfw' a s a' s' \<and> steady ?dfw' s' ?r \<and> regs s' ?r = l)) \<and>
        (eval_entity E (STTYPE_RANGE e d) = Inr None \<longrightarrow> bails_out E P tgt dfw ?dfw' a s)"
      by (auto simp: errs split: option.splits)
  qed
  show ?thesis using ih(1) shape code by (auto simp: Let_def)
qed

lemma params_Nil: "wf_dfw dfw \<Longrightarrow> shape dfw dfw [] \<and> params_code E [] dfw [] [] dfw"
  by (auto simp: shape_refl params_code_def falls_through_def ready_def intro!: exI)

lemma params_Cons:
  assumes "wf_dfw dfw"
    and e: "shape dfw dfw1 [jmp]" "entity_code E p dfw r jmp dfw1"
    and ps: "shape dfw1 dfw2 jmps" "params_code E ps dfw1 rs jmps dfw2"
  shows "shape dfw dfw2 (jmp # jmps) \<and> params_code E (p # ps) dfw (r # rs) (jmp # jmps) dfw2"
proof
  show "shape dfw dfw2 (jmp # jmps)" using shape_trans [OF e(1) ps(1)] by simp
  note g1 = shapeD(2) [OF e(1)] and g2 = shapeD(2) [OF ps(1)]
  show "params_code E (p # ps) dfw (r # rs) (jmp # jmps) dfw2"
    unfolding params_code_def
  proof (intro allI impI)
    fix P C tgt a s
    assume "ready E P C tgt (jmp # jmps) dfw dfw2 s"
    then have rdy: "ready E P C tgt ([jmp] @ jmps) dfw dfw2 s" by simp
    have rdy1: "ready E P C tgt [jmp] dfw dfw1 s" by (rule ready_first [OF rdy e(1) ps(1)])
    have first: "\<exists>a1 s1. falls_through E P dfw dfw1 a s a1 s1 \<and> steady dfw1 s1 r \<and> regs s1 r = l \<and>
        ready E P C tgt jmps dfw1 dfw2 s1" if "eval_entity E p = Inr (Some l)" for l
      using e(2) rdy1 that ready_second [OF rdy e(1) ps(1) _ assms(1)] unfolding entity_code_def by blast
    have none1: "bails_out E P tgt dfw dfw2 a s" if "eval_entity E p = Inr None"
      using e(2) rdy1 that bails_grows [OF _ g2] unfolding entity_code_def by blast
    have none2: "bails_out E P tgt dfw dfw2 a s"
      if "eval_entity E p = Inr (Some l)" "eval_params E ps = Inr None" for l
      using first [OF that(1)] that(2) ps(2) bails_after [OF _ _ g1] unfolding params_code_def by blast
    have some: "\<exists>a' s'. falls_through E P dfw dfw2 a s a' s' \<and> (\<forall>q \<in> set (r # rs). steady dfw2 s' q) \<and>
        map (regs s') (r # rs) = l # ls"
      if ev: "eval_entity E p = Inr (Some l)" "eval_params E ps = Inr (Some ls)" for l ls
    proof -
      obtain a1 s1 where s1: "falls_through E P dfw dfw1 a s a1 s1" "steady dfw1 s1 r" "regs s1 r = l"
          "ready E P C tgt jmps dfw1 dfw2 s1" using first [OF ev(1)] by blast
      obtain a2 s2 where s2: "falls_through E P dfw1 dfw2 a1 s1 a2 s2" "\<forall>q \<in> set rs. steady dfw2 s2 q"
          "map (regs s2) rs = ls"
        using ps(2) s1(4) ev(2) unfolding params_code_def by blast
      have "steady dfw1 s2 r \<and> regs s2 r = l"
        using steady_keep [OF s1(2)] s2(1) s1(3) by (auto simp: falls_through_def)
      then show ?thesis
        using falls_trans [OF s1(1) s2(1) g1] s2(2,3) steady_grows [OF _ g2]
        by (intro exI [of _ a2] exI [of _ s2]) auto
    qed
    show "(\<forall>ls. eval_params E (p # ps) = Inr (Some ls) \<longrightarrow>
           (\<exists>a' s'. falls_through E P dfw dfw2 a s a' s' \<and> (\<forall>q \<in> set (r # rs). steady dfw2 s' q) \<and>
              map (regs s') (r # rs) = ls)) \<and>
        (eval_params E (p # ps) = Inr None \<longrightarrow> bails_out E P tgt dfw dfw2 a s)"
    proof (intro conjI allI impI)
      fix ls assume "eval_params E (p # ps) = Inr (Some ls)"
      then obtain l ls' where "eval_entity E p = Inr (Some l)" "eval_params E ps = Inr (Some ls')"
          "ls = l # ls'"
        by (auto simp: errs split: option.splits)
      then show "\<exists>a' s'. falls_through E P dfw dfw2 a s a' s' \<and>
          (\<forall>q \<in> set (r # rs). steady dfw2 s' q) \<and> map (regs s') (r # rs) = ls"
        using some by blast
    next
      assume "eval_params E (p # ps) = Inr None"
      then obtain x where "eval_entity E p = Inr x" "x = None \<or> eval_params E ps = Inr None"
        by (auto simp: errs split: option.splits)
      then show "bails_out E P tgt dfw dfw2 a s"
        using none1 none2 by (cases x) auto
    qed
  qed
qed

lemma regs_opt_nth:
  assumes "map (regs s) rs = ls"
  shows "regs_opt s (nth_option rs k) = nth_list ls k"
  using assms by (auto simp: regs_opt_def nth_option_def)

lemma function_entity:
  assumes wf: "wf_dfw dfw" and r: "r = next_register dfw"
    and ps: "gen_params reg ps 0 (dfw\<lparr>next_register := r + 1\<rparr>) = Inr (rs, jmps, dfw1)"
      "shape (dfw\<lparr>next_register := r + 1\<rparr>) dfw1 jmps"
      "params_code E ps (dfw\<lparr>next_register := r + 1\<rparr>) rs jmps dfw1"
  shows "\<exists>r jmp dfw'. gen_entity reg (STTYPE_FUNCTION f ps) dfw = Inr (r, jmp, dfw') \<and>
           shape dfw dfw' [jmp] \<and> r < next_register dfw' \<and>
           entity_code E (STTYPE_FUNCTION f ps) dfw r jmp dfw'"
proof -
  let ?dfw0 = "dfw\<lparr>next_register := r + 1\<rparr>"
  let ?call = "CALL_FUNCTION f r (nth_option rs 0) (nth_option rs 1)"
  let ?dfw3 = "fold set_jump jmps (dfw_append_insn ?call dfw1)"
  let ?dfw' = "dfw_append_insn (IF_FALSE_GOTO 0) ?dfw3"
  have g0: "grows dfw ?dfw0" "here dfw = here ?dfw0" using grows_next_register [of dfw "r + 1"] r by simp_all
  note sd = shapeD [OF ps(2)]
  have sh1: "shape dfw dfw1 jmps" by (rule shape_cong [OF g0(2,1) ps(2)])
  have sh3: "shape dfw ?dfw3 []" by (rule shape_close [OF sh1]) simp_all
  have here3: "here ?dfw3 = here dfw1 + 1" "next_insn_id ?dfw3 = here ?dfw3"
    using wf_dfwD(1) [OF shapeD(1) [OF sh3]] by (simp_all add: fold_set_jump_insns)
  have sh': "shape dfw ?dfw' [Some (here ?dfw3)]" using shape_open [OF sh3, of "IF_FALSE_GOTO 0"] by simp
  have same: "loaded_fields ?dfw' = loaded_fields dfw1" "next_register ?dfw' = next_register dfw1" by simp_all
  have free: "loaded_fields dfw1 h \<noteq> Some (r + 1)" for h
    using growsD(7) [OF sd(2), of h "r + 1"] wf_dfwD(3) [OF wf, of h "r + 1"] r by auto
  have r1: "r < next_register dfw1" using growsD(4) [OF sd(2)] by simp
  have code: "entity_code E (STTYPE_FUNCTION f ps) dfw r (Some (here ?dfw3)) ?dfw'"
    unfolding entity_code_def
  proof (intro allI impI)
    fix P C tgt a s
    assume rdy: "ready E P C tgt [Some (here ?dfw3)] dfw ?dfw' s"
    note rdy3 = ready_open [OF rdy sh3]
    note rdy1 = ready_close [OF rdy3(1) sh1]
    have rdy0: "ready E P C (here dfw1 + 1) jmps ?dfw0 dfw1 s" by (rule ready_cong [OF rdy1(1) g0(2,1)])
    have P: "P ! here dfw1 = ?call" "P ! (here dfw1 + 1) = IF_FALSE_GOTO tgt" "here dfw1 + 1 < length P"
      using rdy1(3) rdy3(2,3) here3 by simp_all
    have jump: "step E P (here dfw1 + 1, ok, s') (if ok then here ?dfw' else tgt, ok, s')" for ok s'
      using step.if_false [OF P(3,2), of E ok s'] here3 by (cases ok) simp_all
    have fresh: "\<not> steady dfw s r" by (simp add: steady_def r)
    have run: "\<exists>s2. steps E P (here dfw, a, s) (here dfw1 + 1, ok, s2) \<and> state_ok E ?dfw' s2 \<and>
        keep dfw s s2 \<and> steady ?dfw' s2 r \<and> regs s2 r = l"
      if ev: "eval_params E ps = Inr (Some ls)"
        "df_function f (nth_list ls 0) (nth_list ls 1) [] = Inr (ok, l)" for ls ok l
    proof -
      obtain a1 s1 where s1: "falls_through E P ?dfw0 dfw1 a s a1 s1" "map (regs s1) rs = ls"
        using ps(3) rdy0 ev(1) unfolding params_code_def by blast
      have "regs s r = []" "\<not> att s r" using rdy r by (auto simp: ready_def state_ok_def)
      moreover have "steady ?dfw0 s r"
        using wf_dfwD(3) [OF wf, of _ "r + 1"] r by (fastforce simp: steady_def)
      ultimately have old: "regs s1 r = []" using s1(1) by (auto simp: falls_through_def keep_def)
      let ?s2 = "s1\<lparr>regs := (regs s1)(r := l)\<rparr>"
      have run0: "steps E P (here dfw, a, s) (here dfw1, a1, s1)"
        using s1(1) by (simp add: falls_through_def)
      have "step E P (here dfw1, a1, s1) (here dfw1 + 1, ok, ?s2)"
        by (rule step.call [OF rdy1(2) P(1)]) (use ev(2) old regs_opt_nth [OF s1(2)] in simp)
      with run0 have "steps E P (here dfw, a, s) (here dfw1 + 1, ok, ?s2)"
        by (rule rtranclp.rtrancl_into_rtrancl)
      moreover have "state_ok E dfw1 s1" using s1(1) by (simp add: falls_through_def)
      then have "state_ok E ?dfw' ?s2" "steady ?dfw' ?s2 r"
        unfolding state_ok_cong [OF same] steady_cong [OF same] by (rule write_temp [OF _ r1 free])+
      moreover have "keep dfw s ?s2"
        by (rule keep_temp [OF fresh], rule keep_cong [OF _ g0(1)])
          (use s1(1) in \<open>simp add: falls_through_def\<close>)
      ultimately show ?thesis by (intro exI [of _ ?s2]) simp
    qed
    show "(\<forall>l. eval_entity E (STTYPE_FUNCTION f ps) = Inr (Some l) \<longrightarrow>
           (\<exists>a' s'. falls_through E P dfw ?dfw' a s a' s' \<and> steady ?dfw' s' r \<and> regs s' r = l)) \<and>
        (eval_entity E (STTYPE_FUNCTION f ps) = Inr None \<longrightarrow> bails_out E P tgt dfw ?dfw' a s)"
    proof (intro conjI allI impI)
      fix l assume "eval_entity E (STTYPE_FUNCTION f ps) = Inr (Some l)"
      then obtain ls where "eval_params E ps = Inr (Some ls)"
          "df_function f (nth_list ls 0) (nth_list ls 1) [] = Inr (True, l)"
        by (auto simp: errs split: option.splits if_splits simp del: nth_list.simps)
      from run [OF this] obtain s2 where s2: "steps E P (here dfw, a, s) (here dfw1 + 1, True, s2)"
          "state_ok E ?dfw' s2" "keep dfw s s2" "steady ?dfw' s2 r" "regs s2 r = l" by blast
      then have "steps E P (here dfw, a, s) (here ?dfw', True, s2)"
        using jump [of True s2] by (auto intro: rtranclp.rtrancl_into_rtrancl)
      then show "\<exists>a' s'. falls_through E P dfw ?dfw' a s a' s' \<and> steady ?dfw' s' r \<and> regs s' r = l"
        using s2 unfolding falls_through_def by blast
    next
      assume none: "eval_entity E (STTYPE_FUNCTION f ps) = Inr None"
      have "\<exists>s2. steps E P (here dfw, a, s) (here dfw1 + 1, False, s2) \<and> state_ok E ?dfw' s2 \<and> keep dfw s s2"
      proof (cases "eval_params E ps = Inr None")
        case True
        then have "bails_out E P (here dfw1 + 1) dfw dfw1 a s"
          using ps(3) rdy0 bails_cong [OF _ g0(2,1)] unfolding params_code_def by blast
        then show ?thesis using state_ok_cong [OF same] by (auto simp: bails_out_def)
      next
        case False
        then obtain ls l where "eval_params E ps = Inr (Some ls)"
            "df_function f (nth_list ls 0) (nth_list ls 1) [] = Inr (False, l)"
          using none by (auto simp: errs split: option.splits if_splits simp del: nth_list.simps)
        from run [OF this] show ?thesis by blast
      qed
      then show "bails_out E P tgt dfw ?dfw' a s"
        using jump [of False] unfolding bails_out_def by (auto intro: rtranclp.rtrancl_into_rtrancl)
    qed
  qed
  have "gen_entity reg (STTYPE_FUNCTION f ps) dfw = Inr (r, Some (here ?dfw3), ?dfw')"
    using ps(1) r here3(2) by (simp add: Let_def)
  then show ?thesis using sh' code r1 by auto
qed

text \<open>The induction over entities and lists of parameters.\<close>

lemma gen_entity_induction:
  shows "env_ok reg known E \<Longrightarrow> wf_dfw dfw \<Longrightarrow> wf_entity known e \<Longrightarrow>
      \<exists>r jmp dfw'. gen_entity reg e dfw = Inr (r, jmp, dfw') \<and> shape dfw dfw' [jmp] \<and>
        r < next_register dfw' \<and> entity_code E e dfw r jmp dfw'"
    and "env_ok reg known E \<Longrightarrow> wf_dfw dfw \<Longrightarrow> (\<forall>p \<in> set ps. wf_entity known p) \<Longrightarrow> i + length ps \<le> 2 \<Longrightarrow>
      \<exists>rs jmps dfw'. gen_params reg ps i dfw = Inr (rs, jmps, dfw') \<and> shape dfw dfw' jmps \<and>
        params_code E ps dfw rs jmps dfw'"
proof (induction reg e dfw and reg ps i dfw rule: gen_entity_gen_params.induct)
  case (1 reg h dfw)
  then show ?case using field_entity [of reg known E h dfw] by simp
next
  case (2 reg v dfw)
  then show ?case by (intro fvalue_entity)
next
  case (3 reg e d dfw)
  then obtain r jmp dfw1 where "gen_entity reg e dfw = Inr (r, jmp, dfw1)" "shape dfw dfw1 [jmp]"
      "entity_code E e dfw r jmp dfw1"
    by (metis wf_entity.simps(3))
  then show ?case by (rule range_entity)
next
  case (4 reg f ps dfw)
  let ?r = "next_register dfw"
  have "wf_dfw (dfw\<lparr>next_register := ?r + 1\<rparr>)" using 4 by (intro wf_next_register) simp_all
  then obtain rs jmps dfw1 where "gen_params reg ps 0 (dfw\<lparr>next_register := ?r + 1\<rparr>) = Inr (rs, jmps, dfw1)"
      "shape (dfw\<lparr>next_register := ?r + 1\<rparr>) dfw1 jmps"
      "params_code E ps (dfw\<lparr>next_register := ?r + 1\<rparr>) rs jmps dfw1"
    using "4.IH" [OF refl] "4.prems" by auto
  then show ?case by (rule function_entity [OF "4.prems"(2) refl])
next
  case (10 reg i dfw)
  then show ?case using params_Nil [of dfw E] by simp
next
  case (11 reg p ps i dfw)
  obtain r jmp dfw1 where e: "gen_entity reg p dfw = Inr (r, jmp, dfw1)" "shape dfw dfw1 [jmp]"
      "entity_code E p dfw r jmp dfw1"
    using "11.IH"(1) "11.prems" by auto
  have i: "i < 2" using "11.prems" by simp
  obtain rs jmps dfw2 where ps: "gen_params reg ps (i + 1) dfw1 = Inr (rs, jmps, dfw2)"
      "shape dfw1 dfw2 jmps" "params_code E ps dfw1 rs jmps dfw2"
    using "11.IH"(2) [OF e(1) refl refl i] "11.prems" shapeD(1) [OF e(2)] by auto
  show ?case
    using params_Cons [OF "11.prems"(2) e(2,3) ps(2,3)] e(1) ps(1) i by auto
qed simp_all

lemmas gen_entity_ok = gen_entity_induction(1)

end
