(* ===== verification/GencodeTests.thy ===== *)
theory GencodeTests
  imports GencodeProps
begin

text \<open>
  The code of the tests: relations, membership in a set, and the logical operators. A test leaves its
  truth in the accumulator and runs off the end of its code.
\<close>

lemmas step_Suc = step.intros [unfolded Suc_eq_plus1 [symmetric]]

section \<open>Registers that a test relies on\<close>

definition holding :: "'v dfwork \<Rightarrow> 'v mstate \<Rightarrow> (int \<times> 'v list) list \<Rightarrow> bool" where
  "holding dfw s rs = (\<forall>(r, vs) \<in> set rs. steady dfw s r \<and> regs s r = vs)"

lemma holding_nil: "holding dfw s []"
  by (simp add: holding_def)

lemma holding_keep:
  assumes "holding dfw s rs" "keep dfw s s'" "grows dfw dfw'"
  shows "holding dfw' s' rs"
  using assms steady_keep [OF _ assms(2)] steady_grows [OF _ assms(3)]
  by (fastforce simp: holding_def)

section \<open>The instruction that decides, and the jumps past it\<close>

text \<open>
  Code for entities followed by one instruction that decides: either the instruction is reached and
  decides \<open>m\<close>, or an entity is absent, \<open>m\<close> is false and the code jumps to the target.
\<close>

definition decides ::
    "'v env \<Rightarrow> (int \<times> 'v list) list \<Rightarrow> 'v dfwork \<Rightarrow> 'v dfwork \<Rightarrow> nat option list \<Rightarrow> 'v insn \<Rightarrow> bool res \<Rightarrow>
      bool" where
  "decides E Rs dfw dfw1 js x m =
     (shape dfw dfw1 js \<and> goto_target x = None \<and> \<not> is_read x \<and>
      (\<forall>P C tgt a s t. ready E P C tgt js dfw dfw1 s \<longrightarrow> here dfw1 < length P \<longrightarrow> P ! here dfw1 = x \<longrightarrow>
         holding dfw s Rs \<longrightarrow> m = Inr t \<longrightarrow>
         (\<exists>a1 s1. falls_through E P dfw dfw1 a s a1 s1 \<and>
            step E P (here dfw1, a1, s1) (here dfw1 + 1, t, s1)) \<or>
         (\<not> t \<and> bails_out E P tgt dfw dfw1 a s)))"

definition over_params ::
    "'v env \<Rightarrow> 'v stnode list \<Rightarrow> ('v list list \<Rightarrow> bool res) \<Rightarrow> bool res" where
  "over_params E ps g =
     bindE (eval_params E ps) (\<lambda>r. case r of None \<Rightarrow> Inr False | Some ls \<Rightarrow> g ls)"

lemma decides_params:
  assumes "shape dfw dfw1 js" "params_code E ps dfw rs js dfw1" "goto_target x = None" "\<not> is_read x"
    and "\<And>P a s t. here dfw1 < length P \<Longrightarrow> P ! here dfw1 = x \<Longrightarrow> holding dfw1 s Rs \<Longrightarrow>
           g (map (regs s) rs) = Inr t \<Longrightarrow> step E P (here dfw1, a, s) (here dfw1 + 1, t, s)"
  shows "decides E Rs dfw dfw1 js x (over_params E ps g)"
  unfolding decides_def
proof (intro conjI allI impI)
  fix P C tgt a s t
  assume rdy: "ready E P C tgt js dfw dfw1 s" and P: "here dfw1 < length P" "P ! here dfw1 = x"
    and hold: "holding dfw s Rs" and m: "over_params E ps g = Inr t"
  consider (absent) "eval_params E ps = Inr None" "\<not> t"
    | (present) ls where "eval_params E ps = Inr (Some ls)" "g ls = Inr t"
  proof -
    obtain r where "eval_params E ps = Inr r"
        "(case r of None \<Rightarrow> Inr False | Some ls \<Rightarrow> g ls) = Inr t"
      using m by (auto simp: over_params_def errs)
    then show thesis using that by (cases r) auto
  qed
  then show "(\<exists>a1 s1. falls_through E P dfw dfw1 a s a1 s1 \<and>
            step E P (here dfw1, a1, s1) (here dfw1 + 1, t, s1)) \<or>
         (\<not> t \<and> bails_out E P tgt dfw dfw1 a s)"
  proof cases
    case absent
    then show ?thesis using assms(2) rdy unfolding params_code_def by blast
  next
    case present
    then obtain a1 s1 where s1: "falls_through E P dfw dfw1 a s a1 s1" "map (regs s1) rs = ls"
      using assms(2) rdy unfolding params_code_def by blast
    have "holding dfw1 s1 Rs"
      using holding_keep [OF hold _ shapeD(2) [OF assms(1)]] s1(1) by (simp add: falls_through_def)
    then show ?thesis using assms(5) [OF P] s1 present(2) by blast
  qed
qed (use assms in simp_all)

lemma params_one:
  assumes "env_ok reg known E" "wf_dfw dfw" "wf_entity known p"
  shows "\<exists>r jmp dfw1. gen_entity reg p dfw = Inr (r, jmp, dfw1) \<and> shape dfw dfw1 [jmp] \<and>
           params_code E [p] dfw [r] [jmp] dfw1 \<and> r < next_register dfw1"
proof -
  obtain r jmp dfw1 where d: "gen_entity reg p dfw = Inr (r, jmp, dfw1)" "shape dfw dfw1 [jmp]"
      "entity_code E p dfw r jmp dfw1" "r < next_register dfw1"
    using gen_entity_ok [OF assms] by blast
  have nil: "shape dfw1 dfw1 []" "params_code E [] dfw1 [] [] dfw1"
    using params_Nil [OF shapeD(1) [OF d(2)], of E] by simp_all
  show ?thesis using params_Cons [OF assms(2) d(2,3) nil] d(1,4) by blast
qed

lemma params_two:
  assumes "env_ok reg known E" "wf_dfw dfw" "wf_entity known p" "wf_entity known q"
  shows "\<exists>r1 j1 dfw1 r2 j2 dfw2. gen_entity reg p dfw = Inr (r1, j1, dfw1) \<and>
           gen_entity reg q dfw1 = Inr (r2, j2, dfw2) \<and> shape dfw dfw2 [j1, j2] \<and>
           params_code E [p, q] dfw [r1, r2] [j1, j2] dfw2"
proof -
  obtain r1 j1 dfw1 where d: "gen_entity reg p dfw = Inr (r1, j1, dfw1)" "shape dfw dfw1 [j1]"
      "entity_code E p dfw r1 j1 dfw1"
    using gen_entity_ok [OF assms(1-3)] by blast
  obtain r2 j2 dfw2 where q: "gen_entity reg q dfw1 = Inr (r2, j2, dfw2)" "shape dfw1 dfw2 [j2]"
      "params_code E [q] dfw1 [r2] [j2] dfw2"
    using params_one [OF assms(1) shapeD(1) [OF d(2)] assms(4)] by blast
  show ?thesis using params_Cons [OF assms(2) d(2,3) q(2,3)] d(1) q(1) by blast
qed

section \<open>Complete tests\<close>

text \<open>Code without open jumps, not empty and not ending in a READ_TREE.\<close>

definition closed :: "'v dfwork \<Rightarrow> 'v dfwork \<Rightarrow> bool" where
  "closed dfw dfw' =
     (shape dfw dfw' [] \<and> here dfw < here dfw' \<and> \<not> is_read (last (insns dfw')))"

definition computes ::
    "'v env \<Rightarrow> (int \<times> 'v list) list \<Rightarrow> 'v dfwork \<Rightarrow> 'v dfwork \<Rightarrow> bool res \<Rightarrow> bool" where
  "computes E Rs dfw dfw' m =
     (\<forall>P C tgt a s b. ready E P C tgt [] dfw dfw' s \<longrightarrow> holding dfw s Rs \<longrightarrow> m = Inr b \<longrightarrow>
        (\<exists>s'. falls_through E P dfw dfw' a s b s'))"

lemma last_patched: "code \<noteq> [] \<Longrightarrow> is_read (last (patched code J t)) = is_read (last code)"
  by (simp add: last_conv_nth patched_def)

lemma bails_falls:
  assumes "bails_out E P (here dfw') dfw dfw1 a s"
    and "loaded_fields dfw' = loaded_fields dfw1" "next_register dfw' = next_register dfw1"
  shows "\<exists>s'. falls_through E P dfw dfw' a s False s'"
  using assms state_ok_cong [OF assms(2,3)] by (auto simp: bails_out_def falls_through_def)

lemma falls_step:
  assumes "falls_through E P dfw dfw1 a s a1 s1" "step E P (here dfw1, a1, s1) (here dfw', b, s1)"
    and "loaded_fields dfw' = loaded_fields dfw1" "next_register dfw' = next_register dfw1"
  shows "falls_through E P dfw dfw' a s b s1"
  using assms state_ok_cong [OF assms(3,4)]
  by (auto simp: falls_through_def intro: rtranclp.rtrancl_into_rtrancl)

lemma relation_code:
  assumes "decides E Rs dfw dfw1 js x m"
  shows "closed dfw (fold set_jump js (dfw_append_insn x dfw1))"
    "computes E Rs dfw (fold set_jump js (dfw_append_insn x dfw1)) m"
proof -
  let ?d' = "fold set_jump js (dfw_append_insn x dfw1)"
  have sh: "shape dfw dfw1 js" and x: "goto_target x = None" "\<not> is_read x"
    using assms by (simp_all add: decides_def)
  have here': "here ?d' = here dfw1 + 1" by (simp add: fold_set_jump_insns)
  show "closed dfw ?d'"
    using shape_close [OF sh x] here' growsD(3) [OF shapeD(2) [OF sh]] x
    by (simp add: closed_def fold_set_jump_insns last_patched)
  show "computes E Rs dfw ?d' m"
    unfolding computes_def
  proof (intro allI impI)
    fix P C tgt a s b
    assume rdy: "ready E P C tgt [] dfw ?d' s" and hold: "holding dfw s Rs" and m: "m = Inr b"
    note c = ready_close [OF rdy sh]
    consider a1 s1 where "falls_through E P dfw dfw1 a s a1 s1"
        "step E P (here dfw1, a1, s1) (here dfw1 + 1, b, s1)"
      | "\<not> b" "bails_out E P (here dfw1 + 1) dfw dfw1 a s"
      using assms c(1,2) c(3) [OF x(1)] m hold unfolding decides_def by blast
    then show "\<exists>s'. falls_through E P dfw ?d' a s b s'"
    proof cases
      case 1
      then show ?thesis using falls_step [of E P dfw dfw1 a s a1 s1 ?d' b] here' by auto
    next
      case 2
      then show ?thesis using bails_falls [of E P ?d' dfw dfw1 a s] here' by auto
    qed
  qed
qed

lemma eval_rel_params:
  "eval_rel E op a b =
     over_params E [a, b] (\<lambda>ls. any_test (op_cmp (env_ops E) op) (ls ! 0) (ls ! 1))"
  by (simp add: eval_rel_def over_params_def bindE_def split: sum.splits option.splits)

lemma gen_relation_ok:
  assumes "env_ok reg known E" "wf_dfw dfw" "wf_entity known a" "wf_entity known b"
  shows "\<exists>dfw'. gen_relation reg op a b dfw = Inr dfw' \<and> closed dfw dfw' \<and>
           computes E [] dfw dfw' (eval_rel E op a b)"
proof -
  obtain r1 j1 dfw1 r2 j2 dfw2 where d: "gen_entity reg a dfw = Inr (r1, j1, dfw1)"
      "gen_entity reg b dfw1 = Inr (r2, j2, dfw2)" "shape dfw dfw2 [j1, j2]"
      "params_code E [a, b] dfw [r1, r2] [j1, j2] dfw2"
    using params_two [OF assms] by blast
  have "decides E [] dfw dfw2 [j1, j2] (ANY op r1 r2) (eval_rel E op a b)"
    unfolding eval_rel_params by (rule decides_params [OF d(3,4)]) (auto intro: step_Suc)
  from relation_code [OF this] show ?thesis
    using d(1,2) by (simp add: gen_relation_def)
qed

section \<open>Elements of a set\<close>

lemma pend_cong:
  assumes "pend js = pend js'"
  shows "shape dfw dfw' js = shape dfw dfw' js'" "ready E P C tgt js dfw dfw' s = ready E P C tgt js' dfw dfw' s"
    "decides E Rs dfw dfw' js x m = decides E Rs dfw dfw' js' x m"
  using assms by (simp_all add: shape_def ready_def decides_def)

lemma eval_member_params:
  "eval_member E v (n, None) = over_params E [n] (\<lambda>ls. any_test (op_cmp (env_ops E) ANY_EQ) v (ls ! 0))"
  "eval_member E v (n, Some n') =
     over_params E [n, n'] (\<lambda>ls. any_in_range (env_ops E) v (ls ! 0) (ls ! 1))"
  by (simp_all add: eval_member_def over_params_def bindE_def split: sum.splits option.splits)

lemma element_code:
  assumes "env_ok reg known E" "wf_dfw dfw" "wf_entity known n1" "pred_option (wf_entity known) n2"
  shows "\<exists>j2 j3 dfw1 x.
    (\<forall>K. bindE (gen_entity reg n1 dfw) (\<lambda>(reg2, jmp2, dfwA).
        bindE (case n2 of
                 Some upper \<Rightarrow>
                   bindE (gen_entity reg upper dfwA) (\<lambda>(reg3, jmp3, dfwB).
                     Inr (jmp3, dfw_append_insn (ANY_IN_RANGE reg1 reg2 reg3) dfwB))
               | None \<Rightarrow> Inr (None, dfw_append_insn (ANY ANY_EQ reg1 reg2) dfwA))
          (\<lambda>(jmp3, dfwC). K jmp2 jmp3 dfwC)) = K j2 j3 (dfw_append_insn x dfw1)) \<and>
    (\<forall>v. decides E [(reg1, v)] dfw dfw1 [j2, j3] x (eval_member E v (n1, n2)))"
proof (cases n2)
  case None
  obtain r j dfw1 where d: "gen_entity reg n1 dfw = Inr (r, j, dfw1)" "shape dfw dfw1 [j]"
      "params_code E [n1] dfw [r] [j] dfw1"
    using params_one [OF assms(1-3)] by blast
  have "decides E [(reg1, v)] dfw dfw1 [j] (ANY ANY_EQ reg1 r) (eval_member E v (n1, None))" for v
    unfolding eval_member_params
    by (rule decides_params [OF d(2,3)]) (auto intro: step_Suc simp: holding_def)
  moreover have "pend [j] = pend [j, None]" by (cases j) simp_all
  ultimately have "\<forall>v. decides E [(reg1, v)] dfw dfw1 [j, None] (ANY ANY_EQ reg1 r) (eval_member E v (n1, None))"
    by (simp add: pend_cong(3) [of "[j]" "[j, None]"])
  then show ?thesis
    using None d(1) by (intro exI [of _ j] exI [of _ None] exI [of _ dfw1] exI [of _ "ANY ANY_EQ reg1 r"]) simp
next
  case (Some n')
  then have "wf_entity known n'" using assms(4) by simp
  then obtain r2 j2 dfw1 r3 j3 dfw2 where d: "gen_entity reg n1 dfw = Inr (r2, j2, dfw1)"
      "gen_entity reg n' dfw1 = Inr (r3, j3, dfw2)" "shape dfw dfw2 [j2, j3]"
      "params_code E [n1, n'] dfw [r2, r3] [j2, j3] dfw2"
    using params_two [OF assms(1-3)] by blast
  have "decides E [(reg1, v)] dfw dfw2 [j2, j3] (ANY_IN_RANGE reg1 r2 r3) (eval_member E v (n1, Some n'))" for v
    unfolding eval_member_params
    by (rule decides_params [OF d(3,4)]) (auto intro: step_Suc simp: holding_def)
  then show ?thesis
    using Some d(1,2)
    by (intro exI [of _ j2] exI [of _ j3] exI [of _ dfw2] exI [of _ "ANY_IN_RANGE reg1 r2 r3"]) simp
qed

lemma shape_snoc:
  assumes "shape dfw dfw1 js" "goto_target x = None"
  shows "shape dfw (dfw_append_insn x dfw1) js"
proof -
  note sd = shapeD [OF assms(1)]
  show ?thesis
    using seg_ok_snoc [OF sd(3) assms(2)] wf_append_insn [OF sd(1)] sd(4)
      grows_trans [OF sd(2) grows_append_insn]
    by (fastforce simp: shape_def nth_append)
qed

lemma shape_patch:
  assumes "shape dfw dfw1 (ks @ js)" "insns dfw1 \<noteq> []" "\<not> is_read (last (insns dfw1))"
  shows "shape dfw (fold set_jump js dfw1) ks"
proof -
  note sd = shapeD [OF assms(1)]
  have n: "next_insn_id dfw1 = length (insns dfw1)" using wf_dfwD(1) [OF sd(1)] .
  have "seg_ok (here dfw) (insns (fold set_jump js dfw1)) (pend ks)"
    unfolding fold_set_jump_insns n by (rule seg_ok_patched [OF sd(3)]) (use assms in auto)
  then show ?thesis
    using wf_set_jumps [OF sd(1)] grows_set_jumps [OF sd(2)] sd(4)
    by (auto simp: shape_def fold_set_jump_insns)
qed

text \<open>An element that is not the last one: its code jumps out of the set when it matches.\<close>

lemma element_jump:
  assumes "decides E Rs dfw dfw1 js x m"
    and k: "k = here dfw1 + 1"
    and d': "dfw' = fold set_jump js (dfw_append_insn (IF_TRUE_GOTO 0) (dfw_append_insn x dfw1))"
  shows "shape dfw dfw' [Some k] \<and> here dfw' = k + 1 \<and> \<not> is_read (last (insns dfw')) \<and>
    (\<forall>P C tgt a s t. ready E P C tgt [Some k] dfw dfw' s \<longrightarrow> holding dfw s Rs \<longrightarrow> m = Inr t \<longrightarrow>
       (\<exists>s'. steps E P (here dfw, a, s) (if t then tgt else here dfw', t, s') \<and> state_ok E dfw' s' \<and>
          keep dfw s s'))"
proof -
  let ?d2 = "dfw_append_insn x dfw1"
  let ?d3 = "dfw_append_insn (IF_TRUE_GOTO 0) ?d2"
  have sh: "shape dfw dfw1 js" and x: "goto_target x = None" "\<not> is_read x"
    using assms(1) by (simp_all add: decides_def)
  note sd = shapeD [OF sh]
  have sh3: "shape dfw ?d3 (Some k # js)"
    using shape_open [OF shape_snoc [OF sh x(1)], of "IF_TRUE_GOTO 0"] k by simp
  have here': "here dfw' = k + 1" "next_insn_id ?d3 = k + 1"
    using k d' wf_dfwD(1) [OF sd(1)] by (simp_all add: fold_set_jump_insns)
  have knot: "k \<notin> pend js" using sd(4) k by fastforce
  have sh': "shape dfw dfw' [Some k]" unfolding d' by (rule shape_patch) (use sh3 in simp_all)
  have last': "\<not> is_read (last (insns dfw'))" unfolding d' by (simp add: fold_set_jump_insns last_patched)
  have same: "loaded_fields dfw' = loaded_fields dfw1" "next_register dfw' = next_register dfw1"
    by (simp_all add: d')
  have "\<exists>s'. steps E P (here dfw, a, s) (if t then tgt else here dfw', t, s') \<and> state_ok E dfw' s' \<and> keep dfw s s'"
    if rdy: "ready E P C tgt [Some k] dfw dfw' s" and hold: "holding dfw s Rs" and m: "m = Inr t"
    for P C tgt a s t
  proof -
    have ag: "agree P (here dfw) (patched (insns ?d3) (pend js) (k + 1)) {k}"
      using rdy d' here'(2) by (simp add: ready_def fold_set_jump_insns)
    note ag3 = agree_patched [OF ag]
    have n: "here dfw \<le> here dfw1" using growsD(3) [OF sd(2)] .
    have P: "here dfw1 < length P" "P ! here dfw1 = x" "k < length P" "P ! k = IF_TRUE_GOTO tgt"
    proof -
      show "here dfw1 < length P" "k < length P" using ag k by (simp_all add: agree_def)
      have "here dfw1 \<notin> pend js \<union> {k}" using sd(4) k by fastforce
      then show "P ! here dfw1 = x" using agreeD [OF ag3(1), of "here dfw1"] n by (simp add: nth_append)
      show "P ! k = IF_TRUE_GOTO tgt"
        using rdy k knot d' by (simp add: ready_def fold_set_jump_insns nth_append)
    qed
    have "agree P (here dfw) (insns dfw1) (pend js)"
      by (rule agree_left [OF ag3(1)]) (use k in auto)
    moreover have "P ! j = with_target (k + 1) (insns dfw1 ! j)" if "j \<in> pend js" for j
      using ag3(2) [OF that] sd(4) [OF that] k by (auto simp: nth_append)
    ultimately have rdy1: "ready E P C (k + 1) js dfw dfw1 s"
      using rdy d' by (simp add: ready_def)
    have jump: "step E P (k, t, s1) (if t then tgt else k + 1, t, s1)" for s1
      by (rule step.if_true [OF P(3,4)])
    consider a1 s1 where "falls_through E P dfw dfw1 a s a1 s1"
        "step E P (here dfw1, a1, s1) (here dfw1 + 1, t, s1)"
      | "\<not> t" "bails_out E P (k + 1) dfw dfw1 a s"
      using assms(1) rdy1 P(1,2) hold m unfolding decides_def by blast
    then show ?thesis
    proof cases
      case 1
      then have "steps E P (here dfw, a, s) (here dfw1, a1, s1)" by (simp add: falls_through_def)
      then have "steps E P (here dfw, a, s) (k, t, s1)"
        using 1(2) k by (auto intro: rtranclp.rtrancl_into_rtrancl)
      then have "steps E P (here dfw, a, s) (if t then tgt else here dfw', t, s1)"
        using jump [of s1] here'(1) by (auto intro: rtranclp.rtrancl_into_rtrancl)
      then show ?thesis
        using 1(1) state_ok_cong [OF same] by (auto simp: falls_through_def)
    next
      case 2
      then show ?thesis using state_ok_cong [OF same] here'(1) by (auto simp: bails_out_def)
    qed
  qed
  then show ?thesis using sh' here'(1) last' by blast
qed

definition set_code ::
    "'v env \<Rightarrow> int \<Rightarrow> ('v stnode \<times> 'v stnode option) list \<Rightarrow> 'v dfwork \<Rightarrow> nat option list \<Rightarrow> 'v dfwork \<Rightarrow>
      bool" where
  "set_code E reg1 elems dfw js dfw' =
     (shape dfw dfw' js \<and> here dfw < here dfw' \<and> \<not> is_read (last (insns dfw')) \<and>
      (\<forall>P C a s v b. ready E P C (here dfw') js dfw dfw' s \<longrightarrow> holding dfw s [(reg1, v)] \<longrightarrow>
         eval_set E v elems = Inr b \<longrightarrow> (\<exists>s'. falls_through E P dfw dfw' a s b s')))"


lemma set_code_last:
  assumes "\<And>v. decides E [(reg1, v)] dfw dfw1 js x (eval_member E v elem)"
  shows "set_code E reg1 [elem] dfw [] (fold set_jump js (dfw_append_insn x dfw1))"
proof -
  let ?dfw' = "fold set_jump js (dfw_append_insn x dfw1)"
  have comp: "computes E [(reg1, v)] dfw ?dfw' (eval_member E v elem)" for v
    by (rule relation_code(2) [OF assms])
  have "eval_set E v [elem] = eval_member E v elem" for v
    by (simp add: bindE_def split: sum.splits)
  then show ?thesis
    using relation_code(1) [OF assms [of undefined]] comp
    unfolding closed_def set_code_def computes_def by auto
qed

lemma set_code_Cons:
  assumes wf: "wf_dfw dfw"
    and elem: "\<And>v. decides E [(reg1, v)] dfw dfw1 js1 x (eval_member E v elem)"
    and k: "k = here dfw1 + 1"
    and dA: "dfwA = fold set_jump js1 (dfw_append_insn (IF_TRUE_GOTO 0) (dfw_append_insn x dfw1))"
    and tail: "set_code E reg1 elems dfwA js dfw'"
  shows "set_code E reg1 (elem # elems) dfw (js @ [Some k]) dfw'"
proof -
  note ej = element_jump [OF elem k dA]
  have sh1: "shape dfw dfwA [Some k]" using ej by blast
  have sh2: "shape dfwA dfw' js" "here dfwA < here dfw'" "\<not> is_read (last (insns dfw'))"
    using tail by (simp_all add: set_code_def)
  have comm: "pend (js @ [Some k]) = pend ([Some k] @ js)" by auto
  have sh: "shape dfw dfw' (js @ [Some k])"
    unfolding pend_cong(1) [OF comm] by (rule shape_trans [OF sh1 sh2(1)])
  have "\<exists>s'. falls_through E P dfw dfw' a s b s'"
    if rdy: "ready E P C (here dfw') (js @ [Some k]) dfw dfw' s" and hold: "holding dfw s [(reg1, v)]"
      and ev: "eval_set E v (elem # elems) = Inr b" for P C a s v b
  proof -
    have rdy': "ready E P C (here dfw') ([Some k] @ js) dfw dfw' s"
      using rdy unfolding pend_cong(2) [OF comm] .
    obtain t where t: "eval_member E v elem = Inr t" "t \<longrightarrow> b" "\<not> t \<longrightarrow> eval_set E v elems = Inr b"
      using ev by (auto simp: errs split: if_splits)
    obtain s1 where s1: "steps E P (here dfw, a, s) (if t then here dfw' else here dfwA, t, s1)"
        "state_ok E dfwA s1" "keep dfw s s1"
      using ej ready_first [OF rdy' sh1 sh2(1)] hold t(1) by blast
    show ?thesis
    proof (cases t)
      case True
      then show ?thesis
        using s1 t(2) state_ok_grows [OF s1(2) shapeD(2) [OF sh2(1)]] by (auto simp: falls_through_def)
    next
      case False
      then have ft: "falls_through E P dfw dfwA a s False s1" using s1 by (simp add: falls_through_def)
      note rdyA = ready_second [OF rdy' sh1 sh2(1) ft wf]
      have "holding dfwA s1 [(reg1, v)]" by (rule holding_keep [OF hold s1(3) shapeD(2) [OF sh1]])
      then obtain s2 where "falls_through E P dfwA dfw' False s1 b s2"
        using tail rdyA t(3) False unfolding set_code_def by blast
      then show ?thesis using falls_trans [OF ft _ shapeD(2) [OF sh1]] by blast
    qed
  qed
  then show ?thesis
    using sh sh2(2,3) growsD(3) [OF shapeD(2) [OF sh1]] unfolding set_code_def by fastforce
qed

lemma gen_set_ok:
  fixes elems :: "('v stnode \<times> 'v stnode option) list"
  assumes "env_ok reg known E" "wf_dfw dfw" "elems \<noteq> []" "wf_set known elems"
  shows "\<exists>js dfw'. gen_set reg reg1 elems jumplist dfw = Inr (js @ jumplist, dfw') \<and>
           set_code E reg1 elems dfw js dfw'"
  using assms(2-4)
proof (induction elems arbitrary: dfw jumplist)
  case (Cons elem elems)
  obtain n1 n2 where e: "elem = (n1, n2)" by (cases elem)
  have wfe: "wf_entity known n1" "pred_option (wf_entity known) n2"
    using Cons.prems(3) e by (simp_all add: wf_set_def)
  obtain j2 j3 dfw1 x where
      gen: "\<And>K. bindE (gen_entity reg n1 dfw) (\<lambda>(reg2, jmp2, dfwA).
        bindE (case n2 of
                 Some upper \<Rightarrow>
                   bindE (gen_entity reg upper dfwA) (\<lambda>(reg3, jmp3, dfwB).
                     Inr (jmp3, dfw_append_insn (ANY_IN_RANGE reg1 reg2 reg3) dfwB))
               | None \<Rightarrow> Inr (None, dfw_append_insn (ANY ANY_EQ reg1 reg2) dfwA))
          (\<lambda>(jmp3, dfwC). K jmp2 jmp3 dfwC)) =
        (K j2 j3 (dfw_append_insn x dfw1) :: (nat option list \<times> 'v dfwork) res)"
    and dec: "\<And>v. decides E [(reg1, v)] dfw dfw1 [j2, j3] x (eval_member E v elem)"
    unfolding e using element_code [OF assms(1) Cons.prems(1) wfe, of reg1] by blast
  have n: "next_insn_id dfw1 = here dfw1"
    using dec [of undefined] by (auto simp: decides_def intro: wf_dfwD(1) shapeD(1))
  show ?case
  proof (cases "elems = []")
    case True
    have "gen_set reg reg1 (elem # elems) jumplist dfw =
        Inr ([] @ jumplist, fold set_jump [j2, j3] (dfw_append_insn x dfw1))"
      unfolding e gen_set.simps by (rule trans [OF gen]) (simp add: True Let_def)
    then show ?thesis using set_code_last [OF dec] True by blast
  next
    case False
    let ?k = "here dfw1 + 1"
    let ?A = "fold set_jump [j2, j3] (dfw_append_insn (IF_TRUE_GOTO 0) (dfw_append_insn x dfw1))"
    have "wf_dfw ?A" using element_jump [OF dec refl refl] shapeD(1) by blast
    then obtain js dfw' where tl: "gen_set reg reg1 elems (Some ?k # jumplist) ?A = Inr (js @ Some ?k # jumplist, dfw')"
        "set_code E reg1 elems ?A js dfw'"
      using Cons.IH [of ?A "Some ?k # jumplist"] False Cons.prems(3) by (auto simp: wf_set_def)
    have "gen_set reg reg1 (elem # elems) jumplist dfw = Inr ((js @ [Some ?k]) @ jumplist, dfw')"
      unfolding e gen_set.simps by (rule trans [OF gen]) (use False tl(1) n in \<open>simp add: Let_def\<close>)
    then show ?thesis using set_code_Cons [OF Cons.prems(1) dec refl refl tl(2)] by blast
  qed
qed simp


section \<open>Filling in the jumps that end here\<close>

lemma ready_patch:
  assumes "ready E P C tgt [] dfw (fold set_jump js dfw1) s" "shape dfw dfw1 js"
  shows "ready E P C (here dfw1) js dfw dfw1 s"
proof -
  note sd = shapeD [OF assms(2)]
  have "agree P (here dfw) (patched (insns dfw1) (pend js) (here dfw1)) {}"
    using assms(1) wf_dfwD(1) [OF sd(1)] by (simp add: ready_def fold_set_jump_insns)
  note ag = agree_patched [OF this]
  show ?thesis using assms(1) ag sd(4) by (simp add: ready_def)
qed

lemma closed_patch:
  assumes "shape dfw dfw1 js" "here dfw < here dfw1" "\<not> is_read (last (insns dfw1))"
  shows "closed dfw (fold set_jump js dfw1)"
proof -
  have "insns dfw1 \<noteq> []" using assms(2) by auto
  then show ?thesis
    using shape_patch [of dfw dfw1 "[]" js] assms by (simp add: closed_def fold_set_jump_insns last_patched)
qed

lemma falls_patch:
  "falls_through E P dfw (fold set_jump js dfw1) a s a' s' = falls_through E P dfw dfw1 a s a' s'"
  by (simp add: falls_through_def fold_set_jump_insns state_ok_def)

subsection \<open>Membership\<close>

lemma membership_code:
  assumes wf: "wf_dfw dfw"
    and e: "shape dfw dfw1 [jmp]" "entity_code E e dfw r jmp dfw1"
    and set: "set_code E r elems dfw1 js dfw2"
  shows "closed dfw (fold set_jump (jmp # js) dfw2)"
    "computes E [] dfw (fold set_jump (jmp # js) dfw2) (eval_in E e (STTYPE_SET elems))"
proof -
  have s2: "shape dfw1 dfw2 js" "here dfw1 < here dfw2" "\<not> is_read (last (insns dfw2))"
    using set by (simp_all add: set_code_def)
  have sh: "shape dfw dfw2 (jmp # js)" using shape_trans [OF e(1) s2(1)] by simp
  note g1 = shapeD(2) [OF e(1)] and g2 = shapeD(2) [OF s2(1)]
  show "closed dfw (fold set_jump (jmp # js) dfw2)"
    by (rule closed_patch [OF sh]) (use growsD(3) [OF g1] s2 in simp_all)
  show "computes E [] dfw (fold set_jump (jmp # js) dfw2) (eval_in E e (STTYPE_SET elems))"
    unfolding computes_def
  proof (intro allI impI)
    fix P C tgt a s b
    assume "ready E P C tgt [] dfw (fold set_jump (jmp # js) dfw2) s"
      and ev: "eval_in E e (STTYPE_SET elems) = Inr b"
    from ready_patch [OF this(1) sh] have rdy: "ready E P C (here dfw2) ([jmp] @ js) dfw dfw2 s" by simp
    note rdy1 = ready_first [OF rdy e(1) s2(1)]
    obtain x where x: "eval_entity E e = Inr x"
        "(case x of None \<Rightarrow> Inr False | Some l \<Rightarrow> eval_set E l elems) = Inr b"
      using ev by (auto simp: eval_in_def errs)
    have "\<exists>s'. falls_through E P dfw dfw2 a s b s'"
    proof (cases x)
      case None
      then have "bails_out E P (here dfw2) dfw dfw1 a s" "\<not> b"
        using e(2) rdy1 x unfolding entity_code_def by auto
      then show ?thesis
        using bails_grows [OF _ g2] unfolding bails_out_def falls_through_def by auto
    next
      case (Some l)
      then obtain a1 s1 where s1: "falls_through E P dfw dfw1 a s a1 s1" "steady dfw1 s1 r" "regs s1 r = l"
        using e(2) rdy1 x unfolding entity_code_def by blast
      have "holding dfw1 s1 [(r, l)]" using s1 by (simp add: holding_def)
      moreover have "eval_set E l elems = Inr b" using x(2) Some by simp
      ultimately obtain s2 where "falls_through E P dfw1 dfw2 a1 s1 b s2"
        using set ready_second [OF rdy e(1) s2(1) s1(1) wf] unfolding set_code_def by blast
      then show ?thesis using falls_trans [OF s1(1) _ g1] by blast
    qed
    then show "\<exists>s'. falls_through E P dfw (fold set_jump (jmp # js) dfw2) a s b s'"
      unfolding falls_patch .
  qed
qed

lemma gen_relation_in_ok:
  assumes "env_ok reg known E" "wf_dfw dfw" "wf_entity known a" "elems \<noteq> []" "wf_set known elems"
  shows "\<exists>dfw'. gen_relation_in reg a (STTYPE_SET elems) dfw = Inr dfw' \<and> closed dfw dfw' \<and>
           computes E [] dfw dfw' (eval_in E a (STTYPE_SET elems))"
proof -
  obtain r jmp dfw1 where d: "gen_entity reg a dfw = Inr (r, jmp, dfw1)" "shape dfw dfw1 [jmp]"
      "entity_code E a dfw r jmp dfw1"
    using gen_entity_ok [OF assms(1-3)] by blast
  obtain js dfw2 where s: "gen_set reg r elems [] dfw1 = Inr (js, dfw2)" "set_code E r elems dfw1 js dfw2"
    using gen_set_ok [OF assms(1) shapeD(1) [OF d(2)] assms(4,5), of r "[]"] by auto
  show ?thesis
    using membership_code [OF assms(2) d(2,3) s(2)] d(1) s(1) by (simp add: gen_relation_in_def)
qed

subsection \<open>Existence\<close>

lemma interesting_cong:
  "closed dfw (dfw'\<lparr>interesting_fields := f\<rparr>) = closed dfw dfw'"
  "computes E Rs dfw (dfw'\<lparr>interesting_fields := f\<rparr>) m = computes E Rs dfw dfw' m"
  by (simp_all add: closed_def computes_def shape_def wf_dfw_def grows_def ready_def falls_through_def
      state_ok_def)

lemma gen_exists_ok:
  assumes "env_ok reg known E" "wf_dfw dfw" "known h"
  shows "\<exists>dfw'. gen_exists reg (STTYPE_FIELD h) dfw = Inr dfw' \<and> closed dfw dfw' \<and>
           computes E [] dfw dfw' (Inr (env_exists E h))"
proof -
  obtain h0 where h0: "rewind reg h = Inr h0" "env_exists E h0 = env_exists E h"
    using assms(1,3) unfolding env_ok_def by blast
  let ?d = "dfw_append_insn (CHECK_EXISTS h0) dfw"
  obtain fields where f: "record_interesting reg h0 ?d = Inr (?d\<lparr>interesting_fields := fields\<rparr>)"
    using record_interesting_Inr [OF assms(1,3) h0(1)] by blast
  have "decides E [] dfw dfw [] (CHECK_EXISTS h0) (Inr (env_exists E h))"
    unfolding decides_def
  proof (intro conjI allI impI)
    fix P C tgt a s t
    assume "ready E P C tgt [] dfw dfw s" "here dfw < length P" "P ! here dfw = CHECK_EXISTS h0"
      and t: "Inr (env_exists E h) = (Inr t :: bool res)"
    then have "falls_through E P dfw dfw a s a s" "step E P (here dfw, a, s) (here dfw + 1, t, s)"
      using step.check_exists [of "here dfw" P h0 E a s] h0(2)
      by (simp_all add: ready_def falls_through_def)
    then show "(\<exists>a1 s1. falls_through E P dfw dfw a s a1 s1 \<and>
            step E P (here dfw, a1, s1) (here dfw + 1, t, s1)) \<or>
         (\<not> t \<and> bails_out E P tgt dfw dfw a s)" by blast
  qed (simp_all add: shape_refl assms(2))
  from relation_code [OF this] show ?thesis
    using h0(1) f by (simp add: gen_exists_def interesting_cong)
qed

subsection \<open>Conjunction and disjunction\<close>

text \<open>\<open>c\<close> is the value that decides: true for a disjunction, false for a conjunction.\<close>

lemma shortcut_code:
  assumes wf: "wf_dfw dfw" and x: "x = (if c then IF_TRUE_GOTO 0 else IF_FALSE_GOTO 0)"
    and a: "closed dfw dfw1" "computes E [] dfw dfw1 m1"
    and b: "closed (dfw_append_insn x dfw1) dfw2" "computes E [] (dfw_append_insn x dfw1) dfw2 m2"
  shows "closed dfw (set_jump (Some (here dfw1)) dfw2)"
    "computes E [] dfw (set_jump (Some (here dfw1)) dfw2) (bindE m1 (\<lambda>t. if t = c then Inr t else m2))"
proof -
  let ?dA = "dfw_append_insn x dfw1" and ?k = "here dfw1"
  have s1: "shape dfw dfw1 []" "here dfw < ?k" using a(1) by (simp_all add: closed_def)
  have sA: "shape dfw ?dA [Some ?k]" using shape_open [OF s1(1), of x] x by simp
  have s2: "shape ?dA dfw2 []" "here ?dA < here dfw2" "\<not> is_read (last (insns dfw2))"
    using b(1) by (simp_all add: closed_def)
  have sh: "shape dfw dfw2 [Some ?k]" using shape_trans [OF sA s2(1)] by simp
  have patch: "set_jump (Some ?k) dfw2 = fold set_jump [Some ?k] dfw2" by simp
  show "closed dfw (set_jump (Some ?k) dfw2)"
    unfolding patch by (rule closed_patch [OF sh]) (use s1 s2 in simp_all)
  show "computes E [] dfw (set_jump (Some ?k) dfw2) (bindE m1 (\<lambda>t. if t = c then Inr t else m2))"
    unfolding computes_def
  proof (intro allI impI)
    fix P C tgt a0 s r
    assume "ready E P C tgt [] dfw (set_jump (Some ?k) dfw2) s"
      and ev: "bindE m1 (\<lambda>t. if t = c then Inr t else m2) = Inr r"
    from this(1) [unfolded patch] have "ready E P C (here dfw2) [Some ?k] dfw dfw2 s"
      by (rule ready_patch) (rule sh)
    then have rdy: "ready E P C (here dfw2) ([Some ?k] @ []) dfw dfw2 s" by simp
    note rdyA = ready_open [OF ready_first [OF rdy sA s2(1)] s1(1)]
    obtain t where t: "m1 = Inr t" "t = c \<longrightarrow> r = t" "t \<noteq> c \<longrightarrow> m2 = Inr r"
      using ev by (auto simp: errs split: if_splits)
    obtain s1 where s1: "falls_through E P dfw dfw1 a0 s t s1"
      using a(2) rdyA(1) t(1) holding_nil unfolding computes_def by blast
    have jump: "step E P (?k, t, s1) (if t = c then here dfw2 else ?k + 1, t, s1)"
    proof (cases c)
      case True
      then have "P ! ?k = IF_TRUE_GOTO (here dfw2)" using rdyA(3) x by simp
      then show ?thesis using step.if_true [OF rdyA(2), of "here dfw2" E t s1] True by simp
    next
      case False
      then have "P ! ?k = IF_FALSE_GOTO (here dfw2)" using rdyA(3) x by simp
      then show ?thesis using step.if_false [OF rdyA(2), of "here dfw2" E t s1] False by simp
    qed
    have run: "steps E P (here dfw, a0, s) (if t = c then here dfw2 else ?k + 1, t, s1)"
      using s1 jump unfolding falls_through_def by (blast intro: rtranclp.rtrancl_into_rtrancl)
    have kp: "keep dfw s s1" "state_ok E ?dA s1" using s1 by (simp_all add: falls_through_def state_ok_def)
    have "\<exists>s'. falls_through E P dfw dfw2 a0 s r s'"
    proof (cases "t = c")
      case True
      then show ?thesis
        using run kp t(2) state_ok_grows [OF kp(2) shapeD(2) [OF s2(1)]] by (auto simp: falls_through_def)
    next
      case False
      then have ft: "falls_through E P dfw ?dA a0 s t s1" using run kp by (simp add: falls_through_def)
      obtain s3 where "falls_through E P ?dA dfw2 t s1 r s3"
        using b(2) ready_second [OF rdy sA s2(1) ft wf] t(3) False holding_nil
        unfolding computes_def by blast
      then show ?thesis using falls_trans [OF ft _ shapeD(2) [OF sA]] by blast
    qed
    then show "\<exists>s'. falls_through E P dfw (set_jump (Some ?k) dfw2) a0 s r s'"
      unfolding patch falls_patch .
  qed
qed


section \<open>Every test\<close>

lemma negation_code:
  assumes "closed dfw dfw1" "computes E [] dfw dfw1 m"
  shows "closed dfw (dfw_append_insn NOT_INSN dfw1)"
    "computes E [] dfw (dfw_append_insn NOT_INSN dfw1) (bindE m (\<lambda>x. Inr (\<not> x)))"
proof -
  have sh: "shape dfw dfw1 []" "here dfw < here dfw1" using assms(1) by (simp_all add: closed_def)
  let ?d = "fold set_jump [] (dfw_append_insn NOT_INSN dfw1)"
  show "closed dfw (dfw_append_insn NOT_INSN dfw1)"
    using shape_close [OF sh(1), of NOT_INSN] sh(2) by (simp add: closed_def)
  show "computes E [] dfw (dfw_append_insn NOT_INSN dfw1) (bindE m (\<lambda>x. Inr (\<not> x)))"
    unfolding computes_def
  proof (intro allI impI)
    fix P C tgt a s b
    assume "ready E P C tgt [] dfw (dfw_append_insn NOT_INSN dfw1) s"
      and "bindE m (\<lambda>x. Inr (\<not> x)) = Inr b"
    then have rdy: "ready E P C tgt [] dfw ?d s" and m: "m = Inr (\<not> b)" by (auto simp: errs)
    note c = ready_close [OF rdy sh(1)]
    obtain s1 where s1: "falls_through E P dfw dfw1 a s (\<not> b) s1"
      using assms(2) c(1) m holding_nil unfolding computes_def by blast
    have "step E P (here dfw1, \<not> b, s1) (here dfw1 + 1, b, s1)"
      using step.negate [OF c(2) c(3), of E "\<not> b" s1] by simp
    then show "\<exists>s'. falls_through E P dfw (dfw_append_insn NOT_INSN dfw1) a s b s'"
      using falls_step [OF s1, of "dfw_append_insn NOT_INSN dfw1" b] by auto
  qed
qed

lemma eval_shortcut:
  "bindE m (\<lambda>x. if x then m2 else Inr False) = bindE m (\<lambda>t. if t = False then Inr t else m2)"
  "bindE m (\<lambda>x. if x then Inr True else m2) = bindE m (\<lambda>t. if t = True then Inr t else m2)"
  by (simp_all add: bindE_def split: sum.splits)

theorem gencode_ok:
  assumes "env_ok reg known E" "wf_dfw dfw" "wf_test known t"
  shows "\<exists>dfw'. gencode reg t dfw = Inr dfw' \<and> closed dfw dfw' \<and> computes E [] dfw dfw' (eval_test E t)"
  using assms
proof (induction reg t dfw rule: gencode.induct)
  case (1 reg a b dfw)
  then show ?case using gen_exists_ok [of reg known E dfw] by (auto split: stnode.splits)
next
  case (2 reg a b dfw)
  then obtain dfw1 where "gencode reg a dfw = Inr dfw1" "closed dfw dfw1"
      "computes E [] dfw dfw1 (eval_test E a)" by auto
  then show ?case using negation_code [of dfw dfw1 E] by simp
next
  case (3 reg a b dfw)
  then obtain dfw1 where d: "gencode reg a dfw = Inr dfw1" "closed dfw dfw1"
      "computes E [] dfw dfw1 (eval_test E a)" by auto
  let ?A = "dfw_append_insn (IF_FALSE_GOTO 0) dfw1"
  have wf1: "wf_dfw dfw1" using d(2) by (auto simp: closed_def intro: shapeD(1))
  then obtain dfw2 where e: "gencode reg b ?A = Inr dfw2" "closed ?A dfw2"
      "computes E [] ?A dfw2 (eval_test E b)"
    using "3.IH"(2) [OF d(1)] "3.prems" wf_append_insn [OF wf1] by auto
  show ?case
    using shortcut_code [OF "3.prems"(2) _ d(2,3) e(2,3), of False] d(1) e(1) wf_dfwD(1) [OF wf1]
    by (simp add: eval_shortcut)
next
  case (4 reg a b dfw)
  then obtain dfw1 where d: "gencode reg a dfw = Inr dfw1" "closed dfw dfw1"
      "computes E [] dfw dfw1 (eval_test E a)" by auto
  let ?A = "dfw_append_insn (IF_TRUE_GOTO 0) dfw1"
  have wf1: "wf_dfw dfw1" using d(2) by (auto simp: closed_def intro: shapeD(1))
  then obtain dfw2 where e: "gencode reg b ?A = Inr dfw2" "closed ?A dfw2"
      "computes E [] ?A dfw2 (eval_test E b)"
    using "4.IH"(2) [OF d(1)] "4.prems" wf_append_insn [OF wf1] by auto
  show ?case
    using shortcut_code [OF "4.prems"(2) _ d(2,3) e(2,3), of True] d(1) e(1) wf_dfwD(1) [OF wf1]
    by (simp add: eval_shortcut)
next
  case (5 reg a b dfw)
  then obtain elems where "b = STTYPE_SET elems" "elems \<noteq> []" "wf_set known elems" "wf_entity known a"
    by (auto split: stnode.splits)
  then show ?case using gen_relation_in_ok [of reg known E dfw a elems] "5.prems" by simp
qed (simp_all add: rel_op_def gen_relation_ok [of _ known])

end
