(* ===== verification/GencodeRegs.thy ===== *)
theory GencodeRegs
  imports GencodeTests
begin

text \<open>
  The registers in the emitted code. Every operand of an instruction has been allocated, so that the
  machine stays inside its arrays; a register that a range or a function is stored in is never one of a
  field; and the fields in the code are the first ones of their names.
\<close>

definition usable :: "'v dfwork \<Rightarrow> int \<Rightarrow> bool" where
  "usable dfw r = (first_constant dfw < r \<and> r < next_register dfw)"

definition temporary :: "'v dfwork \<Rightarrow> int \<Rightarrow> bool" where
  "temporary dfw r = (0 \<le> r \<and> r < next_register dfw \<and> (\<forall>h. loaded_fields dfw h \<noteq> Some (r + 1)))"

fun insn_ok :: "(nat \<Rightarrow> bool) \<Rightarrow> 'v dfwork \<Rightarrow> 'v insn \<Rightarrow> bool" where
  "insn_ok K dfw (READ_TREE h r) = (K h \<and> loaded_fields dfw h = Some (r + 1))"
| "insn_ok K dfw (CHECK_EXISTS h) = K h"
| "insn_ok K dfw (MK_RANGE r1 r2 d) = (usable dfw r1 \<and> temporary dfw r2)"
| "insn_ok K dfw (CALL_FUNCTION f r r1 r2) =
     (temporary dfw r \<and> pred_option (usable dfw) r1 \<and> pred_option (usable dfw) r2)"
| "insn_ok K dfw (ANY op r1 r2) = (usable dfw r1 \<and> usable dfw r2)"
| "insn_ok K dfw (ANY_IN_RANGE r1 r2 r3) = (usable dfw r1 \<and> usable dfw r2 \<and> usable dfw r3)"
| "insn_ok K dfw (PUT_FVALUE v r) = False"
| "insn_ok K dfw RETURN = False"
| "insn_ok K dfw _ = True"

definition regs_ok :: "(nat \<Rightarrow> bool) \<Rightarrow> 'v dfwork \<Rightarrow> bool" where
  "regs_ok K dfw = (\<forall>x \<in> set (insns dfw). insn_ok K dfw x)"

text \<open>The first field of the name of a known field.\<close>

definition first_of :: "'p registrar \<Rightarrow> (nat \<Rightarrow> bool) \<Rightarrow> nat \<Rightarrow> bool" where
  "first_of reg known h0 = (\<exists>h. known h \<and> rewind reg h = Inr h0)"

section \<open>The work area grows\<close>

lemma usable_grows: "usable dfw r \<Longrightarrow> wf_dfw dfw \<Longrightarrow> wf_dfw dfw' \<Longrightarrow> grows dfw dfw' \<Longrightarrow> usable dfw' r"
  using growsD(4) [of dfw dfw'] prefix_length_le [OF growsD(2) [of dfw dfw']]
  by (auto simp: usable_def wf_dfw_def)

lemma temporary_grows: "temporary dfw r \<Longrightarrow> grows dfw dfw' \<Longrightarrow> temporary dfw' r"
  using growsD(4,7) [of dfw dfw'] by (fastforce simp: temporary_def)

lemma temporary_usable: "temporary dfw r \<Longrightarrow> wf_dfw dfw \<Longrightarrow> usable dfw r"
  by (simp add: temporary_def usable_def wf_dfw_def)

lemma insn_ok_grows:
  "insn_ok K dfw x \<Longrightarrow> wf_dfw dfw \<Longrightarrow> wf_dfw dfw' \<Longrightarrow> grows dfw dfw' \<Longrightarrow> insn_ok K dfw' x"
  by (cases x) (auto intro: usable_grows temporary_grows growsD(6) elim!: option.pred_mono_strong)

lemma insn_ok_target [simp]: "insn_ok K dfw (with_target t x) = insn_ok K dfw x"
  by (cases x) simp_all

lemma insn_ok_cong:
  assumes "loaded_fields dfw' = loaded_fields dfw" "next_register dfw' = next_register dfw"
    "first_constant dfw' = first_constant dfw"
  shows "insn_ok K dfw' x = insn_ok K dfw x"
proof -
  have "usable dfw' = usable dfw" "temporary dfw' = temporary dfw"
    using assms by (simp_all add: usable_def temporary_def fun_eq_iff)
  then show ?thesis using assms(1) by (cases x) simp_all
qed

lemma regs_ok_append:
  "regs_ok K (dfw_append_insn x dfw) = (regs_ok K dfw \<and> insn_ok K dfw x)"
  by (auto simp: regs_ok_def insn_ok_cong [of "dfw_append_insn x dfw" dfw])

lemma set_patched: "(\<forall>x \<in> set (patched code J t). Q x) = (\<forall>i < length code. Q (patched code J t ! i))"
  by (auto simp: all_set_conv_all_nth)

lemma regs_ok_jumps [simp]: "regs_ok K (fold set_jump js dfw) = regs_ok K dfw"
  by (auto simp: regs_ok_def fold_set_jump_insns set_patched insn_ok_cong [of "fold set_jump js dfw" dfw]
      all_set_conv_all_nth)

lemma regs_ok_jump [simp]: "regs_ok K (set_jump j dfw) = regs_ok K dfw"
  using regs_ok_jumps [of K "[j]" dfw] by simp

lemma regs_ok_cong:
  assumes "insns dfw' = insns dfw" "wf_dfw dfw" "wf_dfw dfw'" "grows dfw dfw'" "regs_ok K dfw"
  shows "regs_ok K dfw'"
  using assms(1,5) insn_ok_grows [OF _ assms(2-4)] by (simp add: regs_ok_def)

section \<open>Entities\<close>

lemma field_regs:
  assumes "env_ok reg known E" "known h" "wf_dfw dfw" "regs_ok (first_of reg known) dfw"
    and "gen_entity reg (STTYPE_FIELD h) dfw = Inr (r, jmp, dfw')"
  shows "regs_ok (first_of reg known) dfw' \<and> usable dfw' r"
proof -
  obtain h0 q dfw1 where d: "dfw_append_read_tree reg h dfw = Inr (q, dfw1)" "rewind reg h = Inr h0"
      "wf_dfw dfw1" "grows dfw dfw1" "insns dfw1 = insns dfw @ [READ_TREE h0 q]"
      "loaded_fields dfw1 h0 = Some (q + 1)" "q < next_register dfw1"
    using append_read_tree [OF assms(1-3)] by blast
  have "insn_ok (first_of reg known) dfw1 x" if "x \<in> set (insns dfw1)" for x
    using that d assms(2,4) insn_ok_grows [OF _ assms(3) d(3,4)] by (auto simp: regs_ok_def first_of_def)
  then have "regs_ok (first_of reg known) dfw1" by (simp add: regs_ok_def)
  moreover have "0 \<le> q" using wf_dfwD(3) [OF d(3,6)] by simp
  ultimately show ?thesis
    using assms(5) d(1,3,7) by (auto simp: regs_ok_append usable_def wf_dfw_def)
qed

lemma fvalue_regs:
  assumes "wf_dfw dfw" "regs_ok K dfw" "gen_entity reg (STTYPE_FVALUE v) dfw = Inr (r, jmp, dfw')"
    and "wf_dfw dfw'" "grows dfw dfw'"
  shows "regs_ok K dfw' \<and> usable dfw' r"
proof -
  have "insns dfw' = insns dfw" "r = first_constant dfw" "first_constant dfw' = r - 1"
      "next_register dfw' = next_register dfw"
    using assms(3) by (auto simp: dfw_append_put_fvalue_def dfw_append_const_def Let_def)
  then show ?thesis
    using regs_ok_cong [OF _ assms(1,4,5,2)] assms(1) by (auto simp: usable_def wf_dfw_def)
qed

lemma range_regs:
  assumes "wf_dfw dfw1" "regs_ok K dfw1" "usable dfw1 r1" "r = next_register dfw1"
    and d: "dfw' = dfw_append_insn (MK_RANGE r1 r d) (dfw1\<lparr>next_register := r + 1\<rparr>)"
  shows "regs_ok K dfw' \<and> usable dfw' r"
proof -
  let ?d = "dfw1\<lparr>next_register := r + 1\<rparr>"
  have w: "wf_dfw ?d" "grows dfw1 ?d"
    using wf_next_register [OF assms(1), of "r + 1"] grows_next_register [of dfw1 "r + 1"] assms(4)
    by simp_all
  have "temporary ?d r"
    using wf_dfwD(2,3) [OF assms(1)] assms(4) by (fastforce simp: temporary_def)
  moreover have "usable ?d r1" by (rule usable_grows [OF assms(3,1) w])
  moreover have "regs_ok K ?d" by (rule regs_ok_cong [OF _ assms(1) w assms(2)]) simp
  moreover have "usable dfw' r" using temporary_usable [OF calculation(1) w(1)] d by (simp add: usable_def)
  ultimately show ?thesis using d by (simp add: regs_ok_append)
qed

lemma function_regs:
  assumes "wf_dfw dfw" "r = next_register dfw" "wf_dfw dfw1" "grows (dfw\<lparr>next_register := r + 1\<rparr>) dfw1"
    and "regs_ok K dfw1" "\<forall>q \<in> set rs. usable dfw1 q"
    and d: "dfw' = dfw_append_insn (IF_FALSE_GOTO 0) (fold set_jump jmps
              (dfw_append_insn (CALL_FUNCTION f r (nth_option rs 0) (nth_option rs 1)) dfw1))"
  shows "regs_ok K dfw' \<and> usable dfw' r"
proof -
  have "temporary (dfw\<lparr>next_register := r + 1\<rparr>) r"
    using wf_dfwD(2,3) [OF assms(1)] assms(2) by (fastforce simp: temporary_def)
  then have t: "temporary dfw1 r" by (rule temporary_grows [OF _ assms(4)])
  have "pred_option (usable dfw1) (nth_option rs i)" for i
    using assms(6) by (simp add: nth_option_def)
  then have "regs_ok K dfw'" using assms(5) t d by (simp add: regs_ok_append)
  moreover have "usable dfw' r" using temporary_usable [OF t assms(3)] d by (simp add: usable_def)
  ultimately show ?thesis by simp
qed


text \<open>What the generator keeps, from the induction over entities.\<close>

lemma gen_entity_keeps:
  assumes "env_ok reg known (E :: 'v env)" "wf_dfw (dfw :: 'v dfwork)" "wf_entity known e" "gen_entity reg e dfw = Inr (r, jmp, dfw')"
  shows "wf_dfw dfw'" "grows dfw dfw'"
  using gen_entity_ok [OF assms(1-3)] assms(4) by (auto simp: shape_def)

lemma gen_params_keeps:
  assumes "env_ok reg known (E :: 'v env)" "wf_dfw (dfw :: 'v dfwork)" "\<forall>p \<in> set ps. wf_entity known p" "i + length ps \<le> 2"
    "gen_params reg ps i dfw = Inr (rs, jmps, dfw')"
  shows "wf_dfw dfw'" "grows dfw dfw'"
  using gen_entity_induction(2) [OF assms(1-4)] assms(5) by (auto simp: shape_def)

lemma gen_entity_regs_induction:
  shows "env_ok reg known (E :: 'v env) \<Longrightarrow> wf_dfw (dfw :: 'v dfwork) \<Longrightarrow> wf_entity known e \<Longrightarrow> regs_ok (first_of reg known) dfw \<Longrightarrow>
      gen_entity reg e dfw = Inr (r, jmp, dfw') \<Longrightarrow> regs_ok (first_of reg known) dfw' \<and> usable dfw' r"
    and "env_ok reg known (E :: 'v env) \<Longrightarrow> wf_dfw (dfw :: 'v dfwork) \<Longrightarrow> (\<forall>p \<in> set ps. wf_entity known p) \<Longrightarrow> i + length ps \<le> 2 \<Longrightarrow>
      regs_ok (first_of reg known) dfw \<Longrightarrow> gen_params reg ps i dfw = Inr (rs, jmps, dfw') \<Longrightarrow>
      regs_ok (first_of reg known) dfw' \<and> (\<forall>q \<in> set rs. usable dfw' q)"
proof (induction reg e dfw and reg ps i dfw arbitrary: r jmp dfw' and rs jmps dfw'
    rule: gen_entity_gen_params.induct)
  case (1 reg h dfw)
  show ?case by (rule field_regs [OF "1.prems"(1) _ "1.prems"(2,4,5)]) (use "1.prems"(3) in simp)
next
  case (2 reg v dfw)
  show ?case
    by (rule fvalue_regs [OF "2.prems"(2,4,5) gen_entity_keeps [OF "2.prems"(1,2,3,5)]])
next
  case (3 reg e d dfw)
  then obtain r1 dfw1 where d: "gen_entity reg e dfw = Inr (r1, jmp, dfw1)" "r = next_register dfw1"
      "dfw' = dfw_append_insn (MK_RANGE r1 r d) (dfw1\<lparr>next_register := r + 1\<rparr>)"
    by (auto simp: errs Let_def)
  have we: "wf_entity known e" using "3.prems"(3) by simp
  note ih = "3.IH" [OF "3.prems"(1,2) we "3.prems"(4) d(1)]
  show ?case
    by (rule range_regs [OF gen_entity_keeps(1) [OF "3.prems"(1,2) we d(1)] _ _ d(2,3)]) (use ih in simp_all)
next
  case (4 reg f ps dfw)
  let ?r = "next_register dfw"
  let ?d = "dfw\<lparr>next_register := ?r + 1\<rparr>"
  obtain rs jmps dfw1 where d: "gen_params reg ps 0 ?d = Inr (rs, jmps, dfw1)" "r = ?r"
      "dfw' = dfw_append_insn (IF_FALSE_GOTO 0) (fold set_jump jmps
              (dfw_append_insn (CALL_FUNCTION f r (nth_option rs 0) (nth_option rs 1)) dfw1))"
    using "4.prems"(5) by (auto simp: errs Let_def)
  have w: "wf_dfw ?d" "grows dfw ?d"
    using wf_next_register [OF "4.prems"(2), of "?r + 1"] grows_next_register [of dfw "?r + 1"] by simp_all
  have ps: "\<forall>p \<in> set ps. wf_entity known p" "0 + length ps \<le> 2" using "4.prems"(3) by simp_all
  have "regs_ok (first_of reg known) ?d" by (rule regs_ok_cong [OF _ "4.prems"(2) w "4.prems"(4)]) simp
  note ih = "4.IH" [OF refl "4.prems"(1) w(1) ps this d(1)]
  note k = gen_params_keeps [OF "4.prems"(1) w(1) ps d(1)]
  show ?case
    by (rule function_regs [OF "4.prems"(2) d(2) k(1) _ _ _ d(3)]) (use k(2) d(2) ih in simp_all)
next
  case (10 reg i dfw)
  then show ?case by simp
next
  case (11 reg p ps i dfw)
  obtain r jmp dfw1 rs' jmps' where d: "gen_entity reg p dfw = Inr (r, jmp, dfw1)" "i < 2"
      "gen_params reg ps (i + 1) dfw1 = Inr (rs', jmps', dfw')" "rs = r # rs'"
    using "11.prems"(6) by (auto simp: errs g_assert_def split: if_splits)
  have we: "wf_entity known p" "\<forall>q \<in> set ps. wf_entity known q" "i + 1 + length ps \<le> 2"
    using "11.prems"(3,4) by simp_all
  note k = gen_entity_keeps [OF "11.prems"(1,2) we(1) d(1)]
  note ih1 = "11.IH"(1) [OF "11.prems"(1,2) we(1) "11.prems"(5) d(1)]
  note ih2 = "11.IH"(2) [OF d(1) refl refl d(2) "11.prems"(1) k(1) we(2,3) _ d(3)]
  note k2 = gen_params_keeps [OF "11.prems"(1) k(1) we(2,3) d(3)]
  show ?case
    using ih1 ih2 d(4) usable_grows [OF _ k(1) k2] by auto
qed simp_all

lemmas gen_entity_regs = gen_entity_regs_induction(1)

section \<open>Tests\<close>

lemma gen_relation_regs:
  assumes "env_ok reg known (E :: 'v env)" "wf_dfw (dfw :: 'v dfwork)" "wf_entity known a" "wf_entity known b"
    "regs_ok (first_of reg known) dfw" "gen_relation reg op a b dfw = Inr dfw'"
  shows "regs_ok (first_of reg known) dfw'"
proof -
  obtain r1 j1 dfw1 r2 j2 dfw2 where d: "gen_entity reg a dfw = Inr (r1, j1, dfw1)"
      "gen_entity reg b dfw1 = Inr (r2, j2, dfw2)"
      "dfw' = set_jump j2 (set_jump j1 (dfw_append_insn (ANY op r1 r2) dfw2))"
    using assms(6) by (auto simp: gen_relation_def errs)
  note k1 = gen_entity_keeps [OF assms(1-3) d(1)]
  note k2 = gen_entity_keeps [OF assms(1) k1(1) assms(4) d(2)]
  note u1 = gen_entity_regs [OF assms(1-3,5) d(1)]
  note u2 = gen_entity_regs [OF assms(1) k1(1) assms(4) conjunct1 [OF u1] d(2)]
  show ?thesis using u1 u2 usable_grows [OF _ k1(1) k2] d(3) by (simp add: regs_ok_append)
qed

lemma element_regs:
  assumes "env_ok reg known (E :: 'v env)" "wf_dfw (dfw :: 'v dfwork)" "pred_option (wf_entity known) n2"
    and "regs_ok (first_of reg known) dfw" "usable dfw reg1" "usable dfw reg2"
    and "bindE (case n2 of
              Some upper \<Rightarrow>
                bindE (gen_entity reg upper dfw) (\<lambda>(reg3, jmp3, dfw2).
                  Inr (jmp3, dfw_append_insn (ANY_IN_RANGE reg1 reg2 reg3) dfw2))
            | None \<Rightarrow> Inr (None, dfw_append_insn (ANY ANY_EQ reg1 reg2) dfw)) K = Inr y"
  shows "\<exists>j3 dfw2 x. K (j3, dfw_append_insn x dfw2) = Inr y \<and> wf_dfw dfw2 \<and>
           regs_ok (first_of reg known) dfw2 \<and> insn_ok (first_of reg known) dfw2 x \<and> usable dfw2 reg1"
proof (cases n2)
  case None
  then show ?thesis
    using assms by (intro exI [of _ None] exI [of _ dfw] exI [of _ "ANY ANY_EQ reg1 reg2"]) simp
next
  case (Some upper)
  then obtain r3 j3 dfw2 where d: "gen_entity reg upper dfw = Inr (r3, j3, dfw2)"
      "K (j3, dfw_append_insn (ANY_IN_RANGE reg1 reg2 r3) dfw2) = Inr y"
    using assms(7) by (auto simp: errs)
  have wu: "wf_entity known upper" using assms(3) Some by simp
  note k = gen_entity_keeps [OF assms(1,2) wu d(1)]
  note u = gen_entity_regs [OF assms(1,2) wu assms(4) d(1)]
  show ?thesis
    using d(2) k(1) u usable_grows [OF _ assms(2) k] assms(5,6)
    by (intro exI [of _ j3] exI [of _ dfw2] exI [of _ "ANY_IN_RANGE reg1 reg2 r3"]) simp
qed

lemma bindE_triple:
  "bindE m (\<lambda>(r, j, d). K r j d) = Inr y \<Longrightarrow> \<exists>r j d. m = Inr (r, j, d) \<and> K r j d = Inr y"
  by (auto simp: errs)

lemma gen_set_regs:
  assumes "env_ok reg known (E :: 'v env)" "wf_dfw (dfw :: 'v dfwork)" "wf_set known elems"
    "regs_ok (first_of reg known) dfw" "usable dfw reg1" "gen_set reg reg1 elems jumplist dfw = Inr (js, dfw')"
  shows "regs_ok (first_of reg known) dfw'"
  using assms(2-6)
proof (induction elems arbitrary: jumplist dfw)
  case (Cons elem elems)
  obtain n1 n2 where e: "elem = (n1, n2)" by (cases elem)
  have we: "wf_entity known n1" "pred_option (wf_entity known) n2" "wf_set known elems"
    using Cons.prems(2) e by (auto simp: wf_set_def)
  let ?K = "\<lambda>j2 (jmp3, dfw3).
       let (jumplist', dfw4) =
             (if elems \<noteq> [] then
                (Some (next_insn_id dfw3) # jumplist, dfw_append_insn (IF_TRUE_GOTO 0) dfw3)
              else (jumplist, dfw3))
       in gen_set reg reg1 elems jumplist' (set_jump jmp3 (set_jump j2 dfw4))"
  obtain r2 j2 dfw1 where d: "gen_entity reg n1 dfw = Inr (r2, j2, dfw1)"
      "bindE (case n2 of
              Some upper \<Rightarrow>
                bindE (gen_entity reg upper dfw1) (\<lambda>(reg3, jmp3, dfw2).
                  Inr (jmp3, dfw_append_insn (ANY_IN_RANGE reg1 r2 reg3) dfw2))
            | None \<Rightarrow> Inr (None, dfw_append_insn (ANY ANY_EQ reg1 r2) dfw1)) (?K j2) = Inr (js, dfw')"
    using bindE_triple [OF Cons.prems(5) [unfolded e gen_set.simps]] by blast
  note k1 = gen_entity_keeps [OF assms(1) Cons.prems(1) we(1) d(1)]
  note u1 = gen_entity_regs [OF assms(1) Cons.prems(1) we(1) Cons.prems(3) d(1)]
  have u: "usable dfw1 reg1" by (rule usable_grows [OF Cons.prems(4,1) k1])
  obtain j3 dfw2 x where s: "?K j2 (j3, dfw_append_insn x dfw2) = Inr (js, dfw')" "wf_dfw dfw2"
      "regs_ok (first_of reg known) dfw2" "insn_ok (first_of reg known) dfw2 x" "usable dfw2 reg1"
    using element_regs [OF assms(1) k1(1) we(2) conjunct1 [OF u1] u conjunct2 [OF u1] d(2)] by blast
  let ?d = "fold set_jump [j2, j3]
         (if elems \<noteq> [] then dfw_append_insn (IF_TRUE_GOTO 0) (dfw_append_insn x dfw2)
          else dfw_append_insn x dfw2)"
  have "wf_dfw ?d" by (rule wf_set_jumps) (simp add: wf_append_insn s(2))
  moreover have "regs_ok (first_of reg known) ?d" "usable ?d reg1"
    using s(3-5) insn_ok_cong [of "dfw_append_insn x dfw2" dfw2]
    by (simp_all add: regs_ok_append usable_def)
  moreover have "\<exists>jumplist'. gen_set reg reg1 elems jumplist' ?d = Inr (js, dfw')"
    using s(1) by (auto split: if_splits)
  ultimately show ?case using Cons.IH [of ?d] we(3) by blast
qed simp


lemma gen_relation_in_regs:
  assumes "env_ok reg known (E :: 'v env)" "wf_dfw (dfw :: 'v dfwork)" "wf_entity known a" "wf_set known elems"
    "regs_ok (first_of reg known) dfw" "gen_relation_in reg a (STTYPE_SET elems) dfw = Inr dfw'"
  shows "regs_ok (first_of reg known) dfw'"
proof -
  obtain r j dfw1 js dfw2 where d: "gen_entity reg a dfw = Inr (r, j, dfw1)"
      "gen_set reg r elems [] dfw1 = Inr (js, dfw2)" "dfw' = fold set_jump js (set_jump j dfw2)"
    using assms(6) by (auto simp: gen_relation_in_def errs)
  note k = gen_entity_keeps [OF assms(1-3) d(1)] and u = gen_entity_regs [OF assms(1-3,5) d(1)]
  show ?thesis
    using gen_set_regs [OF assms(1) k(1) assms(4) conjunct1 [OF u] conjunct2 [OF u] d(2)] d(3) by simp
qed

lemma gen_exists_regs:
  assumes "env_ok reg known (E :: 'v env)" "known h" "regs_ok (first_of reg known) (dfw :: 'v dfwork)"
    "gen_exists reg (STTYPE_FIELD h) dfw = Inr dfw'"
  shows "regs_ok (first_of reg known) dfw'"
proof -
  obtain h0 where h0: "rewind reg h = Inr h0" using assms(1,2) by (auto simp: env_ok_def)
  let ?d = "dfw_append_insn (CHECK_EXISTS h0) dfw"
  obtain f where f: "dfw' = ?d\<lparr>interesting_fields := f\<rparr>"
    using assms(4) h0 record_interesting_Inr [OF assms(1,2) h0, of ?d] by (auto simp: gen_exists_def)
  have "regs_ok (first_of reg known) ?d" using assms(2,3) h0 by (auto simp: regs_ok_append first_of_def)
  then show ?thesis
    using f insn_ok_cong [of "?d\<lparr>interesting_fields := f\<rparr>" ?d] by (simp add: regs_ok_def)
qed

theorem gencode_regs:
  assumes "env_ok reg known (E :: 'v env)" "wf_dfw (dfw :: 'v dfwork)" "wf_test known t"
    "regs_ok (first_of reg known) dfw" "gencode reg t dfw = Inr dfw'"
  shows "regs_ok (first_of reg known) dfw'"
proof -
  have wf: "wf_dfw dfw1" if "env_ok reg known (E :: 'v env)" "wf_dfw dfw" "wf_test known t" "gencode reg t dfw = Inr dfw1"
    for reg :: "'p registrar" and t and dfw dfw1 :: "'v dfwork"
    using gencode_ok [OF that(1-3)] that(4) by (auto simp: closed_def shape_def)
  show ?thesis
    using assms
  proof (induction reg t dfw arbitrary: dfw' rule: gencode.induct)
    case (1 reg a b dfw)
    then show ?case using gen_exists_regs [of reg known E _ dfw] by (auto split: stnode.splits)
  next
    case (2 reg a b dfw)
    then obtain dfw1 where "gencode reg a dfw = Inr dfw1" "dfw' = dfw_append_insn NOT_INSN dfw1"
      by (auto simp: errs)
    then show ?case using "2.IH" "2.prems" by (simp add: regs_ok_append)
  next
    case (3 reg a b dfw)
    then obtain dfw1 dfw2 where d: "gencode reg a dfw = Inr dfw1"
        "gencode reg b (dfw_append_insn (IF_FALSE_GOTO 0) dfw1) = Inr dfw2"
        "dfw' = set_jump (Some (next_insn_id dfw1)) dfw2"
      by (auto simp: errs)
    have w: "wf_test known a" "wf_test known b" using "3.prems"(3) by simp_all
    note wf1 = wf_append_insn [OF wf [OF "3.prems"(1,2) w(1) d(1)], of "IF_FALSE_GOTO 0"]
    have "regs_ok (first_of reg known) (dfw_append_insn (IF_FALSE_GOTO 0) dfw1)"
      using "3.IH"(1) [OF "3.prems"(1,2) w(1) "3.prems"(4) d(1)] by (simp add: regs_ok_append)
    then show ?case using "3.IH"(2) [OF d(1) "3.prems"(1) wf1 w(2) _ d(2)] d(3) by simp
  next
    case (4 reg a b dfw)
    then obtain dfw1 dfw2 where d: "gencode reg a dfw = Inr dfw1"
        "gencode reg b (dfw_append_insn (IF_TRUE_GOTO 0) dfw1) = Inr dfw2"
        "dfw' = set_jump (Some (next_insn_id dfw1)) dfw2"
      by (auto simp: errs)
    have w: "wf_test known a" "wf_test known b" using "4.prems"(3) by simp_all
    note wf1 = wf_append_insn [OF wf [OF "4.prems"(1,2) w(1) d(1)], of "IF_TRUE_GOTO 0"]
    have "regs_ok (first_of reg known) (dfw_append_insn (IF_TRUE_GOTO 0) dfw1)"
      using "4.IH"(1) [OF "4.prems"(1,2) w(1) "4.prems"(4) d(1)] by (simp add: regs_ok_append)
    then show ?case using "4.IH"(2) [OF d(1) "4.prems"(1) wf1 w(2) _ d(2)] d(3) by simp
  next
    case (5 reg a b dfw)
    then obtain elems where "b = STTYPE_SET elems" "wf_set known elems" "wf_entity known a"
      by (auto split: stnode.splits)
    then show ?case using gen_relation_in_regs [of reg known E dfw a elems dfw'] "5.prems" by simp
  qed (simp_all add: rel_op_def, (elim conjE, rule gen_relation_regs, assumption+)+)
qed

lemma regs_ok_new: "regs_ok K dfwork_new"
  by (simp add: regs_ok_def dfwork_new_def)

end
