(* ===== verification/Threading.thy ===== *)
theory Threading
  imports GencodeRegs
begin

text \<open>
  The first pass over the finished code: a jump to a jump is made to go to where that one goes. The
  pass terminates, because all jumps of the generated code are forward, and the new code makes the runs
  of the old one shorter. Skipping a READ_TREE right behind a jump is sound because the READ_TREE before
  the jump has left the same truth value in the accumulator; for that, nothing may jump in between the
  two, and no other instruction may write the register.
\<close>

section \<open>The shape of the finished code\<close>

definition jumps_ok :: "'v insn list \<Rightarrow> bool" where
  "jumps_ok P =
     (P \<noteq> [] \<and> last P = RETURN \<and>
      (\<forall>i < length P. \<forall>t. goto_target (P ! i) = Some t \<longrightarrow>
         i < t \<and> t < length P \<and> \<not> is_read (P ! (t - 1))))"

lemma jumps_okD:
  assumes "jumps_ok P" "i < length P"
  shows "goto_target (P ! i) = Some t \<Longrightarrow> i < t \<and> t < length P \<and> \<not> is_read (P ! (t - 1))"
    and "P ! i \<noteq> RETURN \<Longrightarrow> i + 1 < length P"
proof -
  show "goto_target (P ! i) = Some t \<Longrightarrow> i < t \<and> t < length P \<and> \<not> is_read (P ! (t - 1))"
    using assms unfolding jumps_ok_def by blast
  have "P ! (length P - 1) = RETURN" using assms(1) last_conv_nth [of P] by (simp add: jumps_ok_def)
  moreover have "i = length P - 1" if "\<not> i + 1 < length P" using assms(2) that by simp
  ultimately show "P ! i \<noteq> RETURN \<Longrightarrow> i + 1 < length P" by blast
qed

lemma jumps_ok_finished:
  assumes "closed dfwork_new dfw"
  shows "jumps_ok (insns dfw @ [RETURN])"
proof -
  let ?P = "insns dfw @ [RETURN]"
  have seg: "seg_ok 0 (insns dfw) {}" using assms by (simp add: closed_def shape_def dfwork_new_def)
  have "i < t \<and> t < length ?P \<and> \<not> is_read (?P ! (t - 1))"
    if "i < length ?P" "goto_target (?P ! i) = Some t" for i t
  proof -
    have i: "i < length (insns dfw)" using that by (cases "i = length (insns dfw)") simp_all
    then have "lands (insns dfw) i t" using seg that by (simp add: seg_ok_def nth_append)
    then have "i < t" "t \<le> length (insns dfw)" "\<not> is_read (insns dfw ! (t - 1))"
      by (simp_all add: lands_def)
    moreover from this have "t - 1 < length (insns dfw)" by linarith
    ultimately show ?thesis by (simp add: nth_append)
  qed
  moreover have "?P \<noteq> []" "last ?P = RETURN" by simp_all
  ultimately show ?thesis unfolding jumps_ok_def by blast
qed

section \<open>One turn of the inner loop\<close>

text \<open>\<open>hop\<close> is where the loop goes on from instruction \<open>j\<close>, if it does.\<close>

definition hop :: "'v insn list \<Rightarrow> bool \<Rightarrow> 'v insn option \<Rightarrow> nat \<Rightarrow> nat option" where
  "hop P c prev j =
     (case P ! j of
        IF_TRUE_GOTO t \<Rightarrow> Some (if c then t else j + 1)
      | IF_FALSE_GOTO t \<Rightarrow> Some (if c then j + 1 else t)
      | READ_TREE h r \<Rightarrow>
          (case prev of Some (READ_TREE h' r') \<Rightarrow> if r = r' then Some (j + 1) else None | _ \<Rightarrow> None)
      | _ \<Rightarrow> None)"

abbreviation leads :: "'v insn list \<Rightarrow> bool \<Rightarrow> 'v insn option \<Rightarrow> nat \<Rightarrow> nat \<Rightarrow> bool" where
  "leads P c prev \<equiv> (\<lambda>j j'. hop P c prev j = Some j')\<^sup>*\<^sup>*"

lemma thread_jump_hop:
  "thread_jump P c prev j =
     (if j < length P then
        (case hop P c prev j of Some j' \<Rightarrow> thread_jump P c prev j' | None \<Rightarrow> Some (Inr j))
      else Some (Inl Fault))"
  by (subst thread_jump.simps) (auto simp: hop_def split: insn.splits option.splits)

lemma hop_forward:
  assumes "jumps_ok P" "j < length P" "hop P c prev j = Some j'"
  shows "j < j'" "j' < length P"
  using jumps_okD [OF assms(1,2)] assms(3)
  by (auto simp: hop_def goto_target_def split: insn.splits option.splits if_splits)

lemma hop_cong: "code ! j = P ! j \<Longrightarrow> hop code c prev j = hop P c prev j"
  by (simp add: hop_def)

text \<open>The loop ends, and depends only on the code from its start on.\<close>

lemma thread_jump_leads:
  assumes "jumps_ok P" "j < length P" "length code = length P" "\<forall>k. j \<le> k \<longrightarrow> k < length P \<longrightarrow> code ! k = P ! k"
  shows "\<exists>j'. thread_jump code c prev j = Some (Inr j') \<and> leads P c prev j j' \<and> j \<le> j' \<and> j' < length P"
  using assms(2,4)
proof (induction "length P - j" arbitrary: j rule: less_induct)
  case less
  have h: "hop code c prev j = hop P c prev j" using less.prems by (intro hop_cong) simp
  show ?case
  proof (cases "hop P c prev j")
    case None
    then show ?thesis using less.prems(1) assms(3) h by (subst thread_jump_hop) simp
  next
    case (Some k)
    note f = hop_forward [OF assms(1) less.prems(1) Some]
    obtain j' where "thread_jump code c prev k = Some (Inr j')" "leads P c prev k j'" "k \<le> j'" "j' < length P"
      using less.hyps [of k] less.prems f diff_less_mono2 [OF f(1), of "length P"] by auto
    then show ?thesis
      using less.prems(1) assms(3) h Some f(1)
      by (subst thread_jump_hop) (auto intro: converse_rtranclp_into_rtranclp)
  qed
qed

section \<open>The outer loop\<close>

definition prev_of :: "'v insn list \<Rightarrow> nat \<Rightarrow> 'v insn option" where
  "prev_of P i = (if i = 0 then None else Some (P ! (i - 1)))"

definition goto_kind :: "'v insn \<Rightarrow> bool" where
  "goto_kind x = (case x of IF_TRUE_GOTO _ \<Rightarrow> True | _ \<Rightarrow> False)"

text \<open>The jumps among the first \<open>n\<close> instructions have been replaced.\<close>

definition threaded :: "nat \<Rightarrow> 'v insn list \<Rightarrow> 'v insn list \<Rightarrow> bool" where
  "threaded n P P' =
     (length P' = length P \<and>
      (\<forall>k < length P. (n \<le> k \<or> goto_target (P ! k) = None \<longrightarrow> P' ! k = P ! k) \<and>
         (k < n \<longrightarrow> (\<forall>t. goto_target (P ! k) = Some t \<longrightarrow>
            (\<exists>t'. P' ! k = with_target t' (P ! k) \<and> t \<le> t' \<and> t' < length P \<and>
               leads P (goto_kind (P ! k)) (prev_of P k) t t')))))"

lemma threadedD:
  assumes "threaded n P P'"
  shows "length P' = length P" "k < length P \<Longrightarrow> n \<le> k \<or> goto_target (P ! k) = None \<Longrightarrow> P' ! k = P ! k"
    "k < length P \<Longrightarrow> k < n \<Longrightarrow> goto_target (P ! k) = Some t \<Longrightarrow>
       \<exists>t'. P' ! k = with_target t' (P ! k) \<and> t \<le> t' \<and> t' < length P \<and>
         leads P (goto_kind (P ! k)) (prev_of P k) t t'"
  using assms by (auto simp: threaded_def)

text \<open>A jump before the jump counts for nothing.\<close>

lemma hop_prev:
  assumes "threaded n P P'" "i < length P"
  shows "hop Q c (prev_of P' i) j = hop Q c (prev_of P i) j"
proof (cases i)
  case (Suc m)
  show ?thesis
  proof (cases "goto_target (P ! m) = None \<or> n \<le> m")
    case True
    then have "P' ! m = P ! m" using threadedD(2) [OF assms(1), of m] Suc assms(2) by auto
    then show ?thesis by (simp add: prev_of_def Suc)
  next
    case False
    then obtain t t' where "goto_target (P ! m) = Some t" "P' ! m = with_target t' (P ! m)"
      using threadedD(3) [OF assms(1), of m] Suc assms(2) by auto
    then show ?thesis
      by (cases "P ! m") (auto simp: prev_of_def Suc hop_def split: insn.splits)
  qed
qed (simp add: prev_of_def)

lemma leads_prev: "threaded n P P' \<Longrightarrow> i < length P \<Longrightarrow> leads Q c (prev_of P' i) = leads Q c (prev_of P i)"
  by (simp add: hop_prev)

lemma threaded_Suc:
  assumes "threaded i P code" "i < length P"
  shows "goto_target (P ! i) = None \<Longrightarrow> threaded (i + 1) P code"
    and "goto_target (P ! i) = Some t \<Longrightarrow> t \<le> t' \<Longrightarrow> t' < length P \<Longrightarrow>
       leads P (goto_kind (P ! i)) (prev_of P i) t t' \<Longrightarrow> threaded (i + 1) P (code[i := with_target t' (P ! i)])"
  using assms by (auto simp: threaded_def nth_list_update less_Suc_eq)

lemma fixup_loop_threaded:
  assumes "jumps_ok P" "threaded i P code" "i + n = length P"
  shows "\<exists>P'. fixup_loop n i code = Inr P' \<and> threaded (length P) P P'"
  using assms(2,3)
proof (induction n arbitrary: i code)
  case (Suc n)
  have i: "i < length P" using Suc.prems by simp
  have ci: "code ! i = P ! i" using threadedD(2) [OF Suc.prems(1) i] by simp
  show ?case
  proof (cases "goto_target (P ! i)")
    case None
    have "\<exists>P'. fixup_loop n (i + 1) code = Inr P' \<and> threaded (length P) P P'"
      by (rule Suc.IH [OF threaded_Suc(1) [OF Suc.prems(1) i None]]) (use Suc.prems in simp)
    then show ?thesis using None ci by (auto simp: goto_target_def split: insn.splits)
  next
    case (Some t)
    note f = jumps_okD(1) [OF assms(1) i Some]
    have "\<forall>k. t \<le> k \<longrightarrow> k < length P \<longrightarrow> code ! k = P ! k"
      using threadedD(2) [OF Suc.prems(1)] f by simp
    then obtain t' where t': "thread_jump code (goto_kind (P ! i)) (prev_of code i) t = Some (Inr t')"
        "leads P (goto_kind (P ! i)) (prev_of code i) t t'" "t \<le> t'" "t' < length P"
      using thread_jump_leads [of P t code] f assms(1) threadedD(1) [OF Suc.prems(1)] by blast
    have "threaded (i + 1) P (code[i := with_target t' (P ! i)])"
      by (rule threaded_Suc(2) [OF Suc.prems(1) i Some t'(3,4)])
        (use t'(2) leads_prev [OF Suc.prems(1) i] in simp)
    then have "\<exists>P'. fixup_loop n (i + 1) (code[i := with_target t' (P ! i)]) = Inr P' \<and> threaded (length P) P P'"
      by (rule Suc.IH) (use Suc.prems in simp)
    then show ?thesis
      using Some ci t'(1)
      by (auto simp: goto_target_def goto_kind_def prev_of_def returned_def Let_def split: insn.splits)
  qed
qed simp

lemma threaded_0: "threaded 0 P P"
  by (simp add: threaded_def)


section \<open>Runs of the new code\<close>

definition reads :: "'v insn list \<Rightarrow> int \<Rightarrow> bool" where
  "reads P r = (\<exists>h. READ_TREE h r \<in> set P)"

definition writes_ok :: "'v insn list \<Rightarrow> bool" where
  "writes_ok P =
     (\<forall>r. reads P r \<longrightarrow> (\<forall>q d. MK_RANGE q r d \<notin> set P) \<and> (\<forall>f x y. CALL_FUNCTION f r x y \<notin> set P))"

text \<open>What the runs keep: a register of a field that has not been read is empty, and behind a READ_TREE
  the accumulator tells whether the register has values.\<close>

definition good :: "'v insn list \<Rightarrow> 'v config \<Rightarrow> bool" where
  "good P c =
     (case c of (i, a, s) \<Rightarrow>
        (\<forall>r. reads P r \<longrightarrow> \<not> att s r \<longrightarrow> regs s r = []) \<and>
        (0 < i \<longrightarrow> (\<forall>h r. P ! (i - 1) = READ_TREE h r \<longrightarrow> att s r \<and> a = (regs s r \<noteq> []))))"

lemma good_landing:
  assumes "good P (i, a, s)" "\<not> is_read (P ! (t - 1))"
  shows "good P (t, a, s)"
  using assms by (auto simp: good_def)

lemma step_good:
  assumes "step E P c c'" "jumps_ok P" "writes_ok P" "good P c"
  shows "good P c'"
  using assms(1,4)
proof cases
  case (if_true i t a s)
  show ?thesis
  proof (cases a)
    case True
    then show ?thesis
      using if_true assms(4) jumps_okD(1) [OF assms(2), of i t] good_landing [of P i a s t] by simp
  next
    case False
    then show ?thesis using if_true assms(4) good_landing [of P i a s "i + 1"] by simp
  qed
next
  case (if_false i t a s)
  show ?thesis
  proof (cases a)
    case False
    then show ?thesis
      using if_false assms(4) jumps_okD(1) [OF assms(2), of i t] good_landing [of P i a s t] by simp
  next
    case True
    then show ?thesis using if_false assms(4) good_landing [of P i a s "i + 1"] by simp
  qed
next
  case (read_again i h r s a)
  then show ?thesis using assms(4) by (auto simp: good_def)
next
  case (read_found i h r s a)
  then show ?thesis using assms(4) by (auto simp: good_def)
next
  case (read_absent i h r s a)
  then have "reads P r" by (auto simp: reads_def in_set_conv_nth)
  then show ?thesis using assms(4) read_absent by (auto simp: good_def)
next
  case (range i r1 r2 d s l a)
  then have "MK_RANGE r1 r2 d \<in> set P" by (metis nth_mem)
  then have "\<not> reads P r2" using assms(3) by (auto simp: writes_ok_def)
  then show ?thesis using assms(4) range by (auto simp: good_def)
next
  case (call i f r r1 r2 s ok l a)
  then have "CALL_FUNCTION f r r1 r2 \<in> set P" by (metis nth_mem)
  then have "\<not> reads P r" using assms(3) by (auto simp: writes_ok_def)
  then show ?thesis using assms(4) call by (auto simp: good_def)
qed (auto simp: good_def)

text \<open>A hop of the inner loop is a step of the machine that leaves everything but the instruction.\<close>

lemma hop_step:
  assumes "j < length P" "hop P c prev j = Some j'"
    and "\<And>h r. prev = Some (READ_TREE h r) \<Longrightarrow> att s r \<and> c = (regs s r \<noteq> [])"
  shows "step E P (j, c, s) (j', c, s)"
proof (cases "P ! j")
  case (IF_TRUE_GOTO t)
  then show ?thesis using assms step.if_true [of j P t E c s] by (simp add: hop_def)
next
  case (IF_FALSE_GOTO t)
  then show ?thesis using assms step.if_false [of j P t E c s] by (auto simp: hop_def split: if_splits)
next
  case (READ_TREE h r)
  then obtain h' where "prev = Some (READ_TREE h' r)" "j' = j + 1"
    using assms(2) by (auto simp: hop_def split: option.splits insn.splits if_splits)
  then show ?thesis using assms(3) step.read_again [OF assms(1) READ_TREE, of s E c] by simp
qed (use assms(2) in \<open>simp_all add: hop_def\<close>)

lemma leads_steps:
  assumes "leads P c prev j j'" "jumps_ok P" "j < length P"
    and "\<And>h r. prev = Some (READ_TREE h r) \<Longrightarrow> att s r \<and> c = (regs s r \<noteq> [])"
  shows "steps E P (j, c, s) (j', c, s)"
  using assms(1,3)
proof (induction rule: converse_rtranclp_induct)
  case (step j k)
  have "step E P (j, c, s) (k, c, s)" by (rule hop_step [OF step.prems step.hyps(1) assms(4)])
  moreover have "k < length P" by (rule hop_forward(2) [OF assms(2) step.prems step.hyps(1)])
  ultimately show ?case using step.IH by (blast intro: converse_rtranclp_into_rtranclp)
qed simp

text \<open>Runs to a configuration without successor pass through everything that can be reached.\<close>

lemma deterministic_split:
  assumes det: "\<And>x y z. R x y \<Longrightarrow> R x z \<Longrightarrow> y = z" and stuck: "\<And>w. \<not> R z w"
    and "(R ^^ k) x y" "(R ^^ m) x z"
  shows "k \<le> m \<and> (R ^^ (m - k)) y z"
  using assms(3,4)
proof (induction k arbitrary: x m)
  case (Suc k)
  obtain x1 where x1: "R x x1" "(R ^^ k) x1 y" using Suc.prems(1) by (meson relpowp_Suc_E2)
  obtain m' where m': "m = Suc m'" using Suc.prems(2) x1(1) stuck by (cases m) auto
  obtain x2 where "R x x2" "(R ^^ m') x2 z" using Suc.prems(2) m' by (meson relpowp_Suc_E2)
  then show ?case using Suc.IH [OF x1(2)] det [OF x1(1)] m' by auto
qed simp

lemma return_stuck: "P ! n = RETURN \<Longrightarrow> \<not> step E P (n, b, s) w"
  by (auto elim: stepE)

lemma steps_good:
  assumes "steps E P c c'" "jumps_ok P" "writes_ok P" "good P c"
  shows "good P c'"
  using assms by (induction) (auto intro: step_good)

lemma step_same_insn:
  "step E P (i, a, s) c \<Longrightarrow> goto_target (P ! i) = None \<Longrightarrow> P' ! i = P ! i \<Longrightarrow> length P' = length P \<Longrightarrow>
     step E P' (i, a, s) c"
  by (erule stepE) (auto intro: step_Suc)

lemma goto_step:
  assumes "i < length P" "goto_target (P ! i) = Some t"
  shows "step E P (i, a, s) (if a = goto_kind (P ! i) then t else i + 1, a, s)"
  using assms step.if_true [of i P t E a s] step.if_false [of i P t E a s]
  by (cases "P ! i") (auto simp: goto_kind_def goto_target_def)

lemma goto_kind_target [simp]: "goto_kind (with_target t x) = goto_kind x"
  by (cases x) (simp_all add: goto_kind_def)

theorem threaded_run:
  assumes "threaded (length P) P P'" "jumps_ok P" "writes_ok P"
    and "good P c" "(step E P ^^ k) c (n, b, s')" "P ! n = RETURN"
  shows "steps E P' c (n, b, s')"
  using assms(4,5)
proof (induction k arbitrary: c rule: less_induct)
  case (less k)
  show ?case
  proof (cases k)
    case 0
    then show ?thesis using less.prems(2) by simp
  next
    case (Suc m)
    then obtain c1 where c1: "step E P c c1" "(step E P ^^ m) c1 (n, b, s')"
      using less.prems(2) by (meson relpowp_Suc_E2)
    obtain i a s where c: "c = (i, a, s)" by (cases c)
    have i: "i < length P" using c1(1) c by (auto elim: stepE)
    note good1 = step_good [OF c1(1) assms(2,3) less.prems(1)]
    show ?thesis
    proof (cases "goto_target (P ! i)")
      case None
      then have "P' ! i = P ! i" using threadedD(2) [OF assms(1) i] by simp
      then have "step E P' c c1" 
        using step_same_insn [of E P i a s c1 P'] c1(1) c None threadedD(1) [OF assms(1)] by simp
      then show ?thesis
        using less.IH [of m c1] Suc good1 c1(2) by (auto intro: converse_rtranclp_into_rtranclp)
    next
      case (Some t)
      obtain t' where t': "P' ! i = with_target t' (P ! i)" "leads P (goto_kind (P ! i)) (prev_of P i) t t'"
        using threadedD(3) [OF assms(1) i i Some] by blast
      have new: "step E P' c (if a = goto_kind (P ! i) then t' else i + 1, a, s)"
        using goto_step [of i P' t' E a s] t'(1) Some i c threadedD(1) [OF assms(1)] by simp
      have old: "c1 = (if a = goto_kind (P ! i) then t else i + 1, a, s)"
        using step_deterministic [OF c1(1)] goto_step [OF i Some, of E a s] c by blast
      show ?thesis
      proof (cases "a = goto_kind (P ! i)")
        case False
        then have "c1 = (i + 1, a, s)" "step E P' c c1" using old new by simp_all
        then show ?thesis
          using less.IH [of m c1] Suc good1 c1(2) by (auto intro: converse_rtranclp_into_rtranclp)
      next
        case True
        have "att s r \<and> a = (regs s r \<noteq> [])" if "prev_of P i = Some (READ_TREE h r)" for h r
          using less.prems(1) c that by (auto simp: good_def prev_of_def split: if_splits)
        then have run: "steps E P (t, a, s) (t', a, s)"
          using leads_steps [OF t'(2) assms(2)] jumps_okD(1) [OF assms(2) i Some] True by blast
        then obtain j where j: "(step E P ^^ j) (t, a, s) (t', a, s)" by (auto dest: rtranclp_imp_relpowp)
        have "(step E P ^^ m) (t, a, s) (n, b, s')" using c1(2) old True by simp
        then have "(step E P ^^ (m - j)) (t', a, s) (n, b, s')"
          using deterministic_split [of "step E P", OF _ return_stuck [OF assms(6)] j] step_deterministic
          by blast
        moreover have "good P (t', a, s)"
          using steps_good [OF run assms(2,3)] good1 old True by simp
        ultimately have "steps E P' (t', a, s) (n, b, s')" using less.IH [of "m - j"] Suc by auto
        then show ?thesis using new True by (auto intro: converse_rtranclp_into_rtranclp)
      qed
    qed
  qed
qed

text \<open>The passes together, on finished code.\<close>

lemma writes_ok_finished:
  assumes "regs_ok K dfw"
  shows "writes_ok (insns dfw @ [RETURN])"
proof -
  have ok: "insn_ok K dfw x" if "x \<in> set (insns dfw)" for x using assms that by (simp add: regs_ok_def)
  have r: "\<exists>h. loaded_fields dfw h = Some (r + 1)" if "reads (insns dfw @ [RETURN]) r" for r
    using that ok by (fastforce simp: reads_def)
  show ?thesis
    unfolding writes_ok_def using r ok by (fastforce simp: temporary_def)
qed

end
