(* ===== verification/DfilterRun.thy ===== *)
theory DfilterRun
  imports Threading
begin

text \<open>
  The machine with its arrays runs the abstract one: the registers after the renumbering hold what the
  abstract registers hold, reading a field of the tree gives the values of the environment, and no
  operand leaves the arrays.
\<close>

section \<open>Reading the tree\<close>

definition registered :: "(string \<Rightarrow> nat list) \<Rightarrow> nat \<Rightarrow> bool" where
  "registered byname p = (\<exists>s. p \<in> set (byname s))"

lemma first_of_names:
  assumes "names reg byname" "first_of reg (registered byname) h"
  shows "\<exists>s. byname s \<noteq> [] \<and> h = hd (byname s)"
proof -
  obtain p s where p: "p \<in> set (byname s)" "rewind reg p = Inr h"
    using assms(2) by (auto simp: first_of_def registered_def)
  then have "byname s \<noteq> []" "h = hd (byname s)" using rewind_names [OF assms(1) p(1)] by auto
  then show ?thesis by blast
qed

lemma same_name_ids_names:
  assumes "names reg byname" "p \<in> set (byname s)"
  shows "same_name_ids reg p = byname s"
proof -
  have ne: "byname s \<noteq> []" using assms(2) by auto
  have "fold (\<lambda>p l. l @ [nat (hf_id (projr (deref reg p)))]) ps l = l @ ps" if "set ps \<subseteq> set (byname s)" for ps l
    using that by (induction ps arbitrary: l) (auto simp: names_hf_id [OF assms(1)])
  from this [of "byname s" "[]"] show ?thesis
    by (simp add: same_name_ids_def rewind_names [OF assms] walk_names [OF assms(1) ne] until_fold)
qed

lemma hd_names: "byname s \<noteq> [] \<Longrightarrow> hd (byname s) \<in> set (byname s)"
  by simp

lemma tree_env_ok:
  assumes "names reg byname"
  shows "env_ok reg (registered byname) (tree_env reg ops tree)"
  unfolding env_ok_def registered_def
proof (intro allI impI)
  fix h assume "\<exists>s. h \<in> set (byname s)"
  then obtain s where s: "h \<in> set (byname s)" by blast
  then have ne: "byname s \<noteq> []" by auto
  have "same_name_ids reg (hd (byname s)) = same_name_ids reg h"
    using same_name_ids_names [OF assms] s hd_names [of byname s] ne by metis
  then show "\<exists>h0. rewind reg h = Inr h0 \<and> env_values (tree_env reg ops tree) h0 = env_values (tree_env reg ops tree) h \<and>
      env_exists (tree_env reg ops tree) h0 = env_exists (tree_env reg ops tree) h \<and>
      (\<forall>(body :: header_field_info \<Rightarrow> nat list \<Rightarrow> bool \<times> nat list) l. \<exists>l'. walk_same_name reg body h0 l = Inr l')"
    using rewind_names [OF assms s] by (simp add: tree_env_def walk_names [OF assms ne])
qed

lemma collect_tree:
  assumes "names reg byname" "byname s \<noteq> []"
  shows "walk_same_name reg (collect_values tree) (hd (byname s)) (False, []) =
    Inr (tree_values tree (byname s) \<noteq> [], tree_values tree (byname s))"
proof -
  let ?g = "\<lambda>p (b, l). case tree (int p) of None \<Rightarrow> (b, l) | Some fs \<Rightarrow> if fs = [] then (b, l) else (True, rev fs @ l)"
  have body: "collect_values tree h st =
      (False, case tree (hf_id h) of None \<Rightarrow> st | Some fs \<Rightarrow> if fs = [] then st else (True, rev fs @ snd st))" for h st
    by (cases st) (auto simp: collect_values_def proto_get_finfo_ptr_array_def split: option.split)
  have "until reg (collect_values tree) ps (b, l) =
      (b \<or> tree_values tree ps \<noteq> [], tree_values tree ps @ l)" if "set ps \<subseteq> set (byname s)" for ps b l
    using that
    by (induction ps arbitrary: b l)
      (auto simp: body names_hf_id [OF assms(1)] tree_values_def split: option.splits)
  from this [of "byname s" False "[]"] show ?thesis by (simp add: walk_names [OF assms])
qed

lemma exists_tree:
  assumes "names reg byname" "byname s \<noteq> []"
  shows "check_exists reg tree (hd (byname s)) a = Inr (tree_values tree (byname s) \<noteq> [])"
proof -
  have "(\<exists>p \<in> set (byname s). proto_check_for_protocol_or_field tree (hf_id (projr (deref reg p)))) \<longleftrightarrow>
      tree_values tree (byname s) \<noteq> []"
    by (auto simp: names_hf_id [OF assms(1)] proto_check_for_protocol_or_field_def tree_values_def
        proto_get_finfo_ptr_array_def Let_def split: option.splits)
  then show ?thesis
    unfolding check_exists_def walk_names [OF assms] until_search [OF assms(2)] by simp
qed

text \<open>What the machine needs of the first field of a name.\<close>

definition readable :: "'p registrar \<Rightarrow> 'v proto_tree \<Rightarrow> 'v env \<Rightarrow> nat \<Rightarrow> bool" where
  "readable reg tree E h =
     (walk_same_name reg (collect_values tree) h (False, []) = Inr (env_values E h \<noteq> [], env_values E h) \<and>
      (\<forall>a. check_exists reg tree h a = Inr (env_exists E h)))"

lemma tree_readable:
  assumes "names reg byname" "first_of reg (registered byname) h"
  shows "readable reg tree (tree_env reg ops tree) h"
proof -
  obtain s where s: "byname s \<noteq> []" "h = hd (byname s)" using first_of_names [OF assms] by blast
  then have "same_name_ids reg h = byname s" using same_name_ids_names [OF assms(1)] by simp
  then show ?thesis
    using s(2) by (simp add: readable_def tree_env_def collect_tree [OF assms(1) s(1)] exists_tree [OF assms(1) s(1)])
qed


section \<open>The arrays of the machine\<close>

definition slot :: "'v dfwork \<Rightarrow> int \<Rightarrow> nat" where
  "slot dfw r = nat (renumber (next_register dfw) r)"

definition reg_count :: "'v dfwork \<Rightarrow> nat" where
  "reg_count dfw = nat (next_register dfw) + length (const_insns dfw)"

lemma slot_bound:
  assumes "wf_dfw dfw" "usable dfw r"
  shows "0 \<le> renumber (next_register dfw) r" "slot dfw r < reg_count dfw"
  using assms by (auto simp: slot_def renumber_def reg_count_def usable_def wf_dfw_def)

lemma slot_eq: "wf_dfw dfw \<Longrightarrow> usable dfw r \<Longrightarrow> usable dfw q \<Longrightarrow> slot dfw r = slot dfw q \<longleftrightarrow> r = q"
  by (auto simp: slot_def renumber_def usable_def wf_dfw_def)

lemma slot_register: "0 \<le> r \<Longrightarrow> r < next_register dfw \<Longrightarrow> slot dfw r < nat (next_register dfw)"
  by (simp add: slot_def renumber_def)

definition sim :: "'v dfwork \<Rightarrow> 'v dfilter \<Rightarrow> 'v mstate \<Rightarrow> bool" where
  "sim dfw df s =
     (length (registers df) = reg_count dfw \<and> length (attempted_load df) = reg_count dfw \<and>
      length (owns_memory df) = reg_count dfw \<and>
      (\<forall>r. usable dfw r \<longrightarrow>
         registers df ! slot dfw r = regs s r \<and> attempted_load df ! slot dfw r = att s r))"

text \<open>What a run leaves as it is: the program, and the registers of the constants.\<close>

definition frame :: "'v dfwork \<Rightarrow> 'v dfilter \<Rightarrow> 'v dfilter \<Rightarrow> bool" where
  "frame dfw df df' =
     (df_insns df' = df_insns df \<and> df_consts df' = df_consts df \<and> num_registers df' = num_registers df \<and>
      max_registers df' = max_registers df \<and> df_interesting_fields df' = df_interesting_fields df \<and>
      (\<forall>k. nat (next_register dfw) \<le> k \<longrightarrow>
         registers df' ! k = registers df ! k \<and> attempted_load df' ! k = attempted_load df ! k))"

lemma frame_refl [simp]: "frame dfw df df"
  by (simp add: frame_def)

lemma frame_trans: "frame dfw df df1 \<Longrightarrow> frame dfw df1 df2 \<Longrightarrow> frame dfw df df2"
  by (auto simp: frame_def)

lemma sim_index:
  assumes "wf_dfw dfw" "sim dfw df s" "usable dfw r"
  shows "reg_index df (renumber (next_register dfw) r) = Inr (slot dfw r)"
  using slot_bound [OF assms(1,3)] assms(2) by (simp add: reg_index_def sim_def slot_def)

lemma sim_get:
  assumes "wf_dfw dfw" "sim dfw df s" "usable dfw r"
  shows "get_register df (renumber (next_register dfw) r) = Inr (regs s r)"
  using assms(2,3) by (simp add: get_register_def sim_index [OF assms] sim_def)

lemma sim_get_opt:
  assumes "wf_dfw dfw" "sim dfw df s" "pred_option (usable dfw) r"
  shows "get_register_opt df (map_option (renumber (next_register dfw)) r) = Inr (regs_opt s r)"
  using assms sim_get [OF assms(1,2)] by (cases r) (simp_all add: get_register_opt_def regs_opt_def)

lemma sim_set:
  assumes "wf_dfw dfw" "sim dfw df s" "0 \<le> r" "r < next_register dfw"
  shows "\<exists>df'. set_register (renumber (next_register dfw) r) vs own df = Inr df' \<and>
           sim dfw df' (s\<lparr>regs := (regs s)(r := vs)\<rparr>) \<and> frame dfw df df'"
proof -
  have u: "usable dfw r" using assms by (simp add: usable_def wf_dfw_def)
  let ?df' = "df\<lparr>registers := (registers df)[slot dfw r := vs], owns_memory := (owns_memory df)[slot dfw r := own]\<rparr>"
  have "sim dfw ?df' (s\<lparr>regs := (regs s)(r := vs)\<rparr>)"
    using assms(2) slot_eq [OF assms(1) u] slot_bound(2) [OF assms(1) u]
    by (auto simp: sim_def nth_list_update)
  moreover have "frame dfw df ?df'"
    using slot_register [OF assms(3,4)]
    by (auto simp: frame_def)
  ultimately show ?thesis by (simp add: set_register_def sim_index [OF assms(1,2) u])
qed

lemma sim_attempt:
  assumes "wf_dfw dfw" "sim dfw df s" "0 \<le> r" "r < next_register dfw"
    and df': "df' = df\<lparr>attempted_load := (attempted_load df)[slot dfw r := True]\<rparr>"
  shows "sim dfw df' (s\<lparr>att := (att s)(r := True)\<rparr>)" "frame dfw df df'"
proof -
  have u: "usable dfw r" using assms by (simp add: usable_def wf_dfw_def)
  show "sim dfw df' (s\<lparr>att := (att s)(r := True)\<rparr>)"
    using assms(2) slot_eq [OF assms(1) u] slot_bound(2) [OF assms(1) u]
    by (auto simp: sim_def nth_list_update df')
  show "frame dfw df df'"
    using slot_register [OF assms(3,4)]
    by (auto simp: frame_def df')
qed

section \<open>One instruction\<close>

lemma read_tree_sim:
  assumes "wf_dfw dfw" "sim dfw df s" "insn_ok K dfw (READ_TREE h r)" "readable reg tree E h"
  shows "\<exists>df'. read_tree reg tree h (renumber (next_register dfw) r) df =
             Inr (if att s r then regs s r \<noteq> [] else env_values E h \<noteq> [], df') \<and> frame dfw df df' \<and>
           sim dfw df' (if att s r then s
             else if env_values E h = [] then s\<lparr>att := (att s)(r := True)\<rparr>
             else s\<lparr>regs := (regs s)(r := env_values E h), att := (att s)(r := True)\<rparr>)"
proof -
  have r: "0 \<le> r" "r < next_register dfw" using wf_dfwD(3) [OF assms(1), of h "r + 1"] assms(3) by simp_all
  have u: "usable dfw r" using r assms(1) by (simp add: usable_def wf_dfw_def)
  note ix = sim_index [OF assms(1,2) u]
  have here: "registers df ! slot dfw r = regs s r" "attempted_load df ! slot dfw r = att s r"
    using assms(2) u by (simp_all add: sim_def)
  let ?df1 = "df\<lparr>attempted_load := (attempted_load df)[slot dfw r := True]\<rparr>"
  note s1 = sim_attempt [OF assms(1,2) r refl]
  obtain df2 where df2: "set_register (renumber (next_register dfw) r) (env_values E h) False ?df1 = Inr df2"
      "sim dfw df2 (s\<lparr>att := (att s)(r := True), regs := (regs s)(r := env_values E h)\<rparr>)" "frame dfw ?df1 df2"
    using sim_set [OF assms(1) s1(1) r] by auto
  have comm: "s\<lparr>att := A, regs := R\<rparr> = s\<lparr>regs := R, att := A\<rparr>" for A R by simp
  have walk: "walk_same_name reg (collect_values tree) h (False, []) = Inr (env_values E h \<noteq> [], env_values E h)"
    using assms(4) by (simp add: readable_def)
  consider "att s r" | "\<not> att s r" "env_values E h = []" | "\<not> att s r" "env_values E h \<noteq> []" by blast
  then show ?thesis
  proof cases
    case 1
    then show ?thesis
      using assms(2) ix here by (cases "regs s r = []") (simp_all add: read_tree_def)
  next
    case 2
    then show ?thesis
      using ix here walk s1 by (simp add: read_tree_def Let_def)
  next
    case 3
    then show ?thesis
      using ix here walk df2(1) df2(2) [unfolded comm] frame_trans [OF s1(2) df2(3)]
      by (simp add: read_tree_def Let_def)
  qed
qed

text \<open>A step of the abstract machine is a turn of the loop.\<close>

lemma step_sim:
  assumes "wf_dfw dfw" "sim dfw df s" "step E P (i, a, s) (j, b, s')"
    and "df_insns df = map (renumber_insn (next_register dfw)) P" "insn_ok K dfw (P ! i)"
    and "\<And>h. K h \<Longrightarrow> readable reg tree E h" "env_ops E = ops"
  shows "\<exists>df'. dfvm_insn reg ops tree i a df = Inr (Next j b df') \<and> sim dfw df' s' \<and> frame dfw df df'"
proof -
  note get = sim_get [OF assms(1,2)] and get_opt = sim_get_opt [OF assms(1,2)]
  have i: "i < length P" using assms(3) by (auto elim: stepE)
  have insn: "df_insns df ! i = renumber_insn (next_register dfw) (P ! i)" using i assms(4) by simp
  show ?thesis
  proof (cases "P ! i")
    case (READ_TREE h r)
    then have ok: "insn_ok K dfw (READ_TREE h r)" "readable reg tree E h" using assms(5,6) by simp_all
    obtain df' where "read_tree reg tree h (renumber (next_register dfw) r) df =
             Inr (if att s r then regs s r \<noteq> [] else env_values E h \<noteq> [], df')" "frame dfw df df'"
           "sim dfw df' (if att s r then s
             else if env_values E h = [] then s\<lparr>att := (att s)(r := True)\<rparr>
             else s\<lparr>regs := (regs s)(r := env_values E h), att := (att s)(r := True)\<rparr>)"
      using read_tree_sim [OF assms(1,2) ok] by blast
    then show ?thesis using assms(3) READ_TREE insn by (auto elim!: stepE simp: dfvm_insn_def)
  next
    case (MK_RANGE r1 r2 d)
    then obtain l where l: "slice_list ops d (regs s r1) = Inr l" "j = i + 1" "b = a" "s' = s\<lparr>regs := (regs s)(r2 := l)\<rparr>"
      using assms(3,7) by (auto elim: stepE)
    have r: "usable dfw r1" "0 \<le> r2" "r2 < next_register dfw"
      using assms(5) MK_RANGE by (simp_all add: temporary_def)
    obtain df' where "set_register (renumber (next_register dfw) r2) l True df = Inr df'" "sim dfw df' s'"
        "frame dfw df df'"
      using sim_set [OF assms(1,2) r(2,3)] l(4) by blast
    then show ?thesis
      using insn MK_RANGE l get [OF r(1)] by (auto simp: dfvm_insn_def mk_range_def)
  next
    case (CALL_FUNCTION f r r1 r2)
    then obtain l where l: "df_function f (regs_opt s r1) (regs_opt s r2) (regs s r) = Inr (b, l)" "j = i + 1"
        "s' = s\<lparr>regs := (regs s)(r := l)\<rparr>"
      using assms(3) by (auto elim: stepE)
    have r: "pred_option (usable dfw) r1" "pred_option (usable dfw) r2" "0 \<le> r" "r < next_register dfw"
      using assms(5) CALL_FUNCTION by (simp_all add: temporary_def)
    have u: "usable dfw r" using r(3,4) assms(1) by (simp add: usable_def wf_dfw_def)
    obtain df' where "set_register (renumber (next_register dfw) r) l True df = Inr df'" "sim dfw df' s'"
        "frame dfw df df'"
      using sim_set [OF assms(1,2) r(3,4)] l(3) by blast
    then show ?thesis
      using insn CALL_FUNCTION l get [OF u] get_opt [OF r(1)] get_opt [OF r(2)]
      by (auto simp: dfvm_insn_def call_function_def)
  next
    case (ANY op r1 r2)
    then show ?thesis
      using assms(2,3,5,7) insn get [of r1] get [of r2] by (auto elim!: stepE simp: dfvm_insn_def)
  next
    case (ANY_IN_RANGE r1 r2 r3)
    then show ?thesis
      using assms(2,3,5,7) insn get [of r1] get [of r2] get [of r3] by (auto elim!: stepE simp: dfvm_insn_def)
  next
    case (CHECK_EXISTS h)
    then have "readable reg tree E h" using assms(5,6) by simp
    then show ?thesis
      using assms(2,3) insn CHECK_EXISTS by (auto elim!: stepE simp: dfvm_insn_def readable_def)
  qed (use assms(2,3,5) insn in \<open>auto elim!: stepE simp: dfvm_insn_def\<close>)
qed


section \<open>A whole run\<close>

lemma run_sim:
  assumes "steps E P c (n, b, s')"
    and "wf_dfw dfw" "n < length P" "P ! n = RETURN"
    and "\<And>i. i < length P \<Longrightarrow> P ! i \<noteq> RETURN \<Longrightarrow> insn_ok K dfw (P ! i)"
    and "\<And>h. K h \<Longrightarrow> readable reg tree E h" "env_ops E = ops"
    and "c = (i, a, s)" "sim dfw df s" "df_insns df = map (renumber_insn (next_register dfw)) P"
  shows "\<exists>df'. dfvm_loop reg ops tree i a df = Some (Inr (b, free_register_overhead df')) \<and>
           sim dfw df' s' \<and> frame dfw df df'"
  using assms(1,8-10)
proof (induction arbitrary: i a s df rule: converse_rtranclp_induct)
  case base
  then have "dfvm_insn reg ops tree i a df = Inr (Done b (free_register_overhead df))"
    using assms(3,4) by (simp add: dfvm_insn_def)
  then show ?case
    using base assms(3) by (subst dfvm_loop.simps) auto
next
  case (step c1 c2)
  obtain j a2 s2 where c2: "c2 = (j, a2, s2)" by (cases c2)
  have st: "step E P (i, a, s) (j, a2, s2)" using step.hyps(1) step.prems(1) c2 by simp
  then have i: "i < length P" "P ! i \<noteq> RETURN" by (auto elim: stepE)
  obtain df1 where df1: "dfvm_insn reg ops tree i a df = Inr (Next j a2 df1)" "sim dfw df1 s2" "frame dfw df df1"
    using step_sim [OF assms(2) step.prems(2) st step.prems(3) assms(5) [OF i] assms(6,7)] by blast
  have insns: "df_insns df1 = df_insns df" using df1(3) by (simp add: frame_def)
  obtain df' where df': "dfvm_loop reg ops tree j a2 df1 = Some (Inr (b, free_register_overhead df'))"
      "sim dfw df' s'" "frame dfw df1 df'"
    using step.IH [OF c2 df1(2)] step.prems(3) insns by auto
  have "dfvm_loop reg ops tree i a df = Some (Inr (b, free_register_overhead df'))"
    using df1(1) df'(1) i(1) step.prems(3) by (subst dfvm_loop.simps) simp
  then show ?case using df'(2) frame_trans [OF df1(3) df'(3)] by blast
qed

lemma free_register_eq:
  "\<exists>M. free_register i df =
     df\<lparr>registers := (registers df)[i := []], attempted_load := (attempted_load df)[i := False],
        owns_memory := M\<rparr> \<and> length M = length (owns_memory df)"
proof -
  have "(registers df)[i := []] = registers df" if "registers df ! i = []"
    using that by (metis list_update_id)
  then show ?thesis
    by (cases "registers df ! i = []"; cases "owns_memory df ! i")
      (auto simp: free_register_def Let_def
        intro: exI [of _ "owns_memory df"] exI [of _ "(owns_memory df)[i := False]"])
qed

lemma update_prefix:
  "n < length xs \<Longrightarrow> (replicate n x @ drop n xs)[n := x] = replicate (Suc n) x @ drop (Suc n) xs"
  by (simp add: list_update_append Cons_nth_drop_Suc [symmetric] replicate_append_same [symmetric])

lemma free_registers:
  assumes "n \<le> length (registers df)" "n \<le> length (attempted_load df)"
  shows "\<exists>M. fold free_register [0..<n] df =
      df\<lparr>registers := replicate n [] @ drop n (registers df),
         attempted_load := replicate n False @ drop n (attempted_load df), owns_memory := M\<rparr> \<and>
      length M = length (owns_memory df)"
  using assms
proof (induction n)
  case 0
  then show ?case by (auto intro: exI [of _ "owns_memory df"])
next
  case (Suc n)
  then obtain M where M: "fold free_register [0..<n] df =
      df\<lparr>registers := replicate n [] @ drop n (registers df),
         attempted_load := replicate n False @ drop n (attempted_load df), owns_memory := M\<rparr>"
      "length M = length (owns_memory df)" by auto
  obtain M' where M': "free_register n (fold free_register [0..<n] df) =
      (fold free_register [0..<n] df)
        \<lparr>registers := (registers (fold free_register [0..<n] df))[n := []],
         attempted_load := (attempted_load (fold free_register [0..<n] df))[n := False], owns_memory := M'\<rparr>"
      "length M' = length (owns_memory (fold free_register [0..<n] df))"
    using free_register_eq by blast
  have "fold free_register [0..<Suc n] df = free_register n (fold free_register [0..<n] df)" by simp
  also have "\<dots> = df\<lparr>registers := replicate (Suc n) [] @ drop (Suc n) (registers df),
         attempted_load := replicate (Suc n) False @ drop (Suc n) (attempted_load df), owns_memory := M'\<rparr>"
    using M' M Suc.prems by (simp add: update_prefix del: replicate.simps)
  finally show ?case using M'(2) M by (intro exI [of _ M']) simp
qed

section \<open>Filters at rest\<close>

text \<open>The arrays between two runs: only the constants have values.\<close>

fun const_value :: "'v insn \<Rightarrow> 'v" where
  "const_value (PUT_FVALUE v r) = v"

definition at_rest :: "'v dfwork \<Rightarrow> 'v dfilter \<Rightarrow> bool" where
  "at_rest dfw df =
     (num_registers df = nat (next_register dfw) \<and>
      registers df = replicate (nat (next_register dfw)) [] @ map (\<lambda>x. [const_value x]) (const_insns dfw) \<and>
      attempted_load df = replicate (reg_count dfw) False \<and> length (owns_memory df) = reg_count dfw)"

definition rest_state :: "'v dfwork \<Rightarrow> 'v mstate" where
  "rest_state dfw =
     \<lparr>regs = (\<lambda>r. if r < 0 \<and> nat (- 1 - r) < length (const_insns dfw)
                 then [const_value (const_insns dfw ! nat (- 1 - r))] else []),
      att = (\<lambda>_. False)\<rparr>"

lemma rest_sim:
  assumes "wf_dfw dfw" "at_rest dfw df"
  shows "sim dfw df (rest_state dfw)"
proof -
  have "registers df ! slot dfw r = regs (rest_state dfw) r" if u: "usable dfw r" for r
  proof (cases "r < 0")
    case True
    then have "slot dfw r = nat (next_register dfw) + nat (- 1 - r)" "nat (- 1 - r) < length (const_insns dfw)"
      using u assms(1) by (auto simp: slot_def renumber_def usable_def wf_dfw_def)
    then show ?thesis using True assms(2) by (simp add: at_rest_def rest_state_def nth_append)
  next
    case False
    then have "slot dfw r < nat (next_register dfw)" using u by (simp add: slot_def renumber_def usable_def)
    then show ?thesis using False assms(2) by (simp add: at_rest_def rest_state_def nth_append)
  qed
  moreover have "attempted_load df ! slot dfw r = att (rest_state dfw) r" if "usable dfw r" for r
    using assms slot_bound(2) [OF assms(1) that] by (simp add: at_rest_def rest_state_def)
  ultimately show ?thesis using assms(2) by (simp add: sim_def at_rest_def reg_count_def)
qed

lemma rest_ready:
  assumes "wf_dfw dfw"
  shows "consts_in (set (const_insns dfw)) (rest_state dfw)" "state_ok E dfwork_new (rest_state dfw)"
proof -
  have "r < 0 \<and> regs (rest_state dfw) r = [v]" if mem: "PUT_FVALUE v r \<in> set (const_insns dfw)" for v r
  proof -
    obtain k where k: "k < length (const_insns dfw)" "const_insns dfw ! k = PUT_FVALUE v r"
      using mem by (auto simp: in_set_conv_nth)
    then have "r = - 1 - int k" using assms unfolding wf_dfw_def by fastforce
    then show ?thesis using k by (simp add: rest_state_def)
  qed
  then show "consts_in (set (const_insns dfw)) (rest_state dfw)" by (simp add: consts_in_def)
  show "state_ok E dfwork_new (rest_state dfw)" by (simp add: state_ok_def dfwork_new_def rest_state_def)
qed

lemma rest_again:
  assumes "at_rest dfw df" "frame dfw df df'" "sim dfw df' s"
  shows "\<exists>M. free_register_overhead df' = df\<lparr>owns_memory := M\<rparr> \<and> length M = reg_count dfw"
proof -
  let ?n = "nat (next_register dfw)"
  have len: "length (registers df') = reg_count dfw" "length (attempted_load df') = reg_count dfw"
      "length (owns_memory df') = reg_count dfw"
    using assms(3) by (simp_all add: sim_def)
  have "drop ?n (registers df') = drop ?n (registers df)"
    by (rule nth_equalityI)
      (use assms(1,2) len in \<open>simp_all add: frame_def at_rest_def reg_count_def nth_append\<close>)
  moreover have "drop ?n (attempted_load df') = drop ?n (attempted_load df)"
    by (rule nth_equalityI) (use assms(1,2) len in \<open>simp_all add: frame_def at_rest_def reg_count_def\<close>)
  moreover have "?n \<le> reg_count dfw" by (simp add: reg_count_def)
  then obtain M where "fold free_register [0..<?n] df' =
      df'\<lparr>registers := replicate ?n [] @ drop ?n (registers df'),
         attempted_load := replicate ?n False @ drop ?n (attempted_load df'), owns_memory := M\<rparr>"
      "length M = reg_count dfw"
    using free_registers [of ?n df'] len by auto
  moreover have "num_registers df' = ?n" using assms(1,2) by (simp add: frame_def at_rest_def)
  ultimately show ?thesis
    using assms(1,2) by (auto simp: free_register_overhead_def frame_def at_rest_def reg_count_def
        replicate_add intro!: exI [of _ M] dfilter.equality)
qed


section \<open>Setting up\<close>

lemma renumber_insn_nonneg:
  assumes "insn_ok K dfw x" "wf_dfw dfw" "const_insns dfw = []"
  shows "renumber_insn fc x = x"
proof -
  have u: "renumber fc r = r" if "usable dfw r" for r
    using that assms(2,3) by (simp add: usable_def wf_dfw_def renumber_def)
  have t: "renumber fc r = r" if "temporary dfw r" for r
    using that by (simp add: temporary_def renumber_def)
  have "map_option (renumber fc) r = r" if "pred_option (usable dfw) r" for r
    using that u by (cases r) simp_all
  moreover have "renumber fc r = r" if "loaded_fields dfw h = Some (r + 1)" for h r
    using wf_dfwD(3) [OF assms(2) that] by (simp add: renumber_def)
  ultimately show ?thesis using assms(1) u t by (cases x) auto
qed

lemma move_constants_eq:
  assumes "wf_dfw dfw" "\<forall>x \<in> set (insns dfw). x = RETURN \<or> insn_ok K dfw x"
  shows "move_constants dfw =
     dfw\<lparr>first_constant := next_register dfw,
         next_register := next_register dfw + int (length (const_insns dfw)),
         const_insns := map (renumber_insn (next_register dfw)) (const_insns dfw),
         insns := map (renumber_insn (next_register dfw)) (insns dfw)\<rparr>"
proof (cases "const_insns dfw = []")
  case True
  have "map (renumber_insn (next_register dfw)) (insns dfw) = insns dfw"
    by (rule map_idI) (use assms True renumber_insn_nonneg in fastforce)
  then show ?thesis using True assms(1) by (simp add: move_constants_def wf_dfw_def)
next
  case False
  then show ?thesis using assms(1) by (simp add: move_constants_def wf_dfw_def Let_def)
qed

lemma replicate_same_update: "(replicate n x)[i := x] = replicate n x"
proof (rule nth_equalityI)
  fix k assume "k < length ((replicate n x)[i := x])"
  then show "(replicate n x)[i := x] ! k = replicate n x ! k" by (cases "k = i") simp_all
qed simp

lemma init_consts_eq:
  assumes "\<forall>k < length cs. \<exists>v. cs ! k = PUT_FVALUE v (int (length R + k))"
    and "length (attempted_load df) = length R + length cs"
  shows "init_consts cs (df\<lparr>registers := R @ replicate (length cs) [],
             owns_memory := replicate (length R + length cs) False\<rparr>) =
    Inr (df\<lparr>registers := R @ map (\<lambda>x. [const_value x]) cs,
             owns_memory := replicate (length R + length cs) False\<rparr>)"
  using assms
proof (induction cs arbitrary: R)
  case (Cons c cs)
  obtain v where c: "c = PUT_FVALUE v (int (length R))" using Cons.prems(1) by force
  let ?R = "R @ [[v]]"
  let ?M = "replicate (length ?R + length cs) False"
  have "put_fvalue v (int (length R)) (df\<lparr>registers := R @ replicate (length (c # cs)) [],
             owns_memory := replicate (length R + length (c # cs)) False\<rparr>) =
      Inr (df\<lparr>registers := ?R @ replicate (length cs) [], owns_memory := ?M\<rparr>)"
  proof -
    have "replicate (length R + length (c # cs)) False = ?M" "?M[length R := False] = ?M"
      by (simp_all only: replicate_same_update) simp
    then show ?thesis
      using Cons.prems(2)
      by (simp add: put_fvalue_def set_register_def reg_index_def list_update_append del: replicate.simps(2))
        (simp add: list_update_append)
  qed
  moreover have "init_consts cs (df\<lparr>registers := ?R @ replicate (length cs) [], owns_memory := ?M\<rparr>) =
      Inr (df\<lparr>registers := ?R @ map (\<lambda>x. [const_value x]) cs, owns_memory := ?M\<rparr>)"
    by (rule Cons.IH) (use Cons.prems in force)+
  ultimately show ?case using c by simp
qed simp

end
