(* ===== verification/DfilterProps.thy ===== *)
theory DfilterProps
  imports DfilterRun FtypeProps
begin

text \<open>
  The contract of the display filter engine: a compiled filter decides what its syntax tree means, on
  any tree and any number of times, and the machine always stops.
\<close>

section \<open>Compiling\<close>

text \<open>All that compilation establishes; \<open>P\<close> is the code before the jumps are threaded.\<close>

definition compiled ::
    "'p registrar \<Rightarrow> (string \<Rightarrow> nat list) \<Rightarrow> 'v stnode \<Rightarrow> 'v dfwork \<Rightarrow> 'v insn list \<Rightarrow> 'v dfilter \<Rightarrow> bool" where
  "compiled reg byname t dfw P' df =
     (gencode reg t dfwork_new = Inr dfw \<and> closed dfwork_new dfw \<and> regs_ok (first_of reg (registered byname)) dfw \<and>
      threaded (here dfw + 1) (insns dfw @ [RETURN]) P' \<and> dfilter_compile_tree reg t = Inr df \<and>
      at_rest dfw df \<and> df_insns df = map (renumber_insn (next_register dfw)) P' \<and>
      df_interesting_fields df = interesting_fields dfw)"

lemma threaded_insn_ok:
  assumes "threaded (length P) P P'" "i < length P" "P ! i = RETURN \<or> insn_ok K dfw (P ! i)"
  shows "P' ! i = RETURN \<or> insn_ok K dfw (P' ! i)"
proof (cases "goto_target (P ! i)")
  case None
  then show ?thesis using threadedD(2) [OF assms(1,2)] assms(3) by simp
next
  case (Some t)
  then obtain t' where "P' ! i = with_target t' (P ! i)" using threadedD(3) [OF assms(1,2,2)] by blast
  then show ?thesis using assms(3) Some by auto
qed

lemma finished_insn_ok:
  assumes "regs_ok K dfw" "threaded (here dfw + 1) (insns dfw @ [RETURN]) P'" "i < length P'"
  shows "P' ! i = RETURN \<or> insn_ok K dfw (P' ! i)"
proof -
  have len: "length P' = here dfw + 1" using threadedD(1) [OF assms(2)] by simp
  have "(insns dfw @ [RETURN]) ! i = RETURN \<or> insn_ok K dfw ((insns dfw @ [RETURN]) ! i)"
    using assms(1,3) len by (auto simp: regs_ok_def nth_append)
  then show ?thesis
    using threaded_insn_ok [of "insns dfw @ [RETURN]" P' i K dfw] assms(2,3) len by simp
qed

lemma dfilter_of_dfwork_ok:
  assumes "wf_dfw dfw" "\<forall>x \<in> set P'. x = RETURN \<or> insn_ok K dfw x" "length P' = here dfw + 1"
    and d: "dfw3 = (dfw_append_insn RETURN dfw)\<lparr>insns := P'\<rparr>"
  shows "\<exists>df. dfilter_of_dfwork (move_constants dfw3) = Inr df \<and> at_rest dfw df \<and>
           df_insns df = map (renumber_insn (next_register dfw)) P' \<and>
           df_interesting_fields df = interesting_fields dfw"
proof -
  let ?n = "next_register dfw" and ?cs = "map (renumber_insn (next_register dfw)) (const_insns dfw)"
  have same: "insns dfw3 = P'" "const_insns dfw3 = const_insns dfw" "next_register dfw3 = ?n"
      "loaded_fields dfw3 = loaded_fields dfw" "first_constant dfw3 = first_constant dfw"
      "interesting_fields dfw3 = interesting_fields dfw"
    by (simp_all add: d)
  have "wf_dfw dfw3" using assms(1,3) by (simp add: wf_dfw_def d)
  moreover have "\<forall>x \<in> set (insns dfw3). x = RETURN \<or> insn_ok K dfw3 x"
    using assms(2) insn_ok_cong [OF same(4,3,5)] same(1) by simp
  ultimately have m: "move_constants dfw3 =
     dfw3\<lparr>first_constant := ?n, next_register := ?n + int (length (const_insns dfw)), const_insns := ?cs,
         insns := map (renumber_insn ?n) P'\<rparr>"
    using move_constants_eq [of dfw3 K] same by simp
  have n: "0 \<le> ?n" using wf_dfwD(2) [OF assms(1)] .
  let ?R = "replicate (nat ?n) ([] :: 'a list)"
  let ?df0 = "\<lparr>df_insns = map (renumber_insn ?n) P', df_consts = ?cs,
        num_registers = nat ?n, max_registers = reg_count dfw, registers = [],
        attempted_load = replicate (reg_count dfw) False, owns_memory = [],
        df_interesting_fields = interesting_fields dfw\<rparr>"
  have cs: "\<forall>k < length ?cs. \<exists>v. ?cs ! k = PUT_FVALUE v (int (length ?R + k))"
    using assms(1) n by (fastforce simp: wf_dfw_def renumber_def)
  have vals: "map (\<lambda>x. [const_value x]) ?cs = map (\<lambda>x. [const_value x]) (const_insns dfw)"
  proof -
    have "const_value (renumber_insn ?n x) = const_value x" if mem: "x \<in> set (const_insns dfw)" for x
    proof -
      obtain v r where "x = PUT_FVALUE v r"
        using assms(1) mem unfolding wf_dfw_def in_set_conv_nth by blast
      then show ?thesis by simp
    qed
    then show ?thesis by simp
  qed
  have size: "nat (?n + int (length (const_insns dfw))) = length ?R + length ?cs" "reg_count dfw = length ?R + length ?cs"
    using n by (simp_all add: nat_add_distrib reg_count_def)
  have "dfilter_of_dfwork (move_constants dfw3) =
      init_consts ?cs (?df0\<lparr>registers := ?R @ replicate (length ?cs) [],
        owns_memory := replicate (length ?R + length ?cs) False\<rparr>)"
    by (simp add: dfilter_of_dfwork_def m dfvm_init_const_def dfw_interesting_fields_def same size replicate_add
        del: length_map length_replicate) (simp add: replicate_add)
  also have "\<dots> = Inr (?df0\<lparr>registers := ?R @ map (\<lambda>x. [const_value x]) (const_insns dfw),
        owns_memory := replicate (length ?R + length ?cs) False\<rparr>)"
    using init_consts_eq [OF cs, of ?df0] size by (simp only: vals) simp
  finally show ?thesis by (simp add: at_rest_def size)
qed


lemma compile_ok:
  assumes "names reg byname" "wf_test (registered byname) t"
  shows "\<exists>dfw P' df. compiled reg byname t dfw P' df"
proof -
  note env = tree_env_ok [OF assms(1), of undefined undefined]
  obtain dfw where g: "gencode reg t dfwork_new = Inr dfw" "closed dfwork_new dfw"
    using gencode_ok [OF env wf_new assms(2)] by blast
  let ?P = "insns dfw @ [RETURN]"
  have wf: "wf_dfw dfw" using g(2) by (simp add: closed_def shape_def)
  have rok: "regs_ok (first_of reg (registered byname)) dfw"
    by (rule gencode_regs [OF env wf_new assms(2) regs_ok_new g(1)])
  obtain P' where P': "fixup_loop (length ?P) 0 ?P = Inr P'" "threaded (length ?P) ?P P'"
    using fixup_loop_threaded [OF jumps_ok_finished [OF g(2)] threaded_0, of "length ?P"] by auto
  have len: "length P' = here dfw + 1" using threadedD(1) [OF P'(2)] by simp
  have "\<forall>x \<in> set P'. x = RETURN \<or> insn_ok (first_of reg (registered byname)) dfw x"
    using finished_insn_ok [OF rok] P'(2) by (auto simp: all_set_conv_all_nth)
  from dfilter_of_dfwork_ok [OF wf this len refl] obtain df where
      df: "dfilter_of_dfwork (move_constants ((dfw_append_insn RETURN dfw)\<lparr>insns := P'\<rparr>)) = Inr df"
        "at_rest dfw df" "df_insns df = map (renumber_insn (next_register dfw)) P'"
        "df_interesting_fields df = interesting_fields dfw"
    by blast
  have "dfilter_compile_tree reg t = Inr df"
    using g(1) P'(1) df(1) by (simp add: dfilter_compile_tree_def dfw_gencode_def Let_def)
  then show ?thesis
    using g rok P'(2) df(2-4) unfolding compiled_def by (intro exI [of _ dfw] exI [of _ P'] exI [of _ df]) simp
qed

text \<open>A run from rest ends at rest.\<close>

lemma apply_ok:
  assumes "names reg byname" "wf_test (registered byname) t" "compiled reg byname t dfw P' df"
    and "at_rest dfw df1" "df_insns df1 = df_insns df" "eval_test (tree_env reg ops tree) t = Inr b"
  shows "\<exists>M. dfilter_apply reg ops df1 tree = Inr (b, df1\<lparr>owns_memory := M\<rparr>) \<and> length M = reg_count dfw"
proof -
  let ?E = "tree_env reg ops tree" and ?K = "first_of reg (registered byname)"
  let ?P = "insns dfw @ [RETURN]" and ?s = "rest_state dfw"
  have c: "gencode reg t dfwork_new = Inr dfw" "closed dfwork_new dfw" "regs_ok ?K dfw"
      "threaded (length ?P) ?P P'" "df_insns df = map (renumber_insn (next_register dfw)) P'"
    using assms(3) by (simp_all add: compiled_def)
  note env = tree_env_ok [OF assms(1), of ops tree]
  have wf: "wf_dfw dfw" using c(2) by (simp add: closed_def shape_def)
  have comp: "computes ?E [] dfwork_new dfw (Inr b)"
    using gencode_ok [OF env wf_new assms(2)] c(1) assms(6) by auto
  have "ready ?E ?P (set (const_insns dfw)) 0 [] dfwork_new dfw ?s"
    using rest_ready [OF wf] by (simp add: ready_def agree_def nth_append)
  then obtain s' where "falls_through ?E ?P dfwork_new dfw True ?s b s'"
    using comp holding_nil unfolding computes_def by blast
  then have "steps ?E ?P (0, True, ?s) (here dfw, b, s')" by (simp add: falls_through_def dfwork_new_def)
  then obtain k where k: "(step ?E ?P ^^ k) (0, True, ?s) (here dfw, b, s')" by (auto dest: rtranclp_imp_relpowp)
  have good: "good ?P (0, True, ?s)"
  proof -
    have "regs ?s r = []" if rd: "reads ?P r" for r
    proof -
      obtain h where "loaded_fields dfw h = Some (r + 1)"
        using rd c(3) unfolding reads_def regs_ok_def by fastforce
      then have "0 \<le> r" using wf_dfwD(3) [OF wf, of h "r + 1"] by simp
      then show ?thesis by (simp add: rest_state_def)
    qed
    then show ?thesis by (simp add: good_def)
  qed
  have run: "steps ?E P' (0, True, ?s) (here dfw, b, s')"
    by (rule threaded_run [OF c(4) jumps_ok_finished [OF c(2)] writes_ok_finished [OF c(3)] good k]) simp
  have last: "here dfw < length P'" "P' ! here dfw = RETURN"
    using threadedD(1) [OF c(4)] threadedD(2) [OF c(4), of "here dfw"] by simp_all
  have insn: "P' ! i \<noteq> RETURN \<Longrightarrow> insn_ok ?K dfw (P' ! i)" if "i < length P'" for i
    using finished_insn_ok [OF c(3) _ that] c(4) by simp
  have ops: "env_ops ?E = ops" by (simp add: tree_env_def)
  have code: "df_insns df1 = map (renumber_insn (next_register dfw)) P'" using assms(5) c(5) by simp
  obtain df' where df': "dfvm_loop reg ops tree 0 True df1 = Some (Inr (b, free_register_overhead df'))"
      "sim dfw df' s'" "frame dfw df1 df'"
    using run_sim [OF run wf last insn tree_readable [OF assms(1)] ops refl rest_sim [OF wf assms(4)] code]
    by blast
  then show ?thesis
    using rest_again [OF assms(4) df'(3,2)] by (auto simp: dfilter_apply_def dfvm_apply_def returned_def)
qed

section \<open>The contract\<close>

text \<open>
  C12. A filter that the parser and the semantic check let through compiles, and the compiled filter
  decides on every tree what the meaning of the syntax tree says: the comparisons hold for some of the
  values of all fields with the name, absent fields make a comparison false, the operators stop early.
  The filter can be applied again, in any order of trees: a run leaves the program, the constants and
  the empty registers as it found them. Only the flags that say who owns the memory of a register may
  differ, and the next run does not depend on them.
\<close>

theorem dfilter_apply_correct:
  assumes "names reg byname" "wf_test (registered byname) t"
  shows "\<exists>df. dfilter_compile_tree reg t = Inr df \<and>
     (\<forall>M tree b. length M = length (owns_memory df) \<longrightarrow> eval_test (tree_env reg ops tree) t = Inr b \<longrightarrow>
        (\<exists>M'. length M' = length M \<and>
           dfilter_apply reg ops (df\<lparr>owns_memory := M\<rparr>) tree = Inr (b, df\<lparr>owns_memory := M'\<rparr>)))"
proof -
  obtain dfw P' df where c: "compiled reg byname t dfw P' df" using compile_ok [OF assms] by blast
  have rest: "at_rest dfw df" using c by (simp add: compiled_def)
  have "\<exists>M'. length M' = length M \<and>
           dfilter_apply reg ops (df\<lparr>owns_memory := M\<rparr>) tree = Inr (b, df\<lparr>owns_memory := M'\<rparr>)"
    if "length M = length (owns_memory df)" "eval_test (tree_env reg ops tree) t = Inr b" for M tree b
  proof -
    have "at_rest dfw (df\<lparr>owns_memory := M\<rparr>)" using rest that(1) by (simp add: at_rest_def)
    from apply_ok [OF assms c this _ that(2)] show ?thesis
      using that(1) rest by (auto simp: at_rest_def)
  qed
  then show ?thesis using c by (auto simp: compiled_def)
qed


text \<open>The filter \<open>a.b == 5 && c\<close> on a packet in which the second field of the name \<open>a.b\<close> is 5.\<close>

definition sample_filter :: "unit fvalue stnode" where
  "sample_filter =
     STTYPE_TEST TEST_OP_AND
       (STTYPE_TEST TEST_OP_EQ (STTYPE_FIELD 2) (Some (STTYPE_FVALUE (UINTEGER 1 5))))
       (Some (STTYPE_TEST TEST_OP_EXISTS (STTYPE_FIELD 1) None))"

definition sample_tree :: "unit fvalue proto_tree" where
  "sample_tree = (\<lambda>i. if i = 0 then Some [UINTEGER 1 4] else if i = 2 then Some [UINTEGER 1 5, UINTEGER 1 6]
                      else if i = 1 then Some [BOOLEAN 1] else None)"

abbreviation "sample_ops \<equiv> fvalue_ops (\<lambda>(_::unit) _. False)"

lemma sample_filter_ok: "wf_test (registered sample_names) sample_filter"
  by (auto simp: sample_filter_def registered_def sample_names_def rel_op_def intro: exI [of _ "''a.b''"] exI [of _ "''c''"])

lemma sample_ids: "same_name_ids sample_registrar 2 = [0, 2]" "same_name_ids sample_registrar 1 = [1]"
  using same_name_ids_names [OF sample_names, of 2 "''a.b''"] same_name_ids_names [OF sample_names, of 1 "''c''"]
  by (simp_all add: sample_names_def)

lemma sample_holds: "eval_test (tree_env sample_registrar sample_ops sample_tree) sample_filter = Inr True"
  by (simp add: sample_filter_def tree_env_def sample_ids sample_ids(2) [unfolded One_nat_def] tree_values_def sample_tree_def rel_op_def eval_rel_def
      fvalue_ops_def fvalue_cmp_def int_member_def uinteger_cmp_def)

theorem dfilter_apply_correct_witness:
  "\<exists>df M'. dfilter_compile_tree sample_registrar sample_filter = Inr df \<and>
     dfilter_apply sample_registrar sample_ops df sample_tree = Inr (True, df\<lparr>owns_memory := M'\<rparr>)"
proof -
  obtain df where df: "dfilter_compile_tree sample_registrar sample_filter = Inr df"
      "\<forall>M tree b. length M = length (owns_memory df) \<longrightarrow>
         eval_test (tree_env sample_registrar sample_ops tree) sample_filter = Inr b \<longrightarrow>
         (\<exists>M'. length M' = length M \<and> dfilter_apply sample_registrar sample_ops (df\<lparr>owns_memory := M\<rparr>) tree =
            Inr (b, df\<lparr>owns_memory := M'\<rparr>))"
    using dfilter_apply_correct [OF sample_names sample_filter_ok] by blast
  from df(2) [rule_format, OF refl sample_holds] show ?thesis using df(1) by auto
qed


section \<open>The machine stops\<close>

definition forward :: "'v insn list \<Rightarrow> bool" where
  "forward P = (\<forall>i < length P. \<forall>t. goto_target (P ! i) = Some t \<longrightarrow> i < t \<and> t < length P)"

lemma goto_target_renumber [simp]: "goto_target (renumber_insn fc x) = goto_target x"
  by (cases x) (simp_all add: goto_target_def)

lemma compiled_forward:
  assumes "compiled reg byname t dfw P' df"
  shows "forward (df_insns df)"
proof -
  let ?P = "insns dfw @ [RETURN]"
  have c: "closed dfwork_new dfw" "threaded (length ?P) ?P P'"
      "df_insns df = map (renumber_insn (next_register dfw)) P'"
    using assms by (simp_all add: compiled_def)
  have "i < t \<and> t < length P'" if i: "i < length P'" "goto_target (P' ! i) = Some t" for i t
  proof -
    have ip: "i < length ?P" using i(1) threadedD(1) [OF c(2)] by simp
    show ?thesis
    proof (cases "goto_target (?P ! i)")
      case None
      then show ?thesis using threadedD(2) [OF c(2) ip] i(2) by simp
    next
      case (Some t0)
      then obtain t' where "P' ! i = with_target t' (?P ! i)" "t0 \<le> t'" "t' < length ?P"
        using threadedD(3) [OF c(2) ip ip] by blast
      moreover have "i < t0" using jumps_okD(1) [OF jumps_ok_finished [OF c(1)] ip Some] by simp
      ultimately show ?thesis using i(2) Some threadedD(1) [OF c(2)] by simp
    qed
  qed
  note fw = this
  have "length (df_insns df) = length P'" using c(3) by simp
  moreover have "goto_target (df_insns df ! i) = goto_target (P' ! i)" if "i < length P'" for i
    using that c(3) by simp
  ultimately show ?thesis unfolding forward_def using fw by metis
qed

text \<open>One turn moves to the next instruction or to the target of the jump, and keeps the program.\<close>

lemma set_register_insns: "set_register r l M df = Inr df' \<Longrightarrow> df_insns df' = df_insns df"
  by (auto simp: set_register_def errs)

lemma read_tree_insns: "read_tree reg tree h r df = Inr (a, df') \<Longrightarrow> df_insns df' = df_insns df"
  by (auto simp: read_tree_def errs Let_def dest: set_register_insns split: if_splits)

lemma mk_range_insns: "mk_range ops r1 r2 d df = Inr df' \<Longrightarrow> df_insns df' = df_insns df"
  by (auto simp: mk_range_def errs dest: set_register_insns)

lemma call_function_insns: "call_function f r x y df = Inr (a, df') \<Longrightarrow> df_insns df' = df_insns df"
  by (auto simp: call_function_def errs dest: set_register_insns)

lemma dfvm_insn_next:
  assumes "dfvm_insn reg ops tree i a df = Inr (Next j b df')"
  shows "df_insns df' = df_insns df \<and> (j = i + 1 \<or> goto_target (df_insns df ! i) = Some j)"
  using assms
  by (cases "df_insns df ! i")
    (auto simp: dfvm_insn_def errs split: if_splits dest: read_tree_insns mk_range_insns call_function_insns)

lemma dfvm_loop_forward:
  assumes "forward (df_insns df)"
  shows "\<exists>r. dfvm_loop reg ops tree i a df = Some r"
  using assms
proof (induction "length (df_insns df) - i" arbitrary: i a df rule: less_induct)
  case less
  show ?case
  proof (cases "i < length (df_insns df)")
    case True
    have ih: "\<exists>r. dfvm_loop reg ops tree j b df' = Some r"
      if "dfvm_insn reg ops tree i a df = Inr (Next j b df')" for j b df'
    proof -
      note n = dfvm_insn_next [OF that]
      have "j = i + 1 \<or> i < j" using n True less.prems unfolding forward_def by blast
      then have "i < j" by auto
      moreover have "forward (df_insns df')" using less.prems n by (simp only:)
      ultimately show ?thesis using less.hyps [of df' j b] conjunct1 [OF n] True by fastforce
    qed
    show ?thesis
    proof (cases "dfvm_insn reg ops tree i a df")
      case (Inl e)
      then show ?thesis using True by (subst dfvm_loop.simps) simp
    next
      case (Inr c)
      then show ?thesis using True ih by (cases c; subst dfvm_loop.simps) simp_all
    qed
  qed (simp add: dfvm_loop.simps)
qed

text \<open>
  C13. The main loop of the machine ends on a compiled filter: from any instruction and any contents of
  the registers, on any tree, whether or not the operations on values fail on the way.
\<close>

theorem dfvm_loop_returns:
  assumes "names reg byname" "wf_test (registered byname) t" "dfilter_compile_tree reg t = Inr df"
    and "df_insns df' = df_insns df"
  shows "\<exists>r. dfvm_loop reg' ops tree i a df' = Some r"
proof -
  obtain dfw P' df0 where c: "compiled reg byname t dfw P' df0" using compile_ok [OF assms(1,2)] by blast
  then have "df0 = df" using assms(3) by (simp add: compiled_def)
  then show ?thesis using dfvm_loop_forward [of df'] compiled_forward [OF c] assms(4) by simp
qed

theorem dfvm_loop_returns_witness:
  "\<exists>df r. dfilter_compile_tree sample_registrar sample_filter = Inr df \<and>
     dfvm_loop sample_registrar sample_ops (\<lambda>_. None) 0 True df = Some r"
proof -
  obtain df where df: "dfilter_compile_tree sample_registrar sample_filter = Inr df"
    using compile_ok [OF sample_names sample_filter_ok] by (auto simp: compiled_def)
  then show ?thesis using dfvm_loop_returns [OF sample_names sample_filter_ok df refl] by blast
qed

end
