(* ===== verification/DfilterFields.thy ===== *)
theory DfilterFields
  imports DfilterProps
begin

text \<open>
  The fields a filter looks at. The generator records the identifiers of all fields with a name that
  occurs in the filter, and those are the only fields of a packet that the compiled filter reads: the
  engine collects the values of no others while it dissects.
\<close>

section \<open>The fields in a syntax tree\<close>

fun entity_fields :: "'v stnode \<Rightarrow> nat set" where
  "entity_fields (STTYPE_FIELD h) = {h}"
| "entity_fields (STTYPE_FVALUE v) = {}"
| "entity_fields (STTYPE_RANGE e d) = entity_fields e"
| "entity_fields (STTYPE_FUNCTION f ps) = (\<Union>p \<in> set ps. entity_fields p)"
| "entity_fields (STTYPE_SET elems) = {}"
| "entity_fields (STTYPE_STRING s) = {}"
| "entity_fields (STTYPE_CHARCONST s) = {}"
| "entity_fields (STTYPE_UNPARSED s) = {}"
| "entity_fields (STTYPE_TEST op a b) = {}"

definition set_fields :: "('v stnode \<times> 'v stnode option) list \<Rightarrow> nat set" where
  "set_fields elems =
     (\<Union>(n1, n2) \<in> set elems. entity_fields n1 \<union> (case n2 of None \<Rightarrow> {} | Some n \<Rightarrow> entity_fields n))"

fun test_fields :: "'v stnode \<Rightarrow> nat set" where
  "test_fields (STTYPE_TEST TEST_OP_EXISTS a b) = entity_fields a"
| "test_fields (STTYPE_TEST TEST_OP_NOT a b) = test_fields a"
| "test_fields (STTYPE_TEST TEST_OP_AND a (Some b)) = test_fields a \<union> test_fields b"
| "test_fields (STTYPE_TEST TEST_OP_OR a (Some b)) = test_fields a \<union> test_fields b"
| "test_fields (STTYPE_TEST TEST_OP_IN a (Some b)) =
     entity_fields a \<union> (case b of STTYPE_SET elems \<Rightarrow> set_fields elems | _ \<Rightarrow> {})"
| "test_fields (STTYPE_TEST op a (Some b)) = entity_fields a \<union> entity_fields b"
| "test_fields _ = {}"

lemma set_fields_simps [simp]:
  "set_fields [] = {}"
  "set_fields ((n1, n2) # elems) =
     entity_fields n1 \<union> (case n2 of None \<Rightarrow> {} | Some n \<Rightarrow> entity_fields n) \<union> set_fields elems"
  by (simp_all add: set_fields_def)

section \<open>What the generator does to the work area, step by step\<close>

definition reads_field :: "'v insn \<Rightarrow> nat set" where
  "reads_field x = (case x of READ_TREE h r \<Rightarrow> {h} | CHECK_EXISTS h \<Rightarrow> {h} | _ \<Rightarrow> {})"

lemma reads_field_simps [simp]:
  "reads_field (READ_TREE h r) = {h}" "reads_field (CHECK_EXISTS h) = {h}"
  "reads_field (ANY op r1 r2) = {}" "reads_field (ANY_IN_RANGE r1 r2 r3) = {}"
  "reads_field (MK_RANGE r1 r2 d) = {}" "reads_field (CALL_FUNCTION f r x y) = {}"
  "reads_field NOT_INSN = {}" "reads_field RETURN = {}" "reads_field (IF_TRUE_GOTO t) = {}"
  "reads_field (IF_FALSE_GOTO t) = {}" "reads_field (PUT_FVALUE v r) = {}"
  by (simp_all add: reads_field_def)

text \<open>
  A relation between work areas, with the fields that account for the difference, that the operations
  of the generator satisfy one by one and that composes.
\<close>

locale emission =
  fixes reg :: "'p registrar"
    and known :: "nat \<Rightarrow> bool"
    and R :: "nat set \<Rightarrow> 'v dfwork \<Rightarrow> 'v dfwork \<Rightarrow> bool"
  assumes same: "R {} d d"
    and trans: "R F d1 d2 \<Longrightarrow> R G d2 d3 \<Longrightarrow> R (F \<union> G) d1 d3"
    and append: "reads_field x = {} \<Longrightarrow> R {} d (dfw_append_insn x d)"
    and put: "dfw_append_put_fvalue v d = (r, d') \<Longrightarrow> R {} d d'"
    and register: "R {} d (d\<lparr>next_register := r\<rparr>)"
    and jump: "R {} d (set_jump j d)"
    and read: "known h \<Longrightarrow> dfw_append_read_tree reg h d = Inr (r, d') \<Longrightarrow> R {h} d d'"
    and check: "known h \<Longrightarrow> gen_exists reg (STTYPE_FIELD h) d = Inr d' \<Longrightarrow> R {h} d d'"
begin

lemma then_append: "R F d d1 \<Longrightarrow> reads_field x = {} \<Longrightarrow> R F d (dfw_append_insn x d1)"
  using trans [of F d d1 "{}"] append by simp

lemma then_jump: "R F d d1 \<Longrightarrow> R F d (set_jump j d1)"
  using trans [of F d d1 "{}"] jump by simp

lemma then_jumps: "R F d d1 \<Longrightarrow> R F d (fold set_jump js d1)"
  by (induction js arbitrary: d1) (auto intro: then_jump)

lemma entity_induction:
  shows "reg' = reg \<Longrightarrow> wf_entity known e \<Longrightarrow> gen_entity reg' e d = Inr (r, j, d') \<Longrightarrow>
      R (entity_fields e) d d'"
    and "reg' = reg \<Longrightarrow> (\<forall>p \<in> set ps. wf_entity known p) \<Longrightarrow> gen_params reg' ps i d = Inr (rs, js, d') \<Longrightarrow>
      R (\<Union>p \<in> set ps. entity_fields p) d d'"
proof (induction reg' e d and reg' ps i d arbitrary: r j d' and rs js d' rule: gen_entity_gen_params.induct)
  case (1 reg' h d)
  then obtain d1 where "dfw_append_read_tree reg h d = Inr (r, d1)" "d' = dfw_append_insn (IF_FALSE_GOTO 0) d1"
    by (auto simp: errs)
  then show ?case using read "1.prems"(2) by (simp add: then_append)
next
  case (2 reg' v d)
  then show ?case by (auto split: prod.splits intro: put)
next
  case (3 reg' e dr d)
  then obtain r1 d1 where d1: "gen_entity reg' e d = Inr (r1, j, d1)"
      "d' = dfw_append_insn (MK_RANGE r1 r dr) (d1\<lparr>next_register := r + 1\<rparr>)"
    by (auto simp: errs Let_def)
  have "R (entity_fields e) d d1" using "3.IH" [OF "3.prems"(1) _ d1(1)] "3.prems"(2) by simp
  then have "R (entity_fields e) d (d1\<lparr>next_register := r + 1\<rparr>)" using trans [OF _ register] by simp
  then show ?case using d1(2) by (simp add: then_append)
next
  case (4 reg' f ps d)
  let ?d = "d\<lparr>next_register := next_register d + 1\<rparr>"
  obtain rs js d1 where d1: "gen_params reg' ps 0 ?d = Inr (rs, js, d1)"
      "d' = dfw_append_insn (IF_FALSE_GOTO 0) (fold set_jump js
              (dfw_append_insn (CALL_FUNCTION f r (nth_option rs 0) (nth_option rs 1)) d1))"
    using "4.prems"(3) by (auto simp: errs Let_def)
  have "R (\<Union>p \<in> set ps. entity_fields p) ?d d1"
    using "4.IH" [OF refl "4.prems"(1) _ d1(1)] "4.prems"(2) by simp
  then have "R (\<Union>p \<in> set ps. entity_fields p) d d1" using trans [OF register] by fastforce
  then show ?case using d1(2) by (simp add: then_append then_jumps)
next
  case (10 reg' i d)
  then show ?case by (simp add: same)
next
  case (11 reg' p ps i d)
  then obtain r1 j1 d1 rs1 js1 where d1: "gen_entity reg' p d = Inr (r1, j1, d1)" "i < 2"
      "gen_params reg' ps (i + 1) d1 = Inr (rs1, js1, d')"
    by (auto simp: errs g_assert_def split: if_splits)
  have "R (entity_fields p) d d1" using "11.IH"(1) [OF "11.prems"(1) _ d1(1)] "11.prems"(2) by simp
  moreover have "R (\<Union>p \<in> set ps. entity_fields p) d1 d'"
    using "11.IH"(2) [OF d1(1) refl refl d1(2) "11.prems"(1) _ d1(3)] "11.prems"(2) by simp
  ultimately show ?case using trans by auto
qed simp_all

lemmas entity_steps = entity_induction(1) [OF refl]

lemma element_steps:
  assumes "pred_option (wf_entity known) n2"
    and "bindE (case n2 of
              Some upper \<Rightarrow>
                bindE (gen_entity reg upper d) (\<lambda>(reg3, jmp3, dfw2).
                  Inr (jmp3, dfw_append_insn (ANY_IN_RANGE reg1 reg2 reg3) dfw2))
            | None \<Rightarrow> Inr (None, dfw_append_insn (ANY ANY_EQ reg1 reg2) d)) K = Inr y"
  shows "\<exists>j3 d2. K (j3, d2) = Inr y \<and> R (case n2 of None \<Rightarrow> {} | Some n \<Rightarrow> entity_fields n) d d2"
proof (cases n2)
  case None
  then show ?thesis
    using assms(2) append [of "ANY ANY_EQ reg1 reg2" d]
    by (intro exI [of _ None] exI [of _ "dfw_append_insn (ANY ANY_EQ reg1 reg2) d"]) simp
next
  case (Some upper)
  then obtain r3 j3 d2 where d2: "gen_entity reg upper d = Inr (r3, j3, d2)"
      "K (j3, dfw_append_insn (ANY_IN_RANGE reg1 reg2 r3) d2) = Inr y"
    using assms(2) by (auto simp: errs)
  have "R (entity_fields upper) d d2" by (rule entity_steps [OF _ d2(1)]) (use assms(1) Some in simp)
  then have "R (entity_fields upper) d (dfw_append_insn (ANY_IN_RANGE reg1 reg2 r3) d2)"
    by (rule then_append) simp
  then show ?thesis using d2(2) Some by auto
qed

lemma set_steps:
  assumes "wf_set known elems" "gen_set reg reg1 elems jumplist d = Inr (js, d')"
  shows "R (set_fields elems) d d'"
  using assms
proof (induction elems arbitrary: jumplist d)
  case Nil
  then show ?case by (simp add: same)
next
  case (Cons elem elems)
  obtain n1 n2 where e: "elem = (n1, n2)" by (cases elem)
  have we: "wf_entity known n1" "pred_option (wf_entity known) n2" "wf_set known elems"
    using Cons.prems(1) e by (auto simp: wf_set_def)
  let ?K = "\<lambda>j2 (jmp3, dfw3).
       let (jumplist', dfw4) =
             (if elems \<noteq> [] then
                (Some (next_insn_id dfw3) # jumplist, dfw_append_insn (IF_TRUE_GOTO 0) dfw3)
              else (jumplist, dfw3))
       in gen_set reg reg1 elems jumplist' (set_jump jmp3 (set_jump j2 dfw4))"
  obtain r2 j2 d1 where d1: "gen_entity reg n1 d = Inr (r2, j2, d1)"
      "bindE (case n2 of
              Some upper \<Rightarrow>
                bindE (gen_entity reg upper d1) (\<lambda>(reg3, jmp3, dfw2).
                  Inr (jmp3, dfw_append_insn (ANY_IN_RANGE reg1 r2 reg3) dfw2))
            | None \<Rightarrow> Inr (None, dfw_append_insn (ANY ANY_EQ reg1 r2) d1)) (?K j2) = Inr (js, d')"
    using bindE_triple [OF Cons.prems(2) [unfolded e gen_set.simps]] by blast
  obtain j3 d2 where d2: "?K j2 (j3, d2) = Inr (js, d')"
      "R (case n2 of None \<Rightarrow> {} | Some n \<Rightarrow> entity_fields n) d1 d2"
    using element_steps [OF we(2) d1(2)] by blast
  let ?d = "set_jump j3 (set_jump j2 (if elems \<noteq> [] then dfw_append_insn (IF_TRUE_GOTO 0) d2 else d2))"
  have "R {} d2 ?d" by (auto intro!: then_jump append same)
  moreover have "\<exists>jumplist'. gen_set reg reg1 elems jumplist' ?d = Inr (js, d')"
    using d2(1) by (auto split: if_splits)
  then have "R (set_fields elems) ?d d'" using Cons.IH we(3) by blast
  ultimately have "R (entity_fields n1 \<union> ((case n2 of None \<Rightarrow> {} | Some n \<Rightarrow> entity_fields n) \<union> ({} \<union> set_fields elems))) d d'"
    using trans entity_steps [OF we(1) d1(1)] d2(2) by blast
  then show ?case by (simp add: e Un_assoc)
qed

lemma relation_in_steps:
  assumes "wf_entity known a" "wf_set known elems" "gen_relation_in reg a (STTYPE_SET elems) d = Inr d'"
  shows "R (entity_fields a \<union> set_fields elems) d d'"
proof -
  obtain r j d1 js d2 where d: "gen_entity reg a d = Inr (r, j, d1)"
      "gen_set reg r elems [] d1 = Inr (js, d2)" "d' = fold set_jump js (set_jump j d2)"
    using assms(3) by (auto simp: gen_relation_in_def errs)
  show ?thesis
    using trans [OF entity_steps [OF assms(1) d(1)] set_steps [OF assms(2) d(2)]]
    by (simp add: d(3) then_jumps then_jump)
qed

lemma relation_steps:
  assumes "wf_entity known a" "wf_entity known b" "gen_relation reg op a b d = Inr d'"
  shows "R (entity_fields a \<union> entity_fields b) d d'"
proof -
  obtain r1 j1 d1 r2 j2 d2 where d: "gen_entity reg a d = Inr (r1, j1, d1)"
      "gen_entity reg b d1 = Inr (r2, j2, d2)"
      "d' = set_jump j2 (set_jump j1 (dfw_append_insn (ANY op r1 r2) d2))"
    using assms(3) by (auto simp: gen_relation_def errs)
  show ?thesis
    using trans [OF entity_steps [OF assms(1) d(1)] entity_steps [OF assms(2) d(2)]]
    by (simp add: d(3) then_jump then_append)
qed

lemma test_induction:
  "reg' = reg \<Longrightarrow> wf_test known t \<Longrightarrow> gencode reg' t d = Inr d' \<Longrightarrow> R (test_fields t) d d'"
proof (induction reg' t d arbitrary: d' rule: gencode.induct)
  case (1 reg' a b d)
  then show ?case using check by (auto split: stnode.splits)
next
  case (2 reg' a b d)
  then show ?case by (auto simp: errs intro: then_append)
next
  case (3 reg' a b d)
  then obtain d1 d2 where d: "gencode reg' a d = Inr d1"
      "gencode reg' b (dfw_append_insn (IF_FALSE_GOTO 0) d1) = Inr d2"
      "d' = set_jump (Some (next_insn_id d1)) d2"
    by (auto simp: errs)
  have w: "wf_test known a" "wf_test known b" using "3.prems"(2) by simp_all
  have "R (test_fields a) d (dfw_append_insn (IF_FALSE_GOTO 0) d1)"
    by (rule then_append [OF "3.IH"(1) [OF "3.prems"(1) w(1) d(1)]]) simp
  from trans [OF this "3.IH"(2) [OF d(1) "3.prems"(1) w(2) d(2)]] show ?case
    by (simp add: d(3) then_jump)
next
  case (4 reg' a b d)
  then obtain d1 d2 where d: "gencode reg' a d = Inr d1"
      "gencode reg' b (dfw_append_insn (IF_TRUE_GOTO 0) d1) = Inr d2"
      "d' = set_jump (Some (next_insn_id d1)) d2"
    by (auto simp: errs)
  have w: "wf_test known a" "wf_test known b" using "4.prems"(2) by simp_all
  have "R (test_fields a) d (dfw_append_insn (IF_TRUE_GOTO 0) d1)"
    by (rule then_append [OF "4.IH"(1) [OF "4.prems"(1) w(1) d(1)]]) simp
  from trans [OF this "4.IH"(2) [OF d(1) "4.prems"(1) w(2) d(2)]] show ?case
    by (simp add: d(3) then_jump)
next
  case (5 reg' a b d)
  then obtain elems where "b = STTYPE_SET elems" "wf_set known elems" "wf_entity known a"
    by (auto split: stnode.splits)
  then show ?case using relation_in_steps "5.prems" by simp
qed (auto simp: rel_op_def intro: relation_steps)

lemmas test_steps = test_induction [OF refl]

end

section \<open>The recorded fields are those that the code reads\<close>

definition code_fields :: "'v dfwork \<Rightarrow> nat set" where
  "code_fields dfw = (\<Union>x \<in> set (insns dfw). reads_field x)"

definition fields_ok :: "'p registrar \<Rightarrow> 'v dfwork \<Rightarrow> bool" where
  "fields_ok reg dfw =
     (set (interesting_fields dfw) = (\<Union>h \<in> code_fields dfw. set (same_name_ids reg h)) \<and>
      distinct (interesting_fields dfw) \<and> (\<forall>h. loaded_fields dfw h \<noteq> None \<longrightarrow> h \<in> code_fields dfw))"

definition recorded ::
    "'p registrar \<Rightarrow> (string \<Rightarrow> nat list) \<Rightarrow> nat set \<Rightarrow> 'v dfwork \<Rightarrow> 'v dfwork \<Rightarrow> bool" where
  "recorded reg byname F d d' =
     (names reg byname \<longrightarrow>
        code_fields d' = code_fields d \<union> (\<lambda>h. projr (rewind reg h)) ` F \<and>
        (fields_ok reg d \<longrightarrow> fields_ok reg d'))"

lemma reads_field_target [simp]: "reads_field (with_target t x) = reads_field x"
  by (cases x) simp_all

lemma code_fields_append [simp]: "code_fields (dfw_append_insn x d) = code_fields d \<union> reads_field x"
  by (auto simp: code_fields_def)

lemma code_fields_jump [simp]: "code_fields (set_jump j d) = code_fields d"
  by (auto simp: code_fields_def set_jump_insns set_conv_nth split: if_splits)

lemma record_names:
  assumes "names reg byname" "byname s \<noteq> []"
  shows "record_interesting reg (hd (byname s)) d =
     Inr (d\<lparr>interesting_fields := fold List.insert (byname s) (interesting_fields d)\<rparr>)"
proof -
  have "fold (\<lambda>p l. List.insert (nat (hf_id (projr (deref reg p)))) l) ps l = fold List.insert ps l"
    if "set ps \<subseteq> set (byname s)" for ps l
    using that by (induction ps arbitrary: l) (simp_all add: names_hf_id [OF assms(1), of _ s])
  then show ?thesis
    by (simp add: record_interesting_def walk_names [OF assms] until_fold)
qed

lemma fold_insert: "set (fold List.insert ps l) = set ps \<union> set l" "distinct l \<Longrightarrow> distinct (fold List.insert ps l)"
  by (induction ps arbitrary: l) auto

lemma fields_ok_record:
  assumes "names reg byname" "p \<in> set (byname s)" "fields_ok reg d"
    and "code_fields d' = insert (hd (byname s)) (code_fields d)"
    and "interesting_fields d' = fold List.insert (byname s) (interesting_fields d)"
    and "\<And>h. loaded_fields d' h \<noteq> None \<Longrightarrow> loaded_fields d h \<noteq> None \<or> h = hd (byname s)"
  shows "fields_ok reg d'"
proof -
  have "hd (byname s) \<in> set (byname s)" using assms(2) by (cases "byname s") auto
  then have "same_name_ids reg (hd (byname s)) = byname s" using same_name_ids_names [OF assms(1)] by simp
  then have "set (interesting_fields d') = (\<Union>h \<in> code_fields d'. set (same_name_ids reg h))"
      "distinct (interesting_fields d')"
    using assms(3-5) by (auto simp: fields_ok_def fold_insert)
  moreover have "h \<in> code_fields d'" if "loaded_fields d' h \<noteq> None" for h
    using assms(3,4) assms(6) [OF that] by (auto simp: fields_ok_def)
  ultimately show ?thesis by (simp add: fields_ok_def)
qed

lemma read_recorded:
  assumes "registered byname h" "dfw_append_read_tree reg h d = Inr (r, d')"
  shows "recorded reg byname {h} d d'"
  unfolding recorded_def
proof (intro impI conjI)
  assume nm: "names reg byname"
  obtain s where s: "h \<in> set (byname s)" using assms(1) by (auto simp: registered_def)
  then have ne: "byname s \<noteq> []" by auto
  let ?h = "hd (byname s)"
  have h0: "rewind reg h = Inr ?h" by (rule rewind_names [OF nm s])
  let ?d1 = "\<lambda>r. dfw_append_insn (READ_TREE ?h r)
      (d\<lparr>next_register := next_register d + 1, loaded_fields := (loaded_fields d)(?h \<mapsto> r + 1)\<rparr>)"
  consider (again) q where "loaded_fields d ?h = Some q" "d' = dfw_append_insn (READ_TREE ?h (q - 1)) d"
    | (new) q where "d' = (?d1 q)\<lparr>interesting_fields := fold List.insert (byname s) (interesting_fields d)\<rparr>"
    using assms(2) h0
    by (cases "loaded_fields d ?h")
      (auto simp: dfw_append_read_tree_def Let_def record_names [OF nm ne] split: if_splits)
  then have "code_fields d' = insert ?h (code_fields d) \<and> (fields_ok reg d \<longrightarrow> fields_ok reg d')"
  proof cases
    case again
    have "fields_ok reg d'" if "fields_ok reg d"
    proof -
      have "?h \<in> code_fields d" using that again(1) by (simp add: fields_ok_def)
      then show ?thesis using that again(2) by (auto simp: fields_ok_def)
    qed
    then show ?thesis using again(2) by simp
  next
    case new
    have code: "code_fields d' = insert ?h (code_fields d)" by (simp add: new code_fields_def)
    have "fields_ok reg d'" if "fields_ok reg d"
      by (rule fields_ok_record [OF nm s that code]) (auto simp: new split: if_splits)
    then show ?thesis using code by simp
  qed
  then show "code_fields d' = code_fields d \<union> (\<lambda>h. projr (rewind reg h)) ` {h}"
    and "fields_ok reg d \<Longrightarrow> fields_ok reg d'"
    using h0 by simp_all
qed

lemma exists_recorded:
  assumes "registered byname h" "gen_exists reg (STTYPE_FIELD h) d = Inr d'"
  shows "recorded reg byname {h} d d'"
  unfolding recorded_def
proof (intro impI conjI)
  assume nm: "names reg byname"
  obtain s where s: "h \<in> set (byname s)" using assms(1) by (auto simp: registered_def)
  then have ne: "byname s \<noteq> []" by auto
  let ?h = "hd (byname s)"
  have h0: "rewind reg h = Inr ?h" by (rule rewind_names [OF nm s])
  have d': "d' = (dfw_append_insn (CHECK_EXISTS ?h) d)
      \<lparr>interesting_fields := fold List.insert (byname s) (interesting_fields d)\<rparr>"
    using assms(2) h0 by (simp add: gen_exists_def record_names [OF nm ne])
  have code: "code_fields d' = insert ?h (code_fields d)" by (simp add: d' code_fields_def)
  then show "code_fields d' = code_fields d \<union> (\<lambda>h. projr (rewind reg h)) ` {h}" using h0 by simp
  show "fields_ok reg d'" if "fields_ok reg d"
    by (rule fields_ok_record [OF nm s that code]) (simp_all add: d')
qed

interpretation fields: emission reg "registered byname" "recorded reg byname"
  for reg :: "'p registrar" and byname
proof
  fix d :: "'v dfwork" and x v r h j d'
  show "recorded reg byname {} d d" by (simp add: recorded_def)
  show "recorded reg byname {} d (dfw_append_insn x d)" if "reads_field x = {}"
    using that by (simp add: recorded_def fields_ok_def)
  show "recorded reg byname {} d (d\<lparr>next_register := r\<rparr>)"
    by (simp add: recorded_def fields_ok_def code_fields_def)
  show "recorded reg byname {} d (set_jump j d)"
    by (simp add: recorded_def fields_ok_def)
  show "recorded reg byname {} d d'" if "dfw_append_put_fvalue v d = (r, d')"
    using that
    by (auto simp: recorded_def fields_ok_def code_fields_def dfw_append_put_fvalue_def dfw_append_const_def Let_def)
qed (assumption | erule read_recorded exists_recorded | force simp: recorded_def image_Un)+

lemma compiled_fields:
  fixes t :: "'v stnode"
  assumes "names reg byname" "wf_test (registered byname) t" "compiled reg byname t dfw P' df"
  shows "fields_ok reg dfw" "code_fields dfw = (\<lambda>h. projr (rewind reg h)) ` test_fields t"
proof -
  have "gencode reg t dfwork_new = Inr dfw" using assms(3) by (simp add: compiled_def)
  from fields.test_steps [OF assms(2) this] have "recorded reg byname (test_fields t) dfwork_new dfw" .
  moreover have "fields_ok reg (dfwork_new :: 'v dfwork)" "code_fields (dfwork_new :: 'v dfwork) = {}"
    by (simp_all add: fields_ok_def code_fields_def dfwork_new_def)
  ultimately show "fields_ok reg dfw" "code_fields dfw = (\<lambda>h. projr (rewind reg h)) ` test_fields t"
    using assms(1) by (simp_all add: recorded_def)
qed

text \<open>The fields in a well-formed filter are registered.\<close>

lemma entity_fields_known: "wf_entity known e \<Longrightarrow> h \<in> entity_fields e \<Longrightarrow> known h"
  by (induction known e rule: wf_entity.induct) auto

lemma set_fields_known:
  "wf_set known elems \<Longrightarrow> h \<in> set_fields elems \<Longrightarrow> known h"
  by (induction elems) (auto simp: wf_set_def entity_fields_known split: option.splits)

lemma test_fields_known: "wf_test known t \<Longrightarrow> h \<in> test_fields t \<Longrightarrow> known h"
  by (induction known t rule: wf_test.induct)
    (auto simp: entity_fields_known set_fields_known split: stnode.splits)

lemma ids_of_first:
  assumes "names reg byname" "registered byname h"
  shows "same_name_ids reg (projr (rewind reg h)) = same_name_ids reg h"
proof -
  obtain s where s: "h \<in> set (byname s)" using assms(2) by (auto simp: registered_def)
  then have "hd (byname s) \<in> set (byname s)" by (cases "byname s") auto
  then show ?thesis
    using rewind_names [OF assms(1) s] same_name_ids_names [OF assms(1)] s by simp
qed

section \<open>Nothing else is read\<close>

definition same_on :: "nat list \<Rightarrow> 'v proto_tree \<Rightarrow> 'v proto_tree \<Rightarrow> bool" where
  "same_on ids tree tree' = (\<forall>i \<in> set ids. tree (int i) = tree' (int i))"

lemma until_cong:
  "(\<And>p st. p \<in> set ps \<Longrightarrow> f (projr (deref reg p)) st = g (projr (deref reg' p)) st) \<Longrightarrow>
     until reg f ps st = until reg' g ps st"
  by (induction ps arbitrary: st) (auto simp: Let_def split: prod.splits)

lemma walk_same_on:
  assumes "names reg byname" "names reg' byname" "byname s \<noteq> []" "same_on (byname s) tree tree'"
  shows "walk_same_name reg (collect_values tree) (hd (byname s)) st =
      walk_same_name reg' (collect_values tree') (hd (byname s)) st"
    and "check_exists reg tree (hd (byname s)) a = check_exists reg' tree' (hd (byname s)) a"
proof -
  have t: "tree (hf_id (projr (deref reg p))) = tree' (hf_id (projr (deref reg' p)))" if "p \<in> set (byname s)" for p
    using assms(4) that by (simp add: names_hf_id [OF assms(1) that] names_hf_id [OF assms(2) that] same_on_def)
  show "walk_same_name reg (collect_values tree) (hd (byname s)) st =
      walk_same_name reg' (collect_values tree') (hd (byname s)) st"
    unfolding walk_names [OF assms(1,3)] walk_names [OF assms(2,3)]
    by (simp, rule until_cong) (simp add: t collect_values_def proto_get_finfo_ptr_array_def fun_eq_iff)
  show "check_exists reg tree (hd (byname s)) a = check_exists reg' tree' (hd (byname s)) a"
    unfolding check_exists_def walk_names [OF assms(1,3)] walk_names [OF assms(2,3)]
    by (simp, rule until_cong)
      (simp add: t proto_check_for_protocol_or_field_def proto_get_finfo_ptr_array_def)
qed

lemma dfvm_insn_same_on:
  assumes "names reg byname" "names reg' byname" "same_on ids tree tree'"
    and "\<forall>h \<in> reads_field (df_insns df ! i). \<exists>s. byname s \<noteq> [] \<and> h = hd (byname s) \<and> set (byname s) \<subseteq> set ids"
  shows "dfvm_insn reg ops tree i a df = dfvm_insn reg' ops tree' i a df"
proof -
  have walk: "walk_same_name reg (collect_values tree) h st = walk_same_name reg' (collect_values tree') h st"
    "check_exists reg tree h b = check_exists reg' tree' h b" if rd: "h \<in> reads_field (df_insns df ! i)" for h st b
  proof -
    obtain s where s: "byname s \<noteq> []" "h = hd (byname s)" "set (byname s) \<subseteq> set ids"
      using assms(4) rd by blast
    have "same_on (byname s) tree tree'" using assms(3) s(3) by (auto simp: same_on_def)
    from walk_same_on [OF assms(1,2) s(1) this] show
      "walk_same_name reg (collect_values tree) h st = walk_same_name reg' (collect_values tree') h st"
      "check_exists reg tree h b = check_exists reg' tree' h b" using s(2) by simp_all
  qed
  show ?thesis
  proof (cases "df_insns df ! i")
    case (READ_TREE h r)
    then have rd: "h \<in> reads_field (df_insns df ! i)" by simp
    show ?thesis using READ_TREE by (simp add: dfvm_insn_def read_tree_def walk(1) [OF rd] cong: if_cong)
  next
    case (CHECK_EXISTS h)
    then have rd: "h \<in> reads_field (df_insns df ! i)" by simp
    show ?thesis using CHECK_EXISTS by (simp add: dfvm_insn_def walk(2) [OF rd])
  qed (simp_all add: dfvm_insn_def)
qed

lemma dfvm_loop_same_on:
  assumes "names reg byname" "names reg' byname" "same_on ids tree tree'" "forward (df_insns df)"
    and "\<forall>x \<in> set (df_insns df). \<forall>h \<in> reads_field x.
           \<exists>s. byname s \<noteq> [] \<and> h = hd (byname s) \<and> set (byname s) \<subseteq> set ids"
  shows "dfvm_loop reg ops tree i a df = dfvm_loop reg' ops tree' i a df"
  using assms(4,5)
proof (induction "length (df_insns df) - i" arbitrary: i a df rule: less_induct)
  case less
  show ?case
  proof (cases "i < length (df_insns df)")
    case True
    have insn: "dfvm_insn reg ops tree i a df = dfvm_insn reg' ops tree' i a df"
      by (rule dfvm_insn_same_on [OF assms(1,2,3)]) (use less.prems(2) True in auto)
    have ih: "dfvm_loop reg ops tree j b df' = dfvm_loop reg' ops tree' j b df'"
      if nx: "dfvm_insn reg' ops tree' i a df = Inr (Next j b df')" for j b df'
    proof -
      note n = dfvm_insn_next [OF nx]
      have "j = i + 1 \<or> i < j" using n True less.prems(1) unfolding forward_def by blast
      then have "length (df_insns df') - j < length (df_insns df) - i" using True n by auto
      moreover have "forward (df_insns df')" using less.prems(1) n by (simp only:)
      ultimately show ?thesis using less.hyps [of df' j b] less.prems(2) n by simp
    qed
    have step: "(case c of Done b df' \<Rightarrow> Some (Inr (b, df')) | Next j b df' \<Rightarrow> dfvm_loop reg ops tree j b df') =
        (case c of Done b df' \<Rightarrow> Some (Inr (b, df')) | Next j b df' \<Rightarrow> dfvm_loop reg' ops tree' j b df')"
      if "dfvm_insn reg' ops tree' i a df = Inr c" for c
      using ih that by (cases c) auto
    show ?thesis
      using True insn step
      unfolding dfvm_loop.simps [of reg ops tree i a df] dfvm_loop.simps [of reg' ops tree' i a df]
      by (simp split: sum.splits)
  qed (simp add: dfvm_loop.simps)
qed

lemma reads_field_renumber [simp]: "reads_field (renumber_insn fc x) = reads_field x"
  by (cases x) simp_all

lemma threaded_reads:
  assumes "threaded (length P) P P'" "x \<in> set P'"
  shows "\<exists>y \<in> set P. reads_field x = reads_field y"
proof -
  obtain i where i: "i < length P'" "x = P' ! i" using assms(2) by (auto simp: in_set_conv_nth)
  then have ip: "i < length P" using threadedD(1) [OF assms(1)] by simp
  show ?thesis
  proof (cases "goto_target (P ! i)")
    case None
    then show ?thesis using threadedD(2) [OF assms(1) ip] i ip by auto
  next
    case (Some t)
    then obtain t' where "P' ! i = with_target t' (P ! i)" using threadedD(3) [OF assms(1) ip ip] by blast
    then show ?thesis using i ip by (intro bexI [of _ "P ! i"]) simp_all
  qed
qed

lemma compiled_interesting:
  assumes "names reg byname" "wf_test (registered byname) t" "compiled reg byname t dfw P' df"
  shows "distinct (df_interesting_fields df)"
    "set (df_interesting_fields df) = (\<Union>h \<in> test_fields t. set (same_name_ids reg h))"
    "set (df_interesting_fields df) = (\<Union>h \<in> code_fields dfw. set (same_name_ids reg h))"
proof -
  note f = compiled_fields [OF assms]
  show "distinct (df_interesting_fields df)"
      and ids: "set (df_interesting_fields df) = (\<Union>h \<in> code_fields dfw. set (same_name_ids reg h))"
    using f(1) assms(3) by (simp_all add: fields_ok_def compiled_def)
  show "set (df_interesting_fields df) = (\<Union>h \<in> test_fields t. set (same_name_ids reg h))"
    using ids f(2) ids_of_first [OF assms(1) test_fields_known [OF assms(2)]] by simp
qed

text \<open>
  Runs on two trees that agree on the interesting fields do the same, also when the registrars differ in
  members other than names and links.
\<close>

lemma compiled_same_on:
  assumes "names reg byname" "wf_test (registered byname) t" "compiled reg byname t dfw P' df"
    and "names reg' byname" "same_on (df_interesting_fields df) tree tree'" "df_insns df' = df_insns df"
  shows "dfilter_apply reg ops df' tree = dfilter_apply reg' ops df' tree'"
proof -
  let ?P = "insns dfw @ [RETURN]"
  have ins: "threaded (length ?P) ?P P'" "df_insns df = map (renumber_insn (next_register dfw)) P'"
    using assms(3) by (simp_all add: compiled_def)
  note ids = compiled_interesting(3) [OF assms(1,2,3)]
  have reads: "\<forall>x \<in> set (df_insns df). \<forall>h \<in> reads_field x.
      \<exists>s. byname s \<noteq> [] \<and> h = hd (byname s) \<and> set (byname s) \<subseteq> set (df_interesting_fields df)"
  proof (intro ballI)
    fix x h assume "x \<in> set (df_insns df)" "h \<in> reads_field x"
    then obtain z where z: "z \<in> set P'" "h \<in> reads_field z" using ins(2) by auto
    obtain y where "y \<in> set ?P" "h \<in> reads_field y"
      using threaded_reads [OF ins(1) z(1)] z(2) by blast
    then have h: "h \<in> code_fields dfw" by (auto simp: code_fields_def)
    then obtain p where p: "p \<in> test_fields t" "h = projr (rewind reg p)"
      using compiled_fields(2) [OF assms(1,2,3)] by auto
    obtain s where s: "p \<in> set (byname s)"
      using test_fields_known [OF assms(2) p(1)] by (auto simp: registered_def)
    then have "byname s \<noteq> []" "h = hd (byname s)" using rewind_names [OF assms(1) s] p(2) by auto
    moreover have "set (same_name_ids reg h) \<subseteq> set (df_interesting_fields df)" using ids h by blast
    ultimately show "\<exists>s. byname s \<noteq> [] \<and> h = hd (byname s) \<and> set (byname s) \<subseteq> set (df_interesting_fields df)"
      using same_name_ids_names [OF assms(1), of h s] by auto
  qed
  show ?thesis
    using dfvm_loop_same_on [OF assms(1,4,5), of df'] compiled_forward [OF assms(3)] reads assms(6)
    by (simp add: dfilter_apply_def dfvm_apply_def)
qed

text \<open>
  C15. The interesting fields of a compiled filter are the identifiers of all fields with a name that
  occurs in the filter, each once; and the filter does not look at any other field: on two trees that
  agree on them a run does exactly the same, whether it succeeds or fails.
\<close>

theorem dfilter_interesting_fields_correct:
  assumes "names reg byname" "wf_test (registered byname) t"
  shows "\<exists>df. dfilter_compile_tree reg t = Inr df \<and> distinct (df_interesting_fields df) \<and>
     set (df_interesting_fields df) = (\<Union>h \<in> test_fields t. set (same_name_ids reg h)) \<and>
     (\<forall>tree tree' df'. same_on (df_interesting_fields df) tree tree' \<longrightarrow> df_insns df' = df_insns df \<longrightarrow>
        dfilter_apply reg ops df' tree = dfilter_apply reg ops df' tree')"
proof -
  obtain dfw P' df where c: "compiled reg byname t dfw P' df" using compile_ok [OF assms] by blast
  then have "dfilter_compile_tree reg t = Inr df" by (simp add: compiled_def)
  then show ?thesis
    using compiled_interesting(1,2) [OF assms c] compiled_same_on [OF assms c assms(1)] by blast
qed

theorem dfilter_interesting_fields_correct_witness:
  "\<exists>df. dfilter_compile_tree sample_registrar sample_filter = Inr df \<and>
     set (df_interesting_fields df) = {0, 1, 2} \<and>
     dfilter_apply sample_registrar sample_ops df sample_tree =
       dfilter_apply sample_registrar sample_ops df (sample_tree(7 := Some [BOOLEAN 0]))"
proof -
  obtain df where c: "dfilter_compile_tree sample_registrar sample_filter = Inr df \<and>
     distinct (df_interesting_fields df) \<and>
     set (df_interesting_fields df) = (\<Union>h \<in> test_fields sample_filter. set (same_name_ids sample_registrar h)) \<and>
     (\<forall>tree tree' df'. same_on (df_interesting_fields df) tree tree' \<longrightarrow> df_insns df' = df_insns df \<longrightarrow>
        dfilter_apply sample_registrar sample_ops df' tree = dfilter_apply sample_registrar sample_ops df' tree')"
    by (rule exE [OF dfilter_interesting_fields_correct [OF sample_names sample_filter_ok]])
  note df = conjunct1 [OF c] conjunct1 [OF conjunct2 [OF conjunct2 [OF c]]]
    conjunct2 [OF conjunct2 [OF conjunct2 [OF c]]]
  have ids: "set (df_interesting_fields df) = {0, 1, 2}"
    unfolding df(2)
    by (simp add: sample_filter_def sample_ids sample_ids(2) [unfolded One_nat_def]) (simp add: insert_commute)
  have same: "same_on (df_interesting_fields df) sample_tree (sample_tree(7 := Some [BOOLEAN 0]))"
    unfolding same_on_def ids by simp
  show ?thesis
    by (rule exI [of _ df]) (intro conjI df(1) ids df(3) [rule_format, OF same refl])
qed

end
