(* ===== verification/ProtoTreeFields.thy ===== *)
theory ProtoTreeFields
  imports ProtoTreeWalk DfilterFields
begin

text \<open>
  Dissections: sequences of calls that add fields to a tree. They keep the invariant of the tree whether
  they end normally or by an exception, and a display filter that was primed before them decides on the
  tree as if all its fields were recorded.
\<close>

section \<open>States with the same tree\<close>

text \<open>States that differ only in counters, values and subtree types.\<close>

definition same_tree :: "('p, 'r) proto_state \<Rightarrow> ('p, 'r) proto_state \<Rightarrow> bool" where
  "same_tree s s' =
     (nodes s' = nodes s \<and> registrar s' = registrar s \<and> interesting_hfids s' = interesting_hfids s \<and>
      num_tree_types s' = num_tree_types s \<and> visible s' = visible s \<and> fake_protocols s' = fake_protocols s \<and>
      length (finfos s') = length (finfos s) \<and>
      (\<forall>fi < length (finfos s). fi_hfinfo (finfos s' ! fi) = fi_hfinfo (finfos s ! fi)))"

lemma same_tree_refl [simp]: "same_tree s s"
  by (simp add: same_tree_def)

lemma same_tree_trans: "same_tree s s' \<Longrightarrow> same_tree s' s'' \<Longrightarrow> same_tree s s''"
  by (simp add: same_tree_def)

lemma same_tree_count [simp]: "same_tree s (s\<lparr>item_count := c\<rparr>)"
  by (simp add: same_tree_def)

lemma same_treeD:
  assumes "same_tree s s'"
  shows "nodes s' = nodes s" "registrar s' = registrar s" "length (finfos s') = length (finfos s)"
    "attached s' = attached s" "finfo_ptr_array s' = finfo_ptr_array s"
    "fi < length (finfos s) \<Longrightarrow> hfinfo_of s' fi = hfinfo_of s fi"
    "visible s' = visible s" "fake_protocols s' = fake_protocols s" "num_tree_types s' = num_tree_types s"
  using assms by (auto simp: same_tree_def attached_def hfinfo_of_def finfo_ptr_array_def fun_eq_iff)

lemma same_tree_ok:
  assumes "same_tree s s'" "proto_ok s kids"
  shows "proto_ok s' kids"
proof -
  note same = same_treeD [OF assms(1)]
  have "wanted s' hfid = wanted s hfid" for hfid
    unfolding wanted_def same(4)
    by (rule filter_cong) (use same(6) attached_bound [OF assms(2)] in auto)
  then have "table_ok s'" using proto_okD(7) [OF assms(2)] by (simp add: table_ok_def same(5))
  moreover have "infos_ok s'"
    using assms(2) same(1-4) assms(1) unfolding proto_ok_def infos_ok_def same_tree_def by simp
  ultimately show ?thesis using assms(2) unfolding proto_ok_def same(1) by blast
qed

section \<open>Setting values\<close>

lemma set_value_same: "same_tree s (snd (set_value fi g s))"
proof (cases "bindE (get_finfo s fi) (\<lambda>f. bindE (deref (registrar s) (fi_hfinfo f)) (\<lambda>h.
       bindE (g h (fi_value f)) (\<lambda>v. Inr (s\<lparr>finfos := (finfos s)[fi := f\<lparr>fi_value := v\<rparr>]\<rparr>))))")
  case (Inr s')
  then obtain f v where f: "get_finfo s fi = Inr f" "s' = s\<lparr>finfos := (finfos s)[fi := f\<lparr>fi_value := v\<rparr>]\<rparr>"
    by (auto simp: bindE_Inr_iff)
  then have "f = finfos s ! fi" "fi < length (finfos s)" by (simp_all add: get_finfo_def split: if_splits)
  then show ?thesis using Inr f(2) by (auto simp: set_value_def same_tree_def nth_list_update)
qed (simp add: set_value_def)

definition value_only :: "(nat \<Rightarrow> gint \<Rightarrow> ('p, 'r, unit) tree_action) \<Rightarrow> bool" where
  "value_only put = (\<forall>fi len s. same_tree s (snd (put fi len s)))"

lemma value_only_set_value [simp]: "value_only (\<lambda>fi len. set_value fi (g len))"
  by (simp add: value_only_def set_value_same)

lemma value_only_return [simp]: "value_only (\<lambda>fi len. return ())"
  by (simp add: value_only_def)

lemma value_only_assert:
  assumes "value_only put"
  shows "value_only (\<lambda>fi len. bindS (assertS (b len)) (\<lambda>_. put fi len))"
  using assms by (auto simp: value_only_def bindS_def)

section \<open>Adding a field\<close>

definition with_field ::
    "nat \<Rightarrow> header_field_info \<Rightarrow> tvbuff option \<Rightarrow> gint \<Rightarrow> gint \<Rightarrow> ('p, 'r) proto_state \<Rightarrow> ('p, 'r) proto_state" where
  "with_field p h tvb start item_length s =
     s\<lparr>finfos := finfos s @
        [\<lparr>fi_hfinfo = p, fi_start = start + (case tvb of None \<Rightarrow> 0 | Some t \<Rightarrow> tvb_raw_offset t),
          fi_length = item_length, fi_tree_type = -1, fi_flags = (if \<not> visible s then 0 OR FI_HIDDEN else 0),
          fi_value = fvalue_init (hf_type h)\<rparr>]\<rparr>"

definition faked :: "('p, 'r) proto_state \<Rightarrow> nat \<Rightarrow> header_field_info \<Rightarrow> bool" where
  "faked s t h =
     (\<not> visible s \<and> node_finfo (nodes s ! t) \<noteq> None \<and> hf_ref_type h \<noteq> HF_REF_TYPE_DIRECT \<and>
      (hf_type h \<noteq> FT_PROTOCOL \<or> fake_protocols s))"

lemma with_field_ok:
  assumes ok: "proto_ok s kids" and h: "deref (registrar s) p = Inr h"
  shows "proto_ok (with_field p h tvb start il s) kids"
    "hfinfo_of (with_field p h tvb start il s) (length (finfos s)) = h"
    "attached (with_field p h tvb start il s) = attached s"
    "nodes (with_field p h tvb start il s) = nodes s"
    "registrar (with_field p h tvb start il s) = registrar s"
    "fi < length (finfos s) \<Longrightarrow> finfos (with_field p h tvb start il s) ! fi = finfos s ! fi"
    "length (finfos (with_field p h tvb start il s)) = Suc (length (finfos s))"
    "num_tree_types (with_field p h tvb start il s) = num_tree_types s"
    "finfo_ptr_array (with_field p h tvb start il s) = finfo_ptr_array s"
proof -
  let ?s = "with_field p h tvb start il s"
  show simps: "attached ?s = attached s" "nodes ?s = nodes s" "registrar ?s = registrar s"
      "length (finfos ?s) = Suc (length (finfos s))" "num_tree_types ?s = num_tree_types s"
      "finfo_ptr_array ?s = finfo_ptr_array s"
    by (simp_all add: with_field_def attached_def finfo_ptr_array_def fun_eq_iff)
  show old: "finfos ?s ! fi = finfos s ! fi" if "fi < length (finfos s)" for fi
    using that by (simp add: with_field_def nth_append)
  show new: "hfinfo_of ?s (length (finfos s)) = h" using h by (simp add: hfinfo_of_def with_field_def)
  have same: "hfinfo_of ?s fi = hfinfo_of s fi" if "fi < length (finfos s)" for fi
    using old [OF that] simps(3) by (simp add: hfinfo_of_def)
  have "wanted ?s hfid = wanted s hfid" for hfid
    unfolding wanted_def simps(1)
    by (rule filter_cong) (use same attached_bound [OF ok] in auto)
  then have "table_ok ?s" using proto_okD(7) [OF ok] simps(6) by (simp add: table_ok_def)
  moreover have "\<exists>h. deref (registrar ?s) (fi_hfinfo (finfos ?s ! fi)) = Inr h" if "fi < length (finfos ?s)" for fi
    using that proto_okD(5) [OF ok, of fi] old [of fi] h simps(3,4)
    by (cases "fi = length (finfos s)") (auto simp: with_field_def)
  ultimately show "proto_ok ?s kids"
    using ok simps proto_okD(4) [OF ok] unfolding proto_ok_def infos_ok_def by (metis less_SucI)
qed

lemma nth_deref:
  "proto_registrar_get_nth reg n = Inr h \<Longrightarrow> deref reg (nat n) = Inr h"
  by (auto simp: deref_def proto_registrar_get_nth_def dissector_assert_def split: if_splits option.splits)

lemma try_to_fake_run:
  assumes "t < length (nodes s)"
  shows "try_to_fake_this_item t hfindex s =
    (let s0 = s\<lparr>item_count := item_count s + 1\<rparr>
     in case proto_registrar_get_nth (registrar s) hfindex of
          Inl e \<Rightarrow> (Inl e, s0)
        | Inr h \<Rightarrow>
            if item_count s + 1 > MAX_TREE_ITEMS then (Inl DissectorError, s\<lparr>item_count := 0\<rparr>)
            else (Inr (if faked s t h then None else Some h), s0))"
  using assms
  by (auto simp: try_to_fake_this_item_def get_nth_def bindS_def faked_def get_node_def Let_def split: sum.splits)

text \<open>What adding a field does, with the result of every branch.\<close>

lemma add_field_run:
  assumes ok: "proto_ok s kids" and t: "t < length (nodes s)"
  shows "add_field okt put t hfindex tvb start len s =
    (let s0 = s\<lparr>item_count := item_count s + 1\<rparr>
     in case proto_registrar_get_nth (registrar s) hfindex of
          Inl e \<Rightarrow> (Inl e, s0)
        | Inr h \<Rightarrow>
            if item_count s + 1 > MAX_TREE_ITEMS then (Inl DissectorError, s\<lparr>item_count := 0\<rparr>)
            else if faked s t h then (Inr (Some t), s0)
            else if \<not> okt (hf_type h) then (Inl DissectorError, s0)
            else case get_hfi_length h tvb start len ENC_NA of
                Inl e \<Rightarrow> (Inl e, s0)
              | Inr (len1, il) \<Rightarrow>
                  let s1 = with_field (nat hfindex) h tvb start il s0; fi = length (finfos s)
                  in if Suc (depth (nodes s) t) < MAX_TREE_LEVELS \<and> subtree_ready s t then
                       (case put fi len1 (noted h fi (s1\<lparr>nodes := with_child (nodes s) t fi\<rparr>)) of
                          (Inl e, s3) \<Rightarrow> (Inl e, s3)
                        | (Inr _, s3) \<Rightarrow> (Inr (Some (length (nodes s))), s3))
                     else (Inl DissectorError, s1))"
proof -
  let ?s0 = "s\<lparr>item_count := item_count s + 1\<rparr>" and ?fi = "length (finfos s)"
  have ok0: "proto_ok ?s0 kids" by (rule same_tree_ok [OF same_tree_count ok])
  note tree = proto_okD(1) [OF ok]
  have node: "get_node s t = Inr (nodes s ! t)" using t by (simp add: get_node_def)
  show ?thesis
  proof (cases "proto_registrar_get_nth (registrar s) hfindex")
    case (Inl e)
    then show ?thesis by (simp add: add_field_def try_to_fake_this_item_def get_nth_def bindS_def)
  next
    case (Inr h)
    then have h: "deref (registrar ?s0) (nat hfindex) = Inr h"
      using nth_deref by simp
    note wf = with_field_ok [OF ok0 h, where tvb = tvb and start = start]
    let ?s1 = "\<lambda>il. with_field (nat hfindex) h tvb start il ?s0"
    let ?s2 = "\<lambda>il. noted h ?fi ((?s1 il)\<lparr>nodes := with_child (nodes s) t ?fi\<rparr>)"
    have new: "new_field_info (nat hfindex) h tvb start il ?s0 = (Inr ?fi, ?s1 il)" for il
      by (simp add: new_field_info_def with_field_def bindS_def)
    have info: "tfi < length (finfos (?s1 il))" if "node_finfo (nodes (?s1 il) ! t) = Some tfi" for tfi il
      using that proto_okD(3) [OF ok] proto_okD(4) [OF ok _ t] wf(4,7) by (cases "t = 0") auto
    have ready: "subtree_ready (?s1 il) t = subtree_ready s t" for il
      using proto_okD(3) [OF ok] proto_okD(4) [OF ok _ t] wf(4,6,8)
      by (cases "t = 0") (auto simp: subtree_ready_def)
    have full: "kids t \<noteq> [] \<Longrightarrow> Suc (depth (nodes s) t) < MAX_TREE_LEVELS" by (rule room_below [OF ok])
    have add: "proto_tree_add_node t ?fi (?s1 il) =
        (if Suc (depth (nodes s) t) < MAX_TREE_LEVELS \<and> subtree_ready s t
         then (Inr (length (nodes s)), ?s2 il) else (Inl DissectorError, ?s1 il))" for il
      using add_node_run [of "?s1 il" kids t ?fi "finfos (?s1 il) ! ?fi" h, OF _ _ info] tree t wf(4,5,7) h full ready
      by (auto simp: get_finfo_def with_field_def)
    have found: "PNODE_FINFO (length (nodes s)) (?s2 il) = (Inr ?fi, ?s2 il)" for il
      using with_child_nth [OF tree t] by (simp add: PNODE_FINFO_def get_node_def leaf_def)
    have pi: "proto_tree_add_pi t (nat hfindex) h tvb start len ?s0 =
        (case get_hfi_length h tvb start len ENC_NA of
           Inl e \<Rightarrow> (Inl e, ?s0)
         | Inr (len1, il) \<Rightarrow>
             if Suc (depth (nodes s) t) < MAX_TREE_LEVELS \<and> subtree_ready s t
             then (Inr (length (nodes s), len1), ?s2 il) else (Inl DissectorError, ?s1 il))"
      by (auto simp: proto_tree_add_pi_def bindS_def new add split: sum.split prod.split)
    consider (many) "item_count s + 1 > MAX_TREE_ITEMS" | (fake) "\<not> item_count s + 1 > MAX_TREE_ITEMS" "faked s t h"
      | (bad) "\<not> item_count s + 1 > MAX_TREE_ITEMS" "\<not> faked s t h" "\<not> okt (hf_type h)"
      | (add) "\<not> item_count s + 1 > MAX_TREE_ITEMS" "\<not> faked s t h" "okt (hf_type h)" by blast
    then show ?thesis
    proof cases
      case add
      show ?thesis
      proof (cases "get_hfi_length h tvb start len ENC_NA")
        case (Inr r)
        then show ?thesis
          using add \<open>proto_registrar_get_nth (registrar s) hfindex = Inr h\<close>
          by (cases r) (simp add: add_field_def bindS_def try_to_fake_run [OF t] pi found Let_def split: prod.split sum.split)
      qed (use add Inr in \<open>simp add: add_field_def bindS_def try_to_fake_run [OF t] pi Let_def\<close>)
    qed (use Inr in \<open>simp_all add: add_field_def bindS_def try_to_fake_run [OF t] Let_def\<close>)
  qed
qed

section \<open>The invariant\<close>

text \<open>What every call of a dissection guarantees: the tree stays well formed and grows.\<close>

definition grown :: "('p, 'r) proto_state \<Rightarrow> ('p, 'r) proto_state \<Rightarrow> bool" where
  "grown s s' =
     ((\<exists>kids. proto_ok s' kids) \<and> registrar s' = registrar s \<and> visible s' = visible s \<and>
      num_tree_types s' = num_tree_types s \<and> length (nodes s) \<le> length (nodes s'))"

definition safe :: "('p, 'r, nat option) tree_action \<Rightarrow> ('p, 'r) proto_state \<Rightarrow> bool" where
  "safe m s = (grown s (snd (m s)) \<and> (\<forall>p. fst (m s) = Inr (Some p) \<longrightarrow> p < length (nodes (snd (m s)))))"

lemma grown_trans: "grown s s' \<Longrightarrow> grown s' s'' \<Longrightarrow> grown s s''"
  unfolding grown_def by auto

lemma grown_same: "proto_ok s kids \<Longrightarrow> same_tree s s' \<Longrightarrow> grown s s'"
  unfolding grown_def using same_tree_ok same_treeD by fastforce

lemma safe_stays: "proto_ok s kids \<Longrightarrow> m s = (Inl e, s) \<Longrightarrow> safe m s"
  "proto_ok s kids \<Longrightarrow> m s = (Inr None, s) \<Longrightarrow> safe m s"
  using grown_same [of s kids s] by (simp_all add: safe_def)

lemma add_field_safe:
  assumes ok: "proto_ok s kids" and t: "t < length (nodes s)" and v: "value_only put"
  shows "safe (add_field okt put t hfindex tvb start len) s"
proof -
  let ?s0 = "s\<lparr>item_count := item_count s + 1\<rparr>" and ?fi = "length (finfos s)"
  have ok0: "proto_ok ?s0 kids" by (rule same_tree_ok [OF same_tree_count ok])
  have start: "grown s ?s0" "grown s (s\<lparr>item_count := 0\<rparr>)" using grown_same [OF ok] by simp_all
  have field: "grown s (with_field (nat hfindex) h tvb start il ?s0)"
    if "proto_registrar_get_nth (registrar s) hfindex = Inr h" for h il
    using with_field_ok(1) [OF ok0, of "nat hfindex" h tvb start il] nth_deref [OF that]
    by (auto simp: grown_def with_field_def)
  have item: "grown s s3 \<and> length (nodes s) < length (nodes s3)"
    if h: "proto_registrar_get_nth (registrar s) hfindex = Inr h"
      and deep: "Suc (depth (nodes s) t) < MAX_TREE_LEVELS"
      and s3: "snd (put ?fi len1 (noted h ?fi ((with_field (nat hfindex) h tvb start il ?s0)\<lparr>nodes := with_child (nodes s) t ?fi\<rparr>))) = s3"
    for h il len1 s3
  proof -
    let ?s1 = "with_field (nat hfindex) h tvb start il ?s0"
    have d: "deref (registrar ?s0) (nat hfindex) = Inr h" using nth_deref [OF h] by simp
    note wf = with_field_ok [OF ok0 d, where tvb = tvb and start = start]
    let ?s2 = "noted h ?fi (?s1\<lparr>nodes := with_child (nodes s) t ?fi\<rparr>)"
    have "?fi \<notin> set (attached s)" using attached_bound [OF ok] by blast
    moreover have "attached ?s0 = attached s" by (simp add: attached_def)
    ultimately have "proto_ok ?s2 (kids(t := kids t @ [length (nodes s)]))"
      using with_child_state_ok [OF wf(1) [where il = il], of t ?fi] wf(2-4,7) [where il = il] t deep by simp
    moreover have "same_tree ?s2 s3" using v s3 unfolding value_only_def by blast
    ultimately have "grown ?s2 s3" "nodes s3 = nodes ?s2" using grown_same same_treeD(1) by blast+
    moreover have "length (nodes ?s2) = Suc (length (nodes s))" using with_child_nth(1) [OF proto_okD(1) [OF ok] t] by simp
    moreover have "registrar ?s2 = registrar s" "visible ?s2 = visible s" "num_tree_types ?s2 = num_tree_types s"
      by (simp_all add: with_field_def)
    ultimately show ?thesis by (simp add: grown_def)
  qed
  note run = add_field_run [OF ok t, of okt put hfindex tvb start len, unfolded Let_def]
  show ?thesis
  proof (cases "proto_registrar_get_nth (registrar s) hfindex")
    case (Inl e)
    then show ?thesis using run start by (simp add: safe_def)
  next
    case (Inr h)
    note h = this
    show ?thesis
    proof (cases "item_count s + 1 > MAX_TREE_ITEMS \<or> faked s t h \<or> \<not> okt (hf_type h)")
      case True
      then show ?thesis using run start h t by (auto simp: safe_def)
    next
      case ok: False
      show ?thesis
      proof (cases "get_hfi_length h tvb start len ENC_NA")
        case (Inl e)
        then show ?thesis using run start h ok by (simp add: safe_def)
      next
        case (Inr r)
        obtain len1 il where r: "r = (len1, il)" by (cases r)
        show ?thesis
        proof (cases "Suc (depth (nodes s) t) < MAX_TREE_LEVELS \<and> subtree_ready s t")
          case False
          then show ?thesis using run h ok Inr r field [OF h] by (auto simp: safe_def)
        next
          case True
          then show ?thesis
            using run h ok Inr r item [OF h conjunct1 [OF True], of len1 il]
            by (simp add: safe_def split: prod.splits sum.splits)
        qed
      qed
    qed
  qed
qed

section \<open>Dissections\<close>

text \<open>
  A dissector adds fields under the items that earlier calls have returned to it; the first item is the
  root. A call names its tree by the number of the item. The items of a dissection are the results of its
  calls in their order.
\<close>

datatype call =
    ADD_UINT nat int "tvbuff option" gint gint guint32
  | ADD_UINT64 nat int "tvbuff option" gint gint guint64
  | ADD_INT nat int "tvbuff option" gint gint gint32
  | ADD_INT64 nat int "tvbuff option" gint gint gint64
  | ADD_BOOLEAN nat int "tvbuff option" gint gint guint32
  | ADD_NONE nat int "tvbuff option" gint gint
  | ADD_STRING nat int "tvbuff option" gint gint "guint8 list option"
  | ADD_BYTES nat int "tvbuff option" gint gint "guint8 list option"
  | ADD_SUBTREE nat int

definition item_at :: "nat option list \<Rightarrow> nat \<Rightarrow> nat option" where
  "item_at items k = (if k < length items then items ! k else None)"

fun run_call :: "nat option list \<Rightarrow> call \<Rightarrow> ('p, 'r, nat option) tree_action" where
  "run_call items (ADD_UINT k hf tvb start len v) = proto_tree_add_uint (item_at items k) hf tvb start len v"
| "run_call items (ADD_UINT64 k hf tvb start len v) = proto_tree_add_uint64 (item_at items k) hf tvb start len v"
| "run_call items (ADD_INT k hf tvb start len v) = proto_tree_add_int (item_at items k) hf tvb start len v"
| "run_call items (ADD_INT64 k hf tvb start len v) = proto_tree_add_int64 (item_at items k) hf tvb start len v"
| "run_call items (ADD_BOOLEAN k hf tvb start len v) = proto_tree_add_boolean (item_at items k) hf tvb start len v"
| "run_call items (ADD_NONE k hf tvb start len) = proto_tree_add_none_format (item_at items k) hf tvb start len"
| "run_call items (ADD_STRING k hf tvb start len v) = proto_tree_add_string (item_at items k) hf tvb start len v"
| "run_call items (ADD_BYTES k hf tvb start len v) = proto_tree_add_bytes (item_at items k) hf tvb start len v"
| "run_call items (ADD_SUBTREE k idx) = proto_item_add_subtree (item_at items k) idx"

fun run_calls :: "nat option list \<Rightarrow> call list \<Rightarrow> ('p, 'r, nat option list) tree_action" where
  "run_calls items [] = return items"
| "run_calls items (c # cs) = bindS (run_call items c) (\<lambda>pi. run_calls (items @ [pi]) cs)"

definition items_ok :: "('p, 'r) proto_state \<Rightarrow> nat option list \<Rightarrow> bool" where
  "items_ok s items = (\<forall>p. Some p \<in> set items \<longrightarrow> p < length (nodes s))"

lemma item_at_ok: "items_ok s items \<Longrightarrow> item_at items k = Some p \<Longrightarrow> p < length (nodes s)"
  unfolding items_ok_def item_at_def by (metis nth_mem option.distinct(1))

lemma check_null_safe:
  assumes "proto_ok s kids" "\<And>p. tree = Some p \<Longrightarrow> safe (k p) s"
  shows "safe (check_for_null_tree tree k) s"
  using assms(2) safe_stays(2) [OF assms(1)]
  by (cases tree) (simp_all add: check_for_null_tree_def safe_def)

lemma safe_asks:
  assumes "proto_ok s kids" "\<And>x. f s = Inr x \<Longrightarrow> safe (k x) s"
  shows "safe (bindS (asks f) k) s"
  using assms(2) safe_stays(1) [OF assms(1)]
  by (cases "f s") (simp_all add: safe_def bindS_def)

lemma subtree_safe:
  assumes "proto_ok s kids"
  shows "safe (proto_item_add_subtree (Some p) idx) s"
proof (cases "0 \<le> idx \<and> idx < num_tree_types s \<and> p < length (nodes s)")
  case True
  have put: "same_tree s (snd (put_finfo fi (\<lambda>f. f\<lparr>fi_tree_type := idx\<rparr>) s))" for fi
    by (cases "fi < length (finfos s)") (auto simp: put_finfo_def get_finfo_def same_tree_def nth_list_update update_def)
  have after: "grown s s' \<and> nodes s' = nodes s" if "put_finfo fi (\<lambda>f. f\<lparr>fi_tree_type := idx\<rparr>) s = (r, s')" for fi r s'
    using grown_same [OF assms put [of fi]] same_treeD(1) [OF put [of fi]] that by simp
  show ?thesis
    using True grown_same [OF assms same_tree_refl]
    by (auto simp: safe_def proto_item_add_subtree_def bindS_def get_node_def split: option.split prod.split sum.split
        dest: after)
qed (use grown_same [OF assms same_tree_refl] in
    \<open>auto simp: safe_def proto_item_add_subtree_def bindS_def get_node_def split: option.split\<close>)

lemma run_call_safe:
  assumes ok: "proto_ok s kids" and items: "items_ok s items"
  shows "safe (run_call items c) s"
proof -
  have field: "safe (check_for_null_tree (item_at items k) (\<lambda>t. add_field okt put t hf tvb start len)) s"
    if "value_only put" for k okt put hf tvb start len
    by (rule check_null_safe [OF ok], rule add_field_safe [OF ok item_at_ok [OF items] that])
  have sub: "safe (proto_item_add_subtree (item_at items k) idx) s" for k idx
    using subtree_safe [OF ok] safe_stays(2) [OF ok]
    by (cases "item_at items k") (simp_all add: proto_item_add_subtree_def safe_def)
  have str: "safe (proto_tree_add_string (item_at items k) hf tvb start len v) s" for k hf tvb start len v
    unfolding proto_tree_add_string_def get_nth_def
  proof (rule safe_asks [OF ok], rule safe_asks [OF ok], clarify)
    fix h len1 il
    have put: "value_only (\<lambda>fi len1. bindS (assertS (0 \<le>s len1)) (\<lambda>_. proto_tree_set_string fi v))"
      unfolding proto_tree_set_string_def by (rule value_only_assert) simp
    show "safe (bindS (if il \<noteq> 0 then asks (\<lambda>_. test_length h tvb start il ENC_NA) else return ())
        (\<lambda>_. check_for_null_tree (item_at items k) (\<lambda>t. add_field IS_FT_STRING
           (\<lambda>fi len1. bindS (assertS (0 \<le>s len1)) (\<lambda>_. proto_tree_set_string fi v)) t hf tvb start len1))) s"
      using safe_asks [OF ok field [OF put]] field [OF put] by (cases "il = 0") simp_all
  qed
  have bytes: "safe (proto_tree_add_bytes (item_at items k) hf tvb start len v) s" for k hf tvb start len v
    unfolding proto_tree_add_bytes_def get_nth_def
  proof (rule safe_asks [OF ok], rule safe_asks [OF ok], clarify, rule safe_asks [OF ok], rule field)
    show "value_only (\<lambda>fi len1. proto_tree_set_bytes fi v len1)"
      unfolding proto_tree_set_bytes_def by (rule value_only_assert) simp
  qed
  show ?thesis
    by (cases c)
      (simp_all add: str bytes sub field proto_tree_add_uint_def proto_tree_add_uint64_def proto_tree_add_int_def
        proto_tree_add_int64_def proto_tree_add_boolean_def proto_tree_add_none_format_def proto_tree_set_uint_def
        proto_tree_set_uint64_def proto_tree_set_int_def proto_tree_set_int64_def proto_tree_set_boolean_def)
qed

lemma run_calls_grown:
  assumes "proto_ok s kids" "items_ok s items"
  shows "grown s (snd (run_calls items cs s))"
  using assms
proof (induction cs arbitrary: s items kids)
  case Nil
  then show ?case by (simp add: grown_same [OF Nil.prems(1)])
next
  case (Cons c cs)
  have safe: "safe (run_call items c) s" by (rule run_call_safe [OF Cons.prems])
  show ?case
  proof (cases "run_call items c s")
    case (Pair r s')
    have g: "grown s s'" using safe Pair by (simp add: safe_def)
    show ?thesis
    proof (cases r)
      case (Inl e)
      then show ?thesis using g Pair by (simp add: bindS_def)
    next
      case (Inr pi)
      obtain kids' where ok: "proto_ok s' kids'" using g by (auto simp: grown_def)
      have "items_ok s' (items @ [pi])"
        using Cons.prems(2) safe Pair Inr g by (auto simp: items_ok_def safe_def grown_def)
      then show ?thesis using Cons.IH [OF ok] grown_trans [OF g] Pair Inr by (simp add: bindS_def)
    qed
  qed
qed

section \<open>Priming\<close>

text \<open>Registrars that differ only in the reference types of their fields.\<close>

definition same_but_refs :: "'p registrar \<Rightarrow> 'p registrar \<Rightarrow> bool" where
  "same_but_refs reg reg' =
     (gpa_name_map reg' = gpa_name_map reg \<and> last_field_name reg' = last_field_name reg \<and>
      last_hfinfo reg' = last_hfinfo reg \<and> cleared reg' = cleared reg \<and>
      length (hfi reg') = length (hfi reg) \<and>
      (\<forall>p h. deref reg p = Inr h \<longrightarrow> (\<exists>t. deref reg' p = Inr (h\<lparr>hf_ref_type := t\<rparr>))) \<and>
      (\<forall>p e. deref reg p = Inl e \<longrightarrow> deref reg' p = Inl e))"

lemma same_but_refs_refl: "same_but_refs reg reg"
proof -
  have "\<exists>t. h = h\<lparr>hf_ref_type := t\<rparr>" for h :: header_field_info by (rule exI [of _ "hf_ref_type h"]) simp
  then show ?thesis unfolding same_but_refs_def by auto
qed

lemma same_but_refs_trans:
  assumes "same_but_refs r1 r2" "same_but_refs r2 r3"
  shows "same_but_refs r1 r3"
  unfolding same_but_refs_def
proof (intro conjI allI impI)
  fix p h assume "deref r1 p = Inr h"
  then obtain t where "deref r2 p = Inr (h\<lparr>hf_ref_type := t\<rparr>)" using assms(1) unfolding same_but_refs_def by blast
  then obtain t' where "deref r3 p = Inr (h\<lparr>hf_ref_type := t, hf_ref_type := t'\<rparr>)"
    using assms(2) unfolding same_but_refs_def by blast
  then show "\<exists>t. deref r3 p = Inr (h\<lparr>hf_ref_type := t\<rparr>)" by auto
qed (use assms in \<open>auto simp: same_but_refs_def\<close>)

lemma dll_refs:
  assumes "same_but_refs reg reg'"
  shows "dll reg prev ps nxt \<Longrightarrow> dll reg' prev ps nxt"
proof (induction ps arbitrary: prev)
  case (Cons p ps)
  then obtain h where h: "deref reg p = Inr h" unfolding dll.simps linked_node_def by blast
  then obtain t where "deref reg' p = Inr (h\<lparr>hf_ref_type := t\<rparr>)" using assms unfolding same_but_refs_def by blast
  then show ?case using Cons h by (simp add: linked_node_def)
qed simp

lemma names_refs:
  assumes "same_but_refs reg reg'" "names reg byname"
  shows "names reg' byname"
proof -
  have "\<exists>h. deref reg' p = Inr h \<and> hf_abbrev h = s" if mem: "p \<in> set (byname s)" for s p
  proof -
    obtain h where "deref reg p = Inr h" "hf_abbrev h = s" using namesD(3) [OF assms(2) mem] by blast
    then show ?thesis using assms(1) unfolding same_but_refs_def by force
  qed
  moreover have "gpa_name_map reg' = gpa_name_map reg" "last_field_name reg' = last_field_name reg"
      "last_hfinfo reg' = last_hfinfo reg" "cleared reg' = cleared reg" "length (hfi reg') = length (hfi reg)"
    using assms(1) by (simp_all add: same_but_refs_def)
  ultimately show ?thesis
    using assms(2) dll_refs [OF assms(1)] unfolding names_def by simp
qed

text \<open>The identifier of a field is its index.\<close>

definition ids_ok :: "'p registrar \<Rightarrow> bool" where
  "ids_ok reg = (\<forall>p h. deref reg p = Inr h \<longrightarrow> hf_id h = int p)"

lemma ids_refs:
  assumes "same_but_refs reg reg'" "ids_ok reg"
  shows "ids_ok reg'"
  unfolding ids_ok_def
proof (intro allI impI)
  fix p h' assume h': "deref reg' p = Inr h'"
  show "hf_id h' = int p"
  proof (cases "deref reg p")
    case (Inl e)
    then have "deref reg' p = Inl e" using assms(1) unfolding same_but_refs_def by blast
    then show ?thesis using h' by simp
  next
    case (Inr h)
    then obtain t where "deref reg' p = Inr (h\<lparr>hf_ref_type := t\<rparr>)" using assms(1) unfolding same_but_refs_def by blast
    then show ?thesis using h' Inr assms(2) by (auto simp: ids_ok_def)
  qed
qed

definition direct :: "'p registrar \<Rightarrow> nat \<Rightarrow> bool" where
  "direct reg p = (\<exists>h. deref reg p = Inr h \<and> hf_ref_type h = HF_REF_TYPE_DIRECT)"

lemma set_ref_type_run:
  assumes "set_ref_type hfid t s = (Inr (), s')"
  shows "\<exists>reg'. s' = s\<lparr>registrar := reg'\<rparr> \<and> same_but_refs (registrar s) reg' \<and>
     (\<forall>p. direct reg' p = (if p = nat hfid then t = HF_REF_TYPE_DIRECT else direct (registrar s) p))"
proof -
  let ?reg = "registrar s" and ?p = "nat hfid"
  obtain h where h: "deref ?reg ?p = Inr h"
    using assms by (cases "deref ?reg ?p") (auto simp: set_ref_type_def store_def)
  let ?reg' = "?reg\<lparr>hfi := (hfi ?reg)[?p := Some (h\<lparr>hf_ref_type := t\<rparr>)]\<rparr>"
  have s': "s' = s\<lparr>registrar := ?reg'\<rparr>"
    using assms h by (simp add: set_ref_type_def store_eq)
  have d: "deref ?reg' q = (if q = ?p then Inr (h\<lparr>hf_ref_type := t\<rparr>) else deref ?reg q)" for q
    using deref_update [OF deref_length [OF h]] .
  have "\<exists>u. deref ?reg' q = Inr (k\<lparr>hf_ref_type := u\<rparr>)" if "deref ?reg q = Inr k" for q k
    using that h d same_but_refs_refl [of ?reg] unfolding same_but_refs_def by (cases "q = ?p") auto
  moreover have "deref ?reg' q = Inl e" if "deref ?reg q = Inl e" for q e using that h d by auto
  ultimately have "same_but_refs ?reg ?reg'" by (simp add: same_but_refs_def)
  moreover have "direct ?reg' q = (if q = ?p then t = HF_REF_TYPE_DIRECT else direct ?reg q)" for q
    using d by (simp add: direct_def)
  ultimately show ?thesis using s' by blast
qed

lemma prime_run:
  assumes "proto_tree_prime_with_hfid hfid s = (Inr (), s')"
  shows "\<exists>reg'. s' = s\<lparr>registrar := reg'\<rparr> \<and> same_but_refs (registrar s) reg' \<and> direct reg' (nat hfid) \<and>
     (\<forall>p. direct (registrar s) p \<longrightarrow> direct reg' p)"
proof -
  obtain h s0 where h0: "get_nth hfid s = (Inr h, s0)"
      "bindS (set_ref_type hfid HF_REF_TYPE_DIRECT) (\<lambda>_.
       if hf_parent h \<noteq> -1 then
         bindS (get_nth (hf_parent h)) (\<lambda>parent_hfinfo.
           if hf_ref_type parent_hfinfo \<noteq> HF_REF_TYPE_DIRECT
           then set_ref_type (hf_parent h) HF_REF_TYPE_INDIRECT
           else return ())
       else return ()) s0 = (Inr (), s')"
    using assms unfolding proto_tree_prime_with_hfid_def by (rule bindS_InrE)
  obtain s1 where h: "set_ref_type hfid HF_REF_TYPE_DIRECT s = (Inr (), s1)"
      "(if hf_parent h \<noteq> -1 then
         bindS (get_nth (hf_parent h)) (\<lambda>parent_hfinfo.
           if hf_ref_type parent_hfinfo \<noteq> HF_REF_TYPE_DIRECT
           then set_ref_type (hf_parent h) HF_REF_TYPE_INDIRECT
           else return ())
       else return ()) s1 = (Inr (), s')"
    using h0 by (auto simp: get_nth_def elim!: bindS_InrE)
  obtain r1 where r1: "s1 = s\<lparr>registrar := r1\<rparr>" "same_but_refs (registrar s) r1"
      "\<forall>p. direct r1 p = (if p = nat hfid then True else direct (registrar s) p)"
    using set_ref_type_run [OF h(1)] by auto
  show ?thesis
  proof (cases "s' = s1")
    case True
    then show ?thesis using r1 by auto
  next
    case False
    then obtain ph where ph: "proto_registrar_get_nth r1 (hf_parent h) = Inr ph" "hf_ref_type ph \<noteq> HF_REF_TYPE_DIRECT"
        "set_ref_type (hf_parent h) HF_REF_TYPE_INDIRECT s1 = (Inr (), s')"
      using h(2) r1(1) by (auto simp: get_nth_def elim!: bindS_InrE split: if_splits)
    obtain r2 where r2: "s' = s1\<lparr>registrar := r2\<rparr>" "same_but_refs (registrar s1) r2"
        "\<forall>p. direct r2 p = (if p = nat (hf_parent h) then False else direct (registrar s1) p)"
      using set_ref_type_run [OF ph(3)] by auto
    have "\<not> direct r1 (nat (hf_parent h))" using nth_deref [OF ph(1)] ph(2) by (simp add: direct_def)
    then have kept: "direct r1 p \<Longrightarrow> direct r2 p" for p using r2(3) r1(1) by auto
    show ?thesis
    proof (intro exI [of _ r2] conjI allI impI)
      show "s' = s\<lparr>registrar := r2\<rparr>" using r1(1) r2(1) by simp
      show "same_but_refs (registrar s) r2" using same_but_refs_trans [OF r1(2)] r1(1) r2(2) by simp
      show "direct r2 (nat hfid)" using kept r1(3) by simp
      show "direct r2 p" if "direct (registrar s) p" for p using kept r1(3) that by simp
    qed
  qed
qed

lemma prime_all_run:
  assumes "prime_all hfids s = (Inr (), s')"
  shows "\<exists>reg'. s' = s\<lparr>registrar := reg'\<rparr> \<and> same_but_refs (registrar s) reg' \<and>
     (\<forall>i \<in> set hfids. direct reg' (nat i)) \<and> (\<forall>p. direct (registrar s) p \<longrightarrow> direct reg' p)"
  using assms
proof (induction hfids arbitrary: s)
  case Nil
  then show ?case using same_but_refs_refl by (intro exI [of _ "registrar s"]) simp
next
  case (Cons i hs)
  then obtain s1 where s1: "proto_tree_prime_with_hfid i s = (Inr (), s1)" "prime_all hs s1 = (Inr (), s')"
    by (auto elim!: bindS_InrE)
  obtain r1 where r1: "s1 = s\<lparr>registrar := r1\<rparr>" "same_but_refs (registrar s) r1" "direct r1 (nat i)"
      "\<forall>p. direct (registrar s) p \<longrightarrow> direct r1 p"
    using prime_run [OF s1(1)] by auto
  obtain r2 where r2: "s' = s1\<lparr>registrar := r2\<rparr>" "same_but_refs (registrar s1) r2" "\<forall>i \<in> set hs. direct r2 (nat i)"
      "\<forall>p. direct (registrar s1) p \<longrightarrow> direct r2 p"
    using Cons.IH [OF s1(2)] by auto
  show ?case
    using r1 r2 same_but_refs_trans [OF r1(2)] by (intro exI [of _ r2]) auto
qed

section \<open>Filtering a dissected packet\<close>

text \<open>The values of all fields of the tree, recorded in the table or not.\<close>

definition all_fields :: "('p, 'r) proto_state \<Rightarrow> 'r fvalue proto_tree" where
  "all_fields s hfid =
     (let l = filter (\<lambda>fi. hf_id (hfinfo_of s fi) = hfid) (attached s)
      in if l = [] then None else Some (map (\<lambda>fi. fi_value (finfos s ! fi)) l))"

lemma filter_view_all:
  assumes "proto_ok s kids" "ids_ok (registrar s)" "direct (registrar s) i"
  shows "filter_view s (int i) = all_fields s (int i)"
proof -
  have "hf_ref_type (hfinfo_of s fi) = HF_REF_TYPE_DIRECT"
    if "fi \<in> set (attached s)" "hf_id (hfinfo_of s fi) = int i" for fi
  proof -
    have d: "deref (registrar s) (fi_hfinfo (finfos s ! fi)) = Inr (hfinfo_of s fi)"
      by (rule proto_okD(5) [OF assms(1) attached_bound [OF assms(1) that(1)]])
    then have "fi_hfinfo (finfos s ! fi) = i" using assms(2) that(2) unfolding ids_ok_def by auto
    then show ?thesis using assms(3) d by (auto simp: direct_def)
  qed
  then have "wanted s (int i) = filter (\<lambda>fi. hf_id (hfinfo_of s fi) = int i) (attached s)"
    unfolding wanted_def by (intro filter_cong) auto
  then show ?thesis using proto_okD(7) [OF assms(1), of "int i"] by (simp add: filter_view_def all_fields_def)
qed

lemma primed_dissection:
  assumes "names reg byname" "ids_ok reg"
    and "prime_all hfids ((proto_tree_create_root reg types)\<lparr>visible := v, fake_protocols := fk\<rparr>) = (Inr (), s1)"
  shows "\<exists>kids. proto_ok (snd (run_calls [Some 0] cs s1)) kids"
    "names (registrar (snd (run_calls [Some 0] cs s1))) byname"
    "i \<in> set hfids \<Longrightarrow> filter_view (snd (run_calls [Some 0] cs s1)) (int (nat i)) =
       all_fields (snd (run_calls [Some 0] cs s1)) (int (nat i))"
proof -
  let ?s0 = "(proto_tree_create_root reg types)\<lparr>visible := v, fake_protocols := fk\<rparr>" and ?s2 = "snd (run_calls [Some 0] cs s1)"
  obtain r where r: "s1 = ?s0\<lparr>registrar := r\<rparr>" "same_but_refs reg r" "\<forall>i \<in> set hfids. direct r (nat i)"
    using prime_all_run [OF assms(3)] by (auto simp: proto_tree_create_root_def)
  have "proto_ok (proto_tree_create_root r types) (\<lambda>_. [])" by (rule create_root_ok)
  then have ok: "proto_ok s1 (\<lambda>_. [])"
    by (simp add: r(1) proto_tree_create_root_def proto_ok_def infos_ok_def table_ok_def attached_def wanted_def finfo_ptr_array_def)
  have "items_ok s1 [Some 0]" using r(1) by (simp add: items_ok_def proto_tree_create_root_def)
  then have g: "grown s1 ?s2" by (rule run_calls_grown [OF ok])
  then obtain kids where kids: "proto_ok ?s2 kids" and reg: "registrar ?s2 = r" using r(1) by (auto simp: grown_def)
  show "\<exists>kids. proto_ok ?s2 kids" using kids by blast
  show "names (registrar ?s2) byname" using names_refs [OF r(2) assms(1)] reg by simp
  show "filter_view ?s2 (int (nat i)) = all_fields ?s2 (int (nat i))" if "i \<in> set hfids"
    using filter_view_all [OF kids, of "nat i"] ids_refs [OF r(2) assms(2)] r(3) that reg by simp
qed

text \<open>
  C1. From the filter to the decision: when a tree was primed with a compiled filter and then dissected by
  any sequence of calls, visible or not, ended normally or by an exception, the filter decides on the
  table of the interesting fields what the meaning of its syntax tree says about all fields of the tree.
\<close>

theorem dissected_filter_correct:
  assumes "names reg byname" "ids_ok reg" "wf_test (registered byname) t"
    and "dfilter_compile_tree reg t = Inr df"
    and "dfilter_prime_proto_tree df ((proto_tree_create_root reg types)\<lparr>visible := v, fake_protocols := fk\<rparr>) = (Inr (), s1)"
    and "run_calls [Some 0] cs s1 = (r, s2)"
    and "eval_test (tree_env reg ops (all_fields s2)) t = Inr b"
  shows "\<exists>M. dfilter_apply (registrar s2) ops df (filter_view s2) = Inr (b, df\<lparr>owns_memory := M\<rparr>)"
proof -
  obtain dfw P' df' where "compiled reg byname t dfw P' df'" using compile_ok [OF assms(1,3)] by blast
  then have c: "compiled reg byname t dfw P' df" using assms(4) by (simp add: compiled_def)
  then have "at_rest dfw df" by (simp add: compiled_def)
  then obtain M where M: "dfilter_apply reg ops df (all_fields s2) = Inr (b, df\<lparr>owns_memory := M\<rparr>)"
    using apply_ok [OF assms(1,3) c _ refl assms(7)] by blast
  note dis = primed_dissection [OF assms(1,2) assms(5) [unfolded dfilter_prime_proto_tree_def], where cs = cs]
  have "same_on (df_interesting_fields df) (all_fields s2) (filter_view s2)"
    using dis(3) assms(6) by (force simp: same_on_def)
  moreover have "names (registrar s2) byname" using dis(2) assms(6) by simp
  ultimately show ?thesis using compiled_same_on [OF assms(1,3) c _ _ refl] M by metis
qed

text \<open>A packet with the field 2 at 5 and, below it, the field 1 at 7, filtered by \<open>a.b == 5 && c\<close>.\<close>

definition sample_calls :: "call list" where
  "sample_calls = [ADD_UINT 0 2 None 0 0 5, ADD_SUBTREE 1 0, ADD_UINT 2 1 None 0 0 7]"

definition sample_root :: "(unit, unit) proto_state" where
  "sample_root = (proto_tree_create_root sample_registrar 1)\<lparr>visible := False, fake_protocols := True\<rparr>"

abbreviation "sample_primed \<equiv> snd (prime_all [1, 2, 0] sample_root)"

lemma sample_compiles:
  "map_sum (\<lambda>e. e) df_interesting_fields (dfilter_compile_tree sample_registrar sample_filter) = Inr [1, 2, 0]"
  by code_simp

lemma sample_dissection:
  "fst (prime_all [1, 2, 0] sample_root) = Inr ()"
  "fst (run_calls [Some 0] sample_calls sample_primed) = Inr [Some 0, Some 1, Some 1, Some 2]"
  "eval_test (tree_env sample_registrar sample_ops (all_fields (snd (run_calls [Some 0] sample_calls sample_primed))))
     sample_filter = Inr True"
  by code_simp+

lemma sample_ids_ok: "ids_ok sample_registrar"
  by (auto simp: ids_ok_def sample_registrar_def registrar_init_def sample_field_def deref_def nth_Cons' Let_def
      split: if_splits)

theorem dissected_filter_correct_witness:
  "\<exists>df s1 s2 M. dfilter_compile_tree sample_registrar sample_filter = Inr df \<and>
     dfilter_prime_proto_tree df sample_root = (Inr (), s1) \<and>
     run_calls [Some 0] sample_calls s1 = (Inr [Some 0, Some 1, Some 1, Some 2], s2) \<and>
     dfilter_apply (registrar s2) sample_ops df (filter_view s2) = Inr (True, df\<lparr>owns_memory := M\<rparr>)"
proof -
  obtain df where df: "dfilter_compile_tree sample_registrar sample_filter = Inr df"
      "df_interesting_fields df = [1, 2, 0]"
    using sample_compiles by (cases "dfilter_compile_tree sample_registrar sample_filter") auto
  obtain s1 where s1: "prime_all [1, 2, 0] sample_root = (Inr (), s1)"
    using sample_dissection(1) by (cases "prime_all [1, 2, 0] sample_root") simp
  then have prime: "dfilter_prime_proto_tree df sample_root = (Inr (), s1)"
    by (simp add: dfilter_prime_proto_tree_def df(2))
  obtain s2 where s2: "run_calls [Some 0] sample_calls s1 = (Inr [Some 0, Some 1, Some 1, Some 2], s2)"
    using sample_dissection(2) s1 by (cases "run_calls [Some 0] sample_calls s1") simp
  have "eval_test (tree_env sample_registrar sample_ops (all_fields s2)) sample_filter = Inr True"
    using sample_dissection(3) s1 s2 by simp
  then show ?thesis
    using dissected_filter_correct [OF sample_names sample_ids_ok sample_filter_ok df(1)
        prime [unfolded sample_root_def] s2] df(1) prime s2 by blast
qed

end
