(* ===== verification/Dfunctions.thy ===== *)
theory Dfunctions
  imports FtypeTable Ftypes Gencode
begin

text \<open>
  The functions of the filter language (epan/dfilter/dfunctions.c): \<open>lower\<close>, \<open>upper\<close>, \<open>len\<close>, \<open>count\<close> and
  \<open>string\<close>, and their table. A function appends its results to the list it is given and answers whether it
  succeeded.

  The type of a value, \<open>type_of\<close>, and its text in the filter language, \<open>string_repr\<close> (None is a NULL
  pointer), are parameters.
\<close>

definition tolower_byte :: "guint8 \<Rightarrow> guint8" where
  "tolower_byte c = (if 0x41 \<le> c \<and> c \<le> 0x5A then c + 0x20 else c)"

definition toupper_byte :: "guint8 \<Rightarrow> guint8" where
  "toupper_byte c = (if 0x61 \<le> c \<and> c \<le> 0x7A then c - 0x20 else c)"

text \<open>The members \<open>string\<close> of a value; the copy ends at the first NUL.\<close>

definition fvalue_get_string :: "'r fvalue \<Rightarrow> guint8 list res" where
  "fvalue_get_string fv = (case fv of STRING s \<Rightarrow> Inr (takeWhile (\<lambda>c. c \<noteq> 0) s) | _ \<Rightarrow> Inl Fault)"

fun string_walk ::
    "('r fvalue \<Rightarrow> ftenum) \<Rightarrow> (guint8 \<Rightarrow> guint8) \<Rightarrow> 'r fvalue list \<Rightarrow> 'r fvalue list \<Rightarrow>
      (bool \<times> 'r fvalue list) res" where
  "string_walk type_of conv_func [] retval = Inr (True, retval)"
| "string_walk type_of conv_func (arg_fvalue # arg1list) retval =
     (if IS_FT_STRING (type_of arg_fvalue) then
        bindE (fvalue_get_string arg_fvalue) (\<lambda>s.
          string_walk type_of conv_func arg1list (retval @ [STRING (map conv_func s)]))
      else string_walk type_of conv_func arg1list retval)"

definition df_func_lower ::
    "('r fvalue \<Rightarrow> ftenum) \<Rightarrow> 'r fvalue list \<Rightarrow> 'r fvalue list \<Rightarrow> 'r fvalue list \<Rightarrow> (bool \<times> 'r fvalue list) res" where
  "df_func_lower type_of arg1list arg2junk retval = string_walk type_of tolower_byte arg1list retval"

definition df_func_upper ::
    "('r fvalue \<Rightarrow> ftenum) \<Rightarrow> 'r fvalue list \<Rightarrow> 'r fvalue list \<Rightarrow> 'r fvalue list \<Rightarrow> (bool \<times> 'r fvalue list) res" where
  "df_func_upper type_of arg1list arg2junk retval = string_walk type_of toupper_byte arg1list retval"

definition df_func_len ::
    "'r fvalue list \<Rightarrow> 'r fvalue list \<Rightarrow> 'r fvalue list \<Rightarrow> (bool \<times> 'r fvalue list) res" where
  "df_func_len arg1list arg2junk retval =
     Inr (True, retval @ map (\<lambda>arg_fvalue. UINTEGER 4 (fvalue_length arg_fvalue)) arg1list)"

definition df_func_count ::
    "'r fvalue list \<Rightarrow> 'r fvalue list \<Rightarrow> 'r fvalue list \<Rightarrow> (bool \<times> 'r fvalue list) res" where
  "df_func_count arg1list arg2junk retval =
     Inr (True, retval @ [UINTEGER 4 (of_nat (length arg1list))])"

text \<open>The types that \<open>string\<close> converts.\<close>

definition string_param_types :: "ftenum list" where
  "string_param_types =
     [FT_UINT8, FT_UINT16, FT_UINT24, FT_UINT32, FT_UINT40, FT_UINT48, FT_UINT56, FT_UINT64, FT_INT8,
      FT_INT16, FT_INT32, FT_INT40, FT_INT48, FT_INT56, FT_INT64, FT_IPv4, FT_IPv6, FT_FLOAT, FT_DOUBLE,
      FT_ETHER, FT_FRAMENUM, FT_AX25, FT_IPXNET, FT_GUID, FT_OID, FT_EUI64, FT_VINES, FT_REL_OID,
      FT_SYSTEM_ID, FT_FCWWN, FT_IEEE_11073_SFLOAT, FT_IEEE_11073_FLOAT]"

fun df_func_string ::
    "('r fvalue \<Rightarrow> ftenum) \<Rightarrow> ('r fvalue \<Rightarrow> guint8 list option) \<Rightarrow> 'r fvalue list \<Rightarrow> 'r fvalue list \<Rightarrow>
      'r fvalue list \<Rightarrow> (bool \<times> 'r fvalue list) res" where
  "df_func_string type_of string_repr [] arg2junk retval = Inr (True, retval)"
| "df_func_string type_of string_repr (arg_fvalue # arg1list) arg2junk retval =
     (if List.member string_param_types (type_of arg_fvalue) then
        let s = (case string_repr arg_fvalue of None \<Rightarrow> [] | Some s \<Rightarrow> s)
        in df_func_string type_of string_repr arg1list arg2junk (retval @ [STRING s])
      else Inr (True, retval))"

definition df_functions ::
    "('r fvalue \<Rightarrow> ftenum) \<Rightarrow> ('r fvalue \<Rightarrow> guint8 list option) \<Rightarrow> 'r fvalue df_func_def list" where
  "df_functions type_of string_repr =
     [\<lparr>df_name = ''lower'', df_function = df_func_lower type_of, retval_ftype = FT_STRING,
       min_nargs = 1, max_nargs = 1, semcheck_param = UL_SEMCHECK_PARAMS\<rparr>,
      \<lparr>df_name = ''upper'', df_function = df_func_upper type_of, retval_ftype = FT_STRING,
       min_nargs = 1, max_nargs = 1, semcheck_param = UL_SEMCHECK_PARAMS\<rparr>,
      \<lparr>df_name = ''len'', df_function = df_func_len, retval_ftype = FT_UINT32,
       min_nargs = 1, max_nargs = 1, semcheck_param = UL_SEMCHECK_LEN_PARAMS\<rparr>,
      \<lparr>df_name = ''count'', df_function = df_func_count, retval_ftype = FT_UINT32,
       min_nargs = 1, max_nargs = 1, semcheck_param = UL_SEMCHECK_FIELD_PARAM\<rparr>,
      \<lparr>df_name = ''string'', df_function = df_func_string type_of string_repr, retval_ftype = FT_STRING,
       min_nargs = 1, max_nargs = 1, semcheck_param = UL_SEMCHECK_STRING_PARAM\<rparr>]"

definition df_func_lookup ::
    "('r fvalue \<Rightarrow> ftenum) \<Rightarrow> ('r fvalue \<Rightarrow> guint8 list option) \<Rightarrow> string \<Rightarrow> 'r fvalue df_func_def option" where
  "df_func_lookup type_of string_repr name =
     find (\<lambda>func_def. df_name func_def = name) (df_functions type_of string_repr)"

end
