(* ===== verification/Semcheck.thy ===== *)
theory Semcheck
  imports Dfunctions Dfvm
begin

text \<open>
  The semantic check of a display filter (epan/dfilter/semcheck.c and the checks of parameters of
  epan/dfilter/dfunctions.c): texts become values of the type they are compared with, fields and functions
  are checked for the operation they take part in, and operands of different kinds are brought to bytes.

  C changes the nodes in place; here every function returns the node, or the two operands, that it
  leaves. A function returns \<open>TypeError\<close> where C throws that exception; the text of the error message is
  not modelled. Parsing a value from text is the function of a type, a parameter here.
\<close>

record 'r fvalue_parsers =
  val_from_unparsed :: "ftenum \<Rightarrow> string \<Rightarrow> bool \<Rightarrow> 'r fvalue option"
  val_from_string :: "ftenum \<Rightarrow> string \<Rightarrow> 'r fvalue option"

definition fvalue_from_unparsed ::
    "'r fvalue_parsers \<Rightarrow> ftenum \<Rightarrow> string \<Rightarrow> bool \<Rightarrow> 'r fvalue option" where
  "fvalue_from_unparsed P ftype s allow_partial_value =
     (if has_from_unparsed (ftype_lookup ftype) then val_from_unparsed P ftype s allow_partial_value else None)"

definition fvalue_from_string :: "'r fvalue_parsers \<Rightarrow> ftenum \<Rightarrow> string \<Rightarrow> 'r fvalue option" where
  "fvalue_from_string P ftype s =
     (if has_from_string (ftype_lookup ftype) then val_from_string P ftype s else None)"

section \<open>Types\<close>

definition byte_types :: "ftenum list" where
  "byte_types =
     [FT_ETHER, FT_BYTES, FT_UINT_BYTES, FT_GUID, FT_OID, FT_AX25, FT_VINES, FT_FCWWN, FT_REL_OID,
      FT_SYSTEM_ID]"

definition small_int_types :: "ftenum list" where
  "small_int_types =
     [FT_BOOLEAN, FT_FRAMENUM, FT_CHAR, FT_UINT8, FT_UINT16, FT_UINT24, FT_UINT32, FT_INT8, FT_INT16,
      FT_INT24, FT_INT32]"

definition string_types :: "ftenum list" where
  "string_types = [FT_STRING, FT_STRINGZ, FT_UINT_STRING, FT_STRINGZPAD]"

definition compatible_ftypes :: "ftenum \<Rightarrow> ftenum \<Rightarrow> bool res" where
  "compatible_ftypes a b =
     (if List.member
           [FT_NONE, FT_PROTOCOL, FT_FLOAT, FT_DOUBLE, FT_ABSOLUTE_TIME, FT_RELATIVE_TIME,
            FT_IEEE_11073_SFLOAT, FT_IEEE_11073_FLOAT, FT_IPv4, FT_IPv6, FT_IPXNET, FT_INT40, FT_UINT40,
            FT_INT48, FT_UINT48, FT_INT56, FT_UINT56, FT_INT64, FT_UINT64, FT_EUI64] a
      then Inr (a = b)
      else if List.member byte_types a then Inr (List.member byte_types b)
      else if List.member small_int_types a then Inr (List.member small_int_types b)
      else if List.member string_types a then Inr (List.member string_types b)
      else Inl Fault)"

definition is_bytes_type :: "ftenum \<Rightarrow> bool" where
  "is_bytes_type type =
     List.member
       [FT_AX25, FT_VINES, FT_FCWWN, FT_ETHER, FT_BYTES, FT_UINT_BYTES, FT_IPv6, FT_GUID, FT_OID,
        FT_REL_OID, FT_SYSTEM_ID] type"

section \<open>Values from the tables of a field\<close>

definition mk_uint32_fvalue :: "guint32 \<Rightarrow> 'r fvalue" where
  "mk_uint32_fvalue val = UINTEGER 4 val"

definition mk_uint64_fvalue :: "guint64 \<Rightarrow> 'r fvalue" where
  "mk_uint64_fvalue val = UINTEGER64 8 val"

text \<open>\<open>g_ascii_strcasecmp(a, b) == 0\<close>.\<close>

definition ascii_tolower :: "char \<Rightarrow> char" where
  "ascii_tolower c =
     (let n = of_char c :: nat in if 0x41 \<le> n \<and> n \<le> 0x5A then char_of (n + 0x20) else c)"

definition strcaseeq :: "string \<Rightarrow> string \<Rightarrow> bool" where
  "strcaseeq a b = (map ascii_tolower a = map ascii_tolower b)"

text \<open>The loops over the tables, which end at the entry without a string.\<close>

fun value_of_string :: "string \<Rightarrow> 'w::len value_string list \<Rightarrow> 'w word option res" where
  "value_of_string s [] = Inl Fault"
| "value_of_string s (e # es) =
     (case strptr e of
        None \<Rightarrow> Inr None
      | Some t \<Rightarrow> if strcaseeq s t then Inr (Some (vs_value e)) else value_of_string s es)"

definition BASE_RANGE_STRING :: guint32 where "BASE_RANGE_STRING = 0x00000100"
definition BASE_EXT_STRING :: guint32 where "BASE_EXT_STRING = 0x00000200"
definition BASE_VAL64_STRING :: guint32 where "BASE_VAL64_STRING = 0x00000400"

definition has_val_strings :: "ftenum \<Rightarrow> bool" where
  "has_val_strings type =
     List.member
       [FT_BOOLEAN, FT_CHAR, FT_UINT8, FT_UINT16, FT_UINT24, FT_UINT32, FT_UINT40, FT_UINT48, FT_UINT56,
        FT_UINT64, FT_INT8, FT_INT16, FT_INT24, FT_INT32, FT_INT40, FT_INT48, FT_INT56, FT_INT64] type"

text \<open>
  \<open>strings\<close> is cast to the table that the flags tell; if it points to one of another type, C reads
  something else, a \<open>Fault\<close>.
\<close>

definition mk_fvalue_from_val_string :: "header_field_info \<Rightarrow> string \<Rightarrow> 'r fvalue option res" where
  "mk_fvalue_from_val_string hfinfo s =
     (if \<not> has_val_strings (hf_type hfinfo) then Inr None
      else if hf_type hfinfo = FT_BOOLEAN then
        bindE (case hf_strings hfinfo of
                 NO_STRINGS \<Rightarrow> Inr (''True'', ''False'')
               | TRUE_FALSE_STRING t f \<Rightarrow> Inr (t, f)
               | _ \<Rightarrow> Inl Fault) (\<lambda>(true_string, false_string).
          if strcaseeq s true_string then Inr (Some (mk_uint64_fvalue 1))
          else if strcaseeq s false_string then Inr (Some (mk_uint64_fvalue 0))
          else Inr None)
      else if hf_strings hfinfo = NO_STRINGS then Inr None
      else if hf_display hfinfo AND BASE_RANGE_STRING \<noteq> 0 then Inr None
      else if hf_display hfinfo AND BASE_VAL64_STRING \<noteq> 0 then
        (case hf_strings hfinfo of
           VAL64_STRING vals \<Rightarrow>
             bindE (value_of_string s vals) (\<lambda>r. Inr (map_option mk_uint64_fvalue r))
         | _ \<Rightarrow> Inl Fault)
      else if hf_display hfinfo = BASE_CUSTOM then Inr None
      else
        bindE (if hf_display hfinfo AND BASE_EXT_STRING \<noteq> 0 then
                 (case hf_strings hfinfo of VALUE_STRING_EXT e \<Rightarrow> Inr (vs_p e) | _ \<Rightarrow> Inl Fault)
               else (case hf_strings hfinfo of VALUE_STRING vals \<Rightarrow> Inr vals | _ \<Rightarrow> Inl Fault)) (\<lambda>vals.
        bindE (value_of_string s vals) (\<lambda>r. Inr (map_option mk_uint32_fvalue r))))"

section \<open>Functions\<close>

text \<open>The macro \<open>THROW(TypeError)\<close> guarded by a condition.\<close>

definition type_check :: "bool \<Rightarrow> unit res" where
  "type_check b = (if b then Inr () else Inl TypeError)"

definition is_field :: "'v stnode \<Rightarrow> bool" where
  "is_field st_node = (case st_node of STTYPE_FIELD _ \<Rightarrow> True | _ \<Rightarrow> False)"

definition ul_semcheck_params :: "'p registrar \<Rightarrow> nat \<Rightarrow> 'v stnode \<Rightarrow> unit res" where
  "ul_semcheck_params reg param_num st_node =
     g_assert (param_num = 0)
       (case st_node of
          STTYPE_FIELD h \<Rightarrow> bindE (deref reg h) (\<lambda>hfinfo. type_check (IS_FT_STRING (hf_type hfinfo)))
        | _ \<Rightarrow> Inl TypeError)"

definition ul_semcheck_len_params :: "nat \<Rightarrow> 'v stnode \<Rightarrow> unit res" where
  "ul_semcheck_len_params param_num st_node = g_assert (param_num = 0) (type_check (is_field st_node))"

definition ul_semcheck_field_param :: "nat \<Rightarrow> 'v stnode \<Rightarrow> unit res" where
  "ul_semcheck_field_param param_num st_node = g_assert (param_num = 0) (type_check (is_field st_node))"

definition ul_semcheck_string_param :: "'p registrar \<Rightarrow> nat \<Rightarrow> 'v stnode \<Rightarrow> unit res" where
  "ul_semcheck_string_param reg param_num st_node =
     g_assert (param_num = 0)
       (case st_node of
          STTYPE_FIELD h \<Rightarrow>
            bindE (deref reg h) (\<lambda>hfinfo. type_check (List.member string_param_types (hf_type hfinfo)))
        | _ \<Rightarrow> Inl TypeError)"

definition call_semcheck_param ::
    "'p registrar \<Rightarrow> semcheck_param_function \<Rightarrow> nat \<Rightarrow> 'v stnode \<Rightarrow> unit res" where
  "call_semcheck_param reg f param_num st_node =
     (case f of
        UL_SEMCHECK_PARAMS \<Rightarrow> ul_semcheck_params reg param_num st_node
      | UL_SEMCHECK_LEN_PARAMS \<Rightarrow> ul_semcheck_len_params param_num st_node
      | UL_SEMCHECK_FIELD_PARAM \<Rightarrow> ul_semcheck_field_param param_num st_node
      | UL_SEMCHECK_STRING_PARAM \<Rightarrow> ul_semcheck_string_param reg param_num st_node)"

definition check_param_entity ::
    "'r fvalue_parsers \<Rightarrow> 'r fvalue stnode \<Rightarrow> 'r fvalue stnode res" where
  "check_param_entity P st_node =
     (let from_text = (\<lambda>s. case fvalue_from_unparsed P FT_STRING s False of
                             None \<Rightarrow> Inl TypeError
                           | Some fv \<Rightarrow> Inr (STTYPE_FVALUE fv))
      in case st_node of
           STTYPE_UNPARSED s \<Rightarrow> from_text s
         | STTYPE_CHARCONST s \<Rightarrow> from_text s
         | _ \<Rightarrow> Inr st_node)"

text \<open>The loop over the parameters.\<close>

fun check_params ::
    "'p registrar \<Rightarrow> 'r fvalue_parsers \<Rightarrow> 'r fvalue df_func_def \<Rightarrow> nat \<Rightarrow> 'r fvalue stnode list \<Rightarrow>
      'r fvalue stnode list res" where
  "check_params reg P funcdef iparam [] = Inr []"
| "check_params reg P funcdef iparam (p # params) =
     bindE (check_param_entity P p) (\<lambda>p'.
     bindE (call_semcheck_param reg (semcheck_param funcdef) iparam p') (\<lambda>_.
     bindE (check_params reg P funcdef (iparam + 1) params) (\<lambda>params'. Inr (p' # params'))))"

definition check_function ::
    "'p registrar \<Rightarrow> 'r fvalue_parsers \<Rightarrow> 'r fvalue df_func_def \<Rightarrow> 'r fvalue stnode list \<Rightarrow>
      'r fvalue stnode res" where
  "check_function reg P funcdef params =
     (if length params < min_nargs funcdef then Inl TypeError
      else if length params > max_nargs funcdef then Inl TypeError
      else bindE (check_params reg P funcdef 0 params) (\<lambda>params'. Inr (STTYPE_FUNCTION funcdef params')))"

section \<open>Conversions\<close>

definition convert_to_bytes :: "'v stnode \<Rightarrow> 'v stnode" where
  "convert_to_bytes arg =
     STTYPE_RANGE arg
       (drange_new_from_list [drange_node_set_to_the_end (drange_node_set_start_offset 0 drange_node_new)])"

text \<open>\<open>g_strdup_printf("%02x", ...)\<close>.\<close>

definition hex_digit :: "nat \<Rightarrow> char" where
  "hex_digit d = (if d < 10 then char_of (0x30 + d) else char_of (0x57 + d))"

function hex_string :: "nat \<Rightarrow> string" where
  "hex_string n = (if n < 16 then [hex_digit n] else hex_string (n div 16) @ [hex_digit (n mod 16)])"
  by pat_completeness auto
termination by (relation "measure id") auto

declare hex_string.simps [simp del]

definition printf_02x :: "guint32 \<Rightarrow> string" where
  "printf_02x v = (let s = hex_string (unat v) in if length s < 2 then ''0'' @ s else s)"

definition dfilter_fvalue_from_charconst_string ::
    "'r fvalue_parsers \<Rightarrow> ftenum \<Rightarrow> string \<Rightarrow> bool \<Rightarrow> 'r fvalue option res" where
  "dfilter_fvalue_from_charconst_string P ftype s allow_partial_value =
     (case fvalue_from_unparsed P FT_CHAR s allow_partial_value of
        None \<Rightarrow> Inr None
      | Some fv \<Rightarrow>
          bindE (int_member fv) (\<lambda>v. Inr (fvalue_from_unparsed P ftype (printf_02x v) allow_partial_value)))"

text \<open>The end of the branches that replace a text by its value.\<close>

definition value_node :: "'r fvalue option \<Rightarrow> 'r fvalue stnode res" where
  "value_node fvalue = (case fvalue of None \<Rightarrow> Inl TypeError | Some fv \<Rightarrow> Inr (STTYPE_FVALUE fv))"


section \<open>Relations\<close>

text \<open>
  The kinds of operands that a relation compares with text: a quoted string, a character constant, or
  text that the scanner left as it is.
\<close>

datatype text_kind = KIND_STRING | KIND_CHARCONST | KIND_UNPARSED

text \<open>
  The loop over the fields of the same name to one whose type takes such a text; the list of the names
  may have no end if its links run in a circle.
\<close>

definition incompatible_text :: "text_kind \<Rightarrow> ftenum \<Rightarrow> bool" where
  "incompatible_text type2 ftype1 =
     ((type2 = KIND_STRING \<and> ftype1 \<noteq> FT_STRING \<and> ftype1 \<noteq> FT_STRINGZ) \<or>
      (type2 \<noteq> KIND_STRING \<and> (ftype1 = FT_STRING \<or> ftype1 = FT_STRINGZ)))"

partial_function (option) skip_incompatible ::
    "'p registrar \<Rightarrow> text_kind \<Rightarrow> header_field_info \<Rightarrow> header_field_info res option" where
  "skip_incompatible reg type2 hfinfo1 =
     (if same_name_prev_id hfinfo1 \<noteq> -1 \<and> incompatible_text type2 (hf_type hfinfo1) then
        (case proto_registrar_get_nth reg (same_name_prev_id hfinfo1) of
           Inl e \<Rightarrow> Some (Inl e)
         | Inr h \<Rightarrow> skip_incompatible reg type2 h)
      else Some (Inr hfinfo1))"

declare skip_incompatible.simps [code]

definition field_text ::
    "'p registrar \<Rightarrow> 'r fvalue_parsers \<Rightarrow> string \<Rightarrow> bool \<Rightarrow> header_field_info \<Rightarrow> text_kind \<Rightarrow> string \<Rightarrow>
      'r fvalue stnode res" where
  "field_text reg P relation_string allow_partial_value hfinfo type2 s =
     bindE
       (if relation_string = ''matches'' then
          Inr (if type2 = KIND_STRING then fvalue_from_string P FT_PCRE s
               else fvalue_from_unparsed P FT_PCRE s False)
        else
          bindE (returned (skip_incompatible reg type2 hfinfo)) (\<lambda>hfinfo1.
          bindE (if type2 = KIND_STRING then Inr (fvalue_from_string P (hf_type hfinfo1) s)
                 else if type2 = KIND_CHARCONST \<and> relation_string = ''contains'' then
                   dfilter_fvalue_from_charconst_string P (hf_type hfinfo1) s allow_partial_value
                 else Inr (fvalue_from_unparsed P (hf_type hfinfo1) s allow_partial_value)) (\<lambda>fvalue.
            if fvalue = None \<and> type2 \<noteq> KIND_CHARCONST then mk_fvalue_from_val_string hfinfo1 s
            else Inr fvalue)))
       value_node"

abbreviation size_elems :: "('v stnode \<times> 'v stnode option) list \<Rightarrow> nat" where
  "size_elems \<equiv> size_list (size_prod size (size_option size))"

text \<open>
  \<open>check_relation_LHS_FIELD\<close> for the node of a test or, if \<open>is_test\<close> is false, of a set. It returns the
  two operands it leaves. A range that is compared with a field that is not bytes turns the field into
  bytes; in a set this calls \<open>sttype_test_set2_args\<close> on a node that is no test, which asserts.
  \<open>check_set_elements\<close> is the loop over the elements of a set.
\<close>

function (sequential) check_relation_LHS_FIELD ::
    "'p registrar \<Rightarrow> 'r fvalue_parsers \<Rightarrow> string \<Rightarrow> (ftenum \<Rightarrow> bool) \<Rightarrow> bool \<Rightarrow> bool \<Rightarrow> nat \<Rightarrow>
      'r fvalue stnode \<Rightarrow> ('r fvalue stnode \<times> 'r fvalue stnode) res"
and check_set_elements ::
    "'p registrar \<Rightarrow> 'r fvalue_parsers \<Rightarrow> (ftenum \<Rightarrow> bool) \<Rightarrow> bool \<Rightarrow> nat \<Rightarrow>
      ('r fvalue stnode \<times> 'r fvalue stnode option) list \<Rightarrow>
      ('r fvalue stnode \<times> 'r fvalue stnode option) list res"
where
  "check_relation_LHS_FIELD reg P relation_string can_func allow_partial_value is_test h st_arg2 =
     bindE (deref reg h) (\<lambda>hfinfo1.
     bindE (type_check (can_func (hf_type hfinfo1))) (\<lambda>_.
       let st_arg1 = STTYPE_FIELD h;
           text = (\<lambda>type2 s.
             bindE (field_text reg P relation_string allow_partial_value hfinfo1 type2 s)
               (\<lambda>new_st. Inr (st_arg1, new_st)))
       in case st_arg2 of
            STTYPE_FIELD h2 \<Rightarrow>
              bindE (deref reg h2) (\<lambda>hfinfo2.
              bindE (compatible_ftypes (hf_type hfinfo1) (hf_type hfinfo2)) (\<lambda>compatible.
              bindE (type_check compatible) (\<lambda>_.
              bindE (type_check (can_func (hf_type hfinfo2))) (\<lambda>_. Inr (st_arg1, st_arg2)))))
          | STTYPE_STRING s \<Rightarrow> text KIND_STRING s
          | STTYPE_UNPARSED s \<Rightarrow> text KIND_UNPARSED s
          | STTYPE_CHARCONST s \<Rightarrow> text KIND_CHARCONST s
          | STTYPE_RANGE entity dr \<Rightarrow>
              bindE (check_drange_sanity dr) (\<lambda>_.
                if is_bytes_type (hf_type hfinfo1) then Inr (st_arg1, st_arg2)
                else
                  bindE (type_check (ftype_can_slice (hf_type hfinfo1))) (\<lambda>_.
                    g_assert is_test (Inr (convert_to_bytes st_arg1, st_arg2))))
          | STTYPE_FUNCTION funcdef params \<Rightarrow>
              bindE (compatible_ftypes (hf_type hfinfo1) (retval_ftype funcdef)) (\<lambda>compatible.
              bindE (type_check compatible) (\<lambda>_.
              bindE (type_check (can_func (retval_ftype funcdef))) (\<lambda>_.
              bindE (check_function reg P funcdef params) (\<lambda>st_arg2'. Inr (st_arg1, st_arg2')))))
          | STTYPE_SET elems \<Rightarrow>
              g_assert (relation_string = ''in'')
                (bindE (check_set_elements reg P can_func allow_partial_value h elems)
                   (\<lambda>elems'. Inr (st_arg1, STTYPE_SET elems')))
          | STTYPE_FVALUE _ \<Rightarrow> Inl Fault
          | STTYPE_TEST _ _ _ \<Rightarrow> Inl Fault))"
| "check_set_elements reg P can_func allow_partial_value h [] = Inr []"
| "check_set_elements reg P can_func allow_partial_value h ((node, node_right) # nodelist) =
     bindE (type_check (case node of STTYPE_RANGE _ _ \<Rightarrow> False | _ \<Rightarrow> True)) (\<lambda>_.
     bindE (case node_right of
              Some right \<Rightarrow>
                bindE (deref reg h) (\<lambda>hfinfo1.
                bindE (type_check (ftype_can_ge (hf_type hfinfo1))) (\<lambda>_.
                bindE (check_relation_LHS_FIELD reg P ''>='' ftype_can_ge allow_partial_value False h node)
                  (\<lambda>(_, node').
                bindE (check_relation_LHS_FIELD reg P ''<='' ftype_can_le allow_partial_value False h right)
                  (\<lambda>(_, right'). Inr (node', Some right')))))
            | None \<Rightarrow>
                bindE (check_relation_LHS_FIELD reg P ''=='' can_func allow_partial_value False h node)
                  (\<lambda>(_, node'). Inr (node', None))) (\<lambda>elem.
     bindE (check_set_elements reg P can_func allow_partial_value h nodelist) (\<lambda>nodelist'.
       Inr (elem # nodelist'))))"
  by pat_completeness auto

termination
  by (relation "measure (\<lambda>x. case x of
        Inl (reg, P, relation_string, can_func, allow_partial_value, is_test, h, st_arg2) \<Rightarrow> size st_arg2
      | Inr (reg, P, can_func, allow_partial_value, h, elems) \<Rightarrow> size_elems elems)")
    auto

declare check_relation_LHS_FIELD.simps [simp del]

text \<open>
  \<open>check_relation_LHS_STRING\<close> and \<open>check_relation_LHS_UNPARSED\<close> differ in how they get a value from the
  text: \<open>conv\<close> and, for a field, \<open>conv_field\<close>.
\<close>

definition text_of_field ::
    "('r fvalue_parsers \<Rightarrow> ftenum \<Rightarrow> string \<Rightarrow> 'r fvalue option) \<Rightarrow> 'r fvalue_parsers \<Rightarrow> header_field_info \<Rightarrow>
      string \<Rightarrow> 'r fvalue stnode res" where
  "text_of_field conv P hfinfo2 s =
     bindE (case conv P (hf_type hfinfo2) s of
              None \<Rightarrow> mk_fvalue_from_val_string hfinfo2 s
            | Some fv \<Rightarrow> Inr (Some fv)) value_node"

definition check_relation_LHS_text ::
    "('r fvalue_parsers \<Rightarrow> ftenum \<Rightarrow> string \<Rightarrow> 'r fvalue option) \<Rightarrow> 'p registrar \<Rightarrow> 'r fvalue_parsers \<Rightarrow>
      (ftenum \<Rightarrow> bool) \<Rightarrow> string \<Rightarrow> 'r fvalue stnode \<Rightarrow> ('r fvalue stnode \<times> 'r fvalue stnode) res" where
  "check_relation_LHS_text conv reg P can_func s st_arg2 =
     (case st_arg2 of
        STTYPE_FIELD h2 \<Rightarrow>
          bindE (deref reg h2) (\<lambda>hfinfo2.
          bindE (type_check (can_func (hf_type hfinfo2))) (\<lambda>_.
          bindE (text_of_field conv P hfinfo2 s) (\<lambda>new_st. Inr (new_st, st_arg2))))
      | STTYPE_STRING _ \<Rightarrow> Inl TypeError
      | STTYPE_UNPARSED _ \<Rightarrow> Inl TypeError
      | STTYPE_CHARCONST _ \<Rightarrow> Inl TypeError
      | STTYPE_RANGE entity dr \<Rightarrow>
          bindE (check_drange_sanity dr) (\<lambda>_.
          bindE (value_node (conv P FT_BYTES s)) (\<lambda>new_st. Inr (new_st, st_arg2)))
      | STTYPE_FUNCTION funcdef params \<Rightarrow>
          bindE (type_check (can_func (retval_ftype funcdef))) (\<lambda>_.
          bindE (value_node (conv P (retval_ftype funcdef) s)) (\<lambda>new_st.
          bindE (check_function reg P funcdef params) (\<lambda>st_arg2'. Inr (new_st, st_arg2'))))
      | STTYPE_SET _ \<Rightarrow> Inl TypeError
      | STTYPE_FVALUE _ \<Rightarrow> Inl Fault
      | STTYPE_TEST _ _ _ \<Rightarrow> Inl Fault)"

definition check_relation_LHS_STRING ::
    "'p registrar \<Rightarrow> 'r fvalue_parsers \<Rightarrow> (ftenum \<Rightarrow> bool) \<Rightarrow> string \<Rightarrow> 'r fvalue stnode \<Rightarrow>
      ('r fvalue stnode \<times> 'r fvalue stnode) res" where
  "check_relation_LHS_STRING = check_relation_LHS_text fvalue_from_string"

definition check_relation_LHS_UNPARSED ::
    "'p registrar \<Rightarrow> 'r fvalue_parsers \<Rightarrow> bool \<Rightarrow> (ftenum \<Rightarrow> bool) \<Rightarrow> string \<Rightarrow> 'r fvalue stnode \<Rightarrow>
      ('r fvalue stnode \<times> 'r fvalue stnode) res" where
  "check_relation_LHS_UNPARSED reg P allow_partial_value =
     check_relation_LHS_text (\<lambda>P ft s. fvalue_from_unparsed P ft s allow_partial_value) reg P"


text \<open>
  The first operand a range, with its entity and its range of bytes: only fields and functions have
  slices. \<open>range_text\<close> is the value of a text; a slice of one byte may be compared with a hexadecimal
  integer.
\<close>

definition range_text ::
    "'r fvalue_parsers \<Rightarrow> string \<Rightarrow> bool \<Rightarrow> drange_t \<Rightarrow> text_kind \<Rightarrow> string \<Rightarrow> 'r fvalue option res" where
  "range_text P relation_string allow_partial_value dr type2 s =
     (case type2 of
        KIND_STRING \<Rightarrow>
          Inr (if relation_string = ''matches'' then fvalue_from_string P FT_PCRE s
               else fvalue_from_string P FT_BYTES s)
      | KIND_UNPARSED \<Rightarrow>
          Inr (if relation_string = ''matches'' then fvalue_from_unparsed P FT_PCRE s False
               else if total_length dr = 1 \<and> length s = 4 \<and> take 2 s = ''0x'' then
                 (case fvalue_from_unparsed P FT_UINT8 s allow_partial_value of
                    None \<Rightarrow> None
                  | Some _ \<Rightarrow> fvalue_from_unparsed P FT_BYTES (drop 2 s) allow_partial_value)
               else fvalue_from_unparsed P FT_BYTES s allow_partial_value)
      | KIND_CHARCONST \<Rightarrow>
          if relation_string = ''matches'' then Inr (fvalue_from_unparsed P FT_PCRE s False)
          else dfilter_fvalue_from_charconst_string P FT_BYTES s allow_partial_value)"

definition sliced_entity ::
    "'p registrar \<Rightarrow> 'r fvalue_parsers \<Rightarrow> 'r fvalue stnode \<Rightarrow> 'r fvalue stnode res" where
  "sliced_entity reg P entity1 =
     (case entity1 of
        STTYPE_FIELD h \<Rightarrow>
          bindE (deref reg h) (\<lambda>hfinfo1.
          bindE (type_check (ftype_can_slice (hf_type hfinfo1))) (\<lambda>_. Inr entity1))
      | STTYPE_FUNCTION funcdef params \<Rightarrow>
          bindE (type_check (ftype_can_slice (retval_ftype funcdef))) (\<lambda>_.
            check_function reg P funcdef params)
      | _ \<Rightarrow> Inl TypeError)"

text \<open>The second operand of a range, which has been checked.\<close>

definition range_operand ::
    "'p registrar \<Rightarrow> 'r fvalue_parsers \<Rightarrow> string \<Rightarrow> bool \<Rightarrow> drange_t \<Rightarrow> 'r fvalue stnode \<Rightarrow>
      'r fvalue stnode res" where
  "range_operand reg P relation_string allow_partial_value dr st_arg2 =
     (let text = (\<lambda>type2 s.
            bindE (range_text P relation_string allow_partial_value dr type2 s) value_node)
      in case st_arg2 of
           STTYPE_FIELD h2 \<Rightarrow>
             bindE (deref reg h2) (\<lambda>hfinfo2.
               if is_bytes_type (hf_type hfinfo2) then Inr st_arg2
               else
                 bindE (type_check (ftype_can_slice (hf_type hfinfo2))) (\<lambda>_. Inr (convert_to_bytes st_arg2)))
         | STTYPE_STRING s \<Rightarrow> text KIND_STRING s
         | STTYPE_UNPARSED s \<Rightarrow> text KIND_UNPARSED s
         | STTYPE_CHARCONST s \<Rightarrow> text KIND_CHARCONST s
         | STTYPE_RANGE entity2 dr2 \<Rightarrow> bindE (check_drange_sanity dr2) (\<lambda>_. Inr st_arg2)
         | STTYPE_FUNCTION funcdef params \<Rightarrow>
             bindE (type_check (is_bytes_type (retval_ftype funcdef) \<or> ftype_can_slice (retval_ftype funcdef)))
               (\<lambda>_.
             bindE (check_function reg P funcdef params) (\<lambda>st_arg2'.
               Inr (if is_bytes_type (retval_ftype funcdef) then st_arg2' else convert_to_bytes st_arg2')))
         | STTYPE_SET _ \<Rightarrow> Inl TypeError
         | STTYPE_FVALUE _ \<Rightarrow> Inl Fault
         | STTYPE_TEST _ _ _ \<Rightarrow> Inl Fault)"

definition check_relation_LHS_RANGE ::
    "'p registrar \<Rightarrow> 'r fvalue_parsers \<Rightarrow> string \<Rightarrow> bool \<Rightarrow> 'r fvalue stnode \<Rightarrow> drange_t \<Rightarrow>
      'r fvalue stnode \<Rightarrow> ('r fvalue stnode \<times> 'r fvalue stnode) res" where
  "check_relation_LHS_RANGE reg P relation_string allow_partial_value entity1 dr st_arg2 =
     bindE (sliced_entity reg P entity1) (\<lambda>entity1'.
     bindE (check_drange_sanity dr) (\<lambda>_.
     bindE (range_operand reg P relation_string allow_partial_value dr st_arg2) (\<lambda>st_arg2'.
       Inr (STTYPE_RANGE entity1' dr, st_arg2'))))"

definition function_text ::
    "'r fvalue_parsers \<Rightarrow> string \<Rightarrow> bool \<Rightarrow> ftenum \<Rightarrow> text_kind \<Rightarrow> string \<Rightarrow> 'r fvalue option" where
  "function_text P relation_string allow_partial_value ftype1 type2 s =
     (if type2 = KIND_STRING then
        (if relation_string = ''matches'' then fvalue_from_string P FT_PCRE s
         else fvalue_from_string P ftype1 s)
      else if relation_string = ''matches'' then fvalue_from_unparsed P FT_PCRE s False
      else fvalue_from_unparsed P ftype1 s allow_partial_value)"

text \<open>The operands of a relation whose first operand is a function that has been checked.\<close>

definition function_operands ::
    "'p registrar \<Rightarrow> 'r fvalue_parsers \<Rightarrow> string \<Rightarrow> (ftenum \<Rightarrow> bool) \<Rightarrow> bool \<Rightarrow> ftenum \<Rightarrow> 'r fvalue stnode \<Rightarrow>
      'r fvalue stnode \<Rightarrow> ('r fvalue stnode \<times> 'r fvalue stnode) res" where
  "function_operands reg P relation_string can_func allow_partial_value ftype1 st_arg1 st_arg2 =
     (let text = (\<lambda>type2 s.
            bindE (value_node (function_text P relation_string allow_partial_value ftype1 type2 s))
              (\<lambda>new_st. Inr (st_arg1, new_st)))
      in case st_arg2 of
           STTYPE_FIELD h2 \<Rightarrow>
             bindE (deref reg h2) (\<lambda>hfinfo2.
             bindE (compatible_ftypes ftype1 (hf_type hfinfo2)) (\<lambda>compatible.
             bindE (type_check compatible) (\<lambda>_.
             bindE (type_check (can_func (hf_type hfinfo2))) (\<lambda>_. Inr (st_arg1, st_arg2)))))
         | STTYPE_STRING s \<Rightarrow> text KIND_STRING s
         | STTYPE_UNPARSED s \<Rightarrow> text KIND_UNPARSED s
         | STTYPE_CHARCONST s \<Rightarrow> text KIND_CHARCONST s
         | STTYPE_RANGE entity2 dr2 \<Rightarrow>
             bindE (check_drange_sanity dr2) (\<lambda>_.
               if is_bytes_type ftype1 then Inr (st_arg1, st_arg2)
               else
                 bindE (type_check (ftype_can_slice ftype1)) (\<lambda>_. Inr (convert_to_bytes st_arg1, st_arg2)))
         | STTYPE_FUNCTION funcdef2 params2 \<Rightarrow>
             bindE (compatible_ftypes ftype1 (retval_ftype funcdef2)) (\<lambda>compatible.
             bindE (type_check compatible) (\<lambda>_.
             bindE (type_check (can_func (retval_ftype funcdef2))) (\<lambda>_.
             bindE (check_function reg P funcdef2 params2) (\<lambda>st_arg2'. Inr (st_arg1, st_arg2')))))
         | STTYPE_SET _ \<Rightarrow> Inl TypeError
         | STTYPE_FVALUE _ \<Rightarrow> Inl Fault
         | STTYPE_TEST _ _ _ \<Rightarrow> Inl Fault)"

definition check_relation_LHS_FUNCTION ::
    "'p registrar \<Rightarrow> 'r fvalue_parsers \<Rightarrow> string \<Rightarrow> (ftenum \<Rightarrow> bool) \<Rightarrow> bool \<Rightarrow> 'r fvalue df_func_def \<Rightarrow>
      'r fvalue stnode list \<Rightarrow> 'r fvalue stnode \<Rightarrow> ('r fvalue stnode \<times> 'r fvalue stnode) res" where
  "check_relation_LHS_FUNCTION reg P relation_string can_func allow_partial_value funcdef params st_arg2 =
     bindE (check_function reg P funcdef params) (\<lambda>st_arg1.
     bindE (type_check (can_func (retval_ftype funcdef))) (\<lambda>_.
       function_operands reg P relation_string can_func allow_partial_value (retval_ftype funcdef) st_arg1 st_arg2))"

definition check_relation ::
    "'p registrar \<Rightarrow> 'r fvalue_parsers \<Rightarrow> string \<Rightarrow> bool \<Rightarrow> (ftenum \<Rightarrow> bool) \<Rightarrow> 'r fvalue stnode \<Rightarrow>
      'r fvalue stnode \<Rightarrow> ('r fvalue stnode \<times> 'r fvalue stnode) res" where
  "check_relation reg P relation_string allow_partial_value can_func st_arg1 st_arg2 =
     bindE (case st_arg2 of
              STTYPE_FIELD h2 \<Rightarrow>
                bindE (deref reg h2) (\<lambda>hfinfo. type_check (hf_type hfinfo \<noteq> FT_PROTOCOL))
            | _ \<Rightarrow> Inr ()) (\<lambda>_.
       case st_arg1 of
         STTYPE_FIELD h \<Rightarrow>
           check_relation_LHS_FIELD reg P relation_string can_func allow_partial_value True h st_arg2
       | STTYPE_STRING s \<Rightarrow> check_relation_LHS_STRING reg P can_func s st_arg2
       | STTYPE_RANGE entity1 dr \<Rightarrow>
           check_relation_LHS_RANGE reg P relation_string allow_partial_value entity1 dr st_arg2
       | STTYPE_UNPARSED s \<Rightarrow> check_relation_LHS_UNPARSED reg P allow_partial_value can_func s st_arg2
       | STTYPE_CHARCONST s \<Rightarrow> check_relation_LHS_UNPARSED reg P allow_partial_value can_func s st_arg2
       | STTYPE_FUNCTION funcdef params \<Rightarrow>
           check_relation_LHS_FUNCTION reg P relation_string can_func allow_partial_value funcdef params st_arg2
       | _ \<Rightarrow> Inl Fault)"

section \<open>Tests\<close>

definition check_exists_test :: "'v stnode \<Rightarrow> unit res" where
  "check_exists_test st_arg1 =
     (case st_arg1 of
        STTYPE_FIELD _ \<Rightarrow> Inr ()
      | STTYPE_STRING _ \<Rightarrow> Inl TypeError
      | STTYPE_CHARCONST _ \<Rightarrow> Inl TypeError
      | STTYPE_UNPARSED _ \<Rightarrow> Inl TypeError
      | STTYPE_RANGE _ _ \<Rightarrow> Inl TypeError
      | STTYPE_FUNCTION _ _ \<Rightarrow> Inl TypeError
      | _ \<Rightarrow> Inl Fault)"

text \<open>The arguments of the calls of \<open>check_relation\<close>: the name, whether a part of a value is enough, and
  what the type has to be able to do.\<close>

fun relation_args :: "test_op \<Rightarrow> (string \<times> bool \<times> (ftenum \<Rightarrow> bool)) option" where
  "relation_args TEST_OP_EQ = Some (''=='', False, ftype_can_eq)"
| "relation_args TEST_OP_NE = Some (''!='', False, ftype_can_ne)"
| "relation_args TEST_OP_GT = Some (''>'', False, ftype_can_gt)"
| "relation_args TEST_OP_GE = Some (''>='', False, ftype_can_ge)"
| "relation_args TEST_OP_LT = Some (''<'', False, ftype_can_lt)"
| "relation_args TEST_OP_LE = Some (''<='', False, ftype_can_le)"
| "relation_args TEST_OP_BITWISE_AND = Some (''&'', False, ftype_can_bitwise_and)"
| "relation_args TEST_OP_CONTAINS = Some (''contains'', True, ftype_can_contains)"
| "relation_args TEST_OP_MATCHES = Some (''matches'', True, ftype_can_matches)"
| "relation_args TEST_OP_IN = Some (''in'', False, ftype_can_eq)"
| "relation_args _ = None"

text \<open>
  The flag \<open>inside_brackets\<close> of the nodes is a function of the way from the root: False is the first
  operand. Nested conjunctions and disjunctions without brackets get a hint.
\<close>

type_synonym brackets = "bool list \<Rightarrow> bool"

definition hint :: string where
  "hint =
     ''suggest parentheses around '' @ [CHR 0x27] @ ''&&'' @ [CHR 0x27] @ '' within '' @ [CHR 0x27] @ ''||'' @
     [CHR 0x27]"

definition bracket_hint ::
    "brackets \<Rightarrow> bool list \<Rightarrow> test_op \<Rightarrow> 'v stnode \<Rightarrow> string list \<Rightarrow> string list" where
  "bracket_hint inside_brackets pos st_op st_arg deprecated =
     (case st_arg of
        STTYPE_TEST st_arg_op _ _ \<Rightarrow>
          if (st_arg_op = TEST_OP_AND \<or> st_arg_op = TEST_OP_OR) \<and> st_op \<noteq> st_arg_op \<and> \<not> inside_brackets pos
          then deprecated @ [hint] else deprecated
      | _ \<Rightarrow> deprecated)"

text \<open>\<open>semcheck\<close> with \<open>check_test\<close>.\<close>

fun semcheck ::
    "'p registrar \<Rightarrow> 'r fvalue_parsers \<Rightarrow> brackets \<Rightarrow> bool list \<Rightarrow> 'r fvalue stnode \<Rightarrow> string list \<Rightarrow>
      ('r fvalue stnode \<times> string list) res" where
  "semcheck reg P inside_brackets pos (STTYPE_TEST st_op st_arg1 st_arg2) deprecated =
     (if st_op = TEST_OP_EXISTS then
        bindE (check_exists_test st_arg1) (\<lambda>_. Inr (STTYPE_TEST st_op st_arg1 st_arg2, deprecated))
      else if st_op = TEST_OP_NOT then
        bindE (semcheck reg P inside_brackets (pos @ [False]) st_arg1 deprecated) (\<lambda>(a, deprecated1).
          Inr (STTYPE_TEST st_op a st_arg2, deprecated1))
      else
        (case st_arg2 of
           None \<Rightarrow> Inl Fault
         | Some arg2 \<Rightarrow>
             if st_op = TEST_OP_AND \<or> st_op = TEST_OP_OR then
               bindE (semcheck reg P inside_brackets (pos @ [False]) st_arg1
                        (bracket_hint inside_brackets (pos @ [True]) st_op arg2
                           (bracket_hint inside_brackets (pos @ [False]) st_op st_arg1 deprecated)))
                 (\<lambda>(a, deprecated1).
               bindE (semcheck reg P inside_brackets (pos @ [True]) arg2 deprecated1) (\<lambda>(b, deprecated2).
                 Inr (STTYPE_TEST st_op a (Some b), deprecated2)))
             else
               (case relation_args st_op of
                  None \<Rightarrow> Inl Fault
                | Some (relation_string, allow_partial_value, can_func) \<Rightarrow>
                    bindE (check_relation reg P relation_string allow_partial_value can_func st_arg1 arg2)
                      (\<lambda>(a, b). Inr (STTYPE_TEST st_op a (Some b), deprecated)))))"
| "semcheck reg P inside_brackets pos _ deprecated = Inl Fault"

text \<open>The result is None if the filter is rejected.\<close>

definition dfw_semcheck ::
    "'p registrar \<Rightarrow> 'r fvalue_parsers \<Rightarrow> brackets \<Rightarrow> 'r fvalue stnode \<Rightarrow> string list \<Rightarrow>
      ('r fvalue stnode \<times> string list) option res" where
  "dfw_semcheck reg P inside_brackets st_root deprecated =
     (case semcheck reg P inside_brackets [] st_root deprecated of
        Inr r \<Rightarrow> Inr (Some r)
      | Inl TypeError \<Rightarrow> Inr None
      | Inl e \<Rightarrow> Inl e)"

section \<open>Compiling a parsed filter\<close>

text \<open>
  \<open>dfilter_compile\<close> from the end of the parse: \<open>st_root\<close> is the tree, None for an empty filter. The result
  is None if the filter is rejected, and otherwise \<open>*dfp\<close>, None being the NULL pointer, with the hints.
\<close>

definition dfilter_compile_parsed ::
    "'p registrar \<Rightarrow> 'r fvalue_parsers \<Rightarrow> brackets \<Rightarrow> 'r fvalue stnode option \<Rightarrow> string list \<Rightarrow>
      ('r fvalue dfilter \<times> string list) option option res" where
  "dfilter_compile_parsed reg P inside_brackets st_root deprecated =
     (case st_root of
        None \<Rightarrow> Inr (Some None)
      | Some root \<Rightarrow>
          bindE (dfw_semcheck reg P inside_brackets root deprecated) (\<lambda>r.
            case r of
              None \<Rightarrow> Inr None
            | Some (checked, deprecated') \<Rightarrow>
                bindE (dfilter_compile_tree reg checked) (\<lambda>df. Inr (Some (Some (df, deprecated'))))))"

end
