(* ===== verification/SemcheckTypes.thy ===== *)
theory SemcheckTypes
  imports Semcheck DfilterProps FtypeProps
begin

text \<open>
  A type system for the values that a display filter compares: the class of a value is the member of the
  union it is in, and the class of a field type is that of its values. The laws here say which comparisons
  cannot fail; they do not mention the semantic check.
\<close>

section \<open>Classes\<close>

datatype vclass =
    BYTES_CLASS | STRING_CLASS | INT32_CLASS | INT64_CLASS | BOOLEAN_CLASS | PCRE_CLASS | OTHER_CLASS

fun value_class :: "'r fvalue \<Rightarrow> vclass" where
  "value_class (BYTES _) = BYTES_CLASS"
| "value_class (UINTEGER _ _) = INT32_CLASS"
| "value_class (SINTEGER _ _) = INT32_CLASS"
| "value_class (UINTEGER64 _ _) = INT64_CLASS"
| "value_class (SINTEGER64 _ _) = INT64_CLASS"
| "value_class (BOOLEAN _) = BOOLEAN_CLASS"
| "value_class (STRING _) = STRING_CLASS"
| "value_class (PCRE _) = PCRE_CLASS"
| "value_class (OTHER _ _) = OTHER_CLASS"

definition ftype_class :: "ftenum \<Rightarrow> vclass" where
  "ftype_class ft =
     (if ft \<in> {FT_ETHER, FT_BYTES, FT_UINT_BYTES, FT_OID, FT_AX25, FT_VINES, FT_FCWWN, FT_REL_OID, FT_SYSTEM_ID}
      then BYTES_CLASS
      else if ft \<in> {FT_STRING, FT_STRINGZ, FT_UINT_STRING, FT_STRINGZPAD} then STRING_CLASS
      else if ft \<in> {FT_CHAR, FT_UINT8, FT_UINT16, FT_UINT24, FT_UINT32, FT_INT8, FT_INT16, FT_INT24, FT_INT32,
                   FT_IPXNET, FT_FRAMENUM} then INT32_CLASS
      else if ft \<in> {FT_UINT40, FT_UINT48, FT_UINT56, FT_UINT64, FT_INT40, FT_INT48, FT_INT56, FT_INT64,
                   FT_EUI64} then INT64_CLASS
      else if ft = FT_BOOLEAN then BOOLEAN_CLASS
      else if ft = FT_PCRE then PCRE_CLASS
      else OTHER_CLASS)"

text \<open>The comparisons that the functions of the first class do without reading a member that is not there.\<close>

definition can_compare :: "any_op \<Rightarrow> vclass \<Rightarrow> vclass \<Rightarrow> bool" where
  "can_compare op a b =
     (case a of
        BYTES_CLASS \<Rightarrow> b = BYTES_CLASS \<or> op = ANY_MATCHES
      | STRING_CLASS \<Rightarrow> b = STRING_CLASS \<and> op \<noteq> ANY_BITWISE_AND \<or> op = ANY_MATCHES
      | INT32_CLASS \<Rightarrow> b = INT32_CLASS \<and> op \<noteq> ANY_CONTAINS \<and> op \<noteq> ANY_MATCHES
      | INT64_CLASS \<Rightarrow> (b = INT64_CLASS \<or> b = BOOLEAN_CLASS) \<and> op \<noteq> ANY_CONTAINS \<and> op \<noteq> ANY_MATCHES
      | BOOLEAN_CLASS \<Rightarrow> (b = INT64_CLASS \<or> b = BOOLEAN_CLASS) \<and> (op = ANY_EQ \<or> op = ANY_NE)
      | _ \<Rightarrow> False)"

lemma fvalue_cmp_class:
  assumes "can_compare op (value_class a) (value_class b)"
  shows "\<exists>t. fvalue_cmp re op a b = Inr t"
  using assms
  by (cases a; cases b; cases op)
    (auto simp: can_compare_def fvalue_cmp_def bytes_cmp_def string_cmp_op_def int_member_def
      int64_member_def uinteger_cmp_def sinteger_cmp_def boolean_cmp_def)

lemma ftype_class_bytes: "List.member byte_types ft \<Longrightarrow> ftype_class ft = BYTES_CLASS \<or> ftype_class ft = OTHER_CLASS"
  by (cases ft) (simp_all add: byte_types_def ftype_class_def)

lemma ftype_class_small_int:
  "List.member small_int_types ft \<Longrightarrow> ftype_class ft = INT32_CLASS \<or> ftype_class ft = BOOLEAN_CLASS"
  by (cases ft) (simp_all add: small_int_types_def ftype_class_def)

lemma ftype_class_string: "List.member string_types ft \<Longrightarrow> ftype_class ft = STRING_CLASS"
  by (cases ft) (simp_all add: string_types_def ftype_class_def)

text \<open>
  Compatible types have one class, except that a boolean is compatible with the small integers although
  it is stored as a 64-bit one.
\<close>

definition bool_mix :: "vclass \<Rightarrow> vclass \<Rightarrow> bool" where
  "bool_mix a b = (a = BOOLEAN_CLASS \<and> b = INT32_CLASS \<or> a = INT32_CLASS \<and> b = BOOLEAN_CLASS)"

lemma compatible_class:
  assumes "compatible_ftypes a b = Inr True" "ftype_class a \<noteq> OTHER_CLASS" "ftype_class b \<noteq> OTHER_CLASS"
    "\<not> bool_mix (ftype_class a) (ftype_class b)"
  shows "ftype_class a = ftype_class b"
  using assms ftype_class_bytes [of a] ftype_class_bytes [of b] ftype_class_small_int [of a]
    ftype_class_small_int [of b] ftype_class_string [of a] ftype_class_string [of b]
  by (auto simp: compatible_ftypes_def bool_mix_def split: if_splits)

lemma compatible_returns:
  assumes "a \<noteq> FT_PCRE"
  shows "\<exists>t. compatible_ftypes a b = Inr t"
  using assms
  by (cases a) (simp_all add: compatible_ftypes_def byte_types_def small_int_types_def string_types_def)

section \<open>What a type can do\<close>

definition can_for :: "any_op \<Rightarrow> ftenum \<Rightarrow> bool" where
  "can_for op ft = List.member (cmp_table (ftype_lookup ft)) op"

lemma ftype_can_for:
  "ftype_can_eq = can_for ANY_EQ" "ftype_can_ne = can_for ANY_NE" "ftype_can_gt = can_for ANY_GT"
  "ftype_can_ge = can_for ANY_GE" "ftype_can_lt = can_for ANY_LT" "ftype_can_le = can_for ANY_LE"
  "ftype_can_bitwise_and = can_for ANY_BITWISE_AND" "ftype_can_contains = can_for ANY_CONTAINS"
  "ftype_can_matches = can_for ANY_MATCHES"
  by (simp_all add: fun_eq_iff can_for_def ftype_can_eq_def ftype_can_ne_def ftype_can_gt_def
      ftype_can_ge_def ftype_can_lt_def ftype_can_le_def ftype_can_bitwise_and_def
      ftype_can_contains_def ftype_can_matches_def)

lemmas ftype_tables = order_ops_def bytes_type_def uint_bytes_type_def ax25_type_def vines_type_def
  ether_type_def oid_type_def rel_oid_type_def system_id_type_def fcwwn_type_def char_type_def
  uint8_type_def uint16_type_def uint24_type_def uint32_type_def uint40_type_def uint48_type_def
  uint56_type_def uint64_type_def int8_type_def int16_type_def int24_type_def int32_type_def
  int40_type_def int48_type_def int56_type_def int64_type_def boolean_type_def ipxnet_type_def
  framenum_type_def eui64_type_def string_type_def stringz_type_def uint_string_type_def
  stringzpad_type_def pcre_type_def

text \<open>A type that can do an operation does it on values of its own class.\<close>

lemma can_comparable:
  assumes "can_for op ft" "ftype_class ft \<noteq> OTHER_CLASS"
  shows "can_compare op (ftype_class ft) (ftype_class ft)"
  using assms
  by (cases ft) (auto simp: can_for_def ftype_class_def can_compare_def ftype_tables)

lemma matches_comparable:
  assumes "can_for ANY_MATCHES ft" "ftype_class ft \<noteq> OTHER_CLASS"
  shows "can_compare ANY_MATCHES (ftype_class ft) c"
  using assms
  by (cases ft) (auto simp: can_for_def ftype_class_def can_compare_def ftype_tables)

text \<open>The text of a boolean field becomes a 64-bit integer.\<close>

lemma boolean_comparable:
  assumes "can_for op FT_BOOLEAN"
  shows "can_compare op BOOLEAN_CLASS INT64_CLASS" "can_compare op INT64_CLASS BOOLEAN_CLASS"
  using assms by (auto simp: can_for_def can_compare_def ftype_tables)

lemma bytes_comparable: "can_compare op BYTES_CLASS BYTES_CLASS"
  by (simp add: can_compare_def)

lemma slice_class:
  assumes "ftype_can_slice ft" "ftype_class ft \<noteq> OTHER_CLASS"
  shows "ftype_class ft = BYTES_CLASS \<or> ftype_class ft = STRING_CLASS"
  using assms
  by (cases ft) (auto simp: ftype_can_slice_def ftype_class_def ftype_tables)

lemma bytes_ftype_class:
  assumes "is_bytes_type ft" "ftype_class ft \<noteq> OTHER_CLASS"
  shows "ftype_class ft = BYTES_CLASS"
  using assms by (cases ft) (simp_all add: is_bytes_type_def ftype_class_def)

section \<open>Comparing lists of values\<close>

lemma any_inner_returns:
  assumes "\<And>b. b \<in> set ys \<Longrightarrow> \<exists>t. cmp x b = Inr t"
  shows "\<exists>t. any_inner cmp x ys = Inr t"
  using assms
proof (induction ys)
  case (Cons y ys)
  then obtain t where "cmp x y = Inr t" by auto
  then show ?case using Cons by (cases t) auto
qed auto

lemma any_test_returns:
  assumes "\<And>a b. a \<in> set xs \<Longrightarrow> b \<in> set ys \<Longrightarrow> \<exists>t. cmp a b = Inr t"
  shows "\<exists>t. any_test cmp xs ys = Inr t"
  using assms
proof (induction xs)
  case (Cons x xs)
  then obtain t where "any_inner cmp x ys = Inr t" using any_inner_returns [of ys cmp x] by auto
  then show ?case using Cons by (cases t) auto
qed auto

lemma any_test_class:
  assumes "can_compare op ca cb" "\<forall>a \<in> set xs. value_class a = ca" "\<forall>b \<in> set ys. value_class b = cb"
  shows "\<exists>t. any_test (op_cmp (fvalue_ops re) op) xs ys = Inr t"
  using assms fvalue_cmp_class [of op _ _ re] by (intro any_test_returns) (simp add: fvalue_ops_def)

lemma in_range_class:
  assumes "can_compare ANY_GE c (value_class low)" "can_compare ANY_LE c (value_class high)"
    "\<forall>a \<in> set xs. value_class a = c"
  shows "\<exists>t. any_in_range (fvalue_ops re) xs [low] [high] = Inr t"
proof -
  have "\<exists>t. in_range_loop (fvalue_ops re) low high xs = Inr t"
    using assms(3)
  proof (induction xs)
    case (Cons x xs)
    obtain t1 where t1: "fvalue_cmp re ANY_GE x low = Inr t1"
      using fvalue_cmp_class [of ANY_GE x low re] assms(1) Cons.prems by auto
    obtain t2 where t2: "fvalue_cmp re ANY_LE x high = Inr t2"
      using fvalue_cmp_class [of ANY_LE x high re] assms(2) Cons.prems by auto
    show ?case using Cons t1 t2 by (cases t1; cases t2) (auto simp: fvalue_ops_def)
  qed auto
  then show ?thesis by (simp add: any_in_range_def)
qed

end
