(* ===== verification/SemcheckProps.thy ===== *)
theory SemcheckProps
  imports SemcheckTypes
begin

text \<open>
  The semantic check is sound: it ends, throwing \<open>TypeError\<close> or leaving a tree in which every comparison is
  between classes that compare. The trees it gets are those of the grammar; what it lets through
  although the machine aborts on it is excluded by \<open>sound_rel\<close> and \<open>sound_elem\<close>.
\<close>

section \<open>Results of checks\<close>

definition checks :: "'a res \<Rightarrow> ('a \<Rightarrow> bool) \<Rightarrow> bool" where
  "checks m Q = (m = Inl TypeError \<or> (\<exists>x. m = Inr x \<and> Q x))"

lemma checks_simps [simp]:
  "checks (Inr x) Q = Q x"
  "checks (Inl TypeError) Q"
  by (auto simp: checks_def)

lemma checks_bindI [intro]:
  assumes "checks m Q" "\<And>x. Q x \<Longrightarrow> checks (f x) R"
  shows "checks (bindE m f) R"
proof (cases m)
  case (Inl e)
  then show ?thesis using assms(1) by (simp add: checks_def)
next
  case (Inr x)
  then have "Q x" using assms(1) by (simp add: checks_def)
  then show ?thesis using assms(2) Inr by simp
qed

lemma checks_bind_Inr: "m = Inr x \<Longrightarrow> checks (f x) R \<Longrightarrow> checks (bindE m f) R"
  by simp

lemma checks_type_check:
  assumes "b \<Longrightarrow> checks (f ()) R"
  shows "checks (bindE (type_check b) f) R"
  using assms by (auto simp: checks_def type_check_def)

lemma checks_mono: "checks m Q \<Longrightarrow> (\<And>x. Q x \<Longrightarrow> R x) \<Longrightarrow> checks m R"
  by (auto simp: checks_def)

lemma check_node_returns:
  "ending n \<noteq> DRANGE_NODE_END_T_UNINITIALIZED \<Longrightarrow> \<exists>e. check_drange_node_sanity n err = Inr e"
  by (cases "ending n")
    (simp_all add: check_drange_node_sanity_def drange_node_get_ending_def drange_node_get_length_def
      drange_node_get_start_offset_def drange_node_get_end_offset_def)

lemma check_nodes_returns:
  "\<forall>n \<in> set ns. ending n \<noteq> DRANGE_NODE_END_T_UNINITIALIZED \<Longrightarrow> \<exists>e. check_nodes ns err = Inr e"
proof (induction ns arbitrary: err)
  case (Cons n ns)
  then show ?case using check_node_returns [of n err] by auto
qed simp

text \<open>The nodes of a range of the grammar have an ending; a tame one has no slice that aborts.\<close>

definition ended :: "drange_t \<Rightarrow> bool" where
  "ended d = (\<forall>n \<in> set (range_list d). ending n \<noteq> DRANGE_NODE_END_T_UNINITIALIZED)"

definition tame :: "drange_t \<Rightarrow> bool" where
  "tame d = (\<forall>n \<in> set (range_list d). \<not> straddles n \<and> (\<forall>len < 0x80000000. \<not> overflows len n))"

definition sane :: "drange_t \<Rightarrow> bool" where
  "sane d = (\<forall>n \<in> set (range_list d). sane_node n)"

lemma checks_sanity:
  assumes "ended d"
  shows "checks (check_drange_sanity d) (\<lambda>_. sane d)"
proof -
  obtain e where e: "check_nodes (range_list d) False = Inr e"
    using check_nodes_returns [of "range_list d" False] assms unfolding ended_def by blast
  show ?thesis
  proof (cases e)
    case False
    then have ok: "check_drange_sanity d = Inr ()" using e by (simp add: check_drange_sanity_def)
    then have "sane d" unfolding sane_def check_drange_sanity_iff by simp
    then show ?thesis using ok by simp
  qed (use e in \<open>simp add: check_drange_sanity_def\<close>)
qed

section \<open>Fields, parsers and functions\<close>

definition class_of_field :: "'p registrar \<Rightarrow> nat \<Rightarrow> vclass" where
  "class_of_field reg h = (case deref reg h of Inr hf \<Rightarrow> ftype_class (hf_type hf) | Inl _ \<Rightarrow> OTHER_CLASS)"

text \<open>
  What the registration of a field checks of its table: it is of the type that the flags tell, has a last
  entry, and is a 64-bit one exactly for the 64-bit integers.
\<close>

definition terminated :: "'w::len value_string list \<Rightarrow> bool" where
  "terminated vs = (\<exists>e \<in> set vs. strptr e = None)"

definition strings_fit :: "header_field_info \<Rightarrow> bool" where
  "strings_fit hf =
     (has_val_strings (hf_type hf) \<longrightarrow>
      (case hf_strings hf of
         NO_STRINGS \<Rightarrow> True
       | TRUE_FALSE_STRING _ _ \<Rightarrow> hf_type hf = FT_BOOLEAN
       | VALUE_STRING vs \<Rightarrow>
           ftype_class (hf_type hf) = INT32_CLASS \<and> terminated vs \<and>
           hf_display hf AND BASE_VAL64_STRING = 0 \<and> hf_display hf AND BASE_EXT_STRING = 0
       | VALUE_STRING_EXT e \<Rightarrow>
           ftype_class (hf_type hf) = INT32_CLASS \<and> terminated (vs_p e) \<and>
           hf_display hf AND BASE_VAL64_STRING = 0 \<and> hf_display hf AND BASE_EXT_STRING \<noteq> 0
       | VAL64_STRING vs \<Rightarrow>
           ftype_class (hf_type hf) = INT64_CLASS \<and> terminated vs \<and> hf_display hf AND BASE_VAL64_STRING \<noteq> 0
       | PROTOCOL_T _ \<Rightarrow> False
       | OTHER_STRINGS \<Rightarrow>
           hf_type hf \<noteq> FT_BOOLEAN \<and> (hf_display hf AND BASE_RANGE_STRING \<noteq> 0 \<or> hf_display hf = BASE_CUSTOM)))"

text \<open>The fields: their tables fit, and those of one name have types of one class.\<close>

definition fields_fit :: "'p registrar \<Rightarrow> (string \<Rightarrow> nat list) \<Rightarrow> bool" where
  "fields_fit reg byname =
     (names reg byname \<and>
      (\<forall>s. \<forall>p \<in> set (byname s). \<forall>hf. deref reg p = Inr hf \<longrightarrow> strings_fit hf) \<and>
      (\<forall>s. \<forall>p \<in> set (byname s). \<forall>q \<in> set (byname s). class_of_field reg p = class_of_field reg q))"

definition parsers_ok :: "'r fvalue_parsers \<Rightarrow> bool" where
  "parsers_ok P =
     ((\<forall>ft s b v. val_from_unparsed P ft s b = Some v \<longrightarrow> ftype_class ft \<noteq> OTHER_CLASS \<longrightarrow>
         value_class v = ftype_class ft) \<and>
      (\<forall>ft s v. val_from_string P ft s = Some v \<longrightarrow> ftype_class ft \<noteq> OTHER_CLASS \<longrightarrow>
         value_class v = ftype_class ft))"

lemma from_text_class:
  assumes "parsers_ok P" "ftype_class ft \<noteq> OTHER_CLASS"
  shows "fvalue_from_unparsed P ft s b = Some v \<Longrightarrow> value_class v = ftype_class ft"
    and "fvalue_from_string P ft s = Some v \<Longrightarrow> value_class v = ftype_class ft"
  using assms by (auto simp: parsers_ok_def fvalue_from_unparsed_def fvalue_from_string_def split: if_splits)

lemma fields_fitD:
  assumes "fields_fit reg byname" "registered byname h"
  obtains s hf where "names reg byname" "h \<in> set (byname s)" "deref reg h = Inr hf" "strings_fit hf"
    "class_of_field reg h = ftype_class (hf_type hf)"
proof -
  obtain s where s: "h \<in> set (byname s)" using assms(2) by (auto simp: registered_def)
  have n: "names reg byname" using assms(1) by (simp add: fields_fit_def)
  obtain hf where "deref reg h = Inr hf" using namesD(3) [OF n s] by blast
  then show ?thesis using that [OF n s] s assms(1) by (auto simp: fields_fit_def class_of_field_def)
qed

text \<open>The walk back to a field that takes a text ends at a field of the same name.\<close>

lemma skip_dll:
  assumes "dll reg prev (xs @ p # ys) nxt" "deref reg p = Inr h" "prev = -1"
    "\<And>q. q \<in> set xs \<Longrightarrow> q \<notin> cleared reg"
  shows "\<exists>q h'. q \<in> set (xs @ [p]) \<and> deref reg q = Inr h' \<and> skip_incompatible reg k h = Some (Inr h')"
  using assms
proof (induction xs arbitrary: p ys h rule: rev_induct)
  case Nil
  then show ?case by (auto simp: linked_node_def skip_incompatible.simps)
next
  case (snoc q xs)
  obtain hq where hq: "deref reg q = Inr hq"
    using snoc.prems(1) by (auto simp: dll_append linked_node_def)
  have "dll reg prev (xs @ q # p # ys) nxt" using snoc.prems(1) by simp
  from snoc.IH [OF this hq snoc.prems(3)] snoc.prems(4) obtain q' h' where q': "q' \<in> set (xs @ [q])" "deref reg q' = Inr h'"
      "skip_incompatible reg k hq = Some (Inr h')"
    by auto
  have prev: "same_name_prev_id h = int q"
    using snoc.prems by (auto simp: dll_append linked_node_def)
  have step: "skip_incompatible reg k h =
      (if incompatible_text k (hf_type h) then skip_incompatible reg k hq else Some (Inr h))"
    using get_nth_deref [OF hq] snoc.prems(4) [of q] prev skip_incompatible.simps [of reg k h] by simp
  show ?case
  proof (cases "incompatible_text k (hf_type h)")
    case True
    then show ?thesis using step q' by auto
  next
    case False
    then show ?thesis using step snoc.prems(2) by auto
  qed
qed

lemma skip_ok:
  assumes "fields_fit reg byname" "registered byname h" "deref reg h = Inr hf"
  obtains hf' where "returned (skip_incompatible reg k hf) = Inr hf'" "strings_fit hf'"
    "ftype_class (hf_type hf') = class_of_field reg h"
proof -
  obtain s where s: "names reg byname" "h \<in> set (byname s)" using assms(1,2) by (metis fields_fitD)
  obtain xs ys where ids: "byname s = xs @ h # ys" using split_list [OF s(2)] by blast
  have "dll reg (-1) (xs @ h # ys) None" using namesD(2) [OF s(1), of s] ids by simp
  moreover have "q \<notin> cleared reg" if "q \<in> set xs" for q
    using namesD(6) [OF s(1), of q s] ids that by simp
  ultimately obtain q hf' where q: "q \<in> set (byname s)"
      "deref reg q = Inr hf'" "skip_incompatible reg k hf = Some (Inr hf')"
    using skip_dll [of reg "-1" xs h ys None hf k] assms(3) ids by auto
  have "ftype_class (hf_type hf') = class_of_field reg q" using q(2) by (simp add: class_of_field_def)
  also have "\<dots> = class_of_field reg h" using assms(1) q(1) s(2) unfolding fields_fit_def by blast
  finally have "ftype_class (hf_type hf') = class_of_field reg h" .
  moreover have "strings_fit hf'" using assms(1) q(1,2) unfolding fields_fit_def by blast
  ultimately show ?thesis using that q(3) by (simp add: returned_def)
qed

section \<open>Values from the tables\<close>

lemma value_of_string_returns: "terminated vs \<Longrightarrow> \<exists>r. value_of_string s vs = Inr r"
  by (induction vs) (auto simp: terminated_def split: option.splits)

definition fits_text :: "vclass \<Rightarrow> 'r fvalue option \<Rightarrow> bool" where
  "fits_text c v =
     (\<forall>fv. v = Some fv \<longrightarrow> value_class fv = c \<or> c = BOOLEAN_CLASS \<and> value_class fv = INT64_CLASS)"

lemma val_string_ok:
  fixes s :: string
  assumes "strings_fit hf"
  shows "\<exists>r :: 'r fvalue option. mk_fvalue_from_val_string hf s = Inr r \<and>
           fits_text (ftype_class (hf_type hf)) r"
proof (cases "has_val_strings (hf_type hf)")
  case True
  show ?thesis
  proof (cases "hf_type hf = FT_BOOLEAN")
    case bool: True
    then show ?thesis
      using assms True
      by (auto simp: strings_fit_def mk_fvalue_from_val_string_def fits_text_def mk_uint64_fvalue_def
          ftype_class_def split: hf_strings.splits)
  next
    case False
    note hyps = assms [unfolded strings_fit_def] True False
    show ?thesis
    proof (cases "hf_strings hf")
      case (VALUE_STRING vs)
      then obtain r where "value_of_string s vs = Inr r"
        using hyps value_of_string_returns [of vs s] by auto
      then show ?thesis
        using hyps VALUE_STRING
        by (cases r) (auto simp: mk_fvalue_from_val_string_def fits_text_def mk_uint32_fvalue_def)
    next
      case (VALUE_STRING_EXT e)
      then obtain r where "value_of_string s (vs_p e) = Inr r"
        using hyps value_of_string_returns [of "vs_p e" s] by auto
      then show ?thesis
        using hyps VALUE_STRING_EXT
        by (cases r) (auto simp: mk_fvalue_from_val_string_def fits_text_def mk_uint32_fvalue_def)
    next
      case (VAL64_STRING vs)
      then obtain r where "value_of_string s vs = Inr r"
        using hyps value_of_string_returns [of vs s] by auto
      then show ?thesis
        using hyps VAL64_STRING
        by (cases r) (auto simp: mk_fvalue_from_val_string_def fits_text_def mk_uint64_fvalue_def)
    qed (use hyps in \<open>auto simp: mk_fvalue_from_val_string_def fits_text_def BASE_CUSTOM_def
          BASE_VAL64_STRING_def\<close>)
  qed
qed (simp add: mk_fvalue_from_val_string_def fits_text_def)

end
