(* ===== verification/SemcheckSound.thy ===== *)
theory SemcheckSound
  imports SemcheckProps
begin

text \<open>
  Every check of the semantic check, operand by operand, leaves operands of comparable classes; so does
  the whole check on the trees of the grammar.
\<close>

section \<open>Trees of the grammar\<close>

fun range_body :: "'v stnode \<Rightarrow> bool" where
  "range_body (STTYPE_FIELD _) = True"
| "range_body (STTYPE_STRING _) = True"
| "range_body (STTYPE_RANGE _ _) = True"
| "range_body _ = False"

fun parsed_entity :: "(nat \<Rightarrow> bool) \<Rightarrow> 'v df_func_def list \<Rightarrow> 'v stnode \<Rightarrow> bool" where
  "parsed_entity known funcs (STTYPE_FIELD h) = known h"
| "parsed_entity known funcs (STTYPE_STRING s) = True"
| "parsed_entity known funcs (STTYPE_CHARCONST s) = True"
| "parsed_entity known funcs (STTYPE_UNPARSED s) = True"
| "parsed_entity known funcs (STTYPE_RANGE e d) = (ended d \<and> range_body e \<and> parsed_entity known funcs e)"
| "parsed_entity known funcs (STTYPE_FUNCTION f ps) =
     (f \<in> set funcs \<and> (\<forall>p \<in> set ps. parsed_entity known funcs p))"
| "parsed_entity known funcs _ = False"

definition parsed_set ::
    "(nat \<Rightarrow> bool) \<Rightarrow> 'v df_func_def list \<Rightarrow> ('v stnode \<times> 'v stnode option) list \<Rightarrow> bool" where
  "parsed_set known funcs elems =
     (elems \<noteq> [] \<and>
      (\<forall>elem \<in> set elems. parsed_entity known funcs (fst elem) \<and> pred_option (parsed_entity known funcs) (snd elem)))"

fun parsed_test :: "(nat \<Rightarrow> bool) \<Rightarrow> 'v df_func_def list \<Rightarrow> 'v stnode \<Rightarrow> bool" where
  "parsed_test known funcs (STTYPE_TEST TEST_OP_EXISTS a None) = parsed_entity known funcs a"
| "parsed_test known funcs (STTYPE_TEST TEST_OP_NOT a None) = parsed_test known funcs a"
| "parsed_test known funcs (STTYPE_TEST TEST_OP_AND a (Some b)) =
     (parsed_test known funcs a \<and> parsed_test known funcs b)"
| "parsed_test known funcs (STTYPE_TEST TEST_OP_OR a (Some b)) =
     (parsed_test known funcs a \<and> parsed_test known funcs b)"
| "parsed_test known funcs (STTYPE_TEST TEST_OP_IN a (Some b)) =
     (parsed_entity known funcs a \<and> (case b of STTYPE_SET elems \<Rightarrow> parsed_set known funcs elems | _ \<Rightarrow> False))"
| "parsed_test known funcs (STTYPE_TEST op a (Some b)) =
     (rel_op op \<noteq> None \<and> parsed_entity known funcs a \<and> parsed_entity known funcs b)"
| "parsed_test known funcs _ = False"

section \<open>What the check leaves unchecked\<close>

definition modelled :: "vclass \<Rightarrow> bool" where
  "modelled c = (c \<noteq> OTHER_CLASS \<and> c \<noteq> PCRE_CLASS)"

text \<open>The fields are of types whose comparisons are modelled, and no slice aborts.\<close>

fun sound_entity :: "'p registrar \<Rightarrow> 'v stnode \<Rightarrow> bool" where
  "sound_entity reg (STTYPE_FIELD h) = modelled (class_of_field reg h)"
| "sound_entity reg (STTYPE_RANGE e d) = (tame d \<and> sound_entity reg e)"
| "sound_entity reg (STTYPE_FUNCTION f ps) = (\<forall>p \<in> set ps. sound_entity reg p)"
| "sound_entity reg _ = True"

text \<open>
  The entity of a range that is the second operand is not looked at: it may be a text, another range, or a
  field that has no slices. Booleans are compared with small integers.
\<close>

definition sliced_field :: "'p registrar \<Rightarrow> 'v stnode \<Rightarrow> bool" where
  "sliced_field reg e =
     (case e of
        STTYPE_FIELD h \<Rightarrow> class_of_field reg h = BYTES_CLASS \<or> class_of_field reg h = STRING_CLASS
      | _ \<Rightarrow> False)"

definition sound_rhs :: "'p registrar \<Rightarrow> 'v stnode \<Rightarrow> bool" where
  "sound_rhs reg e = (case e of STTYPE_RANGE e' d \<Rightarrow> sliced_field reg e' | _ \<Rightarrow> True)"

definition entity_class :: "'p registrar \<Rightarrow> 'v stnode \<Rightarrow> vclass option" where
  "entity_class reg e =
     (case e of
        STTYPE_FIELD h \<Rightarrow> Some (class_of_field reg h)
      | STTYPE_FUNCTION f ps \<Rightarrow> Some (ftype_class (retval_ftype f))
      | _ \<Rightarrow> None)"

definition sound_rel :: "'p registrar \<Rightarrow> 'v stnode \<Rightarrow> 'v stnode \<Rightarrow> bool" where
  "sound_rel reg a b =
     (sound_entity reg a \<and> sound_entity reg b \<and> sound_rhs reg b \<and>
      (\<forall>c d. entity_class reg a = Some c \<longrightarrow> entity_class reg b = Some d \<longrightarrow> \<not> bool_mix c d))"

text \<open>The bounds of a range in a set are texts; the machine asserts that they have one value each.\<close>

definition is_text :: "'v stnode \<Rightarrow> bool" where
  "is_text e = (case e of STTYPE_STRING _ \<Rightarrow> True | STTYPE_CHARCONST _ \<Rightarrow> True | STTYPE_UNPARSED _ \<Rightarrow> True | _ \<Rightarrow> False)"

definition sound_elem :: "'p registrar \<Rightarrow> 'v stnode \<Rightarrow> 'v stnode \<times> 'v stnode option \<Rightarrow> bool" where
  "sound_elem reg a elem =
     (case elem of
        (n1, None) \<Rightarrow> sound_rel reg a n1
      | (n1, Some n2) \<Rightarrow> is_text n1 \<and> is_text n2)"

fun sound_test :: "'p registrar \<Rightarrow> 'v stnode \<Rightarrow> bool" where
  "sound_test reg (STTYPE_TEST op a b) =
     (if op = TEST_OP_EXISTS then True
      else if op = TEST_OP_NOT then sound_test reg a
      else if op = TEST_OP_AND \<or> op = TEST_OP_OR then
        sound_test reg a \<and> pred_option (sound_test reg) b
      else if op = TEST_OP_IN then
        sound_entity reg a \<and>
        (case b of Some (STTYPE_SET elems) \<Rightarrow> (\<forall>elem \<in> set elems. sound_elem reg a elem) | _ \<Rightarrow> False)
      else (case b of Some b' \<Rightarrow> sound_rel reg a b' | None \<Rightarrow> False))"
| "sound_test reg _ = False"

section \<open>Typed trees\<close>

definition sliced_base :: "'v stnode \<Rightarrow> bool" where
  "sliced_base e = (case e of STTYPE_FIELD _ \<Rightarrow> True | STTYPE_FUNCTION _ _ \<Rightarrow> True | _ \<Rightarrow> False)"

inductive has_class ::
    "'p registrar \<Rightarrow> (nat \<Rightarrow> bool) \<Rightarrow> 'r fvalue df_func_def list \<Rightarrow> 'r fvalue stnode \<Rightarrow> vclass \<Rightarrow> bool"
  for reg :: "'p registrar" and known :: "nat \<Rightarrow> bool" and funcs :: "'r fvalue df_func_def list" where
  field: "known h \<Longrightarrow> modelled (class_of_field reg h) \<Longrightarrow>
    has_class reg known funcs (STTYPE_FIELD h) (class_of_field reg h)"
| fvalue: "has_class reg known funcs (STTYPE_FVALUE v) (value_class v)"
| funct: "f \<in> set funcs \<Longrightarrow> known h \<Longrightarrow> modelled (class_of_field reg h) \<Longrightarrow>
    has_class reg known funcs (STTYPE_FUNCTION f [STTYPE_FIELD h]) (ftype_class (retval_ftype f))"
| range: "has_class reg known funcs e c \<Longrightarrow> c = BYTES_CLASS \<or> c = STRING_CLASS \<Longrightarrow> sliced_base e \<Longrightarrow>
    sane d \<Longrightarrow> tame d \<Longrightarrow> has_class reg known funcs (STTYPE_RANGE e d) BYTES_CLASS"

inductive_cases has_classE:
  "has_class reg known funcs (STTYPE_FIELD h) c"
  "has_class reg known funcs (STTYPE_FVALUE v) c"
  "has_class reg known funcs (STTYPE_FUNCTION f ps) c"
  "has_class reg known funcs (STTYPE_RANGE e d) c"

definition typed_rel ::
    "'p registrar \<Rightarrow> (nat \<Rightarrow> bool) \<Rightarrow> 'r fvalue df_func_def list \<Rightarrow> any_op \<Rightarrow> 'r fvalue stnode \<Rightarrow>
      'r fvalue stnode \<Rightarrow> bool" where
  "typed_rel reg known funcs r a b =
     (\<exists>c d. has_class reg known funcs a c \<and> has_class reg known funcs b d \<and> can_compare r c d)"

definition typed_elem ::
    "'p registrar \<Rightarrow> (nat \<Rightarrow> bool) \<Rightarrow> 'r fvalue df_func_def list \<Rightarrow> 'r fvalue stnode \<Rightarrow>
      'r fvalue stnode \<times> 'r fvalue stnode option \<Rightarrow> bool" where
  "typed_elem reg known funcs a elem =
     (case elem of
        (n1, None) \<Rightarrow> typed_rel reg known funcs ANY_EQ a n1
      | (n1, Some n2) \<Rightarrow>
          typed_rel reg known funcs ANY_GE a n1 \<and> typed_rel reg known funcs ANY_LE a n2 \<and>
          (\<exists>v w. n1 = STTYPE_FVALUE v \<and> n2 = STTYPE_FVALUE w))"

fun typed_test ::
    "'p registrar \<Rightarrow> (nat \<Rightarrow> bool) \<Rightarrow> 'r fvalue df_func_def list \<Rightarrow> 'r fvalue stnode \<Rightarrow> bool" where
  "typed_test reg known funcs (STTYPE_TEST TEST_OP_EXISTS a b) =
     (case a of STTYPE_FIELD h \<Rightarrow> known h | _ \<Rightarrow> False)"
| "typed_test reg known funcs (STTYPE_TEST TEST_OP_NOT a b) = typed_test reg known funcs a"
| "typed_test reg known funcs (STTYPE_TEST TEST_OP_AND a (Some b)) =
     (typed_test reg known funcs a \<and> typed_test reg known funcs b)"
| "typed_test reg known funcs (STTYPE_TEST TEST_OP_OR a (Some b)) =
     (typed_test reg known funcs a \<and> typed_test reg known funcs b)"
| "typed_test reg known funcs (STTYPE_TEST TEST_OP_IN a (Some b)) =
     ((\<exists>c. has_class reg known funcs a c) \<and>
      (case b of
         STTYPE_SET elems \<Rightarrow> elems \<noteq> [] \<and> (\<forall>elem \<in> set elems. typed_elem reg known funcs a elem)
       | _ \<Rightarrow> False))"
| "typed_test reg known funcs (STTYPE_TEST op a (Some b)) =
     (case rel_op op of Some r \<Rightarrow> typed_rel reg known funcs r a b | None \<Rightarrow> False)"
| "typed_test reg known funcs _ = False"

lemma has_class_wf: "has_class reg known funcs e c \<Longrightarrow> wf_entity known e"
  by (induction rule: has_class.induct) simp_all

lemma typed_elem_wf:
  "typed_elem reg known funcs a elem \<Longrightarrow>
     wf_entity known (fst elem) \<and> pred_option (wf_entity known) (snd elem)"
  by (cases elem) (auto simp: typed_elem_def typed_rel_def dest: has_class_wf split: option.splits)

lemma typed_wf: "typed_test reg known funcs t \<Longrightarrow> wf_test known t"
proof (induction known t rule: wf_test.induct)
  case (5 known a b)
  then show ?case
    by (auto simp: wf_set_def dest: has_class_wf typed_elem_wf split: stnode.splits)
qed (auto simp: typed_rel_def dest: has_class_wf split: stnode.splits option.splits)


section \<open>Operands\<close>

text \<open>The setting of the lemmas: the registrar, the parsers and the table of the functions.\<close>

definition setting ::
    "'p registrar \<Rightarrow> (string \<Rightarrow> nat list) \<Rightarrow> 'r fvalue_parsers \<Rightarrow> 'r fvalue df_func_def list \<Rightarrow> bool" where
  "setting reg byname P funcs =
     (fields_fit reg byname \<and> parsers_ok P \<and> (\<exists>type_of string_repr. funcs = df_functions type_of string_repr))"

lemma settingD:
  assumes "setting reg byname P funcs"
  shows "fields_fit reg byname" "parsers_ok P"
    "f \<in> set funcs \<Longrightarrow> min_nargs f = 1 \<and> max_nargs f = 1"
    "f \<in> set funcs \<Longrightarrow> ftype_class (retval_ftype f) = STRING_CLASS \<or> ftype_class (retval_ftype f) = INT32_CLASS"
    "f \<in> set funcs \<Longrightarrow> retval_ftype f = FT_STRING \<or> retval_ftype f = FT_UINT32"
  using assms by (auto simp: setting_def df_functions_def ftype_class_def)

lemma known_field:
  assumes "setting reg byname P funcs" "registered byname h" "modelled (class_of_field reg h)"
  obtains hf where "deref reg h = Inr hf" "ftype_class (hf_type hf) = class_of_field reg h"
    "ftype_class (hf_type hf) \<noteq> OTHER_CLASS" "hf_type hf \<noteq> FT_PCRE" "strings_fit hf"
proof -
  obtain hf where "deref reg h = Inr hf" "strings_fit hf" "class_of_field reg h = ftype_class (hf_type hf)"
    using fields_fitD [OF settingD(1) [OF assms(1)] assms(2)] by metis
  then show ?thesis using that assms(3) by (auto simp: modelled_def ftype_class_def split: if_splits)
qed

lemma check_function_ok:
  assumes s: "setting reg byname P funcs" and f: "f \<in> set funcs"
    and ps: "\<forall>p \<in> set ps. parsed_entity (registered byname) funcs p \<and> sound_entity reg p"
  shows "checks (check_function reg P f ps)
           (\<lambda>e. \<exists>h. e = STTYPE_FUNCTION f [STTYPE_FIELD h] \<and>
                  has_class reg (registered byname) funcs e (ftype_class (retval_ftype f)))"
proof (cases "length ps = 1")
  case True
  then obtain p where p: "ps = [p]" by (cases ps) auto
  have one: "min_nargs f = 1" "max_nargs f = 1" using settingD(3) [OF s f] by simp_all
  have param: "checks (call_semcheck_param reg (semcheck_param f) 0 q) (\<lambda>_. is_field q)"
    if "q = p \<or> (\<exists>v. q = STTYPE_FVALUE v)" for q
  proof (cases "is_field q")
    case True
    then obtain h where q: "q = STTYPE_FIELD h" by (cases q) (simp_all add: is_field_def)
    then have "registered byname h" "modelled (class_of_field reg h)" using that ps p by auto
    then obtain hf where "deref reg h = Inr hf" using known_field [OF s] by metis
    then show ?thesis
      by (cases "semcheck_param f")
        (simp_all add: q call_semcheck_param_def ul_semcheck_params_def ul_semcheck_len_params_def
          ul_semcheck_field_param_def ul_semcheck_string_param_def is_field_def type_check_def)
  next
    case False
    then show ?thesis
      by (cases "semcheck_param f"; cases q)
        (simp_all add: call_semcheck_param_def ul_semcheck_params_def ul_semcheck_len_params_def
          ul_semcheck_field_param_def ul_semcheck_string_param_def is_field_def type_check_def)
  qed
  have ent: "checks (check_param_entity P p) (\<lambda>q. q = p \<or> (\<exists>v. q = STTYPE_FVALUE v))"
    by (cases p) (auto simp: check_param_entity_def split: option.splits)
  have "checks (check_params reg P f 0 ps) (\<lambda>ps'. \<exists>q. ps' = [q] \<and> is_field q \<and> q = p)"
    unfolding p check_params.simps
    by (rule checks_bindI [OF ent], rule checks_bindI [OF param]) (auto simp: is_field_def)
  then have "checks (check_params reg P f 0 ps) (\<lambda>ps'. \<exists>h. ps' = [STTYPE_FIELD h] \<and> p = STTYPE_FIELD h)"
    by (rule checks_mono) (auto simp: is_field_def split: stnode.splits)
  then show ?thesis
    unfolding check_function_def one True
    by (simp add: True, elim checks_bindI) (use ps p f in \<open>auto intro: has_class.intros\<close>)
next
  case False
  then have "length ps < 1 \<or> length ps > 1" by linarith
  then show ?thesis using settingD(3) [OF s f] by (auto simp: check_function_def)
qed

lemma value_node_ok:
  "checks (value_node v) (\<lambda>e. \<exists>fv. v = Some fv \<and> e = STTYPE_FVALUE fv)"
  by (cases v) (simp_all add: value_node_def)

lemma charconst_ok:
  assumes "parsers_ok P" "ftype_class ft \<noteq> OTHER_CLASS"
  obtains r where "dfilter_fvalue_from_charconst_string P ft s b = Inr r"
    "\<forall>fv. r = Some fv \<longrightarrow> value_class fv = ftype_class ft"
proof (cases "fvalue_from_unparsed P FT_CHAR s b")
  case None
  then show ?thesis using that by (simp add: dfilter_fvalue_from_charconst_string_def)
next
  case (Some fv)
  then have "value_class fv = INT32_CLASS"
    using from_text_class(1) [OF assms(1), of FT_CHAR] by (simp add: ftype_class_def)
  then obtain v where "int_member fv = Inr v" by (cases fv) (simp_all add: int_member_def)
  then show ?thesis
    using that Some from_text_class(1) [OF assms]
    by (auto simp: dfilter_fvalue_from_charconst_string_def)
qed

text \<open>What a text may become so that a relation with a field of class \<open>c\<close> can be decided.\<close>

lemma fits_comparable:
  assumes "fits_text c (Some v)" "can_for r ft" "ftype_class ft = c" "c \<noteq> OTHER_CLASS"
  shows "can_compare r c (value_class v)" "can_compare r (value_class v) c"
proof -
  have same: "can_compare r c c" using can_comparable [OF assms(2)] assms(3,4) by simp
  have bool: "ft = FT_BOOLEAN" if "c = BOOLEAN_CLASS"
    using assms(3) that by (auto simp: ftype_class_def split: if_splits)
  show "can_compare r c (value_class v)" "can_compare r (value_class v) c"
    using assms(1,2) same bool boolean_comparable [of r] by (auto simp: fits_text_def)
qed


section \<open>Relations\<close>

definition op_name :: "string \<Rightarrow> any_op \<Rightarrow> bool" where
  "op_name relation_string r = ((relation_string = ''matches'') = (r = ANY_MATCHES) \<and> relation_string \<noteq> ''in'')"

lemma field_text_ok:
  fixes P :: "'r fvalue_parsers"
  assumes s: "setting reg byname P funcs" and h: "registered byname h" "modelled (class_of_field reg h)"
    and hf: "deref reg h = Inr hf" and can: "can_for r (hf_type hf)" and name: "op_name rs r"
  shows "checks (field_text reg P rs b hf k tx)
           (\<lambda>e. \<exists>v. e = STTYPE_FVALUE v \<and> can_compare r (class_of_field reg h) (value_class v))"
proof -
  have cl: "ftype_class (hf_type hf) = class_of_field reg h" using hf by (simp add: class_of_field_def)
  have other: "class_of_field reg h \<noteq> OTHER_CLASS" using h(2) by (simp add: modelled_def)
  note P = settingD(2) [OF s]
  show ?thesis
  proof (cases "rs = ''matches''")
    case True
    then have "can_for ANY_MATCHES (hf_type hf)" "r = ANY_MATCHES" using can name by (auto simp: op_name_def)
    then have "can_compare r (class_of_field reg h) c" for c
      using matches_comparable [of "hf_type hf" c] cl other by simp
    then show ?thesis
      by (auto simp: field_text_def True intro: checks_mono [OF value_node_ok])
  next
    case False
    obtain hf' where hf': "returned (skip_incompatible reg k hf) = Inr hf'" "strings_fit hf'"
        "ftype_class (hf_type hf') = class_of_field reg h"
      using skip_ok [OF settingD(1) [OF s] h(1) hf] by metis
    have other': "ftype_class (hf_type hf') \<noteq> OTHER_CLASS" using hf'(3) other by simp
    obtain cc where cc: "dfilter_fvalue_from_charconst_string P (hf_type hf') tx b = Inr cc"
        "\<forall>fv. cc = Some fv \<longrightarrow> value_class fv = ftype_class (hf_type hf')"
      by (rule charconst_ok [OF P other'])
    have "\<exists>first. (if k = KIND_STRING then Inr (fvalue_from_string P (hf_type hf') tx)
          else if k = KIND_CHARCONST \<and> rs = ''contains'' then
            dfilter_fvalue_from_charconst_string P (hf_type hf') tx b
          else Inr (fvalue_from_unparsed P (hf_type hf') tx b)) = Inr first \<and>
        fits_text (class_of_field reg h) first"
      using cc(2) from_text_class [OF P other'] hf'(3) by (cases k) (auto simp: fits_text_def cc(1))
    then obtain first where first: "(if k = KIND_STRING then Inr (fvalue_from_string P (hf_type hf') tx)
          else if k = KIND_CHARCONST \<and> rs = ''contains'' then
            dfilter_fvalue_from_charconst_string P (hf_type hf') tx b
          else Inr (fvalue_from_unparsed P (hf_type hf') tx b)) = Inr first"
        "fits_text (class_of_field reg h) first"
      by blast
    have "\<exists>w :: 'r fvalue option. mk_fvalue_from_val_string hf' tx = Inr w \<and>
            fits_text (ftype_class (hf_type hf')) w"
      by (rule val_string_ok [OF hf'(2)])
    then obtain w :: "'r fvalue option" where w: "mk_fvalue_from_val_string hf' tx = Inr w"
        "fits_text (class_of_field reg h) w"
      using hf'(3) by auto
    define v where "v = (if first = None \<and> k \<noteq> KIND_CHARCONST then w else first)"
    have v: "(if first = None \<and> k \<noteq> KIND_CHARCONST then mk_fvalue_from_val_string hf' tx else Inr first) = Inr v"
        "fits_text (class_of_field reg h) v"
      using first(2) w by (simp_all add: v_def)
    have "can_compare r (class_of_field reg h) (value_class fv)" if "v = Some fv" for fv
      using fits_comparable(1) [of "class_of_field reg h" fv r "hf_type hf"] v(2) that can cl other by simp
    then show ?thesis
      by (simp add: field_text_def False hf'(1) first(1) v(1)) (rule checks_mono [OF value_node_ok], blast)
  qed
qed

lemma whole_range:
  assumes "has_class reg known funcs e c" "c = BYTES_CLASS \<or> c = STRING_CLASS" "sliced_base e"
  shows "has_class reg known funcs (convert_to_bytes e) BYTES_CLASS"
  unfolding convert_to_bytes_def
  by (rule has_class.range [OF assms])
    (simp_all add: sane_def tame_def range_list_from_list sane_node_def straddles_def overflows_def
      drange_node_set_to_the_end_def drange_node_set_start_offset_def drange_node_new_def)

lemma typed_relI:
  "has_class reg known funcs a c \<Longrightarrow> has_class reg known funcs b d \<Longrightarrow> can_compare r c d \<Longrightarrow>
     typed_rel reg known funcs r a b"
  by (auto simp: typed_rel_def)

lemma typed_bytes:
  "has_class reg known funcs a BYTES_CLASS \<Longrightarrow> has_class reg known funcs b BYTES_CLASS \<Longrightarrow>
     typed_rel reg known funcs r a b"
  by (rule typed_relI [OF _ _ bytes_comparable])

text \<open>Two operands of compatible types that can both do the operation.\<close>

lemma compatible_can_compare:
  assumes "compatible_ftypes ft1 ft2 = Inr True" "can_for r ft1"
    "ftype_class ft1 \<noteq> OTHER_CLASS" "ftype_class ft2 \<noteq> OTHER_CLASS"
    "\<not> bool_mix (ftype_class ft1) (ftype_class ft2)"
  shows "can_compare r (ftype_class ft1) (ftype_class ft2)"
  using compatible_class [OF assms(1,3,4,5)] can_comparable [OF assms(2,3)] by simp

text \<open>The range that is a second operand.\<close>

lemma rhs_range_class:
  assumes "parsed_entity (registered byname) funcs (STTYPE_RANGE e d)" "sound_entity reg (STTYPE_RANGE e d)"
    "sound_rhs reg (STTYPE_RANGE e d)"
  shows "checks (check_drange_sanity d)
           (\<lambda>_. has_class reg (registered byname) funcs (STTYPE_RANGE e d) BYTES_CLASS)"
proof -
  obtain h where e: "e = STTYPE_FIELD h" "class_of_field reg h = BYTES_CLASS \<or> class_of_field reg h = STRING_CLASS"
    using assms(3) by (auto simp: sound_rhs_def sliced_field_def split: stnode.splits)
  have f: "has_class reg (registered byname) funcs e (class_of_field reg h)"
    using assms(1,2) e by (auto intro!: has_class.field)
  have "ended d" "tame d" using assms(1,2) by simp_all
  then show ?thesis
    using checks_mono [OF checks_sanity [of d]] has_class.range [OF f e(2)] e(1)
    by (auto simp: sliced_base_def)
qed

end
