(* ===== verification/SemcheckMain.thy ===== *)
theory SemcheckMain
  imports SemcheckSound
begin

text \<open>
  Every branch of the semantic check, and the whole check.
\<close>

section \<open>A field as the first operand\<close>

lemma sound_relD:
  assumes "sound_rel reg a b"
  shows "sound_entity reg a" "sound_entity reg b" "sound_rhs reg b"
    "entity_class reg a = Some c \<Longrightarrow> entity_class reg b = Some d \<Longrightarrow> \<not> bool_mix c d"
  using assms by (auto simp: sound_rel_def)

lemma function_class:
  assumes "setting reg byname P funcs" "f \<in> set funcs"
  shows "ftype_class (retval_ftype f) \<noteq> OTHER_CLASS" "retval_ftype f \<noteq> FT_PCRE"
  using settingD(4,5) [OF assms] by auto

lemma lhs_field_text:
  assumes s: "setting reg byname P funcs" and h: "registered byname h" "modelled (class_of_field reg h)"
    and hf: "deref reg h = Inr hf" and can: "can_for r (hf_type hf)" and name: "op_name rs r"
  shows "checks (bindE (field_text reg P rs ap hf k tx) (\<lambda>new_st. Inr (STTYPE_FIELD h, new_st)))
           (\<lambda>(x, y). typed_rel reg (registered byname) funcs r x y \<and> (\<not> is_test \<longrightarrow> x = STTYPE_FIELD h) \<and>
              (\<exists>v. y = STTYPE_FVALUE v))"
proof (rule checks_bindI [OF field_text_ok [OF s h hf can name]])
  fix e :: "'b fvalue stnode"
  assume "\<exists>v. e = STTYPE_FVALUE v \<and> can_compare r (class_of_field reg h) (value_class v)"
  then show "checks (Inr (STTYPE_FIELD h, e))
      (\<lambda>(x, y). typed_rel reg (registered byname) funcs r x y \<and> (\<not> is_test \<longrightarrow> x = STTYPE_FIELD h) \<and>
         (\<exists>v. y = STTYPE_FVALUE v))"
    using h by (auto intro: typed_relI has_class.intros)
qed

lemma lhs_field_ok:
  assumes s: "setting reg byname P funcs" and h: "registered byname h" and name: "op_name rs r"
    and b: "parsed_entity (registered byname) funcs b" "sound_rel reg (STTYPE_FIELD h) b"
    and range: "is_test \<or> (\<forall>e d. b \<noteq> STTYPE_RANGE e d)"
  shows "checks (check_relation_LHS_FIELD reg P rs (can_for r) ap is_test h b)
           (\<lambda>(x, y). typed_rel reg (registered byname) funcs r x y \<and> (\<not> is_test \<longrightarrow> x = STTYPE_FIELD h) \<and>
              (is_text b \<longrightarrow> (\<exists>v. y = STTYPE_FVALUE v)))"
    (is "checks _ ?Q")
proof -
  have m: "modelled (class_of_field reg h)" using sound_relD(1) [OF b(2)] by simp
  obtain hf where hf: "deref reg h = Inr hf" "ftype_class (hf_type hf) = class_of_field reg h"
      "ftype_class (hf_type hf) \<noteq> OTHER_CLASS" "hf_type hf \<noteq> FT_PCRE"
    using known_field [OF s h m] by metis
  have fc: "has_class reg (registered byname) funcs (STTYPE_FIELD h) (class_of_field reg h)"
    using h m by (rule has_class.field)
  show ?thesis
  proof (cases "can_for r (hf_type hf)")
    case False
    then show ?thesis by (simp add: check_relation_LHS_FIELD.simps hf(1) type_check_def)
  next
    case can: True
    then have tc: "type_check (can_for r (hf_type hf)) = Inr ()" by (simp add: type_check_def)
    note unf = check_relation_LHS_FIELD.simps [of reg P rs "can_for r" ap is_test h b, unfolded hf(1) Let_def bindE_simps
        tc]
    note of_text = checks_mono [OF lhs_field_text [OF s h m hf(1) can name, of ap]]
    show ?thesis
    proof (cases b)
      case (STTYPE_FIELD h2)
      then have h2: "registered byname h2" "modelled (class_of_field reg h2)"
        using b(1) sound_relD(2) [OF b(2)] by simp_all
      obtain hf2 where hf2: "deref reg h2 = Inr hf2" "ftype_class (hf_type hf2) = class_of_field reg h2"
          "ftype_class (hf_type hf2) \<noteq> OTHER_CLASS"
        using known_field [OF s h2] by metis
      obtain t where t: "compatible_ftypes (hf_type hf) (hf_type hf2) = Inr t"
        using compatible_returns [OF hf(4)] by blast
      have mix: "\<not> bool_mix (ftype_class (hf_type hf)) (ftype_class (hf_type hf2))"
        using sound_relD(4) [OF b(2)] hf(2) hf2(2) STTYPE_FIELD by (simp add: entity_class_def)
      have fc2: "has_class reg (registered byname) funcs b (class_of_field reg h2)"
        unfolding STTYPE_FIELD using h2 by (rule has_class.field)
      have "typed_rel reg (registered byname) funcs r (STTYPE_FIELD h) b" if t
        using compatible_can_compare [OF _ can hf(3) hf2(3) mix] t that hf(2) hf2(2)
        by (intro typed_relI [OF fc fc2]) simp
      then show ?thesis
        unfolding unf unfolding STTYPE_FIELD stnode.case hf2(1) t bindE_simps
        by (auto intro!: checks_type_check simp: is_text_def)
    next
      case (STTYPE_RANGE e d)
      then have rhs: "checks (check_drange_sanity d) (\<lambda>_. has_class reg (registered byname) funcs b BYTES_CLASS)"
        using rhs_range_class [of byname funcs e d reg] b(1) sound_relD(2,3) [OF b(2)] by simp
      have "is_test" using range STTYPE_RANGE by blast
      then show ?thesis
        unfolding unf unfolding STTYPE_RANGE stnode.case
        using bytes_ftype_class [of "hf_type hf"] slice_class [of "hf_type hf"] hf(2,3) fc rhs STTYPE_RANGE
        by (auto intro!: checks_bindI checks_type_check typed_bytes whole_range [OF fc]
            simp: is_text_def sliced_base_def)
    next
      case (STTYPE_FUNCTION f ps)
      then have f: "f \<in> set funcs"
          "\<forall>p \<in> set ps. parsed_entity (registered byname) funcs p \<and> sound_entity reg p"
        using b(1) sound_relD(2) [OF b(2)] by simp_all
      obtain t where t: "compatible_ftypes (hf_type hf) (retval_ftype f) = Inr t"
        using compatible_returns [OF hf(4)] by blast
      have mix: "\<not> bool_mix (ftype_class (hf_type hf)) (ftype_class (retval_ftype f))"
        using sound_relD(4) [OF b(2)] hf(2) STTYPE_FUNCTION by (simp add: entity_class_def)
      have "can_compare r (class_of_field reg h) (ftype_class (retval_ftype f))" if t
        using compatible_can_compare [OF _ can hf(3) function_class(1) [OF s f(1)] mix] t that hf(2) by simp
      then show ?thesis
        unfolding unf unfolding STTYPE_FUNCTION stnode.case t bindE_simps
        by (auto intro!: checks_type_check checks_bindI [OF check_function_ok [OF s f]] typed_relI [OF fc]
            simp: is_text_def)
    next
      case (STTYPE_SET elems)
      then show ?thesis using b(1) by simp
    qed (unfold unf, use b(1) in \<open>auto simp: is_text_def intro!: of_text\<close>)
  qed
qed


section \<open>Sets\<close>

lemma op_names:
  "op_name ''>='' ANY_GE" "op_name ''<='' ANY_LE" "op_name ''=='' ANY_EQ"
  by (simp_all add: op_name_def)

lemma text_sound:
  assumes "is_text n" "modelled (class_of_field reg h)"
  shows "sound_rel reg (STTYPE_FIELD h) n" "\<forall>e d. n \<noteq> STTYPE_RANGE e d"
  using assms by (cases n; simp add: is_text_def sound_rel_def sound_rhs_def entity_class_def)+

lemma elem_single_ok:
  assumes s: "setting reg byname P funcs" and h: "registered byname h"
    and n: "parsed_entity (registered byname) funcs n" "sound_rel reg (STTYPE_FIELD h) n"
      "\<forall>e d. n \<noteq> STTYPE_RANGE e d"
  shows "checks (bindE (check_relation_LHS_FIELD reg P ''=='' (can_for ANY_EQ) ap False h n)
             (\<lambda>(_, n'). Inr (n', None)))
           (typed_elem reg (registered byname) funcs (STTYPE_FIELD h))"
  by (rule checks_bindI [OF lhs_field_ok [OF s h op_names(3) n(1,2)]])
    (use n(3) in \<open>auto simp: typed_elem_def\<close>)

lemma elem_range_ok:
  assumes s: "setting reg byname P funcs" and h: "registered byname h" "modelled (class_of_field reg h)"
    and n: "parsed_entity (registered byname) funcs n" "is_text n"
    and m: "parsed_entity (registered byname) funcs m" "is_text m"
  shows "checks (bindE (check_relation_LHS_FIELD reg P ''>='' (can_for ANY_GE) ap False h n) (\<lambda>(_, n').
           bindE (check_relation_LHS_FIELD reg P ''<='' (can_for ANY_LE) ap False h m)
             (\<lambda>(_, m'). Inr (n', Some m'))))
           (typed_elem reg (registered byname) funcs (STTYPE_FIELD h))"
proof (rule checks_bindI [OF lhs_field_ok [OF s h(1) op_names(1) n(1) text_sound(1) [OF n(2) h(2)], of False]])
  show "False \<or> (\<forall>e d. n \<noteq> STTYPE_RANGE e d)" using text_sound(2) [OF n(2) h(2)] by simp
  fix x :: "'b fvalue stnode \<times> 'b fvalue stnode"
  assume x: "case x of (x, y) \<Rightarrow>
      typed_rel reg (registered byname) funcs ANY_GE x y \<and> (\<not> False \<longrightarrow> x = STTYPE_FIELD h) \<and>
      (is_text n \<longrightarrow> (\<exists>v. y = STTYPE_FVALUE v))"
  then obtain v where x': "x = (STTYPE_FIELD h, STTYPE_FVALUE v)"
      "typed_rel reg (registered byname) funcs ANY_GE (STTYPE_FIELD h) (STTYPE_FVALUE v)"
    using n(2) by auto
  show "checks (case x of (_, n') \<Rightarrow>
        bindE (check_relation_LHS_FIELD reg P ''<='' (can_for ANY_LE) ap False h m)
          (\<lambda>(_, m'). Inr (n', Some m')))
      (typed_elem reg (registered byname) funcs (STTYPE_FIELD h))"
    unfolding x'(1) prod.case
    by (rule checks_bindI [OF lhs_field_ok [OF s h(1) op_names(2) m(1) text_sound(1) [OF m(2) h(2)]]])
      (use text_sound(2) [OF m(2) h(2)] m(2) x'(2) in \<open>auto simp: typed_elem_def\<close>)
qed

lemma set_elements_ok:
  assumes s: "setting reg byname P funcs" and h: "registered byname h" "modelled (class_of_field reg h)"
    and elems: "\<forall>elem \<in> set elems. parsed_entity (registered byname) funcs (fst elem) \<and>
        pred_option (parsed_entity (registered byname) funcs) (snd elem)"
      "\<forall>elem \<in> set elems. sound_elem reg (STTYPE_FIELD h) elem"
  shows "checks (check_set_elements reg P (can_for ANY_EQ) ap h elems)
           (\<lambda>elems'. length elems' = length elems \<and>
              (\<forall>elem \<in> set elems'. typed_elem reg (registered byname) funcs (STTYPE_FIELD h) elem))"
  using elems
proof (induction elems)
  case (Cons elem elems)
  obtain n m where elem: "elem = (n, m)" by (cases elem)
  from known_field [OF s h] obtain hf where hf: "deref reg h = Inr hf" by metis
  have n: "parsed_entity (registered byname) funcs n" using Cons.prems(1) elem by simp
  have one: "checks (case m of
        Some right \<Rightarrow>
          bindE (deref reg h) (\<lambda>hfinfo1.
          bindE (type_check (ftype_can_ge (hf_type hfinfo1))) (\<lambda>_.
          bindE (check_relation_LHS_FIELD reg P ''>='' ftype_can_ge ap False h n) (\<lambda>(_, node').
          bindE (check_relation_LHS_FIELD reg P ''<='' ftype_can_le ap False h right)
            (\<lambda>(_, right'). Inr (node', Some right')))))
      | None \<Rightarrow>
          bindE (check_relation_LHS_FIELD reg P ''=='' (can_for ANY_EQ) ap False h n)
            (\<lambda>(_, node'). Inr (node', None)))
      (typed_elem reg (registered byname) funcs (STTYPE_FIELD h))"
    if range: "\<forall>e d. n \<noteq> STTYPE_RANGE e d"
  proof (cases m)
    case None
    then have "sound_rel reg (STTYPE_FIELD h) n" using Cons.prems(2) elem by (simp add: sound_elem_def)
    then show ?thesis using elem_single_ok [OF s h(1) n _ range] None by simp
  next
    case (Some right)
    then have "is_text n" "is_text right" "parsed_entity (registered byname) funcs right"
      using Cons.prems elem by (simp_all add: sound_elem_def)
    from elem_range_ok [OF s h n this(1,3,2)] show ?thesis
      using Some by (auto simp: hf ftype_can_for intro!: checks_type_check)
  qed
  show ?case
    unfolding elem check_set_elements.simps
  proof (rule checks_type_check)
    assume "case n of STTYPE_RANGE _ _ \<Rightarrow> False | _ \<Rightarrow> True"
    then have range: "\<forall>e d. n \<noteq> STTYPE_RANGE e d" by (auto split: stnode.splits)
    show "checks (bindE (case m of
          Some right \<Rightarrow>
            bindE (deref reg h) (\<lambda>hfinfo1.
            bindE (type_check (ftype_can_ge (hf_type hfinfo1))) (\<lambda>_.
            bindE (check_relation_LHS_FIELD reg P ''>='' ftype_can_ge ap False h n) (\<lambda>(_, node').
            bindE (check_relation_LHS_FIELD reg P ''<='' ftype_can_le ap False h right)
              (\<lambda>(_, right'). Inr (node', Some right')))))
        | None \<Rightarrow>
            bindE (check_relation_LHS_FIELD reg P ''=='' (can_for ANY_EQ) ap False h n)
              (\<lambda>(_, node'). Inr (node', None)))
        (\<lambda>elem. bindE (check_set_elements reg P (can_for ANY_EQ) ap h elems)
           (\<lambda>nodelist'. Inr (elem # nodelist'))))
      (\<lambda>elems'. length elems' = length ((n, m) # elems) \<and>
        (\<forall>elem \<in> set elems'. typed_elem reg (registered byname) funcs (STTYPE_FIELD h) elem))"
      by (rule checks_bindI [OF one [OF range]], rule checks_bindI [OF Cons.IH]) (use Cons.prems in auto)
  qed
qed simp


section \<open>A text as the first operand\<close>

definition conv_ok :: "('r fvalue_parsers \<Rightarrow> ftenum \<Rightarrow> string \<Rightarrow> 'r fvalue option) \<Rightarrow> 'r fvalue_parsers \<Rightarrow> bool" where
  "conv_ok conv P =
     (\<forall>ft s v. conv P ft s = Some v \<longrightarrow> ftype_class ft \<noteq> OTHER_CLASS \<longrightarrow> value_class v = ftype_class ft)"

lemma parsers_conv_ok:
  assumes "parsers_ok P"
  shows "conv_ok fvalue_from_string P" "conv_ok (\<lambda>P ft s. fvalue_from_unparsed P ft s ap) P"
  using from_text_class [OF assms] by (auto simp: conv_ok_def)

lemma value_node_class:
  assumes "\<And>fv. v = Some fv \<Longrightarrow> value_class fv = c"
  shows "checks (value_node v) (\<lambda>e. has_class reg known funcs e c)"
  using assms has_class.fvalue [of reg known funcs] by (cases v) (auto simp: value_node_def)

lemma text_of_field_ok:
  fixes P :: "'r fvalue_parsers"
  assumes s: "setting reg byname P funcs" and conv: "conv_ok conv P"
    and hf: "ftype_class (hf_type hf) = c" "c \<noteq> OTHER_CLASS" "strings_fit hf" "can_for r (hf_type hf)"
  shows "checks (text_of_field conv P hf tx)
           (\<lambda>e. \<exists>v. e = STTYPE_FVALUE v \<and> can_compare r (value_class v) c)"
proof -
  have "\<exists>w :: 'r fvalue option. mk_fvalue_from_val_string hf tx = Inr w \<and> fits_text (ftype_class (hf_type hf)) w"
    by (rule val_string_ok [OF hf(3)])
  then obtain w :: "'r fvalue option" where w: "mk_fvalue_from_val_string hf tx = Inr w" "fits_text c w"
    using hf(1) by auto
  define v where "v = (case conv P (hf_type hf) tx of None \<Rightarrow> w | Some fv \<Rightarrow> Some fv)"
  have fits: "fits_text c v"
    using w(2) conv hf(1,2) by (auto simp: v_def conv_ok_def fits_text_def split: option.splits)
  have eq: "text_of_field conv P hf tx = value_node v"
    by (cases "conv P (hf_type hf) tx") (simp_all add: text_of_field_def v_def w(1))
  have "can_compare r (value_class fv) c" if "v = Some fv" for fv
    using fits_comparable(2) [of c fv r "hf_type hf"] fits that hf by simp
  then show ?thesis unfolding eq by (auto intro: checks_mono [OF value_node_ok])
qed

lemma lhs_text_ok:
  fixes P :: "'r fvalue_parsers"
  assumes s: "setting reg byname P funcs" and conv: "conv_ok conv P"
    and b: "parsed_entity (registered byname) funcs b" "sound_entity reg b" "sound_rhs reg b"
  shows "checks (check_relation_LHS_text conv reg P (can_for r) tx b)
           (\<lambda>(x, y). typed_rel reg (registered byname) funcs r x y)"
proof (cases b)
  case (STTYPE_FIELD h2)
  then have h2: "registered byname h2" "modelled (class_of_field reg h2)" using b by simp_all
  obtain hf2 where hf2: "deref reg h2 = Inr hf2" "ftype_class (hf_type hf2) = class_of_field reg h2"
      "ftype_class (hf_type hf2) \<noteq> OTHER_CLASS" "strings_fit hf2"
    using known_field [OF s h2] by metis
  have fc: "has_class reg (registered byname) funcs b (class_of_field reg h2)"
    unfolding STTYPE_FIELD using h2 by (rule has_class.field)
  have other: "class_of_field reg h2 \<noteq> OTHER_CLASS" using hf2 by simp
  show ?thesis
    unfolding check_relation_LHS_text_def STTYPE_FIELD stnode.case hf2(1) bindE_simps
    by (intro checks_type_check checks_bindI [OF text_of_field_ok [OF s conv hf2(2) other hf2(4)]])
      (use fc STTYPE_FIELD in \<open>auto intro: typed_relI has_class.fvalue\<close>)
next
  case (STTYPE_RANGE e d)
  have rhs: "checks (check_drange_sanity d) (\<lambda>_. has_class reg (registered byname) funcs b BYTES_CLASS)"
    using rhs_range_class [of byname funcs e d reg] b STTYPE_RANGE by simp
  have v: "checks (value_node (conv P FT_BYTES tx)) (\<lambda>n. has_class reg (registered byname) funcs n BYTES_CLASS)"
    by (rule value_node_class) (use conv in \<open>simp add: conv_ok_def ftype_class_def\<close>)
  show ?thesis
    unfolding check_relation_LHS_text_def STTYPE_RANGE stnode.case
    by (rule checks_bindI [OF rhs], rule checks_bindI [OF v]) (auto simp: STTYPE_RANGE intro: typed_bytes)
next
  case (STTYPE_FUNCTION f ps)
  then have f: "f \<in> set funcs"
      "\<forall>p \<in> set ps. parsed_entity (registered byname) funcs p \<and> sound_entity reg p"
    using b by simp_all
  let ?c = "ftype_class (retval_ftype f)"
  have other: "?c \<noteq> OTHER_CLASS" using function_class(1) [OF s f(1)] .
  have v: "checks (value_node (conv P (retval_ftype f) tx)) (\<lambda>n. has_class reg (registered byname) funcs n ?c)"
    by (rule value_node_class) (use conv other in \<open>simp add: conv_ok_def\<close>)
  show ?thesis
    unfolding check_relation_LHS_text_def STTYPE_FUNCTION stnode.case
    by (rule checks_type_check, rule checks_bindI [OF v], rule checks_bindI [OF check_function_ok [OF s f]])
      (auto intro: typed_relI can_comparable [OF _ other])
qed (use b in \<open>auto simp: check_relation_LHS_text_def\<close>)

section \<open>A range as the first operand\<close>

lemma range_text_ok:
  assumes P: "parsers_ok P" and name: "op_name rs r"
  shows "\<exists>v. range_text P rs ap d k tx = Inr v \<and>
           (\<forall>fv. v = Some fv \<longrightarrow> can_compare r BYTES_CLASS (value_class fv))"
proof -
  have b: "ftype_class FT_BYTES \<noteq> OTHER_CLASS" "ftype_class FT_BYTES = BYTES_CLASS" by (simp_all add: ftype_class_def)
  note t = from_text_class [OF P b(1), unfolded b(2)]
  have m: "can_compare r BYTES_CLASS c" if "rs = ''matches''" for c
    using name that by (simp add: op_name_def can_compare_def)
  have bytes: "can_compare r BYTES_CLASS c" if "c = BYTES_CLASS" for c
    using that bytes_comparable by simp
  obtain r0 where r0: "dfilter_fvalue_from_charconst_string P FT_BYTES tx ap = Inr r0"
      "\<forall>fv. r0 = Some fv \<longrightarrow> value_class fv = BYTES_CLASS"
    using charconst_ok [OF P b(1), of tx ap] b(2) by metis
  show ?thesis
    using m bytes t r0
    by (cases k; cases "rs = ''matches''")
      (auto simp: range_text_def split: option.splits)
qed


lemma sliced_entity_ok:
  assumes s: "setting reg byname P funcs"
    and e: "range_body e" "parsed_entity (registered byname) funcs e" "sound_entity reg e"
  shows "checks (sliced_entity reg P e)
           (\<lambda>e'. sliced_base e' \<and>
              (\<exists>c. (c = BYTES_CLASS \<or> c = STRING_CLASS) \<and> has_class reg (registered byname) funcs e' c))"
proof (cases e)
  case (STTYPE_FIELD h)
  then have h: "registered byname h" "modelled (class_of_field reg h)" using e by simp_all
  obtain hf where hf: "deref reg h = Inr hf" "ftype_class (hf_type hf) = class_of_field reg h"
      "ftype_class (hf_type hf) \<noteq> OTHER_CLASS"
    using known_field [OF s h] by metis
  have fc: "has_class reg (registered byname) funcs e (class_of_field reg h)"
    unfolding STTYPE_FIELD using h by (rule has_class.field)
  then show ?thesis
    using slice_class [of "hf_type hf"] hf STTYPE_FIELD
    by (auto simp: sliced_entity_def sliced_base_def intro!: checks_type_check)
qed (use e in \<open>auto simp: sliced_entity_def\<close>)

lemma range_operand_ok:
  assumes s: "setting reg byname P funcs" and name: "op_name rs r"
    and b: "parsed_entity (registered byname) funcs b" "sound_entity reg b" "sound_rhs reg b"
  shows "checks (range_operand reg P rs ap d b)
           (\<lambda>y. \<exists>c. has_class reg (registered byname) funcs y c \<and> can_compare r BYTES_CLASS c)"
proof -
  have of_text: "checks (bindE (range_text P rs ap d k tx) value_node)
        (\<lambda>y. \<exists>c. has_class reg (registered byname) funcs y c \<and> can_compare r BYTES_CLASS c)" for k tx
  proof -
    obtain v where v: "range_text P rs ap d k tx = Inr v"
        "\<forall>fv. v = Some fv \<longrightarrow> can_compare r BYTES_CLASS (value_class fv)"
      using range_text_ok [OF settingD(2) [OF s] name] by metis
    show ?thesis
      unfolding v(1) bindE_simps
      by (rule checks_mono [OF value_node_ok]) (use v(2) in \<open>auto intro: has_class.fvalue\<close>)
  qed
  show ?thesis
  proof (cases b)
    case (STTYPE_FIELD h2)
    then have h2: "registered byname h2" "modelled (class_of_field reg h2)" using b by simp_all
    obtain hf2 where hf2: "deref reg h2 = Inr hf2" "ftype_class (hf_type hf2) = class_of_field reg h2"
        "ftype_class (hf_type hf2) \<noteq> OTHER_CLASS"
      using known_field [OF s h2] by metis
    have fc: "has_class reg (registered byname) funcs b (class_of_field reg h2)"
      unfolding STTYPE_FIELD using h2 by (rule has_class.field)
    have base: "sliced_base b" by (simp add: STTYPE_FIELD sliced_base_def)
    show ?thesis
      unfolding range_operand_def Let_def STTYPE_FIELD stnode.case hf2(1) bindE_simps
      unfolding STTYPE_FIELD [symmetric]
      using bytes_ftype_class [of "hf_type hf2"] slice_class [of "hf_type hf2"] hf2(2,3) fc
      by (auto intro!: checks_type_check exI [of _ BYTES_CLASS] bytes_comparable intro: whole_range [OF _ _ base])
  next
    case (STTYPE_RANGE e d')
    have rhs: "checks (check_drange_sanity d') (\<lambda>_. has_class reg (registered byname) funcs b BYTES_CLASS)"
      using rhs_range_class [of byname funcs e d' reg] b STTYPE_RANGE by simp
    show ?thesis
      unfolding range_operand_def Let_def STTYPE_RANGE stnode.case
      by (rule checks_bindI [OF rhs]) (auto simp: STTYPE_RANGE intro: bytes_comparable)
  next
    case (STTYPE_FUNCTION f ps)
    then have f: "f \<in> set funcs"
        "\<forall>p \<in> set ps. parsed_entity (registered byname) funcs p \<and> sound_entity reg p"
      using b by simp_all
    note other = function_class(1) [OF s f(1)]
    show ?thesis
      unfolding range_operand_def Let_def STTYPE_FUNCTION stnode.case
      by (rule checks_type_check, rule checks_bindI [OF check_function_ok [OF s f]])
        (use bytes_ftype_class [OF _ other] slice_class [OF _ other] in
         \<open>auto intro!: exI [of _ BYTES_CLASS] bytes_comparable intro: whole_range simp: sliced_base_def split: if_splits\<close>)
  qed (use b of_text in \<open>auto simp: range_operand_def\<close>)
qed

lemma lhs_range_ok:
  assumes s: "setting reg byname P funcs" and name: "op_name rs r"
    and a: "range_body e" "ended d" "tame d" "parsed_entity (registered byname) funcs e" "sound_entity reg e"
    and b: "parsed_entity (registered byname) funcs b" "sound_entity reg b" "sound_rhs reg b"
  shows "checks (check_relation_LHS_RANGE reg P rs ap e d b)
           (\<lambda>(x, y). typed_rel reg (registered byname) funcs r x y)"
  unfolding check_relation_LHS_RANGE_def
  by (rule checks_bindI [OF sliced_entity_ok [OF s a(1,4,5)]], rule checks_bindI [OF checks_sanity [OF a(2)]],
      rule checks_bindI [OF range_operand_ok [OF s name b]])
    (use a(3) in \<open>auto intro: typed_relI has_class.range\<close>)

section \<open>A function as the first operand\<close>

lemma function_text_ok:
  fixes P :: "'r fvalue_parsers"
  assumes P: "parsers_ok P" and name: "op_name rs r" and can: "can_for r ft" and other: "ftype_class ft \<noteq> OTHER_CLASS"
    and v: "function_text P rs ap ft k tx = Some v"
  shows "can_compare r (ftype_class ft) (value_class v)"
proof (cases "rs = ''matches''")
  case True
  then show ?thesis using matches_comparable [OF _ other] can name by (auto simp: op_name_def)
next
  case False
  then have "value_class v = ftype_class ft"
    using v from_text_class [OF P other] by (auto simp: function_text_def split: if_splits)
  then show ?thesis using can_comparable [OF can other] by simp
qed

lemma function_operands_ok:
  assumes s: "setting reg byname P funcs" and name: "op_name rs r"
    and f: "f \<in> set funcs" "can_for r (retval_ftype f)"
    and a: "has_class reg (registered byname) funcs a (ftype_class (retval_ftype f))" "sliced_base a"
    and b: "parsed_entity (registered byname) funcs b" "sound_entity reg b" "sound_rhs reg b"
      "\<And>c. entity_class reg b = Some c \<Longrightarrow> \<not> bool_mix (ftype_class (retval_ftype f)) c"
  shows "checks (function_operands reg P rs (can_for r) ap (retval_ftype f) a b)
           (\<lambda>(x, y). typed_rel reg (registered byname) funcs r x y)"
proof -
  note other = function_class [OF s f(1)]
  have of_text: "checks (bindE (value_node (function_text P rs ap (retval_ftype f) k tx)) (\<lambda>n. Inr (a, n)))
        (\<lambda>(x, y). typed_rel reg (registered byname) funcs r x y)" for k tx
    by (rule checks_bindI [OF value_node_ok])
      (use function_text_ok [OF settingD(2) [OF s] name f(2) other(1)] in
       \<open>auto intro: typed_relI [OF a(1)] has_class.fvalue\<close>)
  show ?thesis
  proof (cases b)
    case (STTYPE_FIELD h2)
    then have h2: "registered byname h2" "modelled (class_of_field reg h2)" using b by simp_all
    obtain hf2 where hf2: "deref reg h2 = Inr hf2" "ftype_class (hf_type hf2) = class_of_field reg h2"
        "ftype_class (hf_type hf2) \<noteq> OTHER_CLASS"
      using known_field [OF s h2] by metis
    have fc: "has_class reg (registered byname) funcs b (class_of_field reg h2)"
      unfolding STTYPE_FIELD using h2 by (rule has_class.field)
    obtain t where t: "compatible_ftypes (retval_ftype f) (hf_type hf2) = Inr t"
      using compatible_returns [OF other(2)] by blast
    have mix: "\<not> bool_mix (ftype_class (retval_ftype f)) (ftype_class (hf_type hf2))"
      using b(4) hf2(2) STTYPE_FIELD by (simp add: entity_class_def)
    have "typed_rel reg (registered byname) funcs r a b" if t
      using compatible_can_compare [OF _ f(2) other(1) hf2(3) mix] t that hf2(2)
      by (intro typed_relI [OF a(1) fc]) simp
    then show ?thesis
      unfolding function_operands_def Let_def STTYPE_FIELD stnode.case hf2(1) t bindE_simps
      by (auto intro!: checks_type_check)
  next
    case (STTYPE_RANGE e d')
    have rhs: "checks (check_drange_sanity d') (\<lambda>_. has_class reg (registered byname) funcs b BYTES_CLASS)"
      using rhs_range_class [of byname funcs e d' reg] b(1-3) STTYPE_RANGE by simp
    show ?thesis
      unfolding function_operands_def Let_def STTYPE_RANGE stnode.case
      unfolding STTYPE_RANGE [symmetric]
      by (rule checks_bindI [OF rhs])
        (use bytes_ftype_class [OF _ other(1)] slice_class [OF _ other(1)] a in
         \<open>auto intro!: checks_type_check typed_bytes whole_range\<close>)
  next
    case (STTYPE_FUNCTION f2 ps)
    then have f2: "f2 \<in> set funcs"
        "\<forall>p \<in> set ps. parsed_entity (registered byname) funcs p \<and> sound_entity reg p"
      using b by simp_all
    obtain t where t: "compatible_ftypes (retval_ftype f) (retval_ftype f2) = Inr t"
      using compatible_returns [OF other(2)] by blast
    have mix: "\<not> bool_mix (ftype_class (retval_ftype f)) (ftype_class (retval_ftype f2))"
      using b(4) STTYPE_FUNCTION by (simp add: entity_class_def)
    have "can_compare r (ftype_class (retval_ftype f)) (ftype_class (retval_ftype f2))" if t
      using compatible_can_compare [OF _ f(2) other(1) function_class(1) [OF s f2(1)] mix] t that by simp
    then show ?thesis
      unfolding function_operands_def Let_def STTYPE_FUNCTION stnode.case t bindE_simps
      by (auto intro!: checks_type_check checks_bindI [OF check_function_ok [OF s f2]] typed_relI [OF a(1)])
  qed (use b of_text in \<open>auto simp: function_operands_def\<close>)
qed

lemma lhs_function_ok:
  assumes s: "setting reg byname P funcs" and name: "op_name rs r"
    and a: "parsed_entity (registered byname) funcs (STTYPE_FUNCTION f ps)"
    and rel: "sound_rel reg (STTYPE_FUNCTION f ps) b"
    and b: "parsed_entity (registered byname) funcs b"
  shows "checks (check_relation_LHS_FUNCTION reg P rs (can_for r) ap f ps b)
           (\<lambda>(x, y). typed_rel reg (registered byname) funcs r x y)"
proof -
  have f: "f \<in> set funcs" "\<forall>p \<in> set ps. parsed_entity (registered byname) funcs p \<and> sound_entity reg p"
    using a sound_relD(1) [OF rel] by simp_all
  have mix: "\<not> bool_mix (ftype_class (retval_ftype f)) c" if "entity_class reg b = Some c" for c
    using sound_relD(4) [OF rel _ that] by (simp add: entity_class_def)
  show ?thesis
    unfolding check_relation_LHS_FUNCTION_def
    by (rule checks_bindI [OF check_function_ok [OF s f]], rule checks_type_check)
      (auto intro!: function_operands_ok [OF s name f(1)] b sound_relD(2,3) [OF rel] mix simp: sliced_base_def)
qed


section \<open>Tests\<close>

lemma relation_args_rel:
  assumes "rel_op op = Some r"
  shows "\<exists>rs ap. relation_args op = Some (rs, ap, can_for r) \<and> op_name rs r \<and>
           op \<noteq> TEST_OP_EXISTS \<and> op \<noteq> TEST_OP_NOT \<and> op \<noteq> TEST_OP_AND \<and> op \<noteq> TEST_OP_OR \<and> op \<noteq> TEST_OP_IN"
  using assms by (cases op) (auto simp: rel_op_def op_name_def ftype_can_for)

lemma protocol_check_ok:
  assumes "setting reg byname P funcs" "parsed_entity (registered byname) funcs b" "sound_entity reg b"
  shows "checks (case b of
            STTYPE_FIELD h2 \<Rightarrow> bindE (deref reg h2) (\<lambda>hfinfo. type_check (hf_type hfinfo \<noteq> FT_PROTOCOL))
          | _ \<Rightarrow> Inr ()) (\<lambda>_. True)"
proof (cases b)
  case (STTYPE_FIELD h2)
  then obtain hf where "deref reg h2 = Inr hf" using known_field [OF assms(1)] assms(2,3) by auto
  then show ?thesis using STTYPE_FIELD by (simp add: type_check_def)
qed simp_all

lemma check_relation_ok:
  assumes s: "setting reg byname P funcs" and name: "op_name rs r"
    and a: "parsed_entity (registered byname) funcs a" and b: "parsed_entity (registered byname) funcs b"
    and rel: "sound_rel reg a b"
  shows "checks (check_relation reg P rs ap (can_for r) a b)
           (\<lambda>(x, y). typed_rel reg (registered byname) funcs r x y)"
  unfolding check_relation_def
proof (rule checks_bindI [OF protocol_check_ok [OF s b sound_relD(2) [OF rel]]])
  note b' = b sound_relD(2,3) [OF rel]
  have conv: "conv_ok fvalue_from_string P" "conv_ok (\<lambda>P ft s. fvalue_from_unparsed P ft s ap) P"
    by (rule parsers_conv_ok [OF settingD(2) [OF s]])+
  show "checks (case a of
        STTYPE_FIELD h \<Rightarrow> check_relation_LHS_FIELD reg P rs (can_for r) ap True h b
      | STTYPE_STRING s \<Rightarrow> check_relation_LHS_STRING reg P (can_for r) s b
      | STTYPE_CHARCONST s \<Rightarrow> check_relation_LHS_UNPARSED reg P ap (can_for r) s b
      | STTYPE_UNPARSED s \<Rightarrow> check_relation_LHS_UNPARSED reg P ap (can_for r) s b
      | STTYPE_RANGE entity1 dr \<Rightarrow> check_relation_LHS_RANGE reg P rs ap entity1 dr b
      | STTYPE_FUNCTION funcdef params \<Rightarrow>
          check_relation_LHS_FUNCTION reg P rs (can_for r) ap funcdef params b
      | _ \<Rightarrow> Inl Fault) (\<lambda>(x, y). typed_rel reg (registered byname) funcs r x y)"
  proof (cases a)
    case (STTYPE_FIELD h)
    then have "registered byname h" using a by simp
    from checks_mono [OF lhs_field_ok [OF s this name b, of True]] show ?thesis
      using rel unfolding STTYPE_FIELD stnode.case by auto
  next
    case (STTYPE_RANGE e d)
    then have "range_body e" "ended d" "tame d" "parsed_entity (registered byname) funcs e" "sound_entity reg e"
      using a sound_relD(1) [OF rel] by simp_all
    from lhs_range_ok [OF s name this b'] show ?thesis unfolding STTYPE_RANGE stnode.case .
  next
    case (STTYPE_FUNCTION f ps)
    from lhs_function_ok [OF s name a [unfolded STTYPE_FUNCTION] rel [unfolded STTYPE_FUNCTION] b]
    show ?thesis unfolding STTYPE_FUNCTION stnode.case .
  qed (use a lhs_text_ok [OF s conv(1) b'] lhs_text_ok [OF s conv(2) b'] in
      \<open>simp_all add: check_relation_LHS_STRING_def check_relation_LHS_UNPARSED_def\<close>)
qed

lemma check_in_ok:
  assumes s: "setting reg byname P funcs"
    and a: "parsed_entity (registered byname) funcs a" "sound_entity reg a"
    and elems: "parsed_set (registered byname) funcs elems" "\<forall>elem \<in> set elems. sound_elem reg a elem"
  shows "checks (check_relation reg P ''in'' ap (can_for ANY_EQ) a (STTYPE_SET elems))
           (\<lambda>(x, y). (\<exists>c. has_class reg (registered byname) funcs x c) \<and>
              (\<exists>elems'. y = STTYPE_SET elems' \<and> elems' \<noteq> [] \<and>
                 (\<forall>elem \<in> set elems'. typed_elem reg (registered byname) funcs x elem)))"
proof (cases a)
  case (STTYPE_FIELD h)
  then have h: "registered byname h" "modelled (class_of_field reg h)" using a by simp_all
  obtain hf where hf: "deref reg h = Inr hf" using known_field [OF s h] by metis
  have fc: "has_class reg (registered byname) funcs a (class_of_field reg h)"
    unfolding STTYPE_FIELD using h by (rule has_class.field)
  have "\<forall>elem \<in> set elems. parsed_entity (registered byname) funcs (fst elem) \<and>
        pred_option (parsed_entity (registered byname) funcs) (snd elem)" "elems \<noteq> []"
    using elems(1) by (simp_all add: parsed_set_def)
  note set_ok = set_elements_ok [OF s h this(1) elems(2) [unfolded STTYPE_FIELD], of ap] and ne = this(2)
  show ?thesis
    unfolding check_relation_def stnode.case bindE_simps STTYPE_FIELD check_relation_LHS_FIELD.simps Let_def hf
    by (rule checks_type_check, simp, rule checks_bindI [OF set_ok])
      (use ne fc STTYPE_FIELD in \<open>auto simp flip: length_greater_0_conv\<close>)
next
  case (STTYPE_FUNCTION f ps)
  then have f: "f \<in> set funcs" "\<forall>p \<in> set ps. parsed_entity (registered byname) funcs p \<and> sound_entity reg p"
    using a by simp_all
  show ?thesis
    unfolding check_relation_def stnode.case bindE_simps STTYPE_FUNCTION check_relation_LHS_FUNCTION_def
      function_operands_def Let_def
    by (rule checks_bindI [OF check_function_ok [OF s f]], rule checks_type_check) simp
next
  case (STTYPE_RANGE e d)
  then have e: "range_body e" "ended d" "parsed_entity (registered byname) funcs e" "sound_entity reg e"
    using a by simp_all
  show ?thesis
    unfolding check_relation_def stnode.case bindE_simps STTYPE_RANGE check_relation_LHS_RANGE_def
      range_operand_def Let_def
    by (rule checks_bindI [OF sliced_entity_ok [OF s e(1,3,4)]], rule checks_bindI [OF checks_sanity [OF e(2)]]) simp
qed (use a in \<open>auto simp: check_relation_def check_relation_LHS_STRING_def check_relation_LHS_UNPARSED_def
      check_relation_LHS_text_def\<close>)

lemma exists_ok:
  assumes "parsed_entity known funcs a"
  shows "checks (check_exists_test a) (\<lambda>_. case a of STTYPE_FIELD h \<Rightarrow> known h | _ \<Rightarrow> False)"
  using assms by (cases a) (simp_all add: check_exists_test_def)

lemma semcheck_rel_ok:
  assumes s: "setting reg byname P funcs" and op: "rel_op op = Some r"
    and t: "parsed_test (registered byname) funcs (STTYPE_TEST op a b0)" "sound_test reg (STTYPE_TEST op a b0)"
  shows "checks (semcheck reg P brk pos (STTYPE_TEST op a b0) dep)
           (\<lambda>(t', dep'). typed_test reg (registered byname) funcs t')"
proof -
  obtain rs ap where args: "relation_args op = Some (rs, ap, can_for r)" "op_name rs r"
      "op \<noteq> TEST_OP_EXISTS" "op \<noteq> TEST_OP_NOT" "op \<noteq> TEST_OP_AND" "op \<noteq> TEST_OP_OR" "op \<noteq> TEST_OP_IN"
    using relation_args_rel [OF op] by blast
  obtain b where b: "b0 = Some b" using t(2) args by (cases b0) simp_all
  have rel: "sound_rel reg a b" using t(2) args b by simp
  have ent: "parsed_entity (registered byname) funcs a" "parsed_entity (registered byname) funcs b"
    using t(1) op unfolding b by (cases op; simp add: rel_op_def)+
  have typed: "typed_test reg (registered byname) funcs (STTYPE_TEST op x (Some y)) =
      typed_rel reg (registered byname) funcs r x y" for x y
    using op by (cases op) (simp_all add: rel_op_def)
  show ?thesis
    unfolding b
    by (simp add: args) (rule checks_bindI [OF check_relation_ok [OF s args(2) ent rel]], auto simp: typed)
qed

lemma semcheck_in_ok:
  assumes s: "setting reg byname P funcs"
    and t: "parsed_test (registered byname) funcs (STTYPE_TEST TEST_OP_IN a b0)"
      "sound_test reg (STTYPE_TEST TEST_OP_IN a b0)"
  shows "checks (semcheck reg P brk pos (STTYPE_TEST TEST_OP_IN a b0) dep)
           (\<lambda>(t', dep'). typed_test reg (registered byname) funcs t')"
proof -
  obtain elems where b: "b0 = Some (STTYPE_SET elems)" "\<forall>elem \<in> set elems. sound_elem reg a elem"
      "sound_entity reg a"
    using t(2) by (auto split: option.splits stnode.splits)
  have a: "parsed_entity (registered byname) funcs a" "parsed_set (registered byname) funcs elems"
    using t(1) b(1) by simp_all
  show ?thesis
    unfolding b(1)
    by (simp add: ftype_can_for) (rule checks_bindI [OF check_in_ok [OF s a(1) b(3) a(2) b(2)]], auto)
qed

lemma semcheck_ok:
  assumes s: "setting reg byname P funcs"
  shows "parsed_test (registered byname) funcs t \<Longrightarrow> sound_test reg t \<Longrightarrow>
     checks (semcheck reg P brk pos t dep) (\<lambda>(t', dep'). typed_test reg (registered byname) funcs t')"
proof (induction t arbitrary: pos dep rule: measure_induct_rule [of size])
  case (less t)
  obtain op a b0 where t: "t = STTYPE_TEST op a b0" using less.prems(2) by (cases t) simp_all
  consider "op = TEST_OP_EXISTS" | "op = TEST_OP_NOT" | "op = TEST_OP_AND \<or> op = TEST_OP_OR"
    | "op = TEST_OP_IN" | r where "rel_op op = Some r" | "op = TEST_OP_UNINITIALIZED"
    by (cases op) (auto simp: rel_op_def)
  then show ?case
  proof cases
    case 1
    then have "parsed_entity (registered byname) funcs a" using less.prems(1) t by (cases b0) simp_all
    then show ?thesis unfolding t 1 by (auto intro!: checks_bindI [OF exists_ok])
  next
    case 2
    have "b0 = None" using less.prems(1) unfolding t 2 by (cases b0) (simp_all add: rel_op_def)
    then have "parsed_test (registered byname) funcs a" "sound_test reg a" "size a < size t"
      using less.prems unfolding t 2 by simp_all
    note ih = less.IH [OF this(3,1,2)]
    show ?thesis unfolding t 2 by (auto intro!: checks_bindI [OF ih])
  next
    case 3
    then obtain b where b: "b0 = Some b" using less.prems(1) t by (cases b0) auto
    have "parsed_test (registered byname) funcs a" "sound_test reg a" "size a < size t"
        "parsed_test (registered byname) funcs b" "sound_test reg b" "size b < size t"
      using less.prems 3 unfolding t b by auto
    note ih = less.IH [OF this(3,1,2)] less.IH [OF this(6,4,5)]
    have "checks (bindE (semcheck reg P brk p a d) (\<lambda>(a', d1).
              bindE (semcheck reg P brk q b d1) (\<lambda>(b', d2). Inr (STTYPE_TEST op a' (Some b'), d2))))
            (\<lambda>(t', dep'). typed_test reg (registered byname) funcs t')" for p q d
      using 3 by (auto intro!: checks_bindI [OF ih(1)] checks_bindI [OF ih(2)])
    then show ?thesis using 3 unfolding t b by auto
  next
    case 4
    then show ?thesis using semcheck_in_ok [OF s] less.prems unfolding t by blast
  next
    case 5
    then show ?thesis using semcheck_rel_ok [OF s] less.prems unfolding t by blast
  next
    case 6
    then show ?thesis using less.prems(1) unfolding t by (cases b0) (simp_all add: rel_op_def)
  qed
qed

end
