(* ===== verification/DfilterSafety.thy ===== *)
theory DfilterSafety
  imports SemcheckMain
begin

text \<open>
  What the semantic check is for: a filter that it lets through runs to an answer on every tree whose fields
  have values of their types. No comparison reads a member that is not there and no slice aborts.
\<close>

section \<open>Trees and functions\<close>

text \<open>
  The values of a field are of the class of its type, and strings of bytes have a length that a \<open>gint\<close>
  holds.
\<close>

definition typed_value :: "vclass \<Rightarrow> 'r fvalue \<Rightarrow> bool" where
  "typed_value c v = (value_class v = c \<and> length (fv_content v) < 0x80000000)"

definition typed_tree :: "'p registrar \<Rightarrow> (string \<Rightarrow> nat list) \<Rightarrow> 'r fvalue proto_tree \<Rightarrow> bool" where
  "typed_tree reg byname tree =
     (\<forall>s. \<forall>p \<in> set (byname s). \<forall>l. tree (int p) = Some l \<longrightarrow> (\<forall>v \<in> set l. typed_value (class_of_field reg p) v))"

definition functions_ok :: "('r fvalue \<Rightarrow> ftenum) \<Rightarrow> ('r fvalue \<Rightarrow> guint8 list option) \<Rightarrow> bool" where
  "functions_ok type_of string_repr =
     ((\<forall>v. IS_FT_STRING (type_of v) \<longrightarrow> value_class v = STRING_CLASS) \<and>
      (\<forall>v s. string_repr v = Some s \<longrightarrow> length s < 0x80000000))"

lemma tree_values_typed:
  assumes "fields_fit reg byname" "typed_tree reg byname tree" "registered byname h"
  shows "\<forall>v \<in> set (env_values (tree_env reg ops tree) h). typed_value (class_of_field reg h) v"
proof
  fix v assume v: "v \<in> set (env_values (tree_env reg ops tree) h)"
  obtain s where s: "names reg byname" "h \<in> set (byname s)" using fields_fitD [OF assms(1,3)] by metis
  then have "same_name_ids reg h = byname s" by (rule same_name_ids_names)
  then obtain p l where p: "p \<in> set (byname s)" "tree (int p) = Some l" "v \<in> set l"
    using v by (auto simp: tree_env_def tree_values_def split: option.splits) (metis option.exhaust)
  then have "typed_value (class_of_field reg p) v" using assms(2) unfolding typed_tree_def by blast
  moreover have "class_of_field reg p = class_of_field reg h"
    using assms(1) p(1) s(2) unfolding fields_fit_def by blast
  ultimately show "typed_value (class_of_field reg h) v" by simp
qed

lemma string_walk_typed:
  assumes "functions_ok type_of string_repr" "\<forall>v \<in> set vs. length (fv_content v) < 0x80000000"
    and "\<forall>v \<in> set retval. typed_value STRING_CLASS v"
  shows "\<exists>l. string_walk type_of conv vs retval = Inr (True, l) \<and> (\<forall>v \<in> set l. typed_value STRING_CLASS v)"
  using assms(2,3)
proof (induction vs arbitrary: retval)
  case (Cons v vs)
  show ?case
  proof (cases "IS_FT_STRING (type_of v)")
    case True
    then obtain bs where v: "v = STRING bs" using assms(1) by (cases v) (auto simp: functions_ok_def)
    have "length (takeWhile (\<lambda>c. c \<noteq> 0) bs) \<le> length bs" by (rule length_takeWhile_le)
    then have len: "length (takeWhile (\<lambda>c. c \<noteq> 0) bs) < 0x80000000"
      using Cons.prems(1) v by (simp add: fv_content_def)
    have "\<exists>l. string_walk type_of conv vs (retval @ [STRING (map conv (takeWhile (\<lambda>c. c \<noteq> 0) bs))]) =
        Inr (True, l) \<and> (\<forall>v \<in> set l. typed_value STRING_CLASS v)"
      using Cons.prems len by (intro Cons.IH) (auto simp: typed_value_def fv_content_def)
    then show ?thesis using True v by (simp add: fvalue_get_string_def)
  qed (use Cons in simp)
qed simp

lemma df_func_string_typed:
  assumes "functions_ok type_of string_repr" "\<forall>v \<in> set retval. typed_value STRING_CLASS v"
  shows "\<exists>l. df_func_string type_of string_repr vs junk retval = Inr (True, l) \<and>
           (\<forall>v \<in> set l. typed_value STRING_CLASS v)"
  using assms(2)
proof (induction vs arbitrary: retval)
  case (Cons v vs)
  have "\<forall>w \<in> set (retval @ [STRING (case string_repr v of None \<Rightarrow> [] | Some s \<Rightarrow> s)]). typed_value STRING_CLASS w"
    using Cons.prems assms(1) by (auto simp: typed_value_def fv_content_def functions_ok_def split: option.splits)
  from Cons.IH [OF this] show ?case using Cons.prems by (simp add: Let_def)
qed simp

lemma function_typed:
  assumes ok: "functions_ok type_of string_repr" and f: "f \<in> set (df_functions type_of string_repr)"
    and vs: "\<forall>v \<in> set vs. length (fv_content v) < 0x80000000"
  shows "\<exists>ok l. df_function f vs [] [] = Inr (ok, l) \<and>
           (\<forall>v \<in> set l. typed_value (ftype_class (retval_ftype f)) v)"
proof -
  have c: "ftype_class FT_STRING = STRING_CLASS" "ftype_class FT_UINT32 = INT32_CLASS"
    by (simp_all add: ftype_class_def)
  note walk = string_walk_typed [OF ok vs, of "[]", simplified]
  note str = df_func_string_typed [OF ok, of "[]", simplified]
  consider conv where "df_function f vs [] [] = string_walk type_of conv vs []" "retval_ftype f = FT_STRING"
    | "df_function f vs [] [] = df_func_len vs [] []" "retval_ftype f = FT_UINT32"
    | "df_function f vs [] [] = df_func_count vs [] []" "retval_ftype f = FT_UINT32"
    | "df_function f vs [] [] = df_func_string type_of string_repr vs [] []" "retval_ftype f = FT_STRING"
    using f by (auto simp: df_functions_def df_func_lower_def df_func_upper_def)
  then show ?thesis
  proof cases
    case 1
    then show ?thesis using walk c by metis
  next
    case 2
    then show ?thesis using c by (auto simp: df_func_len_def typed_value_def fv_content_def)
  next
    case 3
    then show ?thesis using c by (auto simp: df_func_count_def typed_value_def fv_content_def)
  next
    case 4
    then show ?thesis using str c by metis
  qed
qed

section \<open>Entities\<close>

lemma tame_slice:
  assumes "sane d" "tame d" "fv_proper v"
  shows "\<exists>bs. fvalue_slice (fvalue_ops re) v d = Inr (BYTES bs)"
proof -
  have "\<forall>n \<in> set (range_list d). sane_node n \<and> \<not> straddles n \<and> \<not> overflows (length (fv_content v)) n"
    using assms by (auto simp: sane_def tame_def fv_proper_def)
  then show ?thesis
    using fv.fvalue_slice_parts [OF assms(3), of d re] by (simp add: fvalue_ops_def)
qed

lemma slice_list_typed:
  assumes "sane d" "tame d" "\<forall>v \<in> set vs. fv_proper v"
  shows "\<exists>l. slice_list (fvalue_ops re) d vs = Inr l \<and> (\<forall>v \<in> set l. value_class v = BYTES_CLASS)"
  using assms(3)
proof (induction vs)
  case (Cons v vs)
  obtain bs where "fvalue_slice (fvalue_ops re) v d = Inr (BYTES bs)"
    using tame_slice [OF assms(1,2), of v re] Cons.prems by auto
  then show ?case using Cons by auto
qed simp

lemma typed_proper:
  "typed_value c v \<Longrightarrow> c = BYTES_CLASS \<or> c = STRING_CLASS \<Longrightarrow> fv_proper v"
  by (cases v) (auto simp: typed_value_def fv_proper_def)

definition entity_typed :: "'r fvalue env \<Rightarrow> 'r fvalue stnode \<Rightarrow> vclass \<Rightarrow> bool" where
  "entity_typed E e c =
     (\<exists>r. eval_entity E e = Inr r \<and>
        (\<forall>vs. r = Some vs \<longrightarrow> (\<forall>v \<in> set vs. value_class v = c \<and> (sliced_base e \<longrightarrow> typed_value c v))))"

lemma eval_has_class:
  assumes fields: "fields_fit reg byname" and tree: "typed_tree reg byname tree"
    and funcs: "functions_ok type_of string_repr" "funcs = df_functions type_of string_repr"
    and e: "has_class reg (registered byname) funcs e c"
  shows "entity_typed (tree_env reg (fvalue_ops re) tree) e c"
  using e
proof (induction rule: has_class.induct)
  case (field h)
  then show ?case
    using tree_values_typed [OF fields tree, of h "fvalue_ops re"]
    by (auto simp: entity_typed_def typed_value_def)
next
  case (fvalue v)
  then show ?case by (simp add: entity_typed_def sliced_base_def)
next
  case (funct f h)
  let ?vs = "env_values (tree_env reg (fvalue_ops re) tree) h"
  have "\<forall>v \<in> set ?vs. length (fv_content v) < 0x80000000"
    using tree_values_typed [OF fields tree funct(2)] by (auto simp: typed_value_def)
  then obtain ok l where "df_function f ?vs [] [] = Inr (ok, l)"
      "\<forall>v \<in> set l. typed_value (ftype_class (retval_ftype f)) v"
    using function_typed [OF funcs(1), of f ?vs] funct(1) funcs(2) by blast
  then show ?case by (auto simp: entity_typed_def typed_value_def)
next
  case (range e c d)
  let ?E = "tree_env reg (fvalue_ops re) tree"
  obtain r where r: "eval_entity ?E e = Inr r"
      "\<And>vs. r = Some vs \<Longrightarrow> \<forall>v \<in> set vs. typed_value c v"
    using range.IH range.hyps(3) by (auto simp: entity_typed_def)
  show ?case
  proof (cases r)
    case None
    then show ?thesis using r(1) by (simp add: entity_typed_def)
  next
    case (Some vs)
    then have "\<forall>v \<in> set vs. fv_proper v" using r(2) typed_proper range.hyps(2) by blast
    then obtain l where "slice_list (fvalue_ops re) d vs = Inr l" "\<forall>v \<in> set l. value_class v = BYTES_CLASS"
      using slice_list_typed [OF range.hyps(4,5), of vs re] by blast
    then show ?thesis
      using r(1) Some by (simp add: entity_typed_def sliced_base_def) (simp add: tree_env_def)
  qed
qed


section \<open>Tests\<close>

definition answers :: "bool res \<Rightarrow> bool" where
  "answers m = (\<exists>b. m = Inr b)"

lemma answers_Inr [simp]: "answers (Inr b)"
  by (simp add: answers_def)

lemma answers_bind: "answers m \<Longrightarrow> (\<And>b. answers (f b)) \<Longrightarrow> answers (bindE m f)"
  by (auto simp: answers_def)

lemma any_answers:
  assumes "can_compare op ca cb" "\<forall>a \<in> set xs. value_class a = ca" "\<forall>b \<in> set ys. value_class b = cb"
  shows "answers (any_test (op_cmp (fvalue_ops re) op) xs ys)"
  using any_test_class [OF assms, of re] by (simp add: answers_def)

lemma rel_answers:
  assumes "entity_typed E a c" "entity_typed E b d" "can_compare r c d" "env_ops E = fvalue_ops re"
  shows "answers (eval_rel E r a b)"
proof -
  obtain ra rb where r: "eval_entity E a = Inr ra" "eval_entity E b = Inr rb"
      "\<And>vs. ra = Some vs \<Longrightarrow> \<forall>v \<in> set vs. value_class v = c"
      "\<And>vs. rb = Some vs \<Longrightarrow> \<forall>v \<in> set vs. value_class v = d"
    using assms(1,2) by (auto simp: entity_typed_def)
  show ?thesis
    using r any_answers [OF assms(3), of _ _ re] assms(4)
    by (cases ra; cases rb) (simp_all add: eval_rel_def)
qed

lemma member_answers:
  assumes typed: "\<And>e c. has_class reg known funcs e c \<Longrightarrow> entity_typed E e c"
    and ops: "env_ops E = fvalue_ops re"
    and a: "\<And>c. has_class reg known funcs a c \<Longrightarrow> \<forall>v \<in> set xs. value_class v = c"
    and elem: "typed_elem reg known funcs a elem"
  shows "answers (eval_member E xs elem)"
proof (cases elem)
  case (Pair n m)
  show ?thesis
  proof (cases m)
    case None
    then obtain c d where cd: "has_class reg known funcs a c" "has_class reg known funcs n d"
        "can_compare ANY_EQ c d"
      using elem Pair by (auto simp: typed_elem_def typed_rel_def)
    obtain r where r: "eval_entity E n = Inr r" "\<And>vs. r = Some vs \<Longrightarrow> \<forall>v \<in> set vs. value_class v = d"
      using typed [OF cd(2)] by (auto simp: entity_typed_def)
    show ?thesis
      using r any_answers [OF cd(3) a [OF cd(1)], of _ re] ops Pair None
      by (cases r) (simp_all add: eval_member_def)
  next
    case (Some n2)
    then obtain v w where vw: "n = STTYPE_FVALUE v" "n2 = STTYPE_FVALUE w"
      using elem Pair by (auto simp: typed_elem_def)
    obtain c where c: "has_class reg known funcs a c" "can_compare ANY_GE c (value_class v)"
      using elem Pair Some vw by (auto simp: typed_elem_def typed_rel_def elim: has_classE)
    obtain c' where c': "has_class reg known funcs a c'" "can_compare ANY_LE c' (value_class w)"
      using elem Pair Some vw by (auto simp: typed_elem_def typed_rel_def elim: has_classE)
    show ?thesis
    proof (cases xs)
      case Nil
      then show ?thesis using Pair Some vw by (simp add: eval_member_def any_in_range_def)
    next
      case (Cons x xs')
      have "value_class x = c" "value_class x = c'"
        using a [OF c(1)] a [OF c'(1)] Cons by (metis list.set_intros(1))+
      then have "c' = c" by simp
      then have "\<exists>t. any_in_range (fvalue_ops re) xs [v] [w] = Inr t"
        using in_range_class [OF c(2) _ a [OF c(1)], of w re] c'(2) by simp
      then show ?thesis using Pair Some vw ops by (simp add: eval_member_def answers_def)
    qed
  qed
qed

lemma set_answers:
  assumes "\<And>elem. elem \<in> set elems \<Longrightarrow> answers (eval_member E xs elem)"
  shows "answers (eval_set E xs elems)"
  using assms by (induction elems) (auto intro!: answers_bind)

lemma typed_answers:
  assumes typed: "\<And>e c. has_class reg known funcs e c \<Longrightarrow> entity_typed E e c"
    and ops: "env_ops E = fvalue_ops re"
  shows "typed_test reg known funcs t \<Longrightarrow> answers (eval_test E t)"
proof (induction t rule: measure_induct_rule [of size])
  case (less t)
  obtain op a b0 where t: "t = STTYPE_TEST op a b0" using less.prems by (cases t) simp_all
  consider "op = TEST_OP_EXISTS" | "op = TEST_OP_NOT" | "op = TEST_OP_AND" | "op = TEST_OP_OR"
    | "op = TEST_OP_IN" | r where "rel_op op = Some r" | "op = TEST_OP_UNINITIALIZED"
    by (cases op) (auto simp: rel_op_def)
  then show ?case
  proof cases
    case 1
    then show ?thesis using less.prems t by (cases a) simp_all
  next
    case 2
    then show ?thesis using less.prems less.IH [of a] t by (auto intro!: answers_bind)
  next
    case 3
    then show ?thesis
      using less.prems less.IH [of a] less.IH [of "the b0"] t by (cases b0) (auto intro!: answers_bind)
  next
    case 4
    then show ?thesis
      using less.prems less.IH [of a] less.IH [of "the b0"] t by (cases b0) (auto intro!: answers_bind)
  next
    case 5
    then obtain elems c where b: "b0 = Some (STTYPE_SET elems)" "has_class reg known funcs a c"
        "\<forall>elem \<in> set elems. typed_elem reg known funcs a elem"
      using less.prems t by (cases b0) (auto split: stnode.splits)
    obtain r where r: "eval_entity E a = Inr r"
        "\<And>vs d. r = Some vs \<Longrightarrow> has_class reg known funcs a d \<Longrightarrow> \<forall>v \<in> set vs. value_class v = d"
      using typed [OF b(2)] typed [of a] unfolding entity_typed_def by fastforce
    have "answers (eval_set E vs elems)" if "r = Some vs" for vs
      using b(3) r(2) [OF that] by (intro set_answers member_answers [OF typed ops]) blast+
    then show ?thesis using 5 t b(1) r(1) by (cases r) (simp_all add: eval_in_def)
  next
    case (6 r)
    then obtain b where b: "b0 = Some b" "typed_rel reg known funcs r a b"
      using less.prems t by (cases op; cases b0) (auto simp: rel_op_def)
    have "eval_test E t = eval_rel E r a b"
      using 6 t b(1) by (cases op) (auto simp: rel_op_def)
    then show ?thesis using b(2) rel_answers [OF typed typed _ ops] by (auto simp: typed_rel_def)
  next
    case 7
    then show ?thesis using less.prems t by (cases b0) (simp_all add: rel_op_def)
  qed
qed


section \<open>The contract\<close>

definition sample_parsers :: "unit fvalue_parsers" where
  "sample_parsers =
     \<lparr>val_from_unparsed = (\<lambda>ft s b. if ftype_class ft = INT32_CLASS then Some (UINTEGER 4 (of_nat (length s))) else None),
      val_from_string = (\<lambda>_ _. None)\<rparr>"

definition sample_functions :: "unit fvalue df_func_def list" where
  "sample_functions = df_functions (\<lambda>_. FT_NONE) (\<lambda>_. None)"

lemma sample_fields: "fields_fit sample_registrar sample_names"
proof -
  have "deref sample_registrar p = Inr hf \<Longrightarrow> hf_type hf = FT_UINT32 \<and> hf_strings hf = NO_STRINGS" for p hf
    by (auto simp: deref_def sample_registrar_def Let_def sample_field_def nth_Cons' split: if_splits)
  moreover have "\<exists>hf. deref sample_registrar p = Inr hf" if "p \<in> set (sample_names s)" for p s
    using namesD(3) [OF sample_names that] by blast
  ultimately show ?thesis
    using sample_names unfolding fields_fit_def strings_fit_def class_of_field_def
    by (fastforce split: sum.splits)
qed

lemma sample_setting:
  "setting sample_registrar sample_names sample_parsers sample_functions"
  "functions_ok (\<lambda>_ :: unit fvalue. FT_NONE) (\<lambda>_. None)"
  using sample_fields
  by (auto simp: setting_def parsers_ok_def sample_parsers_def sample_functions_def functions_ok_def
      IS_FT_STRING_def split: if_splits)

text \<open>The filter \<open>a.b == xxxxx && !(c in {x .. xxx})\<close>; the sample parser reads a text as its length.\<close>

definition sample_parsed :: "unit fvalue stnode" where
  "sample_parsed =
     STTYPE_TEST TEST_OP_AND (STTYPE_TEST TEST_OP_EQ (STTYPE_FIELD 2) (Some (STTYPE_UNPARSED ''xxxxx'')))
       (Some (STTYPE_TEST TEST_OP_NOT
          (STTYPE_TEST TEST_OP_IN (STTYPE_FIELD 1)
             (Some (STTYPE_SET [(STTYPE_UNPARSED ''x'', Some (STTYPE_UNPARSED ''xxx''))]))) None))"

lemma sample_deref:
  assumes "p < 3"
  shows "\<exists>hf. deref sample_registrar p = Inr hf \<and> hf_type hf = FT_UINT32 \<and> hf_strings hf = NO_STRINGS"
proof -
  have "p = 0 \<or> p = 1 \<or> p = 2" using assms by auto
  then show ?thesis
    by (auto simp: deref_def sample_registrar_def Let_def sample_field_def numeral_2_eq_2)
qed

lemma sample_class: "p < 3 \<Longrightarrow> class_of_field sample_registrar p = INT32_CLASS"
  using sample_deref [of p] by (auto simp: class_of_field_def ftype_class_def)

lemma sample_parsed_ok:
  "parsed_test (registered sample_names) sample_functions sample_parsed"
  "sound_test sample_registrar sample_parsed"
proof -
  have "registered sample_names 1" "registered sample_names 2"
    by (auto simp: registered_def sample_names_def intro: exI [of _ "''a.b''"] exI [of _ "''c''"])
  then show "parsed_test (registered sample_names) sample_functions sample_parsed"
    by (simp add: sample_parsed_def parsed_set_def rel_op_def)
  show "sound_test sample_registrar sample_parsed"
    using sample_class [of 1] sample_class [of 2]
    by (simp add: sample_parsed_def sound_rel_def sound_elem_def sound_rhs_def entity_class_def is_text_def modelled_def)
qed

lemma sample_text:
  assumes "hf_type hf = FT_UINT32" "rs \<noteq> ''matches''"
  shows "field_text sample_registrar sample_parsers rs ap hf KIND_UNPARSED s =
           Inr (STTYPE_FVALUE (UINTEGER 4 (of_nat (length s))))"
proof -
  have "skip_incompatible sample_registrar KIND_UNPARSED hf = Some (Inr hf)"
    using assms(1) by (simp add: skip_incompatible.simps incompatible_text_def)
  then show ?thesis
    using assms
    by (simp add: field_text_def returned_def fvalue_from_unparsed_def sample_parsers_def uint32_type_def
        ftype_class_def value_node_def)
qed

lemma sample_accepted:
  "\<exists>t'. dfw_semcheck sample_registrar sample_parsers (\<lambda>_. False) sample_parsed [] = Inr (Some (t', []))"
proof -
  obtain hf1 hf2 where hf: "deref sample_registrar 1 = Inr hf1" "hf_type hf1 = FT_UINT32"
      "deref sample_registrar 2 = Inr hf2" "hf_type hf2 = FT_UINT32"
    using sample_deref [of 1] sample_deref [of 2] by auto
  show ?thesis
    by (simp add: sample_parsed_def dfw_semcheck_def bracket_hint_def check_relation_def
        check_relation_LHS_FIELD.simps hf hf(1) [unfolded One_nat_def] sample_text type_check_def
        ftype_can_for can_for_def ftype_tables)
qed

text \<open>
  C14. The semantic check is a type check, on the trees of the grammar that \<open>sound_test\<close> describes: the fields
  are of the byte, string, integer and boolean types (no IPv4 or IPv6 addresses, protocols, times, floating
  point numbers or GUIDs), no slice runs from a negative to a non-negative offset or to a length near 2 GB,
  a slice as the second operand is one of a field of bytes or a string, the bounds of a range in a set are
  texts, and no boolean meets an integer of up to 32 bits. On such a tree the check never runs into an
  assertion, and what it accepts is well formed for the code generator and typed, every comparison being one
  that the functions of the first operand can do on values of the class of the second. For trees outside,
  this is not claimed; the sliced text below and a slice as a bound in a set do run into an assertion.
\<close>

theorem dfw_semcheck_typed:
  assumes "setting reg byname P funcs" "parsed_test (registered byname) funcs t" "sound_test reg t"
  shows "dfw_semcheck reg P brk t dep = Inr None \<or>
     (\<exists>t' dep'. dfw_semcheck reg P brk t dep = Inr (Some (t', dep')) \<and>
        typed_test reg (registered byname) funcs t' \<and> wf_test (registered byname) t')"
  using semcheck_ok [OF assms, of brk "[]" dep]
  by (auto simp: checks_def dfw_semcheck_def dest: typed_wf)

theorem dfw_semcheck_typed_witness:
  "\<exists>t' dep'. dfw_semcheck sample_registrar sample_parsers (\<lambda>_. False) sample_parsed [] = Inr (Some (t', dep')) \<and>
     typed_test sample_registrar (registered sample_names) sample_functions t'"
proof -
  show ?thesis
    using dfw_semcheck_typed [OF sample_setting(1) sample_parsed_ok, of "\<lambda>_. False" "[]"] sample_accepted by auto
qed

text \<open>
  C2. From the parsed tree to the answer nothing aborts, for the filters that \<open>sound_test\<close> describes (those of
  the theorem above): the filter is rejected, or it compiles and the code gives an answer on every tree whose
  fields have values of their types, namely the meaning of the checked tree.
\<close>

theorem dfilter_never_aborts:
  assumes "setting reg byname P funcs" "functions_ok type_of string_repr" "funcs = df_functions type_of string_repr"
    and "parsed_test (registered byname) funcs t" "sound_test reg t"
  shows "dfilter_compile_parsed reg P brk (Some t) dep = Inr None \<or>
     (\<exists>df t' dep'. dfw_semcheck reg P brk t dep = Inr (Some (t', dep')) \<and>
        dfilter_compile_parsed reg P brk (Some t) dep = Inr (Some (Some (df, dep'))) \<and>
        (\<forall>tree. typed_tree reg byname tree \<longrightarrow>
           (\<exists>b M. eval_test (tree_env reg (fvalue_ops re) tree) t' = Inr b \<and>
              dfilter_apply reg (fvalue_ops re) df tree = Inr (b, df\<lparr>owns_memory := M\<rparr>))))"
proof -
  have fields: "fields_fit reg byname" by (rule settingD(1) [OF assms(1)])
  then have names: "names reg byname" unfolding fields_fit_def by blast
  have "checks (semcheck reg P brk [] t dep) (\<lambda>(t', dep'). typed_test reg (registered byname) funcs t')"
    by (rule semcheck_ok [OF assms(1,4,5)])
  then consider "dfw_semcheck reg P brk t dep = Inr None"
    | t' dep' where "dfw_semcheck reg P brk t dep = Inr (Some (t', dep'))"
        "typed_test reg (registered byname) funcs t'"
    by (auto simp: checks_def dfw_semcheck_def)
  then show ?thesis
  proof cases
    case 1
    then show ?thesis by (simp add: dfilter_compile_parsed_def)
  next
    case (2 t' dep')
    note wf = typed_wf [OF 2(2)]
    obtain dfw P' df where c: "compiled reg byname t' dfw P' df" using compile_ok [OF names wf] by blast
    have "\<exists>b M. eval_test (tree_env reg (fvalue_ops re) tree) t' = Inr b \<and>
        dfilter_apply reg (fvalue_ops re) df tree = Inr (b, df\<lparr>owns_memory := M\<rparr>)"
      if tree: "typed_tree reg byname tree" for tree
    proof -
      have "answers (eval_test (tree_env reg (fvalue_ops re) tree) t')"
        by (rule typed_answers [OF eval_has_class [OF fields tree assms(2,3)] _ 2(2)])
          (simp_all add: tree_env_def)
      then obtain b where b: "eval_test (tree_env reg (fvalue_ops re) tree) t' = Inr b"
        by (auto simp: answers_def)
      have "at_rest dfw df" using c by (simp add: compiled_def)
      from apply_ok [OF names wf c this refl b] show ?thesis using b by blast
    qed
    moreover have "dfilter_compile_tree reg t' = Inr df" using c by (simp add: compiled_def)
    ultimately show ?thesis using 2(1) by (auto simp: dfilter_compile_parsed_def)
  qed
qed

definition typed_sample_tree :: "unit fvalue proto_tree" where
  "typed_sample_tree =
     (\<lambda>i. if i = 0 then Some [UINTEGER 1 4] else if i = 2 then Some [UINTEGER 1 5, UINTEGER 1 6]
          else if i = 1 then Some [UINTEGER 4 7] else None)"

lemma sample_typed_tree: "typed_tree sample_registrar sample_names typed_sample_tree"
  using sample_class [of 0] sample_class [of 1] sample_class [of 2]
  by (auto simp: typed_tree_def sample_names_def typed_sample_tree_def typed_value_def fv_content_def)

theorem dfilter_never_aborts_witness:
  "\<exists>df b M. dfilter_compile_parsed sample_registrar sample_parsers (\<lambda>_. False) (Some sample_parsed) [] =
       Inr (Some (Some (df, []))) \<and>
     dfilter_apply sample_registrar sample_ops df typed_sample_tree = Inr (b, df\<lparr>owns_memory := M\<rparr>)"
proof -
  obtain t' where t': "dfw_semcheck sample_registrar sample_parsers (\<lambda>_. False) sample_parsed [] = Inr (Some (t', []))"
    using sample_accepted by blast
  then have "dfilter_compile_parsed sample_registrar sample_parsers (\<lambda>_. False) (Some sample_parsed) [] \<noteq> Inr None"
    by (auto simp: dfilter_compile_parsed_def errs)
  moreover note dfilter_never_aborts [OF sample_setting(1,2) sample_functions_def sample_parsed_ok, of "\<lambda>_. False" "[]"
      "\<lambda>_ _. False"]
  ultimately show ?thesis using sample_typed_tree t' by (metis Inr_inject option.inject prod.inject)
qed


section \<open>What the check overlooks\<close>

text \<open>
  C38. A slice of a text as the second operand of a relation passes the semantic check, whose look at a
  range stops at its numbers; the code generator then asserts, so the filter ends the program instead of
  being rejected.
\<close>

theorem sliced_text_aborts:
  fixes P :: "'r fvalue_parsers"
  assumes "names reg byname" "registered byname h" "deref reg h = Inr hf" "is_bytes_type (hf_type hf)"
    and "rel_op op = Some r" "can_for r (hf_type hf)" "check_drange_sanity d = Inr ()"
  shows "dfilter_compile_parsed reg P brk
           (Some (STTYPE_TEST op (STTYPE_FIELD h) (Some (STTYPE_RANGE (STTYPE_STRING s) d)))) dep = Inl Fault"
proof -
  let ?t = "STTYPE_TEST op (STTYPE_FIELD h) (Some (STTYPE_RANGE (STTYPE_STRING s) d)) :: 'r fvalue stnode"
  obtain rs ap where args: "relation_args op = Some (rs, ap, can_for r)"
      "op \<noteq> TEST_OP_EXISTS" "op \<noteq> TEST_OP_NOT" "op \<noteq> TEST_OP_AND" "op \<noteq> TEST_OP_OR"
    using relation_args_rel [OF assms(5)] by blast
  have "semcheck reg P brk [] ?t dep = Inr (?t, dep)"
    using assms(3,4,6,7) args
    by (simp add: check_relation_def check_relation_LHS_FIELD.simps type_check_def)
  moreover have "dfilter_compile_tree reg ?t = Inl Fault"
  proof -
    obtain r1 jmp dfw1 where e: "gen_entity reg (STTYPE_FIELD h :: 'r fvalue stnode) dfwork_new = Inr (r1, jmp, dfw1)"
      using gen_entity_ok [OF tree_env_ok [OF assms(1), of undefined undefined] wf_new, of "STTYPE_FIELD h :: 'r fvalue stnode"] assms(2)
      by (auto simp del: gen_entity.simps)
    have "gen_relation reg r (STTYPE_FIELD h :: 'r fvalue stnode) (STTYPE_RANGE (STTYPE_STRING s) d) dfwork_new = Inl Fault"
      unfolding gen_relation_def e by simp
    then have "gencode reg ?t dfwork_new = Inl Fault"
      using assms(5) by (cases op) (auto simp: rel_op_def simp del: gen_entity.simps)
    then show ?thesis by (simp add: dfilter_compile_tree_def dfw_gencode_def)
  qed
  ultimately show ?thesis by (simp add: dfilter_compile_parsed_def dfw_semcheck_def)
qed

definition ether_registrar :: "unit registrar" where
  "ether_registrar =
     registrar_init\<lparr>hfi := [Some ((sample_field ''eth'')\<lparr>hf_type := FT_ETHER, hf_display := 0, hf_id := 0\<rparr>)],
                    gpa_name_map := [''eth'' \<mapsto> 0]\<rparr>"

definition ether_names :: "string \<Rightarrow> nat list" where
  "ether_names = (\<lambda>_. [])(''eth'' := [0])"

lemma ether_names: "names ether_registrar ether_names" "registered ether_names 0"
  by (auto simp: names_def ether_registrar_def ether_names_def registrar_init_def sample_field_def
      linked_node_def deref_def registered_def intro: exI [of _ "''eth''"])

theorem sliced_text_aborts_witness:
  "dfilter_compile_parsed ether_registrar sample_parsers (\<lambda>_. False)
     (Some (STTYPE_TEST TEST_OP_EQ (STTYPE_FIELD 0)
        (Some (STTYPE_RANGE (STTYPE_STRING ''abc'') (drange_new_from_list [node_1_2]))))) [] = Inl Fault"
proof (rule sliced_text_aborts [OF ether_names])
  show "deref ether_registrar 0 = Inr ((sample_field ''eth'')\<lparr>hf_type := FT_ETHER, hf_display := 0, hf_id := 0\<rparr>)"
    by (simp add: deref_def ether_registrar_def)
  show "check_drange_sanity (drange_new_from_list [node_1_2]) = Inr ()"
    unfolding check_drange_sanity_iff by (simp add: range_list_from_list node_sane)
  show "rel_op TEST_OP_EQ = Some ANY_EQ" by (simp add: rel_op_def)
qed (simp_all add: is_bytes_type_def can_for_def ftype_tables sample_field_def)

end
