(* ===== verification/Protocols.thy ===== *)
theory Protocols
  imports Registrar
begin

text \<open>
  The protocols (epan/proto.c): every protocol has a \<open>protocol_t\<close> and a field of its own in the registrar,
  whose number is the number of the protocol and whose \<open>strings\<close> point back to the \<open>protocol_t\<close>. Three
  hash tables find a protocol by its names.

  A pointer to a \<open>protocol_t\<close> is its index in the order of allocation. Protocols are not freed before the
  program ends; the strings that \<open>proto_free_deregistered_fields\<close> frees belong to the registrar.
\<close>

section \<open>Data\<close>

record protocol_t =
  p_name :: string
  p_short_name :: string
  p_filter_name :: string
  p_fields :: "nat list option"
  p_proto_id :: int
  is_enabled :: bool
  enabled_by_default :: bool
  can_toggle :: bool
  parent_proto_id :: int
  heur_list :: "nat list"

record 'p protocol_registry =
  fields_of :: "'p registrar"
  protocol_mem :: "protocol_t list"
  protocols :: "nat list"
  proto_names :: "string \<rightharpoonup> nat"
  proto_short_names :: "string \<rightharpoonup> nat"
  proto_filter_names :: "string \<rightharpoonup> nat"
  gpa_protocol_aliases :: "string \<rightharpoonup> string"
  deregistered_fields :: "nat list"

definition protocol_registry_init :: "'p protocol_registry" where
  "protocol_registry_init =
     \<lparr>fields_of = registrar_init, protocol_mem = [], protocols = [], proto_names = Map.empty,
      proto_short_names = Map.empty, proto_filter_names = Map.empty, gpa_protocol_aliases = Map.empty,
      deregistered_fields = []\<rparr>"

definition BASE_NO_DISPLAY_VALUE :: guint32 where "BASE_NO_DISPLAY_VALUE = 0x00002000"

definition protocol_at :: "protocol_t list \<Rightarrow> nat \<Rightarrow> protocol_t res" where
  "protocol_at mem p = (if p < length mem then Inr (mem ! p) else Inl Fault)"

definition put_protocol ::
    "nat \<Rightarrow> (protocol_t \<Rightarrow> protocol_t) \<Rightarrow> 'p protocol_registry \<Rightarrow> 'p protocol_registry res" where
  "put_protocol p f s =
     bindE (protocol_at (protocol_mem s) p) (\<lambda>protocol.
       Inr (s\<lparr>protocol_mem := (protocol_mem s)[p := f protocol]\<rparr>))"

section \<open>Finding a protocol\<close>

definition find_protocol_by_id :: "'p registrar \<Rightarrow> int \<Rightarrow> nat option res" where
  "find_protocol_by_id reg n =
     (if n < 0 then Inr None
      else
        bindE (proto_registrar_get_nth reg n) (\<lambda>hfinfo.
        bindE (if hf_type hfinfo \<noteq> FT_PROTOCOL
               then dissector_assert (hf_display hfinfo AND BASE_PROTOCOL_INFO \<noteq> 0) (Inr ())
               else Inr ()) (\<lambda>_.
          (case hf_strings hfinfo of
             PROTOCOL_T p \<Rightarrow> Inr (Some p)
           | NO_STRINGS \<Rightarrow> Inr None
           | _ \<Rightarrow> Inl Fault))))"

text \<open>The callers that go on through the pointer they found.\<close>

definition protocol_by_id :: "'p registrar \<Rightarrow> protocol_t list \<Rightarrow> int \<Rightarrow> protocol_t res" where
  "protocol_by_id reg mem n =
     bindE (find_protocol_by_id reg n) (\<lambda>p.
       (case p of None \<Rightarrow> Inl Fault | Some p \<Rightarrow> protocol_at mem p))"

definition id_by_name :: "(string \<rightharpoonup> nat) \<Rightarrow> protocol_t list \<Rightarrow> string \<Rightarrow> int res" where
  "id_by_name names mem name =
     (case names name of
        None \<Rightarrow> Inr (-1)
      | Some p \<Rightarrow> bindE (protocol_at mem p) (\<lambda>protocol. Inr (p_proto_id protocol)))"

definition proto_get_id_by_short_name :: "'p protocol_registry \<Rightarrow> string \<Rightarrow> int res" where
  "proto_get_id_by_short_name s = id_by_name (proto_short_names s) (protocol_mem s)"

definition proto_get_id_by_filter_name :: "'p protocol_registry \<Rightarrow> string \<Rightarrow> int res" where
  "proto_get_id_by_filter_name s = id_by_name (proto_filter_names s) (protocol_mem s)"

definition proto_name_already_registered :: "'p protocol_registry \<Rightarrow> string \<Rightarrow> bool" where
  "proto_name_already_registered s name = (proto_names s name \<noteq> None)"

text \<open>The names of a protocol; a NULL pointer stands for a protocol without a name.\<close>

definition no_name :: string where "no_name = ''(none)''"

definition proto_get_protocol_short_name :: "protocol_t list \<Rightarrow> nat option \<Rightarrow> string res" where
  "proto_get_protocol_short_name mem protocol =
     (case protocol of
        None \<Rightarrow> Inr no_name
      | Some p \<Rightarrow> bindE (protocol_at mem p) (\<lambda>protocol. Inr (p_short_name protocol)))"

definition proto_get_protocol_long_name :: "protocol_t list \<Rightarrow> nat option \<Rightarrow> string res" where
  "proto_get_protocol_long_name mem protocol =
     (case protocol of
        None \<Rightarrow> Inr no_name
      | Some p \<Rightarrow> bindE (protocol_at mem p) (\<lambda>protocol. Inr (p_name protocol)))"

definition proto_get_protocol_filter_name :: "'p registrar \<Rightarrow> protocol_t list \<Rightarrow> int \<Rightarrow> string res" where
  "proto_get_protocol_filter_name reg mem proto_id =
     bindE (find_protocol_by_id reg proto_id) (\<lambda>protocol.
       (case protocol of
          None \<Rightarrow> Inr no_name
        | Some p \<Rightarrow> bindE (protocol_at mem p) (\<lambda>protocol. Inr (p_filter_name protocol))))"

definition proto_get_protocol_name :: "'p registrar \<Rightarrow> protocol_t list \<Rightarrow> int \<Rightarrow> string option res" where
  "proto_get_protocol_name reg mem proto_id =
     bindE (find_protocol_by_id reg proto_id) (\<lambda>protocol.
       (case protocol of
          None \<Rightarrow> Inr None
        | Some p \<Rightarrow> bindE (protocol_at mem p) (\<lambda>protocol. Inr (Some (p_name protocol)))))"

text \<open>The cookie of the iterators over the list of protocols is the rest of the list.\<close>

definition proto_get_first_protocol :: "'p protocol_registry \<Rightarrow> (int \<times> nat list) res" where
  "proto_get_first_protocol s =
     (case protocols s of
        [] \<Rightarrow> Inr (-1, [])
      | p # _ \<Rightarrow> bindE (protocol_at (protocol_mem s) p) (\<lambda>protocol. Inr (p_proto_id protocol, protocols s)))"

definition proto_get_next_protocol :: "'p protocol_registry \<Rightarrow> nat list \<Rightarrow> (int \<times> nat list) res" where
  "proto_get_next_protocol s cookie =
     (case cookie of
        [] \<Rightarrow> Inr (-1, [])
      | _ # list_item \<Rightarrow>
          (case list_item of
             [] \<Rightarrow> Inr (-1, cookie)
           | p # _ \<Rightarrow>
               bindE (protocol_at (protocol_mem s) p) (\<lambda>protocol. Inr (p_proto_id protocol, list_item))))"

section \<open>Registering\<close>

definition check_valid_filter_name_or_fail :: "string \<Rightarrow> 'a res \<Rightarrow> 'a res" where
  "check_valid_filter_name_or_fail filter_name k =
     (if proto_check_field_name filter_name \<noteq> NUL \<or>
         list_ex (\<lambda>c. 0x41 \<le> (of_char c :: nat) \<and> (of_char c :: nat) \<le> 0x5A) filter_name
      then Inl Fault else k)"

definition protocol_new :: "string \<Rightarrow> string \<Rightarrow> string \<Rightarrow> int \<Rightarrow> protocol_t" where
  "protocol_new name short_name filter_name parent_proto =
     \<lparr>p_name = name, p_short_name = short_name, p_filter_name = filter_name, p_fields = None,
      p_proto_id = 0, is_enabled = True, enabled_by_default = True, can_toggle = True,
      parent_proto_id = parent_proto, heur_list = []\<rparr>"

definition protocol_hfinfo :: "string \<Rightarrow> string \<Rightarrow> ftenum \<Rightarrow> guint32 \<Rightarrow> nat \<Rightarrow> header_field_info" where
  "protocol_hfinfo name filter_name field_type display protocol =
     \<lparr>hf_name = name, hf_abbrev = filter_name, hf_type = field_type, hf_display = display,
      hf_strings = PROTOCOL_T protocol, hf_bitmask = 0, hf_id = 0, hf_parent = -1,
      hf_ref_type = HF_REF_TYPE_NONE, same_name_prev_id = 0, same_name_next = None\<rparr>"

text \<open>The end of both functions that register a protocol.\<close>

definition register_protocol_field ::
    "nat \<Rightarrow> header_field_info \<Rightarrow> 'p protocol_registry \<Rightarrow> (int \<times> 'p protocol_registry) res" where
  "register_protocol_field p hfinfo s =
     bindE (proto_register_field_init (fields_of s) hfinfo (hf_parent hfinfo)) (\<lambda>(n, reg).
     bindE (put_protocol p (\<lambda>protocol. protocol\<lparr>p_proto_id := n\<rparr>) (s\<lparr>fields_of := reg\<rparr>)) (\<lambda>s'.
       Inr (n, s')))"

definition proto_register_protocol ::
    "string \<Rightarrow> string \<Rightarrow> string \<Rightarrow> 'p protocol_registry \<Rightarrow> (int \<times> 'p protocol_registry) res" where
  "proto_register_protocol name short_name filter_name s =
     (if proto_names s name \<noteq> None then Inl Fault
      else if proto_short_names s short_name \<noteq> None then Inl Fault
      else check_valid_filter_name_or_fail filter_name
        (if proto_filter_names s filter_name \<noteq> None then Inl Fault
         else
           let p = length (protocol_mem s);
               s1 = s\<lparr>protocol_mem := protocol_mem s @ [protocol_new name short_name filter_name (-1)],
                      protocols := p # protocols s,
                      proto_names := (proto_names s)(name \<mapsto> p),
                      proto_filter_names := (proto_filter_names s)(filter_name \<mapsto> p),
                      proto_short_names := (proto_short_names s)(short_name \<mapsto> p)\<rparr>
           in register_protocol_field p (protocol_hfinfo name filter_name FT_PROTOCOL 0 p) s1))"

definition proto_register_protocol_in_name_only ::
    "string \<Rightarrow> string \<Rightarrow> string \<Rightarrow> int \<Rightarrow> ftenum \<Rightarrow> 'p protocol_registry \<Rightarrow>
      (int \<times> 'p protocol_registry) res" where
  "proto_register_protocol_in_name_only name short_name filter_name parent_proto field_type s =
     (if field_type \<noteq> FT_PROTOCOL \<and> field_type \<noteq> FT_BYTES then Inl Fault
      else if parent_proto < 0 then Inl Fault
      else check_valid_filter_name_or_fail filter_name
        (let p = length (protocol_mem s);
             s1 = s\<lparr>protocol_mem := protocol_mem s @ [protocol_new name short_name filter_name parent_proto],
                    protocols := p # protocols s\<rparr>;
             display = (if field_type = FT_BYTES then BASE_NO_DISPLAY_VALUE OR BASE_PROTOCOL_INFO else 0)
         in register_protocol_field p (protocol_hfinfo name filter_name field_type display p) s1))"

definition proto_register_alias :: "int \<Rightarrow> string \<Rightarrow> 'p protocol_registry \<Rightarrow> 'p protocol_registry res" where
  "proto_register_alias proto_id alias_name s =
     bindE (find_protocol_by_id (fields_of s) proto_id) (\<lambda>protocol.
       (case protocol of
          None \<Rightarrow> Inr s
        | Some p \<Rightarrow>
            bindE (protocol_at (protocol_mem s) p) (\<lambda>protocol.
              Inr (s\<lparr>gpa_protocol_aliases :=
                       (gpa_protocol_aliases s)(alias_name \<mapsto> p_filter_name protocol)\<rparr>))))"

text \<open>
  \<open>proto_register_field_common\<close> is called with a protocol. The functions that register several fields
  go through the structures with the number each has so far; a number that is set ends the loop. The
  result is the list of the numbers afterwards.
\<close>

definition proto_register_field_common ::
    "nat \<Rightarrow> header_field_info \<Rightarrow> int \<Rightarrow> 'p protocol_registry \<Rightarrow> (int \<times> 'p protocol_registry) res" where
  "proto_register_field_common proto h parent s =
     bindE (protocol_at (protocol_mem s) proto) (\<lambda>protocol.
       (case p_fields protocol of
          None \<Rightarrow> Inl Fault
        | Some fs \<Rightarrow>
            bindE (put_protocol proto (\<lambda>q. q\<lparr>p_fields := Some (fs @ [length (hfi (fields_of s))])\<rparr>) s)
              (\<lambda>s1.
            bindE (proto_register_field_init (fields_of s1) h parent) (\<lambda>(n, reg).
              Inr (n, s1\<lparr>fields_of := reg\<rparr>)))))"

fun register_fields_loop ::
    "(int \<Rightarrow> bool) \<Rightarrow> nat \<Rightarrow> int \<Rightarrow> (int \<times> header_field_info) list \<Rightarrow> 'p protocol_registry \<Rightarrow>
      (int list \<times> 'p protocol_registry) res" where
  "register_fields_loop has_number proto parent [] s = Inr ([], s)"
| "register_fields_loop has_number proto parent ((p_id, h) # ptr) s =
     (if has_number p_id then Inr (p_id # map fst ptr, s)
      else
        bindE (proto_register_field_common proto h parent s) (\<lambda>(n, s1).
        bindE (register_fields_loop has_number proto parent ptr s1) (\<lambda>(ns, s2). Inr (n # ns, s2))))"

definition register_fields ::
    "(int \<Rightarrow> bool) \<Rightarrow> int \<Rightarrow> (int \<times> header_field_info) list \<Rightarrow> 'p protocol_registry \<Rightarrow>
      (int list \<times> 'p protocol_registry) res" where
  "register_fields has_number parent hf s =
     bindE (find_protocol_by_id (fields_of s) parent) (\<lambda>proto.
       (case proto of
          None \<Rightarrow> Inl Fault
        | Some p \<Rightarrow>
            bindE (put_protocol p
                (\<lambda>q. if p_fields q = None then q\<lparr>p_fields := Some []\<rparr> else q) s) (\<lambda>s1.
              register_fields_loop has_number p parent hf s1)))"

definition proto_register_field_array ::
    "int \<Rightarrow> (int \<times> header_field_info) list \<Rightarrow> 'p protocol_registry \<Rightarrow>
      (int list \<times> 'p protocol_registry) res" where
  "proto_register_field_array = register_fields (\<lambda>p_id. p_id \<noteq> -1 \<and> p_id \<noteq> 0)"

definition proto_register_fields_section ::
    "int \<Rightarrow> header_field_info list \<Rightarrow> 'p protocol_registry \<Rightarrow> (int list \<times> 'p protocol_registry) res" where
  "proto_register_fields_section parent hf =
     register_fields (\<lambda>n. n \<noteq> -1) parent (map (\<lambda>h. (hf_id h, h)) hf)"

definition proto_register_fields_manual ::
    "int \<Rightarrow> header_field_info list \<Rightarrow> 'p protocol_registry \<Rightarrow> (int list \<times> 'p protocol_registry) res" where
  "proto_register_fields_manual parent hf =
     register_fields (\<lambda>n. n \<noteq> -1) parent (map (\<lambda>h. (hf_id h, h)) hf)"

section \<open>Deregistering\<close>

text \<open>The loop of \<open>proto_deregister_protocol\<close> over the fields of the protocol.\<close>

fun deregister_fields_loop :: "nat list \<Rightarrow> 'p protocol_registry \<Rightarrow> 'p protocol_registry res" where
  "deregister_fields_loop [] s = Inr s"
| "deregister_fields_loop (p # ps) s =
     bindE (hfinfo_remove_from_gpa_name_map p (fields_of s)) (\<lambda>reg.
     bindE (deref reg p) (\<lambda>hfinfo.
       deregister_fields_loop ps
         (s\<lparr>fields_of := reg, deregistered_fields := deregistered_fields s @ [nat (hf_id hfinfo)]\<rparr>)))"

definition proto_deregister_protocol ::
    "string \<Rightarrow> 'p protocol_registry \<Rightarrow> (bool \<times> 'p protocol_registry) res" where
  "proto_deregister_protocol short_name s =
     bindE (proto_get_id_by_short_name s short_name) (\<lambda>proto_id.
     bindE (find_protocol_by_id (fields_of s) proto_id) (\<lambda>protocol.
       (case protocol of
          None \<Rightarrow> Inr (False, s)
        | Some p \<Rightarrow>
            bindE (protocol_at (protocol_mem s) p) (\<lambda>protocol.
            let s1 = s\<lparr>proto_names := (proto_names s)(p_name protocol := None),
                       proto_short_names := (proto_short_names s)(short_name := None),
                       proto_filter_names := (proto_filter_names s)(p_filter_name protocol := None)\<rparr>
            in
            bindE (case p_fields protocol of
                     None \<Rightarrow> Inr s1
                   | Some fs \<Rightarrow>
                       bindE (deregister_fields_loop fs s1) (put_protocol p (\<lambda>q. q\<lparr>p_fields := None\<rparr>)))
              (\<lambda>s2.
            let reg = fields_of s2
            in Inr (True, s2\<lparr>protocols := remove1 p (protocols s2),
                             deregistered_fields := deregistered_fields s2 @ [nat proto_id],
                             fields_of := reg\<lparr>gpa_name_map :=
                                                (gpa_name_map reg)(p_filter_name protocol := None),
                                              last_field_name := None\<rparr>\<rparr>))))))"

text \<open>\<open>g_ptr_array_remove_index_fast\<close> moves the last element to the place of the one it removes.\<close>

definition remove_index_fast :: "nat \<Rightarrow> 'a list \<Rightarrow> 'a list" where
  "remove_index_fast i xs = butlast (xs[i := last xs])"

fun find_field :: "'p registrar \<Rightarrow> int \<Rightarrow> nat list \<Rightarrow> nat \<Rightarrow> (nat \<times> nat) option res" where
  "find_field reg n [] i = Inr None"
| "find_field reg n (p # ps) i =
     bindE (deref reg p) (\<lambda>h. if hf_id h = n then Inr (Some (i, p)) else find_field reg n ps (i + 1))"

definition proto_deregister_field :: "int \<Rightarrow> int \<Rightarrow> 'p protocol_registry \<Rightarrow> 'p protocol_registry res" where
  "proto_deregister_field parent hfid s0 =
     (let s = s0\<lparr>fields_of := (fields_of s0)\<lparr>last_field_name := None\<rparr>\<rparr>
      in if hfid = -1 \<or> hfid = 0 then Inr s
         else
           bindE (find_protocol_by_id (fields_of s) parent) (\<lambda>proto.
             (case proto of
                None \<Rightarrow> Inr s
              | Some q \<Rightarrow>
                  bindE (protocol_at (protocol_mem s) q) (\<lambda>protocol.
                    (case p_fields protocol of
                       None \<Rightarrow> Inr s
                     | Some fs \<Rightarrow>
                         bindE (find_field (fields_of s) hfid fs 0) (\<lambda>found.
                           (case found of
                              None \<Rightarrow> Inr s
                            | Some (i, p) \<Rightarrow>
                                bindE (deregister_found_field p (fields_of s)) (\<lambda>reg.
                                bindE (put_protocol q (\<lambda>r. r\<lparr>p_fields := Some (remove_index_fast i fs)\<rparr>)
                                        (s\<lparr>fields_of := reg\<rparr>)) (\<lambda>s1.
                                  Inr (s1\<lparr>deregistered_fields :=
                                            deregistered_fields s1 @ [nat hfid]\<rparr>))))))))))"

section \<open>Enabling and disabling\<close>

definition proto_is_pino :: "protocol_t \<Rightarrow> bool" where
  "proto_is_pino protocol = (parent_proto_id protocol \<noteq> -1)"

text \<open>
  A protocol in name only has the state of its parent. The parent may be such a protocol itself, so the
  functions are recursive, and a protocol that is its own ancestor would make them run forever.
\<close>

partial_function (option) proto_is_protocol_enabled ::
    "'p registrar \<Rightarrow> protocol_t list \<Rightarrow> nat option \<Rightarrow> bool res option" where
  "proto_is_protocol_enabled reg mem protocol =
     (case protocol of
        None \<Rightarrow> Some (Inr False)
      | Some p \<Rightarrow>
          (case protocol_at mem p of
             Inl e \<Rightarrow> Some (Inl e)
           | Inr pr \<Rightarrow>
               if proto_is_pino pr then
                 (case find_protocol_by_id reg (parent_proto_id pr) of
                    Inl e \<Rightarrow> Some (Inl e)
                  | Inr parent \<Rightarrow> proto_is_protocol_enabled reg mem parent)
               else Some (Inr (is_enabled pr))))"

partial_function (option) proto_is_protocol_enabled_by_default ::
    "'p registrar \<Rightarrow> protocol_t list \<Rightarrow> nat option \<Rightarrow> bool res option" where
  "proto_is_protocol_enabled_by_default reg mem protocol =
     (case protocol of
        None \<Rightarrow> Some (Inl Fault)
      | Some p \<Rightarrow>
          (case protocol_at mem p of
             Inl e \<Rightarrow> Some (Inl e)
           | Inr pr \<Rightarrow>
               if proto_is_pino pr then
                 (case find_protocol_by_id reg (parent_proto_id pr) of
                    Inl e \<Rightarrow> Some (Inl e)
                  | Inr parent \<Rightarrow> proto_is_protocol_enabled_by_default reg mem parent)
               else Some (Inr (enabled_by_default pr))))"

partial_function (option) proto_can_toggle_protocol ::
    "'p registrar \<Rightarrow> protocol_t list \<Rightarrow> int \<Rightarrow> bool res option" where
  "proto_can_toggle_protocol reg mem proto_id =
     (case protocol_by_id reg mem proto_id of
        Inl e \<Rightarrow> Some (Inl e)
      | Inr pr \<Rightarrow>
          if proto_is_pino pr then proto_can_toggle_protocol reg mem (parent_proto_id pr)
          else Some (Inr (can_toggle pr)))"

declare proto_is_protocol_enabled.simps [code]
declare proto_is_protocol_enabled_by_default.simps [code]
declare proto_can_toggle_protocol.simps [code]

text \<open>The functions that change a protocol which the caller names by its number.\<close>

definition change_protocol ::
    "int \<Rightarrow> (protocol_t \<Rightarrow> bool) \<Rightarrow> (protocol_t \<Rightarrow> protocol_t) \<Rightarrow> 'p protocol_registry \<Rightarrow>
      'p protocol_registry res" where
  "change_protocol proto_id ok f s =
     bindE (find_protocol_by_id (fields_of s) proto_id) (\<lambda>p.
       (case p of
          None \<Rightarrow> Inl Fault
        | Some p \<Rightarrow>
            bindE (protocol_at (protocol_mem s) p) (\<lambda>protocol.
              dissector_assert (ok protocol) (put_protocol p f s))))"

definition proto_disable_by_default :: "int \<Rightarrow> 'p protocol_registry \<Rightarrow> 'p protocol_registry res" where
  "proto_disable_by_default proto_id =
     change_protocol proto_id (\<lambda>protocol. can_toggle protocol \<and> \<not> proto_is_pino protocol)
       (\<lambda>protocol. protocol\<lparr>is_enabled := False, enabled_by_default := False\<rparr>)"

definition proto_set_decoding :: "int \<Rightarrow> bool \<Rightarrow> 'p protocol_registry \<Rightarrow> 'p protocol_registry res" where
  "proto_set_decoding proto_id enabled =
     change_protocol proto_id (\<lambda>protocol. can_toggle protocol \<and> \<not> proto_is_pino protocol)
       (\<lambda>protocol. protocol\<lparr>is_enabled := enabled\<rparr>)"

definition proto_set_cant_toggle :: "int \<Rightarrow> 'p protocol_registry \<Rightarrow> 'p protocol_registry res" where
  "proto_set_cant_toggle proto_id =
     change_protocol proto_id (\<lambda>_. True) (\<lambda>protocol. protocol\<lparr>can_toggle := False\<rparr>)"

fun reenable_loop :: "nat list \<Rightarrow> 'p protocol_registry \<Rightarrow> 'p protocol_registry res" where
  "reenable_loop [] s = Inr s"
| "reenable_loop (p # ps) s =
     bindE (put_protocol p
       (\<lambda>protocol. if can_toggle protocol \<and> enabled_by_default protocol then protocol\<lparr>is_enabled := True\<rparr>
                    else protocol) s) (reenable_loop ps)"

definition proto_reenable_all :: "'p protocol_registry \<Rightarrow> 'p protocol_registry res" where
  "proto_reenable_all s = reenable_loop (protocols s) s"

section \<open>The protocols of a frame\<close>

fun proto_is_frame_protocol ::
    "'p registrar \<Rightarrow> protocol_t list \<Rightarrow> int list \<Rightarrow> string \<Rightarrow> bool res" where
  "proto_is_frame_protocol reg mem [] proto_name = Inr False"
| "proto_is_frame_protocol reg mem (proto_id # protos) proto_name =
     bindE (proto_get_protocol_filter_name reg mem proto_id) (\<lambda>name.
       if name = proto_name then Inr True else proto_is_frame_protocol reg mem protos proto_name)"

end
