(* ===== verification/DissectorTables.thy ===== *)
theory DissectorTables
  imports Protocols Drange "HOL-Library.AList"
begin

text \<open>
  The dissector tables (epan/packet.c): which dissector takes the payload of a protocol, by a number, a
  string or a GUID, or by trying a list of heuristic dissectors. A table remembers for every selector the
  handle that was registered for it and the handle that is in use, which the user may change and reset.

  Pointers to handles, tables, lists and entries of heuristic lists are indices in the order of
  allocation. \<open>'d\<close> stands for the function pointers of dissectors and \<open>'e\<close> for what their \<open>void *\<close> arguments
  point to. Hash tables over which the code iterates are lists of their entries. Where the code prints a
  warning and goes on, which is what it does with \<open>wireshark_abort_on_dissector_bug\<close> off, the model goes on.
\<close>

section \<open>Data\<close>

datatype dissector_e = DISSECTOR_TYPE_SIMPLE | DISSECTOR_TYPE_CALLBACK

record ('d, 'e) dissector_handle =
  dh_name :: "string option"
  dissector_type :: dissector_e
  dissector_func :: 'd
  dissector_data :: "'e option"
  dh_protocol :: "nat option"

record dtbl_entry =
  initial :: "nat option"
  current :: "nat option"

datatype dtbl_key = UINT_KEY guint32 | STRING_KEY string | GUID_KEY "guint8 list" guint16

record dissector_table =
  hash_table :: "(dtbl_key \<times> dtbl_entry) list"
  dissector_handles :: "nat list"
  ui_name :: string
  dt_type :: ftenum
  dt_param :: int
  dt_protocol :: "nat option"
  supports_decode_as :: bool

record 'd heur_dtbl_entry =
  heur_dissector :: 'd
  heur_protocol :: "nat option"
  heur_list_of :: string
  heur_display_name :: string
  heur_short_name :: string
  heur_enabled :: bool

record heur_dissector_list =
  hl_protocol :: "nat option"
  hl_dissectors :: "nat list"

record postdissector =
  pd_handle :: nat
  wanted_hfids :: "int list option"

record ('d, 'e) dissector_registry =
  handle_mem :: "('d, 'e) dissector_handle list"
  table_mem :: "dissector_table list"
  heur_mem :: "'d heur_dtbl_entry list"
  heur_list_mem :: "heur_dissector_list list"
  dissector_tables :: "(string \<times> nat) list"
  dissector_table_aliases :: "(string \<times> string) list"
  registered_dissectors :: "(string \<times> nat) list"
  depend_dissector_lists :: "(string \<times> string list) list"
  heur_dissector_lists :: "(string \<times> nat) list"
  heuristic_short_names :: "(string \<times> nat) list"
  postdissectors :: "postdissector list option"

definition packet_init :: "('d, 'e) dissector_registry" where
  "packet_init =
     \<lparr>handle_mem = [], table_mem = [], heur_mem = [], heur_list_mem = [], dissector_tables = [],
      dissector_table_aliases = [], registered_dissectors = [], depend_dissector_lists = [],
      heur_dissector_lists = [], heuristic_short_names = [], postdissectors = None\<rparr>"

definition at :: "'a list \<Rightarrow> nat \<Rightarrow> 'a res" where
  "at xs i = (if i < length xs then Inr (xs ! i) else Inl Fault)"

text \<open>A pointer that may be NULL.\<close>

definition handle_at :: "('d, 'e) dissector_registry \<Rightarrow> nat option \<Rightarrow> ('d, 'e) dissector_handle res" where
  "handle_at R handle = (case handle of None \<Rightarrow> Inl Fault | Some h \<Rightarrow> at (handle_mem R) h)"

definition change_table ::
    "nat \<Rightarrow> (dissector_table \<Rightarrow> dissector_table res) \<Rightarrow> ('d, 'e) dissector_registry \<Rightarrow>
      ('d, 'e) dissector_registry res" where
  "change_table t f R =
     bindE (at (table_mem R) t) (\<lambda>sub_dissectors.
     bindE (f sub_dissectors) (\<lambda>sub'. Inr (R\<lparr>table_mem := (table_mem R)[t := sub']\<rparr>)))"

definition find_dissector_table :: "('d, 'e) dissector_registry \<Rightarrow> string \<Rightarrow> nat option" where
  "find_dissector_table R name =
     (case map_of (dissector_tables R) name of
        Some t \<Rightarrow> Some t
      | None \<Rightarrow>
          (case map_of (dissector_table_aliases R) name of
             None \<Rightarrow> None
           | Some new_name \<Rightarrow> map_of (dissector_tables R) new_name))"

text \<open>The functions that fail an assertion when there is no such table.\<close>

definition change_named_table ::
    "string \<Rightarrow> (dissector_table \<Rightarrow> dissector_table res) \<Rightarrow> ('d, 'e) dissector_registry \<Rightarrow>
      ('d, 'e) dissector_registry res" where
  "change_named_table name f R =
     (case find_dissector_table R name of None \<Rightarrow> Inl Fault | Some t \<Rightarrow> change_table t f R)"

section \<open>Dependencies between dissectors\<close>

definition register_depend_dissector ::
    "string \<Rightarrow> string \<Rightarrow> ('d, 'e) dissector_registry \<Rightarrow> ('d, 'e) dissector_registry" where
  "register_depend_dissector parent dependent R =
     (let dissectors = (case map_of (depend_dissector_lists R) parent of None \<Rightarrow> [] | Some ds \<Rightarrow> ds)
      in R\<lparr>depend_dissector_lists :=
             AList.update parent
               (if List.member dissectors dependent then dissectors else dependent # dissectors)
               (depend_dissector_lists R)\<rparr>)"

definition deregister_depend_dissector ::
    "string \<Rightarrow> string \<Rightarrow> ('d, 'e) dissector_registry \<Rightarrow> (bool \<times> ('d, 'e) dissector_registry) res" where
  "deregister_depend_dissector parent dependent R =
     (case map_of (depend_dissector_lists R) parent of
        None \<Rightarrow> Inl Fault
      | Some dissectors \<Rightarrow>
          Inr (List.member dissectors dependent,
               R\<lparr>depend_dissector_lists :=
                   AList.update parent (remove1 dependent dissectors) (depend_dissector_lists R)\<rparr>))"

section \<open>The handles for Decode As\<close>

definition string_bytes :: "string \<Rightarrow> guint8 list" where
  "string_bytes s = map of_char s"

definition handle_filter_name ::
    "'p registrar \<Rightarrow> protocol_t list \<Rightarrow> ('d, 'e) dissector_registry \<Rightarrow> nat \<Rightarrow> string res" where
  "handle_filter_name reg mem R handle =
     bindE (at (handle_mem R) handle) (\<lambda>a.
       (case dh_protocol a of
          None \<Rightarrow> Inr []
        | Some p \<Rightarrow>
            bindE (protocol_at mem p) (\<lambda>protocol.
              proto_get_protocol_filter_name reg mem (p_proto_id protocol))))"

definition dissector_compare_filter_name ::
    "'p registrar \<Rightarrow> protocol_t list \<Rightarrow> ('d, 'e) dissector_registry \<Rightarrow> nat \<Rightarrow> nat \<Rightarrow> int res" where
  "dissector_compare_filter_name reg mem R dissector_a dissector_b =
     bindE (handle_filter_name reg mem R dissector_a) (\<lambda>a_name.
     bindE (handle_filter_name reg mem R dissector_b) (\<lambda>b_name.
       Inr (strcmp (string_bytes a_name) (string_bytes b_name))))"

text \<open>\<open>g_slist_insert_sorted\<close>: before the first element that does not come first.\<close>

fun g_slist_insert_sorted :: "nat \<Rightarrow> (nat \<Rightarrow> nat \<Rightarrow> int res) \<Rightarrow> nat list \<Rightarrow> nat list res" where
  "g_slist_insert_sorted data func [] = Inr [data]"
| "g_slist_insert_sorted data func (x # xs) =
     bindE (func data x) (\<lambda>cmp.
       if cmp > 0 then bindE (g_slist_insert_sorted data func xs) (\<lambda>ys. Inr (x # ys))
       else Inr (data # x # xs))"

definition dissector_add_for_decode_as ::
    "'p registrar \<Rightarrow> protocol_t list \<Rightarrow> string \<Rightarrow> nat option \<Rightarrow> ('d, 'e) dissector_registry \<Rightarrow>
      ('d, 'e) dissector_registry res" where
  "dissector_add_for_decode_as reg mem name handle R =
     (case find_dissector_table R name of
        None \<Rightarrow> bindE (handle_at R handle) (\<lambda>_. Inr R)
      | Some t \<Rightarrow>
          bindE (at (table_mem R) t) (\<lambda>sub_dissectors.
            bindE (handle_at R handle) (\<lambda>h.
              if \<not> supports_decode_as sub_dissectors then Inr R
              else
              bindE (case dt_protocol sub_dissectors of
                       None \<Rightarrow> Inr R
                     | Some p \<Rightarrow>
                         bindE (proto_get_protocol_short_name mem (Some p)) (\<lambda>parent.
                         bindE (proto_get_protocol_short_name mem (dh_protocol h)) (\<lambda>dependent.
                           Inr (register_depend_dissector parent dependent R)))) (\<lambda>R1.
                if List.member (dissector_handles sub_dissectors) (the handle) then Inr R1
                else
                  change_table t (\<lambda>sub.
                    bindE (g_slist_insert_sorted (the handle) (dissector_compare_filter_name reg mem R1)
                             (dissector_handles sub)) (\<lambda>hs. Inr (sub\<lparr>dissector_handles := hs\<rparr>))) R1))))"

section \<open>Entries\<close>

text \<open>
  What the operations do to the hash table of a table: \<open>look\<close> is the key by which the code looks for an
  entry, \<open>put\<close> the one by which it inserts or removes it.
\<close>

definition add_entry :: "dtbl_key \<Rightarrow> nat \<Rightarrow> dissector_table \<Rightarrow> dissector_table" where
  "add_entry put handle sub =
     sub\<lparr>hash_table := AList.update put \<lparr>initial = Some handle, current = Some handle\<rparr> (hash_table sub)\<rparr>"

definition delete_entry :: "dtbl_key \<Rightarrow> dtbl_key \<Rightarrow> dissector_table \<Rightarrow> dissector_table" where
  "delete_entry look put sub =
     (if map_of (hash_table sub) look \<noteq> None then sub\<lparr>hash_table := AList.delete put (hash_table sub)\<rparr> else sub)"

definition change_entry :: "dtbl_key \<Rightarrow> dtbl_key \<Rightarrow> nat option \<Rightarrow> dissector_table \<Rightarrow> dissector_table" where
  "change_entry look put handle sub =
     (case map_of (hash_table sub) look of
        Some e \<Rightarrow> sub\<lparr>hash_table := AList.update look (e\<lparr>current := handle\<rparr>) (hash_table sub)\<rparr>
      | None \<Rightarrow>
          if handle = None then sub
          else sub\<lparr>hash_table := AList.update put \<lparr>initial = None, current = handle\<rparr> (hash_table sub)\<rparr>)"

definition reset_entry :: "dtbl_key \<Rightarrow> dtbl_key \<Rightarrow> dissector_table \<Rightarrow> dissector_table" where
  "reset_entry look put sub =
     (case map_of (hash_table sub) look of
        None \<Rightarrow> sub
      | Some e \<Rightarrow>
          if initial e \<noteq> None
          then sub\<lparr>hash_table := AList.update look (e\<lparr>current := initial e\<rparr>) (hash_table sub)\<rparr>
          else sub\<lparr>hash_table := AList.delete put (hash_table sub)\<rparr>)"

text \<open>The end of the functions that add an entry.\<close>

definition add_to_table ::
    "'p registrar \<Rightarrow> protocol_t list \<Rightarrow> string \<Rightarrow> (dissector_table \<Rightarrow> bool) \<Rightarrow>
      (dissector_table \<Rightarrow> dtbl_key) \<Rightarrow> nat option \<Rightarrow> ('d, 'e) dissector_registry \<Rightarrow>
      ('d, 'e) dissector_registry res" where
  "add_to_table reg mem name type_ok key handle R =
     (case (handle, find_dissector_table R name) of
        (Some h, Some t) \<Rightarrow>
          bindE (at (table_mem R) t) (\<lambda>sub_dissectors.
            g_assert (type_ok sub_dissectors)
              (bindE (change_table t (\<lambda>sub. Inr (add_entry (key sub) h sub)) R) (\<lambda>R1.
                 if supports_decode_as sub_dissectors then dissector_add_for_decode_as reg mem name handle R1
                 else Inr R1)))
      | _ \<Rightarrow> Inr R)"

section \<open>Tables of numbers\<close>

definition uint_table :: "dissector_table \<Rightarrow> bool" where
  "uint_table sub = List.member [FT_UINT8, FT_UINT16, FT_UINT24, FT_UINT32] (dt_type sub)"

definition find_uint_dtbl_entry :: "dissector_table \<Rightarrow> guint32 \<Rightarrow> dtbl_entry option res" where
  "find_uint_dtbl_entry sub pattern =
     g_assert (uint_table sub \<or> dt_type sub = FT_NONE) (Inr (map_of (hash_table sub) (UINT_KEY pattern)))"

definition dissector_add_uint ::
    "'p registrar \<Rightarrow> protocol_t list \<Rightarrow> string \<Rightarrow> guint32 \<Rightarrow> nat option \<Rightarrow> ('d, 'e) dissector_registry \<Rightarrow>
      ('d, 'e) dissector_registry res" where
  "dissector_add_uint reg mem name pattern =
     add_to_table reg mem name uint_table (\<lambda>_. UINT_KEY pattern)"

lemma word_loop_step: "j < high \<Longrightarrow> unat (high - (j + 1)) < unat (high - j)" for j high :: "'w::len word"
  using measure_unat [of "high - j"] by (auto simp: algebra_simps)

function add_uint_loop ::
    "'p registrar \<Rightarrow> protocol_t list \<Rightarrow> string \<Rightarrow> nat option \<Rightarrow> guint32 \<Rightarrow> guint32 \<Rightarrow>
      ('d, 'e) dissector_registry \<Rightarrow> ('d, 'e) dissector_registry res" where
  "add_uint_loop reg mem name handle high j R =
     (if j < high
      then bindE (dissector_add_uint reg mem name j handle R) (add_uint_loop reg mem name handle high (j + 1))
      else dissector_add_uint reg mem name high handle R)"
  by pat_completeness auto
termination
  by (relation "measure (\<lambda>(reg, mem, name, handle, high, j, R). unat (high - j))")
    (auto simp: word_loop_step)

declare add_uint_loop.simps [simp del]

fun add_uint_ranges ::
    "'p registrar \<Rightarrow> protocol_t list \<Rightarrow> string \<Rightarrow> nat option \<Rightarrow> (guint32 \<times> guint32) list \<Rightarrow>
      ('d, 'e) dissector_registry \<Rightarrow> ('d, 'e) dissector_registry res" where
  "add_uint_ranges reg mem name handle [] R = Inr R"
| "add_uint_ranges reg mem name handle ((low, high) # ranges) R =
     bindE (add_uint_loop reg mem name handle high low R) (add_uint_ranges reg mem name handle ranges)"

definition dissector_add_uint_range ::
    "'p registrar \<Rightarrow> protocol_t list \<Rightarrow> string \<Rightarrow> (guint32 \<times> guint32) list option \<Rightarrow> nat option \<Rightarrow>
      ('d, 'e) dissector_registry \<Rightarrow> ('d, 'e) dissector_registry res" where
  "dissector_add_uint_range reg mem name rng handle R =
     (case rng of
        None \<Rightarrow> Inr R
      | Some [] \<Rightarrow>
          (case find_dissector_table R name of
             None \<Rightarrow> Inl Fault
           | Some t \<Rightarrow>
               bindE (at (table_mem R) t) (\<lambda>sub_dissectors.
                 if supports_decode_as sub_dissectors then dissector_add_for_decode_as reg mem name handle R
                 else Inr R))
      | Some ranges \<Rightarrow> add_uint_ranges reg mem name handle ranges R)"

text \<open>An operation on the entry for a number, after the entry has been looked for.\<close>

definition on_uint_entry ::
    "guint32 \<Rightarrow> (dtbl_key \<Rightarrow> dtbl_key \<Rightarrow> dissector_table \<Rightarrow> dissector_table) \<Rightarrow> dissector_table \<Rightarrow>
      dissector_table res" where
  "on_uint_entry pattern f sub =
     bindE (find_uint_dtbl_entry sub pattern) (\<lambda>_. Inr (f (UINT_KEY pattern) (UINT_KEY pattern) sub))"

definition dissector_delete_uint ::
    "string \<Rightarrow> guint32 \<Rightarrow> ('d, 'e) dissector_registry \<Rightarrow> ('d, 'e) dissector_registry res" where
  "dissector_delete_uint name pattern = change_named_table name (on_uint_entry pattern delete_entry)"

definition dissector_change_uint ::
    "string \<Rightarrow> guint32 \<Rightarrow> nat option \<Rightarrow> ('d, 'e) dissector_registry \<Rightarrow> ('d, 'e) dissector_registry res" where
  "dissector_change_uint name pattern handle =
     change_named_table name (on_uint_entry pattern (\<lambda>look put. change_entry look put handle))"

definition dissector_reset_uint ::
    "string \<Rightarrow> guint32 \<Rightarrow> ('d, 'e) dissector_registry \<Rightarrow> ('d, 'e) dissector_registry res" where
  "dissector_reset_uint name pattern = change_named_table name (on_uint_entry pattern reset_entry)"

function delete_uint_loop ::
    "string \<Rightarrow> guint32 \<Rightarrow> guint32 \<Rightarrow> ('d, 'e) dissector_registry \<Rightarrow> ('d, 'e) dissector_registry res" where
  "delete_uint_loop name high j R =
     (if j < high then bindE (dissector_delete_uint name j R) (delete_uint_loop name high (j + 1))
      else dissector_delete_uint name high R)"
  by pat_completeness auto
termination
  by (relation "measure (\<lambda>(name, high, j, R). unat (high - j))")
    (auto simp: word_loop_step)

declare delete_uint_loop.simps [simp del]

fun dissector_delete_uint_range ::
    "string \<Rightarrow> (guint32 \<times> guint32) list \<Rightarrow> ('d, 'e) dissector_registry \<Rightarrow>
      ('d, 'e) dissector_registry res" where
  "dissector_delete_uint_range name [] R = Inr R"
| "dissector_delete_uint_range name ((low, high) # ranges) R =
     bindE (delete_uint_loop name high low R) (dissector_delete_uint_range name ranges)"

definition dissector_get_uint_handle :: "dissector_table \<Rightarrow> guint32 \<Rightarrow> nat option res" where
  "dissector_get_uint_handle sub uint_val =
     bindE (find_uint_dtbl_entry sub uint_val) (\<lambda>dtbl_entry.
       Inr (case dtbl_entry of None \<Rightarrow> None | Some e \<Rightarrow> current e))"

definition dissector_get_default_uint_handle ::
    "('d, 'e) dissector_registry \<Rightarrow> string \<Rightarrow> guint32 \<Rightarrow> nat option res" where
  "dissector_get_default_uint_handle R name uint_val =
     (case find_dissector_table R name of
        None \<Rightarrow> Inr None
      | Some t \<Rightarrow>
          bindE (at (table_mem R) t) (\<lambda>sub.
          bindE (find_uint_dtbl_entry sub uint_val) (\<lambda>dtbl_entry.
            Inr (case dtbl_entry of None \<Rightarrow> None | Some e \<Rightarrow> initial e))))"

definition dissector_change_payload ::
    "string \<Rightarrow> nat option \<Rightarrow> ('d, 'e) dissector_registry \<Rightarrow> ('d, 'e) dissector_registry res" where
  "dissector_change_payload name handle = dissector_change_uint name 0 handle"

definition dissector_reset_payload ::
    "string \<Rightarrow> ('d, 'e) dissector_registry \<Rightarrow> ('d, 'e) dissector_registry res" where
  "dissector_reset_payload name = dissector_reset_uint name 0"

definition dissector_get_payload_handle :: "dissector_table \<Rightarrow> nat option res" where
  "dissector_get_payload_handle sub = dissector_get_uint_handle sub 0"

section \<open>Tables of strings and of GUIDs\<close>

definition g_ascii_strdown :: "string \<Rightarrow> string" where
  "g_ascii_strdown s =
     map (\<lambda>c. if 0x41 \<le> (of_char c :: nat) \<and> (of_char c :: nat) \<le> 0x5A then char_of ((of_char c :: nat) + 0x20) else c) s"

definition string_table :: "dissector_table \<Rightarrow> bool" where
  "string_table sub = List.member [FT_STRING, FT_STRINGZ, FT_STRINGZPAD] (dt_type sub)"

definition string_key :: "dissector_table \<Rightarrow> string \<Rightarrow> dtbl_key" where
  "string_key sub pattern = STRING_KEY (if dt_param sub = 1 then g_ascii_strdown pattern else pattern)"

definition find_string_dtbl_entry :: "dissector_table \<Rightarrow> string \<Rightarrow> dtbl_entry option res" where
  "find_string_dtbl_entry sub pattern =
     g_assert (string_table sub) (Inr (map_of (hash_table sub) (string_key sub pattern)))"

definition dissector_add_string ::
    "'p registrar \<Rightarrow> protocol_t list \<Rightarrow> string \<Rightarrow> string \<Rightarrow> nat option \<Rightarrow> ('d, 'e) dissector_registry \<Rightarrow>
      ('d, 'e) dissector_registry res" where
  "dissector_add_string reg mem name pattern =
     add_to_table reg mem name string_table (\<lambda>sub. string_key sub pattern)"

text \<open>
  The entry is looked for by the key, in lower case if the table does not tell cases apart; it is inserted
  and removed by the pattern as it is.
\<close>

definition on_string_entry ::
    "string \<Rightarrow> (dtbl_key \<Rightarrow> dtbl_key \<Rightarrow> dissector_table \<Rightarrow> dissector_table) \<Rightarrow> dissector_table \<Rightarrow>
      dissector_table res" where
  "on_string_entry pattern f sub =
     bindE (find_string_dtbl_entry sub pattern) (\<lambda>_. Inr (f (string_key sub pattern) (STRING_KEY pattern) sub))"

definition dissector_delete_string ::
    "string \<Rightarrow> string \<Rightarrow> ('d, 'e) dissector_registry \<Rightarrow> ('d, 'e) dissector_registry res" where
  "dissector_delete_string name pattern = change_named_table name (on_string_entry pattern delete_entry)"

definition dissector_change_string ::
    "string \<Rightarrow> string \<Rightarrow> nat option \<Rightarrow> ('d, 'e) dissector_registry \<Rightarrow> ('d, 'e) dissector_registry res" where
  "dissector_change_string name pattern handle =
     change_named_table name (on_string_entry pattern (\<lambda>look put. change_entry look put handle))"

definition dissector_reset_string ::
    "string \<Rightarrow> string \<Rightarrow> ('d, 'e) dissector_registry \<Rightarrow> ('d, 'e) dissector_registry res" where
  "dissector_reset_string name pattern = change_named_table name (on_string_entry pattern reset_entry)"

definition dissector_get_string_handle :: "dissector_table \<Rightarrow> string option \<Rightarrow> nat option res" where
  "dissector_get_string_handle sub pattern =
     (case pattern of
        None \<Rightarrow> Inr None
      | Some s \<Rightarrow>
          bindE (find_string_dtbl_entry sub s) (\<lambda>dtbl_entry.
            Inr (case dtbl_entry of None \<Rightarrow> None | Some e \<Rightarrow> current e)))"

definition dissector_get_default_string_handle ::
    "('d, 'e) dissector_registry \<Rightarrow> string \<Rightarrow> string option \<Rightarrow> nat option res" where
  "dissector_get_default_string_handle R name pattern =
     (case (pattern, find_dissector_table R name) of
        (Some s, Some t) \<Rightarrow>
          bindE (at (table_mem R) t) (\<lambda>sub.
          bindE (find_string_dtbl_entry sub s) (\<lambda>dtbl_entry.
            Inr (case dtbl_entry of None \<Rightarrow> None | Some e \<Rightarrow> initial e)))
      | _ \<Rightarrow> Inr None)"

definition dissector_add_guid ::
    "'p registrar \<Rightarrow> protocol_t list \<Rightarrow> string \<Rightarrow> guint8 list \<times> guint16 \<Rightarrow> nat option \<Rightarrow>
      ('d, 'e) dissector_registry \<Rightarrow> ('d, 'e) dissector_registry res" where
  "dissector_add_guid reg mem name guid_val =
     add_to_table reg mem name (\<lambda>sub. dt_type sub = FT_GUID) (\<lambda>_. GUID_KEY (fst guid_val) (snd guid_val))"

definition dissector_get_guid_handle :: "dissector_table \<Rightarrow> guint8 list \<times> guint16 \<Rightarrow> nat option" where
  "dissector_get_guid_handle sub guid_val =
     (case map_of (hash_table sub) (GUID_KEY (fst guid_val) (snd guid_val)) of
        None \<Rightarrow> None
      | Some e \<Rightarrow> current e)"

section \<open>Registering tables\<close>

definition table_type_ok :: "ftenum \<Rightarrow> bool" where
  "table_type_ok t =
     List.member [FT_UINT8, FT_UINT16, FT_UINT24, FT_UINT32, FT_STRING, FT_STRINGZ, FT_STRINGZPAD, FT_GUID, FT_NONE] t"

definition register_dissector_table ::
    "'p registrar \<Rightarrow> string \<Rightarrow> string \<Rightarrow> int \<Rightarrow> ftenum \<Rightarrow> int \<Rightarrow> ('d, 'e) dissector_registry \<Rightarrow>
      (nat \<times> ('d, 'e) dissector_registry) res" where
  "register_dissector_table reg name ui proto type param R =
     g_assert (map_of (dissector_tables R) name = None)
       (g_assert (table_type_ok type)
          (bindE (find_protocol_by_id reg proto) (\<lambda>protocol.
             let t = length (table_mem R)
             in Inr (t, R\<lparr>table_mem := table_mem R @
                            [\<lparr>hash_table = [], dissector_handles = [], ui_name = ui, dt_type = type,
                              dt_param = param, dt_protocol = protocol, supports_decode_as = False\<rparr>],
                          dissector_tables := AList.update name t (dissector_tables R)\<rparr>))))"

definition dissector_table_allow_decode_as ::
    "nat \<Rightarrow> ('d, 'e) dissector_registry \<Rightarrow> ('d, 'e) dissector_registry res" where
  "dissector_table_allow_decode_as t = change_table t (\<lambda>sub. Inr (sub\<lparr>supports_decode_as := True\<rparr>))"

text \<open>The name is that of the first key in the order of the hash table that leads to the table.\<close>

definition register_dissector_table_alias ::
    "nat option \<Rightarrow> string option \<Rightarrow> ('d, 'e) dissector_registry \<Rightarrow> ('d, 'e) dissector_registry" where
  "register_dissector_table_alias dissector_table alias_name R =
     (case (dissector_table, alias_name) of
        (Some t, Some alias) \<Rightarrow>
          (case find (\<lambda>(name, t'). t' = t) (dissector_tables R) of
             None \<Rightarrow> R
           | Some (name, _) \<Rightarrow>
               R\<lparr>dissector_table_aliases := AList.update alias name (dissector_table_aliases R)\<rparr>)
      | _ \<Rightarrow> R)"

section \<open>Handles\<close>

definition new_dissector_handle ::
    "'p registrar \<Rightarrow> dissector_e \<Rightarrow> 'd \<Rightarrow> int \<Rightarrow> string option \<Rightarrow> 'e option \<Rightarrow> ('d, 'e) dissector_registry \<Rightarrow>
      (nat \<times> ('d, 'e) dissector_registry) res" where
  "new_dissector_handle reg type dissector proto name cb_data R =
     bindE (find_protocol_by_id reg proto) (\<lambda>protocol.
       Inr (length (handle_mem R),
            R\<lparr>handle_mem := handle_mem R @
                [\<lparr>dh_name = name, dissector_type = type, dissector_func = dissector,
                  dissector_data = cb_data, dh_protocol = protocol\<rparr>]\<rparr>))"

definition create_dissector_handle ::
    "'p registrar \<Rightarrow> 'd \<Rightarrow> int \<Rightarrow> ('d, 'e) dissector_registry \<Rightarrow> (nat \<times> ('d, 'e) dissector_registry) res" where
  "create_dissector_handle reg dissector proto =
     new_dissector_handle reg DISSECTOR_TYPE_SIMPLE dissector proto None None"

definition create_dissector_handle_with_name ::
    "'p registrar \<Rightarrow> 'd \<Rightarrow> int \<Rightarrow> string \<Rightarrow> ('d, 'e) dissector_registry \<Rightarrow>
      (nat \<times> ('d, 'e) dissector_registry) res" where
  "create_dissector_handle_with_name reg dissector proto name =
     new_dissector_handle reg DISSECTOR_TYPE_SIMPLE dissector proto (Some name) None"

definition register_dissector_handle ::
    "string \<Rightarrow> nat \<Rightarrow> ('d, 'e) dissector_registry \<Rightarrow> (nat \<times> ('d, 'e) dissector_registry) res" where
  "register_dissector_handle name handle R =
     g_assert (map_of (registered_dissectors R) name = None)
       (Inr (handle, R\<lparr>registered_dissectors := AList.update name handle (registered_dissectors R)\<rparr>))"

definition register_dissector ::
    "'p registrar \<Rightarrow> string \<Rightarrow> 'd \<Rightarrow> int \<Rightarrow> ('d, 'e) dissector_registry \<Rightarrow>
      (nat \<times> ('d, 'e) dissector_registry) res" where
  "register_dissector reg name dissector proto R =
     bindE (new_dissector_handle reg DISSECTOR_TYPE_SIMPLE dissector proto (Some name) None R)
       (\<lambda>(handle, R1). register_dissector_handle name handle R1)"

definition register_dissector_with_data ::
    "'p registrar \<Rightarrow> string \<Rightarrow> 'd \<Rightarrow> int \<Rightarrow> 'e option \<Rightarrow> ('d, 'e) dissector_registry \<Rightarrow>
      (nat \<times> ('d, 'e) dissector_registry) res" where
  "register_dissector_with_data reg name dissector proto cb_data R =
     bindE (new_dissector_handle reg DISSECTOR_TYPE_CALLBACK dissector proto (Some name) cb_data R)
       (\<lambda>(handle, R1). register_dissector_handle name handle R1)"

definition find_dissector :: "('d, 'e) dissector_registry \<Rightarrow> string \<Rightarrow> nat option" where
  "find_dissector R name = map_of (registered_dissectors R) name"

definition dissector_handle_get_short_name ::
    "protocol_t list \<Rightarrow> ('d, 'e) dissector_handle \<Rightarrow> string option res" where
  "dissector_handle_get_short_name mem handle =
     (case dh_protocol handle of
        None \<Rightarrow> Inr None
      | Some p \<Rightarrow> bindE (proto_get_protocol_short_name mem (Some p)) (\<lambda>s. Inr (Some s)))"

definition find_dissector_add_dependency ::
    "'p registrar \<Rightarrow> protocol_t list \<Rightarrow> string \<Rightarrow> int \<Rightarrow> ('d, 'e) dissector_registry \<Rightarrow>
      (nat option \<times> ('d, 'e) dissector_registry) res" where
  "find_dissector_add_dependency reg mem name parent_proto R =
     (case map_of (registered_dissectors R) name of
        None \<Rightarrow> Inr (None, R)
      | Some h \<Rightarrow>
          if parent_proto > 0 then
            bindE (find_protocol_by_id reg parent_proto) (\<lambda>p.
            bindE (proto_get_protocol_short_name mem p) (\<lambda>parent.
            bindE (at (handle_mem R) h) (\<lambda>handle.
            bindE (dissector_handle_get_short_name mem handle) (\<lambda>dependent.
              Inr (Some h, case dependent of None \<Rightarrow> R | Some d \<Rightarrow> register_depend_dissector parent d R)))))
          else Inr (Some h, R))"

section \<open>Deleting a handle everywhere\<close>

definition dissector_delete_all_check ::
    "protocol_t list \<Rightarrow> ('d, 'e) dissector_registry \<Rightarrow> nat option \<Rightarrow> dtbl_entry \<Rightarrow> bool res" where
  "dissector_delete_all_check mem R handle e =
     bindE (handle_at R (current e)) (\<lambda>c.
       (case dh_protocol c of
          None \<Rightarrow> Inr False
        | Some p \<Rightarrow>
            bindE (handle_at R handle) (\<lambda>h.
              (case dh_protocol h of
                 None \<Rightarrow> Inl Fault
               | Some q \<Rightarrow>
                   bindE (protocol_at mem p) (\<lambda>pp.
                   bindE (protocol_at mem q) (\<lambda>pq. Inr (p_proto_id pp = p_proto_id pq)))))))"

fun g_hash_table_foreach_remove :: "('v \<Rightarrow> bool res) \<Rightarrow> ('k \<times> 'v) list \<Rightarrow> ('k \<times> 'v) list res" where
  "g_hash_table_foreach_remove check [] = Inr []"
| "g_hash_table_foreach_remove check ((k, v) # entries) =
     bindE (check v) (\<lambda>gone.
     bindE (g_hash_table_foreach_remove check entries) (\<lambda>rest. Inr (if gone then rest else (k, v) # rest)))"

definition remove_matching ::
    "protocol_t list \<Rightarrow> ('d, 'e) dissector_registry \<Rightarrow> nat option \<Rightarrow> dissector_table \<Rightarrow> dissector_table res" where
  "remove_matching mem R handle sub =
     bindE (g_hash_table_foreach_remove (dissector_delete_all_check mem R handle) (hash_table sub))
       (\<lambda>entries. Inr (sub\<lparr>hash_table := entries\<rparr>))"

definition dissector_delete_all ::
    "protocol_t list \<Rightarrow> string \<Rightarrow> nat option \<Rightarrow> ('d, 'e) dissector_registry \<Rightarrow>
      ('d, 'e) dissector_registry res" where
  "dissector_delete_all mem name handle R = change_named_table name (remove_matching mem R handle) R"

definition dissector_delete_from_table ::
    "protocol_t list \<Rightarrow> nat \<Rightarrow> nat \<Rightarrow> ('d, 'e) dissector_registry \<Rightarrow> ('d, 'e) dissector_registry res" where
  "dissector_delete_from_table mem handle t R =
     change_table t (\<lambda>sub.
       bindE (remove_matching mem R (Some handle) sub) (\<lambda>sub'.
         Inr (sub'\<lparr>dissector_handles := remove1 handle (dissector_handles sub')\<rparr>))) R"

fun dissector_delete_from_tables ::
    "protocol_t list \<Rightarrow> nat \<Rightarrow> (string \<times> nat) list \<Rightarrow> ('d, 'e) dissector_registry \<Rightarrow>
      ('d, 'e) dissector_registry res" where
  "dissector_delete_from_tables mem handle [] R = Inr R"
| "dissector_delete_from_tables mem handle ((name, t) # tables) R =
     bindE (dissector_delete_from_table mem handle t R) (dissector_delete_from_tables mem handle tables)"

definition dissector_delete_from_all_tables ::
    "protocol_t list \<Rightarrow> nat \<Rightarrow> ('d, 'e) dissector_registry \<Rightarrow> ('d, 'e) dissector_registry res" where
  "dissector_delete_from_all_tables mem handle R =
     dissector_delete_from_tables mem handle (dissector_tables R) R"

section \<open>Postdissectors\<close>

definition register_postdissector ::
    "nat \<Rightarrow> ('d, 'e) dissector_registry \<Rightarrow> ('d, 'e) dissector_registry" where
  "register_postdissector handle R =
     R\<lparr>postdissectors := Some ((case postdissectors R of None \<Rightarrow> [] | Some ps \<Rightarrow> ps) @
                                [\<lparr>pd_handle = handle, wanted_hfids = None\<rparr>])\<rparr>"

fun set_wanted :: "nat \<Rightarrow> int list option \<Rightarrow> postdissector list \<Rightarrow> postdissector list" where
  "set_wanted handle hfids [] = []"
| "set_wanted handle hfids (p # ps) =
     (if pd_handle p = handle then p\<lparr>wanted_hfids := hfids\<rparr> # ps else p # set_wanted handle hfids ps)"

definition set_postdissector_wanted_hfids ::
    "nat \<Rightarrow> int list option \<Rightarrow> ('d, 'e) dissector_registry \<Rightarrow> ('d, 'e) dissector_registry" where
  "set_postdissector_wanted_hfids handle hfids R =
     R\<lparr>postdissectors := map_option (set_wanted handle hfids) (postdissectors R)\<rparr>"

text \<open>\<open>g_array_remove_index_fast\<close> moves the last element to the place of the one it removes.\<close>

definition deregister_postdissector ::
    "nat \<Rightarrow> ('d, 'e) dissector_registry \<Rightarrow> ('d, 'e) dissector_registry" where
  "deregister_postdissector handle R =
     (case postdissectors R of
        None \<Rightarrow> R
      | Some ps \<Rightarrow>
          let i = length (takeWhile (\<lambda>p. pd_handle p \<noteq> handle) ps)
          in if i < length ps then R\<lparr>postdissectors := Some (remove_index_fast i ps)\<rparr> else R)"

definition destroy_dissector_handle ::
    "protocol_t list \<Rightarrow> nat option \<Rightarrow> ('d, 'e) dissector_registry \<Rightarrow> ('d, 'e) dissector_registry res" where
  "destroy_dissector_handle mem handle R =
     (case handle of
        None \<Rightarrow> Inr R
      | Some h \<Rightarrow>
          bindE (dissector_delete_from_all_tables mem h R) (\<lambda>R1. Inr (deregister_postdissector h R1)))"

definition deregister_dissector ::
    "protocol_t list \<Rightarrow> string \<Rightarrow> ('d, 'e) dissector_registry \<Rightarrow> ('d, 'e) dissector_registry res" where
  "deregister_dissector mem name R =
     (case find_dissector R name of
        None \<Rightarrow> Inr R
      | Some handle \<Rightarrow>
          destroy_dissector_handle mem (Some handle)
            (R\<lparr>registered_dissectors := AList.delete name (registered_dissectors R),
               depend_dissector_lists :=
                 map (\<lambda>(parent, ds). (parent, remove1 name ds)) (AList.delete name (depend_dissector_lists R)),
               heur_dissector_lists := AList.delete name (heur_dissector_lists R)\<rparr>))"

section \<open>Heuristic dissectors\<close>

definition register_heur_dissector_list ::
    "'p registrar \<Rightarrow> string \<Rightarrow> int \<Rightarrow> ('d, 'e) dissector_registry \<Rightarrow>
      (nat \<times> ('d, 'e) dissector_registry) res" where
  "register_heur_dissector_list reg name proto R =
     g_assert (map_of (heur_dissector_lists R) name = None)
       (bindE (find_protocol_by_id reg proto) (\<lambda>protocol.
          let l = length (heur_list_mem R)
          in Inr (l, R\<lparr>heur_list_mem := heur_list_mem R @ [\<lparr>hl_protocol = protocol, hl_dissectors = []\<rparr>],
                       heur_dissector_lists := AList.update name l (heur_dissector_lists R)\<rparr>)))"

definition find_heur_dissector_list :: "('d, 'e) dissector_registry \<Rightarrow> string \<Rightarrow> nat option" where
  "find_heur_dissector_list R name = map_of (heur_dissector_lists R) name"

definition find_heur_dissector_by_unique_short_name ::
    "('d, 'e) dissector_registry \<Rightarrow> string \<Rightarrow> nat option" where
  "find_heur_dissector_by_unique_short_name R short_name = map_of (heuristic_short_names R) short_name"

text \<open>The first entry of a list for a dissector and a protocol, by its place.\<close>

fun find_matching_heur_dissector ::
    "('d, 'e) dissector_registry \<Rightarrow> 'd \<Rightarrow> nat option \<Rightarrow> nat list \<Rightarrow> nat option res" where
  "find_matching_heur_dissector R dissector protocol [] = Inr None"
| "find_matching_heur_dissector R dissector protocol (e # es) =
     bindE (at (heur_mem R) e) (\<lambda>hdtbl_entry.
       if heur_dissector hdtbl_entry = dissector \<and> heur_protocol hdtbl_entry = protocol then Inr (Some e)
       else find_matching_heur_dissector R dissector protocol es)"

definition proto_add_heuristic_dissector ::
    "nat option \<Rightarrow> string \<Rightarrow> ('d, 'e) dissector_registry \<Rightarrow> 'p protocol_registry \<Rightarrow>
      'p protocol_registry res" where
  "proto_add_heuristic_dissector protocol short_name R P =
     (case (protocol, find_heur_dissector_by_unique_short_name R short_name) of
        (Some p, Some e) \<Rightarrow> put_protocol p (\<lambda>q. q\<lparr>heur_list := e # heur_list q\<rparr>) P
      | _ \<Rightarrow> Inr P)"

definition change_heur_list ::
    "nat \<Rightarrow> (nat list \<Rightarrow> nat list) \<Rightarrow> ('d, 'e) dissector_registry \<Rightarrow> ('d, 'e) dissector_registry res" where
  "change_heur_list l f R =
     bindE (at (heur_list_mem R) l) (\<lambda>sub.
       Inr (R\<lparr>heur_list_mem := (heur_list_mem R)[l := sub\<lparr>hl_dissectors := f (hl_dissectors sub)\<rparr>]\<rparr>))"

definition heur_dissector_add ::
    "string \<Rightarrow> 'd \<Rightarrow> string \<Rightarrow> string \<Rightarrow> int \<Rightarrow> bool \<Rightarrow> ('d, 'e) dissector_registry \<Rightarrow>
      'p protocol_registry \<Rightarrow> (('d, 'e) dissector_registry \<times> 'p protocol_registry) res" where
  "heur_dissector_add name dissector display_name short_name proto enable R P =
     (case find_heur_dissector_list R name of
        None \<Rightarrow> Inr (R, P)
      | Some l \<Rightarrow>
          bindE (at (heur_list_mem R) l) (\<lambda>sub_dissectors.
          bindE (find_protocol_by_id (fields_of P) proto) (\<lambda>protocol.
          bindE (find_matching_heur_dissector R dissector protocol (hl_dissectors sub_dissectors)) (\<lambda>dup.
            if dup \<noteq> None then Inr (R, P)
            else g_assert (map_of (heuristic_short_names R) short_name = None)
              (let e = length (heur_mem R);
                   R1 = R\<lparr>heur_mem := heur_mem R @
                            [\<lparr>heur_dissector = dissector, heur_protocol = protocol, heur_list_of = name,
                              heur_display_name = display_name, heur_short_name = short_name,
                              heur_enabled = enable\<rparr>],
                          heuristic_short_names := AList.update short_name e (heuristic_short_names R)\<rparr>
               in
               bindE (change_heur_list l (\<lambda>es. e # es) R1) (\<lambda>R2.
               bindE (proto_add_heuristic_dissector protocol short_name R2 P) (\<lambda>P1.
                 (case hl_protocol sub_dissectors of
                    None \<Rightarrow> Inr (R2, P1)
                  | Some q \<Rightarrow>
                      bindE (proto_get_protocol_short_name (protocol_mem P1) (Some q)) (\<lambda>parent.
                      bindE (proto_get_protocol_short_name (protocol_mem P1) protocol) (\<lambda>dependent.
                        Inr (register_depend_dissector parent dependent R2, P1)))))))))))"

definition heur_dissector_delete ::
    "'p registrar \<Rightarrow> string \<Rightarrow> 'd \<Rightarrow> int \<Rightarrow> ('d, 'e) dissector_registry \<Rightarrow> ('d, 'e) dissector_registry res" where
  "heur_dissector_delete reg name dissector proto R =
     (case find_heur_dissector_list R name of
        None \<Rightarrow> Inl Fault
      | Some l \<Rightarrow>
          bindE (at (heur_list_mem R) l) (\<lambda>sub_dissectors.
          bindE (find_protocol_by_id reg proto) (\<lambda>protocol.
          bindE (find_matching_heur_dissector R dissector protocol (hl_dissectors sub_dissectors)) (\<lambda>found.
            (case found of
               None \<Rightarrow> Inr R
             | Some e \<Rightarrow>
                 bindE (at (heur_mem R) e) (\<lambda>hdtbl_entry.
                   change_heur_list l (remove1 e)
                     (R\<lparr>heuristic_short_names :=
                          AList.delete (heur_short_name hdtbl_entry) (heuristic_short_names R)\<rparr>)))))))"

end
