(* ===== verification/Packet.thy ===== *)
theory Packet
  imports DissectorTables ProtoTree TvbOps
begin

text \<open>
  Calling dissectors (epan/packet.c): through a handle, through the entry of a table, by trying the
  heuristic dissectors of a list, with the data dissector for what nobody wants, and the postdissectors.

  The functions behind the pointers are a parameter: what they do to the state is arbitrary, the calls of
  the functions here that they make included. The state of a dissection is the \<open>packet_info\<close> of the frame,
  its protocol tree (with the fields that are registered), the protocols, the tables, and whatever else
  the functions work on. An exception leaves the state as the code has left it when it was thrown.
\<close>

section \<open>Data\<close>

record address =
  addr_type :: int
  addr_len :: int
  addr_data :: "guint8 list option"
  addr_priv :: bool

text \<open>
  Of the \<open>packet_info\<close> the members that packet.c works on; \<open>cinfo\<close> is NULL or whether the columns are
  writable.
\<close>

record packet_info =
  current_proto :: string
  cinfo :: "bool option"
  frame_num :: guint32
  data_src :: "(tvbuff \<times> string) list"
  dl_src :: address
  dl_dst :: address
  net_src :: address
  net_dst :: address
  src_addr :: address
  dst_addr :: address
  in_error_pkt :: bool
  match_uint :: guint32
  match_string :: "string option"
  can_desegment :: guint16
  saved_can_desegment :: guint16
  want_pdu_tracking :: guint16
  layers :: "int list"
  curr_layer_num :: guint8
  dependent_frames :: "guint32 list"
  heur_list_name :: "string option"

record ('p, 'r, 'd, 'e, 'x) dissection =
  pinfo :: packet_info
  tree_state :: "('p, 'r) proto_state"
  known_protocols :: "protocol_t list"
  registry :: "('d, 'e) dissector_registry"
  data_handle :: nat
  dissector_state :: 'x

type_synonym ('p, 'r, 'd, 'e, 'x, 'a) dissecting = "(('p, 'r, 'd, 'e, 'x) dissection, 'a) action"

record ('p, 'r, 'd, 'e, 'x) dissector_code =
  simple_fn :: "'d \<Rightarrow> tvbuff \<Rightarrow> nat option \<Rightarrow> 'e option \<Rightarrow> ('p, 'r, 'd, 'e, 'x, gint) dissecting"
  callback_fn :: "'d \<Rightarrow> tvbuff \<Rightarrow> nat option \<Rightarrow> 'e option \<Rightarrow> 'e option \<Rightarrow> ('p, 'r, 'd, 'e, 'x, gint) dissecting"
  heur_fn :: "'d \<Rightarrow> tvbuff \<Rightarrow> nat option \<Rightarrow> 'e option \<Rightarrow> ('p, 'r, 'd, 'e, 'x, gint) dissecting"

definition PINFO_LAYER_MAX_RECURSION_DEPTH :: nat where "PINFO_LAYER_MAX_RECURSION_DEPTH = 500"

section \<open>Reading and changing the state\<close>

definition gets :: "('s \<Rightarrow> 'a) \<Rightarrow> ('s, 'a) action" where
  "gets f = asks (\<lambda>s. Inr (f s))"

definition set_pinfo :: "(packet_info \<Rightarrow> packet_info) \<Rightarrow> ('p, 'r, 'd, 'e, 'x, unit) dissecting" where
  "set_pinfo f = modify (\<lambda>s. s\<lparr>pinfo := f (pinfo s)\<rparr>)"

text \<open>\<open>TRY\<close> with its \<open>CATCH\<close>es: the handler works on the state as the exception has left it.\<close>

definition catchS :: "('s, 'a) action \<Rightarrow> (exc \<Rightarrow> ('s, 'a) action) \<Rightarrow> ('s, 'a) action" where
  "catchS m handler s = (case m s of (Inl e, s') \<Rightarrow> handler e s' | (Inr x, s') \<Rightarrow> (Inr x, s'))"

definition get_handle :: "nat \<Rightarrow> ('p, 'r, 'd, 'e, 'x, ('d, 'e) dissector_handle) dissecting" where
  "get_handle handle = asks (\<lambda>s. at (handle_mem (registry s)) handle)"

text \<open>A question about protocols in name only that refer to each other in a circle is a fault.\<close>

definition protocol_enabled :: "nat \<Rightarrow> ('p, 'r, 'd, 'e, 'x, bool) dissecting" where
  "protocol_enabled protocol =
     asks (\<lambda>s.
       (case proto_is_protocol_enabled (registrar (tree_state s)) (known_protocols s) (Some protocol) of
          None \<Rightarrow> Inl Fault
        | Some answer \<Rightarrow> answer))"

text \<open>The condition \<open>protocol != NULL && !proto_is_pino(protocol)\<close>, with the protocol.\<close>

definition own_protocol :: "nat option \<Rightarrow> ('p, 'r, 'd, 'e, 'x, protocol_t option) dissecting" where
  "own_protocol protocol =
     (case protocol of
        None \<Rightarrow> return None
      | Some p \<Rightarrow>
          bindS (asks (\<lambda>s. protocol_at (known_protocols s) p)) (\<lambda>pr.
            return (if proto_is_pino pr then None else Some pr)))"

definition tree_count :: "nat option \<Rightarrow> ('p, 'r, 'd, 'e, 'x) dissection \<Rightarrow> int" where
  "tree_count tree s = (if tree = None then 0 else item_count (tree_state s))"

definition pass_on_desegment :: "packet_info \<Rightarrow> packet_info" where
  "pass_on_desegment pi =
     pi\<lparr>saved_can_desegment := can_desegment pi,
        can_desegment := can_desegment pi - (if can_desegment pi > 0 then 1 else 0)\<rparr>"

definition add_layer :: "int \<Rightarrow> packet_info \<Rightarrow> packet_info" where
  "add_layer proto_id pi =
     pi\<lparr>curr_layer_num := curr_layer_num pi + 1, layers := layers pi @ [proto_id]\<rparr>"

text \<open>Taking layers away until there are as many as before; the number follows if the packet was rejected.\<close>

function remove_layers :: "bool \<Rightarrow> nat \<Rightarrow> packet_info \<Rightarrow> packet_info" where
  "remove_layers rejected saved_layers_len pi =
     (if length (layers pi) > saved_layers_len then
        remove_layers rejected saved_layers_len
          (pi\<lparr>curr_layer_num := curr_layer_num pi - (if rejected then 1 else 0), layers := butlast (layers pi)\<rparr>)
      else pi)"
  by pat_completeness auto
termination
  by (relation "measure (\<lambda>(rejected, n, pi). length (layers pi))") auto

declare remove_layers.simps [simp del]

section \<open>Data sources\<close>

definition add_new_data_source :: "tvbuff \<Rightarrow> string \<Rightarrow> ('p, 'r, 'd, 'e, 'x, unit) dissecting" where
  "add_new_data_source tvb name = set_pinfo (\<lambda>pi. pi\<lparr>data_src := data_src pi @ [(tvb, name)]\<rparr>)"

definition remove_last_data_source :: "('p, 'r, 'd, 'e, 'x, unit) dissecting" where
  "remove_last_data_source = set_pinfo (\<lambda>pi. pi\<lparr>data_src := butlast (data_src pi)\<rparr>)"

definition get_data_source_tvb_by_name :: "packet_info \<Rightarrow> string \<Rightarrow> tvbuff option" where
  "get_data_source_tvb_by_name pi name = map_option fst (find (\<lambda>(tvb, n). n = name) (data_src pi))"

definition free_data_sources :: "('p, 'r, 'd, 'e, 'x, unit) dissecting" where
  "free_data_sources = set_pinfo (\<lambda>pi. pi\<lparr>data_src := []\<rparr>)"

definition mark_frame_as_depended_upon :: "guint32 \<Rightarrow> ('p, 'r, 'd, 'e, 'x, unit) dissecting" where
  "mark_frame_as_depended_upon frame =
     set_pinfo (\<lambda>pi. if frame \<noteq> frame_num pi then pi\<lparr>dependent_frames := frame # dependent_frames pi\<rparr> else pi)"

section \<open>Calling a dissector\<close>

definition enter_protocol :: "protocol_t option \<Rightarrow> bool \<Rightarrow> packet_info \<Rightarrow> packet_info" where
  "enter_protocol own add_proto_name pi =
     (case own of
        None \<Rightarrow> pi
      | Some pr \<Rightarrow>
          let pi1 = pi\<lparr>current_proto := p_short_name pr\<rparr>
          in if add_proto_name then add_layer (p_proto_id pr) pi1 else pi1)"

definition call_dissector_through_handle ::
    "('p, 'r, 'd, 'e, 'x) dissector_code \<Rightarrow> nat \<Rightarrow> tvbuff \<Rightarrow> nat option \<Rightarrow> 'e option \<Rightarrow>
      ('p, 'r, 'd, 'e, 'x, gint) dissecting" where
  "call_dissector_through_handle code h tvb tree data =
     bindS (get_handle h) (\<lambda>handle.
     bindS (gets (\<lambda>s. current_proto (pinfo s))) (\<lambda>saved_proto.
     bindS (own_protocol (dh_protocol handle)) (\<lambda>own.
     bindS (set_pinfo (enter_protocol own False)) (\<lambda>_.
     bindS (case dissector_type handle of
              DISSECTOR_TYPE_SIMPLE \<Rightarrow> simple_fn code (dissector_func handle) tvb tree data
            | DISSECTOR_TYPE_CALLBACK \<Rightarrow>
                callback_fn code (dissector_func handle) tvb tree data (dissector_data handle)) (\<lambda>len.
     bindS (set_pinfo (\<lambda>pi. pi\<lparr>current_proto := saved_proto\<rparr>)) (\<lambda>_.
       return len))))))"

definition col_get_writable :: "bool option \<Rightarrow> bool" where
  "col_get_writable info = (case info of None \<Rightarrow> False | Some writable \<Rightarrow> writable)"

definition col_set_writable :: "bool \<Rightarrow> bool option \<Rightarrow> bool option" where
  "col_set_writable writable info = (case info of None \<Rightarrow> None | Some _ \<Rightarrow> Some writable)"

definition copy_address_shallow :: "address \<Rightarrow> address" where
  "copy_address_shallow from = from\<lparr>addr_priv := False\<rparr>"

definition restore_addresses :: "packet_info \<Rightarrow> packet_info \<Rightarrow> packet_info" where
  "restore_addresses saved pi =
     pi\<lparr>cinfo := col_set_writable (col_get_writable (cinfo saved)) (cinfo pi),
        dl_src := copy_address_shallow (dl_src saved), dl_dst := copy_address_shallow (dl_dst saved),
        net_src := copy_address_shallow (net_src saved), net_dst := copy_address_shallow (net_dst saved),
        src_addr := copy_address_shallow (src_addr saved), dst_addr := copy_address_shallow (dst_addr saved)\<rparr>"

definition call_dissector_work_error ::
    "('p, 'r, 'd, 'e, 'x) dissector_code \<Rightarrow> nat \<Rightarrow> tvbuff \<Rightarrow> nat option \<Rightarrow> 'e option \<Rightarrow>
      ('p, 'r, 'd, 'e, 'x, gint) dissecting" where
  "call_dissector_work_error code h tvb tree data =
     bindS (gets pinfo) (\<lambda>saved.
     bindS (set_pinfo (\<lambda>pi. pi\<lparr>cinfo := col_set_writable False (cinfo pi)\<rparr>)) (\<lambda>_.
     bindS (catchS (call_dissector_through_handle code h tvb tree data)
              (\<lambda>e. if e = BoundsError then
                     bindS (set_pinfo (\<lambda>pi. (restore_addresses saved pi)
                              \<lparr>current_proto := current_proto saved, can_desegment := can_desegment saved\<rparr>))
                       (\<lambda>_. throw BoundsError)
                   else if e \<in> {FragmentBoundsError, ContainedBoundsError, ReportedBoundsError} then
                     asks (\<lambda>_. tvb_captured_length tvb)
                   else throw e)) (\<lambda>len.
     bindS (set_pinfo (\<lambda>pi. (restore_addresses saved pi)\<lparr>want_pdu_tracking := 0\<rparr>)) (\<lambda>_.
       return len))))"

definition call_dissector_work ::
    "('p, 'r, 'd, 'e, 'x) dissector_code \<Rightarrow> nat \<Rightarrow> tvbuff \<Rightarrow> nat option \<Rightarrow> bool \<Rightarrow> 'e option \<Rightarrow>
      ('p, 'r, 'd, 'e, 'x, gint) dissecting" where
  "call_dissector_work code h tvb tree add_proto_name data =
     bindS (get_handle h) (\<lambda>handle.
     bindS (case dh_protocol handle of None \<Rightarrow> return True | Some p \<Rightarrow> protocol_enabled p) (\<lambda>enabled.
       if \<not> enabled then return 0
       else
         bindS (gets (tree_count tree)) (\<lambda>saved_tree_count.
         bindS (gets pinfo) (\<lambda>saved.
         bindS (assertS (length (layers saved) < PINFO_LAYER_MAX_RECURSION_DEPTH)) (\<lambda>_.
         bindS (set_pinfo pass_on_desegment) (\<lambda>_.
         bindS (own_protocol (dh_protocol handle)) (\<lambda>own.
         bindS (set_pinfo (enter_protocol own add_proto_name)) (\<lambda>_.
         bindS (gets (\<lambda>s. in_error_pkt (pinfo s))) (\<lambda>err.
         bindS (if err then call_dissector_work_error code h tvb tree data
                else call_dissector_through_handle code h tvb tree data) (\<lambda>len.
         bindS (own_protocol (dh_protocol handle)) (\<lambda>own'.
         bindS (gets (tree_count tree)) (\<lambda>count.
         bindS (if own' \<noteq> None \<and> add_proto_name \<and> (len = 0 \<or> tree \<noteq> None \<and> saved_tree_count = count)
                then set_pinfo (remove_layers (len = 0) (length (layers saved))) else return ()) (\<lambda>_.
         bindS (set_pinfo (\<lambda>pi. pi\<lparr>current_proto := current_proto saved, can_desegment := can_desegment saved\<rparr>))
           (\<lambda>_. return len))))))))))))))"

section \<open>Calling by a table\<close>

definition on_current ::
    "dtbl_entry option \<Rightarrow> (nat \<Rightarrow> ('p, 'r, 'd, 'e, 'x, gint) dissecting) \<Rightarrow>
      ('p, 'r, 'd, 'e, 'x, gint) dissecting" where
  "on_current dtbl_entry call =
     (case dtbl_entry of
        None \<Rightarrow> return 0
      | Some e \<Rightarrow> (case current e of None \<Rightarrow> return 0 | Some handle \<Rightarrow> call handle))"

definition get_table :: "nat \<Rightarrow> ('p, 'r, 'd, 'e, 'x, dissector_table) dissecting" where
  "get_table t = asks (\<lambda>s. at (table_mem (registry s)) t)"

definition dissector_try_uint_new ::
    "('p, 'r, 'd, 'e, 'x) dissector_code \<Rightarrow> nat \<Rightarrow> guint32 \<Rightarrow> tvbuff \<Rightarrow> nat option \<Rightarrow> bool \<Rightarrow> 'e option \<Rightarrow>
      ('p, 'r, 'd, 'e, 'x, gint) dissecting" where
  "dissector_try_uint_new code t uint_val tvb tree add_proto_name data =
     bindS (get_table t) (\<lambda>sub_dissectors.
     bindS (asks (\<lambda>_. find_uint_dtbl_entry sub_dissectors uint_val)) (\<lambda>dtbl_entry.
       on_current dtbl_entry (\<lambda>handle.
         bindS (gets (\<lambda>s. match_uint (pinfo s))) (\<lambda>saved_match_uint.
         bindS (set_pinfo (\<lambda>pi. pi\<lparr>match_uint := uint_val\<rparr>)) (\<lambda>_.
         bindS (call_dissector_work code handle tvb tree add_proto_name data) (\<lambda>len.
         bindS (set_pinfo (\<lambda>pi. pi\<lparr>match_uint := saved_match_uint\<rparr>)) (\<lambda>_.
           return len)))))))"

definition dissector_try_uint ::
    "('p, 'r, 'd, 'e, 'x) dissector_code \<Rightarrow> nat \<Rightarrow> guint32 \<Rightarrow> tvbuff \<Rightarrow> nat option \<Rightarrow>
      ('p, 'r, 'd, 'e, 'x, gint) dissecting" where
  "dissector_try_uint code t uint_val tvb tree = dissector_try_uint_new code t uint_val tvb tree True None"

definition dissector_try_string_new ::
    "('p, 'r, 'd, 'e, 'x) dissector_code \<Rightarrow> nat \<Rightarrow> string option \<Rightarrow> tvbuff \<Rightarrow> nat option \<Rightarrow> bool \<Rightarrow> 'e option \<Rightarrow>
      ('p, 'r, 'd, 'e, 'x, gint) dissecting" where
  "dissector_try_string_new code t string tvb tree add_proto_name data =
     (case string of
        None \<Rightarrow> return 0
      | Some str \<Rightarrow>
          bindS (get_table t) (\<lambda>sub_dissectors.
          bindS (asks (\<lambda>_. find_string_dtbl_entry sub_dissectors str)) (\<lambda>dtbl_entry.
            on_current dtbl_entry (\<lambda>handle.
              bindS (gets (\<lambda>s. match_string (pinfo s))) (\<lambda>saved_match_string.
              bindS (set_pinfo (\<lambda>pi. pi\<lparr>match_string := string\<rparr>)) (\<lambda>_.
              bindS (call_dissector_work code handle tvb tree add_proto_name data) (\<lambda>len.
              bindS (set_pinfo (\<lambda>pi. pi\<lparr>match_string := saved_match_string\<rparr>)) (\<lambda>_.
                return len))))))))"

definition dissector_try_string ::
    "('p, 'r, 'd, 'e, 'x) dissector_code \<Rightarrow> nat \<Rightarrow> string option \<Rightarrow> tvbuff \<Rightarrow> nat option \<Rightarrow> 'e option \<Rightarrow>
      ('p, 'r, 'd, 'e, 'x, gint) dissecting" where
  "dissector_try_string code t string tvb tree data = dissector_try_string_new code t string tvb tree True data"

definition dissector_try_guid_new ::
    "('p, 'r, 'd, 'e, 'x) dissector_code \<Rightarrow> nat \<Rightarrow> guint8 list \<times> guint16 \<Rightarrow> tvbuff \<Rightarrow> nat option \<Rightarrow> bool \<Rightarrow>
      'e option \<Rightarrow> ('p, 'r, 'd, 'e, 'x, gint) dissecting" where
  "dissector_try_guid_new code t guid_val tvb tree add_proto_name data =
     bindS (get_table t) (\<lambda>sub_dissectors.
       on_current (map_of (hash_table sub_dissectors) (GUID_KEY (fst guid_val) (snd guid_val))) (\<lambda>handle.
         call_dissector_work code handle tvb tree add_proto_name data))"

definition dissector_try_guid ::
    "('p, 'r, 'd, 'e, 'x) dissector_code \<Rightarrow> nat \<Rightarrow> guint8 list \<times> guint16 \<Rightarrow> tvbuff \<Rightarrow> nat option \<Rightarrow>
      ('p, 'r, 'd, 'e, 'x, gint) dissecting" where
  "dissector_try_guid code t guid_val tvb tree = dissector_try_guid_new code t guid_val tvb tree True None"

definition dissector_try_payload ::
    "('p, 'r, 'd, 'e, 'x) dissector_code \<Rightarrow> nat \<Rightarrow> tvbuff \<Rightarrow> nat option \<Rightarrow>
      ('p, 'r, 'd, 'e, 'x, gint) dissecting" where
  "dissector_try_payload code t tvb tree = dissector_try_uint code t 0 tvb tree"

definition dissector_try_payload_new ::
    "('p, 'r, 'd, 'e, 'x) dissector_code \<Rightarrow> nat \<Rightarrow> tvbuff \<Rightarrow> nat option \<Rightarrow> bool \<Rightarrow> 'e option \<Rightarrow>
      ('p, 'r, 'd, 'e, 'x, gint) dissecting" where
  "dissector_try_payload_new code t tvb tree add_proto_name data =
     dissector_try_uint_new code t 0 tvb tree add_proto_name data"

section \<open>Calling by a handle, with the data dissector for the rest\<close>

definition call_dissector_only ::
    "('p, 'r, 'd, 'e, 'x) dissector_code \<Rightarrow> nat option \<Rightarrow> tvbuff \<Rightarrow> nat option \<Rightarrow> 'e option \<Rightarrow>
      ('p, 'r, 'd, 'e, 'x, gint) dissecting" where
  "call_dissector_only code handle tvb tree data =
     (case handle of
        None \<Rightarrow> throw DissectorError
      | Some h \<Rightarrow> call_dissector_work code h tvb tree True data)"

definition call_data_dissector ::
    "('p, 'r, 'd, 'e, 'x) dissector_code \<Rightarrow> tvbuff \<Rightarrow> nat option \<Rightarrow> ('p, 'r, 'd, 'e, 'x, gint) dissecting" where
  "call_data_dissector code tvb tree =
     bindS (gets data_handle) (\<lambda>h. call_dissector_work code h tvb tree True None)"

definition assert_data_protocol :: "('p, 'r, 'd, 'e, 'x, unit) dissecting" where
  "assert_data_protocol =
     bindS (gets data_handle) (\<lambda>h. bindS (get_handle h) (\<lambda>handle. assertS (dh_protocol handle \<noteq> None)))"

definition call_dissector_with_data ::
    "('p, 'r, 'd, 'e, 'x) dissector_code \<Rightarrow> nat option \<Rightarrow> tvbuff \<Rightarrow> nat option \<Rightarrow> 'e option \<Rightarrow>
      ('p, 'r, 'd, 'e, 'x, gint) dissecting" where
  "call_dissector_with_data code handle tvb tree data =
     bindS (call_dissector_only code handle tvb tree data) (\<lambda>ret.
       if ret = 0 then
         bindS assert_data_protocol (\<lambda>_.
         bindS (call_data_dissector code tvb tree) (\<lambda>_.
           asks (\<lambda>_. tvb_captured_length tvb)))
       else return ret)"

definition call_dissector ::
    "('p, 'r, 'd, 'e, 'x) dissector_code \<Rightarrow> nat option \<Rightarrow> tvbuff \<Rightarrow> nat option \<Rightarrow>
      ('p, 'r, 'd, 'e, 'x, gint) dissecting" where
  "call_dissector code handle tvb tree = call_dissector_with_data code handle tvb tree None"

section \<open>Trying heuristic dissectors\<close>

definition get_heur :: "nat \<Rightarrow> ('p, 'r, 'd, 'e, 'x, 'd heur_dtbl_entry) dissecting" where
  "get_heur e = asks (\<lambda>s. at (heur_mem (registry s)) e)"

definition heur_protocol_of :: "'d heur_dtbl_entry \<Rightarrow> ('p, 'r, 'd, 'e, 'x, protocol_t option) dissecting" where
  "heur_protocol_of hdtbl_entry =
     (case heur_protocol hdtbl_entry of
        None \<Rightarrow> return None
      | Some p \<Rightarrow> bindS (asks (\<lambda>s. protocol_at (known_protocols s) p)) (\<lambda>pr. return (Some pr)))"

text \<open>
  What happens to one entry of the list: \<open>None\<close> if its dissector is not tried, otherwise what it returns.
\<close>

definition try_entry ::
    "('p, 'r, 'd, 'e, 'x) dissector_code \<Rightarrow> guint16 \<Rightarrow> nat \<Rightarrow> int \<Rightarrow> tvbuff \<Rightarrow> nat option \<Rightarrow> 'e option \<Rightarrow> nat \<Rightarrow>
      ('p, 'r, 'd, 'e, 'x, gint option) dissecting" where
  "try_entry code desegment saved_layers_len saved_tree_count tvb tree data e =
     bindS (set_pinfo (\<lambda>pi. pi\<lparr>can_desegment := desegment\<rparr>)) (\<lambda>_.
     bindS (get_heur e) (\<lambda>hdtbl_entry.
     bindS (case heur_protocol hdtbl_entry of
              None \<Rightarrow> return False
            | Some p \<Rightarrow> bindS (protocol_enabled p) (\<lambda>enabled. return (\<not> enabled \<or> \<not> heur_enabled hdtbl_entry)))
       (\<lambda>skip.
        if skip then return None
        else
          bindS (heur_protocol_of hdtbl_entry) (\<lambda>own.
          bindS (set_pinfo (enter_protocol own True)) (\<lambda>_.
          bindS (set_pinfo (\<lambda>pi. pi\<lparr>heur_list_name := Some (heur_list_of hdtbl_entry)\<rparr>)) (\<lambda>_.
          bindS (heur_fn code (heur_dissector hdtbl_entry) tvb tree data) (\<lambda>len.
          bindS (gets (tree_count tree)) (\<lambda>count.
          bindS (if heur_protocol hdtbl_entry \<noteq> None \<and> (len = 0 \<or> tree \<noteq> None \<and> saved_tree_count = count)
                 then set_pinfo (remove_layers (len = 0) saved_layers_len) else return ()) (\<lambda>_.
            return (Some len))))))))))"

fun try_entries ::
    "(nat \<Rightarrow> ('p, 'r, 'd, 'e, 'x, gint option) dissecting) \<Rightarrow> nat list \<Rightarrow>
      ('p, 'r, 'd, 'e, 'x, nat option) dissecting" where
  "try_entries try_one [] = return None"
| "try_entries try_one (e # es) =
     bindS (try_one e) (\<lambda>len.
       (case len of
          Some l \<Rightarrow> if l \<noteq> 0 then return (Some e) else try_entries try_one es
        | None \<Rightarrow> try_entries try_one es))"

text \<open>The entry that has accepted the packet; the status is whether there is one.\<close>

definition dissector_try_heuristic ::
    "('p, 'r, 'd, 'e, 'x) dissector_code \<Rightarrow> nat \<Rightarrow> tvbuff \<Rightarrow> nat option \<Rightarrow> 'e option \<Rightarrow>
      ('p, 'r, 'd, 'e, 'x, nat option) dissecting" where
  "dissector_try_heuristic code l tvb tree data =
     bindS (gets (tree_count tree)) (\<lambda>saved_tree_count.
     bindS (gets pinfo) (\<lambda>saved.
     bindS (set_pinfo pass_on_desegment) (\<lambda>_.
     bindS (assertS (length (layers saved) < PINFO_LAYER_MAX_RECURSION_DEPTH)) (\<lambda>_.
     bindS (asks (\<lambda>s. at (heur_list_mem (registry s)) l)) (\<lambda>sub_dissectors.
     bindS (try_entries
              (try_entry code (can_desegment (pass_on_desegment saved)) (length (layers saved)) saved_tree_count
                 tvb tree data)
              (hl_dissectors sub_dissectors)) (\<lambda>heur_dtbl_entry.
     bindS (set_pinfo (\<lambda>pi. pi\<lparr>current_proto := current_proto saved, heur_list_name := heur_list_name saved,
                                can_desegment := can_desegment saved\<rparr>)) (\<lambda>_.
       return heur_dtbl_entry)))))))"

definition call_heur_dissector_direct ::
    "('p, 'r, 'd, 'e, 'x) dissector_code \<Rightarrow> nat option \<Rightarrow> tvbuff \<Rightarrow> nat option \<Rightarrow> 'e option \<Rightarrow>
      ('p, 'r, 'd, 'e, 'x, unit) dissecting" where
  "call_heur_dissector_direct code entry tvb tree data =
     (case entry of
        None \<Rightarrow> throw DissectorError
      | Some e \<Rightarrow>
          bindS (gets pinfo) (\<lambda>saved.
          bindS (set_pinfo pass_on_desegment) (\<lambda>_.
          bindS (get_heur e) (\<lambda>heur_dtbl_entry.
          bindS (if \<not> heur_enabled heur_dtbl_entry then return False
                 else (case heur_protocol heur_dtbl_entry of None \<Rightarrow> return True | Some p \<Rightarrow> protocol_enabled p))
            (\<lambda>enabled.
             if \<not> enabled then
               bindS assert_data_protocol (\<lambda>_. bindS (call_data_dissector code tvb tree) (\<lambda>_. return ()))
             else
               bindS (heur_protocol_of heur_dtbl_entry) (\<lambda>own.
               bindS (set_pinfo (enter_protocol own True)) (\<lambda>_.
               bindS (set_pinfo (\<lambda>pi. pi\<lparr>heur_list_name := Some (heur_list_of heur_dtbl_entry)\<rparr>)) (\<lambda>_.
               bindS (heur_fn code (heur_dissector heur_dtbl_entry) tvb tree data) (\<lambda>accepted.
               bindS (if accepted = 0 then
                        bindS (call_data_dissector code tvb tree) (\<lambda>_.
                          set_pinfo (remove_layers True (length (layers saved))))
                      else return ()) (\<lambda>_.
                 set_pinfo (\<lambda>pi. pi\<lparr>can_desegment := can_desegment saved, current_proto := current_proto saved,
                                    heur_list_name := heur_list_name saved\<rparr>)))))))))))"

section \<open>Postdissectors\<close>

text \<open>Where the code goes through the array without asking whether there is one.\<close>

definition get_postdissectors :: "('p, 'r, 'd, 'e, 'x, postdissector list) dissecting" where
  "get_postdissectors =
     asks (\<lambda>s. (case postdissectors (registry s) of None \<Rightarrow> Inl Fault | Some ps \<Rightarrow> Inr ps))"

fun any_enabled :: "postdissector list \<Rightarrow> ('p, 'r, 'd, 'e, 'x, bool) dissecting" where
  "any_enabled [] = return False"
| "any_enabled (p # ps) =
     bindS (get_handle (pd_handle p)) (\<lambda>handle.
     bindS (case dh_protocol handle of None \<Rightarrow> return False | Some q \<Rightarrow> protocol_enabled q) (\<lambda>enabled.
       if enabled then return True else any_enabled ps))"

definition have_postdissector :: "('p, 'r, 'd, 'e, 'x, bool) dissecting" where
  "have_postdissector = bindS get_postdissectors any_enabled"

fun call_each ::
    "('p, 'r, 'd, 'e, 'x) dissector_code \<Rightarrow> postdissector list \<Rightarrow> tvbuff \<Rightarrow> nat option \<Rightarrow>
      ('p, 'r, 'd, 'e, 'x, unit) dissecting" where
  "call_each code [] tvb tree = return ()"
| "call_each code (p # ps) tvb tree =
     bindS (call_dissector_only code (Some (pd_handle p)) tvb tree None) (\<lambda>_. call_each code ps tvb tree)"

definition call_all_postdissectors ::
    "('p, 'r, 'd, 'e, 'x) dissector_code \<Rightarrow> tvbuff \<Rightarrow> nat option \<Rightarrow> ('p, 'r, 'd, 'e, 'x, unit) dissecting" where
  "call_all_postdissectors code tvb tree = bindS get_postdissectors (\<lambda>ps. call_each code ps tvb tree)"

definition wants_hfids :: "postdissector \<Rightarrow> bool" where
  "wants_hfids p = (case wanted_hfids p of None \<Rightarrow> False | Some hfids \<Rightarrow> hfids \<noteq> [])"

definition postdissectors_want_hfids :: "('p, 'r, 'd, 'e, 'x, bool) dissecting" where
  "postdissectors_want_hfids = bindS get_postdissectors (\<lambda>ps. return (list_ex wants_hfids ps))"

definition on_tree :: "('p, 'r, 'a) tree_action \<Rightarrow> ('p, 'r, 'd, 'e, 'x, 'a) dissecting" where
  "on_tree m s = (case m (tree_state s) of (r, t) \<Rightarrow> (r, s\<lparr>tree_state := t\<rparr>))"

definition epan_dissect_prime_with_hfid_array :: "int list \<Rightarrow> ('p, 'r, 'd, 'e, 'x, unit) dissecting" where
  "epan_dissect_prime_with_hfid_array hfids = on_tree (prime_all hfids)"

fun prime_wanted :: "postdissector list \<Rightarrow> ('p, 'r, 'd, 'e, 'x, unit) dissecting" where
  "prime_wanted [] = return ()"
| "prime_wanted (p # ps) =
     bindS (if wants_hfids p then epan_dissect_prime_with_hfid_array (the (wanted_hfids p)) else return ())
       (\<lambda>_. prime_wanted ps)"

definition prime_epan_dissect_with_postdissector_wanted_hfids :: "('p, 'r, 'd, 'e, 'x, unit) dissecting" where
  "prime_epan_dissect_with_postdissector_wanted_hfids =
     bindS (gets (\<lambda>s. postdissectors (registry s))) (\<lambda>ps.
       (case ps of None \<Rightarrow> return () | Some ps \<Rightarrow> prime_wanted ps))"

end
