(* ===== verification/ProtocolProps.thy ===== *)
theory ProtocolProps
  imports Protocols RegistrarProps
begin

text \<open>
  The invariant of the protocols: the number of a protocol finds it, the three hash tables hold the
  registered protocols under their names and nothing else, and the parent of a protocol in name only was
  registered before it. Registering and deregistering keep it, and with it the questions about a
  protocol's state come to an end.
\<close>

section \<open>What the registrar keeps of a field\<close>

text \<open>The members of a field that lead to its protocol; the links between the fields do not touch them.\<close>

definition view :: "header_field_info \<Rightarrow> ftenum \<times> guint32 \<times> hf_strings" where
  "view h = (hf_type h, hf_display h, hf_strings h)"

definition view_at :: "'p registrar \<Rightarrow> int \<Rightarrow> (ftenum \<times> guint32 \<times> hf_strings) res" where
  "view_at reg n = bindE (proto_registrar_get_nth reg n) (\<lambda>h. Inr (view h))"

definition view_of :: "'p registrar \<Rightarrow> nat \<Rightarrow> (ftenum \<times> guint32 \<times> hf_strings) res" where
  "view_of reg p = bindE (deref reg p) (\<lambda>h. Inr (view h))"

definition same_views :: "'p registrar \<Rightarrow> 'p registrar \<Rightarrow> bool" where
  "same_views reg reg' =
     (length (hfi reg') = length (hfi reg) \<and> cleared reg' = cleared reg \<and>
      (\<forall>p. view_of reg' p = view_of reg p))"

lemma view_at_of:
  "view_at reg n =
     dissector_assert (0 \<le> n \<and> nat n < length (hfi reg))
       (if nat n \<in> cleared reg then Inl DissectorError else view_of reg (nat n))"
  by (simp add: view_at_def view_of_def proto_registrar_get_nth_def dissector_assert_def)

lemma same_views_at: "same_views reg reg' \<Longrightarrow> view_at reg' n = view_at reg n"
  by (simp add: same_views_def view_at_of)

lemma same_views_refl [simp]: "same_views reg reg"
  by (simp add: same_views_def)

lemma same_views_trans: "same_views reg1 reg2 \<Longrightarrow> same_views reg2 reg3 \<Longrightarrow> same_views reg1 reg3"
  by (simp add: same_views_def)

lemma same_views_updates [simp]:
  "same_views reg (reg'\<lparr>gpa_name_map := m\<rparr>) = same_views reg reg'"
  "same_views reg (reg'\<lparr>last_field_name := c\<rparr>) = same_views reg reg'"
  "same_views (reg\<lparr>gpa_name_map := m\<rparr>) reg' = same_views reg reg'"
  "same_views (reg\<lparr>last_field_name := c\<rparr>) reg' = same_views reg reg'"
  by (simp_all add: same_views_def view_of_def deref_def)

lemma find_by_view:
  "find_protocol_by_id reg n =
     (if n < 0 then Inr None
      else bindE (view_at reg n) (\<lambda>(t, d, st).
        bindE (if t \<noteq> FT_PROTOCOL then dissector_assert (d AND BASE_PROTOCOL_INFO \<noteq> 0) (Inr ()) else Inr ())
          (\<lambda>_. (case st of PROTOCOL_T p \<Rightarrow> Inr (Some p) | NO_STRINGS \<Rightarrow> Inr None | _ \<Rightarrow> Inl Fault))))"
  by (simp add: find_protocol_by_id_def view_at_def view_def bindE_assoc)

lemma view_at_same: "view_at reg' n = view_at reg n \<Longrightarrow> find_protocol_by_id reg' n = find_protocol_by_id reg n"
  by (simp add: find_by_view)

lemma store_views:
  assumes "store p f reg = Inr reg'" "\<And>h. view (f h) = view h"
  shows "same_views reg reg'"
  using assms
  by (auto simp: store_def deref_def same_views_def view_of_def nth_list_update errs
      split: if_splits option.splits)

lemma view_links [simp]:
  "view (h\<lparr>same_name_next := nx\<rparr>) = view h" "view (h\<lparr>same_name_prev_id := pv\<rparr>) = view h"
  by (simp_all add: view_def)

lemma store_link_views:
  "store p (\<lambda>h. h\<lparr>same_name_next := nx\<rparr>) reg = Inr reg' \<Longrightarrow> same_views reg reg'"
  "store p (\<lambda>h. h\<lparr>same_name_prev_id := pv\<rparr>) reg = Inr reg' \<Longrightarrow> same_views reg reg'"
  by (auto elim: store_views)

lemma link_views:
  assumes "link_same_name p q reg = Inr reg'"
  shows "same_views reg reg'"
proof -
  obtain old old' :: header_field_info and reg1 reg2 reg3 where steps:
      "store p (\<lambda>h. h\<lparr>same_name_next := same_name_next old\<rparr>) reg = Inr reg1"
      "(case same_name_next old of None \<Rightarrow> Inr reg1
        | Some next \<Rightarrow> store next (\<lambda>h. h\<lparr>same_name_prev_id := int p\<rparr>) reg1) = Inr reg2"
      "store q (\<lambda>h. h\<lparr>same_name_next := Some p\<rparr>) reg2 = Inr reg3"
      "store p (\<lambda>h. h\<lparr>same_name_prev_id := hf_id old'\<rparr>) reg3 = Inr reg'"
    using assms unfolding link_same_name_def errs by blast
  have "same_views reg1 reg2"
    using steps(2) by (cases "same_name_next old") (auto dest: store_link_views)
  then show ?thesis
    using store_link_views(1) [OF steps(1)] store_link_views(1) [OF steps(3)] store_link_views(2) [OF steps(4)]
    by (meson same_views_trans)
qed

lemma register_views:
  assumes "proto_register_field_init reg h parent = Inr (n, reg')"
  shows "n = int (length (hfi reg))" "length (hfi reg') = length (hfi reg) + 1"
    "length (hfi reg) \<notin> cleared reg \<Longrightarrow> view_at reg' n = Inr (view h)"
    "m \<noteq> int (length (hfi reg)) \<Longrightarrow> view_at reg' m = view_at reg m"
proof -
  let ?p = "length (hfi reg)"
  let ?h = "h\<lparr>hf_parent := parent, same_name_next := None, same_name_prev_id := -1, hf_id := int ?p\<rparr>"
  let ?reg1 = "reg\<lparr>hfi := hfi reg @ [Some ?h]\<rparr>"
  have r: "n = int ?p \<and> same_views ?reg1 reg'"
    using assms
    by (auto simp: proto_register_field_init_def tmp_fld_check_assert_eq Let_def errs
        split: if_splits option.splits dest!: link_views)
  have old: "view_at ?reg1 m = view_at reg m" if "m \<noteq> int ?p"
    using that by (auto simp: view_at_of view_of_def deref_def nth_append dissector_assert_def)
  have new: "view_at ?reg1 (int ?p) = Inr (view h)" if "?p \<notin> cleared reg"
    using that by (simp add: view_at_of view_of_def deref_def dissector_assert_def view_def)
  show "n = int ?p" "length (hfi reg') = ?p + 1"
    using r by (simp_all add: same_views_def)
  show "view_at reg' n = Inr (view h)" if "?p \<notin> cleared reg"
    using r same_views_at new [OF that] by metis
  show "view_at reg' m = view_at reg m" if "m \<noteq> int ?p"
    using r same_views_at old [OF that] by metis
qed

lemma same_views_deref:
  assumes "same_views reg reg'" "deref reg p = Inr h"
  shows "\<exists>h'. deref reg' p = Inr h'"
proof -
  have "view_of reg' p = Inr (view h)"
    using assms by (simp add: same_views_def view_of_def)
  then show ?thesis by (auto simp: view_of_def errs)
qed

lemma remove_views:
  assumes "hfinfo_remove_from_gpa_name_map p reg = Inr reg'"
  shows "same_views reg reg'"
proof -
  show ?thesis
    using assms unfolding hfinfo_remove_from_gpa_name_map_def Let_def
    by (auto simp: errs split: if_splits option.splits dest!: store_link_views) (auto dest: same_views_trans)
qed

section \<open>The invariant\<close>

definition named_by :: "(protocol_t \<Rightarrow> string) \<Rightarrow> (string \<rightharpoonup> nat) \<Rightarrow> 'p protocol_registry \<Rightarrow> bool" where
  "named_by f table s =
     (\<forall>n p. table n = Some p \<longleftrightarrow>
        p \<in> set (protocols s) \<and> \<not> proto_is_pino (protocol_mem s ! p) \<and> f (protocol_mem s ! p) = n)"

definition own_fields :: "protocol_t \<Rightarrow> nat list" where
  "own_fields protocol = (case p_fields protocol of None \<Rightarrow> [] | Some fs \<Rightarrow> fs)"

definition ids_ok_of :: "'p protocol_registry \<Rightarrow> nat \<Rightarrow> bool" where
  "ids_ok_of s p =
     (find_protocol_by_id (fields_of s) (p_proto_id (protocol_mem s ! p)) = Inr (Some p) \<and>
      (proto_is_pino (protocol_mem s ! p) \<longrightarrow>
         parent_proto_id (protocol_mem s ! p) < p_proto_id (protocol_mem s ! p) \<and>
         (\<exists>q < length (protocol_mem s). parent_proto_id (protocol_mem s ! p) = p_proto_id (protocol_mem s ! q))))"

definition fields_ok_of :: "'p protocol_registry \<Rightarrow> (string \<Rightarrow> nat list) \<Rightarrow> nat \<Rightarrow> bool" where
  "fields_ok_of s byname p =
     (distinct (own_fields (protocol_mem s ! p)) \<and>
      (\<forall>f \<in> set (own_fields (protocol_mem s ! p)).
         (\<exists>t. f \<in> set (byname t)) \<and>
         (\<forall>q < length (protocol_mem s). p_proto_id (protocol_mem s ! q) \<noteq> int f \<and>
            (f \<in> set (own_fields (protocol_mem s ! q)) \<longrightarrow> q = p))))"

definition registry_ok :: "'p protocol_registry \<Rightarrow> (string \<Rightarrow> nat list) \<Rightarrow> bool" where
  "registry_ok s byname =
     (names (fields_of s) byname \<and>
      distinct (protocols s) \<and> set (protocols s) \<subseteq> {..<length (protocol_mem s)} \<and>
      named_by p_name (proto_names s) s \<and>
      named_by p_short_name (proto_short_names s) s \<and>
      named_by p_filter_name (proto_filter_names s) s \<and>
      (\<forall>p < length (protocol_mem s). ids_ok_of s p \<and> fields_ok_of s byname p))"

lemma registry_okD:
  assumes "registry_ok s byname"
  shows "names (fields_of s) byname" "distinct (protocols s)"
    "p \<in> set (protocols s) \<Longrightarrow> p < length (protocol_mem s)"
    "named_by p_name (proto_names s) s" "named_by p_short_name (proto_short_names s) s"
    "named_by p_filter_name (proto_filter_names s) s"
    "p < length (protocol_mem s) \<Longrightarrow> ids_ok_of s p" "p < length (protocol_mem s) \<Longrightarrow> fields_ok_of s byname p"
  using assms by (auto simp: registry_ok_def)

lemma protocol_by_id_iff:
  "protocol_by_id reg mem k = Inr pr \<longleftrightarrow>
     (\<exists>q. find_protocol_by_id reg k = Inr (Some q) \<and> q < length mem \<and> pr = mem ! q)"
  by (auto simp: protocol_by_id_def protocol_at_def errs split: option.splits)

lemma find_bound:
  "find_protocol_by_id reg n = Inr (Some p) \<Longrightarrow> 0 \<le> n \<and> n < int (length (hfi reg))"
  by (auto simp: find_protocol_by_id_def proto_registrar_get_nth_def dissector_assert_def errs split: if_splits)

lemma ids_ok_bound:
  assumes "registry_ok s byname" "p < length (protocol_mem s)"
  shows "0 \<le> p_proto_id (protocol_mem s ! p)"
    "p_proto_id (protocol_mem s ! p) < int (length (hfi (fields_of s)))"
  using registry_okD(7) [OF assms] find_bound unfolding ids_ok_of_def by blast+

lemma registry_init_ok: "registry_ok protocol_registry_init (\<lambda>_. [])"
  by (simp add: registry_ok_def protocol_registry_init_def named_by_def names_def registrar_init_def)

section \<open>Registering a protocol\<close>

definition valid_filter_name :: "string \<Rightarrow> bool" where
  "valid_filter_name s =
     (valid_name s \<and> \<not> list_ex (\<lambda>c. 0x41 \<le> (of_char c :: nat) \<and> (of_char c :: nat) \<le> 0x5A) s)"

lemma check_valid_filter_name: "valid_filter_name s \<Longrightarrow> check_valid_filter_name_or_fail s k = k"
  by (simp add: check_valid_filter_name_or_fail_def valid_filter_name_def valid_name_def)

lemma valid_name_not_empty: "valid_name s \<Longrightarrow> s \<noteq> []"
  by (auto simp: valid_name_def proto_check_field_name_def)

text \<open>The fields of protocols, in name only or not, pass the checks of the registrar.\<close>

lemma protocol_field_checked:
  "name \<noteq> [] \<Longrightarrow> valid_filter_name filter_name \<Longrightarrow>
     checked_field (protocol_hfinfo name filter_name FT_PROTOCOL 0 p)"
  "name \<noteq> [] \<Longrightarrow> valid_filter_name filter_name \<Longrightarrow>
     checked_field (protocol_hfinfo name filter_name FT_BYTES (BASE_NO_DISPLAY_VALUE OR BASE_PROTOCOL_INFO) p)"
  using valid_name_not_empty
  by (auto simp: checked_field_iff protocol_hfinfo_def strings_allowed_def display_allowed_def
      bytes_display_ok_def field_display_defs BASE_NO_DISPLAY_VALUE_def valid_filter_name_def)

text \<open>
  The state with one more protocol in its memory and its list, and tables that hold what the extended
  list asks for; the number is that of the new field.
\<close>

lemma register_protocol_ok:
  fixes s :: "'p protocol_registry"
  assumes inv: "registry_ok s byname"
    and s1: "protocol_mem s1 = protocol_mem s @ [pr]" "protocols s1 = length (protocol_mem s) # protocols s"
      "fields_of s1 = fields_of s"
    and tables: "named_by p_name (proto_names s1) s1" "named_by p_short_name (proto_short_names s1) s1"
      "named_by p_filter_name (proto_filter_names s1) s1"
    and hf: "checked_field h" "valid_name (hf_abbrev h)" "hf_strings h = PROTOCOL_T (length (protocol_mem s))"
      "hf_type h = FT_PROTOCOL \<or> hf_display h AND BASE_PROTOCOL_INFO \<noteq> 0"
    and pr: "p_fields pr = None"
      "proto_is_pino pr \<Longrightarrow>
         \<exists>q < length (protocol_mem s). parent_proto_id pr = p_proto_id (protocol_mem s ! q)"
  shows "\<exists>reg. register_protocol_field (length (protocol_mem s)) h s1 =
           Inr (int (length (hfi (fields_of s))),
                s1\<lparr>fields_of := reg,
                   protocol_mem := protocol_mem s @ [pr\<lparr>p_proto_id := int (length (hfi (fields_of s)))\<rparr>]\<rparr>) \<and>
           registry_ok
             (s1\<lparr>fields_of := reg,
                 protocol_mem := protocol_mem s @ [pr\<lparr>p_proto_id := int (length (hfi (fields_of s)))\<rparr>]\<rparr>)
             (byname(hf_abbrev h := byname (hf_abbrev h) @ [length (hfi (fields_of s))])) \<and>
           find_protocol_by_id reg (int (length (hfi (fields_of s)))) = Inr (Some (length (protocol_mem s)))"
proof -
  let ?n = "length (hfi (fields_of s))" and ?p = "length (protocol_mem s)"
  let ?pr = "pr\<lparr>p_proto_id := int ?n\<rparr>"
  obtain reg where reg: "proto_register_field_init (fields_of s) h (hf_parent h) = Inr (int ?n, reg)"
      "names reg (byname(hf_abbrev h := byname (hf_abbrev h) @ [?n]))"
    using register_names [OF registry_okD(1) [OF inv] hf(1,2)] by blast
  note views = register_views [OF reg(1)]
  let ?s' = "s1\<lparr>fields_of := reg, protocol_mem := protocol_mem s @ [?pr]\<rparr>"
  have fresh: "?n \<notin> cleared (fields_of s)"
    using namesD(7) [OF registry_okD(1) [OF inv], of ?n] by auto
  have new: "find_protocol_by_id reg (int ?n) = Inr (Some ?p)"
    using views(3) [OF fresh] hf(3,4) by (auto simp: find_by_view view_def)
  have old: "find_protocol_by_id reg i = Inr (Some q)" if "find_protocol_by_id (fields_of s) i = Inr (Some q)" for i q
    using find_bound [OF that] views(4) [of i] view_at_same that by (metis less_irrefl)
  have mem: "protocol_mem ?s' ! q = (if q = ?p then ?pr else protocol_mem s ! q)" if "q < Suc ?p" for q
    using that by (auto simp: nth_append less_Suc_eq)
  have ids: "ids_ok_of ?s' q" if "q < Suc ?p" for q
  proof (cases "q = ?p")
    case True
    then show ?thesis
      using new pr(2) ids_ok_bound(2) [OF inv]
      by (fastforce simp: ids_ok_of_def mem proto_is_pino_def nth_append)
  next
    case False
    then have q: "q < ?p" using that by simp
    show ?thesis
      using registry_okD(7) [OF inv q] old q by (fastforce simp: ids_ok_of_def mem nth_append)
  qed
  have flds: "fields_ok_of ?s' (byname(hf_abbrev h := byname (hf_abbrev h) @ [?n])) q" if "q < Suc ?p" for q
  proof (cases "q = ?p")
    case True
    then show ?thesis using pr(1) by (simp add: fields_ok_of_def own_fields_def nth_append)
  next
    case False
    then have q: "q < ?p" using that by simp
    have okq: "distinct (own_fields (protocol_mem s ! q))"
        "f \<in> set (own_fields (protocol_mem s ! q)) \<Longrightarrow>
           (\<exists>t. f \<in> set (byname t)) \<and>
           (\<forall>q' < ?p. p_proto_id (protocol_mem s ! q') \<noteq> int f \<and>
              (f \<in> set (own_fields (protocol_mem s ! q')) \<longrightarrow> q' = q))" for f
      using registry_okD(8) [OF inv q] by (auto simp: fields_ok_of_def)
    have "(\<exists>t. f \<in> set ((byname(hf_abbrev h := byname (hf_abbrev h) @ [?n])) t)) \<and>
        (\<forall>q' < Suc ?p. p_proto_id (protocol_mem ?s' ! q') \<noteq> int f \<and>
           (f \<in> set (own_fields (protocol_mem ?s' ! q')) \<longrightarrow> q' = q))"
      if f: "f \<in> set (own_fields (protocol_mem s ! q))" for f
    proof (intro conjI allI impI)
      obtain t where t: "f \<in> set (byname t)" using okq(2) [OF f] by blast
      show "\<exists>t. f \<in> set ((byname(hf_abbrev h := byname (hf_abbrev h) @ [?n])) t)"
        using t by (auto intro: exI [of _ t])
      have "f \<noteq> ?n" using names_fresh [OF registry_okD(1) [OF inv]] t by blast
      then show "p_proto_id (protocol_mem ?s' ! q') \<noteq> int f" if "q' < Suc ?p" for q'
        using that okq(2) [OF f] mem [OF that] by (cases "q' = ?p") auto
      show "q' = q" if "q' < Suc ?p" "f \<in> set (own_fields (protocol_mem ?s' ! q'))" for q'
        using that okq(2) [OF f] mem [of q'] pr(1) by (cases "q' = ?p") (auto simp: own_fields_def)
    qed
    then show ?thesis using okq(1) mem [of q] q by (simp add: fields_ok_of_def)
  qed
  have same: "named_by f t ?s'" if "named_by f t s1" "\<And>x n. f (x\<lparr>p_proto_id := n\<rparr>) = f x" for f t
  proof -
    have "f (protocol_mem ?s' ! q) = f (protocol_mem s1 ! q) \<and>
          proto_is_pino (protocol_mem ?s' ! q) = proto_is_pino (protocol_mem s1 ! q)" if "q \<in> set (protocols s1)" for q
      using that registry_okD(3) [OF inv] s1 \<open>\<And>x n. f (x\<lparr>p_proto_id := n\<rparr>) = f x\<close>
      by (auto simp: nth_append proto_is_pino_def)
    then show ?thesis using that(1) unfolding named_by_def by (simp, metis)
  qed
  have "registry_ok ?s' (byname(hf_abbrev h := byname (hf_abbrev h) @ [?n]))"
    using reg(2) registry_okD(2,3) [OF inv] s1(2) same [OF tables(1)] same [OF tables(2)] same [OF tables(3)] ids flds
    unfolding registry_ok_def by (auto simp: less_Suc_eq)
  moreover have "register_protocol_field ?p h s1 = Inr (int ?n, ?s')"
    using reg(1) s1
    by (simp add: register_protocol_field_def put_protocol_def protocol_at_def list_update_append)
  ultimately show ?thesis using new by blast
qed

lemma named_by_new:
  assumes "named_by f table s" "set (protocols s) \<subseteq> {..<length (protocol_mem s)}"
    and "protocol_mem s1 = protocol_mem s @ [pr]" "protocols s1 = length (protocol_mem s) # protocols s"
    and "\<not> proto_is_pino pr \<Longrightarrow> table (f pr) = None"
  shows "named_by f (if proto_is_pino pr then table else table(f pr \<mapsto> length (protocol_mem s))) s1"
proof -
  have "length (protocol_mem s) \<notin> set (protocols s)" using assms(2) by auto
  moreover have "protocol_mem s1 ! p = protocol_mem s ! p" if "p \<in> set (protocols s)" for p
    using that assms(2,3) by (auto simp: nth_append)
  ultimately show ?thesis
    using assms(1,3,4,5) unfolding named_by_def
    by (auto simp: nth_append) (metis option.distinct(1))+
qed

text \<open>
  C24. Registering a protocol under names that are free gives it a number by which, as by its short name
  and its filter name, it is found again, enabled and under the names it was registered with; the
  invariant is kept, and every protocol that was registered before is found as before.
\<close>

theorem proto_register_protocol_correct:
  fixes s :: "'p protocol_registry"
  assumes "registry_ok s byname" "name \<noteq> []" "valid_filter_name filter_name"
    and "proto_names s name = None" "proto_short_names s short_name = None"
      "proto_filter_names s filter_name = None"
  shows "\<exists>n s'. proto_register_protocol name short_name filter_name s = Inr (n, s') \<and>
           registry_ok s' (byname(filter_name := byname filter_name @ [nat n])) \<and>
           proto_get_id_by_short_name s' short_name = Inr n \<and>
           proto_get_id_by_filter_name s' filter_name = Inr n \<and>
           protocol_by_id (fields_of s') (protocol_mem s') n =
             Inr ((protocol_new name short_name filter_name (-1))\<lparr>p_proto_id := n\<rparr>) \<and>
           (\<forall>k pr. protocol_by_id (fields_of s) (protocol_mem s) k = Inr pr \<longrightarrow>
              protocol_by_id (fields_of s') (protocol_mem s') k = Inr pr)"
proof -
  let ?n = "length (hfi (fields_of s))" and ?p = "length (protocol_mem s)"
  let ?pr = "protocol_new name short_name filter_name (-1)"
  let ?h = "protocol_hfinfo name filter_name FT_PROTOCOL 0 ?p"
  let ?s1 = "s\<lparr>protocol_mem := protocol_mem s @ [?pr], protocols := ?p # protocols s,
               proto_names := (proto_names s)(name \<mapsto> ?p),
               proto_filter_names := (proto_filter_names s)(filter_name \<mapsto> ?p),
               proto_short_names := (proto_short_names s)(short_name \<mapsto> ?p)\<rparr>"
  have sub: "set (protocols s) \<subseteq> {..<?p}" using registry_okD(3) [OF assms(1)] by auto
  have new: "\<not> proto_is_pino ?pr" "p_name ?pr = name" "p_short_name ?pr = short_name"
      "p_filter_name ?pr = filter_name" "p_fields ?pr = None"
    by (simp_all add: protocol_new_def proto_is_pino_def)
  have tables: "named_by p_name (proto_names ?s1) ?s1" "named_by p_short_name (proto_short_names ?s1) ?s1"
      "named_by p_filter_name (proto_filter_names ?s1) ?s1"
    using named_by_new [OF registry_okD(4) [OF assms(1)] sub, of ?s1 ?pr]
      named_by_new [OF registry_okD(5) [OF assms(1)] sub, of ?s1 ?pr]
      named_by_new [OF registry_okD(6) [OF assms(1)] sub, of ?s1 ?pr] assms(4-6) new
    by simp_all
  obtain reg where reg: "register_protocol_field ?p ?h ?s1 =
        Inr (int ?n, ?s1\<lparr>fields_of := reg, protocol_mem := protocol_mem s @ [?pr\<lparr>p_proto_id := int ?n\<rparr>]\<rparr>)"
      "registry_ok (?s1\<lparr>fields_of := reg, protocol_mem := protocol_mem s @ [?pr\<lparr>p_proto_id := int ?n\<rparr>]\<rparr>)
        (byname(filter_name := byname filter_name @ [?n]))"
      "find_protocol_by_id reg (int ?n) = Inr (Some ?p)"
    using register_protocol_ok [OF assms(1), of ?s1 ?pr ?h] tables assms(2,3) new
      protocol_field_checked(1) [OF assms(2,3), of ?p]
    by (auto simp: valid_filter_name_def protocol_hfinfo_def)
  let ?s' = "?s1\<lparr>fields_of := reg, protocol_mem := protocol_mem s @ [?pr\<lparr>p_proto_id := int ?n\<rparr>]\<rparr>"
  have run: "proto_register_protocol name short_name filter_name s = Inr (int ?n, ?s')"
    using assms(3-6) reg(1) by (simp add: proto_register_protocol_def check_valid_filter_name Let_def)
  have names: "proto_get_id_by_short_name ?s' short_name = Inr (int ?n)"
      "proto_get_id_by_filter_name ?s' filter_name = Inr (int ?n)"
    by (simp_all add: proto_get_id_by_short_name_def proto_get_id_by_filter_name_def id_by_name_def protocol_at_def)
  have kept: "protocol_by_id reg (protocol_mem ?s') k = Inr pr"
    if found: "protocol_by_id (fields_of s) (protocol_mem s) k = Inr pr" for k pr
  proof -
    obtain q where q: "find_protocol_by_id (fields_of s) k = Inr (Some q)" "q < ?p" "pr = protocol_mem s ! q"
      using found unfolding protocol_by_id_iff by blast
    have "proto_register_field_init (fields_of s) ?h (-1) = Inr (int ?n, reg)"
      using reg(1) by (auto simp: register_protocol_field_def put_protocol_def protocol_at_def protocol_hfinfo_def errs
          dest: arg_cong [where f = fields_of])
    then have "find_protocol_by_id reg k = Inr (Some q)"
      using register_views(4) view_at_same q(1) find_bound [OF q(1)] by (metis less_irrefl)
    then show ?thesis using q by (simp add: protocol_by_id_def protocol_at_def nth_append)
  qed
  show ?thesis
    using run reg(2,3) names kept
    by (intro exI [of _ "int ?n"] exI [of _ ?s']) (simp add: protocol_by_id_def protocol_at_def)
qed

theorem proto_register_protocol_correct_witness:
  "\<exists>n s'. proto_register_protocol ''Foo Protocol'' ''Foo'' ''foo''
       (protocol_registry_init :: unit protocol_registry) = Inr (n, s') \<and>
     proto_get_id_by_short_name s' ''Foo'' = Inr n"
proof -
  have "valid_filter_name ''foo''"
    by (simp add: valid_filter_name_def valid_name_def proto_check_field_name_def fld_abbrev_chars_def Let_def)
  then show ?thesis
    using proto_register_protocol_correct [OF registry_init_ok, of "''Foo Protocol''" "''foo''" "''Foo''"]
    by (auto simp: protocol_registry_init_def)
qed

section \<open>The state of a protocol\<close>

text \<open>The protocol that decides for a protocol in name only: the first of its ancestors that is none.\<close>

inductive root_protocol :: "'p protocol_registry \<Rightarrow> nat \<Rightarrow> nat \<Rightarrow> bool" for s where
  itself: "\<not> proto_is_pino (protocol_mem s ! p) \<Longrightarrow> root_protocol s p p"
| above: "proto_is_pino (protocol_mem s ! p) \<Longrightarrow>
    find_protocol_by_id (fields_of s) (parent_proto_id (protocol_mem s ! p)) = Inr (Some q) \<Longrightarrow>
    root_protocol s q r \<Longrightarrow> root_protocol s p r"

lemma root_deterministic: "root_protocol s p r \<Longrightarrow> root_protocol s p r' \<Longrightarrow> r' = r"
  by (induction arbitrary: r' rule: root_protocol.induct)
    (metis root_protocol.cases option.inject sum.inject(2))+

lemma root_not_pino: "root_protocol s p r \<Longrightarrow> \<not> proto_is_pino (protocol_mem s ! r)"
  by (induction rule: root_protocol.induct) auto

lemma parent_found:
  assumes "registry_ok s byname" "p < length (protocol_mem s)" "proto_is_pino (protocol_mem s ! p)"
  obtains q where "q < length (protocol_mem s)"
    "find_protocol_by_id (fields_of s) (parent_proto_id (protocol_mem s ! p)) = Inr (Some q)"
    "parent_proto_id (protocol_mem s ! p) = p_proto_id (protocol_mem s ! q)"
    "p_proto_id (protocol_mem s ! q) < p_proto_id (protocol_mem s ! p)"
proof -
  obtain q where q: "q < length (protocol_mem s)"
      "parent_proto_id (protocol_mem s ! p) = p_proto_id (protocol_mem s ! q)"
      "parent_proto_id (protocol_mem s ! p) < p_proto_id (protocol_mem s ! p)"
    using registry_okD(7) [OF assms(1,2)] assms(3) unfolding ids_ok_of_def by blast
  have "find_protocol_by_id (fields_of s) (p_proto_id (protocol_mem s ! q)) = Inr (Some q)"
    using registry_okD(7) [OF assms(1) q(1)] unfolding ids_ok_of_def by blast
  then show ?thesis using q that by simp
qed

lemma root_exists:
  assumes "registry_ok s byname" "p < length (protocol_mem s)"
  shows "\<exists>r < length (protocol_mem s). root_protocol s p r"
  using assms(2)
proof (induction "nat (p_proto_id (protocol_mem s ! p))" arbitrary: p rule: less_induct)
  case less
  show ?case
  proof (cases "proto_is_pino (protocol_mem s ! p)")
    case True
    obtain q where q: "q < length (protocol_mem s)"
        "find_protocol_by_id (fields_of s) (parent_proto_id (protocol_mem s ! p)) = Inr (Some q)"
        "p_proto_id (protocol_mem s ! q) < p_proto_id (protocol_mem s ! p)"
      by (rule parent_found [OF assms(1) less.prems True])
    have "nat (p_proto_id (protocol_mem s ! q)) < nat (p_proto_id (protocol_mem s ! p))"
      using q(3) ids_ok_bound(1) [OF assms(1) q(1)] by simp
    then show ?thesis using less.hyps [of q] q(1,2) True by (meson root_protocol.above)
  next
    case False
    then show ?thesis using less.prems root_protocol.itself by blast
  qed
qed

text \<open>The recursions follow the chain of parents to its end.\<close>

lemma enabled_root:
  assumes "registry_ok s byname" "root_protocol s p r" "p < length (protocol_mem s)"
  shows "proto_is_protocol_enabled (fields_of s) (protocol_mem s) (Some p) =
           Some (Inr (is_enabled (protocol_mem s ! r)))"
    "proto_is_protocol_enabled_by_default (fields_of s) (protocol_mem s) (Some p) =
       Some (Inr (enabled_by_default (protocol_mem s ! r)))"
    "proto_can_toggle_protocol (fields_of s) (protocol_mem s) (p_proto_id (protocol_mem s ! p)) =
       Some (Inr (can_toggle (protocol_mem s ! r)))"
proof -
  have "proto_is_protocol_enabled (fields_of s) (protocol_mem s) (Some p) =
          Some (Inr (is_enabled (protocol_mem s ! r))) \<and>
        proto_is_protocol_enabled_by_default (fields_of s) (protocol_mem s) (Some p) =
          Some (Inr (enabled_by_default (protocol_mem s ! r))) \<and>
        proto_can_toggle_protocol (fields_of s) (protocol_mem s) (p_proto_id (protocol_mem s ! p)) =
          Some (Inr (can_toggle (protocol_mem s ! r)))"
    using assms(2,3)
  proof (induction rule: root_protocol.induct)
    case (itself p)
    have "protocol_by_id (fields_of s) (protocol_mem s) (p_proto_id (protocol_mem s ! p)) =
        Inr (protocol_mem s ! p)"
      using registry_okD(7) [OF assms(1) itself(2)] itself(2) by (auto simp: protocol_by_id_iff ids_ok_of_def)
    then show ?case
      using itself
      by (simp add: proto_is_protocol_enabled.simps proto_is_protocol_enabled_by_default.simps
          proto_can_toggle_protocol.simps protocol_at_def)
  next
    case (above p q r)
    obtain q' where q': "q' < length (protocol_mem s)"
        "find_protocol_by_id (fields_of s) (parent_proto_id (protocol_mem s ! p)) = Inr (Some q')"
        "parent_proto_id (protocol_mem s ! p) = p_proto_id (protocol_mem s ! q')"
      by (rule parent_found [OF assms(1) above.prems above.hyps(1)])
    then have [simp]: "q' = q" using above.hyps(2) by simp
    have "protocol_by_id (fields_of s) (protocol_mem s) (p_proto_id (protocol_mem s ! p)) =
        Inr (protocol_mem s ! p)"
      using registry_okD(7) [OF assms(1) above.prems] above.prems by (auto simp: protocol_by_id_iff ids_ok_of_def)
    then show ?case
      using above q' proto_is_protocol_enabled.simps [of "fields_of s" "protocol_mem s" "Some p"]
        proto_is_protocol_enabled_by_default.simps [of "fields_of s" "protocol_mem s" "Some p"]
        proto_can_toggle_protocol.simps [of "fields_of s" "protocol_mem s" "p_proto_id (protocol_mem s ! p)"]
      by (simp add: protocol_at_def)
  qed
  then show "proto_is_protocol_enabled (fields_of s) (protocol_mem s) (Some p) =
           Some (Inr (is_enabled (protocol_mem s ! r)))"
    "proto_is_protocol_enabled_by_default (fields_of s) (protocol_mem s) (Some p) =
       Some (Inr (enabled_by_default (protocol_mem s ! r)))"
    "proto_can_toggle_protocol (fields_of s) (protocol_mem s) (p_proto_id (protocol_mem s ! p)) =
       Some (Inr (can_toggle (protocol_mem s ! r)))"
    by simp_all
qed

text \<open>The switches of a protocol are no part of the invariant.\<close>

definition same_but_switches :: "protocol_t \<Rightarrow> protocol_t \<Rightarrow> bool" where
  "same_but_switches pr pr' =
     (\<exists>e d c. pr' = pr\<lparr>is_enabled := e, enabled_by_default := d, can_toggle := c\<rparr>)"

lemma same_but_switchesD:
  assumes "same_but_switches pr pr'"
  shows "p_name pr' = p_name pr" "p_short_name pr' = p_short_name pr" "p_filter_name pr' = p_filter_name pr"
    "p_proto_id pr' = p_proto_id pr" "parent_proto_id pr' = parent_proto_id pr" "own_fields pr' = own_fields pr"
    "proto_is_pino pr' = proto_is_pino pr"
  using assms by (auto simp: same_but_switches_def own_fields_def proto_is_pino_def)

lemma put_switches_ok:
  assumes inv: "registry_ok s byname" and r: "r < length (protocol_mem s)"
    and f: "same_but_switches (protocol_mem s ! r) (f (protocol_mem s ! r))"
  shows "put_protocol r f s = Inr (s\<lparr>protocol_mem := (protocol_mem s)[r := f (protocol_mem s ! r)]\<rparr>)"
    "registry_ok (s\<lparr>protocol_mem := (protocol_mem s)[r := f (protocol_mem s ! r)]\<rparr>) byname"
    "root_protocol (s\<lparr>protocol_mem := (protocol_mem s)[r := f (protocol_mem s ! r)]\<rparr>) p q = root_protocol s p q"
proof -
  let ?s' = "s\<lparr>protocol_mem := (protocol_mem s)[r := f (protocol_mem s ! r)]\<rparr>"
  show "put_protocol r f s = Inr ?s'" using r by (simp add: put_protocol_def protocol_at_def)
  have same: "p_name (protocol_mem ?s' ! p) = p_name (protocol_mem s ! p)"
      "p_short_name (protocol_mem ?s' ! p) = p_short_name (protocol_mem s ! p)"
      "p_filter_name (protocol_mem ?s' ! p) = p_filter_name (protocol_mem s ! p)"
      "p_proto_id (protocol_mem ?s' ! p) = p_proto_id (protocol_mem s ! p)"
      "parent_proto_id (protocol_mem ?s' ! p) = parent_proto_id (protocol_mem s ! p)"
      "own_fields (protocol_mem ?s' ! p) = own_fields (protocol_mem s ! p)"
      "proto_is_pino (protocol_mem ?s' ! p) = proto_is_pino (protocol_mem s ! p)" for p
    using same_but_switchesD [OF f] r by (auto simp: nth_list_update)
  have len: "length (protocol_mem ?s') = length (protocol_mem s)" by simp
  have rest: "fields_of ?s' = fields_of s" "protocols ?s' = protocols s" "proto_names ?s' = proto_names s"
      "proto_short_names ?s' = proto_short_names s" "proto_filter_names ?s' = proto_filter_names s"
    by simp_all
  show "registry_ok ?s' byname"
    using inv unfolding registry_ok_def named_by_def ids_ok_of_def fields_ok_of_def same len rest .
  have "root_protocol ?s' p q" if "root_protocol s p q"
    using that
  proof (induction rule: root_protocol.induct)
    case (itself p)
    then show ?case using same(7) by (metis root_protocol.itself)
  next
    case (above p q r)
    then show ?case using same(5,7) by (metis rest(1) root_protocol.above)
  qed
  moreover have "root_protocol s p q" if "root_protocol ?s' p q"
    using that
  proof (induction rule: root_protocol.induct)
    case (itself p)
    then show ?case using same(7) by (metis root_protocol.itself)
  next
    case (above p q r)
    then show ?case using same(5,7) by (metis rest(1) root_protocol.above)
  qed
  ultimately show "root_protocol ?s' p q = root_protocol s p q" by blast
qed

text \<open>
  C25. Enabling or disabling a protocol that may be toggled decides about the protocol itself and about
  all protocols in name only below it, at any depth, and about no other; the question whether a protocol
  is enabled always gets an answer, and the invariant is kept.
\<close>

theorem proto_set_decoding_correct:
  fixes s :: "'p protocol_registry"
  assumes "registry_ok s byname" "r < length (protocol_mem s)" "can_toggle (protocol_mem s ! r)"
    and "\<not> proto_is_pino (protocol_mem s ! r)"
  shows "\<exists>s'. proto_set_decoding (p_proto_id (protocol_mem s ! r)) enabled s = Inr s' \<and> registry_ok s' byname \<and>
           (\<forall>p < length (protocol_mem s).
              proto_is_protocol_enabled (fields_of s') (protocol_mem s') (Some p) =
                (if root_protocol s p r then Some (Inr enabled)
                 else proto_is_protocol_enabled (fields_of s) (protocol_mem s) (Some p)) \<and>
              proto_is_protocol_enabled (fields_of s) (protocol_mem s) (Some p) \<noteq> None)"
proof -
  let ?f = "\<lambda>protocol. protocol\<lparr>is_enabled := enabled\<rparr>"
  let ?s' = "s\<lparr>protocol_mem := (protocol_mem s)[r := ?f (protocol_mem s ! r)]\<rparr>"
  have f: "same_but_switches (protocol_mem s ! r) (?f (protocol_mem s ! r))"
    unfolding same_but_switches_def
    by (intro exI [of _ enabled] exI [of _ "enabled_by_default (protocol_mem s ! r)"]
        exI [of _ "can_toggle (protocol_mem s ! r)"]) simp
  note put = put_switches_ok [OF assms(1,2), where f = ?f, OF f]
  have run: "proto_set_decoding (p_proto_id (protocol_mem s ! r)) enabled s = Inr ?s'"
    using registry_okD(7) [OF assms(1,2)] assms(2-4) put(1)
    by (simp add: proto_set_decoding_def change_protocol_def ids_ok_of_def protocol_at_def)
  have "proto_is_protocol_enabled (fields_of ?s') (protocol_mem ?s') (Some p) =
          (if root_protocol s p r then Some (Inr enabled)
           else proto_is_protocol_enabled (fields_of s) (protocol_mem s) (Some p)) \<and>
        proto_is_protocol_enabled (fields_of s) (protocol_mem s) (Some p) \<noteq> None"
    if p: "p < length (protocol_mem s)" for p
  proof -
    obtain q where q: "q < length (protocol_mem s)" "root_protocol s p q"
      using root_exists [OF assms(1) p] by blast
    have "root_protocol ?s' p q" "p < length (protocol_mem ?s')" using put(3) q p by simp_all
    note new = enabled_root(1) [OF put(2) this]
    note old = enabled_root(1) [OF assms(1) q(2) p]
    have "root_protocol s p r \<longleftrightarrow> q = r" using root_deterministic [OF q(2), of r] q(2) by blast
    then show ?thesis using new old q(1) by (auto simp: nth_list_update)
  qed
  then have all: "\<forall>p < length (protocol_mem s).
      proto_is_protocol_enabled (fields_of ?s') (protocol_mem ?s') (Some p) =
        (if root_protocol s p r then Some (Inr enabled)
         else proto_is_protocol_enabled (fields_of s) (protocol_mem s) (Some p)) \<and>
      proto_is_protocol_enabled (fields_of s) (protocol_mem s) (Some p) \<noteq> None"
    by blast
  show ?thesis
    by (rule exI [of _ ?s'], rule conjI [OF run conjI [OF put(2) all]])
qed

section \<open>Deregistering a protocol\<close>

lemma names_single:
  assumes inv: "names reg byname" and "byname s = [p]"
  shows "names (reg\<lparr>gpa_name_map := (gpa_name_map reg)(s := None), last_field_name := None\<rparr>) (byname(s := []))"
  by (rule names_update [OF inv]) (auto simp: deref_def)

text \<open>The lists of names without the fields of a protocol.\<close>

definition names_without :: "nat list \<Rightarrow> (string \<Rightarrow> nat list) \<Rightarrow> string \<Rightarrow> nat list" where
  "names_without fs byname = (\<lambda>t. filter (\<lambda>f. f \<notin> set fs) (byname t))"

lemma names_without_Nil [simp]: "names_without [] byname = byname"
  by (simp add: names_without_def)

lemma names_without_step:
  assumes "names reg byname" "f \<in> set (byname t)"
  shows "names_without fs (byname(t := remove1 f (byname t))) = names_without (f # fs) byname"
proof
  fix u
  have "remove1 f (byname t) = filter (\<lambda>x. x \<noteq> f) (byname t)"
    using namesD(1) [OF assms(1), of t] by (auto simp: distinct_remove1_removeAll removeAll_filter_not_eq intro!: filter_cong)
  moreover have "f \<notin> set (byname u)" if "u \<noteq> t"
    using names_disjoint [OF assms(1), of f t u] assms(2) that by auto
  ultimately show "names_without fs (byname(t := remove1 f (byname t))) u = names_without (f # fs) byname u"
    by (auto simp: names_without_def intro!: filter_cong)
qed

lemma deregister_loop_ok:
  assumes "names (fields_of s) byname" "distinct fs" "\<And>f. f \<in> set fs \<Longrightarrow> \<exists>t. f \<in> set (byname t)"
  shows "\<exists>reg ds. deregister_fields_loop fs s = Inr (s\<lparr>fields_of := reg, deregistered_fields := ds\<rparr>) \<and>
           names reg (names_without fs byname) \<and> same_views (fields_of s) reg"
  using assms
proof (induction fs arbitrary: s byname)
  case Nil
  then show ?case by (intro exI [of _ "fields_of s"] exI [of _ "deregistered_fields s"]) simp
next
  case (Cons f fs)
  obtain t where t: "f \<in> set (byname t)" using Cons.prems(3) by fastforce
  obtain reg where reg: "hfinfo_remove_from_gpa_name_map f (fields_of s) = Inr reg"
      "names reg (byname(t := remove1 f (byname t)))"
    using remove_names [OF Cons.prems(1) t] by blast
  have views: "same_views (fields_of s) reg" by (rule remove_views [OF reg(1)])
  obtain h where h: "deref reg f = Inr h"
    using same_views_deref [OF views] namesD(3) [OF Cons.prems(1) t] by blast
  let ?s1 = "s\<lparr>fields_of := reg, deregistered_fields := deregistered_fields s @ [nat (hf_id h)]\<rparr>"
  have "\<exists>u. g \<in> set ((byname(t := remove1 f (byname t))) u)" if g: "g \<in> set fs" for g
  proof -
    obtain u where "g \<in> set (byname u)" using Cons.prems(3) [of g] g by auto
    moreover have "g \<noteq> f" using Cons.prems(2) g by auto
    ultimately show ?thesis by (auto intro!: exI [of _ u])
  qed
  then have "\<exists>reg' ds. deregister_fields_loop fs ?s1 = Inr (?s1\<lparr>fields_of := reg', deregistered_fields := ds\<rparr>) \<and>
      names reg' (names_without fs (byname(t := remove1 f (byname t)))) \<and> same_views (fields_of ?s1) reg'"
    by (intro Cons.IH) (use reg(2) Cons.prems(2) in \<open>simp_all del: fun_upd_apply\<close>)
  then obtain reg' ds where "deregister_fields_loop fs ?s1 = Inr (?s1\<lparr>fields_of := reg', deregistered_fields := ds\<rparr>)"
      "names reg' (names_without fs (byname(t := remove1 f (byname t))))" "same_views reg reg'"
    by auto
  then show ?case
    using reg(1) h views names_without_step [OF Cons.prems(1) t]
    by (intro exI [of _ reg'] exI [of _ ds]) (auto intro: same_views_trans)
qed

lemma named_by_removed:
  assumes "named_by f table s" "table n = Some p"
    and "protocols s' = remove1 p (protocols s)" "distinct (protocols s)"
    and "\<And>q. f (protocol_mem s' ! q) = f (protocol_mem s ! q)"
      "\<And>q. proto_is_pino (protocol_mem s' ! q) = proto_is_pino (protocol_mem s ! q)"
  shows "named_by f (table(n := None)) s'"
  using assms unfolding named_by_def by (auto simp: set_remove1_eq) (metis option.inject)

text \<open>
  C26. Deregistering a protocol, provided that no other field has its filter name, undoes its registration: none of its
  names finds it, its fields are out of the lists of their names, all other protocols are found as
  before, and the invariant is kept.
\<close>

theorem proto_deregister_protocol_correct:
  fixes s :: "'p protocol_registry"
  assumes inv: "registry_ok s byname" and p: "proto_short_names s short_name = Some p"
    and single: "byname (p_filter_name (protocol_mem s ! p)) = [nat (p_proto_id (protocol_mem s ! p))]"
  shows "\<exists>s'. proto_deregister_protocol short_name s = Inr (True, s') \<and>
           registry_ok s' ((names_without (own_fields (protocol_mem s ! p)) byname)
             (p_filter_name (protocol_mem s ! p) := [])) \<and>
           proto_names s' = (proto_names s)(p_name (protocol_mem s ! p) := None) \<and>
           proto_short_names s' = (proto_short_names s)(short_name := None) \<and>
           proto_filter_names s' = (proto_filter_names s)(p_filter_name (protocol_mem s ! p) := None) \<and>
           (\<forall>k. find_protocol_by_id (fields_of s') k = find_protocol_by_id (fields_of s) k)"
proof -
  let ?pr = "protocol_mem s ! p" and ?fs = "own_fields (protocol_mem s ! p)"
  have reg_p: "p \<in> set (protocols s)" "\<not> proto_is_pino ?pr" "p_short_name ?pr = short_name"
    using registry_okD(5) [OF inv] p unfolding named_by_def by auto
  have len: "p < length (protocol_mem s)" by (rule registry_okD(3) [OF inv reg_p(1)])
  have tabs: "proto_names s (p_name ?pr) = Some p" "proto_filter_names s (p_filter_name ?pr) = Some p"
    using registry_okD(4,6) [OF inv] reg_p unfolding named_by_def by auto
  have found: "find_protocol_by_id (fields_of s) (p_proto_id ?pr) = Inr (Some p)"
    using registry_okD(7) [OF inv len] by (simp add: ids_ok_of_def)
  let ?s1 = "s\<lparr>proto_names := (proto_names s)(p_name ?pr := None),
               proto_short_names := (proto_short_names s)(short_name := None),
               proto_filter_names := (proto_filter_names s)(p_filter_name ?pr := None)\<rparr>"
  note fok = registry_okD(8) [OF inv len, unfolded fields_ok_of_def]
  have "\<exists>reg ds. deregister_fields_loop ?fs ?s1 = Inr (?s1\<lparr>fields_of := reg, deregistered_fields := ds\<rparr>) \<and>
      names reg (names_without ?fs byname) \<and> same_views (fields_of ?s1) reg"
    by (rule deregister_loop_ok) (use registry_okD(1) [OF inv] fok in auto)
  then obtain reg ds where loop: "deregister_fields_loop ?fs ?s1 = Inr (?s1\<lparr>fields_of := reg, deregistered_fields := ds\<rparr>)"
      "names reg (names_without ?fs byname)" "same_views (fields_of s) reg"
    by auto
  let ?mem = "(protocol_mem s)[p := ?pr\<lparr>p_fields := None\<rparr>]"
  let ?reg = "reg\<lparr>gpa_name_map := (gpa_name_map reg)(p_filter_name ?pr := None), last_field_name := None\<rparr>"
  let ?byname = "(names_without ?fs byname)(p_filter_name ?pr := [])"
  obtain ds' mem' where s': "proto_deregister_protocol short_name s = Inr (True, ?s1\<lparr>fields_of := ?reg,
        protocol_mem := mem', protocols := remove1 p (protocols s), deregistered_fields := ds'\<rparr>)"
      "mem' = ?mem"
  proof (cases "p_fields ?pr")
    case None
    then have fs: "?fs = []" "?mem = protocol_mem s"
      using len by (auto simp: own_fields_def intro: list_update_same_conv [THEN iffD2])
    have "reg = fields_of s" "ds = deregistered_fields s"
      using loop(1) fs by (auto dest: arg_cong [where f = fields_of] arg_cong [where f = deregistered_fields])
    then show ?thesis
      using None p len found fs that [of "deregistered_fields s @ [nat (p_proto_id ?pr)]"]
      by (simp add: proto_deregister_protocol_def proto_get_id_by_short_name_def id_by_name_def protocol_at_def Let_def)
  next
    case (Some fs)
    then show ?thesis
      using p len found loop(1) that [of "ds @ [nat (p_proto_id ?pr)]"]
      by (simp add: proto_deregister_protocol_def proto_get_id_by_short_name_def id_by_name_def protocol_at_def
          put_protocol_def own_fields_def Let_def)
  qed
  let ?s' = "?s1\<lparr>fields_of := ?reg, protocol_mem := ?mem, protocols := remove1 p (protocols s),
               deregistered_fields := ds'\<rparr>"
  have views: "same_views (fields_of s) ?reg" using loop(3) by simp
  have finds: "find_protocol_by_id ?reg k = find_protocol_by_id (fields_of s) k" for k
    using same_views_at [OF views] by (blast intro: view_at_same)
  have same: "p_name (?mem ! q) = p_name (protocol_mem s ! q)"
      "p_short_name (?mem ! q) = p_short_name (protocol_mem s ! q)"
      "p_filter_name (?mem ! q) = p_filter_name (protocol_mem s ! q)"
      "p_proto_id (?mem ! q) = p_proto_id (protocol_mem s ! q)"
      "parent_proto_id (?mem ! q) = parent_proto_id (protocol_mem s ! q)"
      "proto_is_pino (?mem ! q) = proto_is_pino (protocol_mem s ! q)"
      "own_fields (?mem ! q) = (if q = p then [] else own_fields (protocol_mem s ! q))" for q
    using len by (auto simp: nth_list_update proto_is_pino_def own_fields_def)
  have no_field: "nat (p_proto_id ?pr) \<notin> set (own_fields (protocol_mem s ! q))"
    if "q < length (protocol_mem s)" for q
    using registry_okD(8) [OF inv that] len ids_ok_bound(1) [OF inv len] unfolding fields_ok_of_def
    by (metis int_nat_eq)
  have "names_without ?fs byname (p_filter_name ?pr) = [nat (p_proto_id ?pr)]"
    using single no_field [OF len] by (simp add: names_without_def)
  then have nms: "names ?reg ?byname" by (rule names_single [OF loop(2)])
  have flds: "fields_ok_of ?s' ?byname q" if q: "q < length (protocol_mem s)" for q
  proof (cases "q = p")
    case False
    note qok = registry_okD(8) [OF inv q, unfolded fields_ok_of_def]
    have "\<exists>t. f \<in> set (?byname t)" if f: "f \<in> set (own_fields (protocol_mem s ! q))" for f
    proof -
      obtain t where t: "f \<in> set (byname t)" using qok f by blast
      have "f \<notin> set ?fs" using fok f False q by blast
      moreover have "t \<noteq> p_filter_name ?pr"
        using t single f no_field [OF q] by auto
      ultimately show ?thesis using t by (auto simp: names_without_def intro!: exI [of _ t])
    qed
    then show ?thesis
      using qok False unfolding fields_ok_of_def by (auto simp: same)
  qed (simp add: fields_ok_of_def same)
  have "registry_ok ?s' ?byname"
    unfolding registry_ok_def
  proof (intro conjI)
    show "names (fields_of ?s') ?byname" using nms by simp
    show "distinct (protocols ?s')" using registry_okD(2) [OF inv] by simp
    show "set (protocols ?s') \<subseteq> {..<length (protocol_mem ?s')}"
      using registry_okD(3) [OF inv] by (auto dest: notin_set_remove1 [THEN notE, rotated])
    show "named_by p_name (proto_names ?s') ?s'"
      using named_by_removed [OF registry_okD(4) [OF inv] tabs(1), of ?s'] registry_okD(2) [OF inv] same by simp
    show "named_by p_short_name (proto_short_names ?s') ?s'"
      using named_by_removed [OF registry_okD(5) [OF inv] p, of ?s'] registry_okD(2) [OF inv] same by simp
    show "named_by p_filter_name (proto_filter_names ?s') ?s'"
      using named_by_removed [OF registry_okD(6) [OF inv] tabs(2), of ?s'] registry_okD(2) [OF inv] same by simp
    show "\<forall>q < length (protocol_mem ?s'). ids_ok_of ?s' q \<and> fields_ok_of ?s' ?byname q"
      using flds registry_okD(7) [OF inv] by (auto simp: ids_ok_of_def same finds)
  qed
  then show ?thesis using s' finds by (intro exI [of _ ?s']) simp
qed

section \<open>A protocol and a protocol in name only below it\<close>

definition sample_protocols :: "unit protocol_registry" where
  "sample_protocols =
     \<lparr>fields_of = registrar_init
        \<lparr>hfi := [Some ((protocol_hfinfo ''Foo Protocol'' ''foo'' FT_PROTOCOL 0 0)
                         \<lparr>same_name_prev_id := -1, hf_id := 0\<rparr>),
                 Some ((protocol_hfinfo ''Bar'' ''bar'' FT_PROTOCOL 0 1)\<lparr>same_name_prev_id := -1, hf_id := 1\<rparr>)],
         gpa_name_map := [''foo'' \<mapsto> 0, ''bar'' \<mapsto> 1]\<rparr>,
      protocol_mem = [protocol_new ''Foo Protocol'' ''Foo'' ''foo'' (-1),
                      (protocol_new ''Bar'' ''Bar'' ''bar'' 0)\<lparr>p_proto_id := 1\<rparr>],
      protocols = [1, 0], proto_names = [''Foo Protocol'' \<mapsto> 0], proto_short_names = [''Foo'' \<mapsto> 0],
      proto_filter_names = [''foo'' \<mapsto> 0], gpa_protocol_aliases = Map.empty, deregistered_fields = []\<rparr>"

definition sample_byname :: "string \<Rightarrow> nat list" where
  "sample_byname = (\<lambda>_. [])(''foo'' := [0], ''bar'' := [1])"

lemma sample_find:
  "find_protocol_by_id (fields_of sample_protocols) 0 = Inr (Some 0)"
  "find_protocol_by_id (fields_of sample_protocols) 1 = Inr (Some 1)"
  by (simp_all add: sample_protocols_def find_protocol_by_id_def proto_registrar_get_nth_def protocol_hfinfo_def
      deref_def registrar_init_def)

lemma sample_protocols_ok: "registry_ok sample_protocols sample_byname"
  unfolding registry_ok_def
proof (intro conjI)
  show "names (fields_of sample_protocols) sample_byname"
    by (simp add: names_def sample_protocols_def sample_byname_def registrar_init_def linked_node_def deref_def
        protocol_hfinfo_def)
  show "\<forall>p < length (protocol_mem sample_protocols).
      ids_ok_of sample_protocols p \<and> fields_ok_of sample_protocols sample_byname p"
  proof (intro allI impI)
    fix p assume "p < length (protocol_mem sample_protocols)"
    then have "p = 0 \<or> p = 1" by (auto simp: sample_protocols_def)
    then show "ids_ok_of sample_protocols p \<and> fields_ok_of sample_protocols sample_byname p"
      using sample_find
      by (auto simp: ids_ok_of_def fields_ok_of_def own_fields_def sample_protocols_def protocol_new_def
          proto_is_pino_def)
  qed
qed (auto simp: sample_protocols_def named_by_def protocol_new_def proto_is_pino_def split: if_splits intro!: gr0I)

lemma sample_protocols_nth:
  "length (protocol_mem sample_protocols) = 2"
  "protocol_mem sample_protocols ! 0 = protocol_new ''Foo Protocol'' ''Foo'' ''foo'' (-1)"
  "protocol_mem sample_protocols ! 1 = (protocol_new ''Bar'' ''Bar'' ''bar'' 0)\<lparr>p_proto_id := 1\<rparr>"
  by (simp_all add: sample_protocols_def)

lemma sample_root: "root_protocol sample_protocols 1 0"
proof (rule root_protocol.above)
  show "find_protocol_by_id (fields_of sample_protocols) (parent_proto_id (protocol_mem sample_protocols ! 1)) =
      Inr (Some 0)"
    unfolding sample_protocols_nth using sample_find(1) by (simp add: protocol_new_def)
  show "root_protocol sample_protocols 0 0"
    by (rule root_protocol.itself, unfold sample_protocols_nth) (simp add: protocol_new_def proto_is_pino_def)
qed (unfold sample_protocols_nth, simp add: protocol_new_def proto_is_pino_def)

theorem proto_set_decoding_correct_witness:
  "\<exists>s'. proto_set_decoding 0 False sample_protocols = Inr s' \<and>
        proto_is_protocol_enabled (fields_of s') (protocol_mem s') (Some 1) = Some (Inr False)"
proof -
  have "\<exists>s'. proto_set_decoding (p_proto_id (protocol_mem sample_protocols ! 0)) False sample_protocols = Inr s' \<and>
      registry_ok s' sample_byname \<and>
      (\<forall>p < length (protocol_mem sample_protocols).
         proto_is_protocol_enabled (fields_of s') (protocol_mem s') (Some p) =
           (if root_protocol sample_protocols p 0 then Some (Inr False)
            else proto_is_protocol_enabled (fields_of sample_protocols) (protocol_mem sample_protocols) (Some p)) \<and>
         proto_is_protocol_enabled (fields_of sample_protocols) (protocol_mem sample_protocols) (Some p) \<noteq> None)"
    by (rule proto_set_decoding_correct [OF sample_protocols_ok])
      (simp_all add: sample_protocols_nth protocol_new_def proto_is_pino_def)
  then show ?thesis using sample_root by (auto simp: sample_protocols_nth protocol_new_def)
qed

theorem proto_deregister_protocol_correct_witness:
  "\<exists>s'. proto_deregister_protocol ''Foo'' sample_protocols = Inr (True, s') \<and>
        proto_short_names s' = Map.empty \<and> proto_filter_names s' = Map.empty"
proof -
  have short: "proto_short_names sample_protocols ''Foo'' = Some 0"
    by (simp add: sample_protocols_def)
  have single: "sample_byname (p_filter_name (protocol_mem sample_protocols ! 0)) =
      [nat (p_proto_id (protocol_mem sample_protocols ! 0))]"
    by (simp add: sample_protocols_nth protocol_new_def sample_byname_def)
  obtain s' where "proto_deregister_protocol ''Foo'' sample_protocols = Inr (True, s')"
      "proto_short_names s' = (proto_short_names sample_protocols)(''Foo'' := None)"
      "proto_filter_names s' = (proto_filter_names sample_protocols)
         (p_filter_name (protocol_mem sample_protocols ! 0) := None)"
    using proto_deregister_protocol_correct [OF sample_protocols_ok short single] by blast
  then show ?thesis
    unfolding sample_protocols_nth
    by (intro exI [of _ s']) (simp add: sample_protocols_def protocol_new_def)
qed

end
