(* ===== verification/DissectorTableProps.thy ===== *)
theory DissectorTableProps
  imports DissectorTables ProtocolProps
begin

text \<open>
  What a dissector table promises: for every selector it keeps the handle that was registered last and the
  choice the user has made since, if there is one, and it answers with the choice before the registration.
  The promise is stated once, in the locale \<open>selection_table\<close>, over the effect of the operations on the
  entries, and interpreted for the numbers and for the strings of a table that tells cases apart. In a
  table that does not, the operations that look by one key and store by another break it.
\<close>

section \<open>Selections\<close>

record 'k selection =
  registered_for :: "'k \<rightharpoonup> nat"
  chosen_for :: "'k \<rightharpoonup> nat option"

datatype 'k table_op = ADD 'k nat | CHANGE 'k "nat option" | RESET 'k | DELETE 'k

fun select_op :: "'k table_op \<Rightarrow> 'k selection \<Rightarrow> 'k selection" where
  "select_op (ADD k h) s = s\<lparr>registered_for := (registered_for s)(k \<mapsto> h), chosen_for := (chosen_for s)(k := None)\<rparr>"
| "select_op (CHANGE k ho) s =
     (if ho = None \<and> registered_for s k = None \<and> chosen_for s k = None then s
      else s\<lparr>chosen_for := (chosen_for s)(k \<mapsto> ho)\<rparr>)"
| "select_op (RESET k) s = s\<lparr>chosen_for := (chosen_for s)(k := None)\<rparr>"
| "select_op (DELETE k) s =
     s\<lparr>registered_for := (registered_for s)(k := None), chosen_for := (chosen_for s)(k := None)\<rparr>"

definition selected :: "'k selection \<Rightarrow> 'k \<Rightarrow> nat option" where
  "selected s k = (case chosen_for s k of Some ho \<Rightarrow> ho | None \<Rightarrow> registered_for s k)"

definition entry_for :: "'k selection \<Rightarrow> 'k \<Rightarrow> dtbl_entry option" where
  "entry_for s k =
     (if registered_for s k = None \<and> chosen_for s k = None then None
      else Some \<lparr>initial = registered_for s k, current = selected s k\<rparr>)"

definition nothing_selected :: "'k selection" where
  "nothing_selected = \<lparr>registered_for = Map.empty, chosen_for = Map.empty\<rparr>"

lemma entry_for_current: "(case entry_for s k of None \<Rightarrow> None | Some e \<Rightarrow> current e) = selected s k"
  by (auto simp: entry_for_def selected_def)

lemma entry_for_initial: "(case entry_for s k of None \<Rightarrow> None | Some e \<Rightarrow> initial e) = registered_for s k"
  by (auto simp: entry_for_def)

section \<open>The interface\<close>

locale selection_table =
  fixes entry :: "'t \<Rightarrow> 'k \<Rightarrow> dtbl_entry option"
    and add :: "'k \<Rightarrow> nat \<Rightarrow> 't \<Rightarrow> 't"
    and change :: "'k \<Rightarrow> nat option \<Rightarrow> 't \<Rightarrow> 't"
    and reset :: "'k \<Rightarrow> 't \<Rightarrow> 't"
    and delete :: "'k \<Rightarrow> 't \<Rightarrow> 't"
  assumes entry_add: "entry (add k h t) = (entry t)(k \<mapsto> \<lparr>initial = Some h, current = Some h\<rparr>)"
    and entry_change: "entry (change k ho t) =
      (case entry t k of
         Some e \<Rightarrow> (entry t)(k \<mapsto> e\<lparr>current := ho\<rparr>)
       | None \<Rightarrow> if ho = None then entry t else (entry t)(k \<mapsto> \<lparr>initial = None, current = ho\<rparr>))"
    and entry_reset: "entry (reset k t) =
      (case entry t k of
         None \<Rightarrow> entry t
       | Some e \<Rightarrow>
           if initial e \<noteq> None then (entry t)(k \<mapsto> e\<lparr>current := initial e\<rparr>) else (entry t)(k := None))"
    and entry_delete: "entry (delete k t) = (entry t)(k := None)"
begin

lemma after_add: "entry t = entry_for s \<Longrightarrow> entry (add k h t) = entry_for (select_op (ADD k h) s)"
  by (rule ext) (auto simp: entry_add entry_for_def selected_def split: option.split)

lemma after_change: "entry t = entry_for s \<Longrightarrow> entry (change k ho t) = entry_for (select_op (CHANGE k ho) s)"
  by (rule ext) (auto simp: entry_change entry_for_def selected_def split: option.splits)

lemma after_reset: "entry t = entry_for s \<Longrightarrow> entry (reset k t) = entry_for (select_op (RESET k) s)"
  by (rule ext) (auto simp: entry_reset entry_for_def selected_def split: option.splits)

lemma after_delete: "entry t = entry_for s \<Longrightarrow> entry (delete k t) = entry_for (select_op (DELETE k) s)"
  by (rule ext) (auto simp: entry_delete entry_for_def selected_def split: option.split)

text \<open>What the user changes can be undone.\<close>

lemma change_reset:
  assumes "\<And>e. entry t k = Some e \<Longrightarrow> initial e \<noteq> None \<and> current e = initial e"
  shows "entry (reset k (change k ho t)) = entry t"
proof (cases "entry t k")
  case (Some e)
  then have "e = \<lparr>initial = initial e, current = initial e\<rparr>" using assms by (cases e) auto
  then show ?thesis using Some assms by (auto simp: entry_change entry_reset)
next
  case None
  then show ?thesis by (auto simp: entry_change entry_reset)
qed

end

lemma delete_entry_hash: "map_of (hash_table (delete_entry k k sub)) = (map_of (hash_table sub))(k := None)"
  by (auto simp: delete_entry_def delete_conv')

lemma change_entry_hash:
  "map_of (hash_table (change_entry k k ho sub)) =
     (case map_of (hash_table sub) k of
        Some e \<Rightarrow> (map_of (hash_table sub))(k \<mapsto> e\<lparr>current := ho\<rparr>)
      | None \<Rightarrow> if ho = None then map_of (hash_table sub)
                else (map_of (hash_table sub))(k \<mapsto> \<lparr>initial = None, current = ho\<rparr>))"
  by (auto simp: change_entry_def update_conv' split: option.split)

lemma reset_entry_hash:
  "map_of (hash_table (reset_entry k k sub)) =
     (case map_of (hash_table sub) k of
        None \<Rightarrow> map_of (hash_table sub)
      | Some e \<Rightarrow>
          if initial e \<noteq> None then (map_of (hash_table sub))(k \<mapsto> e\<lparr>current := initial e\<rparr>)
          else (map_of (hash_table sub))(k := None))"
  by (auto simp: reset_entry_def update_conv' delete_conv' split: option.split)

definition uint_entry :: "dissector_table \<Rightarrow> guint32 \<Rightarrow> dtbl_entry option" where
  "uint_entry sub k = map_of (hash_table sub) (UINT_KEY k)"

definition string_entry :: "dissector_table \<Rightarrow> string \<Rightarrow> dtbl_entry option" where
  "string_entry sub k = map_of (hash_table sub) (STRING_KEY k)"

interpretation uints: selection_table uint_entry "\<lambda>k. add_entry (UINT_KEY k)"
  "\<lambda>k. change_entry (UINT_KEY k) (UINT_KEY k)" "\<lambda>k. reset_entry (UINT_KEY k) (UINT_KEY k)"
  "\<lambda>k. delete_entry (UINT_KEY k) (UINT_KEY k)"
  by unfold_locales
    (auto simp: uint_entry_def fun_eq_iff add_entry_def update_conv' delete_entry_hash change_entry_hash
      reset_entry_hash split: option.split)

interpretation strings: selection_table string_entry "\<lambda>k. add_entry (STRING_KEY k)"
  "\<lambda>k. change_entry (STRING_KEY k) (STRING_KEY k)" "\<lambda>k. reset_entry (STRING_KEY k) (STRING_KEY k)"
  "\<lambda>k. delete_entry (STRING_KEY k) (STRING_KEY k)"
  by unfold_locales
    (auto simp: string_entry_def fun_eq_iff add_entry_def update_conv' delete_entry_hash change_entry_hash
      reset_entry_hash split: option.split)

section \<open>The handles for Decode As\<close>

text \<open>
  Pointers lead somewhere, and the handles for Decode As are sorted by the names of their protocols and
  listed once.
\<close>

definition handle_name :: "'p protocol_registry \<Rightarrow> ('d, 'e) dissector_registry \<Rightarrow> nat \<Rightarrow> string" where
  "handle_name P R h =
     (case dh_protocol (handle_mem R ! h) of None \<Rightarrow> [] | Some p \<Rightarrow> p_filter_name (protocol_mem P ! p))"

definition name_order :: "'p protocol_registry \<Rightarrow> ('d, 'e) dissector_registry \<Rightarrow> nat \<Rightarrow> nat \<Rightarrow> int" where
  "name_order P R a b = strcmp (string_bytes (handle_name P R a)) (string_bytes (handle_name P R b))"

definition handles_valid :: "'p protocol_registry \<Rightarrow> ('d, 'e) dissector_registry \<Rightarrow> bool" where
  "handles_valid P R =
     (\<forall>h < length (handle_mem R). \<forall>p. dh_protocol (handle_mem R ! h) = Some p \<longrightarrow> p < length (protocol_mem P))"

definition dissector_table_ok :: "'p protocol_registry \<Rightarrow> ('d, 'e) dissector_registry \<Rightarrow> dissector_table \<Rightarrow> bool" where
  "dissector_table_ok P R sub =
     ((\<forall>p. dt_protocol sub = Some p \<longrightarrow> p < length (protocol_mem P)) \<and>
      (\<forall>h \<in> set (dissector_handles sub). h < length (handle_mem R)) \<and>
      distinct (dissector_handles sub) \<and>
      sorted_wrt (\<lambda>a b. name_order P R a b \<le> 0) (dissector_handles sub))"

lemma handle_filter_name_eq:
  assumes "registry_ok P byname" "handles_valid P R" "h < length (handle_mem R)"
  shows "handle_filter_name (fields_of P) (protocol_mem P) R h = Inr (handle_name P R h)"
proof (cases "dh_protocol (handle_mem R ! h)")
  case (Some p)
  then have p: "p < length (protocol_mem P)" using assms(2,3) by (simp add: handles_valid_def)
  then show ?thesis
    using Some assms(3) registry_okD(7) [OF assms(1) p]
    by (simp add: handle_filter_name_def handle_name_def at_def protocol_at_def ids_ok_of_def
        proto_get_protocol_filter_name_def)
qed (use assms(3) in \<open>simp add: handle_filter_name_def handle_name_def at_def\<close>)

lemma compare_filter_name_eq:
  assumes "registry_ok P byname" "handles_valid P R" "a < length (handle_mem R)" "b < length (handle_mem R)"
  shows "dissector_compare_filter_name (fields_of P) (protocol_mem P) R a b = Inr (name_order P R a b)"
  using assms by (simp add: dissector_compare_filter_name_def handle_filter_name_eq name_order_def)

lemma insert_sorted_ok:
  assumes "\<And>x. x \<in> set xs \<Longrightarrow> func h x = Inr (c h x)"
    and "sorted_wrt (\<lambda>a b. c a b \<le> 0) xs"
    and "\<And>a b. c a b \<le> 0 \<or> c b a \<le> 0" "\<And>a b d. c a b \<le> 0 \<Longrightarrow> c b d \<le> 0 \<Longrightarrow> c a d \<le> (0 :: int)"
  shows "\<exists>ys. g_slist_insert_sorted h func xs = Inr ys \<and> sorted_wrt (\<lambda>a b. c a b \<le> 0) ys \<and>
           set ys = insert h (set xs) \<and> length ys = Suc (length xs)"
  using assms(1,2)
proof (induction xs)
  case (Cons x xs)
  obtain ys where ys: "g_slist_insert_sorted h func xs = Inr ys" "sorted_wrt (\<lambda>a b. c a b \<le> 0) ys"
      "set ys = insert h (set xs)" "length ys = Suc (length xs)"
    using Cons by auto
  show ?case
  proof (cases "c h x > 0")
    case True
    then have "c x h \<le> 0" using assms(3) [of h x] by auto
    then show ?thesis using ys Cons.prems True by (auto intro!: exI [of _ "x # ys"])
  next
    case False
    then show ?thesis
      using Cons.prems assms(4) [of h x] by (auto intro!: exI [of _ "h # x # xs"])
  qed
qed simp

lemma name_order_linear: "name_order P R a b \<le> 0 \<or> name_order P R b a \<le> 0"
  using strcmp_flip by (force simp: name_order_def not_le)

lemma name_order_trans: "name_order P R a b \<le> 0 \<Longrightarrow> name_order P R b c \<le> 0 \<Longrightarrow> name_order P R a c \<le> 0"
  unfolding name_order_def by (rule strcmp_trans)

lemma register_depend_simps [simp]:
  "handle_mem (register_depend_dissector a b R) = handle_mem R"
  "table_mem (register_depend_dissector a b R) = table_mem R"
  "dissector_tables (register_depend_dissector a b R) = dissector_tables R"
  "dissector_table_aliases (register_depend_dissector a b R) = dissector_table_aliases R"
  by (simp_all add: register_depend_dissector_def Let_def)

lemma find_table_depends [simp]: "find_dissector_table (register_depend_dissector a b R) name = find_dissector_table R name"
  by (simp add: find_dissector_table_def cong: option.case_cong)

text \<open>The parts of the registry that the tables live in.\<close>

definition same_tables :: "('d, 'e) dissector_registry \<Rightarrow> ('d, 'e) dissector_registry \<Rightarrow> bool" where
  "same_tables R R' =
     (handle_mem R' = handle_mem R \<and> dissector_tables R' = dissector_tables R \<and>
      dissector_table_aliases R' = dissector_table_aliases R)"

lemma same_tablesD:
  assumes "same_tables R R'"
  shows "handle_mem R' = handle_mem R" "find_dissector_table R' name = find_dissector_table R name"
    "handle_name P R' = handle_name P R" "name_order P R' = name_order P R" "handles_valid P R' = handles_valid P R"
    "dissector_table_ok P R' = dissector_table_ok P R"
  using assms
  by (simp_all add: same_tables_def find_dissector_table_def handle_name_def name_order_def handles_valid_def
      dissector_table_ok_def fun_eq_iff cong: option.case_cong)

lemma decode_as_ok:
  fixes R :: "('d, 'e) dissector_registry"
  assumes reg: "registry_ok P byname" and valid: "handles_valid P R" and h: "h < length (handle_mem R)"
    and t: "find_dissector_table R name = Some t" "t < length (table_mem R)" and ok: "dissector_table_ok P R (table_mem R ! t)"
    and sup: "supports_decode_as (table_mem R ! t)"
  shows "\<exists>R' hs. dissector_add_for_decode_as (fields_of P) (protocol_mem P) name (Some h) R = Inr R' \<and>
           same_tables R R' \<and>
           table_mem R' = (table_mem R)[t := (table_mem R ! t)\<lparr>dissector_handles := hs\<rparr>] \<and>
           set hs = insert h (set (dissector_handles (table_mem R ! t))) \<and>
           dissector_table_ok P R ((table_mem R ! t)\<lparr>dissector_handles := hs\<rparr>)"
proof -
  let ?sub = "table_mem R ! t" and ?hs = "dissector_handles (table_mem R ! t)"
  have short: "\<exists>s. proto_get_protocol_short_name (protocol_mem P) q = Inr s"
    if "\<And>p. q = Some p \<Longrightarrow> p < length (protocol_mem P)" for q
    using that by (cases q) (auto simp: proto_get_protocol_short_name_def protocol_at_def)
  have dh: "\<And>p. dh_protocol (handle_mem R ! h) = Some p \<Longrightarrow> p < length (protocol_mem P)"
    using valid h by (auto simp: handles_valid_def)
  obtain R1 where R1: "(case dt_protocol ?sub of
         None \<Rightarrow> Inr R
       | Some p \<Rightarrow>
           bindE (proto_get_protocol_short_name (protocol_mem P) (Some p)) (\<lambda>parent.
           bindE (proto_get_protocol_short_name (protocol_mem P) (dh_protocol (handle_mem R ! h))) (\<lambda>dependent.
             Inr (register_depend_dissector parent dependent R)))) = Inr R1"
      "same_tables R R1" "table_mem R1 = table_mem R"
  proof (cases "dt_protocol ?sub")
    case (Some p)
    then have "p < length (protocol_mem P)" using ok by (simp add: dissector_table_ok_def)
    then obtain a b where ab: "proto_get_protocol_short_name (protocol_mem P) (Some p) = Inr a"
        "proto_get_protocol_short_name (protocol_mem P) (dh_protocol (handle_mem R ! h)) = Inr b"
      using short [of "Some p"] short [OF dh] by blast
    show ?thesis
      by (rule that [of "register_depend_dissector a b R"]) (use Some ab in \<open>simp_all add: same_tables_def\<close>)
  qed (auto simp: same_tables_def intro: that)
  note same = same_tablesD(1) [OF R1(2)] same_tablesD(4,5) [OF R1(2), where P = P]
  show ?thesis
  proof (cases "List.member ?hs h")
    case True
    then have "dissector_add_for_decode_as (fields_of P) (protocol_mem P) name (Some h) R = Inr R1"
      using R1 t h sup by (simp add: dissector_add_for_decode_as_def at_def handle_at_def)
    then show ?thesis
      using R1 True ok by (auto simp: insert_absorb intro!: exI [of _ R1] exI [of _ ?hs])
  next
    case False
    have sorted: "sorted_wrt (\<lambda>a b. name_order P R a b \<le> 0) ?hs" and mem: "\<forall>x \<in> set ?hs. x < length (handle_mem R)"
      using ok by (simp_all add: dissector_table_ok_def)
    have cmp: "dissector_compare_filter_name (fields_of P) (protocol_mem P) R1 h x = Inr (name_order P R h x)"
      if "x \<in> set ?hs" for x
      using compare_filter_name_eq [OF reg, of R1 h x] same valid h mem that by simp
    have "\<exists>ys. g_slist_insert_sorted h
          (dissector_compare_filter_name (fields_of P) (protocol_mem P) R1) ?hs = Inr ys \<and>
        sorted_wrt (\<lambda>a b. name_order P R a b \<le> 0) ys \<and> set ys = insert h (set ?hs) \<and>
        length ys = Suc (length ?hs)"
      by (rule insert_sorted_ok [where c = "name_order P R"])
        (use cmp sorted name_order_linear name_order_trans in \<open>blast+\<close>)
    then obtain ys where ys: "g_slist_insert_sorted h
          (dissector_compare_filter_name (fields_of P) (protocol_mem P) R1) ?hs = Inr ys"
        "sorted_wrt (\<lambda>a b. name_order P R a b \<le> 0) ys" "set ys = insert h (set ?hs)" "length ys = Suc (length ?hs)"
      by blast
    have "distinct ys"
      using ys(3,4) False ok by (intro card_distinct) (simp add: dissector_table_ok_def distinct_card)
    then have "dissector_table_ok P R (?sub\<lparr>dissector_handles := ys\<rparr>)"
      using ok ys(2,3) h by (auto simp: dissector_table_ok_def)
    moreover have "dissector_add_for_decode_as (fields_of P) (protocol_mem P) name (Some h) R =
        Inr (R1\<lparr>table_mem := (table_mem R)[t := ?sub\<lparr>dissector_handles := ys\<rparr>]\<rparr>)"
      using R1 t h sup False ys(1)
      by (simp add: dissector_add_for_decode_as_def at_def handle_at_def change_table_def)
    ultimately show ?thesis
      using R1(2) ys(3)
      by (intro exI [of _ "R1\<lparr>table_mem := (table_mem R)[t := ?sub\<lparr>dissector_handles := ys\<rparr>]\<rparr>"]
          exI [of _ ys] conjI) (simp_all add: same_tables_def)
  qed
qed

section \<open>The operations on a table of numbers\<close>

fun call_table ::
    "'p protocol_registry \<Rightarrow> string \<Rightarrow> guint32 table_op \<Rightarrow> ('d, 'e) dissector_registry \<Rightarrow>
      ('d, 'e) dissector_registry res" where
  "call_table P name (ADD k h) R = dissector_add_uint (fields_of P) (protocol_mem P) name k (Some h) R"
| "call_table P name (CHANGE k ho) R = dissector_change_uint name k ho R"
| "call_table P name (RESET k) R = dissector_reset_uint name k R"
| "call_table P name (DELETE k) R = dissector_delete_uint name k R"

fun call_tables ::
    "'p protocol_registry \<Rightarrow> string \<Rightarrow> guint32 table_op list \<Rightarrow> ('d, 'e) dissector_registry \<Rightarrow>
      ('d, 'e) dissector_registry res" where
  "call_tables P name [] R = Inr R"
| "call_tables P name (c # cs) R = bindE (call_table P name c R) (call_tables P name cs)"

fun op_handles :: "'k table_op \<Rightarrow> nat set" where
  "op_handles (ADD k h) = {h}"
| "op_handles _ = {}"

definition represents ::
    "'p protocol_registry \<Rightarrow> ('d, 'e) dissector_registry \<Rightarrow> string \<Rightarrow> nat \<Rightarrow> guint32 selection \<Rightarrow> bool" where
  "represents P R name t s =
     (handles_valid P R \<and> find_dissector_table R name = Some t \<and> t < length (table_mem R) \<and>
      uint_table (table_mem R ! t) \<and> dissector_table_ok P R (table_mem R ! t) \<and>
      uint_entry (table_mem R ! t) = entry_for s)"

lemma entry_ops_keep [simp]:
  "dissector_table_ok P R (add_entry k h sub) = dissector_table_ok P R sub"
  "dissector_table_ok P R (change_entry k k' ho sub) = dissector_table_ok P R sub"
  "dissector_table_ok P R (reset_entry k k' sub) = dissector_table_ok P R sub"
  "dissector_table_ok P R (delete_entry k k' sub) = dissector_table_ok P R sub"
  "uint_table (add_entry k h sub) = uint_table sub"
  "uint_table (change_entry k k' ho sub) = uint_table sub"
  "uint_table (reset_entry k k' sub) = uint_table sub"
  "uint_table (delete_entry k k' sub) = uint_table sub"
  "supports_decode_as (add_entry k h sub) = supports_decode_as sub"
  by (auto simp: add_entry_def change_entry_def reset_entry_def delete_entry_def dissector_table_ok_def
      uint_table_def split: option.split)

lemma with_tables [simp]:
  "find_dissector_table (R\<lparr>table_mem := ts\<rparr>) name = find_dissector_table R name"
  "handles_valid P (R\<lparr>table_mem := ts\<rparr>) = handles_valid P R"
  "dissector_table_ok P (R\<lparr>table_mem := ts\<rparr>) sub = dissector_table_ok P R sub"
  using same_tablesD(2) [of R "R\<lparr>table_mem := ts\<rparr>"] same_tablesD(5,6) [of R "R\<lparr>table_mem := ts\<rparr>", where P = P]
  by (simp_all add: same_tables_def)

lemma with_handles [simp]:
  "uint_table (sub\<lparr>dissector_handles := hs\<rparr>) = uint_table sub"
  "uint_entry (sub\<lparr>dissector_handles := hs\<rparr>) = uint_entry sub"
  by (simp_all add: uint_table_def uint_entry_def fun_eq_iff)

lemma represents_put:
  assumes "represents P R name t s" "dissector_table_ok P R sub" "uint_table sub" "uint_entry sub = entry_for s'"
  shows "represents P (R\<lparr>table_mem := (table_mem R)[t := sub]\<rparr>) name t s'"
  using assms by (simp add: represents_def)

lemma represents_same:
  assumes "represents P R name t s" "same_tables R R'" "table_mem R' = (table_mem R)[t := sub]"
    and "dissector_table_ok P R sub" "uint_table sub" "uint_entry sub = entry_for s'"
  shows "represents P R' name t s'"
  using assms same_tablesD(2) [OF assms(2)] same_tablesD(5,6) [OF assms(2), where P = P] by (simp add: represents_def)

lemma on_uint_entry_step:
  assumes rep: "represents P R name t s"
    and "\<And>sub. dissector_table_ok P R (f (UINT_KEY k) (UINT_KEY k) sub) = dissector_table_ok P R sub"
    and "\<And>sub. uint_table (f (UINT_KEY k) (UINT_KEY k) sub) = uint_table sub"
    and "uint_entry (f (UINT_KEY k) (UINT_KEY k) (table_mem R ! t)) = entry_for s'"
  shows "\<exists>R'. change_named_table name (on_uint_entry k f) R = Inr R' \<and> represents P R' name t s' \<and>
           handle_mem R' = handle_mem R"
  using assms represents_put [OF rep, of "f (UINT_KEY k) (UINT_KEY k) (table_mem R ! t)" s']
  by (simp add: change_named_table_def change_table_def on_uint_entry_def find_uint_dtbl_entry_def g_assert_def
      at_def represents_def)

lemma add_uint_step:
  assumes reg: "registry_ok P byname" and rep: "represents P R name t s" and h: "h < length (handle_mem R)"
  shows "\<exists>R'. dissector_add_uint (fields_of P) (protocol_mem P) name k (Some h) R = Inr R' \<and>
           represents P R' name t (select_op (ADD k h) s) \<and> handle_mem R' = handle_mem R"
proof -
  let ?sub = "add_entry (UINT_KEY k) h (table_mem R ! t)"
  let ?R1 = "R\<lparr>table_mem := (table_mem R)[t := ?sub]\<rparr>"
  have sub: "dissector_table_ok P R ?sub" "uint_table ?sub" "uint_entry ?sub = entry_for (select_op (ADD k h) s)"
      "find_dissector_table R name = Some t" "t < length (table_mem R)"
    using rep uints.after_add [of "table_mem R ! t" s k h] by (simp_all add: represents_def)
  have rep1: "represents P ?R1 name t (select_op (ADD k h) s)" by (rule represents_put [OF rep sub(1-3)])
  have run: "dissector_add_uint (fields_of P) (protocol_mem P) name k (Some h) R =
      (if supports_decode_as (table_mem R ! t)
       then dissector_add_for_decode_as (fields_of P) (protocol_mem P) name (Some h) ?R1 else Inr ?R1)"
    using sub by (simp add: dissector_add_uint_def add_to_table_def at_def g_assert_def change_table_def)
  show ?thesis
  proof (cases "supports_decode_as (table_mem R ! t)")
    case True
    obtain R' hs where R': "dissector_add_for_decode_as (fields_of P) (protocol_mem P) name (Some h) ?R1 = Inr R'"
        "same_tables ?R1 R'" "table_mem R' = (table_mem ?R1)[t := (table_mem ?R1 ! t)\<lparr>dissector_handles := hs\<rparr>]"
        "dissector_table_ok P ?R1 ((table_mem ?R1 ! t)\<lparr>dissector_handles := hs\<rparr>)"
      using decode_as_ok [OF reg, of ?R1 h name t] rep1 h True sub by (auto simp: represents_def)
    have "represents P R' name t (select_op (ADD k h) s)"
      using represents_same [OF rep1 R'(2,3), of "select_op (ADD k h) s"] R'(4) sub
      by (simp del: select_op.simps)
    then show ?thesis using run True R' by (simp add: same_tables_def)
  qed (use run rep1 in \<open>simp del: select_op.simps\<close>)
qed

lemma call_table_step:
  assumes reg: "registry_ok P byname" and rep: "represents P R name t s"
    and h: "\<forall>h \<in> op_handles c. h < length (handle_mem R)"
  shows "\<exists>R'. call_table P name c R = Inr R' \<and> represents P R' name t (select_op c s) \<and> handle_mem R' = handle_mem R"
proof -
  have e: "uint_entry (table_mem R ! t) = entry_for s" using rep by (simp add: represents_def)
  show ?thesis
  proof (cases c)
    case (ADD k h)
    then show ?thesis using add_uint_step [OF reg rep, of h k] h by (simp del: select_op.simps)
  next
    case (CHANGE k ho)
    then show ?thesis
      using on_uint_entry_step [OF rep, where f = "\<lambda>look put. change_entry look put ho" and k = k] uints.after_change [OF e, of k ho]
      by (simp add: dissector_change_uint_def del: select_op.simps)
  next
    case (RESET k)
    then show ?thesis
      using on_uint_entry_step [OF rep, where f = reset_entry and k = k] uints.after_reset [OF e, of k]
      by (simp add: dissector_reset_uint_def del: select_op.simps)
  next
    case (DELETE k)
    then show ?thesis
      using on_uint_entry_step [OF rep, where f = delete_entry and k = k] uints.after_delete [OF e, of k]
      by (simp add: dissector_delete_uint_def del: select_op.simps)
  qed
qed

lemma call_tables_steps:
  assumes reg: "registry_ok P byname"
  shows "represents P R name t s \<Longrightarrow> \<forall>c \<in> set cs. \<forall>h \<in> op_handles c. h < length (handle_mem R) \<Longrightarrow>
    \<exists>R'. call_tables P name cs R = Inr R' \<and> represents P R' name t (fold select_op cs s) \<and> handle_mem R' = handle_mem R"
proof (induction cs arbitrary: R s)
  case (Cons c cs)
  obtain R1 where R1: "call_table P name c R = Inr R1" "represents P R1 name t (select_op c s)"
      "handle_mem R1 = handle_mem R"
    using call_table_step [OF reg Cons.prems(1), of c] Cons.prems(2) by auto
  show ?case using Cons.IH [OF R1(2)] Cons.prems(2) R1 by auto
qed simp

lemma represents_lookup:
  assumes "represents P R name t s"
  shows "dissector_get_uint_handle (table_mem R ! t) k = Inr (selected s k)"
    "dissector_get_default_uint_handle R name k = Inr (registered_for s k)"
  using assms entry_for_current [of s k] entry_for_initial [of s k]
  by (auto simp: represents_def dissector_get_uint_handle_def dissector_get_default_uint_handle_def
      find_uint_dtbl_entry_def g_assert_def at_def uint_entry_def fun_eq_iff)

section \<open>The properties\<close>

text \<open>
  C8. A table of numbers, as it is registered, keeps the promise: whatever calls of dissector_add_uint,
  dissector_change_uint, dissector_reset_uint and dissector_delete_uint follow, with Decode As allowed or
  not, none of them fails, and for every number dissector_get_uint_handle answers with what the user has
  chosen since the number was registered or reset, and with what was registered last if there is no such
  choice; dissector_get_default_uint_handle answers with what was registered.
\<close>

theorem dissector_uint_table_refines_selection:
  assumes "registry_ok P byname" "handles_valid P R" "map_of (dissector_tables R) name = None"
    and "find_protocol_by_id (fields_of P) proto = Inr (Some p)" "p < length (protocol_mem P)"
    and "type \<in> {FT_UINT8, FT_UINT16, FT_UINT24, FT_UINT32}"
    and "\<forall>c \<in> set cs. \<forall>h \<in> op_handles c. h < length (handle_mem R)"
  shows "\<exists>t R0 R1 R'. register_dissector_table (fields_of P) name ui proto type param R = Inr (t, R0) \<and>
           (if decode_as then dissector_table_allow_decode_as t R0 else Inr R0) = Inr R1 \<and>
           call_tables P name cs R1 = Inr R' \<and>
           (\<forall>k. dissector_get_uint_handle (table_mem R' ! t) k =
                   Inr (selected (fold select_op cs nothing_selected) k) \<and>
                 dissector_get_default_uint_handle R' name k =
                   Inr (registered_for (fold select_op cs nothing_selected) k))"
proof -
  let ?t = "length (table_mem R)"
  let ?sub = "\<lambda>b. \<lparr>hash_table = [], dissector_handles = [], ui_name = ui, dt_type = type, dt_param = param,
    dt_protocol = Some p, supports_decode_as = b\<rparr> :: dissector_table"
  let ?R = "\<lambda>b. R\<lparr>table_mem := table_mem R @ [?sub b], dissector_tables := AList.update name ?t (dissector_tables R)\<rparr>"
  have new: "register_dissector_table (fields_of P) name ui proto type param R = Inr (?t, ?R False)"
    using assms(3,4,6) by (auto simp: register_dissector_table_def g_assert_def table_type_ok_def Let_def)
  have allow: "dissector_table_allow_decode_as ?t (?R False) = Inr (?R True)"
    by (simp add: dissector_table_allow_decode_as_def change_table_def at_def)
  have "uint_table (?sub decode_as)" using assms(6) by (auto simp: uint_table_def)
  then have "represents P (?R decode_as) name ?t nothing_selected"
    using assms(2,3,5)
    by (simp add: represents_def handles_valid_def find_dissector_table_def dissector_table_ok_def uint_entry_def
        entry_for_def nothing_selected_def fun_eq_iff update_conv')
  then obtain R' where run: "call_tables P name cs (?R decode_as) = Inr R'"
      and rep: "represents P R' name ?t (fold select_op cs nothing_selected)"
    using call_tables_steps [OF assms(1), of "?R decode_as"] assms(7) by fastforce
  then show ?thesis
    using new allow run represents_lookup [OF rep]
    by - (rule exI [of _ ?t], rule exI [of _ "?R False"], rule exI [of _ "?R decode_as"], rule exI [of _ R'], simp)
qed

text \<open>
  The user's change of a number can be undone: where nothing but registrations has touched the entry for
  a number, dissector_change_uint makes the table answer with the handle it is given, NULL included when the
  number was registered, and dissector_reset_uint brings back for every number the answers there were before.
\<close>

theorem dissector_reset_uint_undoes_change:
  assumes "find_dissector_table R name = Some t" "t < length (table_mem R)" "uint_table (table_mem R ! t)"
    and "\<And>e. map_of (hash_table (table_mem R ! t)) (UINT_KEY k) = Some e \<Longrightarrow> initial e \<noteq> None \<and> current e = initial e"
  shows "\<exists>R1 R2. dissector_change_uint name k ho R = Inr R1 \<and> dissector_reset_uint name k R1 = Inr R2 \<and>
           dissector_get_uint_handle (table_mem R1 ! t) k = Inr ho \<and>
           (\<forall>k'. dissector_get_uint_handle (table_mem R2 ! t) k' = dissector_get_uint_handle (table_mem R ! t) k' \<and>
                  dissector_get_default_uint_handle R2 name k' = dissector_get_default_uint_handle R name k')"
proof -
  let ?c = "change_entry (UINT_KEY k) (UINT_KEY k) ho (table_mem R ! t)"
  let ?r = "reset_entry (UINT_KEY k) (UINT_KEY k) ?c"
  let ?R1 = "R\<lparr>table_mem := (table_mem R)[t := ?c]\<rparr>" and ?R2 = "R\<lparr>table_mem := (table_mem R)[t := ?r]\<rparr>"
  have run: "dissector_change_uint name k ho R = Inr ?R1" "dissector_reset_uint name k ?R1 = Inr ?R2"
    using assms(1-3)
    by (simp_all add: dissector_change_uint_def dissector_reset_uint_def change_named_table_def change_table_def
        on_uint_entry_def find_uint_dtbl_entry_def g_assert_def at_def)
  have undone: "uint_entry ?r = uint_entry (table_mem R ! t)"
    by (rule uints.change_reset) (use assms(4) in \<open>auto simp: uint_entry_def\<close>)
  have changed: "(case uint_entry ?c k of None \<Rightarrow> None | Some e \<Rightarrow> current e) = ho"
    by (auto simp: uints.entry_change split: option.split)
  show ?thesis
    using run undone changed assms(1-3)
    by - (rule exI [of _ ?R1], rule exI [of _ ?R2], simp add: dissector_get_uint_handle_def
        dissector_get_default_uint_handle_def find_uint_dtbl_entry_def g_assert_def at_def uint_entry_def fun_eq_iff)
qed

text \<open>
  C39. A handle that is added for Decode As to a table that supports it is on the list of the table once, and
  the list stays sorted by the filter names of the protocols of the handles; nothing else of the table, and
  no other table, changes. This includes a second handle of a protocol that is on the list already: the
  comment in the code says that the protocol is ensured to be unique, but the code only prints a message.
\<close>

theorem dissector_add_for_decode_as_sorted:
  assumes "registry_ok P byname" "handles_valid P R" "h < length (handle_mem R)"
    and "find_dissector_table R name = Some t" "t < length (table_mem R)"
    and "dissector_table_ok P R (table_mem R ! t)" "supports_decode_as (table_mem R ! t)"
  shows "\<exists>R' hs. dissector_add_for_decode_as (fields_of P) (protocol_mem P) name (Some h) R = Inr R' \<and>
           table_mem R' = (table_mem R)[t := (table_mem R ! t)\<lparr>dissector_handles := hs\<rparr>] \<and>
           set hs = insert h (set (dissector_handles (table_mem R ! t))) \<and> distinct hs \<and>
           sorted_wrt (\<lambda>a b. strcmp (string_bytes (handle_name P R a)) (string_bytes (handle_name P R b)) \<le> 0) hs"
  using decode_as_ok [OF assms] by (auto simp: dissector_table_ok_def name_order_def)

text \<open>
  C40. In a table that does not tell cases apart, dissector_change_string for a pattern with a capital letter
  and no entry stores the choice under the pattern as it is, where no lookup finds it:
  dissector_get_string_handle does not return it for any string in the same letters, and
  dissector_reset_string and dissector_delete_string leave it in the table.
\<close>

theorem dissector_change_string_capitals_lost:
  assumes "find_dissector_table R name = Some t" "t < length (table_mem R)"
    and "string_table (table_mem R ! t)" "dt_param (table_mem R ! t) = 1"
    and "g_ascii_strdown pattern \<noteq> pattern" "g_ascii_strdown s = g_ascii_strdown pattern"
    and "map_of (hash_table (table_mem R ! t)) (STRING_KEY (g_ascii_strdown pattern)) = None"
  shows "\<exists>R'. dissector_change_string name pattern (Some h) R = Inr R' \<and>
           map_of (hash_table (table_mem R' ! t)) (STRING_KEY pattern) =
             Some \<lparr>initial = None, current = Some h\<rparr> \<and>
           dissector_get_string_handle (table_mem R' ! t) (Some s) = Inr None \<and>
           dissector_reset_string name s R' = Inr R' \<and> dissector_delete_string name s R' = Inr R'"
  using assms
  by (intro exI [of _ "R\<lparr>table_mem := (table_mem R)
        [t := change_entry (STRING_KEY (g_ascii_strdown pattern)) (STRING_KEY pattern) (Some h) (table_mem R ! t)]\<rparr>"])
    (simp add: dissector_change_string_def dissector_reset_string_def dissector_delete_string_def
      dissector_get_string_handle_def change_named_table_def change_table_def on_string_entry_def
      find_string_dtbl_entry_def g_assert_def at_def string_key_def string_table_def change_entry_def reset_entry_def
      delete_entry_def update_conv')

section \<open>A small registry\<close>

definition port_table :: "ftenum \<Rightarrow> (dtbl_key \<times> dtbl_entry) list \<Rightarrow> nat list \<Rightarrow> dissector_table" where
  "port_table type entries hs =
     \<lparr>hash_table = entries, dissector_handles = hs, ui_name = ''Sample'', dt_type = type, dt_param = 1,
      dt_protocol = Some 0, supports_decode_as = True\<rparr>"

lemma port_table_sel [simp]:
  "hash_table (port_table type es hs) = es" "dissector_handles (port_table type es hs) = hs"
  "dt_type (port_table type es hs) = type" "dt_param (port_table type es hs) = 1"
  "dt_protocol (port_table type es hs) = Some 0" "supports_decode_as (port_table type es hs)"
  "uint_table (port_table type es hs) = (type \<in> {FT_UINT8, FT_UINT16, FT_UINT24, FT_UINT32})"
  "string_table (port_table type es hs) = (type \<in> {FT_STRING, FT_STRINGZ, FT_STRINGZPAD})"
  by (simp_all add: port_table_def uint_table_def string_table_def)

definition port_handle :: "nat \<Rightarrow> (unit, unit) dissector_handle" where
  "port_handle p =
     \<lparr>dh_name = None, dissector_type = DISSECTOR_TYPE_SIMPLE, dissector_func = (), dissector_data = None,
      dh_protocol = Some p\<rparr>"

definition port_registry :: "dissector_table list \<Rightarrow> (unit, unit) dissector_registry" where
  "port_registry ts =
     packet_init\<lparr>handle_mem := [port_handle 0, port_handle 1], table_mem := ts,
                 dissector_tables := (if ts = [] then [] else [(''sample.port'', 0)])\<rparr>"

lemma port_registry_handles:
  "handles_valid sample_protocols (port_registry ts)" "length (handle_mem (port_registry ts)) = 2"
  by (auto simp: handles_valid_def port_registry_def port_handle_def sample_protocols_nth less_Suc_eq nth_Cons'
      split: if_splits)

lemma port_registry_table:
  "find_dissector_table (port_registry [sub]) ''sample.port'' = Some 0"
  "table_mem (port_registry [sub]) = [sub]" "handle_mem (port_registry [sub]) = [port_handle 0, port_handle 1]"
  by (simp_all add: find_dissector_table_def port_registry_def)

theorem dissector_uint_table_refines_selection_witness:
  "\<exists>R'. call_tables sample_protocols ''other.port'' [ADD 7 0, ADD 8 0, CHANGE 7 (Some 1), CHANGE 9 (Some 1), RESET 8]
          (snd (case register_dissector_table (fields_of sample_protocols) ''other.port'' ''Other'' 0 FT_UINT16 0
                       (port_registry [])
                of Inr r \<Rightarrow> r)) = Inr R' \<and>
        map (dissector_get_uint_handle (table_mem R' ! 0)) [7, 8, 9] = [Inr (Some 1), Inr (Some 0), Inr (Some 1)]"
proof -
  let ?cs = "[ADD 7 0, ADD 8 0, CHANGE 7 (Some 1), CHANGE 9 (Some 1), RESET 8]"
  have none: "map_of (dissector_tables (port_registry [])) ''other.port'' = None" by (simp add: port_registry_def)
  have nonempty: "0 < length (protocol_mem sample_protocols)" by (simp add: sample_protocols_nth)
  have handles: "\<forall>c \<in> set ?cs. \<forall>h \<in> op_handles c. h < length (handle_mem (port_registry []))"
    by (simp add: port_registry_def)
  obtain t R0 R1 R' where run:
      "register_dissector_table (fields_of sample_protocols) ''other.port'' ''Other'' 0 FT_UINT16 0
         (port_registry []) = Inr (t, R0)"
      "(if False then dissector_table_allow_decode_as t R0 else Inr R0) = Inr R1"
      "call_tables sample_protocols ''other.port'' ?cs R1 = Inr R'"
      "\<forall>k. dissector_get_uint_handle (table_mem R' ! t) k = Inr (selected (fold select_op ?cs nothing_selected) k) \<and>
           dissector_get_default_uint_handle R' ''other.port'' k =
             Inr (registered_for (fold select_op ?cs nothing_selected) k)"
    using dissector_uint_table_refines_selection [OF sample_protocols_ok port_registry_handles(1) none sample_find(1)
        nonempty _ handles, of FT_UINT16 "''Other''" 0 False]
    by blast
  have "t = 0"
    using run(1) sample_find(1)
    by (simp add: register_dissector_table_def g_assert_def port_registry_def packet_init_def table_type_ok_def Let_def)
  then show ?thesis
    using run by (intro exI [of _ R']) (simp add: selected_def nothing_selected_def)
qed

theorem dissector_reset_uint_undoes_change_witness:
  "\<exists>R1 R2. dissector_change_uint ''sample.port'' 7 None
             (port_registry [port_table FT_UINT32 [(UINT_KEY 7, \<lparr>initial = Some 0, current = Some 0\<rparr>)] []]) = Inr R1 \<and>
           dissector_get_uint_handle (table_mem R1 ! 0) 7 = Inr None \<and>
           dissector_reset_uint ''sample.port'' 7 R1 = Inr R2 \<and>
           dissector_get_uint_handle (table_mem R2 ! 0) 7 = Inr (Some 0)"
proof -
  let ?sub = "port_table FT_UINT32 [(UINT_KEY 7, \<lparr>initial = Some 0, current = Some 0\<rparr>)] []"
  have "dissector_get_uint_handle (table_mem (port_registry [?sub]) ! 0) 7 = Inr (Some 0)"
    by (simp add: port_registry_table dissector_get_uint_handle_def find_uint_dtbl_entry_def g_assert_def)
  then show ?thesis
    using dissector_reset_uint_undoes_change [of "port_registry [?sub]" "''sample.port''" 0 7 None]
    by (auto simp: port_registry_table)
qed

theorem dissector_add_for_decode_as_sorted_witness:
  "\<exists>R'. dissector_add_for_decode_as (fields_of sample_protocols) (protocol_mem sample_protocols) ''sample.port''
          (Some 0) (port_registry [port_table FT_UINT32 [] [1]]) = Inr R' \<and>
        set (dissector_handles (table_mem R' ! 0)) = {0, 1}"
proof -
  let ?R = "port_registry [port_table FT_UINT32 [] [1]]"
  have "dissector_table_ok sample_protocols ?R (table_mem ?R ! 0)"
    using port_registry_handles(2) [of "[port_table FT_UINT32 [] [1]]"]
    by (simp add: dissector_table_ok_def port_registry_table sample_protocols_nth)
  then obtain R' hs where "dissector_add_for_decode_as (fields_of sample_protocols) (protocol_mem sample_protocols)
        ''sample.port'' (Some 0) ?R = Inr R'"
      "table_mem R' = (table_mem ?R)[0 := (table_mem ?R ! 0)\<lparr>dissector_handles := hs\<rparr>]"
      "set hs = insert 0 (set (dissector_handles (table_mem ?R ! 0)))"
    using dissector_add_for_decode_as_sorted [OF sample_protocols_ok, of ?R 0 "''sample.port''" 0]
      port_registry_handles [of "[port_table FT_UINT32 [] [1]]"]
    by (simp add: port_registry_table) blast
  then show ?thesis by (intro exI [of _ R']) (simp add: port_registry_table)
qed

lemma strdown_sip: "g_ascii_strdown ''SIP'' = ''sip''"
  by code_simp

theorem dissector_change_string_capitals_lost_witness:
  "\<exists>R'. dissector_change_string ''sample.port'' ''SIP'' (Some 1) (port_registry [port_table FT_STRING [] []]) = Inr R' \<and>
        dissector_get_string_handle (table_mem R' ! 0) (Some ''SIP'') = Inr None \<and>
        dissector_reset_string ''sample.port'' ''SIP'' R' = Inr R'"
  using dissector_change_string_capitals_lost
    [of "port_registry [port_table FT_STRING [] []]" "''sample.port''" 0 "''SIP''" "''SIP''" 1]
  by (auto simp: port_registry_table strdown_sip)

end
