(* ===== verification/PacketProps.thy ===== *)
theory PacketProps
  imports Packet DissectorTableProps "HOL-Library.Sublist"
begin

text \<open>
  What calling dissectors promises to the caller, whatever the dissectors do: when they return, the caller's
  state of the frame is restored, a packet that caused an error leaves no trace in the addresses and columns of the
  packet that reports it, a rejected packet leaves no layer behind, of the heuristic dissectors the first
  that accepts takes the packet, and what nobody wants goes to the data dissector.
\<close>

section \<open>Layers\<close>

lemma remove_layers_eq:
  "remove_layers rejected n pi =
     pi\<lparr>layers := take n (layers pi),
        curr_layer_num := curr_layer_num pi - (if rejected then of_nat (length (layers pi) - n) else 0)\<rparr>"
proof (induction rejected n pi rule: remove_layers.induct)
  case (1 rejected n pi)
  show ?case
  proof (cases "n < length (layers pi)")
    case True
    then have "length (layers pi) - n = Suc (length (layers pi) - 1 - n)" by simp
    then show ?thesis
      using 1 True
      by (subst remove_layers.simps) (auto simp: butlast_conv_take min_def algebra_simps)
  next
    case False
    then show ?thesis by (subst remove_layers.simps) simp
  qed
qed

lemmas pinfo_acts = gets_def set_pinfo_def get_handle_def protocol_enabled_def

text \<open>Questions leave the state alone.\<close>

lemma own_protocolD: "own_protocol q s = (r, s') \<Longrightarrow> s' = s"
  by (auto simp: own_protocol_def split: option.splits elim!: bindS_cases)

lemma enabled_caseD: "(case q of None \<Rightarrow> return b | Some p \<Rightarrow> protocol_enabled p) s = (r, s') \<Longrightarrow> s' = s"
  by (auto simp: protocol_enabled_def split: option.splits)

section \<open>What is restored\<close>

lemma through_handle_returns:
  assumes "call_dissector_through_handle code h tvb tree data s = (Inr len, s')"
  shows "current_proto (pinfo s') = current_proto (pinfo s)"
  using assms
  by (auto simp: call_dissector_through_handle_def pinfo_acts elim!: bindS_InrE)

lemma work_error_returns:
  assumes "call_dissector_work_error code h tvb tree data s = (Inr len, s')"
  shows "\<exists>pi. pinfo s' = (restore_addresses (pinfo s) pi)\<lparr>want_pdu_tracking := 0\<rparr>"
  using assms unfolding call_dissector_work_error_def pinfo_acts
  by (elim bindS_InrE) (auto intro: exI)

lemma work_returns:
  assumes "call_dissector_work code h tvb tree add_proto_name data s = (Inr len, s')"
  shows "current_proto (pinfo s') = current_proto (pinfo s) \<and> can_desegment (pinfo s') = can_desegment (pinfo s)"
  using assms
  by (auto simp: call_dissector_work_def pinfo_acts elim!: bindS_InrE split: if_splits
      dest!: own_protocolD enabled_caseD)

section \<open>Dissectors that leave other people's layers alone\<close>

text \<open>
  A polite action leaves the tables and the protocols as they are and takes away no layer that it has not
  added. If the dissectors are polite, so is calling them in every way.
\<close>

definition polite :: "('p, 'r, 'd, 'e, 'x, 'a) dissecting \<Rightarrow> bool" where
  "polite m =
     (\<forall>s r s'. m s = (r, s') \<longrightarrow>
        registry s' = registry s \<and> known_protocols s' = known_protocols s \<and>
        prefix (layers (pinfo s)) (layers (pinfo s')))"

definition polite_code :: "('p, 'r, 'd, 'e, 'x) dissector_code \<Rightarrow> bool" where
  "polite_code code =
     (\<forall>d tvb tree data data'. polite (simple_fn code d tvb tree data) \<and>
        polite (callback_fn code d tvb tree data data') \<and> polite (heur_fn code d tvb tree data))"

lemma polite_codeD:
  assumes "polite_code code"
  shows "polite (simple_fn code d tvb tree data)" "polite (callback_fn code d tvb tree data data')"
    "polite (heur_fn code d tvb tree data)"
  using assms by (auto simp: polite_code_def)

lemma politeD:
  assumes "polite m" "m s = (r, s')"
  shows "registry s' = registry s" "known_protocols s' = known_protocols s"
    "prefix (layers (pinfo s)) (layers (pinfo s'))"
  using assms by (auto simp: polite_def)

named_theorems civil \<open>actions that are polite\<close>

lemma politeI:
  assumes "\<And>s r s'. m s = (r, s') \<Longrightarrow> registry s' = registry s \<and> known_protocols s' = known_protocols s \<and>
    prefix (layers (pinfo s)) (layers (pinfo s'))"
  shows "polite m"
  using assms by (auto simp: polite_def)

lemma polite_bind [civil]:
  assumes m: "polite m" and k: "\<And>x. polite (k x)"
  shows "polite (bindS m k)"
proof (rule politeI)
  fix s r s' assume "bindS m k s = (r, s')"
  then show "registry s' = registry s \<and> known_protocols s' = known_protocols s \<and>
    prefix (layers (pinfo s)) (layers (pinfo s'))"
  proof (cases rule: bindS_cases)
    case (throws e)
    then show ?thesis using politeD [OF m] by blast
  next
    case (returns x s1)
    then show ?thesis using politeD [OF m returns(1)] politeD [OF k returns(2)] by auto
  qed
qed

lemma polite_state: "(\<And>s r s'. m s = (r, s') \<Longrightarrow> s' = s) \<Longrightarrow> polite m"
  by (auto simp: polite_def)

lemma polite_basic [civil]:
  "polite (return x)" "polite (throw e)" "polite (gets f)" "polite (asks g)" "polite (assertS b)"
  "polite (get_handle h)" "polite (own_protocol q)" "polite (protocol_enabled p)" "polite (get_table t)"
  "polite (get_heur i)" "polite assert_data_protocol" "polite get_postdissectors"
  by (rule polite_state; auto simp: pinfo_acts get_table_def get_heur_def assert_data_protocol_def
      get_postdissectors_def dest: own_protocolD elim!: bindS_cases split: if_splits)+

lemma polite_set_pinfo: "(\<And>pi. prefix (layers pi) (layers (f pi))) \<Longrightarrow> polite (set_pinfo f)"
  by (simp add: polite_def set_pinfo_def)

lemma polite_pinfo_fields [civil]:
  "polite (set_pinfo (\<lambda>pi. pi\<lparr>current_proto := a\<rparr>))" "polite (set_pinfo (\<lambda>pi. pi\<lparr>match_uint := b\<rparr>))"
  "polite (set_pinfo (\<lambda>pi. pi\<lparr>match_string := c\<rparr>))" "polite (set_pinfo (\<lambda>pi. pi\<lparr>can_desegment := d\<rparr>))"
  "polite (set_pinfo (\<lambda>pi. pi\<lparr>heur_list_name := e\<rparr>))" "polite (set_pinfo pass_on_desegment)"
  "polite (set_pinfo (\<lambda>pi. pi\<lparr>current_proto := a, can_desegment := d\<rparr>))"
  "polite (set_pinfo (\<lambda>pi. pi\<lparr>current_proto := a, heur_list_name := e, can_desegment := d\<rparr>))"
  "polite (set_pinfo (\<lambda>pi. pi\<lparr>can_desegment := d, current_proto := a, heur_list_name := e\<rparr>))"
  "polite (set_pinfo (enter_protocol own add))" "polite (set_pinfo (\<lambda>pi. pi\<lparr>cinfo := g pi\<rparr>))"
  "polite (set_pinfo (\<lambda>pi. (restore_addresses saved pi)\<lparr>want_pdu_tracking := 0\<rparr>))"
  by (rule polite_set_pinfo; auto simp: pass_on_desegment_def enter_protocol_def add_layer_def Let_def
      restore_addresses_def split: option.split)+

lemma polite_catch [civil]: "polite m \<Longrightarrow> (\<And>e. polite (h e)) \<Longrightarrow> polite (catchS m h)"
  by (rule politeI) (auto simp: catchS_def dest: politeD split: prod.splits sum.splits, (metis politeD prefix_order.trans)+)

lemma polite_through_handle [civil]:
  assumes "polite_code code"
  shows "polite (call_dissector_through_handle code h tvb tree data)"
  unfolding call_dissector_through_handle_def
  by (intro civil) (auto split: dissector_e.split intro: polite_codeD [OF assms])

lemma polite_work_error [civil]:
  assumes "polite_code code"
  shows "polite (call_dissector_work_error code h tvb tree data)"
  unfolding call_dissector_work_error_def
  by (intro civil assms) (auto intro!: civil polite_set_pinfo simp: restore_addresses_def)

text \<open>The same, for the layers that a caller has counted before.\<close>

definition atop :: "int list \<Rightarrow> ('p, 'r, 'd, 'e, 'x, 'a) dissecting \<Rightarrow> bool" where
  "atop ls m =
     (\<forall>s r s'. prefix ls (layers (pinfo s)) \<longrightarrow> m s = (r, s') \<longrightarrow>
        registry s' = registry s \<and> known_protocols s' = known_protocols s \<and> prefix ls (layers (pinfo s')))"

lemma atopD:
  assumes "atop ls m" "m s = (r, s')" "prefix ls (layers (pinfo s))"
  shows "registry s' = registry s" "known_protocols s' = known_protocols s" "prefix ls (layers (pinfo s'))"
  using assms unfolding atop_def by blast+

lemma polite_atop: "polite m \<Longrightarrow> atop ls m"
  by (auto simp: atop_def dest: politeD)

lemma atop_bind:
  assumes m: "atop ls m" and k: "\<And>x. atop ls (k x)"
  shows "atop ls (bindS m k)"
  unfolding atop_def
proof (intro allI impI)
  fix s r s' assume p: "prefix ls (layers (pinfo s))" and "bindS m k s = (r, s')"
  from this(2) show "registry s' = registry s \<and> known_protocols s' = known_protocols s \<and>
    prefix ls (layers (pinfo s'))"
  proof (cases rule: bindS_cases)
    case (throws e)
    then show ?thesis using atopD [OF m _ p] by blast
  next
    case (returns x s1)
    note first = atopD [OF m returns(1) p]
    then show ?thesis using atopD [OF k returns(2) first(3)] by auto
  qed
qed

lemma atop_remove_layers: "atop ls (set_pinfo (remove_layers rejected (length ls)))"
  by (auto simp: atop_def set_pinfo_def remove_layers_eq prefix_def)

lemma polite_from: "(\<And>pi. atop (layers pi) (k pi)) \<Longrightarrow> polite (bindS (gets pinfo) k)"
  by (rule politeI) (auto simp: gets_def dest: atopD)

lemma polite_cases [civil]:
  "(b \<Longrightarrow> polite m) \<Longrightarrow> (\<not> b \<Longrightarrow> polite n) \<Longrightarrow> polite (if b then m else n)"
  "polite m0 \<Longrightarrow> (\<And>x. polite (k x)) \<Longrightarrow> polite (case q of None \<Rightarrow> m0 | Some x \<Rightarrow> k x)"
  by (auto split: option.split)

lemma atop_cases:
  "(b \<Longrightarrow> atop ls m) \<Longrightarrow> (\<not> b \<Longrightarrow> atop ls n) \<Longrightarrow> atop ls (if b then m else n)"
  "atop ls m0 \<Longrightarrow> (\<And>x. atop ls (k x)) \<Longrightarrow> atop ls (case q of None \<Rightarrow> m0 | Some x \<Rightarrow> k x)"
  by (auto split: option.split)

lemmas atop_rules = atop_remove_layers atop_cases atop_bind polite_atop

lemma polite_work [civil]:
  assumes "polite_code code"
  shows "polite (call_dissector_work code h tvb tree add_proto_name data)"
  unfolding call_dissector_work_def
  by (intro civil polite_from)
    (auto intro!: civil atop_bind polite_from intro: polite_atop atop_remove_layers polite_atop [OF polite_work_error [OF assms]]
      polite_atop [OF polite_through_handle [OF assms]] split: option.split)

lemma polite_on_current [civil]: "(\<And>h. polite (call h)) \<Longrightarrow> polite (on_current entry call)"
  by (auto simp: on_current_def intro: civil split: option.split)

lemma polite_tries [civil]:
  assumes "polite_code code"
  shows "polite (dissector_try_uint_new code t val tvb tree add_proto_name data)"
    "polite (dissector_try_string_new code t str tvb tree add_proto_name data)"
    "polite (dissector_try_guid_new code t guid tvb tree add_proto_name data)"
  unfolding dissector_try_uint_new_def dissector_try_string_new_def dissector_try_guid_new_def
  by (auto intro!: civil assms split: option.split)

lemma polite_calls [civil]:
  assumes "polite_code code"
  shows "polite (call_dissector_only code handle tvb tree data)" "polite (call_data_dissector code tvb tree)"
  unfolding call_dissector_only_def call_data_dissector_def
  by (auto intro!: civil assms split: option.split)

lemma polite_with_data [civil]:
  assumes "polite_code code"
  shows "polite (call_dissector_with_data code handle tvb tree data)"
  unfolding call_dissector_with_data_def by (auto intro!: civil assms)

lemma polite_heur_protocol [civil]: "polite (heur_protocol_of entry)"
  by (auto simp: heur_protocol_of_def intro!: civil split: option.split)

lemma atop_try_entry:
  assumes "polite_code code"
  shows "atop ls (try_entry code desegment (length ls) count tvb tree data e)"
  unfolding try_entry_def
  by (rule atop_rules civil polite_codeD [OF assms] assms)+

lemma atop_try_entries: "(\<And>e. atop ls (try_one e)) \<Longrightarrow> atop ls (try_entries try_one es)"
proof (induction es)
  case Nil
  show ?case unfolding try_entries.simps by (intro polite_atop civil)
next
  case (Cons e es)
  then show ?case unfolding try_entries.simps
    by (auto intro!: atop_bind atop_cases simp del: return_run intro: polite_atop polite_basic(1))
qed

lemma polite_try_heuristic [civil]:
  assumes "polite_code code"
  shows "polite (dissector_try_heuristic code l tvb tree data)"
  unfolding dissector_try_heuristic_def
  by (intro civil polite_from, auto intro!: civil atop_bind atop_try_entries atop_try_entry [OF assms] intro: polite_atop)

lemma polite_heur_direct [civil]:
  assumes "polite_code code"
  shows "polite (call_heur_dissector_direct code entry tvb tree data)"
  unfolding call_heur_dissector_direct_def
  by (rule polite_from atop_rules civil polite_codeD [OF assms] assms)+

lemma polite_postdissectors [civil]:
  assumes "polite_code code"
  shows "polite (call_all_postdissectors code tvb tree)"
proof -
  have "polite (call_each code ps tvb tree)" for ps
    by (induction ps; unfold call_each.simps; intro civil assms) assumption
  then show ?thesis unfolding call_all_postdissectors_def by (auto intro!: civil)
qed

section \<open>A rejected packet leaves no layer\<close>

lemma own_protocol_Some:
  "p < length (known_protocols s) \<Longrightarrow> \<not> proto_is_pino (known_protocols s ! p) \<Longrightarrow>
    own_protocol (Some p) s = (Inr (Some (known_protocols s ! p)), s)"
  by (simp add: own_protocol_def protocol_at_def)

lemma entered_error [simp]: "in_error_pkt (enter_protocol own add (pass_on_desegment pi)) = in_error_pkt pi"
  by (simp add: enter_protocol_def pass_on_desegment_def add_layer_def Let_def split: option.split)

definition run_in :: "('p, 'r, 'd, 'e, 'x) dissector_code \<Rightarrow> bool \<Rightarrow> nat \<Rightarrow> tvbuff \<Rightarrow> nat option \<Rightarrow> 'e option \<Rightarrow>
      ('p, 'r, 'd, 'e, 'x, gint) dissecting" where
  "run_in code err h tvb tree data =
     (if err then call_dissector_work_error code h tvb tree data
      else call_dissector_through_handle code h tvb tree data)"

lemma work_cases:
  fixes s :: "('p, 'r, 'd, 'e, 'x) dissection"
  assumes code: "polite_code code"
    and h: "h < length (handle_mem (registry s))" "dh_protocol (handle_mem (registry s) ! h) = Some p"
    and p: "p < length (known_protocols s)" "\<not> proto_is_pino (known_protocols s ! p)"
    and run: "call_dissector_work code h tvb tree add data s = (Inr len, s')"
  obtains (disabled) "len = 0" "s' = s"
  | (called) s2 where
    "run_in code (in_error_pkt (pinfo s)) h tvb tree data
       (s\<lparr>pinfo := enter_protocol (Some (known_protocols s ! p)) add (pass_on_desegment (pinfo s))\<rparr>) = (Inr len, s2)"
    "s' = s2\<lparr>pinfo := (if add \<and> (len = 0 \<or> tree \<noteq> None \<and> tree_count tree s = tree_count tree s2)
             then remove_layers (len = 0) (length (layers (pinfo s))) (pinfo s2) else pinfo s2)
          \<lparr>current_proto := current_proto (pinfo s), can_desegment := can_desegment (pinfo s)\<rparr>\<rparr>"
proof -
  let ?s1 = "s\<lparr>pinfo := enter_protocol (Some (known_protocols s ! p)) add (pass_on_desegment (pinfo s))\<rparr>"
  have known: "known_protocols s2 = known_protocols s"
    if "run_in code err h tvb tree data ?s1 = (Inr len, s2)" for err s2
  proof -
    have "polite (run_in code err h tvb tree data)"
      unfolding run_in_def by (rule civil code)+
    from politeD(2) [OF this that] show ?thesis by simp
  qed
  let ?last = "bindS (own_protocol (Some p)) (\<lambda>own'.
     bindS (gets (tree_count tree)) (\<lambda>count.
     bindS (if own' \<noteq> None \<and> add \<and> (len = 0 \<or> tree \<noteq> None \<and> tree_count tree s = count)
            then set_pinfo (remove_layers (len = 0) (length (layers (pinfo s)))) else return ()) (\<lambda>_.
     bindS (set_pinfo (\<lambda>pi. pi\<lparr>current_proto := current_proto (pinfo s), can_desegment := can_desegment (pinfo s)\<rparr>))
       (\<lambda>_. return len))))"
  from run consider (off) "len = 0" "s' = s"
    | (on) s2 where "run_in code (in_error_pkt (pinfo s)) h tvb tree data ?s1 = (Inr len, s2)"
        "?last s2 = (Inr len, s')"
    using own_protocol_Some [of p "s\<lparr>pinfo := pass_on_desegment (pinfo s)\<rparr>"] p h
    by (auto simp: call_dissector_work_def run_in_def gets_def get_handle_def set_pinfo_def protocol_enabled_def
        at_def elim!: bindS_InrE split: if_splits)
  then show ?thesis
  proof cases
    case off
    then show ?thesis by (rule disabled)
  next
    case on
    have "own_protocol (Some p) s2 = (Inr (Some (known_protocols s ! p)), s2)"
      using own_protocol_Some [of p s2] p known [OF on(1)] by simp
    then have "s' = s2\<lparr>pinfo := (if add \<and> (len = 0 \<or> tree \<noteq> None \<and> tree_count tree s = tree_count tree s2)
             then remove_layers (len = 0) (length (layers (pinfo s))) (pinfo s2) else pinfo s2)
          \<lparr>current_proto := current_proto (pinfo s), can_desegment := can_desegment (pinfo s)\<rparr>\<rparr>"
      using on(2) by (auto simp: gets_def set_pinfo_def split: if_splits)
    with on(1) show ?thesis by (rule called)
  qed
qed

section \<open>Keeping the layer number in step\<close>

definition in_step :: "('p, 'r, 'd, 'e, 'x, 'a) dissecting \<Rightarrow> bool" where
  "in_step m =
     (\<forall>s r s'. m s = (Inr r, s') \<longrightarrow>
        curr_layer_num (pinfo s') - of_nat (length (layers (pinfo s'))) =
        curr_layer_num (pinfo s) - of_nat (length (layers (pinfo s))))"

lemma through_handle_in_step:
  assumes "\<And>d tvb tree data data'. in_step (simple_fn code d tvb tree data) \<and> in_step (callback_fn code d tvb tree data data')"
    and run: "call_dissector_through_handle code h tvb tree data s = (Inr len, s')"
  shows "curr_layer_num (pinfo s') - of_nat (length (layers (pinfo s'))) =
    curr_layer_num (pinfo s) - of_nat (length (layers (pinfo s)))"
proof -
  have enter: "curr_layer_num (enter_protocol own False pi) = curr_layer_num pi"
      "layers (enter_protocol own False pi) = layers pi" for own pi
    by (simp_all add: enter_protocol_def split: option.split)
  have fns: "in_step (case ty of DISSECTOR_TYPE_SIMPLE \<Rightarrow> simple_fn code d tvb tree data
      | DISSECTOR_TYPE_CALLBACK \<Rightarrow> callback_fn code d tvb tree data data')" for ty d data'
    using assms(1) by (cases ty) auto
  show ?thesis
    using run
    by (auto simp: call_dissector_through_handle_def pinfo_acts enter elim!: bindS_InrE
        dest!: own_protocolD fns [unfolded in_step_def, rule_format])
qed

section \<open>The properties of a call\<close>

text \<open>The ends of the packet and the columns: six addresses, as shallow copies, and whether columns can be written.\<close>

definition same_ends :: "packet_info \<Rightarrow> packet_info \<Rightarrow> bool" where
  "same_ends pi pi' =
     (list_all (\<lambda>f. copy_address_shallow (f pi') = copy_address_shallow (f pi))
        [dl_src, dl_dst, net_src, net_dst, src_addr, dst_addr] \<and>
      (cinfo pi' \<noteq> None \<longrightarrow> col_get_writable (cinfo pi') = col_get_writable (cinfo pi)))"

lemma same_ends_refl [simp]: "same_ends pi pi"
  by (simp add: same_ends_def)

lemma restored_ends [simp]: "same_ends pi (restore_addresses pi pi')"
  by (auto simp: same_ends_def restore_addresses_def copy_address_shallow_def col_get_writable_def
      col_set_writable_def split: option.splits)

lemma same_ends_fields [simp]:
  "same_ends pi (pi'\<lparr>current_proto := a\<rparr>) = same_ends pi pi'" "same_ends pi (pi'\<lparr>can_desegment := d\<rparr>) = same_ends pi pi'"
  "same_ends pi (pi'\<lparr>want_pdu_tracking := w\<rparr>) = same_ends pi pi'" "same_ends pi (remove_layers r n pi') = same_ends pi pi'"
  "same_ends (pi\<lparr>current_proto := a\<rparr>) pi' = same_ends pi pi'"
  "same_ends (enter_protocol own add pi) pi' = same_ends pi pi'" "same_ends (pass_on_desegment pi) pi' = same_ends pi pi'"
  by (auto simp: same_ends_def remove_layers_eq pass_on_desegment_def enter_protocol_def add_layer_def Let_def
      split: option.split)

lemma work_error_ends:
  "call_dissector_work_error code h tvb tree data s = (Inr len, s') \<Longrightarrow> same_ends (pinfo s) (pinfo s')"
  using work_error_returns [of code h tvb tree data s len s'] by auto

text \<open>
  C22. Whatever a dissector does to the state of the frame, when call_dissector_work returns, and no exception
  passes through it, the name of the current protocol and can_desegment are what they were, and inside an
  error packet so are the addresses and whether the columns can be written.
\<close>

theorem call_dissector_work_restores:
  assumes "call_dissector_work code h tvb tree add_proto_name data s = (Inr len, s')"
  shows "current_proto (pinfo s') = current_proto (pinfo s) \<and> can_desegment (pinfo s') = can_desegment (pinfo s) \<and>
    (in_error_pkt (pinfo s) \<longrightarrow> same_ends (pinfo s) (pinfo s'))"
proof -
  have "same_ends (pinfo s) (pinfo s')" if "in_error_pkt (pinfo s)"
    using assms that
    by (auto simp: call_dissector_work_def pinfo_acts elim!: bindS_InrE split: if_splits
        dest!: own_protocolD enabled_caseD work_error_ends)
  then show ?thesis using work_returns [OF assms] by blast
qed

lemma own_protocol_known:
  "own_protocol q s = (Inr own, s) \<Longrightarrow> known_protocols s' = known_protocols s \<Longrightarrow>
     own_protocol q s' = (Inr own, s')"
  by (auto simp: own_protocol_def bindS_def asks_def split: option.splits sum.splits)

lemma work_error_throws:
  assumes "call_dissector_through_handle code h tvb tree data
      (s\<lparr>pinfo := (pinfo s)\<lparr>cinfo := col_set_writable False (cinfo (pinfo s))\<rparr>\<rparr>) = (Inl e, s2)"
    and "initialized (hdr tvb)"
  shows "call_dissector_work_error code h tvb tree data s =
    (if e = BoundsError then
       (Inl BoundsError,
        s2\<lparr>pinfo := (restore_addresses (pinfo s) (pinfo s2))
             \<lparr>current_proto := current_proto (pinfo s), can_desegment := can_desegment (pinfo s)\<rparr>\<rparr>)
     else if e \<in> {FragmentBoundsError, ContainedBoundsError, ReportedBoundsError} then
       (Inr (caplen (hdr tvb)), s2\<lparr>pinfo := (restore_addresses (pinfo s) (pinfo s2))\<lparr>want_pdu_tracking := 0\<rparr>\<rparr>)
     else (Inl e, s2))"
  using assms
  by (simp add: call_dissector_work_error_def bindS_def gets_def asks_def set_pinfo_def catchS_def
      tvb_captured_length_def dissector_assert_def)

text \<open>
  C23. What becomes of an exception that a dissector throws inside an error packet. The three that say
  that the contained packet is shorter than it claims do not get out of call_dissector_work: it returns
  the captured length of the buffer, with the addresses, the columns, the current protocol and can_desegment
  as they were before the call. A BoundsError, when the frame itself is too short, gets out with the addresses
  and the columns as they were; the current protocol is then that of the dissector that was called, and
  can_desegment what it was given, because both were saved after call_dissector_work had set them.
  After any other exception nothing is restored.
\<close>

theorem call_dissector_work_error_packet:
  assumes err: "in_error_pkt (pinfo s)" and code: "polite_code code" and tvb: "initialized (hdr tvb)"
    and h: "h < length (handle_mem (registry s))" "dh_protocol (handle_mem (registry s) ! h) = q"
    and q: "q \<noteq> None \<Longrightarrow> protocol_enabled (the q) s = (Inr True, s)" "own_protocol q s = (Inr own, s)"
    and room: "length (layers (pinfo s)) < PINFO_LAYER_MAX_RECURSION_DEPTH"
    and pi: "pi = enter_protocol own add (pass_on_desegment (pinfo s))"
    and run: "call_dissector_through_handle code h tvb tree data
                (s\<lparr>pinfo := pi\<lparr>cinfo := col_set_writable False (cinfo pi)\<rparr>\<rparr>) = (Inl e, s2)"
  shows "case call_dissector_work code h tvb tree add data s of (r, s') \<Rightarrow>
    if e \<in> {FragmentBoundsError, ContainedBoundsError, ReportedBoundsError} then
      r = Inr (caplen (hdr tvb)) \<and> same_ends (pinfo s) (pinfo s') \<and>
      current_proto (pinfo s') = current_proto (pinfo s) \<and> can_desegment (pinfo s') = can_desegment (pinfo s) \<and>
      want_pdu_tracking (pinfo s') = 0
    else if e = BoundsError then
      r = Inl BoundsError \<and> same_ends (pinfo s) (pinfo s') \<and>
      current_proto (pinfo s') =
        (case own of None \<Rightarrow> current_proto (pinfo s) | Some pr \<Rightarrow> p_short_name pr) \<and>
      can_desegment (pinfo s') = can_desegment (pinfo s) - (if can_desegment (pinfo s) > 0 then 1 else 0)
    else r = Inl e \<and> s' = s2"
proof -
  let ?s1 = "s\<lparr>pinfo := pi\<rparr>"
  note error = work_error_throws [of code h tvb tree data ?s1 e s2, simplified, OF run tvb]
  have entered: "in_error_pkt pi = in_error_pkt (pinfo s)"
      "current_proto pi = (case own of None \<Rightarrow> current_proto (pinfo s) | Some pr \<Rightarrow> p_short_name pr)"
      "can_desegment pi = can_desegment (pinfo s) - (if can_desegment (pinfo s) > 0 then 1 else 0)"
    by (simp_all add: pi enter_protocol_def pass_on_desegment_def add_layer_def Let_def split: option.split)
  have "same_ends pi pi' = same_ends (pinfo s) pi'" for pi' by (simp add: pi)
  then have ends: "same_ends (pinfo s) (restore_addresses pi pi')" for pi' by (metis restored_ends)
  have known: "known_protocols s2 = known_protocols s"
    using politeD(2) [OF polite_through_handle [OF code] run] by simp
  have own: "own_protocol q (s\<lparr>pinfo := pass_on_desegment (pinfo s)\<rparr>) =
      (Inr own, s\<lparr>pinfo := pass_on_desegment (pinfo s)\<rparr>)"
      "own_protocol q (s2\<lparr>pinfo := pi'\<rparr>) = (Inr own, s2\<lparr>pinfo := pi'\<rparr>)" for pi'
    by (rule own_protocol_known [OF q(2)]; simp add: known)+
  have enabled: "(case q of None \<Rightarrow> return True | Some p \<Rightarrow> protocol_enabled p) s = (Inr True, s)"
    using q(1) by (cases q) simp_all
  have step: "call_dissector_work code h tvb tree add data s =
    bindS (call_dissector_work_error code h tvb tree data) (\<lambda>len.
    bindS (own_protocol q) (\<lambda>own'.
    bindS (gets (tree_count tree)) (\<lambda>count.
    bindS (if own' \<noteq> None \<and> add \<and> (len = 0 \<or> tree \<noteq> None \<and> tree_count tree s = count)
           then set_pinfo (remove_layers (len = 0) (length (layers (pinfo s)))) else return ()) (\<lambda>_.
    bindS (set_pinfo (\<lambda>pi. pi\<lparr>current_proto := current_proto (pinfo s), can_desegment := can_desegment (pinfo s)\<rparr>))
      (\<lambda>_. return len))))) ?s1"
    using h room err enabled own(1) entered(1)
    by (simp add: call_dissector_work_def bindS_def get_handle_def asks_def at_def gets_def set_pinfo_def pi)
  have kept: "want_pdu_tracking (remove_layers r n pi') = want_pdu_tracking pi'" for r n pi'
    by (simp add: remove_layers_eq)
  show ?thesis
    unfolding step
    using error entered ends own(2)
    by (auto simp: bindS_def gets_def set_pinfo_def kept)
qed

lemma prefix_take: "prefix xs ys \<Longrightarrow> take (length xs) ys = xs"
  by (auto simp: prefix_def)

lemma remove_layers_fields [simp]:
  "layers (remove_layers r n pi) = take n (layers pi)"
  "curr_layer_num (remove_layers r n pi) = curr_layer_num pi - (if r then of_nat (length (layers pi) - n) else 0)"
  by (simp_all add: remove_layers_eq)

text \<open>
  C20. With dissectors that take away no layers of others, a call of a protocol of its own only adds layers,
  and when the packet was rejected the layers are what they were before; if the functions of the dissectors
  keep the number of the current layer in step with the layers, that number too is what it was.
\<close>

theorem call_dissector_work_layers:
  fixes s :: "('p, 'r, 'd, 'e, 'x) dissection"
  assumes code: "polite_code code"
    and h: "h < length (handle_mem (registry s))" "dh_protocol (handle_mem (registry s) ! h) = Some p"
    and p: "p < length (known_protocols s)" "\<not> proto_is_pino (known_protocols s ! p)"
    and run: "call_dissector_work code h tvb tree True data s = (Inr len, s')"
  shows "prefix (layers (pinfo s)) (layers (pinfo s')) \<and>
    (len = 0 \<longrightarrow> layers (pinfo s') = layers (pinfo s) \<and>
       (\<not> in_error_pkt (pinfo s) \<and>
        (\<forall>d tvb tree data data'. in_step (simple_fn code d tvb tree data) \<and> in_step (callback_fn code d tvb tree data data'))
        \<longrightarrow> curr_layer_num (pinfo s') = curr_layer_num (pinfo s)))"
proof -
  let ?id = "p_proto_id (known_protocols s ! p)"
  let ?s1 = "s\<lparr>pinfo := enter_protocol (Some (known_protocols s ! p)) True (pass_on_desegment (pinfo s))\<rparr>"
  have entered: "layers (pinfo ?s1) = layers (pinfo s) @ [?id]" "curr_layer_num (pinfo ?s1) = curr_layer_num (pinfo s) + 1"
    by (simp_all add: enter_protocol_def add_layer_def pass_on_desegment_def Let_def)
  show ?thesis
    using code h p run
  proof (cases rule: work_cases)
    case disabled
    then show ?thesis by simp
  next
    case (called s2)
    have polite: "polite (run_in code (in_error_pkt (pinfo s)) h tvb tree data)"
      unfolding run_in_def by (rule civil code)+
    obtain ys where ys: "layers (pinfo s2) = layers (pinfo s) @ ?id # ys"
      using politeD(3) [OF polite called(1)] entered(1) by (auto simp: prefix_def)
    have num: "curr_layer_num (pinfo s2) = curr_layer_num (pinfo s) + 1 + of_nat (length ys)"
      if "\<not> in_error_pkt (pinfo s)"
        "\<forall>d tvb tree data data'. in_step (simple_fn code d tvb tree data) \<and> in_step (callback_fn code d tvb tree data data')"
      using through_handle_in_step [of code h tvb tree data ?s1 len s2] called(1) that entered ys
      by (simp add: run_in_def algebra_simps)
    show ?thesis
      using called(2) ys num by (auto simp: algebra_simps)
  qed
qed

section \<open>Heuristic dissectors\<close>

text \<open>The entries of a list that decline one after the other: they are switched off or reject the packet.\<close>

inductive declines ::
    "(nat \<Rightarrow> ('s, gint option) action) \<Rightarrow> nat list \<Rightarrow> 's \<Rightarrow> 's \<Rightarrow> bool" for try_one where
  none_left: "declines try_one [] s s"
| switched_off: "try_one e s = (Inr None, s1) \<Longrightarrow> declines try_one es s1 s2 \<Longrightarrow> declines try_one (e # es) s s2"
| rejects: "try_one e s = (Inr (Some 0), s1) \<Longrightarrow> declines try_one es s1 s2 \<Longrightarrow> declines try_one (e # es) s s2"

inductive_cases declines_ConsE: "declines try_one (e # es) s s2"

lemma try_entries_returns:
  "try_entries try_one es s = (Inr r, s') \<Longrightarrow>
     (case r of
        None \<Rightarrow> declines try_one es s s'
      | Some e \<Rightarrow> \<exists>xs ys s1 len. es = xs @ e # ys \<and> declines try_one xs s s1 \<and>
                   try_one e s1 = (Inr (Some len), s') \<and> len \<noteq> 0)"
proof (induction es arbitrary: s)
  case (Cons e es)
  from Cons.prems obtain len s1 where len: "try_one e s = (Inr len, s1)"
      "(case len of Some l \<Rightarrow> if l \<noteq> 0 then return (Some e) else try_entries try_one es
        | None \<Rightarrow> try_entries try_one es) s1 = (Inr r, s')"
    by (auto elim!: bindS_InrE)
  show ?case
  proof (cases "\<exists>l. len = Some l \<and> l \<noteq> 0")
    case True
    then show ?thesis using len by (fastforce intro: declines.none_left)
  next
    case False
    then have declined: "declines try_one es' s1 t \<Longrightarrow> declines try_one (e # es') s t" for es' t
      using len(1) by (cases len) (auto intro: declines.intros)
    have "try_entries try_one es s1 = (Inr r, s')" using len(2) False by (auto split: option.splits)
    from Cons.IH [OF this] show ?thesis
      by (cases r) (auto intro: declined, metis append_Cons declined)
  qed
qed (auto intro: declines.none_left)

lemma try_entry_declines:
  assumes code: "polite_code code" and e: "e < length (heur_mem (registry s))" "heur_protocol (heur_mem (registry s) ! e) \<noteq> None"
    and run: "try_entry code d (length (layers (pinfo s))) count tvb tree data e s = (Inr r, s')" "r = None \<or> r = Some 0"
  shows "layers (pinfo s') = layers (pinfo s)"
proof -
  have pre: "prefix (layers (pinfo s)) (layers (pinfo t))"
    if "heur_fn code fn tvb tree data (t0\<lparr>pinfo := (enter_protocol own True pi)\<lparr>heur_list_name := n\<rparr>\<rparr>) = (rr, t)"
      "layers pi = layers (pinfo s)" for t0 own pi n fn rr t
    using politeD(3) [OF polite_codeD(3) [OF code] that(1)] that(2)
    by (auto simp: enter_protocol_def add_layer_def Let_def dest: append_prefixD split: option.splits)
  have own: "heur_protocol_of x t = (rr, t') \<Longrightarrow> t' = t" for x rr t t'
    by (auto simp: heur_protocol_of_def elim!: bindS_cases split: option.splits)
  have skip: "(case q of None \<Rightarrow> return False
      | Some p \<Rightarrow> bindS (protocol_enabled p) (\<lambda>enabled. return (\<not> enabled \<or> \<not> b))) t = (rr, t') \<Longrightarrow> t' = t" for q b rr t t'
    by (auto simp: protocol_enabled_def elim!: bindS_cases split: option.splits)
  show ?thesis
    using run e unfolding try_entry_def gets_def set_pinfo_def get_heur_def
    by (auto simp: at_def elim!: bindS_InrE split: if_splits dest!: own skip pre simp: prefix_take)
qed

lemma try_entry_keeps:
  assumes "polite_code code" "try_entry code d (length (layers (pinfo s))) count tvb tree data e s = (r, s')"
  shows "registry s' = registry s" "known_protocols s' = known_protocols s"
  using atopD(1,2) [OF atop_try_entry [OF assms(1)] assms(2)] by simp_all

lemma declines_keeps:
  assumes "declines (try_entry code d n count tvb tree data) es s s'"
    and code: "polite_code code" and n: "n = length (layers (pinfo s))"
    and own: "\<And>e. e \<in> set es \<Longrightarrow> e < length (heur_mem (registry s)) \<and> heur_protocol (heur_mem (registry s) ! e) \<noteq> None"
  shows "layers (pinfo s') = layers (pinfo s) \<and> registry s' = registry s"
  using assms(1) n own
proof (induction rule: declines.induct)
  case (switched_off e s s1 es s2)
  have "layers (pinfo s1) = layers (pinfo s)"
    by (rule try_entry_declines [OF code _ _ switched_off.hyps(1) [unfolded switched_off.prems(1)]])
      (use switched_off.prems(2) in simp_all)
  moreover have "registry s1 = registry s"
    by (rule try_entry_keeps(1) [OF code switched_off.hyps(1) [unfolded switched_off.prems(1)]])
  ultimately show ?case using switched_off.IH switched_off.prems by simp
next
  case (rejects e s s1 es s2)
  have "layers (pinfo s1) = layers (pinfo s)"
    by (rule try_entry_declines [OF code _ _ rejects.hyps(1) [unfolded rejects.prems(1)]])
      (use rejects.prems(2) in simp_all)
  moreover have "registry s1 = registry s"
    by (rule try_entry_keeps(1) [OF code rejects.hyps(1) [unfolded rejects.prems(1)]])
  ultimately show ?case using rejects.IH rejects.prems by simp
qed simp

text \<open>
  C21. dissector_try_heuristic gives the packet to the entries of the list in order until one accepts: those
  before the one it returns have declined, switched off or rejecting, and have left no layer behind, and if
  it returns none every entry has declined and the layers are as before. The name of the current protocol,
  the name of the list and can_desegment are restored.
\<close>

theorem dissector_try_heuristic_correct:
  fixes s :: "('p, 'r, 'd, 'e, 'x) dissection"
  defines "try_one \<equiv> \<lambda>code tvb tree data. try_entry code (can_desegment (pass_on_desegment (pinfo s)))
    (length (layers (pinfo s))) (tree_count tree s) tvb tree data"
  assumes code: "polite_code code" and l: "l < length (heur_list_mem (registry s))"
    and es: "hl_dissectors (heur_list_mem (registry s) ! l) = es"
    and own: "\<forall>e \<in> set es. e < length (heur_mem (registry s)) \<and> heur_protocol (heur_mem (registry s) ! e) \<noteq> None"
    and run: "dissector_try_heuristic code l tvb tree data s = (Inr r, s')"
  shows "current_proto (pinfo s') = current_proto (pinfo s) \<and> can_desegment (pinfo s') = can_desegment (pinfo s) \<and>
    heur_list_name (pinfo s') = heur_list_name (pinfo s) \<and>
    (let s1 = s\<lparr>pinfo := pass_on_desegment (pinfo s)\<rparr> in
      (case r of
         None \<Rightarrow> layers (pinfo s') = layers (pinfo s) \<and> (\<exists>s2. declines (try_one code tvb tree data) es s1 s2)
       | Some e \<Rightarrow> \<exists>xs ys s2 s3 len. es = xs @ e # ys \<and> declines (try_one code tvb tree data) xs s1 s2 \<and>
           layers (pinfo s2) = layers (pinfo s) \<and> try_one code tvb tree data e s2 = (Inr (Some len), s3) \<and> len \<noteq> 0))"
proof -
  let ?s1 = "s\<lparr>pinfo := pass_on_desegment (pinfo s)\<rparr>" and ?f = "try_one code tvb tree data"
  obtain s2 where s2: "try_entries ?f es ?s1 = (Inr r, s2)"
      "s' = s2\<lparr>pinfo := (pinfo s2)\<lparr>current_proto := current_proto (pinfo s), heur_list_name := heur_list_name (pinfo s),
                                   can_desegment := can_desegment (pinfo s)\<rparr>\<rparr>"
    using run l es by (auto simp: dissector_try_heuristic_def gets_def set_pinfo_def at_def try_one_def
        elim!: bindS_InrE split: if_splits)
  have same: "layers (pinfo ?s1) = layers (pinfo s)" by (simp add: pass_on_desegment_def)
  have kept: "layers (pinfo t) = layers (pinfo s)" if "declines ?f xs ?s1 t" "set xs \<subseteq> set es" for xs t
    using declines_keeps [OF that(1) [unfolded try_one_def] code] own that(2) same by auto
  show ?thesis
  proof (cases r)
    case None
    then show ?thesis using try_entries_returns [OF s2(1)] s2(2) kept by (auto simp: Let_def)
  next
    case (Some e)
    then obtain xs ys s3 len where "es = xs @ e # ys" "declines ?f xs ?s1 s3" "?f e s3 = (Inr (Some len), s2)" "len \<noteq> 0"
      using try_entries_returns [OF s2(1)] by auto
    moreover from this have "layers (pinfo s3) = layers (pinfo s)" by (intro kept) auto
    ultimately show ?thesis using Some s2(2) by (simp add: Let_def) blast
  qed
qed

end
