(* ===== verification/PacketCalls.thy ===== *)
theory PacketCalls
  imports PacketProps
begin

text \<open>
  The ways of calling a dissector in their surroundings: the entry of a table leads to the dissector that
  has been selected for it, what is rejected reaches the data dissector, so that every call comes back with
  a result, and the one way of calling a heuristic dissector that does not restore what it changes.
\<close>

section \<open>By a table\<close>

text \<open>
  C9. A table of numbers that was registered, added to, changed, reset and deleted from calls for every number
  the dissector that is selected for it, with the number as match_uint, which is restored afterwards; where
  nothing is selected it returns 0 and nothing happens.
\<close>

theorem dissector_try_uint_calls_selected:
  assumes "registry_ok P byname" "represents P R name t sel" "call_tables P name cs R = Inr R'"
    and "\<forall>c \<in> set cs. \<forall>h \<in> op_handles c. h < length (handle_mem R)" "registry s = R'"
  shows "(case selected (fold select_op cs sel) k of
      None \<Rightarrow> dissector_try_uint code t k tvb tree s = (Inr 0, s)
    | Some h \<Rightarrow>
        (case call_dissector_work code h tvb tree True None (s\<lparr>pinfo := (pinfo s)\<lparr>match_uint := k\<rparr>\<rparr>) of
           (Inl e, s') \<Rightarrow> dissector_try_uint code t k tvb tree s = (Inl e, s')
         | (Inr len, s') \<Rightarrow> dissector_try_uint code t k tvb tree s =
             (Inr len, s'\<lparr>pinfo := (pinfo s')\<lparr>match_uint := match_uint (pinfo s)\<rparr>\<rparr>)))"
proof -
  have rep: "represents P R' name t (fold select_op cs sel)"
    using call_tables_steps [OF assms(1,2,4)] assms(3) by auto
  have t: "t < length (table_mem R')" using rep by (simp add: represents_def)
  obtain entry where entry: "find_uint_dtbl_entry (table_mem R' ! t) k = Inr entry"
      "(case entry of None \<Rightarrow> None | Some e \<Rightarrow> current e) = selected (fold select_op cs sel) k"
    using represents_lookup(1) [OF rep, of k]
    by (auto simp: dissector_get_uint_handle_def errs split: option.splits)
  show ?thesis
    using entry t assms(5)
    by (cases "selected (fold select_op cs sel) k") (auto simp: dissector_try_uint_def dissector_try_uint_new_def get_table_def at_def gets_def set_pinfo_def
        on_current_def bindS_def split: option.splits prod.split sum.split)
qed

section \<open>Heuristic dissectors called directly\<close>

text \<open>
  call_heur_dissector_direct for an entry that is switched off hands the packet to the data dissector and
  returns at once: can_desegment, which it has decremented for the dissector, stays decremented for its caller.
\<close>

theorem call_heur_dissector_direct_disabled:
  fixes s :: "('p, 'r, 'd, 'e, 'x) dissection"
  assumes "e < length (heur_mem (registry s))" "\<not> heur_enabled (heur_mem (registry s) ! e)"
    and "call_heur_dissector_direct code (Some e) tvb tree data s = (Inr u, s')"
  shows "can_desegment (pinfo s') = can_desegment (pinfo s) - (if can_desegment (pinfo s) > 0 then 1 else 0)"
proof -
  have asserted: "assert_data_protocol t = (Inr x, t') \<Longrightarrow> t' = t" for t t' :: "('p, 'r, 'd, 'e, 'x) dissection" and x
    by (auto simp: assert_data_protocol_def pinfo_acts elim!: bindS_InrE split: if_splits)
  obtain x where "call_data_dissector code tvb tree (s\<lparr>pinfo := pass_on_desegment (pinfo s)\<rparr>) = (Inr x, s')"
    using assms
    by (auto simp: call_heur_dissector_direct_def gets_def set_pinfo_def get_heur_def at_def elim!: bindS_InrE
        dest!: asserted)
  then show ?thesis
    using work_returns [of code "data_handle s" tvb tree True None "s\<lparr>pinfo := pass_on_desegment (pinfo s)\<rparr>" x s']
    by (simp add: call_data_dissector_def gets_def pass_on_desegment_def)
qed

section \<open>Every call comes back\<close>

text \<open>
  In a state that is ready every handle is of a protocol for which it can be told whether it is enabled, and
  there is a data dissector. A steady action comes back from every such state, leaves one, and has left the
  layers as they were.
\<close>

definition ready :: "('p, 'r, 'd, 'e, 'x) dissection \<Rightarrow> bool" where
  "ready s =
     ((\<forall>h < length (handle_mem (registry s)). \<forall>p. dh_protocol (handle_mem (registry s) ! h) = Some p \<longrightarrow>
         p < length (known_protocols s) \<and>
         (\<exists>b. proto_is_protocol_enabled (registrar (tree_state s)) (known_protocols s) (Some p) = Some (Inr b))) \<and>
      data_handle s < length (handle_mem (registry s)) \<and>
      dh_protocol (handle_mem (registry s) ! data_handle s) \<noteq> None)"

definition steady :: "('p, 'r, 'd, 'e, 'x, 'a) dissecting \<Rightarrow> bool" where
  "steady m =
     (\<forall>s. ready s \<longrightarrow>
        (\<exists>r s'. m s = (Inr r, s') \<and> ready s' \<and> registry s' = registry s \<and>
          known_protocols s' = known_protocols s \<and> layers (pinfo s') = layers (pinfo s)))"

definition steady_code :: "('p, 'r, 'd, 'e, 'x) dissector_code \<Rightarrow> bool" where
  "steady_code code =
     (\<forall>d tvb tree data data'. steady (simple_fn code d tvb tree data) \<and> steady (callback_fn code d tvb tree data data'))"

lemma ready_pinfo [simp]: "ready (s\<lparr>pinfo := pi\<rparr>) = ready s"
  by (simp add: ready_def)

lemma ready_own:
  assumes "ready s" "h < length (handle_mem (registry s))"
  shows "\<exists>own. own_protocol (dh_protocol (handle_mem (registry s) ! h)) s = (Inr own, s)"
  using assms
  by (cases "dh_protocol (handle_mem (registry s) ! h)")
    (auto simp: own_protocol_def ready_def protocol_at_def)

lemma steadyE:
  assumes "steady m" "ready s"
  obtains r s' where "m s = (Inr r, s')" "ready s'" "registry s' = registry s"
    "known_protocols s' = known_protocols s" "layers (pinfo s') = layers (pinfo s)"
  using assms unfolding steady_def by blast

lemma through_handle_steady:
  fixes s :: "('p, 'r, 'd, 'e, 'x) dissection"
  assumes code: "steady_code code" and s: "ready s" "h < length (handle_mem (registry s))"
  obtains len s' where "call_dissector_through_handle code h tvb tree data s = (Inr len, s')" "ready s'"
    "registry s' = registry s"
    "known_protocols s' = known_protocols s" "layers (pinfo s') = layers (pinfo s)"
proof -
  let ?h = "handle_mem (registry s) ! h"
  obtain own where own: "own_protocol (dh_protocol ?h) s = (Inr own, s)" using ready_own [OF s] by blast
  let ?s1 = "s\<lparr>pinfo := enter_protocol own False (pinfo s)\<rparr>"
  have enter: "layers (enter_protocol own False (pinfo s)) = layers (pinfo s)"
    by (simp add: enter_protocol_def split: option.split)
  let ?m = "case dissector_type ?h of DISSECTOR_TYPE_SIMPLE \<Rightarrow> simple_fn code (dissector_func ?h) tvb tree data
      | DISSECTOR_TYPE_CALLBACK \<Rightarrow> callback_fn code (dissector_func ?h) tvb tree data (dissector_data ?h)"
  have m: "steady ?m" using code by (auto simp: steady_code_def split: dissector_e.split)
  have s1: "ready ?s1" using s(1) by simp
  obtain len s2 where s2: "?m ?s1 = (Inr len, s2)" "ready s2" "registry s2 = registry ?s1"
      "known_protocols s2 = known_protocols ?s1"
      "layers (pinfo s2) = layers (pinfo ?s1)"
    by (rule steadyE [OF m s1])
  show ?thesis
    by (rule that [of len "s2\<lparr>pinfo := (pinfo s2)\<lparr>current_proto := current_proto (pinfo s)\<rparr>\<rparr>"])
      (use own s2 s(2) enter in \<open>simp_all add: call_dissector_through_handle_def get_handle_def gets_def set_pinfo_def at_def\<close>)
qed

lemma work_error_steady:
  fixes s :: "('p, 'r, 'd, 'e, 'x) dissection"
  assumes code: "steady_code code" and s: "ready s" "h < length (handle_mem (registry s))"
  obtains len s' where "call_dissector_work_error code h tvb tree data s = (Inr len, s')" "ready s'"
    "registry s' = registry s"
    "known_protocols s' = known_protocols s" "layers (pinfo s') = layers (pinfo s)"
proof -
  let ?s1 = "s\<lparr>pinfo := (pinfo s)\<lparr>cinfo := col_set_writable False (cinfo (pinfo s))\<rparr>\<rparr>"
  have s1: "ready ?s1" "h < length (handle_mem (registry ?s1))" using s by simp_all
  obtain len s2 where s2: "call_dissector_through_handle code h tvb tree data ?s1 = (Inr len, s2)" "ready s2"
      "registry s2 = registry ?s1" "known_protocols s2 = known_protocols ?s1" "layers (pinfo s2) = layers (pinfo ?s1)"
    by (rule through_handle_steady [OF code s1])
  show ?thesis
    by (rule that [of len "s2\<lparr>pinfo := (restore_addresses (pinfo s) (pinfo s2))\<lparr>want_pdu_tracking := 0\<rparr>\<rparr>"])
      (use s2 in \<open>simp_all add: call_dissector_work_error_def gets_def set_pinfo_def catchS_def restore_addresses_def\<close>)
qed

lemma own_protocol_same:
  assumes "own_protocol q t = (Inr own, t)" "known_protocols t' = known_protocols t"
  shows "own_protocol q t' = (Inr own, t')"
proof (cases q)
  case (Some p)
  then show ?thesis
    using assms by (cases "protocol_at (known_protocols t) p") (simp_all add: own_protocol_def)
qed (use assms in \<open>simp add: own_protocol_def\<close>)

lemma work_steady:
  fixes s :: "('p, 'r, 'd, 'e, 'x) dissection"
  assumes code: "steady_code code" and s: "ready s" "h < length (handle_mem (registry s))"
    and depth: "length (layers (pinfo s)) < PINFO_LAYER_MAX_RECURSION_DEPTH"
  obtains len s' where "call_dissector_work code h tvb tree True data s = (Inr len, s')" "ready s'"
    "registry s' = registry s" "len = 0 \<longrightarrow> layers (pinfo s') = layers (pinfo s)"
proof -
  let ?h = "handle_mem (registry s) ! h"
  let ?s0 = "s\<lparr>pinfo := pass_on_desegment (pinfo s)\<rparr>"
  have s0: "ready ?s0" "h < length (handle_mem (registry ?s0))" using s by simp_all
  obtain own where own: "own_protocol (dh_protocol ?h) ?s0 = (Inr own, ?s0)" using ready_own [OF s0] by auto
  have "\<exists>b. (case dh_protocol ?h of None \<Rightarrow> return True | Some p \<Rightarrow> protocol_enabled p) s = (Inr b, s)"
  proof (cases "dh_protocol ?h")
    case (Some p)
    then obtain b where "proto_is_protocol_enabled (registrar (tree_state s)) (known_protocols s) (Some p) = Some (Inr b)"
      using s by (auto simp: ready_def)
    then show ?thesis using Some by (simp add: protocol_enabled_def)
  qed auto
  then obtain b where enabled: "(case dh_protocol ?h of None \<Rightarrow> return True | Some p \<Rightarrow> protocol_enabled p) s = (Inr b, s)"
    by blast
  let ?s1 = "s\<lparr>pinfo := enter_protocol own True (pass_on_desegment (pinfo s))\<rparr>"
  have s1: "ready ?s1" "h < length (handle_mem (registry ?s1))" using s by simp_all
  obtain len s2 where s2: "run_in code (in_error_pkt (pinfo s)) h tvb tree data ?s1 = (Inr len, s2)" "ready s2"
      "registry s2 = registry ?s1" "known_protocols s2 = known_protocols ?s1" "layers (pinfo s2) = layers (pinfo ?s1)"
    using work_error_steady [OF code s1, of tvb tree data] through_handle_steady [OF code s1, of tvb tree data]
    by (metis run_in_def)
  have entered: "layers (pinfo ?s1) = layers (pinfo s) @ (case own of None \<Rightarrow> [] | Some pr \<Rightarrow> [p_proto_id pr])"
    by (auto simp: enter_protocol_def add_layer_def pass_on_desegment_def Let_def split: option.split)
  show ?thesis
  proof (cases b)
    case False
    show ?thesis
      by (rule that [of 0 s]) (use False s enabled in \<open>simp_all add: call_dissector_work_def get_handle_def at_def\<close>)
  next
    case True
    have own': "own_protocol (dh_protocol ?h) s2 = (Inr own, s2)"
      by (rule own_protocol_same [OF own]) (simp add: s2(4))
    let ?undo = "own \<noteq> None \<and> (len = 0 \<or> tree \<noteq> None \<and> tree_count tree s = tree_count tree s2)"
    let ?pi = "if ?undo then remove_layers (len = 0) (length (layers (pinfo s))) (pinfo s2) else pinfo s2"
    let ?s' = "s2\<lparr>pinfo := ?pi\<lparr>current_proto := current_proto (pinfo s), can_desegment := can_desegment (pinfo s)\<rparr>\<rparr>"
    have run: "call_dissector_work code h tvb tree True data s = (Inr len, ?s')"
      using True s enabled own own' s2(1) depth
      by (cases tree) (simp_all add: call_dissector_work_def get_handle_def at_def gets_def set_pinfo_def run_in_def)
    have unlayered: "layers ?pi = layers (pinfo s)" if "len = 0"
      using that s2(5) entered by (cases own) simp_all
    show ?thesis
      by (rule that [OF run]) (use s2(2,3) unlayered in simp_all)
  qed
qed


section \<open>A small dissection\<close>

text \<open>
  Foo has a dissector, and so has somebody without a protocol; a list of heuristics has two entries for Foo,
  the first of which is switched off. The dissectors leave wrong values behind and return what they are told
  to return.
\<close>

definition careless_code :: "gint \<Rightarrow> (unit, unit, unit, unit, unit) dissector_code" where
  "careless_code len =
     (let f = bindS (set_pinfo (\<lambda>pi. pi\<lparr>current_proto := ''Oops''\<rparr>)) (\<lambda>_.
              bindS (set_pinfo (\<lambda>pi. pi\<lparr>can_desegment := 9\<rparr>)) (\<lambda>_. return len))
      in \<lparr>simple_fn = (\<lambda>d tvb tree data. f), callback_fn = (\<lambda>d tvb tree data data'. f),
          heur_fn = (\<lambda>d tvb tree data. f)\<rparr>)"

definition failing_code :: "exc \<Rightarrow> (unit, unit, unit, unit, unit) dissector_code" where
  "failing_code e =
     \<lparr>simple_fn = (\<lambda>d tvb tree data. throw e), callback_fn = (\<lambda>d tvb tree data data'. throw e),
      heur_fn = (\<lambda>d tvb tree data. throw e)\<rparr>"

definition no_address :: address where
  "no_address = \<lparr>addr_type = 0, addr_len = 0, addr_data = None, addr_priv = False\<rparr>"

definition sample_frame :: "bool \<Rightarrow> packet_info" where
  "sample_frame err =
     \<lparr>current_proto = ''Frame'', cinfo = Some True, frame_num = 1, data_src = [], dl_src = no_address,
      dl_dst = no_address, net_src = no_address, net_dst = no_address, src_addr = no_address, dst_addr = no_address,
      in_error_pkt = err, match_uint = 0, match_string = None, can_desegment = 2, saved_can_desegment = 0,
      want_pdu_tracking = 0, layers = [5], curr_layer_num = 1, dependent_frames = [], heur_list_name = None\<rparr>"

definition foo_entry :: "bool \<Rightarrow> unit heur_dtbl_entry" where
  "foo_entry on =
     \<lparr>heur_dissector = (), heur_protocol = Some 0, heur_list_of = ''udp'', heur_display_name = ''Foo over UDP'',
      heur_short_name = ''foo_udp'', heur_enabled = on\<rparr>"

definition sample_dissection :: "bool \<Rightarrow> dissector_table list \<Rightarrow> (unit, unit, unit, unit, unit) dissection" where
  "sample_dissection err ts =
     \<lparr>pinfo = sample_frame err, tree_state = proto_tree_create_root (fields_of sample_protocols) 1,
      known_protocols = protocol_mem sample_protocols,
      registry = (port_registry ts)
        \<lparr>handle_mem := [port_handle 0, port_handle 1, (port_handle 0)\<lparr>dh_protocol := None\<rparr>],
         heur_mem := [foo_entry False, foo_entry True],
         heur_list_mem := [\<lparr>hl_protocol = None, hl_dissectors = [0, 1]\<rparr>]\<rparr>,
      data_handle = 0, dissector_state = ()\<rparr>"

definition sample_buffer :: tvbuff where
  "sample_buffer = TvbReal (tvb_new\<lparr>real_data := Some [1, 2], caplen := 2, reported_length := 2, contained_length := 2,
     initialized := True\<rparr>)"

lemma foo_protocol:
  "0 < length (known_protocols (sample_dissection err ts))"
  "\<not> proto_is_pino (known_protocols (sample_dissection err ts) ! 0)"
  by (simp_all add: sample_dissection_def sample_protocols_def protocol_new_def proto_is_pino_def)

lemma foo_enabled:
  "proto_is_protocol_enabled (fields_of sample_protocols) (protocol_mem sample_protocols) (Some 0) = Some (Inr True)"
  "proto_is_protocol_enabled (fields_of sample_protocols) (protocol_mem sample_protocols) (Some 1) = Some (Inr True)"
proof -
  show foo: "proto_is_protocol_enabled (fields_of sample_protocols) (protocol_mem sample_protocols) (Some 0) = Some (Inr True)"
    by (subst proto_is_protocol_enabled.simps)
      (simp add: protocol_at_def sample_protocols_nth protocol_new_def proto_is_pino_def)
  have "find_protocol_by_id (fields_of sample_protocols) (parent_proto_id (protocol_mem sample_protocols ! 1)) = Inr (Some 0)"
    unfolding sample_protocols_nth(3) using sample_find(1) by (simp add: protocol_new_def)
  then show "proto_is_protocol_enabled (fields_of sample_protocols) (protocol_mem sample_protocols) (Some 1) = Some (Inr True)"
    using foo
    unfolding sample_protocols_nth(3)
    by (subst proto_is_protocol_enabled.simps)
      (simp add: protocol_at_def sample_protocols_nth(1) sample_protocols_nth(3) [simplified] proto_is_pino_def
        protocol_new_def)
qed

lemma dissection_fields [simp]:
  "pinfo (sample_dissection err ts) = sample_frame err"
  "registrar (tree_state (sample_dissection err ts)) = fields_of sample_protocols"
  "known_protocols (sample_dissection err ts) = protocol_mem sample_protocols"
  "handle_mem (registry (sample_dissection err ts)) =
     [port_handle 0, port_handle 1, (port_handle 0)\<lparr>dh_protocol := None\<rparr>]"
  "heur_mem (registry (sample_dissection err ts)) = [foo_entry False, foo_entry True]"
  "heur_list_mem (registry (sample_dissection err ts)) = [\<lparr>hl_protocol = None, hl_dissectors = [0, 1]\<rparr>]"
  "data_handle (sample_dissection err ts) = 0"
  by (simp_all add: sample_dissection_def proto_tree_create_root_def)

lemma sample_frame_fields [simp]:
  "in_error_pkt (sample_frame err) = err" "layers (sample_frame err) = [5]" "current_proto (sample_frame err) = ''Frame''"
  "can_desegment (sample_frame err) = 2" "curr_layer_num (sample_frame err) = 1"
  by (simp_all add: sample_frame_def)

lemma port_handle_protocol [simp]: "dh_protocol (port_handle p) = Some p"
  by (simp add: port_handle_def)

lemma sample_ready: "ready (sample_dissection err ts)"
  using foo_enabled by (auto simp: ready_def sample_protocols_nth less_Suc_eq numeral_3_eq_3)

lemma careless_polite: "polite_code (careless_code len)"
  by (auto simp: polite_code_def careless_code_def Let_def simp del: return_run intro!: civil)

lemma careless_steady: "steady_code (careless_code len)"
  by (simp add: steady_code_def careless_code_def Let_def steady_def set_pinfo_def)

lemma sample_call:
  assumes "h < 3"
  obtains len s' where "call_dissector_work (careless_code n) h sample_buffer None True None (sample_dissection err ts) = (Inr len, s')"
  by (rule work_steady [OF careless_steady [of n] sample_ready [of err ts], of h sample_buffer None None])
    (use assms in \<open>simp_all add: PINFO_LAYER_MAX_RECURSION_DEPTH_def\<close>)

theorem call_dissector_work_restores_witness:
  "\<exists>len s'. call_dissector_work (careless_code 1) 0 sample_buffer None True None (sample_dissection True []) = (Inr len, s') \<and>
     current_proto (pinfo s') = ''Frame'' \<and> can_desegment (pinfo s') = 2 \<and> same_ends (sample_frame True) (pinfo s')"
proof -
  obtain len s' where run: "call_dissector_work (careless_code 1) 0 sample_buffer None True None
      (sample_dissection True []) = (Inr len, s')"
    by (rule sample_call [of 0]) simp
  show ?thesis using call_dissector_work_restores [OF run] run by simp
qed

lemma failing_polite: "polite_code (failing_code e)"
  by (simp add: polite_code_def failing_code_def polite_basic)

lemma failing_through_handle:
  assumes "h < length (handle_mem (registry s))" "own_protocol (dh_protocol (handle_mem (registry s) ! h)) s = (Inr own, s)"
  shows "\<exists>s2. call_dissector_through_handle (failing_code e) h tvb tree data s = (Inl e, s2)"
proof -
  have handle: "get_handle h s = (Inr (handle_mem (registry s) ! h), s)"
    using assms(1) by (simp add: get_handle_def asks_def at_def)
  have fails: "(case ty of DISSECTOR_TYPE_SIMPLE \<Rightarrow> simple_fn (failing_code e) d tvb tree data
      | DISSECTOR_TYPE_CALLBACK \<Rightarrow> callback_fn (failing_code e) d tvb tree data data') s2 = (Inl e, s2)"
    for ty d data' s2
    by (cases ty) (simp_all add: failing_code_def throw_def)
  show ?thesis
    using handle assms(2) fails
    by (simp add: call_dissector_through_handle_def bindS_def gets_def asks_def set_pinfo_def modify_def)
qed

theorem call_dissector_work_error_packet_witness:
  "\<exists>s'. call_dissector_work (failing_code ContainedBoundsError) 0 sample_buffer None True None
      (sample_dissection True []) = (Inr 2, s') \<and>
     same_ends (sample_frame True) (pinfo s') \<and> current_proto (pinfo s') = ''Frame'' \<and> can_desegment (pinfo s') = 2"
proof -
  let ?s = "sample_dissection True []" and ?e = ContainedBoundsError
  let ?foo = "protocol_new ''Foo Protocol'' ''Foo'' ''foo'' (-1)"
  let ?pi = "enter_protocol (Some ?foo) True (pass_on_desegment (pinfo ?s))"
  have own: "own_protocol (Some 0) ?s = (Inr (Some ?foo), ?s)"
    using own_protocol_Some [OF foo_protocol, of True "[]"] by (simp add: sample_protocols_nth)
  have on: "protocol_enabled (the (Some 0)) ?s = (Inr True, ?s)"
    using foo_enabled(1) by (simp add: protocol_enabled_def asks_def)
  let ?s1 = "?s\<lparr>pinfo := ?pi\<lparr>cinfo := col_set_writable False (cinfo ?pi)\<rparr>\<rparr>"
  have handle: "0 < length (handle_mem (registry ?s1))" "dh_protocol (handle_mem (registry ?s1) ! 0) = Some 0"
    by simp_all
  have "known_protocols ?s1 = known_protocols ?s" by simp
  from own_protocol_known [OF own this]
  obtain s2 where run: "call_dissector_through_handle (failing_code ?e) 0 sample_buffer None None ?s1 = (Inl ?e, s2)"
    using failing_through_handle [OF handle(1)] unfolding handle(2) by blast
  have "initialized (hdr sample_buffer)" "caplen (hdr sample_buffer) = 2"
    by (simp_all add: sample_buffer_def)
  then show ?thesis
    using call_dissector_work_error_packet [OF _ failing_polite _ _ _ on own _ refl run]
    by (auto simp: PINFO_LAYER_MAX_RECURSION_DEPTH_def split: prod.splits)
qed

theorem call_dissector_work_layers_witness:
  "\<exists>len s'. call_dissector_work (careless_code 0) 0 sample_buffer None True None (sample_dissection False []) = (Inr len, s') \<and>
     prefix [5] (layers (pinfo s'))"
proof -
  obtain len s' where run: "call_dissector_work (careless_code 0) 0 sample_buffer None True None
      (sample_dissection False []) = (Inr len, s')"
    by (rule sample_call [of 0]) simp
  have "prefix (layers (pinfo (sample_dissection False []))) (layers (pinfo s'))"
    using call_dissector_work_layers [OF careless_polite _ _ foo_protocol run] by simp
  then show ?thesis using run by simp
qed

lemma careless_heur:
  "heur_fn (careless_code len) d tvb tree data s =
     (Inr len, s\<lparr>pinfo := (pinfo s)\<lparr>current_proto := ''Oops'', can_desegment := 9\<rparr>\<rparr>)"
  by (simp add: careless_code_def Let_def set_pinfo_def)

lemma sample_entries:
  assumes "registry t = registry (sample_dissection err ts)" "known_protocols t = protocol_mem sample_protocols"
    "registrar (tree_state t) = fields_of sample_protocols"
  shows "try_entry (careless_code 1) d n count tvb None data 0 t = (Inr None, t\<lparr>pinfo := (pinfo t)\<lparr>can_desegment := d\<rparr>\<rparr>)"
    "\<exists>t'. try_entry (careless_code 1) d n count tvb None data 1 t = (Inr (Some 1), t')"
  using assms foo_enabled(1) foo_protocol(1) [of err ts]
  by (simp_all add: try_entry_def get_heur_def at_def gets_def set_pinfo_def protocol_enabled_def foo_entry_def
      heur_protocol_of_def protocol_at_def careless_heur bindS_def)

theorem dissector_try_heuristic_correct_witness:
  "\<exists>s'. dissector_try_heuristic (careless_code 1) 0 sample_buffer None None (sample_dissection False []) = (Inr (Some 1), s') \<and>
     can_desegment (pinfo s') = 2"
proof -
  let ?s = "sample_dissection False []"
  let ?t = "?s\<lparr>pinfo := (pass_on_desegment (pinfo ?s))
    \<lparr>can_desegment := can_desegment (pass_on_desegment (pinfo ?s))\<rparr>\<rparr>"
  obtain t' where t': "try_entry (careless_code 1) (can_desegment (pass_on_desegment (pinfo ?s))) 1
      (tree_count None ?s) sample_buffer None None 1 ?t = (Inr (Some 1), t')"
    using sample_entries(2) [of ?t False "[]"] by fastforce
  obtain s' where run: "dissector_try_heuristic (careless_code 1) 0 sample_buffer None None ?s = (Inr (Some 1), s')"
    using t' sample_entries(1) [of "?s\<lparr>pinfo := pass_on_desegment (pinfo ?s)\<rparr>" False "[]"]
    by (simp add: dissector_try_heuristic_def gets_def set_pinfo_def at_def PINFO_LAYER_MAX_RECURSION_DEPTH_def)
  have "can_desegment (pinfo s') = can_desegment (pinfo (sample_dissection False []))"
    using dissector_try_heuristic_correct [OF careless_polite _ _ _ run] by (simp add: foo_entry_def)
  then show ?thesis using run by simp
qed

theorem dissector_try_uint_calls_selected_witness:
  "\<exists>R'. call_tables sample_protocols ''sample.port'' [ADD 7 0, CHANGE 8 (Some 1), RESET 8]
          (port_registry [port_table FT_UINT32 [] []]) = Inr R' \<and>
        dissector_try_uint (careless_code 1) 0 8 sample_buffer None ((sample_dissection False [])\<lparr>registry := R'\<rparr>) =
          (Inr 0, (sample_dissection False [])\<lparr>registry := R'\<rparr>)"
proof -
  let ?R = "port_registry [port_table FT_UINT32 [] []]"
  let ?cs = "[ADD 7 0, CHANGE 8 (Some 1), RESET 8]"
  have rep: "represents sample_protocols ?R ''sample.port'' 0 nothing_selected"
    using port_registry_handles
    by (simp add: represents_def port_registry_table dissector_table_ok_def sample_protocols_nth uint_entry_def
        entry_for_def nothing_selected_def fun_eq_iff)
  have hs: "\<forall>c \<in> set ?cs. \<forall>h \<in> op_handles c. h < length (handle_mem ?R)" using port_registry_handles by simp
  obtain R' where R': "call_tables sample_protocols ''sample.port'' ?cs ?R = Inr R'"
    using call_tables_steps [OF sample_protocols_ok rep hs] by blast
  show ?thesis
    using dissector_try_uint_calls_selected [OF sample_protocols_ok rep R' hs,
        where s = "(sample_dissection False [])\<lparr>registry := R'\<rparr>" and k = 8 and code = "careless_code 1"
          and tvb = sample_buffer and tree = None] R'
    by (simp add: selected_def nothing_selected_def)
qed

theorem call_heur_dissector_direct_disabled_witness:
  "\<exists>s'. call_heur_dissector_direct (careless_code 1) (Some 0) sample_buffer None None (sample_dissection False []) =
          (Inr (), s') \<and> can_desegment (pinfo s') = 1"
proof -
  let ?s = "sample_dissection False []"
  have r: "ready (?s\<lparr>pinfo := pass_on_desegment (pinfo ?s)\<rparr>)" using sample_ready by simp
  obtain len s' where run: "call_dissector_work (careless_code 1) 0 sample_buffer None True None
      (?s\<lparr>pinfo := pass_on_desegment (pinfo ?s)\<rparr>) = (Inr len, s')"
    by (rule work_steady [OF careless_steady [of 1] r, of 0 sample_buffer None None])
      (simp_all add: PINFO_LAYER_MAX_RECURSION_DEPTH_def pass_on_desegment_def)
  then have "call_heur_dissector_direct (careless_code 1) (Some 0) sample_buffer None None ?s = (Inr (), s')"
    by (simp add: call_heur_dissector_direct_def gets_def set_pinfo_def get_heur_def at_def foo_entry_def
        assert_data_protocol_def get_handle_def call_data_dissector_def)
  moreover from call_heur_dissector_direct_disabled [OF _ _ this] have "can_desegment (pinfo s') = 1"
    by (simp add: foo_entry_def)
  ultimately show ?thesis by blast
qed


end
