(* ===== verification/WmemArray.thy ===== *)
theory WmemArray
  imports Prelude
begin

text \<open>
  The growable arrays of epan/wmem/wmem_array.c. The block an array has allocated is a list with one
  entry for each byte, \<open>None\<close> while nothing has been written there; \<open>gsize\<close> has 32 bits on wasm32. The
  refinement lemmas show that an array is the sequence of the bytes that were appended to it.
\<close>

section \<open>The code\<close>

type_synonym block = "guint8 option list"

record wmem_array =
  buf :: block
  elem_size :: guint
  elem_count :: guint
  alloc_count :: guint
  null_terminated :: bool

text \<open>A new block and one that is given another size: the bytes past the old size hold nothing.\<close>

definition wmem_alloc_block :: "guint \<Rightarrow> block" where
  "wmem_alloc_block n = replicate (unat n) None"

definition wmem_realloc_block :: "block \<Rightarrow> guint \<Rightarrow> block" where
  "wmem_realloc_block b n = take (unat n) b @ replicate (unat n - length b) None"

text \<open>\<open>memcpy\<close> and \<open>memset\<close> into the block and \<open>memcpy\<close> out of it; past its last byte they are undefined.\<close>

definition store_bytes :: "nat \<Rightarrow> guint8 list \<Rightarrow> block \<Rightarrow> block res" where
  "store_bytes at bytes b =
     (if at + length bytes \<le> length b
      then Inr (take at b @ map Some bytes @ drop (at + length bytes) b) else Inl Fault)"

definition load_bytes :: "nat \<Rightarrow> nat \<Rightarrow> block \<Rightarrow> block res" where
  "load_bytes at n b = (if at + n \<le> length b then Inr (take n (drop at b)) else Inl Fault)"

definition wmem_array_sized_new :: "guint \<Rightarrow> guint \<Rightarrow> wmem_array" where
  "wmem_array_sized_new n count =
     (let count' = (if count \<noteq> 0 then count else 1)
      in \<lparr>buf = wmem_alloc_block (n * count'), elem_size = n, elem_count = 0,
          alloc_count = count', null_terminated = False\<rparr>)"

definition wmem_array_new :: "guint \<Rightarrow> wmem_array" where
  "wmem_array_new n = wmem_array_sized_new n 1"

text \<open>
  \<open>while (new_alloc_count < new_count) new_alloc_count *= 2;\<close> the product wraps, and once it is 0 the
  loop runs forever.
\<close>

partial_function (option) grown_count :: "guint \<Rightarrow> guint \<Rightarrow> guint option" where
  "grown_count new_alloc_count new_count =
     (if new_alloc_count < new_count then grown_count (new_alloc_count * 2) new_count
      else Some new_alloc_count)"

declare grown_count.simps [code]

definition wmem_array_grow :: "guint \<Rightarrow> wmem_array \<Rightarrow> wmem_array res" where
  "wmem_array_grow to_add a =
     (case grown_count (alloc_count a) (elem_count a + to_add) of
        None \<Rightarrow> Inl Fault
      | Some new_alloc_count \<Rightarrow>
          if new_alloc_count = alloc_count a then Inr a
          else Inr (a\<lparr>buf := wmem_realloc_block (buf a) (new_alloc_count * elem_size a),
                      alloc_count := new_alloc_count\<rparr>))"

definition wmem_array_write_null_terminator :: "wmem_array \<Rightarrow> wmem_array res" where
  "wmem_array_write_null_terminator a =
     (if null_terminated a then
        bindE (wmem_array_grow 1 a) (\<lambda>a.
        bindE (store_bytes (unat (elem_count a * elem_size a)) (replicate (unat (elem_size a)) 0) (buf a))
          (\<lambda>b. Inr (a\<lparr>buf := b\<rparr>)))
      else Inr a)"

definition wmem_array_set_null_terminator :: "wmem_array \<Rightarrow> wmem_array res" where
  "wmem_array_set_null_terminator a = wmem_array_write_null_terminator (a\<lparr>null_terminated := True\<rparr>)"

definition wmem_array_bzero :: "wmem_array \<Rightarrow> wmem_array res" where
  "wmem_array_bzero a =
     bindE (store_bytes 0 (replicate (unat (elem_size a * elem_count a)) 0) (buf a))
       (\<lambda>b. Inr (a\<lparr>buf := b\<rparr>))"

text \<open>The argument \<open>in\<close> is the bytes that \<open>memcpy\<close> reads there, \<open>count * elem_size\<close> of them.\<close>

definition wmem_array_append :: "guint8 list \<Rightarrow> guint \<Rightarrow> wmem_array \<Rightarrow> wmem_array res" where
  "wmem_array_append input count a =
     bindE (wmem_array_grow count a) (\<lambda>a.
     if length input < unat (count * elem_size a) then Inl Fault
     else
       bindE (store_bytes (unat (elem_count a * elem_size a)) (take (unat (count * elem_size a)) input) (buf a))
         (\<lambda>b. wmem_array_write_null_terminator (a\<lparr>buf := b, elem_count := elem_count a + count\<rparr>)))"

definition wmem_array_append_one :: "guint8 list \<Rightarrow> wmem_array \<Rightarrow> wmem_array res" where
  "wmem_array_append_one val = wmem_array_append val 1"

text \<open>The pointer \<open>wmem_array_index\<close> returns is the place in the block it points at.\<close>

definition wmem_array_index :: "wmem_array \<Rightarrow> guint \<Rightarrow> nat res" where
  "wmem_array_index a array_index =
     (if array_index < elem_count a then Inr (unat (array_index * elem_size a)) else Inl Fault)"

text \<open>\<open>None\<close> is the result -1, which leaves \<open>val\<close> alone.\<close>

definition wmem_array_try_index :: "wmem_array \<Rightarrow> guint \<Rightarrow> block option res" where
  "wmem_array_try_index a array_index =
     (if elem_count a \<le> array_index then Inr None
      else bindE (load_bytes (unat (array_index * elem_size a)) (unat (elem_size a)) (buf a)) (\<lambda>v. Inr (Some v)))"

definition wmem_array_get_raw :: "wmem_array \<Rightarrow> block" where
  "wmem_array_get_raw a = buf a"

definition wmem_array_get_count :: "wmem_array \<Rightarrow> guint" where
  "wmem_array_get_count a = elem_count a"

section \<open>The sequence an array stands for\<close>

definition contents :: "wmem_array \<Rightarrow> block" where
  "contents a = take (unat (elem_count a) * unat (elem_size a)) (buf a)"

text \<open>
  The invariant: the block is as large as the counts say, without a wrap, there is room for \<open>r\<close> more
  elements (one if the array keeps a terminator), and every byte of an element has been written.
\<close>

definition array_room :: "nat \<Rightarrow> wmem_array \<Rightarrow> bool" where
  "array_room r a \<longleftrightarrow>
     0 < alloc_count a \<and> 0 < elem_size a \<and>
     unat (alloc_count a) * unat (elem_size a) < 2 ^ 32 \<and>
     length (buf a) = unat (alloc_count a) * unat (elem_size a) \<and>
     unat (elem_count a) + r \<le> unat (alloc_count a) \<and>
     None \<notin> set (contents a)"

definition array_wf :: "wmem_array \<Rightarrow> bool" where
  "array_wf a \<longleftrightarrow> array_room (if null_terminated a then 1 else 0) a"

text \<open>With \<open>n\<close> more elements the array stays below the size at which the code's arithmetic wraps.\<close>

definition array_fits :: "nat \<Rightarrow> wmem_array \<Rightarrow> bool" where
  "array_fits n a \<longleftrightarrow> (unat (elem_count a) + n) * unat (elem_size a) \<le> 2 ^ 31"

lemma length_contents: "array_room r a \<Longrightarrow> length (contents a) = unat (elem_count a) * unat (elem_size a)"
  by (simp add: array_room_def contents_def)

lemma array_room_le: "array_room r a \<Longrightarrow> r' \<le> r \<Longrightarrow> array_room r' a"
  by (simp add: array_room_def)

lemma array_fits_count:
  assumes "array_room r a" "array_fits n a"
  shows "unat (elem_count a) + n \<le> 2 ^ 31"
proof -
  have "unat (elem_size a) \<noteq> 0" using assms(1) by (auto simp: array_room_def word_less_nat_alt)
  then have "1 \<le> unat (elem_size a)" by simp
  then have "(unat (elem_count a) + n) * 1 \<le> (unat (elem_count a) + n) * unat (elem_size a)"
    by (rule mult_le_mono2)
  from order_trans [OF this assms(2) [unfolded array_fits_def]] show ?thesis
    by (simp only: mult_1_right)
qed

text \<open>The offset of an element in the block is computed without a wrap.\<close>

lemma unat_elem_offset:
  assumes "array_room r a" "unat i \<le> unat (alloc_count a)"
  shows "unat (i * elem_size a) = unat i * unat (elem_size a)"
proof -
  have "unat i * unat (elem_size a) \<le> unat (alloc_count a) * unat (elem_size a)"
    using assms(2) by (rule mult_le_mono1)
  also have "\<dots> < 2 ^ 32" using assms(1) by (simp add: array_room_def)
  finally show ?thesis by (simp add: unat_word_ariths)
qed

section \<open>Growing\<close>

lemma grown_count_bound:
  assumes "0 < n" "unat m \<le> 2 ^ 31"
  shows "\<exists>n'. grown_count n m = Some n' \<and> m \<le> n' \<and> n \<le> n' \<and> (n' = n \<or> unat n' < 2 * unat m)"
  using assms(1)
proof (induction "unat m - unat n" arbitrary: n rule: less_induct)
  case less
  show ?case
  proof (cases "n < m")
    case True
    then have small: "unat n < unat m" by (simp add: word_less_nat_alt)
    with assms(2) have twice: "unat (n * 2) = 2 * unat n" by (simp add: unat_word_ariths)
    have "0 < unat n" using less.prems by (simp add: word_less_nat_alt)
    then have pos: "0 < n * 2" and dec: "unat m - unat (n * 2) < unat m - unat n"
      using small by (simp_all add: word_less_nat_alt twice)
    from less.hyps [OF dec pos] obtain n' where n': "grown_count (n * 2) m = Some n'"
      "m \<le> n'" "n * 2 \<le> n'" "n' = n * 2 \<or> unat n' < 2 * unat m" by blast
    have "n \<le> n'" using n'(3) by (simp add: word_le_nat_alt twice)
    moreover have "unat n' < 2 * unat m" using n'(4) twice small by auto
    ultimately show ?thesis using n'(1,2) True by (subst grown_count.simps) simp
  next
    case False
    then show ?thesis by (subst grown_count.simps) auto
  qed
qed

lemma grown_count_enough: "grown_count n m = Some n' \<Longrightarrow> m \<le> n' \<and> (\<exists>k. n' = n * 2 ^ k)"
proof (rule grown_count.raw_induct [where P = "\<lambda>n m r. m \<le> r \<and> (\<exists>k. r = n * 2 ^ k)", rotated])
  show "grown_count n m = Some n' \<Longrightarrow> grown_count n m = Some n'" .
next
  fix grown :: "guint \<Rightarrow> guint \<Rightarrow> guint option" and n m r :: guint
  assume IH: "\<And>n m r. grown n m = Some r \<Longrightarrow> m \<le> r \<and> (\<exists>k. r = n * 2 ^ k)"
    and r: "(if n < m then grown (n * 2) m else Some n) = Some r"
  show "m \<le> r \<and> (\<exists>k. r = n * 2 ^ k)"
  proof (cases "n < m")
    case True
    with r IH [of "n * 2" m r] obtain k where k: "m \<le> r" "r = n * 2 * 2 ^ k" by auto
    from k(2) have "r = n * 2 ^ Suc k" by simp
    with k(1) show ?thesis by blast
  next
    case False
    with r have "m \<le> r" "r = n * 2 ^ 0" by simp_all
    then show ?thesis by blast
  qed
qed

lemma top_bit_shifted: "(0x80000000 :: guint) * 2 ^ k \<le> 0x80000000"
proof (cases k)
  case (Suc j)
  have "(0x80000000 :: guint) * 2 = 0" by (rule word_uint_eqI) (simp add: uint_word_ariths)
  then have "(0x80000000 :: guint) * 2 ^ k = 0 * 2 ^ j" by (simp only: Suc power_Suc mult.assoc [symmetric])
  then show ?thesis by simp
qed simp

lemma grown_count_never:
  assumes "0x80000000 < m"
  shows "grown_count 0x80000000 m = None"
proof (cases "grown_count 0x80000000 m")
  case (Some r)
  from grown_count_enough [OF Some] obtain k where "m \<le> r" "r = 0x80000000 * 2 ^ k" by blast
  then have "m \<le> 0x80000000" by (simp only: order_trans [OF _ top_bit_shifted])
  with assms show ?thesis by simp
qed


text \<open>Growing an array makes room and leaves the sequence alone.\<close>

lemma wmem_array_grow_Some:
  assumes "array_room r a" "grown_count (alloc_count a) (elem_count a + n) = Some n'"
    and m: "unat (elem_count a + n) = unat (elem_count a) + unat n"
    and bytes: "unat n' * unat (elem_size a) < 2 ^ 32"
  obtains a' where "wmem_array_grow n a = Inr a'" "array_room (unat n) a'" "array_room r a'"
    "contents a' = contents a" "elem_count a' = elem_count a" "elem_size a' = elem_size a"
    "null_terminated a' = null_terminated a"
proof -
  have "elem_count a + n \<le> n'" using grown_count_enough [OF assms(2)] by blast
  then have enough: "unat (elem_count a) + unat n \<le> unat n'" by (simp add: word_le_nat_alt m)
  show thesis
  proof (cases "n' = alloc_count a")
    case True
    with assms(1,2) enough show ?thesis
      by (intro that [of a]) (simp_all add: wmem_array_grow_def array_room_def)
  next
    case False
    let ?a = "a\<lparr>buf := wmem_realloc_block (buf a) (n' * elem_size a), alloc_count := n'\<rparr>"
    have "alloc_count a < elem_count a + n"
    proof (rule ccontr)
      assume "\<not> alloc_count a < elem_count a + n"
      with assms(2) False show False by (subst (asm) grown_count.simps) simp
    qed
    then have more: "unat (alloc_count a) \<le> unat n'" using enough by (simp add: word_less_nat_alt m)
    have prod: "unat (n' * elem_size a) = unat n' * unat (elem_size a)"
      using bytes by (simp add: unat_word_ariths)
    have old: "length (buf a) = unat (alloc_count a) * unat (elem_size a)"
      using assms(1) by (simp add: array_room_def)
    have le1: "unat (alloc_count a) * unat (elem_size a) \<le> unat n' * unat (elem_size a)"
      using more by (rule mult_le_mono1)
    have "unat (elem_count a) \<le> unat (alloc_count a)" using assms(1) by (simp add: array_room_def)
    then have le2: "unat (elem_count a) * unat (elem_size a) \<le> length (buf a)"
      unfolding old by (rule mult_le_mono1)
    have len: "length (buf ?a) = unat n' * unat (elem_size a)"
      using le1 by (simp add: wmem_realloc_block_def prod old)
    have same: "contents ?a = contents a"
      using le1 le2 by (simp add: contents_def wmem_realloc_block_def prod old min_absorb1)
    have "0 < unat (alloc_count a)" using assms(1) by (simp add: array_room_def word_less_nat_alt)
    with more have "0 < n'" by (simp add: word_less_nat_alt)
    then have room: "array_room (unat n) ?a" "array_room r ?a"
      using assms(1) more enough bytes len same by (auto simp: array_room_def)
    show ?thesis
      by (rule that [of ?a]) (use False assms(2) room same in \<open>simp_all add: wmem_array_grow_def\<close>)
  qed
qed

lemma wmem_array_grow_room:
  assumes "array_room r a" "array_fits (unat n) a"
  obtains a' where "wmem_array_grow n a = Inr a'" "array_room (unat n) a'" "array_room r a'"
    "contents a' = contents a" "elem_count a' = elem_count a" "elem_size a' = elem_size a"
    "null_terminated a' = null_terminated a"
proof -
  let ?m = "elem_count a + n"
  have m: "unat ?m = unat (elem_count a) + unat n" and le: "unat ?m \<le> 2 ^ 31"
    using array_fits_count [OF assms] by (simp_all add: unat_word_ariths)
  from assms(1) have pos: "0 < alloc_count a" by (simp add: array_room_def)
  from grown_count_bound [OF pos le] obtain n' where n': "grown_count (alloc_count a) ?m = Some n'"
    "n' = alloc_count a \<or> unat n' < 2 * unat ?m" by blast
  have "unat n' * unat (elem_size a) < 2 ^ 32"
  proof (cases "n' = alloc_count a")
    case True
    with assms(1) show ?thesis by (simp add: array_room_def)
  next
    case False
    have "0 < unat (elem_size a)" using assms(1) by (simp add: array_room_def word_less_nat_alt)
    moreover have "unat n' < 2 * unat ?m" using n'(2) False by blast
    ultimately have "unat n' * unat (elem_size a) < 2 * unat ?m * unat (elem_size a)"
      by (intro mult_strict_right_mono)
    also have "\<dots> = 2 * ((unat (elem_count a) + unat n) * unat (elem_size a))" by (simp add: m)
    also have "\<dots> \<le> 2 * 2 ^ 31" using assms(2) unfolding array_fits_def by (rule mult_le_mono2)
    finally show ?thesis by simp
  qed
  from wmem_array_grow_Some [OF assms(1) n'(1) m this] show thesis using that by blast
qed

section \<open>Appending\<close>

lemma store_bytes_prefix:
  assumes "store_bytes at bytes b = Inr b'"
  shows "length b' = length b" "take at b' = take at b"
    "take (at + length bytes) b' = take at b @ map Some bytes"
proof -
  have at: "at + length bytes \<le> length b" and b': "b' = take at b @ map Some bytes @ drop (at + length bytes) b"
    using assms by (simp_all add: store_bytes_def split: if_splits)
  show "length b' = length b" "take at b' = take at b"
    "take (at + length bytes) b' = take at b @ map Some bytes"
    using at by (simp_all add: b' min_absorb1)
qed

text \<open>Writing the elements past the last one, where there is room for them.\<close>

lemma store_at_count:
  assumes "array_room (unat n) a" "length bytes = unat n * unat (elem_size a)"
  obtains b where "store_bytes (unat (elem_count a * elem_size a)) bytes (buf a) = Inr b"
    "array_room 0 (a\<lparr>buf := b, elem_count := elem_count a + n\<rparr>)"
    "contents (a\<lparr>buf := b, elem_count := elem_count a + n\<rparr>) = contents a @ map Some bytes"
    "array_room (unat n) (a\<lparr>buf := b\<rparr>)" "contents (a\<lparr>buf := b\<rparr>) = contents a"
proof -
  let ?at = "unat (elem_count a) * unat (elem_size a)"
  from assms(1) have count: "unat (elem_count a) + unat n \<le> unat (alloc_count a)"
    and len: "length (buf a) = unat (alloc_count a) * unat (elem_size a)" by (simp_all add: array_room_def)
  have off: "unat (elem_count a * elem_size a) = ?at"
    using unat_elem_offset [OF assms(1)] count by simp
  have bound: "?at + length bytes \<le> length (buf a)"
    using mult_le_mono1 [OF count, of "unat (elem_size a)"] by (simp add: assms(2) len add_mult_distrib)
  then obtain b where b: "store_bytes ?at bytes (buf a) = Inr b" by (simp add: store_bytes_def)
  note stored = store_bytes_prefix [OF b]
  have "unat (alloc_count a) < 2 ^ 32" using unsigned_less [of "alloc_count a"] by simp
  with count have sum: "unat (elem_count a + n) = unat (elem_count a) + unat n"
    by (simp add: unat_word_ariths)
  have more: "contents (a\<lparr>buf := b, elem_count := elem_count a + n\<rparr>) = contents a @ map Some bytes"
    using stored(3) by (simp add: contents_def sum add_mult_distrib assms(2))
  have same: "contents (a\<lparr>buf := b\<rparr>) = contents a" using stored(2) by (simp add: contents_def)
  have "array_room 0 (a\<lparr>buf := b, elem_count := elem_count a + n\<rparr>)"
    using assms(1) count stored(1) more by (auto simp: array_room_def sum)
  moreover have "array_room (unat n) (a\<lparr>buf := b\<rparr>)"
    using assms(1) stored(1) same by (simp add: array_room_def)
  ultimately show thesis using that b more same off by simp
qed

lemma write_null_terminator_wf:
  assumes "array_room 0 a" "array_fits 1 a"
  obtains a' where "wmem_array_write_null_terminator a = Inr a'" "array_wf a'" "contents a' = contents a"
    "elem_count a' = elem_count a" "elem_size a' = elem_size a" "null_terminated a' = null_terminated a"
proof (cases "null_terminated a")
  case True
  from assms(2) have fits: "array_fits (unat (1 :: guint)) a" by simp
  from wmem_array_grow_room [OF assms(1) fits] obtain a1 where a1: "wmem_array_grow 1 a = Inr a1"
    "array_room (unat (1 :: guint)) a1" "contents a1 = contents a" "elem_count a1 = elem_count a"
    "elem_size a1 = elem_size a" "null_terminated a1 = null_terminated a" by blast
  have "length (replicate (unat (elem_size a1)) (0 :: guint8)) = unat (1 :: guint) * unat (elem_size a1)" by simp
  from store_at_count [OF a1(2) this] obtain b where
    "store_bytes (unat (elem_count a1 * elem_size a1)) (replicate (unat (elem_size a1)) 0) (buf a1) = Inr b"
    "array_room (unat (1 :: guint)) (a1\<lparr>buf := b\<rparr>)" "contents (a1\<lparr>buf := b\<rparr>) = contents a1" by blast
  with a1 True show ?thesis
    by (intro that [of "a1\<lparr>buf := b\<rparr>"]) (simp_all add: wmem_array_write_null_terminator_def array_wf_def)
next
  case False
  with assms(1) show ?thesis
    by (intro that [of a]) (simp_all add: wmem_array_write_null_terminator_def array_wf_def)
qed

text \<open>Appending is appending to the sequence, as long as the array does not outgrow the arithmetic.\<close>

lemma wmem_array_append_wf:
  assumes "array_wf a" "array_fits (unat n + (if null_terminated a then 1 else 0)) a"
    and "unat n * unat (elem_size a) \<le> length input"
  obtains a' where "wmem_array_append input n a = Inr a'" "array_wf a'"
    "contents a' = contents a @ map Some (take (unat n * unat (elem_size a)) input)"
    "elem_count a' = elem_count a + n" "elem_size a' = elem_size a" "null_terminated a' = null_terminated a"
proof -
  let ?t = "if null_terminated a then 1 else 0 :: nat"
  from assms(1) have room: "array_room ?t a" by (simp add: array_wf_def)
  have fits: "array_fits (unat n) a" using assms(2) unfolding array_fits_def
    by (rule order_trans [rotated]) simp
  from wmem_array_grow_room [OF room fits] obtain a1 where a1: "wmem_array_grow n a = Inr a1"
    "array_room (unat n) a1" "contents a1 = contents a" "elem_count a1 = elem_count a"
    "elem_size a1 = elem_size a" "null_terminated a1 = null_terminated a" by blast
  have "unat n \<le> unat (alloc_count a1)" using a1(2) by (simp add: array_room_def)
  then have size: "unat (n * elem_size a1) = unat n * unat (elem_size a)"
    using unat_elem_offset [OF a1(2)] a1(5) by simp
  let ?bytes = "take (unat n * unat (elem_size a)) input"
  have "length ?bytes = unat n * unat (elem_size a1)" using assms(3) a1(5) by simp
  from store_at_count [OF a1(2) this] obtain b where
    b: "store_bytes (unat (elem_count a1 * elem_size a1)) ?bytes (buf a1) = Inr b"
    "array_room 0 (a1\<lparr>buf := b, elem_count := elem_count a1 + n\<rparr>)"
    "contents (a1\<lparr>buf := b, elem_count := elem_count a1 + n\<rparr>) = contents a1 @ map Some ?bytes" by blast
  let ?a = "a1\<lparr>buf := b, elem_count := elem_count a1 + n\<rparr>"
  have result: "wmem_array_append input n a = wmem_array_write_null_terminator ?a"
    using a1(1) b(1) assms(3) size by (simp add: wmem_array_append_def not_less)
  have count: "unat (elem_count a + n) = unat (elem_count a) + unat n"
    using array_fits_count [OF room fits] by (simp add: unat_word_ariths)
  show thesis
  proof (cases "null_terminated a")
    case True
    with assms(2) have "array_fits 1 ?a"
      by (simp add: array_fits_def a1(4,5) count add.assoc)
    from write_null_terminator_wf [OF b(2) this] obtain a2 where
      "wmem_array_write_null_terminator ?a = Inr a2" "array_wf a2" "contents a2 = contents ?a"
      "elem_count a2 = elem_count ?a" "elem_size a2 = elem_size ?a" "null_terminated a2 = null_terminated ?a"
      by blast
    with result b(3) a1(3-6) show ?thesis by (intro that [of a2]) simp_all
  next
    case False
    with result b(2,3) a1(3-6) show ?thesis
      by (intro that [of ?a]) (simp_all add: wmem_array_write_null_terminator_def array_wf_def)
  qed
qed


section \<open>Reading, clearing and making an array\<close>

lemma wmem_array_try_index_element:
  assumes "array_wf a" "i < elem_count a"
  shows "wmem_array_try_index a i = Inr (Some (take (unat (elem_size a)) (drop (unat i * unat (elem_size a)) (contents a))))"
proof -
  from assms(1) have room: "array_room 0 a" unfolding array_wf_def by (rule array_room_le) simp
  have i: "unat i + 1 \<le> unat (elem_count a)" using assms(2) by (simp add: word_less_nat_alt)
  have count: "unat (elem_count a) \<le> unat (alloc_count a)"
    and len: "length (buf a) = unat (alloc_count a) * unat (elem_size a)"
    using room by (simp_all add: array_room_def)
  have off: "unat (i * elem_size a) = unat i * unat (elem_size a)"
    using unat_elem_offset [OF room] i count by simp
  have upto: "unat i * unat (elem_size a) + unat (elem_size a) \<le> unat (elem_count a) * unat (elem_size a)"
    using mult_le_mono1 [OF i, of "unat (elem_size a)"] by simp
  have "unat i * unat (elem_size a) + unat (elem_size a) \<le> length (buf a)"
    using upto mult_le_mono1 [OF count, of "unat (elem_size a)"] unfolding len by (rule order_trans)
  moreover have "take (unat (elem_size a)) (drop (unat i * unat (elem_size a)) (contents a)) =
      take (unat (elem_size a)) (drop (unat i * unat (elem_size a)) (buf a))"
    using upto by (simp add: contents_def drop_take min_def)
  ultimately show ?thesis
    using assms(2) by (simp add: wmem_array_try_index_def load_bytes_def off not_le)
qed

lemma wmem_array_try_index_outside:
  "elem_count a \<le> i \<Longrightarrow> wmem_array_try_index a i = Inr None"
  by (simp add: wmem_array_try_index_def)

lemma wmem_array_sized_new_wf:
  assumes "0 < n" "unat n * unat (if count \<noteq> 0 then count else 1) < 2 ^ 32"
  shows "array_wf (wmem_array_sized_new n count)" "contents (wmem_array_sized_new n count) = []"
proof -
  let ?c = "if count \<noteq> 0 then count else 1"
  have "unat (n * ?c) = unat n * unat ?c" using assms(2) by (simp add: unat_word_ariths)
  moreover have "0 < ?c" by (simp add: word_gt_0)
  ultimately show "array_wf (wmem_array_sized_new n count)" using assms
    by (simp add: wmem_array_sized_new_def Let_def array_wf_def array_room_def wmem_alloc_block_def
        contents_def mult.commute)
qed (simp add: wmem_array_sized_new_def Let_def contents_def)

lemma wmem_array_bzero_wf:
  assumes "array_wf a"
  obtains a' where "wmem_array_bzero a = Inr a'" "array_wf a'"
    "contents a' = replicate (length (contents a)) (Some 0)" "elem_count a' = elem_count a"
proof -
  from assms have room: "array_room 0 a" unfolding array_wf_def by (rule array_room_le) simp
  have count: "unat (elem_count a) \<le> unat (alloc_count a)"
    and len: "length (buf a) = unat (alloc_count a) * unat (elem_size a)"
    using room by (simp_all add: array_room_def)
  have size: "unat (elem_size a * elem_count a) = unat (elem_count a) * unat (elem_size a)"
    using unat_elem_offset [OF room count] by (simp add: mult.commute)
  let ?zeros = "replicate (unat (elem_count a) * unat (elem_size a)) (0 :: guint8)"
  have "0 + length ?zeros \<le> length (buf a)"
    using mult_le_mono1 [OF count, of "unat (elem_size a)"] len by simp
  then obtain b where b: "store_bytes 0 ?zeros (buf a) = Inr b" by (simp add: store_bytes_def)
  note stored = store_bytes_prefix [OF b]
  have "contents (a\<lparr>buf := b\<rparr>) = replicate (unat (elem_count a) * unat (elem_size a)) (Some 0)"
    using stored(3) by (simp add: contents_def)
  then have zeros: "contents (a\<lparr>buf := b\<rparr>) = replicate (length (contents a)) (Some 0)"
    by (simp only: length_contents [OF room])
  have "array_wf (a\<lparr>buf := b\<rparr>)"
    using assms stored(1) zeros by (simp add: array_wf_def array_room_def)
  with b zeros show thesis by (intro that [of "a\<lparr>buf := b\<rparr>"]) (simp_all add: wmem_array_bzero_def size)
qed


section \<open>Arrays of bytes\<close>

text \<open>An array of one-byte elements that holds the bytes \<open>bs\<close>.\<close>

definition byte_array :: "wmem_array \<Rightarrow> guint8 list \<Rightarrow> bool" where
  "byte_array a bs \<longleftrightarrow>
     array_wf a \<and> elem_size a = 1 \<and> \<not> null_terminated a \<and> contents a = map Some bs"

lemma byte_arrayD:
  assumes "byte_array a bs"
  shows "array_wf a" "array_room 0 a" "elem_size a = 1" "\<not> null_terminated a" "contents a = map Some bs"
    "unat (elem_count a) = length bs"
proof -
  show "array_wf a" "elem_size a = 1" "\<not> null_terminated a" "contents a = map Some bs"
    using assms by (simp_all add: byte_array_def)
  then show room: "array_room 0 a" by (simp add: array_wf_def)
  show "unat (elem_count a) = length bs"
    using length_contents [OF room] \<open>contents a = _\<close> \<open>elem_size a = 1\<close> by simp
qed

lemma byte_array_count: "byte_array a bs \<Longrightarrow> wmem_array_get_count a = of_nat (length bs)"
  by (simp add: wmem_array_get_count_def flip: byte_arrayD(6))

lemma byte_array_length: "byte_array a bs \<Longrightarrow> length bs < 2 ^ 32"
  using unsigned_less [of "elem_count a", where 'a = nat] by (simp add: byte_arrayD(6))

lemma byte_array_new: "byte_array (wmem_array_sized_new 1 count) []"
  using wmem_array_sized_new_wf [of 1 count] unsigned_less [of count]
  by (auto simp: byte_array_def wmem_array_sized_new_def Let_def)

lemma byte_array_try_index:
  assumes "byte_array a bs"
  shows "wmem_array_try_index a i = Inr (if unat i < length bs then Some [Some (bs ! unat i)] else None)"
proof (cases "unat i < length bs")
  case True
  with byte_arrayD(6) [OF assms] have "i < elem_count a" by (simp add: word_less_nat_alt)
  from wmem_array_try_index_element [OF byte_arrayD(1) [OF assms] this] True byte_arrayD [OF assms]
  show ?thesis by (simp add: take_Suc_conv_app_nth drop_map take_map nth_via_drop hd_drop_conv_nth take_Suc)
next
  case False
  with byte_arrayD(6) [OF assms] show ?thesis
    by (simp add: wmem_array_try_index_outside word_le_nat_alt)
qed

text \<open>
  A byte is appended, unless there are \<open>2 ^ 31\<close> of them or more.
\<close>

lemma byte_array_append_one:
  assumes "byte_array a bs"
  shows "(\<exists>a'. wmem_array_append_one [b] a = Inr a' \<and> byte_array a' (bs @ [b])) \<or>
    wmem_array_append_one [b] a = Inl Fault \<and> 2 ^ 31 \<le> length bs"
proof (cases "length bs < 2 ^ 31")
  case True
  note a = byte_arrayD [OF assms]
  have "array_fits (unat (1 :: guint) + (if null_terminated a then 1 else 0)) a"
    using True a(3,4,6) by (simp add: array_fits_def)
  moreover have "unat (1 :: guint) * unat (elem_size a) \<le> length [b]" using a(3) by simp
  ultimately obtain a' where "wmem_array_append [b] 1 a = Inr a'" "array_wf a'"
    "contents a' = contents a @ map Some (take (unat (1 :: guint) * unat (elem_size a)) [b])"
    "elem_size a' = elem_size a" "null_terminated a' = null_terminated a"
    using wmem_array_append_wf [OF a(1)] by blast
  with a(3-5) show ?thesis by (auto simp: byte_array_def wmem_array_append_one_def)
next
  case big: False
  note a = byte_arrayD [OF assms]
  show ?thesis
  proof (cases "grown_count (alloc_count a) (elem_count a + 1)")
    case None
    with big show ?thesis
      by (simp add: wmem_array_append_one_def wmem_array_append_def wmem_array_grow_def)
  next
    case (Some n')
    show ?thesis
    proof (cases "length bs + 1 < 2 ^ 32")
      case True
      then have m: "unat (elem_count a + 1) = unat (elem_count a) + unat (1 :: guint)"
        using a(6) by (simp add: unat_word_ariths)
      have "unat n' * unat (elem_size a) < 2 ^ 32" using a(3) unsigned_less [of n'] by simp
      from wmem_array_grow_Some [OF a(2) Some m this] obtain a1 where a1: "wmem_array_grow 1 a = Inr a1"
        "array_room (unat (1 :: guint)) a1" "contents a1 = contents a" "elem_count a1 = elem_count a"
        "elem_size a1 = elem_size a" "null_terminated a1 = null_terminated a" by blast
      have "length [b] = unat (1 :: guint) * unat (elem_size a1)" using a(3) a1(5) by simp
      from store_at_count [OF a1(2) this] obtain d where
        d: "store_bytes (unat (elem_count a1 * elem_size a1)) [b] (buf a1) = Inr d"
        "array_room 0 (a1\<lparr>buf := d, elem_count := elem_count a1 + 1\<rparr>)"
        "contents (a1\<lparr>buf := d, elem_count := elem_count a1 + 1\<rparr>) = contents a1 @ map Some [b]" by blast
      let ?a = "a1\<lparr>buf := d, elem_count := elem_count a1 + 1\<rparr>"
      have "wmem_array_append_one [b] a = Inr ?a"
        using a1 d(1) a(3,4)
        by (simp add: wmem_array_append_one_def wmem_array_append_def wmem_array_write_null_terminator_def)
      moreover have "byte_array ?a (bs @ [b])"
        using a(3-5) a1 d(2,3) by (simp add: byte_array_def array_wf_def)
      ultimately show ?thesis by blast
    next
      case False
      with byte_array_length [OF assms] a(6) have top: "unat (elem_count a) = 2 ^ 32 - 1" by simp
      then have "unat (elem_count a + 1) = 0" by (simp add: unat_word_ariths)
      then have "elem_count a + 1 = 0" by (simp add: unat_eq_0)
      then have "wmem_array_grow 1 a = Inr a"
        by (simp add: wmem_array_grow_def grown_count.simps [of _ 0])
      moreover have "length (buf a) \<le> unat (elem_count a)"
        using a(2,3) top unsigned_less [of "alloc_count a"] by (simp add: array_room_def)
      ultimately show ?thesis using a(3) big
        by (simp add: wmem_array_append_one_def wmem_array_append_def store_bytes_def)
    qed
  qed
qed

section \<open>The array is a sequence\<close>

text \<open>
  C30. Appending to a growable array is appending to the sequence it stands for, through every
  reallocation and with or without a terminator, and each element reads back as it was appended, as
  long as the array does not pass 2 GB.
\<close>

theorem wmem_array_append_correct:
  assumes "array_wf a" "array_fits (unat n + (if null_terminated a then 1 else 0)) a"
    and "unat n * unat (elem_size a) \<le> length input"
  shows "\<exists>a'. wmem_array_append input n a = Inr a' \<and> array_wf a' \<and> elem_count a' = elem_count a + n \<and>
    contents a' = contents a @ map Some (take (unat n * unat (elem_size a)) input) \<and>
    (\<forall>i < elem_count a'. wmem_array_try_index a' i =
       Inr (Some (take (unat (elem_size a)) (drop (unat i * unat (elem_size a)) (contents a')))))"
proof -
  obtain a' where a': "wmem_array_append input n a = Inr a'" "array_wf a'"
    "contents a' = contents a @ map Some (take (unat n * unat (elem_size a)) input)"
    "elem_count a' = elem_count a + n" "elem_size a' = elem_size a"
    by (rule wmem_array_append_wf [OF assms])
  then show ?thesis using wmem_array_try_index_element [OF a'(2)] by auto
qed

theorem wmem_array_append_correct_witness:
  "\<exists>a'. wmem_array_append [1, 2, 3, 4] 2 (wmem_array_sized_new 2 0) = Inr a' \<and>
     wmem_array_try_index a' 1 = Inr (Some [Some 3, Some 4])"
proof -
  let ?a = "wmem_array_sized_new 2 0"
  have a: "elem_size ?a = 2" "elem_count ?a = 0" "\<not> null_terminated ?a" "contents ?a = []"
    using wmem_array_sized_new_wf(2) [of 2 0] by (simp_all add: wmem_array_sized_new_def)
  have "array_wf ?a" by (rule wmem_array_sized_new_wf(1)) simp_all
  moreover have "array_fits (unat (2 :: guint) + (if null_terminated ?a then 1 else 0)) ?a"
    by (simp add: array_fits_def a)
  ultimately show ?thesis
    using wmem_array_append_correct [of ?a 2 "[1, 2, 3, 4]"] by (auto simp: a)
qed

text \<open>
  At \<open>2 ^ 31\<close> elements the count to grow to doubles to 0, and the call that appends one more does not
  return, for which the model has a fault.
\<close>

lemma wmem_array_append_never_returns:
  "alloc_count a = 0x80000000 \<Longrightarrow> elem_count a = 0x80000000 \<Longrightarrow> wmem_array_append_one val a = Inl Fault"
  by (simp add: wmem_array_append_one_def wmem_array_append_def wmem_array_grow_def grown_count_never)

end
