(* ===== verification/Lz.thy ===== *)
theory Lz
  imports WmemArray Action TvbProps
begin

text \<open>
  What the decompressors of epan/tvbuff_lznt1.c, epan/tvbuff_lz77.c and epan/tvbuff_lz77huff.c share: the
  buffer they read, the array they write, their loops, and the function that makes a buffer of the
  result. Then the decompressor for LZNT1.
\<close>

section \<open>Loops that may not end\<close>

text \<open>A run of the code: \<open>None\<close> when it does not return.\<close>

type_synonym ('s, 'a) run = "'s \<Rightarrow> ((exc + 'a) \<times> 's) option"

definition returning :: "('s, 'a) action \<Rightarrow> ('s, 'a) run" where
  "returning m s = Some (m s)"

definition bindO :: "('s, 'a) run \<Rightarrow> ('a \<Rightarrow> ('s, 'b) run) \<Rightarrow> ('s, 'b) run" where
  "bindO m k s =
     (case m s of
        None \<Rightarrow> None
      | Some (Inl e, s') \<Rightarrow> Some (Inl e, s')
      | Some (Inr x, s') \<Rightarrow> k x s')"

text \<open>A step yields the variables of the next iteration (\<open>Inl\<close>) or the result (\<open>Inr\<close>).\<close>

partial_function (option) loopO ::
    "('v \<Rightarrow> ('s, 'v + 'r) run) \<Rightarrow> 'v \<Rightarrow> 's \<Rightarrow> ((exc + 'r) \<times> 's) option" where
  "loopO step v s =
     Option.bind (step v s) (\<lambda>(r, s').
       case r of
         Inl e \<Rightarrow> Some (Inl e, s')
       | Inr (Inl v') \<Rightarrow> loopO step v' s'
       | Inr (Inr x) \<Rightarrow> Some (Inr x, s'))"

declare loopO.simps [code]

section \<open>The input and the output\<close>

text \<open>The buffer that is read, NULL for \<open>None\<close>, and the array that is filled.\<close>

record lz =
  src :: "tvbuff option"
  obuf :: wmem_array

definition lz_get :: "(tvbuff \<Rightarrow> gint \<Rightarrow> ('a \<times> tvbuff) res) \<Rightarrow> gint \<Rightarrow> (lz, 'a) action" where
  "lz_get get offset s =
     (case src s of
        None \<Rightarrow> (Inl Fault, s)
      | Some tvb \<Rightarrow>
          (case get tvb offset of
             Inl e \<Rightarrow> (Inl e, s)
           | Inr (v, tvb') \<Rightarrow> (Inr v, s\<lparr>src := Some tvb'\<rparr>)))"

definition emit :: "guint8 \<Rightarrow> (lz, unit) action" where
  "emit b s =
     (case wmem_array_append_one [b] (obuf s) of
        Inl e \<Rightarrow> (Inl e, s)
      | Inr a \<Rightarrow> (Inr (), s\<lparr>obuf := a\<rparr>))"

text \<open>\<open>None\<close> when \<open>wmem_array_try_index\<close> fails; a byte nobody has written is a fault.\<close>

definition emitted :: "guint \<Rightarrow> (lz, guint8 option) action" where
  "emitted i s =
     (case wmem_array_try_index (obuf s) i of
        Inl e \<Rightarrow> (Inl e, s)
      | Inr None \<Rightarrow> (Inr None, s)
      | Inr (Some v) \<Rightarrow>
          (case v of
             [Some b] \<Rightarrow> (Inr (Some b), s)
           | _ \<Rightarrow> (Inl Fault, s)))"

definition emitted_count :: "(lz, guint) action" where
  "emitted_count s = (Inr (wmem_array_get_count (obuf s)), s)"

text \<open>
  A shift by the width of the word or more is undefined in C; \<open>ub\<close> is what the machine makes of it.
\<close>

definition shift_right :: "(guint \<Rightarrow> guint \<Rightarrow> guint) \<Rightarrow> guint \<Rightarrow> guint \<Rightarrow> guint" where
  "shift_right ub v n = (if n < 32 then drop_bit (unat n) v else ub v n)"

definition MAX_INPUT_SIZE :: gint where
  "MAX_INPUT_SIZE = 16 * 1024 * 1024"

text \<open>
  The three functions \<open>tvb_uncompress_lznt1\<close>, \<open>tvb_uncompress_lz77\<close> and \<open>tvb_uncompress_lz77huff\<close> have
  the same body around their \<open>do_uncompress\<close>: an array in a pool of its own, the exceptions caught,
  a buffer made of a copy of the array if all went well. The result is the new buffer and the
  state in which the old one is left.
\<close>

definition uncompress_with ::
    "(lz, bool) run \<Rightarrow> tvbuff option \<Rightarrow> gint \<Rightarrow> (tvbuff option res \<times> tvbuff option) option" where
  "uncompress_with do_uncompress tvb in_size =
     Option.bind (do_uncompress \<lparr>src = tvb, obuf = wmem_array_sized_new 1 (in_size * 2)\<rparr>) (\<lambda>(r, s).
       Some
         (case r of
            Inl Fault \<Rightarrow> Inl Fault
          | Inl e \<Rightarrow> Inr None
          | Inr False \<Rightarrow> Inr None
          | Inr True \<Rightarrow>
              let size = wmem_array_get_count (obuf s)
              in bindE (load_bytes 0 (unat size) (wmem_array_get_raw (obuf s))) (\<lambda>p.
                 case those p of
                   None \<Rightarrow> Inl Fault
                 | Some bytes \<Rightarrow> bindE (tvb_new_real_data (Some bytes) size size) (\<lambda>out. Inr (Some out))),
          src s))"

section \<open>LZNT1\<close>

text \<open>\<open>while (pos >= 0x10)\<close>: how the 16 bits of a match divide into its offset and its length.\<close>

function match_split :: "guint \<Rightarrow> guint \<Rightarrow> guint \<Rightarrow> guint \<times> guint" where
  "match_split pos l_mask o_shift =
     (if 0x10 \<le> pos then match_split (drop_bit 1 pos) (drop_bit 1 l_mask) (o_shift - 1)
      else (l_mask, o_shift))"
  by pat_completeness auto
termination
  by (relation "measure (\<lambda>(pos, _). unat pos)") (auto simp: drop_bit_eq_div word_le_nat_alt unat_div)

declare match_split.simps [simp del]

text \<open>
  \<open>for (j = 0; j < match_len; j++)\<close>, with the iterations that are left. \<open>None\<close> is \<open>return FALSE\<close>,
  otherwise the result is \<open>out_off\<close>.
\<close>

primrec lznt1_copy :: "nat \<Rightarrow> guint \<Rightarrow> gint \<Rightarrow> gint \<Rightarrow> (lz, gint option) action" where
  "lznt1_copy 0 match_off out_start out_off = return (Some out_off)"
| "lznt1_copy (Suc n) match_off out_start out_off =
     (if out_off < match_off then return None
      else
        bindS (emitted (out_start + out_off - match_off)) (\<lambda>byte.
          case byte of
            None \<Rightarrow> return None
          | Some b \<Rightarrow> bindS (emit b) (\<lambda>_. lznt1_copy n match_off out_start (out_off + 1))))"

text \<open>One token of a chunk; the variables are \<open>in_off\<close> and \<open>out_off\<close>.\<close>

definition lznt1_token ::
    "(guint \<Rightarrow> guint \<Rightarrow> guint) \<Rightarrow> gint \<Rightarrow> gint \<Rightarrow> guint8 \<Rightarrow> nat \<Rightarrow> gint \<times> gint \<Rightarrow>
      (lz, (gint \<times> gint) option) action" where
  "lznt1_token ub offset out_start flagbits i = (\<lambda>(in_off, out_off).
     if drop_bit i flagbits AND 1 = 0 then
       bindS (lz_get tvb_get_guint8 (offset + in_off)) (\<lambda>v.
       bindS (emit v) (\<lambda>_. return (Some (in_off + 1, out_off + 1))))
     else
       bindS (lz_get tvb_get_letohs (offset + in_off)) (\<lambda>w.
         let f = ucast w;
             in_off = in_off + 2;
             pos = out_off - 1;
             (l_mask, o_shift) = match_split pos 0x0FFF 12;
             match_len = (f AND l_mask) + 3;
             match_off = shift_right ub f o_shift + 1
         in bindS (lznt1_copy (unat match_len) match_off out_start out_off) (\<lambda>r.
              return (map_option (\<lambda>out_off. (in_off, out_off)) r))))"

text \<open>
  \<open>for (i = 0; i < 8; i++)\<close> over the flags that are left: the result of the function (\<open>Inr\<close>), or the
  variables with which the outer loop goes on (\<open>Inl\<close>).
\<close>

primrec lznt1_tokens ::
    "(guint \<Rightarrow> guint \<Rightarrow> guint) \<Rightarrow> gint \<Rightarrow> gint \<Rightarrow> gint \<Rightarrow> guint8 \<Rightarrow> nat list \<Rightarrow> gint \<times> gint \<Rightarrow>
      (lz, (gint \<times> gint) + bool) action" where
  "lznt1_tokens ub offset in_size out_start flagbits [] v = return (Inl v)"
| "lznt1_tokens ub offset in_size out_start flagbits (i # is) v =
     bindS (lznt1_token ub offset out_start flagbits i v) (\<lambda>r.
       case r of
         None \<Rightarrow> return (Inr False)
       | Some v' \<Rightarrow>
           if fst v' = in_size then return (Inr True)
           else lznt1_tokens ub offset in_size out_start flagbits is v')"

definition lznt1_chunk_step ::
    "(guint \<Rightarrow> guint \<Rightarrow> guint) \<Rightarrow> gint \<Rightarrow> gint \<Rightarrow> gint \<Rightarrow> gint \<times> gint \<Rightarrow> (lz, (gint \<times> gint) + bool) action" where
  "lznt1_chunk_step ub offset in_size out_start = (\<lambda>(in_off, out_off).
     if in_off <s in_size then
       bindS (lz_get tvb_get_guint8 (offset + in_off)) (\<lambda>flagbits.
         lznt1_tokens ub offset in_size out_start flagbits [0..<8] (in_off + 1, out_off))
     else return (Inr True))"

definition uncompress_chunk ::
    "(guint \<Rightarrow> guint \<Rightarrow> guint) \<Rightarrow> gint \<Rightarrow> gint \<Rightarrow> (lz, bool) run" where
  "uncompress_chunk ub offset in_size =
     bindO (returning emitted_count) (\<lambda>out_start.
       loopO (\<lambda>v. returning (lznt1_chunk_step ub offset in_size out_start v)) (0, 0))"

text \<open>\<open>for (i = 0; i < length; i++)\<close> over the bytes of a chunk that is not compressed.\<close>

primrec lznt1_raw :: "nat \<Rightarrow> gint \<Rightarrow> gint \<Rightarrow> (lz, gint) action" where
  "lznt1_raw 0 offset in_off = return in_off"
| "lznt1_raw (Suc n) offset in_off =
     bindS (lz_get tvb_get_guint8 (offset + in_off)) (\<lambda>v.
     bindS (emit v) (\<lambda>_. lznt1_raw n offset (in_off + 1)))"

definition lznt1_step :: "(guint \<Rightarrow> guint \<Rightarrow> guint) \<Rightarrow> gint \<Rightarrow> gint \<Rightarrow> gint \<Rightarrow> (lz, gint + bool) run" where
  "lznt1_step ub offset in_size in_off =
     (if in_off <s in_size then
        bindO (returning (lz_get tvb_get_letohs (offset + in_off))) (\<lambda>header.
          let in_off = in_off + 2;
              len = (ucast header AND 0x0FFF) + 1
          in if header AND 0x8000 = 0 then
               bindO (returning (lznt1_raw (unat len) offset in_off)) (\<lambda>in_off. returning (return (Inl in_off)))
             else
               bindO (uncompress_chunk ub (offset + in_off) len) (\<lambda>ok.
                 if \<not> ok then returning (return (Inr False))
                 else returning (return (Inl (in_off + len)))))
      else returning (return (Inr True)))"

definition lznt1_do_uncompress :: "(guint \<Rightarrow> guint \<Rightarrow> guint) \<Rightarrow> gint \<Rightarrow> gint \<Rightarrow> (lz, bool) run" where
  "lznt1_do_uncompress ub offset in_size s =
     (if src s = None then Some (Inr False, s)
      else if MAX_INPUT_SIZE <s in_size then Some (Inr False, s)
      else loopO (lznt1_step ub offset in_size) 0 s)"

definition tvb_uncompress_lznt1 ::
    "(guint \<Rightarrow> guint \<Rightarrow> guint) \<Rightarrow> tvbuff option \<Rightarrow> gint \<Rightarrow> gint \<Rightarrow>
      (tvbuff option res \<times> tvbuff option) option" where
  "tvb_uncompress_lznt1 ub tvb offset in_size =
     uncompress_with (lznt1_do_uncompress ub offset in_size) tvb in_size"

end
