(* ===== verification/LzSafety.thy ===== *)
theory LzSafety
  imports Lz
begin

text \<open>
  What holds of a decompressor whatever it reads: it returns, it throws nothing but the bounds
  exceptions of the buffer, it changes nothing of the buffer a reader can see, and it stays inside the
  output array. The one fault that is left is the array's own, at 2 GB of output.
\<close>

section \<open>Safe runs\<close>

definition lz_inv :: "tvbuff \<Rightarrow> lz \<Rightarrow> bool" where
  "lz_inv t s \<longleftrightarrow> (\<exists>t'. src s = Some t' \<and> same_view t t') \<and> (\<exists>bs. byte_array (obuf s) bs)"

definition lz_outcome :: "tvbuff \<Rightarrow> ('a \<Rightarrow> bool) \<Rightarrow> (exc + 'a) \<times> lz \<Rightarrow> bool" where
  "lz_outcome t Q = (\<lambda>(r, s).
     lz_inv t s \<and>
     (case r of
        Inl e \<Rightarrow> bounds_exc e \<or> e = Fault \<and> 2 ^ 31 \<le> unat (elem_count (obuf s))
      | Inr x \<Rightarrow> Q x))"

definition run_safe :: "tvbuff \<Rightarrow> (lz, 'a) run \<Rightarrow> ('a \<Rightarrow> bool) \<Rightarrow> bool" where
  "run_safe t m Q \<longleftrightarrow> (\<forall>s. lz_inv t s \<longrightarrow> (\<exists>o'. m s = Some o' \<and> lz_outcome t Q o'))"

definition lz_safe :: "tvbuff \<Rightarrow> (lz, 'a) action \<Rightarrow> ('a \<Rightarrow> bool) \<Rightarrow> bool" where
  "lz_safe t m Q \<longleftrightarrow> (\<forall>s. lz_inv t s \<longrightarrow> lz_outcome t Q (m s))"

named_theorems safe \<open>actions of the decompressors that are safe\<close>

lemma returning_safe [safe]: "lz_safe t m Q \<Longrightarrow> run_safe t (returning m) Q"
  by (simp add: run_safe_def lz_safe_def returning_def)

lemma lz_safe_return [safe]: "Q x \<Longrightarrow> lz_safe t (return x) Q"
  by (simp add: lz_safe_def lz_outcome_def)

lemma lz_outcome_weaken: "lz_outcome t Q p \<Longrightarrow> (\<And>x. Q x \<Longrightarrow> R x) \<Longrightarrow> lz_outcome t R p"
  by (auto simp: lz_outcome_def split: prod.splits sum.splits)

lemma lz_safe_weaken: "lz_safe t m Q \<Longrightarrow> (\<And>x. Q x \<Longrightarrow> R x) \<Longrightarrow> lz_safe t m R"
  unfolding lz_safe_def by (meson lz_outcome_weaken)

lemma run_safe_weaken: "run_safe t m Q \<Longrightarrow> (\<And>x. Q x \<Longrightarrow> R x) \<Longrightarrow> run_safe t m R"
  unfolding run_safe_def by (meson lz_outcome_weaken)

lemma lz_safe_bind:
  assumes "lz_safe t m Q" "\<And>x. Q x \<Longrightarrow> lz_safe t (k x) R"
  shows "lz_safe t (bindS m k) R"
  unfolding lz_safe_def
proof (intro allI impI)
  fix s
  assume "lz_inv t s"
  with assms(1) have m: "lz_outcome t Q (m s)" by (simp add: lz_safe_def)
  show "lz_outcome t R (bindS m k s)"
  proof (cases "m s")
    case (Pair r s')
    with m assms(2) show ?thesis
      by (cases r) (simp_all add: lz_outcome_def lz_safe_def)
  qed
qed

lemma run_safe_bind:
  assumes "run_safe t m Q" "\<And>x. Q x \<Longrightarrow> run_safe t (k x) R"
  shows "run_safe t (bindO m k) R"
  unfolding run_safe_def
proof (intro allI impI)
  fix s
  assume "lz_inv t s"
  with assms(1) obtain r s' where m: "m s = Some (r, s')" "lz_outcome t Q (r, s')"
    by (fastforce simp: run_safe_def)
  show "\<exists>o'. bindO m k s = Some o' \<and> lz_outcome t R o'"
  proof (cases r)
    case (Inl e)
    with m show ?thesis by (simp add: bindO_def lz_outcome_def)
  next
    case (Inr x)
    with m(2) have "lz_inv t s'" "Q x" by (simp_all add: lz_outcome_def)
    with assms(2) m(1) Inr show ?thesis by (simp add: bindO_def run_safe_def)
  qed
qed

text \<open>A loop is safe when its step is and makes a measure decrease.\<close>

lemma loopO_safe:
  fixes measure_of :: "'v \<Rightarrow> nat"
  assumes "\<And>v. I v \<Longrightarrow> run_safe t (step v) (\<lambda>r. case r of Inl v' \<Rightarrow> I v' \<and> measure_of v' < measure_of v | Inr x \<Rightarrow> Q x)"
    and "I v"
  shows "run_safe t (loopO step v) Q"
  unfolding run_safe_def
proof (intro allI impI)
  fix s
  assume "lz_inv t s"
  with assms(2) show "\<exists>o'. loopO step v s = Some o' \<and> lz_outcome t Q o'"
  proof (induction "measure_of v" arbitrary: v s rule: less_induct)
    case less
    from assms(1) [OF less.prems(1)] less.prems(2) obtain r s' where step: "step v s = Some (r, s')"
      "lz_outcome t (\<lambda>r. case r of Inl v' \<Rightarrow> I v' \<and> measure_of v' < measure_of v | Inr x \<Rightarrow> Q x) (r, s')"
      by (fastforce simp: run_safe_def)
    show ?case
    proof (cases r)
      case (Inl e)
      with step show ?thesis by (subst loopO.simps) (simp add: lz_outcome_def)
    next
      case (Inr d)
      show ?thesis
      proof (cases d)
        case (Inl v')
        with step(2) Inr have "measure_of v' < measure_of v" "I v'" "lz_inv t s'"
          by (simp_all add: lz_outcome_def)
        from less.hyps [OF this] step(1) Inr Inl show ?thesis by (subst loopO.simps) simp
      next
        case (Inr x)
        with step \<open>r = Inr d\<close> show ?thesis by (subst loopO.simps) (simp add: lz_outcome_def)
      qed
    qed
  qed
qed

section \<open>The primitives\<close>

text \<open>A read that succeeds was in bounds.\<close>

lemma lz_get_safe:
  assumes "\<And>t' offset. tvb_wf t' \<Longrightarrow> reads n num t' offset (get t' offset)"
  shows "lz_safe t (lz_get get offset) (\<lambda>_. in_bounds t offset (of_nat n))"
  unfolding lz_safe_def
proof (intro allI impI)
  fix s
  assume inv: "lz_inv t s"
  then obtain t' where t': "src s = Some t'" "same_view t t'" by (auto simp: lz_inv_def)
  have same: "in_bounds t' offset (of_nat n) = in_bounds t offset (of_nat n)"
    using same_viewD(3) [OF t'(2)] by (simp add: in_bounds_def extent_def position_def)
  from assms [OF same_viewD(1) [OF t'(2)], of offset]
  show "lz_outcome t (\<lambda>_. in_bounds t offset (of_nat n)) (lz_get get offset s)"
    using inv t' same_view_trans [OF t'(2)]
    by (auto simp: reads_def same lz_get_def lz_outcome_def lz_inv_def split: if_splits)
qed

lemma lz_get8_safe: "lz_safe t (lz_get tvb_get_guint8 offset) (\<lambda>_. in_bounds t offset (of_nat 1))"
  by (rule lz_get_safe) (rule ntoh_reads(1))

lemma lz_get16_safe: "lz_safe t (lz_get tvb_get_letohs offset) (\<lambda>_. in_bounds t offset (of_nat 2))"
  by (rule lz_get_safe) (rule letoh_reads(1))

lemma lz_get32_safe: "lz_safe t (lz_get tvb_get_letohl offset) (\<lambda>_. in_bounds t offset (of_nat 4))"
  by (rule lz_get_safe) (rule letoh_reads(3))

lemma emit_safe: "lz_safe t (emit b) (\<lambda>_. True)"
  unfolding lz_safe_def
proof (intro allI impI)
  fix s
  assume inv: "lz_inv t s"
  then obtain bs where bs: "byte_array (obuf s) bs" by (auto simp: lz_inv_def)
  from byte_array_append_one [OF bs, of b] inv byte_arrayD(6) [OF bs]
  show "lz_outcome t (\<lambda>_. True) (emit b s)" by (auto simp: emit_def lz_outcome_def lz_inv_def)
qed

lemma emitted_safe: "lz_safe t (emitted i) (\<lambda>_. True)"
  unfolding lz_safe_def
proof (intro allI impI)
  fix s
  assume inv: "lz_inv t s"
  then obtain bs where bs: "byte_array (obuf s) bs" by (auto simp: lz_inv_def)
  show "lz_outcome t (\<lambda>_. True) (emitted i s)"
    using inv by (simp add: emitted_def byte_array_try_index [OF bs] lz_outcome_def)
qed

lemma emitted_count_safe: "lz_safe t emitted_count (\<lambda>_. True)"
  by (simp add: lz_safe_def lz_outcome_def emitted_count_def)

section \<open>LZNT1\<close>

text \<open>Offsets that are small enough are the numbers they look like.\<close>

lemma sint_small: "n < 2 ^ 31 \<Longrightarrow> sint (of_nat n :: gint) = int n"
  by (simp add: sint_gint unsigned_of_nat take_bit_nat_eq_self take_bit_int_eq_self)

lemma lznt1_copy_safe: "lz_safe t (lznt1_copy n match_off out_start out_off) (\<lambda>_. True)"
proof (induction n arbitrary: out_off)
  case (Suc n)
  show ?case
    by (auto simp del: return_run intro!: safe lz_safe_bind [OF emitted_safe] lz_safe_bind [OF emit_safe] Suc
        split: option.split)
qed (simp add: lz_safe_return del: return_run)

lemma lznt1_token_safe:
  "lz_safe t (lznt1_token ub offset out_start flagbits i (of_nat n, out_off))
     (\<lambda>r. \<forall>v. r = Some v \<longrightarrow> (\<exists>k. 1 \<le> k \<and> k \<le> 2 \<and> fst v = of_nat (n + k)))"
proof (cases "drop_bit i flagbits AND 1 = 0")
  case True
  have "\<exists>k. Suc 0 \<le> k \<and> k \<le> 2 \<and> (of_nat k :: gint) = 1" by (rule exI [of _ 1]) simp
  with True show ?thesis
    by (auto simp: lznt1_token_def simp del: return_run
        intro!: safe lz_safe_bind [OF lz_get8_safe] lz_safe_bind [OF emit_safe])
next
  case False
  with False show ?thesis
    by (auto simp: lznt1_token_def Let_def simp del: return_run
        intro!: safe lz_safe_bind [OF lz_get16_safe] lz_safe_bind [OF lznt1_copy_safe]
        exI [of _ "2 :: nat"] split: prod.splits)
qed

lemma lznt1_tokens_safe:
  "lz_safe t (lznt1_tokens ub offset in_size out_start flagbits is (of_nat n, out_off))
     (\<lambda>r. \<forall>v. r = Inl v \<longrightarrow> (\<exists>k. k \<le> 2 * length is \<and> fst v = of_nat (n + k)))"
proof (induction "is" arbitrary: n out_off)
  case Nil
  show ?case by (auto intro!: safe exI [of _ 0] simp del: return_run)
next
  case (Cons i "is")
  show ?case unfolding lznt1_tokens.simps
  proof (rule lz_safe_bind [OF lznt1_token_safe])
    fix r :: "(gint \<times> gint) option"
    assume r: "\<forall>v. r = Some v \<longrightarrow> (\<exists>k. 1 \<le> k \<and> k \<le> 2 \<and> fst v = (of_nat (n + k) :: gint))"
    show "lz_safe t (case r of None \<Rightarrow> return (Inr False)
        | Some v' \<Rightarrow> if fst v' = in_size then return (Inr True)
            else lznt1_tokens ub offset in_size out_start flagbits is v')
      (\<lambda>r. \<forall>v. r = Inl v \<longrightarrow> (\<exists>k. k \<le> 2 * length (i # is) \<and> fst v = of_nat (n + k)))"
    proof (cases r)
      case (Some v)
      with r obtain k where k: "1 \<le> k" "k \<le> 2" "fst v = of_nat (n + k)" by blast
      obtain o' where v: "v = (of_nat (n + k), o')" using k(3) by (cases v) simp
      have "lz_safe t (lznt1_tokens ub offset in_size out_start flagbits is v)
        (\<lambda>r. \<forall>v. r = Inl v \<longrightarrow> (\<exists>k. k \<le> 2 * length (i # is) \<and> fst v = of_nat (n + k)))"
        unfolding v
      proof (rule lz_safe_weaken [OF Cons.IH], intro allI impI)
        fix r' :: "(gint \<times> gint) + bool" and v'
        assume "\<forall>v. r' = Inl v \<longrightarrow> (\<exists>j. j \<le> 2 * length is \<and> fst v = of_nat (n + k + j))" "r' = Inl v'"
        then obtain j where "j \<le> 2 * length is" "fst v' = of_nat (n + k + j)" by blast
        then show "\<exists>k. k \<le> 2 * length (i # is) \<and> fst v' = of_nat (n + k)"
          using k(2) by (intro exI [of _ "k + j"]) (simp add: add.assoc)
      qed
      with Some show ?thesis by (auto intro: safe simp del: return_run)
    qed (auto intro: safe simp del: return_run)
  qed
qed

text \<open>The outer loop of a chunk: every turn reads the flags, so \<open>in_off\<close> comes closer to \<open>in_size\<close>.\<close>

lemma sless_small: "n < 2 ^ 31 \<Longrightarrow> of_nat n <s m \<longleftrightarrow> int n < sint (m :: gint)"
  by (simp add: word_sless_alt sint_small)

lemma uncompress_chunk_safe:
  assumes "sint in_size \<le> 2 ^ 24"
  shows "run_safe t (uncompress_chunk ub offset in_size) (\<lambda>_. True)"
proof -
  let ?I = "\<lambda>v :: gint \<times> gint. \<exists>n. n \<le> 2 ^ 24 + 17 \<and> fst v = of_nat n"
  let ?m = "\<lambda>v :: gint \<times> gint. nat (2 ^ 24 + 17 - sint (fst v))"
  have step: "run_safe t (returning (lznt1_chunk_step ub offset in_size out_start v))
      (\<lambda>r. case r of Inl v' \<Rightarrow> ?I v' \<and> ?m v' < ?m v | Inr _ \<Rightarrow> True)" if "?I v" for v out_start
  proof -
    from that obtain n out_off where n: "n \<le> 2 ^ 24 + 17" and v: "v = (of_nat n, out_off)"
      by (cases v) auto
    have next_in: "of_nat n + 1 = (of_nat (n + 1) :: gint)" by simp
    have "lz_safe t (lznt1_chunk_step ub offset in_size out_start v)
      (\<lambda>r. case r of Inl v' \<Rightarrow> ?I v' \<and> ?m v' < ?m v | Inr _ \<Rightarrow> True)"
    proof (cases "of_nat n <s in_size")
      case True
      with n assms have small: "n < 2 ^ 24" by (simp add: sless_small)
      show ?thesis unfolding v lznt1_chunk_step_def prod.case if_P [OF True] next_in
      proof (rule lz_safe_bind [OF lz_get8_safe], rule lz_safe_weaken [OF lznt1_tokens_safe])
        fix r :: "(gint \<times> gint) + bool"
        assume *: "\<forall>v. r = Inl v \<longrightarrow> (\<exists>k. k \<le> 2 * length [0..<8] \<and> fst v = of_nat (n + 1 + k))"
        show "case r of Inl v' \<Rightarrow> ?I v' \<and> ?m v' < ?m (of_nat n, out_off) | Inr _ \<Rightarrow> True"
        proof (cases r)
          case (Inl v')
          with * obtain k where "k \<le> 16" "fst v' = of_nat (n + 1 + k)" by auto
          with small have "fst v' = of_nat (n + 1 + k)" "n + 1 + k \<le> 2 ^ 24 + 17" "n < n + 1 + k"
            by simp_all
          moreover have "n + 1 + k < 2 ^ 31" "n < 2 ^ 31" using small \<open>k \<le> 16\<close> by simp_all
          then have "sint (of_nat (n + 1 + k) :: gint) = int (n + 1 + k)" "sint (of_nat n :: gint) = int n"
            by (simp_all only: sint_small)
          ultimately show ?thesis using Inl small by (auto intro!: exI [of _ "n + 1 + k"])
        qed simp
      qed
    qed (auto simp: v lznt1_chunk_step_def simp del: return_run intro!: safe)
    then show ?thesis by (rule safe)
  qed
  have "?I (0, 0)" by (auto intro: exI [of _ 0])
  show ?thesis unfolding uncompress_chunk_def
  proof (rule run_safe_bind [OF returning_safe [OF emitted_count_safe]])
    fix out_start
    show "run_safe t (loopO (\<lambda>v. returning (lznt1_chunk_step ub offset in_size out_start v)) (0, 0)) (\<lambda>_. True)"
      by (rule loopO_safe [where I = ?I and measure_of = ?m, OF step \<open>?I (0, 0)\<close>])
  qed
qed

lemma lznt1_raw_safe:
  "lz_safe t (lznt1_raw m offset (of_nat n)) (\<lambda>in_off. in_off = of_nat (n + m))"
proof (induction m arbitrary: n)
  case (Suc m)
  have next_in: "of_nat n + 1 = (of_nat (n + 1) :: gint)" by simp
  show ?case unfolding lznt1_raw.simps next_in
  proof (rule lz_safe_bind [OF lz_get8_safe], rule lz_safe_bind [OF emit_safe])
    show "lz_safe t (lznt1_raw m offset (of_nat (n + 1))) (\<lambda>in_off. in_off = of_nat (n + Suc m))"
      using Suc [of "n + 1"] by simp
  qed
qed (simp add: lz_safe_return del: return_run)

lemma chunk_length: "unat ((ucast (header :: guint16) AND 0x0FFF) + 1 :: guint) \<in> {1..4096}"
proof -
  have "(ucast header AND 0x0FFF :: guint) = take_bit 12 (ucast header)"
    by (simp add: take_bit_eq_mask mask_numeral)
  then have "unat (ucast header AND 0x0FFF :: guint) = take_bit 12 (unat (ucast header :: guint))"
    by (simp only: unsigned_take_bit_eq)
  also have "\<dots> < 4096" using take_bit_nat_less_exp [of 12 "unat (ucast header :: guint)"] by simp
  finally show ?thesis by (simp add: unat_word_ariths)
qed

lemma lznt1_step_safe:
  assumes "n \<le> 2 ^ 24 + 4098" "sint in_size \<le> 2 ^ 24"
  shows "run_safe t (lznt1_step ub offset in_size (of_nat n))
    (\<lambda>r. \<forall>v. r = Inl v \<longrightarrow> n < 2 ^ 24 \<and> (\<exists>k. 1 \<le> k \<and> k \<le> 4098 \<and> v = of_nat (n + k)))"
proof (cases "of_nat n <s in_size")
  case True
  with assms have n: "n < 2 ^ 24" by (simp add: sless_small)
  have next_in: "of_nat n + 2 = (of_nat (n + 2) :: gint)" by simp
  show ?thesis unfolding lznt1_step_def if_P [OF True] next_in Let_def
  proof (rule run_safe_bind [OF returning_safe [OF lz_get16_safe]])
    fix header :: guint16
    define len :: guint where "len = (ucast header AND 0x0FFF) + 1"
    obtain m where m: "len = of_nat m" "unat len = m" "1 \<le> m" "m \<le> 4096"
      using chunk_length [of header] by (intro that [of "unat len"]) (simp_all add: len_def)
    have after: "\<forall>v. (Inl v' :: gint + bool) = Inl v \<longrightarrow>
        n < 2 ^ 24 \<and> (\<exists>k. 1 \<le> k \<and> k \<le> 4098 \<and> v = of_nat (n + k))"
      if "v' = of_nat (n + 2 + m)" for v'
      using that m(3,4) n by (auto intro!: exI [of _ "2 + m"])
    have size: "sint len \<le> 2 ^ 24" using m by (simp add: sint_small)
    let ?Q = "\<lambda>r :: gint + bool. \<forall>v. r = Inl v \<longrightarrow> n < 2 ^ 24 \<and> (\<exists>k. 1 \<le> k \<and> k \<le> 4098 \<and> v = of_nat (n + k))"
    have raw: "run_safe t (bindO (returning (lznt1_raw (unat len) offset (of_nat (n + 2))))
        (\<lambda>in_off. returning (return (Inl in_off)))) ?Q"
      unfolding m(2)
      by (rule run_safe_bind [OF returning_safe [OF lznt1_raw_safe]], rule returning_safe, rule lz_safe_return,
          erule after)
    have "of_nat (n + 2) + len = of_nat (n + 2 + m)" using m(1) by simp
    then have next_off: "?Q (Inl (of_nat (n + 2) + len))" by (rule after)
    have chunk: "run_safe t (bindO (uncompress_chunk ub (offset + of_nat (n + 2)) len) (\<lambda>ok.
           if \<not> ok then returning (return (Inr False))
           else returning (return (Inl (of_nat (n + 2) + len))))) ?Q"
    proof (rule run_safe_bind [OF uncompress_chunk_safe [OF size]])
      fix ok
      show "run_safe t (if \<not> ok then returning (return (Inr False))
          else returning (return (Inl (of_nat (n + 2) + len)))) ?Q"
        by (cases ok, simp_all only: not_True_eq_False not_False_eq_True if_True if_False)
          (rule returning_safe, rule lz_safe_return, rule next_off, rule returning_safe, rule lz_safe_return, simp)
    qed
    show "run_safe t
      (if header AND 0x8000 = 0 then
         bindO (returning (lznt1_raw (unat ((ucast header AND 0x0FFF) + 1 :: guint)) offset (of_nat (n + 2))))
           (\<lambda>in_off. returning (return (Inl in_off)))
       else
         bindO (uncompress_chunk ub (offset + of_nat (n + 2)) ((ucast header AND 0x0FFF) + 1)) (\<lambda>ok.
           if \<not> ok then returning (return (Inr False))
           else returning (return (Inl (of_nat (n + 2) + ((ucast header AND 0x0FFF) + 1)))))) ?Q"
      unfolding len_def [symmetric] using raw chunk by (cases "header AND 0x8000 = 0") (simp_all only: if_True if_False simp_thms(6))
  qed
qed (auto simp: lznt1_step_def simp del: return_run intro!: safe)

lemma lznt1_do_uncompress_safe: "run_safe t (lznt1_do_uncompress ub offset in_size) (\<lambda>_. True)"
proof (cases "MAX_INPUT_SIZE <s in_size")
  case True
  then show ?thesis by (simp add: run_safe_def lznt1_do_uncompress_def lz_outcome_def)
next
  case False
  then have size: "sint in_size \<le> 2 ^ 24"
    by (simp add: MAX_INPUT_SIZE_def word_sless_alt sint_gint not_less)
  let ?I = "\<lambda>v :: gint. \<exists>n. n \<le> 2 ^ 24 + 4098 \<and> v = of_nat n"
  let ?m = "\<lambda>v :: gint. nat (2 ^ 24 + 4098 - sint v)"
  have "run_safe t (lznt1_step ub offset in_size v)
      (\<lambda>r. case r of Inl v' \<Rightarrow> ?I v' \<and> ?m v' < ?m v | Inr _ \<Rightarrow> True)" if "?I v" for v
  proof -
    from that obtain n where n: "n \<le> 2 ^ 24 + 4098" and v: "v = of_nat n" by blast
    show ?thesis unfolding v
    proof (rule run_safe_weaken [OF lznt1_step_safe [OF n size]])
      fix r :: "gint + bool"
      assume *: "\<forall>v. r = Inl v \<longrightarrow> n < 2 ^ 24 \<and> (\<exists>k. 1 \<le> k \<and> k \<le> 4098 \<and> v = of_nat (n + k))"
      show "case r of Inl v' \<Rightarrow> ?I v' \<and> ?m v' < ?m (of_nat n) | Inr _ \<Rightarrow> True"
      proof (cases r)
        case (Inl v')
        with * obtain k where k: "n < 2 ^ 24" "1 \<le> k" "k \<le> 4098" "v' = of_nat (n + k)" by blast
        then have "n + k < 2 ^ 31" "n < 2 ^ 31" by simp_all
        then have "sint (of_nat (n + k) :: gint) = int (n + k)" "sint (of_nat n :: gint) = int n"
          by (simp_all only: sint_small)
        with Inl k show ?thesis by (auto intro!: exI [of _ "n + k"])
      qed simp
    qed
  qed
  moreover have "?I 0" by (auto intro: exI [of _ 0])
  ultimately have "run_safe t (loopO (lznt1_step ub offset in_size) 0) (\<lambda>_. True)"
    by (rule loopO_safe [where I = ?I and measure_of = ?m])
  with False show ?thesis by (auto simp: run_safe_def lznt1_do_uncompress_def lz_inv_def)
qed

section \<open>The buffer that is made of the output\<close>

text \<open>The run ends with 2 GB of output or more, which no buffer can hold.\<close>

definition outgrows :: "(lz, bool) run \<Rightarrow> tvbuff option \<Rightarrow> gint \<Rightarrow> bool" where
  "outgrows do_uncompress tvb in_size \<longleftrightarrow>
     (\<exists>r s. do_uncompress \<lparr>src = tvb, obuf = wmem_array_sized_new 1 (in_size * 2)\<rparr> = Some (r, s) \<and>
        2 ^ 31 \<le> unat (elem_count (obuf s)))"

lemma those_map_Some [simp]: "those (map Some xs) = Some xs"
  by (induction xs) simp_all

text \<open>The copy of a byte array and the buffer on it.\<close>

lemma byte_array_copy:
  assumes "byte_array a bs"
  shows "load_bytes 0 (unat (wmem_array_get_count a)) (wmem_array_get_raw a) = Inr (map Some bs)"
proof -
  note a = byte_arrayD [OF assms]
  have "unat (elem_count a) \<le> length (buf a)" using a(2,3) by (simp add: array_room_def)
  then show ?thesis using a(3,5)
    by (simp add: load_bytes_def wmem_array_get_count_def wmem_array_get_raw_def contents_def)
qed

lemma tvb_new_real_data_bytes:
  assumes "length bs < 2 ^ 31"
  obtains out where "tvb_new_real_data (Some bs) (of_nat (length bs)) (of_nat (length bs)) = Inr out"
    "tvb_wf out" "tvb_bytes out = bs"
proof -
  have "\<not> (of_nat (length bs) :: gint) <s - 1" using assms by (simp add: word_sless_alt sint_small)
  then show thesis using assms
    by (intro that) (auto simp: tvb_new_real_data_def tvb_new_def word_less_nat_alt unsigned_of_nat
        take_bit_nat_eq_self)
qed

lemma lz_inv_start:
  "tvb_wf t \<Longrightarrow> lz_inv t \<lparr>src = Some t, obuf = wmem_array_sized_new 1 n\<rparr>"
  using byte_array_new [of n] by (auto simp: lz_inv_def same_view_refl)

lemma uncompress_with_safe:
  assumes "run_safe t m (\<lambda>_. True)" "tvb_wf t"
  obtains r t' where "uncompress_with m (Some t) in_size = Some (r, Some t')" "same_view t t'"
    "r = Inr None \<or> (\<exists>out. r = Inr (Some out) \<and> tvb_wf out) \<or> outgrows m (Some t) in_size"
proof -
  let ?s = "\<lparr>src = Some t, obuf = wmem_array_sized_new 1 (in_size * 2)\<rparr>"
  from assms(1) lz_inv_start [OF assms(2)] obtain r s where m: "m ?s = Some (r, s)"
    and o': "lz_outcome t (\<lambda>_. True) (r, s)" unfolding run_safe_def by (metis surj_pair)
  from o' obtain t' bs where t': "src s = Some t'" "same_view t t'" and bs: "byte_array (obuf s) bs"
    by (auto simp: lz_outcome_def lz_inv_def)
  show thesis
  proof (cases "2 ^ 31 \<le> unat (elem_count (obuf s))")
    case True
    with m have "outgrows m (Some t) in_size" by (auto simp: outgrows_def)
    with m t' show ?thesis by (intro that) (auto simp: uncompress_with_def)
  next
    case False
    then have len: "length bs < 2 ^ 31" by (simp add: byte_arrayD(6) [OF bs])
    from tvb_new_real_data_bytes [OF len] obtain out where
      out: "tvb_new_real_data (Some bs) (of_nat (length bs)) (of_nat (length bs)) = Inr out" "tvb_wf out" by blast
    have "r = Inr False \<or> r = Inr True \<or> (\<exists>e. r = Inl e \<and> bounds_exc e)"
      using o' False by (cases r) (auto simp: lz_outcome_def)
    then show ?thesis
    proof (elim disjE exE conjE)
      fix e
      assume "r = Inl e" "bounds_exc e"
      then show ?thesis using m t'
        by (intro that [of "Inr None" t']) (auto simp: uncompress_with_def split: exc.splits)
    next
      assume "r = Inr True"
      then show ?thesis using m t' out byte_array_copy [OF bs]
        by (intro that [of "Inr (Some out)" t']) (simp_all add: uncompress_with_def Let_def byte_array_count [OF bs])
    qed (use m t' in \<open>auto intro!: that [of "Inr None" t'] simp: uncompress_with_def\<close>)
  qed
qed

text \<open>
  C10. Whatever the buffer holds, and whatever the machine makes of an undefined shift, decompressing LZNT1
  returns: it reads the buffer only within its bounds and the output array only where it has written,
  catches the exceptions a truncated input throws, leaves the buffer as it was for every reader, and
  yields NULL or a proper new buffer, unless the output grows to 2 GB.
\<close>

theorem tvb_uncompress_lznt1_safe:
  assumes "tvb_wf t"
  shows "\<exists>r t'. tvb_uncompress_lznt1 ub (Some t) offset in_size = Some (r, Some t') \<and> same_view t t' \<and>
    (r = Inr None \<or> (\<exists>out. r = Inr (Some out) \<and> tvb_wf out) \<or>
     outgrows (lznt1_do_uncompress ub offset in_size) (Some t) in_size)"
  using uncompress_with_safe [OF lznt1_do_uncompress_safe assms] unfolding tvb_uncompress_lznt1_def
  by metis

theorem tvb_uncompress_lznt1_safe_witness:
  "\<exists>r t'. tvb_uncompress_lznt1 (\<lambda>_ _. 0) (Some sample_composite) 0 10 = Some (r, Some t') \<and>
     same_view sample_composite t'"
  using tvb_uncompress_lznt1_safe [of sample_composite "\<lambda>_ _. 0" 0 10] by (auto simp: sample)

end
