(* ===== verification/LzRoundtrip.thy ===== *)
theory LzRoundtrip
  imports LzSafety
begin

text \<open>
  What LZNT1 data is, written as an encoder from literals and copies to bytes, and the proof that the
  decompressor of epan/tvbuff_lznt1.c takes every such encoding back to the bytes it stands for.
\<close>

section \<open>Runs with a known result\<close>

definition lz_at :: "tvbuff \<Rightarrow> guint8 list \<Rightarrow> lz \<Rightarrow> bool" where
  "lz_at t bs s \<longleftrightarrow> (\<exists>t'. src s = Some t' \<and> same_view t t') \<and> byte_array (obuf s) bs"

definition yields :: "tvbuff \<Rightarrow> guint8 list \<Rightarrow> (lz, 'a) action \<Rightarrow> 'a \<Rightarrow> guint8 list \<Rightarrow> bool" where
  "yields t bs m x bs' \<longleftrightarrow> (\<forall>s. lz_at t bs s \<longrightarrow> (\<exists>s'. m s = (Inr x, s') \<and> lz_at t bs' s'))"

definition run_yields :: "tvbuff \<Rightarrow> guint8 list \<Rightarrow> (lz, 'a) run \<Rightarrow> 'a \<Rightarrow> guint8 list \<Rightarrow> bool" where
  "run_yields t bs m x bs' \<longleftrightarrow> (\<forall>s. lz_at t bs s \<longrightarrow> (\<exists>s'. m s = Some (Inr x, s') \<and> lz_at t bs' s'))"

lemma yields_return: "yields t bs (return x) x bs"
  by (simp add: yields_def)

lemma yields_bind: "yields t bs m x bs1 \<Longrightarrow> yields t bs1 (k x) y bs2 \<Longrightarrow> yields t bs (bindS m k) y bs2"
  by (fastforce simp: yields_def)

lemma run_yields_returning: "yields t bs m x bs' \<Longrightarrow> run_yields t bs (returning m) x bs'"
  by (fastforce simp: yields_def run_yields_def returning_def)

lemma run_yields_bind:
  "run_yields t bs m x bs1 \<Longrightarrow> run_yields t bs1 (k x) y bs2 \<Longrightarrow> run_yields t bs (bindO m k) y bs2"
  by (fastforce simp: run_yields_def bindO_def)

lemma run_yields_again:
  "run_yields t bs (step v) (Inl v') bs1 \<Longrightarrow> run_yields t bs1 (loopO step v') x bs2 \<Longrightarrow>
   run_yields t bs (loopO step v) x bs2"
  unfolding run_yields_def by (subst loopO.simps) fastforce

lemma run_yields_done: "run_yields t bs (step v) (Inr x) bs1 \<Longrightarrow> run_yields t bs (loopO step v) x bs1"
  unfolding run_yields_def by (subst loopO.simps) fastforce

lemma lz_atE:
  assumes "lz_at t bs s"
  obtains t' where "src s = Some t'" "same_view t t'" "byte_array (obuf s) bs"
  using assms by (auto simp: lz_at_def)

lemma in_bounds_small:
  assumes "tvb_wf t" "p + n \<le> length (tvb_bytes t)" "n \<le> 8"
  shows "in_bounds t (of_nat p) (of_nat n)" "slice t (of_nat p) n = take n (drop p (tvb_bytes t))"
proof -
  have cap: "length (tvb_bytes t) = unat (caplen (hdr t))" "unat (caplen (hdr t)) < 2 ^ 31"
    using length_tvb_bytes [OF assms(1)] tvb_wf_caplen [OF assms(1)] by (simp_all add: word_less_nat_alt)
  then have "p < 2 ^ 31" using assms(2) by simp
  then have p: "position t (of_nat p) = int p" by (simp add: position_def sint_small)
  have "sint (of_nat n :: gint) = int n" using assms(3) by (simp add: sint_small)
  moreover have "uint (caplen (hdr t)) = int (length (tvb_bytes t))" by (simp add: cap(1))
  ultimately show "in_bounds t (of_nat p) (of_nat n)"
    using assms(2) unfolding in_bounds_def extent_def p by simp
  show "slice t (of_nat p) n = take n (drop p (tvb_bytes t))" by (simp add: slice_def p)
qed

lemma lz_get_yields:
  assumes "\<And>t' offset. tvb_wf t' \<Longrightarrow> reads n num t' offset (get t' offset)" "tvb_wf t"
    and "p + n \<le> length (tvb_bytes t)" "n \<le> 8"
    and v: "num (take n (drop p (tvb_bytes t))) = unat v"
  shows "yields t bs (lz_get get (of_nat p)) v bs"
  unfolding yields_def
proof (intro allI impI)
  fix s
  assume "lz_at t bs s"
  then obtain t' where t': "src s = Some t'" "same_view t t'" "byte_array (obuf s) bs" by (rule lz_atE)
  note same = same_viewD [OF t'(2)]
  have "p + n \<le> length (tvb_bytes t')" using assms(3) same(2) by simp
  note there = in_bounds_small [OF same(1) this assms(4)]
  from assms(1) [OF same(1), of "of_nat p"] there obtain w t'' where
    w: "get t' (of_nat p) = Inr (w, t'')" "unat w = num (slice t' (of_nat p) n)" "same_view t' t''"
    by (auto simp: reads_def)
  from w(2) there(2) same(2) v have "unat w = unat v" by simp
  then have "w = v" by (rule unat_eqI)
  with w t' same_view_trans [OF t'(2) w(3)]
  show "\<exists>s'. lz_get get (of_nat p) s = (Inr v, s') \<and> lz_at t bs s'"
    by (simp add: lz_get_def lz_at_def)
qed

lemma lz_get8_yields:
  assumes "tvb_wf t" "drop p (tvb_bytes t) = b # rest"
  shows "yields t bs (lz_get tvb_get_guint8 (of_nat p)) b bs"
proof (rule lz_get_yields [OF ntoh_reads(1) assms(1)])
  show "p + 1 \<le> length (tvb_bytes t)"
    using assms(2) by (metis Suc_eq_plus1 drop_all list.distinct(1) not_less_eq_eq)
qed (simp_all add: assms(2))

lemma lz_get16_yields:
  assumes "tvb_wf t" "drop p (tvb_bytes t) = lo # hi # rest"
    and "unat v = unat lo + 256 * unat hi"
  shows "yields t bs (lz_get tvb_get_letohs (of_nat p)) v bs"
proof (rule lz_get_yields [OF letoh_reads(1) assms(1)])
  have "length (drop p (tvb_bytes t)) = Suc (Suc (length rest))" by (simp add: assms(2))
  then show "p + 2 \<le> length (tvb_bytes t)" by simp
qed (simp_all add: assms(2,3))

lemma emit_yields:
  assumes "length bs < 2 ^ 31"
  shows "yields t bs (emit b) () (bs @ [b])"
  unfolding yields_def
proof (intro allI impI)
  fix s
  assume "lz_at t bs s"
  then obtain t' where t': "src s = Some t'" "same_view t t'" "byte_array (obuf s) bs" by (rule lz_atE)
  from byte_array_append_one [OF t'(3), of b] assms t'
  show "\<exists>s'. emit b s = (Inr (), s') \<and> lz_at t (bs @ [b]) s'" by (auto simp: emit_def lz_at_def)
qed

lemma emitted_yields:
  assumes "i < length bs" "length bs \<le> 2 ^ 31"
  shows "yields t bs (emitted (of_nat i)) (Some (bs ! i)) bs"
  unfolding yields_def
proof (intro allI impI)
  fix s
  assume at: "lz_at t bs s"
  then obtain t' where t': "src s = Some t'" "same_view t t'" "byte_array (obuf s) bs" by (rule lz_atE)
  have "unat (of_nat i :: guint) = i" using assms by (simp add: unsigned_of_nat take_bit_nat_eq_self)
  with assms(1) at show "\<exists>s'. emitted (of_nat i) s = (Inr (Some (bs ! i)), s') \<and> lz_at t bs s'"
    by (simp add: emitted_def byte_array_try_index [OF t'(3)])
qed

lemma emitted_count_yields: "yields t bs emitted_count (of_nat (length bs)) bs"
  unfolding yields_def by (auto simp: emitted_count_def lz_at_def byte_array_count)

section \<open>Tokens and what they stand for\<close>

datatype tok = Lit guint8 | Copy nat nat

primrec copy_back :: "nat \<Rightarrow> nat \<Rightarrow> guint8 list \<Rightarrow> guint8 list" where
  "copy_back 0 off out = out"
| "copy_back (Suc n) off out = copy_back n off (out @ [out ! (length out - off)])"

fun expand_tok :: "tok \<Rightarrow> guint8 list \<Rightarrow> guint8 list" where
  "expand_tok (Lit b) out = out @ [b]"
| "expand_tok (Copy off n) out = copy_back n off out"

fun tok_length :: "tok \<Rightarrow> nat" where
  "tok_length (Lit b) = 1"
| "tok_length (Copy off n) = n"

fun is_copy :: "tok \<Rightarrow> bool" where
  "is_copy (Lit b) \<longleftrightarrow> False"
| "is_copy (Copy off n) \<longleftrightarrow> True"

lemma length_copy_back [simp]: "length (copy_back n off out) = length out + n"
  by (induction n arbitrary: out) simp_all

lemma length_expand_tok [simp]: "length (expand_tok k out) = length out + tok_length k"
  by (cases k) simp_all

section \<open>The encoding of LZNT1\<close>

text \<open>The number of bits for an offset below \<open>pos + 1\<close>: as many as \<open>pos\<close> has, but 4 at least.\<close>

fun disp_bits :: "nat \<Rightarrow> nat" where
  "disp_bits pos = (if 16 \<le> pos then Suc (disp_bits (pos div 2)) else 4)"

declare disp_bits.simps [simp del]

text \<open>A copy of \<open>n\<close> bytes at position \<open>p\<close> of the chunk is 16 bits, the low byte first.\<close>

definition copy_word :: "nat \<Rightarrow> nat \<Rightarrow> nat \<Rightarrow> nat" where
  "copy_word p off n = (off - 1) * 2 ^ (16 - disp_bits (p - 1)) + (n - 3)"

fun tok_bytes :: "nat \<Rightarrow> tok \<Rightarrow> guint8 list" where
  "tok_bytes p (Lit b) = [b]"
| "tok_bytes p (Copy off n) = [of_nat (copy_word p off n mod 256), of_nat (copy_word p off n div 256)]"

fun tok_valid :: "nat \<Rightarrow> tok \<Rightarrow> bool" where
  "tok_valid p (Lit b) \<longleftrightarrow> True"
| "tok_valid p (Copy off n) \<longleftrightarrow>
     1 \<le> off \<and> off \<le> p \<and> p \<le> 4096 \<and> 3 \<le> n \<and> n - 3 < 2 ^ (16 - disp_bits (p - 1))"

primrec toks_bytes :: "nat \<Rightarrow> tok list \<Rightarrow> guint8 list" where
  "toks_bytes p [] = []"
| "toks_bytes p (k # ks) = tok_bytes p k @ toks_bytes (p + tok_length k) ks"

primrec toks_valid :: "nat \<Rightarrow> tok list \<Rightarrow> bool" where
  "toks_valid p [] \<longleftrightarrow> True"
| "toks_valid p (k # ks) \<longleftrightarrow> tok_valid p k \<and> toks_valid (p + tok_length k) ks"

definition toks_length :: "tok list \<Rightarrow> nat" where
  "toks_length ks = sum_list (map tok_length ks)"

definition expand_toks :: "tok list \<Rightarrow> guint8 list \<Rightarrow> guint8 list" where
  "expand_toks ks out = fold expand_tok ks out"

text \<open>Eight tokens at a time, after the byte that says which of them are copies.\<close>

definition flag_byte :: "tok list \<Rightarrow> guint8" where
  "flag_byte ks = horner_sum of_bool 2 (map is_copy ks)"

fun groups_bytes :: "nat \<Rightarrow> tok list \<Rightarrow> guint8 list" where
  "groups_bytes p ks =
     (if ks = [] then []
      else flag_byte (take 8 ks) # toks_bytes p (take 8 ks) @
        groups_bytes (p + toks_length (take 8 ks)) (drop 8 ks))"

declare groups_bytes.simps [simp del]

text \<open>
  A chunk starts with a word of 16 bits: the length less one, the signature 3, and the top bit if the
  chunk is compressed.
\<close>

datatype chunk = Raw "guint8 list" | Packed "tok list"

definition header_bytes :: "bool \<Rightarrow> nat \<Rightarrow> guint8 list" where
  "header_bytes packed n =
     (let w = (n - 1) + (if packed then 0xB000 else 0x3000) in [of_nat (w mod 256), of_nat (w div 256)])"

fun chunk_bytes :: "chunk \<Rightarrow> guint8 list" where
  "chunk_bytes (Raw bs) = header_bytes False (length bs) @ bs"
| "chunk_bytes (Packed ks) = header_bytes True (length (groups_bytes 0 ks)) @ groups_bytes 0 ks"

fun chunk_valid :: "chunk \<Rightarrow> bool" where
  "chunk_valid (Raw bs) \<longleftrightarrow> bs \<noteq> [] \<and> length bs \<le> 4096"
| "chunk_valid (Packed ks) \<longleftrightarrow> ks \<noteq> [] \<and> toks_valid 0 ks \<and> length (groups_bytes 0 ks) \<le> 4096"

fun chunk_data :: "chunk \<Rightarrow> guint8 list" where
  "chunk_data (Raw bs) = bs"
| "chunk_data (Packed ks) = expand_toks ks []"

definition lznt1_encode :: "chunk list \<Rightarrow> guint8 list" where
  "lznt1_encode cs = concat (map chunk_bytes cs)"

definition lznt1_data :: "chunk list \<Rightarrow> guint8 list" where
  "lznt1_data cs = concat (map chunk_data cs)"

section \<open>One token\<close>

lemma disp_bits_bound: "pos < 2 ^ disp_bits pos" "4 \<le> disp_bits pos"
proof (induction pos rule: disp_bits.induct)
  case (1 pos)
  {
    case 1
    show ?case using "1.IH" by (subst disp_bits.simps) auto
  next
    case 2
    show ?case using "1.IH" by (subst disp_bits.simps) auto
  }
qed

lemma disp_bits_le: "pos < 2 ^ k \<Longrightarrow> 4 \<le> k \<Longrightarrow> disp_bits pos \<le> k"
proof (induction pos arbitrary: k rule: disp_bits.induct)
  case (1 pos)
  show ?case
  proof (cases "16 \<le> pos")
    case True
    have "k \<noteq> 4" using True "1.prems"(1) by auto
    with "1.prems"(2) obtain j where j: "k = Suc j" "4 \<le> j" by (cases k) auto
    with "1.prems"(1) have "pos div 2 < 2 ^ j" by simp
    from "1.IH" [OF True this j(2)] True j(1) show ?thesis by (subst disp_bits.simps) simp
  next
    case False
    with "1.prems"(2) show ?thesis by (subst disp_bits.simps) simp
  qed
qed

lemma drop_mask: "m \<le> 32 \<Longrightarrow> drop_bit 1 (mask m :: guint) = mask (m - 1)"
  by (rule bit_word_eqI) (auto simp: bit_simps)

lemma match_split_bits:
  assumes "pos < 2 ^ 32" "disp_bits pos \<le> m + 4" "m \<le> 32"
  shows "match_split (of_nat pos) (mask m) (of_nat m) =
    (mask (m + 4 - disp_bits pos), of_nat (m + 4 - disp_bits pos))"
  using assms
proof (induction pos arbitrary: m rule: disp_bits.induct)
  case (1 pos)
  have u: "unat (of_nat pos :: guint) = pos"
    using "1.prems"(1) by (simp add: unsigned_of_nat take_bit_nat_eq_self)
  show ?case
  proof (cases "16 \<le> pos")
    case True
    then have bits: "disp_bits pos = Suc (disp_bits (pos div 2))" by (subst disp_bits.simps) simp
    from disp_bits_bound(2) [of "pos div 2"] "1.prems"(2) bits have m: "0 < m" by simp
    have "unat (drop_bit 1 (of_nat pos :: guint)) = pos div 2"
      by (simp add: drop_bit_eq_div unat_div u)
    moreover have "unat (of_nat (pos div 2) :: guint) = pos div 2"
      using "1.prems"(1) by (simp add: unsigned_of_nat take_bit_nat_eq_self)
    ultimately have half: "drop_bit 1 (of_nat pos :: guint) = of_nat (pos div 2)" by (intro unat_eqI) simp
    have "0x10 \<le> (of_nat pos :: guint)" using True by (simp add: word_le_nat_alt u)
    moreover have "of_nat m - 1 = (of_nat (m - 1) :: guint)" using m by (simp add: of_nat_diff)
    ultimately have "match_split (of_nat pos) (mask m) (of_nat m) =
        match_split (of_nat (pos div 2)) (mask (m - 1)) (of_nat (m - 1))"
      unfolding match_split.simps [of "of_nat pos"] using half drop_mask [OF "1.prems"(3)]
      by (simp only: if_True)
    also have "\<dots> = (mask (m - 1 + 4 - disp_bits (pos div 2)), of_nat (m - 1 + 4 - disp_bits (pos div 2)))"
      by (rule "1.IH" [OF True]) (use "1.prems" bits m in auto)
    also have "m - 1 + 4 - disp_bits (pos div 2) = m + 4 - disp_bits pos" using bits m by simp
    finally show ?thesis .
  next
    case False
    then have "disp_bits pos = 4" by (subst disp_bits.simps) simp
    moreover have "\<not> 0x10 \<le> (of_nat pos :: guint)" using False by (simp add: word_le_nat_alt u)
    ultimately show ?thesis by (subst match_split.simps) simp
  qed
qed

lemma unat_small: "n < 2 ^ 32 \<Longrightarrow> unat (of_nat n :: guint) = n"
  by (simp add: unsigned_of_nat take_bit_nat_eq_self)

text \<open>The bytes a copy yields, appended one at a time behind those it copies.\<close>

lemma lznt1_copy_yields:
  assumes "length old = st" "length cur = p" "1 \<le> off" "off \<le> p" "st + p + n \<le> 2 ^ 31"
  shows "yields t (old @ cur) (lznt1_copy n (of_nat off) (of_nat st) (of_nat p)) (Some (of_nat (p + n)))
    (old @ copy_back n off cur)"
  using assms(2,4,5)
proof (induction n arbitrary: cur p)
  case 0
  then show ?case by (simp add: yields_return del: return_run)
next
  case (Suc n)
  let ?b = "cur ! (p - off)"
  have "\<not> (of_nat p :: guint) < of_nat off"
    using Suc.prems(2,3) by (simp add: word_less_nat_alt unat_small)
  moreover have "of_nat st + of_nat p - of_nat off = (of_nat (st + p - off) :: guint)"
    using Suc.prems(2) by (simp add: of_nat_diff)
  moreover have "(old @ cur) ! (st + p - off) = ?b"
    using nth_append_length_plus [of old cur "p - off"] assms(1) Suc.prems(2) by simp
  moreover have "yields t (old @ cur) (emitted (of_nat (st + p - off))) (Some ((old @ cur) ! (st + p - off))) (old @ cur)"
    by (rule emitted_yields) (use assms(1,3) Suc.prems in auto)
  moreover have "yields t (old @ cur) (emit ?b) () ((old @ cur) @ [?b])"
    by (rule emit_yields) (use assms(1) Suc.prems in auto)
  moreover have "yields t (old @ cur @ [?b]) (lznt1_copy n (of_nat off) (of_nat st) (of_nat (p + 1)))
      (Some (of_nat (p + 1 + n))) (old @ copy_back n off (cur @ [?b]))"
    by (rule Suc.IH) (use Suc.prems in auto)
  moreover have "copy_back n off (cur @ [?b]) = copy_back (Suc n) off cur" using Suc.prems(1) by simp
  moreover have "of_nat p + 1 = (of_nat (p + 1) :: gint)" "p + 1 + n = p + Suc n" by simp_all
  ultimately show ?case unfolding lznt1_copy.simps append_assoc
    by (simp only: if_False) (rule yields_bind, assumption, simp only: option.case, rule yields_bind, assumption)
qed

lemma copy_word_parts:
  assumes "tok_valid p (Copy off n)"
  defines "k \<equiv> 16 - disp_bits (p - 1)"
  shows "copy_word p off n < 2 ^ 16" "copy_word p off n mod 2 ^ k = n - 3" "copy_word p off n div 2 ^ k = off - 1"
    "disp_bits (p - 1) \<le> 12"
proof -
  have v: "1 \<le> off" "off \<le> p" "p \<le> 4096" "n - 3 < 2 ^ k" using assms by simp_all
  have "p - 1 < 2 ^ 12" using v(3) by simp
  then show d: "disp_bits (p - 1) \<le> 12" by (rule disp_bits_le) simp
  have word: "copy_word p off n = (off - 1) * 2 ^ k + (n - 3)" by (simp add: copy_word_def k_def)
  have "off - 1 < 2 ^ disp_bits (p - 1)" using disp_bits_bound(1) [of "p - 1"] v(2) by linarith
  then have "(off - 1) * 2 ^ k + 2 ^ k \<le> 2 ^ disp_bits (p - 1) * 2 ^ k"
    using mult_le_mono1 [of "off - 1 + 1" "2 ^ disp_bits (p - 1)" "2 ^ k"] by (simp add: add_mult_distrib)
  also have "\<dots> = 2 ^ 16" using d by (simp add: k_def flip: power_add)
  finally show "copy_word p off n < 2 ^ 16" using v(4) word by linarith
  show "copy_word p off n mod 2 ^ k = n - 3" "copy_word p off n div 2 ^ k = off - 1"
    using v(4) by (simp_all add: word)
qed

lemma flag_clear: "drop_bit i (flagbits :: guint8) AND 1 = 0 \<longleftrightarrow> \<not> bit flagbits i"
  by (simp add: and_one_eq bit_iff_odd_drop_bit even_iff_mod_2_eq_zero)

lemma lznt1_token_yields:
  assumes "tvb_wf t" "drop (q + a) (tvb_bytes t) = tok_bytes p k @ rest"
    and "length old = st" "length cur = p" "tok_valid p k" "st + p + tok_length k \<le> 2 ^ 31"
    and "bit flagbits i \<longleftrightarrow> is_copy k"
  shows "yields t (old @ cur) (lznt1_token ub (of_nat q) (of_nat st) flagbits i (of_nat a, of_nat p))
    (Some (of_nat (a + length (tok_bytes p k)), of_nat (p + tok_length k))) (old @ expand_tok k cur)"
proof (cases k)
  case (Lit b)
  have "yields t (old @ cur) (lz_get tvb_get_guint8 (of_nat (q + a))) b (old @ cur)"
    by (rule lz_get8_yields [OF assms(1), of _ _ rest]) (use assms(2) Lit in simp)
  moreover have "yields t (old @ cur) (emit b) () ((old @ cur) @ [b])"
    by (rule emit_yields) (use assms(3,4,6) Lit in simp)
  moreover have "drop_bit i flagbits AND 1 = 0" using assms(7) Lit by (simp add: flag_clear)
  moreover have "of_nat a + 1 = (of_nat (a + length (tok_bytes p k)) :: gint)"
    "of_nat p + 1 = (of_nat (p + tok_length k) :: gint)" "(old @ cur) @ [b] = old @ expand_tok k cur"
    "of_nat q + of_nat a = (of_nat (q + a) :: gint)"
    using Lit by simp_all
  ultimately show ?thesis unfolding lznt1_token_def prod.case
    by (simp only: if_True simp_thms(6)) (rule yields_bind, assumption, rule yields_bind, assumption, rule yields_return)
next
  case (Copy off n)
  let ?w = "copy_word p off n" and ?k = "16 - disp_bits (p - 1)"
  have valid: "tok_valid p (Copy off n)" using assms(5) Copy by simp
  note word = copy_word_parts [OF valid]
  define v :: guint16 where "v = of_nat ?w"
  have uv: "unat v = ?w" using word(1) by (simp add: v_def unsigned_of_nat take_bit_nat_eq_self)
  have "yields t (old @ cur) (lz_get tvb_get_letohs (of_nat (q + a))) v (old @ cur)"
  proof (rule lz_get16_yields [OF assms(1), of _ _ _ rest])
    show "drop (q + a) (tvb_bytes t) = of_nat (?w mod 256) # of_nat (?w div 256) # rest"
      using assms(2) Copy by simp
    have "?w div 256 < 256" using word(1) by simp
    then show "unat v = unat (of_nat (?w mod 256) :: guint8) + 256 * unat (of_nat (?w div 256) :: guint8)"
      by (simp add: uv unsigned_of_nat take_bit_nat_eq_self take_bit_eq_mod)
  qed
  moreover have "yields t (old @ cur) (lznt1_copy n (of_nat off) (of_nat st) (of_nat p)) (Some (of_nat (p + n)))
      (old @ copy_back n off cur)"
    by (rule lznt1_copy_yields) (use assms(3-6) Copy in auto)
  moreover have "drop_bit i flagbits AND 1 \<noteq> 0" using assms(7) Copy by (simp add: flag_clear)
  moreover have "match_split (of_nat p - 1) 0x0FFF 12 = (mask ?k, of_nat ?k)"
  proof -
    have "1 \<le> p" "p - 1 < 2 ^ 32" using valid by auto
    then have "of_nat p - 1 = (of_nat (p - 1) :: guint)" by (simp add: of_nat_diff)
    moreover have "(0x0FFF :: guint) = mask 12" by (simp add: mask_numeral)
    ultimately show ?thesis
      using match_split_bits [OF \<open>p - 1 < 2 ^ 32\<close>, of 12] word(4) by simp
  qed
  moreover have f: "unat (ucast v :: guint) = ?w"
    using word(1) by (simp add: unsigned_ucast_eq uv take_bit_nat_eq_self)
  have "unat (ucast v AND mask ?k :: guint) = take_bit ?k (unat (ucast v :: guint))"
    by (simp only: take_bit_eq_mask [symmetric] unsigned_take_bit_eq)
  then have "unat (ucast v AND mask ?k :: guint) = n - 3"
    by (simp only: f take_bit_eq_mod word(2))
  then have len: "unat ((ucast v AND mask ?k) + 3 :: guint) = n"
  proof -
    assume n: "unat (ucast v AND mask ?k :: guint) = n - 3"
    have "n - 3 \<le> ?w" unfolding word(2) [symmetric] by (rule mod_less_eq_dividend)
    with word(1) valid n show ?thesis by (simp add: unat_word_ariths)
  qed
  moreover have "shift_right ub (ucast v) (of_nat ?k) + 1 = of_nat off"
  proof -
    have uk: "unat (of_nat ?k :: guint) = ?k" by (rule unat_small) simp
    have "unat (of_nat ?k :: guint) < unat (32 :: guint)" unfolding uk by simp
    then have "(of_nat ?k :: guint) < 32" by (simp only: word_less_nat_alt)
    moreover have "unat (drop_bit ?k (ucast v) :: guint) = drop_bit ?k (take_bit LENGTH(32) (unat (ucast v :: guint)))"
      by (rule unsigned_drop_bit_eq)
    then have "unat (drop_bit ?k (ucast v) :: guint) = off - 1"
    proof -
      assume "unat (drop_bit ?k (ucast v) :: guint) = drop_bit ?k (take_bit LENGTH(32) (unat (ucast v :: guint)))"
      moreover have "take_bit LENGTH(32) ?w = ?w" using word(1) by (simp add: take_bit_nat_eq_self)
      ultimately show ?thesis by (simp only: f drop_bit_eq_div word(3))
    qed
    moreover have "off - 1 < 2 ^ 32" using valid by auto
    ultimately have "shift_right ub (ucast v) (of_nat ?k) = of_nat (off - 1)"
      by (simp only: shift_right_def uk if_True) (rule unat_eqI, simp only: unat_small)
    then show ?thesis using valid by (simp add: of_nat_diff)
  qed
  moreover have "of_nat a + 2 = (of_nat (a + length (tok_bytes p k)) :: gint)"
    "of_nat (p + n) = (of_nat (p + tok_length k) :: gint)" "copy_back n off cur = expand_tok k cur"
    "of_nat q + of_nat a = (of_nat (q + a) :: gint)"
    using Copy by simp_all
  ultimately show ?thesis unfolding lznt1_token_def prod.case Let_def
    by (simp only: if_False prod.case) (rule yields_bind, assumption, simp only: if_False prod.case Let_def,
        rule yields_bind, assumption, simp only: option.map, rule yields_return)
qed

section \<open>The tokens of a group\<close>

lemma flag_byte_bit: "i < length ks \<Longrightarrow> length ks \<le> 8 \<Longrightarrow> bit (flag_byte ks) i \<longleftrightarrow> is_copy (ks ! i)"
  by (simp add: flag_byte_def bit_horner_sum_bit_word_iff)

lemma tok_bytes_pos: "0 < length (tok_bytes p k)"
  by (cases k) simp_all

lemma toks_simps [simp]:
  "toks_length [] = 0" "toks_length (k # ks) = tok_length k + toks_length ks"
  "expand_toks [] out = out" "expand_toks (k # ks) out = expand_toks ks (expand_tok k out)"
  by (simp_all add: toks_length_def expand_toks_def)

lemma toks_length_append [simp]: "toks_length (ks @ js) = toks_length ks + toks_length js"
  by (simp add: toks_length_def)

lemma length_expand_toks [simp]: "length (expand_toks ks out) = length out + toks_length ks"
  by (induction ks arbitrary: out) simp_all

lemma expand_toks_append: "expand_toks (ks @ js) out = expand_toks js (expand_toks ks out)"
  by (simp add: expand_toks_def)

lemma toks_valid_append: "toks_valid p (ks @ js) \<longleftrightarrow> toks_valid p ks \<and> toks_valid (p + toks_length ks) js"
  by (induction ks arbitrary: p) (simp_all add: add.assoc)

lemma lznt1_tokens_yields:
  assumes "tvb_wf t" "length old = st" "z < 2 ^ 31"
    and "drop (q + a) (tvb_bytes t) = toks_bytes p ks @ rest" "length cur = p" "toks_valid p ks"
    and "st + p + toks_length ks \<le> 2 ^ 31" "i + length ks \<le> 8"
    and "\<And>j. j < length ks \<Longrightarrow> bit flagbits (i + j) \<longleftrightarrow> is_copy (ks ! j)"
    and "a + length (toks_bytes p ks) \<le> z"
    and "z = a + length (toks_bytes p ks) \<Longrightarrow> ks \<noteq> []"
    and "z \<noteq> a + length (toks_bytes p ks) \<Longrightarrow> i + length ks = 8"
  shows "yields t (old @ cur)
    (lznt1_tokens ub (of_nat q) (of_nat z) (of_nat st) flagbits [i..<8] (of_nat a, of_nat p))
    (if z = a + length (toks_bytes p ks) then Inr True
     else Inl (of_nat (a + length (toks_bytes p ks)), of_nat (p + toks_length ks)))
    (old @ expand_toks ks cur)"
  using assms(4-)
proof (induction ks arbitrary: a p cur i)
  case Nil
  then have "z \<noteq> a" "i = 8" by auto
  then show ?case by (simp add: yields_return del: return_run)
next
  case (Cons k ks)
  let ?a = "a + length (tok_bytes p k)" and ?p = "p + tok_length k"
  let ?L = "length (toks_bytes ?p ks)"
  have "i < 8" using Cons.prems(5) by simp
  then have range: "[i..<8] = i # [Suc i..<8]" by (simp add: upt_conv_Cons)
  have here: "yields t (old @ cur) (lznt1_token ub (of_nat q) (of_nat st) flagbits i (of_nat a, of_nat p))
      (Some (of_nat ?a, of_nat ?p)) (old @ expand_tok k cur)"
  proof (rule lznt1_token_yields [OF assms(1) _ assms(2)])
    show "drop (q + a) (tvb_bytes t) = tok_bytes p k @ (toks_bytes ?p ks @ rest)" using Cons.prems(1) by simp
    show "bit flagbits i \<longleftrightarrow> is_copy k" using Cons.prems(6) [of 0] by simp
  qed (use Cons.prems in auto)
  have le: "?a + ?L \<le> z" using Cons.prems(7) by simp
  have eq: "of_nat ?a = (of_nat z :: gint) \<longleftrightarrow> ?a = z"
  proof -
    have "?a < 2 ^ 32" "z < 2 ^ 32" using le assms(3) by simp_all
    then show ?thesis by (metis unat_small)
  qed
  show ?case
  proof (cases "?a = z")
    case True
    with le have "?L = 0" by simp
    then have "ks = []" using tok_bytes_pos by (cases ks) auto
    with True eq show ?thesis unfolding range lznt1_tokens.simps
      by (intro yields_bind [OF here]) (simp add: yields_return del: return_run)
  next
    case False
    have "yields t (old @ expand_tok k cur)
        (lznt1_tokens ub (of_nat q) (of_nat z) (of_nat st) flagbits [Suc i..<8] (of_nat ?a, of_nat ?p))
        (if z = ?a + ?L then Inr True else Inl (of_nat (?a + ?L), of_nat (?p + toks_length ks)))
        (old @ expand_toks ks (expand_tok k cur))"
    proof (rule Cons.IH)
      have "drop (q + ?a) (tvb_bytes t) = drop (length (tok_bytes p k)) (drop (q + a) (tvb_bytes t))"
        by (simp add: drop_drop ac_simps)
      then show "drop (q + ?a) (tvb_bytes t) = toks_bytes ?p ks @ rest" using Cons.prems(1) by simp
      show "bit flagbits (Suc i + j) \<longleftrightarrow> is_copy (ks ! j)" if "j < length ks" for j
        using Cons.prems(6) [of "Suc j"] that by simp
      show "z = ?a + ?L \<Longrightarrow> ks \<noteq> []" using False by auto
    qed (use Cons.prems le in auto)
    moreover have "?a + ?L = a + length (toks_bytes p (k # ks))" "?p + toks_length ks = p + toks_length (k # ks)"
      "expand_toks ks (expand_tok k cur) = expand_toks (k # ks) cur" by simp_all
    ultimately show ?thesis unfolding range lznt1_tokens.simps
      by (intro yields_bind [OF here]) (simp only: option.case fst_conv eq False if_False)
  qed
qed

section \<open>Chunks\<close>

lemma chunk_loop_yields:
  assumes "tvb_wf t" "length old = st" "z < 2 ^ 31"
    and "drop (q + a) (tvb_bytes t) = groups_bytes p ks @ rest" "length cur = p" "toks_valid p ks"
    and "st + p + toks_length ks \<le> 2 ^ 31" "ks \<noteq> []" "z = a + length (groups_bytes p ks)"
  shows "run_yields t (old @ cur)
    (loopO (\<lambda>v. returning (lznt1_chunk_step ub (of_nat q) (of_nat z) (of_nat st) v)) (of_nat a, of_nat p))
    True (old @ expand_toks ks cur)"
  using assms(4-)
proof (induction "length ks" arbitrary: ks a p cur rule: less_induct)
  case less
  let ?g = "take 8 ks" and ?r = "drop 8 ks"
  let ?L = "length (toks_bytes p ?g)" and ?p = "p + toks_length ?g"
  let ?step = "\<lambda>v. returning (lznt1_chunk_step ub (of_nat q) (of_nat z) (of_nat st) v)"
  have ks: "ks = ?g @ ?r" by simp
  have bytes: "groups_bytes p ks = flag_byte ?g # toks_bytes p ?g @ groups_bytes ?p ?r"
    using less.prems(5) by (subst groups_bytes.simps) simp
  have valid: "toks_valid p ?g" "toks_valid ?p ?r"
    using less.prems(3) toks_valid_append [of p ?g ?r] by simp_all
  have len: "toks_length ks = toks_length ?g + toks_length ?r" using toks_length_append [of ?g ?r] by simp
  have expand: "expand_toks ks cur = expand_toks ?r (expand_toks ?g cur)"
    using expand_toks_append [of ?g ?r cur] by simp
  have z: "z = a + 1 + ?L + length (groups_bytes ?p ?r)" using less.prems(6) bytes by simp
  have done_iff: "z = a + 1 + ?L \<longleftrightarrow> ?r = []"
    unfolding z by (subst groups_bytes.simps) simp
  have "yields t (old @ cur) (lz_get tvb_get_guint8 (of_nat (q + a))) (flag_byte ?g) (old @ cur)"
    by (rule lz_get8_yields [OF assms(1)]) (use less.prems(1) bytes in simp)
  moreover have "yields t (old @ cur)
      (lznt1_tokens ub (of_nat q) (of_nat z) (of_nat st) (flag_byte ?g) [0..<8] (of_nat (a + 1), of_nat p))
      (if z = a + 1 + ?L then Inr True else Inl (of_nat (a + 1 + ?L), of_nat ?p)) (old @ expand_toks ?g cur)"
  proof (rule lznt1_tokens_yields [OF assms(1-3)])
    have "drop (q + (a + 1)) (tvb_bytes t) = tl (drop (q + a) (tvb_bytes t))" by (simp add: tl_drop drop_Suc)
    then show "drop (q + (a + 1)) (tvb_bytes t) = toks_bytes p ?g @ (groups_bytes ?p ?r @ rest)"
      using less.prems(1) bytes by simp
    show "0 + length ?g \<le> 8" by simp
    show "bit (flag_byte ?g) (0 + j) \<longleftrightarrow> is_copy (?g ! j)" if "j < length ?g" for j
      using flag_byte_bit [OF that] by simp
    show "z = a + 1 + ?L \<Longrightarrow> ?g \<noteq> []" using less.prems(5) by simp
    show "z \<noteq> a + 1 + ?L \<Longrightarrow> 0 + length ?g = 8" using done_iff by simp
  qed (use less.prems valid len z in auto)
  moreover have "(of_nat a :: gint) <s of_nat z"
  proof -
    have "a < z" using z by simp
    with assms(3) have "a < 2 ^ 31" "a < z" by simp_all
    with assms(3) show ?thesis by (simp only: word_sless_alt sint_small of_nat_less_iff)
  qed
  moreover have "of_nat q + of_nat a = (of_nat (q + a) :: gint)" "of_nat a + 1 = (of_nat (a + 1) :: gint)"
    by simp_all
  ultimately have step: "run_yields t (old @ cur) (?step (of_nat a, of_nat p))
      (if z = a + 1 + ?L then Inr True else Inl (of_nat (a + 1 + ?L), of_nat ?p)) (old @ expand_toks ?g cur)"
    unfolding lznt1_chunk_step_def prod.case
    by (intro run_yields_returning) (simp only: if_True, rule yields_bind)
  show ?case
  proof (cases "?r = []")
    case True
    with done_iff have e: "z = a + 1 + ?L" by blast
    from step have "run_yields t (old @ cur) (?step (of_nat a, of_nat p)) (Inr True) (old @ expand_toks ?g cur)"
      by (simp only: if_P [OF e])
    then have "run_yields t (old @ cur) (loopO ?step (of_nat a, of_nat p)) True (old @ expand_toks ?g cur)"
      by (rule run_yields_done)
    then show ?thesis by (simp only: expand True toks_simps)
  next
    case False
    have "run_yields t (old @ expand_toks ?g cur) (loopO ?step (of_nat (a + 1 + ?L), of_nat ?p)) True
        (old @ expand_toks ?r (expand_toks ?g cur))"
    proof (rule less.hyps)
      show "length ?r < length ks" using less.prems(5) by (cases ks) simp_all
      have "drop (q + (a + 1 + ?L)) (tvb_bytes t) = drop (1 + ?L) (drop (q + a) (tvb_bytes t))"
        by (simp add: drop_drop ac_simps)
      then show "drop (q + (a + 1 + ?L)) (tvb_bytes t) = groups_bytes ?p ?r @ rest"
        using less.prems(1) bytes by simp
      show "z = a + 1 + ?L + length (groups_bytes ?p ?r)" by (rule z)
    qed (use less.prems valid len False in auto)
    moreover from done_iff False have e: "z \<noteq> a + 1 + ?L" by blast
    from step have "run_yields t (old @ cur) (?step (of_nat a, of_nat p))
        (Inl (of_nat (a + 1 + ?L), of_nat ?p)) (old @ expand_toks ?g cur)"
      by (simp only: if_not_P [OF e])
    ultimately show ?thesis unfolding expand by (rule run_yields_again [rotated])
  qed
qed

lemma uncompress_chunk_yields:
  assumes "tvb_wf t" "drop q (tvb_bytes t) = groups_bytes 0 ks @ rest" "toks_valid 0 ks" "ks \<noteq> []"
    and "length out + toks_length ks \<le> 2 ^ 31" "length (groups_bytes 0 ks) < 2 ^ 31"
  shows "run_yields t out (uncompress_chunk ub (of_nat q) (of_nat (length (groups_bytes 0 ks)))) True
    (out @ expand_toks ks [])"
  unfolding uncompress_chunk_def
proof (rule run_yields_bind [OF run_yields_returning [OF emitted_count_yields]])
  have "drop (q + 0) (tvb_bytes t) = groups_bytes 0 ks @ rest" using assms(2) by simp
  from chunk_loop_yields [OF assms(1) refl assms(6) this, of "[]" out]
  show "run_yields t out (loopO (\<lambda>v. returning (lznt1_chunk_step ub (of_nat q)
      (of_nat (length (groups_bytes 0 ks))) (of_nat (length out)) v)) (0, 0)) True (out @ expand_toks ks [])"
    using assms by simp
qed

lemma lznt1_raw_yields:
  assumes "tvb_wf t" "drop (q + a) (tvb_bytes t) = bs @ rest" "length out + length bs \<le> 2 ^ 31"
  shows "yields t out (lznt1_raw (length bs) (of_nat q) (of_nat a)) (of_nat (a + length bs)) (out @ bs)"
  using assms(2,3)
proof (induction bs arbitrary: a out)
  case (Cons b bs)
  have "yields t out (lz_get tvb_get_guint8 (of_nat (q + a))) b out"
    by (rule lz_get8_yields [OF assms(1)]) (use Cons.prems(1) in simp)
  moreover have "yields t out (emit b) () (out @ [b])" by (rule emit_yields) (use Cons.prems(2) in simp)
  moreover have "yields t (out @ [b]) (lznt1_raw (length bs) (of_nat q) (of_nat (a + 1)))
      (of_nat (a + 1 + length bs)) ((out @ [b]) @ bs)"
  proof (rule Cons.IH)
    have "drop (q + (a + 1)) (tvb_bytes t) = tl (drop (q + a) (tvb_bytes t))" by (simp add: tl_drop drop_Suc)
    then show "drop (q + (a + 1)) (tvb_bytes t) = bs @ rest" using Cons.prems(1) by simp
  qed (use Cons.prems in simp)
  moreover have "of_nat q + of_nat a = (of_nat (q + a) :: gint)" "of_nat a + 1 = (of_nat (a + 1) :: gint)"
    "a + 1 + length bs = a + length (b # bs)" "(out @ [b]) @ bs = out @ b # bs"
    by simp_all
  ultimately show ?case unfolding list.size lznt1_raw.simps
    by (simp only: list.size add_0_right add_Suc_right lznt1_raw.simps) (rule yields_bind, assumption, rule yields_bind)
qed (simp add: yields_return del: return_run)

section \<open>The whole of the data\<close>

text \<open>The word at the start of a chunk, as the code takes it apart.\<close>

lemma header_word:
  fixes packed :: bool
  assumes "1 \<le> n" "n \<le> 4096"
  defines "w \<equiv> (n - 1) + (if packed then 0xB000 else 0x3000)"
  defines "v \<equiv> of_nat w :: guint16"
  shows "unat v = unat (of_nat (w mod 256) :: guint8) + 256 * unat (of_nat (w div 256) :: guint8)"
    "v AND 0x8000 = 0 \<longleftrightarrow> \<not> packed" "(ucast v AND 0x0FFF) + 1 = (of_nat n :: guint)"
proof -
  have w: "w < 2 ^ 16" "w mod 4096 = n - 1" "w div 32768 = (if packed then 1 else 0)"
  proof -
    define m where "m = n - 1"
    have m: "m < 4096" using assms(1,2) unfolding m_def by linarith
    have mods: "(m + 0xB000) mod 4096 = m" "(m + 0x3000) mod 4096 = m"
      using m mod_mult_self1 [of m 11 4096] mod_mult_self1 [of m 3 4096] by simp_all
    have divs: "(m + 0xB000) div 32768 = 1" "(m + 0x3000) div 32768 = 0"
      using m by (simp_all add: div_nat_eqI)
    have w: "w = m + (if packed then 0xB000 else 0x3000)" by (simp only: w_def m_def)
    show "w < 2 ^ 16" unfolding w using m by simp
    show "w mod 4096 = n - 1" unfolding w m_def [symmetric] using mods by (cases packed) (simp_all only: if_True if_False)
    show "w div 32768 = (if packed then 1 else 0)"
      unfolding w using divs by (cases packed) (simp_all only: if_True if_False)
  qed
  have v: "unat v = w" using w(1) by (simp add: v_def unsigned_of_nat take_bit_nat_eq_self)
  have "w div 256 < 256" using w(1) by simp
  then show "unat v = unat (of_nat (w mod 256) :: guint8) + 256 * unat (of_nat (w div 256) :: guint8)"
    by (simp add: v unsigned_of_nat take_bit_nat_eq_self take_bit_eq_mod)
  have "bit v 15 \<longleftrightarrow> bit (unat v) 15" by (simp add: bit_unsigned_iff)
  also have "\<dots> \<longleftrightarrow> odd (unat v div 2 ^ 15)" by (rule bit_iff_odd)
  finally have "bit v 15 \<longleftrightarrow> packed" using w(3) by (simp add: v)
  moreover have "(0x8000 :: guint16) = 2 ^ 15" by simp
  ultimately show "v AND 0x8000 = 0 \<longleftrightarrow> \<not> packed"
    by (simp only: and_exp_eq_0_iff_not_bit)
  have f: "unat (ucast v :: guint) = w" using w(1) by (simp add: unsigned_ucast_eq v take_bit_nat_eq_self)
  have "(0x0FFF :: guint) = mask 12" by (simp add: mask_numeral)
  then have "unat (ucast v AND 0x0FFF :: guint) = take_bit 12 (unat (ucast v :: guint))"
    by (simp only: take_bit_eq_mask [symmetric] unsigned_take_bit_eq)
  also have "\<dots> = n - 1" using w(2) by (simp add: f take_bit_eq_mod)
  also have "\<dots> = unat (of_nat (n - 1) :: guint)" using assms(2) by (intro unat_small [symmetric]) simp
  finally have "(ucast v AND 0x0FFF) = (of_nat (n - 1) :: guint)" by (rule unat_eqI)
  then show "(ucast v AND 0x0FFF) + 1 = (of_nat n :: guint)" using assms(1) by (simp add: of_nat_diff)
qed

lemma length_chunk_data: "length (chunk_data (Packed ks)) = toks_length ks"
  by simp

lemma lznt1_step_yields:
  assumes "tvb_wf t" "drop (q + a) (tvb_bytes t) = chunk_bytes c @ rest" "chunk_valid c"
    and "a < z" "z \<le> 2 ^ 24" "length out + length (chunk_data c) \<le> 2 ^ 31"
  shows "run_yields t out (lznt1_step ub (of_nat q) (of_nat z) (of_nat a))
    (Inl (of_nat (a + length (chunk_bytes c)))) (out @ chunk_data c)"
proof -
  define packed n where "packed = (case c of Raw _ \<Rightarrow> False | Packed _ \<Rightarrow> True)"
    and "n = (case c of Raw bs \<Rightarrow> length bs | Packed ks \<Rightarrow> length (groups_bytes 0 ks))"
  define body where "body = (case c of Raw bs \<Rightarrow> bs | Packed ks \<Rightarrow> groups_bytes 0 ks)"
  have c: "chunk_bytes c = header_bytes packed n @ body" "n = length body"
    by (cases c; simp add: packed_def n_def body_def)+
  have n: "1 \<le> n" "n \<le> 4096"
  proof -
    show "n \<le> 4096" using assms(3) by (cases c) (simp_all add: n_def)
    have "body \<noteq> []" using assms(3) by (cases c) (simp_all add: body_def groups_bytes.simps [of 0])
    then show "1 \<le> n" by (simp add: c(2) Suc_leI)
  qed
  let ?w = "(n - 1) + (if packed then 0xB000 else 0x3000)"
  let ?v = "of_nat ?w :: guint16"
  note header = header_word [OF n, of packed]
  have bytes: "drop (q + a) (tvb_bytes t) = of_nat (?w mod 256) # of_nat (?w div 256) # body @ rest"
    using assms(2) by (simp add: c(1) header_bytes_def Let_def)
  have "drop (q + (a + 2)) (tvb_bytes t) = drop 2 (drop (q + a) (tvb_bytes t))" by (simp add: drop_drop ac_simps)
  then have after: "drop (q + (a + 2)) (tvb_bytes t) = body @ rest" by (simp add: bytes numeral_2_eq_2)
  have get: "run_yields t out (returning (lz_get tvb_get_letohs (of_nat (q + a)))) ?v out"
    by (intro run_yields_returning lz_get16_yields [OF assms(1) bytes] header(1))
  have less: "(of_nat a :: gint) <s of_nat z"
  proof -
    have "a < 2 ^ 31" "z < 2 ^ 31" using assms(4,5) by simp_all
    with assms(4) show ?thesis by (simp only: word_sless_alt sint_small of_nat_less_iff)
  qed
  have offs: "of_nat q + of_nat a = (of_nat (q + a) :: gint)" "of_nat a + 2 = (of_nat (a + 2) :: gint)"
    "of_nat q + of_nat (a + 2) = (of_nat (q + (a + 2)) :: gint)" "unat (of_nat n :: guint) = n"
    "of_nat (a + 2) + of_nat n = (of_nat (a + 2 + n) :: gint)" "a + 2 + n = a + length (chunk_bytes c)"
    using n by (simp_all add: unat_small c header_bytes_def Let_def)
  show ?thesis
  proof (cases packed)
    case False
    then have raw: "chunk_data c = body" by (cases c) (simp_all add: packed_def body_def)
    have "run_yields t out (returning (lznt1_raw n (of_nat q) (of_nat (a + 2)))) (of_nat (a + 2 + n)) (out @ body)"
      unfolding c(2) by (rule run_yields_returning, rule lznt1_raw_yields [OF assms(1) after]) (use assms(6) raw in simp)
    moreover have "?v AND 0x8000 = 0" using header(2) False by blast
    ultimately show ?thesis
      unfolding lznt1_step_def if_P [OF less] offs(1,2) raw offs(6) [symmetric]
      by (intro run_yields_bind [OF get])
        (simp only: Let_def simp_thms(6) if_True header(3) offs, rule run_yields_bind, assumption,
          rule run_yields_returning, rule yields_return)
  next
    case True
    then obtain ks where ks: "c = Packed ks" by (cases c) (simp_all add: packed_def)
    then have body: "body = groups_bytes 0 ks" "chunk_data c = expand_toks ks []" by (simp_all add: body_def)
    have "run_yields t out (uncompress_chunk ub (of_nat (q + (a + 2))) (of_nat n)) True (out @ chunk_data c)"
      unfolding c(2) body
      by (rule uncompress_chunk_yields [OF assms(1)])
        (use after assms(3,6) ks body c(2) n in auto)
    moreover have "?v AND 0x8000 \<noteq> 0" using header(2) True by blast
    ultimately show ?thesis
      unfolding lznt1_step_def if_P [OF less] offs(1,2) offs(6) [symmetric]
      by (intro run_yields_bind [OF get])
        (simp only: Let_def if_False header(3) offs, rule run_yields_bind, assumption,
          simp only: simp_thms if_False offs, rule run_yields_returning, rule yields_return)
  qed
qed

lemma lznt1_loop_yields:
  assumes "tvb_wf t" "z \<le> 2 ^ 24" "drop (q + a) (tvb_bytes t) = lznt1_encode cs @ rest"
    and "\<forall>c\<in>set cs. chunk_valid c" "z = a + length (lznt1_encode cs)"
    and "length out + length (lznt1_data cs) \<le> 2 ^ 31"
  shows "run_yields t out (loopO (lznt1_step ub (of_nat q) (of_nat z)) (of_nat a)) True (out @ lznt1_data cs)"
  using assms(3-)
proof (induction cs arbitrary: a out)
  case Nil
  have "\<not> (of_nat a :: gint) <s of_nat z" using Nil by (simp add: lznt1_encode_def word_sless_alt)
  then have "run_yields t out (lznt1_step ub (of_nat q) (of_nat z) (of_nat a)) (Inr True) out"
    unfolding lznt1_step_def by (simp only: if_False) (rule run_yields_returning, rule yields_return)
  then show ?case by (auto simp: lznt1_data_def intro: run_yields_done)
next
  case (Cons c cs)
  let ?a = "a + length (chunk_bytes c)"
  have encode: "lznt1_encode (c # cs) = chunk_bytes c @ lznt1_encode cs"
    and data: "lznt1_data (c # cs) = chunk_data c @ lznt1_data cs"
    by (simp_all add: lznt1_encode_def lznt1_data_def)
  have "0 < length (chunk_bytes c)" by (cases c) (simp_all add: header_bytes_def Let_def)
  then have "a < z" using Cons.prems(3) encode by simp
  have "run_yields t out (lznt1_step ub (of_nat q) (of_nat z) (of_nat a)) (Inl (of_nat ?a)) (out @ chunk_data c)"
    by (rule lznt1_step_yields [OF assms(1) _ _ \<open>a < z\<close> assms(2)])
      (use Cons.prems encode data in auto)
  moreover have "run_yields t (out @ chunk_data c) (loopO (lznt1_step ub (of_nat q) (of_nat z)) (of_nat ?a)) True
      ((out @ chunk_data c) @ lznt1_data cs)"
  proof (rule Cons.IH)
    have "drop (q + ?a) (tvb_bytes t) = drop (length (chunk_bytes c)) (drop (q + a) (tvb_bytes t))"
      by (simp add: drop_drop ac_simps)
    then show "drop (q + ?a) (tvb_bytes t) = lznt1_encode cs @ rest" using Cons.prems(1) encode by simp
  qed (use Cons.prems encode data in auto)
  ultimately show ?case unfolding data append_assoc by (rule run_yields_again)
qed

text \<open>
  C3. Round trip of LZNT1: wherever in a buffer of whatever kind the encoding of a list of chunks lies,
  stored ones and ones made of literals and copies, decompressing it yields a buffer with exactly the
  bytes the chunks stand for, and the input buffer still shows what it did.
\<close>

theorem lznt1_roundtrip:
  assumes "tvb_wf t" "tvb_bytes t = pre @ lznt1_encode cs @ post" "\<forall>c\<in>set cs. chunk_valid c"
    and "length (lznt1_encode cs) \<le> 2 ^ 24" "length (lznt1_data cs) < 2 ^ 31"
  shows "\<exists>out t'. tvb_uncompress_lznt1 ub (Some t) (of_nat (length pre)) (of_nat (length (lznt1_encode cs))) =
      Some (Inr (Some out), Some t') \<and> tvb_bytes out = lznt1_data cs \<and> tvb_wf out \<and> same_view t t'"
proof -
  let ?z = "length (lznt1_encode cs)" and ?q = "length pre"
  let ?s = "\<lparr>src = Some t, obuf = wmem_array_sized_new 1 (of_nat ?z * 2)\<rparr>"
  have "drop (?q + 0) (tvb_bytes t) = lznt1_encode cs @ post" by (simp add: assms(2))
  from lznt1_loop_yields [OF assms(1,4) this assms(3), of "[]" ub]
  have run: "run_yields t [] (loopO (lznt1_step ub (of_nat ?q) (of_nat ?z)) 0) True (lznt1_data cs)"
    using assms(5) by simp
  have "lz_at t [] ?s" using byte_array_new assms(1) by (simp add: lz_at_def same_view_refl)
  with run obtain s where s: "loopO (lznt1_step ub (of_nat ?q) (of_nat ?z)) 0 ?s = Some (Inr True, s)"
    "lz_at t (lznt1_data cs) s" unfolding run_yields_def by blast
  have "sint (of_nat ?z :: gint) = int ?z" using assms(4) by (intro sint_small) simp
  then have "\<not> MAX_INPUT_SIZE <s of_nat ?z"
    using assms(4) by (simp add: word_sless_alt MAX_INPUT_SIZE_def sint_gint)
  with s(1) have do_it: "lznt1_do_uncompress ub (of_nat ?q) (of_nat ?z) ?s = Some (Inr True, s)"
    by (simp add: lznt1_do_uncompress_def)
  from s(2) obtain t' where t': "src s = Some t'" "same_view t t'" "byte_array (obuf s) (lznt1_data cs)"
    by (rule lz_atE)
  obtain out where "tvb_new_real_data (Some (lznt1_data cs)) (of_nat (length (lznt1_data cs)))
      (of_nat (length (lznt1_data cs))) = Inr out" "tvb_wf out" "tvb_bytes out = lznt1_data cs"
    by (rule tvb_new_real_data_bytes [OF assms(5)])
  then show ?thesis
    using do_it t' byte_array_copy [OF t'(3)]
    by (simp add: tvb_uncompress_lznt1_def uncompress_with_def Let_def byte_array_count [OF t'(3)])
qed

theorem lznt1_roundtrip_witness:
  "\<exists>t out t'. tvb_bytes t = [0x99, 3, 0xB0, 2, 97, 2, 0, 0x42] \<and>
     tvb_uncompress_lznt1 (\<lambda>_ _. 0) (Some t) 1 6 = Some (Inr (Some out), Some t') \<and>
     tvb_bytes out = [97, 97, 97, 97, 97, 97]"
proof -
  obtain t where t: "tvb_wf t" "tvb_bytes t = [0x99, 3, 0xB0, 2, 97, 2, 0, 0x42]"
    using tvb_new_real_data_bytes [of "[0x99, 3, 0xB0, 2, 97, 2, 0, 0x42]"] by auto
  let ?c = "Packed [Lit 97, Copy 1 5]"
  have encode: "lznt1_encode [?c] = [3, 0xB0, 2, 97, 2, 0]"
    by (simp add: lznt1_encode_def groups_bytes.simps flag_byte_def header_bytes_def Let_def copy_word_def
        disp_bits.simps)
  have data: "lznt1_data [?c] = [97, 97, 97, 97, 97, 97]"
    by (simp add: lznt1_data_def numeral_eq_Suc)
  have "chunk_valid ?c" by (simp add: groups_bytes.simps disp_bits.simps)
  then have "\<forall>c\<in>set [?c]. chunk_valid c" by simp
  from lznt1_roundtrip [OF t(1) _ this, of "[0x99]" "[0x42]" "\<lambda>_ _. 0"] t(2) show ?thesis
    unfolding encode data by (simp, blast)
qed

text \<open>
  A compressed chunk that starts with a copy makes the code shift by a negative number of bits, which C
  leaves undefined: before the first byte of a chunk, \<open>out_off - 1\<close> has all bits set.
\<close>

lemma match_split_at_start: "match_split (0 - 1) 0x0FFF 12 = (0, - 16)"
  by code_simp

end
