(* ===== verification/Spec2Isabelle.thy ===== *)
theory Spec2Isabelle
  imports TvbProps WmemTreeOps MatchString FtypeProps ProtoTreeMove ProtoTreeFields DfilterSafety PacketCalls LzRoundtrip
begin

text \<open>
  A verification library for the packet dissection engine that wasm-packet-dissector compiles to
  WebAssembly: the parts of c/3rd/wireshark that the dissectors and the display filters run on.

  The parts, and the theories that model them, each on the ones before it:

  \<^item> Prelude: the C integer types as words, the exceptions of epan/exceptions.h as values of a sum
    type (\<open>res\<close>; \<open>Fault\<close> is a failed assertion, a NULL or dangling pointer, or an access outside an
    array), numbers written as bytes, \<open>strcmp\<close>.
  \<^item> Pint: wsutil/pint.h and wsutil/sign_ext.h.
  \<^item> Tvbuff, TvbOps, TvbRefine, TvbAccess, TvbBits, TvbProps: the testy, virtual buffer
    (epan/tvbuff.c and its kinds): data, bounds checks, constructors, copying and pointing, the
    byte string a buffer stands for, the accessors, bit fields, and the contract of them all: every
    operation returns the slice of the byte string or throws a bounds exception.
  \<^item> WmemTree, WmemTreeOps: the red-black tree of epan/wmem/wmem_tree.c as a zipper (the parent
    pointers are the path to the root): insertion with its repairs, the lookups, trees of trees for
    array keys, string keys, removal and traversal; the invariants of colours, black heights and order.
  \<^item> ValueString, MatchString: epan/value_string.c: the tables from values to strings, with the lookup
    that an extended table chooses at its first use, and the range and prefix tables.
  \<^item> Registrar, RegistrarProps: the registrar of header fields (epan/proto.c): the memory of the structures
    (\<open>hfi\<close>) and, kept apart from it, which entries of the table \<open>gpa_hfinfo\<close> are cleared (\<open>cleared\<close>): clearing
    an entry frees the structure only of a field that is a protocol's own. \<open>tmp_fld_check_assert\<close> with all the
    checks that end the program. \<open>names reg byname\<close> says that \<open>byname\<close> lists, for every filter name, the
    fields of that name in the order of the links, and registration, removal and lookup keep it.
  \<^item> Drange, DrangeProps, Ftypes, FtypeProps: byte ranges (epan/dfilter/drange.c), slicing and comparing
    field values (epan/ftypes). The locale \<open>sliceable\<close> is the interface that slicing needs of a type of
    values; it is interpreted on the model of the field types.
  \<^item> Gencode: epan/dfilter/gencode.c, from syntax trees to code, with jump threading and the renumbering
    of constants. Dfvm: epan/dfilter/dfvm.c, the machine, and the end of \<open>dfilter_compile\<close>.
  \<^item> DfilterSpec: the meaning of a syntax tree (\<open>eval_test\<close>) and an abstract machine (\<open>step\<close>).
    GencodeProps and GencodeTests show that the emitted code computes the meaning on the abstract
    machine, GencodeRegs that its operands are allocated registers, Threading that jump threading ends
    and preserves runs, DfilterRun that the arrays of dfvm.c simulate the abstract machine; DfilterProps
    puts them together. DfilterFields shows which fields a filter looks at; its locale \<open>emission\<close> is the
    interface of the generator to invariants of the code it has emitted.

  \<^item> FtypeTable: the tables of the field types (epan/ftypes/ftype-*.c): which comparisons, slices and
    readers each type has. Dfunctions: the functions of the filter language (epan/dfilter/dfunctions.c).
    Semcheck: the semantic check (epan/dfilter/semcheck.c) and \<open>dfilter_compile\<close> from the parsed tree on.
  \<^item> SemcheckTypes, SemcheckProps, SemcheckSound, SemcheckMain: classes of types and of their values,
    what trees of the grammar look like (\<open>parsed_test\<close>), which of them the check is sound for (\<open>sound_test\<close>), what
    it leaves (\<open>typed_test\<close>), and that the check of every function of semcheck.c leads from the one to the other.
    DfilterSafety: a filter of those \<open>sound_test\<close> describes that passes the check compiles and never aborts on
    typed values. Not described are fields whose comparisons are not modelled (addresses, protocols, times,
    floating point numbers, GUIDs) and the defects that the check overlooks, of which one is shown to abort.

  \<^item> Action: operations that change a state and may throw, as the functions of proto.c do.
  \<^item> ProtoTree: the protocol tree (epan/proto.c): the memory of one tree is an array of nodes whose
    pointers are indices into it, the shared \<open>tree_data\<close> is a record beside it, and the table
    \<open>interesting_hfids\<close> an association list. The nodes, the adding of items with their values, lengths and
    flags, the faking of items of a tree that nobody sees, priming, traversal, search and moving.
    ProtoTreeProps: \<open>tree_ok\<close>, the links of the nodes describe a finite tree of distinct nodes, and adding
    keeps it. ProtoTreeWalk: the traversal visits the nodes of that tree in preorder, and the search
    finds the first match. ProtoTreeMove: moving an item behind another. ProtoTreeFields: what a run of
    calls leaves in the table of interesting fields, and that a filter run on a tree that is built only for
    the primed fields gives what it gives on the full one.

  \<^item> Protocols: the protocols (epan/proto.c) over the registrar of their fields: registering and
    deregistering them, in name only and with fields, finding, enabling and disabling. ProtocolProps:
    \<open>registry_ok\<close>, the tables of names, the list and the fields of the protocols fit together, is kept, and a
    switch decides about the protocol and those in name only below it.
  \<^item> DissectorTables: the tables of epan/packet.c from numbers, strings and GUIDs to handles of dissectors, with
    the handles for Decode As, the heuristic lists, the dependencies and the postdissectors. What an
    operation does to the entry for a key is one function (\<open>add_entry\<close>, \<open>change_entry\<close>, \<open>reset_entry\<close>,
    \<open>delete_entry\<close>) with the key it looks by and the key it stores by. DissectorTableProps: the locale
    \<open>selection_table\<close> is the interface of a table to its users, what is registered and what the user has
    chosen; it is interpreted for numbers and for strings, and a table of numbers refines it under every
    sequence of calls. For strings in a table that does not tell cases apart the two keys differ.
  \<^item> Packet: calling dissectors (epan/packet.c): the functions behind the pointers are a parameter, the state is
    the \<open>packet_info\<close>, the protocol tree, the protocols and the tables. PacketProps: what is restored when a
    call returns, whatever the dissectors do, what becomes of each exception in an error packet, and that rejected packets leave no layer;
    \<open>polite\<close> is what a dissector has to keep for that, and every way of calling one is polite in turn.
    PacketCalls: calls by a table, the fallback to the data dissector, and a call that does not restore.

  \<^item> WmemArray: the growable arrays of epan/wmem/wmem_array.c. \<open>contents\<close> is the sequence an array stands for;
    with \<open>array_fits\<close>, the bound under which the 32-bit sizes do not wrap, appending to the array is appending to it.
  \<^item> Lz: the decompressor of epan/tvbuff_lznt1.c, which reads a buffer and fills such an array, one definition for
    each of its loops. LzSafety: whatever the input, its loops end and all accesses are in bounds (\<open>run_safe\<close>, with one
    rule for loops by a measure). LzRoundtrip: an encoder from literals and copies to LZNT1, written from the format,
    and the proof that decompressing its output gives back what it stands for.

  How the parts interact: the display filter engine reads the registrar (the fields of a name) and the
  field values; the generator and the machine share the instructions and the registers; the values come
  from the buffers. The machine sees a protocol tree as the table of the values of each field
  (\<open>filter_view\<close> of the tree); the tree is told by \<open>epan_dissect_prime_dfilter\<close> which fields the filter looks at.

  Dissectors are called by the tables with the protocol tree they add to; the tables know protocols by their
  place in the memory of the protocols, whose fields are those of the registrar in the state of the tree.

  Bounds: the tree keeps the limits of proto.c, MAX_TREE_ITEMS on its items, checked when an item is added,
  and MAX_TREE_LEVELS on the depth that the check climbs, which is also why the climb ends; calls of dissectors keep PINFO_LAYER_MAX_RECURSION_DEPTH on the
  layers.

  Loops that may not end are partial functions into \<open>option\<close> (the walks along the lists of fields, the
  jump threading, the main loop of the machine, the loops of the decompressor); \<open>returned\<close> turns a run that does not end into a
  \<open>Fault\<close>, so that every theorem with a result of the form \<open>Inr\<close> also says that the loop ends.

  Not modelled: allocation and freeing, except as flags or cleared entries where later code depends on
  it; the scanner and the parser of filters, which are generated from epan/dfilter/scanner.l and
  grammar.lemon (\<open>parsed_test\<close> describes the trees of the grammar); reading a value from text, the text of a
  value, regular expressions and printf, which are parameters; the texts of error messages; of the protocol tree the texts of items,
  the functions for times, addresses, bit fields and expert items; of packet.c dissect_record and dissect_file, which
  fill the frame from the capture file and add the item of a malformed packet, the tables with functions of
  their own, the removal of whole tables, the preferences, the walks over the tables for the user interface
  and the lists of routines that are called around a capture file; the list of entries or of postdissectors
  that a loop is going through is read once, so a dissector that changes it while it is called is not
  covered; the sorting of arrays; the buffers that zlib, brotli and the two other variants of LZ77 decompress; the
  dissectors, capture files, columns, statistics, address resolution and the user interface.
\<close>

end
